(* ===== verification/Js_Prelude.thy ===== *)
theory Js_Prelude
  imports Main "HOL-Library.Word" "HOL-Library.AList"
begin

text \<open>
  The vocabulary the component theories share.

  \<^item> JavaScript strings are lists of UTF-16 code units (\<open>js_string\<close>); \<open>js ''...''\<close> embeds an
    ASCII literal of the source. \<open>utf8_length\<close> is what \<open>TextEncoder\<close> produces for a string.
  \<^item> \<open>jsval\<close> is an untrusted value of TypeScript type \<open>unknown\<close> as a \<open>MessageEvent\<close> delivers it:
    the result of a structured clone, so it holds no functions.
  \<^item> Insertion-ordered \<open>Map\<close>s are association lists with \<open>AList.update\<close> and \<open>AList.delete\<close>.
  \<^item> \<open>machine\<close> is the contract every stateful component of the library is given: an initial
    state, a step that emits outputs, and an invariant that the steps keep.
\<close>

named_theorems js_defs \<open>definitions that the validators unfold to\<close>

section \<open>Strings\<close>

type_synonym code_unit = "16 word"
type_synonym js_string = "code_unit list"

definition unit_of :: "char \<Rightarrow> code_unit" where
  "unit_of c = of_nat (of_char c)"

definition js :: "string \<Rightarrow> js_string" where
  "js s = map unit_of s"

lemma unat_unit_of: "unat (unit_of c) = of_char c"
proof -
  have "(of_char c :: nat) < 256"
    using of_char_mod_256 [where 'a = nat, of c] by (metis mod_less_divisor zero_less_numeral)
  then have "(of_char c :: nat) < 65536" by linarith
  then show ?thesis
    by (simp add: unit_of_def unat_of_nat take_bit_eq_mod)
qed

lemma unit_of_inject [simp]: "unit_of c = unit_of d \<longleftrightarrow> c = d"
  by (metis unat_unit_of of_char_eq_iff)

lemma js_inject [simp]: "js s = js t \<longleftrightarrow> s = t"
  unfolding js_def by (simp add: inj_map_eq_map inj_def)

lemma js_Nil [simp]: "js s = [] \<longleftrightarrow> s = []" "[] = js s \<longleftrightarrow> s = []"
  by (auto simp: js_def)

lemma js_empty [simp]: "js [] = []"
  by simp

lemma js_append: "js (s @ t) = js s @ js t"
  by (simp add: js_def)

lemma length_js [simp]: "length (js s) = length s"
  by (simp add: js_def)

text \<open>\<open>String(n)\<close> for a non-negative integer.\<close>

fun show_nat :: "nat \<Rightarrow> string" where
  "show_nat n =
     (if n < 10 then [char_of (48 + n)] else show_nat (n div 10) @ [char_of (48 + n mod 10)])"

declare show_nat.simps [simp del]

definition js_nat :: "nat \<Rightarrow> js_string" where
  "js_nat n = js (show_nat n)"

lemma show_nat_nonempty [simp]: "show_nat n \<noteq> []"
  by (subst show_nat.simps) simp

text \<open>
  The length of the UTF-8 encoding: a surrogate pair takes four bytes, a lone surrogate is
  replaced by U+FFFD and takes three.
\<close>

definition high_surrogate :: "code_unit \<Rightarrow> bool" where
  "high_surrogate u \<longleftrightarrow> 0xD800 \<le> unat u \<and> unat u \<le> 0xDBFF"

definition low_surrogate :: "code_unit \<Rightarrow> bool" where
  "low_surrogate u \<longleftrightarrow> 0xDC00 \<le> unat u \<and> unat u \<le> 0xDFFF"

definition unit_utf8_length :: "code_unit \<Rightarrow> nat" where
  "unit_utf8_length u =
     (if unat u < 0x80 then 1 else if unat u < 0x800 then 2 else 3)"

fun utf8_length :: "js_string \<Rightarrow> nat" where
  "utf8_length [] = 0"
| "utf8_length [u] = unit_utf8_length u"
| "utf8_length (u # v # s) =
     (if high_surrogate u \<and> low_surrogate v then 4 + utf8_length s
      else unit_utf8_length u + utf8_length (v # s))"

lemma unit_utf8_length_bounds: "1 \<le> unit_utf8_length u" "unit_utf8_length u \<le> 3"
  by (simp_all add: unit_utf8_length_def)

lemma utf8_length_lower: "length s \<le> 2 * utf8_length s"
proof (induction s rule: utf8_length.induct)
  case (2 u)
  then show ?case using unit_utf8_length_bounds [of u] by simp
next
  case (3 u v s)
  then show ?case using unit_utf8_length_bounds [of u] by auto
qed simp

lemma utf8_length_upper: "utf8_length s \<le> 3 * length s"
proof (induction s rule: utf8_length.induct)
  case (2 u)
  then show ?case using unit_utf8_length_bounds [of u] by simp
next
  case (3 u v s)
  then show ?case using unit_utf8_length_bounds [of u] by auto
qed simp

section \<open>Untrusted values\<close>

text \<open>
  Numbers are \<open>JInt\<close> when they are integral and \<open>JNonInteger\<close> otherwise (fractions, infinities,
  NaN: the validators reject them alike). \<open>JPort\<close> is a transferred \<open>MessagePort\<close>: an object
  without own enumerable properties that has the three port methods.
\<close>

datatype jsval =
    JUndef
  | JNull
  | JBool bool
  | JInt int
  | JNonInteger
  | JStr js_string
  | JArr "jsval list"
  | JObj "(js_string \<times> jsval) list"
  | JPort nat

type_synonym js_fields = "(js_string \<times> jsval) list"

fun own_fields :: "jsval \<Rightarrow> js_fields" where
  "own_fields (JObj fs) = fs"
| "own_fields _ = []"

text \<open>Property read: \<open>undefined\<close> for a missing property.\<close>

definition getp :: "jsval \<Rightarrow> string \<Rightarrow> jsval" where
  "getp v k = (case map_of (own_fields v) (js k) of None \<Rightarrow> JUndef | Some x \<Rightarrow> x)"

definition has_own :: "jsval \<Rightarrow> string \<Rightarrow> bool" where
  "has_own v k \<longleftrightarrow> js k \<in> fst ` set (own_fields v)"

definition only_keys :: "jsval \<Rightarrow> string list \<Rightarrow> bool" where
  "only_keys v ks \<longleftrightarrow> list_all (\<lambda>f. fst f \<in> js ` set ks) (own_fields v)"

fun is_record :: "jsval \<Rightarrow> bool" where
  "is_record (JObj _) = True"
| "is_record (JPort _) = True"
| "is_record _ = False"

fun is_string :: "jsval \<Rightarrow> bool" where
  "is_string (JStr _) = True"
| "is_string _ = False"

definition max_safe_integer :: int where
  "max_safe_integer = 9007199254740991"

fun is_safe_integer :: "jsval \<Rightarrow> bool" where
  "is_safe_integer (JInt i) \<longleftrightarrow> \<bar>i\<bar> \<le> max_safe_integer"
| "is_safe_integer _ \<longleftrightarrow> False"

text \<open>Reading a checked value at its TypeScript type (a cast in the source).\<close>

fun the_str :: "jsval \<Rightarrow> js_string" where
  "the_str (JStr s) = s"
| "the_str _ = []"

fun the_int :: "jsval \<Rightarrow> int" where
  "the_int (JInt i) = i"
| "the_int _ = 0"

definition the_nat :: "jsval \<Rightarrow> nat" where
  "the_nat v = nat (the_int v)"

fun the_arr :: "jsval \<Rightarrow> jsval list" where
  "the_arr (JArr xs) = xs"
| "the_arr _ = []"

definition opt_val :: "('a \<Rightarrow> jsval) \<Rightarrow> 'a option \<Rightarrow> jsval" where
  "opt_val f x = (case x of None \<Rightarrow> JUndef | Some y \<Rightarrow> f y)"

definition the_opt :: "(jsval \<Rightarrow> 'a) \<Rightarrow> jsval \<Rightarrow> 'a option" where
  "the_opt f v = (if v = JUndef then None else Some (f v))"

fun is_array :: "jsval \<Rightarrow> bool" where
  "is_array (JArr _) = True"
| "is_array _ = False"

lemma is_string_iff: "is_string v \<longleftrightarrow> (\<exists>s. v = JStr s)"
  by (cases v) auto

lemma is_array_iff: "is_array v \<longleftrightarrow> (\<exists>xs. v = JArr xs)"
  by (cases v) auto

lemma is_safe_integer_iff:
  "is_safe_integer v \<longleftrightarrow> (\<exists>i. v = JInt i \<and> \<bar>i\<bar> \<le> max_safe_integer)"
  by (cases v) auto

lemma getp_JObj: "getp (JObj fs) k = (case map_of fs (js k) of None \<Rightarrow> JUndef | Some x \<Rightarrow> x)"
  by (simp add: getp_def)

lemma getp_Nil [simp]: "getp (JObj []) k = JUndef"
  by (simp add: getp_def)

lemma getp_Cons [simp]:
  "getp (JObj ((js k', v) # fs)) k = (if k = k' then v else getp (JObj fs) k)"
  by (simp add: getp_def)

lemma getp_update [simp]:
  "getp (JObj (AList.update (js k') v fs)) k = (if k = k' then v else getp (JObj fs) k)"
  by (simp add: getp_def update_conv')

lemma has_own_Nil [simp]: "\<not> has_own (JObj []) k"
  by (simp add: has_own_def)

lemma has_own_Cons [simp]:
  "has_own (JObj ((js k', v) # fs)) k \<longleftrightarrow> k = k' \<or> has_own (JObj fs) k"
  by (auto simp: has_own_def)

lemma has_own_update [simp]:
  "has_own (JObj (AList.update (js k') v fs)) k \<longleftrightarrow> k = k' \<or> has_own (JObj fs) k"
  by (auto simp: has_own_def dom_update)

lemma only_keys_Nil [simp]: "only_keys (JObj []) ks"
  by (simp add: only_keys_def)

lemma only_keys_Cons [simp]:
  "only_keys (JObj ((js k, v) # fs)) ks \<longleftrightarrow> k \<in> set ks \<and> only_keys (JObj fs) ks"
  by (auto simp: only_keys_def)

lemma only_keys_update [simp]:
  "k \<in> set ks \<Longrightarrow>
    only_keys (JObj (AList.update (js k) v fs)) ks \<longleftrightarrow> only_keys (JObj fs) ks"
  by (induction fs) (auto simp: only_keys_def)

lemma the_nat_JInt [simp]: "the_nat (JInt i) = nat i"
  by (simp add: the_nat_def)

lemma opt_val_simps [simp]: "opt_val f None = JUndef" "opt_val f (Some x) = f x"
  by (simp_all add: opt_val_def)

lemma the_opt_JUndef [simp]: "the_opt f JUndef = None"
  by (simp add: the_opt_def)

lemma the_opt_opt_val [simp]:
  "(\<And>y. f y \<noteq> JUndef) \<Longrightarrow> (\<And>y. g (f y) = y) \<Longrightarrow> the_opt g (opt_val f x) = x"
  by (cases x) (simp_all add: the_opt_def)

section \<open>Errors\<close>

text \<open>A thrown exception is the left side of a sum.\<close>

datatype js_error = Js_Error js_string | Range_Error js_string | Type_Error js_string

section \<open>Components as machines\<close>

text \<open>
  A run feeds a list of events to a step function and records what every event emitted.
\<close>

fun run :: "('e \<Rightarrow> 's \<Rightarrow> 'o \<times> 's) \<Rightarrow> 'e list \<Rightarrow> 's \<Rightarrow> ('e \<times> 'o) list \<times> 's" where
  "run step [] s = ([], s)"
| "run step (e # es) s =
     (let (out, s') = step e s; (tr, s'') = run step es s' in ((e, out) # tr, s''))"

inductive reachable ::
  "('e \<Rightarrow> 's \<Rightarrow> 'o \<times> 's) \<Rightarrow> ('e \<Rightarrow> bool) \<Rightarrow> 's \<Rightarrow> 's \<Rightarrow> bool" for step ok s0 where
  reachable_init: "reachable step ok s0 s0"
| reachable_step: "reachable step ok s0 s \<Longrightarrow> ok e \<Longrightarrow> reachable step ok s0 (snd (step e s))"

lemma snd_run_Cons: "snd (run step (e # es) s) = snd (run step es (snd (step e s)))"
  by (simp add: Let_def case_prod_beta)

lemma fst_run_Cons:
  "fst (run step (e # es) s) = (e, fst (step e s)) # fst (run step es (snd (step e s)))"
  by (simp add: Let_def case_prod_beta)

lemma snd_run_snoc: "snd (run step (es @ [e]) s) = snd (step e (snd (run step es s)))"
  by (induction es arbitrary: s) (simp_all add: Let_def case_prod_beta)

lemma fst_run_snoc:
  "fst (run step (es @ [e]) s) =
     fst (run step es s) @ [(e, fst (step e (snd (run step es s))))]"
  by (induction es arbitrary: s) (simp_all add: Let_def case_prod_beta)

lemma run_reachable:
  "list_all ok es \<Longrightarrow> reachable step ok s0 (snd (run step es s0))"
  by (induction es rule: rev_induct) (simp_all add: snd_run_snoc reachable_init reachable_step)

lemma reachable_run:
  "reachable step ok s0 s \<Longrightarrow> \<exists>es. list_all ok es \<and> s = snd (run step es s0)"
proof (induction rule: reachable.induct)
  case reachable_init
  show ?case by (rule exI [of _ "[]"]) simp
next
  case (reachable_step s e)
  then obtain es where "list_all ok es" "s = snd (run step es s0)" by blast
  with reachable_step.hyps show ?case
    by (intro exI [of _ "es @ [e]"]) (simp add: snd_run_snoc)
qed

text \<open>
  The contract of a stateful component: every admissible event keeps the invariant. The
  client's facts are about reachable states and whole runs.
\<close>

locale machine =
  fixes init :: 's
    and step :: "'e \<Rightarrow> 's \<Rightarrow> 'o \<times> 's"
    and ok :: "'e \<Rightarrow> bool"
    and inv :: "'s \<Rightarrow> bool"
  assumes inv_init: "inv init"
    and inv_step: "inv s \<Longrightarrow> ok e \<Longrightarrow> inv (snd (step e s))"
begin

lemma inv_reachable: "reachable step ok init s \<Longrightarrow> inv s"
  by (induction rule: reachable.induct) (simp_all add: inv_init inv_step)

lemma inv_run: "list_all ok es \<Longrightarrow> inv (snd (run step es init))"
  by (rule inv_reachable [OF run_reachable])

end

text \<open>
  A history relation ties the recorded trace to the state. If every step from a state that
  satisfies the invariant extends the history, it holds of every run.
\<close>

locale historied_machine = machine +
  fixes hist :: "('e \<times> 'o) list \<Rightarrow> 's \<Rightarrow> bool"
  assumes hist_init: "hist [] init"
    and hist_step: "inv s \<Longrightarrow> ok e \<Longrightarrow> hist tr s \<Longrightarrow>
      hist (tr @ [(e, fst (step e s))]) (snd (step e s))"
begin

lemma hist_run:
  "list_all ok es \<Longrightarrow> hist (fst (run step es init)) (snd (run step es init))"
  by (induction es rule: rev_induct)
    (simp_all add: hist_init fst_run_snoc snd_run_snoc hist_step inv_run)

end

end
