(* ===== verification/Cache_Wire.thy ===== *)
theory Cache_Wire
  imports Js_Prelude
begin

text \<open>
  The wire protocol of the normalized GraphQL cache
  (\<open>apps/web/src/lib/graphql-cache/protocol.ts\<close>): cache revisions, the search arguments, the
  response and push messages, and the non-throwing validators that guard every host boundary.

  The validators work on untrusted \<open>jsval\<close>s as the source does. The TypeScript types of the
  messages are datatypes; \<open>encode_*\<close> gives the JavaScript object of a typed message, so that
  the theorems can say that the validators accept exactly the well-formed typed messages.
\<close>

section \<open>Cache revisions\<close>

definition max_cache_revision :: nat where
  "max_cache_revision = 18446744073709551615"

definition is_digit :: "code_unit \<Rightarrow> bool" where
  "is_digit u \<longleftrightarrow> 48 \<le> unat u \<and> unat u \<le> 57"

text \<open>The pattern \<open>^(0|[1-9][0-9]*)$\<close>.\<close>

definition canonical_decimal :: "js_string \<Rightarrow> bool" where
  "canonical_decimal s \<longleftrightarrow>
     s = js ''0'' \<or>
     (case s of [] \<Rightarrow> False | u # us \<Rightarrow> is_digit u \<and> unat u \<noteq> 48 \<and> list_all is_digit us)"

text \<open>\<open>BigInt(value)\<close> on a string of decimal digits.\<close>

definition decimal_value :: "js_string \<Rightarrow> nat" where
  "decimal_value = foldl (\<lambda>n u. 10 * n + (unat u - 48)) 0"

fun isCacheRevision :: "jsval \<Rightarrow> bool" where
  "isCacheRevision (JStr s) \<longleftrightarrow> canonical_decimal s \<and> decimal_value s \<le> max_cache_revision"
| "isCacheRevision _ \<longleftrightarrow> False"

definition parseCacheRevision :: "jsval \<Rightarrow> js_error + js_string" where
  "parseCacheRevision v =
     (if \<not> isCacheRevision v then Inl (Type_Error (js ''invalid cache revision''))
      else Inr (the_str v))"

definition INITIAL_CACHE_REVISION :: js_string where
  "INITIAL_CACHE_REVISION = js ''0''"

section \<open>Record keys and search arguments\<close>

definition MAX_RECORD_SELECTION_PAGE_SIZE :: int where
  "MAX_RECORD_SELECTION_PAGE_SIZE = 500"

definition MAX_CACHE_SEARCH_QUERY_BYTES :: nat where
  "MAX_CACHE_SEARCH_QUERY_BYTES = 512"

definition MAX_NORMALIZED_RECORD_KEY_LENGTH :: nat where
  "MAX_NORMALIZED_RECORD_KEY_LENGTH = 1024"

definition is_upper :: "code_unit \<Rightarrow> bool" where
  "is_upper u \<longleftrightarrow> 65 \<le> unat u \<and> unat u \<le> 90"

definition is_lower :: "code_unit \<Rightarrow> bool" where
  "is_lower u \<longleftrightarrow> 97 \<le> unat u \<and> unat u \<le> 122"

definition is_underscore :: "code_unit \<Rightarrow> bool" where
  "is_underscore u \<longleftrightarrow> unat u = 95"

definition is_colon :: "code_unit \<Rightarrow> bool" where
  "is_colon u \<longleftrightarrow> unat u = 58"

definition name_start :: "code_unit \<Rightarrow> bool" where
  "name_start u \<longleftrightarrow> is_upper u \<or> is_lower u \<or> is_underscore u"

definition name_char :: "code_unit \<Rightarrow> bool" where
  "name_char u \<longleftrightarrow> name_start u \<or> is_digit u"

text \<open>The pattern \<open>^[A-Za-z_][A-Za-z0-9_]*:\<close>.\<close>

definition typename_prefix :: "js_string \<Rightarrow> bool" where
  "typename_prefix s \<longleftrightarrow>
     (case s of [] \<Rightarrow> False
      | u # us \<Rightarrow> name_start u \<and>
          (case dropWhile name_char us of [] \<Rightarrow> False | c # _ \<Rightarrow> is_colon c))"

fun isValidNormalizedRecordKey :: "jsval \<Rightarrow> bool" where
  "isValidNormalizedRecordKey (JStr s) \<longleftrightarrow>
     length s \<le> MAX_NORMALIZED_RECORD_KEY_LENGTH \<and> typename_prefix s"
| "isValidNormalizedRecordKey _ \<longleftrightarrow> False"

definition isValidCacheSearchProfile :: "jsval \<Rightarrow> bool" where
  "isValidCacheSearchProfile v \<longleftrightarrow> v = JStr (js ''quick-access-v1'')"

definition isValidCacheSearchLimit :: "jsval \<Rightarrow> bool" where
  "isValidCacheSearchLimit v \<longleftrightarrow>
     is_safe_integer v \<and> 1 \<le> the_int v \<and> the_int v \<le> MAX_RECORD_SELECTION_PAGE_SIZE"

fun isValidCacheSearchQuery :: "jsval \<Rightarrow> bool" where
  "isValidCacheSearchQuery (JStr s) \<longleftrightarrow> utf8_length s \<le> MAX_CACHE_SEARCH_QUERY_BYTES"
| "isValidCacheSearchQuery _ \<longleftrightarrow> False"

text \<open>The pattern \<open>^[a-z_]{1,64}$\<close>.\<close>

fun isValidCacheSearchBucket :: "jsval \<Rightarrow> bool" where
  "isValidCacheSearchBucket (JStr s) \<longleftrightarrow>
     1 \<le> length s \<and> length s \<le> 64 \<and> list_all (\<lambda>u. is_lower u \<or> is_underscore u) s"
| "isValidCacheSearchBucket _ \<longleftrightarrow> False"

definition isValidCacheSearchNowMs :: "jsval \<Rightarrow> bool" where
  "isValidCacheSearchNowMs v \<longleftrightarrow> is_safe_integer v \<and> 0 \<le> the_int v"

definition isValidCacheSearchCursor :: "jsval \<Rightarrow> bool" where
  "isValidCacheSearchCursor v \<longleftrightarrow>
     is_record v \<and> only_keys v [''timestampMs'', ''recordKey''] \<and>
     has_own v ''timestampMs'' \<and> has_own v ''recordKey'' \<and>
     is_safe_integer (getp v ''timestampMs'') \<and>
     isValidNormalizedRecordKey (getp v ''recordKey'')"

definition validateRecordSelectionKeys :: "jsval list \<Rightarrow> js_error + jsval list" where
  "validateRecordSelectionKeys keys =
     (if MAX_RECORD_SELECTION_PAGE_SIZE < int (length keys) then
        Inl (Range_Error (js ''record selection accepts at most 500 keys''))
      else if list_ex (\<lambda>key. \<not> isValidNormalizedRecordKey key) keys then
        Inl (Range_Error (js ''invalid normalized record key''))
      else Inr keys)"

text \<open>\<open>now\<close> is what \<open>Date.now()\<close> returns; the spread keeps the other properties of \<open>args\<close>.\<close>

definition or_default :: "jsval \<Rightarrow> jsval \<Rightarrow> jsval" where
  "or_default v d = (if v = JUndef then d else v)"

definition validateCacheSearchArgs :: "int \<Rightarrow> jsval \<Rightarrow> js_error + jsval" where
  "validateCacheSearchArgs now args =
     (if \<not> isValidCacheSearchProfile (getp args ''profile'') then
        Inl (Range_Error (js ''invalid cache search profile''))
      else if \<not> isValidCacheSearchLimit (getp args ''limit'') then
        Inl (Range_Error (js ''cache search limit must be an integer between 1 and 500''))
      else let query = or_default (getp args ''query'') (JStr []) in
      if \<not> isValidCacheSearchQuery query then
        Inl (Range_Error (js ''cache search query is too long''))
      else let buckets = or_default (getp args ''buckets'') (JArr []) in
      if \<not> is_array buckets \<or> list_ex (\<lambda>b. \<not> isValidCacheSearchBucket b) (the_arr buckets) then
        Inl (Range_Error (js ''invalid cache search bucket''))
      else let nowMs = or_default (getp args ''nowMs'') (JInt now) in
      if \<not> isValidCacheSearchNowMs nowMs then
        Inl (Range_Error (js ''invalid cache search nowMs''))
      else if getp args ''cursor'' \<noteq> JUndef \<and> \<not> isValidCacheSearchCursor (getp args ''cursor'') then
        Inl (Range_Error (js ''invalid cache search cursor''))
      else Inr (JObj (AList.update (js ''nowMs'') nowMs
                 (AList.update (js ''buckets'') buckets
                   (AList.update (js ''query'') query (own_fields args))))))"

section \<open>Responses and pushes\<close>

datatype cache_response_error_code = Owner_Epoch_Lost | Admitted_Enqueue_Uncertain

definition OWNER_EPOCH_LOST_ERROR_CODE :: cache_response_error_code where
  "OWNER_EPOCH_LOST_ERROR_CODE = Owner_Epoch_Lost"

definition ADMITTED_ENQUEUE_UNCERTAIN_ERROR_CODE :: cache_response_error_code where
  "ADMITTED_ENQUEUE_UNCERTAIN_ERROR_CODE = Admitted_Enqueue_Uncertain"

datatype cache_response =
    Response_Ok int jsval
  | Response_Err int js_string "cache_response_error_code option"

datatype mutation_settlement =
    Committed js_string
  | Permanently_Failed js_string js_string

datatype cache_push =
    Ops_Affected "js_string list" "js_string list"
  | Cache_Changed js_string
  | Mutation_Settled mutation_settlement

datatype worker_message = Worker_Response cache_response | Worker_Push cache_push

fun error_code_val :: "cache_response_error_code \<Rightarrow> jsval" where
  "error_code_val Owner_Epoch_Lost = JStr (js ''owner-epoch-lost'')"
| "error_code_val Admitted_Enqueue_Uncertain = JStr (js ''admitted-enqueue-uncertain'')"

definition isCacheResponseErrorCode :: "jsval \<Rightarrow> bool" where
  "isCacheResponseErrorCode v \<longleftrightarrow>
     v = error_code_val OWNER_EPOCH_LOST_ERROR_CODE \<or>
     v = error_code_val ADMITTED_ENQUEUE_UNCERTAIN_ERROR_CODE"

definition isWireStringArray :: "jsval \<Rightarrow> bool" where
  "isWireStringArray v \<longleftrightarrow> is_array v \<and> list_all is_string (the_arr v)"

definition isCacheResponse :: "jsval \<Rightarrow> bool" where
  "isCacheResponse v \<longleftrightarrow>
     (if \<not> is_record v \<or> \<not> is_safe_integer (getp v ''id'') \<or> the_int (getp v ''id'') < 0 then False
      else if getp v ''ok'' = JBool True then
        only_keys v [''id'', ''ok'', ''result''] \<and> has_own v ''result''
      else
        getp v ''ok'' = JBool False \<and>
        only_keys v [''id'', ''ok'', ''error'', ''errorCode''] \<and>
        is_string (getp v ''error'') \<and>
        (getp v ''errorCode'' = JUndef \<or> isCacheResponseErrorCode (getp v ''errorCode'')))"

definition isMutationSettlement :: "jsval \<Rightarrow> bool" where
  "isMutationSettlement s \<longleftrightarrow>
     is_record s \<and> is_string (getp s ''transactionId'') \<and>
     (if getp s ''status'' = JStr (js ''committed'') then only_keys s [''transactionId'', ''status'']
      else getp s ''status'' = JStr (js ''permanently-failed'') \<and>
           only_keys s [''transactionId'', ''status'', ''error''] \<and> is_string (getp s ''error''))"

definition isCachePush :: "jsval \<Rightarrow> bool" where
  "isCachePush v \<longleftrightarrow>
     (if \<not> is_record v then False
      else if getp v ''kind'' = JStr (js ''ops-affected'') then
        only_keys v [''kind'', ''opIds'', ''keys''] \<and>
        isWireStringArray (getp v ''opIds'') \<and> isWireStringArray (getp v ''keys'')
      else if getp v ''kind'' = JStr (js ''cache-changed'') then
        only_keys v [''kind'', ''revision''] \<and> isCacheRevision (getp v ''revision'')
      else if getp v ''kind'' = JStr (js ''mutation-settled'') then
        only_keys v [''kind'', ''settlement''] \<and> isMutationSettlement (getp v ''settlement'')
      else False)"

definition isWorkerMessage :: "jsval \<Rightarrow> bool" where
  "isWorkerMessage v \<longleftrightarrow> isCacheResponse v \<or> isCachePush v"

end
