(* ===== verification/Coord_Protocol.thy ===== *)
theory Coord_Protocol
  imports Cache_Wire
begin

text \<open>
  The topology envelopes of the cache coordinator
  (\<open>apps/web/src/lib/graphql-cache/worker/coordinator-protocol.ts\<close>): the messages between a
  page (tab), the shared coordinator and the elected engine, their strict validators, and the
  names of the Web Locks that fence tabs and database owners.

  A validator answers \<open>Inl error\<close> or \<open>Inr message\<close>; the typed message is the source's cast of
  the checked value. A nested cache request, response or push stays a \<open>jsval\<close>: the coordinator
  forwards it without looking inside.
\<close>

section \<open>Types\<close>

definition CACHE_COORDINATOR_PROTOCOL_VERSION :: int where
  "CACHE_COORDINATOR_PROTOCOL_VERSION = 2"

type_synonym owner_epoch = nat
type_synonym route_id = nat

datatype database_action = Open_Existing | Wipe_Before_Open

datatype database_action_proof = Proof_Opened_Existing | Proof_Wiped_Before_Open

datatype engine_open_outcome =
  Opened_Existing | Opened_New | Reset_Incompatible | Reset_Corrupt | Reset_Storage_Uncertain

datatype engine_fatal_code = Storage_Reset_Required | Runtime_Failure

datatype activation_failure_code = Initialization_Failed | Recovery_Open_Failed

datatype tab_to_coordinator =
    Register_Tab (rt_scope: js_string) (tc_tab: js_string) (rt_lock: js_string) (rt_hot: "nat option")
  | Cache_Request (tc_tab: js_string) jsval
  | Attach_Engine_Port (tc_tab: js_string) owner_epoch jsval
  | Graceful_Departure (tc_tab: js_string) owner_epoch
  | Navigation_Departure (tc_tab: js_string) owner_epoch js_string
  | Engine_Lost (tc_tab: js_string) owner_epoch js_string
  | Disconnect_Tab (tc_tab: js_string) js_string

datatype coordinator_to_tab =
    Registered js_string
  | Become_Owner js_string js_string owner_epoch database_action js_string "nat option"
  | Cache_Message jsval
  | Terminate_Engine js_string owner_epoch js_string
  | Retire_Complete js_string owner_epoch
  | Engine_Replaced owner_epoch
  | Protocol_Error js_string

datatype page_to_engine =
    Activate_Engine js_string js_string owner_epoch database_action js_string "nat option"

datatype coordinator_to_engine =
    Engine_Request (ce_epoch: owner_epoch) route_id jsval
  | Drain_Engine (ce_epoch: owner_epoch)
  | Heartbeat (ce_epoch: owner_epoch) nat

datatype engine_to_coordinator =
    Engine_Ready js_string (ec_epoch: owner_epoch) js_string database_action_proof engine_open_outcome
  | Engine_Response (ec_epoch: owner_epoch) route_id jsval
  | Engine_Push (ec_epoch: owner_epoch) jsval
  | Engine_Drained js_string (ec_epoch: owner_epoch)
  | Engine_Fatal js_string (ec_epoch: owner_epoch) js_string engine_fatal_code
  | Activation_Failed js_string (ec_epoch: owner_epoch) js_string activation_failure_code
  | Heartbeat_Ack (ec_epoch: owner_epoch) nat

section \<open>Field checks\<close>

definition isNonEmptyString :: "jsval \<Rightarrow> bool" where
  "isNonEmptyString v \<longleftrightarrow> is_string v \<and> the_str v \<noteq> []"

definition isOptionalString :: "jsval \<Rightarrow> bool" where
  "isOptionalString v \<longleftrightarrow> v = JUndef \<or> is_string v"

definition isSafeNonNegativeInteger :: "jsval \<Rightarrow> bool" where
  "isSafeNonNegativeInteger v \<longleftrightarrow> is_safe_integer v \<and> 0 \<le> the_int v"

definition isPositiveInteger :: "jsval \<Rightarrow> bool" where
  "isPositiveInteger v \<longleftrightarrow> is_safe_integer v \<and> 0 < the_int v"

definition isOptionalPositiveInteger :: "jsval \<Rightarrow> bool" where
  "isOptionalPositiveInteger v \<longleftrightarrow> v = JUndef \<or> isPositiveInteger v"

definition isStringArray :: "jsval \<Rightarrow> bool" where
  "isStringArray v \<longleftrightarrow> is_array v \<and> list_all is_string (the_arr v)"

definition hasVersion :: "jsval \<Rightarrow> bool" where
  "hasVersion v \<longleftrightarrow> getp v ''coordinatorVersion'' = JInt CACHE_COORDINATOR_PROTOCOL_VERSION"

fun database_action_val :: "database_action \<Rightarrow> jsval" where
  "database_action_val Open_Existing = JStr (js ''open-existing'')"
| "database_action_val Wipe_Before_Open = JStr (js ''wipe-before-open'')"

fun database_action_proof_val :: "database_action_proof \<Rightarrow> jsval" where
  "database_action_proof_val Proof_Opened_Existing = JStr (js ''opened-existing'')"
| "database_action_proof_val Proof_Wiped_Before_Open = JStr (js ''wiped-before-open'')"

fun open_outcome_val :: "engine_open_outcome \<Rightarrow> jsval" where
  "open_outcome_val Opened_Existing = JStr (js ''opened-existing'')"
| "open_outcome_val Opened_New = JStr (js ''opened-new'')"
| "open_outcome_val Reset_Incompatible = JStr (js ''reset-incompatible'')"
| "open_outcome_val Reset_Corrupt = JStr (js ''reset-corrupt'')"
| "open_outcome_val Reset_Storage_Uncertain = JStr (js ''reset-storage-uncertain'')"

fun fatal_code_val :: "engine_fatal_code \<Rightarrow> jsval" where
  "fatal_code_val Storage_Reset_Required = JStr (js ''storage-reset-required'')"
| "fatal_code_val Runtime_Failure = JStr (js ''runtime-failure'')"

fun failure_code_val :: "activation_failure_code \<Rightarrow> jsval" where
  "failure_code_val Initialization_Failed = JStr (js ''initialization-failed'')"
| "failure_code_val Recovery_Open_Failed = JStr (js ''recovery-open-failed'')"

definition isDatabaseAction :: "jsval \<Rightarrow> bool" where
  "isDatabaseAction v \<longleftrightarrow>
     v = database_action_val Open_Existing \<or> v = database_action_val Wipe_Before_Open"

definition isDatabaseActionProof :: "jsval \<Rightarrow> bool" where
  "isDatabaseActionProof v \<longleftrightarrow>
     v = database_action_proof_val Proof_Opened_Existing \<or>
     v = database_action_proof_val Proof_Wiped_Before_Open"

definition isEngineOpenOutcome :: "jsval \<Rightarrow> bool" where
  "isEngineOpenOutcome v \<longleftrightarrow>
     v \<in> set (List.map open_outcome_val
       [Opened_Existing, Opened_New, Reset_Incompatible, Reset_Corrupt, Reset_Storage_Uncertain])"

definition isEngineFatalCode :: "jsval \<Rightarrow> bool" where
  "isEngineFatalCode v \<longleftrightarrow>
     v = fatal_code_val Storage_Reset_Required \<or> v = fatal_code_val Runtime_Failure"

definition isActivationFailureCode :: "jsval \<Rightarrow> bool" where
  "isActivationFailureCode v \<longleftrightarrow>
     v = failure_code_val Initialization_Failed \<or> v = failure_code_val Recovery_Open_Failed"

definition isOptionalRecord :: "jsval \<Rightarrow> bool" where
  "isOptionalRecord v \<longleftrightarrow> v = JUndef \<or> is_record v"

text \<open>A structured clone holds no functions, so only a port has the three port methods.\<close>

fun isMessagePort :: "jsval \<Rightarrow> bool" where
  "isMessagePort (JPort _) = True"
| "isMessagePort _ = False"

definition isPathSegment :: "jsval \<Rightarrow> bool" where
  "isPathSegment s \<longleftrightarrow> is_record s \<and> only_keys s [''field''] \<and> is_string (getp s ''field'')"

definition isPath :: "jsval \<Rightarrow> bool" where
  "isPath v \<longleftrightarrow> is_array v \<and> list_all isPathSegment (the_arr v)"

definition isEntityResolver :: "jsval \<Rightarrow> bool" where
  "isEntityResolver r \<longleftrightarrow>
     is_record r \<and> is_string (getp r ''parentType'') \<and> is_string (getp r ''fieldName'') \<and>
     is_string (getp r ''targetType'') \<and> isStringArray (getp r ''argumentPath'')"

definition isEntityResolvers :: "jsval \<Rightarrow> bool" where
  "isEntityResolvers v \<longleftrightarrow>
     v = JUndef \<or> (is_array v \<and> list_all isEntityResolver (the_arr v))"

definition isWriteRegistration :: "jsval \<Rightarrow> bool" where
  "isWriteRegistration v \<longleftrightarrow>
     v = JUndef \<or>
     (is_record v \<and> only_keys v [''opId'', ''entityResolvers''] \<and>
      isNonEmptyString (getp v ''opId'') \<and> isEntityResolvers (getp v ''entityResolvers''))"

definition isSearchRequest :: "jsval \<Rightarrow> bool" where
  "isSearchRequest v \<longleftrightarrow>
     (if \<not> is_record v then False
      else
        only_keys v [''profile'', ''buckets'', ''query'', ''cursor'', ''limit'', ''nowMs''] \<and>
        isValidCacheSearchProfile (getp v ''profile'') \<and>
        is_array (getp v ''buckets'') \<and>
        list_all isValidCacheSearchBucket (the_arr (getp v ''buckets'')) \<and>
        isValidCacheSearchQuery (getp v ''query'') \<and>
        isValidCacheSearchLimit (getp v ''limit'') \<and>
        isValidCacheSearchNowMs (getp v ''nowMs'') \<and>
        (getp v ''cursor'' = JUndef \<or> isValidCacheSearchCursor (getp v ''cursor'')))"

definition commonRequest :: "jsval \<Rightarrow> bool" where
  "commonRequest v \<longleftrightarrow>
     isSafeNonNegativeInteger (getp v ''id'') \<and> isNonEmptyString (getp v ''kind'')"

section \<open>Cache requests\<close>

text \<open>One definition per group of cases of the validator's switch, in its order.\<close>

definition operation_fields :: "jsval \<Rightarrow> bool" where
  "operation_fields v \<longleftrightarrow>
     is_string (getp v ''query'') \<and> isOptionalString (getp v ''operationName'') \<and>
     isOptionalRecord (getp v ''variables'')"

definition lease_fields :: "jsval \<Rightarrow> bool" where
  "lease_fields v \<longleftrightarrow>
     is_string (getp v ''transactionId'') \<and> is_string (getp v ''leaseOwner'') \<and>
     is_string (getp v ''leaseGeneration'')"

definition isInitRequest :: "jsval \<Rightarrow> bool" where
  "isInitRequest v \<longleftrightarrow>
     only_keys v [''id'', ''kind'', ''scope'', ''hotCapacity''] \<and>
     isNonEmptyString (getp v ''scope'') \<and> isOptionalPositiveInteger (getp v ''hotCapacity'')"

definition isReadRequest :: "jsval \<Rightarrow> bool" where
  "isReadRequest v \<longleftrightarrow>
     only_keys v [''id'', ''kind'', ''opId'', ''query'', ''operationName'', ''variables'',
       ''priority'', ''entityResolvers''] \<and>
     isOptionalString (getp v ''opId'') \<and> operation_fields v \<and>
     (getp v ''priority'' = JUndef \<or> getp v ''priority'' = JStr (js ''user-visible'')) \<and>
     isEntityResolvers (getp v ''entityResolvers'')"

definition isWriteRequest :: "jsval \<Rightarrow> bool" where
  "isWriteRequest v \<longleftrightarrow>
     only_keys v [''id'', ''kind'', ''originOpId'', ''registration'', ''query'', ''operationName'',
       ''variables'', ''data'', ''identity''] \<and>
     isOptionalString (getp v ''originOpId'') \<and> isWriteRegistration (getp v ''registration'') \<and>
     operation_fields v \<and> has_own v ''data'' \<and> isOptionalString (getp v ''identity'')"

definition isHydrateRequest :: "jsval \<Rightarrow> bool" where
  "isHydrateRequest v \<longleftrightarrow>
     only_keys v [''id'', ''kind'', ''query'', ''operationName'', ''variables'', ''data'',
       ''identity''] \<and>
     operation_fields v \<and> has_own v ''data'' \<and> isOptionalString (getp v ''identity'')"

definition isEnqueueRequest :: "jsval \<Rightarrow> bool" where
  "isEnqueueRequest v \<longleftrightarrow>
     only_keys v [''id'', ''kind'', ''originOpId'', ''query'', ''operationName'', ''variables'',
       ''data'', ''linkPatches'', ''revalidations'', ''createdAtMs'', ''owner'', ''nowMs'',
       ''leaseExpiresAtMs''] \<and>
     isOptionalString (getp v ''originOpId'') \<and> operation_fields v \<and> has_own v ''data'' \<and>
     (getp v ''linkPatches'' = JUndef \<or> is_array (getp v ''linkPatches'')) \<and>
     (getp v ''revalidations'' = JUndef \<or> is_array (getp v ''revalidations'')) \<and>
     isSafeNonNegativeInteger (getp v ''createdAtMs'') \<and> is_string (getp v ''owner'') \<and>
     isSafeNonNegativeInteger (getp v ''nowMs'') \<and>
     isSafeNonNegativeInteger (getp v ''leaseExpiresAtMs'')"

definition isClaimRequest :: "jsval \<Rightarrow> bool" where
  "isClaimRequest v \<longleftrightarrow>
     only_keys v [''id'', ''kind'', ''owner'', ''nowMs'', ''leaseExpiresAtMs''] \<and>
     is_string (getp v ''owner'') \<and> isSafeNonNegativeInteger (getp v ''nowMs'') \<and>
     isSafeNonNegativeInteger (getp v ''leaseExpiresAtMs'')"

definition isDeferRequest :: "jsval \<Rightarrow> bool" where
  "isDeferRequest v \<longleftrightarrow>
     only_keys v [''id'', ''kind'', ''transactionId'', ''leaseOwner'', ''leaseGeneration'',
       ''nextAttemptAtMs'', ''error''] \<and>
     lease_fields v \<and> isSafeNonNegativeInteger (getp v ''nextAttemptAtMs'') \<and>
     is_string (getp v ''error'')"

definition isCommitRequest :: "jsval \<Rightarrow> bool" where
  "isCommitRequest v \<longleftrightarrow>
     only_keys v [''id'', ''kind'', ''transactionId'', ''leaseOwner'', ''leaseGeneration'',
       ''query'', ''operationName'', ''variables'', ''data''] \<and>
     lease_fields v \<and> operation_fields v \<and> has_own v ''data''"

definition isRollbackRequest :: "jsval \<Rightarrow> bool" where
  "isRollbackRequest v \<longleftrightarrow>
     only_keys v [''id'', ''kind'', ''transactionId'', ''leaseOwner'', ''leaseGeneration'',
       ''error''] \<and>
     lease_fields v \<and> is_string (getp v ''error'')"

definition isReadRecordsRequest :: "jsval \<Rightarrow> bool" where
  "isReadRecordsRequest v \<longleftrightarrow>
     only_keys v [''id'', ''kind'', ''document'', ''fragmentName'', ''keys''] \<and>
     is_string (getp v ''document'') \<and> is_string (getp v ''fragmentName'') \<and>
     is_array (getp v ''keys'') \<and>
     int (length (the_arr (getp v ''keys''))) \<le> MAX_RECORD_SELECTION_PAGE_SIZE \<and>
     list_all isValidNormalizedRecordKey (the_arr (getp v ''keys''))"

definition isSearchCacheRequest :: "jsval \<Rightarrow> bool" where
  "isSearchCacheRequest v \<longleftrightarrow>
     only_keys v [''id'', ''kind'', ''request''] \<and> isSearchRequest (getp v ''request'')"

definition isEntityFilterRequest :: "jsval \<Rightarrow> bool" where
  "isEntityFilterRequest v \<longleftrightarrow>
     (let request = getp v ''request'' in
       only_keys v [''id'', ''kind'', ''request''] \<and> is_record request \<and>
       only_keys request [''filters'', ''sortMethod'', ''sortDirection'', ''limit''] \<and>
       is_record (getp request ''filters'') \<and>
       getp request ''sortMethod'' \<in>
         set [JStr (js ''CREATED_AT''), JStr (js ''UPDATED_AT''), JStr (js ''VIEWED_AT''),
           JStr (js ''VIEWED_UPDATED'')] \<and>
       (getp request ''sortDirection'' = JStr (js ''ASC'') \<or>
        getp request ''sortDirection'' = JStr (js ''DESC'')) \<and>
       isValidCacheSearchLimit (getp request ''limit''))"

definition isInspectQueryRequest :: "jsval \<Rightarrow> bool" where
  "isInspectQueryRequest v \<longleftrightarrow>
     only_keys v [''id'', ''kind'', ''query'', ''operationName'', ''path'', ''variableFilters''] \<and>
     is_string (getp v ''query'') \<and> isOptionalString (getp v ''operationName'') \<and>
     isPath (getp v ''path'') \<and>
     (getp v ''variableFilters'' = JUndef \<or>
      (is_array (getp v ''variableFilters'') \<and>
       list_all is_record (the_arr (getp v ''variableFilters''))))"

definition isInspectVariantsRequest :: "jsval \<Rightarrow> bool" where
  "isInspectVariantsRequest v \<longleftrightarrow>
     only_keys v [''id'', ''kind'', ''query'', ''operationName'', ''path''] \<and>
     is_string (getp v ''query'') \<and> isOptionalString (getp v ''operationName'') \<and>
     isPath (getp v ''path'')"

definition isTeardownRequest :: "jsval \<Rightarrow> bool" where
  "isTeardownRequest v \<longleftrightarrow>
     only_keys v [''id'', ''kind'', ''opId''] \<and> is_string (getp v ''opId'')"

definition isKeysRequest :: "jsval \<Rightarrow> bool" where
  "isKeysRequest v \<longleftrightarrow>
     only_keys v [''id'', ''kind'', ''keys''] \<and> isStringArray (getp v ''keys'')"

definition isBareRequest :: "jsval \<Rightarrow> bool" where
  "isBareRequest v \<longleftrightarrow> only_keys v [''id'', ''kind'']"

definition kind_is :: "jsval \<Rightarrow> string \<Rightarrow> bool" where
  "kind_is v k \<longleftrightarrow> getp v ''kind'' = JStr (js k)"

definition isCacheRequest :: "jsval \<Rightarrow> bool" where
  "isCacheRequest v \<longleftrightarrow>
     (if \<not> is_record v \<or> \<not> commonRequest v then False
      else if kind_is v ''init'' then isInitRequest v
      else if kind_is v ''current-revision'' then isBareRequest v
      else if kind_is v ''read'' then isReadRequest v
      else if kind_is v ''write'' then isWriteRequest v
      else if kind_is v ''hydrate'' then isHydrateRequest v
      else if kind_is v ''enqueue-optimistic-mutation'' then isEnqueueRequest v
      else if kind_is v ''claim-next-mutation'' then isClaimRequest v
      else if kind_is v ''defer-optimistic-write'' then isDeferRequest v
      else if kind_is v ''commit-optimistic-write'' then isCommitRequest v
      else if kind_is v ''rollback-optimistic-write'' then isRollbackRequest v
      else if kind_is v ''read-records-by-keys'' then isReadRecordsRequest v
      else if kind_is v ''search'' then isSearchCacheRequest v
      else if kind_is v ''entity-filter'' then isEntityFilterRequest v
      else if kind_is v ''inspect-query'' then isInspectQueryRequest v
      else if kind_is v ''inspect-query-variants'' then isInspectVariantsRequest v
      else if kind_is v ''teardown'' then isTeardownRequest v
      else if kind_is v ''invalidate'' \<or> kind_is v ''delete-records'' then isKeysRequest v
      else if kind_is v ''clear'' then isBareRequest v
      else False)"

section \<open>Envelope validators\<close>

text \<open>Casts of checked enumeration values.\<close>

definition the_database_action :: "jsval \<Rightarrow> database_action" where
  "the_database_action v =
     (if v = database_action_val Wipe_Before_Open then Wipe_Before_Open else Open_Existing)"

definition the_database_action_proof :: "jsval \<Rightarrow> database_action_proof" where
  "the_database_action_proof v =
     (if v = database_action_proof_val Proof_Wiped_Before_Open then Proof_Wiped_Before_Open
      else Proof_Opened_Existing)"

definition the_open_outcome :: "jsval \<Rightarrow> engine_open_outcome" where
  "the_open_outcome v =
     (if v = open_outcome_val Opened_New then Opened_New
      else if v = open_outcome_val Reset_Incompatible then Reset_Incompatible
      else if v = open_outcome_val Reset_Corrupt then Reset_Corrupt
      else if v = open_outcome_val Reset_Storage_Uncertain then Reset_Storage_Uncertain
      else Opened_Existing)"

definition the_fatal_code :: "jsval \<Rightarrow> engine_fatal_code" where
  "the_fatal_code v =
     (if v = fatal_code_val Storage_Reset_Required then Storage_Reset_Required
      else Runtime_Failure)"

definition the_failure_code :: "jsval \<Rightarrow> activation_failure_code" where
  "the_failure_code v =
     (if v = failure_code_val Recovery_Open_Failed then Recovery_Open_Failed
      else Initialization_Failed)"

definition header_error :: js_string where
  "header_error = js ''invalid coordinator envelope header''"

definition kind_error :: "jsval \<Rightarrow> js_string" where
  "kind_error v =
     js ''invalid '' @ the_str (getp v ''kind'') @ js '' coordinator envelope''"

definition header_ok :: "jsval \<Rightarrow> bool" where
  "header_ok v \<longleftrightarrow> is_record v \<and> hasVersion v \<and> is_string (getp v ''kind'')"

definition tab_field :: "jsval \<Rightarrow> bool" where
  "tab_field v \<longleftrightarrow> isNonEmptyString (getp v ''tabId'')"

definition epoch_field :: "jsval \<Rightarrow> bool" where
  "epoch_field v \<longleftrightarrow> isPositiveInteger (getp v ''ownerEpoch'')"

definition reason_field :: "jsval \<Rightarrow> bool" where
  "reason_field v \<longleftrightarrow> isNonEmptyString (getp v ''reason'')"

definition get_tab :: "jsval \<Rightarrow> js_string" where
  "get_tab v = the_str (getp v ''tabId'')"

definition get_epoch :: "jsval \<Rightarrow> nat" where
  "get_epoch v = the_nat (getp v ''ownerEpoch'')"

definition get_reason :: "jsval \<Rightarrow> js_string" where
  "get_reason v = the_str (getp v ''reason'')"

definition get_hot :: "jsval \<Rightarrow> nat option" where
  "get_hot v = the_opt the_nat (getp v ''hotCapacity'')"

definition validateTabToCoordinatorEnvelope :: "jsval \<Rightarrow> js_string + tab_to_coordinator" where
  "validateTabToCoordinatorEnvelope v =
     (if \<not> header_ok v then Inl header_error
      else if \<not> (hasVersion v \<and> tab_field v) then Inl (js ''invalid coordinator tab identity'')
      else if kind_is v ''register-tab'' \<and>
        only_keys v [''coordinatorVersion'', ''kind'', ''scope'', ''tabId'', ''livenessLockName'',
          ''hotCapacity''] \<and>
        isNonEmptyString (getp v ''scope'') \<and> isNonEmptyString (getp v ''livenessLockName'') \<and>
        isOptionalPositiveInteger (getp v ''hotCapacity'') then
        Inr (Register_Tab (the_str (getp v ''scope'')) (get_tab v)
          (the_str (getp v ''livenessLockName'')) (get_hot v))
      else if kind_is v ''cache-request'' \<and>
        only_keys v [''coordinatorVersion'', ''kind'', ''tabId'', ''request''] \<and>
        isCacheRequest (getp v ''request'') then
        Inr (Cache_Request (get_tab v) (getp v ''request''))
      else if kind_is v ''attach-engine-port'' \<and>
        only_keys v [''coordinatorVersion'', ''kind'', ''tabId'', ''ownerEpoch'', ''enginePort''] \<and>
        epoch_field v \<and> isMessagePort (getp v ''enginePort'') then
        Inr (Attach_Engine_Port (get_tab v) (get_epoch v) (getp v ''enginePort''))
      else if kind_is v ''graceful-departure'' \<and>
        only_keys v [''coordinatorVersion'', ''kind'', ''tabId'', ''ownerEpoch''] \<and>
        epoch_field v then
        Inr (Graceful_Departure (get_tab v) (get_epoch v))
      else if kind_is v ''navigation-departure'' \<and>
        only_keys v [''coordinatorVersion'', ''kind'', ''tabId'', ''ownerEpoch'', ''reason''] \<and>
        epoch_field v \<and> reason_field v then
        Inr (Navigation_Departure (get_tab v) (get_epoch v) (get_reason v))
      else if kind_is v ''engine-lost'' \<and>
        only_keys v [''coordinatorVersion'', ''kind'', ''tabId'', ''ownerEpoch'', ''reason''] \<and>
        epoch_field v \<and> reason_field v then
        Inr (Engine_Lost (get_tab v) (get_epoch v) (get_reason v))
      else if kind_is v ''disconnect-tab'' \<and>
        only_keys v [''coordinatorVersion'', ''kind'', ''tabId'', ''reason''] \<and>
        reason_field v then
        Inr (Disconnect_Tab (get_tab v) (get_reason v))
      else Inl (kind_error v))"

definition validateCoordinatorToTabEnvelope :: "jsval \<Rightarrow> js_string + coordinator_to_tab" where
  "validateCoordinatorToTabEnvelope v =
     (if \<not> header_ok v then Inl header_error
      else if kind_is v ''registered'' \<and>
        only_keys v [''coordinatorVersion'', ''kind'', ''tabId''] \<and> tab_field v then
        Inr (Registered (get_tab v))
      else if kind_is v ''become-owner'' \<and>
        only_keys v [''coordinatorVersion'', ''kind'', ''scope'', ''tabId'', ''ownerEpoch'',
          ''databaseAction'', ''ownerLockName'', ''hotCapacity''] \<and>
        isNonEmptyString (getp v ''scope'') \<and> tab_field v \<and> epoch_field v \<and>
        isDatabaseAction (getp v ''databaseAction'') \<and>
        isNonEmptyString (getp v ''ownerLockName'') \<and>
        isOptionalPositiveInteger (getp v ''hotCapacity'') then
        Inr (Become_Owner (the_str (getp v ''scope'')) (get_tab v) (get_epoch v)
          (the_database_action (getp v ''databaseAction'')) (the_str (getp v ''ownerLockName''))
          (get_hot v))
      else if kind_is v ''cache-message'' \<and>
        only_keys v [''coordinatorVersion'', ''kind'', ''message''] \<and>
        isWorkerMessage (getp v ''message'') then
        Inr (Cache_Message (getp v ''message''))
      else if kind_is v ''terminate-engine'' \<and>
        only_keys v [''coordinatorVersion'', ''kind'', ''tabId'', ''ownerEpoch'', ''reason''] \<and>
        tab_field v \<and> epoch_field v \<and> reason_field v then
        Inr (Terminate_Engine (get_tab v) (get_epoch v) (get_reason v))
      else if kind_is v ''retire-complete'' \<and>
        only_keys v [''coordinatorVersion'', ''kind'', ''tabId'', ''ownerEpoch''] \<and>
        tab_field v \<and> epoch_field v then
        Inr (Retire_Complete (get_tab v) (get_epoch v))
      else if kind_is v ''engine-replaced'' \<and>
        only_keys v [''coordinatorVersion'', ''kind'', ''ownerEpoch''] \<and> epoch_field v then
        Inr (Engine_Replaced (get_epoch v))
      else if kind_is v ''protocol-error'' \<and>
        only_keys v [''coordinatorVersion'', ''kind'', ''error''] \<and>
        isNonEmptyString (getp v ''error'') then
        Inr (Protocol_Error (the_str (getp v ''error'')))
      else Inl (kind_error v))"

definition validatePageToEngineEnvelope :: "jsval \<Rightarrow> js_string + page_to_engine" where
  "validatePageToEngineEnvelope v =
     (if is_record v \<and> hasVersion v \<and> kind_is v ''activate-engine'' \<and>
        only_keys v [''coordinatorVersion'', ''kind'', ''scope'', ''tabId'', ''ownerEpoch'',
          ''databaseAction'', ''ownerLockName'', ''hotCapacity''] \<and>
        isNonEmptyString (getp v ''scope'') \<and> tab_field v \<and> epoch_field v \<and>
        isDatabaseAction (getp v ''databaseAction'') \<and>
        isNonEmptyString (getp v ''ownerLockName'') \<and>
        isOptionalPositiveInteger (getp v ''hotCapacity'') then
        Inr (Activate_Engine (the_str (getp v ''scope'')) (get_tab v) (get_epoch v)
          (the_database_action (getp v ''databaseAction'')) (the_str (getp v ''ownerLockName''))
          (get_hot v))
      else Inl (js ''invalid activate-engine envelope''))"

definition validateCoordinatorToEngineEnvelope :: "jsval \<Rightarrow> js_string + coordinator_to_engine" where
  "validateCoordinatorToEngineEnvelope v =
     (if \<not> header_ok v then Inl header_error
      else if kind_is v ''engine-request'' \<and>
        only_keys v [''coordinatorVersion'', ''kind'', ''ownerEpoch'', ''routeId'', ''request''] \<and>
        epoch_field v \<and> isPositiveInteger (getp v ''routeId'') \<and>
        isCacheRequest (getp v ''request'') \<and>
        getp (getp v ''request'') ''id'' = getp v ''routeId'' then
        Inr (Engine_Request (get_epoch v) (the_nat (getp v ''routeId'')) (getp v ''request''))
      else if kind_is v ''drain-engine'' \<and>
        only_keys v [''coordinatorVersion'', ''kind'', ''ownerEpoch''] \<and> epoch_field v then
        Inr (Drain_Engine (get_epoch v))
      else if kind_is v ''heartbeat'' \<and>
        only_keys v [''coordinatorVersion'', ''kind'', ''ownerEpoch'', ''heartbeatId''] \<and>
        epoch_field v \<and> isPositiveInteger (getp v ''heartbeatId'') then
        Inr (Heartbeat (get_epoch v) (the_nat (getp v ''heartbeatId'')))
      else Inl (kind_error v))"

definition validateEngineToCoordinatorEnvelope :: "jsval \<Rightarrow> js_string + engine_to_coordinator" where
  "validateEngineToCoordinatorEnvelope v =
     (if \<not> header_ok v then Inl header_error
      else if kind_is v ''engine-ready'' \<and>
        only_keys v [''coordinatorVersion'', ''kind'', ''tabId'', ''ownerEpoch'', ''ownerLockName'',
          ''ownerLockHeld'', ''databaseActionProof'', ''openOutcome''] \<and>
        tab_field v \<and> epoch_field v \<and> isNonEmptyString (getp v ''ownerLockName'') \<and>
        getp v ''ownerLockHeld'' = JBool True \<and>
        isDatabaseActionProof (getp v ''databaseActionProof'') \<and>
        isEngineOpenOutcome (getp v ''openOutcome'') then
        Inr (Engine_Ready (get_tab v) (get_epoch v) (the_str (getp v ''ownerLockName''))
          (the_database_action_proof (getp v ''databaseActionProof''))
          (the_open_outcome (getp v ''openOutcome'')))
      else if kind_is v ''engine-response'' \<and>
        only_keys v [''coordinatorVersion'', ''kind'', ''ownerEpoch'', ''routeId'', ''response''] \<and>
        epoch_field v \<and> isPositiveInteger (getp v ''routeId'') \<and>
        isCacheResponse (getp v ''response'') \<and>
        (getp (getp v ''response'') ''ok'' = JBool True \<or>
         getp (getp v ''response'') ''errorCode'' = JUndef) \<and>
        getp (getp v ''response'') ''id'' = getp v ''routeId'' then
        Inr (Engine_Response (get_epoch v) (the_nat (getp v ''routeId'')) (getp v ''response''))
      else if kind_is v ''engine-push'' \<and>
        only_keys v [''coordinatorVersion'', ''kind'', ''ownerEpoch'', ''push''] \<and>
        epoch_field v \<and> isCachePush (getp v ''push'') then
        Inr (Engine_Push (get_epoch v) (getp v ''push''))
      else if kind_is v ''engine-drained'' \<and>
        only_keys v [''coordinatorVersion'', ''kind'', ''tabId'', ''ownerEpoch''] \<and>
        tab_field v \<and> epoch_field v then
        Inr (Engine_Drained (get_tab v) (get_epoch v))
      else if kind_is v ''engine-fatal'' \<and>
        only_keys v [''coordinatorVersion'', ''kind'', ''tabId'', ''ownerEpoch'', ''reason'',
          ''fatalCode''] \<and>
        tab_field v \<and> epoch_field v \<and> reason_field v \<and>
        isEngineFatalCode (getp v ''fatalCode'') then
        Inr (Engine_Fatal (get_tab v) (get_epoch v) (get_reason v)
          (the_fatal_code (getp v ''fatalCode'')))
      else if kind_is v ''activation-failed'' \<and>
        only_keys v [''coordinatorVersion'', ''kind'', ''tabId'', ''ownerEpoch'', ''reason'',
          ''failureCode''] \<and>
        tab_field v \<and> epoch_field v \<and> reason_field v \<and>
        isActivationFailureCode (getp v ''failureCode'') then
        Inr (Activation_Failed (get_tab v) (get_epoch v) (get_reason v)
          (the_failure_code (getp v ''failureCode'')))
      else if kind_is v ''heartbeat-ack'' \<and>
        only_keys v [''coordinatorVersion'', ''kind'', ''ownerEpoch'', ''heartbeatId''] \<and>
        epoch_field v \<and> isPositiveInteger (getp v ''heartbeatId'') then
        Inr (Heartbeat_Ack (get_epoch v) (the_nat (getp v ''heartbeatId'')))
      else Inl (kind_error v))"

section \<open>Lock names\<close>

definition tabLivenessLockName :: "js_string \<Rightarrow> js_string \<Rightarrow> js_string" where
  "tabLivenessLockName scope tabId = js ''graphql-cache-tab:'' @ scope @ js '':'' @ tabId"

definition databaseOwnerLockName :: "js_string \<Rightarrow> js_string" where
  "databaseOwnerLockName scope =
     (let databaseIdentity = js ''graphql-cache:'' @ scope
      in js ''macro:turso-opfs:v1:'' @ js_nat (utf8_length databaseIdentity) @ js '':'' @
         databaseIdentity)"

end
