(* ===== verification/Coord_Core.thy ===== *)
theory Coord_Core
  imports Coord_Protocol
begin

text \<open>
  The deterministic coordinator state machine
  (\<open>apps/web/src/lib/graphql-cache/worker/coordinator-core.ts\<close>, class \<open>CoordinatorCore\<close>):
  election of one engine owner among the registered tabs, owner epochs, routing of requests,
  graceful drain, navigation departure and abrupt loss.

  Every operation takes the state and returns what it returned or threw, and the new state. The
  mutations made before a throw are kept, as in JavaScript. \<open>inFlight\<close> is the insertion-ordered
  \<open>Map\<close>, \<open>retiringTabs\<close> the \<open>Set\<close>. Epochs are unbounded naturals; route ids are checked against
  the safe-integer bound as in the source.
\<close>

section \<open>State and actions\<close>

datatype coordinator_state =
    Waiting_For_Tab database_action
  | Activating js_string owner_epoch database_action
  | Active js_string owner_epoch
  | Draining js_string owner_epoch
  | Resetting_After_Loss js_string owner_epoch owner_epoch js_string

record queued_request =
  qr_tabId :: js_string
  qr_request :: jsval

record in_flight_request =
  if_tabId :: js_string
  if_request :: jsval
  if_routeId :: route_id
  if_ownerEpoch :: owner_epoch

datatype stale_reason = Stale_Epoch | Unknown_Route | Inactive_Engine

datatype coordinator_action =
    Elect_Owner js_string owner_epoch database_action
  | Route_Request js_string js_string owner_epoch route_id jsval
  | Deliver_Response js_string jsval
  | Broadcast_Push jsval
  | Reject_Request js_string int js_string "cache_response_error_code option"
  | Drain_Owner js_string owner_epoch
  | Close_Engine_Route js_string owner_epoch
  | Drop_Tab js_string
  | Retire_Tab js_string owner_epoch
  | Schedule_Reset_Activation
  | Broadcast_Engine_Replaced owner_epoch
  | Drop_Stale_Engine_Message owner_epoch "route_id option" stale_reason
  | Protocol_Violation js_string

record engine_ready =
  er_tabId :: js_string
  er_ownerEpoch :: owner_epoch
  er_ownerLockName :: js_string
  er_expectedOwnerLockName :: js_string
  er_ownerLockHeld :: bool
  er_databaseActionProof :: database_action_proof
  er_openOutcome :: engine_open_outcome

record coordinator =
  scope :: js_string
  stateValue :: coordinator_state
  tabs :: "js_string list"
  retiringTabs :: "js_string set"
  queuedRequests :: "queued_request list"
  inFlight :: "(route_id \<times> in_flight_request) list"
  currentEpoch :: owner_epoch
  nextRouteId :: route_id
  staleMessageDrops :: nat
  protocolViolations :: nat

record coordinator_snapshot =
  sn_scope :: js_string
  sn_state :: coordinator_state
  sn_tabIds :: "js_string list"
  sn_ownerEpoch :: owner_epoch
  sn_queuedRequestCount :: nat
  sn_inFlightRequestCount :: nat
  sn_staleMessageDrops :: nat
  sn_protocolViolations :: nat
  sn_activeOwnerCount :: nat

type_synonym 'a operation = "coordinator \<Rightarrow> (js_error + 'a) \<times> coordinator"

definition initial_core :: "js_string \<Rightarrow> coordinator" where
  "initial_core sc =
     \<lparr> scope = sc, stateValue = Waiting_For_Tab Open_Existing, tabs = [], retiringTabs = {},
       queuedRequests = [], inFlight = [], currentEpoch = 0, nextRouteId = 1,
       staleMessageDrops = 0, protocolViolations = 0 \<rparr>"

definition new_core :: "js_string \<Rightarrow> js_error + coordinator" where
  "new_core sc =
     (if length sc = 0 then Inl (Js_Error (js ''scope must not be empty''))
      else Inr (initial_core sc))"

fun is_active :: "coordinator_state \<Rightarrow> bool" where
  "is_active (Active _ _) = True"
| "is_active _ = False"

definition snapshot :: "coordinator \<Rightarrow> coordinator_snapshot" where
  "snapshot c =
     \<lparr> sn_scope = scope c, sn_state = stateValue c, sn_tabIds = tabs c,
       sn_ownerEpoch = currentEpoch c, sn_queuedRequestCount = length (queuedRequests c),
       sn_inFlightRequestCount = length (inFlight c),
       sn_staleMessageDrops = staleMessageDrops c, sn_protocolViolations = protocolViolations c,
       sn_activeOwnerCount = (if is_active (stateValue c) then 1 else 0) \<rparr>"

section \<open>Private operations\<close>

definition request_id :: "jsval \<Rightarrow> int" where
  "request_id r = the_int (getp r ''id'')"

text \<open>\<open>{ ...value, id: n }\<close>\<close>

definition with_id :: "jsval \<Rightarrow> int \<Rightarrow> jsval" where
  "with_id r n = JObj (AList.update (js ''id'') (JInt n) (own_fields r))"

fun proofFor :: "engine_open_outcome \<Rightarrow> database_action_proof" where
  "proofFor Opened_Existing = Proof_Opened_Existing"
| "proofFor Opened_New = Proof_Opened_Existing"
| "proofFor _ = Proof_Wiped_Before_Open"

text \<open>The tab and epoch of an activating, active or draining state.\<close>

fun owner_of :: "coordinator_state \<Rightarrow> (js_string \<times> owner_epoch) option" where
  "owner_of (Activating t e _) = Some (t, e)"
| "owner_of (Active t e) = Some (t, e)"
| "owner_of (Draining t e) = Some (t, e)"
| "owner_of _ = None"

fun serving_epoch :: "coordinator_state \<Rightarrow> owner_epoch option" where
  "serving_epoch (Active _ e) = Some e"
| "serving_epoch (Draining _ e) = Some e"
| "serving_epoch _ = None"

definition acceptsEngineMessages :: "coordinator \<Rightarrow> owner_epoch \<Rightarrow> bool" where
  "acceptsEngineMessages c e \<longleftrightarrow> serving_epoch (stateValue c) = Some e"

definition reject ::
  "js_string \<Rightarrow> int \<Rightarrow> js_string \<Rightarrow> cache_response_error_code option \<Rightarrow> coordinator_action" where
  "reject t rid err code = Reject_Request t rid err code"

definition dropStale ::
  "owner_epoch \<Rightarrow> route_id option \<Rightarrow> stale_reason \<Rightarrow> coordinator \<Rightarrow> coordinator_action \<times> coordinator" where
  "dropStale e r why c =
     (Drop_Stale_Engine_Message e r why, c\<lparr>staleMessageDrops := staleMessageDrops c + 1\<rparr>)"

definition recordProtocolViolation ::
  "js_string \<Rightarrow> coordinator \<Rightarrow> coordinator_action list \<times> coordinator" where
  "recordProtocolViolation err c =
     ([Protocol_Violation err], c\<lparr>protocolViolations := protocolViolations c + 1\<rparr>)"

definition assertInvariants :: "coordinator \<Rightarrow> js_error option" where
  "assertInvariants c =
     (case serving_epoch (stateValue c) of
        None \<Rightarrow>
          if inFlight c \<noteq> [] then
            Some (Js_Error (js ''invariant: requests are in flight without an owner''))
          else None
      | Some e \<Rightarrow>
          if list_ex (\<lambda>p. if_ownerEpoch (snd p) \<noteq> e) (inFlight c) then
            Some (Js_Error (js ''invariant: in-flight request has a stale owner epoch''))
          else None)"

definition return_asserting :: "coordinator_action list \<Rightarrow> coordinator_action list operation" where
  "return_asserting acts c =
     (case assertInvariants c of Some e \<Rightarrow> (Inl e, c) | None \<Rightarrow> (Inr acts, c))"

definition eligible :: "coordinator \<Rightarrow> js_string list" where
  "eligible c = filter (\<lambda>t. t \<notin> retiringTabs c) (tabs c)"

definition chooseCandidate :: "js_string option \<Rightarrow> coordinator \<Rightarrow> js_string option" where
  "chooseCandidate avoid c =
     (case List.find (\<lambda>t. Some t \<noteq> avoid) (eligible c) of
        Some t \<Rightarrow> Some t
      | None \<Rightarrow> (case eligible c of [] \<Rightarrow> None | t # _ \<Rightarrow> Some t))"

text \<open>\<open>!candidate\<close> also holds of the empty string.\<close>

definition falsy_tab :: "js_string option \<Rightarrow> bool" where
  "falsy_tab t \<longleftrightarrow> t = None \<or> t = Some []"

definition activateNext :: "database_action \<Rightarrow> coordinator \<Rightarrow> coordinator_action list \<times> coordinator" where
  "activateNext action c =
     (let candidate = chooseCandidate None c in
      if falsy_tab candidate then ([], c\<lparr>stateValue := Waiting_For_Tab action\<rparr>)
      else let t = the candidate; e = currentEpoch c + 1 in
        ([Elect_Owner t e action],
         c\<lparr>currentEpoch := e, stateValue := Activating t e action\<rparr>))"

definition route :: "queued_request \<Rightarrow> js_string \<Rightarrow> owner_epoch \<Rightarrow> coordinator_action operation" where
  "route q ownerTab ownerEpoch c =
     (if \<not> int (nextRouteId c) \<le> max_safe_integer then
        (Inl (Js_Error (js ''coordinator route id space exhausted'')), c)
      else let routeId = nextRouteId c in
        (Inr (Route_Request ownerTab (qr_tabId q) ownerEpoch routeId
                (with_id (qr_request q) (int routeId))),
         c\<lparr>nextRouteId := routeId + 1,
           inFlight := AList.update routeId
             \<lparr> if_tabId = qr_tabId q, if_request = qr_request q, if_routeId = routeId,
               if_ownerEpoch = ownerEpoch \<rparr> (inFlight c)\<rparr>))"

definition removeTabRecord :: "js_string \<Rightarrow> coordinator \<Rightarrow> coordinator" where
  "removeTabRecord t c =
     c\<lparr>tabs := remove1 t (tabs c),
       queuedRequests := filter (\<lambda>q. qr_tabId q \<noteq> t) (queuedRequests c),
       inFlight := filter (\<lambda>p. if_tabId (snd p) \<noteq> t) (inFlight c)\<rparr>"

definition rejectEpochRequests ::
  "owner_epoch \<Rightarrow> js_string \<Rightarrow> cache_response_error_code option \<Rightarrow>
     coordinator \<Rightarrow> coordinator_action list \<times> coordinator" where
  "rejectEpochRequests e err code c =
     (List.map (\<lambda>p. reject (if_tabId (snd p)) (request_id (if_request (snd p))) err code)
        (filter (\<lambda>p. if_ownerEpoch (snd p) = e) (inFlight c)),
      c\<lparr>inFlight := filter (\<lambda>p. if_ownerEpoch (snd p) \<noteq> e) (inFlight c)\<rparr>)"

definition transitionToAbruptLoss ::
  "js_string \<Rightarrow> owner_epoch \<Rightarrow> js_string \<Rightarrow> coordinator_action list operation" where
  "transitionToAbruptLoss t e reason c =
     (if owner_of (stateValue c) \<noteq> Some (t, e) then (Inr [], c)
      else let (rejects, c1) = rejectEpochRequests e
             (js ''owner epoch '' @ js_nat e @ js '' was lost: '' @ reason)
             (Some OWNER_EPOCH_LOST_ERROR_CODE) c
        in return_asserting (rejects @ [Close_Engine_Route t e, Schedule_Reset_Activation])
          (c1\<lparr>stateValue := Resetting_After_Loss t e (currentEpoch c1 + 1) reason\<rparr>))"

section \<open>Operations\<close>

definition registerTab :: "js_string \<Rightarrow> coordinator_action list operation" where
  "registerTab t c =
     (if t \<in> set (tabs c) then (Inr [], c)
      else let c1 = c\<lparr>tabs := tabs c @ [t]\<rparr> in
        (case stateValue c1 of
           Waiting_For_Tab action \<Rightarrow> (let (acts, c2) = activateNext action c1 in (Inr acts, c2))
         | _ \<Rightarrow> (Inr [], c1)))"

definition request :: "js_string \<Rightarrow> jsval \<Rightarrow> coordinator_action list operation" where
  "request t r c =
     (if t \<notin> set (tabs c) then
        (Inr [reject t (request_id r) (js ''requester tab is not registered'') None], c)
      else if t \<in> retiringTabs c then
        (Inr [reject t (request_id r) (js ''requester tab is retiring'') None], c)
      else let queued = \<lparr> qr_tabId = t, qr_request = r \<rparr> in
        (case stateValue c of
           Active ownerTab e \<Rightarrow>
             (case route queued ownerTab e c of
                (Inl err, c1) \<Rightarrow> (Inl err, c1)
              | (Inr act, c1) \<Rightarrow> (Inr [act], c1))
         | _ \<Rightarrow> (Inr [], c\<lparr>queuedRequests := queuedRequests c @ [queued]\<rparr>)))"

text \<open>The loop of \<open>engineReady\<close> that shifts the queue and routes what is still registered.\<close>

fun flush_queue ::
  "js_string \<Rightarrow> owner_epoch \<Rightarrow> queued_request list \<Rightarrow> coordinator_action list \<Rightarrow>
     coordinator_action list operation" where
  "flush_queue t e [] acts c = (Inr acts, c\<lparr>queuedRequests := []\<rparr>)"
| "flush_queue t e (q # qs) acts c =
     (let c1 = c\<lparr>queuedRequests := qs\<rparr> in
      if qr_tabId q \<in> set (tabs c1) then
        (case route q t e c1 of
           (Inl err, c2) \<Rightarrow> (Inl err, c2)
         | (Inr act, c2) \<Rightarrow> flush_queue t e qs (acts @ [act]) c2)
      else flush_queue t e qs acts c1)"

definition ready_error :: "engine_ready \<Rightarrow> js_string option" where
  "ready_error r =
     (if \<not> er_ownerLockHeld r then
        Some (js ''engine became ready without the exclusive owner lock'')
      else if er_ownerLockName r \<noteq> er_expectedOwnerLockName r then
        Some (js ''engine reported the wrong physical owner lock'')
      else if er_databaseActionProof r \<noteq> proofFor (er_openOutcome r) then
        Some (js ''engine proof does not match open outcome '' @
              the_str (open_outcome_val (er_openOutcome r)))
      else None)"

definition engineReady :: "engine_ready \<Rightarrow> coordinator_action list operation" where
  "engineReady ready c =
     (case stateValue c of
        Activating t e action \<Rightarrow>
          if t \<noteq> er_tabId ready \<or> e \<noteq> er_ownerEpoch ready then
            (let (acts, c1) = recordProtocolViolation
               (js ''unexpected engine-ready from '' @ er_tabId ready @ js '' at epoch '' @
                js_nat (er_ownerEpoch ready)) c in (Inr acts, c1))
          else (case ready_error ready of
            Some err \<Rightarrow>
              (let (acts, c1) = recordProtocolViolation err c in
               case transitionToAbruptLoss t e err c1 of
                 (Inl x, c2) \<Rightarrow> (Inl x, c2)
               | (Inr lossActs, c2) \<Rightarrow> (Inr (acts @ lossActs), c2))
          | None \<Rightarrow>
              (let c1 = c\<lparr>stateValue := Active t e\<rparr>;
                   acts = (if 1 < e then [Broadcast_Engine_Replaced e] else []) in
               case flush_queue t e (queuedRequests c1) acts c1 of
                 (Inl x, c2) \<Rightarrow> (Inl x, c2)
               | (Inr acts', c2) \<Rightarrow> return_asserting acts' c2))
      | _ \<Rightarrow>
          (let (acts, c1) = recordProtocolViolation
             (js ''unexpected engine-ready from '' @ er_tabId ready @ js '' at epoch '' @
              js_nat (er_ownerEpoch ready)) c in (Inr acts, c1)))"

definition engineResponse :: "owner_epoch \<Rightarrow> route_id \<Rightarrow> jsval \<Rightarrow> coordinator_action list operation" where
  "engineResponse e routeId response c =
     (if \<not> acceptsEngineMessages c e then
        (let (act, c1) = dropStale e (Some routeId) Stale_Epoch c in (Inr [act], c1))
      else (case map_of (inFlight c) routeId of
        None \<Rightarrow> (let (act, c1) = dropStale e (Some routeId) Unknown_Route c in (Inr [act], c1))
      | Some req \<Rightarrow>
          if if_ownerEpoch req \<noteq> e then
            (let (act, c1) = dropStale e (Some routeId) Unknown_Route c in (Inr [act], c1))
          else
            (Inr [Deliver_Response (if_tabId req) (with_id response (request_id (if_request req)))],
             c\<lparr>inFlight := AList.delete routeId (inFlight c)\<rparr>)))"

definition enginePush :: "owner_epoch \<Rightarrow> jsval \<Rightarrow> coordinator_action list operation" where
  "enginePush e push c =
     (if \<not> acceptsEngineMessages c e then
        (let (act, c1) = dropStale e None Stale_Epoch c in (Inr [act], c1))
      else (Inr [Broadcast_Push push], c))"

definition beginGracefulDeparture :: "js_string \<Rightarrow> owner_epoch \<Rightarrow> coordinator_action list operation" where
  "beginGracefulDeparture t e c =
     (if stateValue c \<noteq> Active t e then
        (let (acts, c1) = recordProtocolViolation
           (js ''unexpected graceful departure from '' @ t @ js '' at epoch '' @ js_nat e) c
         in (Inr acts, c1))
      else (Inr [Drain_Owner t e],
            c\<lparr>retiringTabs := insert t (retiringTabs c), stateValue := Draining t e\<rparr>))"

definition engineDrained :: "js_string \<Rightarrow> owner_epoch \<Rightarrow> coordinator_action list operation" where
  "engineDrained t e c =
     (if stateValue c \<noteq> Draining t e then
        (let (acts, c1) = recordProtocolViolation
           (js ''unexpected engine-drained from '' @ t @ js '' at epoch '' @ js_nat e) c
         in (Inr acts, c1))
      else
        let (rejects, c1) = rejectEpochRequests e
              (js ''engine drained before delivering its response'') None c;
            c2 = removeTabRecord t c1;
            c3 = c2\<lparr>retiringTabs := retiringTabs c2 - {t},
                    stateValue := Waiting_For_Tab Open_Existing\<rparr>;
            (elects, c4) = activateNext Open_Existing c3
        in return_asserting (rejects @ [Close_Engine_Route t e, Retire_Tab t e] @ elects) c4)"

definition ownerLost ::
  "js_string \<Rightarrow> owner_epoch \<Rightarrow> js_string \<Rightarrow> coordinator_action list operation" where
  "ownerLost t e reason c = transitionToAbruptLoss t e reason c"

definition departForNavigation ::
  "js_string \<Rightarrow> owner_epoch \<Rightarrow> js_string \<Rightarrow> coordinator_action list operation" where
  "departForNavigation t e reason c =
     (if owner_of (stateValue c) \<noteq> Some (t, e) then
        (let (acts, c1) = recordProtocolViolation
           (js ''unexpected navigation departure from '' @ t @ js '' at epoch '' @ js_nat e) c
         in (Inr acts, c1))
      else
        let nextAction = (case stateValue c of Activating _ _ a \<Rightarrow> a | _ \<Rightarrow> Open_Existing);
            (rejects, c1) = rejectEpochRequests e
              (js ''owner epoch '' @ js_nat e @ js '' departed for navigation: '' @ reason)
              (Some OWNER_EPOCH_LOST_ERROR_CODE) c;
            c2 = removeTabRecord t c1;
            c3 = c2\<lparr>retiringTabs := retiringTabs c2 - {t}, stateValue := Waiting_For_Tab nextAction\<rparr>;
            (elects, c4) = activateNext nextAction c3
        in return_asserting (rejects @ [Close_Engine_Route t e, Drop_Tab t] @ elects) c4)"

definition tabLost :: "js_string \<Rightarrow> js_string \<Rightarrow> coordinator_action list operation" where
  "tabLost t reason c =
     (if t \<notin> set (tabs c) then (Inr [], c)
      else
        let (res, c1) = (case owner_of (stateValue c) of
              Some (t', e) \<Rightarrow> if t' = t then transitionToAbruptLoss t e reason c else (Inr [], c)
            | None \<Rightarrow> (Inr [], c))
        in (case res of
          Inl x \<Rightarrow> (Inl x, c1)
        | Inr acts \<Rightarrow>
            let c2 = removeTabRecord t c1;
                c3 = c2\<lparr>retiringTabs := retiringTabs c2 - {t}\<rparr>
            in return_asserting (Drop_Tab t # acts) c3))"

definition resumeAfterLoss :: "coordinator_action list operation" where
  "resumeAfterLoss c =
     (case stateValue c of
        Resetting_After_Loss prev prevEpoch nextEpoch reason \<Rightarrow>
          (let candidate = chooseCandidate (Some prev) c in
           if falsy_tab candidate then
             (Inr [], c\<lparr>stateValue := Waiting_For_Tab Wipe_Before_Open\<rparr>)
           else let t = the candidate in
             (Inr [Elect_Owner t nextEpoch Wipe_Before_Open],
              c\<lparr>currentEpoch := nextEpoch,
                stateValue := Activating t nextEpoch Wipe_Before_Open\<rparr>))
      | _ \<Rightarrow> (Inr [], c))"

definition expectsEngine :: "js_string \<Rightarrow> owner_epoch \<Rightarrow> coordinator \<Rightarrow> bool" where
  "expectsEngine t e c \<longleftrightarrow>
     (case stateValue c of Activating t' e' _ \<Rightarrow> t' = t \<and> e' = e | _ \<Rightarrow> False)"

section \<open>The machine\<close>

text \<open>The calls the router makes, as events.\<close>

datatype core_event =
    Ev_Register_Tab js_string
  | Ev_Request js_string jsval
  | Ev_Engine_Ready engine_ready
  | Ev_Engine_Response owner_epoch route_id jsval
  | Ev_Engine_Push owner_epoch jsval
  | Ev_Graceful_Departure js_string owner_epoch
  | Ev_Engine_Drained js_string owner_epoch
  | Ev_Owner_Lost js_string owner_epoch js_string
  | Ev_Navigation_Departure js_string owner_epoch js_string
  | Ev_Tab_Lost js_string js_string
  | Ev_Resume_After_Loss

fun core_step :: "core_event \<Rightarrow> coordinator_action list operation" where
  "core_step (Ev_Register_Tab t) = registerTab t"
| "core_step (Ev_Request t r) = request t r"
| "core_step (Ev_Engine_Ready ready) = engineReady ready"
| "core_step (Ev_Engine_Response e routeId response) = engineResponse e routeId response"
| "core_step (Ev_Engine_Push e push) = enginePush e push"
| "core_step (Ev_Graceful_Departure t e) = beginGracefulDeparture t e"
| "core_step (Ev_Engine_Drained t e) = engineDrained t e"
| "core_step (Ev_Owner_Lost t e reason) = ownerLost t e reason"
| "core_step (Ev_Navigation_Departure t e reason) = departForNavigation t e reason"
| "core_step (Ev_Tab_Lost t reason) = tabLost t reason"
| "core_step Ev_Resume_After_Loss = resumeAfterLoss"

text \<open>The envelope validator lets only non-empty tab ids through.\<close>

fun event_ok :: "core_event \<Rightarrow> bool" where
  "event_ok (Ev_Register_Tab t) = (t \<noteq> [])"
| "event_ok _ = True"

end
