(* ===== verification/Coord_Core_Laws.thy ===== *)
theory Coord_Core_Laws
  imports Coord_Core
begin

text \<open>
  The invariant of the coordinator state machine and the facts about single operations that
  the properties use: what a step keeps, what it emits, and which errors it can throw.
\<close>

section \<open>Helpers\<close>

lemma update_fresh: "k \<notin> fst ` set al \<Longrightarrow> AList.update k v al = al @ [(k, v)]"
  by (induction al) auto

lemma set_eligible [simp]: "set (eligible c) = set (tabs c) - retiringTabs c"
  by (auto simp: eligible_def)

lemma eligible_Nil_iff: "eligible c = [] \<longleftrightarrow> set (tabs c) \<subseteq> retiringTabs c"
  by (auto simp: eligible_def filter_empty_conv)

lemma chooseCandidate_eligible: "chooseCandidate a c = Some t \<Longrightarrow> t \<in> set (eligible c)"
  by (cases "eligible c")
    (auto simp: chooseCandidate_def find_Some_iff split: option.splits if_splits)

lemma chooseCandidate_Some:
  "chooseCandidate a c = Some t \<Longrightarrow> t \<in> set (tabs c) \<and> t \<notin> retiringTabs c"
  using chooseCandidate_eligible [of a c t] by simp

lemma chooseCandidate_None: "chooseCandidate a c = None \<longleftrightarrow> set (tabs c) \<subseteq> retiringTabs c"
  by (auto simp: chooseCandidate_def eligible_Nil_iff [symmetric] find_None_iff
      split: option.splits list.splits)

lemma falsy_chooseCandidate:
  "[] \<notin> set (tabs c) \<Longrightarrow> falsy_tab (chooseCandidate a c) \<longleftrightarrow> set (tabs c) \<subseteq> retiringTabs c"
  by (auto simp: falsy_tab_def chooseCandidate_None dest: chooseCandidate_Some)

lemma chooseCandidate_avoids:
  "chooseCandidate (Some a) c = Some a \<Longrightarrow> set (tabs c) - retiringTabs c \<subseteq> {a}"
  unfolding set_eligible [symmetric]
  by (auto simp: chooseCandidate_def find_Some_iff find_None_iff split: option.splits)

lemma snd_lift:
  "snd (case x of (Inl e, s) \<Rightarrow> (Inl e, s) | (Inr a, s) \<Rightarrow> (Inr (f a), s)) = snd x"
  by (simp split: prod.splits sum.splits)

section \<open>The invariant\<close>

definition inflight_inv :: "coordinator \<Rightarrow> bool" where
  "inflight_inv c \<longleftrightarrow>
     distinct (List.map fst (inFlight c)) \<and>
     (\<forall>(k, r) \<in> set (inFlight c).
        if_routeId r = k \<and> 0 < k \<and> k < nextRouteId c \<and> if_tabId r \<in> set (tabs c) \<and>
        serving_epoch (stateValue c) = Some (if_ownerEpoch r))"

definition state_inv :: "coordinator \<Rightarrow> bool" where
  "state_inv c \<longleftrightarrow>
     (case stateValue c of
        Waiting_For_Tab _ \<Rightarrow> set (tabs c) \<subseteq> retiringTabs c
      | Activating t e _ \<Rightarrow> t \<in> set (tabs c) \<and> t \<notin> retiringTabs c \<and> e = currentEpoch c \<and> 0 < e
      | Active t e \<Rightarrow> t \<in> set (tabs c) \<and> t \<notin> retiringTabs c \<and> e = currentEpoch c \<and> 0 < e \<and>
          (int (nextRouteId c) \<le> max_safe_integer \<longrightarrow> queuedRequests c = [])
      | Draining t e \<Rightarrow> t \<in> set (tabs c) \<and> t \<in> retiringTabs c \<and> e = currentEpoch c \<and> 0 < e
      | Resetting_After_Loss _ prevEpoch nextEpoch _ \<Rightarrow>
          prevEpoch = currentEpoch c \<and> nextEpoch = currentEpoch c + 1 \<and> 0 < prevEpoch)"

definition base_inv :: "coordinator \<Rightarrow> bool" where
  "base_inv c \<longleftrightarrow>
     distinct (tabs c) \<and> [] \<notin> set (tabs c) \<and> retiringTabs c \<subseteq> set (tabs c) \<and>
     (\<forall>q \<in> set (queuedRequests c). qr_tabId q \<in> set (tabs c)) \<and> 0 < nextRouteId c"

definition core_inv :: "coordinator \<Rightarrow> bool" where
  "core_inv c \<longleftrightarrow> base_inv c \<and> inflight_inv c \<and> state_inv c"

lemmas core_inv_defs = core_inv_def base_inv_def inflight_inv_def state_inv_def

lemma core_inv_base: "core_inv c \<Longrightarrow> base_inv c"
  by (simp add: core_inv_def)

lemma core_inv_unowned:
  "core_inv c \<Longrightarrow> serving_epoch (stateValue c) = None \<Longrightarrow> inFlight c = []"
  by (cases "inFlight c") (auto simp: core_inv_defs)

lemma core_inv_initial: "core_inv (initial_core sc)"
  by (simp add: core_inv_defs initial_core_def)

lemma core_inv_owner:
  "core_inv c \<Longrightarrow> owner_of (stateValue c) = Some (t, e) \<Longrightarrow>
    t \<in> set (tabs c) \<and> e = currentEpoch c \<and> 0 < e"
  by (cases "stateValue c") (auto simp: core_inv_defs)

lemma core_inv_asserts: "core_inv c \<Longrightarrow> assertInvariants c = None"
  by (cases "stateValue c"; cases "inFlight c")
    (auto simp: assertInvariants_def core_inv_defs list_ex_iff)

lemma return_asserting_inv [simp]: "core_inv c \<Longrightarrow> return_asserting acts c = (Inr acts, c)"
  by (simp add: return_asserting_def core_inv_asserts)

lemma snd_return_asserting [simp]: "snd (return_asserting acts c) = c"
  by (simp add: return_asserting_def split: option.splits)

lemma core_inv_only_owner_epoch:
  "core_inv c \<Longrightarrow> owner_of (stateValue c) = Some (t, e) \<Longrightarrow>
    \<forall>p \<in> set (inFlight c). if_ownerEpoch (snd p) = e"
  by (cases "stateValue c") (fastforce simp: core_inv_defs)+

text \<open>Rejecting the owner's epoch empties the in-flight map.\<close>

lemma rejectEpochRequests_owner:
  assumes "core_inv c" and "owner_of (stateValue c) = Some (t, e)"
  shows "rejectEpochRequests e err code c =
    (List.map (\<lambda>p. reject (if_tabId (snd p)) (request_id (if_request (snd p))) err code) (inFlight c),
     c\<lparr>inFlight := []\<rparr>)"
proof -
  note h = core_inv_only_owner_epoch [OF assms]
  have "filter (\<lambda>p. if_ownerEpoch (snd p) = e) (inFlight c) = inFlight c"
    using h by (simp add: filter_id_conv)
  moreover have "filter (\<lambda>p. if_ownerEpoch (snd p) \<noteq> e) (inFlight c) = []"
    using h by (simp add: filter_empty_conv)
  ultimately show ?thesis by (simp add: rejectEpochRequests_def)
qed

section \<open>Every operation keeps the invariant\<close>

lemma core_inv_activateNext:
  "base_inv c \<Longrightarrow> inFlight c = [] \<Longrightarrow> core_inv (snd (activateNext action c))"
  using chooseCandidate_Some [of None c]
  by (auto simp: activateNext_def Let_def falsy_chooseCandidate core_inv_defs chooseCandidate_None
      falsy_tab_def split: option.splits)

lemma core_inv_registerTab:
  assumes "core_inv c" and "t \<noteq> []"
  shows "core_inv (snd (registerTab t c))"
proof (cases "stateValue c")
  case (Waiting_For_Tab action)
  have "base_inv (c\<lparr>tabs := tabs c @ [t]\<rparr>)" if "t \<notin> set (tabs c)"
    using assms that by (auto simp: core_inv_defs)
  with assms(1) Waiting_For_Tab core_inv_unowned [OF assms(1)] show ?thesis
    by (simp add: registerTab_def Let_def case_prod_beta core_inv_activateNext)
qed (use assms in \<open>auto simp: registerTab_def Let_def core_inv_defs\<close>)

text \<open>Everything but the emptiness of the queue while a request queue is flushed to an owner.\<close>

definition owner_inv :: "js_string \<Rightarrow> owner_epoch \<Rightarrow> coordinator \<Rightarrow> bool" where
  "owner_inv t e c \<longleftrightarrow>
     base_inv c \<and> inflight_inv c \<and> stateValue c = Active t e \<and>
     t \<in> set (tabs c) \<and> t \<notin> retiringTabs c \<and> e = currentEpoch c \<and> 0 < e"

definition exhausted :: "coordinator \<Rightarrow> bool" where
  "exhausted c \<longleftrightarrow> \<not> int (nextRouteId c) \<le> max_safe_integer"

lemma core_inv_active:
  "stateValue c = Active t e \<Longrightarrow>
    core_inv c \<longleftrightarrow> owner_inv t e c \<and> (exhausted c \<or> queuedRequests c = [])"
  by (auto simp: core_inv_def state_inv_def owner_inv_def exhausted_def)

lemma route_fresh:
  "inflight_inv c \<Longrightarrow> AList.update (nextRouteId c) r (inFlight c) = inFlight c @ [(nextRouteId c, r)]"
  by (rule update_fresh) (fastforce simp: inflight_inv_def)

definition routed_request :: "queued_request \<Rightarrow> js_string \<Rightarrow> owner_epoch \<Rightarrow> route_id \<Rightarrow> coordinator_action" where
  "routed_request q t e n = Route_Request t (qr_tabId q) e n (with_id (qr_request q) (int n))"

definition flight :: "queued_request \<Rightarrow> owner_epoch \<Rightarrow> route_id \<Rightarrow> route_id \<times> in_flight_request" where
  "flight q e n =
     (n, \<lparr> if_tabId = qr_tabId q, if_request = qr_request q, if_routeId = n, if_ownerEpoch = e \<rparr>)"

lemma route_cases [consumes 1, case_names exhausted routed]:
  assumes "inflight_inv c"
  obtains "exhausted c"
      "route q t e c = (Inl (Js_Error (js ''coordinator route id space exhausted'')), c)"
  | "\<not> exhausted c"
      "route q t e c =
        (Inr (routed_request q t e (nextRouteId c)),
         c\<lparr>nextRouteId := nextRouteId c + 1,
           inFlight := inFlight c @ [flight q e (nextRouteId c)]\<rparr>)"
  using that route_fresh [OF assms]
  by (auto simp: route_def Let_def exhausted_def routed_request_def flight_def)

lemma owner_inv_route:
  assumes "owner_inv t e c" "qr_tabId q \<in> set (tabs c)"
  shows "owner_inv t e (snd (route q t e c))"
proof -
  from assms(1) have "inflight_inv c" by (simp add: owner_inv_def)
  then show ?thesis
  proof (cases rule: route_cases [where q = q and t = t and e = e])
    case exhausted
    with assms show ?thesis by simp
  next
    case routed
    with assms show ?thesis
      by (fastforce simp: owner_inv_def base_inv_def inflight_inv_def flight_def)
  qed
qed

lemma core_inv_route:
  assumes "core_inv c" "stateValue c = Active t e" "qr_tabId q \<in> set (tabs c)"
  shows "core_inv (snd (route q t e c))"
proof -
  from assms have inv: "owner_inv t e c" and q: "exhausted c \<or> queuedRequests c = []"
    by (simp_all add: core_inv_active)
  from inv have "inflight_inv c" by (simp add: owner_inv_def)
  then show ?thesis
  proof (cases rule: route_cases [where q = q and t = t and e = e])
    case routed
    moreover have "stateValue (snd (route q t e c)) = Active t e"
      using routed assms(2) by simp
    ultimately show ?thesis
      using owner_inv_route [OF inv assms(3)] q by (simp add: core_inv_active)
  qed (use assms in simp)
qed

lemma core_inv_request:
  assumes "core_inv c"
  shows "core_inv (snd (request t r c))"
proof (cases "t \<in> set (tabs c) \<and> t \<notin> retiringTabs c")
  case False
  with assms show ?thesis by (auto simp: request_def)
next
  case tab: True
  show ?thesis
  proof (cases "stateValue c")
    case (Active ot e)
    have "core_inv (snd (route \<lparr>qr_tabId = t, qr_request = r\<rparr> ot e c))"
      using assms Active tab by (intro core_inv_route) auto
    with Active tab show ?thesis
      by (simp add: request_def Let_def snd_lift)
  qed (use assms tab in \<open>auto simp: request_def Let_def core_inv_defs\<close>)
qed

subsection \<open>Flushing the queue\<close>

text \<open>What a complete flush does: the queue goes out in order under consecutive route ids.\<close>

fun flushed_actions ::
  "js_string \<Rightarrow> owner_epoch \<Rightarrow> route_id \<Rightarrow> queued_request list \<Rightarrow> coordinator_action list" where
  "flushed_actions t e n [] = []"
| "flushed_actions t e n (q # qs) = routed_request q t e n # flushed_actions t e (Suc n) qs"

fun flushed_flights ::
  "owner_epoch \<Rightarrow> route_id \<Rightarrow> queued_request list \<Rightarrow> (route_id \<times> in_flight_request) list" where
  "flushed_flights e n [] = []"
| "flushed_flights e n (q # qs) = flight q e n # flushed_flights e (Suc n) qs"

lemma owner_inv_queue [simp]:
  "owner_inv t e c \<Longrightarrow> \<forall>q \<in> set qs. qr_tabId q \<in> set (tabs c) \<Longrightarrow>
    owner_inv t e (c\<lparr>queuedRequests := qs\<rparr>)"
  by (auto simp: owner_inv_def base_inv_def inflight_inv_def)

lemma flush_queue_outcome:
  assumes "owner_inv t e c" "\<forall>q \<in> set qs. qr_tabId q \<in> set (tabs c)"
  shows "case flush_queue t e qs acts c of
      (Inl err, c') \<Rightarrow> owner_inv t e c' \<and> exhausted c' \<and> qs \<noteq> []
    | (Inr acts', c') \<Rightarrow>
        owner_inv t e c' \<and> acts' = acts @ flushed_actions t e (nextRouteId c) qs \<and>
        c' = c\<lparr>queuedRequests := [], nextRouteId := nextRouteId c + length qs,
               inFlight := inFlight c @ flushed_flights e (nextRouteId c) qs\<rparr>"
  using assms
proof (induction qs arbitrary: acts c)
  case Nil
  then show ?case by simp
next
  case (Cons q qs)
  let ?c1 = "c\<lparr>queuedRequests := qs\<rparr>"
  have inv1: "owner_inv t e ?c1" using Cons.prems by simp
  then have fl: "inflight_inv ?c1" by (simp add: owner_inv_def)
  from Cons.prems have q: "qr_tabId q \<in> set (tabs ?c1)" by simp
  from fl show ?case
  proof (cases rule: route_cases [where q = q and t = t and e = e])
    case exhausted
    with Cons.prems inv1 show ?thesis by (simp add: Let_def)
  next
    case routed
    let ?c2 = "snd (route q t e ?c1)"
    have inv2: "owner_inv t e ?c2" by (rule owner_inv_route [OF inv1 q])
    have tabs2: "tabs ?c2 = tabs c" using routed by simp
    from Cons.IH [OF inv2, of "acts @ [routed_request q t e (nextRouteId c)]"] Cons.prems(2) tabs2 routed
    show ?thesis by (simp add: Let_def split: prod.splits sum.splits)
  qed
qed

lemma flush_queue_tabs: "tabs (snd (flush_queue t e qs acts c)) = tabs c"
proof (induction qs arbitrary: acts c)
  case (Cons q qs)
  show ?case
    by (auto simp: Let_def route_def Cons.IH)
qed simp

section \<open>The remaining operations\<close>

lemma base_inv_removeTab:
  "base_inv c \<Longrightarrow> base_inv ((removeTabRecord t c)\<lparr>retiringTabs := retiringTabs c - {t}, stateValue := s\<rparr>)"
  by (auto simp: base_inv_def removeTabRecord_def)

lemma core_inv_loss:
  assumes "core_inv c"
  shows "core_inv (snd (transitionToAbruptLoss t e reason c))"
proof (cases "owner_of (stateValue c) = Some (t, e)")
  case True
  then show ?thesis
    using assms core_inv_owner [OF assms True]
    by (auto simp: transitionToAbruptLoss_def rejectEpochRequests_owner Let_def core_inv_defs)
qed (use assms in \<open>simp add: transitionToAbruptLoss_def\<close>)

text \<open>What an abrupt loss does when it is the current owner's.\<close>

lemma loss_of_owner:
  assumes "core_inv c" and "owner_of (stateValue c) = Some (t, e)"
  shows "transitionToAbruptLoss t e reason c =
    (Inr (List.map (\<lambda>p. reject (if_tabId (snd p)) (request_id (if_request (snd p)))
            (js ''owner epoch '' @ js_nat e @ js '' was lost: '' @ reason)
            (Some OWNER_EPOCH_LOST_ERROR_CODE)) (inFlight c) @
          [Close_Engine_Route t e, Schedule_Reset_Activation]),
     c\<lparr>inFlight := [], stateValue := Resetting_After_Loss t e (e + 1) reason\<rparr>)"
proof -
  let ?c = "c\<lparr>inFlight := [], stateValue := Resetting_After_Loss t e (e + 1) reason\<rparr>"
  have e: "e = currentEpoch c" using core_inv_owner [OF assms] by simp
  moreover have "core_inv ?c"
    using core_inv_loss [OF assms(1), of t e reason] assms e
    by (simp add: transitionToAbruptLoss_def rejectEpochRequests_owner)
  ultimately show ?thesis
    using assms by (simp add: transitionToAbruptLoss_def rejectEpochRequests_owner)
qed

lemma loss_of_other:
  "owner_of (stateValue c) \<noteq> Some (t, e) \<Longrightarrow> transitionToAbruptLoss t e reason c = (Inr [], c)"
  by (simp add: transitionToAbruptLoss_def)

lemma state_inv_counters:
  "state_inv (c\<lparr>protocolViolations := n\<rparr>) = state_inv c"
  "state_inv (c\<lparr>staleMessageDrops := n\<rparr>) = state_inv c"
  by (cases "stateValue c"; simp add: state_inv_def) (cases "stateValue c"; simp add: state_inv_def)

lemma core_inv_counters [simp]:
  "core_inv (c\<lparr>protocolViolations := n\<rparr>) = core_inv c"
  "core_inv (c\<lparr>staleMessageDrops := n\<rparr>) = core_inv c"
  by (simp_all add: core_inv_def state_inv_counters base_inv_def inflight_inv_def)

lemma core_inv_activated:
  assumes "core_inv c" and "stateValue c = Activating t e a"
  shows "owner_inv t e (c\<lparr>stateValue := Active t e\<rparr>)"
proof -
  have "inFlight c = []" using assms by (simp add: core_inv_unowned)
  with assms show ?thesis
    by (simp add: core_inv_def base_inv_def inflight_inv_def state_inv_def owner_inv_def)
qed

lemma snd_return_asserting_bind:
  "snd (case x of (Inl e, s) \<Rightarrow> (Inl e, s) | (Inr a, s) \<Rightarrow> return_asserting a s) = snd x"
  by (simp split: prod.splits sum.splits)

lemma engineReady_unexpected:
  "(\<nexists>a. stateValue c = Activating (er_tabId ready) (er_ownerEpoch ready) a) \<Longrightarrow>
    engineReady ready c =
      (Inr [Protocol_Violation (js ''unexpected engine-ready from '' @ er_tabId ready @
         js '' at epoch '' @ js_nat (er_ownerEpoch ready))],
       c\<lparr>protocolViolations := protocolViolations c + 1\<rparr>)"
  by (cases "stateValue c") (auto simp: engineReady_def recordProtocolViolation_def)

lemma engineReady_refused:
  assumes "core_inv c" "stateValue c = Activating (er_tabId ready) (er_ownerEpoch ready) a"
    "ready_error ready = Some err"
  shows "engineReady ready c =
    (Inr [Protocol_Violation err, Close_Engine_Route (er_tabId ready) (er_ownerEpoch ready),
          Schedule_Reset_Activation],
     c\<lparr>protocolViolations := protocolViolations c + 1,
       stateValue := Resetting_After_Loss (er_tabId ready) (er_ownerEpoch ready)
         (er_ownerEpoch ready + 1) err\<rparr>)"
proof -
  let ?c1 = "c\<lparr>protocolViolations := protocolViolations c + 1\<rparr>"
  have "inFlight c = []" using assms(1,2) by (simp add: core_inv_unowned)
  with assms loss_of_owner [of ?c1 "er_tabId ready" "er_ownerEpoch ready" err] show ?thesis
    by (simp add: engineReady_def recordProtocolViolation_def)
qed

lemma engineReady_accepted:
  assumes "stateValue c = Activating (er_tabId ready) (er_ownerEpoch ready) a"
    "ready_error ready = None"
  shows "engineReady ready c =
    (case flush_queue (er_tabId ready) (er_ownerEpoch ready) (queuedRequests c)
       (if 1 < er_ownerEpoch ready then [Broadcast_Engine_Replaced (er_ownerEpoch ready)] else [])
       (c\<lparr>stateValue := Active (er_tabId ready) (er_ownerEpoch ready)\<rparr>) of
       (Inl x, c2) \<Rightarrow> (Inl x, c2)
     | (Inr acts, c2) \<Rightarrow> return_asserting acts c2)"
  using assms by (simp add: engineReady_def Let_def)

lemma core_inv_engineReady:
  assumes "core_inv c"
  shows "core_inv (snd (engineReady ready c))"
proof (cases "\<exists>a. stateValue c = Activating (er_tabId ready) (er_ownerEpoch ready) a")
  case False
  with assms show ?thesis by (simp add: engineReady_unexpected)
next
  case True
  then obtain a where a: "stateValue c = Activating (er_tabId ready) (er_ownerEpoch ready) a" ..
  show ?thesis
  proof (cases "ready_error ready")
    case (Some err)
    let ?c1 = "c\<lparr>protocolViolations := protocolViolations c + 1\<rparr>"
    have "core_inv (snd (transitionToAbruptLoss (er_tabId ready) (er_ownerEpoch ready) err ?c1))"
      using assms by (simp add: core_inv_loss)
    then show ?thesis
      using Some a loss_of_owner [of ?c1 "er_tabId ready" "er_ownerEpoch ready" err] assms
      by (simp add: engineReady_def recordProtocolViolation_def)
  next
    case None
    let ?t = "er_tabId ready" and ?e = "er_ownerEpoch ready"
    let ?c1 = "c\<lparr>stateValue := Active ?t ?e\<rparr>"
    have inv1: "owner_inv ?t ?e ?c1" by (rule core_inv_activated [OF assms a])
    have queued: "\<forall>q \<in> set (queuedRequests c). qr_tabId q \<in> set (tabs ?c1)"
      using assms by (simp add: core_inv_defs)
    have "core_inv (snd (flush_queue ?t ?e (queuedRequests c) acts ?c1))" for acts
    proof -
      obtain res c' where r: "flush_queue ?t ?e (queuedRequests c) acts ?c1 = (res, c')" by fastforce
      with flush_queue_outcome [OF inv1 queued, of acts]
      have "owner_inv ?t ?e c' \<and> (exhausted c' \<or> queuedRequests c' = [])"
        by (cases res) auto
      moreover from this have "stateValue c' = Active ?t ?e" by (simp add: owner_inv_def)
      ultimately show ?thesis using r by (simp add: core_inv_active)
    qed
    with a None show ?thesis
      by (simp add: engineReady_accepted snd_return_asserting_bind)
  qed
qed

lemma core_inv_engineResponse:
  assumes "core_inv c"
  shows "core_inv (snd (engineResponse e n response c))"
proof -
  have "core_inv (c\<lparr>inFlight := AList.delete n (inFlight c)\<rparr>)"
  proof -
    have "inflight_inv (c\<lparr>inFlight := AList.delete n (inFlight c)\<rparr>)"
      using assms by (auto simp: core_inv_def inflight_inv_def AList.delete_eq distinct_map_filter)
    moreover have "state_inv (c\<lparr>inFlight := AList.delete n (inFlight c)\<rparr>)"
      using assms by (cases "stateValue c") (simp_all add: core_inv_def state_inv_def)
    ultimately show ?thesis
      using assms by (simp add: core_inv_def base_inv_def)
  qed
  with assms show ?thesis
    by (simp add: engineResponse_def dropStale_def Let_def split: option.splits)
qed

lemma core_inv_enginePush: "core_inv c \<Longrightarrow> core_inv (snd (enginePush e push c))"
  by (simp add: enginePush_def dropStale_def)

lemma core_inv_beginGracefulDeparture:
  assumes "core_inv c"
  shows "core_inv (snd (beginGracefulDeparture t e c))"
proof (cases "stateValue c = Active t e")
  case True
  let ?c = "c\<lparr>retiringTabs := insert t (retiringTabs c), stateValue := Draining t e\<rparr>"
  have "inflight_inv ?c"
    using assms True by (auto simp: core_inv_def inflight_inv_def)
  with assms True have "core_inv ?c"
    by (simp add: core_inv_def base_inv_def state_inv_def)
  with True show ?thesis by (simp add: beginGracefulDeparture_def)
next
  case False
  with assms show ?thesis by (simp add: beginGracefulDeparture_def recordProtocolViolation_def)
qed

lemma removeTabRecord_simps [simp]:
  "stateValue (removeTabRecord t c) = stateValue c"
  "currentEpoch (removeTabRecord t c) = currentEpoch c"
  "nextRouteId (removeTabRecord t c) = nextRouteId c"
  "retiringTabs (removeTabRecord t c) = retiringTabs c"
  "tabs (removeTabRecord t c) = remove1 t (tabs c)"
  "inFlight (removeTabRecord t c) = filter (\<lambda>p. if_tabId (snd p) \<noteq> t) (inFlight c)"
  "queuedRequests (removeTabRecord t c) = filter (\<lambda>q. qr_tabId q \<noteq> t) (queuedRequests c)"
  by (simp_all add: removeTabRecord_def)

lemma base_inv_inFlight [simp]: "base_inv (c\<lparr>inFlight := x\<rparr>) = base_inv c"
  by (simp add: base_inv_def)

text \<open>The state from which \<open>engineDrained\<close> and \<open>departForNavigation\<close> elect a successor.\<close>

lemma core_inv_departed:
  assumes "core_inv c"
  shows "core_inv (snd (activateNext a
    ((removeTabRecord t (c\<lparr>inFlight := []\<rparr>))\<lparr>retiringTabs := retiringTabs c - {t},
       stateValue := s\<rparr>)))"
proof -
  have "base_inv ((removeTabRecord t (c\<lparr>inFlight := []\<rparr>))\<lparr>retiringTabs := retiringTabs c - {t},
      stateValue := s\<rparr>)"
    using base_inv_removeTab [where c = "c\<lparr>inFlight := []\<rparr>" and t = t and s = s] assms by (simp add: core_inv_base)
  then show ?thesis by (rule core_inv_activateNext) simp
qed

lemma engineDrained_owner:
  assumes "core_inv c" "stateValue c = Draining t e"
  shows "engineDrained t e c =
    (let (elects, c') = activateNext Open_Existing
       ((removeTabRecord t (c\<lparr>inFlight := []\<rparr>))\<lparr>retiringTabs := retiringTabs c - {t},
          stateValue := Waiting_For_Tab Open_Existing\<rparr>)
     in (Inr (List.map (\<lambda>p. reject (if_tabId (snd p)) (request_id (if_request (snd p)))
              (js ''engine drained before delivering its response'') None) (inFlight c) @
            [Close_Engine_Route t e, Retire_Tab t e] @ elects), c'))"
  using assms core_inv_departed [OF assms(1), where a = Open_Existing and t = t and s = "Waiting_For_Tab Open_Existing"]
  by (simp add: engineDrained_def rejectEpochRequests_owner Let_def case_prod_beta)

lemma departForNavigation_owner:
  assumes "core_inv c" "owner_of (stateValue c) = Some (t, e)"
  shows "departForNavigation t e reason c =
    (let a = (case stateValue c of Activating _ _ a \<Rightarrow> a | _ \<Rightarrow> Open_Existing);
         (elects, c') = activateNext a
       ((removeTabRecord t (c\<lparr>inFlight := []\<rparr>))\<lparr>retiringTabs := retiringTabs c - {t},
          stateValue := Waiting_For_Tab a\<rparr>)
     in (Inr (List.map (\<lambda>p. reject (if_tabId (snd p)) (request_id (if_request (snd p)))
              (js ''owner epoch '' @ js_nat e @ js '' departed for navigation: '' @ reason)
              (Some OWNER_EPOCH_LOST_ERROR_CODE)) (inFlight c) @
            [Close_Engine_Route t e, Drop_Tab t] @ elects), c'))"
  using assms core_inv_departed [OF assms(1), where a = a and t = t and s = "Waiting_For_Tab a" for a]
  by (simp add: departForNavigation_def rejectEpochRequests_owner Let_def case_prod_beta)

lemma core_inv_engineDrained: "core_inv c \<Longrightarrow> core_inv (snd (engineDrained t e c))"
  using core_inv_departed [of c]
  by (cases "stateValue c = Draining t e")
    (simp_all add: engineDrained_owner Let_def case_prod_beta,
     simp add: engineDrained_def recordProtocolViolation_def)

lemma core_inv_departForNavigation: "core_inv c \<Longrightarrow> core_inv (snd (departForNavigation t e reason c))"
  using core_inv_departed [of c]
  by (cases "owner_of (stateValue c) = Some (t, e)")
    (simp_all add: departForNavigation_owner Let_def case_prod_beta,
     simp add: departForNavigation_def recordProtocolViolation_def)

lemma core_inv_forget:
  assumes "core_inv c" "\<And>e. owner_of (stateValue c) \<noteq> Some (t, e)"
  shows "core_inv ((removeTabRecord t c)\<lparr>retiringTabs := retiringTabs c - {t}\<rparr>)"
proof -
  let ?c = "(removeTabRecord t c)\<lparr>retiringTabs := retiringTabs c - {t}\<rparr>"
  have "base_inv ?c"
    using base_inv_removeTab [where c = c and t = t and s = "stateValue c"] assms(1) by (auto simp: core_inv_def base_inv_def)
  moreover have "inflight_inv ?c"
    using assms(1) by (auto simp: core_inv_def inflight_inv_def distinct_map_filter)
  moreover have "state_inv ?c"
    using assms by (cases "stateValue c") (auto simp: core_inv_def state_inv_def base_inv_def)
  ultimately show ?thesis by (simp add: core_inv_def)
qed

lemma tabLost_owner:
  assumes "core_inv c" "owner_of (stateValue c) = Some (t, e)"
  shows "tabLost t reason c =
    (Inr (Drop_Tab t # List.map (\<lambda>p. reject (if_tabId (snd p)) (request_id (if_request (snd p)))
            (js ''owner epoch '' @ js_nat e @ js '' was lost: '' @ reason)
            (Some OWNER_EPOCH_LOST_ERROR_CODE)) (inFlight c) @
          [Close_Engine_Route t e, Schedule_Reset_Activation]),
     (removeTabRecord t (c\<lparr>inFlight := [], stateValue := Resetting_After_Loss t e (e + 1) reason\<rparr>))
       \<lparr>retiringTabs := retiringTabs c - {t}\<rparr>)"
proof -
  let ?c1 = "c\<lparr>inFlight := [], stateValue := Resetting_After_Loss t e (e + 1) reason\<rparr>"
  have "core_inv ?c1"
    using core_inv_loss [OF assms(1), of t e reason] loss_of_owner [OF assms] by simp
  then have "core_inv ((removeTabRecord t ?c1)\<lparr>retiringTabs := retiringTabs ?c1 - {t}\<rparr>)"
    by (rule core_inv_forget) simp
  moreover have "t \<in> set (tabs c)" using core_inv_owner [OF assms] by simp
  ultimately show ?thesis
    using assms by (simp add: tabLost_def loss_of_owner)
qed

lemma tabLost_standby:
  assumes "core_inv c" "t \<in> set (tabs c)" "\<And>e. owner_of (stateValue c) \<noteq> Some (t, e)"
  shows "tabLost t reason c =
    (Inr [Drop_Tab t], (removeTabRecord t c)\<lparr>retiringTabs := retiringTabs c - {t}\<rparr>)"
  using assms core_inv_forget [OF assms(1,3)]
  by (auto simp: tabLost_def split: option.splits prod.splits)

lemma core_inv_tabLost:
  assumes "core_inv c"
  shows "core_inv (snd (tabLost t reason c))"
proof (cases "t \<in> set (tabs c)")
  case tab: True
  show ?thesis
  proof (cases "\<exists>e. owner_of (stateValue c) = Some (t, e)")
    case True
    then obtain e where e: "owner_of (stateValue c) = Some (t, e)" ..
    let ?c1 = "c\<lparr>inFlight := [], stateValue := Resetting_After_Loss t e (e + 1) reason\<rparr>"
    have "core_inv ?c1"
      using core_inv_loss [OF assms, of t e reason] loss_of_owner [OF assms e] by simp
    then have "core_inv ((removeTabRecord t ?c1)\<lparr>retiringTabs := retiringTabs ?c1 - {t}\<rparr>)"
      by (rule core_inv_forget) simp
    then show ?thesis using tabLost_owner [OF assms e] by simp
  next
    case False
    with assms tab show ?thesis by (simp add: tabLost_standby core_inv_forget)
  qed
qed (use assms in \<open>simp add: tabLost_def\<close>)

lemma resumeAfterLoss_candidate:
  assumes "core_inv c" "stateValue c = Resetting_After_Loss p pe ne reason"
    "chooseCandidate (Some p) c = Some t"
  shows "resumeAfterLoss c =
    (Inr [Elect_Owner t ne Wipe_Before_Open],
     c\<lparr>currentEpoch := ne, stateValue := Activating t ne Wipe_Before_Open\<rparr>)"
proof -
  have "t \<noteq> []" using chooseCandidate_Some [OF assms(3)] assms(1) by (auto simp: core_inv_defs)
  with assms show ?thesis by (simp add: resumeAfterLoss_def Let_def falsy_tab_def)
qed

lemma resumeAfterLoss_nobody:
  assumes "stateValue c = Resetting_After_Loss p pe ne reason"
    "chooseCandidate (Some p) c = None"
  shows "resumeAfterLoss c = (Inr [], c\<lparr>stateValue := Waiting_For_Tab Wipe_Before_Open\<rparr>)"
  using assms by (simp add: resumeAfterLoss_def Let_def falsy_tab_def)

lemma resumeAfterLoss_idle:
  "(\<nexists>p pe ne reason. stateValue c = Resetting_After_Loss p pe ne reason) \<Longrightarrow>
    resumeAfterLoss c = (Inr [], c)"
  by (cases "stateValue c") (auto simp: resumeAfterLoss_def)

lemma core_inv_resumeAfterLoss:
  assumes "core_inv c"
  shows "core_inv (snd (resumeAfterLoss c))"
proof (cases "\<exists>p pe ne reason. stateValue c = Resetting_After_Loss p pe ne reason")
  case True
  then obtain p pe ne reason where s: "stateValue c = Resetting_After_Loss p pe ne reason"
    by blast
  then have flight: "inFlight c = []" using assms by (simp add: core_inv_unowned)
  show ?thesis
  proof (cases "chooseCandidate (Some p) c")
    case None
    with assms s flight show ?thesis
      by (simp add: resumeAfterLoss_nobody chooseCandidate_None core_inv_def base_inv_def
          inflight_inv_def state_inv_def)
  next
    case (Some t)
    with assms s flight chooseCandidate_Some [OF Some] show ?thesis
      by (simp add: resumeAfterLoss_candidate core_inv_def base_inv_def inflight_inv_def
          state_inv_def)
  qed
qed (use assms in \<open>simp add: resumeAfterLoss_idle\<close>)

lemmas core_inv_operations =
  core_inv_registerTab core_inv_request core_inv_engineReady core_inv_engineResponse
  core_inv_enginePush core_inv_beginGracefulDeparture core_inv_engineDrained core_inv_loss
  core_inv_departForNavigation core_inv_tabLost core_inv_resumeAfterLoss

lemma core_inv_step: "core_inv c \<Longrightarrow> event_ok e \<Longrightarrow> core_inv (snd (core_step e c))"
  by (cases e) (simp_all add: core_inv_operations ownerLost_def)

interpretation core: machine "initial_core sc" core_step event_ok core_inv for sc
  by unfold_locales (simp_all add: core_inv_initial core_inv_step)

section \<open>Errors\<close>

text \<open>
  Under the invariant the runtime assertions never fire: the only error an operation can throw
  is the exhaustion of route ids.
\<close>

lemma flush_queue_error:
  "owner_inv t e c \<Longrightarrow> \<forall>q \<in> set qs. qr_tabId q \<in> set (tabs c) \<Longrightarrow>
    flush_queue t e qs acts c = (Inl err, c') \<Longrightarrow>
    exhausted c' \<and> err = Js_Error (js ''coordinator route id space exhausted'')"
proof (induction qs arbitrary: acts c)
  case (Cons q qs)
  let ?c1 = "c\<lparr>queuedRequests := qs\<rparr>"
  have inv1: "owner_inv t e ?c1" using Cons.prems by simp
  then have fl: "inflight_inv ?c1" by (simp add: owner_inv_def)
  from Cons.prems have q: "qr_tabId q \<in> set (tabs ?c1)" by simp
  from fl show ?case
  proof (cases rule: route_cases [where q = q and t = t and e = e])
    case exhausted
    with Cons.prems show ?thesis by (auto simp: Let_def)
  next
    case routed
    have "owner_inv t e (snd (route q t e ?c1))" by (rule owner_inv_route [OF inv1 q])
    with Cons.prems routed show ?thesis
      by (intro Cons.IH [of "snd (route q t e ?c1)" "acts @ [routed_request q t e (nextRouteId c)]"])
        (simp_all add: Let_def)
  qed
qed simp

definition exhaustion :: js_error where
  "exhaustion = Js_Error (js ''coordinator route id space exhausted'')"

end
