(* ===== verification/Coord_Core_Props.thy ===== *)
theory Coord_Core_Props
  imports Coord_Core_Laws
begin

text \<open>
  What single steps and whole runs of the coordinator do: the actions a step emits, the wipe
  obligation, the requests pending, the histories of elections and deliveries, fenced epochs.
  The properties of Coord_Core_Theorems are read off these facts.
\<close>

section \<open>What a step emits\<close>

definition emits :: "js_error + coordinator_action list \<Rightarrow> coordinator_action list" where
  "emits res = (case res of Inl _ \<Rightarrow> [] | Inr acts \<Rightarrow> acts)"

lemma emits_simps [simp]: "emits (Inl e) = []" "emits (Inr acts) = acts"
  by (simp_all add: emits_def)

definition actions_of ::
  "(core_event \<times> (js_error + coordinator_action list)) list \<Rightarrow> coordinator_action list" where
  "actions_of tr = concat (List.map (emits \<circ> snd) tr)"

lemma actions_of_simps [simp]:
  "actions_of [] = []"
  "actions_of (tr @ [(e, res)]) = actions_of tr @ emits res"
  by (simp_all add: actions_of_def)

fun election :: "coordinator_action \<Rightarrow> (owner_epoch \<times> database_action) list" where
  "election (Elect_Owner _ e a) = [(e, a)]"
| "election _ = []"

definition elections :: "coordinator_action list \<Rightarrow> (owner_epoch \<times> database_action) list" where
  "elections acts = concat (List.map election acts)"

fun routed_id :: "coordinator_action \<Rightarrow> route_id list" where
  "routed_id (Route_Request _ _ _ n _) = [n]"
| "routed_id _ = []"

definition routed_ids :: "coordinator_action list \<Rightarrow> route_id list" where
  "routed_ids acts = concat (List.map routed_id acts)"

lemma elections_append [simp]:
  "elections [] = []" "elections (a # as) = election a @ elections as"
  "elections (as @ bs) = elections as @ elections bs"
  by (simp_all add: elections_def)

lemma routed_ids_append [simp]:
  "routed_ids [] = []" "routed_ids (a # as) = routed_id a @ routed_ids as"
  "routed_ids (as @ bs) = routed_ids as @ routed_ids bs"
  by (simp_all add: routed_ids_def)

lemma elections_reject [simp]:
  "elections (List.map (\<lambda>p. reject (f p) (g p) err code) ps) = []"
  "routed_ids (List.map (\<lambda>p. reject (f p) (g p) err code) ps) = []"
  by (induction ps) (simp_all add: reject_def)

lemma elections_flushed [simp]: "elections (flushed_actions t e n qs) = []"
  by (induction qs arbitrary: n) (simp_all add: routed_request_def)

lemma routed_ids_flushed [simp]: "routed_ids (flushed_actions t e n qs) = [n ..< n + length qs]"
  by (induction qs arbitrary: n) (simp_all add: routed_request_def upt_conv_Cons del: upt_Suc)

lemma reset_not_rejected [simp]:
  "Schedule_Reset_Activation \<notin> (\<lambda>p. reject (f p) (g p) err code) ` S"
  by (auto simp: reject_def)

lemma reset_not_flushed [simp]: "Schedule_Reset_Activation \<notin> set (flushed_actions t e n qs)"
  by (induction qs arbitrary: n) (simp_all add: routed_request_def)

section \<open>The wipe obligation\<close>

text \<open>The database must be wiped before the next owner serves from it.\<close>

fun needs_wipe :: "coordinator_state \<Rightarrow> bool" where
  "needs_wipe (Waiting_For_Tab a) = (a = Wipe_Before_Open)"
| "needs_wipe (Activating _ _ a) = (a = Wipe_Before_Open)"
| "needs_wipe (Resetting_After_Loss _ _ _ _) = True"
| "needs_wipe _ = False"

lemma not_wipe [simp]: "a \<noteq> Wipe_Before_Open \<longleftrightarrow> a = Open_Existing"
  by (cases a) simp_all

lemma needs_wipe_inactive: "needs_wipe s \<Longrightarrow> \<not> is_active s"
  by (cases s) simp_all

text \<open>
  What one step does to epochs and to the wipe obligation, in the form that the properties
  below share.
\<close>

definition step_effect :: "coordinator \<Rightarrow> coordinator_action list \<Rightarrow> coordinator \<Rightarrow> bool" where
  "step_effect c acts c' \<longleftrightarrow>
     elections acts = List.map (\<lambda>e. (e, if needs_wipe (stateValue c) then Wipe_Before_Open else Open_Existing))
       [Suc (currentEpoch c) ..< Suc (currentEpoch c')] \<and>
     currentEpoch c \<le> currentEpoch c' \<and>
     (needs_wipe (stateValue c') \<longleftrightarrow>
        Schedule_Reset_Activation \<in> set acts \<or>
        needs_wipe (stateValue c) \<and> \<not> is_active (stateValue c'))"

definition effect :: "coordinator \<Rightarrow> (js_error + coordinator_action list) \<times> coordinator \<Rightarrow> bool" where
  "effect c r \<longleftrightarrow> step_effect c (emits (fst r)) (snd r)"

lemma activateNext_effect:
  "activateNext a c = (acts, c') \<Longrightarrow>
    elections acts = List.map (\<lambda>e. (e, a)) [Suc (currentEpoch c) ..< Suc (currentEpoch c')] \<and>
    currentEpoch c \<le> currentEpoch c' \<and> Schedule_Reset_Activation \<notin> set acts \<and>
    routed_ids acts = [] \<and> nextRouteId c' = nextRouteId c \<and>
    needs_wipe (stateValue c') = (a = Wipe_Before_Open) \<and> \<not> is_active (stateValue c')"
  by (auto simp: activateNext_def Let_def split: if_splits)

lemma effect_registerTab: "core_inv c \<Longrightarrow> effect c (registerTab t c)"
  by (cases "stateValue c")
    (auto simp: registerTab_def Let_def effect_def step_effect_def
      split: prod.splits dest!: activateNext_effect)

lemma effect_request: "core_inv c \<Longrightarrow> effect c (request t r c)"
proof (cases "\<exists>ot e. stateValue c = Active ot e")
  case True
  then obtain ot e where s: "stateValue c = Active ot e" by blast
  assume "core_inv c"
  then have "inflight_inv c" by (simp add: core_inv_def)
  then show ?thesis
    by (cases rule: route_cases [where q = "\<lparr>qr_tabId = t, qr_request = r\<rparr>" and t = ot and e = e])
      (simp_all add: s request_def Let_def effect_def step_effect_def reject_def routed_request_def)
next
  case False
  then show ?thesis
    by (cases "stateValue c") (auto simp: request_def Let_def effect_def step_effect_def reject_def)
qed

lemma effect_engineReady:
  assumes "core_inv c"
  shows "effect c (engineReady ready c)"
proof (cases "\<exists>a. stateValue c = Activating (er_tabId ready) (er_ownerEpoch ready) a")
  case False
  then show ?thesis
    by (cases "stateValue c") (simp_all add: engineReady_unexpected effect_def step_effect_def)
next
  case True
  then obtain a where a: "stateValue c = Activating (er_tabId ready) (er_ownerEpoch ready) a" ..
  let ?t = "er_tabId ready" and ?e = "er_ownerEpoch ready"
  let ?c1 = "c\<lparr>stateValue := Active ?t ?e\<rparr>"
  have inv1: "owner_inv ?t ?e ?c1" by (rule core_inv_activated [OF assms a])
  have queued: "\<forall>q \<in> set (queuedRequests c). qr_tabId q \<in> set (tabs ?c1)"
    using assms by (simp add: core_inv_defs)
  show ?thesis
  proof (cases "ready_error ready")
    case (Some err)
    with assms a show ?thesis by (simp add: engineReady_refused effect_def step_effect_def)
  next
    case None
    let ?acts = "if 1 < ?e then [Broadcast_Engine_Replaced ?e] else []"
    obtain res c' where r: "flush_queue ?t ?e (queuedRequests c) ?acts ?c1 = (res, c')" by fastforce
    from flush_queue_outcome [OF inv1 queued, of ?acts] r
    have out: "owner_inv ?t ?e c'"
      "\<And>acts. res = Inr acts \<Longrightarrow> acts = ?acts @ flushed_actions ?t ?e (nextRouteId c) (queuedRequests c)"
      by (auto split: sum.splits)
    have epoch: "currentEpoch c' = currentEpoch c" "stateValue c' = Active ?t ?e"
      using out(1) inv1 by (auto simp: owner_inv_def)
    show ?thesis
    proof (cases res)
      case (Inl x)
      with r a None epoch show ?thesis
        by (simp add: engineReady_accepted effect_def step_effect_def)
    next
      case (Inr acts)
      with r a None epoch out(2) [OF Inr] show ?thesis
        by (simp add: engineReady_accepted effect_def step_effect_def return_asserting_def
            split: option.splits)
    qed
  qed
qed

lemma effect_engineResponse: "effect c (engineResponse e n response c)"
  by (cases "stateValue c")
    (auto simp: engineResponse_def dropStale_def Let_def effect_def step_effect_def split: option.splits)

lemma effect_enginePush: "effect c (enginePush e push c)"
  by (cases "stateValue c") (auto simp: enginePush_def dropStale_def effect_def step_effect_def)

lemma effect_beginGracefulDeparture: "effect c (beginGracefulDeparture t e c)"
  by (cases "stateValue c")
    (auto simp: beginGracefulDeparture_def recordProtocolViolation_def effect_def step_effect_def)

lemma effect_violation:
  "effect c (Inr [Protocol_Violation err], c\<lparr>protocolViolations := n\<rparr>)"
  by (auto simp: effect_def step_effect_def needs_wipe_inactive)

lemma effect_engineDrained:
  assumes "core_inv c"
  shows "effect c (engineDrained t e c)"
proof (cases "stateValue c = Draining t e")
  case True
  with assms show ?thesis
    by (auto simp: engineDrained_owner effect_def step_effect_def Let_def split: prod.splits
        dest!: activateNext_effect)
next
  case False
  then show ?thesis by (simp add: engineDrained_def recordProtocolViolation_def effect_violation)
qed

lemma effect_departForNavigation:
  assumes "core_inv c"
  shows "effect c (departForNavigation t e reason c)"
proof (cases "owner_of (stateValue c) = Some (t, e)")
  case True
  with assms show ?thesis
    by (cases "stateValue c")
      (auto simp: departForNavigation_owner effect_def step_effect_def Let_def split: prod.splits
        dest!: activateNext_effect)
next
  case False
  then show ?thesis
    by (simp add: departForNavigation_def recordProtocolViolation_def effect_violation)
qed

lemma effect_loss:
  assumes "core_inv c"
  shows "effect c (transitionToAbruptLoss t e reason c)"
proof (cases "owner_of (stateValue c) = Some (t, e)")
  case True
  with assms core_inv_owner [OF assms True] show ?thesis
    by (simp add: loss_of_owner effect_def step_effect_def)
next
  case False
  then show ?thesis
    by (auto simp: loss_of_other effect_def step_effect_def needs_wipe_inactive)
qed

lemma effect_tabLost:
  assumes "core_inv c"
  shows "effect c (tabLost t reason c)"
proof (cases "\<exists>e. owner_of (stateValue c) = Some (t, e)")
  case True
  then obtain e where e: "owner_of (stateValue c) = Some (t, e)" ..
  with assms core_inv_owner [OF assms e] show ?thesis
    by (simp add: tabLost_owner effect_def step_effect_def)
next
  case False
  show ?thesis
  proof (cases "t \<in> set (tabs c)")
    case True
    with False assms show ?thesis
      by (auto simp: tabLost_standby effect_def step_effect_def needs_wipe_inactive)
  qed (auto simp: tabLost_def effect_def step_effect_def needs_wipe_inactive)
qed

lemma effect_resumeAfterLoss:
  assumes "core_inv c"
  shows "effect c (resumeAfterLoss c)"
proof (cases "\<exists>p pe ne reason. stateValue c = Resetting_After_Loss p pe ne reason")
  case True
  then obtain p pe ne reason where s: "stateValue c = Resetting_After_Loss p pe ne reason"
    by blast
  with assms have "ne = Suc (currentEpoch c)" by (simp add: core_inv_def state_inv_def)
  with assms s show ?thesis
    by (cases "chooseCandidate (Some p) c")
      (simp_all add: resumeAfterLoss_candidate resumeAfterLoss_nobody effect_def step_effect_def)
next
  case False
  then show ?thesis
    by (auto simp: resumeAfterLoss_idle effect_def step_effect_def needs_wipe_inactive)
qed

lemmas effect_operations =
  effect_registerTab effect_request effect_engineReady effect_engineResponse effect_enginePush
  effect_beginGracefulDeparture effect_engineDrained effect_loss effect_departForNavigation
  effect_tabLost effect_resumeAfterLoss

lemma effect_step: "core_inv c \<Longrightarrow> effect c (core_step e c)"
  by (cases e) (simp_all add: effect_operations ownerLost_def)

section \<open>Errors\<close>

text \<open>Enough route ids are left for everything that waits.\<close>

definition room :: "coordinator \<Rightarrow> bool" where
  "room c \<longleftrightarrow> int (nextRouteId c + length (queuedRequests c)) \<le> max_safe_integer"

lemma flush_queue_returns:
  "owner_inv t e c \<Longrightarrow> \<forall>q \<in> set qs. qr_tabId q \<in> set (tabs c) \<Longrightarrow>
    int (nextRouteId c + length qs) \<le> max_safe_integer \<Longrightarrow>
    \<exists>acts' c'. flush_queue t e qs acts c = (Inr acts', c') \<and> owner_inv t e c' \<and> queuedRequests c' = []"
proof (induction qs arbitrary: acts c)
  case Nil
  then show ?case by auto
next
  case (Cons q qs)
  let ?c1 = "c\<lparr>queuedRequests := qs\<rparr>"
  have inv1: "owner_inv t e ?c1" using Cons.prems by simp
  then have fl: "inflight_inv ?c1" by (simp add: owner_inv_def)
  have "\<not> exhausted ?c1" using Cons.prems(3) by (simp add: exhausted_def)
  with fl have routed: "route q t e ?c1 =
        (Inr (routed_request q t e (nextRouteId c)),
         ?c1\<lparr>nextRouteId := nextRouteId c + 1,
           inFlight := inFlight c @ [flight q e (nextRouteId c)]\<rparr>)"
    by (cases rule: route_cases [where q = q and t = t and e = e]) simp_all
  have "owner_inv t e (snd (route q t e ?c1))"
    using Cons.prems(2) by (intro owner_inv_route [OF inv1]) simp
  from Cons.IH [OF this, where acts = "acts @ [routed_request q t e (nextRouteId c)]"] Cons.prems routed
  show ?case by (simp add: Let_def)
qed

lemma engineReady_returns:
  assumes "core_inv c" "room c"
  shows "\<exists>acts. fst (engineReady ready c) = Inr acts"
proof (cases "\<exists>a. stateValue c = Activating (er_tabId ready) (er_ownerEpoch ready) a")
  case False
  then show ?thesis by (simp add: engineReady_unexpected)
next
  case True
  then obtain a where a: "stateValue c = Activating (er_tabId ready) (er_ownerEpoch ready) a" ..
  let ?t = "er_tabId ready" and ?e = "er_ownerEpoch ready"
  let ?c1 = "c\<lparr>stateValue := Active ?t ?e\<rparr>"
  let ?acts = "if 1 < ?e then [Broadcast_Engine_Replaced ?e] else []"
  have queued: "\<forall>q \<in> set (queuedRequests c). qr_tabId q \<in> set (tabs ?c1)"
    using assms by (simp add: core_inv_defs)
  show ?thesis
  proof (cases "ready_error ready")
    case (Some err)
    with assms a show ?thesis by (simp add: engineReady_refused)
  next
    case None
    from flush_queue_returns [OF core_inv_activated [OF assms(1) a] queued, of ?acts] assms(2)
    obtain acts' c' where "flush_queue ?t ?e (queuedRequests c) ?acts ?c1 = (Inr acts', c')"
      "owner_inv ?t ?e c'" "queuedRequests c' = []"
      by (auto simp: room_def)
    moreover from this(2) have "stateValue c' = Active ?t ?e" by (simp add: owner_inv_def)
    ultimately have "core_inv c'" by (simp add: core_inv_active)
    with \<open>flush_queue _ _ _ _ _ = _\<close> show ?thesis using a None by (simp add: engineReady_accepted)
  qed
qed

lemma request_returns: "room c \<Longrightarrow> \<exists>acts. fst (request t r c) = Inr acts"
  by (cases "stateValue c") (auto simp: request_def route_def room_def Let_def)

lemma step_returns:
  assumes "core_inv c" "room c \<or> (\<forall>t r. e \<noteq> Ev_Request t r) \<and> (\<forall>ready. e \<noteq> Ev_Engine_Ready ready)"
  shows "\<exists>acts. fst (core_step e c) = Inr acts"
proof (cases e)
  case (Ev_Register_Tab t)
  then show ?thesis
    by (cases "stateValue c") (auto simp: registerTab_def Let_def split: prod.splits)
next
  case (Ev_Engine_Response ep n response)
  then show ?thesis by (auto simp: engineResponse_def dropStale_def Let_def split: option.splits)
next
  case (Ev_Engine_Drained t ep)
  show ?thesis
  proof (cases "stateValue c = Draining t ep")
    case True
    with Ev_Engine_Drained assms(1) show ?thesis
      by (simp add: engineDrained_owner Let_def case_prod_beta)
  qed (simp add: Ev_Engine_Drained engineDrained_def recordProtocolViolation_def)
next
  case (Ev_Owner_Lost t ep reason)
  then show ?thesis using assms(1)
    by (cases "owner_of (stateValue c) = Some (t, ep)")
      (simp_all add: ownerLost_def loss_of_owner loss_of_other)
next
  case (Ev_Navigation_Departure t ep reason)
  show ?thesis
  proof (cases "owner_of (stateValue c) = Some (t, ep)")
    case True
    with Ev_Navigation_Departure assms(1) show ?thesis
      by (simp add: departForNavigation_owner Let_def case_prod_beta)
  qed (simp add: Ev_Navigation_Departure departForNavigation_def recordProtocolViolation_def)
next
  case (Ev_Tab_Lost t reason)
  consider "t \<notin> set (tabs c)" | ep where "owner_of (stateValue c) = Some (t, ep)"
    | "t \<in> set (tabs c)" "\<And>ep. owner_of (stateValue c) \<noteq> Some (t, ep)" by blast
  then show ?thesis
    using Ev_Tab_Lost assms(1)
    by cases (simp add: tabLost_def, simp add: tabLost_owner, simp add: tabLost_standby)
next
  case Ev_Resume_After_Loss
  then show ?thesis by (simp add: resumeAfterLoss_def Let_def split: coordinator_state.split)
qed (use assms in \<open>simp_all add: request_returns engineReady_returns enginePush_def dropStale_def
    beginGracefulDeparture_def recordProtocolViolation_def\<close>)

section \<open>Requests in flight\<close>

definition asked_by :: "queued_request \<Rightarrow> js_string \<times> jsval" where
  "asked_by q = (qr_tabId q, qr_request q)"

definition flown_by :: "route_id \<times> in_flight_request \<Rightarrow> js_string \<times> jsval" where
  "flown_by p = (if_tabId (snd p), if_request (snd p))"

definition pending :: "coordinator \<Rightarrow> (js_string \<times> jsval) set" where
  "pending c = asked_by ` set (queuedRequests c) \<union> flown_by ` set (inFlight c)"

lemma flown_by_flight [simp]: "flown_by (flight q e n) = asked_by q" "fst (flight q e n) = n"
  by (simp_all add: flown_by_def flight_def asked_by_def)

fun asked :: "core_event \<Rightarrow> (js_string \<times> jsval) set" where
  "asked (Ev_Request t r) = {(t, r)}"
| "asked _ = {}"

definition flight_effect :: "coordinator \<Rightarrow> coordinator \<Rightarrow> (js_string \<times> jsval) set \<Rightarrow> bool" where
  "flight_effect c c' new \<longleftrightarrow>
     nextRouteId c \<le> nextRouteId c' \<and> pending c' \<subseteq> pending c \<union> new \<and>
     (\<forall>k \<in> fst ` set (inFlight c'). k \<in> fst ` set (inFlight c) \<or> nextRouteId c \<le> k)"

lemma set_update_subset: "set (AList.update k v al) \<subseteq> insert (k, v) (set al)"
  by (induction al) auto

lemma route_inFlight:
  "set (inFlight (snd (route q t e c))) \<subseteq> insert (flight q e (nextRouteId c)) (set (inFlight c))"
  using set_update_subset [of "nextRouteId c"
    "\<lparr> if_tabId = qr_tabId q, if_request = qr_request q, if_routeId = nextRouteId c,
       if_ownerEpoch = e \<rparr>" "inFlight c"]
  by (auto simp: route_def Let_def flight_def)

lemma route_frame [simp]:
  "queuedRequests (snd (route q t e c)) = queuedRequests c"
  "nextRouteId c \<le> nextRouteId (snd (route q t e c))"
  by (simp_all add: route_def Let_def)

lemma route_flown:
  "flown_by ` set (inFlight (snd (route q t e c))) \<subseteq> insert (asked_by q) (flown_by ` set (inFlight c))"
  "fst ` set (inFlight (snd (route q t e c))) \<subseteq> insert (nextRouteId c) (fst ` set (inFlight c))"
  using image_mono [OF route_inFlight [of q t e c], of flown_by]
    image_mono [OF route_inFlight [of q t e c], of fst] by simp_all

lemma route_flight: "flight_effect c (snd (route q t e c)) {asked_by q}"
  using route_flown [of q t e c] by (auto simp: flight_effect_def pending_def)

text \<open>A flush only moves requests from the queue into the in-flight map.\<close>

definition flush_bound ::
  "queued_request list \<Rightarrow> (route_id \<times> in_flight_request) list \<Rightarrow> route_id \<Rightarrow> coordinator \<Rightarrow> bool" where
  "flush_bound qs flights n c' \<longleftrightarrow>
     n \<le> nextRouteId c' \<and>
     pending c' \<subseteq> asked_by ` set qs \<union> flown_by ` set flights \<and>
     (\<forall>k \<in> fst ` set (inFlight c'). k \<in> fst ` set flights \<or> n \<le> k)"

lemma flush_bound_Cons:
  assumes "flush_bound qs flights' n' c'" "n \<le> n'"
    "flown_by ` set flights' \<subseteq> insert (asked_by q) (flown_by ` set flights)"
    "fst ` set flights' \<subseteq> insert n (fst ` set flights)"
  shows "flush_bound (q # qs) flights n c'"
  unfolding flush_bound_def
proof (intro conjI ballI)
  show "n \<le> nextRouteId c'" using assms(1,2) by (simp add: flush_bound_def)
  show "pending c' \<subseteq> asked_by ` set (q # qs) \<union> flown_by ` set flights"
  proof -
    have "pending c' \<subseteq> asked_by ` set qs \<union> flown_by ` set flights'"
      using assms(1) by (simp add: flush_bound_def)
    also have "\<dots> \<subseteq> asked_by ` set qs \<union> insert (asked_by q) (flown_by ` set flights)"
      using assms(3) by (rule Un_mono [OF subset_refl])
    finally show ?thesis by simp
  qed
  fix k assume "k \<in> fst ` set (inFlight c')"
  with assms(1) have "k \<in> fst ` set flights' \<or> n' \<le> k" by (auto simp: flush_bound_def)
  with assms(2,4) show "k \<in> fst ` set flights \<or> n \<le> k" by auto
qed

lemma flush_flight:
  "flush_bound qs (inFlight c) (nextRouteId c) (snd (flush_queue t e qs acts c))"
proof (induction qs arbitrary: acts c)
  case Nil
  then show ?case by (simp add: flush_bound_def pending_def)
next
  case (Cons q qs)
  let ?c1 = "c\<lparr>queuedRequests := qs\<rparr>"
  show ?case
  proof (cases "qr_tabId q \<in> set (tabs c)")
    case False
    have "flush_bound (q # qs) (inFlight c) (nextRouteId c) (snd (flush_queue t e qs acts ?c1))"
      using Cons.IH [where acts = acts and c = ?c1] by (rule flush_bound_Cons) auto
    with False show ?thesis by (simp add: Let_def)
  next
    case tab: True
    show ?thesis
    proof (cases "int (nextRouteId c) \<le> max_safe_integer")
      case False
      with tab show ?thesis by (auto simp: Let_def route_def flush_bound_def pending_def)
    next
      case ok: True
      let ?c2 = "snd (route q t e ?c1)"
      let ?a = "Route_Request t (qr_tabId q) e (nextRouteId c)
        (with_id (qr_request q) (int (nextRouteId c)))"
      have "flush_bound (q # qs) (inFlight c) (nextRouteId c)
          (snd (flush_queue t e qs (acts @ [?a]) ?c2))"
        using Cons.IH [where acts = "acts @ [?a]" and c = ?c2]
        by (rule flush_bound_Cons) (use route_flown [of q t e ?c1] route_frame(2) [of ?c1 q t e] in simp_all)
      with tab ok show ?thesis by (simp add: Let_def route_def)
    qed
  qed
qed

section \<open>Requests through every operation\<close>

lemma flight_effect_refl: "flight_effect c c new"
  by (auto simp: flight_effect_def)

lemma flight_effect_shrink:
  assumes "nextRouteId c' = nextRouteId c" "set (queuedRequests c') \<subseteq> set (queuedRequests c)"
    "set (inFlight c') \<subseteq> set (inFlight c)"
  shows "flight_effect c c' new"
proof -
  have "pending c' \<subseteq> pending c"
    using assms(2,3) unfolding pending_def by (intro Un_mono image_mono)
  moreover have "fst ` set (inFlight c') \<subseteq> fst ` set (inFlight c)"
    using assms(3) by (rule image_mono)
  ultimately show ?thesis using assms(1) by (auto simp: flight_effect_def)
qed

lemma activateNext_frame [simp]:
  "nextRouteId (snd (activateNext a c)) = nextRouteId c"
  "queuedRequests (snd (activateNext a c)) = queuedRequests c"
  "inFlight (snd (activateNext a c)) = inFlight c"
  "tabs (snd (activateNext a c)) = tabs c"
  "retiringTabs (snd (activateNext a c)) = retiringTabs c"
  by (simp_all add: activateNext_def Let_def)

lemma flight_request: "flight_effect c (snd (request t r c)) {(t, r)}"
proof (cases "t \<in> set (tabs c) \<and> t \<notin> retiringTabs c")
  case False
  then show ?thesis by (auto simp: request_def flight_effect_refl)
next
  case True
  let ?q = "\<lparr>qr_tabId = t, qr_request = r\<rparr>"
  show ?thesis
  proof (cases "stateValue c")
    case (Active ot e)
    with True route_flight [of c ?q ot e] show ?thesis
      by (simp add: request_def Let_def snd_lift asked_by_def)
  qed (use True in \<open>auto simp: request_def Let_def flight_effect_def pending_def asked_by_def\<close>)
qed

lemma flight_engineReady:
  assumes "core_inv c"
  shows "flight_effect c (snd (engineReady ready c)) {}"
proof (cases "\<exists>a. stateValue c = Activating (er_tabId ready) (er_ownerEpoch ready) a")
  case False
  then show ?thesis by (simp add: engineReady_unexpected flight_effect_shrink)
next
  case True
  then obtain a where a: "stateValue c = Activating (er_tabId ready) (er_ownerEpoch ready) a" ..
  show ?thesis
  proof (cases "ready_error ready")
    case (Some err)
    with assms a show ?thesis by (simp add: engineReady_refused flight_effect_shrink)
  next
    case None
    let ?c1 = "c\<lparr>stateValue := Active (er_tabId ready) (er_ownerEpoch ready)\<rparr>"
    let ?acts = "if 1 < er_ownerEpoch ready then [Broadcast_Engine_Replaced (er_ownerEpoch ready)] else []"
    have "flush_bound (queuedRequests c) (inFlight c) (nextRouteId c)
        (snd (flush_queue (er_tabId ready) (er_ownerEpoch ready) (queuedRequests c) ?acts ?c1))"
      using flush_flight [where c = ?c1] by simp
    with a None show ?thesis
      by (simp add: engineReady_accepted snd_return_asserting_bind flight_effect_def flush_bound_def
          pending_def)
  qed
qed

lemma flight_departed:
  "flight_effect c (snd (activateNext a
     ((removeTabRecord t (c\<lparr>inFlight := []\<rparr>))\<lparr>retiringTabs := r, stateValue := s\<rparr>))) new"
  by (rule flight_effect_shrink) auto

lemma flight_step:
  assumes "core_inv c"
  shows "flight_effect c (snd (core_step e c)) (asked e)"
proof (cases e)
  case (Ev_Register_Tab t)
  then show ?thesis
    by (cases "stateValue c")
      (auto simp: registerTab_def Let_def case_prod_beta intro: flight_effect_shrink)
next
  case (Ev_Request t r)
  then show ?thesis by (simp add: flight_request)
next
  case (Ev_Engine_Ready ready)
  then show ?thesis by (simp add: flight_engineReady assms)
next
  case (Ev_Engine_Response ep n response)
  then show ?thesis
    by (auto simp: engineResponse_def dropStale_def AList.delete_eq intro!: flight_effect_shrink
        split: option.splits)
next
  case (Ev_Engine_Drained t ep)
  then show ?thesis using assms
    by (cases "stateValue c = Draining t ep")
      (simp_all add: engineDrained_owner Let_def case_prod_beta flight_departed,
       simp add: engineDrained_def recordProtocolViolation_def flight_effect_shrink)
next
  case (Ev_Owner_Lost t ep reason)
  then show ?thesis using assms
    by (cases "owner_of (stateValue c) = Some (t, ep)")
      (simp_all add: ownerLost_def loss_of_owner loss_of_other flight_effect_shrink)
next
  case (Ev_Navigation_Departure t ep reason)
  then show ?thesis using assms
    by (cases "owner_of (stateValue c) = Some (t, ep)")
      (simp_all add: departForNavigation_owner Let_def case_prod_beta flight_departed,
       simp add: departForNavigation_def recordProtocolViolation_def flight_effect_shrink)
next
  case (Ev_Tab_Lost t reason)
  consider "t \<notin> set (tabs c)" | ep where "owner_of (stateValue c) = Some (t, ep)"
    | "t \<in> set (tabs c)" "\<And>ep. owner_of (stateValue c) \<noteq> Some (t, ep)" by blast
  then show ?thesis
    using Ev_Tab_Lost assms(1)
    by cases (simp add: tabLost_def flight_effect_refl,
        simp add: tabLost_owner flight_effect_shrink,
        auto simp: tabLost_standby intro!: flight_effect_shrink)
next
  case Ev_Resume_After_Loss
  then show ?thesis
    by (auto simp: resumeAfterLoss_def Let_def flight_effect_refl intro: flight_effect_shrink
        split: coordinator_state.split)
qed (auto simp: enginePush_def dropStale_def beginGracefulDeparture_def recordProtocolViolation_def
    flight_effect_refl intro: flight_effect_shrink)

section \<open>Histories\<close>

lemma upt_join: "i \<le> j \<Longrightarrow> j \<le> k \<Longrightarrow> [i ..< j] @ [j ..< k] = [i ..< k]"
  by (metis le_Suc_ex upt_add_eq_append)

definition epoch_history ::
  "(core_event \<times> (js_error + coordinator_action list)) list \<Rightarrow> coordinator \<Rightarrow> bool" where
  "epoch_history tr c \<longleftrightarrow>
     List.map fst (elections (actions_of tr)) = [1 ..< Suc (currentEpoch c)]"

interpretation epochs: historied_machine "initial_core sc" core_step event_ok core_inv epoch_history
  for sc
proof unfold_locales
  show "epoch_history [] (initial_core sc)" by (simp add: epoch_history_def initial_core_def)
  fix c e tr
  assume "core_inv c" "epoch_history tr c"
  with effect_step [of c e]
  show "epoch_history (tr @ [(e, fst (core_step e c))]) (snd (core_step e c))"
    by (simp add: epoch_history_def effect_def step_effect_def comp_def upt_join del: upt_Suc)
qed

fun delivers :: "coordinator_action \<Rightarrow> bool" where
  "delivers (Deliver_Response _ _) = True"
| "delivers _ = False"

text \<open>The route ids whose response was delivered in a run.\<close>

fun delivered_route :: "core_event \<times> (js_error + coordinator_action list) \<Rightarrow> route_id list" where
  "delivered_route (Ev_Engine_Response _ n _, res) = (if list_ex delivers (emits res) then [n] else [])"
| "delivered_route _ = []"

definition delivered ::
  "(core_event \<times> (js_error + coordinator_action list)) list \<Rightarrow> route_id list" where
  "delivered tr = concat (List.map delivered_route tr)"

definition asked_in ::
  "(core_event \<times> (js_error + coordinator_action list)) list \<Rightarrow> (js_string \<times> jsval) set" where
  "asked_in tr = (\<Union>p \<in> set tr. asked (fst p))"

definition delivery_history ::
  "(core_event \<times> (js_error + coordinator_action list)) list \<Rightarrow> coordinator \<Rightarrow> bool" where
  "delivery_history tr c \<longleftrightarrow>
     distinct (delivered tr) \<and>
     (\<forall>n \<in> set (delivered tr). n < nextRouteId c \<and> n \<notin> fst ` set (inFlight c)) \<and>
     pending c \<subseteq> asked_in tr"

lemma engineResponse_delivers:
  assumes "list_ex delivers (emits (fst (engineResponse e n response c)))"
  shows "n \<in> fst ` set (inFlight c) \<and> n \<notin> fst ` set (inFlight (snd (engineResponse e n response c)))"
  using assms
  by (auto simp: engineResponse_def dropStale_def Let_def AList.delete_eq
      split: option.splits if_splits dest!: map_of_SomeD intro: rev_image_eqI)

lemma delivered_route_fresh:
  assumes "core_inv c" "n \<in> set (delivered_route (e, fst (core_step e c)))"
  shows "n \<in> fst ` set (inFlight c) \<and> n \<notin> fst ` set (inFlight (snd (core_step e c)))"
  using assms(2) engineResponse_delivers
  by (cases e) (auto split: if_splits)

lemma delivered_route_single: "distinct (delivered_route p)"
  by (cases p rule: delivered_route.cases) auto

lemma inflight_below: "core_inv c \<Longrightarrow> n \<in> fst ` set (inFlight c) \<Longrightarrow> n < nextRouteId c"
  by (fastforce simp: core_inv_def inflight_inv_def)

interpretation deliveries:
  historied_machine "initial_core sc" core_step event_ok core_inv delivery_history for sc
proof unfold_locales
  show "delivery_history [] (initial_core sc)"
    by (simp add: delivery_history_def delivered_def asked_in_def pending_def initial_core_def)
  fix c e tr
  assume inv: "core_inv c" and hist: "delivery_history tr c"
  let ?c' = "snd (core_step e c)" and ?p = "(e, fst (core_step e c))"
  have flight: "flight_effect c ?c' (asked e)" by (rule flight_step [OF inv])
  have new: "n \<in> fst ` set (inFlight c) \<and> n \<notin> fst ` set (inFlight ?c')"
    if "n \<in> set (delivered_route ?p)" for n
    by (rule delivered_route_fresh [OF inv that])
  have "distinct (delivered tr @ delivered_route ?p)"
    using hist new delivered_route_single [of ?p] by (auto simp: delivery_history_def)
  moreover have "n < nextRouteId ?c' \<and> n \<notin> fst ` set (inFlight ?c')"
    if "n \<in> set (delivered tr @ delivered_route ?p)" for n
  proof -
    have below: "n < nextRouteId c"
      using that hist new inflight_below [OF inv] by (auto simp: delivery_history_def)
    moreover have "n \<notin> fst ` set (inFlight ?c')"
    proof (cases "n \<in> set (delivered tr)")
      case True
      with hist have "n \<notin> fst ` set (inFlight c)" by (simp add: delivery_history_def)
      with flight below show ?thesis by (auto simp: flight_effect_def)
    next
      case False
      with that new show ?thesis by auto
    qed
    ultimately show ?thesis using flight by (auto simp: flight_effect_def)
  qed
  moreover have "pending ?c' \<subseteq> asked_in (tr @ [?p])"
    using flight hist by (auto simp: flight_effect_def delivery_history_def asked_in_def)
  ultimately show "delivery_history (tr @ [?p]) ?c'"
    by (simp add: delivery_history_def delivered_def)
qed

section \<open>Fenced epochs\<close>

definition fenced :: "owner_epoch \<Rightarrow> coordinator \<Rightarrow> bool" where
  "fenced e c \<longleftrightarrow>
     e < currentEpoch c \<or> e = currentEpoch c \<and> owner_of (stateValue c) = None"

lemma activateNext_owner:
  "owner_of (stateValue (snd (activateNext a c))) = None \<or>
   currentEpoch c < currentEpoch (snd (activateNext a c))"
  by (simp add: activateNext_def Let_def)

lemma unowned_step:
  assumes "core_inv c" "owner_of (stateValue c) = None"
  shows "owner_of (stateValue (snd (core_step e c))) = None \<or>
    currentEpoch c < currentEpoch (snd (core_step e c))"
proof (cases e)
  case (Ev_Register_Tab t)
  with assms activateNext_owner [of _ "c\<lparr>tabs := tabs c @ [t]\<rparr>"] show ?thesis
    by (cases "stateValue c") (simp_all add: registerTab_def Let_def case_prod_beta)
next
  case (Ev_Request t r)
  with assms show ?thesis by (cases "stateValue c") (simp_all add: request_def Let_def)
next
  case (Ev_Engine_Ready ready)
  with assms show ?thesis by (cases "stateValue c") (simp_all add: engineReady_unexpected)
next
  case (Ev_Engine_Response ep n response)
  with assms show ?thesis
    by (simp add: engineResponse_def dropStale_def split: option.splits)
next
  case (Ev_Engine_Drained t ep)
  with assms show ?thesis
    by (cases "stateValue c") (simp_all add: engineDrained_def recordProtocolViolation_def)
next
  case (Ev_Tab_Lost t reason)
  with assms tabLost_standby [OF assms(1), of t reason] show ?thesis
    by (cases "t \<in> set (tabs c)") (simp_all add: tabLost_def [of _ _ c])
next
  case Ev_Resume_After_Loss
  with assms show ?thesis
    by (cases "stateValue c")
      (auto simp: resumeAfterLoss_def Let_def core_inv_def state_inv_def)
qed (use assms in \<open>auto simp: enginePush_def dropStale_def beginGracefulDeparture_def
    recordProtocolViolation_def ownerLost_def loss_of_other departForNavigation_def\<close>)

lemma fenced_step: "core_inv c \<Longrightarrow> fenced e c \<Longrightarrow> fenced e (snd (core_step ev c))"
  using unowned_step [of c ev] effect_step [of c ev]
  by (auto simp: fenced_def effect_def step_effect_def)

lemma fenced_run:
  "core_inv c \<Longrightarrow> fenced e c \<Longrightarrow> list_all event_ok es \<Longrightarrow>
    fenced e (snd (run core_step es c)) \<and> core_inv (snd (run core_step es c))"
  by (induction es rule: rev_induct) (auto simp: snd_run_snoc fenced_step core_inv_step)

lemma fenced_rejects: "core_inv c \<Longrightarrow> fenced e c \<Longrightarrow> \<not> acceptsEngineMessages c e"
  using core_inv_owner [of c]
  by (cases "stateValue c") (auto simp: fenced_def acceptsEngineMessages_def)

section \<open>A sample run\<close>

text \<open>Two tabs; the first is elected and becomes the active owner. Used by the witnesses.\<close>

definition tab_a :: js_string where "tab_a = js ''tab-a''"
definition tab_b :: js_string where "tab_b = js ''tab-b''"

definition ready_a :: engine_ready where
  "ready_a = \<lparr> er_tabId = tab_a, er_ownerEpoch = 1, er_ownerLockName = js ''lock'',
     er_expectedOwnerLockName = js ''lock'', er_ownerLockHeld = True,
     er_databaseActionProof = Proof_Opened_Existing, er_openOutcome = Opened_Existing \<rparr>"

definition ask :: "int \<Rightarrow> jsval" where
  "ask n = JObj [(js ''id'', JInt n), (js ''kind'', JStr (js ''clear''))]"

definition sample_events :: "core_event list" where
  "sample_events =
     [Ev_Register_Tab tab_a, Ev_Register_Tab tab_b, Ev_Engine_Ready ready_a, Ev_Request tab_b (ask 9)]"

definition sample :: coordinator where
  "sample = snd (run core_step sample_events (initial_core (js ''scope'')))"

lemma tabs_differ [simp]: "tab_a \<noteq> tab_b" "tab_b \<noteq> tab_a" "tab_a \<noteq> []" "tab_b \<noteq> []"
  by (simp_all add: tab_a_def tab_b_def)

lemmas core_eval =
  initial_core_def registerTab_def activateNext_def chooseCandidate_def eligible_def falsy_tab_def
  engineReady_def ready_a_def ready_error_def return_asserting_def assertInvariants_def
  request_def route_def ask_def request_id_def with_id_def max_safe_integer_def ownerLost_def
  transitionToAbruptLoss_def rejectEpochRequests_def reject_def resumeAfterLoss_def

lemma sample_eq:
  "sample =
    \<lparr> scope = js ''scope'', stateValue = Active tab_a 1, tabs = [tab_a, tab_b], retiringTabs = {},
      queuedRequests = [],
      inFlight = [(1, \<lparr> if_tabId = tab_b, if_request = ask 9, if_routeId = 1, if_ownerEpoch = 1 \<rparr>)],
      currentEpoch = 1, nextRouteId = 2, staleMessageDrops = 0, protocolViolations = 0 \<rparr>"
  by (simp add: sample_def sample_events_def core_eval)

lemma sample_ok: "list_all event_ok sample_events"
  by (simp add: sample_events_def)

lemma sample_reachable: "reachable core_step event_ok (initial_core (js ''scope'')) sample"
  unfolding sample_def by (rule run_reachable [OF sample_ok])

end
