(* ===== verification/Coord_Core_Theorems.thy ===== *)
theory Coord_Core_Theorems
  imports Coord_Core_Props
begin

text \<open>
  The properties of the coordinator state machine: which errors it can throw, who owns the
  engine and under which epoch, when the database is wiped, which requests reach whom. Every
  property is applied at a concrete run by the theorem that follows it.
\<close>

section \<open>Properties\<close>

text \<open>
  C7: No operation of the coordinator throws in a reachable state while route ids are left for
  the queued requests: none of the runtime assertions of \<open>assertInvariants\<close> ever fires.
\<close>

theorem core_never_throws:
  assumes "reachable core_step event_ok (initial_core sc) c" and "room c"
  shows "\<exists>acts. fst (core_step e c) = Inr acts"
  using core.inv_reachable [OF assms(1)] assms(2) by (intro step_returns) simp_all

theorem core_never_throws_witness:
  "\<exists>acts. fst (core_step (Ev_Owner_Lost tab_a 1 (js ''crash'')) sample) = Inr acts"
  by (rule core_never_throws [OF sample_reachable])
    (simp add: sample_eq room_def max_safe_integer_def)

text \<open>
  C6: In every reachable state the owner is a registered tab that holds the newest epoch, every
  request in flight belongs to that epoch and to a registered tab, nothing is in flight while no
  engine serves, and route ids are unique.
\<close>

theorem core_state_invariant:
  assumes "reachable core_step event_ok (initial_core sc) c"
  shows "(case owner_of (stateValue c) of
       None \<Rightarrow> inFlight c = []
     | Some (t, e) \<Rightarrow> t \<in> set (tabs c) \<and> e = currentEpoch c \<and>
         (\<forall>(n, r) \<in> set (inFlight c). if_ownerEpoch r = e \<and> if_routeId r = n \<and>
            n < nextRouteId c \<and> if_tabId r \<in> set (tabs c))) \<and>
     distinct (tabs c) \<and> distinct (List.map fst (inFlight c)) \<and>
     (\<forall>q \<in> set (queuedRequests c). qr_tabId q \<in> set (tabs c))"
proof -
  have inv: "core_inv c" by (rule core.inv_reachable [OF assms])
  show ?thesis
  proof (cases "owner_of (stateValue c)")
    case None
    then have "serving_epoch (stateValue c) = None" by (cases "stateValue c") simp_all
    then have "inFlight c = []" by (rule core_inv_unowned [OF inv])
    with inv None show ?thesis by (simp add: core_inv_def base_inv_def)
  next
    case (Some p)
    obtain t e where p: "p = (t, e)" by fastforce
    have "t \<in> set (tabs c) \<and> e = currentEpoch c"
      using core_inv_owner [OF inv] Some p by simp
    moreover have "if_ownerEpoch r = e \<and> if_routeId r = n \<and> n < nextRouteId c \<and> if_tabId r \<in> set (tabs c)"
      if "(n, r) \<in> set (inFlight c)" for n r
      using core_inv_only_owner_epoch [OF inv] Some p that inv
      by (fastforce simp: core_inv_def inflight_inv_def)
    moreover have "distinct (tabs c)" "distinct (List.map fst (inFlight c))"
      "\<forall>q \<in> set (queuedRequests c). qr_tabId q \<in> set (tabs c)"
      using inv by (simp_all add: core_inv_def base_inv_def inflight_inv_def)
    ultimately show ?thesis using Some p by auto
  qed
qed

theorem core_state_invariant_witness:
  "owner_of (stateValue sample) = Some (tab_a, 1) \<and> tab_a \<in> set (tabs sample) \<and>
   1 = currentEpoch sample"
proof -
  have "owner_of (stateValue sample) = Some (tab_a, 1)" by (simp add: sample_eq)
  then show ?thesis using core_state_invariant [OF sample_reachable] by simp
qed

text \<open>
  C4: Owner epochs are never reused: over any run of the coordinator the elections it announces
  carry the epochs 1, 2, 3, ... in order, so at most one tab is elected for an epoch.
\<close>

theorem elections_consecutive:
  assumes "list_all event_ok es"
  shows "List.map fst (elections (actions_of (fst (run core_step es (initial_core sc))))) =
    [1 ..< Suc (currentEpoch (snd (run core_step es (initial_core sc))))]"
  using epochs.hist_run [OF assms] by (simp add: epoch_history_def)

theorem elections_consecutive_witness:
  "List.map fst (elections (actions_of (fst (run core_step sample_events
      (initial_core (js ''scope'')))))) = [1]"
  using elections_consecutive [OF sample_ok, of "js ''scope''"] by (simp add: sample_def [symmetric] sample_eq)

text \<open>
  The wipe obligation. A step elects a new owner with \<open>wipe-before-open\<close> exactly when the
  obligation is pending; the obligation is pending after a step exactly when the step announced
  an abrupt loss, or when it was pending and no engine became active. In particular a navigation
  departure or a graceful drain of a serving owner never wipes, and an interrupted recovery
  activation is never downgraded.
\<close>

theorem wipe_obligation:
  assumes "reachable core_step event_ok (initial_core sc) c"
    and "core_step e c = (Inr acts, c')"
  shows "(\<forall>(n, a) \<in> set (elections acts). a = Wipe_Before_Open \<longleftrightarrow> needs_wipe (stateValue c)) \<and>
    (needs_wipe (stateValue c') \<longleftrightarrow>
       Schedule_Reset_Activation \<in> set acts \<or>
       needs_wipe (stateValue c) \<and> \<not> is_active (stateValue c'))"
  using effect_step [OF core.inv_reachable [OF assms(1)], of e] assms(2)
  by (auto simp: effect_def step_effect_def)

theorem wipe_obligation_witness:
  "needs_wipe (stateValue (snd (core_step (Ev_Owner_Lost tab_a 1 (js ''crash'')) sample)))"
proof -
  have step: "core_step (Ev_Owner_Lost tab_a 1 (js ''crash'')) sample =
      (Inr (emits (fst (core_step (Ev_Owner_Lost tab_a 1 (js ''crash'')) sample))),
       snd (core_step (Ev_Owner_Lost tab_a 1 (js ''crash'')) sample))"
    by (simp add: sample_eq core_eval)
  show ?thesis
    using wipe_obligation [OF sample_reachable step] by (simp add: sample_eq core_eval)
qed

fun is_ready_event :: "core_event \<Rightarrow> bool" where
  "is_ready_event (Ev_Engine_Ready _) = True"
| "is_ready_event _ = False"

lemma activateNext_inactive: "\<not> is_active (stateValue (snd (activateNext a c)))"
  by (simp add: activateNext_def Let_def)

lemma active_needs_ready:
  assumes "\<not> is_ready_event e" "\<not> is_active (stateValue c)" "core_inv c"
  shows "\<not> is_active (stateValue (snd (core_step e c)))"
proof (cases e)
  case (Ev_Register_Tab t)
  with assms activateNext_inactive show ?thesis
    by (cases "stateValue c") (simp_all add: registerTab_def Let_def case_prod_beta)
next
  case (Ev_Request t r)
  with assms show ?thesis by (cases "stateValue c") (simp_all add: request_def Let_def)
next
  case (Ev_Engine_Response ep n response)
  with assms show ?thesis
    by (simp add: engineResponse_def dropStale_def split: option.splits)
next
  case (Ev_Engine_Drained t ep)
  with assms activateNext_inactive show ?thesis
    by (cases "stateValue c = Draining t ep")
      (simp_all add: engineDrained_owner Let_def case_prod_beta,
       simp add: engineDrained_def recordProtocolViolation_def)
next
  case (Ev_Owner_Lost t ep reason)
  with assms show ?thesis
    by (cases "owner_of (stateValue c) = Some (t, ep)")
      (simp_all add: ownerLost_def loss_of_owner loss_of_other)
next
  case (Ev_Navigation_Departure t ep reason)
  with assms activateNext_inactive show ?thesis
    by (cases "owner_of (stateValue c) = Some (t, ep)")
      (simp_all add: departForNavigation_owner Let_def case_prod_beta,
       simp add: departForNavigation_def recordProtocolViolation_def)
next
  case (Ev_Tab_Lost t reason)
  consider "t \<notin> set (tabs c)" | ep where "owner_of (stateValue c) = Some (t, ep)"
    | "t \<in> set (tabs c)" "\<And>ep. owner_of (stateValue c) \<noteq> Some (t, ep)" by blast
  then show ?thesis
    using Ev_Tab_Lost assms
    by cases (simp add: tabLost_def, simp add: tabLost_owner, simp add: tabLost_standby)
next
  case Ev_Resume_After_Loss
  with assms show ?thesis by (cases "stateValue c") (simp_all add: resumeAfterLoss_def Let_def)
qed (use assms in \<open>simp_all add: enginePush_def dropStale_def beginGracefulDeparture_def
    recordProtocolViolation_def\<close>)

lemma recovery_run:
  assumes "core_inv c" "needs_wipe (stateValue c)" "list_all event_ok es"
    "list_all (\<lambda>e. \<not> is_ready_event e) es"
  shows "core_inv (snd (run core_step es c)) \<and> needs_wipe (stateValue (snd (run core_step es c))) \<and>
    (\<forall>p \<in> set (elections (actions_of (fst (run core_step es c)))). snd p = Wipe_Before_Open)"
  using assms(3,4)
proof (induction es rule: rev_induct)
  case Nil
  with assms(1,2) show ?case by simp
next
  case (snoc e es)
  let ?c = "snd (run core_step es c)"
  from snoc have IH: "core_inv ?c" "needs_wipe (stateValue ?c)"
    "\<forall>p \<in> set (elections (actions_of (fst (run core_step es c)))). snd p = Wipe_Before_Open"
    by simp_all
  have "\<not> is_active (stateValue (snd (core_step e ?c)))"
    using snoc.prems IH by (intro active_needs_ready) (simp_all add: needs_wipe_inactive)
  with effect_step [OF IH(1), of e] IH core_inv_step [OF IH(1), of e] snoc.prems show ?case
    by (auto simp: snd_run_snoc fst_run_snoc effect_def step_effect_def)
qed

text \<open>
  C2: Recovery over a whole run. While the wipe obligation is pending, no sequence of events
  without an engine's readiness report lets the coordinator elect an owner that opens the
  existing database.
\<close>

theorem recovery_always_wipes:
  assumes "reachable core_step event_ok (initial_core sc) c" and "needs_wipe (stateValue c)"
    and "list_all event_ok es" and "list_all (\<lambda>e. \<not> is_ready_event e) es"
  shows "\<forall>(n, a) \<in> set (elections (actions_of (fst (run core_step es c)))). a = Wipe_Before_Open"
  using recovery_run [OF core.inv_reachable [OF assms(1)] assms(2-4)] by auto

definition sample_lost :: coordinator where
  "sample_lost = snd (run core_step (sample_events @ [Ev_Owner_Lost tab_a 1 (js ''crash'')])
     (initial_core (js ''scope'')))"

lemma sample_lost_eq:
  "sample_lost = sample\<lparr>stateValue := Resetting_After_Loss tab_a 1 2 (js ''crash''), inFlight := []\<rparr>"
proof -
  have "sample_lost = snd (core_step (Ev_Owner_Lost tab_a 1 (js ''crash'')) sample)"
    by (simp add: sample_lost_def snd_run_snoc sample_def)
  also have "\<dots> = sample\<lparr>stateValue := Resetting_After_Loss tab_a 1 2 (js ''crash''), inFlight := []\<rparr>"
    by (simp add: sample_eq core_eval)
  finally show ?thesis .
qed

lemma sample_lost_reachable:
  "reachable core_step event_ok (initial_core (js ''scope'')) sample_lost"
  unfolding sample_lost_def by (rule run_reachable) (simp add: sample_events_def)

theorem recovery_always_wipes_witness:
  "elections (actions_of (fst (run core_step
     [Ev_Resume_After_Loss, Ev_Owner_Lost tab_b 2 [], Ev_Resume_After_Loss] sample_lost))) =
     [(2, Wipe_Before_Open), (3, Wipe_Before_Open)] \<and>
   list_all (\<lambda>(n, a). a = Wipe_Before_Open) (elections (actions_of (fst (run core_step
     [Ev_Resume_After_Loss, Ev_Owner_Lost tab_b 2 [], Ev_Resume_After_Loss] sample_lost))))"
proof
  show "elections (actions_of (fst (run core_step
     [Ev_Resume_After_Loss, Ev_Owner_Lost tab_b 2 [], Ev_Resume_After_Loss] sample_lost))) =
     [(2, Wipe_Before_Open), (3, Wipe_Before_Open)]"
    by (simp add: sample_lost_eq sample_eq core_eval actions_of_def)
  show "list_all (\<lambda>(n, a). a = Wipe_Before_Open) (elections (actions_of (fst (run core_step
     [Ev_Resume_After_Loss, Ev_Owner_Lost tab_b 2 [], Ev_Resume_After_Loss] sample_lost))))"
    unfolding list_all_iff
    by (rule recovery_always_wipes [OF sample_lost_reachable])
      (simp_all add: sample_lost_eq)
qed

text \<open>The events by which the owner of epoch \<open>ep\<close> leaves.\<close>

fun departs :: "core_event \<Rightarrow> coordinator_state \<Rightarrow> owner_epoch \<Rightarrow> bool" where
  "departs (Ev_Owner_Lost t e _) s ep = (owner_of s = Some (t, ep) \<and> e = ep)"
| "departs (Ev_Tab_Lost t _) s ep = (owner_of s = Some (t, ep))"
| "departs (Ev_Navigation_Departure t e _) s ep = (owner_of s = Some (t, ep) \<and> e = ep)"
| "departs (Ev_Engine_Drained t e) s ep = (s = Draining t ep \<and> e = ep)"
| "departs _ s ep = False"

lemma activateNext_fences:
  "e = currentEpoch c \<Longrightarrow> fenced e (snd (activateNext a c))"
  by (simp add: fenced_def activateNext_def Let_def)

lemma departed_fenced:
  assumes "core_inv c" "departs ev (stateValue c) ep"
  shows "fenced ep (snd (core_step ev c))"
proof -
  have epoch: "ep = currentEpoch c" if "owner_of (stateValue c) = Some (t, ep)" for t
    using core_inv_owner [OF assms(1) that] by simp
  show ?thesis
  proof (cases ev)
    case (Ev_Owner_Lost t e reason)
    with assms epoch show ?thesis by (simp add: ownerLost_def loss_of_owner fenced_def)
  next
    case (Ev_Tab_Lost t reason)
    with assms epoch show ?thesis by (simp add: tabLost_owner fenced_def)
  next
    case (Ev_Navigation_Departure t e reason)
    with assms epoch show ?thesis
      by (simp add: departForNavigation_owner Let_def case_prod_beta activateNext_fences)
  next
    case (Ev_Engine_Drained t e)
    with assms epoch show ?thesis
      by (simp add: engineDrained_owner Let_def case_prod_beta activateNext_fences)
  qed (use assms(2) in simp_all)
qed

text \<open>
  C3: Fencing. Once an owner has been lost, has drained or has departed, nothing that its engine
  still sends is acted upon, whatever happens afterwards: a response or a push that carries the
  old epoch only increments the counter of stale messages.
\<close>

theorem departed_owner_fenced:
  assumes "reachable core_step event_ok (initial_core sc) c"
    and "departs ev (stateValue c) ep" and "event_ok ev" and "list_all event_ok es"
    and "c' = snd (run core_step (ev # es) c)"
  shows "core_step (Ev_Engine_Response ep n response) c' =
      (Inr [Drop_Stale_Engine_Message ep (Some n) Stale_Epoch],
       c'\<lparr>staleMessageDrops := staleMessageDrops c' + 1\<rparr>) \<and>
    core_step (Ev_Engine_Push ep push) c' =
      (Inr [Drop_Stale_Engine_Message ep None Stale_Epoch],
       c'\<lparr>staleMessageDrops := staleMessageDrops c' + 1\<rparr>)"
proof -
  have inv: "core_inv c" by (rule core.inv_reachable [OF assms(1)])
  have "fenced ep c' \<and> core_inv c'"
    using fenced_run [OF core_inv_step [OF inv assms(3)] departed_fenced [OF inv assms(2)] assms(4)]
    unfolding assms(5) snd_run_Cons .
  then have "\<not> acceptsEngineMessages c' ep" by (simp add: fenced_rejects)
  then show ?thesis by (simp add: engineResponse_def enginePush_def dropStale_def)
qed

theorem departed_owner_fenced_witness:
  "\<exists>c'. core_step (Ev_Engine_Push 1 JNull) c' =
      (Inr [Drop_Stale_Engine_Message 1 None Stale_Epoch],
       c'\<lparr>staleMessageDrops := staleMessageDrops c' + 1\<rparr>)"
proof -
  have "departs (Ev_Tab_Lost tab_a (js ''gone'')) (stateValue sample) 1"
    by (simp add: sample_eq)
  from departed_owner_fenced [OF sample_reachable this _ _ refl,
      where es = "[Ev_Resume_After_Loss]" and push = JNull]
  show ?thesis by auto
qed

lemma engineResponse_delivered:
  assumes "fst (engineResponse ep n response c) = Inr [Deliver_Response t r]"
  shows "acceptsEngineMessages c ep \<and>
    (\<exists>req. (n, req) \<in> set (inFlight c) \<and> if_tabId req = t \<and>
       r = with_id response (request_id (if_request req)))"
  using assms
  by (auto simp: engineResponse_def dropStale_def Let_def split: if_splits option.splits
      dest!: map_of_SomeD)

text \<open>
  C5: Delivery. The coordinator delivers an engine's response to a tab only while that engine's
  epoch serves, at most once per route id, and only to a tab that asked, earlier in the run, the
  request whose original id the delivered response carries.
\<close>

theorem response_isolated:
  assumes "list_all event_ok es" and "c = snd (run core_step es (initial_core sc))"
    and "fst (core_step (Ev_Engine_Response ep n response) c) = Inr [Deliver_Response t r]"
  shows "acceptsEngineMessages c ep \<and>
    n \<notin> set (delivered (fst (run core_step es (initial_core sc)))) \<and>
    (\<exists>q. (t, q) \<in> asked_in (fst (run core_step es (initial_core sc))) \<and>
       r = with_id response (request_id q))"
proof -
  have hist: "delivery_history (fst (run core_step es (initial_core sc))) c"
    using deliveries.hist_run [OF assms(1), of sc] assms(2) by simp
  from engineResponse_delivered assms(3) obtain req where
    req: "acceptsEngineMessages c ep" "(n, req) \<in> set (inFlight c)" "if_tabId req = t"
      "r = with_id response (request_id (if_request req))"
    by fastforce
  have "(t, if_request req) \<in> pending c"
    using req(2,3) by (force simp: pending_def flown_by_def)
  moreover have "n \<notin> set (delivered (fst (run core_step es (initial_core sc))))"
    using hist req(2) by (force simp: delivery_history_def)
  ultimately show ?thesis using hist req by (auto simp: delivery_history_def)
qed

theorem response_isolated_witness:
  "\<exists>q. (tab_b, q) \<in> asked_in (fst (run core_step sample_events (initial_core (js ''scope'')))) \<and>
     with_id (JObj []) 9 = with_id (JObj []) (request_id q)"
proof -
  have "fst (core_step (Ev_Engine_Response 1 1 (JObj [])) sample) =
      Inr [Deliver_Response tab_b (with_id (JObj []) 9)]"
    by (simp add: sample_eq engineResponse_def acceptsEngineMessages_def ask_def request_id_def)
  from response_isolated [OF sample_ok sample_def this] show ?thesis by simp
qed

text \<open>
  C8: Losing the owner abruptly answers every request in flight, once and in order, with the
  \<open>owner-epoch-lost\<close> code under the id its tab chose, closes the engine's route, schedules the
  reset and reserves the next epoch; queued requests stay queued for the next owner.
\<close>

theorem owner_loss_rejects_in_flight:
  assumes "reachable core_step event_ok (initial_core sc) c"
    and "owner_of (stateValue c) = Some (t, e)"
  shows "core_step (Ev_Owner_Lost t e reason) c =
    (Inr (List.map (\<lambda>p. Reject_Request (if_tabId (snd p)) (request_id (if_request (snd p)))
            (js ''owner epoch '' @ js_nat e @ js '' was lost: '' @ reason)
            (Some OWNER_EPOCH_LOST_ERROR_CODE)) (inFlight c) @
          [Close_Engine_Route t e, Schedule_Reset_Activation]),
     c\<lparr>inFlight := [], stateValue := Resetting_After_Loss t e (e + 1) reason\<rparr>)"
  using loss_of_owner [OF core.inv_reachable [OF assms(1)] assms(2)]
  by (simp add: ownerLost_def reject_def)

theorem owner_loss_rejects_in_flight_witness:
  "\<exists>err. fst (core_step (Ev_Owner_Lost tab_a 1 (js ''crash'')) sample) =
     Inr [Reject_Request tab_b 9 err (Some OWNER_EPOCH_LOST_ERROR_CODE),
          Close_Engine_Route tab_a 1, Schedule_Reset_Activation]"
proof -
  have "owner_of (stateValue sample) = Some (tab_a, 1)" by (simp add: sample_eq)
  from owner_loss_rejects_in_flight [OF sample_reachable this, of "js ''crash''"]
  moreover have "inFlight sample = [(1, \<lparr> if_tabId = tab_b, if_request = ask 9, if_routeId = 1,
      if_ownerEpoch = 1 \<rparr>)]" by (simp add: sample_eq)
  ultimately show ?thesis by (simp add: request_id_def ask_def del: core_step.simps)
qed

text \<open>
  A lost tab leaves nothing behind: after \<open>tabLost\<close> the tab is not registered, not retiring,
  not the owner, and no queued or in-flight request is its; every other tab's registration and
  queue are as before.
\<close>

theorem tab_lost_forgets:
  assumes "reachable core_step event_ok (initial_core sc) c"
    and "c' = snd (core_step (Ev_Tab_Lost t reason) c)"
  shows "t \<notin> set (tabs c') \<and> t \<notin> retiringTabs c' \<and>
    (\<forall>e. owner_of (stateValue c') \<noteq> Some (t, e)) \<and>
    (\<forall>q \<in> set (queuedRequests c'). qr_tabId q \<noteq> t) \<and>
    (\<forall>(n, r) \<in> set (inFlight c'). if_tabId r \<noteq> t) \<and>
    tabs c' = filter (\<lambda>u. u \<noteq> t) (tabs c) \<and>
    queuedRequests c' = filter (\<lambda>q. qr_tabId q \<noteq> t) (queuedRequests c)"
proof -
  have inv: "core_inv c" by (rule core.inv_reachable [OF assms(1)])
  then have dist: "distinct (tabs c)" and ret: "retiringTabs c \<subseteq> set (tabs c)"
    and q: "\<forall>q \<in> set (queuedRequests c). qr_tabId q \<in> set (tabs c)"
    by (simp_all add: core_inv_def base_inv_def)
  have rm: "remove1 t (tabs c) = filter (\<lambda>u. u \<noteq> t) (tabs c)"
    using dist by (simp add: distinct_remove1_removeAll removeAll_filter_not_eq neq_commute)
  consider "t \<notin> set (tabs c)" | ep where "owner_of (stateValue c) = Some (t, ep)"
    | "t \<in> set (tabs c)" "\<And>ep. owner_of (stateValue c) \<noteq> Some (t, ep)" by blast
  then show ?thesis
  proof cases
    case 1
    have "c' = c" using 1 by (simp add: assms(2) tabLost_def)
    moreover have "owner_of (stateValue c) \<noteq> Some (t, e)" for e
      using core_inv_owner [OF inv] 1 by blast
    moreover have "if_tabId r \<noteq> t" if "(n, r) \<in> set (inFlight c)" for n r
      using inv that 1 by (fastforce simp: core_inv_def inflight_inv_def)
    moreover have "filter (\<lambda>u. u \<noteq> t) (tabs c) = tabs c"
      using 1 by (auto simp: filter_id_conv)
    moreover have "filter (\<lambda>q. qr_tabId q \<noteq> t) (queuedRequests c) = queuedRequests c"
      using 1 q by (auto simp: filter_id_conv)
    moreover have "\<forall>q \<in> set (queuedRequests c). qr_tabId q \<noteq> t"
      using 1 q by blast
    ultimately show ?thesis using 1 ret by auto
  next
    case 2
    then show ?thesis by (auto simp: assms(2) tabLost_owner [OF inv 2] rm)
  next
    case 3
    then show ?thesis by (auto simp: assms(2) tabLost_standby [OF inv 3] rm)
  qed
qed

theorem tab_lost_forgets_witness:
  "tab_b \<notin> set (tabs (snd (core_step (Ev_Tab_Lost tab_b (js ''closed'')) sample)))"
  using tab_lost_forgets [OF sample_reachable refl, of tab_b "js ''closed''"] by (rule conjunct1)

lemma waiting_elects_newcomer:
  assumes "core_inv c" "stateValue c = Waiting_For_Tab a" "t \<notin> set (tabs c)" "t \<noteq> []"
  shows "registerTab t c =
    (Inr [Elect_Owner t (currentEpoch c + 1) a],
     c\<lparr>tabs := tabs c @ [t], currentEpoch := currentEpoch c + 1,
       stateValue := Activating t (currentEpoch c + 1) a\<rparr>)"
proof -
  have "set (tabs c) \<subseteq> retiringTabs c" "retiringTabs c \<subseteq> set (tabs c)"
    using assms(1,2) by (simp_all add: core_inv_def state_inv_def base_inv_def)
  then have "eligible (c\<lparr>tabs := tabs c @ [t]\<rparr>) = [t]"
    using assms(3) by (auto simp: eligible_def filter_empty_conv)
  with assms show ?thesis
    by (simp add: registerTab_def activateNext_def chooseCandidate_def falsy_tab_def Let_def)
qed

text \<open>
  The coordinator is never idle while a tab could own the engine: in a reachable state that
  waits for a tab every registered tab is retiring, and registering a further tab elects it at
  once, under the next epoch and with the pending database action.
\<close>

theorem waiting_only_without_candidates:
  assumes "reachable core_step event_ok (initial_core sc) c"
    and "stateValue c = Waiting_For_Tab a"
  shows "eligible c = [] \<and>
    (\<forall>t. t \<notin> set (tabs c) \<longrightarrow> t \<noteq> [] \<longrightarrow>
       fst (core_step (Ev_Register_Tab t) c) = Inr [Elect_Owner t (currentEpoch c + 1) a])"
proof -
  have inv: "core_inv c" by (rule core.inv_reachable [OF assms(1)])
  have "eligible c = []" using inv assms(2) by (simp add: eligible_Nil_iff core_inv_def state_inv_def)
  then show ?thesis using waiting_elects_newcomer [OF inv assms(2)] by simp
qed

theorem waiting_only_without_candidates_witness:
  "eligible (initial_core (js ''scope'')) = []"
  using waiting_only_without_candidates [OF reachable_init, of "js ''scope''" Open_Existing]
  by (simp add: initial_core_def)

text \<open>
  Readiness flushes the queue. A readiness report of the activating engine that passes the
  lock and proof checks makes it the active owner and routes every queued request to it, in the
  order in which they were asked and under consecutive fresh route ids, after announcing the
  replacement when it is not the first engine.
\<close>

theorem ready_flushes_queue:
  assumes "reachable core_step event_ok (initial_core sc) c" and "room c"
    and "stateValue c = Activating (er_tabId ready) (er_ownerEpoch ready) a"
    and "ready_error ready = None"
  shows "core_step (Ev_Engine_Ready ready) c =
    (Inr ((if 1 < er_ownerEpoch ready then [Broadcast_Engine_Replaced (er_ownerEpoch ready)] else []) @
          flushed_actions (er_tabId ready) (er_ownerEpoch ready) (nextRouteId c) (queuedRequests c)),
     c\<lparr>stateValue := Active (er_tabId ready) (er_ownerEpoch ready), queuedRequests := [],
       nextRouteId := nextRouteId c + length (queuedRequests c),
       inFlight := inFlight c @ flushed_flights (er_ownerEpoch ready) (nextRouteId c) (queuedRequests c)\<rparr>)"
proof -
  have inv: "core_inv c" by (rule core.inv_reachable [OF assms(1)])
  let ?t = "er_tabId ready" and ?e = "er_ownerEpoch ready"
  let ?c1 = "c\<lparr>stateValue := Active ?t ?e\<rparr>"
  let ?acts = "if 1 < ?e then [Broadcast_Engine_Replaced ?e] else []"
  have inv1: "owner_inv ?t ?e ?c1" by (rule core_inv_activated [OF inv assms(3)])
  have queued: "\<forall>q \<in> set (queuedRequests c). qr_tabId q \<in> set (tabs ?c1)"
    using inv by (simp add: core_inv_defs)
  from flush_queue_returns [OF inv1 queued, of ?acts] assms(2)
  obtain acts' c' where f: "flush_queue ?t ?e (queuedRequests c) ?acts ?c1 = (Inr acts', c')"
    "owner_inv ?t ?e c'" "queuedRequests c' = []"
    by (auto simp: room_def)
  moreover from this(2) have "stateValue c' = Active ?t ?e" by (simp add: owner_inv_def)
  ultimately have "core_inv c'" by (simp add: core_inv_active)
  then show ?thesis
    using flush_queue_outcome [OF inv1 queued, of ?acts] f(1)
    by (simp add: engineReady_accepted [OF assms(3,4)])
qed

definition sample_waiting :: coordinator where
  "sample_waiting = snd (run core_step
     [Ev_Register_Tab tab_a, Ev_Register_Tab tab_b, Ev_Request tab_b (ask 9), Ev_Request tab_a (ask 4)]
     (initial_core (js ''scope'')))"

lemma sample_waiting_eq:
  "sample_waiting =
    \<lparr> scope = js ''scope'', stateValue = Activating tab_a 1 Open_Existing, tabs = [tab_a, tab_b],
      retiringTabs = {},
      queuedRequests = [\<lparr>qr_tabId = tab_b, qr_request = ask 9\<rparr>, \<lparr>qr_tabId = tab_a, qr_request = ask 4\<rparr>],
      inFlight = [], currentEpoch = 1, nextRouteId = 1, staleMessageDrops = 0, protocolViolations = 0 \<rparr>"
  by (simp add: sample_waiting_def core_eval)

lemma sample_waiting_reachable:
  "reachable core_step event_ok (initial_core (js ''scope'')) sample_waiting"
  unfolding sample_waiting_def by (rule run_reachable) simp

lemma ready_a_simps [simp]:
  "er_tabId ready_a = tab_a" "er_ownerEpoch ready_a = 1" "ready_error ready_a = None"
  by (simp_all add: ready_a_def ready_error_def)

theorem ready_flushes_queue_witness:
  "fst (core_step (Ev_Engine_Ready ready_a) sample_waiting) =
     Inr [Route_Request tab_a tab_b 1 1 (with_id (ask 9) 1),
          Route_Request tab_a tab_a 1 2 (with_id (ask 4) 2)]"
proof -
  have "room sample_waiting" by (simp add: room_def sample_waiting_eq max_safe_integer_def)
  moreover have "stateValue sample_waiting =
      Activating (er_tabId ready_a) (er_ownerEpoch ready_a) Open_Existing"
    by (simp add: sample_waiting_eq)
  ultimately have "fst (core_step (Ev_Engine_Ready ready_a) sample_waiting) =
     Inr (flushed_actions tab_a 1 (nextRouteId sample_waiting) (queuedRequests sample_waiting))"
    using ready_flushes_queue [OF sample_waiting_reachable] by (simp del: core_step.simps)
  then show ?thesis
    by (simp add: sample_waiting_eq routed_request_def numeral_2_eq_2 del: core_step.simps)
qed

definition ready_b_unwiped :: engine_ready where
  "ready_b_unwiped = \<lparr> er_tabId = tab_b, er_ownerEpoch = 2, er_ownerLockName = js ''lock'',
     er_expectedOwnerLockName = js ''lock'', er_ownerLockHeld = True,
     er_databaseActionProof = Proof_Opened_Existing, er_openOutcome = Opened_Existing \<rparr>"

text \<open>
  The readiness check compares the engine's proof with the engine's own open outcome only. An
  engine that reports having opened the existing database is accepted, and serves, although it
  was elected with \<open>wipe-before-open\<close> after an abrupt loss.
\<close>

theorem unwiped_owner_accepted:
  "let c = snd (core_step Ev_Resume_After_Loss sample_lost) in
   reachable core_step event_ok (initial_core (js ''scope'')) c \<and>
   stateValue c = Activating tab_b 2 Wipe_Before_Open \<and>
   fst (core_step (Ev_Engine_Ready ready_b_unwiped) c) = Inr [Broadcast_Engine_Replaced 2] \<and>
   stateValue (snd (core_step (Ev_Engine_Ready ready_b_unwiped) c)) = Active tab_b 2"
proof -
  have eq: "snd (core_step Ev_Resume_After_Loss sample_lost) =
      sample_lost\<lparr>currentEpoch := 2, stateValue := Activating tab_b 2 Wipe_Before_Open\<rparr>"
    by (simp add: sample_lost_eq sample_eq core_eval)
  have "reachable core_step event_ok (initial_core (js ''scope''))
      (snd (core_step Ev_Resume_After_Loss sample_lost))"
    by (rule reachable_step [OF sample_lost_reachable]) simp
  then show ?thesis
    by (simp add: eq Let_def)
      (simp add: sample_lost_eq sample_eq core_eval ready_b_unwiped_def)
qed

end
