(* ===== verification/Coord_Core_Answers.thy ===== *)
theory Coord_Core_Answers
  imports Coord_Core_Props "HOL-Library.Multiset"
begin

text \<open>
  Accounting for requests: for a tab that stays registered, the requests it asked are the ones
  answered to it (delivered or rejected) and the ones still pending, as multisets of the ids it
  chose. No request is answered twice and none is lost.
\<close>

section \<open>Answers and pending requests of a tab\<close>

fun answer :: "js_string \<Rightarrow> coordinator_action \<Rightarrow> int list" where
  "answer t (Deliver_Response u r) = (if u = t then [request_id r] else [])"
| "answer t (Reject_Request u i _ _) = (if u = t then [i] else [])"
| "answer t _ = []"

definition answers :: "js_string \<Rightarrow> coordinator_action list \<Rightarrow> int list" where
  "answers t acts = concat (List.map (answer t) acts)"

definition queued_of :: "js_string \<Rightarrow> queued_request list \<Rightarrow> int list" where
  "queued_of t qs = List.map (request_id \<circ> qr_request) (filter (\<lambda>q. qr_tabId q = t) qs)"

definition flying_of :: "js_string \<Rightarrow> (route_id \<times> in_flight_request) list \<Rightarrow> int list" where
  "flying_of t fs = List.map (request_id \<circ> if_request \<circ> snd) (filter (\<lambda>p. if_tabId (snd p) = t) fs)"

definition waiting_of :: "js_string \<Rightarrow> coordinator \<Rightarrow> int multiset" where
  "waiting_of t c = mset (queued_of t (queuedRequests c)) + mset (flying_of t (inFlight c))"

fun asks :: "js_string \<Rightarrow> core_event \<Rightarrow> int list" where
  "asks t (Ev_Request u r) = (if u = t then [request_id r] else [])"
| "asks t _ = []"

fun removes :: "js_string \<Rightarrow> coordinator_action \<Rightarrow> bool" where
  "removes t (Drop_Tab u) = (u = t)"
| "removes t (Retire_Tab u _) = (u = t)"
| "removes t _ = False"

text \<open>The balance of one step.\<close>

definition balanced :: "js_string \<Rightarrow> int list \<Rightarrow> coordinator \<Rightarrow> (js_error + coordinator_action list) \<times> coordinator \<Rightarrow> bool" where
  "balanced t new c r \<longleftrightarrow>
     (\<forall>acts. fst r = Inr acts \<longrightarrow> \<not> list_ex (removes t) acts \<longrightarrow>
        mset (answers t acts) + waiting_of t (snd r) = waiting_of t c + mset new)"

lemma answers_simps [simp]:
  "answers t [] = []" "answers t (a # as) = answer t a @ answers t as"
  "answers t (as @ bs) = answers t as @ answers t bs"
  by (simp_all add: answers_def)

lemma of_simps [simp]:
  "queued_of t [] = []" "flying_of t [] = []"
  "queued_of t (q # qs) = (if qr_tabId q = t then [request_id (qr_request q)] else []) @ queued_of t qs"
  "flying_of t (p # ps) =
     (if if_tabId (snd p) = t then [request_id (if_request (snd p))] else []) @ flying_of t ps"
  "queued_of t (qs @ qs') = queued_of t qs @ queued_of t qs'"
  "flying_of t (ps @ ps') = flying_of t ps @ flying_of t ps'"
  by (simp_all add: queued_of_def flying_of_def)

lemma of_other [simp]:
  "u \<noteq> t \<Longrightarrow> queued_of t (filter (\<lambda>q. qr_tabId q \<noteq> u) qs) = queued_of t qs"
  "u \<noteq> t \<Longrightarrow> flying_of t (filter (\<lambda>p. if_tabId (snd p) \<noteq> u) ps) = flying_of t ps"
  by (auto simp: queued_of_def flying_of_def intro!: arg_cong [where f = "List.map _"] filter_cong)

lemma answers_rejects [simp]:
  "answers t (List.map (\<lambda>p. reject (if_tabId (snd p)) (request_id (if_request (snd p))) err code) ps) =
     flying_of t ps"
  by (induction ps) (simp_all add: reject_def)

lemma removes_rejects [simp]:
  "\<not> list_ex (removes t) (List.map (\<lambda>p. reject (f p) (g p) err code) ps)"
  by (induction ps) (simp_all add: reject_def)

lemma answers_flushed [simp]: "answers t (flushed_actions u e n qs) = []"
  by (induction qs arbitrary: n) (simp_all add: routed_request_def)

lemma flying_flushed [simp]: "flying_of t (flushed_flights e n qs) = queued_of t qs"
  by (induction qs arbitrary: n) (simp_all add: flight_def)

lemma activateNext_silent [simp]:
  "answers t (fst (activateNext a c)) = []"
  "\<not> list_ex (removes t) (fst (activateNext a c))"
  by (simp_all add: activateNext_def Let_def)

lemma waiting_frame [simp]:
  "waiting_of t (snd (activateNext a c)) = waiting_of t c"
  "waiting_of t (c\<lparr>tabs := x\<rparr>) = waiting_of t c"
  "waiting_of t (c\<lparr>retiringTabs := y\<rparr>) = waiting_of t c"
  "waiting_of t (c\<lparr>stateValue := s\<rparr>) = waiting_of t c"
  "waiting_of t (c\<lparr>currentEpoch := k\<rparr>) = waiting_of t c"
  "waiting_of t (c\<lparr>staleMessageDrops := n\<rparr>) = waiting_of t c"
  "waiting_of t (c\<lparr>protocolViolations := n\<rparr>) = waiting_of t c"
  by (simp_all add: waiting_of_def)

section \<open>Every operation balances\<close>

lemma flying_delete:
  assumes "distinct (List.map fst ps)" "map_of ps n = Some r"
  shows "mset (flying_of t ps) =
    mset (flying_of t (AList.delete n ps)) + mset (flying_of t [(n, r)])"
  using assms
proof (induction ps)
  case (Cons p ps)
  show ?case
  proof (cases "fst p = n")
    case True
    with Cons.prems have "n \<notin> fst ` set ps" by auto
    then have "AList.delete n ps = ps" by (simp add: delete_id)
    with True Cons.prems show ?thesis by (cases p) auto
  next
    case False
    with Cons show ?thesis by (cases p) auto
  qed
qed simp

lemma balanced_response:
  assumes "core_inv c"
  shows "balanced t [] c (engineResponse e n response c)"
proof (cases "map_of (inFlight c) n")
  case None
  then show ?thesis by (simp add: balanced_def engineResponse_def dropStale_def)
next
  case (Some r)
  have "distinct (List.map fst (inFlight c))" using assms by (simp add: core_inv_def inflight_inv_def)
  from flying_delete [OF this Some, of t] Some show ?thesis
    by (auto simp: balanced_def engineResponse_def dropStale_def waiting_of_def with_id_def
        request_id_def)
qed

lemma balanced_violation:
  "balanced t [] c (Inr [Protocol_Violation err], c\<lparr>protocolViolations := n\<rparr>)"
  by (simp add: balanced_def)

lemma balanced_departed:
  assumes "list_ex (removes u) acts" "answers t acts = flying_of t (inFlight c)"
  shows "balanced t [] c (Inr (acts @ fst (activateNext a c1)),
    snd (activateNext a ((removeTabRecord u (c\<lparr>inFlight := []\<rparr>))\<lparr>retiringTabs := r, stateValue := s\<rparr>)))"
proof (cases "u = t")
  case True
  with assms show ?thesis by (simp add: balanced_def)
next
  case False
  then show ?thesis by (simp add: balanced_def assms(2) waiting_of_def)
qed

lemma balanced_engineReady:
  assumes "core_inv c"
  shows "balanced t [] c (engineReady ready c)"
proof (cases "\<exists>a. stateValue c = Activating (er_tabId ready) (er_ownerEpoch ready) a")
  case False
  then show ?thesis by (simp add: engineReady_unexpected balanced_violation)
next
  case True
  then obtain a where a: "stateValue c = Activating (er_tabId ready) (er_ownerEpoch ready) a" ..
  let ?t = "er_tabId ready" and ?e = "er_ownerEpoch ready"
  let ?c1 = "c\<lparr>stateValue := Active ?t ?e\<rparr>"
  let ?acts = "if 1 < ?e then [Broadcast_Engine_Replaced ?e] else []"
  have inv1: "owner_inv ?t ?e ?c1" by (rule core_inv_activated [OF assms a])
  have queued: "\<forall>q \<in> set (queuedRequests c). qr_tabId q \<in> set (tabs ?c1)"
    using assms by (simp add: core_inv_defs)
  show ?thesis
  proof (cases "ready_error ready")
    case (Some err)
    with assms a show ?thesis by (simp add: engineReady_refused balanced_def)
  next
    case None
    with a flush_queue_outcome [OF inv1 queued, of ?acts] show ?thesis
      by (auto simp: engineReady_accepted balanced_def waiting_of_def return_asserting_def
          split: prod.splits sum.splits option.splits)
  qed
qed

lemma balanced_request:
  assumes "core_inv c"
  shows "balanced t (asks t (Ev_Request u r)) c (request u r c)"
proof (cases "u \<in> set (tabs c) \<and> u \<notin> retiringTabs c")
  case False
  then show ?thesis by (auto simp: balanced_def request_def reject_def)
next
  case True
  let ?q = "\<lparr>qr_tabId = u, qr_request = r\<rparr>"
  show ?thesis
  proof (cases "stateValue c")
    case (Active ot e)
    from assms have "inflight_inv c" by (simp add: core_inv_def)
    then show ?thesis
      by (cases rule: route_cases [where q = ?q and t = ot and e = e])
        (use True Active in \<open>simp_all add: balanced_def request_def routed_request_def flight_def
          waiting_of_def\<close>)
  qed (use True in \<open>simp_all add: balanced_def request_def waiting_of_def Let_def\<close>)
qed

lemma balanced_step:
  assumes "core_inv c"
  shows "balanced t (asks t e) c (core_step e c)"
proof (cases e)
  case (Ev_Register_Tab u)
  then show ?thesis
    by (cases "stateValue c") (simp_all add: registerTab_def Let_def case_prod_beta balanced_def)
next
  case (Ev_Engine_Drained u ep)
  then show ?thesis using assms
    by (cases "stateValue c = Draining u ep")
      (simp_all add: engineDrained_owner Let_def case_prod_beta,
       rule balanced_departed [where acts = "List.map f (inFlight c) @ [a, b]" for f a b, simplified],
       simp_all add: engineDrained_def recordProtocolViolation_def balanced_violation)
next
  case (Ev_Owner_Lost u ep reason)
  then show ?thesis using assms
    by (cases "owner_of (stateValue c) = Some (u, ep)")
      (simp_all add: ownerLost_def loss_of_owner loss_of_other balanced_def waiting_of_def)
next
  case (Ev_Navigation_Departure u ep reason)
  then show ?thesis using assms
    by (cases "owner_of (stateValue c) = Some (u, ep)")
      (simp_all add: departForNavigation_owner Let_def case_prod_beta,
       rule balanced_departed [where acts = "List.map f (inFlight c) @ [a, b]" for f a b, simplified],
       simp_all add: departForNavigation_def recordProtocolViolation_def balanced_violation)
next
  case (Ev_Tab_Lost u reason)
  consider "u \<notin> set (tabs c)" | ep where "owner_of (stateValue c) = Some (u, ep)"
    | "u \<in> set (tabs c)" "\<And>ep. owner_of (stateValue c) \<noteq> Some (u, ep)" by blast
  then show ?thesis
    using Ev_Tab_Lost assms
    by cases (simp add: tabLost_def balanced_def,
      simp add: tabLost_owner balanced_def waiting_of_def,
      simp add: tabLost_standby balanced_def waiting_of_def)
next
  case Ev_Resume_After_Loss
  then show ?thesis
    by (simp add: resumeAfterLoss_def Let_def balanced_def split: coordinator_state.split)
next
  case (Ev_Request u r)
  then show ?thesis using balanced_request [OF assms] by simp
next
  case (Ev_Engine_Push ep push)
  then show ?thesis by (simp add: enginePush_def dropStale_def balanced_def)
next
  case (Ev_Graceful_Departure u ep)
  then show ?thesis
    by (simp add: beginGracefulDeparture_def recordProtocolViolation_def balanced_def)
qed (use assms in \<open>simp_all add: balanced_response balanced_engineReady\<close>)

section \<open>Over a run\<close>

text \<open>No step of the trace threw.\<close>

definition no_throw :: "(core_event \<times> (js_error + coordinator_action list)) list \<Rightarrow> bool" where
  "no_throw tr \<longleftrightarrow> list_all (\<lambda>p. snd p = Inr (emits (snd p))) tr"

text \<open>
  C1: No request is lost and none is answered twice. As long as a tab is not dropped or retired,
  the requests it has asked are, counted with multiplicity, the answers the coordinator has
  emitted for it (deliveries and rejections) together with the requests still queued or in
  flight for it.
\<close>

theorem requests_accounted_for:
  assumes "list_all event_ok es"
    and "no_throw (fst (run core_step es (initial_core sc)))"
    and "\<not> list_ex (removes t) (actions_of (fst (run core_step es (initial_core sc))))"
  shows "mset (answers t (actions_of (fst (run core_step es (initial_core sc))))) +
      waiting_of t (snd (run core_step es (initial_core sc))) = mset (concat (List.map (asks t) es))"
  using assms
proof (induction es rule: rev_induct)
  case Nil
  then show ?case by (simp add: waiting_of_def initial_core_def)
next
  case (snoc e es)
  let ?c = "snd (run core_step es (initial_core sc))"
  have "core_inv ?c" using snoc.prems(1) by (intro core.inv_run) simp
  then have "balanced t (asks t e) ?c (core_step e ?c)" by (rule balanced_step)
  moreover have "fst (core_step e ?c) = Inr (emits (fst (core_step e ?c)))"
    using snoc.prems(2) by (simp add: no_throw_def fst_run_snoc)
  moreover have "\<not> list_ex (removes t) (emits (fst (core_step e ?c)))"
    using snoc.prems(3) by (simp add: fst_run_snoc)
  ultimately have "mset (answers t (emits (fst (core_step e ?c)))) + waiting_of t (snd (core_step e ?c)) =
      waiting_of t ?c + mset (asks t e)"
    unfolding balanced_def by blast
  moreover have "mset (answers t (actions_of (fst (run core_step es (initial_core sc))))) +
      waiting_of t ?c = mset (concat (List.map (asks t) es))"
    using snoc by (simp add: fst_run_snoc no_throw_def)
  ultimately show ?case
    by (simp add: fst_run_snoc snd_run_snoc) (metis add.assoc)
qed

theorem requests_accounted_for_witness:
  "mset (answers tab_b (actions_of (fst (run core_step
     (sample_events @ [Ev_Request tab_b (ask 3), Ev_Engine_Response 1 1 (JObj [])])
     (initial_core (js ''scope'')))))) + {#3#} = {#9, 3#}"
proof -
  let ?es = "sample_events @ [Ev_Request tab_b (ask 3), Ev_Engine_Response 1 1 (JObj [])]"
  let ?r = "run core_step ?es (initial_core (js ''scope''))"
  have ok: "list_all event_ok ?es" by (simp add: sample_events_def)
  have state: "waiting_of tab_b (snd ?r) = {#3#}"
    by (simp add: sample_events_def core_eval engineResponse_def acceptsEngineMessages_def
        waiting_of_def)
  have trace: "no_throw (fst ?r)" "\<not> list_ex (removes tab_b) (actions_of (fst ?r))"
    by (simp_all add: sample_events_def core_eval engineResponse_def acceptsEngineMessages_def
        no_throw_def actions_of_def)
  from requests_accounted_for [OF ok trace] show ?thesis
    unfolding state by (simp add: sample_events_def ask_def request_id_def)
qed

end
