(* ===== verification/Cache_Telemetry.thy ===== *)
theory Cache_Telemetry
  imports Cache_Wire
begin

text \<open>
  Telemetry vocabulary of the cache and the pure classifiers
  (\<open>apps/web/src/lib/graphql-cache/telemetry.ts\<close>): the closed sets of event names, categories,
  outcomes and error codes, the category of a request and the class of an error message.

  \<open>toLowerCase\<close> is modelled where the classifier can see it: ASCII letters, and the two other
  code points whose lower case holds an ASCII letter (U+212A and U+0130). Every other unit is
  left as it is, which no ASCII keyword can tell.
\<close>

section \<open>Vocabulary\<close>

datatype event_name =
    Wasm_Download | Wasm_Compile | Wasm_Instantiate | Schema_Init | Db_Ready | Host_Ready
  | Host_Request | Coordinator_Request | Engine_Request_Event | Transaction_Event | Read_Event
  | Owner_Event | Stale_Drop | Lock_Wait | Storage_Reset_Required_Event | Logical_Reset
  | Revision_Advance | Reset_Wipe | Origin_Storage_Pressure | Linear_Memory | Queue_Diagnostics
  | Navigation_Event | Aggregate_Event

datatype operation_category =
    Cat_Initialization | Cat_Read | Cat_Write | Cat_Transaction | Cat_Queue | Cat_Inspection
  | Cat_Invalidation | Cat_Lifecycle | Cat_Storage | Cat_Navigation | Cat_Unknown

datatype telemetry_outcome =
    Out_Success | Out_Error | Out_Hit | Out_Miss | Out_Graceful | Out_Abrupt | Out_Granted
  | Out_Denied | Out_Unknown

datatype cache_error_code =
    Code_None | Code_Unsupported | Code_Timeout | Code_Wasm_Download | Code_Wasm_Compile
  | Code_Wasm_Instantiate | Code_Schema | Code_Integrity | Code_Opfs_Unavailable
  | Code_Opfs_Quota | Code_Opfs_Io | Code_Lock | Code_Owner_Lost | Code_Protocol
  | Code_Transport | Code_Storage_Reset | Code_Initialization | Code_Unknown

datatype reset_reason =
    Explicit_Clear | Identity_Change | Namespace_Mismatch | Integrity_Failure
  | Reason_Storage_Reset_Required | Abrupt_Owner_Loss | Storage_Eviction | Quota_Failure
  | Reason_Unknown

datatype owner_event =
    Elected | Activated | Graceful_Drain_Started | Graceful_Drain_Completed
  | Navigation_Departed | Abrupt_Loss | Replacement | Multiple_Owner_Detected

section \<open>Text matching\<close>

definition lower_unit :: "code_unit \<Rightarrow> js_string" where
  "lower_unit u =
     (if 65 \<le> unat u \<and> unat u \<le> 90 then [u + 32]
      else if u = 0x212A then [107]
      else if u = 0x0130 then [105, 0x0307]
      else [u])"

definition to_lower :: "js_string \<Rightarrow> js_string" where
  "to_lower s = concat (List.map lower_unit s)"

fun starts_with :: "js_string \<Rightarrow> js_string \<Rightarrow> bool" where
  "starts_with s [] = True"
| "starts_with [] (p # ps) = False"
| "starts_with (u # s) (p # ps) = (u = p \<and> starts_with s ps)"

fun str_includes :: "js_string \<Rightarrow> js_string \<Rightarrow> bool" where
  "str_includes [] p = (p = [])"
| "str_includes (u # s) p = (starts_with (u # s) p \<or> str_includes s p)"

text \<open>\<open>\\w\<close>, and \<open>/\\bword\\b/\<close> from a position whose preceding unit is known.\<close>

definition word_unit :: "code_unit \<Rightarrow> bool" where
  "word_unit u \<longleftrightarrow>
     (48 \<le> unat u \<and> unat u \<le> 57) \<or> (65 \<le> unat u \<and> unat u \<le> 90) \<or> unat u = 95 \<or>
     (97 \<le> unat u \<and> unat u \<le> 122)"

definition word_follows :: "js_string \<Rightarrow> bool" where
  "word_follows s \<longleftrightarrow> (case s of [] \<Rightarrow> False | u # _ \<Rightarrow> word_unit u)"

fun includes_word :: "bool \<Rightarrow> js_string \<Rightarrow> js_string \<Rightarrow> bool" where
  "includes_word after_word [] w = False"
| "includes_word after_word (u # s) w =
     ((\<not> after_word \<and> starts_with (u # s) w \<and> \<not> word_follows (drop (length w) (u # s))) \<or>
      includes_word (word_unit u) s w)"

section \<open>Classifiers\<close>

text \<open>On the message of an \<open>Error\<close> or on a string; \<open>None\<close> stands for any other thrown value.\<close>

definition classifyCacheError :: "js_string option \<Rightarrow> cache_error_code" where
  "classifyCacheError err =
     (let message = (case err of Some s \<Rightarrow> to_lower s | None \<Rightarrow> []);
          has = (\<lambda>k. str_includes message (js k)) in
      if has ''timeout'' then Code_Timeout
      else if has ''quota'' \<or> includes_word False message (js ''full'') then Code_Opfs_Quota
      else if has ''opfs'' \<and> has ''unavailable'' then Code_Opfs_Unavailable
      else if has ''opfs'' \<or> has ''wal'' then Code_Opfs_Io
      else if has ''lock'' then Code_Lock
      else if has ''owner epoch'' \<or> has ''owner-lost'' then Code_Owner_Lost
      else if has ''protocol'' \<or> has ''envelope'' then Code_Protocol
      else if has ''transport'' \<or> has ''messageport'' then Code_Transport
      else if has ''schema'' \<or> has ''namespace'' then Code_Schema
      else if has ''integrity'' \<or> has ''corrupt'' then Code_Integrity
      else if has ''reset required'' then Code_Storage_Reset
      else if has ''wasm'' then Code_Wasm_Instantiate
      else if has ''initializ'' \<or> has ''open'' then Code_Initialization
      else Code_Unknown)"

definition resetReasonForError :: "js_string option \<Rightarrow> reset_reason" where
  "resetReasonForError err =
     (let code = classifyCacheError err in
      if code = Code_Opfs_Quota then Quota_Failure
      else if code = Code_Integrity then Integrity_Failure
      else if code = Code_Schema then Namespace_Mismatch
      else if code = Code_Owner_Lost then Abrupt_Owner_Loss
      else Reason_Storage_Reset_Required)"

definition request_kind_in :: "jsval \<Rightarrow> string list \<Rightarrow> bool" where
  "request_kind_in r ks \<longleftrightarrow> getp r ''kind'' \<in> set (List.map (\<lambda>k. JStr (js k)) ks)"

text \<open>Exhaustive on validated requests: the final branch is \<open>teardown\<close> and \<open>clear\<close>.\<close>

definition operationCategoryForRequest :: "jsval \<Rightarrow> operation_category" where
  "operationCategoryForRequest r =
     (if request_kind_in r [''init''] then Cat_Initialization
      else if request_kind_in r
        [''read'', ''current-revision'', ''read-records-by-keys'', ''search'', ''entity-filter''] then
        Cat_Read
      else if request_kind_in r [''write'', ''hydrate''] then Cat_Write
      else if request_kind_in r
        [''enqueue-optimistic-mutation'', ''claim-next-mutation'', ''defer-optimistic-write'',
         ''commit-optimistic-write'', ''rollback-optimistic-write''] then Cat_Transaction
      else if request_kind_in r [''inspect-query'', ''inspect-query-variants''] then Cat_Inspection
      else if request_kind_in r [''invalidate'', ''delete-records''] then Cat_Invalidation
      else Cat_Lifecycle)"

definition isStorageTransactionRequest :: "jsval \<Rightarrow> bool" where
  "isStorageTransactionRequest r \<longleftrightarrow>
     request_kind_in r
       [''write'', ''hydrate'', ''enqueue-optimistic-mutation'', ''claim-next-mutation'',
        ''defer-optimistic-write'', ''commit-optimistic-write'', ''rollback-optimistic-write'',
        ''invalidate'', ''delete-records'', ''clear'']"

end
