(* ===== verification/Coord_Router.thy ===== *)
theory Coord_Router
  imports Coord_Core Cache_Telemetry
begin

text \<open>
  The SharedWorker adapter around the coordinator state machine
  (\<open>apps/web/src/lib/graphql-cache/worker/coordinator-router.ts\<close>, class \<open>CoordinatorRouter\<close>):
  registration of page ports, dispatch of validated envelopes, application of the core's
  actions, the direct engine route, activation and heartbeat watchdogs.

  The host's asynchronous facilities are part of the state: live timers with their callbacks,
  queued microtasks, pending lock probes and liveness watches. Handles (timers, watches, probes,
  transports) are fresh numbers, which gives them the identity that the source compares. Ports
  are numbers. Everything that leaves the router is appended to \<open>outputs\<close>.

  An operation returns whether it ran to its end, threw, or ran out of fuel, and the new state;
  the mutations made before a throw are kept.
\<close>

section \<open>State\<close>

record observation =
  ob_name :: event_name
  ob_category :: operation_category
  ob_outcome :: "telemetry_outcome option"
  ob_error :: "cache_error_code option"
  ob_reset :: "reset_reason option"
  ob_owner :: "owner_event option"
  ob_open :: "engine_open_outcome option"
  ob_wipe_attempt :: bool
  ob_duration :: "int option"
  ob_count :: "nat option"

datatype router_output =
    Post_Port nat coordinator_to_tab
  | Close_Port nat
  | Close_Endpoint jsval
  | Send_Engine nat coordinator_to_engine
  | Close_Transport nat
  | Telemetry observation

datatype timer_callback =
    Activation_Watchdog js_string owner_epoch
  | Heartbeat_Interval owner_epoch
  | Heartbeat_Timeout js_string owner_epoch nat

record tab_connection =
  tc_port :: nat
  tc_watch :: nat

record engine_route =
  ro_tabId :: js_string
  ro_ownerEpoch :: owner_epoch
  ro_transport :: nat

record lock_probe =
  lp_port :: nat
  lp_scope :: js_string
  lp_tabId :: js_string
  lp_lockName :: js_string
  lp_hotCapacity :: "nat option"
  lp_cancelled :: bool

record route_timing =
  rt_startedAt :: int
  rt_ownerEpoch :: owner_epoch
  rt_category :: operation_category

record router =
  coreValue :: "coordinator option"
  hotCapacity :: "nat option"
  tabMap :: "(js_string \<times> tab_connection) list"
  portTabs :: "(nat \<times> js_string) list"
  pendingRegistrations :: "(nat \<times> nat) list"
  engineRoute :: "engine_route option"
  activationTimer :: "nat option"
  heartbeatIntervalTimer :: "nat option"
  heartbeatTimeoutTimer :: "nat option"
  nextHeartbeatId :: nat
  pendingHeartbeat :: "(owner_epoch \<times> nat) option"
  routeStarted :: "(route_id \<times> route_timing) list"
  activationStarted :: "(owner_epoch \<times> int) list"
  pendingRecoveryResetEpochs :: "(owner_epoch \<times> reset_reason) list"
  nextRecoveryResetReason :: "reset_reason option"
  resetRequiredEpochs :: "owner_epoch set"
  timers :: "(nat \<times> timer_callback) list"
  microtasks :: nat
  probes :: "(nat \<times> lock_probe) list"
  watches :: "(nat \<times> js_string) list"
  nextHandle :: nat
  outputs :: "router_output list"

definition initial_router :: router where
  "initial_router =
     \<lparr> coreValue = None, hotCapacity = None, tabMap = [], portTabs = [], pendingRegistrations = [],
       engineRoute = None, activationTimer = None, heartbeatIntervalTimer = None,
       heartbeatTimeoutTimer = None, nextHeartbeatId = 1, pendingHeartbeat = None,
       routeStarted = [], activationStarted = [], pendingRecoveryResetEpochs = [],
       nextRecoveryResetReason = None, resetRequiredEpochs = {}, timers = [], microtasks = 0,
       probes = [], watches = [], nextHandle = 0, outputs = [] \<rparr>"

text \<open>
  What the host decides during one event: the clock, whether the engine transport can be created
  and whether a send fails (with the message of the error).
\<close>

record router_env =
  env_now :: int
  env_open :: "js_string option"
  env_send :: "coordinator_to_engine \<Rightarrow> js_string option"

section \<open>Operations that may throw\<close>

datatype completion = Done | Threw js_error | Out_Of_Fuel

type_synonym rop = "router \<Rightarrow> completion \<times> router"

fun seq :: "rop list \<Rightarrow> rop" where
  "seq [] r = (Done, r)"
| "seq (f # fs) r = (case f r of (Done, r') \<Rightarrow> seq fs r' | (x, r') \<Rightarrow> (x, r'))"

definition upd :: "(router \<Rightarrow> router) \<Rightarrow> rop" where
  "upd f r = (Done, f r)"

definition skip :: rop where
  "skip r = (Done, r)"

definition emit :: "router_output \<Rightarrow> router \<Rightarrow> router" where
  "emit out r = r\<lparr>outputs := outputs r @ [out]\<rparr>"

text \<open>A call of a core operation; the continuation takes the actions it returned.\<close>

definition call_core ::
  "(coordinator \<Rightarrow> (js_error + coordinator_action list) \<times> coordinator) \<Rightarrow>
     (coordinator_action list \<Rightarrow> rop) \<Rightarrow> rop" where
  "call_core f k r =
     (case coreValue r of
        None \<Rightarrow> (Done, r)
      | Some c \<Rightarrow>
          (case f c of
             (Inl err, c') \<Rightarrow> (Threw err, r\<lparr>coreValue := Some c'\<rparr>)
           | (Inr acts, c') \<Rightarrow> k acts (r\<lparr>coreValue := Some c'\<rparr>)))"

definition core_state :: "router \<Rightarrow> coordinator_state option" where
  "core_state r = map_option stateValue (coreValue r)"

section \<open>Telemetry\<close>

definition observe :: "event_name \<Rightarrow> operation_category \<Rightarrow> telemetry_outcome \<Rightarrow> observation" where
  "observe name cat out =
     \<lparr> ob_name = name, ob_category = cat, ob_outcome = Some out, ob_error = None, ob_reset = None,
       ob_owner = None, ob_open = None, ob_wipe_attempt = False, ob_duration = None,
       ob_count = None \<rparr>"

definition telemetry :: "observation \<Rightarrow> router \<Rightarrow> router" where
  "telemetry ob = emit (Telemetry ob)"

definition owner_observation :: "telemetry_outcome \<Rightarrow> owner_event option \<Rightarrow> observation" where
  "owner_observation out ev = (observe Owner_Event Cat_Lifecycle out)\<lparr>ob_owner := ev\<rparr>"

fun resetReasonForOpenOutcome :: "engine_open_outcome \<Rightarrow> reset_reason" where
  "resetReasonForOpenOutcome Reset_Incompatible = Namespace_Mismatch"
| "resetReasonForOpenOutcome Reset_Corrupt = Integrity_Failure"
| "resetReasonForOpenOutcome Reset_Storage_Uncertain = Reason_Storage_Reset_Required"
| "resetReasonForOpenOutcome _ = Reason_Unknown"

definition recordStorageResetRequired ::
  "owner_epoch \<Rightarrow> reset_reason \<Rightarrow> engine_open_outcome option \<Rightarrow> router \<Rightarrow> router" where
  "recordStorageResetRequired e why outcome r =
     (if e \<in> resetRequiredEpochs r then r
      else telemetry ((observe Storage_Reset_Required_Event Cat_Storage Out_Error)
             \<lparr>ob_error := Some (if why = Namespace_Mismatch then Code_Schema
                else if why = Integrity_Failure then Code_Integrity else Code_Storage_Reset),
              ob_reset := Some why, ob_open := outcome\<rparr>)
           (r\<lparr>resetRequiredEpochs := insert e (resetRequiredEpochs r)\<rparr>))"

definition recordLogicalResetAndWipe ::
  "reset_reason \<Rightarrow> engine_open_outcome \<Rightarrow> bool \<Rightarrow> router \<Rightarrow> router" where
  "recordLogicalResetAndWipe why outcome coordinatorWipe r =
     telemetry ((observe Reset_Wipe Cat_Storage Out_Success)
         \<lparr>ob_error := Some Code_None, ob_reset := Some why, ob_open := Some outcome,
          ob_wipe_attempt := coordinatorWipe\<rparr>)
       (telemetry ((observe Logical_Reset Cat_Storage Out_Success)
         \<lparr>ob_error := Some Code_None, ob_reset := Some why, ob_open := Some outcome\<rparr>) r)"

definition recordPendingResetFailure ::
  "owner_epoch \<Rightarrow> js_string \<Rightarrow> activation_failure_code option \<Rightarrow> router \<Rightarrow>
     reset_reason option \<times> router" where
  "recordPendingResetFailure e reason failureCode r =
     (case map_of (pendingRecoveryResetEpochs r) e of
        None \<Rightarrow> (None, r)
      | Some why \<Rightarrow>
          (Some why,
           telemetry ((observe Reset_Wipe Cat_Storage Out_Error)
               \<lparr>ob_error := Some (if failureCode = Some Recovery_Open_Failed then Code_Storage_Reset
                  else classifyCacheError (Some reason)),
                ob_reset := Some why, ob_wipe_attempt := True\<rparr>)
             (r\<lparr>pendingRecoveryResetEpochs := AList.delete e (pendingRecoveryResetEpochs r)\<rparr>)))"

definition lost_observation :: "router_env \<Rightarrow> route_timing \<Rightarrow> observation" where
  "lost_observation env timing =
     (observe Coordinator_Request (rt_category timing) Out_Error)
       \<lparr>ob_error := Some Code_Owner_Lost, ob_duration := Some (env_now env - rt_startedAt timing)\<rparr>"

text \<open>The loop that closes the timings of an epoch, in insertion order.\<close>

definition closeTimings :: "router_env \<Rightarrow> owner_epoch \<Rightarrow> router \<Rightarrow> router" where
  "closeTimings env e r =
     r\<lparr>routeStarted := filter (\<lambda>p. rt_ownerEpoch (snd p) \<noteq> e) (routeStarted r),
       outputs := outputs r @
         List.map (\<lambda>p. Telemetry (lost_observation env (snd p)))
           (filter (\<lambda>p. rt_ownerEpoch (snd p) = e) (routeStarted r))\<rparr>"

section \<open>Ports and timers\<close>

definition postToPort :: "nat \<Rightarrow> coordinator_to_tab \<Rightarrow> router \<Rightarrow> router" where
  "postToPort port message = emit (Post_Port port message)"

definition postToTab :: "js_string \<Rightarrow> coordinator_to_tab \<Rightarrow> router \<Rightarrow> router" where
  "postToTab t message r =
     (case map_of (tabMap r) t of None \<Rightarrow> r | Some conn \<Rightarrow> postToPort (tc_port conn) message r)"

definition broadcast :: "coordinator_to_tab \<Rightarrow> router \<Rightarrow> router" where
  "broadcast message r =
     r\<lparr>outputs := outputs r @ List.map (\<lambda>p. Post_Port (tc_port (snd p)) message) (tabMap r)\<rparr>"

definition postProtocolError :: "nat option \<Rightarrow> js_string \<Rightarrow> router \<Rightarrow> router" where
  "postProtocolError port err r =
     (case port of None \<Rightarrow> r | Some p \<Rightarrow> postToPort p (Protocol_Error err) r)"

definition closePort :: "nat \<Rightarrow> router \<Rightarrow> router" where
  "closePort port = emit (Close_Port port)"

definition postTerminateEngine :: "js_string \<Rightarrow> owner_epoch \<Rightarrow> js_string \<Rightarrow> router \<Rightarrow> router" where
  "postTerminateEngine t e reason = postToTab t (Terminate_Engine t e reason)"

definition postCacheResponse :: "js_string \<Rightarrow> jsval \<Rightarrow> router \<Rightarrow> router" where
  "postCacheResponse t response = postToTab t (Cache_Message response)"

definition removeTabConnection :: "js_string \<Rightarrow> router \<Rightarrow> router" where
  "removeTabConnection t r =
     (case map_of (tabMap r) t of
        None \<Rightarrow> r
      | Some conn \<Rightarrow>
          closePort (tc_port conn)
            (r\<lparr>tabMap := AList.delete t (tabMap r),
              portTabs := AList.delete (tc_port conn) (portTabs r),
              watches := AList.delete (tc_watch conn) (watches r)\<rparr>))"

definition set_timer :: "timer_callback \<Rightarrow> router \<Rightarrow> nat \<times> router" where
  "set_timer cb r =
     (nextHandle r, r\<lparr>timers := timers r @ [(nextHandle r, cb)], nextHandle := nextHandle r + 1\<rparr>)"

definition clear_timer :: "nat option \<Rightarrow> router \<Rightarrow> router" where
  "clear_timer h r =
     (case h of None \<Rightarrow> r | Some i \<Rightarrow> r\<lparr>timers := AList.delete i (timers r)\<rparr>)"

definition clearActivationTimer :: "router \<Rightarrow> router" where
  "clearActivationTimer r = (clear_timer (activationTimer r) r)\<lparr>activationTimer := None\<rparr>"

definition clearHeartbeatTimers :: "router \<Rightarrow> router" where
  "clearHeartbeatTimers r =
     (let r1 = (clear_timer (heartbeatIntervalTimer r) r)\<lparr>heartbeatIntervalTimer := None\<rparr>;
          r2 = (clear_timer (heartbeatTimeoutTimer r1) r1)\<lparr>heartbeatTimeoutTimer := None\<rparr>
      in r2\<lparr>pendingHeartbeat := None\<rparr>)"

definition clearEngineWatchdogs :: "router \<Rightarrow> router" where
  "clearEngineWatchdogs r = clearHeartbeatTimers (clearActivationTimer r)"

definition scheduleHeartbeat :: "owner_epoch \<Rightarrow> router \<Rightarrow> router" where
  "scheduleHeartbeat e r =
     (let (h, r1) = set_timer (Heartbeat_Interval e) (clearHeartbeatTimers r)
      in r1\<lparr>heartbeatIntervalTimer := Some h\<rparr>)"

definition acceptHeartbeat :: "owner_epoch \<Rightarrow> nat \<Rightarrow> router \<Rightarrow> router" where
  "acceptHeartbeat e heartbeatId r =
     (if pendingHeartbeat r \<noteq> Some (e, heartbeatId) then r
      else let r1 = (clear_timer (heartbeatTimeoutTimer r) r)\<lparr>heartbeatTimeoutTimer := None\<rparr>
        in scheduleHeartbeat e (r1\<lparr>pendingHeartbeat := None\<rparr>))"

section \<open>Applying the actions of the core\<close>

text \<open>
  \<open>applyActions\<close>, \<open>sendToEngine\<close> and \<open>failOwner\<close> call each other. \<open>apply_actions\<close> takes the
  \<open>failOwner\<close> that its actions call; \<open>fail_owner\<close> closes the recursion with fuel for the nesting
  of losses (one level is enough, see Coord_Router_Laws).
\<close>

type_synonym fail_op = "js_string \<Rightarrow> owner_epoch \<Rightarrow> js_string \<Rightarrow> rop"

text \<open>\<open>sendToEngine\<close>; the source's result is whether the continuation runs.\<close>

definition sendToEngine ::
  "router_env \<Rightarrow> fail_op \<Rightarrow> engine_route \<Rightarrow> coordinator_to_engine \<Rightarrow> rop \<Rightarrow> rop" where
  "sendToEngine env fo ro message sent r =
     (case env_send env message of
        None \<Rightarrow> sent (emit (Send_Engine (ro_transport ro) message) r)
      | Some err \<Rightarrow>
          fo (ro_tabId ro) (ro_ownerEpoch ro)
            (js ''engine Effect transport send failed: '' @ err) r)"

definition scope_of :: "router \<Rightarrow> js_string" where
  "scope_of r = (case coreValue r of None \<Rightarrow> [] | Some c \<Rightarrow> scope c)"

definition electOwner :: "router_env \<Rightarrow> js_string \<Rightarrow> owner_epoch \<Rightarrow> database_action \<Rightarrow> router \<Rightarrow> router" where
  "electOwner env t e a r =
     (let r1 = clearEngineWatchdogs r;
          r2 = r1\<lparr>activationStarted := AList.update e (env_now env) (activationStarted r1)\<rparr>;
          r3 = telemetry (owner_observation Out_Success (Some Elected)) r2;
          r4 = (if a = Wipe_Before_Open then
                  r3\<lparr>pendingRecoveryResetEpochs := AList.update e
                       (case nextRecoveryResetReason r3 of Some why \<Rightarrow> why | None \<Rightarrow> Abrupt_Owner_Loss)
                       (pendingRecoveryResetEpochs r3),
                     nextRecoveryResetReason := None\<rparr>
                else r3);
          r5 = postToTab t (Become_Owner (scope_of r4) t e a (databaseOwnerLockName (scope_of r4))
                 (hotCapacity r4)) r4;
          (h, r6) = set_timer (Activation_Watchdog t e) r5
      in r6\<lparr>activationTimer := Some h\<rparr>)"

definition closeEngineRoute :: "js_string \<Rightarrow> owner_epoch \<Rightarrow> router \<Rightarrow> router" where
  "closeEngineRoute t e r =
     (let r1 = clearEngineWatchdogs r in
      (case engineRoute r1 of
         None \<Rightarrow> r1
       | Some ro \<Rightarrow>
           if ro_tabId ro = t \<and> ro_ownerEpoch ro = e then
             emit (Close_Transport (ro_transport ro)) (r1\<lparr>engineRoute := None\<rparr>)
           else r1))"

definition violation_owner_event :: "js_string \<Rightarrow> owner_event option" where
  "violation_owner_event err =
     (if str_includes err (js ''already owns'') \<or> str_includes err (js ''multiple owner'') then
        Some Multiple_Owner_Detected
      else None)"

definition rejection :: "int \<Rightarrow> js_string \<Rightarrow> cache_response_error_code option \<Rightarrow> jsval" where
  "rejection requestId err code =
     JObj ([(js ''id'', JInt requestId), (js ''ok'', JBool False), (js ''error'', JStr err)] @
       (case code of None \<Rightarrow> [] | Some c \<Rightarrow> [(js ''errorCode'', error_code_val c)]))"

fun apply_action :: "router_env \<Rightarrow> fail_op \<Rightarrow> coordinator_action \<Rightarrow> rop" where
  "apply_action env fo (Elect_Owner t e a) r = (Done, electOwner env t e a r)"
| "apply_action env fo (Route_Request ownerTab requester e routeId req) r =
     (let r1 = r\<lparr>routeStarted := AList.update routeId
            \<lparr> rt_startedAt = env_now env, rt_ownerEpoch = e,
              rt_category = operationCategoryForRequest req \<rparr> (routeStarted r)\<rparr> in
      (case engineRoute r1 of
         Some ro \<Rightarrow>
           if ro_tabId ro = ownerTab \<and> ro_ownerEpoch ro = e then
             sendToEngine env fo ro (Engine_Request e routeId req) skip r1
           else fo ownerTab e (js ''direct engine MessagePort is missing'') r1
       | None \<Rightarrow> fo ownerTab e (js ''direct engine MessagePort is missing'') r1))"
| "apply_action env fo (Deliver_Response t response) r = (Done, postCacheResponse t response r)"
| "apply_action env fo (Broadcast_Push push) r = (Done, broadcast (Cache_Message push) r)"
| "apply_action env fo (Reject_Request t requestId err code) r =
     (Done, postCacheResponse t (rejection requestId err code) r)"
| "apply_action env fo (Drain_Owner t e) r =
     (let r1 = clearHeartbeatTimers
            (telemetry (owner_observation Out_Graceful (Some Graceful_Drain_Started)) r) in
      (case engineRoute r1 of
         Some ro \<Rightarrow>
           if ro_tabId ro = t \<and> ro_ownerEpoch ro = e then
             sendToEngine env fo ro (Drain_Engine e) skip r1
           else fo t e (js ''direct engine MessagePort disappeared before drain'') r1
       | None \<Rightarrow> fo t e (js ''direct engine MessagePort disappeared before drain'') r1))"
| "apply_action env fo (Close_Engine_Route t e) r = (Done, closeEngineRoute t e r)"
| "apply_action env fo (Drop_Tab t) r = (Done, removeTabConnection t r)"
| "apply_action env fo (Retire_Tab t e) r =
     (Done, removeTabConnection t (postToTab t (Retire_Complete t e) r))"
| "apply_action env fo Schedule_Reset_Activation r = (Done, r\<lparr>microtasks := microtasks r + 1\<rparr>)"
| "apply_action env fo (Broadcast_Engine_Replaced e) r =
     (Done, broadcast (Engine_Replaced e)
        (telemetry (owner_observation Out_Success (Some Replacement)) r))"
| "apply_action env fo (Drop_Stale_Engine_Message e routeId why) r =
     (Done, telemetry ((observe Stale_Drop Cat_Lifecycle Out_Success)
        \<lparr>ob_error := Some Code_Owner_Lost, ob_count := Some 1\<rparr>) r)"
| "apply_action env fo (Protocol_Violation err) r =
     (Done, broadcast (Protocol_Error err)
        (telemetry ((owner_observation Out_Error (violation_owner_event err))
           \<lparr>ob_error := Some Code_Protocol\<rparr>) r))"

definition apply_actions :: "router_env \<Rightarrow> fail_op \<Rightarrow> coordinator_action list \<Rightarrow> rop" where
  "apply_actions env fo acts r =
     (case coreValue r of
        None \<Rightarrow> (Done, r)
      | Some _ \<Rightarrow> seq (List.map (apply_action env fo) acts) r)"

text \<open>What \<open>failOwner\<close> does between the core's transition and the application of its actions.\<close>

definition recordOwnerLoss ::
  "router_env \<Rightarrow> js_string \<Rightarrow> owner_epoch \<Rightarrow> js_string \<Rightarrow> engine_fatal_code option \<Rightarrow>
     activation_failure_code option \<Rightarrow> router \<Rightarrow> router" where
  "recordOwnerLoss env t e reason fatalCode failureCode r =
     (let r1 = r\<lparr>activationStarted := AList.delete e (activationStarted r)\<rparr>;
          (pendingReason, r2) = recordPendingResetFailure e reason failureCode r1;
          resetReason = (case pendingReason of
             Some why \<Rightarrow> why
           | None \<Rightarrow> if fatalCode = Some Storage_Reset_Required then Reason_Storage_Reset_Required
                     else Abrupt_Owner_Loss);
          r3 = r2\<lparr>nextRecoveryResetReason := Some resetReason\<rparr>;
          r4 = (if pendingReason = None then recordStorageResetRequired e resetReason None r3 else r3);
          r5 = telemetry ((owner_observation Out_Abrupt (Some Abrupt_Loss))
                 \<lparr>ob_error := Some (if fatalCode = Some Storage_Reset_Required then Code_Storage_Reset
                    else classifyCacheError (Some reason))\<rparr>) r4;
          r6 = closeTimings env e r5
      in clearEngineWatchdogs (postTerminateEngine t e reason r6))"

fun fail_owner ::
  "nat \<Rightarrow> router_env \<Rightarrow> js_string \<Rightarrow> owner_epoch \<Rightarrow> js_string \<Rightarrow> engine_fatal_code option \<Rightarrow>
     activation_failure_code option \<Rightarrow> rop" where
  "fail_owner 0 env t e reason fatalCode failureCode r = (Out_Of_Fuel, r)"
| "fail_owner (Suc n) env t e reason fatalCode failureCode r =
     call_core (ownerLost t e reason)
       (\<lambda>acts. if acts = [] then skip
          else seq [upd (recordOwnerLoss env t e reason fatalCode failureCode),
                    apply_actions env (\<lambda>t e reason. fail_owner n env t e reason None None) acts]) r"

definition failOwner ::
  "router_env \<Rightarrow> js_string \<Rightarrow> owner_epoch \<Rightarrow> js_string \<Rightarrow> engine_fatal_code option \<Rightarrow>
     activation_failure_code option \<Rightarrow> rop" where
  "failOwner = fail_owner 2"

definition plainFail :: "router_env \<Rightarrow> fail_op" where
  "plainFail env t e reason = failOwner env t e reason None None"

definition applyActions :: "router_env \<Rightarrow> coordinator_action list \<Rightarrow> rop" where
  "applyActions env = apply_actions env (plainFail env)"

section \<open>Departures and losses\<close>

definition isCurrentOwner :: "js_string \<Rightarrow> owner_epoch \<Rightarrow> router \<Rightarrow> bool" where
  "isCurrentOwner t e r \<longleftrightarrow>
     (case core_state r of None \<Rightarrow> False | Some s \<Rightarrow> owner_of s = Some (t, e))"

definition recordNavigation ::
  "router_env \<Rightarrow> coordinator_state \<Rightarrow> owner_epoch \<Rightarrow> router \<Rightarrow> router" where
  "recordNavigation env s e r =
     (let r1 = r\<lparr>activationStarted := AList.delete e (activationStarted r)\<rparr>;
          interrupted = (case s of
             Activating _ _ a \<Rightarrow>
               if a = Wipe_Before_Open then map_of (pendingRecoveryResetEpochs r1) e else None
           | _ \<Rightarrow> None);
          r2 = (case interrupted of
             None \<Rightarrow> r1
           | Some why \<Rightarrow> r1\<lparr>pendingRecoveryResetEpochs := AList.delete e (pendingRecoveryResetEpochs r1),
               nextRecoveryResetReason := Some why\<rparr>);
          r3 = telemetry (owner_observation Out_Graceful (Some Navigation_Departed)) r2
      in clearEngineWatchdogs (closeTimings env e r3))"

definition departForNavigation_r ::
  "router_env \<Rightarrow> js_string \<Rightarrow> owner_epoch \<Rightarrow> js_string \<Rightarrow> rop" where
  "departForNavigation_r env t e reason r =
     (case core_state r of
        None \<Rightarrow> (Done, r)
      | Some s \<Rightarrow>
          call_core (departForNavigation t e reason)
            (\<lambda>acts. if owner_of s \<noteq> Some (t, e) then applyActions env acts
               else seq [upd (recordNavigation env s e), applyActions env acts]) r)"

definition loseTab :: "router_env \<Rightarrow> js_string \<Rightarrow> js_string \<Rightarrow> rop" where
  "loseTab env t reason r =
     (case core_state r of
        None \<Rightarrow> (Done, r)
      | Some s \<Rightarrow>
          (let r1 = (case owner_of s of
                 Some (t', e) \<Rightarrow>
                   if t' = t then recordOwnerLoss env t e reason None None r else r
               | None \<Rightarrow> r)
           in call_core (tabLost t reason) (applyActions env) r1))"

section \<open>Engine messages\<close>

fun ec_tab :: "engine_to_coordinator \<Rightarrow> js_string option" where
  "ec_tab (Engine_Ready t _ _ _ _) = Some t"
| "ec_tab (Engine_Drained t _) = Some t"
| "ec_tab (Engine_Fatal t _ _ _) = Some t"
| "ec_tab (Activation_Failed t _ _ _) = Some t"
| "ec_tab _ = None"

fun is_violation :: "coordinator_action \<Rightarrow> bool" where
  "is_violation (Protocol_Violation _) = True"
| "is_violation _ = False"

fun is_reset_outcome :: "engine_open_outcome \<Rightarrow> bool" where
  "is_reset_outcome Opened_Existing = False"
| "is_reset_outcome Opened_New = False"
| "is_reset_outcome _ = True"

definition to_ready ::
  "js_string \<Rightarrow> owner_epoch \<Rightarrow> js_string \<Rightarrow> database_action_proof \<Rightarrow> engine_open_outcome \<Rightarrow>
     js_string \<Rightarrow> engine_ready" where
  "to_ready t e lock proof outcome expected =
     \<lparr> er_tabId = t, er_ownerEpoch = e, er_ownerLockName = lock, er_expectedOwnerLockName = expected,
       er_ownerLockHeld = True, er_databaseActionProof = proof, er_openOutcome = outcome \<rparr>"

text \<open>The end of the \<open>engine-ready\<close> case when the core became active with this epoch.\<close>

definition engineActivated :: "router_env \<Rightarrow> owner_epoch \<Rightarrow> engine_open_outcome \<Rightarrow> router \<Rightarrow> router" where
  "engineActivated env e outcome r =
     (let r1 = (case map_of (pendingRecoveryResetEpochs r) e of
            Some why \<Rightarrow>
              recordLogicalResetAndWipe why outcome True
                (r\<lparr>pendingRecoveryResetEpochs := AList.delete e (pendingRecoveryResetEpochs r)\<rparr>)
          | None \<Rightarrow>
              if is_reset_outcome outcome then
                recordLogicalResetAndWipe (resetReasonForOpenOutcome outcome) outcome False
                  (recordStorageResetRequired e (resetReasonForOpenOutcome outcome) (Some outcome) r)
              else r);
          startedAt = map_of (activationStarted r1) e;
          r2 = r1\<lparr>activationStarted := AList.delete e (activationStarted r1)\<rparr>;
          r3 = telemetry ((owner_observation Out_Success (Some Activated))
                 \<lparr>ob_duration := map_option (\<lambda>s. env_now env - s) startedAt\<rparr>) r2
      in scheduleHeartbeat e (clearActivationTimer r3))"

definition afterReady ::
  "router_env \<Rightarrow> engine_route \<Rightarrow> owner_epoch \<Rightarrow> engine_open_outcome \<Rightarrow> bool \<Rightarrow> rop" where
  "afterReady env ro e outcome violated r =
     (if violated then
        (if isCurrentOwner (ro_tabId ro) (ro_ownerEpoch ro) r then
           failOwner env (ro_tabId ro) (ro_ownerEpoch ro)
             (js ''engine readiness proof was rejected'') None None r
         else (Done, postTerminateEngine (ro_tabId ro) (ro_ownerEpoch ro)
             (js ''engine readiness proof was rejected'') r))
      else (case core_state r of
          Some (Active t e') \<Rightarrow>
            if e' = e then (Done, engineActivated env e outcome r) else (Done, r)
        | _ \<Rightarrow> (Done, r)))"

text \<open>\<open>response.ok\<close> of a validated response.\<close>

definition response_ok :: "jsval \<Rightarrow> bool" where
  "response_ok response \<longleftrightarrow> getp response ''ok'' = JBool True"

definition finishTiming :: "router_env \<Rightarrow> route_id \<Rightarrow> jsval \<Rightarrow> router \<Rightarrow> router" where
  "finishTiming env n response r =
     (let r1 = r\<lparr>routeStarted := AList.delete n (routeStarted r)\<rparr> in
      (case map_of (routeStarted r) n of
         None \<Rightarrow> r1
       | Some timing \<Rightarrow>
           telemetry ((observe Coordinator_Request (rt_category timing)
               (if response_ok response then Out_Success else Out_Error))
             \<lparr>ob_error := Some (if response_ok response then Code_None
                else classifyCacheError (Some (the_str (getp response ''error'')))),
              ob_duration := Some (env_now env - rt_startedAt timing)\<rparr>) r1))"

fun dispatchEngine :: "router_env \<Rightarrow> engine_route \<Rightarrow> engine_to_coordinator \<Rightarrow> rop" where
  "dispatchEngine env ro (Engine_Ready t e lock proof outcome) r =
     call_core (engineReady (to_ready t e lock proof outcome (databaseOwnerLockName (scope_of r))))
       (\<lambda>acts. seq [applyActions env acts, afterReady env ro e outcome (list_ex is_violation acts)]) r"
| "dispatchEngine env ro (Engine_Response e n response) r =
     call_core (engineResponse e n response) (applyActions env) (finishTiming env n response r)"
| "dispatchEngine env ro (Engine_Push e push) r = call_core (enginePush e push) (applyActions env) r"
| "dispatchEngine env ro (Engine_Drained t e) r =
     call_core (engineDrained t e)
       (\<lambda>acts. if list_ex is_violation acts then
            seq [applyActions env acts,
                 failOwner env (ro_tabId ro) (ro_ownerEpoch ro)
                   (js ''unexpected engine-drained from current direct route'') None None]
          else seq [upd (telemetry (owner_observation Out_Graceful (Some Graceful_Drain_Completed))),
                    applyActions env acts]) r"
| "dispatchEngine env ro (Engine_Fatal t e reason code) r =
     failOwner env t e reason (Some code) None r"
| "dispatchEngine env ro (Activation_Failed t e reason code) r =
     failOwner env t e reason None (Some code) r"
| "dispatchEngine env ro (Heartbeat_Ack e heartbeatId) r = (Done, acceptHeartbeat e heartbeatId r)"

definition handleEngineMessage :: "router_env \<Rightarrow> engine_route \<Rightarrow> jsval \<Rightarrow> rop" where
  "handleEngineMessage env ro rawMessage r =
     (case validateEngineToCoordinatorEnvelope rawMessage of
        Inl err \<Rightarrow>
          failOwner env (ro_tabId ro) (ro_ownerEpoch ro)
            (js ''invalid engine envelope: '' @ err) None None r
      | Inr message \<Rightarrow>
          if coreValue r = None then (Done, r)
          else if ec_epoch message \<noteq> ro_ownerEpoch ro \<or>
            (case ec_tab message of None \<Rightarrow> False | Some t \<Rightarrow> t \<noteq> ro_tabId ro) then
            failOwner env (ro_tabId ro) (ro_ownerEpoch ro)
              (js ''engine envelope owner tuple does not match its direct route'') None None r
          else dispatchEngine env ro message r)"

section \<open>Page messages\<close>

definition expects :: "js_string \<Rightarrow> owner_epoch \<Rightarrow> router \<Rightarrow> bool" where
  "expects t e r \<longleftrightarrow> (case coreValue r of None \<Rightarrow> False | Some c \<Rightarrow> expectsEngine t e c)"

definition portOfTab :: "js_string \<Rightarrow> router \<Rightarrow> nat option" where
  "portOfTab t r = map_option tc_port (map_of (tabMap r) t)"

definition attachEnginePort :: "router_env \<Rightarrow> js_string \<Rightarrow> owner_epoch \<Rightarrow> jsval \<Rightarrow> rop" where
  "attachEnginePort env t e port r =
     (if \<not> expects t e r \<or> engineRoute r \<noteq> None then
        (let r1 = emit (Close_Endpoint port) r in
         if expects t e r then
           failOwner env t e (js ''invalid direct engine attachment'') None None r1
         else (Done, postProtocolError (portOfTab t r1)
                 (js ''stale engine port for epoch '' @ js_nat e) r1))
      else (case env_open env of
          Some err \<Rightarrow>
            failOwner env t e (js ''engine Effect transport failed: '' @ err) None None
              (emit (Close_Endpoint port) r)
        | None \<Rightarrow>
            (Done, r\<lparr>engineRoute := Some \<lparr> ro_tabId = t, ro_ownerEpoch = e, ro_transport = nextHandle r \<rparr>,
              nextHandle := nextHandle r + 1\<rparr>)))"

definition refuse :: "nat \<Rightarrow> string \<Rightarrow> router \<Rightarrow> router" where
  "refuse port err r = closePort port (postProtocolError (Some port) (js err) r)"

text \<open>\<open>register\<close> up to its \<open>await\<close>.\<close>

definition register ::
  "nat \<Rightarrow> js_string \<Rightarrow> js_string \<Rightarrow> js_string \<Rightarrow> nat option \<Rightarrow> router \<Rightarrow> router" where
  "register port sc t lock hot r =
     (if port \<in> fst ` set (portTabs r) \<or> port \<in> fst ` set (pendingRegistrations r) then
        postProtocolError (Some port) (js ''MessagePort already registered'') r
      else if t \<in> fst ` set (tabMap r) then refuse port ''tab id is already registered'' r
      else if lock \<noteq> tabLivenessLockName sc t then
        refuse port ''tab registered without the expected liveness-lock name'' r
      else if (case coreValue r of None \<Rightarrow> False | Some c \<Rightarrow> scope c \<noteq> sc) then
        refuse port ''coordinator scope mismatch'' r
      else if coreValue r \<noteq> None \<and> hotCapacity r \<noteq> hot then
        refuse port ''coordinator hot-capacity mismatch'' r
      else
        r\<lparr>pendingRegistrations := AList.update port (nextHandle r) (pendingRegistrations r),
          probes := probes r @ [(nextHandle r,
            \<lparr> lp_port = port, lp_scope = sc, lp_tabId = t, lp_lockName = lock, lp_hotCapacity = hot,
              lp_cancelled = False \<rparr>)],
          nextHandle := nextHandle r + 1\<rparr>)"

datatype probe_outcome = Lock_Held | Lock_Not_Held | Probe_Failed

definition connectTab :: "lock_probe \<Rightarrow> router \<Rightarrow> router" where
  "connectTab probe r =
     (let w = nextHandle r;
          r1 = r\<lparr>watches := watches r @ [(w, lp_tabId probe)], nextHandle := w + 1,
                 tabMap := AList.update (lp_tabId probe) \<lparr> tc_port = lp_port probe, tc_watch = w \<rparr> (tabMap r),
                 portTabs := AList.update (lp_port probe) (lp_tabId probe) (portTabs r)\<rparr>
      in postToTab (lp_tabId probe) (Registered (lp_tabId probe)) r1)"

definition ensureCore :: "lock_probe \<Rightarrow> rop" where
  "ensureCore probe r =
     (case coreValue r of
        Some _ \<Rightarrow> (Done, r)
      | None \<Rightarrow> (case new_core (lp_scope probe) of
          Inl err \<Rightarrow> (Threw err, r)
        | Inr c \<Rightarrow> (Done, r\<lparr>coreValue := Some c, hotCapacity := lp_hotCapacity probe\<rparr>)))"

text \<open>\<open>register\<close> from its \<open>await\<close> on, when the lock probe \<open>h\<close> settles.\<close>

definition registerProbed :: "router_env \<Rightarrow> nat \<Rightarrow> probe_outcome \<Rightarrow> rop" where
  "registerProbed env h outcome r0 =
     (case map_of (probes r0) h of
        None \<Rightarrow> (Done, r0)
      | Some probe \<Rightarrow>
          (let r = r0\<lparr>probes := AList.delete h (probes r0)\<rparr>; port = lp_port probe;
               r1 = r\<lparr>pendingRegistrations := AList.delete port (pendingRegistrations r)\<rparr> in
           if lp_cancelled probe \<or> map_of (pendingRegistrations r) port \<noteq> Some h then (Done, r)
           else if outcome = Probe_Failed then
             (Done, refuse port ''tab liveness-lock verification failed'' r1)
           else if outcome = Lock_Not_Held then
             (Done, refuse port ''tab registration requires an already-held liveness lock'' r1)
           else if port \<in> fst ` set (portTabs r1) \<or> lp_tabId probe \<in> fst ` set (tabMap r1) then
             (Done, refuse port ''tab registration raced another port'' r1)
           else if (case coreValue r1 of None \<Rightarrow> False
               | Some c \<Rightarrow> scope c \<noteq> lp_scope probe \<or> hotCapacity r1 \<noteq> lp_hotCapacity probe) then
             (Done, refuse port ''coordinator registration raced a mismatch'' r1)
           else seq [ensureCore probe, upd (connectTab probe),
                     call_core (registerTab (lp_tabId probe)) (applyActions env)] r1))"

fun dispatchTab :: "router_env \<Rightarrow> js_string \<Rightarrow> tab_to_coordinator \<Rightarrow> rop" where
  "dispatchTab env t (Cache_Request _ req) = call_core (request t req) (applyActions env)"
| "dispatchTab env t (Attach_Engine_Port _ e port) = attachEnginePort env t e port"
| "dispatchTab env t (Graceful_Departure _ e) =
     call_core (beginGracefulDeparture t e) (applyActions env)"
| "dispatchTab env t (Navigation_Departure _ e reason) = departForNavigation_r env t e reason"
| "dispatchTab env t (Engine_Lost _ e reason) = failOwner env t e reason None None"
| "dispatchTab env t (Disconnect_Tab _ reason) = loseTab env t reason"
| "dispatchTab env t (Register_Tab _ _ _ _) = skip"

definition handleTabMessage :: "router_env \<Rightarrow> nat \<Rightarrow> jsval \<Rightarrow> nat list \<Rightarrow> rop" where
  "handleTabMessage env port rawMessage transferredPorts r =
     (case validateTabToCoordinatorEnvelope rawMessage of
        Inl err \<Rightarrow> (Done, postProtocolError (Some port) err r)
      | Inr message \<Rightarrow>
          if transferredPorts \<noteq> [] then
            (Done, postProtocolError (Some port)
               (js ''coordinator envelope transferred unexpected event ports'')
               (fold closePort transferredPorts r))
          else (case message of
            Register_Tab sc t lock hot \<Rightarrow> (Done, register port sc t lock hot r)
          | _ \<Rightarrow>
            (case map_of (portTabs r) port of
               None \<Rightarrow>
                 (Done, postProtocolError (Some port) (js ''message arrived before tab registration'') r)
             | Some t \<Rightarrow>
                 if t = [] then
                   (Done, postProtocolError (Some port) (js ''message arrived before tab registration'') r)
                 else if tc_tab message \<noteq> t then
                   (Done, postProtocolError (Some port)
                      (js ''message tab id does not match the registered port'') r)
                 else if coreValue r = None then
                   (Done, postProtocolError (Some port) (js ''coordinator is not initialized'') r)
                 else dispatchTab env t message r)))"

definition cancelProbe :: "nat \<Rightarrow> (nat \<times> lock_probe) list \<Rightarrow> (nat \<times> lock_probe) list" where
  "cancelProbe h ps = List.map (\<lambda>(k, p). (k, if k = h then p\<lparr>lp_cancelled := True\<rparr> else p)) ps"

definition handleTabMessageError :: "router_env \<Rightarrow> nat \<Rightarrow> rop" where
  "handleTabMessageError env port r =
     (case map_of (portTabs r) port of
        Some t \<Rightarrow> if t \<noteq> [] then loseTab env t (js ''tab MessagePort messageerror'') r
                  else (Done, closePort port r)
      | None \<Rightarrow>
          (case map_of (pendingRegistrations r) port of
             None \<Rightarrow> (Done, closePort port r)
           | Some h \<Rightarrow>
               (Done, closePort port
                  (r\<lparr>probes := cancelProbe h (probes r),
                    pendingRegistrations := AList.delete port (pendingRegistrations r)\<rparr>))))"

section \<open>Timers, microtasks and watches\<close>

definition heartbeatInterval :: "router_env \<Rightarrow> owner_epoch \<Rightarrow> rop" where
  "heartbeatInterval env e r =
     (case (engineRoute r, core_state r) of
        (Some ro, Some (Active t e')) \<Rightarrow>
          if e' \<noteq> e then (Done, r)
          else
            (let heartbeatId = nextHeartbeatId r;
                 r1 = r\<lparr>nextHeartbeatId := heartbeatId + 1, pendingHeartbeat := Some (e, heartbeatId)\<rparr> in
             sendToEngine env (plainFail env) ro (Heartbeat e heartbeatId)
               (upd (\<lambda>r. let (h, r2) = set_timer (Heartbeat_Timeout (ro_tabId ro) e heartbeatId) r
                          in r2\<lparr>heartbeatTimeoutTimer := Some h\<rparr>)) r1)
      | _ \<Rightarrow> (Done, r))"

fun fireTimer :: "router_env \<Rightarrow> timer_callback \<Rightarrow> rop" where
  "fireTimer env (Activation_Watchdog t e) r =
     failOwner env t e (js ''engine activation watchdog timed out'') None None r"
| "fireTimer env (Heartbeat_Interval e) r = heartbeatInterval env e r"
| "fireTimer env (Heartbeat_Timeout t e heartbeatId) r =
     (if pendingHeartbeat r = Some (e, heartbeatId) then
        failOwner env t e (js ''engine heartbeat watchdog timed out'') None None r
      else (Done, r))"

definition timerFired :: "router_env \<Rightarrow> nat \<Rightarrow> rop" where
  "timerFired env h r =
     (case map_of (timers r) h of
        None \<Rightarrow> (Done, r)
      | Some cb \<Rightarrow> fireTimer env cb (r\<lparr>timers := AList.delete h (timers r)\<rparr>))"

definition runMicrotask :: "router_env \<Rightarrow> rop" where
  "runMicrotask env r =
     (case microtasks r of
        0 \<Rightarrow> (Done, r)
      | Suc n \<Rightarrow> call_core resumeAfterLoss (applyActions env) (r\<lparr>microtasks := n\<rparr>))"

definition livenessReleased :: "router_env \<Rightarrow> nat \<Rightarrow> rop" where
  "livenessReleased env w r =
     (case map_of (watches r) w of
        None \<Rightarrow> (Done, r)
      | Some t \<Rightarrow>
          (let r1 = r\<lparr>watches := AList.delete w (watches r)\<rparr> in
           case map_of (tabMap r1) t of
             None \<Rightarrow> (Done, r1)
           | Some conn \<Rightarrow>
               if tc_watch conn = w then loseTab env t (js ''tab liveness lock was released'') r1
               else (Done, r1)))"

section \<open>The router as a machine\<close>

datatype router_event =
    Tab_Message nat jsval "nat list"
  | Tab_Message_Error nat
  | Probe_Settled nat probe_outcome
  | Watch_Released nat
  | Engine_Message nat jsval
  | Engine_Transport_Error nat js_string
  | Timer_Fired nat
  | Microtask_Run

text \<open>Messages and errors of a transport that is no longer the engine route are ignored.\<close>

definition viaRoute :: "nat \<Rightarrow> (engine_route \<Rightarrow> rop) \<Rightarrow> rop" where
  "viaRoute h f r =
     (case engineRoute r of
        None \<Rightarrow> (Done, r)
      | Some ro \<Rightarrow> if ro_transport ro = h then f ro r else (Done, r))"

fun router_step :: "router_env \<times> router_event \<Rightarrow> rop" where
  "router_step (env, Tab_Message port raw ports) = handleTabMessage env port raw ports"
| "router_step (env, Tab_Message_Error port) = handleTabMessageError env port"
| "router_step (env, Probe_Settled h outcome) = registerProbed env h outcome"
| "router_step (env, Watch_Released w) = livenessReleased env w"
| "router_step (env, Engine_Message h raw) =
     viaRoute h (\<lambda>ro. handleEngineMessage env ro raw)"
| "router_step (env, Engine_Transport_Error h err) =
     viaRoute h (\<lambda>ro. failOwner env (ro_tabId ro) (ro_ownerEpoch ro)
       (js ''engine Effect transport failed: '' @ err) None None)"
| "router_step (env, Timer_Fired h) = timerFired env h"
| "router_step (env, Microtask_Run) = runMicrotask env"

end
