(* ===== verification/Coord_Codec.thy ===== *)
theory Coord_Codec
  imports Coord_Protocol
begin

text \<open>
  Wire forms of the typed messages and the contract between the code that posts them and the
  validators that receive them: a well-formed message that is posted is received as it was, and
  whatever a validator lets through is a well-formed message. The contract is the locale
  \<open>codec\<close>; it is interpreted for the five envelope types of \<open>coordinator-protocol.ts\<close> and for the
  responses and pushes of \<open>protocol.ts\<close>.
\<close>

section \<open>The contract\<close>

locale codec =
  fixes encode :: "'m \<Rightarrow> jsval"
    and validate :: "jsval \<Rightarrow> 'e + 'm"
    and wf :: "'m \<Rightarrow> bool"
  assumes decode_encode: "wf m \<Longrightarrow> validate (encode m) = Inr m"
    and validate_wf: "validate v = Inr m \<Longrightarrow> wf m"
begin

lemma encode_inject: "wf m \<Longrightarrow> wf m' \<Longrightarrow> encode m = encode m' \<longleftrightarrow> m = m'"
  using decode_encode by (metis sum.inject(2))

lemma accepted_iff: "(\<exists>v. validate v = Inr m) \<longleftrightarrow> wf m"
  using decode_encode validate_wf by blast

lemma reencode: "validate v = Inr m \<Longrightarrow> validate (encode m) = Inr m"
  by (rule decode_encode [OF validate_wf])

end

text \<open>A validator is a chain of guarded results; these rules walk it without splitting guards.\<close>

lemma guard_InrE:
  "(if g then Inr x else r) = Inr m \<Longrightarrow> (g \<Longrightarrow> x = m \<Longrightarrow> P) \<Longrightarrow> (r = Inr m \<Longrightarrow> P) \<Longrightarrow> P"
  by (simp split: if_splits)

lemma guard_InlE: "(if g then Inl e else r) = Inr m \<Longrightarrow> (\<not> g \<Longrightarrow> r = Inr m \<Longrightarrow> P) \<Longrightarrow> P"
  by (simp split: if_splits)

section \<open>Fields\<close>

definition wf_id :: "nat \<Rightarrow> bool" where
  "wf_id n \<longleftrightarrow> 0 < n \<and> int n \<le> max_safe_integer"

definition wf_hot :: "nat option \<Rightarrow> bool" where
  "wf_hot h \<longleftrightarrow> (case h of None \<Rightarrow> True | Some n \<Rightarrow> wf_id n)"

definition jnat :: "nat \<Rightarrow> jsval" where
  "jnat n = JInt (int n)"

definition envelope :: "string \<Rightarrow> js_fields \<Rightarrow> jsval" where
  "envelope k fs =
     JObj ((js ''coordinatorVersion'', JInt CACHE_COORDINATOR_PROTOCOL_VERSION) #
       (js ''kind'', JStr (js k)) # fs)"

lemma wf_hot_simps [simp]: "wf_hot None" "wf_hot (Some n) = wf_id n"
  by (simp_all add: wf_hot_def)

lemma isPositiveInteger_jnat [simp]: "isPositiveInteger (jnat n) = wf_id n"
  by (auto simp: isPositiveInteger_def jnat_def wf_id_def)

lemma isPositiveInteger_iff: "isPositiveInteger v \<longleftrightarrow> (\<exists>n. v = jnat n \<and> wf_id n)"
proof
  assume "isPositiveInteger v"
  then show "\<exists>n. v = jnat n \<and> wf_id n"
    by (cases v) (auto simp: isPositiveInteger_def jnat_def wf_id_def intro!: exI [of _ "nat i" for i])
qed auto

lemma the_nat_jnat [simp]: "the_nat (jnat n) = n"
  by (simp add: jnat_def)

lemma jnat_not_undef [simp]: "jnat n \<noteq> JUndef"
  by (simp add: jnat_def)

lemma isNonEmptyString_JStr [simp]: "isNonEmptyString (JStr s) \<longleftrightarrow> s \<noteq> []"
  by (simp add: isNonEmptyString_def)

lemma isNonEmptyString_wf [dest]: "isNonEmptyString v \<Longrightarrow> the_str v \<noteq> []"
  by (simp add: isNonEmptyString_def)

lemma isPositiveInteger_wf [dest]: "isPositiveInteger v \<Longrightarrow> wf_id (the_nat v)"
  by (auto simp: isPositiveInteger_iff)

lemma isOptionalPositiveInteger_wf [dest]: "isOptionalPositiveInteger v \<Longrightarrow> wf_hot (the_opt the_nat v)"
  by (auto simp: isOptionalPositiveInteger_def isPositiveInteger_iff the_opt_def)

lemma envelope_simps [simp]:
  "is_record (envelope k fs)"
  "getp (envelope k fs) ''coordinatorVersion'' = JInt CACHE_COORDINATOR_PROTOCOL_VERSION"
  "getp (envelope k fs) ''kind'' = JStr (js k)"
  "f \<noteq> ''coordinatorVersion'' \<Longrightarrow> f \<noteq> ''kind'' \<Longrightarrow> getp (envelope k fs) f = getp (JObj fs) f"
  "only_keys (envelope k fs) (''coordinatorVersion'' # ''kind'' # ks) \<longleftrightarrow>
     only_keys (JObj fs) (''coordinatorVersion'' # ''kind'' # ks)"
  "hasVersion (envelope k fs)"
  "header_ok (envelope k fs)"
  "kind_is (envelope k fs) k' \<longleftrightarrow> k = k'"
  by (auto simp: envelope_def hasVersion_def header_ok_def kind_is_def)

lemmas field_defs =
  tab_field_def epoch_field_def reason_field_def get_tab_def get_epoch_def get_reason_def get_hot_def

section \<open>Page to coordinator\<close>

fun encode_tab_to_coordinator :: "tab_to_coordinator \<Rightarrow> jsval" where
  "encode_tab_to_coordinator (Register_Tab sc t lock hot) =
     envelope ''register-tab'' [(js ''scope'', JStr sc), (js ''tabId'', JStr t),
       (js ''livenessLockName'', JStr lock), (js ''hotCapacity'', opt_val jnat hot)]"
| "encode_tab_to_coordinator (Cache_Request t r) =
     envelope ''cache-request'' [(js ''tabId'', JStr t), (js ''request'', r)]"
| "encode_tab_to_coordinator (Attach_Engine_Port t e p) =
     envelope ''attach-engine-port'' [(js ''tabId'', JStr t), (js ''ownerEpoch'', jnat e),
       (js ''enginePort'', p)]"
| "encode_tab_to_coordinator (Graceful_Departure t e) =
     envelope ''graceful-departure'' [(js ''tabId'', JStr t), (js ''ownerEpoch'', jnat e)]"
| "encode_tab_to_coordinator (Navigation_Departure t e reason) =
     envelope ''navigation-departure'' [(js ''tabId'', JStr t), (js ''ownerEpoch'', jnat e),
       (js ''reason'', JStr reason)]"
| "encode_tab_to_coordinator (Engine_Lost t e reason) =
     envelope ''engine-lost'' [(js ''tabId'', JStr t), (js ''ownerEpoch'', jnat e),
       (js ''reason'', JStr reason)]"
| "encode_tab_to_coordinator (Disconnect_Tab t reason) =
     envelope ''disconnect-tab'' [(js ''tabId'', JStr t), (js ''reason'', JStr reason)]"

fun wf_tab_to_coordinator :: "tab_to_coordinator \<Rightarrow> bool" where
  "wf_tab_to_coordinator (Register_Tab sc t lock hot) \<longleftrightarrow>
     sc \<noteq> [] \<and> t \<noteq> [] \<and> lock \<noteq> [] \<and> wf_hot hot"
| "wf_tab_to_coordinator (Cache_Request t r) \<longleftrightarrow> t \<noteq> [] \<and> isCacheRequest r"
| "wf_tab_to_coordinator (Attach_Engine_Port t e p) \<longleftrightarrow> t \<noteq> [] \<and> wf_id e \<and> isMessagePort p"
| "wf_tab_to_coordinator (Graceful_Departure t e) \<longleftrightarrow> t \<noteq> [] \<and> wf_id e"
| "wf_tab_to_coordinator (Navigation_Departure t e reason) \<longleftrightarrow> t \<noteq> [] \<and> wf_id e \<and> reason \<noteq> []"
| "wf_tab_to_coordinator (Engine_Lost t e reason) \<longleftrightarrow> t \<noteq> [] \<and> wf_id e \<and> reason \<noteq> []"
| "wf_tab_to_coordinator (Disconnect_Tab t reason) \<longleftrightarrow> t \<noteq> [] \<and> reason \<noteq> []"

lemma tab_to_coordinator_decode:
  "wf_tab_to_coordinator m \<Longrightarrow>
    validateTabToCoordinatorEnvelope (encode_tab_to_coordinator m) = Inr m"
  by (cases m; cases "rt_hot m")
    (simp_all add: validateTabToCoordinatorEnvelope_def field_defs isOptionalPositiveInteger_def the_opt_def)

lemma tab_to_coordinator_wf:
  "validateTabToCoordinatorEnvelope v = Inr m \<Longrightarrow> wf_tab_to_coordinator m"
  unfolding validateTabToCoordinatorEnvelope_def
  by (elim guard_InrE guard_InlE) (auto simp: field_defs)

interpretation tab_codec: codec encode_tab_to_coordinator validateTabToCoordinatorEnvelope
  wf_tab_to_coordinator
  by unfold_locales (fact tab_to_coordinator_decode, fact tab_to_coordinator_wf)

section \<open>Coordinator to page\<close>

fun encode_coordinator_to_tab :: "coordinator_to_tab \<Rightarrow> jsval" where
  "encode_coordinator_to_tab (Registered t) = envelope ''registered'' [(js ''tabId'', JStr t)]"
| "encode_coordinator_to_tab (Become_Owner sc t e a lock hot) =
     envelope ''become-owner'' [(js ''scope'', JStr sc), (js ''tabId'', JStr t),
       (js ''ownerEpoch'', jnat e), (js ''databaseAction'', database_action_val a),
       (js ''ownerLockName'', JStr lock), (js ''hotCapacity'', opt_val jnat hot)]"
| "encode_coordinator_to_tab (Cache_Message msg) =
     envelope ''cache-message'' [(js ''message'', msg)]"
| "encode_coordinator_to_tab (Terminate_Engine t e reason) =
     envelope ''terminate-engine'' [(js ''tabId'', JStr t), (js ''ownerEpoch'', jnat e),
       (js ''reason'', JStr reason)]"
| "encode_coordinator_to_tab (Retire_Complete t e) =
     envelope ''retire-complete'' [(js ''tabId'', JStr t), (js ''ownerEpoch'', jnat e)]"
| "encode_coordinator_to_tab (Engine_Replaced e) =
     envelope ''engine-replaced'' [(js ''ownerEpoch'', jnat e)]"
| "encode_coordinator_to_tab (Protocol_Error err) =
     envelope ''protocol-error'' [(js ''error'', JStr err)]"

fun wf_coordinator_to_tab :: "coordinator_to_tab \<Rightarrow> bool" where
  "wf_coordinator_to_tab (Registered t) \<longleftrightarrow> t \<noteq> []"
| "wf_coordinator_to_tab (Become_Owner sc t e a lock hot) \<longleftrightarrow>
     sc \<noteq> [] \<and> t \<noteq> [] \<and> wf_id e \<and> lock \<noteq> [] \<and> wf_hot hot"
| "wf_coordinator_to_tab (Cache_Message msg) \<longleftrightarrow> isWorkerMessage msg"
| "wf_coordinator_to_tab (Terminate_Engine t e reason) \<longleftrightarrow> t \<noteq> [] \<and> wf_id e \<and> reason \<noteq> []"
| "wf_coordinator_to_tab (Retire_Complete t e) \<longleftrightarrow> t \<noteq> [] \<and> wf_id e"
| "wf_coordinator_to_tab (Engine_Replaced e) \<longleftrightarrow> wf_id e"
| "wf_coordinator_to_tab (Protocol_Error err) \<longleftrightarrow> err \<noteq> []"

lemma the_enum_simps [simp]:
  "the_database_action (database_action_val a) = a"
  "the_database_action_proof (database_action_proof_val p) = p"
  "the_open_outcome (open_outcome_val out) = out"
  "the_fatal_code (fatal_code_val f) = f"
  "the_failure_code (failure_code_val g) = g"
  by ((cases a; simp add: the_database_action_def),
    (cases p; simp add: the_database_action_proof_def), (cases out; simp add: the_open_outcome_def),
    (cases f; simp add: the_fatal_code_def), (cases g; simp add: the_failure_code_def))

lemma is_enum_simps [simp]:
  "isDatabaseAction (database_action_val a)"
  "isDatabaseActionProof (database_action_proof_val p)"
  "isEngineOpenOutcome (open_outcome_val out)"
  "isEngineFatalCode (fatal_code_val f)"
  "isActivationFailureCode (failure_code_val g)"
  by ((cases a; simp add: isDatabaseAction_def),
    (cases p; simp add: isDatabaseActionProof_def), (cases out; simp add: isEngineOpenOutcome_def),
    (cases f; simp add: isEngineFatalCode_def), (cases g; simp add: isActivationFailureCode_def))

lemma coordinator_to_tab_decode:
  "wf_coordinator_to_tab m \<Longrightarrow>
    validateCoordinatorToTabEnvelope (encode_coordinator_to_tab m) = Inr m"
proof (cases m)
  case (Become_Owner sc t e a lock hot)
  assume "wf_coordinator_to_tab m"
  with Become_Owner show ?thesis
    by (cases hot) (simp_all add: validateCoordinatorToTabEnvelope_def field_defs
      isOptionalPositiveInteger_def the_opt_def)
qed (simp_all add: validateCoordinatorToTabEnvelope_def field_defs)

lemma coordinator_to_tab_wf:
  "validateCoordinatorToTabEnvelope v = Inr m \<Longrightarrow> wf_coordinator_to_tab m"
  unfolding validateCoordinatorToTabEnvelope_def
  by (elim guard_InrE guard_InlE) (auto simp: field_defs)

interpretation page_codec: codec encode_coordinator_to_tab validateCoordinatorToTabEnvelope
  wf_coordinator_to_tab
  by unfold_locales (fact coordinator_to_tab_decode, fact coordinator_to_tab_wf)

section \<open>Page to engine\<close>

fun encode_page_to_engine :: "page_to_engine \<Rightarrow> jsval" where
  "encode_page_to_engine (Activate_Engine sc t e a lock hot) =
     envelope ''activate-engine'' [(js ''scope'', JStr sc), (js ''tabId'', JStr t),
       (js ''ownerEpoch'', jnat e), (js ''databaseAction'', database_action_val a),
       (js ''ownerLockName'', JStr lock), (js ''hotCapacity'', opt_val jnat hot)]"

fun wf_page_to_engine :: "page_to_engine \<Rightarrow> bool" where
  "wf_page_to_engine (Activate_Engine sc t e a lock hot) \<longleftrightarrow>
     sc \<noteq> [] \<and> t \<noteq> [] \<and> wf_id e \<and> lock \<noteq> [] \<and> wf_hot hot"

lemma page_to_engine_decode:
  "wf_page_to_engine m \<Longrightarrow> validatePageToEngineEnvelope (encode_page_to_engine m) = Inr m"
proof (cases m)
  case (Activate_Engine sc t e a lock hot)
  assume "wf_page_to_engine m"
  with Activate_Engine show ?thesis
    by (cases hot) (simp_all add: validatePageToEngineEnvelope_def field_defs
      isOptionalPositiveInteger_def the_opt_def)
qed

lemma page_to_engine_wf: "validatePageToEngineEnvelope v = Inr m \<Longrightarrow> wf_page_to_engine m"
  unfolding validatePageToEngineEnvelope_def
  by (elim guard_InrE) (auto simp: field_defs)

interpretation activation_codec: codec encode_page_to_engine validatePageToEngineEnvelope
  wf_page_to_engine
  by unfold_locales (fact page_to_engine_decode, fact page_to_engine_wf)

section \<open>Coordinator to engine\<close>

fun encode_coordinator_to_engine :: "coordinator_to_engine \<Rightarrow> jsval" where
  "encode_coordinator_to_engine (Engine_Request e n r) =
     envelope ''engine-request'' [(js ''ownerEpoch'', jnat e), (js ''routeId'', jnat n),
       (js ''request'', r)]"
| "encode_coordinator_to_engine (Drain_Engine e) =
     envelope ''drain-engine'' [(js ''ownerEpoch'', jnat e)]"
| "encode_coordinator_to_engine (Heartbeat e h) =
     envelope ''heartbeat'' [(js ''ownerEpoch'', jnat e), (js ''heartbeatId'', jnat h)]"

fun wf_coordinator_to_engine :: "coordinator_to_engine \<Rightarrow> bool" where
  "wf_coordinator_to_engine (Engine_Request e n r) \<longleftrightarrow>
     wf_id e \<and> wf_id n \<and> isCacheRequest r \<and> getp r ''id'' = jnat n"
| "wf_coordinator_to_engine (Drain_Engine e) \<longleftrightarrow> wf_id e"
| "wf_coordinator_to_engine (Heartbeat e h) \<longleftrightarrow> wf_id e \<and> wf_id h"

lemma coordinator_to_engine_decode:
  "wf_coordinator_to_engine m \<Longrightarrow>
    validateCoordinatorToEngineEnvelope (encode_coordinator_to_engine m) = Inr m"
  by (cases m) (simp_all add: validateCoordinatorToEngineEnvelope_def field_defs)

lemma coordinator_to_engine_wf:
  "validateCoordinatorToEngineEnvelope v = Inr m \<Longrightarrow> wf_coordinator_to_engine m"
  unfolding validateCoordinatorToEngineEnvelope_def
  by (elim guard_InrE guard_InlE) (auto simp: field_defs isPositiveInteger_iff)

interpretation engine_codec: codec encode_coordinator_to_engine validateCoordinatorToEngineEnvelope
  wf_coordinator_to_engine
  by unfold_locales (fact coordinator_to_engine_decode, fact coordinator_to_engine_wf)

section \<open>Engine to coordinator\<close>

fun encode_engine_to_coordinator :: "engine_to_coordinator \<Rightarrow> jsval" where
  "encode_engine_to_coordinator (Engine_Ready t e lock p out) =
     envelope ''engine-ready'' [(js ''tabId'', JStr t), (js ''ownerEpoch'', jnat e),
       (js ''ownerLockName'', JStr lock), (js ''ownerLockHeld'', JBool True),
       (js ''databaseActionProof'', database_action_proof_val p),
       (js ''openOutcome'', open_outcome_val out)]"
| "encode_engine_to_coordinator (Engine_Response e n r) =
     envelope ''engine-response'' [(js ''ownerEpoch'', jnat e), (js ''routeId'', jnat n),
       (js ''response'', r)]"
| "encode_engine_to_coordinator (Engine_Push e p) =
     envelope ''engine-push'' [(js ''ownerEpoch'', jnat e), (js ''push'', p)]"
| "encode_engine_to_coordinator (Engine_Drained t e) =
     envelope ''engine-drained'' [(js ''tabId'', JStr t), (js ''ownerEpoch'', jnat e)]"
| "encode_engine_to_coordinator (Engine_Fatal t e reason code) =
     envelope ''engine-fatal'' [(js ''tabId'', JStr t), (js ''ownerEpoch'', jnat e),
       (js ''reason'', JStr reason), (js ''fatalCode'', fatal_code_val code)]"
| "encode_engine_to_coordinator (Activation_Failed t e reason code) =
     envelope ''activation-failed'' [(js ''tabId'', JStr t), (js ''ownerEpoch'', jnat e),
       (js ''reason'', JStr reason), (js ''failureCode'', failure_code_val code)]"
| "encode_engine_to_coordinator (Heartbeat_Ack e h) =
     envelope ''heartbeat-ack'' [(js ''ownerEpoch'', jnat e), (js ''heartbeatId'', jnat h)]"

text \<open>A response is the engine's own: it never carries a coordinator's error code.\<close>

fun wf_engine_to_coordinator :: "engine_to_coordinator \<Rightarrow> bool" where
  "wf_engine_to_coordinator (Engine_Ready t e lock p out) \<longleftrightarrow> t \<noteq> [] \<and> wf_id e \<and> lock \<noteq> []"
| "wf_engine_to_coordinator (Engine_Response e n r) \<longleftrightarrow>
     wf_id e \<and> wf_id n \<and> isCacheResponse r \<and> getp r ''id'' = jnat n \<and>
     (getp r ''ok'' = JBool True \<or> getp r ''errorCode'' = JUndef)"
| "wf_engine_to_coordinator (Engine_Push e p) \<longleftrightarrow> wf_id e \<and> isCachePush p"
| "wf_engine_to_coordinator (Engine_Drained t e) \<longleftrightarrow> t \<noteq> [] \<and> wf_id e"
| "wf_engine_to_coordinator (Engine_Fatal t e reason code) \<longleftrightarrow> t \<noteq> [] \<and> wf_id e \<and> reason \<noteq> []"
| "wf_engine_to_coordinator (Activation_Failed t e reason code) \<longleftrightarrow> t \<noteq> [] \<and> wf_id e \<and> reason \<noteq> []"
| "wf_engine_to_coordinator (Heartbeat_Ack e h) \<longleftrightarrow> wf_id e \<and> wf_id h"

lemma engine_to_coordinator_decode:
  "wf_engine_to_coordinator m \<Longrightarrow>
    validateEngineToCoordinatorEnvelope (encode_engine_to_coordinator m) = Inr m"
  by (cases m) (simp_all add: validateEngineToCoordinatorEnvelope_def field_defs)

lemma engine_to_coordinator_wf:
  "validateEngineToCoordinatorEnvelope v = Inr m \<Longrightarrow> wf_engine_to_coordinator m"
  unfolding validateEngineToCoordinatorEnvelope_def
  by (elim guard_InrE guard_InlE) (auto simp: field_defs isPositiveInteger_iff)

interpretation coordinator_codec: codec encode_engine_to_coordinator
  validateEngineToCoordinatorEnvelope wf_engine_to_coordinator
  by unfold_locales (fact engine_to_coordinator_decode, fact engine_to_coordinator_wf)

end
