(* ===== verification/Coord_Router_Laws.thy ===== *)
theory Coord_Router_Laws
  imports Coord_Router Coord_Core_Props Coord_Codec
begin

text \<open>
  The invariant of the coordinator router and its preservation by every event, built up from
  frame facts of the small operations: which parts of the state each of them leaves alone.
\<close>

section \<open>Frames\<close>

text \<open>
  The topology of the router: core, tab connections, engine route, queued microtasks and
  pending lock probes.
\<close>

definition topology ::
  "router \<Rightarrow> coordinator option \<times> (js_string \<times> tab_connection) list \<times> (nat \<times> js_string) list \<times>
     engine_route option \<times> nat \<times> (nat \<times> lock_probe) list" where
  "topology r = (coreValue r, tabMap r, portTabs r, engineRoute r, microtasks r, probes r)"

text \<open>The watchdogs: live timers and the handles that refer to them.\<close>

definition watchdogs ::
  "router \<Rightarrow> (nat \<times> timer_callback) list \<times> nat option \<times> nat option \<times> nat option \<times>
     (owner_epoch \<times> nat) option \<times> nat" where
  "watchdogs r = (timers r, activationTimer r, heartbeatIntervalTimer r, heartbeatTimeoutTimer r,
     pendingHeartbeat r, nextHandle r)"

lemma topology_parts [dest]:
  "topology r' = topology r \<Longrightarrow> coreValue r' = coreValue r \<and> tabMap r' = tabMap r \<and>
     portTabs r' = portTabs r \<and> engineRoute r' = engineRoute r \<and> microtasks r' = microtasks r \<and>
     probes r' = probes r"
  by (simp add: topology_def)

lemma emit_frame [simp]:
  "topology (emit out r) = topology r" "watchdogs (emit out r) = watchdogs r"
  "outputs (emit out r) = outputs r @ [out]"
  by (simp_all add: emit_def topology_def watchdogs_def)

lemma telemetry_frame [simp]:
  "topology (telemetry ob r) = topology r" "watchdogs (telemetry ob r) = watchdogs r"
  by (simp_all add: telemetry_def)

lemma postToPort_frame [simp]:
  "topology (postToPort p m r) = topology r" "watchdogs (postToPort p m r) = watchdogs r"
  by (simp_all add: postToPort_def)

lemma postToTab_frame [simp]:
  "topology (postToTab t m r) = topology r" "watchdogs (postToTab t m r) = watchdogs r"
  by (simp_all add: postToTab_def split: option.split)

lemma closePort_frame [simp]:
  "topology (closePort p r) = topology r" "watchdogs (closePort p r) = watchdogs r"
  by (simp_all add: closePort_def)

lemma broadcast_frame [simp]:
  "topology (broadcast m r) = topology r" "watchdogs (broadcast m r) = watchdogs r"
  by (simp_all add: broadcast_def topology_def watchdogs_def)

lemma postProtocolError_frame [simp]:
  "topology (postProtocolError p err r) = topology r"
  "watchdogs (postProtocolError p err r) = watchdogs r"
  by (simp_all add: postProtocolError_def split: option.split)

lemma postCacheResponse_frame [simp]:
  "topology (postCacheResponse t m r) = topology r"
  "watchdogs (postCacheResponse t m r) = watchdogs r"
  "topology (postTerminateEngine t e reason r) = topology r"
  "watchdogs (postTerminateEngine t e reason r) = watchdogs r"
  by (simp_all add: postCacheResponse_def postTerminateEngine_def)

lemma books_frame [simp]:
  "topology (r\<lparr>routeStarted := x1\<rparr>) = topology r" "watchdogs (r\<lparr>routeStarted := x1\<rparr>) = watchdogs r"
  "topology (r\<lparr>activationStarted := x2\<rparr>) = topology r"
  "watchdogs (r\<lparr>activationStarted := x2\<rparr>) = watchdogs r"
  "topology (r\<lparr>pendingRecoveryResetEpochs := x3\<rparr>) = topology r"
  "watchdogs (r\<lparr>pendingRecoveryResetEpochs := x3\<rparr>) = watchdogs r"
  "topology (r\<lparr>nextRecoveryResetReason := x4\<rparr>) = topology r"
  "watchdogs (r\<lparr>nextRecoveryResetReason := x4\<rparr>) = watchdogs r"
  "topology (r\<lparr>resetRequiredEpochs := x5\<rparr>) = topology r"
  "watchdogs (r\<lparr>resetRequiredEpochs := x5\<rparr>) = watchdogs r"
  "topology (r\<lparr>outputs := x6\<rparr>) = topology r" "watchdogs (r\<lparr>outputs := x6\<rparr>) = watchdogs r"
  "watchdogs (r\<lparr>probes := x7\<rparr>) = watchdogs r"
  "topology (r\<lparr>pendingRegistrations := x8\<rparr>) = topology r"
  "watchdogs (r\<lparr>pendingRegistrations := x8\<rparr>) = watchdogs r"
  "topology (r\<lparr>watches := x9\<rparr>) = topology r" "watchdogs (r\<lparr>watches := x9\<rparr>) = watchdogs r"
  by (simp_all add: topology_def watchdogs_def)

lemma timers_topology [simp]:
  "topology (r\<lparr>timers := x1\<rparr>) = topology r" "topology (r\<lparr>activationTimer := x2\<rparr>) = topology r"
  "topology (r\<lparr>heartbeatIntervalTimer := x3\<rparr>) = topology r"
  "topology (r\<lparr>heartbeatTimeoutTimer := x3\<rparr>) = topology r"
  "topology (r\<lparr>pendingHeartbeat := x4\<rparr>) = topology r" "topology (r\<lparr>nextHandle := x5\<rparr>) = topology r"
  "topology (r\<lparr>nextHeartbeatId := x6\<rparr>) = topology r"
  "watchdogs (r\<lparr>nextHeartbeatId := x6\<rparr>) = watchdogs r"
  by (simp_all add: topology_def watchdogs_def)

lemma recordStorageResetRequired_frame [simp]:
  "topology (recordStorageResetRequired e why out r) = topology r"
  "watchdogs (recordStorageResetRequired e why out r) = watchdogs r"
  by (simp_all add: recordStorageResetRequired_def)

lemma recordLogicalResetAndWipe_frame [simp]:
  "topology (recordLogicalResetAndWipe why out w r) = topology r"
  "watchdogs (recordLogicalResetAndWipe why out w r) = watchdogs r"
  by (simp_all add: recordLogicalResetAndWipe_def)

lemma recordPendingResetFailure_frame [simp]:
  "topology (snd (recordPendingResetFailure e reason code r)) = topology r"
  "watchdogs (snd (recordPendingResetFailure e reason code r)) = watchdogs r"
  by (simp_all add: recordPendingResetFailure_def split: option.split)

lemma closeTimings_frame [simp]:
  "topology (closeTimings env e r) = topology r" "watchdogs (closeTimings env e r) = watchdogs r"
  by (simp_all add: closeTimings_def topology_def watchdogs_def)

lemma clear_timer_topology [simp]: "topology (clear_timer h r) = topology r"
  by (simp add: clear_timer_def split: option.split)

lemma set_timer_topology [simp]: "topology (snd (set_timer cb r)) = topology r"
  by (simp add: set_timer_def)

lemma clear_topology [simp]:
  "topology (clearActivationTimer r) = topology r"
  "topology (clearHeartbeatTimers r) = topology r"
  "topology (clearEngineWatchdogs r) = topology r"
  by (simp_all add: clearActivationTimer_def clearHeartbeatTimers_def clearEngineWatchdogs_def Let_def)

lemma schedule_topology [simp]:
  "topology (scheduleHeartbeat e r) = topology r"
  "topology (acceptHeartbeat e h r) = topology r"
  by (simp_all add: scheduleHeartbeat_def acceptHeartbeat_def Let_def case_prod_beta)

lemma electOwner_topology [simp]: "topology (electOwner env t e a r) = topology r"
  by (simp add: electOwner_def Let_def case_prod_beta)

lemma finishTiming_frame [simp]:
  "topology (finishTiming env n response r) = topology r"
  "watchdogs (finishTiming env n response r) = watchdogs r"
  by (simp_all add: finishTiming_def Let_def split: option.split)

lemma recordOwnerLoss_topology [simp]:
  "topology (recordOwnerLoss env t e reason f g r) = topology r"
  by (simp add: recordOwnerLoss_def Let_def case_prod_beta)

lemma recordNavigation_topology [simp]: "topology (recordNavigation env s e r) = topology r"
  by (simp add: recordNavigation_def Let_def split: option.split coordinator_state.split)

lemma engineActivated_topology [simp]: "topology (engineActivated env e out r) = topology r"
  by (simp add: engineActivated_def Let_def split: option.split)

section \<open>Nesting of losses\<close>

fun recursing :: "coordinator_action \<Rightarrow> bool" where
  "recursing (Route_Request _ _ _ _ _) = True"
| "recursing (Drain_Owner _ _) = True"
| "recursing _ = False"

lemma apply_action_plain:
  "\<not> recursing a \<Longrightarrow> apply_action env fo a = apply_action env fo' a"
  by (cases a) (simp_all add: fun_eq_iff)

lemma apply_action_done: "\<not> recursing a \<Longrightarrow> fst (apply_action env fo a r) = Done"
  by (cases a) simp_all

lemma apply_actions_plain:
  "list_all (\<lambda>a. \<not> recursing a) acts \<Longrightarrow> apply_actions env fo acts = apply_actions env fo' acts"
  by (auto simp: apply_actions_def fun_eq_iff list_all_iff split: option.split
      intro!: arg_cong2 [where f = seq] map_cong apply_action_plain)

lemma seq_done:
  "(\<And>f r. f \<in> set fs \<Longrightarrow> fst (f r) = Done) \<Longrightarrow> fst (seq fs r) = Done"
proof (induction fs arbitrary: r)
  case (Cons f fs)
  have "fst (f r) = Done" using Cons.prems by simp
  then obtain r' where "f r = (Done, r')" by (cases "f r") simp
  with Cons show ?case by simp
qed simp

lemma apply_actions_done:
  "list_all (\<lambda>a. \<not> recursing a) acts \<Longrightarrow> fst (apply_actions env fo acts r) = Done"
  by (auto simp: apply_actions_def list_all_iff apply_action_done split: option.split
      intro!: seq_done)

lemma loss_plain:
  "transitionToAbruptLoss t e reason c = (Inr acts, c') \<Longrightarrow> list_all (\<lambda>a. \<not> recursing a) acts"
  by (auto simp: transitionToAbruptLoss_def rejectEpochRequests_def return_asserting_def reject_def
      list_all_iff split: if_splits option.splits)

text \<open>The actions of an abrupt loss, applied; they never fail a second owner.\<close>

definition settle :: "router_env \<Rightarrow> coordinator_action list \<Rightarrow> rop" where
  "settle env = apply_actions env (\<lambda>t e reason. skip)"

lemma apply_actions_settle:
  "list_all (\<lambda>a. \<not> recursing a) acts \<Longrightarrow> apply_actions env fo acts = settle env acts"
  unfolding settle_def by (rule apply_actions_plain)

lemma applyActions_settle:
  "list_all (\<lambda>a. \<not> recursing a) acts \<Longrightarrow> applyActions env acts = settle env acts"
  unfolding applyActions_def by (rule apply_actions_settle)

lemma fail_owner_settle:
  "fail_owner (Suc n) env t e reason f g r =
     call_core (ownerLost t e reason)
       (\<lambda>acts. if acts = [] then skip
          else seq [upd (recordOwnerLoss env t e reason f g), settle env acts]) r"
proof (cases "coreValue r")
  case (Some c)
  obtain res c' where m: "ownerLost t e reason c = (res, c')" by fastforce
  show ?thesis
  proof (cases res)
    case (Inr acts)
    with m have "list_all (\<lambda>a. \<not> recursing a) acts" by (simp add: ownerLost_def loss_plain)
    from apply_actions_settle [OF this] m Inr Some show ?thesis by (simp add: call_core_def)
  qed (simp add: call_core_def Some m)
qed (simp add: call_core_def)

lemma fail_owner_fuel: "fail_owner (Suc n) = fail_owner (Suc m)"
  by (intro ext) (simp only: fail_owner_settle)

lemma failOwner_settle:
  "failOwner env t e reason f g r =
     call_core (ownerLost t e reason)
       (\<lambda>acts. if acts = [] then skip
          else seq [upd (recordOwnerLoss env t e reason f g), settle env acts]) r"
  unfolding failOwner_def numeral_2_eq_2 by (rule fail_owner_settle)

lemma failOwner_idle:
  "coreValue r = None \<Longrightarrow> failOwner env t e reason f g r = (Done, r)"
  "coreValue r = Some c \<Longrightarrow> owner_of (stateValue c) \<noteq> Some (t, e) \<Longrightarrow>
     failOwner env t e reason f g r = (Done, r)"
  by (simp_all add: failOwner_settle call_core_def ownerLost_def loss_of_other skip_def)

text \<open>The actions and the state of a loss.\<close>

definition lossActions :: "js_string \<Rightarrow> owner_epoch \<Rightarrow> js_string \<Rightarrow> coordinator \<Rightarrow> coordinator_action list" where
  "lossActions t e reason c =
     List.map (\<lambda>p. reject (if_tabId (snd p)) (request_id (if_request (snd p)))
         (js ''owner epoch '' @ js_nat e @ js '' was lost: '' @ reason)
         (Some OWNER_EPOCH_LOST_ERROR_CODE)) (inFlight c) @
       [Close_Engine_Route t e, Schedule_Reset_Activation]"

definition lostCore :: "js_string \<Rightarrow> owner_epoch \<Rightarrow> js_string \<Rightarrow> coordinator \<Rightarrow> coordinator" where
  "lostCore t e reason c =
     c\<lparr>inFlight := [], stateValue := Resetting_After_Loss t e (e + 1) reason\<rparr>"

lemma ownerLost_owner:
  "core_inv c \<Longrightarrow> owner_of (stateValue c) = Some (t, e) \<Longrightarrow>
     ownerLost t e reason c = (Inr (lossActions t e reason c), lostCore t e reason c)"
  by (simp add: ownerLost_def loss_of_owner lossActions_def lostCore_def)

lemma failOwner_owner:
  "coreValue r = Some c \<Longrightarrow> core_inv c \<Longrightarrow> owner_of (stateValue c) = Some (t, e) \<Longrightarrow>
     failOwner env t e reason f g r =
       settle env (lossActions t e reason c)
         (recordOwnerLoss env t e reason f g (r\<lparr>coreValue := Some (lostCore t e reason c)\<rparr>))"
  by (simp add: failOwner_settle call_core_def ownerLost_owner upd_def)
    (simp add: lossActions_def split: prod.split completion.split)

section \<open>The links between the core and the router\<close>

text \<open>Tabs whose connection the remaining actions take down.\<close>

fun leaves :: "coordinator_action \<Rightarrow> js_string list" where
  "leaves (Drop_Tab t) = [t]"
| "leaves (Retire_Tab t e) = [t]"
| "leaves _ = []"

definition leaving :: "coordinator_action list \<Rightarrow> js_string set" where
  "leaving acts = set (concat (List.map leaves acts))"

lemma leaving_simps [simp]:
  "leaving [] = {}" "leaving (a # as) = set (leaves a) \<union> leaving as"
  "leaving (as @ bs) = leaving as \<union> leaving bs"
  by (auto simp: leaving_def)

lemma leaving_rejects [simp]:
  "leaving (List.map (\<lambda>p. reject (f p) (g p) err code) ps) = {}"
  by (induction ps) (simp_all add: reject_def)

text \<open>Connections have distinct ports, and \<open>portTabs\<close> is the inverse of \<open>tabs\<close>.\<close>

definition conn_inv :: "(js_string \<times> tab_connection) list \<Rightarrow> (nat \<times> js_string) list \<Rightarrow> bool" where
  "conn_inv tm pt \<longleftrightarrow>
     distinct (List.map fst tm) \<and> distinct (List.map (tc_port \<circ> snd) tm) \<and>
     distinct (List.map fst pt) \<and> set pt = (\<lambda>p. (tc_port (snd p), fst p)) ` set tm"

definition tabs_inv ::
  "coordinator_action list \<Rightarrow> coordinator \<Rightarrow> (js_string \<times> tab_connection) list \<Rightarrow> bool" where
  "tabs_inv acts c tm \<longleftrightarrow>
     set (tabs c) \<subseteq> fst ` set tm \<and> fst ` set tm \<subseteq> set (tabs c) \<union> leaving acts \<and>
     set (tabs c) \<inter> leaving acts = {}"

definition route_inv :: "coordinator_action list \<Rightarrow> coordinator_state \<Rightarrow> engine_route option \<Rightarrow> bool" where
  "route_inv acts s engine \<longleftrightarrow>
     (case engine of
        None \<Rightarrow> serving_epoch s = None
      | Some ro \<Rightarrow>
          if Close_Engine_Route (ro_tabId ro) (ro_ownerEpoch ro) \<in> set acts then serving_epoch s = None
          else owner_of s = Some (ro_tabId ro, ro_ownerEpoch ro))"

fun resetting :: "coordinator_state \<Rightarrow> bool" where
  "resetting (Resetting_After_Loss _ _ _ _) = True"
| "resetting _ = False"

definition reset_inv :: "coordinator_action list \<Rightarrow> coordinator_state \<Rightarrow> nat \<Rightarrow> bool" where
  "reset_inv acts s m \<longleftrightarrow> (resetting s \<longrightarrow> Schedule_Reset_Activation \<in> set acts \<or> 0 < m)"

definition valid_requests :: "coordinator \<Rightarrow> bool" where
  "valid_requests c \<longleftrightarrow> (\<forall>p \<in> pending c. isCacheRequest (snd p))"

definition probes_inv :: "(nat \<times> lock_probe) list \<Rightarrow> bool" where
  "probes_inv ps \<longleftrightarrow> (\<forall>p \<in> set ps. lp_tabId (snd p) \<noteq> [] \<and> lp_scope (snd p) \<noteq> [])"

definition links :: "coordinator_action list \<Rightarrow> router \<Rightarrow> bool" where
  "links acts r \<longleftrightarrow>
     (\<exists>c. coreValue r = Some c \<and> core_inv c \<and> valid_requests c \<and>
        conn_inv (tabMap r) (portTabs r) \<and> tabs_inv acts c (tabMap r) \<and>
        route_inv acts (stateValue c) (engineRoute r) \<and>
        reset_inv acts (stateValue c) (microtasks r) \<and> probes_inv (probes r))"

lemma links_topology: "topology r' = topology r \<Longrightarrow> links acts r' = links acts r"
  by (simp add: links_def topology_def)

lemma links_by_topology: "links acts r \<Longrightarrow> topology r' = topology r \<Longrightarrow> links acts r'"
  by (simp add: links_def topology_def)

lemma leaves_iff: "t \<in> set (leaves a) \<longleftrightarrow> a = Drop_Tab t \<or> (\<exists>e. a = Retire_Tab t e)"
  by (cases a) auto

lemma tabs_inv_drop: "leaves a = [] \<Longrightarrow> tabs_inv (a # acts) c tm = tabs_inv acts c tm"
  by (simp add: tabs_inv_def)

lemma route_inv_drop:
  "(\<And>t e. a \<noteq> Close_Engine_Route t e) \<Longrightarrow> route_inv (a # acts) s ro = route_inv acts s ro"
  by (cases ro) (auto simp: route_inv_def)

lemma reset_inv_drop:
  "a \<noteq> Schedule_Reset_Activation \<Longrightarrow> reset_inv (a # acts) s m = reset_inv acts s m"
  by (simp add: reset_inv_def)

lemma links_drop_action:
  assumes "links (a # acts) r" "leaves a = []" "a \<noteq> Schedule_Reset_Activation"
    "\<And>t e. a \<noteq> Close_Engine_Route t e"
  shows "links acts r"
  using assms by (simp add: links_def tabs_inv_drop route_inv_drop reset_inv_drop)

lemma set_delete: "set (AList.delete k al) = {p \<in> set al. fst p \<noteq> k}"
  by (auto simp: AList.delete_eq)

lemma keys_delete: "fst ` set (AList.delete k al) = fst ` set al - {k}"
  by (auto simp: set_delete)

lemma conn_inv_remove:
  assumes "conn_inv tm pt" "map_of tm t = Some conn"
  shows "conn_inv (AList.delete t tm) (AList.delete (tc_port conn) pt)"
proof -
  from assms have mem: "(t, conn) \<in> set tm" by (simp add: map_of_SomeD)
  have inj: "\<And>p q. p \<in> set tm \<Longrightarrow> q \<in> set tm \<Longrightarrow> tc_port (snd p) = tc_port (snd q) \<Longrightarrow> p = q"
    using assms(1) by (auto simp: conn_inv_def distinct_map inj_on_def)
  have same: "tc_port (snd p) = tc_port conn \<longleftrightarrow> fst p = t" if "p \<in> set tm" for p
    using inj [OF that mem] assms that mem eq_key_imp_eq_value [of tm t conn "snd p"]
    by (cases p) (auto simp: conn_inv_def)
  have "set (AList.delete (tc_port conn) pt) =
      (\<lambda>p. (tc_port (snd p), fst p)) ` {p \<in> set tm. tc_port (snd p) \<noteq> tc_port conn}"
    using assms(1) by (auto simp: conn_inv_def set_delete)
  also have "\<dots> = (\<lambda>p. (tc_port (snd p), fst p)) ` set (AList.delete t tm)"
    using same by (auto simp: set_delete intro!: image_cong)
  finally show ?thesis
    using assms(1) by (simp add: conn_inv_def AList.delete_eq distinct_map_filter)
qed

lemma removeTabConnection_topology:
  "map_of (tabMap r) t = None \<Longrightarrow> topology (removeTabConnection t r) = topology r"
  "map_of (tabMap r) t = Some conn \<Longrightarrow> topology (removeTabConnection t r) =
     (coreValue r, AList.delete t (tabMap r), AList.delete (tc_port conn) (portTabs r),
      engineRoute r, microtasks r, probes r)"
  by (simp_all add: removeTabConnection_def) (simp add: topology_def)

lemma removeTabConnection_watchdogs [simp]: "watchdogs (removeTabConnection t r) = watchdogs r"
  by (simp add: removeTabConnection_def split: option.split) (simp add: watchdogs_def)

lemma links_remove:
  assumes "links (a # acts) r" "leaves a = [t]"
  shows "links acts (removeTabConnection t r)"
proof -
  have a: "a \<noteq> Schedule_Reset_Activation" "\<And>t e. a \<noteq> Close_Engine_Route t e"
    using assms(2) by auto
  show ?thesis
  proof (cases "map_of (tabMap r) t")
    case None
    have t: "t \<notin> fst ` set (tabMap r)" using None by (simp add: map_of_eq_None_iff)
    obtain c where c: "coreValue r = Some c" "core_inv c" "valid_requests c"
        "conn_inv (tabMap r) (portTabs r)" "tabs_inv (a # acts) c (tabMap r)"
        "route_inv (a # acts) (stateValue c) (engineRoute r)"
        "reset_inv (a # acts) (stateValue c) (microtasks r)" "probes_inv (probes r)"
      using assms(1) by (auto simp: links_def)
    have "tabs_inv acts c (tabMap r)" using c(5) assms(2) t by (auto simp: tabs_inv_def)
    moreover have "route_inv acts (stateValue c) (engineRoute r)"
      "reset_inv acts (stateValue c) (microtasks r)"
      using c(6,7) a by (simp_all add: route_inv_drop reset_inv_drop)
    ultimately have "links acts r" using c by (simp add: links_def)
    then show ?thesis by (rule links_by_topology) (rule removeTabConnection_topology(1) [OF None])
  next
    case (Some conn)
    let ?r = "removeTabConnection t r"
    have top: "coreValue ?r = coreValue r" "tabMap ?r = AList.delete t (tabMap r)"
      "portTabs ?r = AList.delete (tc_port conn) (portTabs r)" "engineRoute ?r = engineRoute r"
      "microtasks ?r = microtasks r" "probes ?r = probes r"
      using removeTabConnection_topology(2) [OF Some] by (simp_all add: topology_def)
    obtain c where c: "coreValue r = Some c" "core_inv c" "valid_requests c"
        "conn_inv (tabMap r) (portTabs r)" "tabs_inv (a # acts) c (tabMap r)"
        "route_inv (a # acts) (stateValue c) (engineRoute r)"
        "reset_inv (a # acts) (stateValue c) (microtasks r)" "probes_inv (probes r)"
      using assms(1) by (auto simp: links_def)
    have "tabs_inv acts c (AList.delete t (tabMap r))"
      using c(5) assms(2) unfolding tabs_inv_def keys_delete by auto
    moreover have "route_inv acts (stateValue c) (engineRoute r)"
      "reset_inv acts (stateValue c) (microtasks r)"
      using c(6,7) a by (simp_all add: route_inv_drop reset_inv_drop)
    ultimately show ?thesis
      using c conn_inv_remove [OF c(4) Some] by (simp add: links_def top)
  qed
qed

lemma closeEngineRoute_topology:
  "topology (closeEngineRoute t e r) =
     (coreValue r, tabMap r, portTabs r,
      (case engineRoute r of None \<Rightarrow> None
       | Some ro \<Rightarrow> if ro_tabId ro = t \<and> ro_ownerEpoch ro = e then None else Some ro),
      microtasks r, probes r)"
proof -
  have "topology (clearEngineWatchdogs r) = topology r" by simp
  then have "engineRoute (clearEngineWatchdogs r) = engineRoute r" by (simp add: topology_def)
  then show ?thesis
    using \<open>topology (clearEngineWatchdogs r) = topology r\<close>
    by (simp add: closeEngineRoute_def Let_def topology_def emit_def split: option.split)
qed

lemma links_close:
  assumes "links (Close_Engine_Route t e # acts) r"
  shows "links acts (closeEngineRoute t e r)"
proof -
  let ?r = "closeEngineRoute t e r"
  have top: "coreValue ?r = coreValue r" "tabMap ?r = tabMap r" "portTabs ?r = portTabs r"
    "engineRoute ?r = (case engineRoute r of None \<Rightarrow> None
       | Some ro \<Rightarrow> if ro_tabId ro = t \<and> ro_ownerEpoch ro = e then None else Some ro)"
    "microtasks ?r = microtasks r" "probes ?r = probes r"
    using closeEngineRoute_topology [of t e r] by (simp_all add: topology_def)
  have "route_inv acts st (engineRoute ?r)"
    if "route_inv (Close_Engine_Route t e # acts) st (engineRoute r)" for st
    using that unfolding top
    by (cases "engineRoute r") (auto simp: route_inv_def split: if_splits)
  with assms show ?thesis
    by (auto simp: links_def top(1-3,5,6) tabs_inv_drop reset_inv_drop)
qed

lemma apply_action_topology:
  "\<not> recursing a \<Longrightarrow> leaves a = [] \<Longrightarrow> a \<noteq> Schedule_Reset_Activation \<Longrightarrow>
    (\<And>t e. a \<noteq> Close_Engine_Route t e) \<Longrightarrow> topology (snd (apply_action env fo a r)) = topology r"
  by (cases a) (simp_all, blast)

lemma links_apply:
  assumes "links (a # acts) r" "\<not> recursing a"
  shows "links acts (snd (apply_action env fo a r))"
proof -
  consider (schedule) "a = Schedule_Reset_Activation" | (retire) t e where "a = Retire_Tab t e"
    | (drop) t where "a = Drop_Tab t" | (close) t e where "a = Close_Engine_Route t e"
    | (other) "leaves a = []" "a \<noteq> Schedule_Reset_Activation" "\<And>t e. a \<noteq> Close_Engine_Route t e"
    by (cases a) auto
  then show ?thesis
  proof cases
    case schedule
    with assms(1) show ?thesis
      by (auto simp: links_def tabs_inv_drop route_inv_drop) (simp add: reset_inv_def)
  next
    case retire
    let ?r = "postToTab t (Retire_Complete t e) r"
    have "links (a # acts) ?r" using assms(1) by (rule links_by_topology) simp
    from links_remove [OF this, of t] retire show ?thesis by simp
  next
    case drop
    with links_remove [OF assms(1), of t] show ?thesis by simp
  next
    case close
    with assms(1) links_close show ?thesis by simp
  next
    case other
    show ?thesis
      by (rule links_by_topology [OF links_drop_action [OF assms(1) other]])
        (rule apply_action_topology [OF assms(2) other])
  qed
qed

lemma links_settle:
  assumes "list_all (\<lambda>a. \<not> recursing a) acts" "links acts r"
  shows "fst (settle env acts r) = Done \<and> links [] (snd (settle env acts r))"
proof -
  have seq: "fst (seq (List.map (apply_action env fo) acts) r) = Done \<and>
      links [] (snd (seq (List.map (apply_action env fo) acts) r))" for fo
    using assms
  proof (induction acts arbitrary: r)
    case (Cons a acts)
    have "fst (apply_action env fo a r) = Done" using Cons.prems by (simp add: apply_action_done)
    then obtain r' where r': "apply_action env fo a r = (Done, r')"
      by (cases "apply_action env fo a r") simp
    have "links acts r'" using links_apply [OF Cons.prems(2), of env fo] Cons.prems(1) r' by simp
    with Cons r' show ?case by simp
  qed simp
  obtain c where "coreValue r = Some c" using assms(2) by (auto simp: links_def)
  with seq show ?thesis by (simp add: settle_def apply_actions_def)
qed

section \<open>Operations of the core and the links\<close>

definition core_links ::
  "coordinator_action list \<Rightarrow> coordinator \<Rightarrow> (js_string \<times> tab_connection) list \<Rightarrow>
     engine_route option \<Rightarrow> nat \<Rightarrow> bool" where
  "core_links acts c tm ro m \<longleftrightarrow>
     tabs_inv acts c tm \<and> route_inv acts (stateValue c) ro \<and> reset_inv acts (stateValue c) m \<and>
     list_all (\<lambda>a. \<not> recursing a) acts"

lemma core_links_Nil:
  "core_links [] c tm ro m \<longleftrightarrow>
     set (tabs c) = fst ` set tm \<and> route_inv [] (stateValue c) ro \<and> reset_inv [] (stateValue c) m"
  by (auto simp: core_links_def tabs_inv_def)

lemma links_Nil:
  "links [] r \<longleftrightarrow>
     (\<exists>c. coreValue r = Some c \<and> core_inv c \<and> valid_requests c \<and>
        conn_inv (tabMap r) (portTabs r) \<and>
        core_links [] c (tabMap r) (engineRoute r) (microtasks r) \<and> probes_inv (probes r))"
  by (auto simp: links_def core_links_def)

fun tears :: "coordinator_action \<Rightarrow> bool" where
  "tears (Close_Engine_Route _ _) = True"
| "tears (Drop_Tab _) = True"
| "tears (Retire_Tab _ _) = True"
| "tears (Route_Request _ _ _ _ _) = True"
| "tears (Drain_Owner _ _) = True"
| "tears _ = False"

lemma gentle_leaving: "list_all (\<lambda>a. \<not> tears a) acts \<Longrightarrow> leaving acts = {}"
proof (induction acts)
  case (Cons a acts)
  then show ?case by (cases a) auto
qed simp

lemma gentle_close: "list_all (\<lambda>a. \<not> tears a) acts \<Longrightarrow> Close_Engine_Route t e \<notin> set acts"
  by (auto simp: list_all_iff)

lemma gentle_plain: "list_all (\<lambda>a. \<not> tears a) acts \<Longrightarrow> list_all (\<lambda>a. \<not> recursing a) acts"
  by (induction acts) (auto elim: recursing.elims)

lemma core_links_gentle:
  assumes "core_links [] c tm ro m" "tabs c' = tabs c" "stateValue c' = stateValue c"
    "list_all (\<lambda>a. \<not> tears a) acts"
  shows "core_links acts c' tm ro m"
  using assms gentle_leaving [OF assms(4)] gentle_close [OF assms(4)] gentle_plain [OF assms(4)]
  by (auto simp: core_links_def tabs_inv_def route_inv_def reset_inv_def split: option.splits)

lemma plain_rejects [simp]:
  "list_all (\<lambda>a. \<not> recursing a) (List.map (\<lambda>p. reject (f p) (g p) err code) ps)"
  "Close_Engine_Route t e \<notin> (\<lambda>p. reject (f p) (g p) err code) ` S"
  by (auto simp: reject_def list_all_iff)

lemma route_of_owner:
  "route_inv [] s ro \<Longrightarrow> owner_of s = Some (t, e) \<Longrightarrow>
    ro = None \<or> (\<exists>x. ro = Some x \<and> ro_tabId x = t \<and> ro_ownerEpoch x = e)"
  by (cases ro) (auto simp: route_inv_def)

lemma core_links_loss:
  assumes "core_links [] c tm ro m" "owner_of (stateValue c) = Some (t, e)"
  shows "core_links (lossActions t e reason c) (lostCore t e reason c) tm ro m"
  using assms route_of_owner [of "stateValue c" ro t e]
  by (auto simp: core_links_def lossActions_def lostCore_def tabs_inv_def route_inv_def reset_inv_def
      split: option.splits)

lemma activateNext_tears [simp]:
  "list_all (\<lambda>a. \<not> tears a) (fst (activateNext a c))"
  "list_all (\<lambda>a. \<not> recursing a) (fst (activateNext a c))"
  "leaving (fst (activateNext a c)) = {}"
  "Close_Engine_Route t e \<notin> set (fst (activateNext a c))"
  by (simp_all add: activateNext_def Let_def)

lemma activateNext_idle [simp]:
  "serving_epoch (stateValue (snd (activateNext a c))) = None"
  "\<not> resetting (stateValue (snd (activateNext a c)))"
  by (simp_all add: activateNext_def Let_def)

lemma core_links_departed:
  assumes "core_inv c" "core_links [] c tm ro m" "owner_of (stateValue c) = Some (t, e)"
    "leaves a = [t]" "\<not> recursing a" "\<And>t e. a \<noteq> Close_Engine_Route t e"
  shows "core_links (List.map (\<lambda>p. reject (f p) (g p) err code) ps @
      [Close_Engine_Route t e, a] @ fst (activateNext b c1))
    (snd (activateNext b ((removeTabRecord t (c\<lparr>inFlight := []\<rparr>))\<lparr>retiringTabs := x, stateValue := s\<rparr>)))
    tm ro m"
proof -
  have dist: "distinct (tabs c)" and mem: "t \<in> set (tabs c)"
    using assms(1) core_inv_owner [OF assms(1,3)] by (simp_all add: core_inv_def base_inv_def)
  have route: "ro = None \<or> (\<exists>x. ro = Some x \<and> ro_tabId x = t \<and> ro_ownerEpoch x = e)"
    using assms(2,3) by (intro route_of_owner) (simp_all add: core_links_Nil)
  let ?A = "List.map (\<lambda>p. reject (f p) (g p) err code) ps @
      [Close_Engine_Route t e, a] @ fst (activateNext b c1)"
  let ?c = "snd (activateNext b ((removeTabRecord t (c\<lparr>inFlight := []\<rparr>))
      \<lparr>retiringTabs := x, stateValue := s\<rparr>))"
  have rm: "set (tabs ?c) = set (tabs c) - {t}" using dist by (simp add: set_remove1_eq)
  have leave: "leaving ?A = {t}" using assms(4) by simp
  have "tabs_inv ?A ?c tm"
    using assms(2) mem unfolding core_links_Nil tabs_inv_def rm leave by auto
  moreover have "route_inv ?A (stateValue ?c) ro"
    using route by (auto simp: route_inv_def)
  moreover have "reset_inv ?A (stateValue ?c) m" by (simp add: reset_inv_def)
  moreover have "list_all (\<lambda>a. \<not> recursing a) ?A" using assms(5) by simp
  ultimately show ?thesis by (simp add: core_links_def)
qed

lemma core_links_drained:
  assumes "core_inv c" "core_links [] c tm ro m" "engineDrained t e c = (Inr acts, c')"
  shows "core_links acts c' tm ro m"
proof (cases "stateValue c = Draining t e")
  case True
  from core_links_departed [OF assms(1,2), of t e "Retire_Tab t e"] True assms(1,3)
  show ?thesis by (auto simp: engineDrained_owner Let_def case_prod_beta)
next
  case False
  with assms(2,3) show ?thesis
    by (auto simp: engineDrained_def recordProtocolViolation_def intro: core_links_gentle)
qed

lemma core_links_navigation:
  assumes "core_inv c" "core_links [] c tm ro m" "departForNavigation t e reason c = (Inr acts, c')"
  shows "core_links acts c' tm ro m"
proof (cases "owner_of (stateValue c) = Some (t, e)")
  case True
  from core_links_departed [OF assms(1,2) True, of "Drop_Tab t"] True assms(1,3)
  show ?thesis by (auto simp: departForNavigation_owner Let_def case_prod_beta)
next
  case False
  with assms(2,3) show ?thesis
    by (auto simp: departForNavigation_def recordProtocolViolation_def intro: core_links_gentle)
qed

lemma core_links_tabLost:
  assumes "core_inv c" "core_links [] c tm ro m" "tabLost t reason c = (Inr acts, c')"
  shows "core_links acts c' tm ro m"
proof -
  have dist: "distinct (tabs c)" using assms(1) by (simp add: core_inv_def base_inv_def)
  have rm: "set (remove1 t (tabs c)) = set (tabs c) - {t}" using dist by (rule set_remove1_eq)
  consider "t \<notin> set (tabs c)" | ep where "owner_of (stateValue c) = Some (t, ep)"
    | "t \<in> set (tabs c)" "\<And>ep. owner_of (stateValue c) \<noteq> Some (t, ep)" by blast
  then show ?thesis
  proof cases
    case 1
    with assms(2,3) show ?thesis by (simp add: tabLost_def)
  next
    case 2
    let ?L = "lossActions t ep reason c"
    have eqs: "acts = Drop_Tab t # ?L"
      "c' = (removeTabRecord t (lostCore t ep reason c))\<lparr>retiringTabs := retiringTabs c - {t}\<rparr>"
      using assms(3) tabLost_owner [OF assms(1) 2, of reason]
      by (simp_all add: lossActions_def lostCore_def)
    have parts: "set (tabs c') = set (tabs c) - {t}" "stateValue c' = stateValue (lostCore t ep reason c)"
      "tabs (lostCore t ep reason c) = tabs c" "leaving ?L = {}"
      using rm by (simp_all add: eqs lostCore_def lossActions_def)
    have loss: "core_links ?L (lostCore t ep reason c) tm ro m" by (rule core_links_loss [OF assms(2) 2])
    then have "tabs_inv acts c' tm"
      unfolding core_links_def tabs_inv_def parts eqs(1) leaving_simps by auto
    with loss show ?thesis
      by (simp add: core_links_def parts eqs(1) route_inv_drop reset_inv_drop)
  next
    case 3
    then have "acts = [Drop_Tab t]"
      "c' = (removeTabRecord t c)\<lparr>retiringTabs := retiringTabs c - {t}\<rparr>"
      using assms(3) tabLost_standby [OF assms(1) 3, of reason] by simp_all
    with assms(2) rm show ?thesis
      by (auto simp: core_links_def tabs_inv_def route_inv_drop reset_inv_drop)
  qed
qed

lemma core_links_resume:
  assumes "core_links [] c tm ro m" "core_inv c" "resumeAfterLoss c = (Inr acts, c')"
    "\<not> resetting (stateValue c) \<longrightarrow> reset_inv [] (stateValue c) m'"
  shows "core_links acts c' tm ro m'"
proof (cases "resetting (stateValue c)")
  case True
  then obtain p pe ne why where s: "stateValue c = Resetting_After_Loss p pe ne why"
    by (cases "stateValue c") auto
  then have "ro = None" using assms(1) by (auto simp: core_links_Nil route_inv_def split: option.splits)
  with s assms show ?thesis
    by (cases "chooseCandidate (Some p) c")
      (auto simp: resumeAfterLoss_candidate resumeAfterLoss_nobody core_links_def tabs_inv_def
        route_inv_def reset_inv_def)
next
  case False
  then have "resumeAfterLoss c = (Inr [], c)" by (cases "stateValue c") (auto simp: resumeAfterLoss_def)
  with assms False show ?thesis by (simp add: core_links_Nil)
qed

lemma engineResponse_acts:
  "engineResponse e n response c = (Inr acts, c') \<Longrightarrow>
    tabs c' = tabs c \<and> stateValue c' = stateValue c \<and> list_all (\<lambda>a. \<not> tears a) acts"
  by (auto simp: engineResponse_def dropStale_def Let_def split: if_splits option.splits)

lemma enginePush_acts:
  "enginePush e push c = (Inr acts, c') \<Longrightarrow>
    tabs c' = tabs c \<and> stateValue c' = stateValue c \<and> list_all (\<lambda>a. \<not> tears a) acts"
  by (auto simp: enginePush_def dropStale_def Let_def split: if_splits)

end
