(* ===== verification/Coord_Router_Links.thy ===== *)
theory Coord_Router_Links
  imports Coord_Router_Laws
begin

text \<open>
  Every event keeps the links between the coordinator core and the router: the connected tabs
  are the registered tabs, ports and tabs correspond one to one, the engine route belongs to the
  owner, a serving owner has a route, and a pending reset has a microtask that resumes it.
\<close>

section \<open>Every router operation keeps the links\<close>

lemma valid_requests_step:
  assumes "core_inv c" "valid_requests c" "\<forall>p \<in> asked e. isCacheRequest (snd p)"
  shows "valid_requests (snd (core_step e c))"
  using flight_step [OF assms(1), of e] assms(2,3)
  by (auto simp: valid_requests_def flight_effect_def)

definition core_exhausted :: "router \<Rightarrow> bool" where
  "core_exhausted r \<longleftrightarrow> (\<exists>c. coreValue r = Some c \<and> exhausted c)"

text \<open>
  The outcome of an operation: the links hold afterwards, and it ran to its end unless the core
  ran out of route ids.
\<close>

definition kept :: "completion \<times> router \<Rightarrow> bool" where
  "kept x \<longleftrightarrow> links [] (snd x) \<and>
     (fst x = Done \<or> (\<exists>err. fst x = Threw err) \<and> core_exhausted (snd x))"

lemma kept_Done [simp]: "kept (Done, r) \<longleftrightarrow> links [] r"
  by (simp add: kept_def)

lemma kept_threw: "kept (Threw err, r) \<longleftrightarrow> links [] r \<and> core_exhausted r"
  by (simp add: kept_def)

lemma kept_same: "links [] r \<Longrightarrow> topology r' = topology r \<Longrightarrow> kept (Done, r')"
  by (simp add: links_by_topology)

lemma kept_seq:
  "(\<And>f r. f \<in> set fs \<Longrightarrow> links [] r \<Longrightarrow> kept (f r)) \<Longrightarrow> links [] r \<Longrightarrow> kept (seq fs r)"
proof (induction fs arbitrary: r)
  case (Cons f fs)
  have k: "kept (f r)" using Cons.prems by simp
  obtain x r' where f: "f r = (x, r')" by fastforce
  show ?case
  proof (cases "x = Done")
    case True
    with k f have "links [] r'" by simp
    with Cons.IH [of r'] Cons.prems(1) f True show ?thesis by simp
  next
    case False
    with k f show ?thesis by (auto simp: kept_def split: completion.split)
  qed
qed simp

lemma core_returns:
  assumes "core_inv c" "\<And>t r. e \<noteq> Ev_Request t r" "\<And>ready. e \<noteq> Ev_Engine_Ready ready"
  shows "\<exists>acts. fst (core_step e c) = Inr acts"
  using step_returns [OF assms(1), of e] assms(2,3) by blast

text \<open>A call of the core whose actions only tear links down, and their application.\<close>

lemma kept_settle:
  assumes "links [] r" "coreValue r = Some c" "core_step e c = (Inr acts, c')" "event_ok e"
    "\<forall>p \<in> asked e. isCacheRequest (snd p)"
    "core_links acts c' (tabMap r) (engineRoute r) (microtasks r)"
    "topology r' = topology (r\<lparr>coreValue := Some c'\<rparr>)"
  shows "kept (settle env acts r')"
proof -
  have c: "core_inv c" "valid_requests c" "conn_inv (tabMap r) (portTabs r)"
    "probes_inv (probes r)"
    using assms(1,2) by (auto simp: links_Nil)
  have "links acts (r\<lparr>coreValue := Some c'\<rparr>)"
    using core_inv_step [OF c(1) assms(4)] valid_requests_step [OF c(1,2) assms(5)] assms(3,6) c(3,4)
    by (simp add: links_def core_links_def)
  then have "links acts r'" using assms(7) by (rule links_by_topology)
  with assms(6) links_settle [of acts r' env] show ?thesis by (simp add: kept_def core_links_def)
qed

lemma kept_failOwner:
  assumes "links [] r"
  shows "kept (failOwner env t e reason f g r)"
proof -
  obtain c where c: "coreValue r = Some c" "core_inv c" "core_links [] c (tabMap r) (engineRoute r) (microtasks r)"
    using assms by (auto simp: links_Nil)
  show ?thesis
  proof (cases "owner_of (stateValue c) = Some (t, e)")
    case False
    with assms c show ?thesis by (simp add: failOwner_idle)
  next
    case True
    have "core_step (Ev_Owner_Lost t e reason) c = (Inr (lossActions t e reason c), lostCore t e reason c)"
      by (simp add: ownerLost_owner c True)
    from kept_settle [OF assms c(1) this _ _ core_links_loss [OF c(3) True]]
    show ?thesis by (simp add: failOwner_owner c True)
  qed
qed

lemma kept_plainFail: "links [] r \<Longrightarrow> kept (plainFail env t e reason r)"
  by (simp add: plainFail_def kept_failOwner)

lemma kept_send:
  assumes "links [] r" "\<And>r. links [] r \<Longrightarrow> kept (sent r)"
  shows "kept (sendToEngine env (plainFail env) ro message sent r)"
  using assms(1) assms(2) [OF links_by_topology [OF assms(1)]]
  by (simp add: sendToEngine_def kept_plainFail split: option.split)

text \<open>Actions that leave the links alone, or fail the owner.\<close>

fun routing :: "coordinator_action \<Rightarrow> bool" where
  "routing (Route_Request _ _ _ _ _) = True"
| "routing (Drain_Owner _ _) = True"
| "routing (Broadcast_Engine_Replaced _) = True"
| "routing _ = False"

lemma kept_routing:
  assumes "links [] r" "routing a"
  shows "kept (apply_action env (plainFail env) a r)"
proof (cases a)
  case (Route_Request ot rt e n req)
  let ?r = "r\<lparr>routeStarted := AList.update n
            \<lparr> rt_startedAt = env_now env, rt_ownerEpoch = e,
              rt_category = operationCategoryForRequest req \<rparr> (routeStarted r)\<rparr>"
  have "links [] ?r" using assms(1) by (rule links_by_topology) simp
  then show ?thesis
    unfolding Route_Request by (auto simp: Let_def kept_plainFail skip_def intro!: kept_send split: option.split)
next
  case (Drain_Owner t e)
  let ?r = "clearHeartbeatTimers
            (telemetry (owner_observation Out_Graceful (Some Graceful_Drain_Started)) r)"
  have "links [] ?r" using assms(1) by (rule links_by_topology) simp
  then show ?thesis
    unfolding Drain_Owner by (auto simp: Let_def kept_plainFail skip_def intro!: kept_send split: option.split)
next
  case (Broadcast_Engine_Replaced e)
  show ?thesis
    unfolding Broadcast_Engine_Replaced apply_action.simps by (rule kept_same [OF assms(1)]) simp
qed (use assms in simp_all)

lemma kept_applyActions_routing:
  "links [] r \<Longrightarrow> list_all routing acts \<Longrightarrow> kept (applyActions env acts r)"
  by (auto simp: applyActions_def apply_actions_def list_all_iff kept_routing
      intro!: kept_seq split: option.split)

text \<open>A call of the core after which the links hold at once.\<close>

lemma links_core_update:
  assumes "links [] r" "coreValue r = Some c" "core_step e c = (res, c')" "event_ok e"
    "\<forall>p \<in> asked e. isCacheRequest (snd p)"
    "tabs c' = tabs c" "route_inv [] (stateValue c') (engineRoute r)" "\<not> resetting (stateValue c')"
  shows "links [] (r\<lparr>coreValue := Some c'\<rparr>)"
proof -
  have c: "core_inv c" "valid_requests c" "conn_inv (tabMap r) (portTabs r)"
    "core_links [] c (tabMap r) (engineRoute r) (microtasks r)" "probes_inv (probes r)"
    using assms(1,2) by (auto simp: links_Nil)
  show ?thesis
    using core_inv_step [OF c(1) assms(4)] valid_requests_step [OF c(1,2) assms(5)] assms(3,6-8) c(3-5)
    by (simp add: links_Nil core_links_Nil reset_inv_def)
qed

lemma request_outcome:
  assumes "core_inv c" "core_step (Ev_Request t q) c = (res, c')"
  shows "tabs c' = tabs c \<and> stateValue c' = stateValue c \<and>
    (case res of Inl err \<Rightarrow> exhausted c'
     | Inr acts \<Rightarrow> list_all routing acts \<or> (\<exists>err. acts = [Reject_Request t (request_id q) err None]))"
proof (cases "t \<in> set (tabs c) \<and> t \<notin> retiringTabs c")
  case False
  with assms show ?thesis by (auto simp: request_def reject_def split: if_splits)
next
  case True
  let ?q = "\<lparr>qr_tabId = t, qr_request = q\<rparr>"
  show ?thesis
  proof (cases "\<exists>ot e. stateValue c = Active ot e")
    case False
    with True assms show ?thesis by (cases "stateValue c") (auto simp: request_def Let_def)
  next
    case act: True
    then obtain ot e where s: "stateValue c = Active ot e" by blast
    have "inflight_inv c" using assms(1) by (simp add: core_inv_def)
    then show ?thesis
      by (cases rule: route_cases [where q = ?q and t = ot and e = e])
        (use True s assms in \<open>auto simp: request_def Let_def routed_request_def\<close>)
  qed
qed

lemma links_request:
  assumes "links [] r" "isCacheRequest q" "coreValue r = Some c" "request t q c = (res, c')"
  shows "links [] (r\<lparr>coreValue := Some c'\<rparr>)"
proof -
  have c: "core_inv c" "core_links [] c (tabMap r) (engineRoute r) (microtasks r)"
    using assms(1,3) by (auto simp: links_Nil)
  have step: "core_step (Ev_Request t q) c = (res, c')" using assms(4) by simp
  note out = request_outcome [OF c(1) step]
  show ?thesis
  proof (cases "resetting (stateValue c)")
    case False
    then show ?thesis
      using links_core_update [OF assms(1,3) step] out assms(2) c(2) by (simp add: core_links_Nil)
  next
    case True
    then show ?thesis
      using core_inv_step [OF c(1), of "Ev_Request t q"] valid_requests_step [OF c(1), of "Ev_Request t q"]
        step out assms c by (simp add: links_Nil core_links_Nil)
  qed
qed

lemma kept_request:
  assumes "links [] r" "isCacheRequest q"
  shows "kept (call_core (request t q) (applyActions env) r)"
proof -
  obtain c where c: "coreValue r = Some c" "core_inv c" using assms by (auto simp: links_Nil)
  obtain res c' where m: "request t q c = (res, c')" by fastforce
  have "core_step (Ev_Request t q) c = (res, c')" using m by simp
  note out = request_outcome [OF c(2) this] and links = links_request [OF assms c(1) m]
  from links show ?thesis
    using out c(1) m
    by (cases res)
      (auto simp: call_core_def kept_def core_exhausted_def kept_applyActions_routing
        applyActions_def apply_actions_def links_by_topology
        dest: kept_applyActions_routing [of _ _ env, unfolded kept_def applyActions_def apply_actions_def])
qed

subsection \<open>Engine messages\<close>

lemma kept_call:
  assumes "links [] r" "coreValue r = Some c" "f c = core_step e c" "event_ok e"
    "\<forall>p \<in> asked e. isCacheRequest (snd p)" "\<And>t r. e \<noteq> Ev_Request t r"
    "\<And>ready. e \<noteq> Ev_Engine_Ready ready"
    "\<And>acts c'. core_step e c = (Inr acts, c') \<Longrightarrow>
       core_links acts c' (tabMap r) (engineRoute r) (microtasks r)"
  shows "kept (call_core f (applyActions env) r)"
proof -
  have inv: "core_inv c" using assms(1,2) by (auto simp: links_Nil)
  obtain acts c' where step: "core_step e c = (Inr acts, c')"
    using core_returns [OF inv assms(6,7)] by (cases "core_step e c") auto
  have links: "core_links acts c' (tabMap r) (engineRoute r) (microtasks r)"
    by (rule assms(8) [OF step])
  then have plain: "list_all (\<lambda>a. \<not> recursing a) acts" by (simp add: core_links_def)
  from kept_settle [OF assms(1,2) step assms(4,5) links refl]
  show ?thesis
    by (simp add: call_core_def assms(2,3) step applyActions_settle [OF plain])
qed

lemma accepted_flush:
  assumes "core_inv c" "stateValue c = Activating (er_tabId ready) (er_ownerEpoch ready) a"
    "ready_error ready = None" "engineReady ready c = (res, c')"
  shows "tabs c' = tabs c \<and> stateValue c' = Active (er_tabId ready) (er_ownerEpoch ready) \<and>
    (case res of Inl err \<Rightarrow> exhausted c' | Inr acts \<Rightarrow> list_all routing acts)"
proof -
  let ?t = "er_tabId ready" and ?e = "er_ownerEpoch ready"
  let ?c1 = "c\<lparr>stateValue := Active ?t ?e\<rparr>"
  let ?acts = "if 1 < ?e then [Broadcast_Engine_Replaced ?e] else []"
  have inv1: "owner_inv ?t ?e ?c1" by (rule core_inv_activated [OF assms(1,2)])
  have queued: "\<forall>q \<in> set (queuedRequests c). qr_tabId q \<in> set (tabs ?c1)"
    using assms(1) by (simp add: core_inv_defs)
  obtain res1 c1 where f: "flush_queue ?t ?e (queuedRequests c) ?acts ?c1 = (res1, c1)" by fastforce
  note out = flush_queue_outcome [OF inv1 queued, of ?acts, unfolded f]
  have routing: "list_all routing (flushed_actions t e n qs)" for t e n qs
    by (induction qs arbitrary: n) (simp_all add: routed_request_def)
  have tabs: "tabs c1 = tabs c"
    using flush_queue_tabs [of ?t ?e "queuedRequests c" ?acts ?c1] f by simp
  show ?thesis
  proof (cases res1)
    case (Inl err)
    with out have "owner_inv ?t ?e c1" "exhausted c1" by simp_all
    with Inl assms(4) f tabs show ?thesis
      by (auto simp: engineReady_accepted [OF assms(2,3)] owner_inv_def)
  next
    case (Inr acts)
    with out have o: "owner_inv ?t ?e c1" "acts = ?acts @ flushed_actions ?t ?e (nextRouteId c) (queuedRequests c)"
      "queuedRequests c1 = []" by auto
    then have "core_inv c1" by (simp add: core_inv_active owner_inv_def)
    with Inr assms(4) f o tabs routing show ?thesis
      by (auto simp: engineReady_accepted [OF assms(2,3)] owner_inv_def)
  qed
qed

lemma links_accepted:
  assumes "links [] r" "coreValue r = Some c"
    "stateValue c = Activating (er_tabId ready) (er_ownerEpoch ready) a"
    "ready_error ready = None" "engineReady ready c = (res, c')" "engineRoute r = Some ro"
    "ro_tabId ro = er_tabId ready" "ro_ownerEpoch ro = er_ownerEpoch ready"
  shows "links [] (r\<lparr>coreValue := Some c'\<rparr>)"
proof -
  have "core_inv c" using assms(1,2) by (auto simp: links_Nil)
  note out = accepted_flush [OF this assms(3-5)]
  have step: "core_step (Ev_Engine_Ready ready) c = (res, c')" using assms(5) by simp
  show ?thesis
    by (rule links_core_update [OF assms(1,2) step])
      (use out assms(6-8) in \<open>simp_all add: route_inv_def\<close>)
qed

lemma kept_afterReady:
  assumes "links [] r"
  shows "kept (afterReady env ro e out violated r)"
proof (cases violated)
  case True
  have "kept (Done, postTerminateEngine (ro_tabId ro) (ro_ownerEpoch ro)
      (js ''engine readiness proof was rejected'') r)"
    by (rule kept_same [OF assms]) simp
  with True assms show ?thesis by (simp add: afterReady_def kept_failOwner)
next
  case False
  have "kept (Done, engineActivated env e out r)" by (rule kept_same [OF assms]) simp
  with False assms show ?thesis
    by (simp add: afterReady_def split: option.split coordinator_state.split)
qed

lemma seq_single: "seq [f] r = f r"
  by (auto split: prod.split completion.split)

lemma seq_upd: "seq [upd f, g] r = g (f r)"
proof -
  have "seq [upd f, g] r = seq [g] (f r)"
    by (subst seq.simps(2)) (simp add: upd_def del: seq.simps)
  then show ?thesis by (simp only: seq_single)
qed

lemma kept_chain:
  assumes "kept (f r)" "\<And>r. links [] r \<Longrightarrow> kept (g r)"
  shows "kept (seq [f, g] r)"
proof -
  obtain x r' where f: "f r = (x, r')" by fastforce
  show ?thesis
  proof (cases "x = Done")
    case True
    with assms(1) f have "links [] r'" by simp
    moreover have "seq [f, g] r = seq [g] r'"
      by (subst seq.simps(2)) (simp add: f True del: seq.simps)
    ultimately show ?thesis using assms(2) by (simp add: seq_single del: seq.simps)
  next
    case False
    with assms(1) f show ?thesis by (auto simp: kept_def split: completion.split)
  qed
qed

text \<open>An accepted engine: the route and the message agree on the owner.\<close>

lemma kept_ready:
  assumes "links [] r" "engineRoute r = Some ro" "ro_tabId ro = t" "ro_ownerEpoch ro = e"
  shows "kept (dispatchEngine env ro (Engine_Ready t e lock proof out) r)"
proof -
  let ?ready = "to_ready t e lock proof out (databaseOwnerLockName (scope_of r))"
  obtain c where c: "coreValue r = Some c" "core_inv c"
    "core_links [] c (tabMap r) (engineRoute r) (microtasks r)"
    using assms by (auto simp: links_Nil)
  have ready: "er_tabId ?ready = t" "er_ownerEpoch ?ready = e" by (simp_all add: to_ready_def)
  obtain res c' where m: "engineReady ?ready c = (res, c')" by fastforce
  then have step: "core_step (Ev_Engine_Ready ?ready) c = (res, c')" by simp
  note settle = kept_settle [OF assms(1) c(1), where e = "Ev_Engine_Ready ?ready"]
  show ?thesis
  proof (cases "\<exists>a. stateValue c = Activating t e a")
    case False
    then have res: "res = Inr [Protocol_Violation (js ''unexpected engine-ready from '' @ t @
         js '' at epoch '' @ js_nat e)]" "tabs c' = tabs c" "stateValue c' = stateValue c"
      using m by (auto simp: engineReady_unexpected ready)
    have "kept (settle env [Protocol_Violation (js ''unexpected engine-ready from '' @ t @
         js '' at epoch '' @ js_nat e)] (r\<lparr>coreValue := Some c'\<rparr>))"
      by (rule settle) (use step res c core_links_gentle [OF c(3) res(2,3)] in simp_all)
    then show ?thesis
      by (auto simp: call_core_def c(1) m res(1) applyActions_settle kept_afterReady
          simp del: seq.simps intro!: kept_chain)
  next
    case True
    then obtain a where a: "stateValue c = Activating (er_tabId ?ready) (er_ownerEpoch ?ready) a"
      by (auto simp: ready)
    show ?thesis
    proof (cases "ready_error ?ready")
      case (Some err)
      have acts: "core_links [Protocol_Violation err, Close_Engine_Route t e, Schedule_Reset_Activation]
          c' (tabMap r) (engineRoute r) (microtasks r)"
        using m c assms(2-4) a
        by (auto simp: engineReady_refused [OF c(2) a Some] ready core_links_def tabs_inv_def
            route_inv_def reset_inv_def)
      have "kept (settle env [Protocol_Violation err, Close_Engine_Route t e, Schedule_Reset_Activation]
          (r\<lparr>coreValue := Some c'\<rparr>))"
        by (rule settle [OF _ _ _ acts]) (use m in \<open>auto simp: engineReady_refused [OF c(2) a Some] ready\<close>)
      then show ?thesis using m
        by (auto simp: call_core_def c(1) engineReady_refused [OF c(2) a Some] ready
            applyActions_settle kept_afterReady simp del: seq.simps intro!: kept_chain)
    next
      case None
      note out = accepted_flush [OF c(2) a None m]
      have "links [] (r\<lparr>coreValue := Some c'\<rparr>)"
        by (rule links_accepted [OF assms(1) c(1) a None m assms(2)])
          (use assms(3,4) in \<open>simp_all add: ready\<close>)
      then show ?thesis
        using out m
        by (cases res)
          (auto simp: call_core_def c(1) kept_threw core_exhausted_def
            kept_applyActions_routing kept_afterReady simp del: seq.simps intro!: kept_chain)
    qed
  qed
qed

lemma kept_dispatchEngine:
  assumes "links [] r" "engineRoute r = Some ro" "ec_epoch msg = ro_ownerEpoch ro"
    "\<And>t. ec_tab msg = Some t \<Longrightarrow> t = ro_tabId ro"
  shows "kept (dispatchEngine env ro msg r)"
proof -
  obtain c where c: "coreValue r = Some c" "core_inv c"
    "core_links [] c (tabMap r) (engineRoute r) (microtasks r)"
    using assms by (auto simp: links_Nil)
  show ?thesis
  proof (cases msg)
    case (Engine_Ready t e lock pr out)
    with assms show ?thesis by (simp add: kept_ready del: dispatchEngine.simps)
  next
    case (Engine_Response e n response)
    let ?r = "finishTiming env n response r"
    have top: "topology ?r = topology r" by simp
    have l: "links [] ?r" using assms(1) top by (rule links_by_topology)
    have k: "coreValue ?r = Some c" "core_links [] c (tabMap ?r) (engineRoute ?r) (microtasks ?r)"
      using c top by (simp_all add: topology_def)
    show ?thesis
      unfolding Engine_Response dispatchEngine.simps
      by (rule kept_call [OF l k(1), where e = "Ev_Engine_Response e n response"])
        (use core_links_gentle [OF k(2)] engineResponse_acts in auto)
  next
    case (Engine_Push e push)
    show ?thesis
      unfolding Engine_Push dispatchEngine.simps
      by (rule kept_call [OF assms(1) c(1), where e = "Ev_Engine_Push e push"])
        (use core_links_gentle [OF c(3)] enginePush_acts in auto)
  next
    case (Engine_Drained t e)
    obtain acts c' where step: "core_step (Ev_Engine_Drained t e) c = (Inr acts, c')"
      using core_returns [OF c(2), of "Ev_Engine_Drained t e"]
      by (cases "core_step (Ev_Engine_Drained t e) c") auto
    have acts: "core_links acts c' (tabMap r) (engineRoute r) (microtasks r)"
      using step by (intro core_links_drained [OF c(2,3)]) simp
    then have plain: "list_all (\<lambda>a. \<not> recursing a) acts" by (simp add: core_links_def)
    have settled: "kept (settle env acts r')" if "topology r' = topology (r\<lparr>coreValue := Some c'\<rparr>)" for r'
      using that by (intro kept_settle [OF assms(1) c(1) step _ _ acts]) simp_all
    show ?thesis
    proof (cases "list_ex is_violation acts")
      case True
      with step settled [OF refl] show ?thesis
        by (auto simp: Engine_Drained call_core_def c(1) applyActions_settle [OF plain] kept_failOwner
            simp del: seq.simps intro!: kept_chain)
    next
      case False
      with False step settled show ?thesis
        by (simp add: Engine_Drained call_core_def c(1) applyActions_settle [OF plain] seq_upd
            del: seq.simps)
    qed
  next
    case (Heartbeat_Ack e h)
    have "kept (Done, acceptHeartbeat e h r)" by (rule kept_same [OF assms(1)]) simp
    with Heartbeat_Ack show ?thesis by simp
  qed (use assms(1) in \<open>simp_all add: kept_failOwner\<close>)
qed

lemma kept_engineMessage:
  assumes "links [] r" "engineRoute r = Some ro"
  shows "kept (handleEngineMessage env ro raw r)"
  using assms
  by (auto simp: handleEngineMessage_def kept_failOwner intro!: kept_dispatchEngine
      split: sum.split option.splits)

subsection \<open>Page messages\<close>

lemma kept_attach:
  assumes "links [] r"
  shows "kept (attachEnginePort env t e port r)"
proof -
  have l: "links [] (emit (Close_Endpoint port) r)" using assms by (rule links_by_topology) simp
  show ?thesis
  proof (cases "\<not> expects t e r \<or> engineRoute r \<noteq> None")
    case True
    have "kept (Done, postProtocolError p err (emit (Close_Endpoint port) r))" for p err
      by (rule kept_same [OF l]) simp
    with True l show ?thesis by (simp add: attachEnginePort_def Let_def kept_failOwner)
  next
    case False
    then obtain c a where c: "coreValue r = Some c" "stateValue c = Activating t e a"
      by (auto simp: expects_def expectsEngine_def split: option.splits coordinator_state.splits)
    have "links [] (r\<lparr>engineRoute := Some \<lparr> ro_tabId = t, ro_ownerEpoch = e, ro_transport = nextHandle r \<rparr>,
              nextHandle := nextHandle r + 1\<rparr>)"
      using assms c by (auto simp: links_Nil core_links_Nil route_inv_def)
    with False l show ?thesis
      by (auto simp: attachEnginePort_def kept_failOwner split: option.split)
  qed
qed

lemma kept_call_nav:
  assumes "links [] r"
  shows "kept (departForNavigation_r env t e reason r)"
proof -
  obtain c where c: "coreValue r = Some c" "core_inv c"
    "core_links [] c (tabMap r) (engineRoute r) (microtasks r)"
    using assms by (auto simp: links_Nil)
  obtain acts c' where step: "core_step (Ev_Navigation_Departure t e reason) c = (Inr acts, c')"
    using core_returns [OF c(2), of "Ev_Navigation_Departure t e reason"]
    by (cases "core_step (Ev_Navigation_Departure t e reason) c") auto
  have acts: "core_links acts c' (tabMap r) (engineRoute r) (microtasks r)"
    using step by (intro core_links_navigation [OF c(2,3)]) simp
  then have plain: "list_all (\<lambda>a. \<not> recursing a) acts" by (simp add: core_links_def)
  have settled: "kept (settle env acts r')" if "topology r' = topology (r\<lparr>coreValue := Some c'\<rparr>)" for r'
    using that by (intro kept_settle [OF assms c(1) step _ _ acts]) simp_all
  with step settled show ?thesis
    by (simp add: departForNavigation_r_def core_state_def c(1) call_core_def
        applyActions_settle [OF plain] seq_upd del: seq.simps)
qed

lemma kept_loseTab:
  assumes "links [] r"
  shows "kept (loseTab env t reason r)"
proof -
  obtain c where c: "coreValue r = Some c" "core_inv c"
    "core_links [] c (tabMap r) (engineRoute r) (microtasks r)"
    using assms by (auto simp: links_Nil)
  let ?r = "case owner_of (stateValue c) of
      Some (t', e) \<Rightarrow> if t' = t then recordOwnerLoss env t e reason None None r else r
    | None \<Rightarrow> r"
  have top: "topology ?r = topology r" by (simp split: option.split prod.split)
  have l: "links [] ?r" using assms top by (rule links_by_topology)
  have k: "coreValue ?r = Some c" "core_links [] c (tabMap ?r) (engineRoute ?r) (microtasks ?r)"
    using c top by (simp_all add: topology_def)
  have "kept (call_core (tabLost t reason) (applyActions env) ?r)"
    by (rule kept_call [OF l k(1), where e = "Ev_Tab_Lost t reason"])
      (use core_links_tabLost [OF c(2) k(2)] in auto)
  then show ?thesis by (simp add: loseTab_def core_state_def c(1))
qed

lemma kept_graceful:
  assumes "links [] r"
  shows "kept (call_core (beginGracefulDeparture t e) (applyActions env) r)"
proof -
  obtain c where c: "coreValue r = Some c" "core_inv c"
    "core_links [] c (tabMap r) (engineRoute r) (microtasks r)"
    using assms by (auto simp: links_Nil)
  show ?thesis
  proof (cases "stateValue c = Active t e")
    case True
    obtain c' where step: "core_step (Ev_Graceful_Departure t e) c = (Inr [Drain_Owner t e], c')"
      "tabs c' = tabs c" "stateValue c' = Draining t e"
      using True by (simp add: beginGracefulDeparture_def)
    have "links [] (r\<lparr>coreValue := Some c'\<rparr>)"
      by (rule links_core_update [OF assms c(1) step(1)])
        (use step c(3) True in \<open>auto simp: core_links_Nil route_inv_def split: option.splits\<close>)
    then have "kept (applyActions env [Drain_Owner t e] (r\<lparr>coreValue := Some c'\<rparr>))"
      by (rule kept_applyActions_routing) simp
    with step c show ?thesis by (simp add: call_core_def)
  next
    case False
    show ?thesis
      by (rule kept_call [OF assms c(1), where e = "Ev_Graceful_Departure t e"])
        (use False core_links_gentle [OF c(3)] in
          \<open>auto simp: beginGracefulDeparture_def recordProtocolViolation_def\<close>)
  qed
qed

lemma kept_dispatchTab:
  assumes "links [] r" "wf_tab_to_coordinator msg"
  shows "kept (dispatchTab env t msg r)"
  using assms
  by (cases msg)
    (simp_all add: kept_request kept_attach kept_graceful kept_call_nav kept_failOwner kept_loseTab
      skip_def)

subsection \<open>Before the first registration\<close>

text \<open>The invariant of the router: before the first registration it has no core and no tab.\<close>

definition unstarted :: "router \<Rightarrow> bool" where
  "unstarted r \<longleftrightarrow>
     coreValue r = None \<and> tabMap r = [] \<and> portTabs r = [] \<and> engineRoute r = None \<and>
     probes_inv (probes r)"

definition router_inv :: "router \<Rightarrow> bool" where
  "router_inv r \<longleftrightarrow> unstarted r \<or> links [] r"

definition kept_inv :: "completion \<times> router \<Rightarrow> bool" where
  "kept_inv x \<longleftrightarrow> router_inv (snd x) \<and>
     (fst x = Done \<or> (\<exists>err. fst x = Threw err) \<and> core_exhausted (snd x))"

lemma kept_inv_Done [simp]: "kept_inv (Done, r) \<longleftrightarrow> router_inv r"
  by (simp add: kept_inv_def)

lemma kept_inv_kept: "kept x \<Longrightarrow> kept_inv x"
  by (auto simp: kept_def kept_inv_def router_inv_def)

lemma unstarted_topology: "unstarted r \<Longrightarrow> topology r' = topology r \<Longrightarrow> unstarted r'"
  by (simp add: unstarted_def topology_def)

lemma router_inv_topology: "router_inv r \<Longrightarrow> topology r' = topology r \<Longrightarrow> router_inv r'"
  using unstarted_topology links_by_topology by (auto simp: router_inv_def)

lemma router_inv_initial: "router_inv initial_router"
  by (simp add: router_inv_def unstarted_def initial_router_def probes_inv_def)

lemma router_inv_probes:
  assumes "router_inv r" "probes_inv ps" "topology r' = topology r"
  shows "router_inv (r'\<lparr>probes := ps\<rparr>)"
proof -
  have "router_inv r'" using assms(1,3) by (rule router_inv_topology)
  with assms(2) show ?thesis by (auto simp: router_inv_def unstarted_def links_Nil)
qed

lemma portTabs_links:
  "links [] r \<Longrightarrow> map_of (portTabs r) p = Some t \<Longrightarrow> t \<noteq> []"
  by (fastforce simp: links_Nil core_links_Nil conn_inv_def core_inv_def base_inv_def dest!: map_of_SomeD)

subsection \<open>Registration\<close>

lemma refuse_topology [simp]: "topology (refuse port err r) = topology r"
  by (simp add: refuse_def)

lemma probes_inv_delete: "probes_inv ps \<Longrightarrow> probes_inv (AList.delete h ps)"
  by (auto simp: probes_inv_def set_delete)

lemma router_inv_register:
  assumes "router_inv r" "sc \<noteq> []" "t \<noteq> []"
  shows "router_inv (register port sc t lock hot r)"
proof -
  have "probes_inv (probes r)" using assms(1) by (auto simp: router_inv_def unstarted_def links_Nil)
  then have "probes_inv (probes r @ [(nextHandle r,
      \<lparr> lp_port = port, lp_scope = sc, lp_tabId = t, lp_lockName = lock, lp_hotCapacity = hot,
        lp_cancelled = False \<rparr>)])"
    using assms(2,3) by (simp add: probes_inv_def)
  from router_inv_probes [OF assms(1) this refl]
  have "router_inv (r\<lparr>pendingRegistrations := AList.update port (nextHandle r) (pendingRegistrations r),
         probes := probes r @ [(nextHandle r,
            \<lparr> lp_port = port, lp_scope = sc, lp_tabId = t, lp_lockName = lock, lp_hotCapacity = hot,
              lp_cancelled = False \<rparr>)], nextHandle := nextHandle r + 1\<rparr>)"
    by (rule router_inv_topology) (simp add: topology_def)
  then show ?thesis
    using assms(1) by (auto simp: register_def intro: router_inv_topology)
qed

lemma connectTab_topology:
  "topology (connectTab probe r) =
     (coreValue r,
      AList.update (lp_tabId probe) \<lparr> tc_port = lp_port probe, tc_watch = nextHandle r \<rparr> (tabMap r),
      AList.update (lp_port probe) (lp_tabId probe) (portTabs r), engineRoute r, microtasks r, probes r)"
  by (simp add: connectTab_def Let_def) (simp add: topology_def)

lemma conn_inv_connect:
  assumes "conn_inv tm pt" "t \<notin> fst ` set tm" "p \<notin> fst ` set pt"
  shows "conn_inv (tm @ [(t, \<lparr> tc_port = p, tc_watch = w \<rparr>)]) (pt @ [(p, t)])"
proof -
  have "p \<notin> (tc_port \<circ> snd) ` set tm" using assms(1,3) by (force simp: conn_inv_def)
  with assms show ?thesis by (auto simp: conn_inv_def)
qed

text \<open>The core registers a tab whose connection the router has just recorded.\<close>

lemma registerTab_links:
  assumes "core_inv c" "core_links [] c tm ro m" "t \<notin> fst ` set tm" "t \<noteq> []"
    "registerTab t c = (Inr acts, c')"
  shows "core_links acts c' (tm @ [(t, conn)]) ro m"
proof -
  have new: "t \<notin> set (tabs c)" using assms(2,3) by (simp add: core_links_Nil)
  show ?thesis
  proof (cases "stateValue c")
    case (Waiting_For_Tab a)
    with assms new have "ro = None" by (auto simp: core_links_Nil route_inv_def split: option.splits)
    moreover have "acts = fst (activateNext a (c\<lparr>tabs := tabs c @ [t]\<rparr>))"
      "c' = snd (activateNext a (c\<lparr>tabs := tabs c @ [t]\<rparr>))"
      using assms(5) new Waiting_For_Tab by (simp_all add: registerTab_def Let_def case_prod_beta)
    ultimately show ?thesis
      using assms(2) by (auto simp: core_links_def tabs_inv_def route_inv_def reset_inv_def)
  qed (use assms new in \<open>clarsimp simp: registerTab_def Let_def core_links_Nil\<close>)+
qed

lemma kept_registered:
  assumes "links [] r" "lp_tabId probe \<noteq> []" "lp_port probe \<notin> fst ` set (portTabs r)"
    "lp_tabId probe \<notin> fst ` set (tabMap r)"
  shows "kept (call_core (registerTab (lp_tabId probe)) (applyActions env) (connectTab probe r))"
proof -
  let ?t = "lp_tabId probe" and ?r = "connectTab probe r"
  obtain c where c: "coreValue r = Some c" "core_inv c" "valid_requests c" "conn_inv (tabMap r) (portTabs r)"
    "core_links [] c (tabMap r) (engineRoute r) (microtasks r)" "probes_inv (probes r)"
    using assms(1) by (auto simp: links_Nil)
  have top: "coreValue ?r = Some c" "portTabs ?r = portTabs r @ [(lp_port probe, ?t)]"
    "tabMap ?r = tabMap r @ [(?t, \<lparr> tc_port = lp_port probe, tc_watch = nextHandle r \<rparr>)]"
    "engineRoute ?r = engineRoute r" "microtasks ?r = microtasks r" "probes ?r = probes r"
    using connectTab_topology [of probe r] c(1) assms(3,4)
    by (simp_all add: topology_def update_fresh)
  obtain acts c' where step: "core_step (Ev_Register_Tab ?t) c = (Inr acts, c')"
    using core_returns [OF c(2), of "Ev_Register_Tab ?t"]
    by (cases "core_step (Ev_Register_Tab ?t) c") auto
  then have m: "registerTab ?t c = (Inr acts, c')" by simp
  have acts: "core_links acts c' (tabMap ?r) (engineRoute ?r) (microtasks ?r)"
    unfolding top by (rule registerTab_links [OF c(2,5) assms(4,2) m])
  then have plain: "list_all (\<lambda>a. \<not> recursing a) acts" by (simp add: core_links_def)
  have "core_inv c'" "valid_requests c'"
    using core_inv_step [OF c(2), of "Ev_Register_Tab ?t"] step assms(2)
      valid_requests_step [OF c(2,3), of "Ev_Register_Tab ?t"] by simp_all
  moreover have "conn_inv (tabMap ?r) (portTabs ?r)"
    unfolding top by (rule conn_inv_connect [OF c(4) assms(4,3)])
  ultimately have "links acts (?r\<lparr>coreValue := Some c'\<rparr>)"
    using acts c(6) top(6) by (simp add: links_def core_links_def)
  from links_settle [OF plain this, of env] show ?thesis
    by (simp add: call_core_def top(1) m applyActions_settle [OF plain] kept_def)
qed

lemma ensureCore_links:
  assumes "router_inv r" "lp_scope probe \<noteq> []"
  shows "\<exists>r'. ensureCore probe r = (Done, r') \<and> links [] r' \<and> tabMap r' = tabMap r \<and> portTabs r' = portTabs r"
proof (cases "coreValue r")
  case None
  with assms(1) have r: "unstarted r" by (auto simp: router_inv_def links_Nil)
  with assms(2) core_inv_initial [of "lp_scope probe"] show ?thesis
    by (auto simp: ensureCore_def new_core_def None links_Nil unstarted_def conn_inv_def
        core_links_Nil valid_requests_def pending_def initial_core_def route_inv_def reset_inv_def)
next
  case (Some c)
  with assms(1) have "links [] r" by (auto simp: router_inv_def unstarted_def)
  with Some show ?thesis by (simp add: ensureCore_def)
qed

lemma seq3: "seq [f, g, h] r = (case f r of (Done, r') \<Rightarrow> seq [g, h] r' | (x, r') \<Rightarrow> (x, r'))"
  by (rule seq.simps(2))

lemma kept_inv_registerProbed:
  assumes "router_inv r0"
  shows "kept_inv (registerProbed env h outcome r0)"
proof (cases "map_of (probes r0) h")
  case None
  with assms show ?thesis by (simp add: registerProbed_def)
next
  case (Some probe)
  let ?r = "r0\<lparr>probes := AList.delete h (probes r0)\<rparr>"
  let ?r1 = "?r\<lparr>pendingRegistrations := AList.delete (lp_port probe) (pendingRegistrations ?r)\<rparr>"
  have ps: "probes_inv (probes r0)" using assms by (auto simp: router_inv_def unstarted_def links_Nil)
  with Some have probe: "lp_tabId probe \<noteq> []" "lp_scope probe \<noteq> []"
    by (auto simp: probes_inv_def dest!: map_of_SomeD)
  have inv: "router_inv ?r"
    using router_inv_probes [OF assms probes_inv_delete [OF ps], of r0 h] by simp
  then have inv1: "router_inv ?r1" by (rule router_inv_topology) simp
  have refused: "router_inv (refuse port err ?r1)" for port err
    using inv1 by (rule router_inv_topology) simp
  have "kept (seq [ensureCore probe, upd (connectTab probe),
        call_core (registerTab (lp_tabId probe)) (applyActions env)] ?r1)"
    if "lp_port probe \<notin> fst ` set (portTabs ?r1)" "lp_tabId probe \<notin> fst ` set (tabMap ?r1)"
  proof -
    from ensureCore_links [OF inv1 probe(2)] obtain r' where
      r': "ensureCore probe ?r1 = (Done, r')" "links [] r'" "tabMap r' = tabMap ?r1"
        "portTabs r' = portTabs ?r1" by blast
    with kept_registered [OF r'(2) probe(1), of env] that show ?thesis
      unfolding seq3 by (simp add: seq_upd del: seq.simps)
  qed
  with inv refused show ?thesis
    by (simp add: registerProbed_def Some Let_def kept_inv_kept del: seq.simps)
qed

subsection \<open>Every event\<close>

lemma fold_closePort_topology [simp]: "topology (fold closePort ps r) = topology r"
  by (induction ps arbitrary: r) simp_all

lemma kept_inv_tabMessage:
  assumes "router_inv r"
  shows "kept_inv (handleTabMessage env port raw ports r)"
proof (cases "validateTabToCoordinatorEnvelope raw")
  case (Inl err)
  then show ?thesis
    using assms by (auto simp: handleTabMessage_def intro: router_inv_topology)
next
  case (Inr msg)
  then have wf: "wf_tab_to_coordinator msg" by (rule tab_codec.validate_wf)
  have err: "router_inv (postProtocolError p e (fold closePort ps r))" for p e ps
    using assms by (rule router_inv_topology) simp
  have err1: "router_inv (postProtocolError p e r)" for p e
    using assms by (rule router_inv_topology) simp
  have disp: "kept_inv (dispatchTab env t msg r)" if "coreValue r \<noteq> None" for t
    using assms that wf by (auto simp: router_inv_def unstarted_def intro!: kept_inv_kept kept_dispatchTab)
  show ?thesis
  proof (cases "\<exists>sc t lock hot. msg = Register_Tab sc t lock hot")
    case True
    with Inr wf err show ?thesis
      by (auto simp: handleTabMessage_def assms router_inv_register)
  next
    case False
    then show ?thesis
      using Inr err err1 disp
      by (cases msg) (auto simp: handleTabMessage_def split: option.split)
  qed
qed

lemma kept_inv_tabMessageError:
  assumes "router_inv r"
  shows "kept_inv (handleTabMessageError env port r)"
proof -
  have closed: "router_inv (closePort port r)" using assms by (rule router_inv_topology) simp
  have ps: "probes_inv (probes r)" using assms by (auto simp: router_inv_def unstarted_def links_Nil)
  have "probes_inv (cancelProbe h (probes r))" for h
    using ps by (auto simp: probes_inv_def cancelProbe_def split: prod.splits)
  note base = router_inv_probes [OF assms this refl]
  have cancelled: "router_inv (closePort port
      (r\<lparr>probes := cancelProbe h (probes r), pendingRegistrations := x\<rparr>))" for h x
    by (rule router_inv_topology [OF base [of h]]) simp
  have "kept_inv (loseTab env t reason r)" if "map_of (portTabs r) port = Some t'" for t t' reason
    using assms that by (auto simp: router_inv_def unstarted_def intro!: kept_inv_kept kept_loseTab)
  with closed cancelled show ?thesis
    by (auto simp: handleTabMessageError_def split: option.split)
qed

lemma kept_inv_failOwner: "router_inv r \<Longrightarrow> kept_inv (failOwner env t e reason f g r)"
  by (auto simp: router_inv_def unstarted_def failOwner_idle kept_inv_kept kept_failOwner)

lemma kept_timer:
  assumes "links [] r"
  shows "kept (upd (\<lambda>r. case set_timer cb r of (h, r2) \<Rightarrow> r2\<lparr>heartbeatTimeoutTimer := Some h\<rparr>) r)"
  unfolding upd_def by (rule kept_same [OF assms]) (simp add: case_prod_beta)

lemma kept_inv_interval:
  assumes "router_inv r"
  shows "kept_inv (heartbeatInterval env e r)"
proof (cases "links [] r")
  case True
  have "kept (heartbeatInterval env e r)"
    unfolding heartbeatInterval_def Let_def using True
    by (auto intro!: kept_send kept_timer links_by_topology [where r = r]
        split: option.split coordinator_state.split)
  then show ?thesis by (rule kept_inv_kept)
next
  case False
  with assms show ?thesis by (auto simp: router_inv_def unstarted_def heartbeatInterval_def)
qed

lemma kept_inv_timer:
  assumes "router_inv r"
  shows "kept_inv (timerFired env h r)"
proof (cases "map_of (timers r) h")
  case None
  with assms show ?thesis by (simp add: timerFired_def)
next
  case (Some cb)
  let ?r = "r\<lparr>timers := AList.delete h (timers r)\<rparr>"
  have "router_inv ?r" using assms by (rule router_inv_topology) simp
  with Some show ?thesis
    by (cases cb) (simp_all add: timerFired_def kept_inv_failOwner kept_inv_interval)
qed

lemma kept_inv_microtask:
  assumes "router_inv r"
  shows "kept_inv (runMicrotask env r)"
proof (cases "microtasks r")
  case (Suc n)
  let ?r = "r\<lparr>microtasks := n\<rparr>"
  show ?thesis
  proof (cases "links [] r")
    case True
    then obtain c where c: "coreValue r = Some c" "core_inv c" "valid_requests c"
      "conn_inv (tabMap r) (portTabs r)"
      "core_links [] c (tabMap r) (engineRoute r) (microtasks r)" "probes_inv (probes r)"
      by (auto simp: links_Nil)
    obtain acts c' where step: "core_step Ev_Resume_After_Loss c = (Inr acts, c')"
      using core_returns [OF c(2), of Ev_Resume_After_Loss]
      by (cases "core_step Ev_Resume_After_Loss c") auto
    have acts: "core_links acts c' (tabMap r) (engineRoute r) n"
      using step by (intro core_links_resume [OF c(5,2)]) (auto simp: reset_inv_def)
    then have plain: "list_all (\<lambda>a. \<not> recursing a) acts" by (simp add: core_links_def)
    have "core_inv c'" "valid_requests c'"
      using core_inv_step [OF c(2), of Ev_Resume_After_Loss] step
        valid_requests_step [OF c(2,3), of Ev_Resume_After_Loss] by simp_all
    then have "links acts (?r\<lparr>coreValue := Some c'\<rparr>)"
      using acts c by (simp add: links_def core_links_def)
    from links_settle [OF plain this, of env] step c(1) show ?thesis
      by (auto simp: runMicrotask_def Suc call_core_def applyActions_settle [OF plain] kept_def
          intro!: kept_inv_kept)
  next
    case False
    with assms have r: "unstarted r" by (simp add: router_inv_def)
    then have "router_inv ?r" by (simp add: router_inv_def unstarted_def)
    with r show ?thesis by (simp add: runMicrotask_def Suc call_core_def unstarted_def)
  qed
qed (use assms in \<open>simp add: runMicrotask_def\<close>)

lemma kept_inv_watch:
  assumes "router_inv r"
  shows "kept_inv (livenessReleased env w r)"
proof -
  have inv: "router_inv (r\<lparr>watches := AList.delete w (watches r)\<rparr>)"
    using assms by (rule router_inv_topology) simp
  then have "kept_inv (loseTab env t reason (r\<lparr>watches := AList.delete w (watches r)\<rparr>))"
    if "map_of (tabMap r) t = Some conn" for t conn reason
    using that by (auto simp: router_inv_def unstarted_def intro!: kept_inv_kept kept_loseTab)
  with assms inv show ?thesis
    by (auto simp: livenessReleased_def Let_def split: option.split)
qed

lemma kept_inv_viaRoute:
  assumes "router_inv r" "\<And>ro. engineRoute r = Some ro \<Longrightarrow> links [] r \<Longrightarrow> kept (f ro r)"
  shows "kept_inv (viaRoute h f r)"
  using assms by (auto simp: viaRoute_def router_inv_def unstarted_def kept_inv_kept split: option.split)

lemma kept_inv_step: "router_inv r \<Longrightarrow> kept_inv (router_step ev r)"
  by (cases ev rule: router_step.cases)
    (simp_all add: kept_inv_tabMessage kept_inv_tabMessageError kept_inv_registerProbed
      kept_inv_watch kept_inv_timer kept_inv_microtask kept_inv_viaRoute kept_engineMessage
      kept_failOwner)

interpretation routing: machine initial_router router_step "\<lambda>_. True" router_inv
  by unfold_locales (use kept_inv_step in \<open>auto simp: router_inv_initial kept_inv_def\<close>)

section \<open>Further facts\<close>

lemma resume_leaves:
  assumes "core_inv c" "resetting (stateValue c)"
  shows "\<exists>acts c'. resumeAfterLoss c = (Inr acts, c') \<and> \<not> resetting (stateValue c') \<and>
    list_all (\<lambda>a. \<not> recursing a) acts"
proof -
  obtain p pe ne why where s: "stateValue c = Resetting_After_Loss p pe ne why"
    using assms(2) by (cases "stateValue c") auto
  with assms(1) show ?thesis
    by (cases "chooseCandidate (Some p) c")
      (simp_all add: resumeAfterLoss_candidate resumeAfterLoss_nobody)
qed

text \<open>Applying actions that fail no owner leaves the core alone.\<close>

lemma apply_action_core:
  "\<not> recursing a \<Longrightarrow> coreValue (snd (apply_action env fo a r)) = coreValue r"
proof (cases a)
  case (Close_Engine_Route t e)
  then show ?thesis using closeEngineRoute_topology [of t e r] by (simp add: topology_def)
next
  case (Drop_Tab t)
  then show ?thesis
    using removeTabConnection_topology [of r t] by (cases "map_of (tabMap r) t") (auto simp: topology_def)
next
  case (Retire_Tab t e)
  let ?r = "postToTab t (Retire_Complete t e) r"
  have "topology ?r = topology r" by simp
  with Retire_Tab show ?thesis
    using removeTabConnection_topology [of ?r t] by (cases "map_of (tabMap ?r) t") (auto simp: topology_def)
qed (use apply_action_topology [of a env fo r] in \<open>auto simp: topology_def\<close>)

lemma settle_preserves:
  assumes "list_all (\<lambda>a. \<not> recursing a) acts" "P r"
    "\<And>a r. a \<in> set acts \<Longrightarrow> P r \<Longrightarrow> P (snd (apply_action env (\<lambda>t e reason. skip) a r))"
  shows "P (snd (settle env acts r))"
proof -
  have "P (snd (seq (List.map (apply_action env (\<lambda>t e reason. skip)) acts) r))"
    using assms
  proof (induction acts arbitrary: r)
    case (Cons a acts)
    have "fst (apply_action env (\<lambda>t e reason. skip) a r) = Done"
      using Cons.prems(1) by (simp add: apply_action_done)
    then obtain r' where r': "apply_action env (\<lambda>t e reason. skip) a r = (Done, r')"
      by (cases "apply_action env (\<lambda>t e reason. skip) a r") simp
    have "P r'" using Cons.prems(3) [of a r] Cons.prems(2) r' by simp
    with Cons.IH [of r'] Cons.prems(1,3) r' show ?case by simp
  qed simp
  with assms(2) show ?thesis by (simp add: settle_def apply_actions_def split: option.split)
qed

lemma settle_core:
  "list_all (\<lambda>a. \<not> recursing a) acts \<Longrightarrow> coreValue (snd (settle env acts r)) = coreValue r"
  by (rule settle_preserves [where P = "\<lambda>x. coreValue x = coreValue r"])
    (auto simp: apply_action_core list_all_iff)

lemma lossActions_plain [simp]: "list_all (\<lambda>a. \<not> recursing a) (lossActions t e reason c)"
  by (simp add: lossActions_def)

lemma failOwner_core:
  assumes "coreValue r = Some c" "core_inv c" "owner_of (stateValue c) = Some (t, e)"
  shows "coreValue (snd (failOwner env t e reason f g r)) = Some (lostCore t e reason c)"
proof -
  have "topology (recordOwnerLoss env t e reason f g x) = topology x" for x by simp
  from topology_parts [OF this] show ?thesis
    by (simp add: failOwner_owner [OF assms] settle_core)
qed

end
