(* ===== verification/Coord_Router_Watch.thy ===== *)
theory Coord_Router_Watch
  imports Coord_Router_Links
begin

text \<open>
  The watchdogs of the router: an engine that activates has a live activation timer, and an
  engine that serves has a live heartbeat timer, in every reachable state. So an engine that
  hangs is always detected by a timer.
\<close>

section \<open>Live timers\<close>

definition fresh :: "router \<Rightarrow> bool" where
  "fresh r \<longleftrightarrow> (\<forall>h \<in> fst ` set (timers r). h < nextHandle r)"

definition act_alive :: "js_string \<Rightarrow> owner_epoch \<Rightarrow> router \<Rightarrow> bool" where
  "act_alive t e r \<longleftrightarrow> pendingHeartbeat r = None \<and>
     (case activationTimer r of None \<Rightarrow> False
      | Some h \<Rightarrow> map_of (timers r) h = Some (Activation_Watchdog t e))"

definition interval_alive :: "owner_epoch \<Rightarrow> router \<Rightarrow> bool" where
  "interval_alive e r \<longleftrightarrow>
     (case heartbeatIntervalTimer r of None \<Rightarrow> False
      | Some h \<Rightarrow> map_of (timers r) h = Some (Heartbeat_Interval e))"

definition timeout_alive :: "js_string \<Rightarrow> owner_epoch \<Rightarrow> router \<Rightarrow> bool" where
  "timeout_alive t e r \<longleftrightarrow>
     (case (heartbeatTimeoutTimer r, pendingHeartbeat r) of
        (Some h, Some (e', n)) \<Rightarrow>
          e' = e \<and> map_of (timers r) h = Some (Heartbeat_Timeout t e n)
      | _ \<Rightarrow> False)"

text \<open>What the state of the core asks of the timers.\<close>

definition armed :: "coordinator \<Rightarrow> router \<Rightarrow> bool" where
  "armed c r \<longleftrightarrow>
     (case stateValue c of
        Activating t e a \<Rightarrow> act_alive t e r
      | Active t e \<Rightarrow> exhausted c \<or> interval_alive e r \<or> timeout_alive t e r
      | _ \<Rightarrow> True)"

definition guarded :: "router \<Rightarrow> bool" where
  "guarded r \<longleftrightarrow> fresh r \<and> (\<forall>c. coreValue r = Some c \<longrightarrow> armed c r)"

fun idle_state :: "coordinator_state \<Rightarrow> bool" where
  "idle_state (Activating _ _ _) = False"
| "idle_state (Active _ _) = False"
| "idle_state _ = True"

lemma armed_idle: "idle_state (stateValue c) \<Longrightarrow> armed c r"
  by (cases "stateValue c") (simp_all add: armed_def)

lemma watchdogs_parts:
  "watchdogs r' = watchdogs r \<Longrightarrow> timers r' = timers r \<and> activationTimer r' = activationTimer r \<and>
     heartbeatIntervalTimer r' = heartbeatIntervalTimer r \<and>
     heartbeatTimeoutTimer r' = heartbeatTimeoutTimer r \<and>
     pendingHeartbeat r' = pendingHeartbeat r \<and> nextHandle r' = nextHandle r"
  by (simp add: watchdogs_def)

lemma fresh_watchdogs: "watchdogs r' = watchdogs r \<Longrightarrow> fresh r' = fresh r"
  by (drule watchdogs_parts) (simp add: fresh_def)

lemmas alive_defs = act_alive_def interval_alive_def timeout_alive_def

lemma armed_watchdogs: "watchdogs r' = watchdogs r \<Longrightarrow> armed c r' = armed c r"
  unfolding armed_def alive_defs by (drule watchdogs_parts) (simp only:)

lemma guarded_frame:
  "guarded r \<Longrightarrow> watchdogs r' = watchdogs r \<Longrightarrow> coreValue r' = coreValue r \<Longrightarrow> guarded r'"
  using fresh_watchdogs [of r' r] armed_watchdogs [of r' r] by (auto simp: guarded_def)

lemma armed_later:
  "armed c r \<Longrightarrow> stateValue c' = stateValue c \<Longrightarrow> nextRouteId c \<le> nextRouteId c' \<Longrightarrow> armed c' r"
  by (auto simp: armed_def exhausted_def split: coordinator_state.splits)

lemma watchdogs_core [simp]:
  "watchdogs (r\<lparr>coreValue := x1\<rparr>) = watchdogs r" "watchdogs (r\<lparr>microtasks := x2\<rparr>) = watchdogs r"
  "watchdogs (r\<lparr>engineRoute := x3\<rparr>) = watchdogs r" "watchdogs (r\<lparr>hotCapacity := x4\<rparr>) = watchdogs r"
  by (simp_all add: watchdogs_def)

section \<open>Timer operations\<close>

lemma fresh_clear [simp]:
  "fresh r \<Longrightarrow> fresh (clear_timer h r)"
  "fresh r \<Longrightarrow> fresh (clearActivationTimer r)"
  "fresh r \<Longrightarrow> fresh (clearHeartbeatTimers r)"
  "fresh r \<Longrightarrow> fresh (clearEngineWatchdogs r)"
proof -
  have c: "fresh (clear_timer h x)" if "fresh x" for h x
    using that by (auto simp: fresh_def clear_timer_def set_delete split: option.split)
  have u: "fresh (x\<lparr>activationTimer := a\<rparr>) = fresh x" "fresh (x\<lparr>heartbeatIntervalTimer := a\<rparr>) = fresh x"
    "fresh (x\<lparr>heartbeatTimeoutTimer := a\<rparr>) = fresh x" "fresh (x\<lparr>pendingHeartbeat := p\<rparr>) = fresh x"
    for x a p by (simp_all add: fresh_def)
  assume r: "fresh r"
  then show "fresh (clear_timer h r)" by (rule c)
  show a: "fresh (clearActivationTimer r)" using r by (simp add: clearActivationTimer_def u c)
  have h: "fresh (clearHeartbeatTimers x)" if "fresh x" for x
    using that by (simp add: clearHeartbeatTimers_def Let_def u c)
  show "fresh (clearHeartbeatTimers r)" using r by (rule h)
  show "fresh (clearEngineWatchdogs r)" using a by (simp add: clearEngineWatchdogs_def h)
qed

lemma fresh_delete: "fresh r \<Longrightarrow> fresh (r\<lparr>timers := AList.delete h (timers r)\<rparr>)"
  by (auto simp: fresh_def set_delete)

lemma map_of_fresh: "fresh r \<Longrightarrow> map_of (timers r) (nextHandle r) = None"
  by (force simp: fresh_def map_of_eq_None_iff)

lemma fresh_set_timer: "fresh r \<Longrightarrow> fresh (snd (set_timer cb r))"
  by (auto simp: fresh_def set_timer_def)

lemma set_timer_alive:
  "fresh r \<Longrightarrow> map_of (timers (snd (set_timer cb r))) (fst (set_timer cb r)) = Some cb"
  by (simp add: set_timer_def map_of_append map_add_def map_of_fresh)

lemma set_timer_fields [simp]:
  "pendingHeartbeat (snd (set_timer cb r)) = pendingHeartbeat r"
  "nextHandle (snd (set_timer cb r)) = Suc (nextHandle r)"
  by (simp_all add: set_timer_def)

lemma pending_cleared [simp]:
  "pendingHeartbeat (clearHeartbeatTimers r) = None"
  "pendingHeartbeat (clearEngineWatchdogs r) = None"
  by (simp_all add: clearEngineWatchdogs_def clearHeartbeatTimers_def Let_def)

lemma electOwner_alive:
  assumes "fresh r"
  shows "fresh (electOwner env t e a r) \<and> act_alive t e (electOwner env t e a r)"
proof -
  let ?r0 = "clearEngineWatchdogs r"
  have "\<exists>r5. electOwner env t e a r =
       (case set_timer (Activation_Watchdog t e) r5 of (h, r6) \<Rightarrow> r6\<lparr>activationTimer := Some h\<rparr>) \<and>
     watchdogs r5 = watchdogs ?r0"
    unfolding electOwner_def Let_def by (intro exI conjI, rule refl) simp
  then obtain r5 where r5: "watchdogs r5 = watchdogs ?r0"
    "electOwner env t e a r =
       (case set_timer (Activation_Watchdog t e) r5 of (h, r6) \<Rightarrow> r6\<lparr>activationTimer := Some h\<rparr>)"
    by blast
  have "fresh ?r0" using assms by simp
  then have f5: "fresh r5" using fresh_watchdogs [OF r5(1)] by simp
  have p5: "pendingHeartbeat r5 = None" using watchdogs_parts [OF r5(1)] by simp
  obtain h r6 where h: "set_timer (Activation_Watchdog t e) r5 = (h, r6)" by fastforce
  have "fresh r6" "map_of (timers r6) h = Some (Activation_Watchdog t e)" "pendingHeartbeat r6 = None"
    using fresh_set_timer [OF f5, of "Activation_Watchdog t e"]
      set_timer_alive [OF f5, of "Activation_Watchdog t e"] p5
      set_timer_fields(1) [of "Activation_Watchdog t e" r5] h by simp_all
  then show ?thesis by (simp add: r5(2) h fresh_def act_alive_def)
qed

lemma scheduleHeartbeat_alive:
  assumes "fresh r"
  shows "fresh (scheduleHeartbeat e r) \<and> interval_alive e (scheduleHeartbeat e r)"
proof -
  let ?r0 = "clearHeartbeatTimers r"
  have f: "fresh ?r0" using assms by simp
  obtain h r1 where h: "set_timer (Heartbeat_Interval e) ?r0 = (h, r1)" by fastforce
  have "fresh r1" "map_of (timers r1) h = Some (Heartbeat_Interval e)"
    using fresh_set_timer [OF f, of "Heartbeat_Interval e"]
      set_timer_alive [OF f, of "Heartbeat_Interval e"] h by simp_all
  then show ?thesis by (simp add: scheduleHeartbeat_def h fresh_def interval_alive_def)
qed

section \<open>Applying actions\<close>

text \<open>Actions that leave the watchdogs alone.\<close>

fun neutral :: "coordinator_action \<Rightarrow> bool" where
  "neutral (Elect_Owner _ _ _) = False"
| "neutral (Close_Engine_Route _ _) = False"
| "neutral (Route_Request _ _ _ _ _) = False"
| "neutral (Drain_Owner _ _) = False"
| "neutral _ = True"

lemma neutral_plain: "neutral a \<Longrightarrow> \<not> recursing a"
  by (cases a) simp_all

lemma apply_neutral: "neutral a \<Longrightarrow> watchdogs (snd (apply_action env fo a r)) = watchdogs r"
  by (cases a) simp_all

lemma fresh_apply:
  assumes "\<not> recursing a" "fresh r"
  shows "fresh (snd (apply_action env fo a r))"
proof (cases "neutral a")
  case True
  from fresh_watchdogs [OF apply_neutral [OF this]] assms(2) show ?thesis by simp
next
  case False
  have "fresh (closeEngineRoute t e r)" for t e
  proof -
    have "watchdogs (closeEngineRoute t e r) = watchdogs (clearEngineWatchdogs r)"
      by (simp add: closeEngineRoute_def Let_def split: option.split)
    from fresh_watchdogs [OF this] assms(2) show ?thesis by simp
  qed
  with False assms show ?thesis by (cases a) (simp_all add: electOwner_alive)
qed

lemma fresh_settle:
  assumes "list_all (\<lambda>a. \<not> recursing a) acts" "fresh r"
  shows "fresh (snd (settle env acts r))"
proof (rule settle_preserves [where P = fresh, OF assms])
  fix a x assume "a \<in> set acts" "fresh x"
  with assms(1) show "fresh (snd (apply_action env (\<lambda>t e reason. skip) a x))"
    by (intro fresh_apply) (auto simp only: list_all_iff)
qed

lemma settle_neutral:
  assumes "list_all neutral acts"
  shows "watchdogs (snd (settle env acts r)) = watchdogs r \<and>
    coreValue (snd (settle env acts r)) = coreValue r"
proof (rule settle_preserves [where P = "\<lambda>x. watchdogs x = watchdogs r \<and> coreValue x = coreValue r"])
  show "list_all (\<lambda>a. \<not> recursing a) acts"
    using assms neutral_plain by (metis list_all_iff)
next
  fix a x assume "a \<in> set acts" and x: "watchdogs x = watchdogs r \<and> coreValue x = coreValue r"
  with assms have "neutral a" by (simp only: list_all_iff)
  from apply_neutral [OF this] apply_action_core [OF neutral_plain [OF this]] x
  show "watchdogs (snd (apply_action env (\<lambda>t e reason. skip) a x)) = watchdogs r \<and>
      coreValue (snd (apply_action env (\<lambda>t e reason. skip) a x)) = coreValue r"
    by (simp only: simp_thms)
qed simp

lemma settle_snoc:
  assumes "list_all (\<lambda>a. \<not> recursing a) acts" "coreValue r = Some c"
  shows "snd (settle env (acts @ [a]) r) =
    snd (apply_action env (\<lambda>t e reason. skip) a (snd (settle env acts r)))"
proof -
  have "snd (seq (List.map (apply_action env fo) acts @ [f]) r) =
      snd (f (snd (seq (List.map (apply_action env fo) acts) r)))" for fo f
    using assms(1)
  proof (induction acts arbitrary: r)
    case Nil
    show ?case by (simp only: list.map append_Nil seq_single) simp
  next
    case (Cons b acts)
    have "fst (apply_action env fo b r) = Done" using Cons.prems by (simp add: apply_action_done)
    then obtain r' where "apply_action env fo b r = (Done, r')"
      by (cases "apply_action env fo b r") simp
    with Cons show ?case by simp
  qed
  with assms(2) show ?thesis by (simp add: settle_def apply_actions_def)
qed

text \<open>
  The outcome of a core operation: it leaves the state alone and asks for nothing that touches a
  watchdog; or it stops, or it activates a tab with the election as its last action.
\<close>

definition arming :: "coordinator_state \<Rightarrow> coordinator_action list \<Rightarrow> bool" where
  "arming s acts \<longleftrightarrow> list_all (\<lambda>a. \<not> recursing a) acts \<and>
     (idle_state s \<or> (\<exists>xs t e a. acts = xs @ [Elect_Owner t e a] \<and> s = Activating t e a))"

definition calm :: "coordinator \<Rightarrow> coordinator \<Rightarrow> coordinator_action list \<Rightarrow> bool" where
  "calm c c' acts \<longleftrightarrow> list_all neutral acts \<and> stateValue c' = stateValue c \<and>
     nextRouteId c \<le> nextRouteId c'"

lemma guarded_arming:
  assumes "coreValue r = Some c" "fresh r" "arming (stateValue c) acts"
  shows "guarded (snd (settle env acts r))"
proof -
  have plain: "list_all (\<lambda>a. \<not> recursing a) acts" using assms(3) by (simp add: arming_def)
  have core: "coreValue (snd (settle env acts r)) = Some c"
    using settle_core [OF plain] assms(1) by simp
  show ?thesis
  proof (cases "idle_state (stateValue c)")
    case True
    then show ?thesis using core fresh_settle [OF plain assms(2)] by (simp add: guarded_def armed_idle)
  next
    case False
    then obtain xs t e a where a: "acts = xs @ [Elect_Owner t e a]" "stateValue c = Activating t e a"
      using assms(3) by (auto simp: arming_def)
    with plain have px: "list_all (\<lambda>a. \<not> recursing a) xs" by simp
    have "snd (settle env acts r) = electOwner env t e a (snd (settle env xs r))"
      using settle_snoc [OF px assms(1)] a(1) by simp
    with electOwner_alive [OF fresh_settle [OF px assms(2)]] core a(2)
    show ?thesis by (simp add: guarded_def armed_def)
  qed
qed

lemma guarded_calm:
  assumes "coreValue r = Some c'" "fresh r" "calm c c' acts" "armed c r"
  shows "guarded (snd (settle env acts r))"
proof -
  let ?r = "snd (settle env acts r)"
  have "watchdogs ?r = watchdogs r" "coreValue ?r = Some c'"
    using settle_neutral [of acts env r] assms(1,3) by (simp_all add: calm_def)
  moreover have "armed c' r" using armed_later [OF assms(4)] assms(3) by (simp add: calm_def)
  ultimately show ?thesis
    using assms(2) fresh_watchdogs [of ?r r] armed_watchdogs [of ?r r] by (simp add: guarded_def)
qed

end
