(* ===== verification/Coord_Router_Guarded.thy ===== *)
theory Coord_Router_Guarded
  imports Coord_Router_Watch
begin

text \<open>
  Every router event keeps the watchdogs armed (the invariant \<open>guarded\<close> of Coord_Router_Watch).
\<close>

section \<open>Outcomes of the core's operations\<close>

definition settles :: "coordinator \<Rightarrow> (js_error + coordinator_action list) \<times> coordinator \<Rightarrow> bool" where
  "settles c x \<longleftrightarrow>
     (case x of
        (Inl err, c') \<Rightarrow> False
      | (Inr acts, c') \<Rightarrow> calm c c' acts \<or> arming (stateValue c') acts)"

lemma settles_calm: "calm c c' acts \<Longrightarrow> settles c (Inr acts, c')"
  by (simp add: settles_def)

lemma settles_arming: "arming (stateValue c') acts \<Longrightarrow> settles c (Inr acts, c')"
  by (simp add: settles_def)

lemma neutral_rejects [simp]: "list_all neutral (List.map (\<lambda>p. reject (f p) (g p) err code) ps)"
  by (simp add: reject_def list_all_iff)

lemma activateNext_arming:
  assumes "list_all (\<lambda>a. \<not> recursing a) pre"
  shows "arming (stateValue (snd (activateNext a c))) (pre @ fst (activateNext a c))"
  using assms by (simp add: arming_def activateNext_def Let_def)

lemma violation_settles: "settles c (Inr (fst (recordProtocolViolation err c)), snd (recordProtocolViolation err c))"
  by (simp add: settles_def calm_def recordProtocolViolation_def)

lemma settles_register: "settles c (registerTab t c)"
proof (cases "t \<in> set (tabs c)")
  case False
  show ?thesis
  proof (cases "stateValue c")
    case (Waiting_For_Tab a)
    with False activateNext_arming [of "[]" a "c\<lparr>tabs := tabs c @ [t]\<rparr>"] show ?thesis
      by (simp add: registerTab_def Let_def case_prod_beta settles_def)
  qed (use False in \<open>simp_all add: registerTab_def settles_def calm_def\<close>)
qed (simp add: registerTab_def settles_def calm_def)

lemma settles_response: "settles c (engineResponse e n response c)"
  by (auto simp: engineResponse_def dropStale_def settles_def calm_def Let_def split: option.split)

lemma settles_push: "settles c (enginePush e push c)"
  by (simp add: enginePush_def dropStale_def settles_def calm_def)

lemma settles_drained:
  assumes "core_inv c"
  shows "settles c (engineDrained t e c)"
proof (cases "stateValue c = Draining t e")
  case True
  let ?c = "(removeTabRecord t (c\<lparr>inFlight := []\<rparr>))\<lparr>retiringTabs := retiringTabs c - {t},
      stateValue := Waiting_For_Tab Open_Existing\<rparr>"
  let ?pre = "List.map (\<lambda>p. reject (if_tabId (snd p)) (request_id (if_request (snd p)))
      (js ''engine drained before delivering its response'') None) (inFlight c) @
    [Close_Engine_Route t e, Retire_Tab t e]"
  have "arming (stateValue (snd (activateNext Open_Existing ?c)))
      (?pre @ fst (activateNext Open_Existing ?c))"
    by (rule activateNext_arming) simp
  then show ?thesis
    by (simp add: engineDrained_owner [OF assms True] case_prod_beta settles_arming)
next
  case False
  then show ?thesis
    using violation_settles by (simp add: engineDrained_def case_prod_beta)
qed

lemma navigation_arming:
  assumes "core_inv c" "owner_of (stateValue c) = Some (t, e)"
  shows "\<exists>acts c'. departForNavigation t e reason c = (Inr acts, c') \<and> arming (stateValue c') acts"
proof -
  let ?a = "case stateValue c of Activating _ _ a \<Rightarrow> a | _ \<Rightarrow> Open_Existing"
  let ?c = "(removeTabRecord t (c\<lparr>inFlight := []\<rparr>))\<lparr>retiringTabs := retiringTabs c - {t},
      stateValue := Waiting_For_Tab ?a\<rparr>"
  let ?pre = "List.map (\<lambda>p. reject (if_tabId (snd p)) (request_id (if_request (snd p)))
      (js ''owner epoch '' @ js_nat e @ js '' departed for navigation: '' @ reason)
      (Some OWNER_EPOCH_LOST_ERROR_CODE)) (inFlight c) @ [Close_Engine_Route t e, Drop_Tab t]"
  have "arming (stateValue (snd (activateNext ?a ?c))) (?pre @ fst (activateNext ?a ?c))"
    by (rule activateNext_arming) simp
  then show ?thesis
    by (simp add: departForNavigation_owner [OF assms] case_prod_beta Let_def)
qed

lemma settles_navigation:
  assumes "core_inv c"
  shows "settles c (departForNavigation t e reason c)"
proof (cases "owner_of (stateValue c) = Some (t, e)")
  case True
  from navigation_arming [OF assms True, of reason] show ?thesis by (auto simp: settles_arming)
next
  case False
  then show ?thesis
    using violation_settles by (simp add: departForNavigation_def case_prod_beta)
qed

lemma arming_loss: "arming (stateValue (lostCore t e reason c)) (lossActions t e reason c)"
  by (simp add: arming_def lostCore_def)

lemma settles_tabLost:
  assumes "core_inv c"
  shows "settles c (tabLost t reason c)"
proof -
  consider "t \<notin> set (tabs c)" | ep where "owner_of (stateValue c) = Some (t, ep)"
    | "t \<in> set (tabs c)" "\<And>ep. owner_of (stateValue c) \<noteq> Some (t, ep)" by blast
  then show ?thesis
  proof cases
    case 1
    then show ?thesis by (simp add: tabLost_def settles_def calm_def)
  next
    case 2
    then show ?thesis
      by (simp add: tabLost_owner [OF assms 2] settles_def arming_def)
  next
    case 3
    then show ?thesis by (simp add: tabLost_standby [OF assms 3] settles_def calm_def)
  qed
qed

lemma settles_resume:
  assumes "core_inv c"
  shows "settles c (resumeAfterLoss c)"
proof (cases "stateValue c")
  case (Resetting_After_Loss p pe ne why)
  then show ?thesis
    by (cases "chooseCandidate (Some p) c")
      (simp_all add: resumeAfterLoss_candidate [OF assms] resumeAfterLoss_nobody settles_def arming_def)
qed (simp_all add: resumeAfterLoss_def settles_def calm_def)

section \<open>Calls of the core\<close>

text \<open>The outcome of a router operation: links, completion and watchdogs.\<close>

definition safe :: "completion \<times> router \<Rightarrow> bool" where
  "safe x \<longleftrightarrow> kept x \<and> guarded (snd x)"

lemma guarded_fresh: "guarded r \<Longrightarrow> fresh r"
  by (simp add: guarded_def)

lemma guarded_armed: "guarded r \<Longrightarrow> coreValue r = Some c \<Longrightarrow> armed c r"
  by (simp add: guarded_def)

lemma guarded_call:
  assumes "guarded r" "coreValue r = Some c" "settles c (f c)"
    "\<And>acts c'. f c = (Inr acts, c') \<Longrightarrow> list_all (\<lambda>a. \<not> recursing a) acts"
  shows "guarded (snd (call_core f (applyActions env) r))"
proof -
  obtain acts c' where m: "f c = (Inr acts, c')" "calm c c' acts \<or> arming (stateValue c') acts"
    using assms(3) by (cases "f c") (auto simp: settles_def split: sum.splits)
  let ?r = "r\<lparr>coreValue := Some c'\<rparr>"
  have "fresh ?r" using guarded_fresh [OF assms(1)] fresh_watchdogs [of ?r r] by simp
  moreover have "armed c ?r" using guarded_armed [OF assms(1,2)] armed_watchdogs [of ?r r c] by simp
  ultimately have "guarded (snd (settle env acts ?r))"
    using m(2) guarded_arming [of ?r c' acts env] guarded_calm [of ?r c' c acts env] by auto
  then show ?thesis
    by (simp add: call_core_def assms(2) m(1) applyActions_settle [OF assms(4) [OF m(1)]])
qed

lemma settles_plain:
  assumes "settles c (Inr acts, c')"
  shows "list_all (\<lambda>a. \<not> recursing a) acts"
proof -
  have "list_all neutral acts \<Longrightarrow> list_all (\<lambda>a. \<not> recursing a) acts"
    using neutral_plain by (metis list_all_iff)
  with assms show ?thesis by (auto simp: settles_def calm_def arming_def)
qed

lemma guarded_settles:
  assumes "guarded r" "coreValue r = Some c" "settles c (f c)"
  shows "guarded (snd (call_core f (applyActions env) r))"
  using assms by (rule guarded_call) (use assms(3) settles_plain in metis)

section \<open>Losses and departures\<close>

lemma recordOwnerLoss_clears:
  "\<exists>x. recordOwnerLoss env t e reason f g r = clearEngineWatchdogs x \<and> watchdogs x = watchdogs r"
  unfolding recordOwnerLoss_def Let_def case_prod_beta by (intro exI conjI, rule refl) simp

lemma recordNavigation_clears:
  "\<exists>x. recordNavigation env s e r = clearEngineWatchdogs x \<and> watchdogs x = watchdogs r"
  unfolding recordNavigation_def Let_def
  by (intro exI conjI, rule refl) (simp split: option.split coordinator_state.split)

lemma engineActivated_schedules:
  "\<exists>x. engineActivated env e out r = scheduleHeartbeat e (clearActivationTimer x) \<and>
     watchdogs x = watchdogs r"
  unfolding engineActivated_def Let_def by (intro exI conjI, rule refl) (simp split: option.split)

lemma fresh_cleared:
  assumes "\<exists>x. r' = clearEngineWatchdogs x \<and> watchdogs x = watchdogs r" "fresh r"
  shows "fresh r'"
proof -
  obtain x where x: "r' = clearEngineWatchdogs x" "watchdogs x = watchdogs r" using assms(1) by blast
  have "fresh x" using fresh_watchdogs [OF x(2)] assms(2) by simp
  then show ?thesis by (simp add: x(1))
qed

lemmas fresh_recordOwnerLoss = fresh_cleared [OF recordOwnerLoss_clears]

lemmas fresh_recordNavigation = fresh_cleared [OF recordNavigation_clears]

definition core_ok :: "router \<Rightarrow> bool" where
  "core_ok r \<longleftrightarrow> (\<forall>c. coreValue r = Some c \<longrightarrow> core_inv c)"

lemma core_ok_inv: "router_inv r \<Longrightarrow> core_ok r"
  by (auto simp: router_inv_def unstarted_def links_Nil core_ok_def)

lemma core_ok_links: "links [] r \<Longrightarrow> core_ok r"
  by (simp add: core_ok_inv router_inv_def)

lemma guarded_failOwner:
  assumes "core_ok r" "guarded r"
  shows "guarded (snd (failOwner env t e reason f g r))"
proof (cases "\<exists>c. coreValue r = Some c \<and> owner_of (stateValue c) = Some (t, e)")
  case False
  with assms(2) show ?thesis by (cases "coreValue r") (simp_all add: failOwner_idle)
next
  case True
  then obtain c where c: "coreValue r = Some c" "owner_of (stateValue c) = Some (t, e)" by blast
  with assms(1) have inv: "core_inv c" by (simp add: core_ok_def)
  let ?s = "r\<lparr>coreValue := Some (lostCore t e reason c)\<rparr>"
  let ?r = "recordOwnerLoss env t e reason f g ?s"
  have "fresh ?s" using guarded_fresh [OF assms(2)] fresh_watchdogs [of ?s r] by simp
  then have "fresh ?r" by (rule fresh_recordOwnerLoss)
  moreover have "coreValue ?r = Some (lostCore t e reason c)"
    using topology_parts [OF recordOwnerLoss_topology [of env t e reason f g ?s]] by simp
  ultimately have "guarded (snd (settle env (lossActions t e reason c) ?r))"
    using guarded_arming [OF _ _ arming_loss] by blast
  then show ?thesis by (simp add: failOwner_owner [OF c(1) inv c(2)])
qed

lemma safe_failOwner: "links [] r \<Longrightarrow> guarded r \<Longrightarrow> safe (failOwner env t e reason f g r)"
  by (simp add: safe_def kept_failOwner guarded_failOwner core_ok_links)

lemma safe_Done: "links [] r \<Longrightarrow> guarded r \<Longrightarrow> safe (Done, r)"
  by (simp add: safe_def)

lemma safe_frame:
  assumes "links [] r" "guarded r" "topology r' = topology r" "watchdogs r' = watchdogs r"
  shows "links [] r'" "guarded r'"
  using links_by_topology [OF assms(1,3)] guarded_frame [OF assms(2,4)] topology_parts [OF assms(3)]
  by simp_all

lemma safe_plainFail: "links [] r \<Longrightarrow> guarded r \<Longrightarrow> safe (plainFail env t e reason r)"
  by (simp add: plainFail_def safe_failOwner)

text \<open>A send to the engine fails the owner or goes on.\<close>

lemma safe_send:
  assumes "links [] r" "guarded r" "\<And>r. links [] r \<Longrightarrow> guarded r \<Longrightarrow> safe (sent r)"
  shows "safe (sendToEngine env (plainFail env) ro message sent r)"
proof -
  have "links [] (emit out r)" "guarded (emit out r)" for out
    using safe_frame [OF assms(1,2), of "emit out r"] by simp_all
  with assms show ?thesis by (simp add: sendToEngine_def safe_plainFail split: option.split)
qed

lemma safe_seq:
  "(\<And>f r. f \<in> set fs \<Longrightarrow> links [] r \<Longrightarrow> guarded r \<Longrightarrow> safe (f r)) \<Longrightarrow>
    links [] r \<Longrightarrow> guarded r \<Longrightarrow> safe (seq fs r)"
proof (induction fs arbitrary: r)
  case (Cons f fs)
  have s: "safe (f r)" using Cons.prems by simp
  obtain x r' where f: "f r = (x, r')" by fastforce
  show ?case
  proof (cases "x = Done")
    case True
    with s f have "links [] r'" "guarded r'" by (simp_all add: safe_def)
    with Cons.IH [of r'] Cons.prems(1) f True show ?thesis by simp
  next
    case False
    with s f show ?thesis by (auto simp: safe_def kept_def split: completion.split)
  qed
qed (simp add: safe_Done)

lemma safe_chain:
  assumes "safe (f r)" "\<And>r. links [] r \<Longrightarrow> guarded r \<Longrightarrow> safe (g r)"
  shows "safe (seq [f, g] r)"
proof -
  obtain x r' where f: "f r = (x, r')" by fastforce
  show ?thesis
  proof (cases "x = Done")
    case True
    with assms(1) f have r': "links [] r'" "guarded r'" by (simp_all add: safe_def)
    moreover have "seq [f, g] r = seq [g] r'"
      by (subst seq.simps(2)) (simp add: f True del: seq.simps)
    ultimately show ?thesis using assms(2) by (simp add: seq_single del: seq.simps)
  next
    case False
    with assms(1) f show ?thesis by (auto simp: safe_def kept_def split: completion.split)
  qed
qed

text \<open>Routed requests and the announcement of a replacement.\<close>

fun forwards :: "coordinator_action \<Rightarrow> bool" where
  "forwards (Route_Request _ _ _ _ _) = True"
| "forwards (Broadcast_Engine_Replaced _) = True"
| "forwards _ = False"

lemma safe_forward:
  assumes "links [] r" "guarded r" "forwards a"
  shows "safe (apply_action env (plainFail env) a r)"
proof (cases a)
  case (Route_Request ot rt e n req)
  let ?r = "r\<lparr>routeStarted := AList.update n
            \<lparr> rt_startedAt = env_now env, rt_ownerEpoch = e,
              rt_category = operationCategoryForRequest req \<rparr> (routeStarted r)\<rparr>"
  have "links [] ?r" "guarded ?r" using safe_frame [OF assms(1,2), of ?r] by simp_all
  then show ?thesis
    unfolding Route_Request
    by (auto simp: Let_def safe_plainFail skip_def safe_Done intro!: safe_send split: option.split)
next
  case (Broadcast_Engine_Replaced e)
  let ?r = "broadcast (Engine_Replaced e)
        (telemetry (owner_observation Out_Success (Some Replacement)) r)"
  have "links [] ?r" "guarded ?r" using safe_frame [OF assms(1,2), of ?r] by simp_all
  then show ?thesis unfolding Broadcast_Engine_Replaced apply_action.simps by (rule safe_Done)
qed (use assms in simp_all)

lemma safe_forwards:
  "links [] r \<Longrightarrow> guarded r \<Longrightarrow> list_all forwards acts \<Longrightarrow> safe (applyActions env acts r)"
  by (auto simp: applyActions_def apply_actions_def list_all_iff safe_forward safe_Done
      intro!: safe_seq split: option.split)

section \<open>Page messages\<close>

lemma guarded_core:
  assumes "guarded r" "coreValue r = Some c" "stateValue c' = stateValue c"
    "nextRouteId c \<le> nextRouteId c'"
  shows "guarded (r\<lparr>coreValue := Some c'\<rparr>)"
  using guarded_fresh [OF assms(1)] armed_later [OF guarded_armed [OF assms(1,2)] assms(3,4)]
    fresh_watchdogs [of "r\<lparr>coreValue := Some c'\<rparr>" r] armed_watchdogs [of "r\<lparr>coreValue := Some c'\<rparr>" r]
  by (simp add: guarded_def)

lemma guarded_idle:
  assumes "fresh r" "coreValue r = Some c" "idle_state (stateValue c)"
  shows "guarded r"
  using assms by (simp add: guarded_def armed_idle)

lemma request_forwards:
  assumes "core_inv c" "request t q c = (Inr acts, c')"
  shows "list_all forwards acts \<or> list_all neutral acts"
proof (cases "t \<in> set (tabs c) \<and> t \<notin> retiringTabs c")
  case False
  with assms show ?thesis by (auto simp: request_def reject_def split: if_splits)
next
  case True
  let ?q = "\<lparr>qr_tabId = t, qr_request = q\<rparr>"
  have "\<And>ot e act c1. route ?q ot e c = (Inr act, c1) \<Longrightarrow> forwards act"
    by (auto simp: route_def Let_def split: if_splits)
  with True assms show ?thesis
    by (cases "stateValue c") (auto simp: request_def Let_def split: prod.splits sum.splits)
qed

lemma guarded_request:
  assumes "links [] r" "guarded r" "isCacheRequest q"
  shows "guarded (snd (call_core (request t q) (applyActions env) r))"
proof -
  obtain c where c: "coreValue r = Some c" "core_inv c" using assms(1) by (auto simp: links_Nil)
  obtain res c' where m: "request t q c = (res, c')" by fastforce
  then have step: "core_step (Ev_Request t q) c = (res, c')" by simp
  have "nextRouteId c \<le> nextRouteId c'"
    using flight_step [OF c(2), of "Ev_Request t q"] step by (simp add: flight_effect_def)
  with request_outcome [OF c(2) step] have g: "guarded (r\<lparr>coreValue := Some c'\<rparr>)"
    using guarded_core [OF assms(2) c(1)] by simp
  show ?thesis
  proof (cases res)
    case (Inl err)
    with g m c(1) show ?thesis by (simp add: call_core_def)
  next
    case (Inr acts)
    have l: "links [] (r\<lparr>coreValue := Some c'\<rparr>)" by (rule links_request [OF assms(1,3) c(1) m])
    consider "list_all forwards acts" | "list_all neutral acts"
      using request_forwards [OF c(2) m [unfolded Inr]] by blast
    then have "guarded (snd (applyActions env acts (r\<lparr>coreValue := Some c'\<rparr>)))"
    proof cases
      case 1
      from safe_forwards [OF l g this] show ?thesis by (simp add: safe_def)
    next
      case 2
      have plain: "list_all (\<lambda>a. \<not> recursing a) acts"
        using 2 neutral_plain by (metis list_all_iff)
      from guarded_frame [OF g] settle_neutral [OF 2, of env "r\<lparr>coreValue := Some c'\<rparr>"]
      show ?thesis unfolding applyActions_settle [OF plain] by blast
    qed
    with m c(1) Inr show ?thesis by (simp add: call_core_def)
  qed
qed

lemma guarded_graceful:
  assumes "links [] r" "guarded r"
  shows "guarded (snd (call_core (beginGracefulDeparture t e) (applyActions env) r))"
proof -
  obtain c where c: "coreValue r = Some c" "core_inv c"
    "core_links [] c (tabMap r) (engineRoute r) (microtasks r)" using assms(1) by (auto simp: links_Nil)
  show ?thesis
  proof (cases "stateValue c = Active t e")
    case False
    have "settles c (beginGracefulDeparture t e c)"
      using False violation_settles by (simp add: beginGracefulDeparture_def case_prod_beta)
    then show ?thesis by (rule guarded_settles [OF assms(2) c(1)])
  next
    case True
    let ?c = "c\<lparr>retiringTabs := insert t (retiringTabs c), stateValue := Draining t e\<rparr>"
    let ?r = "clearHeartbeatTimers (telemetry (owner_observation Out_Graceful (Some Graceful_Drain_Started))
        (r\<lparr>coreValue := Some ?c\<rparr>))"
    have step: "core_step (Ev_Graceful_Departure t e) c = (Inr [Drain_Owner t e], ?c)"
      using True by (simp add: beginGracefulDeparture_def)
    have l: "links [] (r\<lparr>coreValue := Some ?c\<rparr>)"
      by (rule links_core_update [OF assms(1) c(1) step])
        (use c(3) True in \<open>auto simp: core_links_Nil route_inv_def split: option.splits\<close>)
    have top: "topology ?r = topology (r\<lparr>coreValue := Some ?c\<rparr>)" by simp
    have l2: "links [] ?r" using l top by (rule links_by_topology)
    have "fresh (telemetry ob (r\<lparr>coreValue := Some ?c\<rparr>))" for ob
      using guarded_fresh [OF assms(2)] fresh_watchdogs [of "telemetry ob (r\<lparr>coreValue := Some ?c\<rparr>)" r] by simp
    then have "fresh ?r" by simp
    moreover have "coreValue ?r = Some ?c" using topology_parts [OF top] by simp
    ultimately have g2: "guarded ?r" by (rule guarded_idle) simp
    have "safe (apply_action env (plainFail env) (Drain_Owner t e) (r\<lparr>coreValue := Some ?c\<rparr>))"
      using l2 g2
      by (auto simp: Let_def safe_plainFail skip_def safe_Done intro!: safe_send split: option.split)
    with step c(1) show ?thesis
      by (simp add: call_core_def applyActions_def apply_actions_def safe_def seq_single
          del: apply_action.simps seq.simps)
  qed
qed

lemma guarded_navigation:
  assumes "links [] r" "guarded r"
  shows "guarded (snd (departForNavigation_r env t e reason r))"
proof -
  obtain c where c: "coreValue r = Some c" "core_inv c" using assms(1) by (auto simp: links_Nil)
  have s: "settles c (departForNavigation t e reason c)" by (rule settles_navigation [OF c(2)])
  show ?thesis
  proof (cases "owner_of (stateValue c) = Some (t, e)")
    case False
    from guarded_settles [OF assms(2) c(1), of "departForNavigation t e reason" env] s False c(1)
    show ?thesis by (simp add: departForNavigation_r_def core_state_def call_core_def)
  next
    case True
    let ?r = "recordNavigation env (stateValue c) e"
    obtain acts c' where m: "departForNavigation t e reason c = (Inr acts, c')"
      and arm: "arming (stateValue c') acts"
      using navigation_arming [OF c(2) True] by blast
    let ?x = "?r (r\<lparr>coreValue := Some c'\<rparr>)"
    have "fresh (r\<lparr>coreValue := Some c'\<rparr>)"
      using guarded_fresh [OF assms(2)] fresh_watchdogs [of "r\<lparr>coreValue := Some c'\<rparr>" r] by simp
    then have "fresh ?x" by (rule fresh_recordNavigation)
    moreover have "coreValue ?x = Some c'"
      using topology_parts [OF recordNavigation_topology [of env "stateValue c" e "r\<lparr>coreValue := Some c'\<rparr>"]]
      by simp
    ultimately have "guarded (snd (settle env acts ?x))" using arm by (intro guarded_arming)
    moreover have "list_all (\<lambda>a. \<not> recursing a) acts" using arm by (simp add: arming_def)
    ultimately show ?thesis using True m c(1)
      by (simp add: departForNavigation_r_def core_state_def call_core_def applyActions_settle seq_upd
          del: seq.simps)
  qed
qed

lemma guarded_call_arming:
  assumes "fresh r" "coreValue r = Some c" "f c = (Inr acts, c')" "arming (stateValue c') acts"
  shows "guarded (snd (call_core f (applyActions env) r))"
proof -
  let ?r = "r\<lparr>coreValue := Some c'\<rparr>"
  have "fresh ?r" using assms(1) fresh_watchdogs [of ?r r] by simp
  then have "guarded (snd (settle env acts ?r))" using assms(4) by (intro guarded_arming) simp_all
  moreover have "list_all (\<lambda>a. \<not> recursing a) acts" using assms(4) by (simp add: arming_def)
  ultimately show ?thesis using assms(2,3) by (simp add: call_core_def applyActions_settle)
qed

lemma guarded_loseTab:
  assumes "links [] r" "guarded r"
  shows "guarded (snd (loseTab env t reason r))"
proof -
  obtain c where c: "coreValue r = Some c" "core_inv c" using assms(1) by (auto simp: links_Nil)
  show ?thesis
  proof (cases "\<exists>e. owner_of (stateValue c) = Some (t, e)")
    case True
    then obtain e where e: "owner_of (stateValue c) = Some (t, e)" ..
    let ?x = "recordOwnerLoss env t e reason None None r"
    have "fresh ?x" using guarded_fresh [OF assms(2)] by (rule fresh_recordOwnerLoss)
    moreover have "coreValue ?x = Some c"
      using topology_parts [OF recordOwnerLoss_topology [of env t e reason None None r]] c(1) by simp
    moreover obtain acts c' where "tabLost t reason c = (Inr acts, c')" "arming (stateValue c') acts"
      by (rule that [OF tabLost_owner [OF c(2) e]]) (simp add: arming_def)
    ultimately have "guarded (snd (call_core (tabLost t reason) (applyActions env) ?x))"
      by (rule guarded_call_arming)
    then show ?thesis by (simp add: loseTab_def core_state_def c(1) e)
  next
    case False
    have "guarded (snd (call_core (tabLost t reason) (applyActions env) r))"
      by (rule guarded_settles [where f = "tabLost t reason", OF assms(2) c(1) settles_tabLost [OF c(2)]])
    with False show ?thesis by (auto simp: loseTab_def core_state_def c(1) split: option.split)
  qed
qed

text \<open>Handles taken for other purposes than timers.\<close>

lemma guarded_later:
  assumes "guarded r" "timers r' = timers r" "activationTimer r' = activationTimer r"
    "heartbeatIntervalTimer r' = heartbeatIntervalTimer r"
    "heartbeatTimeoutTimer r' = heartbeatTimeoutTimer r" "pendingHeartbeat r' = pendingHeartbeat r"
    "nextHandle r \<le> nextHandle r'" "coreValue r' = coreValue r"
  shows "guarded r'"
proof -
  have "fresh r'" using guarded_fresh [OF assms(1)] assms(2,7) by (auto simp: fresh_def)
  moreover have "armed c r' = armed c r" for c
    unfolding armed_def alive_defs by (simp only: assms(2-6))
  ultimately show ?thesis using assms(1,8) by (simp add: guarded_def)
qed

lemma guarded_topology:
  "guarded r \<Longrightarrow> watchdogs r' = watchdogs r \<Longrightarrow> topology r' = topology r \<Longrightarrow> guarded r'"
  using guarded_frame topology_parts by metis

lemma guarded_attach:
  assumes "links [] r" "guarded r"
  shows "guarded (snd (attachEnginePort env t e port r))"
proof -
  let ?x = "emit (Close_Endpoint port) r"
  have x: "links [] ?x" "guarded ?x" using safe_frame [OF assms, of ?x] by simp_all
  have err: "guarded (postProtocolError p err ?x)" for p err
    using x(2) by (rule guarded_topology) simp_all
  have "guarded (r\<lparr>engineRoute := Some ro, nextHandle := nextHandle r + 1\<rparr>)" for ro
    using assms(2) by (rule guarded_later) simp_all
  with x err show ?thesis
    by (auto simp: attachEnginePort_def Let_def guarded_failOwner core_ok_links split: option.split)
qed

lemma guarded_dispatchTab:
  assumes "links [] r" "guarded r" "wf_tab_to_coordinator msg"
  shows "guarded (snd (dispatchTab env t msg r))"
  using assms
  by (cases msg)
    (simp_all add: guarded_request guarded_attach guarded_graceful guarded_navigation
      guarded_failOwner core_ok_links guarded_loseTab skip_def)

lemma refuse_watchdogs [simp]: "watchdogs (refuse port err r) = watchdogs r"
  by (simp add: refuse_def)

lemma guarded_register:
  assumes "guarded r"
  shows "guarded (register port sc t lock hot r)"
proof -
  have "guarded (refuse port err r)" for err
    using assms by (rule guarded_topology) simp_all
  moreover have "guarded (postProtocolError p err r)" for p err
    using assms by (rule guarded_topology) simp_all
  moreover have "guarded (r\<lparr>pendingRegistrations := x, probes := y, nextHandle := nextHandle r + 1\<rparr>)" for x y
    using assms by (rule guarded_later) simp_all
  ultimately show ?thesis by (simp add: register_def)
qed

lemma guarded_connect:
  assumes "guarded r"
  shows "guarded (connectTab probe r)"
proof -
  have "guarded (r\<lparr>watches := a, nextHandle := nextHandle r + 1, tabMap := b, portTabs := d\<rparr>)" for a b d
    using assms by (rule guarded_later) simp_all
  then show ?thesis unfolding connectTab_def Let_def by (rule guarded_topology) simp_all
qed

lemma guarded_registerProbed:
  assumes "router_inv r0" "guarded r0"
  shows "guarded (snd (registerProbed env h outcome r0))"
proof (cases "map_of (probes r0) h")
  case None
  with assms show ?thesis by (simp add: registerProbed_def)
next
  case (Some probe)
  let ?r = "r0\<lparr>probes := AList.delete h (probes r0)\<rparr>"
  let ?r1 = "?r\<lparr>pendingRegistrations := AList.delete (lp_port probe) (pendingRegistrations ?r)\<rparr>"
  have ps: "probes_inv (probes r0)" using assms(1) by (auto simp: router_inv_def unstarted_def links_Nil)
  with Some have probe: "lp_tabId probe \<noteq> []" "lp_scope probe \<noteq> []"
    by (auto simp: probes_inv_def dest!: map_of_SomeD)
  have g: "guarded ?r" "guarded ?r1" by (rule guarded_frame [OF assms(2)]; simp)+
  have refused: "guarded (refuse port err ?r1)" for port err
    using g(2) by (rule guarded_topology) simp_all
  have inv: "router_inv ?r"
    using router_inv_probes [OF assms(1) probes_inv_delete [OF ps], of r0 h] by simp
  then have inv1: "router_inv ?r1" by (rule router_inv_topology) simp
  have "guarded (snd (seq [ensureCore probe, upd (connectTab probe),
        call_core (registerTab (lp_tabId probe)) (applyActions env)] ?r1))"
  proof -
    from ensureCore_links [OF inv1 probe(2)] obtain r' where
      r': "ensureCore probe ?r1 = (Done, r')" "links [] r'" by blast
    have "guarded r'"
    proof (cases "coreValue ?r1")
      case None
      have "fresh (?r1\<lparr>coreValue := Some c, hotCapacity := x\<rparr>)" for c x
        using guarded_fresh [OF g(2)] fresh_watchdogs [of "?r1\<lparr>coreValue := Some c, hotCapacity := x\<rparr>" ?r1]
        by simp
      then show ?thesis
        using r'(1) None probe(2)
        by (auto simp: ensureCore_def new_core_def initial_core_def intro!: guarded_idle)
    qed (use r'(1) g(2) in \<open>simp add: ensureCore_def\<close>)
    then have g3: "guarded (connectTab probe r')" by (rule guarded_connect)
    obtain c where "coreValue (connectTab probe r') = Some c"
      using r'(2) connectTab_topology [of probe r'] by (auto simp: links_Nil topology_def)
    from guarded_settles [where f = "registerTab (lp_tabId probe)", OF g3 this settles_register, of env] r'(1) show ?thesis
      unfolding seq3 by (simp add: seq_upd del: seq.simps)
  qed
  with g refused show ?thesis
    by (simp add: registerProbed_def Some Let_def del: seq.simps)
qed

section \<open>Engine messages\<close>

lemma activated_guarded:
  assumes "fresh r" "coreValue r = Some c" "stateValue c = Active t e"
  shows "guarded (engineActivated env e out r)"
proof -
  obtain x where x: "engineActivated env e out r = scheduleHeartbeat e (clearActivationTimer x)"
    "watchdogs x = watchdogs r" using engineActivated_schedules by blast
  have "fresh (clearActivationTimer x)" using fresh_watchdogs [OF x(2)] assms(1) by simp
  from scheduleHeartbeat_alive [OF this] have "fresh (engineActivated env e out r)"
    "interval_alive e (engineActivated env e out r)" by (simp_all add: x(1))
  moreover have "coreValue (engineActivated env e out r) = Some c"
    using topology_parts [OF engineActivated_topology [of env e out r]] assms(2) by simp
  ultimately show ?thesis using assms(3) by (simp add: guarded_def armed_def)
qed

lemma guarded_afterReady:
  assumes "core_ok r" "guarded r"
  shows "guarded (snd (afterReady env ro e out violated r))"
proof (cases violated)
  case True
  have "guarded (postTerminateEngine t e' why r)" for t e' why
    using assms(2) by (rule guarded_topology) simp_all
  with True assms show ?thesis by (simp add: afterReady_def guarded_failOwner)
next
  case False
  have "guarded (engineActivated env e out r)" if "core_state r = Some (Active t e)" for t
    using that guarded_fresh [OF assms(2)] activated_guarded by (auto simp: core_state_def)
  with False assms(2) show ?thesis
    by (auto simp: afterReady_def split: option.split coordinator_state.split)
qed

text \<open>Between the activation of the core and the first heartbeat.\<close>

definition awaiting :: "js_string \<Rightarrow> owner_epoch \<Rightarrow> router \<Rightarrow> bool" where
  "awaiting t e r \<longleftrightarrow> links [] r \<and> fresh r \<and>
     (\<exists>c. coreValue r = Some c \<and> (stateValue c = Active t e \<or> idle_state (stateValue c)))"

lemma seq_keeps:
  "(\<And>f r. f \<in> set fs \<Longrightarrow> P r \<Longrightarrow> P (snd (f r))) \<Longrightarrow> P r \<Longrightarrow> P (snd (seq fs r))"
proof (induction fs arbitrary: r)
  case (Cons f fs)
  obtain x r' where f: "f r = (x, r')" by fastforce
  then have r': "P r'" using Cons.prems(1) [of f r] Cons.prems(2) by simp
  have "P (snd (seq fs r'))" using Cons.prems(1) by (intro Cons.IH [OF _ r']) simp_all
  with f r' show ?case by (cases x) simp_all
qed simp

lemma awaiting_watchdogs:
  assumes "awaiting t e r" "topology r' = topology r" "watchdogs r' = watchdogs r"
  shows "awaiting t e r'"
  using assms(1) links_by_topology [OF _ assms(2)] fresh_watchdogs [OF assms(3)]
    topology_parts [OF assms(2)] by (simp add: awaiting_def)

lemma awaiting_plainFail:
  assumes "awaiting t e r"
  shows "awaiting t e (snd (plainFail env t' e' reason r))"
proof -
  obtain c where c: "links [] r" "fresh r" "coreValue r = Some c" "core_inv c"
    using assms by (auto simp: awaiting_def links_Nil)
  have l: "links [] (snd (plainFail env t' e' reason r))"
    using kept_plainFail [OF c(1)] by (simp add: kept_def)
  show ?thesis
  proof (cases "owner_of (stateValue c) = Some (t', e')")
    case False
    with assms c show ?thesis by (simp add: plainFail_def failOwner_idle)
  next
    case True
    let ?s = "r\<lparr>coreValue := Some (lostCore t' e' reason c)\<rparr>"
    have "fresh ?s" using c(2) fresh_watchdogs [of ?s r] by simp
    then have "fresh (snd (plainFail env t' e' reason r))"
      by (simp add: plainFail_def failOwner_owner [OF c(3,4) True] fresh_settle fresh_recordOwnerLoss)
    with l failOwner_core [OF c(3,4) True] show ?thesis
      by (simp add: awaiting_def plainFail_def lostCore_def)
  qed
qed

lemma awaiting_forward:
  assumes "awaiting t e r" "forwards a"
  shows "awaiting t e (snd (apply_action env (plainFail env) a r))"
proof (cases a)
  case (Route_Request ot rt e' n req)
  have x: "awaiting t e (r\<lparr>routeStarted := x\<rparr>)" for x
    using assms(1) by (rule awaiting_watchdogs) simp_all
  then have "awaiting t e (emit out (r\<lparr>routeStarted := x\<rparr>))" for x out
    by (rule awaiting_watchdogs) simp_all
  with x show ?thesis
    unfolding Route_Request
    by (simp add: Let_def awaiting_plainFail sendToEngine_def skip_def split: option.split)
next
  case (Broadcast_Engine_Replaced e')
  show ?thesis
    unfolding Broadcast_Engine_Replaced apply_action.simps snd_conv
    using assms(1) by (rule awaiting_watchdogs) simp_all
qed (use assms in simp_all)

lemma awaiting_forwards:
  assumes "awaiting t e r" "list_all forwards acts"
  shows "awaiting t e (snd (applyActions env acts r))"
proof -
  have "awaiting t e (snd (seq (List.map (apply_action env (plainFail env)) acts) r))"
    by (rule seq_keeps [where P = "awaiting t e"])
      (use assms awaiting_forward in \<open>auto simp: list_all_iff\<close>)
  with assms(1) show ?thesis by (auto simp: applyActions_def apply_actions_def awaiting_def)
qed

lemma guarded_awaited:
  assumes "awaiting t e r"
  shows "guarded (snd (afterReady env ro e out False r))"
proof -
  obtain c where c: "fresh r" "coreValue r = Some c" "stateValue c = Active t e \<or> idle_state (stateValue c)"
    using assms by (auto simp: awaiting_def)
  then show ?thesis
    using activated_guarded [OF c(1,2)] guarded_idle [OF c(1,2)]
    by (auto simp: afterReady_def core_state_def split: coordinator_state.splits)
qed

lemma awaiting_exhausted: "awaiting t e r \<Longrightarrow> core_exhausted r \<Longrightarrow> guarded r"
  using guarded_idle [of r] by (auto simp: awaiting_def core_exhausted_def guarded_def armed_def)

lemma forwards_harmless: "list_all forwards acts \<Longrightarrow> \<not> list_ex is_violation acts"
  by (induction acts) (auto elim: forwards.elims)

lemma flush_forwards:
  "flush_queue t e qs acts c = (Inr acts', c') \<Longrightarrow> list_all forwards acts \<Longrightarrow> list_all forwards acts'"
proof (induction qs arbitrary: acts c)
  case (Cons q qs)
  have "forwards act" if "route q t e c1 = (Inr act, c2)" for act c1 c2
    using that by (auto simp: route_def Let_def split: if_splits)
  with Cons show ?case by (auto simp: Let_def split: if_splits sum.splits prod.splits)
qed simp

lemma seq2: "seq [f, g] r = (case f r of (Done, r') \<Rightarrow> g r' | (x, r') \<Rightarrow> (x, r'))"
  by (subst seq.simps(2)) (simp only: seq_single)

lemma guarded_ready:
  assumes "links [] r" "guarded r" "engineRoute r = Some ro" "ro_tabId ro = t" "ro_ownerEpoch ro = e"
  shows "guarded (snd (dispatchEngine env ro (Engine_Ready t e lock proof out) r))"
proof -
  let ?ready = "to_ready t e lock proof out (databaseOwnerLockName (scope_of r))"
  obtain c where c: "coreValue r = Some c" "core_inv c"
    "core_links [] c (tabMap r) (engineRoute r) (microtasks r)"
    using assms by (auto simp: links_Nil)
  have ready: "er_tabId ?ready = t" "er_ownerEpoch ?ready = e" by (simp_all add: to_ready_def)
  obtain res c' where m: "engineReady ?ready c = (res, c')" by fastforce
  let ?s = "r\<lparr>coreValue := Some c'\<rparr>"
  have fs: "fresh ?s" using guarded_fresh [OF assms(2)] fresh_watchdogs [of ?s r] by simp
  show ?thesis
  proof (cases "\<exists>a. stateValue c = Activating t e a \<and> ready_error ?ready = None")
    case True
    then obtain a where a: "stateValue c = Activating (er_tabId ?ready) (er_ownerEpoch ?ready) a"
      "ready_error ?ready = None" by (auto simp: ready)
    note out = accepted_flush [OF c(2) a m]
    have l: "links [] ?s"
      by (rule links_accepted [OF assms(1) c(1) a m assms(3)]) (use assms(4,5) ready in simp_all)
    show ?thesis
    proof (cases res)
      case (Inl err)
      have "guarded ?s" using fs out Inl by (simp add: guarded_def armed_def)
      with Inl m c(1) show ?thesis by (simp add: call_core_def)
    next
      case (Inr acts)
      have fw: "list_all forwards acts"
        using m Inr flush_forwards
        by (auto simp: engineReady_accepted [OF a] return_asserting_def
            split: prod.splits sum.splits option.splits if_splits)
      have "awaiting t e ?s" using l fs out by (simp add: awaiting_def ready)
      from awaiting_forwards [OF this fw, of env]
      obtain x r' where x: "applyActions env acts ?s = (x, r')" "awaiting t e r'"
        by (cases "applyActions env acts ?s") simp
      have "kept (x, r')"
        using kept_applyActions_routing [OF l, of acts env] out Inr x(1) by simp
      then have "guarded r'" if "x \<noteq> Done"
        using that awaiting_exhausted [OF x(2)] by (auto simp: kept_def)
      with x guarded_awaited [OF x(2), of env ro] m c(1) Inr forwards_harmless [OF fw]
      show ?thesis by (cases x) (simp_all add: call_core_def seq2 del: seq.simps)
    qed
  next
    case False
    have "settles c (engineReady ?ready c)"
    proof (cases "\<exists>a. stateValue c = Activating t e a")
      case False
      then show ?thesis
        by (simp add: engineReady_unexpected ready settles_def calm_def)
    next
      case True
      then obtain a err where a: "stateValue c = Activating (er_tabId ?ready) (er_ownerEpoch ?ready) a"
        "ready_error ?ready = Some err" using False by (auto simp: ready)
      show ?thesis by (simp add: engineReady_refused [OF c(2) a] settles_def arming_def)
    qed
    then obtain acts where acts: "res = Inr acts" "settles c (Inr acts, c')"
      using m by (cases res) (auto simp: settles_def)
    have g: "guarded (snd (applyActions env acts ?s))"
      using guarded_settles [where f = "engineReady ?ready", OF assms(2) c(1), of env] m acts c(1)
      by (simp add: call_core_def)
    have plain: "list_all (\<lambda>a. \<not> recursing a) acts" using settles_plain [OF acts(2)] .
    obtain r' where r': "applyActions env acts ?s = (Done, r')"
      using apply_actions_done [OF plain, of env "plainFail env" ?s]
      by (cases "applyActions env acts ?s") (simp add: applyActions_def)
    have "core_inv c'" using core_inv_step [OF c(2), of "Ev_Engine_Ready ?ready"] m by simp
    moreover have "coreValue r' = Some c'"
      using settle_core [OF plain, of env ?s] r' by (simp add: applyActions_settle [OF plain])
    ultimately have "core_ok r'" by (simp add: core_ok_def)
    from guarded_afterReady [OF this, of env ro e out] g r' m c(1) acts(1) show ?thesis
      by (simp add: call_core_def seq2 del: seq.simps)
  qed
qed

lemma guarded_ack:
  assumes "links [] r" "guarded r" "engineRoute r = Some ro" "ro_ownerEpoch ro = e"
  shows "guarded (acceptHeartbeat e h r)"
proof (cases "pendingHeartbeat r = Some (e, h)")
  case True
  obtain c where c: "coreValue r = Some c" "core_links [] c (tabMap r) (engineRoute r) (microtasks r)"
    using assms(1) by (auto simp: links_Nil)
  have owner: "owner_of (stateValue c) = Some (ro_tabId ro, e)"
    using c(2) assms(3,4) by (simp add: core_links_Nil route_inv_def)
  let ?s = "((clear_timer (heartbeatTimeoutTimer r) r)\<lparr>heartbeatTimeoutTimer := None\<rparr>)
      \<lparr>pendingHeartbeat := None\<rparr>"
  have "fresh ?s" using fresh_clear(1) [OF guarded_fresh [OF assms(2)]] by (simp add: fresh_def)
  from scheduleHeartbeat_alive [OF this, of e] True
  have alive: "fresh (acceptHeartbeat e h r)" "interval_alive e (acceptHeartbeat e h r)"
    by (simp_all add: acceptHeartbeat_def Let_def)
  have core: "coreValue (acceptHeartbeat e h r) = Some c"
    using topology_parts [OF schedule_topology(2) [of e h r]] c(1) by simp
  have "\<not> act_alive t e' r" for t e' using True by (simp add: act_alive_def)
  then have "armed c (acceptHeartbeat e h r)"
    using guarded_armed [OF assms(2) c(1)] owner alive(2) by (cases "stateValue c") (auto simp: armed_def)
  with alive core show ?thesis by (simp add: guarded_def)
qed (use assms(2) in \<open>simp add: acceptHeartbeat_def\<close>)

lemma guarded_drained:
  assumes "links [] r" "guarded r"
  shows "guarded (snd (dispatchEngine env ro (Engine_Drained t e) r))"
proof -
  obtain c where c: "coreValue r = Some c" "core_inv c" using assms(1) by (auto simp: links_Nil)
  have s: "settles c (engineDrained t e c)" by (rule settles_drained [OF c(2)])
  obtain acts c' where m: "engineDrained t e c = (Inr acts, c')"
    using s by (cases "engineDrained t e c") (auto simp: settles_def split: sum.splits)
  have plain: "list_all (\<lambda>a. \<not> recursing a) acts" using settles_plain s m by metis
  let ?s = "r\<lparr>coreValue := Some c'\<rparr>"
  let ?x = "telemetry (owner_observation Out_Graceful (Some Graceful_Drain_Completed)) r"
  have g: "guarded (snd (applyActions env acts ?s))"
    using guarded_settles [where f = "engineDrained t e", OF assms(2) c(1) s, of env] m c(1)
    by (simp add: call_core_def)
  have gx: "guarded ?x" "coreValue ?x = Some c"
    using guarded_topology [OF assms(2), of ?x] c(1) by (simp_all add: telemetry_def emit_def)
  have "guarded (snd (applyActions env acts (?x\<lparr>coreValue := Some c'\<rparr>)))"
    using guarded_settles [where f = "engineDrained t e", OF gx s, of env] m gx(2)
    by (simp add: call_core_def)
  moreover have "?x\<lparr>coreValue := Some c'\<rparr> =
      telemetry (owner_observation Out_Graceful (Some Graceful_Drain_Completed)) ?s"
    by (cases r) (simp add: telemetry_def emit_def)
  ultimately have g2: "guarded (snd (applyActions env acts
      (telemetry (owner_observation Out_Graceful (Some Graceful_Drain_Completed)) ?s)))"
    by simp
  obtain r' where r': "applyActions env acts ?s = (Done, r')"
    using apply_actions_done [OF plain, of env "plainFail env" ?s]
    by (cases "applyActions env acts ?s") (simp add: applyActions_def)
  have "core_inv c'" using core_inv_step [OF c(2), of "Ev_Engine_Drained t e"] m by simp
  moreover have "coreValue r' = Some c'"
    using settle_core [OF plain, of env ?s] r' by (simp add: applyActions_settle [OF plain])
  ultimately have "core_ok r'" by (simp add: core_ok_def)
  with g g2 r' m c(1) show ?thesis
    by (simp add: call_core_def upd_def seq2 guarded_failOwner del: seq.simps)
qed

lemma guarded_dispatchEngine:
  assumes "links [] r" "guarded r" "engineRoute r = Some ro" "ec_epoch msg = ro_ownerEpoch ro"
    "\<And>t. ec_tab msg = Some t \<Longrightarrow> t = ro_tabId ro"
  shows "guarded (snd (dispatchEngine env ro msg r))"
proof -
  obtain c where c: "coreValue r = Some c" using assms(1) by (auto simp: links_Nil)
  show ?thesis
  proof (cases msg)
    case (Engine_Ready t e lock pr out)
    with assms show ?thesis by (simp add: guarded_ready del: dispatchEngine.simps)
  next
    case (Engine_Response e n response)
    let ?r = "finishTiming env n response r"
    have "guarded ?r" using assms(2) by (rule guarded_topology) simp_all
    moreover have "coreValue ?r = Some c"
      using topology_parts [OF finishTiming_frame(1) [of env n response r]] c by simp
    ultimately show ?thesis
      unfolding Engine_Response dispatchEngine.simps by (rule guarded_settles) (rule settles_response)
  next
    case (Engine_Push e push)
    show ?thesis
      unfolding Engine_Push dispatchEngine.simps
      using assms(2) c by (rule guarded_settles) (rule settles_push)
  next
    case (Engine_Drained t e)
    show ?thesis unfolding Engine_Drained by (rule guarded_drained [OF assms(1,2)])
  next
    case (Heartbeat_Ack e h)
    with assms show ?thesis by (simp add: guarded_ack)
  qed (use assms(1,2) in \<open>simp_all add: guarded_failOwner core_ok_links\<close>)
qed

lemma guarded_engineMessage:
  assumes "links [] r" "guarded r" "engineRoute r = Some ro"
  shows "guarded (snd (handleEngineMessage env ro raw r))"
  using assms
  by (auto simp: handleEngineMessage_def guarded_failOwner core_ok_links
      intro!: guarded_dispatchEngine split: sum.split option.splits)

section \<open>Timers\<close>

text \<open>A timer that is neither the live activation timer nor a live heartbeat timer.\<close>

lemma guarded_fired:
  assumes "guarded r" "map_of (timers r) h = Some cb"
    "\<And>c t e a. coreValue r = Some c \<Longrightarrow> stateValue c = Activating t e a \<Longrightarrow> cb \<noteq> Activation_Watchdog t e"
    "\<And>c t e. coreValue r = Some c \<Longrightarrow> stateValue c = Active t e \<Longrightarrow> cb \<noteq> Heartbeat_Interval e"
    "\<And>c t e n. coreValue r = Some c \<Longrightarrow> stateValue c = Active t e \<Longrightarrow>
       cb \<noteq> Heartbeat_Timeout t e n \<or> pendingHeartbeat r \<noteq> Some (e, n)"
  shows "guarded (r\<lparr>timers := AList.delete h (timers r)\<rparr>)"
proof -
  let ?r = "r\<lparr>timers := AList.delete h (timers r)\<rparr>"
  have live: "map_of (timers ?r) h' = Some cb'" if "map_of (timers r) h' = Some cb'" "cb' \<noteq> cb" for h' cb'
    using that assms(2) by (auto simp: delete_conv')
  have "armed c ?r" if c: "coreValue r = Some c" for c
  proof (cases "stateValue c")
    case (Activating t e a)
    with guarded_armed [OF assms(1) c] assms(3) [OF c Activating] live show ?thesis
      by (auto simp: armed_def act_alive_def split: option.splits)
  next
    case (Active t e)
    then consider "exhausted c" | "interval_alive e r" | "timeout_alive t e r"
      using guarded_armed [OF assms(1) c] by (auto simp: armed_def)
    then show ?thesis
    proof cases
      case 1
      with Active show ?thesis by (simp add: armed_def)
    next
      case 2
      then have "interval_alive e ?r"
        using assms(4) [OF c Active] live by (auto simp: interval_alive_def split: option.splits)
      with Active show ?thesis by (simp add: armed_def)
    next
      case 3
      then have "timeout_alive t e ?r"
        using assms(5) [OF c Active] live
        by (auto simp: timeout_alive_def split: option.splits)
      with Active show ?thesis by (simp add: armed_def)
    qed
  qed (simp_all add: armed_def)
  then show ?thesis using fresh_delete [OF guarded_fresh [OF assms(1)]] by (simp add: guarded_def)
qed

lemma timeout_set:
  assumes "fresh r" "pendingHeartbeat r = Some (e, n)"
  shows "let x = (case set_timer (Heartbeat_Timeout t e n) r of (h, r2) \<Rightarrow> r2\<lparr>heartbeatTimeoutTimer := Some h\<rparr>)
    in fresh x \<and> timeout_alive t e x"
proof -
  obtain h r2 where h: "set_timer (Heartbeat_Timeout t e n) r = (h, r2)" by fastforce
  have "fresh r2" "map_of (timers r2) h = Some (Heartbeat_Timeout t e n)"
    "pendingHeartbeat r2 = Some (e, n)"
    using fresh_set_timer [OF assms(1), of "Heartbeat_Timeout t e n"] assms(2)
      set_timer_alive [OF assms(1), of "Heartbeat_Timeout t e n"]
      set_timer_fields(1) [of "Heartbeat_Timeout t e n" r] h by simp_all
  then show ?thesis by (simp add: h fresh_def timeout_alive_def)
qed

text \<open>The interval timer of the serving engine has fired.\<close>

definition lost :: "js_string \<Rightarrow> owner_epoch \<Rightarrow> router \<Rightarrow> bool" where
  "lost t e r \<longleftrightarrow>
     (\<exists>c why. coreValue r = Some c \<and> stateValue c = Resetting_After_Loss t e (Suc e) why)"

lemma lost_core: "coreValue r = Some (lostCore t e reason c) \<Longrightarrow> lost t e r"
  by (simp add: lost_def lostCore_def)

lemma beat_outcome:
  assumes "links [] r" "fresh r" "engineRoute r = Some ro" "coreValue r = Some c"
    "stateValue c = Active t e"
  shows "\<exists>x. snd (heartbeatInterval env e r) = x \<and> fresh x \<and>
    (coreValue x = Some c \<and> timeout_alive t e x \<or> lost t e x)"
proof -
  have core: "core_inv c" and ro: "ro_tabId ro = t" "ro_ownerEpoch ro = e"
    using assms(1,3-5) by (auto simp: links_Nil core_links_Nil route_inv_def)
  let ?n = "nextHeartbeatId r"
  let ?s = "r\<lparr>nextHeartbeatId := ?n + 1, pendingHeartbeat := Some (e, ?n)\<rparr>"
  let ?sent = "emit (Send_Engine (ro_transport ro) (Heartbeat e ?n)) ?s"
  let ?x = "case set_timer (Heartbeat_Timeout t e ?n) ?sent of
      (h, r2) \<Rightarrow> r2\<lparr>heartbeatTimeoutTimer := Some h\<rparr>"
  have fs: "fresh ?s" using assms(2) by (simp add: fresh_def)
  have "fresh ?sent" using fs fresh_watchdogs [of ?sent ?s] by simp
  then have x: "fresh ?x" "timeout_alive t e ?x"
    using timeout_set [of ?sent e ?n t] by (simp_all add: emit_def Let_def)
  have cx: "coreValue ?x = Some c" using assms(4) by (simp add: set_timer_def emit_def)
  have f: "fresh (snd (plainFail env t e reason ?s)) \<and> lost t e (snd (plainFail env t e reason ?s))"
    for reason
  proof -
    let ?lost = "lostCore t e reason c"
    have c: "coreValue ?s = Some c" "owner_of (stateValue c) = Some (t, e)"
      using assms(4,5) by simp_all
    have "fresh (?s\<lparr>coreValue := Some ?lost\<rparr>)" using fs by (simp add: fresh_def)
    then have "fresh (snd (plainFail env t e reason ?s))"
      unfolding plainFail_def failOwner_owner [OF c(1) core c(2)]
      by (intro fresh_settle fresh_recordOwnerLoss lossActions_plain)
    moreover have "coreValue (snd (plainFail env t e reason ?s)) = Some ?lost"
      unfolding plainFail_def by (rule failOwner_core [OF c(1) core c(2)])
    ultimately show ?thesis by (simp add: lost_core)
  qed
  show ?thesis
  proof (cases "env_send env (Heartbeat e ?n)")
    case None
    with x cx assms(3-5) ro show ?thesis
      by (simp add: heartbeatInterval_def core_state_def Let_def sendToEngine_def upd_def)
  next
    case (Some err)
    with f assms(3-5) ro show ?thesis
      by (simp add: heartbeatInterval_def core_state_def Let_def sendToEngine_def)
  qed
qed

lemma lost_guarded: "fresh r \<Longrightarrow> lost t e r \<Longrightarrow> guarded r"
  by (auto simp: lost_def intro: guarded_idle)

lemma guarded_beat:
  assumes "links [] r" "fresh r" "engineRoute r = Some ro" "coreValue r = Some c"
    "stateValue c = Active t e"
  shows "guarded (snd (heartbeatInterval env e r))"
proof -
  obtain x where x: "snd (heartbeatInterval env e r) = x" "fresh x"
    "coreValue x = Some c \<and> timeout_alive t e x \<or> lost t e x"
    using beat_outcome [OF assms] by blast
  then show ?thesis
    using assms(5) lost_guarded [OF x(2)] by (auto simp: guarded_def armed_def)
qed

lemma guarded_timer:
  assumes "router_inv r" "guarded r"
  shows "guarded (snd (timerFired env h r))"
proof (cases "map_of (timers r) h")
  case None
  with assms show ?thesis by (simp add: timerFired_def)
next
  case (Some cb)
  let ?r = "r\<lparr>timers := AList.delete h (timers r)\<rparr>"
  note fired = guarded_fired [OF assms(2) Some]
  have inv: "router_inv ?r" "fresh ?r"
    using router_inv_topology [OF assms(1), of ?r] fresh_delete [OF guarded_fresh [OF assms(2)]] by simp_all
  have lost: "guarded (snd (failOwner env t e reason None None ?r))"
    if "\<And>c. coreValue r = Some c \<Longrightarrow> owner_of (stateValue c) \<noteq> Some (t, e) \<Longrightarrow> guarded ?r" for t e reason
  proof (cases "\<exists>c. coreValue r = Some c \<and> owner_of (stateValue c) = Some (t, e)")
    case False
    have "guarded ?r" if "coreValue r = None" using that inv(2) by (simp add: guarded_def)
    with False that show ?thesis by (cases "coreValue r") (simp_all add: failOwner_idle)
  next
    case True
    then obtain c where c: "coreValue ?r = Some c" "owner_of (stateValue c) = Some (t, e)" by auto
    then have core: "core_inv c" using core_ok_inv [OF inv(1)] by (simp add: core_ok_def)
    have "fresh (?r\<lparr>coreValue := Some (lostCore t e reason c)\<rparr>)" using inv(2) by (simp add: fresh_def)
    then have "fresh (snd (failOwner env t e reason None None ?r))"
      unfolding failOwner_owner [OF c(1) core c(2)]
      by (intro fresh_settle fresh_recordOwnerLoss lossActions_plain)
    then show ?thesis
      by (rule guarded_idle [OF _ failOwner_core [OF c(1) core c(2)]]) (simp add: lostCore_def)
  qed
  show ?thesis
  proof (cases cb)
    case (Activation_Watchdog t e)
    have "guarded ?r" if "coreValue r = Some c" "owner_of (stateValue c) \<noteq> Some (t, e)" for c
      by (rule fired) (use that Activation_Watchdog in auto)
    with lost Activation_Watchdog Some show ?thesis by (simp add: timerFired_def)
  next
    case (Heartbeat_Timeout t e n)
    have "guarded ?r" if "pendingHeartbeat r \<noteq> Some (e, n)"
      by (rule fired) (use that Heartbeat_Timeout in auto)
    moreover have "guarded ?r" if "coreValue r = Some c" "owner_of (stateValue c) \<noteq> Some (t, e)" for c
      by (rule fired) (use that Heartbeat_Timeout in auto)
    ultimately show ?thesis using lost Heartbeat_Timeout Some by (simp add: timerFired_def)
  next
    case (Heartbeat_Interval e)
    have idle: "guarded ?r" if "\<And>c t. coreValue r = Some c \<Longrightarrow> stateValue c \<noteq> Active t e"
      by (rule fired) (use that Heartbeat_Interval in auto)
    show ?thesis
    proof (cases "\<exists>c t. coreValue r = Some c \<and> stateValue c = Active t e")
      case False
      then have "guarded ?r" by (intro idle) blast
      with False Heartbeat_Interval Some show ?thesis
        by (auto simp: timerFired_def heartbeatInterval_def core_state_def
            split: option.split coordinator_state.split)
    next
      case True
      then obtain c t where c: "coreValue r = Some c" "stateValue c = Active t e" by blast
      then have l: "links [] ?r" using inv(1) by (auto simp: router_inv_def unstarted_def)
      with c obtain ro where "engineRoute ?r = Some ro"
        by (auto simp: links_Nil core_links_Nil route_inv_def split: option.splits)
      from guarded_beat [OF l inv(2) this] c Heartbeat_Interval Some show ?thesis
        by (simp add: timerFired_def)
    qed
  qed
qed

section \<open>Every event\<close>

lemma guarded_inv_links:
  "router_inv r \<Longrightarrow> coreValue r = Some c \<Longrightarrow> links [] r"
  by (auto simp: router_inv_def unstarted_def)

lemma fold_closePort_watchdogs [simp]: "watchdogs (fold closePort ps r) = watchdogs r"
  by (induction ps arbitrary: r) simp_all

lemma guarded_tabMessage:
  assumes "router_inv r" "guarded r"
  shows "guarded (snd (handleTabMessage env port raw ports r))"
proof (cases "validateTabToCoordinatorEnvelope raw")
  case (Inl err)
  have "guarded (postProtocolError (Some port) err r)"
    using assms(2) by (rule guarded_topology) simp_all
  with Inl show ?thesis by (simp add: handleTabMessage_def)
next
  case (Inr msg)
  then have wf: "wf_tab_to_coordinator msg" by (rule tab_codec.validate_wf)
  have err: "guarded (postProtocolError p e (fold closePort ps r))" for p e ps
    using assms(2) by (rule guarded_topology) simp_all
  have err1: "guarded (postProtocolError p e r)" for p e
    using assms(2) by (rule guarded_topology) simp_all
  have disp: "guarded (snd (dispatchTab env t msg r))" if "coreValue r \<noteq> None" for t
    using guarded_inv_links [OF assms(1)] that assms(2) wf by (auto intro!: guarded_dispatchTab)
  show ?thesis
  proof (cases "\<exists>sc t lock hot. msg = Register_Tab sc t lock hot")
    case True
    with Inr err show ?thesis
      by (auto simp: handleTabMessage_def assms guarded_register)
  next
    case False
    then show ?thesis
      using Inr err err1 disp
      by (cases msg) (auto simp: handleTabMessage_def split: option.split)
  qed
qed

lemma guarded_loseTab_inv:
  assumes "router_inv r" "guarded r"
  shows "guarded (snd (loseTab env t reason r))"
proof (cases "coreValue r")
  case None
  with assms(2) show ?thesis by (simp add: loseTab_def core_state_def)
next
  case (Some c)
  then show ?thesis by (intro guarded_loseTab guarded_inv_links [OF assms(1)] assms(2))
qed

lemma guarded_tabMessageError:
  assumes "router_inv r" "guarded r"
  shows "guarded (snd (handleTabMessageError env port r))"
proof -
  have "guarded (closePort port r)" using assms(2) by (rule guarded_topology) simp_all
  moreover have "guarded (closePort port (r\<lparr>probes := a, pendingRegistrations := b\<rparr>))" for a b
    using assms(2) by (rule guarded_frame) (simp_all add: closePort_def emit_def)
  ultimately show ?thesis
    using guarded_loseTab_inv [OF assms] by (simp add: handleTabMessageError_def split: option.split)
qed

lemma guarded_watch:
  assumes "router_inv r" "guarded r"
  shows "guarded (snd (livenessReleased env w r))"
proof -
  let ?r = "r\<lparr>watches := AList.delete w (watches r)\<rparr>"
  have "router_inv ?r" using assms(1) by (rule router_inv_topology) simp
  moreover have "guarded ?r" using assms(2) by (rule guarded_topology) simp_all
  ultimately show ?thesis
    using assms(2) guarded_loseTab_inv [of ?r]
    by (simp add: livenessReleased_def Let_def split: option.split)
qed

lemma guarded_microtask:
  assumes "router_inv r" "guarded r"
  shows "guarded (snd (runMicrotask env r))"
proof (cases "microtasks r")
  case (Suc n)
  let ?r = "r\<lparr>microtasks := n\<rparr>"
  have g: "guarded ?r" by (rule guarded_frame [OF assms(2)]) simp_all
  show ?thesis
  proof (cases "coreValue r")
    case None
    with g Suc show ?thesis by (simp add: runMicrotask_def call_core_def)
  next
    case (Some c)
    then have "core_inv c" using core_ok_inv [OF assms(1)] by (simp add: core_ok_def)
    from guarded_settles [where f = resumeAfterLoss, OF g _ settles_resume [OF this], of env] Some Suc
    show ?thesis by (simp add: runMicrotask_def)
  qed
qed (use assms in \<open>simp add: runMicrotask_def\<close>)

lemma guarded_viaRoute:
  assumes "router_inv r" "guarded r"
    "\<And>ro. engineRoute r = Some ro \<Longrightarrow> links [] r \<Longrightarrow> guarded (snd (f ro r))"
  shows "guarded (snd (viaRoute h f r))"
  using assms by (auto simp: viaRoute_def router_inv_def unstarted_def split: option.split)

lemma guarded_step: "router_inv r \<Longrightarrow> guarded r \<Longrightarrow> guarded (snd (router_step ev r))"
  by (cases ev rule: router_step.cases)
    (simp_all add: guarded_tabMessage guarded_tabMessageError guarded_registerProbed
      guarded_watch guarded_timer guarded_microtask guarded_viaRoute guarded_engineMessage
      guarded_failOwner core_ok_links)

lemma guarded_initial: "guarded initial_router"
  by (simp add: guarded_def fresh_def initial_router_def)

interpretation watching: machine initial_router router_step "\<lambda>_. True" "\<lambda>r. router_inv r \<and> guarded r"
  by unfold_locales
    (use kept_inv_step guarded_step in \<open>auto simp: router_inv_initial guarded_initial kept_inv_def\<close>)

section \<open>What a live watchdog does\<close>

lemma fired_failOwner:
  assumes "core_ok r" "coreValue r = Some c" "owner_of (stateValue c) = Some (t, e)"
  shows "lost t e (snd (failOwner env t e reason f g (r\<lparr>timers := x\<rparr>)))"
proof -
  have "core_inv c" using assms(1,2) by (simp add: core_ok_def)
  then show ?thesis
    using assms(2,3) by (intro lost_core [OF failOwner_core [where c = c and reason = reason]]) simp_all
qed

lemma activation_fires:
  assumes "core_ok r" "coreValue r = Some c" "stateValue c = Activating t e a" "act_alive t e r"
  shows "\<exists>h. lost t e (snd (timerFired env h r))"
proof -
  obtain h where "map_of (timers r) h = Some (Activation_Watchdog t e)"
    using assms(4) by (auto simp: act_alive_def split: option.splits)
  then have "lost t e (snd (timerFired env h r))"
    using fired_failOwner [OF assms(1,2), of t e] assms(3) by (simp add: timerFired_def)
  then show ?thesis ..
qed

lemma timeout_fires:
  assumes "core_ok r" "coreValue r = Some c" "stateValue c = Active t e" "timeout_alive t e r"
  shows "\<exists>h. lost t e (snd (timerFired env h r))"
proof -
  obtain h n where "map_of (timers r) h = Some (Heartbeat_Timeout t e n)"
    "pendingHeartbeat r = Some (e, n)"
    using assms(4) by (auto simp: timeout_alive_def split: option.splits)
  then have "lost t e (snd (timerFired env h r))"
    using fired_failOwner [OF assms(1,2), of t e] assms(3) by (simp add: timerFired_def)
  then show ?thesis ..
qed

lemma interval_fires:
  assumes "router_inv r" "fresh r" "coreValue r = Some c" "stateValue c = Active t e"
    "interval_alive e r"
  shows "\<exists>h x. snd (timerFired env h r) = x \<and> (coreValue x = Some c \<and> timeout_alive t e x \<or> lost t e x)"
proof -
  obtain h where h: "map_of (timers r) h = Some (Heartbeat_Interval e)"
    using assms(5) by (auto simp: interval_alive_def split: option.splits)
  let ?r = "r\<lparr>timers := AList.delete h (timers r)\<rparr>"
  have l: "links [] ?r"
    using links_by_topology [OF guarded_inv_links [OF assms(1,3)], of ?r] by simp
  with assms(3,4) obtain ro where "engineRoute ?r = Some ro"
    by (auto simp: links_Nil core_links_Nil route_inv_def split: option.splits)
  from beat_outcome [OF l fresh_delete [OF assms(2)] this] assms(3,4) h show ?thesis
    by (intro exI [of _ h]) (auto simp: timerFired_def)
qed

end
