(* ===== verification/Coord_Router_Theorems.thy ===== *)
theory Coord_Router_Theorems
  imports Coord_Router_Guarded
begin

text \<open>
  The properties of the coordinator router, over every sequence of page messages, engine
  messages, lock probes, watch releases, timers and microtasks, and every behaviour of the host
  (clock, transport creation, send failures).
\<close>

section \<open>A sample run\<close>

definition sc :: js_string where "sc = js ''scope''"

definition env0 :: router_env where
  "env0 = \<lparr> env_now = 5, env_open = None, env_send = (\<lambda>_. None) \<rparr>"

definition join_a :: jsval where
  "join_a = encode_tab_to_coordinator (Register_Tab sc tab_a (tabLivenessLockName sc tab_a) None)"

definition attach_a :: jsval where
  "attach_a = encode_tab_to_coordinator (Attach_Engine_Port tab_a 1 (JPort 9))"

definition joined :: router where
  "joined = snd (run router_step
     [(env0, Tab_Message 1 join_a []), (env0, Probe_Settled 0 Lock_Held)] initial_router)"

lemma lock_nonempty [simp]: "tabLivenessLockName s t \<noteq> []"
  by (simp add: tabLivenessLockName_def)

lemma lock_name_nonempty [simp]: "databaseOwnerLockName s \<noteq> []"
  by (simp add: databaseOwnerLockName_def Let_def)

lemma sc_nonempty [simp]: "sc \<noteq> []"
  by (simp add: sc_def)

lemma join_a_valid:
  "validateTabToCoordinatorEnvelope join_a =
     Inr (Register_Tab sc tab_a (tabLivenessLockName sc tab_a) None)"
  unfolding join_a_def by (rule tab_codec.decode_encode) simp

lemma attach_a_valid:
  "validateTabToCoordinatorEnvelope attach_a = Inr (Attach_Engine_Port tab_a 1 (JPort 9))"
  unfolding attach_a_def by (rule tab_codec.decode_encode) (simp add: wf_id_def max_safe_integer_def)

lemmas router_eval =
  handleTabMessage_def register_def registerProbed_def ensureCore_def new_core_def connectTab_def
  call_core_def applyActions_def apply_actions_def electOwner_def clearEngineWatchdogs_def
  clearActivationTimer_def clearHeartbeatTimers_def clear_timer_def set_timer_def telemetry_def
  emit_def postToTab_def postToPort_def upd_def skip_def scope_of_def

definition joined_core :: coordinator where
  "joined_core = (initial_core sc)\<lparr>tabs := [tab_a], currentEpoch := 1,
     stateValue := Activating tab_a 1 Open_Existing\<rparr>"

lemma joined_eq:
  "joined = initial_router
    \<lparr> coreValue := Some joined_core,
      tabMap := [(tab_a, \<lparr> tc_port = 1, tc_watch = 1 \<rparr>)], portTabs := [(1, tab_a)],
      watches := [(1, tab_a)],
      activationStarted := [(1, 5)],
      timers := [(2, Activation_Watchdog tab_a 1)], activationTimer := Some 2, nextHandle := 3,
      outputs := [Post_Port 1 (Registered tab_a),
        Telemetry (owner_observation Out_Success (Some Elected)),
        Post_Port 1 (Become_Owner sc tab_a 1 Open_Existing (databaseOwnerLockName sc) None)] \<rparr>"
  by (simp add: joined_def join_a_valid router_eval core_eval initial_router_def joined_core_def
      env0_def)

lemma joined_reachable: "reachable router_step (\<lambda>_. True) initial_router joined"
  unfolding joined_def by (rule run_reachable) simp

text \<open>The engine of the first tab attaches and becomes ready.\<close>

definition lock_name :: js_string where "lock_name = databaseOwnerLockName sc"

definition ready_msg :: jsval where
  "ready_msg = encode_engine_to_coordinator
     (Engine_Ready tab_a 1 lock_name Proof_Opened_Existing Opened_Existing)"

definition serving :: router where
  "serving = snd (run router_step
     [(env0, Tab_Message 1 attach_a []), (env0, Engine_Message 3 ready_msg)] joined)"

lemma ready_msg_valid:
  "validateEngineToCoordinatorEnvelope ready_msg =
     Inr (Engine_Ready tab_a 1 lock_name Proof_Opened_Existing Opened_Existing)"
  unfolding ready_msg_def
  by (rule coordinator_codec.decode_encode) (simp add: wf_id_def max_safe_integer_def lock_name_def)

definition attached :: router where
  "attached = snd (router_step (env0, Tab_Message 1 attach_a []) joined)"

lemma attached_eq:
  "attached = joined\<lparr>engineRoute := Some \<lparr> ro_tabId = tab_a, ro_ownerEpoch = 1, ro_transport = 3 \<rparr>,
     nextHandle := 4\<rparr>"
  by (simp add: attached_def handleTabMessage_def attach_a_valid attachEnginePort_def expects_def
      expectsEngine_def joined_eq joined_core_def env0_def initial_router_def)

definition serving_core :: coordinator where
  "serving_core = joined_core\<lparr>stateValue := Active tab_a 1\<rparr>"

lemma serving_eq:
  "serving = attached
    \<lparr> coreValue := Some serving_core, activationStarted := [],
      timers := [(4, Heartbeat_Interval 1)], activationTimer := None,
      heartbeatIntervalTimer := Some 4, nextHandle := 5,
      outputs := outputs joined @
        [Telemetry ((owner_observation Out_Success (Some Activated))\<lparr>ob_duration := Some 0\<rparr>)] \<rparr>"
proof -
  have "serving = snd (router_step (env0, Engine_Message 3 ready_msg) attached)"
    by (simp add: serving_def attached_def case_prod_beta del: router_step.simps)
  also have "\<dots> = attached
    \<lparr> coreValue := Some serving_core, activationStarted := [],
      timers := [(4, Heartbeat_Interval 1)], activationTimer := None,
      heartbeatIntervalTimer := Some 4, nextHandle := 5,
      outputs := outputs joined @
        [Telemetry ((owner_observation Out_Success (Some Activated))\<lparr>ob_duration := Some 0\<rparr>)] \<rparr>"
    by (simp add: attached_eq joined_eq viaRoute_def handleEngineMessage_def ready_msg_valid
        call_core_def joined_core_def engineReady_def to_ready_def ready_error_def lock_name_def
        scope_of_def return_asserting_def assertInvariants_def initial_core_def applyActions_def
        apply_actions_def afterReady_def core_state_def engineActivated_def scheduleHeartbeat_def
        clearActivationTimer_def clearHeartbeatTimers_def clear_timer_def set_timer_def
        telemetry_def emit_def initial_router_def serving_core_def env0_def)
  finally show ?thesis .
qed

lemma serving_reachable: "reachable router_step (\<lambda>_. True) initial_router serving"
proof -
  have "reachable router_step (\<lambda>_. True) initial_router
      (snd (router_step (env0, Engine_Message 3 ready_msg)
        (snd (router_step (env0, Tab_Message 1 attach_a []) joined))))"
    by (intro reachable_step joined_reachable) simp_all
  then show ?thesis
    by (simp add: serving_def case_prod_beta del: router_step.simps)
qed

text \<open>The activation watchdog of the first tab fires before its engine attaches.\<close>

definition timed_out :: router where
  "timed_out = snd (router_step (env0, Timer_Fired 2) joined)"

definition resetting_core :: coordinator where
  "resetting_core =
     lostCore tab_a 1 (js ''engine activation watchdog timed out'') joined_core"

lemma timed_out_core: "coreValue timed_out = Some resetting_core"
proof -
  have core: "coreValue joined = Some joined_core" by (simp add: joined_eq)
  with routing.inv_reachable [OF joined_reachable] have inv: "core_inv joined_core"
    by (auto simp: router_inv_def unstarted_def links_Nil core_links_Nil)
  then show ?thesis
    by (simp add: timed_out_def timerFired_def joined_eq resetting_core_def del: One_nat_def)
      (rule failOwner_core, simp_all add: joined_core_def)
qed

lemma timed_out_reachable: "reachable router_step (\<lambda>_. True) initial_router timed_out"
  unfolding timed_out_def by (intro reachable_step joined_reachable) simp

section \<open>Properties\<close>

text \<open>
  C9: Totality. Every event is handled to its end in every reachable state: nested losses never
  run out of fuel, and the only exception that can leave a handler is the exhaustion of the
  coordinator's route ids.
\<close>

theorem router_completes:
  assumes "reachable router_step (\<lambda>_. True) initial_router r"
  shows "fst (router_step ev r) = Done \<or>
    (\<exists>err. fst (router_step ev r) = Threw err) \<and> core_exhausted (snd (router_step ev r))"
  using kept_inv_step [OF routing.inv_reachable [OF assms], of ev] by (simp add: kept_inv_def)

theorem router_completes_witness:
  "fst (router_step (env0, Timer_Fired 2) joined) = Done \<or>
   (\<exists>err. fst (router_step (env0, Timer_Fired 2) joined) = Threw err) \<and>
     core_exhausted (snd (router_step (env0, Timer_Fired 2) joined))"
  by (rule router_completes [OF joined_reachable])

text \<open>
  One level of nesting is enough: failing an owner behaves the same with any positive fuel,
  because the actions of a loss never fail an owner themselves.
\<close>

theorem fail_owner_fuel_irrelevant: "fail_owner (Suc n) = failOwner"
  unfolding failOwner_def numeral_2_eq_2 by (rule fail_owner_fuel)

text \<open>
  The tabs the router is connected to are exactly the tabs registered in the core, no two
  tabs share a port, and \<open>portTabs\<close> is the inverse of the connection map.
\<close>

theorem connected_tabs_are_registered:
  assumes "reachable router_step (\<lambda>_. True) initial_router r" and "coreValue r = Some c"
  shows "fst ` set (tabMap r) = set (tabs c) \<and>
    distinct (List.map (tc_port \<circ> snd) (tabMap r)) \<and>
    (map_of (portTabs r) p = Some t \<longleftrightarrow> (\<exists>conn. map_of (tabMap r) t = Some conn \<and> tc_port conn = p))"
proof -
  have "links [] r"
    using routing.inv_reachable [OF assms(1)] assms(2) by (auto simp: router_inv_def unstarted_def)
  with assms(2) have l: "fst ` set (tabMap r) = set (tabs c)" "conn_inv (tabMap r) (portTabs r)"
    by (auto simp: links_Nil core_links_Nil)
  then have "map_of (portTabs r) p = Some t \<longleftrightarrow> (p, t) \<in> (\<lambda>p. (tc_port (snd p), fst p)) ` set (tabMap r)"
    by (simp add: conn_inv_def)
  also have "\<dots> \<longleftrightarrow> (\<exists>conn. (t, conn) \<in> set (tabMap r) \<and> tc_port conn = p)" by force
  also have "\<dots> \<longleftrightarrow> (\<exists>conn. map_of (tabMap r) t = Some conn \<and> tc_port conn = p)"
    using l(2) by (simp add: conn_inv_def)
  finally show ?thesis using l by (simp add: conn_inv_def)
qed

theorem connected_tabs_are_registered_witness:
  "fst ` set (tabMap joined) = set (tabs joined_core)"
proof -
  have "coreValue joined = Some joined_core" by (simp add: joined_eq)
  from connected_tabs_are_registered [OF joined_reachable this] show ?thesis by (rule conjunct1)
qed

text \<open>
  C10: The engine route always belongs to the current owner and its epoch, and an engine that
  serves always has a route. So the router never forwards a message of an engine that has lost
  its epoch to the core.
\<close>

theorem engine_route_is_owner:
  assumes "reachable router_step (\<lambda>_. True) initial_router r" and "coreValue r = Some c"
  shows "case engineRoute r of
      None \<Rightarrow> serving_epoch (stateValue c) = None
    | Some ro \<Rightarrow> owner_of (stateValue c) = Some (ro_tabId ro, ro_ownerEpoch ro)"
proof -
  have "links [] r"
    using routing.inv_reachable [OF assms(1)] assms(2) by (auto simp: router_inv_def unstarted_def)
  with assms(2) show ?thesis
    by (auto simp: links_Nil core_links_Nil route_inv_def split: option.split)
qed

theorem engine_route_is_owner_witness:
  "owner_of (stateValue serving_core) = Some (tab_a, 1)"
proof -
  have "coreValue serving = Some serving_core" by (simp add: serving_eq)
  from engine_route_is_owner [OF serving_reachable this] show ?thesis
    by (simp add: serving_eq attached_eq)
qed

text \<open>
  A reset is never forgotten: whenever the core waits to resume after an abrupt loss, a
  microtask that resumes it is queued, and running it leaves that state.
\<close>

theorem reset_has_microtask:
  assumes "reachable router_step (\<lambda>_. True) initial_router r" and "coreValue r = Some c"
    and "resetting (stateValue c)"
  shows "0 < microtasks r \<and>
    (\<exists>c'. coreValue (snd (router_step (env, Microtask_Run) r)) = Some c' \<and> \<not> resetting (stateValue c'))"
proof -
  have l: "links [] r"
    using routing.inv_reachable [OF assms(1)] assms(2) by (auto simp: router_inv_def unstarted_def)
  then have inv: "core_inv c" and m: "0 < microtasks r"
    using assms(2,3) by (auto simp: links_Nil core_links_Nil reset_inv_def)
  from m obtain n where n: "microtasks r = Suc n" by (cases "microtasks r") auto
  obtain acts c' where step: "resumeAfterLoss c = (Inr acts, c')" "\<not> resetting (stateValue c')"
    "list_all (\<lambda>a. \<not> recursing a) acts"
    using resume_leaves [OF inv assms(3)] by blast
  then have "coreValue (snd (router_step (env, Microtask_Run) r)) = Some c'"
    by (simp add: runMicrotask_def n call_core_def assms(2) applyActions_settle settle_core)
  with m step show ?thesis by simp
qed

theorem reset_has_microtask_witness:
  "0 < microtasks timed_out"
proof -
  have "resetting (stateValue resetting_core)" by (simp add: resetting_core_def lostCore_def)
  from reset_has_microtask [OF timed_out_reachable timed_out_core this, of env0]
  show ?thesis by (rule conjunct1)
qed

text \<open>
  Every engine is watched: while an owner activates, the activation watchdog of its epoch is
  a live timer; while it serves (and the core has route ids left), the heartbeat interval timer
  of its epoch is live, or a heartbeat is outstanding and its timeout timer is live.
\<close>

theorem engine_watched:
  assumes "reachable router_step (\<lambda>_. True) initial_router r" and "coreValue r = Some c"
  shows "case stateValue c of
      Activating t e a \<Rightarrow>
        (\<exists>h. activationTimer r = Some h \<and> map_of (timers r) h = Some (Activation_Watchdog t e))
    | Active t e \<Rightarrow> exhausted c \<or>
        (\<exists>h. heartbeatIntervalTimer r = Some h \<and> map_of (timers r) h = Some (Heartbeat_Interval e)) \<or>
        (\<exists>h n. heartbeatTimeoutTimer r = Some h \<and> pendingHeartbeat r = Some (e, n) \<and>
           map_of (timers r) h = Some (Heartbeat_Timeout t e n))
    | _ \<Rightarrow> True"
proof -
  have "armed c r" using watching.inv_reachable [OF assms(1)] guarded_armed [OF _ assms(2)] by blast
  then show ?thesis
    by (cases "stateValue c") (auto simp: armed_def alive_defs split: option.splits)
qed

theorem engine_watched_witness:
  "\<exists>h. activationTimer joined = Some h \<and> map_of (timers joined) h = Some (Activation_Watchdog tab_a 1)"
proof -
  have "coreValue joined = Some joined_core" by (simp add: joined_eq)
  from engine_watched [OF joined_reachable this] show ?thesis
    unfolding joined_core_def by (simp del: One_nat_def)
qed

text \<open>
  C11: A hung engine is replaced: from every reachable state with an activating or serving owner
  (and route ids left), two timers at most, fired with no other event in between and whatever
  the transport does, take the core to the reset that follows the loss of that owner.
\<close>

theorem hung_owner_lost:
  assumes "reachable router_step (\<lambda>_. True) initial_router r" and "coreValue r = Some c"
    and "stateValue c = Activating t e a \<or> stateValue c = Active t e" and "\<not> exhausted c"
  shows "\<exists>hs. length hs \<le> 2 \<and>
    (\<exists>c' why. coreValue (snd (run router_step (List.map (\<lambda>h. (env, Timer_Fired h)) hs) r)) = Some c' \<and>
       stateValue c' = Resetting_After_Loss t e (Suc e) why)"
proof -
  let ?fire = "\<lambda>hs r. snd (run router_step (List.map (\<lambda>h. (env, Timer_Fired h)) hs) r)"
  have g: "guarded r" "router_inv r" using watching.inv_reachable [OF assms(1)] by blast+
  have one: "?fire [h] x = snd (timerFired env h x)" for h x by (simp add: case_prod_beta)
  have two: "?fire [h, h'] x = snd (timerFired env h' (snd (timerFired env h x)))" for h h' x
    by (simp add: case_prod_beta)
  have "\<exists>hs. length hs \<le> 2 \<and> lost t e (?fire hs r)"
  proof (cases "stateValue c = Active t e \<and> interval_alive e r")
    case True
    from interval_fires [OF g(2) guarded_fresh [OF g(1)] assms(2)] True
    obtain h where h: "coreValue (snd (timerFired env h r)) = Some c \<and>
        timeout_alive t e (snd (timerFired env h r)) \<or> lost t e (snd (timerFired env h r))"
      by blast
    have "core_ok (snd (timerFired env h r))"
      using kept_inv_timer [OF g(2), of env h] by (intro core_ok_inv) (simp add: kept_inv_def)
    with h True consider "lost t e (snd (timerFired env h r))"
      | h' where "lost t e (snd (timerFired env h' (snd (timerFired env h r))))"
      using timeout_fires [of "snd (timerFired env h r)" c t e env] by blast
    then show ?thesis
    proof cases
      case 1
      then show ?thesis using one [of h r] by (intro exI [of _ "[h]"]) simp
    next
      case 2
      then show ?thesis using two [of h h' r] by (intro exI [of _ "[h, h']"]) simp
    qed
  next
    case False
    have "\<exists>h. lost t e (snd (timerFired env h r))"
      using False assms(3,4) guarded_armed [OF g(1) assms(2)] core_ok_inv [OF g(2)]
        activation_fires [OF _ assms(2)] timeout_fires [OF _ assms(2)]
      by (auto simp: armed_def)
    then obtain h where "lost t e (?fire [h] r)" using one by metis
    then show ?thesis by (intro exI [of _ "[h]"]) simp
  qed
  then show ?thesis by (simp add: lost_def)
qed

theorem hung_owner_lost_witness:
  "\<exists>hs. length hs \<le> 2 \<and>
    (\<exists>c' why. coreValue (snd (run router_step (List.map (\<lambda>h. (env0, Timer_Fired h)) hs) serving)) = Some c' \<and>
       stateValue c' = Resetting_After_Loss tab_a 1 (Suc 1) why)"
proof -
  have "coreValue serving = Some serving_core" by (simp add: serving_eq)
  moreover have "stateValue serving_core = Activating tab_a 1 Open_Existing \<or>
      stateValue serving_core = Active tab_a 1" by (simp add: serving_core_def)
  moreover have "\<not> exhausted serving_core"
    by (simp add: exhausted_def serving_core_def joined_core_def initial_core_def max_safe_integer_def)
  ultimately show ?thesis by (rule hung_owner_lost [OF serving_reachable])
qed

end
