(* ===== verification/Cache_Scope.thy ===== *)
theory Cache_Scope
  imports Js_Prelude
begin

text \<open>
  The cache scope of a browser profile and the gate of the cache
  (\<open>apps/web/src/lib/graphql-cache/scope.ts\<close>, \<open>lifecycle.ts\<close> and \<open>rollout-policy.ts\<close>).

  The scope lives in one \<open>localStorage\<close> entry shared by all tabs. What the browser decides during
  a call (which lock facility it has and whether the request is granted, which storage accesses
  throw, the random identifier) is the environment of the call. Under the exclusive Web Lock a
  call is one atomic step on the entry, and so it is without locks, where it has no await.
\<close>

section \<open>Storage\<close>

type_synonym scope_storage = "js_string option"

datatype lock_facility =
    Navigator_Throws
  | Locks_Unavailable
  | Locks_Granted
  | Locks_Rejected

record scope_env =
  se_locks :: lock_facility
  se_get_throws :: bool
  se_set_throws :: bool
  se_remove_throws :: bool
  se_uuid :: "js_string option"

text \<open>Results of storage code that may throw; the entry written before a throw is kept.\<close>

type_synonym 'a storage_op = "scope_storage \<Rightarrow> (unit + 'a) \<times> scope_storage"

definition getItem :: "scope_env \<Rightarrow> js_string option storage_op" where
  "getItem env st = (if se_get_throws env then Inl () else Inr st, st)"

definition setItem :: "scope_env \<Rightarrow> js_string \<Rightarrow> unit storage_op" where
  "setItem env v st = (if se_set_throws env then (Inl (), st) else (Inr (), Some v))"

definition removeItem :: "scope_env \<Rightarrow> unit storage_op" where
  "removeItem env st = (if se_remove_throws env then (Inl (), st) else (Inr (), None))"

definition randomUUID :: "scope_env \<Rightarrow> js_string storage_op" where
  "randomUUID env st = (case se_uuid env of None \<Rightarrow> (Inl (), st) | Some u \<Rightarrow> (Inr u, st))"

definition bind_op :: "'a storage_op \<Rightarrow> ('a \<Rightarrow> 'b storage_op) \<Rightarrow> 'b storage_op" where
  "bind_op m k st = (case m st of (Inl e, st') \<Rightarrow> (Inl e, st') | (Inr x, st') \<Rightarrow> k x st')"

definition return_op :: "'a \<Rightarrow> 'a storage_op" where
  "return_op x st = (Inr x, st)"

definition catch_op :: "'a storage_op \<Rightarrow> 'a storage_op \<Rightarrow> 'a storage_op" where
  "catch_op m h st = (case m st of (Inl e, st') \<Rightarrow> h st' | (Inr x, st') \<Rightarrow> (Inr x, st'))"

section \<open>Replacing the scope\<close>

definition quarantineScopeFor :: "js_string \<Rightarrow> js_string" where
  "quarantineScopeFor sc = js ''quarantine:'' @ sc"

definition withScopeStorageLock ::
  "scope_env \<Rightarrow> js_string option storage_op \<Rightarrow> scope_storage \<Rightarrow> js_string option \<times> scope_storage" where
  "withScopeStorageLock env action st =
     (let run = (case catch_op action (return_op None) st of
            (Inr x, st') \<Rightarrow> (x, st') | (Inl e, st') \<Rightarrow> (None, st')) in
      case se_locks env of
        Navigator_Throws \<Rightarrow> (None, st)
      | Locks_Unavailable \<Rightarrow> run
      | Locks_Granted \<Rightarrow> run
      | Locks_Rejected \<Rightarrow> (None, st))"

definition quarantineCacheScope ::
  "scope_env \<Rightarrow> js_string \<Rightarrow> scope_storage \<Rightarrow> js_string option \<times> scope_storage" where
  "quarantineCacheScope env expected =
     (let replacement = quarantineScopeFor expected in
      withScopeStorageLock env
        (catch_op
          (bind_op (getItem env) (\<lambda>current.
             if current = Some expected then
               bind_op (setItem env replacement) (\<lambda>_. return_op (Some replacement))
             else return_op (if current = Some replacement then Some replacement else None)))
          (return_op None)))"

definition rotateCacheScope :: "scope_env \<Rightarrow> scope_storage \<Rightarrow> js_string option \<times> scope_storage" where
  "rotateCacheScope env =
     withScopeStorageLock env
       (catch_op
         (bind_op (randomUUID env) (\<lambda>sc. bind_op (setItem env sc) (\<lambda>_. return_op (Some sc))))
         (bind_op (catch_op (removeItem env) (return_op ())) (\<lambda>_. return_op None)))"

text \<open>The creation is not guarded by \<open>try\<close>: without \<open>crypto.randomUUID\<close> it throws.\<close>

definition getOrCreateCacheScope :: "scope_env \<Rightarrow> js_string storage_op" where
  "getOrCreateCacheScope env =
     bind_op (catch_op (getItem env) (return_op None)) (\<lambda>sc.
       case sc of
         Some s \<Rightarrow> if s \<noteq> [] then return_op s
           else bind_op (randomUUID env)
             (\<lambda>u. bind_op (catch_op (setItem env u) (return_op ())) (\<lambda>_. return_op u))
       | None \<Rightarrow> bind_op (randomUUID env)
             (\<lambda>u. bind_op (catch_op (setItem env u) (return_op ())) (\<lambda>_. return_op u)))"

text \<open>\<open>clearRegisteredCaches\<close>, on whether the reset of each registered host was fulfilled.\<close>

definition clearRegisteredCaches :: "scope_env \<Rightarrow> bool list \<Rightarrow> scope_storage \<Rightarrow> scope_storage" where
  "clearRegisteredCaches env fulfilled st =
     (if list_ex Not fulfilled then snd (rotateCacheScope env st) else st)"

section \<open>The calls of all tabs as a machine\<close>

datatype scope_event =
    Quarantine js_string
  | Rotate
  | Get_Or_Create
  | Clear_Caches "bool list"

fun scope_step :: "scope_env \<times> scope_event \<Rightarrow> scope_storage \<Rightarrow> js_string option \<times> scope_storage" where
  "scope_step (env, Quarantine sc) st = quarantineCacheScope env sc st"
| "scope_step (env, Rotate) st = rotateCacheScope env st"
| "scope_step (env, Get_Or_Create) st =
     (case getOrCreateCacheScope env st of (Inr s, st') \<Rightarrow> (Some s, st') | (Inl _, st') \<Rightarrow> (None, st'))"
| "scope_step (env, Clear_Caches fulfilled) st = (None, clearRegisteredCaches env fulfilled st)"

section \<open>The rollout policy\<close>

datatype rollout_cohort = Control | Treatment | Override | Cohort_Unknown

datatype rollout_reason =
    Tauri_Native_Unchanged
  | Graphql_Transport_Disabled
  | Emergency_Disabled
  | Graphql_Transport_Enabled

record rollout_input =
  isTauri :: bool
  graphqlTransportEnabled :: bool
  disableEnvOverride :: "bool option"
  posthogDisable :: "bool option"

record rollout_decision =
  rd_enabled :: bool
  rd_cohort :: rollout_cohort
  rd_reason :: rollout_reason
  rd_nativeCacheUnchanged :: bool

definition resolveBrowserTursoCacheRollout :: "rollout_input \<Rightarrow> rollout_decision" where
  "resolveBrowserTursoCacheRollout i =
     (if isTauri i then
        \<lparr> rd_enabled = graphqlTransportEnabled i, rd_cohort = Cohort_Unknown,
          rd_reason = Tauri_Native_Unchanged, rd_nativeCacheUnchanged = True \<rparr>
      else if \<not> graphqlTransportEnabled i then
        \<lparr> rd_enabled = False, rd_cohort = Control, rd_reason = Graphql_Transport_Disabled,
          rd_nativeCacheUnchanged = False \<rparr>
      else if disableEnvOverride i = Some True \<or> posthogDisable i = Some True then
        \<lparr> rd_enabled = False, rd_cohort = Control, rd_reason = Emergency_Disabled,
          rd_nativeCacheUnchanged = False \<rparr>
      else
        \<lparr> rd_enabled = True, rd_cohort = Treatment, rd_reason = Graphql_Transport_Enabled,
          rd_nativeCacheUnchanged = False \<rparr>)"

text \<open>
  \<open>getBrowserTursoCacheRolloutDecision\<close> on the values of the platform test, the transport gate and
  the two kill switches.
\<close>

definition getBrowserTursoCacheRolloutDecision ::
  "bool \<Rightarrow> bool \<Rightarrow> bool option \<Rightarrow> bool option \<Rightarrow> rollout_decision" where
  "getBrowserTursoCacheRolloutDecision native transport override posthog =
     (if native then
        resolveBrowserTursoCacheRollout
          \<lparr> isTauri = True, graphqlTransportEnabled = transport, disableEnvOverride = None,
            posthogDisable = None \<rparr>
      else
        resolveBrowserTursoCacheRollout
          \<lparr> isTauri = False, graphqlTransportEnabled = transport, disableEnvOverride = override,
            posthogDisable = posthog \<rparr>)"

section \<open>Laws\<close>

lemmas storage_ops =
  getItem_def setItem_def removeItem_def randomUUID_def bind_op_def return_op_def catch_op_def

lemma quarantineScopeFor_simps [simp]:
  "quarantineScopeFor s = quarantineScopeFor s' \<longleftrightarrow> s = s'"
  "quarantineScopeFor s \<noteq> s" "s \<noteq> quarantineScopeFor s" "quarantineScopeFor s \<noteq> []"
proof -
  have "length (quarantineScopeFor s) \<noteq> length s" by (simp add: quarantineScopeFor_def js_def)
  then show "quarantineScopeFor s \<noteq> s" "s \<noteq> quarantineScopeFor s" by metis+
qed (simp_all add: quarantineScopeFor_def js_def)

lemma quarantine_cases:
  "quarantineCacheScope env sc st = (None, st) \<or>
   quarantineCacheScope env sc st = (Some (quarantineScopeFor sc), Some (quarantineScopeFor sc)) \<and>
     (st = Some sc \<or> st = Some (quarantineScopeFor sc))"
  by (simp add: quarantineCacheScope_def withScopeStorageLock_def Let_def storage_ops
      split: lock_facility.split)

lemma rotate_cases:
  "rotateCacheScope env st = (None, st) \<or> rotateCacheScope env st = (None, None) \<or>
   (\<exists>u. se_uuid env = Some u \<and> rotateCacheScope env st = (Some u, Some u))"
  by (simp add: rotateCacheScope_def withScopeStorageLock_def Let_def storage_ops
      split: lock_facility.split option.split)

section \<open>Properties\<close>

definition stale_failures :: "js_string \<Rightarrow> (scope_env \<times> scope_event) list \<Rightarrow> bool" where
  "stale_failures sc es \<longleftrightarrow> list_all (\<lambda>e. snd e = Quarantine sc) es"

lemma stale_failures_simps [simp]:
  "stale_failures sc []" "stale_failures sc (e # es) \<longleftrightarrow> snd e = Quarantine sc \<and> stale_failures sc es"
  by (simp_all add: stale_failures_def)

lemma quarantine_run:
  assumes "stale_failures sc es"
  shows "let (tr, st') = run scope_step es st in
    (\<forall>a \<in> snd ` set tr. a = None \<or> a = Some (quarantineScopeFor sc)) \<and>
    (st' = st \<or> st = Some sc \<and> st' = Some (quarantineScopeFor sc)) \<and>
    (Some (quarantineScopeFor sc) \<in> snd ` set tr \<longrightarrow> st' = Some (quarantineScopeFor sc))"
  using assms
proof (induction es arbitrary: st)
  case (Cons e es)
  obtain env where e: "e = (env, Quarantine sc)" using Cons.prems by (cases e) simp
  have "stale_failures sc es" using Cons.prems by simp
  note IH = Cons.IH [OF this]
  obtain a st1 where a: "quarantineCacheScope env sc st = (a, st1)" by fastforce
  obtain tr st2 where r: "run scope_step es st1 = (tr, st2)" by fastforce
  from quarantine_cases [of env sc st] a IH [of st1] r e show ?case
    by (auto simp: Let_def)
qed simp


definition granted :: "js_string \<Rightarrow> scope_env" where
  "granted u = \<lparr> se_locks = Locks_Granted, se_get_throws = False, se_set_throws = False,
     se_remove_throws = False, se_uuid = Some u \<rparr>"

definition two_failures :: "(scope_env \<times> scope_event) list" where
  "two_failures = [(granted (js ''u''), Quarantine (js ''s'')), (granted (js ''u''), Quarantine (js ''s''))]"


text \<open>
  A stale host cannot overwrite a newer scope: once the entry names a scope other than the
  one that failed, no sequence of quarantine calls for the failed scope changes it.
\<close>

theorem stale_failure_keeps_scope:
  assumes "stale_failures sc es" and "st \<noteq> Some sc"
  shows "snd (run scope_step es st) = st"
  using quarantine_run [OF assms(1), of st] assms(2) by (auto simp: Let_def split: prod.splits)

theorem stale_failure_keeps_scope_witness:
  "snd (run scope_step two_failures (Some (js ''t''))) = Some (js ''t'')"
  by (rule stale_failure_keeps_scope [where sc = "js ''s''"])
    (simp_all add: two_failures_def js_def unit_of_def)

text \<open>
  After a logout whose wipe was not confirmed for some cache, the old scope is no longer
  stored, provided the browser grants the storage lock, the new identifier is new, and the entry
  can be written or removed.
\<close>

theorem unconfirmed_wipe_rotates:
  assumes "list_ex Not fulfilled" and "se_locks env \<in> {Locks_Unavailable, Locks_Granted}"
    and "se_uuid env \<noteq> Some sc" and "\<not> se_remove_throws env"
  shows "clearRegisteredCaches env fulfilled (Some sc) \<noteq> Some sc"
  using assms
  by (auto simp: clearRegisteredCaches_def rotateCacheScope_def withScopeStorageLock_def Let_def
      storage_ops split: option.split if_split_asm)

theorem unconfirmed_wipe_rotates_witness:
  "clearRegisteredCaches (granted (js ''u'')) [True, False] (Some (js ''s'')) \<noteq> Some (js ''s'')"
  by (rule unconfirmed_wipe_rotates) (simp_all add: granted_def js_def unit_of_def)

text \<open>
  The cache is enabled exactly when the GraphQL transport is, and in a browser no kill switch
  is on; native builds keep their own cache whatever the browser switches say.
\<close>

theorem rollout_enabled_iff:
  "rd_enabled (resolveBrowserTursoCacheRollout i) =
     (graphqlTransportEnabled i \<and>
       (isTauri i \<or> disableEnvOverride i \<noteq> Some True \<and> posthogDisable i \<noteq> Some True)) \<and>
   rd_nativeCacheUnchanged (resolveBrowserTursoCacheRollout i) = isTauri i \<and>
   getBrowserTursoCacheRolloutDecision True t a b = getBrowserTursoCacheRolloutDecision True t c d"
  by (simp add: resolveBrowserTursoCacheRollout_def getBrowserTursoCacheRolloutDecision_def)

end
