(* ===== verification/Page_Adapter.thy ===== *)
theory Page_Adapter
  imports Coord_Router Coord_Codec
begin

text \<open>
  The page endpoint of the coordinator topology
  (\<open>apps/web/src/lib/graphql-cache/worker/coordinator-page-adapter.ts\<close>, class
  \<open>CacheCoordinatorPageAdapter\<close>): startup under the tab's liveness lock, the queue of requests
  before registration, the spawning and termination of the engine worker, graceful, navigation
  and abrupt disposal, terminal failure.

  What the platform and the consumer's callbacks do during one event is the environment
  \<open>page_env\<close>. Everything that leaves the adapter (messages, worker and lock operations, callback
  calls, settled promises) is appended to \<open>pg_out\<close>. Handles of workers, connections and ports are
  fresh numbers. An operation that may throw returns the message of the exception.

  Callbacks do not call back into the adapter while they run, and a closed transport delivers
  nothing more.
\<close>

section \<open>State\<close>

datatype dispose_mode = Mode_Graceful | Mode_Navigation | Mode_Abrupt

datatype page_output =
    Lock_Requested js_string
  | Liveness_Released
  | To_Coordinator nat tab_to_coordinator
  | Coordinator_Closed nat
  | Endpoint_Closed jsval
  | Engine_Spawned nat owner_epoch
  | To_Engine nat page_to_engine
  | Engine_Terminated nat
  | Emitted jsval
  | Owner_Changed "owner_epoch option"
  | Worker_Created nat owner_epoch
  | Worker_Terminated owner_epoch js_string
  | Replaced_Notice owner_epoch
  | Protocol_Notice js_string
  | Terminal_Notice js_string
  | Start_Resolved
  | Start_Rejected js_string
  | Start_Refused js_string
  | Dispose_Settled
  | Page_Telemetry observation

record page =
  pg_scope :: js_string
  pg_tab :: js_string
  pg_hot :: "nat option"
  pg_connection :: "nat option"
  pg_engine :: "nat option"
  pg_owner :: "owner_epoch option"
  pg_registered :: bool
  pg_started :: bool
  pg_registration :: bool
  pg_queued :: "jsval list"
  pg_liveness :: bool
  pg_disposing :: bool
  pg_settle :: bool
  pg_timeout :: "owner_epoch option"
  pg_mode :: "dispose_mode option"
  pg_pagehide :: bool
  pg_terminal :: bool
  pg_terminated :: "owner_epoch set"
  pg_highest :: owner_epoch
  pg_replaced :: owner_epoch
  pg_closed :: bool
  pg_lock :: "int option"
  pg_failing :: "js_string option"
  pg_listening :: bool
  pg_next :: nat
  pg_out :: "page_output list"

definition initial_page :: "js_string \<Rightarrow> js_string \<Rightarrow> nat option \<Rightarrow> page" where
  "initial_page sc t hot =
     \<lparr> pg_scope = sc, pg_tab = t, pg_hot = hot, pg_connection = None, pg_engine = None,
       pg_owner = None, pg_registered = False, pg_started = False, pg_registration = False,
       pg_queued = [], pg_liveness = False, pg_disposing = False, pg_settle = False,
       pg_timeout = None, pg_mode = None, pg_pagehide = False, pg_terminal = False,
       pg_terminated = {}, pg_highest = 0, pg_replaced = 0, pg_closed = False, pg_lock = None,
       pg_failing = None, pg_listening = False, pg_next = 0, pg_out = [] \<rparr>"

definition new_page :: "js_string \<Rightarrow> jsval \<Rightarrow> js_string \<Rightarrow> js_error + page" where
  "new_page sc hot t =
     (if sc = [] then Inl (Js_Error (js ''cache coordinator scope is required''))
      else if hot \<noteq> JUndef \<and> (\<not> is_safe_integer hot \<or> the_int hot \<le> 0) then
        Inl (Js_Error (js ''hot capacity must be a positive integer''))
      else Inr (initial_page sc t (the_opt the_nat hot)))"

text \<open>
  The environment of an event: which facilities exist, and for each step that the platform or a
  callback may make fail, the message of the exception.
\<close>

record page_env =
  pe_now :: int
  pe_sharedWorker :: bool
  pe_worker :: bool
  pe_channel :: bool
  pe_locks :: bool
  pe_events :: bool
  pe_create_shared :: "js_string option"
  pe_open :: "js_string option"
  pe_send :: "tab_to_coordinator \<Rightarrow> js_string option"
  pe_create_engine :: "js_string option"
  pe_post_engine :: "js_string option"
  pe_detach :: "js_string option"
  pe_detach_message :: "js_string option"
  pe_terminate :: "js_string option"
  pe_callback :: "page_output \<Rightarrow> js_string option"

type_synonym pop = "page \<Rightarrow> js_string option \<times> page"

definition say :: "page_output \<Rightarrow> page \<Rightarrow> page" where
  "say out p = p\<lparr>pg_out := pg_out p @ [out]\<rparr>"

text \<open>A call of a consumer's callback, which may throw.\<close>

definition notify :: "page_env \<Rightarrow> page_output \<Rightarrow> pop" where
  "notify env out p = (pe_callback env out, say out p)"

fun and_then :: "pop \<Rightarrow> pop \<Rightarrow> pop" where
  "and_then f g p = (case f p of (Some err, p') \<Rightarrow> (Some err, p') | (None, p') \<Rightarrow> g p')"

definition calm_op :: "(page \<Rightarrow> page) \<Rightarrow> pop" where
  "calm_op f p = (None, f p)"

section \<open>Closing\<close>

definition closeEndpoint :: "jsval \<Rightarrow> page \<Rightarrow> page" where
  "closeEndpoint port = say (Endpoint_Closed port)"

definition closeCoordinatorPort :: "page \<Rightarrow> page" where
  "closeCoordinatorPort p =
     (case pg_connection p of
        None \<Rightarrow> p
      | Some h \<Rightarrow> say (Coordinator_Closed h) (p\<lparr>pg_connection := None\<rparr>))"

definition clearGracefulTimeout :: "page \<Rightarrow> page" where
  "clearGracefulTimeout p = p\<lparr>pg_timeout := None\<rparr>"

definition settleDispose :: "page \<Rightarrow> page" where
  "settleDispose p = (if pg_settle p then say Dispose_Settled (p\<lparr>pg_settle := False\<rparr>) else p)"

definition releaseLiveness :: "page \<Rightarrow> page" where
  "releaseLiveness p = (if pg_liveness p then say Liveness_Released (p\<lparr>pg_liveness := False\<rparr>) else p)"

definition rejectStartAndQueued :: "js_string \<Rightarrow> page \<Rightarrow> page" where
  "rejectStartAndQueued err p =
     (let p1 = (if pg_registration p then say (Start_Rejected err) p else p) in
      p1\<lparr>pg_registration := False, pg_queued := [],
        pg_out := pg_out p1 @ List.map (\<lambda>q. Emitted (rejection (request_id q) err None)) (pg_queued p1)\<rparr>)"

section \<open>Terminating the engine\<close>

fun first_error :: "js_string option list \<Rightarrow> js_string option" where
  "first_error [] = None"
| "first_error (Some err # es) = Some err"
| "first_error (None # es) = first_error es"

text \<open>
  \<open>terminateEngine\<close> up to its report: the engine is gone whatever throws; the first exception is
  returned. \<open>failTerminal\<close> terminates the engine when it has set \<open>terminalErrorReported\<close>, so the
  nested \<open>failTerminal\<close> of that call does nothing, and it reports no loss.
\<close>

definition dropEngine :: "page_env \<Rightarrow> owner_epoch \<Rightarrow> js_string \<Rightarrow> nat \<Rightarrow> pop" where
  "dropEngine env e reason w p =
     (let p1 = (if pe_terminate env = None then say (Engine_Terminated w) p else p);
          p2 = p1\<lparr>pg_terminated := insert e (pg_terminated p1), pg_engine := None, pg_owner := None\<rparr>;
          (thrown, p3) = and_then (notify env (Owner_Changed None))
            (notify env (Worker_Terminated e reason)) p2
      in (first_error [pe_detach env, pe_detach_message env, pe_terminate env, thrown], p3))"

definition failTerminal :: "page_env \<Rightarrow> js_string \<Rightarrow> page \<Rightarrow> page" where
  "failTerminal env err p =
     (if pg_terminal p then p
      else
        let p1 = clearGracefulTimeout (p\<lparr>pg_terminal := True, pg_closed := True, pg_registered := False\<rparr>);
            p2 = (case (pg_owner p1, pg_engine p1) of
                (Some e, Some w) \<Rightarrow> snd (dropEngine env e err w p1)
              | _ \<Rightarrow> p1)
        in say (Terminal_Notice err)
             (settleDispose (rejectStartAndQueued err (releaseLiveness (closeCoordinatorPort p2)))))"

definition postCoordinator ::
  "page_env \<Rightarrow> tab_to_coordinator \<Rightarrow> jsval list \<Rightarrow> page \<Rightarrow> bool \<times> page" where
  "postCoordinator env message untransferred p =
     (case pg_connection p of
        None \<Rightarrow>
          (let p1 = fold closeEndpoint untransferred p in
           (False, if pg_closed p1 then p1
                   else failTerminal env (js ''coordinator MessagePort is unavailable'') p1))
      | Some h \<Rightarrow>
          (case pe_send env message of
             None \<Rightarrow> (True, say (To_Coordinator h message) p)
           | Some err \<Rightarrow> (False, failTerminal env err (fold closeEndpoint untransferred p))))"

definition terminateEngine ::
  "page_env \<Rightarrow> owner_epoch \<Rightarrow> js_string \<Rightarrow> bool \<Rightarrow> page \<Rightarrow> bool \<times> page" where
  "terminateEngine env e reason reportLoss p =
     (case pg_engine p of
        None \<Rightarrow> (False, p)
      | Some w \<Rightarrow>
          if pg_owner p \<noteq> Some e then (False, p)
          else
            let (cleanup, p1) = dropEngine env e reason w p
            in (True, case cleanup of
                Some err \<Rightarrow> failTerminal env err p1
              | None \<Rightarrow>
                  if reportLoss \<and> pg_connection p1 \<noteq> None \<and> \<not> pg_closed p1 then
                    snd (postCoordinator env (Engine_Lost (pg_tab p1) e reason) [] p1)
                  else p1))"

section \<open>Startup\<close>

text \<open>\<open>connect\<close> up to the lock request; an exception is handled by a later microtask.\<close>

definition connect :: "page_env \<Rightarrow> page \<Rightarrow> page" where
  "connect env p =
     (if \<not> pe_sharedWorker env then p\<lparr>pg_failing := Some (js ''SharedWorker is unavailable'')\<rparr>
      else if \<not> pe_worker env then p\<lparr>pg_failing := Some (js ''DedicatedWorker is unavailable'')\<rparr>
      else if \<not> pe_channel env then p\<lparr>pg_failing := Some (js ''MessageChannel is unavailable'')\<rparr>
      else if \<not> pe_locks env then p\<lparr>pg_failing := Some (js ''Web Locks are unavailable'')\<rparr>
      else say (Lock_Requested (tabLivenessLockName (pg_scope p) (pg_tab p)))
        (p\<lparr>pg_liveness := True, pg_lock := Some (pe_now env)\<rparr>))"

definition start :: "page_env \<Rightarrow> page \<Rightarrow> page" where
  "start env p =
     (if pg_closed p then say (Start_Refused (js ''page adapter is closed'')) p
      else if pg_started p then p
      else connect env (p\<lparr>pg_started := True, pg_registration := True\<rparr>))"

definition failStartup :: "page_env \<Rightarrow> js_string \<Rightarrow> page \<Rightarrow> page" where
  "failStartup env err p = (if pg_closed p then p else failTerminal env err p)"

definition startupRejected :: "page_env \<Rightarrow> page \<Rightarrow> page" where
  "startupRejected env p =
     (case pg_failing p of
        None \<Rightarrow> p
      | Some err \<Rightarrow> failStartup env err (p\<lparr>pg_failing := None\<rparr>))"

definition openCoordinator :: "page_env \<Rightarrow> page \<Rightarrow> page" where
  "openCoordinator env p =
     (case pe_create_shared env of
        Some err \<Rightarrow> failStartup env err p
      | None \<Rightarrow>
          (let h = pg_next p; p1 = p\<lparr>pg_next := h + 1\<rparr> in
           case pe_open env of
             Some err \<Rightarrow> failStartup env err (closeEndpoint (JPort h) p1)
           | None \<Rightarrow>
               snd (postCoordinator env
                 (Register_Tab (pg_scope p1) (pg_tab p1)
                    (tabLivenessLockName (pg_scope p1) (pg_tab p1)) (pg_hot p1)) []
                 (p1\<lparr>pg_connection := Some h\<rparr>))))"

datatype lock_outcome = Lock_Acquired | Lock_Null | Lock_Failed js_string

definition lockWait :: "page_env \<Rightarrow> int \<Rightarrow> telemetry_outcome \<Rightarrow> cache_error_code \<Rightarrow> page \<Rightarrow> page" where
  "lockWait env startedAt out code =
     say (Page_Telemetry ((observe Lock_Wait Cat_Lifecycle out)
       \<lparr>ob_error := Some code, ob_duration := Some (pe_now env - startedAt)\<rparr>))"

text \<open>\<open>connect\<close> from its \<open>await\<close> on.\<close>

definition lockSettled :: "page_env \<Rightarrow> lock_outcome \<Rightarrow> page \<Rightarrow> page" where
  "lockSettled env outcome p =
     (case pg_lock p of
        None \<Rightarrow> p
      | Some startedAt \<Rightarrow>
          (let p1 = p\<lparr>pg_lock := None\<rparr>;
               failed = (\<lambda>err. failStartup env err
                 (lockWait env startedAt Out_Error (classifyCacheError (Some err)) p1)) in
           case outcome of
             Lock_Null \<Rightarrow> failed (js ''tab liveness lock was not acquired'')
           | Lock_Failed err \<Rightarrow> failed err
           | Lock_Acquired \<Rightarrow>
               (let p2 = lockWait env startedAt Out_Success Code_None p1 in
                if pg_closed p2 then p2 else openCoordinator env p2)))"

section \<open>Requests\<close>

definition emitMessage :: "page_env \<Rightarrow> jsval \<Rightarrow> pop" where
  "emitMessage env message = notify env (Emitted message)"

definition postMessage :: "page_env \<Rightarrow> jsval \<Rightarrow> pop" where
  "postMessage env req p =
     (if \<not> isCacheRequest req then
        and_then (notify env (Protocol_Notice (js ''invalid cache request'')))
          (if is_safe_integer (getp req ''id'') then
             emitMessage env (rejection (request_id req) (js ''invalid cache request'') None)
           else calm_op id) p
      else if pg_closed p then
        emitMessage env (rejection (request_id req) (js ''page adapter is closed'') None) p
      else if \<not> pg_registered p then
        (None, start env (p\<lparr>pg_queued := pg_queued p @ [req]\<rparr>))
      else (None, snd (postCoordinator env (Cache_Request (pg_tab p) req) [] p)))"

fun postAll :: "page_env \<Rightarrow> jsval list \<Rightarrow> pop" where
  "postAll env [] p = (None, p)"
| "postAll env (q # qs) p = and_then (postMessage env q) (postAll env qs) p"

section \<open>Disposal\<close>

definition finishDispose :: "page \<Rightarrow> page" where
  "finishDispose p =
     settleDispose (rejectStartAndQueued (js ''page adapter was disposed'')
       (releaseLiveness (closeCoordinatorPort (clearGracefulTimeout
         (p\<lparr>pg_closed := True, pg_registered := False\<rparr>)))))"

definition departForNavigation_p :: "page_env \<Rightarrow> js_string \<Rightarrow> page \<Rightarrow> page" where
  "departForNavigation_p env reason p =
     (let p1 = clearGracefulTimeout p;
          p2 = (case pg_owner p1 of
              Some e \<Rightarrow>
                (let p3 = snd (terminateEngine env e reason False p1) in
                 if pg_closed p3 then p3
                 else snd (postCoordinator env (Navigation_Departure (pg_tab p3) e reason) [] p3))
            | None \<Rightarrow>
                if pg_closed p1 then p1
                else snd (postCoordinator env (Disconnect_Tab (pg_tab p1) reason) [] p1))
      in finishDispose p2)"

definition abortDispose :: "page_env \<Rightarrow> js_string \<Rightarrow> page \<Rightarrow> page" where
  "abortDispose env reason p =
     (let p1 = clearGracefulTimeout p;
          p2 = (case pg_owner p1 of
              Some e \<Rightarrow> snd (terminateEngine env e reason False p1)
            | None \<Rightarrow> p1);
          p3 = (if pg_closed p2 then p2
                else snd (postCoordinator env (Disconnect_Tab (pg_tab p2) reason) [] p2))
      in finishDispose p3)"

text \<open>A second \<open>dispose\<close> can only make a graceful disposal more urgent.\<close>

definition disposeAgain :: "page_env \<Rightarrow> bool \<Rightarrow> bool \<Rightarrow> page \<Rightarrow> page" where
  "disposeAgain env graceful preserveDatabase p =
     (if \<not> graceful \<and> pg_mode p = Some Mode_Graceful \<and> \<not> pg_closed p then
        (if preserveDatabase then
           departForNavigation_p env (js ''page navigation interrupted graceful page disposal'')
             (p\<lparr>pg_mode := Some Mode_Navigation\<rparr>)
         else
           abortDispose env (js ''pagehide interrupted graceful page disposal'')
             (p\<lparr>pg_mode := Some Mode_Abrupt\<rparr>))
      else p)"

definition disposeUnconnected :: "page \<Rightarrow> page" where
  "disposeUnconnected p =
     settleDispose (releaseLiveness (rejectStartAndQueued
       (js ''page adapter was disposed during startup'')
       (p\<lparr>pg_mode := Some Mode_Abrupt, pg_closed := True, pg_registered := False\<rparr>)))"

definition beginGraceful :: "page_env \<Rightarrow> owner_epoch \<Rightarrow> page \<Rightarrow> page" where
  "beginGraceful env e p =
     (let (sent, p1) = postCoordinator env (Graceful_Departure (pg_tab p) e) []
            (p\<lparr>pg_mode := Some Mode_Graceful\<rparr>)
      in if sent then p1\<lparr>pg_timeout := Some e\<rparr> else p1)"

definition dispose :: "page_env \<Rightarrow> bool \<Rightarrow> bool \<Rightarrow> page \<Rightarrow> page" where
  "dispose env graceful preserve p =
     (let preserveDatabase = (\<not> graceful \<and> preserve) in
      if pg_disposing p then disposeAgain env graceful preserveDatabase p
      else
        let p1 = p\<lparr>pg_disposing := True, pg_settle := True\<rparr> in
        if pg_closed p1 then settleDispose p1
        else if pg_connection p1 = None then disposeUnconnected p1
        else if preserveDatabase then
          departForNavigation_p env (js ''page navigation'') (p1\<lparr>pg_mode := Some Mode_Navigation\<rparr>)
        else (case (graceful, pg_owner p1) of
            (True, Some e) \<Rightarrow> beginGraceful env e p1
          | _ \<Rightarrow> abortDispose env (js ''page disposed without graceful drain'')
                   (p1\<lparr>pg_mode := Some Mode_Abrupt\<rparr>)))"

text \<open>The callback of the graceful timeout, which captured the epoch.\<close>

definition gracefulTimedOut :: "page_env \<Rightarrow> page \<Rightarrow> page" where
  "gracefulTimedOut env p =
     (case pg_timeout p of
        None \<Rightarrow> p
      | Some e \<Rightarrow>
          (let p1 = p\<lparr>pg_timeout := None\<rparr> in
           if pg_closed p1 then p1
           else
             let p2 = snd (terminateEngine env e (js ''graceful drain timed out'') False p1) in
             if pg_closed p2 then p2
             else
               let p3 = snd (postCoordinator env
                     (Disconnect_Tab (pg_tab p2) (js ''graceful page disposal timed out'')) [] p2)
               in if pg_closed p3 then p3
                  else failTerminal env (js ''graceful engine drain timed out'') p3))"

section \<open>Messages of the coordinator\<close>

definition spawnEngine ::
  "page_env \<Rightarrow> js_string \<Rightarrow> owner_epoch \<Rightarrow> database_action \<Rightarrow> js_string \<Rightarrow> nat option \<Rightarrow> pop" where
  "spawnEngine env sc e a lock hot p =
     (if pg_engine p \<noteq> None \<or> pg_owner p \<noteq> None then
        (None, failTerminal env (js ''coordinator elected a page that already owns an engine'') p)
      else case pe_create_engine env of
        Some err \<Rightarrow> (Some err, p)
      | None \<Rightarrow>
          (let w = pg_next p; port1 = JPort (w + 1); port2 = JPort (w + 2);
               p1 = say (Engine_Spawned w e)
                 (p\<lparr>pg_next := w + 3, pg_engine := Some w, pg_owner := Some e\<rparr>)
           in and_then (and_then (notify env (Owner_Changed (Some e))) (notify env (Worker_Created w e)))
                (\<lambda>p2.
                  let (sent, p3) = postCoordinator env (Attach_Engine_Port (pg_tab p2) e port1) [port1] p2
                  in if \<not> sent then (None, closeEndpoint port2 p3)
                     else (None, case pe_post_engine env of
                         None \<Rightarrow> say (To_Engine w (Activate_Engine sc (pg_tab p3) e a lock hot)) p3
                       | Some err \<Rightarrow> failTerminal env err (closeEndpoint port2 p3))) p1))"

definition registerPagehide :: "page_env \<Rightarrow> page \<Rightarrow> page" where
  "registerPagehide env p =
     (if pg_pagehide p \<or> \<not> pe_events env then p
      else p\<lparr>pg_pagehide := True, pg_listening := True\<rparr>)"

definition registeredNow :: "page_env \<Rightarrow> pop" where
  "registeredNow env p =
     (let p1 = p\<lparr>pg_registered := True\<rparr>;
          p2 = (if pg_registration p1 then say Start_Resolved p1 else p1);
          p3 = registerPagehide env (p2\<lparr>pg_registration := False\<rparr>)
      in postAll env (pg_queued p3) (p3\<lparr>pg_queued := []\<rparr>))"

fun receive :: "page_env \<Rightarrow> coordinator_to_tab \<Rightarrow> pop" where
  "receive env (Registered t) p =
     (if t \<noteq> pg_tab p \<or> pg_registered p then
        (None, failTerminal env (js ''invalid coordinator registration acknowledgement'') p)
      else registeredNow env p)"
| "receive env (Become_Owner sc t e a lock hot) p =
     (if t \<noteq> pg_tab p \<or> sc \<noteq> pg_scope p then
        (None, failTerminal env (js ''coordinator elected the wrong page or scope'') p)
      else if e \<le> pg_highest p \<or> e \<in> pg_terminated p then
        (None, failTerminal env
           (js ''coordinator elected stale or duplicate owner epoch '' @ js_nat e) p)
      else spawnEngine env sc e a lock hot (p\<lparr>pg_highest := e\<rparr>))"
| "receive env (Cache_Message message) p = emitMessage env message p"
| "receive env (Terminate_Engine t e reason) p =
     (if t \<noteq> pg_tab p then (None, failTerminal env (js ''coordinator terminated the wrong page'') p)
      else
        let (done, p1) = terminateEngine env e reason False p
        in (None, if \<not> done \<and> e \<notin> pg_terminated p1 then
              failTerminal env (js ''coordinator terminated an unknown owner epoch'') p1
            else p1))"
| "receive env (Retire_Complete t e) p =
     (let (done, p1) = (if t \<noteq> pg_tab p then (False, p)
            else terminateEngine env e (js ''graceful engine retirement completed'') False p)
      in (None, if \<not> done then
            failTerminal env (js ''coordinator retired the wrong page or owner epoch'') p1
          else finishDispose p1))"
| "receive env (Engine_Replaced e) p =
     (if e \<le> pg_replaced p then (None, p)
      else notify env (Replaced_Notice e)
        (p\<lparr>pg_replaced := e, pg_highest := max (pg_highest p) e\<rparr>))"
| "receive env (Protocol_Error err) p =
     (if \<not> pg_registered p then (None, failTerminal env err p)
      else notify env (Protocol_Notice err) p)"

definition handleCoordinatorMessage :: "page_env \<Rightarrow> jsval \<Rightarrow> pop" where
  "handleCoordinatorMessage env rawMessage p =
     (case validateCoordinatorToTabEnvelope rawMessage of
        Inl err \<Rightarrow> (None, failTerminal env err p)
      | Inr message \<Rightarrow> receive env message p)"

definition onCoordinatorMessage :: "page_env \<Rightarrow> jsval \<Rightarrow> page \<Rightarrow> page" where
  "onCoordinatorMessage env rawMessage p =
     (case handleCoordinatorMessage env rawMessage p of
        (Some err, p') \<Rightarrow> failTerminal env err p'
      | (None, p') \<Rightarrow> p')"

section \<open>The adapter as a machine\<close>

text \<open>An error of the engine worker, whose handlers live as long as the worker.\<close>

definition engineError :: "page_env \<Rightarrow> js_string \<Rightarrow> page \<Rightarrow> page" where
  "engineError env reason p =
     (case pg_owner p of
        None \<Rightarrow> p
      | Some e \<Rightarrow>
          (let failedDuringDrain = (pg_mode p = Some Mode_Graceful);
               p1 = snd (terminateEngine env e reason (\<not> failedDuringDrain) p)
           in if failedDuringDrain \<and> \<not> pg_closed p1 then failTerminal env reason p1 else p1))"

definition message_or :: "js_string \<Rightarrow> string \<Rightarrow> js_string" where
  "message_or message d = (if message = [] then js d else message)"

datatype page_event =
    Start
  | Post_Message jsval
  | Dispose bool bool
  | Pagehide
  | Startup_Rejected
  | Lock_Settled lock_outcome
  | From_Coordinator nat jsval
  | Coordinator_Failed nat js_string
  | Shared_Worker_Error nat js_string
  | Engine_Error nat js_string
  | Engine_Message_Error nat
  | Graceful_Timeout

definition viaConnection :: "nat \<Rightarrow> (page \<Rightarrow> page) \<Rightarrow> page \<Rightarrow> page" where
  "viaConnection h f p = (if pg_connection p = Some h then f p else p)"

definition viaEngine :: "nat \<Rightarrow> (page \<Rightarrow> page) \<Rightarrow> page \<Rightarrow> page" where
  "viaEngine w f p = (if pg_engine p = Some w then f p else p)"

fun page_step :: "page_env \<times> page_event \<Rightarrow> pop" where
  "page_step (env, Start) p = (None, start env p)"
| "page_step (env, Post_Message req) p = postMessage env req p"
| "page_step (env, Dispose graceful preserve) p = (None, dispose env graceful preserve p)"
| "page_step (env, Pagehide) p =
     (None, if pg_listening p then dispose env False True (p\<lparr>pg_listening := False\<rparr>) else p)"
| "page_step (env, Startup_Rejected) p = (None, startupRejected env p)"
| "page_step (env, Lock_Settled outcome) p = (None, lockSettled env outcome p)"
| "page_step (env, From_Coordinator h raw) p = (None, viaConnection h (onCoordinatorMessage env raw) p)"
| "page_step (env, Coordinator_Failed h err) p =
     (None, viaConnection h
        (failTerminal env (js ''coordinator Effect transport failed: '' @ err)) p)"
| "page_step (env, Shared_Worker_Error h err) p =
     (None, viaConnection h
        (failTerminal env (message_or err ''SharedWorker transport error'')) p)"
| "page_step (env, Engine_Error w err) p =
     (None, viaEngine w (engineError env (message_or err ''dedicated engine worker error'')) p)"
| "page_step (env, Engine_Message_Error w) p =
     (None, viaEngine w (engineError env (js ''dedicated engine worker messageerror'')) p)"
| "page_step (env, Graceful_Timeout) p = (None, gracefulTimedOut env p)"

end
