(* ===== verification/Page_Laws.thy ===== *)
theory Page_Laws
  imports Page_Adapter
begin

text \<open>
  The invariant of the page adapter. An adapter is \<open>shut\<close> when it is closed and holds no
  connection, engine, lock, queue or unsettled promise; otherwise it is \<open>opened\<close>. Every event
  leads from such a state to such a state.
\<close>

section \<open>Invariant\<close>

definition paired :: "page \<Rightarrow> bool" where
  "paired p \<longleftrightarrow> (pg_engine p = None \<longleftrightarrow> pg_owner p = None)"

definition vacant :: "page \<Rightarrow> bool" where
  "vacant p \<longleftrightarrow> pg_engine p = None \<and> pg_owner p = None"

definition shut :: "page \<Rightarrow> bool" where
  "shut p \<longleftrightarrow> pg_closed p \<and> pg_connection p = None \<and> vacant p \<and> pg_queued p = [] \<and>
     \<not> pg_registration p \<and> \<not> pg_registered p \<and> \<not> pg_liveness p \<and> pg_timeout p = None \<and> \<not> pg_settle p"

text \<open>The current epoch is new, and its engine has a connection to be reported over.\<close>

definition owner_ok :: "page \<Rightarrow> bool" where
  "owner_ok p \<longleftrightarrow> paired p \<and>
     (\<forall>e. pg_owner p = Some e \<longrightarrow> pg_connection p \<noteq> None \<and> e \<notin> pg_terminated p)"

definition startup_ok :: "page \<Rightarrow> bool" where
  "startup_ok p \<longleftrightarrow>
     (pg_registered p \<longrightarrow> pg_connection p \<noteq> None \<and> pg_queued p = []) \<and>
     (pg_connection p \<noteq> None \<longrightarrow> pg_started p \<and> pg_liveness p \<and> pg_lock p = None \<and> pg_failing p = None) \<and>
     (pg_lock p \<noteq> None \<longrightarrow> pg_started p \<and> pg_liveness p \<and> pg_failing p = None) \<and>
     (pg_failing p \<noteq> None \<longrightarrow> pg_started p) \<and>
     (pg_queued p \<noteq> [] \<longrightarrow> pg_started p) \<and>
     (pg_registration p \<longleftrightarrow> pg_started p \<and> \<not> pg_registered p) \<and>
     (pg_started p \<longrightarrow> pg_connection p \<noteq> None \<or> pg_lock p \<noteq> None \<or> pg_failing p \<noteq> None) \<and>
     list_all isCacheRequest (pg_queued p)"

definition dispose_ok :: "page \<Rightarrow> bool" where
  "dispose_ok p \<longleftrightarrow>
     (if pg_disposing p then pg_settle p \<and> pg_mode p = Some Mode_Graceful \<and> pg_timeout p \<noteq> None
      else \<not> pg_settle p \<and> pg_mode p = None \<and> pg_timeout p = None)"

definition opened :: "page \<Rightarrow> bool" where
  "opened p \<longleftrightarrow> \<not> pg_closed p \<and> \<not> pg_terminal p \<and> owner_ok p \<and> startup_ok p \<and> dispose_ok p"

definition fixed :: "js_string \<Rightarrow> js_string \<Rightarrow> nat option \<Rightarrow> page \<Rightarrow> bool" where
  "fixed sc t hot p \<longleftrightarrow> pg_scope p = sc \<and> pg_tab p = t \<and> pg_hot p = hot \<and>
     (\<forall>e \<in> pg_terminated p. e \<le> pg_highest p) \<and>
     (\<forall>e. pg_owner p = Some e \<longrightarrow> e \<le> pg_highest p)"

definition page_inv :: "js_string \<Rightarrow> js_string \<Rightarrow> nat option \<Rightarrow> page \<Rightarrow> bool" where
  "page_inv sc t hot p \<longleftrightarrow> fixed sc t hot p \<and> (opened p \<or> shut p)"

section \<open>Fields\<close>

lemma say_fields [simp]:
  "pg_scope (say out p) = pg_scope p" "pg_tab (say out p) = pg_tab p" "pg_hot (say out p) = pg_hot p"
  "pg_connection (say out p) = pg_connection p" "pg_engine (say out p) = pg_engine p"
  "pg_owner (say out p) = pg_owner p" "pg_registered (say out p) = pg_registered p"
  "pg_started (say out p) = pg_started p" "pg_registration (say out p) = pg_registration p"
  "pg_queued (say out p) = pg_queued p" "pg_liveness (say out p) = pg_liveness p"
  "pg_disposing (say out p) = pg_disposing p" "pg_settle (say out p) = pg_settle p"
  "pg_timeout (say out p) = pg_timeout p" "pg_mode (say out p) = pg_mode p"
  "pg_pagehide (say out p) = pg_pagehide p" "pg_terminal (say out p) = pg_terminal p"
  "pg_terminated (say out p) = pg_terminated p" "pg_highest (say out p) = pg_highest p"
  "pg_replaced (say out p) = pg_replaced p" "pg_closed (say out p) = pg_closed p"
  "pg_lock (say out p) = pg_lock p" "pg_failing (say out p) = pg_failing p"
  "pg_listening (say out p) = pg_listening p" "pg_next (say out p) = pg_next p"
  "pg_out (say out p) = pg_out p @ [out]"
  by (simp_all add: say_def)

text \<open>The state without its log.\<close>

definition silent :: "page \<Rightarrow> page" where
  "silent p = p\<lparr>pg_out := []\<rparr>"

lemma silent_say [simp]: "silent (say out p) = silent p"
  by (simp add: silent_def say_def)

lemma silent_fold [simp]: "silent (fold closeEndpoint ps p) = silent p"
  by (induction ps arbitrary: p) (simp_all add: closeEndpoint_def)

lemma silent_eq: "silent p' = silent p \<Longrightarrow> p' = p\<lparr>pg_out := pg_out p'\<rparr>"
  by (cases p; cases p') (simp add: silent_def)

lemmas inv_parts = fixed_def opened_def shut_def owner_ok_def paired_def vacant_def startup_ok_def
  dispose_ok_def page_inv_def

lemma log_parts [simp]:
  "fixed sc t hot (p\<lparr>pg_out := tr\<rparr>) = fixed sc t hot p" "opened (p\<lparr>pg_out := tr\<rparr>) = opened p"
  "shut (p\<lparr>pg_out := tr\<rparr>) = shut p" "paired (p\<lparr>pg_out := tr\<rparr>) = paired p"
  "vacant (p\<lparr>pg_out := tr\<rparr>) = vacant p" "page_inv sc t hot (p\<lparr>pg_out := tr\<rparr>) = page_inv sc t hot p"
  by (simp_all add: inv_parts)

lemma say_parts [simp]:
  "fixed sc t hot (say out p) = fixed sc t hot p" "opened (say out p) = opened p"
  "shut (say out p) = shut p" "paired (say out p) = paired p" "vacant (say out p) = vacant p"
  "page_inv sc t hot (say out p) = page_inv sc t hot p"
  by (simp_all add: say_def)

lemma silent_parts:
  assumes "silent p' = silent p"
  shows "fixed sc t hot p' = fixed sc t hot p" "opened p' = opened p" "shut p' = shut p"
    "paired p' = paired p" "vacant p' = vacant p" "pg_closed p' = pg_closed p"
    "pg_terminal p' = pg_terminal p" "page_inv sc t hot p' = page_inv sc t hot p"
  by (subst silent_eq [OF assms], simp)+

lemma dropEngine_silent:
  "silent (snd (dropEngine env e reason w p)) =
     (silent p)\<lparr>pg_terminated := insert e (pg_terminated p), pg_engine := None, pg_owner := None\<rparr>"
  by (simp add: dropEngine_def notify_def Let_def silent_def say_def case_prod_beta split: option.split)

section \<open>Failing and finishing\<close>

lemmas page_ops = clearGracefulTimeout_def closeCoordinatorPort_def settleDispose_def releaseLiveness_def
  rejectStartAndQueued_def

lemma dropEngine_obtain:
  obtains tr where "snd (dropEngine env e reason w p) =
    p\<lparr>pg_terminated := insert e (pg_terminated p), pg_engine := None, pg_owner := None, pg_out := tr\<rparr>"
  using dropEngine_silent [of env e reason w p]
  by (cases "snd (dropEngine env e reason w p)"; cases p) (simp add: silent_def)

text \<open>The shared end of a terminal failure and of a disposal.\<close>

definition wound_up :: "js_string \<Rightarrow> page \<Rightarrow> page" where
  "wound_up err p = settleDispose (rejectStartAndQueued err (releaseLiveness (closeCoordinatorPort p)))"

lemma wound_up_shut:
  assumes "vacant p" "pg_closed p" "\<not> pg_registered p" "pg_timeout p = None"
  shows "shut (wound_up err p)"
  using assms by (simp add: wound_up_def page_ops shut_def vacant_def Let_def say_def split: option.split)

lemma wound_up_fixed: "fixed sc t hot (wound_up err p) = fixed sc t hot p"
  by (simp add: wound_up_def page_ops fixed_def Let_def say_def split: option.split)

lemma wound_up_terminal [simp]:
  "pg_terminal (wound_up err p) = pg_terminal p" "pg_closed (wound_up err p) = pg_closed p"
  by (simp_all add: wound_up_def page_ops Let_def say_def split: option.split)

lemma failTerminal_shut:
  assumes "fixed sc t hot p" "paired p" "\<not> pg_terminal p"
  shows "fixed sc t hot (failTerminal env err p) \<and> shut (failTerminal env err p) \<and>
    pg_terminal (failTerminal env err p)"
proof -
  define p1 where "p1 = clearGracefulTimeout (p\<lparr>pg_terminal := True, pg_closed := True, pg_registered := False\<rparr>)"
  define p2 where "p2 = (case (pg_owner p1, pg_engine p1) of
      (Some e, Some w) \<Rightarrow> snd (dropEngine env e err w p1) | _ \<Rightarrow> p1)"
  have eq: "failTerminal env err p = say (Terminal_Notice err) (wound_up err p2)"
    unfolding failTerminal_def p2_def p1_def wound_up_def Let_def using assms(3) by simp
  have p1: "fixed sc t hot p1" "paired p1" "pg_terminal p1" "pg_closed p1" "\<not> pg_registered p1"
    "pg_timeout p1 = None"
    using assms by (simp_all add: p1_def page_ops fixed_def paired_def)
  have "fixed sc t hot p2 \<and> vacant p2 \<and> pg_terminal p2 \<and> pg_closed p2 \<and> \<not> pg_registered p2 \<and>
      pg_timeout p2 = None"
  proof (cases "pg_owner p1")
    case None
    then show ?thesis using p1 by (simp add: p2_def vacant_def paired_def)
  next
    case (Some e)
    then obtain w where w: "pg_engine p1 = Some w" using p1 by (auto simp: paired_def)
    obtain tr where "snd (dropEngine env e err w p1) = p1\<lparr>pg_terminated := insert e (pg_terminated p1),
        pg_engine := None, pg_owner := None, pg_out := tr\<rparr>"
      by (rule dropEngine_obtain)
    then show ?thesis using p1 Some w by (simp add: p2_def fixed_def vacant_def)
  qed
  then show ?thesis by (simp add: eq wound_up_shut wound_up_fixed)
qed

lemma failTerminal_terminal: "pg_terminal p \<Longrightarrow> failTerminal env err p = p"
  by (simp add: failTerminal_def)

lemma shut_paired: "shut p \<Longrightarrow> paired p"
  by (simp add: shut_def vacant_def paired_def)

lemma opened_paired: "opened p \<Longrightarrow> paired p"
  by (simp add: opened_def owner_ok_def)

lemma inv_fail:
  assumes "page_inv sc t hot p"
  shows "fixed sc t hot (failTerminal env err p) \<and> shut (failTerminal env err p)"
proof (cases "pg_terminal p")
  case True
  then have "shut p" using assms by (auto simp: page_inv_def opened_def)
  then show ?thesis using True assms by (simp add: failTerminal_terminal page_inv_def)
next
  case False
  then show ?thesis
    using failTerminal_shut [of sc t hot p env err] assms
    by (auto simp: page_inv_def intro: shut_paired opened_paired)
qed

lemma inv_fail_inv: "page_inv sc t hot p \<Longrightarrow> page_inv sc t hot (failTerminal env err p)"
  using inv_fail [of sc t hot p env err] by (simp add: page_inv_def)

lemma finishDispose_shut:
  assumes "fixed sc t hot p" "vacant p"
  shows "fixed sc t hot (finishDispose p) \<and> shut (finishDispose p)"
proof -
  let ?q = "clearGracefulTimeout (p\<lparr>pg_closed := True, pg_registered := False\<rparr>)"
  have "finishDispose p = wound_up (js ''page adapter was disposed'') ?q"
    by (simp add: finishDispose_def wound_up_def)
  moreover have "vacant ?q" "pg_closed ?q" "\<not> pg_registered ?q" "pg_timeout ?q = None" "fixed sc t hot ?q"
    using assms by (simp_all add: page_ops vacant_def fixed_def)
  ultimately show ?thesis by (simp add: wound_up_shut wound_up_fixed)
qed

section \<open>Sending and terminating\<close>

lemma postCoordinator_sent:
  "fst (postCoordinator env message ports p) \<Longrightarrow>
     silent (snd (postCoordinator env message ports p)) = silent p \<and> pg_connection p \<noteq> None"
  by (auto simp: postCoordinator_def Let_def split: option.splits)

lemma postCoordinator_unsent:
  assumes "fixed sc t hot p" "paired p" "\<not> pg_terminal p" "\<not> pg_closed p"
    "\<not> fst (postCoordinator env message ports p)"
  shows "fixed sc t hot (snd (postCoordinator env message ports p)) \<and>
    shut (snd (postCoordinator env message ports p))"
proof -
  let ?q = "fold closeEndpoint ports p"
  have q: "fixed sc t hot ?q" "paired ?q" "\<not> pg_terminal ?q" "\<not> pg_closed ?q"
    using assms silent_parts [OF silent_fold [of ports p]] by simp_all
  then have "\<exists>err. snd (postCoordinator env message ports p) = failTerminal env err ?q"
    using assms(5) by (auto simp: postCoordinator_def Let_def split: option.splits)
  then show ?thesis using failTerminal_shut [OF q(1-3)] by auto
qed

lemma postCoordinator_outcome:
  assumes "page_inv sc t hot p"
  shows "silent (snd (postCoordinator env message ports p)) = silent p \<or>
    fixed sc t hot (snd (postCoordinator env message ports p)) \<and>
    shut (snd (postCoordinator env message ports p))"
proof (cases "fst (postCoordinator env message ports p)")
  case True
  then show ?thesis by (simp add: postCoordinator_sent)
next
  case unsent: False
  show ?thesis
  proof (cases "shut p")
    case True
    then have "pg_closed (fold closeEndpoint ports p)" "pg_connection p = None"
      using silent_parts(6) [OF silent_fold [of ports p]] by (simp_all add: shut_def)
    then show ?thesis by (simp add: postCoordinator_def)
  next
    case False
    then have "fixed sc t hot p" "paired p" "\<not> pg_terminal p" "\<not> pg_closed p"
      using assms by (simp_all add: page_inv_def opened_def owner_ok_def)
    then show ?thesis using postCoordinator_unsent unsent by blast
  qed
qed

lemma postCoordinator_inv:
  assumes "page_inv sc t hot p"
  shows "page_inv sc t hot (snd (postCoordinator env message ports p)) \<and>
    (vacant p \<longrightarrow> vacant (snd (postCoordinator env message ports p)))"
  using postCoordinator_outcome [OF assms, of env message ports]
proof
  assume "silent (snd (postCoordinator env message ports p)) = silent p"
  from silent_parts [OF this] show ?thesis using assms by simp
qed (simp add: page_inv_def shut_def)

lemma dropEngine_inv:
  assumes "page_inv sc t hot p" "pg_owner p = Some e"
  shows "page_inv sc t hot (snd (dropEngine env e reason w p)) \<and> vacant (snd (dropEngine env e reason w p))"
proof -
  have "opened p" using assms by (auto simp: page_inv_def shut_def vacant_def)
  obtain tr where eq: "snd (dropEngine env e reason w p) =
      p\<lparr>pg_terminated := insert e (pg_terminated p), pg_engine := None, pg_owner := None, pg_out := tr\<rparr>"
    by (rule dropEngine_obtain)
  show ?thesis
    using \<open>opened p\<close> assms unfolding eq
    by (simp add: page_inv_def opened_def owner_ok_def startup_ok_def dispose_ok_def fixed_def
        vacant_def paired_def)
qed

lemma terminateEngine_inv:
  assumes "page_inv sc t hot p"
  shows "page_inv sc t hot (snd (terminateEngine env e reason loss p)) \<and>
    pg_owner (snd (terminateEngine env e reason loss p)) \<noteq> Some e \<and>
    fst (terminateEngine env e reason loss p) = (pg_owner p = Some e)"
proof (cases "pg_owner p = Some e")
  case False
  then show ?thesis using assms by (auto simp: terminateEngine_def split: option.splits)
next
  case True
  then obtain w where w: "pg_engine p = Some w"
    using assms by (auto simp: page_inv_def opened_def owner_ok_def paired_def shut_def vacant_def)
  obtain cleanup p1 where d: "dropEngine env e reason w p = (cleanup, p1)" by fastforce
  have p1: "page_inv sc t hot p1" "vacant p1"
    using dropEngine_inv [OF assms True, of env reason w] by (simp_all add: d)
  have failed: "page_inv sc t hot (failTerminal env err p1) \<and> vacant (failTerminal env err p1)" for err
    using inv_fail [OF p1(1), of env err] by (simp add: page_inv_def shut_def)
  have sent: "page_inv sc t hot (snd (postCoordinator env m [] p1)) \<and>
      vacant (snd (postCoordinator env m [] p1))" for m
    using postCoordinator_inv [OF p1(1), of env m "[]"] p1(2) by simp
  have "page_inv sc t hot (snd (terminateEngine env e reason loss p)) \<and>
      vacant (snd (terminateEngine env e reason loss p)) \<and> fst (terminateEngine env e reason loss p)"
    using True w p1 failed sent by (simp add: terminateEngine_def d split: option.split)
  then show ?thesis using True by (simp add: vacant_def)
qed

section \<open>Disposal\<close>

text \<open>What is left of the invariant while a disposal runs, and is enough to finish it.\<close>

definition leaving :: "js_string \<Rightarrow> js_string \<Rightarrow> nat option \<Rightarrow> page \<Rightarrow> bool" where
  "leaving sc t hot p \<longleftrightarrow> fixed sc t hot p \<and> paired p \<and>
     (\<not> pg_closed p \<and> \<not> pg_terminal p \<or> shut p)"

lemma inv_leaving: "page_inv sc t hot p \<Longrightarrow> leaving sc t hot p"
  by (auto simp: page_inv_def leaving_def opened_def owner_ok_def shut_def vacant_def paired_def)

lemma shut_leaving: "fixed sc t hot p \<and> shut p \<Longrightarrow> leaving sc t hot p \<and> vacant p \<and> shut p"
  by (auto simp: leaving_def shut_def vacant_def paired_def)

lemma silent_leaving:
  assumes "silent p' = silent p" shows "leaving sc t hot p' = leaving sc t hot p"
  using silent_parts [OF assms] by (simp add: leaving_def)

lemma leaving_fail:
  assumes "leaving sc t hot p"
  shows "leaving sc t hot (failTerminal env err p) \<and> vacant (failTerminal env err p) \<and>
    shut (failTerminal env err p)"
proof (cases "pg_terminal p")
  case True
  then show ?thesis using assms by (simp add: failTerminal_terminal leaving_def shut_def)
next
  case False
  then have "fixed sc t hot (failTerminal env err p) \<and> shut (failTerminal env err p)"
    using assms failTerminal_shut [of sc t hot p env err] by (simp add: leaving_def)
  then show ?thesis by (rule shut_leaving)
qed

lemma leaving_post:
  assumes "leaving sc t hot p"
  shows "leaving sc t hot (snd (postCoordinator env message ports p)) \<and>
    (vacant p \<longrightarrow> vacant (snd (postCoordinator env message ports p)))"
proof -
  let ?q = "fold closeEndpoint ports p" and ?s = "snd (postCoordinator env message ports p)"
  have q: "leaving sc t hot ?q" "vacant ?q = vacant p"
    using assms silent_leaving [OF silent_fold] silent_parts(5) [OF silent_fold] by blast+
  have "silent ?s = silent p \<or> ?s = ?q \<or> (\<exists>err. ?s = failTerminal env err ?q)"
    by (cases "pg_connection p"; cases "pe_send env message"; cases "pg_closed ?q")
      (auto simp add: postCoordinator_def)
  then show ?thesis
  proof (elim disjE exE)
    assume "silent ?s = silent p"
    from silent_leaving [OF this] silent_parts(5) [OF this] show ?thesis using assms by simp
  next
    assume "?s = ?q"
    then show ?thesis using q by simp
  next
    fix err assume "?s = failTerminal env err ?q"
    then show ?thesis using leaving_fail [OF q(1)] by simp
  qed
qed

lemma leaving_terminate:
  assumes "leaving sc t hot p" "pg_owner p = Some e"
  shows "leaving sc t hot (snd (terminateEngine env e reason loss p)) \<and>
    vacant (snd (terminateEngine env e reason loss p))"
proof -
  obtain w where w: "pg_engine p = Some w" using assms by (auto simp: leaving_def paired_def)
  obtain cleanup p1 where d: "dropEngine env e reason w p = (cleanup, p1)" by fastforce
  obtain tr where "p1 = p\<lparr>pg_terminated := insert e (pg_terminated p),
      pg_engine := None, pg_owner := None, pg_out := tr\<rparr>"
    using dropEngine_obtain [of env e reason w p thesis] by (simp add: d)
  then have p1: "leaving sc t hot p1" "vacant p1"
    using assms by (auto simp add: leaving_def fixed_def vacant_def paired_def shut_def)
  show ?thesis
    using w assms(2) p1 leaving_fail [OF p1(1)] leaving_post [OF p1(1)]
    by (simp add: terminateEngine_def d split: option.split)
qed

lemma leaving_finish:
  assumes "leaving sc t hot p" "vacant p" shows "page_inv sc t hot (finishDispose p) \<and> shut (finishDispose p)"
  using finishDispose_shut [of sc t hot p] assms by (simp add: leaving_def page_inv_def)

lemma vacant_owner: "leaving sc t hot p \<Longrightarrow> pg_owner p = None \<longleftrightarrow> vacant p"
  by (auto simp: leaving_def paired_def vacant_def)

lemma clearGracefulTimeout_leaving [simp]:
  "leaving sc t hot p \<Longrightarrow> leaving sc t hot (clearGracefulTimeout p)" "vacant (clearGracefulTimeout p) = vacant p"
  "pg_owner (clearGracefulTimeout p) = pg_owner p"
  by (auto simp add: clearGracefulTimeout_def leaving_def fixed_def paired_def vacant_def shut_def)

lemma depart_shut:
  assumes "leaving sc t hot p"
  shows "page_inv sc t hot (departForNavigation_p env reason p) \<and> shut (departForNavigation_p env reason p)"
proof (cases "pg_owner p")
  case None
  then have "vacant p" using vacant_owner [OF assms] by simp
  then show ?thesis
    using None assms leaving_post [of sc t hot "clearGracefulTimeout p" env
        "Disconnect_Tab (pg_tab (clearGracefulTimeout p)) reason" "[]"]
    by (simp add: departForNavigation_p_def Let_def leaving_finish [where sc = sc and t = t and hot = hot])
next
  case (Some e)
  then have t: "leaving sc t hot (snd (terminateEngine env e reason False (clearGracefulTimeout p)))"
    "vacant (snd (terminateEngine env e reason False (clearGracefulTimeout p)))"
    using leaving_terminate [of sc t hot "clearGracefulTimeout p" e env reason False] assms by simp_all
  then show ?thesis
    using Some leaving_post [OF t(1)]
    by (simp add: departForNavigation_p_def Let_def leaving_finish [where sc = sc and t = t and hot = hot])
qed

lemma abort_shut:
  assumes "leaving sc t hot p"
  shows "page_inv sc t hot (abortDispose env reason p) \<and> shut (abortDispose env reason p)"
proof -
  define q where "q = (case pg_owner p of
      Some e \<Rightarrow> snd (terminateEngine env e reason False (clearGracefulTimeout p))
    | None \<Rightarrow> clearGracefulTimeout p)"
  have q: "leaving sc t hot q" "vacant q"
    using leaving_terminate [of sc t hot "clearGracefulTimeout p"] assms
    by (auto simp: q_def vacant_owner split: option.split)
  have "abortDispose env reason p = finishDispose (if pg_closed q then q
      else snd (postCoordinator env (Disconnect_Tab (pg_tab q) reason) [] q))"
    by (simp add: abortDispose_def q_def Let_def)
  then show ?thesis
    using q leaving_post [OF q(1)] by (simp add: leaving_finish [where sc = sc and t = t and hot = hot])
qed

lemma leaving_mode [simp]:
  "leaving sc t hot (p\<lparr>pg_mode := m\<rparr>) = leaving sc t hot p"
  "\<not> pg_closed p \<Longrightarrow> leaving sc t hot (p\<lparr>pg_disposing := d, pg_settle := d'\<rparr>) = leaving sc t hot p"
  by (simp_all add: leaving_def fixed_def paired_def vacant_def shut_def)

lemma disposeAgain_inv:
  "page_inv sc t hot p \<Longrightarrow> page_inv sc t hot (disposeAgain env graceful preserveDatabase p)"
  by (simp add: disposeAgain_def depart_shut abort_shut inv_leaving)

lemma disposeUnconnected_inv:
  assumes "leaving sc t hot p" "pg_connection p = None" "vacant p" "pg_timeout p = None"
  shows "page_inv sc t hot (disposeUnconnected p)"
  using assms
  by (simp add: disposeUnconnected_def page_ops Let_def say_def page_inv_def shut_def vacant_def
      leaving_def fixed_def)

lemma beginGraceful_inv:
  assumes "page_inv sc t hot p" "\<not> pg_closed p" "\<not> pg_disposing p"
  shows "page_inv sc t hot (beginGraceful env e (p\<lparr>pg_disposing := True, pg_settle := True\<rparr>))"
proof -
  define q where "q = p\<lparr>pg_disposing := True, pg_settle := True, pg_mode := Some Mode_Graceful\<rparr>"
  define s where "s = postCoordinator env (Graceful_Departure (pg_tab p) e) [] q"
  have op: "opened p" "fixed sc t hot p" using assms by (simp_all add: page_inv_def shut_def)
  then have q: "fixed sc t hot q" "paired q" "\<not> pg_terminal q" "\<not> pg_closed q"
    by (simp_all add: q_def fixed_def opened_def owner_ok_def paired_def)
  have eq: "beginGraceful env e (p\<lparr>pg_disposing := True, pg_settle := True\<rparr>) =
      (if fst s then (snd s)\<lparr>pg_timeout := Some e\<rparr> else snd s)"
    by (simp add: beginGraceful_def s_def q_def case_prod_beta)
  show ?thesis
  proof (cases "fst s")
    case True
    then have "silent (snd s) = silent q" by (simp add: s_def postCoordinator_sent)
    then have "snd s = q\<lparr>pg_out := pg_out (snd s)\<rparr>" by (rule silent_eq)
    then obtain tr where "snd s = q\<lparr>pg_out := tr\<rparr>" by blast
    then show ?thesis
      using True op by (simp add: eq q_def page_inv_def opened_def owner_ok_def paired_def startup_ok_def
          dispose_ok_def fixed_def)
  next
    case False
    then show ?thesis
      using postCoordinator_unsent [OF q, of env "Graceful_Departure (pg_tab p) e" "[]"]
      by (simp add: eq s_def page_inv_def)
  qed
qed

lemma dispose_inv:
  assumes inv: "page_inv sc t hot p"
  shows "page_inv sc t hot (dispose env graceful preserve p)"
proof (cases "pg_disposing p")
  case True
  then show ?thesis using disposeAgain_inv [OF inv] by (simp add: dispose_def Let_def)
next
  case new: False
  define q where "q = p\<lparr>pg_disposing := True, pg_settle := True\<rparr>"
  have q: "\<not> pg_closed p \<Longrightarrow> leaving sc t hot q" "pg_closed q = pg_closed p" "pg_connection q = pg_connection p"
    "pg_owner q = pg_owner p"
    using inv_leaving [OF inv] by (simp_all add: q_def)
  have closed: "page_inv sc t hot (settleDispose q)" if "pg_closed p"
    using that inv by (simp add: q_def settleDispose_def say_def page_inv_def opened_def shut_def
        fixed_def vacant_def)
  have unconnected: "page_inv sc t hot (disposeUnconnected q)" if "pg_connection p = None" "\<not> pg_closed p"
  proof (rule disposeUnconnected_inv [OF q(1) [OF that(2)]])
    show "vacant q" "pg_timeout q = None" "pg_connection q = None"
      using that inv new by (auto simp: q_def page_inv_def shut_def opened_def owner_ok_def
          dispose_ok_def vacant_def paired_def)
  qed
  show ?thesis
    using new q closed unconnected beginGraceful_inv [OF inv] depart_shut abort_shut
    unfolding dispose_def Let_def q_def [symmetric]
    by (auto split: option.split bool.split)
qed

lemma gracefulTimedOut_inv:
  assumes inv: "page_inv sc t hot p"
  shows "page_inv sc t hot (gracefulTimedOut env p) \<and> (pg_timeout p \<noteq> None \<longrightarrow> shut (gracefulTimedOut env p))"
proof (cases "pg_timeout p")
  case None
  then show ?thesis using inv by (simp add: gracefulTimedOut_def)
next
  case (Some e)
  define p1 where "p1 = p\<lparr>pg_timeout := None\<rparr>"
  have "opened p" using Some inv by (auto simp: page_inv_def shut_def)
  then have p1: "leaving sc t hot p1" "\<not> pg_closed p1"
    using inv_leaving [OF inv] by (simp_all add: p1_def leaving_def fixed_def paired_def opened_def shut_def)
  define p2 where "p2 = snd (terminateEngine env e (js ''graceful drain timed out'') False p1)"
  have p2: "leaving sc t hot p2"
  proof (cases "pg_owner p1 = Some e")
    case True
    then show ?thesis using leaving_terminate [OF p1(1)] by (simp add: p2_def)
  next
    case False
    then show ?thesis using p1 by (simp add: p2_def terminateEngine_def split: option.split)
  qed
  define p3 where "p3 = snd (postCoordinator env
      (Disconnect_Tab (pg_tab p2) (js ''graceful page disposal timed out'')) [] p2)"
  have p3: "leaving sc t hot p3" using leaving_post [OF p2] by (simp add: p3_def)
  have closed: "page_inv sc t hot q \<and> shut q" if "leaving sc t hot q" "pg_closed q" for q
    using that by (auto simp: leaving_def page_inv_def)
  have "gracefulTimedOut env p = (if pg_closed p2 then p2 else if pg_closed p3 then p3
      else failTerminal env (js ''graceful engine drain timed out'') p3)"
    using Some p1 unfolding gracefulTimedOut_def p1_def p2_def p3_def Let_def by simp
  moreover have "page_inv sc t hot (failTerminal env err p3) \<and> shut (failTerminal env err p3)" for err
    using leaving_fail [OF p3] by (simp add: leaving_def page_inv_def)
  ultimately show ?thesis using closed p2 p3 by simp
qed

section \<open>Startup and requests\<close>

lemma start_inv:
  assumes "page_inv sc t hot p" "\<not> pg_closed p" "\<not> pg_registered p" "list_all isCacheRequest qs"
  shows "page_inv sc t hot (start env (p\<lparr>pg_queued := pg_queued p @ qs\<rparr>))"
  using assms
  by (auto simp: start_def connect_def say_def page_inv_def opened_def shut_def fixed_def owner_ok_def
      paired_def startup_ok_def dispose_ok_def)

lemma leaving_frame [simp]:
  "leaving sc t hot (p\<lparr>pg_lock := l\<rparr>) = leaving sc t hot p"
  "leaving sc t hot (p\<lparr>pg_failing := f\<rparr>) = leaving sc t hot p"
  "leaving sc t hot (p\<lparr>pg_next := k\<rparr>) = leaving sc t hot p"
  "leaving sc t hot (p\<lparr>pg_highest := h, pg_replaced := h'\<rparr>) =
     leaving sc t hot (p\<lparr>pg_highest := h\<rparr>)"
  "leaving sc t hot (say out p) = leaving sc t hot p"
  "shut (p\<lparr>pg_lock := l\<rparr>) = shut p" "shut (p\<lparr>pg_failing := f\<rparr>) = shut p"
  by (simp_all add: leaving_def fixed_def paired_def shut_def vacant_def say_def)

lemma start_inv_plain:
  assumes "page_inv sc t hot p" shows "page_inv sc t hot (start env p)"
proof (cases "pg_closed p \<or> pg_registered p")
  case True
  then have "pg_closed p \<or> pg_started p" using assms
    by (auto simp: page_inv_def opened_def startup_ok_def shut_def)
  then show ?thesis using assms by (auto simp: start_def)
next
  case False
  then show ?thesis using start_inv [OF assms, of "[]"] by (simp add: page.defs)
qed

lemma startupRejected_inv:
  assumes "page_inv sc t hot p" shows "page_inv sc t hot (startupRejected env p)"
proof (cases "pg_failing p")
  case None
  then show ?thesis using assms by (simp add: startupRejected_def)
next
  case (Some err)
  let ?q = "p\<lparr>pg_failing := None\<rparr>"
  have "leaving sc t hot ?q" "shut ?q = shut p" using inv_leaving [OF assms] by simp_all
  then show ?thesis
    using Some assms leaving_fail [of sc t hot ?q env err]
    by (auto simp: startupRejected_def failStartup_def page_inv_def leaving_def opened_def)
qed

lemma failStartup_inv:
  assumes "leaving sc t hot p" shows "page_inv sc t hot (failStartup env err p)"
  using assms leaving_fail [OF assms, of env err] by (auto simp: failStartup_def leaving_def page_inv_def)

lemma openCoordinator_inv:
  assumes "page_inv sc t hot p" "opened p" "pg_lock p = Some n"
  shows "page_inv sc t hot (openCoordinator env (p\<lparr>pg_lock := None\<rparr>))"
proof -
  let ?p = "p\<lparr>pg_lock := None\<rparr>"
  have p: "leaving sc t hot ?p"
    using assms by (simp add: page_inv_def leaving_def opened_def shut_def fixed_def paired_def owner_ok_def)
  then have q: "leaving sc t hot (closeEndpoint port (?p\<lparr>pg_next := k\<rparr>))" for port k
    by (simp add: closeEndpoint_def)
  have r: "page_inv sc t hot (?p\<lparr>pg_next := k, pg_connection := Some k'\<rparr>)" for k k'
    using assms by (simp add: page_inv_def opened_def shut_def fixed_def paired_def owner_ok_def
        startup_ok_def dispose_ok_def)
  show ?thesis
    using failStartup_inv [OF p] failStartup_inv [OF q] postCoordinator_inv [OF r]
    by (simp add: openCoordinator_def Let_def split: option.split)
qed

lemma lockSettled_inv:
  assumes inv: "page_inv sc t hot p" shows "page_inv sc t hot (lockSettled env outcome p)"
proof (cases "pg_lock p")
  case None
  then show ?thesis using inv by (simp add: lockSettled_def)
next
  case (Some n)
  have l: "leaving sc t hot (p\<lparr>pg_lock := None\<rparr>)"
    using inv_leaving [OF inv] by simp
  then have w: "leaving sc t hot (lockWait env n out code (p\<lparr>pg_lock := None\<rparr>))" for out code
    by (simp add: lockWait_def)
  show ?thesis
  proof (cases "pg_closed p")
    case True
    then have "page_inv sc t hot (lockWait env n out code (p\<lparr>pg_lock := None\<rparr>))" for out code
      using w [of out code] by (simp add: leaving_def page_inv_def lockWait_def)
    then show ?thesis using Some True failStartup_inv [OF w]
      by (simp add: lockSettled_def Let_def lockWait_def split: lock_outcome.split)
  next
    case False
    then have op: "opened p" using inv by (simp add: page_inv_def shut_def)
    define q where "q = lockWait env n Out_Success Code_None p"
    have q: "page_inv sc t hot q" "opened q" "pg_lock q = Some n"
      "lockWait env n Out_Success Code_None (p\<lparr>pg_lock := None\<rparr>) = q\<lparr>pg_lock := None\<rparr>"
      using inv op Some by (simp_all add: q_def lockWait_def say_def)
    show ?thesis
      using Some False failStartup_inv [OF w] openCoordinator_inv [OF q(1-3), of env] op q
      by (simp add: lockSettled_def Let_def opened_def split: lock_outcome.split)
  qed
qed

lemma notify_inv: "page_inv sc t hot p \<Longrightarrow> page_inv sc t hot (snd (notify env out p))"
  by (simp add: notify_def)

lemma and_then_inv:
  assumes "\<And>p. P p \<Longrightarrow> P (snd (f p))" "\<And>p. P p \<Longrightarrow> P (snd (g p))" "P p"
  shows "P (snd (and_then f g p))"
  using assms(2) [OF assms(1) [OF assms(3)]] assms(1) [OF assms(3)]
  by (auto simp: case_prod_beta split: prod.split option.split)

lemma postMessage_inv:
  assumes "page_inv sc t hot p" shows "page_inv sc t hot (snd (postMessage env req p))"
proof -
  have "page_inv sc t hot (snd ((if b then emitMessage env m else calm_op id) p))"
    if "page_inv sc t hot p" for b m p
    using that by (simp add: emitMessage_def notify_inv calm_op_def)
  then have "page_inv sc t hot (snd (and_then (notify env n)
      (if b then emitMessage env m else calm_op id) p))" for n b m
    by (intro and_then_inv [where P = "page_inv sc t hot"] notify_inv assms)
  then show ?thesis
    using assms start_inv [OF assms, of "[req]"]
    by (simp add: postMessage_def emitMessage_def notify_inv postCoordinator_inv del: and_then.simps)
qed

lemma postAll_inv:
  "page_inv sc t hot p \<Longrightarrow> page_inv sc t hot (snd (postAll env qs p))"
proof (induction qs arbitrary: p)
  case (Cons q qs)
  show ?case unfolding postAll.simps
    by (rule and_then_inv [where P = "page_inv sc t hot"]) (use Cons postMessage_inv in auto)
qed simp

section \<open>Messages of the coordinator\<close>

lemma closeEndpoint_inv: "page_inv sc t hot (closeEndpoint port p) = page_inv sc t hot p"
  by (simp add: closeEndpoint_def)

lemma highest_inv:
  assumes "page_inv sc t hot p" "pg_highest p \<le> e"
  shows "page_inv sc t hot (p\<lparr>pg_highest := e\<rparr>) \<and> page_inv sc t hot (p\<lparr>pg_replaced := n, pg_highest := e\<rparr>)"
proof -
  have "fixed sc t hot (p\<lparr>pg_highest := e\<rparr>)" "fixed sc t hot (p\<lparr>pg_replaced := n, pg_highest := e\<rparr>)"
    using assms unfolding page_inv_def fixed_def by (auto intro: order_trans)
  moreover have "opened (p\<lparr>pg_highest := e\<rparr>) = opened p" "shut (p\<lparr>pg_highest := e\<rparr>) = shut p"
    "opened (p\<lparr>pg_replaced := n, pg_highest := e\<rparr>) = opened p"
    "shut (p\<lparr>pg_replaced := n, pg_highest := e\<rparr>) = shut p"
    by (simp_all add: opened_def shut_def owner_ok_def paired_def startup_ok_def dispose_ok_def vacant_def)
  ultimately show ?thesis using assms(1) by (simp add: page_inv_def)
qed

lemma spawnEngine_inv:
  assumes inv: "page_inv sc t hot p" and conn: "pg_connection p \<noteq> None" and new: "pg_highest p < e"
  shows "page_inv sc t hot (snd (spawnEngine env sc' e a lock hot' (p\<lparr>pg_highest := e\<rparr>)))"
proof -
  let ?p = "p\<lparr>pg_highest := e\<rparr>"
  have p: "page_inv sc t hot ?p" using highest_inv [OF inv, of e] new by simp
  have "opened p" using inv conn by (auto simp: page_inv_def shut_def)
  show ?thesis
  proof (cases "pg_engine p \<noteq> None \<or> pg_owner p \<noteq> None")
    case True
    then show ?thesis using p inv_fail_inv [OF p] by (simp add: spawnEngine_def)
  next
    case False
    let ?w = "pg_next p"
    have c: "\<not> (pg_engine ?p \<noteq> None \<or> pg_owner ?p \<noteq> None)" "pg_next ?p = ?w" using False by simp_all
    define p1 where "p1 = say (Engine_Spawned ?w e) (?p\<lparr>pg_next := ?w + 3, pg_engine := Some ?w, pg_owner := Some e\<rparr>)"
    have p1: "page_inv sc t hot p1"
      using \<open>opened p\<close> inv conn new
      by (auto simp: p1_def page_inv_def opened_def fixed_def owner_ok_def paired_def startup_ok_def
          dispose_ok_def)
    define send where "send = (\<lambda>q.
        let (sent, p3) = postCoordinator env (Attach_Engine_Port (pg_tab q) e (JPort (?w + 1))) [JPort (?w + 1)] q
        in if \<not> sent then (None, closeEndpoint (JPort (?w + 2)) p3)
           else (None :: js_string option, case pe_post_engine env of
               None \<Rightarrow> say (To_Engine ?w (Activate_Engine sc' (pg_tab p3) e a lock hot')) p3
             | Some err \<Rightarrow> failTerminal env err (closeEndpoint (JPort (?w + 2)) p3)))"
    have send: "page_inv sc t hot (snd (send q))" if "page_inv sc t hot q" for q
      using postCoordinator_inv [OF that, of env "Attach_Engine_Port (pg_tab q) e (JPort (?w + 1))"
          "[JPort (?w + 1)]"]
      by (simp add: send_def case_prod_beta closeEndpoint_inv inv_fail_inv split: option.split)
    have thens: "page_inv sc t hot (snd (and_then (and_then (notify env m) (notify env n)) send p1))" for m n
      by (intro and_then_inv [where P = "page_inv sc t hot"] notify_inv send p1)
    have eq: "spawnEngine env sc' e a lock hot' ?p = (case pe_create_engine env of
        Some err \<Rightarrow> (Some err, ?p)
      | None \<Rightarrow> and_then (and_then (notify env (Owner_Changed (Some e))) (notify env (Worker_Created ?w e)))
          send p1)"
      unfolding spawnEngine_def if_not_P [OF c(1)] c(2) Let_def p1_def send_def by (rule refl)
    show ?thesis
      using p thens unfolding eq by (simp del: and_then.simps split: option.split)
  qed
qed

lemma registeredNow_inv:
  assumes inv: "page_inv sc t hot p" and conn: "pg_connection p \<noteq> None"
  shows "page_inv sc t hot (snd (registeredNow env p))"
proof -
  have "opened p" using inv conn by (auto simp: page_inv_def shut_def)
  then have "page_inv sc t hot
      ((registerPagehide env ((if pg_registration p then say Start_Resolved q else q)
         \<lparr>pg_registration := False\<rparr>))\<lparr>pg_queued := []\<rparr>)" if "q = p\<lparr>pg_registered := True\<rparr>" for q
    using inv conn unfolding that
    by (auto simp: registerPagehide_def say_def page_inv_def opened_def shut_def fixed_def owner_ok_def paired_def
        startup_ok_def dispose_ok_def)
  then show ?thesis by (simp add: registeredNow_def Let_def postAll_inv)
qed

lemma terminated_stays:
  assumes "page_inv sc t hot p" "pg_owner p = Some e"
  shows "page_inv sc t hot (finishDispose (snd (terminateEngine env e reason False p)))"
  using leaving_terminate [OF inv_leaving [OF assms(1)] assms(2)] leaving_finish by blast

lemma receive_inv:
  assumes inv: "page_inv sc t hot p" and conn: "pg_connection p \<noteq> None"
  shows "page_inv sc t hot (snd (receive env message p))"
proof (cases message)
  case (Registered x)
  then show ?thesis using registeredNow_inv [OF assms] inv_fail_inv [OF inv] by simp
next
  case (Become_Owner s x e a l h)
  then show ?thesis using spawnEngine_inv [OF assms] inv_fail_inv [OF inv] by simp
next
  case (Cache_Message m)
  then show ?thesis using inv by (simp add: emitMessage_def notify_inv)
next
  case (Terminate_Engine x e reason)
  then show ?thesis
    using inv_fail_inv [OF inv] inv_fail_inv terminateEngine_inv [OF inv, of env e reason False]
    by (simp add: case_prod_beta)
next
  case (Retire_Complete x e)
  then show ?thesis
    using inv_fail_inv [OF inv] inv_fail_inv terminateEngine_inv [OF inv, of env e _ False]
      terminated_stays [OF inv, of e]
    by (simp add: case_prod_beta)
next
  case (Engine_Replaced e)
  have "page_inv sc t hot (p\<lparr>pg_replaced := e, pg_highest := max (pg_highest p) e\<rparr>)"
    using highest_inv [OF inv, of "max (pg_highest p) e"] by simp
  then show ?thesis using Engine_Replaced inv by (simp add: notify_inv)
next
  case (Protocol_Error err)
  then show ?thesis using inv inv_fail_inv [OF inv] by (simp add: notify_inv)
qed

lemma onCoordinatorMessage_inv:
  assumes "page_inv sc t hot p" "pg_connection p \<noteq> None"
  shows "page_inv sc t hot (onCoordinatorMessage env raw p)"
proof -
  have "page_inv sc t hot (snd (handleCoordinatorMessage env raw p))"
    using receive_inv [OF assms] inv_fail_inv [OF assms(1)]
    by (simp add: handleCoordinatorMessage_def split: sum.split)
  then show ?thesis
    using inv_fail_inv by (auto simp: onCoordinatorMessage_def split: prod.split option.split)
qed

section \<open>The invariant of the machine\<close>

lemma engineError_inv:
  "page_inv sc t hot p \<Longrightarrow> page_inv sc t hot (engineError env reason p)"
  using terminateEngine_inv [of sc t hot p env] inv_fail_inv
  by (simp add: engineError_def Let_def split: option.split)

lemma listening_inv: "page_inv sc t hot (p\<lparr>pg_listening := b\<rparr>) = page_inv sc t hot p"
  by (simp add: inv_parts)

lemma page_step_inv:
  assumes "page_inv sc t hot p" shows "page_inv sc t hot (snd (page_step ev p))"
proof (cases ev)
  case (Pair env e)
  show ?thesis
    using assms unfolding Pair
    by (cases e) (simp_all add: start_inv_plain postMessage_inv dispose_inv listening_inv startupRejected_inv
        lockSettled_inv viaConnection_def viaEngine_def onCoordinatorMessage_inv inv_fail_inv engineError_inv
        gracefulTimedOut_inv)
qed

lemma initial_page_inv: "page_inv sc t hot (initial_page sc t hot)"
  by (simp add: initial_page_def inv_parts)

interpretation pages: machine "initial_page sc t hot" page_step "\<lambda>_. True" "page_inv sc t hot"
  for sc t hot
  by unfold_locales (simp_all add: initial_page_inv page_step_inv)

end
