(* ===== verification/Page_Books.thy ===== *)
theory Page_Books
  imports Page_Laws "HOL-Library.Sublist"
begin

text \<open>
  What the log of the page adapter says about its promises, requests and workers, against the list
  \<open>xs\<close> of the valid requests it was given: \<open>books\<close>, kept by every operation.
\<close>

section \<open>Reading the log\<close>

fun forwarded_of :: "page_output \<Rightarrow> jsval list" where
  "forwarded_of (To_Coordinator h (Cache_Request t q)) = [q]"
| "forwarded_of _ = []"

fun spawned_of :: "page_output \<Rightarrow> (nat \<times> owner_epoch) list" where
  "spawned_of (Engine_Spawned w e) = [(w, e)]"
| "spawned_of _ = []"

fun start_answer :: "page_output \<Rightarrow> bool" where
  "start_answer Start_Resolved = True"
| "start_answer (Start_Rejected err) = True"
| "start_answer _ = False"

definition forwarded :: "page \<Rightarrow> jsval list" where
  "forwarded p = concat (List.map forwarded_of (pg_out p))"

definition spawned :: "page \<Rightarrow> (nat \<times> owner_epoch) list" where
  "spawned p = concat (List.map spawned_of (pg_out p))"

definition settled_once :: "page \<Rightarrow> bool" where
  "settled_once p \<longleftrightarrow>
     count_list (pg_out p) Dispose_Settled + of_bool (pg_settle p) = (of_bool (pg_disposing p) :: nat) \<and>
     length (filter start_answer (pg_out p)) + of_bool (pg_registration p) = (of_bool (pg_started p) :: nat)"

definition in_order :: "jsval list \<Rightarrow> page \<Rightarrow> bool" where
  "in_order xs p \<longleftrightarrow>
     (if pg_closed p then prefix (forwarded p) xs else forwarded p @ pg_queued p = xs)"

definition increasing :: "page \<Rightarrow> bool" where
  "increasing p \<longleftrightarrow> sorted_wrt (<) (List.map snd (spawned p)) \<and> (\<forall>(w, e) \<in> set (spawned p). e \<le> pg_highest p)"

definition answered :: "page \<Rightarrow> jsval \<Rightarrow> bool" where
  "answered p q \<longleftrightarrow> q \<in> set (forwarded p) \<or> q \<in> set (pg_queued p) \<or>
     (\<exists>err. Emitted (rejection (request_id q) err None) \<in> set (pg_out p))"

definition stopped :: "page \<Rightarrow> nat \<Rightarrow> bool" where
  "stopped p w \<longleftrightarrow> pg_engine p = Some w \<or> Engine_Terminated w \<in> set (pg_out p)"

text \<open>Messages to the coordinator and to the engine are well formed and name the tab.\<close>

fun proper :: "js_string \<Rightarrow> page_output \<Rightarrow> bool" where
  "proper t (To_Coordinator h message) \<longleftrightarrow> wf_tab_to_coordinator message \<and> tc_tab message = t"
| "proper t (To_Engine w (Activate_Engine sc t' e a lock hot)) \<longleftrightarrow>
     wf_page_to_engine (Activate_Engine sc t' e a lock hot) \<and> t' = t"
| "proper t out \<longleftrightarrow> True"

definition named :: "page \<Rightarrow> bool" where
  "named p \<longleftrightarrow> pg_tab p \<noteq> [] \<and> pg_scope p \<noteq> [] \<and> wf_hot (pg_hot p)"

definition posted_ok :: "page \<Rightarrow> bool" where
  "posted_ok p \<longleftrightarrow> named p \<and> (\<forall>e. pg_owner p = Some e \<longrightarrow> wf_id e) \<and>
     (\<forall>out \<in> set (pg_out p). proper (pg_tab p) out)"

text \<open>
  The last part holds as long as no callback, no \<open>Worker.terminate\<close> and no send of a request throws.
\<close>

definition books :: "bool \<Rightarrow> jsval list \<Rightarrow> page \<Rightarrow> bool" where
  "books c xs p \<longleftrightarrow> settled_once p \<and> in_order xs p \<and> increasing p \<and> posted_ok p \<and>
     (c \<longrightarrow> (\<forall>q \<in> set xs. answered p q) \<and> (\<forall>(w, e) \<in> set (spawned p). stopped p w))"

definition calm_env :: "page_env \<Rightarrow> bool" where
  "calm_env env \<longleftrightarrow> pe_terminate env = None \<and> (\<forall>out. pe_callback env out = None) \<and>
     (\<forall>t q. pe_send env (Cache_Request t q) = None)"

section \<open>Frame\<close>

lemmas books_defs = books_def settled_once_def in_order_def increasing_def answered_def stopped_def
  forwarded_def spawned_def posted_ok_def named_def

lemma page_books_frame [simp]:
  "books c xs (p\<lparr>pg_connection := a1\<rparr>) = books c xs p"
  "books c xs (p\<lparr>pg_registered := a3\<rparr>) = books c xs p" "books c xs (p\<lparr>pg_liveness := a4\<rparr>) = books c xs p"
  "books c xs (p\<lparr>pg_timeout := a5\<rparr>) = books c xs p" "books c xs (p\<lparr>pg_mode := a6\<rparr>) = books c xs p"
  "books c xs (p\<lparr>pg_pagehide := a7\<rparr>) = books c xs p" "books c xs (p\<lparr>pg_terminal := a8\<rparr>) = books c xs p"
  "books c xs (p\<lparr>pg_terminated := a9\<rparr>) = books c xs p" "books c xs (p\<lparr>pg_replaced := b1\<rparr>) = books c xs p"
  "books c xs (p\<lparr>pg_lock := b2\<rparr>) = books c xs p" "books c xs (p\<lparr>pg_failing := b3\<rparr>) = books c xs p"
  "books c xs (p\<lparr>pg_listening := b4\<rparr>) = books c xs p" "books c xs (p\<lparr>pg_next := b5\<rparr>) = books c xs p"
  by (simp_all add: books_defs)

fun quiet :: "page_output \<Rightarrow> bool" where
  "quiet Dispose_Settled = False"
| "quiet (To_Coordinator h message) = False"
| "quiet (To_Engine w message) = False"
| "quiet (Engine_Spawned w e) = False"
| "quiet out = (\<not> start_answer out)"

lemma quiet_nothing:
  "quiet out \<Longrightarrow> forwarded_of out = [] \<and> spawned_of out = [] \<and> \<not> start_answer out \<and>
    out \<noteq> Dispose_Settled \<and> proper t out"
  by (induction out rule: quiet.induct) simp_all

lemma books_say: "books c xs p \<Longrightarrow> quiet out \<Longrightarrow> books c xs (say out p)"
  by (frule quiet_nothing [of out "pg_tab p"]) (auto simp: books_defs say_def)

lemma books_closed: "books c xs p \<Longrightarrow> books c xs (p\<lparr>pg_closed := True\<rparr>)"
  by (auto simp: books_defs prefix_def split: if_splits)

lemma books_highest: "books c xs p \<Longrightarrow> pg_highest p \<le> e \<Longrightarrow> books c xs (p\<lparr>pg_highest := e\<rparr>)"
  by (fastforce simp: books_defs)

lemma books_notify: "books c xs p \<Longrightarrow> quiet out \<Longrightarrow> books c xs (snd (notify env out p))"
  by (simp add: notify_def books_say)

lemma books_fold: "books c xs p \<Longrightarrow> books c xs (fold closeEndpoint ports p)"
  by (induction ports arbitrary: p) (simp_all add: closeEndpoint_def books_say)

lemma books_endpoint: "books c xs p \<Longrightarrow> books c xs (closeEndpoint port p)"
  by (simp add: closeEndpoint_def books_say)

section \<open>Closing\<close>

lemma books_settle: "books c xs p \<Longrightarrow> books c xs (settleDispose p)"
  by (auto simp: settleDispose_def say_def books_defs split: if_splits)

lemma books_release: "books c xs p \<Longrightarrow> books c xs (releaseLiveness p)"
  by (simp add: releaseLiveness_def books_say)

lemma books_port: "books c xs p \<Longrightarrow> books c xs (closeCoordinatorPort p)"
  by (simp add: closeCoordinatorPort_def books_say split: option.split)

lemma books_clear: "books c xs p \<Longrightarrow> books c xs (clearGracefulTimeout p)"
  by (simp add: clearGracefulTimeout_def)

text \<open>Requests that are emitted as rejections leave the queue.\<close>

lemma emitted_nothing [simp]:
  "concat (List.map forwarded_of (List.map (\<lambda>q. Emitted (f q)) qs)) = []"
  "concat (List.map spawned_of (List.map (\<lambda>q. Emitted (f q)) qs)) = []"
  "filter start_answer (List.map (\<lambda>q. Emitted (f q)) qs) = []"
  "count_list (List.map (\<lambda>q. Emitted (f q)) qs) Dispose_Settled = 0"
  by (induction qs) simp_all

lemma books_reject:
  assumes "books c xs p" "pg_closed p" shows "books c xs (rejectStartAndQueued err p)"
proof -
  define p1 where "p1 = (if pg_registration p then say (Start_Rejected err) p else p)\<lparr>pg_registration := False\<rparr>"
  define es where "es = List.map (\<lambda>q. Emitted (rejection (request_id q) err None)) (pg_queued p)"
  have p1: "books c xs p1" "pg_closed p1" "pg_queued p1 = pg_queued p"
    using assms by (auto simp: p1_def books_defs say_def)
  have es: "concat (List.map forwarded_of es) = []" "concat (List.map spawned_of es) = []"
    "filter start_answer es = []" "count_list es Dispose_Settled = 0" "\<forall>out \<in> set es. proper u out" for u
    by (auto simp: es_def)
  have f: "forwarded (p1\<lparr>pg_queued := [], pg_out := pg_out p1 @ es\<rparr>) = forwarded p1"
    "spawned (p1\<lparr>pg_queued := [], pg_out := pg_out p1 @ es\<rparr>) = spawned p1"
    using es by (simp_all add: forwarded_def spawned_def)
  have "answered (p1\<lparr>pg_queued := [], pg_out := pg_out p1 @ es\<rparr>) q" if "answered p1 q" for q
    using that p1(3) unfolding answered_def f by (auto simp: es_def)
  moreover have "stopped (p1\<lparr>pg_queued := [], pg_out := pg_out p1 @ es\<rparr>) w" if "stopped p1 w" for w
    using that by (auto simp: stopped_def)
  ultimately have "books c xs (p1\<lparr>pg_queued := [], pg_out := pg_out p1 @ es\<rparr>)"
    using p1(1,2) es
    by (auto simp: books_def settled_once_def in_order_def increasing_def posted_ok_def named_def f)
  moreover have "rejectStartAndQueued err p = p1\<lparr>pg_queued := [], pg_out := pg_out p1 @ es\<rparr>"
    by (simp add: rejectStartAndQueued_def p1_def es_def Let_def say_def)
  ultimately show ?thesis by simp
qed

lemma books_wound_up:
  assumes "books c xs p" "pg_closed p" shows "books c xs (wound_up err p)"
  unfolding wound_up_def
  by (intro books_settle books_reject books_release books_port assms)
    (use assms in \<open>simp add: releaseLiveness_def closeCoordinatorPort_def split: option.split\<close>)

lemma books_drop:
  assumes "books c xs p" "pg_engine p = Some w" "c \<Longrightarrow> calm_env env"
  shows "books c xs (snd (dropEngine env e reason w p))"
proof -
  define p1 where "p1 = (if pe_terminate env = None then say (Engine_Terminated w) p else p)"
  have p1: "books c xs p1" using assms by (simp add: p1_def books_say)
  have t: "c \<Longrightarrow> Engine_Terminated w \<in> set (pg_out p1)" "pg_engine p1 = Some w"
    using assms by (simp_all add: p1_def calm_env_def say_def)
  have p2: "books c xs (p1\<lparr>pg_terminated := T, pg_engine := None, pg_owner := None\<rparr>)" for T
  proof -
    let ?r = "p1\<lparr>pg_terminated := T, pg_engine := None, pg_owner := None\<rparr>"
    have r: "forwarded ?r = forwarded p1" "spawned ?r = spawned p1"
      by (simp_all add: forwarded_def spawned_def)
    have "answered ?r = answered p1" by (rule ext) (simp add: answered_def r)
    moreover have "stopped ?r v" if "stopped p1 v" c for v
      using that t by (auto simp: stopped_def)
    ultimately show ?thesis
      using p1 by (auto simp: books_def settled_once_def in_order_def increasing_def posted_ok_def named_def r)
  qed
  have "snd (dropEngine env e reason w p) \<in>
      {say (Worker_Terminated e reason) (say (Owner_Changed None)
         (p1\<lparr>pg_terminated := insert e (pg_terminated p1), pg_engine := None, pg_owner := None\<rparr>)),
       say (Owner_Changed None)
         (p1\<lparr>pg_terminated := insert e (pg_terminated p1), pg_engine := None, pg_owner := None\<rparr>)}"
    by (simp add: dropEngine_def p1_def notify_def Let_def split: option.split)
  then show ?thesis using books_say [OF p2] books_say [OF books_say [OF p2]] by auto
qed

lemma books_fail:
  assumes "books c xs p" "c \<Longrightarrow> calm_env env" shows "books c xs (failTerminal env err p)"
proof (cases "pg_terminal p")
  case True
  then show ?thesis using assms by (simp add: failTerminal_terminal)
next
  case False
  define p1 where "p1 = clearGracefulTimeout (p\<lparr>pg_terminal := True, pg_closed := True, pg_registered := False\<rparr>)"
  define p2 where "p2 = (case (pg_owner p1, pg_engine p1) of
      (Some e, Some w) \<Rightarrow> snd (dropEngine env e err w p1) | _ \<Rightarrow> p1)"
  have eq: "failTerminal env err p = say (Terminal_Notice err) (wound_up err p2)"
    unfolding failTerminal_def p2_def p1_def wound_up_def Let_def using False by simp
  have p1: "books c xs p1"
    using books_closed [of c xs "p\<lparr>pg_terminal := True\<rparr>"] assms(1) unfolding p1_def
    by (simp add: books_clear)
  have c1: "pg_closed p1" by (simp add: p1_def clearGracefulTimeout_def)
  have "pg_closed (snd (dropEngine env e err w p1))" for e w
    by (rule dropEngine_obtain [of env e err w p1]) (simp add: c1)
  then have "books c xs p2" "pg_closed p2"
    using p1 c1 books_drop [OF p1 _ assms(2)] by (simp_all add: p2_def split: option.split)
  then show ?thesis by (simp add: eq books_say books_wound_up)
qed

lemma books_finish:
  assumes "books c xs p" shows "books c xs (finishDispose p)"
proof -
  let ?q = "clearGracefulTimeout (p\<lparr>pg_closed := True, pg_registered := False\<rparr>)"
  have "finishDispose p = wound_up (js ''page adapter was disposed'') ?q"
    by (simp add: finishDispose_def wound_up_def)
  moreover have "books c xs ?q" using books_closed [OF assms] by (simp add: books_clear)
  ultimately show ?thesis by (simp add: books_wound_up clearGracefulTimeout_def)
qed

section \<open>Sending and disposing\<close>

fun plain :: "tab_to_coordinator \<Rightarrow> bool" where
  "plain (Cache_Request t q) = False"
| "plain message = True"

definition fits :: "page \<Rightarrow> tab_to_coordinator \<Rightarrow> bool" where
  "fits p message \<longleftrightarrow> plain message \<and> wf_tab_to_coordinator message \<and> tc_tab message = pg_tab p"

lemma plain_nothing: "plain message \<Longrightarrow> forwarded_of (To_Coordinator h message) = []"
  by (cases message) simp_all

lemma books_send:
  "books c xs p \<Longrightarrow> fits p message \<Longrightarrow> books c xs (say (To_Coordinator h message) p)"
  unfolding fits_def by (auto simp: books_defs say_def plain_nothing)

lemma books_activate:
  "books c xs p \<Longrightarrow> sc \<noteq> [] \<Longrightarrow> wf_id e \<Longrightarrow> lock \<noteq> [] \<Longrightarrow> wf_hot hot \<Longrightarrow>
    books c xs (say (To_Engine w (Activate_Engine sc (pg_tab p) e a lock hot)) p)"
  by (auto simp: books_defs say_def)

lemma books_named: "books c xs p \<Longrightarrow> named p" "books c xs p \<Longrightarrow> pg_owner p = Some e \<Longrightarrow> wf_id e"
  by (simp_all add: books_def posted_ok_def)

text \<open>The messages the adapter sends.\<close>

lemma books_fits:
  assumes "books c xs p"
  shows "lock \<noteq> [] \<Longrightarrow> fits p (Register_Tab (pg_scope p) (pg_tab p) lock (pg_hot p))"
    "wf_id e \<Longrightarrow> isMessagePort port \<Longrightarrow> fits p (Attach_Engine_Port (pg_tab p) e port)"
    "wf_id e \<Longrightarrow> fits p (Graceful_Departure (pg_tab p) e)"
    "wf_id e \<Longrightarrow> reason \<noteq> [] \<Longrightarrow> fits p (Navigation_Departure (pg_tab p) e reason)"
    "wf_id e \<Longrightarrow> reason \<noteq> [] \<Longrightarrow> fits p (Engine_Lost (pg_tab p) e reason)"
    "reason \<noteq> [] \<Longrightarrow> fits p (Disconnect_Tab (pg_tab p) reason)"
  using books_named(1) [OF assms] by (simp_all add: fits_def named_def)

lemma books_post:
  assumes "books c xs p" "c \<Longrightarrow> calm_env env" "fits p message"
  shows "books c xs (snd (postCoordinator env message ports p))"
  using books_fail [OF books_fold [OF assms(1)] assms(2)] books_fold [OF assms(1)]
    books_send [OF assms(1,3)]
  by (simp add: postCoordinator_def Let_def split: option.split)

lemma books_terminate:
  assumes "books c xs p" "c \<Longrightarrow> calm_env env" "reason \<noteq> []"
  shows "books c xs (snd (terminateEngine env e reason loss p))"
proof (cases "pg_engine p = None \<or> pg_owner p \<noteq> Some e")
  case True
  then show ?thesis using assms by (auto simp: terminateEngine_def split: option.split)
next
  case False
  then obtain w where w: "pg_engine p = Some w" "pg_owner p = Some e" by auto
  obtain cleanup p1 where d: "dropEngine env e reason w p = (cleanup, p1)" by fastforce
  have p1: "books c xs p1" using books_drop [OF assms(1) w(1) assms(2), of e reason] by (simp add: d)
  show ?thesis
    using w p1 books_fail [OF p1 assms(2)] books_post [OF p1 assms(2) books_fits(5) [OF p1]]
      books_named(2) [OF assms(1) w(2)] assms(3)
    by (simp add: terminateEngine_def d split: option.split)
qed

lemma books_depart:
  assumes "books c xs p" "c \<Longrightarrow> calm_env env" "reason \<noteq> []"
  shows "books c xs (departForNavigation_p env reason p)"
proof -
  let ?p = "clearGracefulTimeout p"
  have p1: "books c xs ?p" using assms by (simp add: books_clear)
  note t = books_terminate [OF p1 assms(2,3)]
  show ?thesis
    using p1 t books_post [OF p1 assms(2) books_fits(6) [OF p1 assms(3)]]
      books_post [OF t assms(2) books_fits(4) [OF t books_named(2) [OF p1] assms(3)]]
    by (simp add: departForNavigation_p_def Let_def books_finish split: option.split)
qed

lemma books_abort:
  assumes "books c xs p" "c \<Longrightarrow> calm_env env" "reason \<noteq> []"
  shows "books c xs (abortDispose env reason p)"
proof -
  have p1: "books c xs (clearGracefulTimeout p)" using assms by (simp add: books_clear)
  note t = books_terminate [OF p1 assms(2,3)]
  show ?thesis
    using p1 t books_post [OF p1 assms(2) books_fits(6) [OF p1 assms(3)]]
      books_post [OF t assms(2) books_fits(6) [OF t assms(3)]]
    by (simp add: abortDispose_def Let_def books_finish split: option.split)
qed

lemma books_unconnected: "books c xs p \<Longrightarrow> books c xs (disposeUnconnected p)"
  using books_closed [of c xs "p\<lparr>pg_mode := Some Mode_Abrupt\<rparr>"]
  by (simp add: disposeUnconnected_def books_settle books_release books_reject)

lemma books_graceful:
  assumes "books c xs p" "c \<Longrightarrow> calm_env env" "wf_id e" shows "books c xs (beginGraceful env e p)"
proof -
  have q: "books c xs (p\<lparr>pg_mode := Some Mode_Graceful\<rparr>)" using assms by simp
  show ?thesis
    using books_post [OF q assms(2) books_fits(3) [OF q assms(3)]]
    by (simp add: beginGraceful_def case_prod_beta)
qed

lemma books_dispose:
  assumes "books c xs p" "c \<Longrightarrow> calm_env env" shows "books c xs (dispose env graceful preserve p)"
proof (cases "pg_disposing p")
  case True
  then show ?thesis
    using books_depart [of c xs "p\<lparr>pg_mode := Some Mode_Navigation\<rparr>" env]
      books_abort [of c xs "p\<lparr>pg_mode := Some Mode_Abrupt\<rparr>" env] assms
    by (simp add: dispose_def disposeAgain_def Let_def)
next
  case False
  define p1 where "p1 = p\<lparr>pg_disposing := True, pg_settle := True\<rparr>"
  have p1: "books c xs p1" using assms(1) False by (auto simp: p1_def books_defs)
  then have m: "books c xs (p1\<lparr>pg_mode := m\<rparr>)" for m by simp
  show ?thesis
    using False p1 books_settle [OF p1] books_unconnected [OF p1]
      books_graceful [OF p1 assms(2) books_named(2) [OF p1]] books_depart [OF m assms(2)] books_abort [OF m assms(2)]
    unfolding dispose_def Let_def p1_def [symmetric]
    by (simp split: option.split bool.split)
qed

lemma books_timeout:
  assumes "books c xs p" "c \<Longrightarrow> calm_env env" shows "books c xs (gracefulTimedOut env p)"
proof -
  have p1: "books c xs (p\<lparr>pg_timeout := None\<rparr>)" using assms by simp
  note t = books_terminate [OF p1 assms(2)]
  note d = books_post [OF t assms(2) books_fits(6) [OF t]]
  show ?thesis
    using assms(1) t d books_fail [OF d assms(2)]
    by (simp add: gracefulTimedOut_def Let_def split: option.split)
qed

section \<open>Startup\<close>

lemma books_start:
  assumes "books c xs p" shows "books c xs (start env p)"
proof -
  have r: "books c xs (p\<lparr>pg_started := True, pg_registration := True\<rparr>)" if "\<not> pg_started p"
    using that assms by (auto simp: books_defs)
  have "books c xs (connect env q)" if "books c xs q" for q
    using that by (simp add: connect_def books_say)
  then show ?thesis using assms r by (simp add: start_def books_say)
qed

lemma books_startup:
  assumes "books c xs p" "c \<Longrightarrow> calm_env env" shows "books c xs (failStartup env err p)"
  using assms books_fail [OF assms] by (simp add: failStartup_def)

lemma books_rejected:
  assumes "books c xs p" "c \<Longrightarrow> calm_env env" shows "books c xs (startupRejected env p)"
  using assms books_startup [of c xs "p\<lparr>pg_failing := None\<rparr>" env]
  by (simp add: startupRejected_def split: option.split)

lemma books_open:
  assumes "books c xs p" "c \<Longrightarrow> calm_env env" shows "books c xs (openCoordinator env p)"
proof -
  have q: "books c xs (closeEndpoint port (p\<lparr>pg_next := k\<rparr>))" for port k
    using assms by (simp add: books_endpoint)
  have r: "books c xs (p\<lparr>pg_next := k, pg_connection := h\<rparr>)" for k h
    using assms by simp
  show ?thesis
    using books_startup [OF assms] books_startup [OF q assms(2)] books_post [OF r assms(2) books_fits(1) [OF r]]
    by (simp add: openCoordinator_def Let_def tabLivenessLockName_def split: option.split)
qed

lemma books_lock:
  assumes "books c xs p" "c \<Longrightarrow> calm_env env" shows "books c xs (lockSettled env outcome p)"
proof -
  have w: "books c xs (lockWait env n out code (p\<lparr>pg_lock := None\<rparr>))" for n out code
    using assms by (simp add: lockWait_def books_say)
  show ?thesis
    using assms(1) w books_startup [OF w assms(2)] books_open [OF w assms(2)]
    by (simp add: lockSettled_def Let_def split: option.split lock_outcome.split)
qed

section \<open>Requests\<close>

lemma books_more:
  "books c xs p \<Longrightarrow> pg_closed p \<Longrightarrow> (c \<Longrightarrow> \<forall>q \<in> set ys. answered p q) \<Longrightarrow> books c (xs @ ys) p"
  by (auto simp: books_def in_order_def)

lemma books_emit: "books c xs p \<Longrightarrow> books c xs (snd (emitMessage env message p))"
  by (simp add: emitMessage_def books_notify)

lemma books_invalid:
  assumes "books c xs p" "\<not> isCacheRequest req" shows "books c xs (snd (postMessage env req p))"
proof -
  have "books c xs (snd (and_then (notify env (Protocol_Notice err))
      (if b then emitMessage env m else calm_op id) p))" for err b m
    by (rule and_then_inv [where P = "books c xs"])
      (simp_all add: books_notify books_emit calm_op_def assms)
  then show ?thesis using assms by (simp add: postMessage_def del: and_then.simps)
qed

lemma closed_fail: "page_inv sc t hot p \<Longrightarrow> pg_closed (failTerminal env err p)"
  using inv_fail [of sc t hot p env err] by (simp add: shut_def)

lemma books_valid:
  assumes inv: "page_inv sc t hot p" and b: "books c xs p" "c \<Longrightarrow> calm_env env" and q: "isCacheRequest req"
  shows "books c (xs @ [req]) (snd (postMessage env req p)) \<and>
    (fst (postMessage env req p) = None \<or> \<not> c \<and> pg_closed (snd (postMessage env req p)))"
proof -
  consider (closed) "pg_closed p" | (queue) "\<not> pg_closed p" "\<not> pg_registered p"
    | (send) "\<not> pg_closed p" "pg_registered p" by blast
  then show ?thesis
  proof cases
    case closed
    let ?p = "say (Emitted (rejection (request_id req) (js ''page adapter is closed'') None)) p"
    have "books c (xs @ [req]) ?p"
    proof (rule books_more)
      show "books c xs ?p" "pg_closed ?p" using b closed by (simp_all add: books_say)
      show "\<forall>q \<in> set [req]. answered ?p q" by (auto simp: answered_def say_def)
    qed
    then show ?thesis
      using closed q b(2) by (auto simp: postMessage_def emitMessage_def notify_def calm_env_def)
  next
    case queue
    have "books c (xs @ [req]) (p\<lparr>pg_queued := pg_queued p @ [req]\<rparr>)"
      using b(1) queue by (auto simp: books_defs)
    then show ?thesis using queue q by (simp add: postMessage_def books_start)
  next
    case send
    then have "pg_queued p = []" "pg_connection p \<noteq> None"
      using inv by (auto simp: page_inv_def opened_def startup_ok_def shut_def)
    then obtain h where h: "pg_connection p = Some h" "pg_queued p = []" by auto
    show ?thesis
    proof (cases "pe_send env (Cache_Request (pg_tab p) req)")
      case None
      have "books c (xs @ [req]) (say (To_Coordinator h (Cache_Request (pg_tab p) req)) p)"
        using b(1) send h q by (auto simp: books_defs say_def)
      then show ?thesis using send q h None by (simp add: postMessage_def postCoordinator_def)
    next
      case (Some err)
      then have "\<not> c" using b(2) by (auto simp: calm_env_def)
      then have "books c (xs @ [req]) (failTerminal env err p)"
        using books_more [OF books_fail [OF b] closed_fail [OF inv]] by blast
      then show ?thesis using send q h Some by (simp add: postMessage_def postCoordinator_def)
    qed
  qed
qed

lemma books_all:
  assumes "page_inv sc t hot p" "books c xs p" "c \<Longrightarrow> calm_env env" "list_all isCacheRequest qs"
  shows "books c (xs @ qs) (snd (postAll env qs p))"
  using assms
proof (induction qs arbitrary: p xs)
  case (Cons q qs)
  obtain thrown p1 where m: "postMessage env q p = (thrown, p1)" by fastforce
  have p1: "books c (xs @ [q]) p1" "thrown = None \<or> \<not> c \<and> pg_closed p1" "page_inv sc t hot p1"
    using books_valid [OF Cons.prems(1,2,3), of q] postMessage_inv [OF Cons.prems(1), of env q] Cons.prems(4)
    by (simp_all add: m)
  show ?case
  proof (cases thrown)
    case None
    then show ?thesis using Cons.IH [OF p1(3,1) Cons.prems(3)] Cons.prems(4) by (simp add: m)
  next
    case (Some err)
    then have "books c ((xs @ [q]) @ qs) p1" using p1 books_more [OF p1(1)] by blast
    then show ?thesis using Some by (simp add: m)
  qed
qed simp

section \<open>Messages of the coordinator\<close>

lemma books_registered:
  assumes inv: "page_inv sc t hot p" "pg_connection p \<noteq> None" and b: "books c xs p" "c \<Longrightarrow> calm_env env"
  shows "books c xs (snd (registeredNow env p))"
proof -
  have op: "opened p" using inv by (auto simp: page_inv_def shut_def)
  define p3 where "p3 = registerPagehide env ((if pg_registration p then say Start_Resolved
      (p\<lparr>pg_registered := True\<rparr>) else p\<lparr>pg_registered := True\<rparr>)\<lparr>pg_registration := False\<rparr>)"
  have q: "pg_queued p3 = pg_queued p"
    by (simp add: p3_def registerPagehide_def say_def)
  have "page_inv sc t hot (p3\<lparr>pg_queued := []\<rparr>)"
    using op inv unfolding p3_def
    by (auto simp: registerPagehide_def say_def page_inv_def opened_def shut_def fixed_def owner_ok_def
        paired_def startup_ok_def dispose_ok_def)
  moreover have "books c (forwarded p) (p3\<lparr>pg_queued := []\<rparr>)"
    using b(1) op unfolding p3_def
    by (auto simp: registerPagehide_def books_defs say_def opened_def)
  moreover have "list_all isCacheRequest (pg_queued p)" using op by (simp add: opened_def startup_ok_def)
  ultimately have "books c (forwarded p @ pg_queued p) (snd (postAll env (pg_queued p) (p3\<lparr>pg_queued := []\<rparr>)))"
    using books_all b(2) by blast
  moreover have "forwarded p @ pg_queued p = xs" using b(1) op by (simp add: books_def in_order_def opened_def)
  moreover have "registeredNow env p = postAll env (pg_queued p3) (p3\<lparr>pg_queued := []\<rparr>)"
    by (simp add: registeredNow_def p3_def Let_def)
  ultimately show ?thesis by (simp add: q)
qed

lemma books_spawn:
  assumes b: "books c xs p" "c \<Longrightarrow> calm_env env" and new: "pg_highest p < e"
    and wf: "sc' \<noteq> []" "wf_id e" "lock \<noteq> []" "wf_hot hot'"
  shows "books c xs (snd (spawnEngine env sc' e a lock hot' (p\<lparr>pg_highest := e\<rparr>)))"
proof -
  let ?p = "p\<lparr>pg_highest := e\<rparr>"
  have p: "books c xs ?p" using books_highest [OF b(1), of e] new by simp
  show ?thesis
  proof (cases "pg_engine p \<noteq> None \<or> pg_owner p \<noteq> None")
    case True
    then show ?thesis using p books_fail [OF p b(2)] by (simp add: spawnEngine_def)
  next
    case False
    let ?w = "pg_next p"
    have c: "\<not> (pg_engine ?p \<noteq> None \<or> pg_owner ?p \<noteq> None)" "pg_next ?p = ?w" using False by simp_all
    define p1 where "p1 = say (Engine_Spawned ?w e) (?p\<lparr>pg_next := ?w + 3, pg_engine := Some ?w, pg_owner := Some e\<rparr>)"
    have p1: "books c xs p1"
    proof -
      have r: "forwarded p1 = forwarded p" "spawned p1 = spawned p @ [(?w, e)]"
        by (simp_all add: forwarded_def spawned_def p1_def say_def)
      have "answered p1 q" if "answered p q" for q
        using that unfolding answered_def r by (auto simp: p1_def say_def)
      moreover have "stopped p1 w" if "stopped p w" for w
        using that False by (auto simp: stopped_def p1_def say_def)
      moreover have "stopped p1 ?w" by (simp add: stopped_def p1_def say_def)
      moreover have "increasing p1"
        using b(1) new unfolding books_def increasing_def r by (fastforce simp: p1_def say_def sorted_wrt_append)
      moreover have "settled_once p1" "in_order xs p1"
        using b(1) unfolding books_def settled_once_def in_order_def r by (simp_all add: p1_def say_def)
      moreover have "posted_ok p1"
        using b(1) wf(2) by (auto simp: books_def posted_ok_def named_def p1_def say_def)
      ultimately show ?thesis using b(1) by (auto simp: books_def r)
    qed
    define send where "send = (\<lambda>q.
        let (sent, p3) = postCoordinator env (Attach_Engine_Port (pg_tab q) e (JPort (?w + 1))) [JPort (?w + 1)] q
        in if \<not> sent then (None, closeEndpoint (JPort (?w + 2)) p3)
           else (None :: js_string option, case pe_post_engine env of
               None \<Rightarrow> say (To_Engine ?w (Activate_Engine sc' (pg_tab p3) e a lock hot')) p3
             | Some err \<Rightarrow> failTerminal env err (closeEndpoint (JPort (?w + 2)) p3)))"
    have send: "books c xs (snd (send q))" if "books c xs q" for q
      using books_post [OF that b(2) books_fits(2) [OF that wf(2)], of "JPort (?w + 1)" "[JPort (?w + 1)]"]
        books_fail b(2) wf
      by (simp add: send_def case_prod_beta books_endpoint books_say books_activate split: option.split)
    have thens: "books c xs (snd (and_then (and_then (notify env (Owner_Changed (Some e)))
        (notify env (Worker_Created ?w e))) send p1))"
      by (intro and_then_inv [where P = "books c xs"]) (simp_all add: books_notify send p1)
    have eq: "spawnEngine env sc' e a lock hot' ?p = (case pe_create_engine env of
        Some err \<Rightarrow> (Some err, ?p)
      | None \<Rightarrow> and_then (and_then (notify env (Owner_Changed (Some e))) (notify env (Worker_Created ?w e)))
          send p1)"
      unfolding spawnEngine_def if_not_P [OF c(1)] c(2) Let_def p1_def send_def by (rule refl)
    show ?thesis
      using p thens unfolding eq by (simp del: and_then.simps split: option.split)
  qed
qed

lemma books_receive:
  assumes inv: "page_inv sc t hot p" "pg_connection p \<noteq> None" and b: "books c xs p" "c \<Longrightarrow> calm_env env"
    and wf: "wf_coordinator_to_tab message"
  shows "books c xs (snd (receive env message p))"
proof -
  note f = books_fail [OF b] and tm = books_terminate [OF b]
  note ft = books_fail [OF tm b(2)]
  show ?thesis
  proof (cases message)
    case (Registered x)
    then show ?thesis using books_registered [OF inv b] f by simp
  next
    case (Become_Owner s x e a l h)
    then show ?thesis using books_spawn [OF b] f wf by (auto simp: not_le)
  next
    case (Cache_Message m)
    then show ?thesis using b by (simp add: books_emit)
  next
    case (Terminate_Engine x e reason)
    then show ?thesis using f tm ft wf by (simp add: case_prod_beta)
  next
    case (Retire_Complete x e)
    then show ?thesis using f tm ft books_finish by (simp add: case_prod_beta)
  next
    case (Engine_Replaced e)
    have "books c xs (p\<lparr>pg_replaced := e, pg_highest := max (pg_highest p) e\<rparr>)"
      using books_highest [of c xs "p\<lparr>pg_replaced := e\<rparr>"] b by simp
    then show ?thesis using Engine_Replaced b by (simp add: books_notify)
  next
    case (Protocol_Error err)
    then show ?thesis using b f by (simp add: books_notify)
  qed
qed

lemma books_message:
  assumes inv: "page_inv sc t hot p" "pg_connection p \<noteq> None" and b: "books c xs p" "c \<Longrightarrow> calm_env env"
  shows "books c xs (onCoordinatorMessage env raw p)"
proof -
  have "books c xs (snd (handleCoordinatorMessage env raw p))"
    using books_receive [OF assms] page_codec.validate_wf [of raw] books_fail [OF b]
    by (simp add: handleCoordinatorMessage_def split: sum.split)
  then show ?thesis
    using books_fail b(2) by (auto simp: onCoordinatorMessage_def split: prod.split option.split)
qed

lemma books_engine_error:
  assumes "books c xs p" "c \<Longrightarrow> calm_env env" "reason \<noteq> []" shows "books c xs (engineError env reason p)"
  using assms books_terminate [OF assms] books_fail [OF books_terminate [OF assms] assms(2)]
  by (simp add: engineError_def Let_def split: option.split)

section \<open>The books of a run\<close>

fun valid_of :: "page_event \<Rightarrow> jsval list" where
  "valid_of (Post_Message req) = (if isCacheRequest req then [req] else [])"
| "valid_of _ = []"

definition submitted :: "(page_env \<times> page_event) list \<Rightarrow> jsval list" where
  "submitted es = concat (List.map (valid_of \<circ> snd) es)"

lemma books_step:
  assumes inv: "page_inv sc t hot p" and b: "books c xs p" "c \<Longrightarrow> calm_env env"
  shows "books c (xs @ valid_of ev) (snd (page_step (env, ev) p))"
proof (cases ev)
  case (Post_Message req)
  then show ?thesis
    using books_valid [OF inv b, of req] books_invalid [OF b(1), of req env] by simp
qed (use b in \<open>simp_all add: books_start books_dispose books_rejected books_lock viaConnection_def
    viaEngine_def message_or_def books_message [OF inv] books_fail books_engine_error books_timeout\<close>)

lemma books_initial:
  "sc \<noteq> [] \<Longrightarrow> t \<noteq> [] \<Longrightarrow> wf_hot hot \<Longrightarrow> books c [] (initial_page sc t hot)"
  by (simp add: initial_page_def books_defs)

lemma books_run:
  assumes "page_inv sc t hot p" "books c xs p" "c \<Longrightarrow> \<forall>(env, ev) \<in> set es. calm_env env"
  shows "books c (xs @ submitted es) (snd (run page_step es p))"
  using assms
proof (induction es arbitrary: p xs)
  case (Cons e es)
  obtain env ev where e: "e = (env, ev)" by fastforce
  have "page_inv sc t hot (snd (page_step e p))" using Cons.prems(1) by (rule page_step_inv)
  moreover have "books c (xs @ valid_of ev) (snd (page_step e p))"
    using books_step [OF Cons.prems(1,2), of env ev] Cons.prems(3) by (simp add: e)
  ultimately have "books c ((xs @ valid_of ev) @ submitted es) (snd (run page_step es (snd (page_step e p))))"
    by (rule Cons.IH) (use Cons.prems(3) in auto)
  then show ?case by (simp add: submitted_def e case_prod_beta)
qed (simp add: submitted_def)

end
