(* ===== verification/Page_Theorems.thy ===== *)
theory Page_Theorems
  imports Page_Books
begin

text \<open>
  The properties of the page adapter, over every sequence of calls of its client, messages of the
  coordinator, lock results, worker errors and timers, and every behaviour of the browser and of
  the client's callbacks.
\<close>

section \<open>Runs of a new adapter\<close>

lemma new_page_ok:
  assumes "new_page sc hot t = Inr p0"
  shows "p0 = initial_page sc t (the_opt the_nat hot)" "sc \<noteq> []" "wf_hot (the_opt the_nat hot)"
proof -
  show "p0 = initial_page sc t (the_opt the_nat hot)" "sc \<noteq> []"
    using assms by (auto simp: new_page_def split: if_splits)
  have "hot = JUndef \<or> is_safe_integer hot \<and> 0 < the_int hot"
    using assms by (auto simp: new_page_def split: if_splits)
  then have "isOptionalPositiveInteger hot"
    by (auto simp: isOptionalPositiveInteger_def isPositiveInteger_def)
  then show "wf_hot (the_opt the_nat hot)" by (rule isOptionalPositiveInteger_wf)
qed

lemma new_page_inv:
  assumes "new_page sc hot t = Inr p0"
  shows "page_inv sc t (the_opt the_nat hot) (snd (run page_step es p0))"
proof -
  have "reachable page_step (\<lambda>_. True) p0 (snd (run page_step es p0))"
    by (rule run_reachable) (simp add: list_all_iff)
  then show ?thesis using new_page_ok(1) [OF assms] pages.inv_reachable by blast
qed

lemma new_page_books:
  assumes "new_page sc hot t = Inr p0" "t \<noteq> []" "c \<Longrightarrow> \<forall>(env, ev) \<in> set es. calm_env env"
  shows "books c (submitted es) (snd (run page_step es p0))"
proof -
  have "books c [] p0" using new_page_ok [OF assms(1)] assms(2) books_initial by blast
  moreover have "page_inv sc t (the_opt the_nat hot) p0" using new_page_inv [OF assms(1), of "[]"] by simp
  ultimately show ?thesis using books_run [of sc t _ p0 c "[]" es] assms(3) by simp
qed

section \<open>A sample run\<close>

definition page_env0 :: page_env where
  "page_env0 = \<lparr> pe_now = 7, pe_sharedWorker = True, pe_worker = True, pe_channel = True, pe_locks = True,
     pe_events = True, pe_create_shared = None, pe_open = None, pe_send = (\<lambda>_. None),
     pe_create_engine = None, pe_post_engine = None, pe_detach = None, pe_detach_message = None,
     pe_terminate = None, pe_callback = (\<lambda>_. None) \<rparr>"

definition clear_request :: "int \<Rightarrow> jsval" where
  "clear_request n = JObj [(js ''id'', JInt n), (js ''kind'', JStr (js ''clear''))]"

definition page_scope :: js_string where "page_scope = js ''scope''"
definition page_tab :: js_string where "page_tab = js ''tab''"

definition registered_raw :: jsval where
  "registered_raw = encode_coordinator_to_tab (Registered page_tab)"

definition owner_raw :: jsval where
  "owner_raw = encode_coordinator_to_tab (Become_Owner page_scope page_tab 1 Open_Existing (js ''lock'') None)"

text \<open>A page that starts, queues two requests, registers, becomes the owner and drains.\<close>

definition page_events :: "(page_env \<times> page_event) list" where
  "page_events = List.map (Pair page_env0)
     [Start, Post_Message (clear_request 1), Post_Message (clear_request 2), Lock_Settled Lock_Acquired,
      From_Coordinator 0 registered_raw, From_Coordinator 0 owner_raw]"

definition closing_events :: "(page_env \<times> page_event) list" where
  "closing_events = List.map (Pair page_env0)
     [Start, Post_Message (clear_request 1), Post_Message (clear_request 2), Dispose True False]"

lemma page_names [simp]: "page_scope \<noteq> []" "page_tab \<noteq> []"
  by (simp_all add: page_scope_def page_tab_def)

lemma clear_request_valid [simp]:
  "isCacheRequest (clear_request 1)" "isCacheRequest (clear_request 2)"
  by (simp_all add: clear_request_def isCacheRequest_def commonRequest_def kind_is_def isBareRequest_def
      max_safe_integer_def isSafeNonNegativeInteger_def)

lemma new_page_sample: "new_page page_scope JUndef page_tab = Inr (initial_page page_scope page_tab None)"
  by (simp add: new_page_def the_opt_def)


lemma raw_valid [simp]:
  "validateCoordinatorToTabEnvelope registered_raw = Inr (Registered page_tab)"
  "validateCoordinatorToTabEnvelope owner_raw =
     Inr (Become_Owner page_scope page_tab 1 Open_Existing (js ''lock'') None)"
  unfolding registered_raw_def owner_raw_def
  by (rule page_codec.decode_encode, simp add: wf_id_def max_safe_integer_def)+

lemmas page_eval = start_def connect_def say_def postMessage_def lockSettled_def lockWait_def openCoordinator_def
  postCoordinator_def viaConnection_def onCoordinatorMessage_def handleCoordinatorMessage_def registeredNow_def
  registerPagehide_def spawnEngine_def notify_def emitMessage_def page_env0_def initial_page_def

lemma page_events_run:
  "forwarded (snd (run page_step page_events (initial_page page_scope page_tab None))) =
     [clear_request 1, clear_request 2]"
  by (simp add: page_events_def page_eval forwarded_def Let_def)

section \<open>A disposal is never undone\<close>

lemma fold_disposing [simp]: "pg_disposing (fold closeEndpoint ports p) = pg_disposing p"
  by (induction ports arbitrary: p) (simp_all add: closeEndpoint_def)

lemma drop_disposing [simp]: "pg_disposing (snd (dropEngine env e reason w p)) = pg_disposing p"
  by (rule dropEngine_obtain [of env e reason w p]) simp

lemma wound_up_disposing [simp]: "pg_disposing (wound_up err p) = pg_disposing p"
  by (simp add: wound_up_def page_ops Let_def say_def split: option.split)

lemma fail_disposing [simp]: "pg_disposing (failTerminal env err p) = pg_disposing p"
  unfolding failTerminal_def Let_def wound_up_def [symmetric]
  by (simp add: clearGracefulTimeout_def split: option.split)

lemma post_disposing [simp]: "pg_disposing (snd (postCoordinator env m ports p)) = pg_disposing p"
  by (simp add: postCoordinator_def Let_def split: option.split)

lemma terminate_disposing [simp]:
  "pg_disposing (snd (terminateEngine env e reason loss p)) = pg_disposing p"
  using drop_disposing [of env e reason "the (pg_engine p)" p]
  by (auto simp: terminateEngine_def case_prod_beta split: option.split)

lemma finish_disposing [simp]: "pg_disposing (finishDispose p) = pg_disposing p"
  unfolding finishDispose_def wound_up_def [symmetric] by (simp add: clearGracefulTimeout_def)

lemma leave_disposing [simp]:
  "pg_disposing (departForNavigation_p env reason p) = pg_disposing p"
  "pg_disposing (abortDispose env reason p) = pg_disposing p"
  "pg_disposing (disposeUnconnected p) = pg_disposing p"
  "pg_disposing (beginGraceful env e p) = pg_disposing p"
  "pg_disposing (gracefulTimedOut env p) = pg_disposing p"
  by (simp_all add: departForNavigation_p_def abortDispose_def disposeUnconnected_def beginGraceful_def
      gracefulTimedOut_def Let_def clearGracefulTimeout_def case_prod_beta page_ops say_def
      split: option.split)

lemma dispose_disposing: "pg_disposing (dispose env graceful preserve p)"
  by (simp add: dispose_def disposeAgain_def Let_def settleDispose_def split: option.split bool.split)

section \<open>Properties\<close>

text \<open>
  C13: A closed adapter holds nothing: no connection, engine or epoch, no liveness lock, no armed
  timeout, no queued request and no unsettled promise, whatever threw on the way.
\<close>

theorem page_closed_holds_nothing:
  assumes "new_page sc hot t = Inr p0" and "p = snd (run page_step es p0)" and "pg_closed p"
  shows "pg_connection p = None \<and> pg_engine p = None \<and> pg_owner p = None \<and> \<not> pg_liveness p \<and>
    pg_timeout p = None \<and> pg_queued p = [] \<and> \<not> pg_registration p \<and> \<not> pg_registered p \<and> \<not> pg_settle p"
  using new_page_inv [OF assms(1), of es] assms(2,3)
  by (auto simp: page_inv_def opened_def shut_def vacant_def)

theorem page_closed_holds_nothing_witness:
  "pg_queued (snd (run page_step closing_events (initial_page page_scope page_tab None))) = []"
  using page_closed_holds_nothing [OF new_page_sample refl, of closing_events]
  by (simp add: closing_events_def page_eval dispose_def disposeUnconnected_def page_ops Let_def)

text \<open>
  C14: A call of \<open>dispose\<close>, in any state and of any urgency, settles: either at once or when the graceful
  timeout fires, the adapter is closed and \<open>dispose\<close>'s promise has been resolved exactly once.
\<close>

theorem page_dispose_settles:
  assumes "new_page sc hot t = Inr p0" and "t \<noteq> []"
    and "es = fs @ [(env, Dispose graceful preserve), (env', Graceful_Timeout)]"
  shows "pg_closed (snd (run page_step es p0)) \<and>
    count_list (pg_out (snd (run page_step es p0))) Dispose_Settled = 1"
proof -
  let ?p = "snd (run page_step (fs @ [(env, Dispose graceful preserve)]) p0)"
  let ?q = "snd (run page_step es p0)"
  have es: "es = (fs @ [(env, Dispose graceful preserve)]) @ [(env', Graceful_Timeout)]"
    using assms(3) by simp
  have q: "?q = gracefulTimedOut env' ?p" unfolding es snd_run_snoc by simp
  have p: "page_inv sc t (the_opt the_nat hot) ?p" by (rule new_page_inv [OF assms(1)])
  have d: "pg_disposing ?p" by (simp add: snd_run_snoc dispose_disposing)
  have "shut ?q"
  proof (cases "opened ?p")
    case True
    then have "pg_timeout ?p \<noteq> None" using d by (simp add: opened_def dispose_ok_def)
    then show ?thesis using gracefulTimedOut_inv [OF p] q by simp
  next
    case False
    then have "shut ?p" using p by (simp add: page_inv_def)
    then show ?thesis by (simp add: q gracefulTimedOut_def shut_def)
  qed
  moreover have "settled_once ?q" using new_page_books [OF assms(1,2), of False es] by (simp add: books_def)
  moreover have "pg_disposing ?q" using d by (simp add: q)
  ultimately show ?thesis by (simp add: shut_def settled_once_def)
qed

theorem page_dispose_settles_witness:
  "pg_closed (snd (run page_step (page_events @ [(page_env0, Dispose True False), (page_env0, Graceful_Timeout)])
     (initial_page page_scope page_tab None)))"
  using page_dispose_settles [OF new_page_sample, of _ page_events page_env0 True False page_env0] by simp

text \<open>
  C15: Requests leave in the order they came: as long as the adapter is open, the requests sent to the
  coordinator followed by the queued ones are exactly the valid requests submitted; a closed adapter
  has sent a prefix of them. None is sent twice, invented or reordered.
\<close>

theorem page_forwards_in_order:
  assumes "new_page sc hot t = Inr p0" and "t \<noteq> []" and "p = snd (run page_step es p0)"
  shows "if pg_closed p then prefix (forwarded p) (submitted es)
    else forwarded p @ pg_queued p = submitted es"
  using new_page_books [OF assms(1,2), of False es] assms(3) by (simp add: books_def in_order_def)

theorem page_forwards_in_order_witness:
  "prefix (forwarded (snd (run page_step page_events (initial_page page_scope page_tab None))))
     [clear_request 1, clear_request 2]"
proof -
  have "submitted page_events = [clear_request 1, clear_request 2]"
    by (simp add: page_events_def submitted_def)
  then show ?thesis
    using page_forwards_in_order [OF new_page_sample page_names(2) refl, of page_events]
    by (auto simp: prefix_def split: if_splits simp del: run.simps dest: sym)
qed




text \<open>
  An adapter runs at most one engine worker, with ever newer epochs: the epochs of the workers
  it spawns strictly increase, and, unless \<open>Worker.terminate\<close> or a callback throws, every worker it
  ever spawned has been terminated, except the current one.
\<close>

theorem page_one_worker:
  assumes "new_page sc hot t = Inr p0" and "t \<noteq> []" and "p = snd (run page_step es p0)"
  shows "sorted_wrt (<) (List.map snd (spawned p)) \<and>
    ((\<forall>(env, ev) \<in> set es. calm_env env) \<longrightarrow>
      (\<forall>(w, e) \<in> set (spawned p). pg_engine p = Some w \<or> Engine_Terminated w \<in> set (pg_out p)))"
  using new_page_books [OF assms(1,2), of False es] new_page_books [OF assms(1,2), of True es] assms(3)
  by (auto simp: books_def increasing_def stopped_def)

theorem page_one_worker_witness:
  "sorted_wrt (<) (List.map snd (spawned (snd (run page_step page_events
     (initial_page page_scope page_tab None)))))"
  using page_one_worker [OF new_page_sample _ refl, of page_events] by simp

text \<open>
  C17: Every message the adapter posts is received as it was sent: the coordinator's validator decodes
  its wire form to the same message, which names the adapter's own tab, and the engine's validator that
  of an activation.
\<close>

theorem page_posts_accepted:
  assumes "new_page sc hot t = Inr p0" and "t \<noteq> []" and "out \<in> set (pg_out (snd (run page_step es p0)))"
  shows "case out of
      To_Coordinator h message \<Rightarrow>
        validateTabToCoordinatorEnvelope (encode_tab_to_coordinator message) = Inr message \<and> tc_tab message = t
    | To_Engine w message \<Rightarrow> validatePageToEngineEnvelope (encode_page_to_engine message) = Inr message
    | _ \<Rightarrow> True"
proof -
  let ?p = "snd (run page_step es p0)"
  have "books False (submitted es) ?p" using new_page_books [OF assms(1,2), of False es] by simp
  moreover have "pg_tab ?p = t" using new_page_inv [OF assms(1), of es] by (simp add: page_inv_def fixed_def)
  ultimately have "proper t out" using assms(3) by (auto simp: books_def posted_ok_def)
  then show ?thesis
  proof (cases out)
    case (To_Engine w message)
    then have "wf_page_to_engine message"
      using \<open>proper t out\<close> by (cases message) simp
    then show ?thesis using To_Engine by (simp add: activation_codec.decode_encode)
  qed (simp_all add: tab_codec.decode_encode)
qed

lemma page_events_posts:
  "To_Engine 1 (Activate_Engine page_scope page_tab 1 Open_Existing (js ''lock'') None) \<in>
     set (pg_out (snd (run page_step page_events (initial_page page_scope page_tab None))))"
  by (simp add: page_events_def page_eval Let_def)

theorem page_posts_accepted_witness:
  "validatePageToEngineEnvelope (encode_page_to_engine
     (Activate_Engine page_scope page_tab 1 Open_Existing (js ''lock'') None)) =
   Inr (Activate_Engine page_scope page_tab 1 Open_Existing (js ''lock'') None)"
  using page_posts_accepted [OF new_page_sample page_names(2) page_events_posts] by simp

end
