(* ===== verification/Protocol_Theorems.thy ===== *)
theory Protocol_Theorems
  imports Coord_Codec Coord_Core
begin

text \<open>
  The properties of the wire protocol: cache revisions, search arguments, and the five envelope
  types with their validators.
\<close>

section \<open>Decimal numbers\<close>

lemma unat_digit: "n < 10 \<Longrightarrow> unat (unit_of (char_of (48 + n))) = 48 + n"
  for n :: nat
  by (simp add: unat_unit_of of_char_mod_256)

lemma decimal_value_snoc: "decimal_value (s @ [u]) = 10 * decimal_value s + (unat u - 48)"
  by (simp add: decimal_value_def)

lemma decimal_value_show: "decimal_value (js_nat n) = n"
proof (induction n rule: show_nat.induct)
  case (1 n)
  show ?case
  proof (cases "n < 10")
    case True
    then show ?thesis
      by (simp add: js_nat_def js_def show_nat.simps [of n] decimal_value_def unat_digit)
  next
    case False
    then have "js_nat n = js_nat (n div 10) @ [unit_of (char_of (48 + n mod 10))]"
      by (simp add: js_nat_def js_def show_nat.simps [of n])
    then show ?thesis
      using 1 False by (simp add: decimal_value_snoc unat_digit)
  qed
qed

lemma js_nat_inject: "js_nat m = js_nat n \<longleftrightarrow> m = n"
  by (metis decimal_value_show)

lemma js_nat_zero: "js_nat 0 = js ''0''"
proof -
  have "char_of (48 :: nat) = CHR ''0''"
    using char_of_char [of "CHR ''0''", where 'a = nat] by (simp del: char_of_char)
  then show ?thesis by (simp add: js_nat_def show_nat.simps)
qed

lemma canonical_show: "canonical_decimal (js_nat n)"
proof (induction n rule: show_nat.induct)
  case (1 n)
  have digit: "is_digit (unit_of (char_of (48 + k)))" if "k < 10" for k :: nat
    using that by (simp add: is_digit_def unat_digit)
  show ?case
  proof (cases "n < 10")
    case True
    then have "js_nat n = [unit_of (char_of (48 + n))]"
      by (simp add: js_nat_def js_def show_nat.simps [of n])
    then show ?thesis
      using True digit [of n]
      by (cases "n = 0") (simp_all add: canonical_decimal_def unat_digit flip: js_nat_zero)
  next
    case False
    then have eq: "js_nat n = js_nat (n div 10) @ [unit_of (char_of (48 + n mod 10))]"
      by (simp add: js_nat_def js_def show_nat.simps [of n])
    have "js_nat (n div 10) \<noteq> js ''0''"
    proof
      assume "js_nat (n div 10) = js ''0''"
      moreover have "js ''0'' = js_nat 0" by (simp add: js_nat_zero)
      ultimately show False using False js_nat_inject by simp
    qed
    then show ?thesis
      using 1 False digit [of "n mod 10"] unfolding eq canonical_decimal_def
      by (auto split: list.splits)
  qed
qed

lemma js_nat_step: "10 \<le> n \<Longrightarrow> js_nat n = js_nat (n div 10) @ [unit_of (char_of (48 + n mod 10))]"
  by (simp add: js_nat_def js_def show_nat.simps [of n])

lemma js_nat_digit: "n < 10 \<Longrightarrow> js_nat n = [unit_of (char_of (48 + n))]"
  by (simp add: js_nat_def js_def show_nat.simps [of n])

lemma digit_unit: "is_digit u \<Longrightarrow> unit_of (char_of (48 + (unat u - 48))) = u"
  by (rule word_unat_eq_iff [THEN iffD2]) (auto simp: is_digit_def unat_unit_of of_char_mod_256)

lemma canonical_value_pos:
  assumes "canonical_decimal s" "s \<noteq> js ''0''" shows "0 < decimal_value s"
proof -
  obtain u us where s: "s = u # us" "is_digit u" "unat u \<noteq> 48"
    using assms by (auto simp: canonical_decimal_def split: list.splits)
  have "foldl (\<lambda>n u. 10 * n + (unat u - 48)) k vs > 0" if "0 < k" for k :: nat and vs :: js_string
    using that by (induction vs arbitrary: k) auto
  then show ?thesis using s by (simp add: decimal_value_def is_digit_def)
qed

lemma canonical_is_show: "canonical_decimal s \<Longrightarrow> s = js_nat (decimal_value s)"
proof (induction s rule: rev_induct)
  case Nil
  then show ?case by (simp add: canonical_decimal_def)
next
  case (snoc u t)
  have u: "is_digit u"
    using snoc.prems by (cases t) (auto simp: canonical_decimal_def is_digit_def js_def unat_unit_of)
  show ?case
  proof (cases "t = []")
    case True
    then show ?thesis
      using u digit_unit [OF u] js_nat_digit [of "unat u - 48"] by (auto simp: decimal_value_def is_digit_def)
  next
    case False
    have t: "canonical_decimal t" "t \<noteq> js ''0''"
      using snoc.prems False by (auto simp: canonical_decimal_def js_def unat_unit_of split: list.splits)
    have v: "decimal_value (t @ [u]) = 10 * decimal_value t + (unat u - 48)" "unat u - 48 < 10"
      using u by (auto simp: decimal_value_snoc is_digit_def)
    then have "10 \<le> decimal_value (t @ [u])" using canonical_value_pos [OF t] by simp
    moreover have "decimal_value (t @ [u]) div 10 = decimal_value t"
      "decimal_value (t @ [u]) mod 10 = unat u - 48" using v by simp_all
    ultimately show ?thesis
      using js_nat_step snoc.IH [OF t(1)] digit_unit [OF u] by simp
  qed
qed

section \<open>Properties\<close>

text \<open>
  C18: A value is a cache revision exactly when it is the decimal text of a number of at most 64 bits,
  and two revisions are equal as texts exactly when they are equal as numbers, so that comparing
  the strings for equality compares the revisions.
\<close>

theorem cache_revision_iff:
  "isCacheRevision v = (\<exists>n \<le> max_cache_revision. v = JStr (js_nat n)) \<and>
   (isCacheRevision (JStr s) \<and> isCacheRevision (JStr t) \<longrightarrow>
     (s = t) = (decimal_value s = decimal_value t))"
proof (intro conjI impI)
  show "isCacheRevision v = (\<exists>n \<le> max_cache_revision. v = JStr (js_nat n))"
    by (cases v) (auto simp: canonical_show decimal_value_show dest: canonical_is_show)
  show "(s = t) = (decimal_value s = decimal_value t)"
    if "isCacheRevision (JStr s) \<and> isCacheRevision (JStr t)"
    using that canonical_is_show [of s] canonical_is_show [of t] by (metis isCacheRevision.simps(1))
qed

theorem cache_revision_iff_witness:
  "(js ''10'' = js_nat 10) = (decimal_value (js ''10'') = decimal_value (js_nat 10))"
proof -
  have "isCacheRevision (JStr (js ''10''))" "isCacheRevision (JStr (js_nat 10))"
    by (simp_all add: canonical_decimal_def js_nat_def js_def is_digit_def unat_unit_of show_nat.simps
        decimal_value_def max_cache_revision_def)
  then show ?thesis using cache_revision_iff [of JUndef "js ''10''" "js_nat 10"] by simp
qed

section \<open>Requests under a route identifier\<close>

lemma own_with_id:
  "getp (with_id r n) f = (if f = ''id'' then JInt n else getp r f)"
  "has_own (with_id r n) f = (f = ''id'' \<or> has_own r f)"
  "''id'' \<in> set ks \<Longrightarrow> only_keys (with_id r n) ks = only_keys r ks"
  "is_record (with_id r n)"
  by (simp_all add: with_id_def) (simp_all add: getp_def has_own_def only_keys_def)

lemma only_id: "only_keys (with_id r n) (''id'' # ks) = only_keys r (''id'' # ks)"
  by (simp add: own_with_id)

lemmas request_kinds = isInitRequest_def isBareRequest_def isReadRequest_def isWriteRequest_def
  isHydrateRequest_def isEnqueueRequest_def isClaimRequest_def isDeferRequest_def isCommitRequest_def
  isRollbackRequest_def isReadRecordsRequest_def isSearchCacheRequest_def isEntityFilterRequest_def
  isInspectQueryRequest_def isInspectVariantsRequest_def isTeardownRequest_def isKeysRequest_def
  Let_def

lemma isCacheRequest_common: "isCacheRequest r \<Longrightarrow> is_record r \<and> commonRequest r"
  by (rule ccontr) (simp add: isCacheRequest_def)

lemma with_id_request:
  assumes "isCacheRequest r" "0 \<le> n" "n \<le> max_safe_integer"
  shows "isCacheRequest (with_id r n)"
proof -
  have fields: "operation_fields (with_id r n) = operation_fields r" "lease_fields (with_id r n) = lease_fields r"
    by (simp_all add: operation_fields_def lease_fields_def own_with_id)
  have same:
    "isInitRequest (with_id r n) = isInitRequest r"
    "isBareRequest (with_id r n) = isBareRequest r"
    "isReadRequest (with_id r n) = isReadRequest r"
    "isWriteRequest (with_id r n) = isWriteRequest r"
    "isHydrateRequest (with_id r n) = isHydrateRequest r"
    "isEnqueueRequest (with_id r n) = isEnqueueRequest r"
    "isClaimRequest (with_id r n) = isClaimRequest r"
    "isDeferRequest (with_id r n) = isDeferRequest r"
    "isCommitRequest (with_id r n) = isCommitRequest r"
    "isRollbackRequest (with_id r n) = isRollbackRequest r"
    "isReadRecordsRequest (with_id r n) = isReadRecordsRequest r"
    "isSearchCacheRequest (with_id r n) = isSearchCacheRequest r"
    "isEntityFilterRequest (with_id r n) = isEntityFilterRequest r"
    "isInspectQueryRequest (with_id r n) = isInspectQueryRequest r"
    "isInspectVariantsRequest (with_id r n) = isInspectVariantsRequest r"
    "isTeardownRequest (with_id r n) = isTeardownRequest r"
    "isKeysRequest (with_id r n) = isKeysRequest r"
    by (simp_all add: request_kinds own_with_id(1,2) only_id fields)
  have "kind_is (with_id r n) k = kind_is r k" for k by (simp add: kind_is_def own_with_id)
  moreover have "commonRequest (with_id r n)"
    using isCacheRequest_common [OF assms(1)] assms(2,3)
    by (simp add: commonRequest_def own_with_id isSafeNonNegativeInteger_def)
  ultimately have "isCacheRequest (with_id r n) = isCacheRequest r"
    using isCacheRequest_common [OF assms(1)] unfolding isCacheRequest_def
    by (simp only: own_with_id(4) same simp_thms if_False)
  then show ?thesis using assms(1) by simp
qed

text \<open>
  What the coordinator routes, the engine accepts: a valid request rewritten to a route identifier
  is a valid request, and the envelope that carries it decodes, at the engine, to the same epoch,
  route and request.
\<close>

theorem routed_request_accepted:
  assumes "isCacheRequest r" and "wf_id e" and "wf_id n"
  shows "isCacheRequest (with_id r (int n)) \<and>
    validateCoordinatorToEngineEnvelope
      (encode_coordinator_to_engine (Engine_Request e n (with_id r (int n)))) =
    Inr (Engine_Request e n (with_id r (int n)))"
proof -
  have r: "isCacheRequest (with_id r (int n))"
    using with_id_request [OF assms(1), of "int n"] assms(3) by (simp add: wf_id_def)
  then have "wf_coordinator_to_engine (Engine_Request e n (with_id r (int n)))"
    using assms by (simp add: own_with_id jnat_def)
  then show ?thesis using r by (simp only: engine_codec.decode_encode simp_thms)
qed

definition bare_clear :: jsval where
  "bare_clear = JObj [(js ''kind'', JStr (js ''clear'')), (js ''id'', JInt 4)]"

lemma bare_clear_valid: "isCacheRequest bare_clear"
  by (simp add: bare_clear_def isCacheRequest_def commonRequest_def kind_is_def isBareRequest_def
      max_safe_integer_def isSafeNonNegativeInteger_def)

theorem routed_request_accepted_witness:
  "isCacheRequest (with_id bare_clear 9)"
  using routed_request_accepted [OF bare_clear_valid, of 1 9] by (simp add: wf_id_def max_safe_integer_def)

section \<open>Envelopes\<close>

text \<open>
  C20: Every well-formed message of the five envelope types survives the wire: its receiver's validator
  decodes its JavaScript object to exactly that message.
\<close>

theorem envelopes_round_trip:
  "(wf_tab_to_coordinator m1 \<longrightarrow> validateTabToCoordinatorEnvelope (encode_tab_to_coordinator m1) = Inr m1) \<and>
   (wf_coordinator_to_tab m2 \<longrightarrow> validateCoordinatorToTabEnvelope (encode_coordinator_to_tab m2) = Inr m2) \<and>
   (wf_page_to_engine m3 \<longrightarrow> validatePageToEngineEnvelope (encode_page_to_engine m3) = Inr m3) \<and>
   (wf_coordinator_to_engine m4 \<longrightarrow>
      validateCoordinatorToEngineEnvelope (encode_coordinator_to_engine m4) = Inr m4) \<and>
   (wf_engine_to_coordinator m5 \<longrightarrow>
      validateEngineToCoordinatorEnvelope (encode_engine_to_coordinator m5) = Inr m5)"
  using tab_codec.decode_encode page_codec.decode_encode activation_codec.decode_encode
    engine_codec.decode_encode coordinator_codec.decode_encode by blast

theorem envelopes_round_trip_witness:
  "validateCoordinatorToEngineEnvelope (encode_coordinator_to_engine (Heartbeat 3 4)) = Inr (Heartbeat 3 4)"
  using envelopes_round_trip [of undefined undefined undefined "Heartbeat 3 4" undefined]
  by (simp add: wf_id_def max_safe_integer_def del: encode_coordinator_to_engine.simps)

text \<open>
  No validator lets an ill-formed message through: whatever value arrives, a message it accepts has
  non-empty identities and reasons, positive safe-integer epochs, routes and heartbeats, valid
  requests, responses and pushes, and a response never claims one of the coordinator's own errors.
\<close>

theorem accepted_envelopes_well_formed:
  "(\<forall>m. validateTabToCoordinatorEnvelope v = Inr m \<longrightarrow> wf_tab_to_coordinator m) \<and>
   (\<forall>m. validateCoordinatorToTabEnvelope v = Inr m \<longrightarrow> wf_coordinator_to_tab m) \<and>
   (\<forall>m. validatePageToEngineEnvelope v = Inr m \<longrightarrow> wf_page_to_engine m) \<and>
   (\<forall>m. validateCoordinatorToEngineEnvelope v = Inr m \<longrightarrow> wf_coordinator_to_engine m) \<and>
   (\<forall>m. validateEngineToCoordinatorEnvelope v = Inr m \<longrightarrow> wf_engine_to_coordinator m)"
  using tab_codec.validate_wf page_codec.validate_wf activation_codec.validate_wf
    engine_codec.validate_wf coordinator_codec.validate_wf by blast

theorem accepted_envelopes_well_formed_witness:
  "wf_coordinator_to_engine (Heartbeat 3 4)"
proof -
  have "validateCoordinatorToEngineEnvelope (encode_coordinator_to_engine (Heartbeat 3 4)) = Inr (Heartbeat 3 4)"
    by (rule engine_codec.decode_encode) (simp add: wf_id_def max_safe_integer_def)
  then show ?thesis using accepted_envelopes_well_formed by blast
qed

section \<open>Search arguments\<close>

lemma list_ex_not: "\<not> list_ex (\<lambda>x. \<not> P x) xs \<longleftrightarrow> list_all P xs"
  by (simp add: list_all_iff list_ex_iff)

lemma get_or_default: "getp (JObj (AList.update (js k) (or_default (getp a k) d) fs)) k = or_default (getp a k) d"
  by simp

lemma update_same: "getp (JObj fs) k = v \<Longrightarrow> v \<noteq> JUndef \<Longrightarrow> AList.update (js k) v fs = fs"
  by (rule AList.update_triv) (simp add: getp_def split: option.splits)

text \<open>
  C19: Validated search arguments are in bounds, and final: the limit is between 1 and 500, the query has
  at most 512 bytes of UTF-8, the engine worker accepts them as a search request, and validating them
  again, at any later time, changes nothing.
\<close>

theorem search_args_validated:
  assumes "validateCacheSearchArgs now args = Inr r"
    and "only_keys args [''profile'', ''buckets'', ''query'', ''cursor'', ''limit'', ''nowMs'']"
  shows "isSearchRequest r \<and> validateCacheSearchArgs now' r = Inr r \<and>
    1 \<le> the_int (getp r ''limit'') \<and> the_int (getp r ''limit'') \<le> 500 \<and>
    utf8_length (the_str (getp r ''query'')) \<le> 512"
proof -
  define query where "query = or_default (getp args ''query'') (JStr [])"
  define buckets where "buckets = or_default (getp args ''buckets'') (JArr [])"
  define nowMs where "nowMs = or_default (getp args ''nowMs'') (JInt now)"
  have ok: "isValidCacheSearchProfile (getp args ''profile'')" "isValidCacheSearchLimit (getp args ''limit'')"
    "isValidCacheSearchQuery query" "is_array buckets" "list_all isValidCacheSearchBucket (the_arr buckets)"
    "isValidCacheSearchNowMs nowMs"
    "getp args ''cursor'' = JUndef \<or> isValidCacheSearchCursor (getp args ''cursor'')"
    and r: "r = JObj (AList.update (js ''nowMs'') nowMs (AList.update (js ''buckets'') buckets
        (AList.update (js ''query'') query (own_fields args))))"
    using assms(1) unfolding validateCacheSearchArgs_def Let_def
    by (auto simp: query_def buckets_def nowMs_def list_ex_not split: if_splits)
  have get: "getp r ''profile'' = getp args ''profile''" "getp r ''limit'' = getp args ''limit''"
    "getp r ''cursor'' = getp args ''cursor''" "getp r ''query'' = query" "getp r ''buckets'' = buckets"
    "getp r ''nowMs'' = nowMs"
    by (simp_all add: r) (simp_all add: getp_def)
  have keys: "only_keys r [''profile'', ''buckets'', ''query'', ''cursor'', ''limit'', ''nowMs'']"
    using assms(2) by (simp add: r) (simp add: only_keys_def)
  have defined: "query \<noteq> JUndef" "buckets \<noteq> JUndef" "nowMs \<noteq> JUndef"
    using ok by (auto simp: isValidCacheSearchNowMs_def)
  then have same: "or_default query d = query" "or_default buckets d = buckets" "or_default nowMs d = nowMs" for d
    by (simp_all add: or_default_def)
  obtain fs where fs: "r = JObj fs" using r by simp
  have "AList.update (js ''query'') query fs = fs" "AList.update (js ''buckets'') buckets fs = fs"
    "AList.update (js ''nowMs'') nowMs fs = fs"
    using get(4-6) defined unfolding fs by (simp_all add: update_same)
  then have "validateCacheSearchArgs now' r = Inr r"
    unfolding validateCacheSearchArgs_def Let_def get same list_ex_not using ok
    by (simp add: fs list_ex_iff list_all_iff)
  moreover have "isSearchRequest r"
    unfolding isSearchRequest_def get using ok keys by (simp add: fs)
  moreover have "1 \<le> the_int (getp r ''limit'')" "the_int (getp r ''limit'') \<le> 500"
    using ok get by (simp_all add: isValidCacheSearchLimit_def MAX_RECORD_SELECTION_PAGE_SIZE_def)
  moreover have "utf8_length (the_str query) \<le> 512"
    using ok(3) by (cases query) (simp_all add: MAX_CACHE_SEARCH_QUERY_BYTES_def)
  ultimately show ?thesis using get by simp
qed

definition sample_args :: jsval where
  "sample_args = JObj [(js ''profile'', JStr (js ''quick-access-v1'')), (js ''limit'', JInt 20)]"

theorem search_args_validated_witness:
  "\<exists>r. validateCacheSearchArgs 7 sample_args = Inr r \<and> validateCacheSearchArgs 9 r = Inr r"
proof -
  have keys: "only_keys sample_args [''profile'', ''buckets'', ''query'', ''cursor'', ''limit'', ''nowMs'']"
    by (simp add: sample_args_def)
  obtain r where r: "validateCacheSearchArgs 7 sample_args = Inr r"
    by (simp add: validateCacheSearchArgs_def sample_args_def isValidCacheSearchProfile_def
        isValidCacheSearchLimit_def MAX_RECORD_SELECTION_PAGE_SIZE_def max_safe_integer_def or_default_def
        isValidCacheSearchNowMs_def MAX_CACHE_SEARCH_QUERY_BYTES_def Let_def)
  then show ?thesis using search_args_validated [OF r keys] by blast
qed

section \<open>Lock names\<close>

lemma split_first:
  assumes "c \<notin> set xs" "c \<notin> set xs'" shows "xs @ c # ys = xs' @ c # ys' \<longleftrightarrow> xs = xs' \<and> ys = ys'"
proof
  assume eq: "xs @ c # ys = xs' @ c # ys'"
  have "takeWhile (\<lambda>x. x \<noteq> c) (zs @ c # us) = zs" if "c \<notin> set zs" for zs us
    using that by (induction zs) auto
  then have "xs = xs'" using assms eq by metis
  then show "xs = xs' \<and> ys = ys'" using eq by simp
qed simp

lemma split_last:
  assumes "c \<notin> set ys" "c \<notin> set ys'" shows "xs @ c # ys = xs' @ c # ys' \<longleftrightarrow> xs = xs' \<and> ys = ys'"
proof -
  have "xs @ c # ys = xs' @ c # ys' \<longleftrightarrow> rev (xs @ c # ys) = rev (xs' @ c # ys')" by (simp only: rev_is_rev_conv)
  also have "\<dots> \<longleftrightarrow> rev ys @ c # rev xs = rev ys' @ c # rev xs'" by simp
  finally show ?thesis using split_first [of c "rev ys" "rev ys'" "rev xs" "rev xs'"] assms by auto
qed

lemma digits_js_nat: "list_all is_digit (js_nat n)"
  using canonical_show [of n]
  by (cases "js_nat n") (auto simp: canonical_decimal_def js_def is_digit_def unat_unit_of)

lemma colon_not_digit: "\<not> is_digit (unit_of CHR '':'')"
  by (simp add: is_digit_def unat_unit_of)

text \<open>
  Distinct databases and distinct tabs lock distinct names: the lock of a database determines its
  scope, and the liveness lock of a tab determines scope and tab, as long as tab identifiers contain
  no colon (they are UUIDs unless the client chooses its own).
\<close>

theorem lock_names_injective:
  "(databaseOwnerLockName s = databaseOwnerLockName s') = (s = s') \<and>
   (unit_of CHR '':'' \<notin> set t \<and> unit_of CHR '':'' \<notin> set t' \<longrightarrow>
     (tabLivenessLockName s t = tabLivenessLockName s' t') = (s = s' \<and> t = t'))"
proof (intro conjI impI)
  have free: "unit_of CHR '':'' \<notin> set (js_nat n)" for n
  proof
    assume "unit_of CHR '':'' \<in> set (js_nat n)"
    then have "is_digit (unit_of CHR '':'')" using digits_js_nat [of n] by (simp only: list_all_iff)
    then show False using colon_not_digit by simp
  qed
  have "js_nat m @ unit_of CHR '':'' # u = js_nat n @ unit_of CHR '':'' # v \<longleftrightarrow> js_nat m = js_nat n \<and> u = v"
    for m n u v
    by (rule split_first [OF free free])
  moreover have "databaseOwnerLockName s = js ''macro:turso-opfs:v1:'' @
      js_nat (utf8_length (js ''graphql-cache:'' @ s)) @ unit_of CHR '':'' # (js ''graphql-cache:'' @ s)" for s
    by (simp add: databaseOwnerLockName_def Let_def js_def)
  ultimately show "(databaseOwnerLockName s = databaseOwnerLockName s') = (s = s')" by auto
  assume t: "unit_of CHR '':'' \<notin> set t \<and> unit_of CHR '':'' \<notin> set t'"
  have "tabLivenessLockName s t = (js ''graphql-cache-tab:'' @ s) @ unit_of CHR '':'' # t" for s t
    by (simp add: tabLivenessLockName_def js_def)
  then show "(tabLivenessLockName s t = tabLivenessLockName s' t') = (s = s' \<and> t = t')"
    using split_last [of "unit_of CHR '':''" t t' s s'] t by simp
qed

theorem lock_names_injective_witness:
  "tabLivenessLockName (js ''a:b'') (js ''c'') \<noteq> tabLivenessLockName (js ''a'') (js ''c'')"
  using lock_names_injective [of "[]" "[]" "js ''c''" "js ''c''"]
    lock_names_injective [where s = "js ''a:b''" and s' = "js ''a''" and t = "js ''c''" and t' = "js ''c''"]
  by (simp add: js_def)

text \<open>With a colon in a tab identifier two tabs of different scopes share one liveness lock name.\<close>

lemma tab_lock_collision:
  "tabLivenessLockName (js ''s'') (js ''a:b'') = tabLivenessLockName (js ''s:a'') (js ''b'')"
  by (simp add: tabLivenessLockName_def js_def)

end
