(* ===== verification/Engine_Queue.thy ===== *)
theory Engine_Queue
  imports Coord_Router
begin

text \<open>
  The request queue of the engine worker
  (\<open>apps/web/src/lib/graphql-cache/worker/worker-core.ts\<close>): the priorities, the lifecycle barriers,
  the coalescing of equal reads and the choice of the next request.

  \<open>JSON.stringify\<close> is the parameter \<open>json\<close>; nothing is used of it but that it is a function.
\<close>

section \<open>Classes of requests\<close>

definition isOrderingBarrier :: "jsval \<Rightarrow> bool" where
  "isOrderingBarrier r \<longleftrightarrow> kind_is r ''init'' \<or> kind_is r ''teardown'' \<or> kind_is r ''clear''"

definition isQueryDataWrite :: "jsval \<Rightarrow> bool" where
  "isQueryDataWrite r \<longleftrightarrow> kind_is r ''write'' \<or> kind_is r ''hydrate''"

datatype revision_category =
    Authoritative_Write | Optimistic_Enqueue | Optimistic_Commit | Optimistic_Rollback
  | External_Invalidation | Deletion | Revision_Clear

definition revisionAdvancementCategory :: "jsval \<Rightarrow> revision_category option" where
  "revisionAdvancementCategory r =
     (if kind_is r ''write'' \<or> kind_is r ''hydrate'' then Some Authoritative_Write
      else if kind_is r ''enqueue-optimistic-mutation'' then Some Optimistic_Enqueue
      else if kind_is r ''commit-optimistic-write'' then Some Optimistic_Commit
      else if kind_is r ''rollback-optimistic-write'' then Some Optimistic_Rollback
      else if kind_is r ''invalidate'' then Some External_Invalidation
      else if kind_is r ''delete-records'' then Some Deletion
      else if kind_is r ''clear'' then Some Revision_Clear
      else None)"

definition BACKGROUND_HYDRATION_PRIORITY :: int where "BACKGROUND_HYDRATION_PRIORITY = -1"
definition NORMAL_READ_PRIORITY :: int where "NORMAL_READ_PRIORITY = 0"
definition USER_VISIBLE_READ_PRIORITY :: int where "USER_VISIBLE_READ_PRIORITY = 1"
definition CACHE_WRITE_PRIORITY :: int where "CACHE_WRITE_PRIORITY = 2"

definition requestPriority :: "jsval \<Rightarrow> int" where
  "requestPriority r =
     (if kind_is r ''hydrate'' then BACKGROUND_HYDRATION_PRIORITY
      else if kind_is r ''read'' then
        (if getp r ''priority'' = JStr (js ''user-visible'') then USER_VISIBLE_READ_PRIORITY
         else NORMAL_READ_PRIORITY)
      else if kind_is r ''write'' \<or> kind_is r ''enqueue-optimistic-mutation'' \<or>
        kind_is r ''claim-next-mutation'' \<or> kind_is r ''commit-optimistic-write'' \<or>
        kind_is r ''rollback-optimistic-write'' \<or> kind_is r ''invalidate'' \<or>
        kind_is r ''delete-records'' then CACHE_WRITE_PRIORITY
      else NORMAL_READ_PRIORITY)"

text \<open>\<open>v ?? null\<close>\<close>

definition or_null :: "jsval \<Rightarrow> jsval" where
  "or_null v = (if v = JUndef then JNull else v)"

definition readSignature :: "(jsval \<Rightarrow> js_string) \<Rightarrow> jsval \<Rightarrow> js_string option" where
  "readSignature json r =
     (if \<not> kind_is r ''read'' \<or> getp r ''opId'' = JUndef then None
      else Some (json (JArr [getp r ''opId'', getp r ''query'', or_null (getp r ''operationName''),
        or_null (getp r ''variables''), or_null (getp r ''entityResolvers'')])))"

section \<open>The queue\<close>

text \<open>A waiter is the continuation of one \<open>handleRequest\<close>: its port, request and start time.\<close>

record waiter =
  wa_port :: nat
  wa_request :: jsval
  wa_started :: int

record queued_engine_request =
  qe_request :: jsval
  qe_priority :: int
  qe_signature :: "js_string option"
  qe_waiters :: "waiter list"

definition barrier :: "queued_engine_request \<Rightarrow> bool" where
  "barrier q = isOrderingBarrier (qe_request q)"

definition data_write :: "queued_engine_request \<Rightarrow> bool" where
  "data_write q = isQueryDataWrite (qe_request q)"

text \<open>The start of the segment after the last barrier.\<close>

definition segmentStart :: "queued_engine_request list \<Rightarrow> nat" where
  "segmentStart queue = length queue - length (takeWhile (\<lambda>q. \<not> barrier q) (rev queue))"

text \<open>\<open>findIndex\<close>\<close>

fun find_index :: "('a \<Rightarrow> bool) \<Rightarrow> 'a list \<Rightarrow> nat option" where
  "find_index P [] = None"
| "find_index P (x # xs) = (if P x then Some 0 else map_option Suc (find_index P xs))"

definition duplicate_index ::
  "js_string \<Rightarrow> queued_engine_request list \<Rightarrow> nat option" where
  "duplicate_index signature queue =
     map_option (\<lambda>i. segmentStart queue + i)
       (find_index (\<lambda>q. qe_signature q = Some signature) (drop (segmentStart queue) queue))"

text \<open>\<open>enqueue\<close> without the \<open>drainQueue\<close> at its end.\<close>

definition fresh_entry :: "(jsval \<Rightarrow> js_string) \<Rightarrow> waiter \<Rightarrow> queued_engine_request" where
  "fresh_entry json wa =
     \<lparr> qe_request = wa_request wa, qe_priority = requestPriority (wa_request wa),
       qe_signature = readSignature json (wa_request wa), qe_waiters = [wa] \<rparr>"

definition insert_request ::
  "(jsval \<Rightarrow> js_string) \<Rightarrow> waiter \<Rightarrow> queued_engine_request list \<Rightarrow> queued_engine_request list" where
  "insert_request json wa queue =
     (case readSignature json (wa_request wa) of
        None \<Rightarrow> queue @ [fresh_entry json wa]
      | Some signature \<Rightarrow>
          (case duplicate_index signature queue of
             None \<Rightarrow> queue @ [fresh_entry json wa]
           | Some i \<Rightarrow>
               let d = queue ! i in
               queue[i := d\<lparr>qe_priority := max (qe_priority d) (requestPriority (wa_request wa)),
                 qe_waiters := qe_waiters d @ [wa]\<rparr>]))"

section \<open>The next request\<close>

definition segmentEnd :: "queued_engine_request list \<Rightarrow> nat" where
  "segmentEnd queue = (case find_index barrier queue of None \<Rightarrow> length queue | Some i \<Rightarrow> i)"

definition firstQueryDataWrite :: "queued_engine_request list \<Rightarrow> nat option" where
  "firstQueryDataWrite queue = find_index data_write (take (segmentEnd queue) queue)"

definition better :: "queued_engine_request list \<Rightarrow> nat \<Rightarrow> nat \<Rightarrow> nat" where
  "better queue index i =
     (if (\<not> data_write (queue ! i) \<or> Some i = firstQueryDataWrite queue) \<and>
         qe_priority (queue ! i) > qe_priority (queue ! index) then i else index)"

definition select_index :: "queued_engine_request list \<Rightarrow> nat" where
  "select_index queue = foldl (better queue) 0 [1..<segmentEnd queue]"

end
