(* ===== verification/Worker_Core.thy ===== *)
theory Worker_Core
  imports Engine_Queue
begin

text \<open>
  The dedicated engine worker's core
  (\<open>apps/web/src/lib/graphql-cache/worker/worker-core.ts\<close>, class \<open>CacheWorkerCore\<close>): one engine call
  at a time, the queue before it, initialization, the fan-out of invalidations, the queue
  diagnostics, drain.

  The WASM engine is not under \<open>src\<close>: what its calls return are the events of the machine. A thrown
  value is its message and whether it carries \<open>cacheStorageResetRequired\<close>. Continuations of a settled
  promise run with the event that settles it, in the order the source queues them; a dispatch that
  settles without an engine call is completed by the event \<open>Settle\<close>. Everything that leaves
  the worker is appended to \<open>w_out\<close>, and so is the start of every dispatch.
\<close>

section \<open>State\<close>

datatype thrown = Thrown (th_message: js_string) (th_reset: bool)

record engine_observation = observation +
  eo_revision :: "revision_category option"
  eo_available :: "bool option"
  eo_depth :: "int option"
  eo_oldest :: "int option"

datatype worker_output =
    Posted nat jsval
  | Dispatched queued_engine_request
  | Engine_Called jsval
  | Open_Called bool js_string jsval
  | Open_Outcome engine_open_outcome
  | Reset_Required js_string
  | Close_Called
  | Drained_Promise nat
  | Drain_Rejected nat thrown
  | Handler_Rejected waiter
  | Worker_Telemetry engine_observation

datatype init_state = No_Init | Init_Running | Init_Done | Init_Failed thrown

datatype phase =
    Awaiting_Engine
  | Settling "thrown + jsval"
  | Init_Loading
  | Init_Opening int
  | Init_Refreshing
  | Refreshing_After

record diagnostics_snapshot =
  ds_depth :: int
  ds_oldest :: "int option"

record worker =
  w_engine :: bool
  w_init :: init_state
  w_scope :: js_string
  w_hot :: jsval
  w_queue :: "queued_engine_request list"
  w_running :: "(queued_engine_request \<times> phase) option"
  w_accepting :: bool
  w_active :: int
  w_drains :: "nat list"
  w_closing :: "nat list"
  w_reset :: bool
  w_ports :: "nat list"
  w_diag_at :: "int option"
  w_diag :: "diagnostics_snapshot option"
  w_cancelled :: bool
  w_out :: "worker_output list"

definition initial_worker :: worker where
  "initial_worker =
     \<lparr> w_engine = False, w_init = No_Init, w_scope = [], w_hot = JUndef, w_queue = [],
       w_running = None, w_accepting = True, w_active = 0, w_drains = [], w_closing = [],
       w_reset = False, w_ports = [], w_diag_at = None, w_diag = None, w_cancelled = False,
       w_out = [] \<rparr>"

text \<open>
  The options of the constructor, \<open>JSON.stringify\<close>, and the message of the \<open>TypeError\<close> that reading
  a property of \<open>undefined\<close> or \<open>null\<close> throws.
\<close>

record worker_config =
  wc_recovery :: bool
  wc_diagnostics :: bool
  wc_interval :: int
  wc_json :: "jsval \<Rightarrow> js_string"
  wc_type_error :: js_string

text \<open>What happens outside the worker during one event: the clocks, and which posts throw.\<close>

record worker_env =
  we_now :: int
  we_wall :: int
  we_post :: "nat \<Rightarrow> jsval \<Rightarrow> thrown option"

type_synonym wop = "worker \<Rightarrow> worker"

definition put :: "worker_output \<Rightarrow> wop" where
  "put out w = w\<lparr>w_out := w_out w @ [out]\<rparr>"

section \<open>Telemetry\<close>

definition observed ::
  "event_name \<Rightarrow> operation_category \<Rightarrow> telemetry_outcome \<Rightarrow> cache_error_code option \<Rightarrow>
    engine_observation" where
  "observed name cat out code =
     \<lparr> ob_name = name, ob_category = cat, ob_outcome = Some out, ob_error = code, ob_reset = None,
       ob_owner = None, ob_open = None, ob_wipe_attempt = False, ob_duration = None, ob_count = None,
       eo_revision = None, eo_available = None, eo_depth = None, eo_oldest = None \<rparr>"

definition record_event :: "engine_observation \<Rightarrow> wop" where
  "record_event ob = put (Worker_Telemetry ob)"

definition recordCachedQueueDiagnostics :: "worker_env \<Rightarrow> wop" where
  "recordCachedQueueDiagnostics env w =
     record_event ((observed Queue_Diagnostics Cat_Queue Out_Success (Some Code_None))
       \<lparr>eo_available := Some (w_diag w \<noteq> None),
        eo_depth := map_option ds_depth (w_diag w),
        eo_oldest := (case w_diag w of
            None \<Rightarrow> None
          | Some ds \<Rightarrow> Some (case ds_oldest ds of None \<Rightarrow> 0 | Some t \<Rightarrow> max 0 (we_wall env - t)))\<rparr>) w"

definition diagnosticsFailed :: "cache_error_code \<Rightarrow> wop" where
  "diagnosticsFailed code w =
     record_event ((observed Queue_Diagnostics Cat_Queue Out_Error (Some code))
       \<lparr>eo_available := Some (w_diag w \<noteq> None)\<rparr>) w"

section \<open>Queue diagnostics\<close>

text \<open>The synchronous start; the result says whether an engine call is pending.\<close>

definition refreshQueueDiagnostics :: "worker_config \<Rightarrow> worker_env \<Rightarrow> bool \<Rightarrow> worker \<Rightarrow> bool \<times> worker" where
  "refreshQueueDiagnostics cfg env force w =
     (let recent = (case w_diag_at w of None \<Rightarrow> False | Some t \<Rightarrow> we_now env - t < wc_interval cfg) in
      if \<not> force \<and> recent then (False, w)
      else
        let w1 = w\<lparr>w_diag_at := Some (we_now env)\<rparr> in
        if \<not> w_engine w1 \<or> \<not> wc_diagnostics cfg then (False, recordCachedQueueDiagnostics env w1)
        else (True, w1\<lparr>w_cancelled := False\<rparr>))"

text \<open>How the race ends; \<open>BigInt\<close> may reject the engine's text.\<close>

datatype diagnostics_outcome =
    Diag_Cancelled
  | Diag_Timeout
  | Diag_Error thrown
  | Diag_Unavailable
  | Diag_Malformed js_string
  | Diag_Available int "int option"

definition clamp :: "int \<Rightarrow> int \<Rightarrow> int \<Rightarrow> int" where
  "clamp lo hi n = (if n > hi then hi else if n < lo then lo else n)"

fun diagnosticsOutcome :: "worker_env \<Rightarrow> diagnostics_outcome \<Rightarrow> wop" where
  "diagnosticsOutcome env Diag_Cancelled w = w"
| "diagnosticsOutcome env Diag_Timeout w = diagnosticsFailed Code_Timeout w"
| "diagnosticsOutcome env (Diag_Error err) w =
     diagnosticsFailed (classifyCacheError (Some (th_message err))) w"
| "diagnosticsOutcome env (Diag_Malformed err) w =
     diagnosticsFailed (classifyCacheError (Some err)) w"
| "diagnosticsOutcome env Diag_Unavailable w = recordCachedQueueDiagnostics env w"
| "diagnosticsOutcome env (Diag_Available depth oldest) w =
     recordCachedQueueDiagnostics env
       (w\<lparr>w_diag := Some
          \<lparr> ds_depth = clamp 0 max_safe_integer depth,
            ds_oldest = map_option (clamp (- max_safe_integer) max_safe_integer) oldest \<rparr>\<rparr>)"

section \<open>Responses and pushes\<close>

definition response_ok_val :: "jsval \<Rightarrow> jsval \<Rightarrow> jsval" where
  "response_ok_val req result =
     JObj [(js ''id'', getp req ''id''), (js ''ok'', JBool True), (js ''result'', result)]"

definition response_err_val :: "jsval \<Rightarrow> js_string \<Rightarrow> jsval" where
  "response_err_val req err =
     JObj [(js ''id'', getp req ''id''), (js ''ok'', JBool False), (js ''error'', JStr err)]"

definition send_post :: "worker_env \<Rightarrow> nat \<Rightarrow> jsval \<Rightarrow> worker \<Rightarrow> thrown option \<times> worker" where
  "send_post env port message w =
     (case we_post env port message of
        None \<Rightarrow> (None, put (Posted port message) w)
      | Some err \<Rightarrow> (Some err, w))"

text \<open>\<open>push\<close>: a port that throws stops the loop.\<close>

fun push_all :: "worker_env \<Rightarrow> jsval \<Rightarrow> nat list \<Rightarrow> worker \<Rightarrow> thrown option \<times> worker" where
  "push_all env message [] w = (None, w)"
| "push_all env message (port # ports) w =
     (case send_post env port message w of
        (Some err, w1) \<Rightarrow> (Some err, w1)
      | (None, w1) \<Rightarrow> push_all env message ports w1)"

definition push :: "worker_env \<Rightarrow> jsval \<Rightarrow> worker \<Rightarrow> thrown option \<times> worker" where
  "push env message w = push_all env message (w_ports w) w"

definition ops_affected_val :: "jsval \<Rightarrow> jsval \<Rightarrow> jsval" where
  "ops_affected_val ops keys =
     JObj [(js ''kind'', JStr (js ''ops-affected'')), (js ''opIds'', ops), (js ''keys'', keys)]"

definition cache_changed_val :: "js_string \<Rightarrow> jsval" where
  "cache_changed_val revision =
     JObj [(js ''kind'', JStr (js ''cache-changed'')), (js ''revision'', JStr revision)]"

definition settled_val :: "jsval \<Rightarrow> js_fields \<Rightarrow> jsval" where
  "settled_val transactionId fs =
     JObj [(js ''kind'', JStr (js ''mutation-settled'')),
       (js ''settlement'', JObj ((js ''transactionId'', transactionId) # fs))]"

fun nonempty :: "jsval \<Rightarrow> bool" where
  "nonempty (JArr xs) = (xs \<noteq> [])"
| "nonempty (JStr s) = (s \<noteq> [])"
| "nonempty v = (0 < the_int (getp v ''length''))"

definition fanOut ::
  "worker_config \<Rightarrow> worker_env \<Rightarrow> jsval \<Rightarrow> jsval \<Rightarrow> js_string \<Rightarrow> worker \<Rightarrow> thrown option \<times> worker" where
  "fanOut cfg env affectedOps changed revision w =
     (if affectedOps \<in> {JUndef, JNull} then (Some (Thrown (wc_type_error cfg) False), w)
      else
        case (if nonempty affectedOps then push env (ops_affected_val affectedOps changed) w
              else (None, w)) of
          (Some err, w1) \<Rightarrow> (Some err, w1)
        | (None, w1) \<Rightarrow> push env (cache_changed_val revision) w1)"

section \<open>Completing an engine call\<close>

fun error_text :: "js_error \<Rightarrow> js_string" where
  "error_text (Js_Error s) = s"
| "error_text (Range_Error s) = s"
| "error_text (Type_Error s) = s"

definition result_revision :: "worker_config \<Rightarrow> jsval \<Rightarrow> thrown + js_string" where
  "result_revision cfg v =
     (if v \<in> {JUndef, JNull} then Inl (Thrown (wc_type_error cfg) False)
      else case parseCacheRevision (getp v ''revision'') of
        Inl err \<Rightarrow> Inl (Thrown (error_text err) False)
      | Inr revision \<Rightarrow> Inr revision)"

definition with_revision :: "jsval \<Rightarrow> js_string \<Rightarrow> jsval" where
  "with_revision v revision = JObj (AList.update (js ''revision'') (JStr revision) (own_fields v))"

definition hydration_val :: "jsval \<Rightarrow> js_string \<Rightarrow> jsval" where
  "hydration_val v revision =
     (if getp v ''data'' = JNull then
        JObj [(js ''kind'', JStr (js ''void'')), (js ''revision'', JStr revision),
          (js ''reset'', getp v ''reset'')]
      else JObj [(js ''kind'', JStr (js ''data'')), (js ''data'', getp v ''data''),
          (js ''revision'', JStr revision), (js ''reset'', getp v ''reset'')])"

text \<open>The push of a settled optimistic mutation, after the fan-out.\<close>

definition settlement_of :: "jsval \<Rightarrow> jsval option" where
  "settlement_of req =
     (if kind_is req ''commit-optimistic-write'' then
        Some (settled_val (getp req ''transactionId'') [(js ''status'', JStr (js ''committed''))])
      else if kind_is req ''rollback-optimistic-write'' then
        Some (settled_val (getp req ''transactionId'')
          [(js ''status'', JStr (js ''permanently-failed'')), (js ''error'', getp req ''error'')])
      else None)"

definition then_result :: "jsval \<Rightarrow> thrown option \<times> worker \<Rightarrow> (thrown + jsval) \<times> worker" where
  "then_result v r = (case r of (Some err, w) \<Rightarrow> (Inl err, w) | (None, w) \<Rightarrow> (Inr v, w))"

definition finishWrite ::
  "worker_config \<Rightarrow> worker_env \<Rightarrow> jsval \<Rightarrow> jsval \<Rightarrow> js_string \<Rightarrow> worker \<Rightarrow> (thrown + jsval) \<times> worker" where
  "finishWrite cfg env req v revision w =
     (case fanOut cfg env (getp v ''affectedOps'') (getp v ''changed'') revision w of
        (Some err, w1) \<Rightarrow> (Inl err, w1)
      | (None, w1) \<Rightarrow>
          (case settlement_of req of
             None \<Rightarrow>
               (Inr (if kind_is req ''hydrate'' then hydration_val v revision
                     else with_revision v revision), w1)
           | Some message \<Rightarrow> then_result (with_revision v revision) (push env message w1)))"

definition returns_void :: "jsval \<Rightarrow> bool" where
  "returns_void req \<longleftrightarrow> kind_is req ''defer-optimistic-write'' \<or> kind_is req ''teardown''"

definition has_fan_out :: "jsval \<Rightarrow> bool" where
  "has_fan_out req \<longleftrightarrow> kind_is req ''write'' \<or> kind_is req ''hydrate'' \<or>
     kind_is req ''enqueue-optimistic-mutation'' \<or> kind_is req ''commit-optimistic-write'' \<or>
     kind_is req ''rollback-optimistic-write''"

text \<open>\<open>dispatch\<close> from the return of the engine call on, for every kind but \<open>init\<close>.\<close>

definition finishDispatch ::
  "worker_config \<Rightarrow> worker_env \<Rightarrow> jsval \<Rightarrow> jsval \<Rightarrow> worker \<Rightarrow> (thrown + jsval) \<times> worker" where
  "finishDispatch cfg env req v w =
     (if kind_is req ''current-revision'' then
        (case parseCacheRevision v of
           Inl err \<Rightarrow> (Inl (Thrown (error_text err) False), w)
         | Inr revision \<Rightarrow> (Inr (JStr revision), w))
      else if kind_is req ''read-records-by-keys'' \<or>
        (kind_is req ''entity-filter'' \<and> getp v ''kind'' \<noteq> JStr (js ''unsupported'')) then
        (case result_revision cfg v of
           Inl err \<Rightarrow> (Inl err, w)
         | Inr revision \<Rightarrow> (Inr (with_revision v revision), w))
      else if has_fan_out req then
        (case result_revision cfg v of
           Inl err \<Rightarrow> (Inl err, w)
         | Inr revision \<Rightarrow> finishWrite cfg env req v revision w)
      else if kind_is req ''invalidate'' \<or> kind_is req ''delete-records'' then
        (case result_revision cfg v of
           Inl err \<Rightarrow> (Inl err, w)
         | Inr revision \<Rightarrow>
             then_result (with_revision v revision)
               (fanOut cfg env (getp v ''affectedOps'') (getp req ''keys'') revision w))
      else if kind_is req ''clear'' then
        (case result_revision cfg v of
           Inl err \<Rightarrow> (Inl err, w)
         | Inr revision \<Rightarrow>
             then_result (JStr revision) (push env (cache_changed_val revision) w))
      else if returns_void req then (Inr JNull, w)
      else (Inr v, w))"

section \<open>Answering a request\<close>

definition reportResetRequired :: "thrown \<Rightarrow> wop" where
  "reportResetRequired err w =
     (if w_reset w \<or> \<not> th_reset err then w
      else put (Reset_Required (th_message err)) (w\<lparr>w_reset := True\<rparr>))"

text \<open>\<open>drain\<close> after its wait; initialization has settled, since nothing is running.\<close>

definition continueDrain :: "worker_env \<Rightarrow> nat \<Rightarrow> wop" where
  "continueDrain env d w =
     (if \<not> w_engine w then put (Drained_Promise d) w
      else
        let w1 = recordCachedQueueDiagnostics env w in
        put Close_Called (w1\<lparr>w_engine := False, w_closing := w_closing w1 @ [d]\<rparr>))"

definition busy :: "worker \<Rightarrow> bool" where
  "busy w \<longleftrightarrow> 0 < w_active w \<or> w_running w \<noteq> None \<or> w_queue w \<noteq> []"

definition resolveDrainWaitersIfIdle :: "worker_env \<Rightarrow> wop" where
  "resolveDrainWaitersIfIdle env w =
     (if busy w then w else fold (continueDrain env) (w_drains w) (w\<lparr>w_drains := []\<rparr>))"

text \<open>The \<open>finally\<close> of \<open>handleRequest\<close>.\<close>

definition handlerDone :: "worker_env \<Rightarrow> wop" where
  "handlerDone env w = resolveDrainWaitersIfIdle env (w\<lparr>w_active := w_active w - 1\<rparr>)"

definition recordFailure :: "worker_env \<Rightarrow> thrown \<Rightarrow> waiter \<Rightarrow> wop" where
  "recordFailure env err wa w =
     (let req = wa_request wa;
          timed = (\<lambda>name. (observed name (operationCategoryForRequest req) Out_Error
              (Some (classifyCacheError (Some (th_message err)))))
            \<lparr>ob_duration := Some (we_now env - wa_started wa)\<rparr>);
          w1 = record_event (timed Engine_Request_Event) w
      in if isStorageTransactionRequest req then record_event (timed Transaction_Event) w1 else w1)"

definition handlerFailed :: "worker_env \<Rightarrow> thrown \<Rightarrow> waiter \<Rightarrow> wop" where
  "handlerFailed env err wa w =
     (case send_post env (wa_port wa) (response_err_val (wa_request wa) (th_message err))
         (reportResetRequired err (recordFailure env err wa w)) of
        (None, w1) \<Rightarrow> handlerDone env w1
      | (Some _, w1) \<Rightarrow> handlerDone env (put (Handler_Rejected wa) w1))"

definition recordSuccess :: "worker_env \<Rightarrow> jsval \<Rightarrow> waiter \<Rightarrow> wop" where
  "recordSuccess env result wa w =
     (let req = wa_request wa;
          cat = operationCategoryForRequest req;
          duration = we_now env - wa_started wa;
          timed = (\<lambda>name code. (observed name cat Out_Success code)\<lparr>ob_duration := Some duration\<rparr>);
          w1 = (case revisionAdvancementCategory req of
              None \<Rightarrow> w
            | Some c \<Rightarrow> record_event ((observed Revision_Advance cat Out_Success (Some Code_None))
                \<lparr>eo_revision := Some c\<rparr>) w);
          w2 = record_event (timed Engine_Request_Event (Some Code_None)) w1;
          w3 = (if isStorageTransactionRequest req then
              record_event (timed Transaction_Event (Some Code_None)) w2 else w2);
          w4 = (if isQueryDataWrite req \<and> getp result ''reset'' = JBool True then
              record_event ((observed Logical_Reset Cat_Storage Out_Success (Some Code_None))
                \<lparr>ob_reset := Some Identity_Change\<rparr>) w3 else w3)
      in if kind_is req ''read'' then
           record_event ((observed Read_Event Cat_Read
             (if getp result ''kind'' = JStr (js ''hit'') then Out_Hit else Out_Miss) None)
             \<lparr>ob_duration := Some duration\<rparr>) w4
         else w4)"

definition handlerSucceeded :: "worker_env \<Rightarrow> jsval \<Rightarrow> waiter \<Rightarrow> wop" where
  "handlerSucceeded env result wa w =
     (case send_post env (wa_port wa) (response_ok_val (wa_request wa) result)
         (recordSuccess env result wa w) of
        (None, w1) \<Rightarrow> handlerDone env w1
      | (Some err, w1) \<Rightarrow> handlerFailed env err wa w1)"

section \<open>Running the queue\<close>

definition init_error_scope :: "js_string \<Rightarrow> js_string \<Rightarrow> js_string" where
  "init_error_scope old new =
     js ''cache worker already initialized for scope '' @ old @ js '', got '' @ new"

definition hot_text :: "jsval \<Rightarrow> js_string" where
  "hot_text v = (if v = JUndef then js ''undefined'' else js_nat (the_nat v))"

definition init_error_hot :: "jsval \<Rightarrow> jsval \<Rightarrow> js_string" where
  "init_error_hot old new =
     js ''cache worker already initialized with hot capacity '' @ hot_text old @ js '', got '' @ hot_text new"

text \<open>\<open>init\<close> up to its first wait; an initialized worker only compares.\<close>

definition init_start :: "jsval \<Rightarrow> worker \<Rightarrow> phase \<times> worker" where
  "init_start req w =
     (let scope = the_str (getp req ''scope''); hot = getp req ''hotCapacity'' in
      case w_init w of
        Init_Failed err \<Rightarrow> (Settling (Inl err), w)
      | No_Init \<Rightarrow> (Init_Loading, w\<lparr>w_scope := scope, w_hot := hot, w_init := Init_Running\<rparr>)
      | _ \<Rightarrow>
          (Settling
            (if w_scope w \<noteq> scope then Inl (Thrown (init_error_scope (w_scope w) scope) False)
             else if w_hot w \<noteq> hot then Inl (Thrown (init_error_hot (w_hot w) hot) False)
             else Inr JNull), w))"

definition requires_engine :: "js_string" where
  "requires_engine = js ''cache worker not initialized (send init first)''"

definition dispatch_start :: "jsval \<Rightarrow> worker \<Rightarrow> phase \<times> worker" where
  "dispatch_start req w =
     (if kind_is req ''init'' then init_start req w
      else if \<not> w_engine w then (Settling (Inl (Thrown requires_engine False)), w)
      else (Awaiting_Engine, put (Engine_Called req) w))"

definition drainQueue :: "wop" where
  "drainQueue w =
     (if w_running w \<noteq> None \<or> w_queue w = [] then w
      else
        let index = select_index (w_queue w); entry = w_queue w ! index;
            w1 = put (Dispatched entry)
              (w\<lparr>w_queue := take index (w_queue w) @ drop (Suc index) (w_queue w)\<rparr>);
            (ph, w2) = dispatch_start (qe_request entry) w1
        in w2\<lparr>w_running := Some (entry, ph)\<rparr>)"

text \<open>The \<open>finally\<close> of a dispatch.\<close>

definition dispatchDone :: "worker_env \<Rightarrow> wop" where
  "dispatchDone env w = resolveDrainWaitersIfIdle env (drainQueue (w\<lparr>w_running := None\<rparr>))"

text \<open>A dispatch settles: the diagnostics start before the continuations of the waiters run.\<close>

definition settleDispatch ::
  "worker_config \<Rightarrow> worker_env \<Rightarrow> queued_engine_request \<Rightarrow> (thrown + jsval) \<Rightarrow> wop" where
  "settleDispatch cfg env entry res w =
     (let done_entry = entry\<lparr>qe_waiters := []\<rparr> in
      case res of
        Inl err \<Rightarrow>
          dispatchDone env (fold (handlerFailed env err) (qe_waiters entry)
            (w\<lparr>w_running := Some (done_entry, Refreshing_After)\<rparr>))
      | Inr v \<Rightarrow>
          let (pending, w1) = (if isStorageTransactionRequest (qe_request entry)
                 then refreshQueueDiagnostics cfg env False w else (False, w));
              w2 = fold (handlerSucceeded env v) (qe_waiters entry)
                (w1\<lparr>w_running := Some (done_entry, Refreshing_After)\<rparr>)
          in if pending then w2 else dispatchDone env w2)"

section \<open>The events\<close>

definition enqueue :: "worker_config \<Rightarrow> waiter \<Rightarrow> wop" where
  "enqueue cfg wa w = drainQueue (w\<lparr>w_queue := insert_request (wc_json cfg) wa (w_queue w)\<rparr>)"

definition handleRequest :: "worker_config \<Rightarrow> worker_env \<Rightarrow> nat \<Rightarrow> jsval \<Rightarrow> wop" where
  "handleRequest cfg env port req w =
     (let wa = \<lparr> wa_port = port, wa_request = req, wa_started = we_now env \<rparr> in
      if \<not> w_accepting w then
        let w1 = record_event ((observed Engine_Request_Event (operationCategoryForRequest req) Out_Error
                (Some Code_Owner_Lost))\<lparr>ob_duration := Some 0\<rparr>) w
        in case send_post env port (response_err_val req (js ''cache engine is draining'')) w1 of
             (None, w2) \<Rightarrow> w2
           | (Some err, w2) \<Rightarrow> put (Handler_Rejected wa) w2
      else enqueue cfg wa (w\<lparr>w_active := w_active w + 1\<rparr>))"

definition addPort :: "nat \<Rightarrow> wop" where
  "addPort port w = (if port \<in> set (w_ports w) then w else w\<lparr>w_ports := w_ports w @ [port]\<rparr>)"

definition removePort :: "nat \<Rightarrow> wop" where
  "removePort port w = w\<lparr>w_ports := removeAll port (w_ports w)\<rparr>"

definition drain :: "worker_env \<Rightarrow> nat \<Rightarrow> wop" where
  "drain env d w =
     (let w1 = w\<lparr>w_accepting := False, w_cancelled := True\<rparr> in
      if busy w1 then w1\<lparr>w_drains := w_drains w1 @ [d]\<rparr> else continueDrain env d w1)"

definition engineClosed :: "nat \<Rightarrow> thrown option \<Rightarrow> wop" where
  "engineClosed d res w =
     (if d \<notin> set (w_closing w) then w
      else let w1 = w\<lparr>w_closing := removeAll d (w_closing w)\<rparr> in
        case res of
          None \<Rightarrow> put (Drained_Promise d) w1
        | Some err \<Rightarrow> put (Drain_Rejected d err) (reportResetRequired err w1))"

text \<open>The steps of \<open>init\<close> that follow its waits.\<close>

definition wasmLoaded ::
  "worker_config \<Rightarrow> worker_env \<Rightarrow> queued_engine_request \<Rightarrow> thrown option \<Rightarrow> wop" where
  "wasmLoaded cfg env entry res w =
     (case res of
        Some err \<Rightarrow> settleDispatch cfg env entry (Inl err) (w\<lparr>w_init := Init_Failed err\<rparr>)
      | None \<Rightarrow> (put (Open_Called (wc_recovery cfg) (w_scope w) (w_hot w)) w)
          \<lparr>w_running := Some (entry, Init_Opening (we_now env))\<rparr>)"

definition engineOpened ::
  "worker_config \<Rightarrow> worker_env \<Rightarrow> queued_engine_request \<Rightarrow> int \<Rightarrow>
    (thrown + engine_open_outcome option) \<Rightarrow> wop" where
  "engineOpened cfg env entry startedAt res w =
     (case res of
        Inl err \<Rightarrow>
          settleDispatch cfg env entry (Inl err)
            (record_event ((observed Schema_Init Cat_Initialization Out_Error
                 (Some (classifyCacheError (Some (th_message err)))))
               \<lparr>ob_duration := Some (we_now env - startedAt)\<rparr>) (w\<lparr>w_init := Init_Failed err\<rparr>))
      | Inr reported \<Rightarrow>
          let openOutcome = (case reported of
                Some oc \<Rightarrow> oc
              | None \<Rightarrow> if wc_recovery cfg then Reset_Storage_Uncertain else Opened_Existing);
              w1 = put (Open_Outcome openOutcome) (w\<lparr>w_engine := True\<rparr>);
              w2 = record_event ((observed Schema_Init Cat_Initialization Out_Success (Some Code_None))
                \<lparr>ob_open := Some openOutcome, ob_duration := Some (we_now env - startedAt)\<rparr>) w1;
              (pending, w3) = refreshQueueDiagnostics cfg env True w2
          in if pending then w3\<lparr>w_running := Some (entry, Init_Refreshing)\<rparr>
             else settleDispatch cfg env entry (Inr JNull) (w3\<lparr>w_init := Init_Done\<rparr>))"

datatype worker_event =
    Handle nat jsval
  | Add_Port nat
  | Remove_Port nat
  | Drain nat
  | Engine_Closed nat "thrown option"
  | Record_Diagnostics
  | Settle
  | Engine_Returned "thrown + jsval"
  | Wasm_Loaded "thrown option"
  | Opened "thrown + engine_open_outcome option"
  | Diagnostics diagnostics_outcome

text \<open>An event that does not belong to the running phase does not occur.\<close>

fun running_step ::
  "worker_config \<Rightarrow> worker_env \<Rightarrow> worker_event \<Rightarrow> queued_engine_request \<Rightarrow> phase \<Rightarrow> wop" where
  "running_step cfg env Settle entry (Settling res) w = settleDispatch cfg env entry res w"
| "running_step cfg env (Engine_Returned (Inl err)) entry Awaiting_Engine w =
     settleDispatch cfg env entry (Inl err) w"
| "running_step cfg env (Engine_Returned (Inr v)) entry Awaiting_Engine w =
     (let (res, w1) = finishDispatch cfg env (qe_request entry) v w
      in settleDispatch cfg env entry res w1)"
| "running_step cfg env (Wasm_Loaded res) entry Init_Loading w = wasmLoaded cfg env entry res w"
| "running_step cfg env (Opened res) entry (Init_Opening t) w = engineOpened cfg env entry t res w"
| "running_step cfg env (Diagnostics oc) entry Init_Refreshing w =
     (if oc = Diag_Cancelled \<and> \<not> w_cancelled w then w
      else settleDispatch cfg env entry (Inr JNull) ((diagnosticsOutcome env oc w)\<lparr>w_init := Init_Done\<rparr>))"
| "running_step cfg env (Diagnostics oc) entry Refreshing_After w =
     (if oc = Diag_Cancelled \<and> \<not> w_cancelled w then w
      else dispatchDone env (diagnosticsOutcome env oc w))"
| "running_step cfg env ev entry ph w = w"

fun worker_act :: "worker_config \<Rightarrow> worker_env \<Rightarrow> worker_event \<Rightarrow> wop" where
  "worker_act cfg env (Handle port req) w = handleRequest cfg env port req w"
| "worker_act cfg env (Add_Port port) w = addPort port w"
| "worker_act cfg env (Remove_Port port) w = removePort port w"
| "worker_act cfg env (Drain d) w = drain env d w"
| "worker_act cfg env (Engine_Closed d res) w = engineClosed d res w"
| "worker_act cfg env Record_Diagnostics w = recordCachedQueueDiagnostics env w"
| "worker_act cfg env ev w =
     (case w_running w of None \<Rightarrow> w | Some (entry, ph) \<Rightarrow> running_step cfg env ev entry ph w)"

definition worker_step :: "worker_config \<Rightarrow> worker_env \<times> worker_event \<Rightarrow> worker \<Rightarrow> unit \<times> worker" where
  "worker_step cfg ev w = ((), worker_act cfg (fst ev) (snd ev) w)"

end
