(* ===== verification/Engine_Queue_Laws.thy ===== *)
theory Engine_Queue_Laws
  imports Engine_Queue "HOL-Library.Multiset"
begin

text \<open>
  What the queue keeps: taking the selected request rearranges the requests only between barriers
  and never among query-data writes; the selection is the first of the most urgent eligible requests.
\<close>

section \<open>Blocks between barriers\<close>

text \<open>The barriers of a list in order, each with the multiset of elements before it, and the rest.\<close>

fun blocks :: "('a \<Rightarrow> bool) \<Rightarrow> 'a list \<Rightarrow> ('a multiset \<times> 'a) list \<times> 'a multiset" where
  "blocks B [] = ([], {#})"
| "blocks B (x # xs) =
     (case blocks B xs of
        (bs, m) \<Rightarrow>
          if B x then (({#}, x) # bs, m)
          else case bs of
            [] \<Rightarrow> ([], add_mset x m)
          | (n, b) # bs' \<Rightarrow> ((add_mset x n, b) # bs', m))"

lemma blocks_swap: "\<not> B x \<Longrightarrow> \<not> B y \<Longrightarrow> blocks B (x # y # zs) = blocks B (y # x # zs)"
  by (auto simp: add_mset_commute split: prod.split list.split)

lemma blocks_Cons_cong: "blocks B xs = blocks B ys \<Longrightarrow> blocks B (x # xs) = blocks B (x # ys)"
  by simp

lemma blocks_append_cong: "blocks B xs = blocks B ys \<Longrightarrow> blocks B (zs @ xs) = blocks B (zs @ ys)"
  by (induction zs) simp_all

lemma blocks_move:
  assumes "\<not> B y" "list_all (\<lambda>x. \<not> B x) xs"
  shows "blocks B (xs @ y # zs) = blocks B (y # xs @ zs)"
  using assms(2)
proof (induction xs)
  case (Cons x xs)
  have "blocks B (x # xs @ y # zs) = blocks B (x # y # xs @ zs)"
    using Cons by (intro blocks_Cons_cong) simp
  also have "\<dots> = blocks B (y # x # xs @ zs)" using Cons.prems assms(1) by (intro blocks_swap) simp_all
  finally show ?case by simp
qed simp

lemma blocks_move_list:
  assumes "list_all (\<lambda>x. \<not> B x) ys" "list_all (\<lambda>x. \<not> B x) xs"
  shows "blocks B (xs @ ys @ zs) = blocks B (ys @ xs @ zs)"
  using assms(1)
proof (induction ys)
  case (Cons y ys)
  have "blocks B (xs @ y # ys @ zs) = blocks B (y # xs @ ys @ zs)"
    using blocks_move [of B y xs "ys @ zs"] Cons.prems assms(2) by simp
  also have "\<dots> = blocks B (y # ys @ xs @ zs)" using Cons by (intro blocks_Cons_cong) simp
  finally show ?case by simp
qed simp

lemma blocks_snoc:
  "blocks B (xs @ [y]) = (if B y then (fst (blocks B xs) @ [(snd (blocks B xs), y)], {#})
     else (fst (blocks B xs), add_mset y (snd (blocks B xs))))"
  by (induction xs) (auto split: prod.split list.split)

lemma blocks_snoc_cong:
  "blocks B xs = blocks B ys \<Longrightarrow> blocks B (xs @ [y]) = blocks B (ys @ [y])"
  by (simp add: blocks_snoc)

lemma blocks_mset:
  "mset xs = sum_list (List.map (\<lambda>(m, b). add_mset b m) (fst (blocks B xs))) + snd (blocks B xs)"
  by (induction xs) (auto split: prod.split list.split)

section \<open>Selection\<close>

lemma find_index_Some:
  "find_index P xs = Some i \<Longrightarrow> i < length xs \<and> P (xs ! i) \<and> (\<forall>j < i. \<not> P (xs ! j))"
proof (induction xs arbitrary: i)
  case (Cons x xs)
  show ?case
  proof (cases "P x")
    case True
    then show ?thesis using Cons.prems by simp
  next
    case False
    then obtain j where j: "find_index P xs = Some j" "i = Suc j" using Cons.prems by auto
    show ?thesis using Cons.IH [OF j(1)] False j(2) by (auto simp: nth_Cons split: nat.split)
  qed
qed simp

lemma find_index_None: "find_index P xs = None \<longleftrightarrow> list_all (\<lambda>x. \<not> P x) xs"
  by (induction xs) auto

lemma segmentEnd_free:
  "segmentEnd queue \<le> length queue" "i < segmentEnd queue \<Longrightarrow> \<not> barrier (queue ! i)"
  by (auto simp: segmentEnd_def find_index_None list_all_length split: option.splits
      dest!: find_index_Some)

text \<open>The eligible requests, and the reference selection: the first of the most urgent ones.\<close>

definition eligible_index :: "queued_engine_request list \<Rightarrow> nat \<Rightarrow> bool" where
  "eligible_index queue i \<longleftrightarrow> i < segmentEnd queue \<and>
     (i = 0 \<or> \<not> data_write (queue ! i) \<or> Some i = firstQueryDataWrite queue)"

definition most_urgent :: "queued_engine_request list \<Rightarrow> nat \<Rightarrow> bool" where
  "most_urgent queue i \<longleftrightarrow> eligible_index queue i \<and>
     (\<forall>j. eligible_index queue j \<longrightarrow> qe_priority (queue ! j) \<le> qe_priority (queue ! i)) \<and>
     (\<forall>j < i. eligible_index queue j \<longrightarrow> qe_priority (queue ! j) < qe_priority (queue ! i))"

lemma select_prefix:
  assumes "0 < n" "n \<le> segmentEnd queue"
  defines "s \<equiv> foldl (better queue) 0 [1..<n]"
  shows "s < n \<and> eligible_index queue s \<and>
    (\<forall>j < n. eligible_index queue j \<longrightarrow> qe_priority (queue ! j) \<le> qe_priority (queue ! s)) \<and>
    (\<forall>j < s. eligible_index queue j \<longrightarrow> qe_priority (queue ! j) < qe_priority (queue ! s))"
  using assms(1,2) unfolding s_def
proof (induction n)
  case (Suc n)
  show ?case
  proof (cases "n = 0")
    case True
    then show ?thesis using Suc.prems by (simp add: eligible_index_def)
  next
    case False
    define t where "t = foldl (better queue) 0 [1..<n]"
    have t: "t < n" "eligible_index queue t"
      "\<forall>j < n. eligible_index queue j \<longrightarrow> qe_priority (queue ! j) \<le> qe_priority (queue ! t)"
      "\<forall>j < t. eligible_index queue j \<longrightarrow> qe_priority (queue ! j) < qe_priority (queue ! t)"
      using Suc.IH False Suc.prems unfolding t_def by auto
    have "[1..<Suc n] = [1..<n] @ [n]" using False by simp
    then have s: "foldl (better queue) 0 [1..<Suc n] = better queue t n" by (simp add: t_def)
    have e: "eligible_index queue n \<longleftrightarrow> \<not> data_write (queue ! n) \<or> Some n = firstQueryDataWrite queue"
      using False Suc.prems by (simp add: eligible_index_def)
    show ?thesis
    proof (cases "eligible_index queue n \<and> qe_priority (queue ! t) < qe_priority (queue ! n)")
      case True
      then have "better queue t n = n" using e by (simp add: better_def)
      then show ?thesis unfolding s using t(3) True by (force simp: less_Suc_eq)
    next
      case False
      then have "better queue t n = t" using e by (auto simp: better_def)
      then show ?thesis unfolding s using t False by (force simp: less_Suc_eq)
    qed
  qed
qed simp

lemma select_most_urgent:
  assumes "0 < segmentEnd queue" shows "most_urgent queue (select_index queue)"
  using select_prefix [OF assms order_refl] unfolding most_urgent_def select_index_def
  by (auto simp: eligible_index_def)

lemma most_urgent_unique: "most_urgent queue i \<Longrightarrow> most_urgent queue j \<Longrightarrow> i = j"
  unfolding most_urgent_def by (metis leD linorder_neqE_nat)

lemma select_bound: "queue \<noteq> [] \<Longrightarrow> select_index queue < length queue"
proof (cases "segmentEnd queue = 0")
  case False
  then show ?thesis
    using select_prefix [of "segmentEnd queue" queue] segmentEnd_free(1) [of queue]
    by (simp add: select_index_def)
qed (simp add: select_index_def)

section \<open>Entries and their waiters\<close>

definition wbarrier :: "waiter \<Rightarrow> bool" where
  "wbarrier wa = isOrderingBarrier (wa_request wa)"

definition wwrite :: "waiter \<Rightarrow> bool" where
  "wwrite wa = isQueryDataWrite (wa_request wa)"

definition flat :: "queued_engine_request list \<Rightarrow> waiter list" where
  "flat qs = concat (List.map qe_waiters qs)"

lemma flat_simps [simp]: "flat [] = []" "flat (q # qs) = qe_waiters q @ flat qs" "flat (qs @ rs) = flat qs @ flat rs"
  by (simp_all add: flat_def)

text \<open>All waiters of an entry asked for the entry's request, or for a read of the same signature.\<close>

definition entry_ok :: "(jsval \<Rightarrow> js_string) \<Rightarrow> queued_engine_request \<Rightarrow> bool" where
  "entry_ok json q \<longleftrightarrow> qe_signature q = readSignature json (qe_request q) \<and> qe_waiters q \<noteq> [] \<and>
     (case qe_signature q of
        None \<Rightarrow> List.map wa_request (qe_waiters q) = [qe_request q]
      | Some s \<Rightarrow> list_all (\<lambda>wa. readSignature json (wa_request wa) = Some s) (qe_waiters q))"

lemma read_kinds: "readSignature json r = Some s \<Longrightarrow> \<not> isOrderingBarrier r \<and> \<not> isQueryDataWrite r"
  by (auto simp: readSignature_def isOrderingBarrier_def isQueryDataWrite_def kind_is_def split: if_splits)

lemma entry_waiters:
  assumes "entry_ok json q"
  shows "\<not> barrier q \<Longrightarrow> list_all (\<lambda>wa. \<not> wbarrier wa) (qe_waiters q)"
    "\<not> data_write q \<Longrightarrow> filter wwrite (qe_waiters q) = []"
    "data_write q \<Longrightarrow> filter wwrite (qe_waiters q) = qe_waiters q"
  using assms
  by (auto simp: entry_ok_def barrier_def data_write_def wbarrier_def wwrite_def list_all_iff filter_empty_conv
      filter_id_conv map_eq_Cons_conv dest: read_kinds split: option.splits)

lemma free_flat:
  "list_all (entry_ok json) qs \<Longrightarrow> list_all (\<lambda>q. \<not> barrier q) qs \<Longrightarrow> list_all (\<lambda>wa. \<not> wbarrier wa) (flat qs)"
  by (induction qs) (auto dest: entry_waiters(1))

lemma write_free_flat:
  "list_all (entry_ok json) qs \<Longrightarrow> list_all (\<lambda>q. \<not> data_write q) qs \<Longrightarrow> filter wwrite (flat qs) = []"
  by (induction qs) (simp, metis entry_waiters(2) flat_simps(2) filter_append append_Nil list.pred_inject(2))

section \<open>Taking a request\<close>

definition taken :: "nat \<Rightarrow> queued_engine_request list \<Rightarrow> queued_engine_request list" where
  "taken i queue = take i queue @ drop (Suc i) queue"

lemma take_selected:
  assumes ok: "list_all (entry_ok json) queue" and ne: "queue \<noteq> []"
  defines "i \<equiv> select_index queue"
  shows "blocks wbarrier (flat (queue ! i # taken i queue)) = blocks wbarrier (flat queue)"
    "filter wwrite (flat (queue ! i # taken i queue)) = filter wwrite (flat queue)"
proof -
  have i: "i < length queue" using select_bound [OF ne] by (simp add: i_def)
  define pre post e where "pre = take i queue" and "post = drop (Suc i) queue" and "e = queue ! i"
  have split: "queue = pre @ e # post" using id_take_nth_drop [OF i] by (simp add: pre_def post_def e_def)
  have oks: "list_all (entry_ok json) pre" "entry_ok json e"
    using ok unfolding split by simp_all
  have cases: "pre = [] \<or> list_all (\<lambda>q. \<not> barrier q) pre \<and> \<not> barrier e \<and>
      (\<not> data_write e \<or> list_all (\<lambda>q. \<not> data_write q) pre)"
  proof (cases "i = 0")
    case True
    then show ?thesis by (simp add: pre_def)
  next
    case False
    then have "0 < segmentEnd queue" by (cases "segmentEnd queue") (auto simp: i_def select_index_def)
    then have el: "eligible_index queue i" using select_most_urgent by (simp add: i_def most_urgent_def)
    then have lt: "i < segmentEnd queue" by (simp add: eligible_index_def)
    have "\<not> barrier (queue ! j)" if "j \<le> i" for j using segmentEnd_free(2) lt that by simp
    then have b: "list_all (\<lambda>q. \<not> barrier q) pre" "\<not> barrier e"
      using i by (auto simp: list_all_length pre_def e_def)
    have "\<not> data_write e \<or> Some i = firstQueryDataWrite queue"
      using el False by (simp add: eligible_index_def e_def)
    then have "\<not> data_write e \<or> list_all (\<lambda>q. \<not> data_write q) pre"
    proof
      assume "Some i = firstQueryDataWrite queue"
      then have "find_index data_write (take (segmentEnd queue) queue) = Some i"
        by (simp add: firstQueryDataWrite_def)
      then show ?thesis
        using find_index_Some lt segmentEnd_free(1) [of queue] i
        by (auto simp: list_all_length pre_def dest!: find_index_Some)
    qed simp
    then show ?thesis using b by simp
  qed
  have t: "flat (queue ! i # taken i queue) = qe_waiters e @ flat pre @ flat post"
    by (simp add: taken_def pre_def post_def e_def)
  have q: "flat queue = flat pre @ qe_waiters e @ flat post" by (simp add: split)
  show "blocks wbarrier (flat (queue ! i # taken i queue)) = blocks wbarrier (flat queue)"
    unfolding t q using cases
  proof
    assume "list_all (\<lambda>q. \<not> barrier q) pre \<and> \<not> barrier e \<and>
      (\<not> data_write e \<or> list_all (\<lambda>q. \<not> data_write q) pre)"
    then show "blocks wbarrier (qe_waiters e @ flat pre @ flat post) =
        blocks wbarrier (flat pre @ qe_waiters e @ flat post)"
      using blocks_move_list [of wbarrier "qe_waiters e" "flat pre" "flat post"]
        free_flat [OF oks(1)] entry_waiters(1) [OF oks(2)] by simp
  qed simp
  show "filter wwrite (flat (queue ! i # taken i queue)) = filter wwrite (flat queue)"
    unfolding t q using cases entry_waiters(2) [OF oks(2)] write_free_flat [OF oks(1)] by auto
qed

lemma taken_ok: "list_all (entry_ok json) queue \<Longrightarrow> list_all (entry_ok json) (taken i queue)"
  by (auto simp: taken_def list_all_iff dest: in_set_takeD in_set_dropD)

section \<open>Inserting a request\<close>

lemma segmentStart_free: "list_all (\<lambda>q. \<not> barrier q) (drop (segmentStart queue) queue)"
proof -
  let ?t = "takeWhile (\<lambda>q. \<not> barrier q) (rev queue)"
  have "drop (segmentStart queue) queue = rev (take (length ?t) (rev queue))"
    by (simp add: segmentStart_def take_rev)
  also have "\<dots> = rev ?t" by (simp flip: takeWhile_eq_take)
  finally show ?thesis by (auto simp: list_all_iff dest: set_takeWhileD)
qed

lemma fresh_ok: "entry_ok json (fresh_entry json wa)"
  by (simp add: entry_ok_def fresh_entry_def split: option.split)

lemma insert_request_laws:
  assumes ok: "list_all (entry_ok json) queue"
  shows "list_all (entry_ok json) (insert_request json wa queue)"
    "blocks wbarrier (flat (insert_request json wa queue)) = blocks wbarrier (flat queue @ [wa])"
    "filter wwrite (flat (insert_request json wa queue)) = filter wwrite (flat queue @ [wa])"
    "insert_request json wa queue \<noteq> []"
proof -
  let ?new = "insert_request json wa queue"
  have "list_all (entry_ok json) ?new \<and> blocks wbarrier (flat ?new) = blocks wbarrier (flat queue @ [wa]) \<and>
      filter wwrite (flat ?new) = filter wwrite (flat queue @ [wa]) \<and> ?new \<noteq> []"
  proof (cases "\<exists>s i. readSignature json (wa_request wa) = Some s \<and> duplicate_index s queue = Some i")
    case False
    then have "?new = queue @ [fresh_entry json wa]"
      by (auto simp: insert_request_def split: option.split)
    then show ?thesis using ok fresh_ok by (simp add: fresh_entry_def)
  next
    case True
    then obtain s i where s: "readSignature json (wa_request wa) = Some s" "duplicate_index s queue = Some i"
      by blast
    obtain k where k: "find_index (\<lambda>q. qe_signature q = Some s) (drop (segmentStart queue) queue) = Some k"
      "i = segmentStart queue + k"
      using s(2) by (auto simp: duplicate_index_def)
    have i: "i < length queue" "qe_signature (queue ! i) = Some s"
      using find_index_Some [OF k(1)] k(2) by auto
    define pre post d where "pre = take i queue" and "post = drop (Suc i) queue" and "d = queue ! i"
    have split: "queue = pre @ d # post" using id_take_nth_drop [OF i(1)] by (simp add: pre_def post_def d_def)
    define d' where "d' = d\<lparr>qe_priority := max (qe_priority d) (requestPriority (wa_request wa)),
        qe_waiters := qe_waiters d @ [wa]\<rparr>"
    have new: "?new = pre @ d' # post"
      using i s by (simp add: insert_request_def Let_def d'_def d_def pre_def post_def upd_conv_take_nth_drop)
    have oks: "list_all (entry_ok json) pre" "entry_ok json d" "list_all (entry_ok json) post"
      using ok unfolding split by simp_all
    have "qe_signature d = Some s" using i(2) by (simp add: d_def)
    then have d': "entry_ok json d'"
      using oks(2) s(1) unfolding entry_ok_def d'_def by (auto split: option.splits)
    have "post = drop (Suc k) (drop (segmentStart queue) queue)" by (simp add: post_def k(2) add.commute)
    then have "list_all (\<lambda>q. \<not> barrier q) post"
      using segmentStart_free [of queue] unfolding list_all_iff by (metis in_set_dropD)
    then have free: "list_all (\<lambda>wa. \<not> wbarrier wa) (flat post)" by (rule free_flat [OF oks(3)])
    have nb: "\<not> wbarrier wa" "\<not> wwrite wa" using read_kinds [OF s(1)] by (simp_all add: wbarrier_def wwrite_def)
    have "blocks wbarrier (flat post @ [wa]) = blocks wbarrier (wa # flat post)"
      using blocks_move [of wbarrier wa "flat post" "[]"] free nb by simp
    then have "blocks wbarrier (flat pre @ qe_waiters d @ flat post @ [wa]) =
        blocks wbarrier (flat pre @ qe_waiters d @ wa # flat post)"
      by (intro blocks_append_cong)
    moreover have "flat queue = flat pre @ qe_waiters d @ flat post" by (simp add: split)
    ultimately show ?thesis using oks d' nb unfolding new by (simp add: d'_def)
  qed
  then show "list_all (entry_ok json) ?new" "blocks wbarrier (flat ?new) = blocks wbarrier (flat queue @ [wa])"
    "filter wwrite (flat ?new) = filter wwrite (flat queue @ [wa])" "?new \<noteq> []" by simp_all
qed

end
