(* ===== verification/Worker_Laws.thy ===== *)
theory Worker_Laws
  imports Worker_Core Engine_Queue_Laws
begin

text \<open>
  The invariant of the engine worker: the queue's entries, the order of dispatch against the order of
  arrival, the count of active handlers, the phase of the running dispatch, drain and the life of
  the engine. Every event keeps it.
\<close>

section \<open>Reading the log\<close>

fun dispatched_of :: "worker_output \<Rightarrow> queued_engine_request list" where
  "dispatched_of (Dispatched e) = [e]"
| "dispatched_of _ = []"

definition dispatched :: "worker \<Rightarrow> queued_engine_request list" where
  "dispatched w = concat (List.map dispatched_of (w_out w))"

fun is_open :: "worker_output \<Rightarrow> bool" where
  "is_open (Open_Called r s h) = True"
| "is_open _ = False"

definition opens :: "worker \<Rightarrow> nat" where
  "opens w = length (filter is_open (w_out w))"

definition closes :: "worker \<Rightarrow> nat" where
  "closes w = count_list (w_out w) Close_Called"

section \<open>Invariant\<close>

definition pending :: "worker \<Rightarrow> waiter list" where
  "pending w = (case w_running w of None \<Rightarrow> [] | Some (e, ph) \<Rightarrow> qe_waiters e) @ flat (w_queue w)"

definition in_arrival_order :: "waiter list \<Rightarrow> worker \<Rightarrow> bool" where
  "in_arrival_order ws w \<longleftrightarrow>
     blocks wbarrier (flat (dispatched w @ w_queue w)) = blocks wbarrier ws \<and>
     filter wwrite (flat (dispatched w @ w_queue w)) = filter wwrite ws"

definition initializing :: "phase \<Rightarrow> bool" where
  "initializing ph \<longleftrightarrow> ph = Init_Loading \<or> (\<exists>t. ph = Init_Opening t) \<or> ph = Init_Refreshing"

definition phase_ok :: "worker_config \<Rightarrow> worker \<Rightarrow> bool" where
  "phase_ok cfg w \<longleftrightarrow>
     (w_running w = None \<longrightarrow> w_queue w = [] \<and> w_init w \<noteq> Init_Running) \<and>
     (\<forall>e ph. w_running w = Some (e, ph) \<longrightarrow>
        (if ph = Refreshing_After then qe_waiters e = [] else entry_ok (wc_json cfg) e) \<and>
        (w_init w = Init_Running \<longleftrightarrow> initializing ph))"

text \<open>The engine is opened at most once and closed at most once.\<close>

definition closed_engine :: "worker \<Rightarrow> bool" where
  "closed_engine w \<longleftrightarrow> \<not> w_engine w \<and> closes w = 0"

definition engine_ok :: "worker \<Rightarrow> bool" where
  "engine_ok w \<longleftrightarrow> opens w \<le> 1 \<and> closes w \<le> 1 \<and> (w_engine w \<longrightarrow> closes w = 0) \<and>
     (w_init w = No_Init \<longrightarrow> opens w = 0 \<and> closed_engine w) \<and>
     (\<forall>err. w_init w = Init_Failed err \<longrightarrow> closed_engine w) \<and>
     (\<forall>e. w_running w = Some (e, Init_Loading) \<longrightarrow> opens w = 0 \<and> closed_engine w) \<and>
     (\<forall>e t. w_running w = Some (e, Init_Opening t) \<longrightarrow> closed_engine w)"

definition drain_ok :: "worker \<Rightarrow> bool" where
  "drain_ok w \<longleftrightarrow> (w_drains w \<noteq> [] \<longrightarrow> \<not> w_accepting w \<and> w_running w \<noteq> None) \<and>
     (w_accepting w \<longrightarrow> w_closing w = [] \<and> closes w = 0)"

definition worker_inv :: "worker_config \<Rightarrow> waiter list \<Rightarrow> worker \<Rightarrow> bool" where
  "worker_inv cfg ws w \<longleftrightarrow> list_all (entry_ok (wc_json cfg)) (w_queue w) \<and> in_arrival_order ws w \<and>
     w_active w = int (length (pending w)) \<and> phase_ok cfg w \<and> engine_ok w \<and> drain_ok w"

section \<open>Frame\<close>

text \<open>What the handlers of a running dispatch leave alone.\<close>

definition still where
  "still w = (dispatched w, w_queue w, w_running w, w_init w, w_scope w, w_hot w, w_accepting w, w_engine w,
     w_drains w, w_closing w, w_ports w, opens w, closes w)"

lemma still_parts:
  assumes "still w' = still w"
  shows "dispatched w' = dispatched w" "w_queue w' = w_queue w" "w_running w' = w_running w"
    "w_init w' = w_init w" "w_engine w' = w_engine w" "w_drains w' = w_drains w"
    "w_accepting w' = w_accepting w" "w_closing w' = w_closing w" "opens w' = opens w" "closes w' = closes w"
    "w_scope w' = w_scope w" "w_hot w' = w_hot w" "w_ports w' = w_ports w"
  using assms by (simp_all add: still_def)

fun neutral :: "worker_output \<Rightarrow> bool" where
  "neutral (Dispatched e) = False"
| "neutral (Open_Called r s h) = False"
| "neutral Close_Called = False"
| "neutral _ = True"

lemma log_put [simp]:
  "dispatched (put out w) = dispatched w @ dispatched_of out"
  "opens (put out w) = opens w + of_bool (is_open out)"
  "closes (put out w) = closes w + of_bool (out = Close_Called)"
  by (simp_all add: dispatched_def opens_def closes_def put_def)

lemma put_fields [simp]:
  "w_queue (put out w) = w_queue w" "w_running (put out w) = w_running w" "w_init (put out w) = w_init w"
  "w_engine (put out w) = w_engine w" "w_drains (put out w) = w_drains w" "w_active (put out w) = w_active w"
  "w_accepting (put out w) = w_accepting w" "w_closing (put out w) = w_closing w"
  "w_scope (put out w) = w_scope w" "w_hot (put out w) = w_hot w" "w_ports (put out w) = w_ports w"
  "w_diag (put out w) = w_diag w" "w_reset (put out w) = w_reset w" "w_diag_at (put out w) = w_diag_at w"
  by (simp_all add: put_def)

lemma neutral_put: "neutral out \<Longrightarrow> still (put out w) = still w"
  by (cases out) (simp_all add: still_def)

lemma log_fields [simp]:
  "dispatched (w\<lparr>w_engine := x0\<rparr>) = dispatched w"
  "dispatched (w\<lparr>w_init := x1\<rparr>) = dispatched w"
  "dispatched (w\<lparr>w_scope := x2\<rparr>) = dispatched w"
  "dispatched (w\<lparr>w_hot := x3\<rparr>) = dispatched w"
  "dispatched (w\<lparr>w_queue := x4\<rparr>) = dispatched w"
  "dispatched (w\<lparr>w_running := x5\<rparr>) = dispatched w"
  "dispatched (w\<lparr>w_accepting := x6\<rparr>) = dispatched w"
  "dispatched (w\<lparr>w_active := x7\<rparr>) = dispatched w"
  "dispatched (w\<lparr>w_drains := x8\<rparr>) = dispatched w"
  "dispatched (w\<lparr>w_closing := x9\<rparr>) = dispatched w"
  "dispatched (w\<lparr>w_reset := x10\<rparr>) = dispatched w"
  "dispatched (w\<lparr>w_ports := x11\<rparr>) = dispatched w"
  "dispatched (w\<lparr>w_diag_at := x12\<rparr>) = dispatched w"
  "dispatched (w\<lparr>w_diag := x13\<rparr>) = dispatched w"
  "dispatched (w\<lparr>w_cancelled := x14\<rparr>) = dispatched w"
  "opens (w\<lparr>w_engine := x0\<rparr>) = opens w"
  "opens (w\<lparr>w_init := x1\<rparr>) = opens w"
  "opens (w\<lparr>w_scope := x2\<rparr>) = opens w"
  "opens (w\<lparr>w_hot := x3\<rparr>) = opens w"
  "opens (w\<lparr>w_queue := x4\<rparr>) = opens w"
  "opens (w\<lparr>w_running := x5\<rparr>) = opens w"
  "opens (w\<lparr>w_accepting := x6\<rparr>) = opens w"
  "opens (w\<lparr>w_active := x7\<rparr>) = opens w"
  "opens (w\<lparr>w_drains := x8\<rparr>) = opens w"
  "opens (w\<lparr>w_closing := x9\<rparr>) = opens w"
  "opens (w\<lparr>w_reset := x10\<rparr>) = opens w"
  "opens (w\<lparr>w_ports := x11\<rparr>) = opens w"
  "opens (w\<lparr>w_diag_at := x12\<rparr>) = opens w"
  "opens (w\<lparr>w_diag := x13\<rparr>) = opens w"
  "opens (w\<lparr>w_cancelled := x14\<rparr>) = opens w"
  "closes (w\<lparr>w_engine := x0\<rparr>) = closes w"
  "closes (w\<lparr>w_init := x1\<rparr>) = closes w"
  "closes (w\<lparr>w_scope := x2\<rparr>) = closes w"
  "closes (w\<lparr>w_hot := x3\<rparr>) = closes w"
  "closes (w\<lparr>w_queue := x4\<rparr>) = closes w"
  "closes (w\<lparr>w_running := x5\<rparr>) = closes w"
  "closes (w\<lparr>w_accepting := x6\<rparr>) = closes w"
  "closes (w\<lparr>w_active := x7\<rparr>) = closes w"
  "closes (w\<lparr>w_drains := x8\<rparr>) = closes w"
  "closes (w\<lparr>w_closing := x9\<rparr>) = closes w"
  "closes (w\<lparr>w_reset := x10\<rparr>) = closes w"
  "closes (w\<lparr>w_ports := x11\<rparr>) = closes w"
  "closes (w\<lparr>w_diag_at := x12\<rparr>) = closes w"
  "closes (w\<lparr>w_diag := x13\<rparr>) = closes w"
  "closes (w\<lparr>w_cancelled := x14\<rparr>) = closes w"
  by (simp_all add: dispatched_def opens_def closes_def)

lemma still_frame [simp]:
  "still (w\<lparr>w_active := a\<rparr>) = still w" "still (w\<lparr>w_reset := b\<rparr>) = still w" "still (w\<lparr>w_diag_at := c\<rparr>) = still w"
  "still (w\<lparr>w_diag := d\<rparr>) = still w" "still (w\<lparr>w_cancelled := e\<rparr>) = still w"
  by (simp_all add: still_def dispatched_def opens_def closes_def)

lemma still_record [simp]: "still (record_event ob w) = still w" "w_active (record_event ob w) = w_active w"
  by (simp_all add: record_event_def neutral_put)

lemma still_cached [simp]:
  "still (recordCachedQueueDiagnostics env w) = still w"
  "w_active (recordCachedQueueDiagnostics env w) = w_active w"
  "still (diagnosticsFailed code w) = still w" "w_active (diagnosticsFailed code w) = w_active w"
  by (simp_all add: recordCachedQueueDiagnostics_def diagnosticsFailed_def)

lemma still_refresh [simp]:
  "still (snd (refreshQueueDiagnostics cfg env force w)) = still w"
  "w_active (snd (refreshQueueDiagnostics cfg env force w)) = w_active w"
  by (simp_all add: refreshQueueDiagnostics_def Let_def)

lemma still_outcome [simp]:
  "still (diagnosticsOutcome env oc w) = still w" "w_active (diagnosticsOutcome env oc w) = w_active w"
  by (cases oc; simp)+

lemma still_send [simp]:
  "still (snd (send_post env port message w)) = still w"
  "w_active (snd (send_post env port message w)) = w_active w"
  by (simp_all add: send_post_def neutral_put split: option.split)

lemma still_push_all [simp]:
  "still (snd (push_all env message ports w)) = still w"
  "w_active (snd (push_all env message ports w)) = w_active w"
  by (induction ports arbitrary: w) (simp_all add: case_prod_beta split: option.split)

lemma still_fanOut [simp]:
  "still (snd (fanOut cfg env ops ch rv w)) = still w"
  "w_active (snd (fanOut cfg env ops ch rv w)) = w_active w"
  by (simp_all add: fanOut_def push_def case_prod_beta split: option.split)

lemma still_finish [simp]:
  "still (snd (finishDispatch cfg env req v w)) = still w"
  "w_active (snd (finishDispatch cfg env req v w)) = w_active w"
proof -
  have t: "snd (then_result x r) = snd r" for x r
    by (cases r) (simp add: then_result_def split: option.split)
  have f: "still (snd (finishWrite cfg env req v rv w)) = still w \<and>
      w_active (snd (finishWrite cfg env req v rv w)) = w_active w" for rv
    by (simp add: finishWrite_def case_prod_beta t push_def split: option.split)
  then show "still (snd (finishDispatch cfg env req v w)) = still w"
    "w_active (snd (finishDispatch cfg env req v w)) = w_active w"
    by (simp_all add: finishDispatch_def t push_def split: sum.split)
qed

lemma still_reset [simp]:
  "still (reportResetRequired err w) = still w" "w_active (reportResetRequired err w) = w_active w"
  by (simp_all add: reportResetRequired_def neutral_put)

section \<open>Handlers of a running dispatch\<close>

lemma still_done:
  assumes "w_running w \<noteq> None"
  shows "still (handlerDone env w) = still w \<and> w_active (handlerDone env w) = w_active w - 1"
  using assms by (simp add: handlerDone_def resolveDrainWaitersIfIdle_def busy_def)

lemma still_telemetry [simp]:
  "still (recordFailure env err wa w) = still w" "w_active (recordFailure env err wa w) = w_active w"
  "still (recordSuccess env v wa w) = still w" "w_active (recordSuccess env v wa w) = w_active w"
  by (simp_all add: recordFailure_def recordSuccess_def Let_def split: option.split)

lemma still_done_from:
  assumes "w_running w \<noteq> None" "still u = still w" "w_active u = w_active w"
  shows "still (handlerDone env u) = still w \<and> w_active (handlerDone env u) = w_active w - 1"
  using still_done [of u env] still_parts(3) [OF assms(2)] assms by simp

lemma still_failed:
  assumes "w_running w \<noteq> None"
  shows "still (handlerFailed env err wa w) = still w \<and> w_active (handlerFailed env err wa w) = w_active w - 1"
proof -
  let ?p = "send_post env (wa_port wa) (response_err_val (wa_request wa) (th_message err))
      (reportResetRequired err (recordFailure env err wa w))"
  have "still (snd ?p) = still w" "w_active (snd ?p) = w_active w"
    "still (put (Handler_Rejected wa) (snd ?p)) = still w" "w_active (put (Handler_Rejected wa) (snd ?p)) = w_active w"
    by (simp_all add: neutral_put)
  then show ?thesis
    using still_done_from [OF assms] unfolding handlerFailed_def case_prod_beta
    by (simp split: option.split)
qed

lemma still_succeeded:
  assumes "w_running w \<noteq> None"
  shows "still (handlerSucceeded env v wa w) = still w \<and> w_active (handlerSucceeded env v wa w) = w_active w - 1"
proof -
  let ?p = "send_post env (wa_port wa) (response_ok_val (wa_request wa) v) (recordSuccess env v wa w)"
  have u: "still (snd ?p) = still w" "w_active (snd ?p) = w_active w" by simp_all
  then have "w_running (snd ?p) \<noteq> None" using assms still_parts(3) [OF u(1)] by simp
  then have "still (handlerFailed env err wa (snd ?p)) = still w \<and>
      w_active (handlerFailed env err wa (snd ?p)) = w_active w - 1" for err
    using still_failed u by simp
  then show ?thesis
    using still_done_from [OF assms u] unfolding handlerSucceeded_def case_prod_beta
    by (simp split: option.split)
qed

lemma still_fold:
  assumes "\<And>wa w. w_running w \<noteq> None \<Longrightarrow> still (f wa w) = still w \<and> w_active (f wa w) = w_active w - 1"
    and "w_running w \<noteq> None"
  shows "still (fold f was w) = still w \<and> w_active (fold f was w) = w_active w - int (length was)"
  using assms(2)
proof (induction was arbitrary: w)
  case (Cons wa was)
  have 1: "still (f wa w) = still w" "w_active (f wa w) = w_active w - 1" using assms(1) Cons.prems by simp_all
  then have "w_running (f wa w) \<noteq> None" using Cons.prems still_parts(3) [OF 1(1)] by simp
  then show ?case using Cons.IH [of "f wa w"] 1 by simp
qed simp

section \<open>Dispatching\<close>

lemma arrival_inv_still:
  "still w' = still w \<Longrightarrow> in_arrival_order ws w' = in_arrival_order ws w"
  using still_parts(1,2) [of w' w] by (simp add: in_arrival_order_def)

text \<open>What is left of the invariant when nothing runs and the queue may hold requests.\<close>

definition halted :: "worker_config \<Rightarrow> waiter list \<Rightarrow> worker \<Rightarrow> bool" where
  "halted cfg ws w \<longleftrightarrow> list_all (entry_ok (wc_json cfg)) (w_queue w) \<and> in_arrival_order ws w \<and>
     w_active w = int (length (flat (w_queue w))) \<and> w_running w = None \<and> w_init w \<noteq> Init_Running \<and>
     engine_ok w \<and> (w_drains w \<noteq> [] \<longrightarrow> \<not> w_accepting w) \<and>
     (w_accepting w \<longrightarrow> w_closing w = [] \<and> closes w = 0)"

lemma dispatch_start_log:
  "dispatched (snd (dispatch_start req w)) = dispatched w" "w_queue (snd (dispatch_start req w)) = w_queue w"
  "w_active (snd (dispatch_start req w)) = w_active w" "w_drains (snd (dispatch_start req w)) = w_drains w"
  "w_accepting (snd (dispatch_start req w)) = w_accepting w" "w_closing (snd (dispatch_start req w)) = w_closing w"
  "closes (snd (dispatch_start req w)) = closes w" "opens (snd (dispatch_start req w)) = opens w"
  "w_engine (snd (dispatch_start req w)) = w_engine w"
  by (simp_all add: dispatch_start_def init_start_def Let_def split: init_state.split)

lemma dispatch_start_phase:
  assumes "dispatch_start req w = (ph, w')" "w_init w \<noteq> Init_Running"
  shows "ph \<noteq> Refreshing_After" "w_init w' = Init_Running \<longleftrightarrow> initializing ph"
    "ph = Init_Loading \<Longrightarrow> w_init w = No_Init" "ph \<noteq> Init_Opening t"
    "ph \<noteq> Init_Loading \<Longrightarrow> w_init w' = w_init w"
  using assms
  by (auto simp: dispatch_start_def init_start_def initializing_def Let_def split: if_splits init_state.splits)

lemma drainQueue_inv:
  assumes h: "halted cfg ws w" and q: "w_queue w \<noteq> []"
  shows "worker_inv cfg ws (drainQueue w) \<and> w_running (drainQueue w) \<noteq> None"
proof -
  define i where "i = select_index (w_queue w)"
  define e where "e = w_queue w ! i"
  define w1 where "w1 = put (Dispatched e) (w\<lparr>w_queue := taken i (w_queue w)\<rparr>)"
  obtain ph w2 where d: "dispatch_start (qe_request e) w1 = (ph, w2)" by fastforce
  have eq: "drainQueue w = w2\<lparr>w_running := Some (e, ph)\<rparr>"
    using h q d by (simp add: drainQueue_def halted_def Let_def w1_def e_def i_def taken_def)
  have ok: "list_all (entry_ok (wc_json cfg)) (w_queue w)" using h by (simp add: halted_def)
  have i: "i < length (w_queue w)" using select_bound [OF q] by (simp add: i_def)
  have eok: "entry_ok (wc_json cfg) e" using ok i by (simp add: list_all_length e_def)
  note log = dispatch_start_log [of "qe_request e" w1, unfolded d snd_conv]
  have w2: "w_queue w2 = taken i (w_queue w)" "dispatched w2 = dispatched w @ [e]" "w_active w2 = w_active w"
    "w_drains w2 = w_drains w" "w_accepting w2 = w_accepting w" "w_closing w2 = w_closing w"
    "closes w2 = closes w" "opens w2 = opens w" "w_engine w2 = w_engine w"
    using log by (simp_all add: w1_def)
  have init1: "w_init w1 = w_init w" by (simp add: w1_def)
  have ph: "ph \<noteq> Refreshing_After" "w_init w2 = Init_Running \<longleftrightarrow> initializing ph"
    "ph = Init_Loading \<Longrightarrow> w_init w = No_Init" "\<And>t. ph \<noteq> Init_Opening t"
    "ph \<noteq> Init_Loading \<Longrightarrow> w_init w2 = w_init w"
    using dispatch_start_phase [OF d] h init1 by (auto simp: halted_def)
  have flat: "flat (dispatched w2 @ w_queue w2) = flat (dispatched w) @ flat (e # taken i (w_queue w))"
    by (simp add: w2)
  have "in_arrival_order ws w2"
    using h blocks_append_cong [OF take_selected(1) [OF ok q]] take_selected(2) [OF ok q]
    unfolding in_arrival_order_def halted_def flat by (simp add: i_def e_def)
  moreover have "list_all (entry_ok (wc_json cfg)) (w_queue w2)" using taken_ok [OF ok] w2 by simp
  moreover have "w_active w2 = int (length (qe_waiters e @ flat (w_queue w2)))"
  proof -
    have "w_queue w = take i (w_queue w) @ e # drop (Suc i) (w_queue w)"
      unfolding e_def by (rule id_take_nth_drop [OF i])
    then have "length (flat (w_queue w)) = length (flat (take i (w_queue w) @ e # drop (Suc i) (w_queue w)))"
      by simp
    then show ?thesis using h w2 by (simp add: halted_def taken_def)
  qed
  moreover have "engine_ok (w2\<lparr>w_running := Some (e, ph)\<rparr>)"
  proof (cases "ph = Init_Loading")
    case True
    then have "opens w = 0" "closed_engine w" using h ph(3) by (auto simp: halted_def engine_ok_def)
    moreover have "w_init w2 = Init_Running" using ph(2) True by (simp add: initializing_def)
    ultimately show ?thesis using True w2 by (simp add: engine_ok_def closed_engine_def)
  next
    case False
    then show ?thesis using h ph(4,5) w2 by (simp add: halted_def engine_ok_def closed_engine_def)
  qed
  ultimately show ?thesis
    using h ph eok w2
    unfolding eq worker_inv_def
    by (simp add: in_arrival_order_def pending_def phase_ok_def drain_ok_def halted_def)
qed

text \<open>Resolving the drains of an idle worker.\<close>

lemma continueDrain_parts:
  "w_queue (continueDrain env d w) = w_queue w" "dispatched (continueDrain env d w) = dispatched w"
  "w_active (continueDrain env d w) = w_active w" "w_running (continueDrain env d w) = w_running w"
  "w_init (continueDrain env d w) = w_init w" "w_accepting (continueDrain env d w) = w_accepting w"
  "w_drains (continueDrain env d w) = w_drains w" "opens (continueDrain env d w) = opens w"
  "\<not> w_engine (continueDrain env d w)"
  "closes (continueDrain env d w) = closes w + of_bool (w_engine w)"
proof -
  have c: "still (recordCachedQueueDiagnostics env w) = still w" by simp
  show "w_queue (continueDrain env d w) = w_queue w" "dispatched (continueDrain env d w) = dispatched w"
    "w_active (continueDrain env d w) = w_active w" "w_running (continueDrain env d w) = w_running w"
    "w_init (continueDrain env d w) = w_init w" "w_accepting (continueDrain env d w) = w_accepting w"
    "w_drains (continueDrain env d w) = w_drains w" "opens (continueDrain env d w) = opens w"
    "\<not> w_engine (continueDrain env d w)"
    "closes (continueDrain env d w) = closes w + of_bool (w_engine w)"
    by (simp_all add: continueDrain_def Let_def still_parts [OF c])
qed

definition stopped_ok :: "worker_config \<Rightarrow> waiter list \<Rightarrow> worker \<Rightarrow> bool" where
  "stopped_ok cfg ws w \<longleftrightarrow> w_queue w = [] \<and> in_arrival_order ws w \<and> w_active w = 0 \<and> w_running w = None \<and>
     w_init w \<noteq> Init_Running \<and> engine_ok w \<and> \<not> w_accepting w"

lemma continueDrain_stopped:
  assumes "stopped_ok cfg ws w" shows "stopped_ok cfg ws (continueDrain env d w)"
  using assms
  by (auto simp: stopped_ok_def continueDrain_parts in_arrival_order_def engine_ok_def closed_engine_def)

lemma stopped_fold: "stopped_ok cfg ws w \<Longrightarrow> stopped_ok cfg ws (fold (continueDrain env) ds w) \<and>
    w_drains (fold (continueDrain env) ds w) = w_drains w"
  by (induction ds arbitrary: w) (simp_all add: continueDrain_stopped continueDrain_parts)

lemma stopped_inv: "stopped_ok cfg ws w \<Longrightarrow> w_drains w = [] \<Longrightarrow> worker_inv cfg ws w"
  by (simp add: stopped_ok_def worker_inv_def pending_def phase_ok_def drain_ok_def)

lemma engine_ok_frame [simp]:
  "engine_ok (w\<lparr>w_drains := a\<rparr>) = engine_ok w" "engine_ok (w\<lparr>w_active := b\<rparr>) = engine_ok w"
  "engine_ok (w\<lparr>w_accepting := c\<rparr>) = engine_ok w" "engine_ok (w\<lparr>w_queue := d\<rparr>) = engine_ok w"
  "engine_ok (w\<lparr>w_cancelled := e\<rparr>) = engine_ok w" "engine_ok (w\<lparr>w_closing := f\<rparr>) = engine_ok w"
  "engine_ok (w\<lparr>w_ports := g\<rparr>) = engine_ok w"
  by (simp_all add: engine_ok_def closed_engine_def)

lemma dispatchDone_inv:
  assumes h: "halted cfg ws (w\<lparr>w_running := None\<rparr>)"
  shows "worker_inv cfg ws (dispatchDone env w)"
proof (cases "w_queue w = []")
  case False
  then have d: "worker_inv cfg ws (drainQueue (w\<lparr>w_running := None\<rparr>))"
    "w_running (drainQueue (w\<lparr>w_running := None\<rparr>)) \<noteq> None"
    using drainQueue_inv [OF h] by simp_all
  then show ?thesis by (simp add: dispatchDone_def resolveDrainWaitersIfIdle_def busy_def)
next
  case True
  let ?u = "w\<lparr>w_running := None\<rparr>"
  have eq: "dispatchDone env w = fold (continueDrain env) (w_drains w) (?u\<lparr>w_drains := []\<rparr>)"
    using True h by (simp add: dispatchDone_def drainQueue_def resolveDrainWaitersIfIdle_def busy_def halted_def)
  show ?thesis
  proof (cases "w_drains w = []")
    case True
    then show ?thesis
      using h \<open>w_queue w = []\<close> unfolding eq
      by (simp add: halted_def worker_inv_def pending_def phase_ok_def drain_ok_def in_arrival_order_def)
  next
    case False
    then have "stopped_ok cfg ws (?u\<lparr>w_drains := []\<rparr>)"
      using h \<open>w_queue w = []\<close> by (simp add: stopped_ok_def halted_def in_arrival_order_def)
    then have "stopped_ok cfg ws (dispatchDone env w)" "w_drains (dispatchDone env w) = []"
      using stopped_fold unfolding eq by fastforce+
    then show ?thesis by (rule stopped_inv)
  qed
qed

text \<open>The state in which a dispatch of \<open>entry\<close> may settle.\<close>

definition settling :: "worker_config \<Rightarrow> waiter list \<Rightarrow> queued_engine_request \<Rightarrow> worker \<Rightarrow> bool" where
  "settling cfg ws entry w \<longleftrightarrow> list_all (entry_ok (wc_json cfg)) (w_queue w) \<and> in_arrival_order ws w \<and>
     w_active w = int (length (qe_waiters entry @ flat (w_queue w))) \<and> w_init w \<noteq> Init_Running \<and>
     engine_ok (w\<lparr>w_running := None\<rparr>) \<and> (w_drains w \<noteq> [] \<longrightarrow> \<not> w_accepting w) \<and>
     (w_accepting w \<longrightarrow> w_closing w = [] \<and> closes w = 0)"

lemma settling_still:
  assumes "still w' = still w" "w_active w' = w_active w"
  shows "settling cfg ws entry w' = settling cfg ws entry w"
proof -
  have "engine_ok (w'\<lparr>w_running := None\<rparr>) = engine_ok (w\<lparr>w_running := None\<rparr>)"
    using still_parts [OF assms(1)] by (simp add: engine_ok_def closed_engine_def)
  then show ?thesis
    using still_parts [OF assms(1)] arrival_inv_still [OF assms(1)] assms(2) by (simp add: settling_def)
qed

lemma waiters_answered:
  assumes s: "settling cfg ws entry w"
    and f: "\<And>wa w. w_running w \<noteq> None \<Longrightarrow> still (f wa w) = still w \<and> w_active (f wa w) = w_active w - 1"
  defines "u \<equiv> fold f (qe_waiters entry) (w\<lparr>w_running := Some (entry\<lparr>qe_waiters := []\<rparr>, Refreshing_After)\<rparr>)"
  shows "halted cfg ws (u\<lparr>w_running := None\<rparr>)" "w_running u = Some (entry\<lparr>qe_waiters := []\<rparr>, Refreshing_After)"
proof -
  let ?x = "w\<lparr>w_running := Some (entry\<lparr>qe_waiters := []\<rparr>, Refreshing_After)\<rparr>"
  have u: "still u = still ?x" "w_active u = w_active w - int (length (qe_waiters entry))"
    using still_fold [where f = f, OF f, of ?x "qe_waiters entry"] unfolding u_def by auto
  note p = still_parts [OF u(1)]
  show "w_running u = Some (entry\<lparr>qe_waiters := []\<rparr>, Refreshing_After)" using p by simp
  have "engine_ok (u\<lparr>w_running := None\<rparr>) = engine_ok (w\<lparr>w_running := None\<rparr>)"
    using p by (simp add: engine_ok_def closed_engine_def)
  then show "halted cfg ws (u\<lparr>w_running := None\<rparr>)"
    using s p u(2) by (simp add: halted_def settling_def in_arrival_order_def)
qed

lemma settleDispatch_inv:
  assumes s: "settling cfg ws entry w" shows "worker_inv cfg ws (settleDispatch cfg env entry res w)"
proof (cases res)
  case (Inl err)
  then show ?thesis
    using waiters_answered(1) [OF s still_failed] dispatchDone_inv
    by (simp add: settleDispatch_def)
next
  case (Inr v)
  obtain pd w1 where r: "(if isStorageTransactionRequest (qe_request entry)
      then refreshQueueDiagnostics cfg env False w else (False, w)) = (pd, w1)" by fastforce
  have "still w1 = still w" "w_active w1 = w_active w"
    using r still_refresh [of cfg env False w] by (auto split: if_splits simp del: still_refresh)
  then have s1: "settling cfg ws entry w1" using s settling_still by blast
  define u where "u = fold (handlerSucceeded env v) (qe_waiters entry)
      (w1\<lparr>w_running := Some (entry\<lparr>qe_waiters := []\<rparr>, Refreshing_After)\<rparr>)"
  have u: "halted cfg ws (u\<lparr>w_running := None\<rparr>)" "w_running u = Some (entry\<lparr>qe_waiters := []\<rparr>, Refreshing_After)"
    unfolding u_def by (rule waiters_answered [OF s1 still_succeeded]; simp)+
  have "worker_inv cfg ws u"
    using u by (auto simp: halted_def worker_inv_def in_arrival_order_def pending_def phase_ok_def
        initializing_def drain_ok_def engine_ok_def closed_engine_def)
  then show ?thesis
    using u dispatchDone_inv [OF u(1)] Inr r by (simp add: settleDispatch_def u_def Let_def)
qed

section \<open>Every event keeps the invariant\<close>

lemma worker_inv_still:
  assumes "still w' = still w" "w_active w' = w_active w" "worker_inv cfg ws w"
  shows "worker_inv cfg ws w'"
proof -
  note p = still_parts [OF assms(1)]
  have "pending w' = pending w" "phase_ok cfg w' = phase_ok cfg w" "drain_ok w' = drain_ok w"
    "engine_ok w' = engine_ok w"
    by (simp_all add: p pending_def phase_ok_def drain_ok_def engine_ok_def closed_engine_def)
  then show ?thesis using assms(2,3) arrival_inv_still [OF assms(1)] p by (simp add: worker_inv_def)
qed

lemma running_settling:
  assumes "worker_inv cfg ws w" "w_running w = Some (e, ph)" "\<not> initializing ph"
  shows "settling cfg ws e w"
  using assms
  by (auto simp: worker_inv_def settling_def pending_def phase_ok_def drain_ok_def engine_ok_def
      closed_engine_def)

text \<open>Initialization ends well, or with an error that leaves no engine.\<close>

lemma init_settling:
  assumes "worker_inv cfg ws w" "w_running w = Some (e, ph)"
    and "n = Init_Done \<or> (\<exists>err. n = Init_Failed err) \<and> closed_engine w"
  shows "settling cfg ws e (w\<lparr>w_init := n\<rparr>)"
  using assms
  by (auto simp: worker_inv_def settling_def pending_def phase_ok_def drain_ok_def engine_ok_def
      closed_engine_def in_arrival_order_def)

lemma loading_closed:
  assumes "worker_inv cfg ws w" "w_running w = Some (e, ph)" "ph = Init_Loading \<or> ph = Init_Opening t"
  shows "closed_engine w"
  using assms by (auto simp: worker_inv_def engine_ok_def)

lemma wasmLoaded_inv:
  assumes inv: "worker_inv cfg ws w" and r: "w_running w = Some (e, Init_Loading)"
  shows "worker_inv cfg ws (wasmLoaded cfg env e res w)"
proof (cases res)
  case (Some err)
  then show ?thesis
    using settleDispatch_inv [OF init_settling [OF inv r, of "Init_Failed err"]] loading_closed [OF inv r]
    by (simp add: wasmLoaded_def)
next
  case None
  have "opens w = 0" "closed_engine w" using inv r by (auto simp: worker_inv_def engine_ok_def)
  then show ?thesis
    using inv r None
    by (auto simp: wasmLoaded_def worker_inv_def in_arrival_order_def pending_def phase_ok_def drain_ok_def
        engine_ok_def closed_engine_def initializing_def)
qed

lemma engineOpened_inv:
  assumes inv: "worker_inv cfg ws w" and r: "w_running w = Some (e, Init_Opening t)"
  shows "worker_inv cfg ws (engineOpened cfg env e t res w)"
proof (cases res)
  case (Inl err)
  have s: "settling cfg ws e (w\<lparr>w_init := Init_Failed err\<rparr>)"
    using init_settling [OF inv r, of "Init_Failed err"] loading_closed [OF inv r] by simp
  have "settling cfg ws e (record_event ob (w\<lparr>w_init := Init_Failed err\<rparr>))" for ob
    using s settling_still [of "record_event ob (w\<lparr>w_init := Init_Failed err\<rparr>)"] by simp
  then show ?thesis using Inl settleDispatch_inv by (simp add: engineOpened_def)
next
  case (Inr reported)
  define openOutcome where "openOutcome = (case reported of Some oc \<Rightarrow> oc
      | None \<Rightarrow> if wc_recovery cfg then Reset_Storage_Uncertain else Opened_Existing)"
  define w2 where "w2 = record_event ((observed Schema_Init Cat_Initialization Out_Success (Some Code_None))
      \<lparr>ob_open := Some openOutcome, ob_duration := Some (we_now env - t)\<rparr>)
      (put (Open_Outcome openOutcome) (w\<lparr>w_engine := True\<rparr>))"
  obtain pd w3 where ref: "refreshQueueDiagnostics cfg env True w2 = (pd, w3)" by fastforce
  have "still w3 = still w2" "w_active w3 = w_active w2"
    using still_refresh [of cfg env True w2] by (simp_all add: ref del: still_refresh)
  moreover have "still w2 = still (w\<lparr>w_engine := True\<rparr>)" "w_active w2 = w_active w"
    by (simp_all add: w2_def neutral_put)
  ultimately have w3: "still w3 = still (w\<lparr>w_engine := True\<rparr>)" "w_active w3 = w_active w" by simp_all
  note p = still_parts [OF w3(1)]
  have cl: "closed_engine w" using loading_closed [OF inv r] by simp
  have sub: "engineOpened cfg env e t res w =
      (if pd then w3\<lparr>w_running := Some (e, Init_Refreshing)\<rparr>
       else settleDispatch cfg env e (Inr JNull) (w3\<lparr>w_init := Init_Done\<rparr>))"
    unfolding engineOpened_def Inr Let_def using ref by (simp add: w2_def openOutcome_def)
  show ?thesis
  proof (cases pd)
    case True
    have "worker_inv cfg ws (w3\<lparr>w_running := Some (e, Init_Refreshing)\<rparr>)"
      using inv r cl p w3(2)
      by (auto simp: worker_inv_def in_arrival_order_def pending_def phase_ok_def drain_ok_def
          engine_ok_def closed_engine_def initializing_def)
    then show ?thesis using True sub by simp
  next
    case False
    have "settling cfg ws e (w3\<lparr>w_init := Init_Done\<rparr>)"
      using inv r cl p w3(2)
      by (auto simp: worker_inv_def settling_def in_arrival_order_def pending_def phase_ok_def drain_ok_def
          engine_ok_def closed_engine_def)
    then show ?thesis using False sub settleDispatch_inv by simp
  qed
qed

lemma diagnostics_inv:
  assumes inv: "worker_inv cfg ws w" and r: "w_running w = Some (e, ph)"
  shows "ph = Init_Refreshing \<Longrightarrow>
      worker_inv cfg ws (settleDispatch cfg env e (Inr JNull) ((diagnosticsOutcome env oc w)\<lparr>w_init := Init_Done\<rparr>))"
    "ph = Refreshing_After \<Longrightarrow> worker_inv cfg ws (dispatchDone env (diagnosticsOutcome env oc w))"
proof -
  let ?u = "diagnosticsOutcome env oc w"
  have u: "worker_inv cfg ws ?u" by (rule worker_inv_still [OF _ _ inv]) simp_all
  have ru: "w_running ?u = Some (e, ph)" using r still_parts(3) [of ?u w] by simp
  show "worker_inv cfg ws (settleDispatch cfg env e (Inr JNull) (?u\<lparr>w_init := Init_Done\<rparr>))"
    by (rule settleDispatch_inv [OF init_settling [OF u ru]]) simp
  assume "ph = Refreshing_After"
  then have "halted cfg ws (?u\<lparr>w_running := None\<rparr>)"
    using u ru by (auto simp: worker_inv_def halted_def in_arrival_order_def pending_def phase_ok_def drain_ok_def
        engine_ok_def closed_engine_def initializing_def)
  then show "worker_inv cfg ws (dispatchDone env ?u)" by (rule dispatchDone_inv)
qed

lemma running_step_inv:
  assumes inv: "worker_inv cfg ws w" and r: "w_running w = Some (e, ph)"
  shows "worker_inv cfg ws (running_step cfg env ev e ph w)"
proof (cases "running_step cfg env ev e ph w = w")
  case True
  then show ?thesis using inv by simp
next
  case False
  have fin: "settling cfg ws e (snd (finishDispatch cfg env (qe_request e) v w))" if "ph = Awaiting_Engine" for v
  proof -
    have "settling cfg ws e w" using running_settling [OF inv r] that by (simp add: initializing_def)
    then show ?thesis using settling_still [of "snd (finishDispatch cfg env (qe_request e) v w)" w] by simp
  qed
  show ?thesis
  proof (cases ph)
    case Awaiting_Engine
    then obtain res where "ev = Engine_Returned res" using False by (cases ev) auto
    then show ?thesis
      using Awaiting_Engine settleDispatch_inv [OF fin] settleDispatch_inv [OF running_settling [OF inv r]]
      by (cases res) (simp_all add: case_prod_beta initializing_def)
  next
    case (Settling res)
    then have "ev = Settle" using False by (cases ev) auto
    then show ?thesis
      using Settling settleDispatch_inv [OF running_settling [OF inv r]] by (simp add: initializing_def)
  next
    case Init_Loading
    then obtain res where "ev = Wasm_Loaded res" using False by (cases ev) auto
    then show ?thesis using Init_Loading wasmLoaded_inv [OF inv] r by simp
  next
    case (Init_Opening t)
    then obtain res where "ev = Opened res" using False by (cases ev) auto
    then show ?thesis using Init_Opening engineOpened_inv [OF inv] r by simp
  next
    case Init_Refreshing
    then obtain oc where "ev = Diagnostics oc" using False by (cases ev) auto
    then show ?thesis using Init_Refreshing inv diagnostics_inv [OF inv r] by simp
  next
    case Refreshing_After
    then obtain oc where "ev = Diagnostics oc" using False by (cases ev) auto
    then show ?thesis using Refreshing_After inv diagnostics_inv [OF inv r] by simp
  qed
qed

text \<open>The waiter a request adds, when the worker accepts it.\<close>

fun arriving :: "worker_env \<times> worker_event \<Rightarrow> worker \<Rightarrow> waiter list" where
  "arriving (env, Handle port req) w =
     (if w_accepting w then [\<lparr> wa_port = port, wa_request = req, wa_started = we_now env \<rparr>] else [])"
| "arriving ev w = []"

lemma handleRequest_inv:
  assumes inv: "worker_inv cfg ws w"
  shows "worker_inv cfg (ws @ arriving (env, Handle port req) w) (handleRequest cfg env port req w)"
proof (cases "w_accepting w")
  case False
  let ?r = "handleRequest cfg env port req w"
  have "still ?r = still w \<and> w_active ?r = w_active w"
    using False by (simp add: handleRequest_def Let_def case_prod_beta neutral_put split: option.split)
  then show ?thesis using worker_inv_still [OF _ _ inv] False by simp
next
  case True
  define wa where "wa = \<lparr> wa_port = port, wa_request = req, wa_started = we_now env \<rparr>"
  define q where "q = insert_request (wc_json cfg) wa (w_queue w)"
  let ?v = "w\<lparr>w_active := w_active w + 1, w_queue := q\<rparr>"
  have ok: "list_all (entry_ok (wc_json cfg)) (w_queue w)" using inv by (simp add: worker_inv_def)
  note ins = insert_request_laws [OF ok, of wa, folded q_def]
  have eq: "handleRequest cfg env port req w = drainQueue ?v"
    using True by (simp add: handleRequest_def enqueue_def Let_def wa_def q_def)
  have "in_arrival_order (ws @ [wa]) ?v"
  proof -
    have "blocks wbarrier (flat (dispatched w) @ flat q) = blocks wbarrier (flat (dispatched w) @ flat (w_queue w) @ [wa])"
      using ins(2) by (rule blocks_append_cong)
    moreover have "blocks wbarrier ((flat (dispatched w) @ flat (w_queue w)) @ [wa]) = blocks wbarrier (ws @ [wa])"
      using inv by (intro blocks_snoc_cong) (simp add: worker_inv_def in_arrival_order_def)
    ultimately show ?thesis using inv ins(3) by (simp add: in_arrival_order_def worker_inv_def)
  qed
  moreover have "length (flat q) = Suc (length (flat (w_queue w)))"
  proof -
    have "mset (flat q) = mset (flat (w_queue w) @ [wa])"
      using ins(2) blocks_mset [of "flat q" wbarrier] blocks_mset [of "flat (w_queue w) @ [wa]" wbarrier] by simp
    then have "length (flat q) = length (flat (w_queue w) @ [wa])" by (rule mset_eq_length)
    then show ?thesis by simp
  qed
  moreover have arr: "arriving (env, Handle port req) w = [wa]" using True by (simp add: wa_def)
  ultimately show ?thesis
  proof (cases "w_running w = None")
    case None: True
    then have e: "w_queue w = []" using inv by (simp add: worker_inv_def phase_ok_def)
    have "halted cfg (ws @ [wa]) ?v"
      using inv None e ins(1) \<open>in_arrival_order (ws @ [wa]) ?v\<close> \<open>length (flat q) = _\<close>
      by (simp add: halted_def worker_inv_def pending_def phase_ok_def drain_ok_def)
    then show ?thesis using drainQueue_inv [of cfg "ws @ [wa]" ?v] ins(4) eq arr by simp
  next
    case False
    then have "drainQueue ?v = ?v" by (simp add: drainQueue_def)
    moreover have "worker_inv cfg (ws @ [wa]) ?v"
      using inv False ins(1) \<open>in_arrival_order (ws @ [wa]) ?v\<close> \<open>length (flat q) = _\<close>
      by (auto simp: worker_inv_def pending_def phase_ok_def drain_ok_def)
    ultimately show ?thesis using eq arr by simp
  qed
qed

lemma drain_inv:
  assumes inv: "worker_inv cfg ws w" shows "worker_inv cfg ws (drain env d w)"
proof (cases "busy w")
  case True
  then have "w_running w \<noteq> None"
    using inv by (cases "w_running w") (auto simp: busy_def worker_inv_def pending_def phase_ok_def)
  then show ?thesis
    using inv True
    by (auto simp: drain_def busy_def worker_inv_def in_arrival_order_def pending_def phase_ok_def drain_ok_def)
next
  case False
  then have "w_running w = None" by (cases "w_running w") (auto simp: busy_def)
  then have "stopped_ok cfg ws (w\<lparr>w_accepting := False, w_cancelled := True\<rparr>)" "w_drains w = []"
    using inv False by (auto simp: busy_def stopped_ok_def worker_inv_def in_arrival_order_def pending_def phase_ok_def
        drain_ok_def)
  then have "worker_inv cfg ws (continueDrain env d (w\<lparr>w_accepting := False, w_cancelled := True\<rparr>))"
    using continueDrain_stopped by (intro stopped_inv) (simp_all add: continueDrain_parts)
  then show ?thesis using False by (simp add: drain_def busy_def Let_def)
qed

lemma engineClosed_inv:
  assumes inv: "worker_inv cfg ws w" shows "worker_inv cfg ws (engineClosed d res w)"
proof (cases "d \<in> set (w_closing w)")
  case False
  then show ?thesis using inv by (simp add: engineClosed_def)
next
  case True
  let ?u = "w\<lparr>w_closing := removeAll d (w_closing w)\<rparr>"
  have "worker_inv cfg ws ?u"
    using inv by (auto simp: worker_inv_def in_arrival_order_def pending_def phase_ok_def drain_ok_def)
  then have "worker_inv cfg ws (put out ?u)" "worker_inv cfg ws (put out (reportResetRequired err ?u))"
    if "neutral out" for out err
    using that by (auto intro!: worker_inv_still [where w = ?u] simp: neutral_put)
  then show ?thesis using True by (simp add: engineClosed_def Let_def split: option.split)
qed

lemma worker_step_inv:
  assumes inv: "worker_inv cfg ws w"
  shows "worker_inv cfg (ws @ arriving ev w) (snd (worker_step cfg ev w))"
proof (cases ev)
  case (Pair env e)
  have ports: "worker_inv cfg ws (w\<lparr>w_ports := ps\<rparr>)" for ps
    using inv by (simp add: worker_inv_def in_arrival_order_def pending_def phase_ok_def drain_ok_def)
  have run: "worker_inv cfg ws (case w_running w of None \<Rightarrow> w | Some (en, ph) \<Rightarrow> running_step cfg env e' en ph w)" for e'
    using inv running_step_inv [OF inv] by (auto split: option.split prod.split)
  have cached: "worker_inv cfg ws (recordCachedQueueDiagnostics env w)"
    by (rule worker_inv_still [OF _ _ inv]) simp_all
  show ?thesis
    using inv ports run cached handleRequest_inv [OF inv, of env] unfolding Pair worker_step_def
    by (cases e) (simp_all add: addPort_def removePort_def drain_inv engineClosed_inv del: arriving.simps(1))
qed

section \<open>Runs\<close>

text \<open>The requests a run accepted, in the order they came.\<close>

fun accepted :: "worker_config \<Rightarrow> (worker_env \<times> worker_event) list \<Rightarrow> worker \<Rightarrow> waiter list" where
  "accepted cfg [] w = []"
| "accepted cfg (e # es) w = arriving e w @ accepted cfg es (snd (worker_step cfg e w))"

lemma worker_inv_initial: "worker_inv cfg [] initial_worker"
  by (simp add: initial_worker_def worker_inv_def in_arrival_order_def dispatched_def pending_def phase_ok_def
      engine_ok_def closed_engine_def drain_ok_def opens_def closes_def)

lemma worker_inv_run:
  "worker_inv cfg ws w \<Longrightarrow> worker_inv cfg (ws @ accepted cfg es w) (snd (run (worker_step cfg) es w))"
proof (induction es arbitrary: ws w)
  case (Cons e es)
  have "worker_inv cfg (ws @ arriving e w) (snd (worker_step cfg e w))"
    by (rule worker_step_inv [OF Cons.prems])
  from Cons.IH [OF this] show ?case by (simp add: case_prod_beta)
qed simp

definition some_worker_inv :: "worker_config \<Rightarrow> worker \<Rightarrow> bool" where
  "some_worker_inv cfg w \<longleftrightarrow> (\<exists>ws. worker_inv cfg ws w)"

interpretation workers: machine initial_worker "worker_step cfg" "\<lambda>_. True" "some_worker_inv cfg" for cfg
  using worker_inv_initial [of cfg] worker_step_inv [of cfg] unfolding some_worker_inv_def
  by unfold_locales blast+

end
