(* ===== verification/Worker_Answers.thy ===== *)
theory Worker_Answers
  imports Worker_Laws
begin

text \<open>
  Every request is answered once: what the ports have been sent against what was asked, as long as
  no post throws.
\<close>

section \<open>Answers in the log\<close>

fun answers_of :: "worker_output \<Rightarrow> (nat \<times> jsval) list" where
  "answers_of (Posted port v) = (if has_own v ''ok'' then [(port, getp v ''id'')] else [])"
| "answers_of _ = []"

definition answers :: "worker \<Rightarrow> (nat \<times> jsval) list" where
  "answers w = concat (List.map answers_of (w_out w))"

definition asker :: "waiter \<Rightarrow> nat \<times> jsval" where
  "asker wa = (wa_port wa, getp (wa_request wa) ''id'')"

definition calm_posts :: "worker_env \<Rightarrow> bool" where
  "calm_posts env \<longleftrightarrow> (\<forall>port message. we_post env port message = None)"

lemma answers_put [simp]: "answers (put out w) = answers w @ answers_of out"
  by (simp add: answers_def put_def)

lemma answers_frame [simp]:
  "answers (w\<lparr>w_engine := a1\<rparr>) = answers w" "answers (w\<lparr>w_init := a2\<rparr>) = answers w"
  "answers (w\<lparr>w_scope := a3\<rparr>) = answers w" "answers (w\<lparr>w_hot := a4\<rparr>) = answers w"
  "answers (w\<lparr>w_queue := a5\<rparr>) = answers w" "answers (w\<lparr>w_running := a6\<rparr>) = answers w"
  "answers (w\<lparr>w_accepting := a7\<rparr>) = answers w" "answers (w\<lparr>w_active := a8\<rparr>) = answers w"
  "answers (w\<lparr>w_drains := a9\<rparr>) = answers w" "answers (w\<lparr>w_closing := b1\<rparr>) = answers w"
  "answers (w\<lparr>w_reset := b2\<rparr>) = answers w" "answers (w\<lparr>w_ports := b3\<rparr>) = answers w"
  "answers (w\<lparr>w_diag_at := b4\<rparr>) = answers w" "answers (w\<lparr>w_diag := b5\<rparr>) = answers w"
  "answers (w\<lparr>w_cancelled := b6\<rparr>) = answers w"
  by (simp_all add: answers_def)

lemma answers_telemetry [simp]:
  "answers (record_event ob w) = answers w" "answers (recordCachedQueueDiagnostics env w) = answers w"
  "answers (diagnosticsFailed code w) = answers w" "answers (recordFailure env err wa w) = answers w"
  "answers (recordSuccess env v wa w) = answers w" "answers (reportResetRequired err w) = answers w"
  "answers (snd (refreshQueueDiagnostics cfg env force w)) = answers w"
  by (simp_all add: record_event_def recordCachedQueueDiagnostics_def diagnosticsFailed_def recordFailure_def
      recordSuccess_def reportResetRequired_def refreshQueueDiagnostics_def Let_def split: option.split)

lemma answers_outcome [simp]: "answers (diagnosticsOutcome env oc w) = answers w"
  by (cases oc) simp_all

lemma answers_send:
  "answers (snd (send_post env port message w)) =
     answers w @ (if we_post env port message = None then answers_of (Posted port message) else [])"
  by (simp add: send_post_def split: option.split)

lemma answers_push:
  "\<not> has_own message ''ok'' \<Longrightarrow> answers (snd (push_all env message ports w)) = answers w"
  by (induction ports arbitrary: w) (simp_all add: case_prod_beta answers_send split: option.split)

lemma push_values [simp]:
  "\<not> has_own (ops_affected_val ops ks) ''ok''" "\<not> has_own (cache_changed_val rv) ''ok''"
  "\<not> has_own (settled_val t fs) ''ok''"
  by (simp_all add: ops_affected_val_def cache_changed_val_def settled_val_def)

lemma answers_fanOut [simp]: "answers (snd (fanOut cfg env ops ch rv w)) = answers w"
  by (simp add: fanOut_def push_def case_prod_beta answers_push split: option.split)

lemma answers_finish [simp]: "answers (snd (finishDispatch cfg env req v w)) = answers w"
proof -
  have t: "snd (then_result x r) = snd r" for x r
    by (cases r) (simp add: then_result_def split: option.split)
  have p: "settlement_of req = Some m \<Longrightarrow> \<not> has_own m ''ok''" for m
    by (auto simp: settlement_of_def split: if_splits)
  have "answers (snd (finishWrite cfg env req v rv w)) = answers w" for rv
    using p by (simp add: finishWrite_def case_prod_beta t push_def answers_push split: option.split)
  then show ?thesis
    by (simp add: finishDispatch_def t push_def answers_push split: sum.split)
qed

lemma response_values [simp]:
  "has_own (response_ok_val req v) ''ok''" "getp (response_ok_val req v) ''id'' = getp req ''id''"
  "has_own (response_err_val req e) ''ok''" "getp (response_err_val req e) ''id'' = getp req ''id''"
  by (simp_all add: response_ok_val_def response_err_val_def)

lemma answers_continue [simp]:
  "answers (continueDrain env d w) = answers w"
  "answers (fold (continueDrain env) ds w) = answers w"
proof -
  show 1: "answers (continueDrain env d w) = answers w" for d w by (simp add: continueDrain_def Let_def)
  show "answers (fold (continueDrain env) ds w) = answers w" by (induction ds arbitrary: w) (simp_all add: 1)
qed

lemma answers_resolve [simp]:
  "answers (resolveDrainWaitersIfIdle env w) = answers w" "answers (handlerDone env w) = answers w"
  by (simp_all add: resolveDrainWaitersIfIdle_def handlerDone_def)

lemma answers_drainQueue [simp]: "answers (drainQueue w) = answers w"
proof -
  have "answers (snd (dispatch_start req v)) = answers v" for req v
    by (simp add: dispatch_start_def init_start_def Let_def split: init_state.split)
  then show ?thesis by (simp add: drainQueue_def Let_def case_prod_beta)
qed

lemma answers_done [simp]: "answers (dispatchDone env w) = answers w"
  by (simp add: dispatchDone_def)

lemma answers_failed: "calm_posts env \<Longrightarrow> answers (handlerFailed env err wa w) = answers w @ [asker wa]"
  by (simp add: handlerFailed_def calm_posts_def send_post_def asker_def)

lemma answers_succeeded: "calm_posts env \<Longrightarrow> answers (handlerSucceeded env v wa w) = answers w @ [asker wa]"
  by (simp add: handlerSucceeded_def calm_posts_def send_post_def asker_def)

lemma answers_fold:
  assumes "\<And>wa w. answers (f wa w) = answers w @ [asker wa]"
  shows "answers (fold f was w) = answers w @ List.map asker was"
  by (induction was arbitrary: w) (simp_all add: assms)

lemma answers_settle:
  assumes "calm_posts env"
  shows "answers (settleDispatch cfg env entry res w) = answers w @ List.map asker (qe_waiters entry)"
proof -
  have r: "answers (snd (if b then refreshQueueDiagnostics cfg env False w else (False, w))) = answers w" for b
    by simp
  show ?thesis
    using answers_fold [of "handlerFailed env err" for err, OF answers_failed [OF assms]]
      answers_fold [of "handlerSucceeded env v" for v, OF answers_succeeded [OF assms]] r
    by (simp add: settleDispatch_def Let_def case_prod_beta split: sum.split)
qed

section \<open>Waiting requests\<close>

lemma mset_flat:
  assumes "blocks wbarrier (flat q) = blocks wbarrier ws" shows "mset (flat q) = mset ws"
  using blocks_mset [of "flat q" wbarrier] blocks_mset [of ws wbarrier] assms by simp

lemma pending_drainQueue:
  assumes "list_all (entry_ok (wc_json cfg)) (w_queue w)" "w_running w = None"
  shows "mset (pending (drainQueue w)) = mset (flat (w_queue w))"
proof (cases "w_queue w = []")
  case True
  then show ?thesis using assms by (simp add: drainQueue_def pending_def)
next
  case False
  have "mset (flat (w_queue w ! select_index (w_queue w) # taken (select_index (w_queue w)) (w_queue w))) =
      mset (flat (w_queue w))"
    by (rule mset_flat [OF take_selected(1) [OF assms(1) False]])
  then show ?thesis
    using assms(2) False
    by (simp add: drainQueue_def Let_def case_prod_beta pending_def dispatch_start_log taken_def)
qed

lemma pending_resolve: "w_running w = None \<Longrightarrow> w_queue w = [] \<Longrightarrow> pending (fold (continueDrain env) ds w) = []"
  by (induction ds arbitrary: w) (simp_all add: continueDrain_parts pending_def)

lemma pending_done:
  assumes "list_all (entry_ok (wc_json cfg)) (w_queue w)"
  shows "mset (pending (dispatchDone env w)) = mset (flat (w_queue w))"
proof -
  let ?d = "drainQueue (w\<lparr>w_running := None\<rparr>)"
  have d: "mset (pending ?d) = mset (flat (w_queue w))"
    using pending_drainQueue [of cfg "w\<lparr>w_running := None\<rparr>"] assms by simp
  show ?thesis
  proof (cases "busy ?d")
    case True
    then show ?thesis using d by (simp add: dispatchDone_def resolveDrainWaitersIfIdle_def)
  next
    case False
    then have idle: "w_running ?d = None" "w_queue ?d = []" by (cases "w_running ?d"; simp add: busy_def)+
    then have "pending ?d = []" by (simp add: pending_def)
    moreover have "pending (fold (continueDrain env) (w_drains ?d) (?d\<lparr>w_drains := []\<rparr>)) = []"
      using idle by (intro pending_resolve) simp_all
    ultimately show ?thesis using d False by (simp add: dispatchDone_def resolveDrainWaitersIfIdle_def)
  qed
qed

lemma fold_parts:
  assumes "\<And>wa w. w_running w \<noteq> None \<Longrightarrow> still (f wa w) = still w \<and> w_active (f wa w) = w_active w - 1"
    and "w_running w \<noteq> None"
  shows "w_queue (fold f was w) = w_queue w" "w_running (fold f was w) = w_running w"
  using still_parts [OF conjunct1 [OF still_fold [where f = f, OF assms, of was]]] by simp_all

lemma pending_settle:
  assumes "list_all (entry_ok (wc_json cfg)) (w_queue w)"
  shows "mset (pending (settleDispatch cfg env entry res w)) = mset (flat (w_queue w))"
proof -
  let ?run = "\<lambda>v. v\<lparr>w_running := Some (entry\<lparr>qe_waiters := []\<rparr>, Refreshing_After)\<rparr>"
  show ?thesis
  proof (cases res)
    case (Inl err)
    have "w_queue (fold (handlerFailed env err) (qe_waiters entry) (?run w)) = w_queue w"
      using fold_parts [where f = "handlerFailed env err", OF still_failed, of "?run w"] by simp
    then show ?thesis using Inl pending_done [of cfg] assms by (simp add: settleDispatch_def)
  next
    case (Inr v)
    obtain pd w1 where r: "(if isStorageTransactionRequest (qe_request entry)
        then refreshQueueDiagnostics cfg env False w else (False, w)) = (pd, w1)" by fastforce
    have "still w1 = still w"
      using r still_refresh [of cfg env False w] by (auto split: if_splits simp del: still_refresh)
    then have q: "w_queue w1 = w_queue w" by (rule still_parts)
    let ?u = "fold (handlerSucceeded env v) (qe_waiters entry) (?run w1)"
    have "w_queue ?u = w_queue w" "w_running ?u = Some (entry\<lparr>qe_waiters := []\<rparr>, Refreshing_After)"
      using fold_parts [where f = "handlerSucceeded env v", OF still_succeeded, of "?run w1"] q by simp_all
    then show ?thesis
      using Inr r pending_done [of cfg ?u] assms by (simp add: settleDispatch_def Let_def pending_def)
  qed
qed

section \<open>The balance of a run\<close>

definition balance :: "worker \<Rightarrow> (nat \<times> jsval) multiset" where
  "balance w = mset (answers w) + image_mset asker (mset (pending w))"

fun asked :: "(worker_env \<times> worker_event) list \<Rightarrow> (nat \<times> jsval) list" where
  "asked [] = []"
| "asked ((env, Handle port req) # es) = (port, getp req ''id'') # asked es"
| "asked (e # es) = asked es"

lemma balance_settle:
  assumes "calm_posts env" "list_all (entry_ok (wc_json cfg)) (w_queue w)"
  shows "balance (settleDispatch cfg env entry res w) =
    mset (answers w) + image_mset asker (mset (qe_waiters entry @ flat (w_queue w)))"
  using answers_settle [OF assms(1), of cfg entry res w] pending_settle [OF assms(2), of env entry res]
  by (simp add: balance_def)

lemma balance_running:
  assumes inv: "worker_inv cfg ws w" and calm: "calm_posts env" and r: "w_running w = Some (e, ph)"
  shows "balance (running_step cfg env ev e ph w) = balance w"
proof -
  have ok: "list_all (entry_ok (wc_json cfg)) (w_queue w)" using inv by (simp add: worker_inv_def)
  have b: "balance w = mset (answers w) + image_mset asker (mset (qe_waiters e @ flat (w_queue w)))"
    using r by (simp add: balance_def pending_def)
  have s: "balance (settleDispatch cfg env e res u) = balance w"
    if "answers u = answers w" "w_queue u = w_queue w" for res u
    using balance_settle [OF calm, of cfg u e res] ok that b by simp
  have f: "answers (snd (finishDispatch cfg env (qe_request e) v w)) = answers w"
    "w_queue (snd (finishDispatch cfg env (qe_request e) v w)) = w_queue w" for v
    using still_parts(2) [OF still_finish(1)] by simp_all
  have d: "w_queue (diagnosticsOutcome env oc w) = w_queue w" for oc
    using still_parts(2) [OF still_outcome(1)] by simp
  have k: "w_queue (snd (refreshQueueDiagnostics cfg env fo u)) = w_queue u" for fo u
    using still_parts(2) [OF still_refresh(1)] by simp
  show ?thesis
  proof (cases "running_step cfg env ev e ph w = w")
    case same: False
    show ?thesis
    proof (cases ph)
      case Awaiting_Engine
      then obtain res where "ev = Engine_Returned res" using same by (cases ev) auto
      then show ?thesis using Awaiting_Engine s f by (cases res) (simp_all add: case_prod_beta)
    next
      case (Settling res)
      then have "ev = Settle" using same by (cases ev) auto
      then show ?thesis using Settling s by simp
    next
      case Init_Loading
      then obtain res where "ev = Wasm_Loaded res" using same by (cases ev) auto
      then show ?thesis
        using Init_Loading s r by (simp add: wasmLoaded_def balance_def pending_def split: option.split)
    next
      case (Init_Opening t)
      then obtain res where "ev = Opened res" using same by (cases ev) auto
      then show ?thesis
        using Init_Opening s r k
        by (simp add: engineOpened_def Let_def case_prod_beta record_event_def b balance_def pending_def
            split: sum.split)
    next
      case Init_Refreshing
      then obtain oc where "ev = Diagnostics oc" using same by (cases ev) auto
      then show ?thesis using Init_Refreshing s d by simp
    next
      case Refreshing_After
      then obtain oc where "ev = Diagnostics oc" using same by (cases ev) auto
      moreover have "qe_waiters e = []"
        using inv r Refreshing_After by (simp add: worker_inv_def phase_ok_def)
      moreover have "balance (dispatchDone env (diagnosticsOutcome env oc w)) =
          mset (answers w) + image_mset asker (mset (flat (w_queue w)))" for oc
        using pending_done [of cfg "diagnosticsOutcome env oc w" env] ok d by (simp add: balance_def)
      ultimately show ?thesis using Refreshing_After b by simp
    qed
  qed simp
qed

lemma balance_handle:
  assumes inv: "worker_inv cfg ws w" and calm: "calm_posts env"
  shows "balance (handleRequest cfg env port req w) = add_mset (port, getp req ''id'') (balance w)"
proof (cases "w_accepting w")
  case False
  let ?r = "handleRequest cfg env port req w"
  have "still ?r = still w"
    using False by (simp add: handleRequest_def Let_def case_prod_beta neutral_put split: option.split)
  then have "pending ?r = pending w" using still_parts [of ?r w] by (simp add: pending_def)
  moreover have "answers ?r = answers w @ [(port, getp req ''id'')]"
    using False calm by (simp add: handleRequest_def Let_def send_post_def calm_posts_def)
  ultimately show ?thesis by (simp add: balance_def)
next
  case True
  define wa where "wa = \<lparr> wa_port = port, wa_request = req, wa_started = we_now env \<rparr>"
  define q where "q = insert_request (wc_json cfg) wa (w_queue w)"
  let ?v = "w\<lparr>w_active := w_active w + 1, w_queue := q\<rparr>"
  have ok: "list_all (entry_ok (wc_json cfg)) (w_queue w)" using inv by (simp add: worker_inv_def)
  note ins = insert_request_laws [OF ok, of wa, folded q_def]
  have q: "mset (flat q) = add_mset wa (mset (flat (w_queue w)))"
    using mset_flat [OF ins(2)] by simp
  have wa: "asker wa = (port, getp req ''id'')" by (simp add: asker_def wa_def)
  have eq: "handleRequest cfg env port req w = drainQueue ?v"
    using True by (simp add: handleRequest_def enqueue_def Let_def wa_def q_def)
  show ?thesis
  proof (cases "w_running w")
    case None
    then have "mset (pending (drainQueue ?v)) = mset (flat q)"
      using pending_drainQueue [of cfg ?v] ins(1) by simp
    then show ?thesis using None eq q wa by (simp add: balance_def pending_def)
  next
    case (Some r)
    then have "drainQueue ?v = ?v" by (simp add: drainQueue_def)
    then show ?thesis using Some eq q wa by (simp add: balance_def pending_def case_prod_beta)
  qed
qed

lemma balance_step:
  assumes inv: "worker_inv cfg ws w" and calm: "calm_posts env"
  shows "balance (snd (worker_step cfg (env, ev) w)) = balance w + mset (asked [(env, ev)])"
proof -
  have s: "balance u = balance w" if "answers u = answers w" "still u = still w" for u
    using that(1) still_parts(2,3) [OF that(2)] by (simp add: balance_def pending_def)
  have cont: "balance (continueDrain env d u) = balance u" if "w_running u = None" "w_queue u = []" for d u
    using that by (simp add: balance_def pending_def continueDrain_parts)
  have run: "balance (case w_running w of None \<Rightarrow> w | Some (en, ph) \<Rightarrow> running_step cfg env e en ph w) = balance w" for e
    using balance_running [OF inv calm] by (auto split: option.split prod.split)
  show ?thesis
  proof (cases ev)
    case (Handle port req)
    then show ?thesis using balance_handle [OF inv calm] by (simp add: worker_step_def)
  next
    case (Drain d)
    let ?u = "w\<lparr>w_accepting := False, w_cancelled := True\<rparr>"
    have "balance (drain env d w) = balance w"
    proof (cases "busy ?u")
      case True
      then show ?thesis by (simp add: drain_def balance_def pending_def)
    next
      case False
      then have "w_running ?u = None" "w_queue ?u = []" by (cases "w_running ?u"; simp add: busy_def)+
      then have "balance (continueDrain env d ?u) = balance ?u" by (rule cont)
      then show ?thesis using False by (simp add: drain_def balance_def pending_def)
    qed
    then show ?thesis using Drain by (simp add: worker_step_def)
  next
    case (Engine_Closed d res)
    have "balance (engineClosed d res w) = balance w"
      by (simp add: engineClosed_def Let_def balance_def pending_def reportResetRequired_def split: option.split)
    then show ?thesis using Engine_Closed by (simp add: worker_step_def)
  next
    case (Add_Port port)
    then show ?thesis by (simp add: worker_step_def addPort_def balance_def pending_def)
  next
    case (Remove_Port port)
    then show ?thesis by (simp add: worker_step_def removePort_def balance_def pending_def)
  next
    case Record_Diagnostics
    have "balance (recordCachedQueueDiagnostics env w) = balance w"
      by (rule s) simp_all
    then show ?thesis using Record_Diagnostics by (simp add: worker_step_def)
  qed (simp_all add: worker_step_def run del: running_step.simps)
qed

lemma asked_Cons: "mset (asked ((env, ev) # es)) = mset (asked [(env, ev)]) + mset (asked es)"
  by (cases ev) simp_all

lemma balance_run:
  assumes "worker_inv cfg ws w" "\<forall>(env, ev) \<in> set es. calm_posts env"
  shows "balance (snd (run (worker_step cfg) es w)) = balance w + mset (asked es)"
  using assms
proof (induction es arbitrary: ws w)
  case (Cons e es)
  obtain env ev where e: "e = (env, ev)" by fastforce
  have "worker_inv cfg (ws @ arriving e w) (snd (worker_step cfg e w))"
    by (rule worker_step_inv [OF Cons.prems(1)])
  then have "balance (snd (run (worker_step cfg) es (snd (worker_step cfg e w)))) =
      balance (snd (worker_step cfg e w)) + mset (asked es)"
    using Cons.IH Cons.prems(2) by simp
  also have "balance (snd (worker_step cfg e w)) = balance w + mset (asked [e])"
    using balance_step [OF Cons.prems(1)] Cons.prems(2) e by simp
  finally show ?case using asked_Cons [of env ev es] e by (simp add: case_prod_beta)
qed simp

section \<open>Progress\<close>

text \<open>The events a phase waits for; a diagnostics race that was not cancelled ends otherwise.\<close>

fun due :: "phase \<Rightarrow> worker_event \<Rightarrow> bool" where
  "due Awaiting_Engine (Engine_Returned res) = True"
| "due (Settling res) Settle = True"
| "due Init_Loading (Wasm_Loaded res) = True"
| "due (Init_Opening t) (Opened res) = True"
| "due Init_Refreshing (Diagnostics oc) = (oc \<noteq> Diag_Cancelled)"
| "due Refreshing_After (Diagnostics oc) = (oc \<noteq> Diag_Cancelled)"
| "due ph ev = False"

fun phase_work :: "phase \<Rightarrow> nat" where
  "phase_work Refreshing_After = 1"
| "phase_work Awaiting_Engine = 2"
| "phase_work (Settling res) = 2"
| "phase_work Init_Refreshing = 2"
| "phase_work (Init_Opening t) = 3"
| "phase_work Init_Loading = 4"

definition work :: "worker \<Rightarrow> nat" where
  "work w = (case w_running w of None \<Rightarrow> 0 | Some (e, ph) \<Rightarrow> phase_work ph) + 5 * length (w_queue w)"

lemma phase_work_le: "phase_work ph \<le> 4" "(phase_work ph = 0) = False"
  by (cases ph; simp)+

lemma work_drainQueue:
  assumes "w_running w = None"
  shows "work (drainQueue w) \<le> 5 * length (w_queue w)"
proof (cases "w_queue w = []")
  case True
  then show ?thesis using assms by (simp add: drainQueue_def work_def)
next
  case False
  let ?i = "select_index (w_queue w)"
  let ?t = "take ?i (w_queue w) @ drop (Suc ?i) (w_queue w)"
  let ?p = "dispatch_start (qe_request (w_queue w ! ?i)) (put (Dispatched (w_queue w ! ?i)) (w\<lparr>w_queue := ?t\<rparr>))"
  have "drainQueue w = (snd ?p)\<lparr>w_running := Some (w_queue w ! ?i, fst ?p)\<rparr>"
    using assms False by (simp add: drainQueue_def Let_def case_prod_beta)
  then have "work (drainQueue w) = phase_work (fst ?p) + 5 * length ?t"
    by (simp add: work_def dispatch_start_log)
  moreover have "Suc (length ?t) = length (w_queue w)" using select_bound [OF False] by simp
  ultimately show ?thesis using phase_work_le(1) [of "fst ?p"] by simp
qed

lemma work_resolve: "work (resolveDrainWaitersIfIdle env w) = work w"
proof -
  have "work (fold (continueDrain env) ds u) = work u" for ds u
    by (induction ds arbitrary: u) (simp_all add: work_def continueDrain_parts)
  then show ?thesis by (simp add: resolveDrainWaitersIfIdle_def) (simp add: work_def)
qed

lemma work_done: "work (dispatchDone env w) \<le> 5 * length (w_queue w)"
  using work_drainQueue [of "w\<lparr>w_running := None\<rparr>"] by (simp add: dispatchDone_def work_resolve)

lemma work_settle: "work (settleDispatch cfg env entry res w) \<le> 5 * length (w_queue w) + 1"
proof -
  let ?run = "\<lambda>v. v\<lparr>w_running := Some (entry\<lparr>qe_waiters := []\<rparr>, Refreshing_After)\<rparr>"
  have d: "work (dispatchDone env u) \<le> 5 * length (w_queue w) + 1" if "w_queue u = w_queue w" for u
    using work_done [of env u] that by simp
  show ?thesis
  proof (cases res)
    case (Inl err)
    have "w_queue (fold (handlerFailed env err) (qe_waiters entry) (?run w)) = w_queue w"
      using fold_parts [where f = "handlerFailed env err", OF still_failed, of "?run w"] by simp
    then show ?thesis using Inl d by (simp add: settleDispatch_def)
  next
    case (Inr v)
    obtain pd w1 where r: "(if isStorageTransactionRequest (qe_request entry)
        then refreshQueueDiagnostics cfg env False w else (False, w)) = (pd, w1)" by fastforce
    have "still w1 = still w"
      using r still_refresh [of cfg env False w] by (auto split: if_splits simp del: still_refresh)
    then have q: "w_queue w1 = w_queue w" by (rule still_parts)
    let ?u = "fold (handlerSucceeded env v) (qe_waiters entry) (?run w1)"
    have u: "w_queue ?u = w_queue w" "w_running ?u = Some (entry\<lparr>qe_waiters := []\<rparr>, Refreshing_After)"
      using fold_parts [where f = "handlerSucceeded env v", OF still_succeeded, of "?run w1"] q by simp_all
    then have "work ?u = 5 * length (w_queue w) + 1" by (simp add: work_def)
    then show ?thesis using Inr r d [OF u(1)] by (simp add: settleDispatch_def Let_def)
  qed
qed

lemma due_decreases:
  assumes r: "w_running w = Some (e, ph)" and "due ph ev"
  shows "work (running_step cfg env ev e ph w) < work w"
proof -
  have w: "work w = phase_work ph + 5 * length (w_queue w)" using r by (simp add: work_def)
  have s: "work (settleDispatch cfg env e res u) \<le> 5 * length (w_queue w) + 1"
    if "w_queue u = w_queue w" for res u
    using work_settle [of cfg env e res u] that by simp
  have k: "w_queue (snd (refreshQueueDiagnostics cfg env fo u)) = w_queue u" for fo u
    using still_parts(2) [OF still_refresh(1)] by simp
  have o: "w_queue (diagnosticsOutcome env oc w) = w_queue w" for oc
    using still_parts(2) [OF still_outcome(1)] by simp
  show ?thesis
  proof (cases ph)
    case Awaiting_Engine
    then obtain res where res: "ev = Engine_Returned res" using assms(2) by (cases ev) auto
    have "w_queue (snd (finishDispatch cfg env (qe_request e) v w)) = w_queue w" for v
      using still_parts(2) [OF still_finish(1)] by simp
    then show ?thesis using s res w Awaiting_Engine by (cases res) (simp_all add: case_prod_beta less_Suc_eq_le)
  next
    case (Settling res)
    then have "ev = Settle" using assms(2) by (cases ev) auto
    then show ?thesis using Settling s [of w res] w by simp
  next
    case Init_Loading
    then obtain res where res: "ev = Wasm_Loaded res" using assms(2) by (cases ev) auto
    show ?thesis
    proof (cases res)
      case None
      have "work ((put out w)\<lparr>w_running := Some (e, Init_Opening t)\<rparr>) = 3 + 5 * length (w_queue w)" for out t
        by (simp add: work_def)
      then show ?thesis using None res Init_Loading w by (simp add: wasmLoaded_def)
    next
      case (Some err)
      then show ?thesis
        using s [of "w\<lparr>w_init := Init_Failed err\<rparr>" "Inl err"] res Init_Loading w by (simp add: wasmLoaded_def)
    qed
  next
    case (Init_Opening t)
    then obtain res where ev: "ev = Opened res" using assms(2) by (cases ev) auto
    have "work (engineOpened cfg env e t res w) \<le> 5 * length (w_queue w) + 2"
    proof (cases res)
      case (Inl err)
      then show ?thesis
        using s [of "record_event ob (w\<lparr>w_init := Init_Failed err\<rparr>)" for ob]
        by (simp add: engineOpened_def record_event_def le_SucI)
    next
      case (Inr reported)
      let ?oc = "case reported of Some oc \<Rightarrow> oc
        | None \<Rightarrow> if wc_recovery cfg then Reset_Storage_Uncertain else Opened_Existing"
      let ?w2 = "record_event ((observed Schema_Init Cat_Initialization Out_Success (Some Code_None))
          \<lparr>ob_open := Some ?oc, ob_duration := Some (we_now env - t)\<rparr>)
          (put (Open_Outcome ?oc) (w\<lparr>w_engine := True\<rparr>))"
      obtain pd w3 where p: "refreshQueueDiagnostics cfg env True ?w2 = (pd, w3)" by fastforce
      then have q: "w_queue w3 = w_queue w" using k [of True ?w2] by (simp add: record_event_def)
      then show ?thesis
        using Inr p s [of "w3\<lparr>w_init := Init_Done\<rparr>"]
        by (simp add: engineOpened_def Let_def work_def [of "_\<lparr>w_running := _\<rparr>"] le_SucI)
    qed
    then show ?thesis using ev Init_Opening w by simp
  next
    case Init_Refreshing
    then obtain oc where "ev = Diagnostics oc" "oc \<noteq> Diag_Cancelled" using assms(2) by (cases ev) auto
    then show ?thesis using Init_Refreshing w s [of "(diagnosticsOutcome env oc w)\<lparr>w_init := Init_Done\<rparr>"] o
      by (simp add: less_Suc_eq_le)
  next
    case Refreshing_After
    then obtain oc where "ev = Diagnostics oc" "oc \<noteq> Diag_Cancelled" using assms(2) by (cases ev) auto
    then show ?thesis
      using Refreshing_After w work_done [of env "diagnosticsOutcome env oc w"] o by (simp add: less_Suc_eq_le)
  qed
qed

text \<open>The worker driven to rest: the environment ends the phase the worker is in.\<close>

fun drive :: "worker_config \<Rightarrow> worker_env \<Rightarrow> (queued_engine_request \<Rightarrow> phase \<Rightarrow> worker_event) \<Rightarrow>
    nat \<Rightarrow> worker \<Rightarrow> worker" where
  "drive cfg env ending 0 w = w"
| "drive cfg env ending (Suc n) w =
     (case w_running w of
        None \<Rightarrow> w
      | Some (e, ph) \<Rightarrow> drive cfg env ending n (snd (worker_step cfg (env, ending e ph) w)))"

lemma due_steps:
  assumes "due ph ev" "w_running w = Some (e, ph)"
  shows "worker_act cfg env ev w = running_step cfg env ev e ph w" "asked [(env, ev)] = []"
    "arriving (env, ev) w = []"
  using assms by (cases ev; cases ph; simp)+

lemma drive_rests:
  assumes "worker_inv cfg ws w" "\<And>e ph. due ph (ending e ph)" "work w \<le> n"
  shows "w_running (drive cfg env ending n w) = None \<and> worker_inv cfg ws (drive cfg env ending n w) \<and>
    (calm_posts env \<longrightarrow> balance (drive cfg env ending n w) = balance w)"
  using assms(1,3)
proof (induction n arbitrary: w)
  case 0
  have "w_running w = None" using 0(2) by (auto simp: work_def phase_work_le(2) split: option.splits)
  then show ?case using 0 by simp
next
  case (Suc n)
  show ?case
  proof (cases "w_running w")
    case None
    then show ?thesis using Suc.prems by simp
  next
    case (Some r)
    obtain e ph where r: "r = (e, ph)" by fastforce
    let ?w = "snd (worker_step cfg (env, ending e ph) w)"
    note st = due_steps [OF assms(2) [of ph e] Some [unfolded r]]
    have inv: "worker_inv cfg ws ?w"
      using worker_step_inv [OF Suc.prems(1), of "(env, ending e ph)"] st(3) by simp
    have "work ?w < work w"
      using due_decreases [OF Some [unfolded r] assms(2) [of ph e], of cfg env] st(1) by (simp add: worker_step_def)
    then have "work ?w \<le> n" using Suc.prems by simp
    note Suc.IH [OF inv this]
    moreover have "calm_posts env \<longrightarrow> balance ?w = balance w"
      using balance_step [OF Suc.prems(1), of env "ending e ph"] st(2) by simp
    ultimately show ?thesis using Some r by simp
  qed
qed

end
