(* ===== verification/Worker_Books.thy ===== *)
theory Worker_Books
  imports Worker_Answers
begin

text \<open>
  Two further invariants of the engine worker: between two barriers the queue holds one entry per
  read signature, and the engine is closed only when nothing runs. A dispatch leaves the queue alone or
  takes the selected entry.
\<close>

section \<open>One entry per read\<close>

abbreviation segment :: "queued_engine_request list \<Rightarrow> queued_engine_request list" where
  "segment qs \<equiv> takeWhile (\<lambda>q. \<not> barrier q) qs"

fun coalesced :: "queued_engine_request list \<Rightarrow> bool" where
  "coalesced [] = True"
| "coalesced (q # qs) =
     ((qe_signature q = None \<or> qe_signature q \<notin> qe_signature ` set (segment qs)) \<and> coalesced qs)"

lemma segment_remove:
  "\<not> barrier q \<Longrightarrow> set (segment (xs @ ys)) \<subseteq> set (segment (xs @ q # ys))"
  by (induction xs) auto

lemma coalesced_remove:
  "coalesced (xs @ q # ys) \<Longrightarrow> xs = [] \<or> \<not> barrier q \<Longrightarrow> coalesced (xs @ ys)"
proof (induction xs)
  case (Cons x xs)
  then have "coalesced (xs @ ys)" by (cases xs) auto
  moreover have "set (segment (xs @ ys)) \<subseteq> set (segment (xs @ q # ys))"
    using Cons.prems(2) by (intro segment_remove) simp
  ultimately show ?case using Cons.prems(1) by auto
qed simp

lemma coalesced_taken:
  assumes "coalesced queue" "queue \<noteq> []"
  shows "coalesced (taken (select_index queue) queue)"
proof -
  let ?i = "select_index queue"
  have i: "?i < length queue" by (rule select_bound [OF assms(2)])
  have "take ?i queue = [] \<or> \<not> barrier (queue ! ?i)"
  proof (cases "0 < segmentEnd queue")
    case True
    then have "?i < segmentEnd queue"
      using select_most_urgent by (simp add: most_urgent_def eligible_index_def)
    then show ?thesis using segmentEnd_free(2) by simp
  next
    case False
    then have "?i = 0" by (simp add: select_index_def)
    then show ?thesis by simp
  qed
  then show ?thesis
    using coalesced_remove [of "take ?i queue" "queue ! ?i" "drop (Suc ?i) queue"] assms(1)
    by (simp add: taken_def id_take_nth_drop [OF i, symmetric])
qed

lemma last_segment: "drop (segmentStart queue) queue = rev (segment (rev queue))"
proof -
  let ?t = "segment (rev queue)"
  have "drop (segmentStart queue) queue = rev (take (length ?t) (rev queue))"
    by (simp add: segmentStart_def take_rev)
  then show ?thesis by (simp flip: takeWhile_eq_take)
qed

lemma last_segment_Cons:
  "rev (segment (rev (q # qs))) =
     (if list_all (\<lambda>q. \<not> barrier q) qs then (if barrier q then qs else q # qs) else rev (segment (rev qs)))"
proof (cases "list_all (\<lambda>q. \<not> barrier q) qs")
  case True
  then have "segment (rev qs @ [q]) = rev qs @ segment [q]"
    by (intro takeWhile_append2) (simp add: list_all_iff)
  then show ?thesis using True by simp
next
  case False
  then obtain b where "b \<in> set (rev qs)" "\<not> \<not> barrier b" by (auto simp: list_all_iff)
  then have "segment (rev qs @ [q]) = segment (rev qs)" by (rule takeWhile_append1)
  then show ?thesis using False by simp
qed

lemma segment_append: "set (segment xs) \<subseteq> set (segment (xs @ ys))"
  by (induction xs) auto

lemma coalesced_snoc:
  assumes "coalesced qs" "\<forall>q \<in> set qs. barrier q \<longrightarrow> qe_signature q = None"
    and "qe_signature e = None \<or> qe_signature e \<notin> qe_signature ` set (segment (rev qs))"
  shows "coalesced (qs @ [e])"
  using assms
proof (induction qs)
  case (Cons q qs)
  have sub: "set (segment (rev qs)) \<subseteq> set (segment (rev (q # qs)))"
    using segment_append by simp
  then have "coalesced (qs @ [e])" using Cons by auto
  moreover have "qe_signature q = None \<or> qe_signature q \<notin> qe_signature ` set (segment (qs @ [e]))"
  proof (cases "list_all (\<lambda>q. \<not> barrier q) qs")
    case False
    then obtain b where "b \<in> set qs" "\<not> \<not> barrier b" by (auto simp: list_all_iff)
    then have "segment (qs @ [e]) = segment qs" by (rule takeWhile_append1)
    then show ?thesis using Cons.prems(1) by simp
  next
    case True
    then have seg: "segment (qs @ [e]) = qs @ segment [e]" "segment qs = qs"
      by (auto intro: takeWhile_append2 simp: list_all_iff takeWhile_eq_all_conv)
    have "qe_signature q = None \<or> qe_signature q \<notin> qe_signature ` set qs"
      using Cons.prems(1) unfolding coalesced.simps seg(2) by simp
    moreover have "qe_signature q = None \<or> qe_signature e = None \<or> qe_signature q \<noteq> qe_signature e"
    proof (cases "barrier q")
      case False
      then have "q \<in> set (segment (rev (q # qs)))"
        using last_segment_Cons [of q qs] True by (metis list.set_intros(1) set_rev)
      then show ?thesis using Cons.prems(3) by (metis image_eqI)
    qed (use Cons.prems(2) in simp)
    ultimately show ?thesis unfolding seg(1) by (auto split: if_splits)
  qed
  ultimately show ?case by simp
qed simp

lemma coalesced_update:
  assumes "i < length qs" "qe_signature d = qe_signature (qs ! i)" "qe_request d = qe_request (qs ! i)"
  shows "coalesced (qs[i := d]) = coalesced qs"
proof -
  have sig: "List.map qe_signature (segment (xs[j := d])) = List.map qe_signature (segment xs)"
    if "j < length xs" "qe_signature d = qe_signature (xs ! j)" "qe_request d = qe_request (xs ! j)" for xs j
    using that
  proof (induction xs arbitrary: j)
    case (Cons x xs)
    then show ?case by (cases j) (auto simp: barrier_def)
  qed simp
  have set: "qe_signature ` set xs = set (List.map qe_signature xs)" for xs :: "queued_engine_request list" by simp
  show ?thesis
    using assms
  proof (induction qs arbitrary: i)
    case (Cons q qs)
    show ?case
    proof (cases i)
      case 0
      then show ?thesis using Cons.prems by simp
    next
      case (Suc k)
      then have "coalesced (qs[k := d]) = coalesced qs" using Cons by simp
      moreover have "List.map qe_signature (segment (qs[k := d])) = List.map qe_signature (segment qs)"
        using Cons.prems Suc by (intro sig) simp_all
      ultimately show ?thesis using Suc unfolding set by (simp add: set del: set_map)
    qed
  qed simp
qed

lemma coalesced_insert:
  assumes ok: "list_all (entry_ok json) queue" and co: "coalesced queue"
  shows "coalesced (insert_request json wa queue)"
proof -
  have none: "\<forall>q \<in> set queue. barrier q \<longrightarrow> qe_signature q = None"
    using ok read_kinds by (fastforce simp: list_all_iff entry_ok_def barrier_def split: option.splits)
  show ?thesis
  proof (cases "readSignature json (wa_request wa)")
    case None
    then show ?thesis
      using coalesced_snoc [OF co none] by (simp add: insert_request_def fresh_entry_def)
  next
    case (Some s)
    show ?thesis
    proof (cases "duplicate_index s queue")
      case None
      then have "Some s \<notin> qe_signature ` set (segment (rev queue))"
        by (auto simp: duplicate_index_def find_index_None last_segment list_all_iff)
      then show ?thesis
        using coalesced_snoc [OF co none, of "fresh_entry json wa"] Some None
        by (simp add: insert_request_def fresh_entry_def)
    next
      case (Some i)
      obtain k where k: "find_index (\<lambda>q. qe_signature q = Some s) (drop (segmentStart queue) queue) = Some k"
        "i = segmentStart queue + k"
        using Some by (auto simp: duplicate_index_def)
      then have "i < length queue" using find_index_Some [OF k(1)] by (simp add: less_diff_conv add.commute)
      then show ?thesis
        using coalesced_update co Some \<open>readSignature json (wa_request wa) = Some s\<close>
        by (simp add: insert_request_def Let_def)
    qed
  qed
qed

section \<open>What an event may change\<close>

definition advances :: "worker \<Rightarrow> worker \<Rightarrow> bool" where
  "advances w w' \<longleftrightarrow>
     (w_queue w' = w_queue w \<or>
      w_queue w \<noteq> [] \<and> w_queue w' = taken (select_index (w_queue w)) (w_queue w)) \<and>
     (closes w' = closes w \<or> w_running w' = None)"

lemma advances_from:
  "advances u w' \<Longrightarrow> w_queue u = w_queue w \<Longrightarrow> closes u = closes w \<Longrightarrow> advances w w'"
  by (simp add: advances_def)

lemma advances_refl: "w_queue u = w_queue w \<Longrightarrow> closes u = closes w \<Longrightarrow> advances w u"
  by (simp add: advances_def)

lemma advances_drainQueue: "advances w (drainQueue w) \<and> closes (drainQueue w) = closes w"
  by (simp add: advances_def drainQueue_def Let_def case_prod_beta dispatch_start_log taken_def)

lemma advances_done: "advances w (dispatchDone env w)"
proof -
  let ?d = "drainQueue (w\<lparr>w_running := None\<rparr>)"
  have d: "advances w ?d"
    by (rule advances_from [OF conjunct1 [OF advances_drainQueue]]) simp_all
  have "w_queue (fold (continueDrain env) ds u) = w_queue u \<and>
      w_running (fold (continueDrain env) ds u) = w_running u" for ds u
    by (induction ds arbitrary: u) (simp_all add: continueDrain_parts)
  then have "advances w (fold (continueDrain env) (w_drains ?d) (?d\<lparr>w_drains := []\<rparr>))" if "\<not> busy ?d"
    using d that by (cases "w_running ?d") (simp_all add: advances_def busy_def)
  then show ?thesis using d by (simp add: dispatchDone_def resolveDrainWaitersIfIdle_def)
qed

lemma still_handlers:
  assumes "w_running w \<noteq> None"
  shows "still (fold (handlerFailed env err) was w) = still w"
    "still (fold (handlerSucceeded env v) was w) = still w"
  using still_fold [where f = "handlerFailed env err", OF still_failed assms]
    still_fold [where f = "handlerSucceeded env v", OF still_succeeded assms] by simp_all

lemma advances_settle: "advances w (settleDispatch cfg env entry res w)"
proof -
  let ?run = "\<lambda>v. v\<lparr>w_running := Some (entry\<lparr>qe_waiters := []\<rparr>, Refreshing_After)\<rparr>"
  have d: "advances w (dispatchDone env u)" if "w_queue u = w_queue w" "closes u = closes w" for u
    using advances_done that by (rule advances_from)
  show ?thesis
  proof (cases res)
    case (Inl err)
    have "still (fold (handlerFailed env err) (qe_waiters entry) (?run w)) = still (?run w)"
      by (rule still_handlers) simp
    from still_parts(2,10) [OF this] show ?thesis using Inl d by (simp add: settleDispatch_def)
  next
    case (Inr v)
    obtain pd w1 where r: "(if isStorageTransactionRequest (qe_request entry)
        then refreshQueueDiagnostics cfg env False w else (False, w)) = (pd, w1)" by fastforce
    have "still w1 = still w"
      using r still_refresh [of cfg env False w] by (auto split: if_splits simp del: still_refresh)
    then have q: "w_queue w1 = w_queue w" "closes w1 = closes w" by (rule still_parts)+
    let ?u = "fold (handlerSucceeded env v) (qe_waiters entry) (?run w1)"
    have "still ?u = still (?run w1)" by (rule still_handlers) simp
    from still_parts(2,10) [OF this] have u: "w_queue ?u = w_queue w" "closes ?u = closes w"
      using q by simp_all
    show ?thesis
      using Inr r d [OF u] advances_refl [OF u] by (simp add: settleDispatch_def Let_def)
  qed
qed

lemma advances_running: "advances w (running_step cfg env ev e ph w)"
proof -
  have s: "advances w (settleDispatch cfg env e res u)" if "w_queue u = w_queue w" "closes u = closes w" for res u
    using advances_settle that by (rule advances_from)
  have f: "w_queue (snd (finishDispatch cfg env (qe_request e) v w)) = w_queue w"
    "closes (snd (finishDispatch cfg env (qe_request e) v w)) = closes w" for v
    using still_parts(2,10) [OF still_finish(1)] by simp_all
  have k: "w_queue (snd (refreshQueueDiagnostics cfg env fo u)) = w_queue u"
    "closes (snd (refreshQueueDiagnostics cfg env fo u)) = closes u" for fo u
    using still_parts(2,10) [OF still_refresh(1)] by simp_all
  have o: "w_queue (diagnosticsOutcome env oc w) = w_queue w" "closes (diagnosticsOutcome env oc w) = closes w" for oc
    using still_parts(2,10) [OF still_outcome(1)] by simp_all
  have refl: "advances w w" by (rule advances_refl) simp_all
  show ?thesis
  proof (cases "running_step cfg env ev e ph w = w")
    case True
    then show ?thesis using refl by simp
  next
    case same: False
    show ?thesis
    proof (cases ph)
      case Awaiting_Engine
      then obtain res where "ev = Engine_Returned res" using same by (cases ev) auto
      then show ?thesis using Awaiting_Engine s f by (cases res) (simp_all add: case_prod_beta)
    next
      case (Settling res)
      then have "ev = Settle" using same by (cases ev) auto
      then show ?thesis using Settling s by simp
    next
      case Init_Loading
      then obtain res where "ev = Wasm_Loaded res" using same by (cases ev) auto
      then show ?thesis
        using Init_Loading s by (simp add: wasmLoaded_def advances_refl split: option.split)
    next
      case (Init_Opening t)
      then obtain res where "ev = Opened res" using same by (cases ev) auto
      then show ?thesis
        using Init_Opening s k
        by (simp add: engineOpened_def Let_def case_prod_beta record_event_def advances_refl split: sum.split)
    next
      case Init_Refreshing
      then obtain oc where "ev = Diagnostics oc" using same by (cases ev) auto
      then show ?thesis using Init_Refreshing s o refl by simp
    next
      case Refreshing_After
      then obtain oc where "ev = Diagnostics oc" using same by (cases ev) auto
      moreover have "advances w (dispatchDone env (diagnosticsOutcome env oc w))" for oc
        using advances_done o by (rule advances_from)
      ultimately show ?thesis using Refreshing_After refl by simp
    qed
  qed
qed

section \<open>The invariant\<close>

definition worker_books :: "worker \<Rightarrow> bool" where
  "worker_books w \<longleftrightarrow> coalesced (w_queue w) \<and> (closes w \<noteq> 0 \<longrightarrow> w_running w = None)"

lemma books_advance:
  assumes "worker_books w" "closes w = 0 \<or> w_running w \<noteq> None" "advances w w'"
  shows "worker_books w'"
proof -
  have "coalesced (w_queue w')"
    using assms(1,3) coalesced_taken by (auto simp: worker_books_def advances_def)
  moreover have "closes w = 0" using assms(1,2) by (auto simp: worker_books_def)
  ultimately show ?thesis using assms(3) by (auto simp: worker_books_def advances_def)
qed

lemma books_same:
  "worker_books w \<Longrightarrow> w_queue u = w_queue w \<Longrightarrow> closes u = closes w \<Longrightarrow> w_running u = w_running w \<Longrightarrow>
    worker_books u"
  by (simp add: worker_books_def)

lemma books_handle:
  assumes inv: "worker_inv cfg ws w" and b: "worker_books w"
  shows "worker_books (handleRequest cfg env port req w)"
proof (cases "w_accepting w")
  case False
  then have "still (handleRequest cfg env port req w) = still w"
    by (simp add: handleRequest_def Let_def case_prod_beta neutral_put split: option.split)
  from still_parts(2,3,10) [OF this] show ?thesis using b by (intro books_same [OF b])
next
  case True
  let ?wa = "\<lparr> wa_port = port, wa_request = req, wa_started = we_now env \<rparr>"
  let ?v = "w\<lparr>w_active := w_active w + 1, w_queue := insert_request (wc_json cfg) ?wa (w_queue w)\<rparr>"
  have c: "closes w = 0" using inv True by (simp add: worker_inv_def drain_ok_def)
  have "worker_books ?v"
    using b c inv coalesced_insert by (simp add: worker_books_def worker_inv_def)
  then have "worker_books (drainQueue ?v)"
    by (rule books_advance [OF _ _ conjunct1 [OF advances_drainQueue]]) (simp add: c)
  then show ?thesis using True by (simp add: handleRequest_def enqueue_def Let_def)
qed

lemma worker_books_step:
  assumes inv: "worker_inv cfg ws w" and b: "worker_books w"
  shows "worker_books (snd (worker_step cfg (env, ev) w))"
proof -
  have run: "worker_books (case w_running w of None \<Rightarrow> w | Some (en, ph) \<Rightarrow> running_step cfg env e en ph w)" for e
    using b advances_running by (auto intro: books_advance split: option.split prod.split)
  show ?thesis
  proof (cases ev)
    case (Handle port req)
    then show ?thesis using books_handle [OF inv b] by (simp add: worker_step_def)
  next
    case (Add_Port port)
    then show ?thesis using b by (simp add: worker_step_def addPort_def worker_books_def)
  next
    case (Remove_Port port)
    then show ?thesis using b by (simp add: worker_step_def removePort_def worker_books_def)
  next
    case (Drain d)
    let ?u = "w\<lparr>w_accepting := False, w_cancelled := True\<rparr>"
    have "worker_books (drain env d w)"
    proof (cases "busy ?u")
      case True
      then show ?thesis using b by (simp add: drain_def worker_books_def)
    next
      case False
      then have "w_running ?u = None" by (cases "w_running ?u"; simp add: busy_def)
      then show ?thesis using False b by (simp add: drain_def worker_books_def continueDrain_parts)
    qed
    then show ?thesis using Drain by (simp add: worker_step_def)
  next
    case (Engine_Closed d res)
    have "worker_books (engineClosed d res w)"
      using b by (simp add: engineClosed_def Let_def worker_books_def reportResetRequired_def split: option.split)
    then show ?thesis using Engine_Closed by (simp add: worker_step_def)
  next
    case Record_Diagnostics
    have "still (recordCachedQueueDiagnostics env w) = still w" by simp
    from still_parts(2,3,10) [OF this] have "worker_books (recordCachedQueueDiagnostics env w)"
      by (intro books_same [OF b])
    then show ?thesis using Record_Diagnostics by (simp add: worker_step_def)
  qed (simp_all add: worker_step_def run del: running_step.simps)
qed

definition worker_good :: "worker_config \<Rightarrow> worker \<Rightarrow> bool" where
  "worker_good cfg w \<longleftrightarrow> some_worker_inv cfg w \<and> worker_books w"

lemma worker_good_initial: "worker_good cfg initial_worker"
  using worker_inv_initial [of cfg]
  by (auto simp: worker_good_def some_worker_inv_def worker_books_def initial_worker_def closes_def)

lemma worker_good_step: "worker_good cfg w \<Longrightarrow> worker_good cfg (snd (worker_step cfg ev w))"
  using worker_step_inv [of cfg _ w ev] worker_books_step [of cfg _ w "fst ev" "snd ev"]
  unfolding worker_good_def some_worker_inv_def by auto

interpretation queues: machine initial_worker "worker_step cfg" "\<lambda>_. True" "worker_good cfg" for cfg
  using worker_good_initial worker_good_step by unfold_locales

end
