(* ===== verification/Worker_Theorems.thy ===== *)
theory Worker_Theorems
  imports Worker_Books
begin

text \<open>
  The properties of the engine worker: which request runs next, in which order requests reach the
  engine, how often each is answered, that the queue always drains, the life of the engine.
\<close>

section \<open>Concrete runs\<close>

definition at_zero :: worker_env where
  "at_zero = \<lparr> we_now = 0, we_wall = 0, we_post = (\<lambda>port message. None) \<rparr>"

definition plain_config :: worker_config where
  "plain_config = \<lparr> wc_recovery = False, wc_diagnostics = False, wc_interval = 60000,
     wc_json = (\<lambda>v. case v of JArr (op # rest) \<Rightarrow> the_str op | _ \<Rightarrow> []),
     wc_type_error = js ''undefined'' \<rparr>"

definition simple_request :: "int \<Rightarrow> string \<Rightarrow> jsval" where
  "simple_request n kind = JObj [(js ''id'', JInt n), (js ''kind'', JStr (js kind))]"

text \<open>The environment that ends every phase well.\<close>

fun well_ended :: "queued_engine_request \<Rightarrow> phase \<Rightarrow> worker_event" where
  "well_ended e Awaiting_Engine = Engine_Returned (Inr (JObj [(js ''kind'', JStr (js ''unsupported''))]))"
| "well_ended e (Settling res) = Settle"
| "well_ended e Init_Loading = Wasm_Loaded None"
| "well_ended e (Init_Opening t) = Opened (Inr None)"
| "well_ended e Init_Refreshing = Diagnostics Diag_Timeout"
| "well_ended e Refreshing_After = Diagnostics Diag_Timeout"

lemma well_ended_due: "due ph (well_ended e ph)"
  by (cases ph) simp_all

lemma calm_zero: "calm_posts at_zero"
  by (simp add: calm_posts_def at_zero_def)

definition starting :: "(worker_env \<times> worker_event) list" where
  "starting =
     [(at_zero, Handle 1 (JObj [(js ''id'', JInt 0), (js ''kind'', JStr (js ''init'')),
         (js ''scope'', JStr (js ''s''))])),
      (at_zero, Wasm_Loaded None), (at_zero, Opened (Inr (Some Opened_Existing)))]"

section \<open>Answers\<close>

text \<open>
  As long as no post throws, what has been answered and what still waits are together exactly
  what was asked: each request is answered once, on the port and with the id it came with, whatever
  the engine returns, rejects or never returns, whether it was coalesced, or arrived after a drain.
\<close>

theorem worker_answers_once:
  assumes "\<forall>(env, ev) \<in> set es. calm_posts env"
  shows "let w = snd (run (worker_step cfg) es initial_worker)
    in mset (answers w) + image_mset asker (mset (pending w)) = mset (asked es)"
proof -
  have "balance initial_worker = {#}"
    by (simp add: balance_def initial_worker_def answers_def pending_def)
  then show ?thesis
    using balance_run [OF worker_inv_initial assms(1)] by (simp add: Let_def balance_def)
qed

theorem worker_answers_once_witness:
  "mset (answers (snd (run (worker_step plain_config) starting initial_worker))) +
     image_mset asker (mset (pending (snd (run (worker_step plain_config) starting initial_worker)))) =
   {# (1, JInt 0) #}"
proof -
  have "\<forall>(env, ev) \<in> set starting. calm_posts env"
    by (simp add: starting_def calm_zero)
  note worker_answers_once [OF this, of plain_config]
  moreover have "mset (asked starting) = {# (1, JInt 0) #}" by (simp add: starting_def)
  ultimately show ?thesis unfolding Let_def by simp
qed

text \<open>
  C21: The worker always finishes. However a run went, let the environment end each phase the worker is
  in by any outcome (the engine returns or rejects, the WASM module loads or not, the diagnostics answer,
  fail or time out): after at most \<open>work\<close> such events nothing runs, the queue is empty and, as long as no
  post throws, every request has been answered exactly once.
\<close>

theorem worker_serves_every_request:
  assumes "\<forall>(env, ev) \<in> set es. calm_posts env" "calm_posts env"
    and "\<And>e ph. due ph (ending e ph)"
    and "work (snd (run (worker_step cfg) es initial_worker)) \<le> n"
  shows "let w = drive cfg env ending n (snd (run (worker_step cfg) es initial_worker))
    in w_running w = None \<and> w_queue w = [] \<and> mset (answers w) = mset (asked es)"
proof -
  let ?w = "snd (run (worker_step cfg) es initial_worker)"
  define w where "w = drive cfg env ending n ?w"
  have inv: "worker_inv cfg (accepted cfg es initial_worker) ?w"
    using worker_inv_run [OF worker_inv_initial] by simp
  note rest = drive_rests [where ending = ending and env = env, OF inv assms(3,4), folded w_def]
  then have idle: "w_running w = None" "w_queue w = []"
    by (auto simp: worker_inv_def phase_ok_def)
  have "balance initial_worker = {#}"
    by (simp add: balance_def initial_worker_def answers_def pending_def)
  then have "balance ?w = mset (asked es)"
    using balance_run [OF worker_inv_initial assms(1)] by simp
  then show ?thesis using rest assms(2) idle by (simp add: balance_def pending_def Let_def flip: w_def)
qed

theorem worker_serves_every_request_witness:
  "mset (answers (drive plain_config at_zero well_ended
      (work (snd (run (worker_step plain_config) starting initial_worker)))
      (snd (run (worker_step plain_config) starting initial_worker)))) = {# (1, JInt 0) #}"
proof -
  have "\<forall>(env, ev) \<in> set starting. calm_posts env"
    by (simp add: starting_def calm_zero)
  note worker_serves_every_request [OF this calm_zero well_ended_due order_refl]
  moreover have "mset (asked starting) = {# (1, JInt 0) #}" by (simp add: starting_def)
  ultimately show ?thesis unfolding Let_def by simp
qed

section \<open>Order\<close>

text \<open>
  C22: The order of dispatch, over any run: what has been dispatched followed by what is queued is
  the sequence of accepted requests up to reordering between two lifecycle barriers (init, teardown,
  clear), and the writes and hydrations among them are dispatched in the very order of acceptance.
\<close>

theorem worker_dispatch_order:
  "let w = snd (run (worker_step cfg) es initial_worker);
       served = flat (dispatched w @ w_queue w); came = accepted cfg es initial_worker
   in blocks wbarrier served = blocks wbarrier came \<and> filter wwrite served = filter wwrite came"
  using worker_inv_run [OF worker_inv_initial, of cfg es]
  by (simp add: Let_def worker_inv_def in_arrival_order_def)

text \<open>
  The choice of the next request is the reference one: among the requests before the first barrier
  that are no write or hydration, or the first of these, or the head, it is the first of
  maximal priority, and no other index has this property.
\<close>

theorem next_request_most_urgent:
  "0 < segmentEnd queue \<Longrightarrow> (select_index queue = i) = most_urgent queue i"
  using select_most_urgent most_urgent_unique by blast

definition sample_queue :: "queued_engine_request list" where
  "sample_queue = List.map (\<lambda>k. fresh_entry (\<lambda>v. []) \<lparr> wa_port = 1, wa_request = simple_request 0 k, wa_started = 0 \<rparr>)
     [''hydrate'', ''read'', ''write'', ''claim-next-mutation'', ''teardown'', ''invalidate'']"

theorem next_request_most_urgent_witness: "most_urgent sample_queue 3"
proof -
  have "segmentEnd sample_queue = 4" "select_index sample_queue = 3" by code_simp+
  then show ?thesis using next_request_most_urgent [of sample_queue 3] by simp
qed

text \<open>
  C23: Reads are coalesced and stay what was asked: in every reachable state two queued requests with
  one read signature have a barrier between them, every queued entry has a waiter, and all waiters
  of an entry asked for exactly its request or for a read of its signature.
\<close>

theorem queued_reads_coalesced:
  "let w = snd (run (worker_step cfg) es initial_worker)
   in coalesced (w_queue w) \<and> list_all (entry_ok (wc_json cfg)) (w_queue w)"
  using queues.inv_run [where cfg = cfg, of es]
  by (auto simp: Let_def list.pred_True worker_good_def worker_books_def some_worker_inv_def worker_inv_def)

text \<open>
  A deletion overtakes an earlier hydration: with a hydration waiting and then a deletion of records (or
  an invalidation) accepted, the worker dispatches the deletion first and hydrates after it, so
  the order in which the two writes reach the cache is not the order in which they were accepted.
\<close>

theorem deletion_overtakes_hydration:
  assumes "kind_is (wa_request h) ''hydrate''"
    and "kind_is (wa_request d) ''delete-records'' \<or> kind_is (wa_request d) ''invalidate''"
  shows "let queue = insert_request json d (insert_request json h [])
    in List.map qe_waiters queue = [[h], [d]] \<and> select_index queue = 1"
proof -
  have h: "readSignature json (wa_request h) = None" "requestPriority (wa_request h) = -1"
    "\<not> isOrderingBarrier (wa_request h)" "isQueryDataWrite (wa_request h)"
    using assms(1)
    by (simp_all add: readSignature_def requestPriority_def kind_is_def isOrderingBarrier_def isQueryDataWrite_def
        BACKGROUND_HYDRATION_PRIORITY_def)
  have d: "readSignature json (wa_request d) = None" "requestPriority (wa_request d) = 2"
    "\<not> isOrderingBarrier (wa_request d)" "\<not> isQueryDataWrite (wa_request d)"
    using assms(2)
    by (auto simp: readSignature_def requestPriority_def kind_is_def isOrderingBarrier_def isQueryDataWrite_def
        CACHE_WRITE_PRIORITY_def)
  have q: "insert_request json d (insert_request json h []) = [fresh_entry json h, fresh_entry json d]"
    using h d by (simp add: insert_request_def)
  have "segmentEnd [fresh_entry json h, fresh_entry json d] = 2"
    using h d by (simp add: segmentEnd_def barrier_def fresh_entry_def)
  then show ?thesis
    using h d unfolding q
    by (simp add: fresh_entry_def select_index_def better_def data_write_def numeral_2_eq_2 Let_def)
qed

theorem deletion_overtakes_hydration_witness:
  "select_index (insert_request (\<lambda>v. [])
     \<lparr> wa_port = 1, wa_request = simple_request 2 ''delete-records'', wa_started = 0 \<rparr>
     (insert_request (\<lambda>v. []) \<lparr> wa_port = 1, wa_request = simple_request 1 ''hydrate'', wa_started = 0 \<rparr> [])) = 1"
  using deletion_overtakes_hydration
    [of "\<lparr> wa_port = 1, wa_request = simple_request 1 ''hydrate'', wa_started = 0 \<rparr>"
      "\<lparr> wa_port = 1, wa_request = simple_request 2 ''delete-records'', wa_started = 0 \<rparr>" "\<lambda>v. []"]
  by (simp add: simple_request_def kind_is_def Let_def)

section \<open>The engine\<close>

text \<open>
  Over any run the engine is opened at most once and closed at most once; once it is closed the
  worker accepts nothing, runs nothing, has an empty queue and never uses an engine again.
\<close>

theorem worker_engine_life:
  "let w = snd (run (worker_step cfg) es initial_worker)
   in opens w \<le> 1 \<and> closes w \<le> 1 \<and>
      (closes w = 0 \<or>
       w_engine w = False \<and> w_accepting w = False \<and> w_running w = None \<and> w_queue w = [])"
proof -
  let ?w = "snd (run (worker_step cfg) es initial_worker)"
  have "worker_good cfg ?w" by (rule queues.inv_run) (simp add: list.pred_True)
  then obtain ws where inv: "worker_inv cfg ws ?w" and b: "worker_books ?w"
    by (auto simp: worker_good_def some_worker_inv_def)
  show ?thesis
    using inv b by (auto simp: Let_def worker_inv_def engine_ok_def drain_ok_def phase_ok_def worker_books_def)
qed

end
