(* ===== verification/Engine_Runtime.thy ===== *)
theory Engine_Runtime
  imports Worker_Core Coord_Codec
begin

text \<open>
  The dedicated worker around the engine core
  (\<open>apps/web/src/lib/graphql-cache/worker/cache-engine-runtime.ts\<close>): \<open>installCacheEngineWorker\<close> and
  \<open>activate\<close> with its closures, over one record of everything they share.

  The core is the interface \<open>CacheWorkerCoreLike\<close> of the source: what it posts, when it asks for a reset and how
  its promises settle are events, in any order (its own machine is \<open>Worker_Core\<close>). So are the
  hook before a request, the lock query, and what the Effect fibers and the Effect worker transport decide
  (when a wait for the admissions resumes, that the transport failed). An operation that throws returns
  the thrown value.
\<close>

section \<open>State\<close>

record activation =
  ac_scope :: js_string
  ac_tab :: js_string
  ac_epoch :: owner_epoch
  ac_action :: database_action
  ac_lock :: js_string
  ac_hot :: "nat option"

fun activation_of :: "page_to_engine \<Rightarrow> activation" where
  "activation_of (Activate_Engine sc t e act lk ht) =
     \<lparr> ac_scope = sc, ac_tab = t, ac_epoch = e, ac_action = act, ac_lock = lk, ac_hot = ht \<rparr>"

datatype runtime_hook =
    Hook_Activation_Started
  | Hook_Request_Admitted jsval
  | Hook_Ready
  | Hook_Drained
  | Hook_Fatal js_string engine_fatal_code

datatype runtime_output =
    Sent engine_to_coordinator
  | Hooked runtime_hook
  | Core_Created bool
  | Init_Requested jsval
  | Before_Request_Called nat jsval
  | Core_Requested nat jsval
  | Port_Added
  | Lock_Queried js_string
  | Core_Drain_Called
  | Core_Diagnostics_Called
  | Memory_Recorded int int
  | Runtime_Telemetry engine_observation
  | Telemetry_Flushed
  | Port_Refused nat
  | Worker_Scope_Closed
  | Uncaught thrown

datatype activation_stage = Dormant | Initializing | Checking_Lock | Activation_Over

datatype admission_stage = In_Hook | In_Core

datatype drain_stage = No_Drain | Awaiting_Admissions | Draining_Core | Drain_Over

record engine_runtime =
  en_activation :: "activation option"
  en_started :: int
  en_failed :: bool
  en_outcome :: engine_open_outcome
  en_draining :: bool
  en_runner_failed :: bool
  en_runner_closed :: bool
  en_lifecycle_closed :: bool
  en_stage :: activation_stage
  en_response :: "jsval option"
  en_admissions :: "(nat \<times> jsval \<times> admission_stage) list"
  en_next :: nat
  en_drain :: drain_stage
  en_memory_at :: "int option"
  en_high_water :: int
  en_out :: "runtime_output list"

definition initial_runtime :: engine_runtime where
  "initial_runtime =
     \<lparr> en_activation = None, en_started = 0, en_failed = False, en_outcome = Opened_Existing, en_draining = False,
       en_runner_failed = False, en_runner_closed = False, en_lifecycle_closed = False, en_stage = Dormant,
       en_response = None, en_admissions = [], en_next = 0, en_drain = No_Drain, en_memory_at = None,
       en_high_water = 0, en_out = [] \<rparr>"

text \<open>
  The environment of an event: the clock, the linear memory or the failure to read it, which sends throw, and
  the interval between two memory observations.
\<close>

record runtime_env =
  ne_now :: int
  ne_memory :: "int option"
  ne_interval :: int
  ne_send :: "engine_to_coordinator \<Rightarrow> thrown option"

type_synonym rt_op = "engine_runtime \<Rightarrow> thrown option \<times> engine_runtime"

definition log_out :: "runtime_output \<Rightarrow> engine_runtime \<Rightarrow> engine_runtime" where
  "log_out out rt = rt\<lparr>en_out := en_out rt @ [out]\<rparr>"

definition then_op :: "rt_op \<Rightarrow> rt_op \<Rightarrow> rt_op" where
  "then_op f g rt = (case f rt of (Some err, rt1) \<Rightarrow> (Some err, rt1) | (None, rt1) \<Rightarrow> g rt1)"

definition caught :: "rt_op \<Rightarrow> (thrown \<Rightarrow> rt_op) \<Rightarrow> rt_op" where
  "caught f h rt = (case f rt of (Some err, rt1) \<Rightarrow> h err rt1 | (None, rt1) \<Rightarrow> (None, rt1))"

definition plainly :: "(engine_runtime \<Rightarrow> engine_runtime) \<Rightarrow> rt_op" where
  "plainly f rt = (None, f rt)"

definition the_activation :: "engine_runtime \<Rightarrow> activation" where
  "the_activation rt = the (en_activation rt)"

section \<open>Sending\<close>

definition post_envelope :: "runtime_env \<Rightarrow> engine_to_coordinator \<Rightarrow> rt_op" where
  "post_envelope env m rt =
     (if en_runner_closed rt then (None, rt)
      else case ne_send env m of
        None \<Rightarrow> (None, log_out (Sent m) rt)
      | Some err \<Rightarrow> if en_runner_failed rt then (None, rt) else (Some err, rt))"

definition fatal :: "runtime_env \<Rightarrow> js_string \<Rightarrow> engine_fatal_code \<Rightarrow> rt_op" where
  "fatal env reason code rt =
     (if en_failed rt then (None, rt)
      else
        let rt1 = log_out (Hooked (Hook_Fatal reason code)) (rt\<lparr>en_failed := True\<rparr>); a = the_activation rt in
        if en_runner_failed rt1 then (None, rt1)
        else post_envelope env (Engine_Fatal (ac_tab a) (ac_epoch a) reason code) rt1)"

definition recordLinearMemory :: "runtime_env \<Rightarrow> bool \<Rightarrow> engine_runtime \<Rightarrow> engine_runtime" where
  "recordLinearMemory env force rt =
     (if \<not> force \<and>
         (case en_memory_at rt of None \<Rightarrow> False | Some t \<Rightarrow> ne_now env - t < ne_interval env) then rt
      else case ne_memory env of
        None \<Rightarrow> rt
      | Some bytes \<Rightarrow>
          let high = max (en_high_water rt) bytes
          in log_out (Memory_Recorded bytes high) (rt\<lparr>en_high_water := high, en_memory_at := Some (ne_now env)\<rparr>))"

text \<open>\<open>enginePort.postMessage\<close>\<close>

definition core_code_error :: js_string where
  "core_code_error = js ''CacheWorkerCore emitted a coordinator-only cache error code''"

definition core_message_error :: js_string where
  "core_message_error = js ''CacheWorkerCore emitted an invalid cache message''"

definition corePosts :: "runtime_env \<Rightarrow> jsval \<Rightarrow> rt_op" where
  "corePosts env message rt =
     (let e = ac_epoch (the_activation rt) in
      if isCacheResponse message then
        if getp message ''ok'' = JBool False \<and> getp message ''errorCode'' \<noteq> JUndef then
          fatal env core_code_error Runtime_Failure rt
        else post_envelope env (Engine_Response e (the_nat (getp message ''id'')) message) rt
      else if isCachePush message then post_envelope env (Engine_Push e message) rt
      else fatal env core_message_error Runtime_Failure rt)"

section \<open>Messages of the coordinator\<close>

text \<open>\<open>admitRequest\<close> starts a fiber, which first runs the hook.\<close>

definition admitRequest :: "jsval \<Rightarrow> engine_runtime \<Rightarrow> engine_runtime" where
  "admitRequest req rt =
     (let rt1 = log_out (Hooked (Hook_Request_Admitted req)) rt
      in log_out (Before_Request_Called (en_next rt1) req)
           (rt1\<lparr>en_admissions := en_admissions rt1 @ [(en_next rt1, req, In_Hook)],
             en_next := Suc (en_next rt1)\<rparr>))"

definition receiveEnvelope :: "runtime_env \<Rightarrow> jsval \<Rightarrow> rt_op" where
  "receiveEnvelope env raw rt =
     (case validateCoordinatorToEngineEnvelope raw of
        Inl err \<Rightarrow> fatal env (js ''invalid coordinator envelope: '' @ err) Runtime_Failure rt
      | Inr message \<Rightarrow>
          if en_failed rt then (None, rt)
          else if ce_epoch message \<noteq> ac_epoch (the_activation rt) then
            fatal env (js ''coordinator envelope owner epoch does not match activation'') Runtime_Failure rt
          else case message of
            Engine_Request e n req \<Rightarrow>
              if en_draining rt then
                fatal env (js ''coordinator routed a request after drain began'') Runtime_Failure rt
              else (None, admitRequest req rt)
          | Drain_Engine e \<Rightarrow>
              (None, if en_draining rt then rt
                else rt\<lparr>en_draining := True, en_drain := Awaiting_Admissions\<rparr>)
          | Heartbeat e h \<Rightarrow>
              post_envelope env (Heartbeat_Ack e h)
                (log_out Core_Diagnostics_Called (recordLinearMemory env False rt)))"

section \<open>Admissions and drain\<close>

definition finish_admission :: "nat \<Rightarrow> engine_runtime \<Rightarrow> engine_runtime" where
  "finish_admission i rt = rt\<lparr>en_admissions := filter (\<lambda>x. fst x \<noteq> i) (en_admissions rt)\<rparr>"

text \<open>A fiber of a closed scope has been interrupted: its failure is not reported.\<close>

definition admissionFailed :: "runtime_env \<Rightarrow> thrown \<Rightarrow> nat \<Rightarrow> rt_op" where
  "admissionFailed env err i rt =
     (let rt1 = finish_admission i rt in
      if en_lifecycle_closed rt1 then (None, rt1)
      else fatal env (js ''engine request admission failed: '' @ th_message err) Runtime_Failure rt1)"

definition hookSettled :: "runtime_env \<Rightarrow> nat \<Rightarrow> thrown option \<Rightarrow> rt_op" where
  "hookSettled env i res rt =
     (case map_of (en_admissions rt) i of
        Some (req, In_Hook) \<Rightarrow>
          (case res of
             Some err \<Rightarrow> admissionFailed env err i rt
           | None \<Rightarrow>
               if en_failed rt then (None, finish_admission i rt)
               else (None, log_out (Core_Requested i req)
                 (rt\<lparr>en_admissions := AList.update i (req, In_Core) (en_admissions rt)\<rparr>)))
      | _ \<Rightarrow> (None, rt))"

definition coreHandled :: "runtime_env \<Rightarrow> nat \<Rightarrow> thrown option \<Rightarrow> rt_op" where
  "coreHandled env i res rt =
     (case map_of (en_admissions rt) i of
        Some (req, In_Core) \<Rightarrow>
          (case res of
             Some err \<Rightarrow> admissionFailed env err i rt
           | None \<Rightarrow> (None, finish_admission i rt))
      | _ \<Rightarrow> (None, rt))"

definition closeLifecycle :: "engine_runtime \<Rightarrow> engine_runtime" where
  "closeLifecycle rt = rt\<lparr>en_lifecycle_closed := True, en_runner_closed := True\<rparr>"

text \<open>\<open>FiberSet.awaitEmpty\<close> resumes once no admission is left, never before.\<close>

definition admissionsEmpty :: "engine_runtime \<Rightarrow> engine_runtime" where
  "admissionsEmpty rt =
     (if en_drain rt = Awaiting_Admissions \<and> en_admissions rt = [] \<and> \<not> en_lifecycle_closed rt then
        log_out Core_Drain_Called (rt\<lparr>en_drain := Draining_Core\<rparr>)
      else rt)"

definition drainFailed :: "runtime_env \<Rightarrow> thrown \<Rightarrow> rt_op" where
  "drainFailed env err = fatal env (js ''engine drain failed: '' @ th_message err) Runtime_Failure"

definition finishDrain :: "runtime_env \<Rightarrow> rt_op" where
  "finishDrain env =
     then_op
       (\<lambda>rt. let a = the_activation rt in
          post_envelope env (Engine_Drained (ac_tab a) (ac_epoch a))
            (log_out Telemetry_Flushed (log_out (Hooked Hook_Drained) (recordLinearMemory env True rt))))
       (plainly (\<lambda>rt. log_out Worker_Scope_Closed (rt\<lparr>en_runner_closed := True\<rparr>)))"

definition coreDrained :: "runtime_env \<Rightarrow> thrown option \<Rightarrow> rt_op" where
  "coreDrained env res rt =
     (if en_drain rt \<noteq> Draining_Core \<or> en_lifecycle_closed rt then (None, rt)
      else
        let (thrown, rt1) =
              (case res of
                 Some err \<Rightarrow> drainFailed env err
               | None \<Rightarrow> caught (finishDrain env) (drainFailed env)) (rt\<lparr>en_drain := Drain_Over\<rparr>)
        in (thrown, closeLifecycle rt1))"

section \<open>Activation\<close>

definition init_request :: "activation \<Rightarrow> jsval" where
  "init_request a =
     JObj [(js ''id'', JInt 0), (js ''kind'', JStr (js ''init'')), (js ''scope'', JStr (ac_scope a)),
       (js ''hotCapacity'', opt_val jnat (ac_hot a))]"

definition activate :: "runtime_env \<Rightarrow> page_to_engine \<Rightarrow> engine_runtime \<Rightarrow> engine_runtime" where
  "activate env message rt =
     (let a = activation_of message;
          rt1 = log_out (Hooked Hook_Activation_Started)
            (rt\<lparr>en_activation := Some a, en_started := ne_now env,
              en_outcome := (if ac_action a = Wipe_Before_Open then Reset_Storage_Uncertain else Opened_Existing),
              en_stage := Initializing\<rparr>)
      in log_out (Init_Requested (init_request a)) (log_out (Core_Created (ac_action a = Wipe_Before_Open)) rt1))"

definition workerMessage :: "runtime_env \<Rightarrow> jsval \<Rightarrow> nat list \<Rightarrow> engine_runtime \<Rightarrow> engine_runtime" where
  "workerMessage env raw ports rt =
     (case validatePageToEngineEnvelope raw of
        Inr message \<Rightarrow>
          if length ports = 1 \<and> en_activation rt = None then activate env message rt
          else fold (\<lambda>port. log_out (Port_Refused port)) ports rt
      | Inl err \<Rightarrow> fold (\<lambda>port. log_out (Port_Refused port)) ports rt)"

definition db_ready :: "runtime_env \<Rightarrow> telemetry_outcome \<Rightarrow> cache_error_code \<Rightarrow> engine_runtime \<Rightarrow> engine_runtime" where
  "db_ready env outcome code rt =
     log_out (Runtime_Telemetry ((observed Db_Ready Cat_Initialization outcome (Some code))
       \<lparr>ob_duration := Some (ne_now env - en_started rt)\<rparr>)) rt"

text \<open>The \<open>catch\<close> of \<open>activate\<close>; a throw there rejects its promise, which nobody awaits.\<close>

definition activationFailed :: "runtime_env \<Rightarrow> thrown \<Rightarrow> rt_op" where
  "activationFailed env err rt =
     (let a = the_activation rt;
          rt1 = log_out Telemetry_Flushed (db_ready env Out_Error (classifyCacheError (Some (th_message err)))
            (rt\<lparr>en_stage := Activation_Over\<rparr>))
      in caught
           (then_op
             (post_envelope env (Activation_Failed (ac_tab a) (ac_epoch a) (th_message err)
               (if ac_action a = Wipe_Before_Open then Recovery_Open_Failed else Initialization_Failed)))
             (plainly closeLifecycle))
           (\<lambda>err. plainly (log_out (Uncaught err))) rt1)"

definition init_unanswered :: js_string where
  "init_unanswered = js ''cache engine initialization returned no response''"

definition initSettled :: "runtime_env \<Rightarrow> thrown option \<Rightarrow> rt_op" where
  "initSettled env res rt =
     (if en_stage rt \<noteq> Initializing then (None, rt)
      else case res of
        Some err \<Rightarrow> activationFailed env err rt
      | None \<Rightarrow>
          (case en_response rt of
             None \<Rightarrow> activationFailed env (Thrown init_unanswered False) rt
           | Some r \<Rightarrow>
               if getp r ''ok'' \<noteq> JBool True then
                 activationFailed env (Thrown (the_str (getp r ''error'')) False) rt
               else if en_failed rt then (None, rt\<lparr>en_stage := Activation_Over\<rparr>)
               else (None, log_out (Lock_Queried (ac_lock (the_activation rt))) (rt\<lparr>en_stage := Checking_Lock\<rparr>))))"

definition lock_missing :: js_string where
  "lock_missing = js ''cache engine does not hold its physical owner Web Lock''"

definition proof_of_outcome :: "engine_open_outcome \<Rightarrow> database_action_proof" where
  "proof_of_outcome oc =
     (if starts_with (the_str (open_outcome_val oc)) (js ''reset-'') then Proof_Wiped_Before_Open
      else Proof_Opened_Existing)"

definition becomeReady :: "runtime_env \<Rightarrow> rt_op" where
  "becomeReady env =
     then_op
       (\<lambda>rt. let a = the_activation rt in
          post_envelope env
            (Engine_Ready (ac_tab a) (ac_epoch a) (ac_lock a) (proof_of_outcome (en_outcome rt)) (en_outcome rt))
            (recordLinearMemory env True (log_out Port_Added rt)))
       (plainly (\<lambda>rt. db_ready env Out_Success Code_None
         (log_out (Hooked Hook_Ready) (rt\<lparr>en_stage := Activation_Over\<rparr>))))"

definition lockChecked :: "runtime_env \<Rightarrow> thrown + bool \<Rightarrow> rt_op" where
  "lockChecked env res rt =
     (if en_stage rt \<noteq> Checking_Lock then (None, rt)
      else case res of
        Inl err \<Rightarrow> activationFailed env err rt
      | Inr False \<Rightarrow> activationFailed env (Thrown lock_missing False) rt
      | Inr True \<Rightarrow> caught (becomeReady env) (activationFailed env) rt)"

section \<open>The events\<close>

datatype runtime_event =
    Worker_Message jsval "nat list"
  | Init_Posts jsval
  | Init_Settled "thrown option"
  | Open_Reported engine_open_outcome
  | Reset_Requested
  | Lock_Checked "thrown + bool"
  | Envelope jsval
  | Core_Posts jsval
  | Hook_Settled nat "thrown option"
  | Core_Handled nat "thrown option"
  | Admissions_Empty
  | Core_Drained "thrown option"
  | Runner_Failed js_string

text \<open>Nothing but the first message of the page can happen before the activation.\<close>

definition activated :: "rt_op \<Rightarrow> rt_op" where
  "activated f rt = (if en_activation rt = None then (None, rt) else f rt)"

definition runnerFailed :: "runtime_env \<Rightarrow> js_string \<Rightarrow> rt_op" where
  "runnerFailed env reason rt =
     (if en_runner_closed rt then (None, rt)
      else fatal env (js ''coordinator Effect runner failed: '' @ reason) Runtime_Failure
        (rt\<lparr>en_runner_failed := True\<rparr>))"

fun runtime_act :: "runtime_env \<Rightarrow> runtime_event \<Rightarrow> rt_op" where
  "runtime_act env (Worker_Message raw ports) = plainly (workerMessage env raw ports)"
| "runtime_act env (Init_Posts message) = activated (plainly (\<lambda>rt.
     if en_stage rt = Initializing \<and> isCacheResponse message then rt\<lparr>en_response := Some message\<rparr> else rt))"
| "runtime_act env (Init_Settled res) = activated (initSettled env res)"
| "runtime_act env (Open_Reported oc) = activated (plainly (\<lambda>rt. rt\<lparr>en_outcome := oc\<rparr>))"
| "runtime_act env Reset_Requested =
     activated (fatal env (js ''cache storage requested physical reset'') Storage_Reset_Required)"
| "runtime_act env (Lock_Checked res) = activated (lockChecked env res)"
| "runtime_act env (Envelope raw) =
     activated (\<lambda>rt. if en_runner_closed rt then (None, rt) else receiveEnvelope env raw rt)"
| "runtime_act env (Core_Posts message) = activated (corePosts env message)"
| "runtime_act env (Hook_Settled i res) = activated (hookSettled env i res)"
| "runtime_act env (Core_Handled i res) = activated (coreHandled env i res)"
| "runtime_act env Admissions_Empty = activated (plainly admissionsEmpty)"
| "runtime_act env (Core_Drained res) = activated (coreDrained env res)"
| "runtime_act env (Runner_Failed reason) = activated (runnerFailed env reason)"

definition runtime_step :: "runtime_env \<times> runtime_event \<Rightarrow> rt_op" where
  "runtime_step ev = runtime_act (fst ev) (snd ev)"

end
