(* ===== verification/Engine_Runtime_Laws.thy ===== *)
theory Engine_Runtime_Laws
  imports Engine_Runtime
begin

text \<open>
  The invariant of the dedicated worker: one core, one fatal report, one readiness report after a
  successful initialization, drain after the last admission, every envelope in the epoch of the
  activation, and only valid requests for the core.
\<close>

section \<open>Reading the log\<close>

fun sent_of :: "runtime_output \<Rightarrow> engine_to_coordinator list" where
  "sent_of (Sent m) = [m]"
| "sent_of _ = []"

definition sent :: "engine_runtime \<Rightarrow> engine_to_coordinator list" where
  "sent rt = concat (List.map sent_of (en_out rt))"

fun is_fatal :: "engine_to_coordinator \<Rightarrow> bool" where
  "is_fatal (Engine_Fatal t e r c) = True"
| "is_fatal _ = False"

fun is_ready :: "engine_to_coordinator \<Rightarrow> bool" where
  "is_ready (Engine_Ready t e l p oc) = True"
| "is_ready _ = False"

fun is_drained :: "engine_to_coordinator \<Rightarrow> bool" where
  "is_drained (Engine_Drained t e) = True"
| "is_drained _ = False"

definition tally :: "(engine_to_coordinator \<Rightarrow> bool) \<Rightarrow> engine_runtime \<Rightarrow> nat" where
  "tally P rt = length (filter P (sent rt))"

fun creates :: "runtime_output \<Rightarrow> bool" where
  "creates (Core_Created b) = True"
| "creates _ = False"

fun for_core :: "runtime_output \<Rightarrow> jsval option" where
  "for_core (Before_Request_Called i r) = Some r"
| "for_core (Core_Requested i r) = Some r"
| "for_core _ = None"

text \<open>Nothing is handed to the core, or to the hook before it, after its drain was called.\<close>

fun drain_last :: "runtime_output list \<Rightarrow> bool" where
  "drain_last [] = True"
| "drain_last (x # xs) = ((x \<noteq> Core_Drain_Called \<or> list_all (\<lambda>y. for_core y = None) xs) \<and> drain_last xs)"

lemma drain_last_append:
  "drain_last (xs @ ys) =
     (drain_last xs \<and> drain_last ys \<and>
      (Core_Drain_Called \<notin> set xs \<or> list_all (\<lambda>y. for_core y = None) ys))"
  by (induction xs) auto

section \<open>Invariant\<close>

definition work_ok :: "engine_runtime \<Rightarrow> bool" where
  "work_ok rt \<longleftrightarrow>
     list_all (\<lambda>x. isCacheRequest (fst (snd x))) (en_admissions rt) \<and>
     list_all (\<lambda>out. case for_core out of None \<Rightarrow> True | Some r \<Rightarrow> isCacheRequest r) (en_out rt) \<and>
     en_draining rt = (en_drain rt \<noteq> No_Drain) \<and>
     (en_drain rt \<in> {Draining_Core, Drain_Over} \<longrightarrow> en_admissions rt = []) \<and>
     (Core_Drain_Called \<in> set (en_out rt) \<longrightarrow> en_drain rt \<in> {Draining_Core, Drain_Over}) \<and>
     drain_last (en_out rt) \<and> tally is_drained rt \<le> of_bool (en_drain rt = Drain_Over)"

definition reports_ok :: "engine_runtime \<Rightarrow> bool" where
  "reports_ok rt \<longleftrightarrow>
     list_all (\<lambda>m. ec_epoch m = ac_epoch (the_activation rt)) (sent rt) \<and>
     tally is_fatal rt \<le> of_bool (en_failed rt) \<and>
     tally is_ready rt \<le> of_bool (en_stage rt = Activation_Over) \<and>
     pred_option isCacheResponse (en_response rt) \<and>
     (en_stage rt = Checking_Lock \<longrightarrow> (\<exists>r. en_response rt = Some r \<and> getp r ''ok'' = JBool True))"

definition activation_ok :: "engine_runtime \<Rightarrow> bool" where
  "activation_ok rt \<longleftrightarrow>
     (if en_activation rt = None then
        en_stage rt = Dormant \<and> \<not> en_failed rt \<and> en_admissions rt = [] \<and> en_drain rt = No_Drain \<and>
        sent rt = [] \<and> filter creates (en_out rt) = []
      else en_stage rt \<noteq> Dormant \<and> length (filter creates (en_out rt)) = 1)"

definition wf_activation :: "activation \<Rightarrow> bool" where
  "wf_activation a \<longleftrightarrow> ac_tab a \<noteq> [] \<and> wf_id (ac_epoch a) \<and> ac_lock a \<noteq> []"

definition runtime_inv :: "engine_runtime \<Rightarrow> bool" where
  "runtime_inv rt \<longleftrightarrow> pred_option wf_activation (en_activation rt) \<and> activation_ok rt \<and> reports_ok rt \<and> work_ok rt"

lemmas runtime_inv_defs = runtime_inv_def activation_ok_def reports_ok_def work_ok_def

section \<open>Frame\<close>

lemma log_fields_rt [simp]:
  "en_activation (log_out out rt) = en_activation rt" "en_started (log_out out rt) = en_started rt"
  "en_failed (log_out out rt) = en_failed rt" "en_outcome (log_out out rt) = en_outcome rt"
  "en_draining (log_out out rt) = en_draining rt" "en_runner_failed (log_out out rt) = en_runner_failed rt"
  "en_runner_closed (log_out out rt) = en_runner_closed rt"
  "en_lifecycle_closed (log_out out rt) = en_lifecycle_closed rt" "en_stage (log_out out rt) = en_stage rt"
  "en_response (log_out out rt) = en_response rt" "en_admissions (log_out out rt) = en_admissions rt"
  "en_next (log_out out rt) = en_next rt" "en_drain (log_out out rt) = en_drain rt"
  "en_memory_at (log_out out rt) = en_memory_at rt" "en_high_water (log_out out rt) = en_high_water rt"
  "en_out (log_out out rt) = en_out rt @ [out]" "the_activation (log_out out rt) = the_activation rt"
  "sent (log_out out rt) = sent rt @ sent_of out"
  by (simp_all add: log_out_def the_activation_def sent_def)

lemma tally_log [simp]: "tally P (log_out out rt) = tally P rt + length (filter P (sent_of out))"
  by (simp add: tally_def)

lemma sent_frame [simp]:
  "sent (rt\<lparr>en_failed := a1\<rparr>) = sent rt" "sent (rt\<lparr>en_outcome := a2\<rparr>) = sent rt"
  "sent (rt\<lparr>en_draining := a3\<rparr>) = sent rt" "sent (rt\<lparr>en_runner_failed := a4\<rparr>) = sent rt"
  "sent (rt\<lparr>en_runner_closed := a5\<rparr>) = sent rt" "sent (rt\<lparr>en_lifecycle_closed := a6\<rparr>) = sent rt"
  "sent (rt\<lparr>en_stage := a7\<rparr>) = sent rt" "sent (rt\<lparr>en_response := a8\<rparr>) = sent rt"
  "sent (rt\<lparr>en_admissions := a9\<rparr>) = sent rt" "sent (rt\<lparr>en_next := b1\<rparr>) = sent rt"
  "sent (rt\<lparr>en_drain := b2\<rparr>) = sent rt" "sent (rt\<lparr>en_memory_at := b3\<rparr>) = sent rt"
  "sent (rt\<lparr>en_high_water := b4\<rparr>) = sent rt" "sent (rt\<lparr>en_activation := b5\<rparr>) = sent rt"
  "sent (rt\<lparr>en_started := b6\<rparr>) = sent rt"
  by (simp_all add: sent_def)

lemma tally_frame [simp]:
  "tally P (rt\<lparr>en_failed := a1\<rparr>) = tally P rt" "tally P (rt\<lparr>en_outcome := a2\<rparr>) = tally P rt"
  "tally P (rt\<lparr>en_draining := a3\<rparr>) = tally P rt" "tally P (rt\<lparr>en_runner_failed := a4\<rparr>) = tally P rt"
  "tally P (rt\<lparr>en_runner_closed := a5\<rparr>) = tally P rt" "tally P (rt\<lparr>en_lifecycle_closed := a6\<rparr>) = tally P rt"
  "tally P (rt\<lparr>en_stage := a7\<rparr>) = tally P rt" "tally P (rt\<lparr>en_response := a8\<rparr>) = tally P rt"
  "tally P (rt\<lparr>en_admissions := a9\<rparr>) = tally P rt" "tally P (rt\<lparr>en_next := b1\<rparr>) = tally P rt"
  "tally P (rt\<lparr>en_drain := b2\<rparr>) = tally P rt" "tally P (rt\<lparr>en_memory_at := b3\<rparr>) = tally P rt"
  "tally P (rt\<lparr>en_high_water := b4\<rparr>) = tally P rt" "tally P (rt\<lparr>en_activation := b5\<rparr>) = tally P rt"
  "tally P (rt\<lparr>en_started := b6\<rparr>) = tally P rt"
  by (simp_all add: tally_def)

lemma activation_frame [simp]:
  "the_activation (rt\<lparr>en_failed := a1\<rparr>) = the_activation rt" "the_activation (rt\<lparr>en_outcome := a2\<rparr>) = the_activation rt"
  "the_activation (rt\<lparr>en_draining := a3\<rparr>) = the_activation rt" "the_activation (rt\<lparr>en_runner_failed := a4\<rparr>) = the_activation rt"
  "the_activation (rt\<lparr>en_runner_closed := a5\<rparr>) = the_activation rt"
  "the_activation (rt\<lparr>en_lifecycle_closed := a6\<rparr>) = the_activation rt"
  "the_activation (rt\<lparr>en_stage := a7\<rparr>) = the_activation rt" "the_activation (rt\<lparr>en_response := a8\<rparr>) = the_activation rt"
  "the_activation (rt\<lparr>en_admissions := a9\<rparr>) = the_activation rt" "the_activation (rt\<lparr>en_next := b1\<rparr>) = the_activation rt"
  "the_activation (rt\<lparr>en_drain := b2\<rparr>) = the_activation rt" "the_activation (rt\<lparr>en_memory_at := b3\<rparr>) = the_activation rt"
  "the_activation (rt\<lparr>en_high_water := b4\<rparr>) = the_activation rt"
  by (simp_all add: the_activation_def)

text \<open>An output that the invariant does not count.\<close>

definition unnoticed :: "runtime_output \<Rightarrow> bool" where
  "unnoticed out \<longleftrightarrow> sent_of out = [] \<and> \<not> creates out \<and> for_core out = None \<and> out \<noteq> Core_Drain_Called"

lemma unnoticed_simps [simp]:
  "unnoticed (Hooked h)" "unnoticed (Init_Requested v)" "unnoticed Port_Added" "unnoticed (Lock_Queried l)"
  "unnoticed Core_Diagnostics_Called" "unnoticed (Memory_Recorded b hw)" "unnoticed (Runtime_Telemetry ob)"
  "unnoticed Telemetry_Flushed" "unnoticed (Port_Refused p)" "unnoticed Worker_Scope_Closed" "unnoticed (Uncaught err)"
  by (simp_all add: unnoticed_def)

lemma inv_log: "runtime_inv rt \<Longrightarrow> unnoticed out \<Longrightarrow> runtime_inv (log_out out rt)"
  by (auto simp: runtime_inv_defs unnoticed_def drain_last_append)

definition plain_message :: "engine_to_coordinator \<Rightarrow> bool" where
  "plain_message m \<longleftrightarrow> \<not> is_fatal m \<and> \<not> is_ready m \<and> \<not> is_drained m"

lemma inv_sent:
  assumes "runtime_inv rt" "plain_message m" "ec_epoch m = ac_epoch (the_activation rt)" "en_activation rt \<noteq> None"
  shows "runtime_inv (log_out (Sent m) rt)"
  using assms by (auto simp: runtime_inv_defs plain_message_def drain_last_append)

lemma post_cases: "snd (post_envelope env m rt) = rt \<or> post_envelope env m rt = (None, log_out (Sent m) rt)"
  by (auto simp: post_envelope_def split: option.split)

lemma inv_post:
  assumes "runtime_inv rt" "plain_message m" "ec_epoch m = ac_epoch (the_activation rt)" "en_activation rt \<noteq> None"
  shows "runtime_inv (snd (post_envelope env m rt))"
  using post_cases [of env m rt] inv_sent [OF assms] assms(1) by auto

lemma inv_fatal:
  assumes inv: "runtime_inv rt" and act: "en_activation rt \<noteq> None"
  shows "runtime_inv (snd (fatal env reason code rt))"
proof (cases "en_failed rt")
  case True
  then show ?thesis using inv by (simp add: fatal_def)
next
  case False
  let ?u = "log_out (Hooked (Hook_Fatal reason code)) (rt\<lparr>en_failed := True\<rparr>)"
  let ?m = "Engine_Fatal (ac_tab (the_activation rt)) (ac_epoch (the_activation rt)) reason code"
  have "tally is_fatal rt = 0" using inv False by (simp add: runtime_inv_defs)
  then have "runtime_inv ?u" "runtime_inv (log_out (Sent ?m) ?u)"
    using inv act by (auto simp: runtime_inv_defs drain_last_append)
  then show ?thesis
    using post_cases [of env ?m ?u] False by (auto simp: fatal_def Let_def)
qed

lemma fatal_fields [simp]:
  "en_activation (snd (fatal env reason code rt)) = en_activation rt"
  "en_stage (snd (fatal env reason code rt)) = en_stage rt"
  "en_drain (snd (fatal env reason code rt)) = en_drain rt"
  by (simp_all add: fatal_def post_envelope_def Let_def split: option.split)

section \<open>The events keep it\<close>

lemma unnoticed_fold: "(\<And>x. unnoticed (f x)) \<Longrightarrow> runtime_inv rt \<Longrightarrow> runtime_inv (fold (\<lambda>x. log_out (f x)) xs rt)"
  by (induction xs arbitrary: rt) (simp_all add: inv_log)

lemma inv_fields:
  assumes "runtime_inv rt"
  shows "runtime_inv (rt\<lparr>en_outcome := a\<rparr>)" "runtime_inv (rt\<lparr>en_runner_failed := b\<rparr>)"
    "runtime_inv (rt\<lparr>en_runner_closed := c\<rparr>)" "runtime_inv (rt\<lparr>en_lifecycle_closed := d\<rparr>)"
    "runtime_inv (rt\<lparr>en_memory_at := e\<rparr>)" "runtime_inv (rt\<lparr>en_high_water := f\<rparr>)"
    "runtime_inv (closeLifecycle rt)" "runtime_inv (finish_admission i rt)"
  using assms by (auto simp: runtime_inv_defs closeLifecycle_def finish_admission_def list_all_iff)

lemma inv_memory: "runtime_inv rt \<Longrightarrow> runtime_inv (recordLinearMemory env force rt)"
  by (simp add: recordLinearMemory_def Let_def inv_log inv_fields split: option.split)

lemma memory_fields [simp]:
  "en_activation (recordLinearMemory env force rt) = en_activation rt"
  "the_activation (recordLinearMemory env force rt) = the_activation rt"
  "en_stage (recordLinearMemory env force rt) = en_stage rt"
  "en_outcome (recordLinearMemory env force rt) = en_outcome rt"
  "en_drain (recordLinearMemory env force rt) = en_drain rt"
  "sent (recordLinearMemory env force rt) = sent rt" "tally P (recordLinearMemory env force rt) = tally P rt"
  by (simp_all add: recordLinearMemory_def Let_def split: option.split)

lemma inv_db_ready: "runtime_inv rt \<Longrightarrow> runtime_inv (db_ready env outcome code rt)"
  by (simp add: db_ready_def inv_log)

lemma inv_core_posts:
  assumes "runtime_inv rt" "en_activation rt \<noteq> None" shows "runtime_inv (snd (corePosts env message rt))"
  unfolding corePosts_def Let_def
  using assms by (auto intro!: inv_fatal inv_post simp: plain_message_def)

lemma inv_admit:
  assumes "runtime_inv rt" "en_activation rt \<noteq> None" "\<not> en_draining rt" "isCacheRequest req"
  shows "runtime_inv (admitRequest req rt)"
  using assms by (auto simp: admitRequest_def Let_def runtime_inv_defs drain_last_append)

lemma engine_request_valid:
  "validateCoordinatorToEngineEnvelope raw = Inr (Engine_Request e n req) \<Longrightarrow> isCacheRequest req"
  using engine_codec.validate_wf [of raw "Engine_Request e n req"] by simp

lemma inv_receive:
  assumes inv: "runtime_inv rt" and act: "en_activation rt \<noteq> None"
  shows "runtime_inv (snd (receiveEnvelope env raw rt))"
proof (cases "validateCoordinatorToEngineEnvelope raw")
  case (Inl err)
  then show ?thesis using inv_fatal [OF assms] by (simp add: receiveEnvelope_def)
next
  case (Inr message)
  have d: "runtime_inv (if en_draining rt then rt else rt\<lparr>en_draining := True, en_drain := Awaiting_Admissions\<rparr>)"
    using inv act by (auto simp: runtime_inv_defs)
  have h: "runtime_inv (snd (post_envelope env (Heartbeat_Ack e h)
      (log_out Core_Diagnostics_Called (recordLinearMemory env False rt))))"
    if "e = ac_epoch (the_activation rt)" for e h
    using inv act that by (intro inv_post inv_log inv_memory) (simp_all add: plain_message_def)
  show ?thesis
    using Inr inv_fatal [OF assms] inv d h inv_admit [OF assms] engine_request_valid
    by (auto simp: receiveEnvelope_def split: coordinator_to_engine.split)
qed

lemma inv_admission_failed:
  assumes "runtime_inv rt" "en_activation rt \<noteq> None"
  shows "runtime_inv (snd (admissionFailed env err i rt))"
  using assms inv_fatal [of "finish_admission i rt"] inv_fields(8) [OF assms(1)]
  by (simp add: admissionFailed_def Let_def finish_admission_def)

lemma admission_in: "map_of xs i = Some y \<Longrightarrow> (i, y) \<in> set xs"
  by (rule map_of_SomeD)

lemma admission_update:
  "list_all (\<lambda>x. isCacheRequest (fst (snd x))) xs \<Longrightarrow> isCacheRequest (fst y) \<Longrightarrow>
    list_all (\<lambda>x. isCacheRequest (fst (snd x))) (AList.update i y xs)"
  by (induction xs) auto

lemma inv_hook:
  assumes inv: "runtime_inv rt" and act: "en_activation rt \<noteq> None"
  shows "runtime_inv (snd (hookSettled env i res rt))"
proof -
  have go: "runtime_inv (log_out (Core_Requested i req) (rt\<lparr>en_admissions := AList.update i (req, In_Core) (en_admissions rt)\<rparr>))"
    if "map_of (en_admissions rt) i = Some (req, In_Hook)" for req
  proof -
    have m: "(i, req, In_Hook) \<in> set (en_admissions rt)" using that by (rule map_of_SomeD)
    then have ne: "en_admissions rt \<noteq> []" by auto
    have ok: "isCacheRequest req" using m inv by (auto simp: runtime_inv_defs list_all_iff)
    then show ?thesis
      using inv ne act admission_update [of "en_admissions rt" "(req, In_Core)" i]
      by (auto simp: runtime_inv_defs drain_last_append)
  qed
  show ?thesis
    using go inv inv_admission_failed [OF assms] inv_fields(8) [OF inv]
    by (auto simp: hookSettled_def split: option.split admission_stage.split)
qed

lemma inv_handled:
  assumes inv: "runtime_inv rt" and act: "en_activation rt \<noteq> None"
  shows "runtime_inv (snd (coreHandled env i res rt))"
proof -
  have settled: "runtime_inv (snd (case res of
      Some err \<Rightarrow> admissionFailed env err i rt | None \<Rightarrow> (None, finish_admission i rt)))"
    by (cases res) (simp_all add: inv_admission_failed [OF assms] inv_fields(8) [OF inv])
  show ?thesis
  proof (cases "map_of (en_admissions rt) i")
    case (Some y)
    obtain req st where y: "y = (req, st)" by fastforce
    show ?thesis unfolding coreHandled_def Some y using settled inv by (cases st) simp_all
  qed (simp add: coreHandled_def inv)
qed

lemma inv_admissions_empty:
  assumes "runtime_inv rt" shows "runtime_inv (admissionsEmpty rt)"
proof (cases "en_drain rt = Awaiting_Admissions \<and> en_admissions rt = [] \<and> \<not> en_lifecycle_closed rt")
  case True
  moreover have "en_activation rt \<noteq> None" "en_draining rt" "tally is_drained rt = 0"
    using assms True by (cases "en_activation rt"; simp add: runtime_inv_defs)+
  ultimately show ?thesis
    using assms by (simp add: admissionsEmpty_def runtime_inv_defs drain_last_append)
next
  case False
  then show ?thesis using assms by (auto simp: admissionsEmpty_def)
qed

lemma drained_once:
  assumes inv: "runtime_inv rt" and act: "en_activation rt \<noteq> None" and dr: "en_drain rt = Draining_Core"
  defines "u \<equiv> rt\<lparr>en_drain := Drain_Over\<rparr>"
  shows "runtime_inv u" "tally is_drained u = 0" "en_activation u \<noteq> None"
  using inv act dr by (auto simp: runtime_inv_defs u_def)

lemma inv_finishDrain:
  assumes inv: "runtime_inv rt" and act: "en_activation rt \<noteq> None"
    and dr: "en_drain rt = Drain_Over" "tally is_drained rt = 0"
  shows "runtime_inv (snd (finishDrain env rt))" "en_activation (snd (finishDrain env rt)) = en_activation rt"
proof -
  let ?u = "log_out Telemetry_Flushed (log_out (Hooked Hook_Drained) (recordLinearMemory env True rt))"
  let ?m = "Engine_Drained (ac_tab (the_activation rt)) (ac_epoch (the_activation rt))"
  have u: "runtime_inv ?u" using inv by (simp add: inv_log inv_memory)
  moreover have "runtime_inv (log_out (Sent ?m) ?u)"
    using u act dr by (auto simp: runtime_inv_defs drain_last_append)
  ultimately have "runtime_inv (snd (post_envelope env ?m ?u))"
    using post_cases [of env ?m ?u] by auto
  then show "runtime_inv (snd (finishDrain env rt))"
    by (simp add: finishDrain_def then_op_def plainly_def Let_def case_prod_beta inv_log inv_fields split: option.split)
  show "en_activation (snd (finishDrain env rt)) = en_activation rt"
    using post_cases [of env ?m ?u]
    by (auto simp: finishDrain_def then_op_def plainly_def Let_def case_prod_beta split: option.split)
qed

lemma inv_drained:
  assumes inv: "runtime_inv rt" and act: "en_activation rt \<noteq> None"
  shows "runtime_inv (snd (coreDrained env res rt))"
proof (cases "en_drain rt \<noteq> Draining_Core \<or> en_lifecycle_closed rt")
  case True
  then show ?thesis using inv by (simp add: coreDrained_def)
next
  case False
  let ?u = "rt\<lparr>en_drain := Drain_Over\<rparr>"
  note u = drained_once [OF inv act] False
  have f: "runtime_inv (snd (drainFailed env err v))" if "runtime_inv v" "en_activation v \<noteq> None" for err v
    using inv_fatal [OF that] by (simp add: drainFailed_def)
  have fin: "runtime_inv (snd (finishDrain env ?u))" "en_activation (snd (finishDrain env ?u)) \<noteq> None"
    using inv_finishDrain [of ?u] u by simp_all
  have "runtime_inv (snd (caught (finishDrain env) (drainFailed env) ?u))"
    using fin f by (simp add: caught_def case_prod_beta split: option.split)
  then show ?thesis
    using False f u by (simp add: coreDrained_def Let_def case_prod_beta inv_fields split: option.split)
qed

section \<open>Activation\<close>

lemma inv_worker_message:
  assumes inv: "runtime_inv rt" shows "runtime_inv (workerMessage env raw ports rt)"
proof -
  have r: "runtime_inv (fold (\<lambda>port. log_out (Port_Refused port)) ports rt)"
    using inv by (intro unnoticed_fold) simp_all
  have "runtime_inv (activate env m rt)"
    if none: "en_activation rt = None" and v: "validatePageToEngineEnvelope raw = Inr m" for m
  proof -
    have wf: "wf_activation (activation_of m)"
      using activation_codec.validate_wf [OF v] by (cases m) (simp add: wf_activation_def)
    have fresh: "en_stage rt = Dormant" "\<not> en_failed rt" "en_admissions rt = []" "en_drain rt = No_Drain"
      "sent rt = []" "filter creates (en_out rt) = []" "\<not> en_draining rt" "Core_Drain_Called \<notin> set (en_out rt)"
      using inv none by (auto simp: runtime_inv_defs)
    let ?a = "activation_of m"
    let ?u = "rt\<lparr>en_activation := Some ?a, en_started := ne_now env,
        en_outcome := (if ac_action ?a = Wipe_Before_Open then Reset_Storage_Uncertain else Opened_Existing),
        en_stage := Initializing\<rparr>"
    have "sent ?u = []" "tally P ?u = 0" for P using fresh by (simp_all add: tally_def)
    then show ?thesis
      using inv fresh none wf
      by (simp add: activate_def Let_def runtime_inv_defs drain_last_append)
  qed
  then show ?thesis using r by (simp add: workerMessage_def split: sum.split)
qed

lemma inv_over: "runtime_inv rt \<Longrightarrow> en_activation rt \<noteq> None \<Longrightarrow> runtime_inv (rt\<lparr>en_stage := Activation_Over\<rparr>)"
  by (cases "en_stage rt = Activation_Over") (auto simp: runtime_inv_defs)

lemma inv_activation_failed:
  assumes inv: "runtime_inv rt" and act: "en_activation rt \<noteq> None"
  shows "runtime_inv (snd (activationFailed env err rt))"
proof -
  let ?c = "classifyCacheError (Some (th_message err))"
  let ?u = "log_out Telemetry_Flushed (db_ready env Out_Error ?c (rt\<lparr>en_stage := Activation_Over\<rparr>))"
  have u: "runtime_inv ?u" using inv_over [OF assms] by (simp add: inv_log inv_db_ready)
  have "runtime_inv (snd (post_envelope env m ?u))" if "plain_message m" "ec_epoch m = ac_epoch (the_activation rt)" for m
    using inv_post [OF u that(1)] that(2) act by (simp add: db_ready_def)
  then show ?thesis
    by (simp add: activationFailed_def Let_def caught_def then_op_def plainly_def case_prod_beta inv_log inv_fields
        plain_message_def split: option.split)
qed

lemma inv_init_settled:
  assumes inv: "runtime_inv rt" and act: "en_activation rt \<noteq> None"
  shows "runtime_inv (snd (initSettled env res rt))"
proof -
  have q: "runtime_inv (log_out (Lock_Queried l) (rt\<lparr>en_stage := Checking_Lock\<rparr>))"
    if "en_stage rt = Initializing" "en_response rt = Some r" "getp r ''ok'' = JBool True" for r l
    using inv act that by (auto simp: runtime_inv_defs drain_last_append)
  show ?thesis
    unfolding initSettled_def
    using q by (simp add: inv inv_activation_failed [OF assms(1,2)] inv_over [OF assms(1,2)] split: option.split)
qed

lemma inv_becomeReady:
  assumes inv: "runtime_inv rt" and act: "en_activation rt \<noteq> None" and st: "en_stage rt = Checking_Lock"
  shows "fst (becomeReady env rt) = None \<Longrightarrow> runtime_inv (snd (becomeReady env rt))"
    "fst (becomeReady env rt) \<noteq> None \<Longrightarrow> runtime_inv (snd (becomeReady env rt)) \<and>
       en_activation (snd (becomeReady env rt)) \<noteq> None"
proof -
  let ?u = "recordLinearMemory env True (log_out Port_Added rt)"
  let ?a = "the_activation rt"
  let ?m = "Engine_Ready (ac_tab ?a) (ac_epoch ?a) (ac_lock ?a) (proof_of_outcome (en_outcome rt)) (en_outcome rt)"
  have u: "runtime_inv ?u" using inv by (simp add: inv_log inv_memory)
  have t: "tally is_ready ?u = 0" using inv st by (auto simp: runtime_inv_defs)
  have o: "runtime_inv (?u\<lparr>en_stage := Activation_Over\<rparr>)" using inv_over [OF u] act by simp
  then have s: "runtime_inv ((log_out (Sent ?m) ?u)\<lparr>en_stage := Activation_Over\<rparr>)"
    using t act by (auto simp: runtime_inv_defs drain_last_append)
  have eq: "becomeReady env rt = (case post_envelope env ?m ?u of
      (Some err, v) \<Rightarrow> (Some err, v)
    | (None, v) \<Rightarrow> (None, db_ready env Out_Success Code_None (log_out (Hooked Hook_Ready) (v\<lparr>en_stage := Activation_Over\<rparr>))))"
    by (simp add: becomeReady_def then_op_def plainly_def Let_def split: prod.split option.split)
  show "fst (becomeReady env rt) = None \<Longrightarrow> runtime_inv (snd (becomeReady env rt))"
    using post_cases [of env ?m ?u] o s unfolding eq
    by (auto simp: case_prod_beta inv_log inv_db_ready split: option.split)
  show "fst (becomeReady env rt) \<noteq> None \<Longrightarrow> runtime_inv (snd (becomeReady env rt)) \<and>
      en_activation (snd (becomeReady env rt)) \<noteq> None"
    using post_cases [of env ?m ?u] u act unfolding eq
    by (auto simp: case_prod_beta split: option.splits)
qed

lemma inv_lock_checked:
  assumes inv: "runtime_inv rt" and act: "en_activation rt \<noteq> None"
  shows "runtime_inv (snd (lockChecked env res rt))"
proof (cases "en_stage rt = Checking_Lock")
  case True
  have "runtime_inv (snd (caught (becomeReady env) (activationFailed env) rt))"
    using inv_becomeReady [OF assms True, of env] inv_activation_failed
    by (cases "fst (becomeReady env rt)") (auto simp: caught_def case_prod_beta)
  then show ?thesis
    using True inv_activation_failed [OF assms] by (simp add: lockChecked_def split: sum.split bool.split)
qed (simp add: lockChecked_def inv)

section \<open>The machine\<close>

lemma runtime_step_inv:
  assumes inv: "runtime_inv rt" shows "runtime_inv (snd (runtime_step ev rt))"
proof -
  obtain env e where ev: "ev = (env, e)" by fastforce
  have a: "runtime_inv (snd (activated f rt))" if "en_activation rt \<noteq> None \<Longrightarrow> runtime_inv (snd (f rt))" for f
    using inv that by (simp add: activated_def)
  have resp: "runtime_inv (rt\<lparr>en_response := Some m\<rparr>)"
    if "en_stage rt = Initializing" "isCacheResponse m" "en_activation rt \<noteq> None" for m
    using inv that by (auto simp: runtime_inv_defs)
  have rf: "runtime_inv (snd (runnerFailed env reason rt))" if "en_activation rt \<noteq> None" for reason
    using inv that by (simp add: runnerFailed_def inv_fatal inv_fields)
  have "runtime_inv (snd (runtime_act env e rt))"
  proof (cases e)
    case (Worker_Message raw ports)
    then show ?thesis using inv_worker_message [OF inv] by (simp add: plainly_def)
  next
    case (Init_Posts m)
    show ?thesis unfolding Init_Posts runtime_act.simps by (rule a) (use inv resp in \<open>simp add: plainly_def\<close>)
  next
    case (Envelope raw)
    show ?thesis unfolding Envelope runtime_act.simps by (rule a) (use inv inv_receive [OF inv] in simp)
  next
    case (Open_Reported oc)
    show ?thesis unfolding Open_Reported runtime_act.simps by (rule a) (simp add: plainly_def inv_fields [OF inv])
  next
    case Admissions_Empty
    show ?thesis unfolding Admissions_Empty runtime_act.simps
      by (rule a) (simp add: plainly_def inv_admissions_empty [OF inv])
  next
    case (Init_Settled res)
    show ?thesis unfolding Init_Settled runtime_act.simps by (rule a) (rule inv_init_settled [OF inv])
  next
    case Reset_Requested
    show ?thesis unfolding Reset_Requested runtime_act.simps by (rule a) (rule inv_fatal [OF inv])
  next
    case (Lock_Checked res)
    show ?thesis unfolding Lock_Checked runtime_act.simps by (rule a) (rule inv_lock_checked [OF inv])
  next
    case (Core_Posts m)
    show ?thesis unfolding Core_Posts runtime_act.simps by (rule a) (rule inv_core_posts [OF inv])
  next
    case (Hook_Settled i res)
    show ?thesis unfolding Hook_Settled runtime_act.simps by (rule a) (rule inv_hook [OF inv])
  next
    case (Core_Handled i res)
    show ?thesis unfolding Core_Handled runtime_act.simps by (rule a) (rule inv_handled [OF inv])
  next
    case (Core_Drained res)
    show ?thesis unfolding Core_Drained runtime_act.simps by (rule a) (rule inv_drained [OF inv])
  next
    case (Runner_Failed reason)
    show ?thesis unfolding Runner_Failed runtime_act.simps by (rule a) (rule rf)
  qed
  then show ?thesis by (simp add: ev runtime_step_def)
qed

lemma runtime_inv_initial: "runtime_inv initial_runtime"
  by (simp add: initial_runtime_def runtime_inv_defs sent_def tally_def)

interpretation runtimes: machine initial_runtime runtime_step "\<lambda>_. True" runtime_inv
  using runtime_inv_initial runtime_step_inv by unfold_locales

end
