(* ===== verification/Engine_Runtime_Sends.thy ===== *)
theory Engine_Runtime_Sends
  imports Engine_Runtime_Laws
begin

text \<open>
  Everything the dedicated worker sends, by the event that makes it send: readiness after the lock
  check, a response for what the core posted, an acknowledgement for a heartbeat.
\<close>

section \<open>What an event may send\<close>

fun may_send :: "runtime_event \<Rightarrow> engine_runtime \<Rightarrow> engine_to_coordinator \<Rightarrow> bool" where
  "may_send ev rt (Engine_Ready t e l p oc) \<longleftrightarrow> ev = Lock_Checked (Inr True) \<and> en_stage rt = Checking_Lock \<and>
     t = ac_tab (the_activation rt) \<and> e = ac_epoch (the_activation rt) \<and> l = ac_lock (the_activation rt) \<and>
     oc = en_outcome rt \<and> p = proof_of_outcome oc"
| "may_send ev rt (Engine_Response e n r) \<longleftrightarrow> ev = Core_Posts r \<and> e = ac_epoch (the_activation rt) \<and>
     n = the_nat (getp r ''id'') \<and> isCacheResponse r \<and> (getp r ''ok'' = JBool True \<or> getp r ''errorCode'' = JUndef)"
| "may_send ev rt (Engine_Push e p) \<longleftrightarrow> ev = Core_Posts p \<and> e = ac_epoch (the_activation rt) \<and> isCachePush p"
| "may_send ev rt (Engine_Drained t e) \<longleftrightarrow> ev = Core_Drained None \<and> en_drain rt = Draining_Core \<and>
     t = ac_tab (the_activation rt) \<and> e = ac_epoch (the_activation rt)"
| "may_send ev rt (Engine_Fatal t e r c) \<longleftrightarrow>
     t = ac_tab (the_activation rt) \<and> e = ac_epoch (the_activation rt) \<and> r \<noteq> []"
| "may_send ev rt (Activation_Failed t e r c) \<longleftrightarrow>
     en_stage rt \<in> {Initializing, Checking_Lock} \<and>
     t = ac_tab (the_activation rt) \<and> e = ac_epoch (the_activation rt)"
| "may_send ev rt (Heartbeat_Ack e h) \<longleftrightarrow> e = ac_epoch (the_activation rt) \<and>
     (\<exists>raw. ev = Envelope raw \<and> validateCoordinatorToEngineEnvelope raw = Inr (Heartbeat e h))"

definition sends :: "runtime_event \<Rightarrow> engine_runtime \<Rightarrow> engine_runtime \<Rightarrow> bool" where
  "sends ev rt rt' \<longleftrightarrow> (\<forall>m \<in> set (sent rt'). m \<in> set (sent rt) \<or> may_send ev rt m)"

lemma sends_same: "sent u = sent rt \<Longrightarrow> sends ev rt u"
  by (simp add: sends_def)

lemma sent_post: "set (sent (snd (post_envelope env m rt))) \<subseteq> insert m (set (sent rt))"
  using post_cases [of env m rt] by auto

lemma sends_post: "sent u = sent rt \<Longrightarrow> may_send ev rt m \<Longrightarrow> sends ev rt (snd (post_envelope env m u))"
  using sent_post [of env m u] by (auto simp: sends_def)

lemma sent_fatal:
  "set (sent (snd (fatal env reason code rt))) \<subseteq>
     insert (Engine_Fatal (ac_tab (the_activation rt)) (ac_epoch (the_activation rt)) reason code) (set (sent rt))"
proof -
  let ?u = "log_out (Hooked (Hook_Fatal reason code)) (rt\<lparr>en_failed := True\<rparr>)"
  let ?m = "Engine_Fatal (ac_tab (the_activation rt)) (ac_epoch (the_activation rt)) reason code"
  have "set (sent (snd (post_envelope env ?m ?u))) \<subseteq> insert ?m (set (sent rt))"
    using sent_post [of env ?m ?u] by simp
  then show ?thesis by (auto simp: fatal_def Let_def)
qed

lemma sends_fatal:
  "sends ev rt u \<Longrightarrow> the_activation u = the_activation rt \<Longrightarrow> reason \<noteq> [] \<Longrightarrow> sends ev rt (snd (fatal env reason code u))"
  using sent_fatal [of env reason code u] by (auto simp: sends_def)

lemma reasons [simp]: "js (c # cs) \<noteq> []" "js (c # cs) @ s \<noteq> []"
  by (simp_all add: js_empty)

lemma sends_activation_failed:
  assumes "sends ev rt u" "the_activation u = the_activation rt" "en_stage rt \<in> {Initializing, Checking_Lock}"
  shows "sends ev rt (snd (activationFailed env err u))"
proof -
  let ?c = "classifyCacheError (Some (th_message err))"
  let ?v = "log_out Telemetry_Flushed (db_ready env Out_Error ?c (u\<lparr>en_stage := Activation_Over\<rparr>))"
  have "sends ev rt (snd (post_envelope env (Activation_Failed (ac_tab (the_activation u)) (ac_epoch (the_activation u)) r c) ?v))"
    for r c
    using assms sent_post [of env "Activation_Failed (ac_tab (the_activation u)) (ac_epoch (the_activation u)) r c" ?v]
    by (auto simp: sends_def db_ready_def)
  then show ?thesis
    by (simp add: activationFailed_def Let_def caught_def then_op_def plainly_def case_prod_beta sends_def
        closeLifecycle_def db_ready_def split: option.split)
qed

lemma sends_lock_checked: "sends (Lock_Checked res) rt (snd (lockChecked env res rt))"
proof (cases "en_stage rt = Checking_Lock")
  case st: True
  have refl: "sends (Lock_Checked res) rt rt" by (rule sends_same) simp
  have ready: "sends (Lock_Checked (Inr True)) rt (snd (becomeReady env rt)) \<and>
      the_activation (snd (becomeReady env rt)) = the_activation rt"
  proof -
    let ?u = "recordLinearMemory env True (log_out Port_Added rt)"
    let ?a = "the_activation rt"
    let ?m = "Engine_Ready (ac_tab ?a) (ac_epoch ?a) (ac_lock ?a) (proof_of_outcome (en_outcome rt)) (en_outcome rt)"
    have "sends (Lock_Checked (Inr True)) rt (snd (post_envelope env ?m ?u))"
      using st by (intro sends_post) simp_all
    moreover have "the_activation (snd (post_envelope env ?m ?u)) = ?a"
      using post_cases [of env ?m ?u] by auto
    ultimately show ?thesis
      by (simp add: becomeReady_def then_op_def plainly_def Let_def case_prod_beta sends_def db_ready_def
          split: option.split)
  qed
  have failed: "sends (Lock_Checked res) rt (snd (activationFailed env err u))"
    if "sends (Lock_Checked res) rt u" "the_activation u = the_activation rt" for err u
    using sends_activation_failed [OF that] st by simp
  have "sends (Lock_Checked res) rt (snd (caught (becomeReady env) (activationFailed env) rt))" if "res = Inr True"
    using ready failed [of "snd (becomeReady env rt)"] that by (simp add: caught_def case_prod_beta split: option.split)
  then show ?thesis
    using st failed [OF refl] by (auto simp: lockChecked_def split: sum.split bool.split)
qed (simp add: lockChecked_def sends_def)

lemma sends_init_settled: "sends ev rt (snd (initSettled env res rt))"
proof (cases "en_stage rt = Initializing")
  case True
  then have f: "sends ev rt (snd (activationFailed env err rt))" for err
    by (intro sends_activation_failed) (simp_all add: sends_def)
  show ?thesis
    unfolding initSettled_def using f by (simp add: sends_def split: option.split)
qed (simp add: initSettled_def sends_def)

lemma sends_receive: "sends (Envelope raw) rt (snd (receiveEnvelope env raw rt))"
proof -
  have f: "sends (Envelope raw) rt (snd (fatal env reason code rt))" if "reason \<noteq> []" for reason code
    using that by (intro sends_fatal) (simp_all add: sends_def)
  show ?thesis
  proof (cases "validateCoordinatorToEngineEnvelope raw")
    case (Inl err)
    then show ?thesis using f by (simp add: receiveEnvelope_def)
  next
    case (Inr message)
    have "sends (Envelope raw) rt (snd (post_envelope env (Heartbeat_Ack e h)
        (log_out Core_Diagnostics_Called (recordLinearMemory env False rt))))"
      if "message = Heartbeat e h" "e = ac_epoch (the_activation rt)" for e h
      using that Inr by (intro sends_post) simp_all
    then show ?thesis
      using Inr f
      by (cases message) (auto simp: receiveEnvelope_def admitRequest_def Let_def sends_same)
  qed
qed

lemma sends_core_posts: "sends (Core_Posts m) rt (snd (corePosts env m rt))"
proof -
  have f: "sends (Core_Posts m) rt (snd (fatal env reason code rt))" if "reason \<noteq> []" for reason code
    using that by (intro sends_fatal) (simp_all add: sends_def)
  have ok: "getp m ''ok'' = JBool True \<or> getp m ''ok'' = JBool False" if "isCacheResponse m"
    using that by (auto simp: isCacheResponse_def split: if_splits)
  show ?thesis
    unfolding corePosts_def Let_def using f ok
    by (auto simp: core_code_error_def core_message_error_def intro!: sends_post)
qed

lemma sends_admission:
  "sends ev rt (snd (hookSettled env i res rt))" "sends ev rt (snd (coreHandled env i res rt))"
proof -
  have n: "sends ev rt (finish_admission i rt)" by (simp add: finish_admission_def sends_def)
  have "sends ev rt (snd (fatal env (js ''engine request admission failed: '' @ s) Runtime_Failure (finish_admission i rt)))"
    for s using n by (rule sends_fatal) (simp_all add: finish_admission_def)
  then have f: "sends ev rt (snd (admissionFailed env err i rt))" for err
    using n by (simp add: admissionFailed_def Let_def)
  show "sends ev rt (snd (hookSettled env i res rt))" "sends ev rt (snd (coreHandled env i res rt))"
    unfolding hookSettled_def coreHandled_def using f
    by (auto simp: finish_admission_def sends_def split: option.split admission_stage.split)
qed

lemma sends_core_drained: "sends (Core_Drained res) rt (snd (coreDrained env res rt))"
proof (cases "en_drain rt \<noteq> Draining_Core \<or> en_lifecycle_closed rt")
  case False
  let ?u = "rt\<lparr>en_drain := Drain_Over\<rparr>"
  have f: "sends ev rt (snd (drainFailed env err v))" if "sends ev rt v" "the_activation v = the_activation rt" for ev err v
    unfolding drainFailed_def using that by (rule sends_fatal) simp
  let ?v = "log_out Telemetry_Flushed (log_out (Hooked Hook_Drained) (recordLinearMemory env True ?u))"
  let ?m = "Engine_Drained (ac_tab (the_activation rt)) (ac_epoch (the_activation rt))"
  have "sends (Core_Drained None) rt (snd (post_envelope env ?m ?v))"
    using False by (intro sends_post) simp_all
  moreover have "the_activation (snd (post_envelope env ?m ?v)) = the_activation rt"
    using post_cases [of env ?m ?v] by auto
  ultimately have fin: "sends (Core_Drained None) rt (snd (finishDrain env ?u))" "the_activation (snd (finishDrain env ?u)) = the_activation rt"
    by (simp_all add: finishDrain_def then_op_def plainly_def Let_def case_prod_beta sends_def split: option.split)
  then have "sends (Core_Drained None) rt (snd (caught (finishDrain env) (drainFailed env) ?u))"
    using f by (simp add: caught_def case_prod_beta split: option.split)
  moreover have "sends (Core_Drained res) rt (snd (drainFailed env err ?u))" for err
    using f [of _ ?u] by (simp add: sends_def)
  ultimately have "sends (Core_Drained res) rt (snd ((case res of
      Some err \<Rightarrow> drainFailed env err | None \<Rightarrow> caught (finishDrain env) (drainFailed env)) ?u))"
    by (cases res) simp_all
  then show ?thesis
    using False by (simp add: coreDrained_def Let_def case_prod_beta closeLifecycle_def sends_def)
qed (auto simp: coreDrained_def sends_def)

lemma step_sends:
  assumes "m \<in> set (sent (snd (runtime_step (env, ev) rt)))" "m \<notin> set (sent rt)"
  shows "en_activation rt \<noteq> None \<and> may_send ev rt m"
proof -
  have fold: "sent (fold (\<lambda>port. log_out (Port_Refused port)) ports rt) = sent rt" for ports
    by (induction ports arbitrary: rt) simp_all
  have a: "sends ev rt (snd (activated f rt))" if "sends ev rt (snd (f rt))" for f
    using that by (simp add: activated_def sends_def)
  have "sends ev rt (snd (runtime_act env ev rt))"
  proof (cases ev)
    case (Worker_Message raw ports)
    then show ?thesis using fold
      by (simp add: plainly_def workerMessage_def activate_def Let_def sends_def split: sum.split)
  next
    case (Init_Posts m)
    then show ?thesis by (simp add: activated_def plainly_def sends_def)
  next
    case (Open_Reported oc)
    then show ?thesis by (simp add: activated_def plainly_def sends_def)
  next
    case Admissions_Empty
    then show ?thesis by (simp add: activated_def plainly_def admissionsEmpty_def sends_def)
  next
    case (Init_Settled res)
    show ?thesis unfolding Init_Settled runtime_act.simps
      by (rule a [unfolded Init_Settled]) (rule sends_init_settled)
  next
    case (Lock_Checked res)
    show ?thesis unfolding Lock_Checked runtime_act.simps
      by (rule a [unfolded Lock_Checked]) (rule sends_lock_checked)
  next
    case (Core_Posts msg)
    show ?thesis unfolding Core_Posts runtime_act.simps
      by (rule a [unfolded Core_Posts]) (rule sends_core_posts)
  next
    case (Hook_Settled i res)
    show ?thesis unfolding Hook_Settled runtime_act.simps
      by (rule a [unfolded Hook_Settled]) (rule sends_admission)
  next
    case (Core_Handled i res)
    show ?thesis unfolding Core_Handled runtime_act.simps
      by (rule a [unfolded Core_Handled]) (rule sends_admission)
  next
    case (Core_Drained res)
    show ?thesis unfolding Core_Drained runtime_act.simps
      by (rule a [unfolded Core_Drained]) (rule sends_core_drained)
  next
    case (Envelope raw)
    show ?thesis unfolding Envelope runtime_act.simps
      by (rule a [unfolded Envelope]) (use sends_receive in \<open>simp add: sends_same\<close>)
  next
    case Reset_Requested
    show ?thesis unfolding Reset_Requested runtime_act.simps
      by (rule a [unfolded Reset_Requested], rule sends_fatal) (simp_all add: sends_def)
  next
    case (Runner_Failed reason)
    have "sends (Runner_Failed reason) rt (snd (fatal env (js ''coordinator Effect runner failed: '' @ reason)
        Runtime_Failure (rt\<lparr>en_runner_failed := True\<rparr>)))"
      by (rule sends_fatal) (simp_all add: sends_def)
    then have "sends (Runner_Failed reason) rt (snd (runnerFailed env reason rt))"
      by (simp add: runnerFailed_def sends_same)
    then show ?thesis unfolding Runner_Failed runtime_act.simps
      by (rule a [unfolded Runner_Failed])
  qed
  then have "may_send ev rt m" using assms unfolding runtime_step_def sends_def fst_conv snd_conv by blast
  moreover have "en_activation rt \<noteq> None"
  proof
    assume "en_activation rt = None"
    then have "sent (snd (runtime_act env ev rt)) = sent rt"
      using fold by (cases ev) (simp_all add: activated_def plainly_def workerMessage_def activate_def Let_def split: sum.split)
    then show False using assms by (simp add: runtime_step_def)
  qed
  ultimately show ?thesis by blast
qed

end
