(* ===== verification/Runtime_Theorems.thy ===== *)
theory Runtime_Theorems
  imports Engine_Runtime_Sends
begin

text \<open>
  The properties of the dedicated worker: when it reports readiness, what it hands to the core, how it
  reports and what the coordinator's validator makes of everything it sends.
\<close>

section \<open>A concrete run\<close>

definition quiet_runtime :: runtime_env where
  "quiet_runtime = \<lparr> ne_now = 0, ne_memory = None, ne_interval = 60000, ne_send = (\<lambda>m. None) \<rparr>"

definition sample_activation :: page_to_engine where
  "sample_activation = Activate_Engine (js ''s'') (js ''t'') 1 Open_Existing (js ''l'') None"

definition sample_raw :: jsval where
  "sample_raw = encode_page_to_engine sample_activation"

definition init_answer :: jsval where
  "init_answer = JObj [(js ''id'', JInt 0), (js ''ok'', JBool True), (js ''result'', JNull)]"

definition sample_start :: "(runtime_env \<times> runtime_event) list" where
  "sample_start = [(quiet_runtime, Worker_Message sample_raw [7]),
     (quiet_runtime, Init_Posts init_answer), (quiet_runtime, Init_Settled None)]"

lemma sample_decodes: "validatePageToEngineEnvelope sample_raw = Inr sample_activation"
  unfolding sample_raw_def
  by (rule activation_codec.decode_encode) (simp add: sample_activation_def wf_id_def wf_hot_def js_empty max_safe_integer_def)

lemma init_answer_valid: "isCacheResponse init_answer"
  by (simp add: isCacheResponse_def init_answer_def max_safe_integer_def)

lemma sample_fields:
  "ac_tab (activation_of sample_activation) = js ''t''" "ac_epoch (activation_of sample_activation) = 1"
  "ac_lock (activation_of sample_activation) = js ''l''" "ac_action (activation_of sample_activation) = Open_Existing"
  by (simp_all add: sample_activation_def)

text \<open>The worker waits for the lock query.\<close>

lemma sample_waits:
  defines "rt \<equiv> snd (run runtime_step sample_start initial_runtime)"
  shows "en_activation rt = Some (activation_of sample_activation)" "en_stage rt = Checking_Lock"
    "en_failed rt = False" "en_runner_closed rt = False" "en_outcome rt = Opened_Existing" "sent rt = []"
    "en_response rt = Some init_answer" "en_runner_failed rt = False"
proof -
  have ok: "getp init_answer ''ok'' = JBool True" by (simp add: init_answer_def)
  show "en_activation rt = Some (activation_of sample_activation)" "en_stage rt = Checking_Lock"
    "en_failed rt = False" "en_runner_closed rt = False" "en_outcome rt = Opened_Existing" "sent rt = []"
    "en_response rt = Some init_answer" "en_runner_failed rt = False"
    unfolding rt_def sample_start_def
    by (simp_all add: Let_def case_prod_beta runtime_step_def plainly_def workerMessage_def sample_decodes activated_def
        activate_def initial_runtime_def init_answer_valid initSettled_def ok sample_fields)
      (simp_all add: sent_def log_out_def)
qed

section \<open>Properties\<close>

text \<open>
  C24: Readiness is justified. If an event of any run makes the worker report that its engine is ready,
  then that event is the confirmation that the tab's Web Lock is held exclusively, the core has answered the
  initialization with success before, the report names the tab, epoch and lock of the activation, and its
  proof is the one the coordinator's own check computes from the reported open outcome.
\<close>

theorem ready_justified:
  assumes "rt = snd (run runtime_step es initial_runtime)"
    and "Engine_Ready t e l p oc \<in> set (sent (snd (runtime_step (env, ev) rt)))"
    and "Engine_Ready t e l p oc \<notin> set (sent rt)"
  shows "ev = Lock_Checked (Inr True) \<and> en_stage rt = Checking_Lock \<and>
    (\<exists>r. en_response rt = Some r \<and> getp r ''ok'' = JBool True) \<and>
    (\<exists>a. en_activation rt = Some a \<and> t = ac_tab a \<and> e = ac_epoch a \<and> l = ac_lock a) \<and> p = proofFor oc"
proof -
  have inv: "runtime_inv rt"
    unfolding assms(1) by (rule runtimes.inv_run) (simp add: list.pred_True)
  have send: "en_activation rt \<noteq> None" "may_send ev rt (Engine_Ready t e l p oc)"
    using step_sends [OF assms(2,3)] by simp_all
  have "proof_of_outcome oc = proofFor oc"
    by (cases oc) (simp_all add: proof_of_outcome_def js_def unit_of_def)
  then show ?thesis using inv send by (auto simp: runtime_inv_def reports_ok_def the_activation_def)
qed

theorem ready_justified_witness:
  "en_stage (snd (run runtime_step sample_start initial_runtime)) = Checking_Lock \<and>
   proof_of_outcome Opened_Existing = proofFor Opened_Existing"
proof -
  let ?rt = "snd (run runtime_step sample_start initial_runtime)"
  let ?m = "Engine_Ready (js ''t'') 1 (js ''l'') (proof_of_outcome Opened_Existing) Opened_Existing"
  have "?m \<in> set (sent (snd (runtime_step (quiet_runtime, Lock_Checked (Inr True)) ?rt)))"
    using sample_waits sample_fields
    by (simp add: runtime_step_def activated_def lockChecked_def caught_def becomeReady_def then_op_def plainly_def
        Let_def post_envelope_def quiet_runtime_def recordLinearMemory_def db_ready_def the_activation_def)
  moreover have "?m \<notin> set (sent ?rt)" using sample_waits by simp
  ultimately show ?thesis using ready_justified [OF refl] by blast
qed

text \<open>
  Over any run the worker creates one core at most, reports at most one fatal error, one readiness and
  one completed drain, and every envelope it sends carries the epoch of its activation.
\<close>

theorem runtime_reports_once:
  "let rt = snd (run runtime_step es initial_runtime)
   in tally is_fatal rt \<le> 1 \<and> tally is_ready rt \<le> 1 \<and> tally is_drained rt \<le> 1 \<and>
      length (filter creates (en_out rt)) \<le> 1 \<and>
      list_all (\<lambda>m. ec_epoch m = ac_epoch (the_activation rt)) (sent rt)"
proof -
  let ?rt = "snd (run runtime_step es initial_runtime)"
  have inv: "runtime_inv ?rt" by (rule runtimes.inv_run) (simp add: list.pred_True)
  have le: "n \<le> of_bool b \<Longrightarrow> n \<le> Suc 0" for n b by (cases b) simp_all
  show ?thesis
    using inv le unfolding runtime_inv_def activation_ok_def reports_ok_def work_ok_def Let_def
    by (auto split: if_splits)
qed

text \<open>
  C25: What reaches the core, over any run: only validated cache requests, and nothing after its drain
  was called; once the drain has been reported no admission is open.
\<close>

theorem core_gets_valid_work:
  "let rt = snd (run runtime_step es initial_runtime)
   in list_all (\<lambda>out. pred_option isCacheRequest (for_core out)) (en_out rt) \<and> drain_last (en_out rt) \<and>
      (tally is_drained rt = 0 \<or> en_admissions rt = [])"
proof -
  let ?rt = "snd (run runtime_step es initial_runtime)"
  have "runtime_inv ?rt" by (rule runtimes.inv_run) (simp add: list.pred_True)
  moreover have "(case x of None \<Rightarrow> True | Some r \<Rightarrow> isCacheRequest r) = pred_option isCacheRequest x" for x
    by (cases x) simp_all
  ultimately show ?thesis
    unfolding runtime_inv_def work_ok_def Let_def by auto
qed






text \<open>
  A failed worker can still report readiness: the flag is read before the lock query and not
  after it. With the lock query pending, a malformed envelope makes the worker report a fatal error; when the
  query then confirms the lock, the worker reports its engine ready.
\<close>

theorem ready_after_fatal:
  "let rt = snd (run runtime_step (sample_start @
       [(quiet_runtime, Envelope JNull), (quiet_runtime, Lock_Checked (Inr True))]) initial_runtime)
   in List.map is_fatal (sent rt) = [True, False] \<and> List.map is_ready (sent rt) = [False, True]"
proof -
  have bad: "validateCoordinatorToEngineEnvelope JNull = Inl header_error"
    by (simp add: validateCoordinatorToEngineEnvelope_def header_ok_def)
  have "run runtime_step (sample_start @ [(quiet_runtime, Envelope JNull), (quiet_runtime, Lock_Checked (Inr True))])
      initial_runtime =
    run runtime_step ((sample_start @ [(quiet_runtime, Envelope JNull)]) @ [(quiet_runtime, Lock_Checked (Inr True))])
      initial_runtime" by simp
  then show ?thesis
    using sample_waits sample_fields bad
    by (simp add: snd_run_snoc del: append_assoc)
      (simp add: runtime_step_def activated_def receiveEnvelope_def fatal_def lockChecked_def caught_def becomeReady_def
        then_op_def plainly_def Let_def post_envelope_def quiet_runtime_def recordLinearMemory_def db_ready_def
        the_activation_def)
qed

end
