(* ===== verification/Host_Calls.thy ===== *)
theory Host_Calls
  imports Coord_Router
begin

text \<open>
  The calls of a cache host and the requests they become
  (\<open>apps/web/src/lib/graphql-cache/host/worker-host.ts\<close>, the object returned by
  \<open>createWorkerCacheHost\<close>), and the operation ids by which pushes name the operations of one client.

  The arguments of a call are wire values; an operation key is an integer.
\<close>

section \<open>Operation ids\<close>

definition int_text :: "int \<Rightarrow> js_string" where
  "int_text k = (if k < 0 then js ''-'' @ js_nat (nat (- k)) else js_nat (nat k))"

definition opId :: "js_string \<Rightarrow> int \<Rightarrow> js_string" where
  "opId client k = client @ js '':'' @ int_text k"

text \<open>\<open>Number(suffix)\<close>, kept when it is a safe integer whose text is \<open>suffix\<close>.\<close>

definition key_of_text :: "js_string \<Rightarrow> int option" where
  "key_of_text s =
     (let k = (if starts_with s (js ''-'') then - int (decimal_value (drop 1 s)) else int (decimal_value s))
      in if int_text k = s \<and> \<bar>k\<bar> \<le> max_safe_integer then Some k else None)"

definition own_op_key :: "js_string \<Rightarrow> js_string \<Rightarrow> int option" where
  "own_op_key client s =
     (let prefix = client @ js '':'' in
      if starts_with s prefix then key_of_text (drop (length prefix) s) else None)"

text \<open>\<open>[...new Set(xs)]\<close>\<close>

definition set_add :: "'a \<Rightarrow> 'a list \<Rightarrow> 'a list" where
  "set_add x xs = (if x \<in> set xs then xs else xs @ [x])"

definition set_of :: "'a list \<Rightarrow> 'a list" where
  "set_of xs = fold set_add xs []"

definition own_op_keys :: "js_string \<Rightarrow> js_string list \<Rightarrow> int list" where
  "own_op_keys client ids =
     set_of (concat (List.map (\<lambda>s. case own_op_key client s of None \<Rightarrow> [] | Some k \<Rightarrow> [k]) ids))"

section \<open>Calls\<close>

datatype api_call =
    Current_Revision
  | Read_Query jsval
  | Read_Records jsval
  | Search_Cache jsval
  | Entity_Filter jsval
  | Write_Query jsval
  | Hydrate_Query jsval
  | Enqueue_Mutation jsval jsval
  | Inspect_Variants jsval
  | Inspect_Query jsval
  | Claim_Next jsval jsval jsval
  | Defer_Write jsval jsval jsval jsval
  | Commit_Write jsval jsval jsval
  | Rollback_Write jsval jsval jsval
  | Invalidate_Keys jsval
  | Delete_Records jsval
  | Teardown_Op int
  | Clear_Cache

definition op_key :: "jsval \<Rightarrow> int option" where
  "op_key args = the_opt the_int (getp args ''opKey'')"

definition op_id_val :: "js_string \<Rightarrow> int option \<Rightarrow> jsval" where
  "op_id_val client k = opt_val (\<lambda>k. JStr (opId client k)) k"

definition truthy_flag :: "jsval \<Rightarrow> bool" where
  "truthy_flag v \<longleftrightarrow> v = JBool True"

definition registers :: "jsval \<Rightarrow> bool" where
  "registers args \<longleftrightarrow> truthy_flag (getp args ''registerDependencies'') \<and> op_key args \<noteq> None"

definition fields_from :: "jsval \<Rightarrow> string list \<Rightarrow> js_fields" where
  "fields_from args ks = List.map (\<lambda>k. (js k, getp args k)) ks"

definition kinded :: "string \<Rightarrow> js_fields \<Rightarrow> js_fields" where
  "kinded k fs = (js ''kind'', JStr (js k)) # fs"

definition lease_of :: "jsval \<Rightarrow> jsval \<Rightarrow> js_fields" where
  "lease_of transactionId claim =
     [(js ''transactionId'', transactionId), (js ''leaseOwner'', getp claim ''owner''),
      (js ''leaseGeneration'', getp claim ''generation'')]"

text \<open>The request of a call, without its identifier.\<close>

fun api_message :: "js_string \<Rightarrow> api_call \<Rightarrow> js_fields" where
  "api_message client Current_Revision = kinded ''current-revision'' []"
| "api_message client (Read_Query args) =
     kinded ''read'' ((js ''opId'', op_id_val client (op_key args)) #
       fields_from args [''query'', ''operationName'', ''variables'', ''priority'', ''entityResolvers''])"
| "api_message client (Read_Records args) =
     kinded ''read-records-by-keys'' (fields_from args [''document'', ''fragmentName'', ''keys''])"
| "api_message client (Search_Cache args) = kinded ''search'' [(js ''request'', args)]"
| "api_message client (Entity_Filter args) = kinded ''entity-filter'' [(js ''request'', args)]"
| "api_message client (Write_Query args) =
     kinded ''write'' ((js ''originOpId'', op_id_val client (op_key args)) #
       (js ''registration'',
         if registers args then
           JObj [(js ''opId'', op_id_val client (op_key args)),
             (js ''entityResolvers'', getp args ''entityResolvers'')]
         else JUndef) #
       fields_from args [''query'', ''operationName'', ''variables'', ''data'', ''identity''])"
| "api_message client (Hydrate_Query args) =
     kinded ''hydrate'' (fields_from args [''query'', ''operationName'', ''variables'', ''data'', ''identity''])"
| "api_message client (Enqueue_Mutation args claim) =
     kinded ''enqueue-optimistic-mutation'' ((js ''originOpId'', op_id_val client (op_key args)) #
       fields_from args [''query'', ''operationName'', ''variables'', ''data'', ''linkPatches'', ''revalidations''] @
       [(js ''createdAtMs'', getp claim ''nowMs''), (js ''owner'', getp claim ''owner''),
        (js ''nowMs'', getp claim ''nowMs''), (js ''leaseExpiresAtMs'', getp claim ''leaseExpiresAtMs'')])"
| "api_message client (Inspect_Variants args) =
     kinded ''inspect-query-variants'' (fields_from args [''query'', ''operationName'', ''path''])"
| "api_message client (Inspect_Query args) =
     kinded ''inspect-query'' (fields_from args [''query'', ''operationName'', ''path'', ''variableFilters''])"
| "api_message client (Claim_Next owner nowMs lease) =
     kinded ''claim-next-mutation''
       [(js ''owner'', owner), (js ''nowMs'', nowMs), (js ''leaseExpiresAtMs'', lease)]"
| "api_message client (Defer_Write tx claim nextAt err) =
     kinded ''defer-optimistic-write''
       (lease_of tx claim @ [(js ''nextAttemptAtMs'', nextAt), (js ''error'', err)])"
| "api_message client (Commit_Write tx claim args) =
     kinded ''commit-optimistic-write''
       (lease_of tx claim @ fields_from args [''query'', ''operationName'', ''variables'', ''data''])"
| "api_message client (Rollback_Write tx claim err) =
     kinded ''rollback-optimistic-write'' (lease_of tx claim @ [(js ''error'', err)])"
| "api_message client (Invalidate_Keys ks) = kinded ''invalidate'' [(js ''keys'', ks)]"
| "api_message client (Delete_Records ks) = kinded ''delete-records'' [(js ''keys'', ks)]"
| "api_message client (Teardown_Op k) = kinded ''teardown'' [(js ''opId'', JStr (opId client k))]"
| "api_message client Clear_Cache = kinded ''clear'' []"

text \<open>\<open>{ ...msg, id }\<close>\<close>

definition wire :: "js_fields \<Rightarrow> nat \<Rightarrow> jsval" where
  "wire msg n = JObj (msg @ [(js ''id'', JInt (int n))])"

text \<open>The operation key a pending request may register.\<close>

fun api_op_key :: "api_call \<Rightarrow> int option" where
  "api_op_key (Read_Query args) = op_key args"
| "api_op_key (Write_Query args) = (if registers args then op_key args else None)"
| "api_op_key _ = None"

text \<open>\<open>validateRecordSelectionKeys\<close> and \<open>validateCacheSearchArgs\<close> before the wait; their errors reject the call.\<close>

definition js_error_message :: "js_error \<Rightarrow> js_string" where
  "js_error_message e = (case e of Js_Error s \<Rightarrow> s | Range_Error s \<Rightarrow> s | Type_Error s \<Rightarrow> s)"

fun prepare_call :: "int \<Rightarrow> api_call \<Rightarrow> js_string + api_call" where
  "prepare_call now (Read_Records args) =
     (case validateRecordSelectionKeys (the_arr (getp args ''keys'')) of
        Inl err \<Rightarrow> Inl (js_error_message err)
      | Inr ks \<Rightarrow> Inr (Read_Records args))"
| "prepare_call now (Search_Cache args) =
     (case validateCacheSearchArgs now args of
        Inl err \<Rightarrow> Inl (js_error_message err)
      | Inr validated \<Rightarrow> Inr (Search_Cache validated))"
| "prepare_call now call = Inr call"

end
