(* ===== verification/Host_Choice.thy ===== *)
theory Host_Choice
  imports Host_Calls
begin

text \<open>
  Which cache host a browser gets: the capabilities probed by \<open>unsupportedBrowserReason\<close>
  (\<open>host/worker-host.ts\<close>) and the storage-free host of browsers without them (\<open>host/noop-host.ts\<close>).
\<close>

section \<open>Capabilities\<close>

text \<open>Whether the global or property of that name has the required type.\<close>

record browser =
  br_shared_worker :: bool
  br_worker :: bool
  br_message_channel :: bool
  br_navigator :: bool
  br_locks :: bool
  br_locks_request :: bool
  br_storage :: bool
  br_get_directory :: bool

definition unsupportedBrowserReason :: "browser \<Rightarrow> js_string option" where
  "unsupportedBrowserReason b =
     (if \<not> br_shared_worker b then Some (js ''SharedWorker is not supported by this browser'')
      else if \<not> br_worker b then Some (js ''DedicatedWorker is not supported by this browser'')
      else if \<not> br_message_channel b then Some (js ''MessageChannel is not supported by this browser'')
      else if \<not> br_navigator b \<or> \<not> br_locks b \<or> \<not> br_locks_request b then
        Some (js ''Web Locks are not supported by this browser'')
      else if \<not> br_storage b \<or> \<not> br_get_directory b then
        Some (js ''OPFS is not supported by this browser'')
      else None)"

section \<open>The host without storage\<close>

definition emptyWriteResult :: jsval where
  "emptyWriteResult =
     JObj [(js ''revision'', JStr INITIAL_CACHE_REVISION), (js ''changed'', JArr []), (js ''affectedOps'', JArr []),
       (js ''reset'', JBool False)]"

definition unavailable :: js_string where
  "unavailable = js ''normalized GraphQL cache is unavailable''"

text \<open>What each call of \<open>createNoopCacheHost\<close> resolves to, or the message it throws.\<close>

fun noop_answer :: "api_call \<Rightarrow> js_string + jsval" where
  "noop_answer Current_Revision = Inr (JStr INITIAL_CACHE_REVISION)"
| "noop_answer (Read_Query args) = Inr (JObj [(js ''kind'', JStr (js ''miss''))])"
| "noop_answer (Read_Records args) =
     Inr (JObj [(js ''revision'', JStr INITIAL_CACHE_REVISION), (js ''records'', JArr [])])"
| "noop_answer (Search_Cache args) = Inr (JObj [(js ''documents'', JArr []), (js ''nextCursor'', JNull)])"
| "noop_answer (Entity_Filter args) = Inr (JObj [(js ''kind'', JStr (js ''unsupported''))])"
| "noop_answer (Write_Query args) = Inr emptyWriteResult"
| "noop_answer (Hydrate_Query args) = Inl unavailable"
| "noop_answer (Enqueue_Mutation args claim) = Inl unavailable"
| "noop_answer (Inspect_Variants args) = Inr (JArr [])"
| "noop_answer (Inspect_Query args) = Inr (JArr [])"
| "noop_answer (Claim_Next owner nowMs lease) = Inr JUndef"
| "noop_answer (Defer_Write tx claim nextAt err) = Inr JUndef"
| "noop_answer (Commit_Write tx claim args) = Inr emptyWriteResult"
| "noop_answer (Rollback_Write tx claim err) = Inr emptyWriteResult"
| "noop_answer (Invalidate_Keys ks) =
     Inr (JObj [(js ''revision'', JStr INITIAL_CACHE_REVISION), (js ''affectedOps'', JArr [])])"
| "noop_answer (Delete_Records ks) =
     Inr (JObj [(js ''revision'', JStr INITIAL_CACHE_REVISION), (js ''affectedOps'', JArr [])])"
| "noop_answer (Teardown_Op k) = Inr JUndef"
| "noop_answer Clear_Cache = Inr (JStr INITIAL_CACHE_REVISION)"

text \<open>
  An optimistic mutation is never accepted without storage: the only calls that fail are the two that
  must not pretend to have stored anything.
\<close>

lemma noop_refuses:
  "(\<exists>reason. noop_answer call = Inl reason) \<longleftrightarrow>
     (\<exists>args. call = Hydrate_Query args) \<or> (\<exists>args claim. call = Enqueue_Mutation args claim)"
  by (cases call) simp_all

lemma supported_iff:
  "unsupportedBrowserReason b = None \<longleftrightarrow>
     br_shared_worker b \<and> br_worker b \<and> br_message_channel b \<and> br_navigator b \<and> br_locks b \<and>
     br_locks_request b \<and> br_storage b \<and> br_get_directory b"
  by (auto simp: unsupportedBrowserReason_def)

end
