(* ===== verification/Worker_Host.thy ===== *)
theory Worker_Host
  imports Host_Calls
begin

text \<open>
  The browser's cache host (\<open>apps/web/src/lib/graphql-cache/host/worker-host.ts\<close>,
  \<open>createWorkerCacheHost\<close> once the browser has the capabilities): pending requests, initialization and
  its replacement after an owner loss, disposal, terminal failures.

  Promise reactions of the host are jobs, run in order by the event \<open>Run_Job\<close>; the other events that
  the browser delivers as tasks find the jobs empty. What the page adapter does inside a
  \<open>postMessage\<close> (answers, a terminal error, a throw) is the environment of the event. Subscribers and
  the consumer's failure callback return and do not call the host.
\<close>

section \<open>State\<close>

datatype host_error = Host_Error (he_message: js_string) (he_code: "cache_response_error_code option")

datatype host_state =
    St_Idle | St_Initializing | St_Awaiting | St_Ready | St_Disposing | St_Failed | St_Disposed

datatype disposal_mode = Graceful_Disposal | Navigation_Disposal | Abrupt_Disposal

text \<open>Whose promise a request settles: a call, or the handshake of an initialization.\<close>

datatype settler = For_Call nat | For_Init nat

record pending_request =
  pr_kind :: jsval
  pr_op :: "int option"
  pr_admitted :: bool
  pr_started :: int
  pr_timer :: bool
  pr_for :: settler

datatype after_disposal = Finish_Telemetry | Finish_Disposal

datatype job =
    Init_Reaction nat "host_error option"
  | Resume_Call nat api_call "host_error option"
  | Disposal_Reaction after_disposal

datatype host_output =
    Adapter_Created
  | Adapter_Posted settler jsval
  | Adapter_Disposed_Called bool bool
  | Call_Settled nat "host_error + jsval"
  | Affected_Notified "nat list" "int list"
  | Changed_Notified "nat list" js_string
  | Generation_Notified "nat list"
  | Settlement_Notified "nat list" jsval
  | Scope_Quarantined
  | Failure_Reported js_string
  | Legacy_Deletion
  | Relay_Started
  | Relay_Disposed
  | Host_Flushed
  | Health_Observed
  | Health_Timer bool
  | Host_Telemetry observation
  | Storage_Pressure "(int option \<times> int option \<times> bool option \<times> (int \<times> int) option) option" cache_error_code

record host =
  ho_state :: host_state
  ho_next :: nat
  ho_pending :: "(nat \<times> pending_request) list"
  ho_active :: "int list"
  ho_registered :: "int list"
  ho_lost :: "int list"
  ho_reread :: "int list"
  ho_affected :: "nat list"
  ho_changed :: "nat list"
  ho_generation :: "nat list"
  ho_settlement :: "nat list"
  ho_initialization :: "nat option"
  ho_inits :: nat
  ho_waiting :: "(nat \<times> nat \<times> api_call) list"
  ho_init_error :: "host_error option"
  ho_replacement_error :: "host_error option"
  ho_recovering :: bool
  ho_epoch :: nat
  ho_reported :: bool
  ho_terminal :: bool
  ho_adapter :: bool
  ho_disposal :: "bool option"
  ho_disposal_graceful :: bool
  ho_disposal_started :: bool
  ho_after :: "after_disposal list"
  ho_mode :: "disposal_mode option"
  ho_pagehide :: bool
  ho_listening :: bool
  ho_legacy :: bool
  ho_relay :: bool
  ho_finished :: bool
  ho_init_started :: int
  ho_health :: bool
  ho_quarantines :: "host_error list"
  ho_calls :: nat
  ho_jobs :: "job list"
  ho_out :: "host_output list"

text \<open>\<open>ho_disposal\<close>: no adapter disposal, one that waits, one that has settled.\<close>

definition initial_host :: host where
  "initial_host =
     \<lparr> ho_state = St_Idle, ho_next = 1, ho_pending = [], ho_active = [], ho_registered = [], ho_lost = [],
       ho_reread = [], ho_affected = [], ho_changed = [], ho_generation = [], ho_settlement = [],
       ho_initialization = None, ho_inits = 0, ho_waiting = [], ho_init_error = None,
       ho_replacement_error = None, ho_recovering = False, ho_epoch = 0, ho_reported = False,
       ho_terminal = False, ho_adapter = False, ho_disposal = None, ho_disposal_graceful = False,
       ho_disposal_started = False, ho_after = [], ho_mode = None, ho_pagehide = False, ho_listening = False, ho_legacy = False,
       ho_relay = False, ho_finished = False, ho_init_started = 0, ho_health = False, ho_quarantines = [],
       ho_calls = 0, ho_jobs = [], ho_out = [] \<rparr>"

record host_config =
  hc_client :: js_string
  hc_scope :: js_string
  hc_hot :: jsval

datatype adapter_turn = Adapter_Says jsval | Adapter_Breaks js_string

record host_env =
  hv_now :: int
  hv_wall :: int
  hv_create :: "js_string option"
  hv_post :: "jsval \<Rightarrow> adapter_turn list \<times> js_string option"
  hv_dispose_throws :: bool
  hv_events :: bool

type_synonym hop = "host \<Rightarrow> host"

definition hout :: "host_output \<Rightarrow> hop" where
  "hout out h = h\<lparr>ho_out := ho_out h @ [out]\<rparr>"

definition add_job :: "job \<Rightarrow> hop" where
  "add_job j h = h\<lparr>ho_jobs := ho_jobs h @ [j]\<rparr>"

definition closed_error :: host_error where
  "closed_error = Host_Error (js ''cache worker host was disposed'') None"

definition init_default_error :: host_error where
  "init_default_error = Host_Error (js ''cache worker initialization failed'') None"

definition replacement_default_error :: host_error where
  "replacement_default_error = Host_Error (js ''cache worker is awaiting replacement'') None"

definition isOwnerEpochLoss :: "host_error \<Rightarrow> bool" where
  "isOwnerEpochLoss err \<longleftrightarrow> he_code err = Some OWNER_EPOCH_LOST_ERROR_CODE"

section \<open>Telemetry and settling\<close>

definition host_observation ::
  "event_name \<Rightarrow> operation_category \<Rightarrow> telemetry_outcome \<Rightarrow> cache_error_code \<Rightarrow> int option \<Rightarrow> observation" where
  "host_observation name cat out code duration =
     \<lparr> ob_name = name, ob_category = cat, ob_outcome = Some out, ob_error = Some code, ob_reset = None,
       ob_owner = None, ob_open = None, ob_wipe_attempt = False, ob_duration = duration, ob_count = None \<rparr>"

definition recordRequestOutcome :: "host_env \<Rightarrow> pending_request \<Rightarrow> host_error option \<Rightarrow> hop" where
  "recordRequestOutcome env entry err =
     hout (Host_Telemetry (host_observation Host_Request
       (operationCategoryForRequest (JObj [(js ''kind'', pr_kind entry)]))
       (if err = None then Out_Success else Out_Error)
       (case err of None \<Rightarrow> Code_None | Some e \<Rightarrow> classifyCacheError (Some (he_message e)))
       (Some (hv_now env - pr_started entry))))"

definition logical_reset :: observation where
  "logical_reset = (host_observation Logical_Reset Cat_Lifecycle Out_Success Code_None None)
     \<lparr>ob_reset := Some Explicit_Clear\<rparr>"

text \<open>The reactions of the caller's promise, and of \<open>clear\<close> before it.\<close>

definition settle_promise :: "settler \<Rightarrow> jsval \<Rightarrow> host_error + jsval \<Rightarrow> hop" where
  "settle_promise who kind res h =
     (case who of
        For_Init n \<Rightarrow> add_job (Init_Reaction n (case res of Inl err \<Rightarrow> Some err | Inr v \<Rightarrow> None)) h
      | For_Call c \<Rightarrow>
          hout (Call_Settled c (if kind = JStr (js ''teardown'') \<or> kind = JStr (js ''defer-optimistic-write'')
              then map_sum id (\<lambda>v. JUndef) res else res))
            (case res of
               Inr v \<Rightarrow> if kind = JStr (js ''clear'') then hout (Host_Telemetry logical_reset) h else h
             | Inl err \<Rightarrow> h))"

section \<open>Subscribers, listeners, disposal of the adapter\<close>

definition clearSubscribers :: hop where
  "clearSubscribers h = h\<lparr>ho_affected := [], ho_changed := [], ho_generation := [], ho_settlement := []\<rparr>"

definition unregisterPagehide :: "host_env \<Rightarrow> hop" where
  "unregisterPagehide env h = (if \<not> ho_pagehide h \<or> \<not> hv_events env then h else h\<lparr>ho_pagehide := False, ho_listening := False\<rparr>)"

definition armPagehide :: "host_env \<Rightarrow> hop" where
  "armPagehide env h = (if ho_pagehide h \<or> \<not> hv_events env then h else h\<lparr>ho_pagehide := True, ho_listening := True\<rparr>)"

definition stopStorageHealthSampling :: hop where
  "stopStorageHealthSampling h =
     (if \<not> ho_health h then h else hout (Health_Timer False) (h\<lparr>ho_health := False\<rparr>))"

definition finishTelemetry :: hop where
  "finishTelemetry h =
     (if ho_finished h then h
      else hout Relay_Disposed (hout Host_Flushed ((stopStorageHealthSampling h)\<lparr>ho_finished := True\<rparr>)))"

definition disposeAdapter :: "host_env \<Rightarrow> bool \<Rightarrow> bool \<Rightarrow> hop" where
  "disposeAdapter env graceful preserve h =
     (if ho_disposal h \<noteq> None then
        if \<not> graceful \<and> ho_disposal_graceful h \<and> ho_adapter h then
          hout (Adapter_Disposed_Called False preserve) (h\<lparr>ho_disposal_graceful := False\<rparr>)
        else h
      else if \<not> ho_adapter h then h
      else hout (Adapter_Disposed_Called graceful preserve)
        (h\<lparr>ho_disposal_graceful := graceful, ho_disposal := Some (hv_dispose_throws env)\<rparr>))"

text \<open>\<open>disposeAdapter(\<dots>).then(\<dots>)\<close>; without an adapter the promise is resolved.\<close>

definition after_disposing :: "after_disposal \<Rightarrow> hop" where
  "after_disposing k h =
     (if ho_disposal h = Some False then h\<lparr>ho_after := ho_after h @ [k]\<rparr>
      else add_job (Disposal_Reaction k) h)"

definition startAdapterDisposal :: "host_env \<Rightarrow> bool \<Rightarrow> bool \<Rightarrow> hop" where
  "startAdapterDisposal env graceful preserve h =
     (if ho_disposal_started h then (if graceful then h else disposeAdapter env False preserve h)
      else after_disposing Finish_Disposal
        (disposeAdapter env graceful preserve (h\<lparr>ho_disposal_started := True\<rparr>)))"

definition finishGracefulDisposeIfDrained :: "host_env \<Rightarrow> hop" where
  "finishGracefulDisposeIfDrained env h =
     (if ho_state h \<noteq> St_Disposing \<or> ho_mode h \<noteq> Some Graceful_Disposal \<or> ho_pending h \<noteq> [] then h
      else startAdapterDisposal env True False h)"

section \<open>Failures\<close>

definition is_enqueue :: "pending_request \<Rightarrow> bool" where
  "is_enqueue entry \<longleftrightarrow> pr_kind entry = JStr (js ''enqueue-optimistic-mutation'')"

definition uncertain_error :: "host_error \<Rightarrow> host_error" where
  "uncertain_error err =
     Host_Error (he_message err @ js '': admitted optimistic enqueue outcome is uncertain'')
       (Some ADMITTED_ENQUEUE_UNCERTAIN_ERROR_CODE)"

definition reject_entry :: "host_env \<Rightarrow> host_error \<Rightarrow> bool \<Rightarrow> pending_request \<Rightarrow> hop" where
  "reject_entry env err uncertain entry h =
     settle_promise (pr_for entry) (pr_kind entry)
       (Inl (if uncertain \<and> pr_admitted entry \<and> is_enqueue entry then uncertain_error err else err))
       (recordRequestOutcome env entry (Some err) h)"

definition rejectPending :: "host_env \<Rightarrow> host_error \<Rightarrow> bool \<Rightarrow> hop" where
  "rejectPending env err uncertain h =
     fold (\<lambda>e. reject_entry env err uncertain (snd e)) (ho_pending h) (h\<lparr>ho_pending := []\<rparr>)"

definition reportFailure :: "host_error \<Rightarrow> hop" where
  "reportFailure err h =
     (if ho_reported h then h else hout (Failure_Reported (he_message err)) (h\<lparr>ho_reported := True\<rparr>))"

definition failInitialization :: "host_env \<Rightarrow> host_error \<Rightarrow> hop" where
  "failInitialization env err h =
     (if ho_state h \<in> {St_Failed, St_Disposed, St_Ready} then h
      else
        let h1 = hout (Host_Telemetry (host_observation Host_Ready Cat_Initialization Out_Error
              (classifyCacheError (Some (he_message err)))
              (Some (if ho_init_started h > 0 then hv_now env - ho_init_started h else 0)))) h;
            h2 = h1\<lparr>ho_state := St_Failed, ho_initialization := None, ho_init_error := Some err\<rparr>;
            h3 = unregisterPagehide env (clearSubscribers (rejectPending env err False h2))
        in reportFailure err (after_disposing Finish_Telemetry (disposeAdapter env False False h3)))"

definition hasAdmittedEnqueue :: "host \<Rightarrow> bool" where
  "hasAdmittedEnqueue h \<longleftrightarrow> list_ex (\<lambda>e. pr_admitted (snd e) \<and> is_enqueue (snd e)) (ho_pending h)"

definition failTransport :: "host_env \<Rightarrow> js_string \<Rightarrow> hop" where
  "failTransport env reason h =
     (if ho_terminal h then h
      else
        let h0 = stopStorageHealthSampling h;
            err = Host_Error reason None
        in
        if ho_state h0 = St_Disposed \<and> \<not> list_ex (\<lambda>e. pr_admitted (snd e)) (ho_pending h0) then h0
        else
          let h1 = h0\<lparr>ho_terminal := True, ho_state := St_Failed, ho_initialization := None,
                ho_init_error := Some err\<rparr>;
              h2 = unregisterPagehide env (clearSubscribers (rejectPending env err True h1));
              h3 = after_disposing Finish_Telemetry (disposeAdapter env False False h2)
          in hout Scope_Quarantined (h3\<lparr>ho_quarantines := ho_quarantines h3 @ [err]\<rparr>))"

section \<open>Recovery\<close>

definition beginRecoveryGeneration :: hop where
  "beginRecoveryGeneration h =
     (if ho_recovering h then h
      else h\<lparr>ho_recovering := True, ho_lost := ho_registered h, ho_registered := []\<rparr>)"

definition registering :: "pending_request \<Rightarrow> int list" where
  "registering entry =
     (if pr_kind entry = JStr (js ''read'') \<or> pr_kind entry = JStr (js ''write'') then
        (case pr_op entry of None \<Rightarrow> [] | Some k \<Rightarrow> [k])
      else [])"

text \<open>\<open>markPendingRegistrations(target)\<close>\<close>

definition markPendingRegistrations :: "host \<Rightarrow> int list \<Rightarrow> int list" where
  "markPendingRegistrations h target =
     fold set_add (concat (List.map (\<lambda>e. registering (snd e)) (ho_pending h))) target"

definition over :: "host_state \<Rightarrow> bool" where
  "over s \<longleftrightarrow> s = St_Failed \<or> s = St_Disposing \<or> s = St_Disposed"

definition observeOwnerEpochLoss :: "host_error \<Rightarrow> hop" where
  "observeOwnerEpochLoss err h =
     (if over (ho_state h) then h
      else
        let h1 = beginRecoveryGeneration h
        in h1\<lparr>ho_lost := markPendingRegistrations h1 (ho_lost h1), ho_replacement_error := Some err,
              ho_initialization := None, ho_state := St_Awaiting\<rparr>)"

section \<open>Messages\<close>

fun js_strings :: "jsval \<Rightarrow> js_string list" where
  "js_strings (JArr xs) = List.map the_str xs"
| "js_strings _ = []"

definition handlePush :: "host_config \<Rightarrow> jsval \<Rightarrow> hop" where
  "handlePush cfg msg h =
     (if getp msg ''kind'' = JStr (js ''cache-changed'') then
        hout (Changed_Notified (ho_changed h) (the_str (getp msg ''revision''))) h
      else if getp msg ''kind'' = JStr (js ''mutation-settled'') then
        hout (Settlement_Notified (ho_settlement h) (getp msg ''settlement'')) h
      else
        let ks = own_op_keys (hc_client cfg) (js_strings (getp msg ''opIds''))
        in if ks = [] then h else hout (Affected_Notified (ho_affected h) ks) h)"

definition error_code_of :: "jsval \<Rightarrow> cache_response_error_code option" where
  "error_code_of v =
     (if v = error_code_val OWNER_EPOCH_LOST_ERROR_CODE then Some OWNER_EPOCH_LOST_ERROR_CODE
      else if v = error_code_val ADMITTED_ENQUEUE_UNCERTAIN_ERROR_CODE then
        Some ADMITTED_ENQUEUE_UNCERTAIN_ERROR_CODE
      else None)"

definition handleResponse :: "host_env \<Rightarrow> jsval \<Rightarrow> hop" where
  "handleResponse env msg h =
     (let rid = the_nat (getp msg ''id'') in
      case map_of (ho_pending h) rid of
        None \<Rightarrow> h
      | Some entry \<Rightarrow>
          finishGracefulDisposeIfDrained env
            (if getp msg ''ok'' \<noteq> JBool True then
               let err = Host_Error (the_str (getp msg ''error'')) (error_code_of (getp msg ''errorCode''));
                   h1 = (if isOwnerEpochLoss err then observeOwnerEpochLoss err h else h);
                   h2 = h1\<lparr>ho_pending := AList.delete rid (ho_pending h1)\<rparr>
               in settle_promise (pr_for entry) (pr_kind entry) (Inl err)
                    (recordRequestOutcome env entry (Some err) h2)
             else
               let h1 = h\<lparr>ho_pending := AList.delete rid (ho_pending h)\<rparr>;
                   h2 = h1\<lparr>ho_registered :=
                     fold set_add (filter (\<lambda>k. k \<in> set (ho_active h1)) (registering entry)) (ho_registered h1)\<rparr>
               in settle_promise (pr_for entry) (pr_kind entry) (Inr (getp msg ''result''))
                    (recordRequestOutcome env entry None h2)))"

definition onMessage_h :: "host_config \<Rightarrow> host_env \<Rightarrow> jsval \<Rightarrow> hop" where
  "onMessage_h cfg env msg h =
     (if isCachePush msg then handlePush cfg msg h
      else if isCacheResponse msg then handleResponse env msg h
      else h)"

fun adapter_turns :: "host_config \<Rightarrow> host_env \<Rightarrow> adapter_turn list \<Rightarrow> hop" where
  "adapter_turns cfg env [] h = h"
| "adapter_turns cfg env (Adapter_Says msg # ts) h = adapter_turns cfg env ts (onMessage_h cfg env msg h)"
| "adapter_turns cfg env (Adapter_Breaks reason # ts) h = adapter_turns cfg env ts (failTransport env reason h)"

section \<open>Requests\<close>

definition has_timer :: "jsval \<Rightarrow> bool" where
  "has_timer kind \<longleftrightarrow> kind \<in> set (List.map (\<lambda>k. JStr (js k))
     [''init'', ''current-revision'', ''read'', ''read-records-by-keys'', ''search'', ''entity-filter'',
      ''inspect-query'', ''inspect-query-variants''])"

text \<open>\<open>getAdapter\<close>, which throws when the adapter cannot be created.\<close>

definition getAdapter :: "host_env \<Rightarrow> host \<Rightarrow> js_string option \<times> host" where
  "getAdapter env h =
     (if ho_adapter h then (None, h)
      else
        let h1 = (if ho_relay h then h else hout Relay_Started (h\<lparr>ho_relay := True\<rparr>)) in
        case hv_create env of
          Some err \<Rightarrow> (Some err, h1)
        | None \<Rightarrow> (None, armPagehide env (hout Adapter_Created (h1\<lparr>ho_adapter := True\<rparr>))))"

definition post_adapter ::
  "host_config \<Rightarrow> host_env \<Rightarrow> settler \<Rightarrow> jsval \<Rightarrow> host \<Rightarrow> js_string option \<times> host" where
  "post_adapter cfg env who msg h =
     (case getAdapter env h of
        (Some err, h1) \<Rightarrow> (Some err, h1)
      | (None, h1) \<Rightarrow>
          let (turns, thrown) = hv_post env msg
          in (thrown, adapter_turns cfg env turns (hout (Adapter_Posted who msg) h1)))"

definition startLegacyIdbDeletion :: hop where
  "startLegacyIdbDeletion h = (if ho_legacy h then h else hout Legacy_Deletion (h\<lparr>ho_legacy := True\<rparr>))"

definition admit :: "nat \<Rightarrow> hop" where
  "admit rid h =
     h\<lparr>ho_pending := List.map (\<lambda>(i, e). (i, if i = rid then e\<lparr>pr_admitted := True\<rparr> else e)) (ho_pending h)\<rparr>"

definition host_request ::
  "host_config \<Rightarrow> host_env \<Rightarrow> js_fields \<Rightarrow> int option \<Rightarrow> settler \<Rightarrow> hop" where
  "host_request cfg env msg op who h =
     (let kind = getp (JObj msg) ''kind'' in
      if ho_state h = St_Failed then
        settle_promise who kind
          (Inl (case ho_init_error h of Some err \<Rightarrow> err | None \<Rightarrow> init_default_error)) h
      else if ho_state h = St_Disposing \<or> ho_state h = St_Disposed then
        settle_promise who kind (Inl closed_error) h
      else
        let rid = ho_next h;
            entry = \<lparr> pr_kind = kind, pr_op = op, pr_admitted = False, pr_started = hv_now env,
              pr_timer = has_timer kind, pr_for = who \<rparr>;
            h1 = h\<lparr>ho_next := rid + 1, ho_pending := ho_pending h @ [(rid, entry)]\<rparr>
        in
        case post_adapter cfg env who (wire msg rid) h1 of
          (None, h2) \<Rightarrow> admit rid (startLegacyIdbDeletion h2)
        | (Some reason, h2) \<Rightarrow>
            let err = Host_Error reason None;
                h3 = recordRequestOutcome env entry (Some err)
                  (h2\<lparr>ho_pending := AList.delete rid (ho_pending h2)\<rparr>)
            in if map_of (ho_pending h2) rid = None then h3
               else settle_promise who kind (Inl err) h3)"

definition timeout_error :: "jsval \<Rightarrow> host_error" where
  "timeout_error kind = Host_Error (js ''cache worker timeout: '' @ the_str kind) None"

definition requestTimedOut :: "host_env \<Rightarrow> nat \<Rightarrow> hop" where
  "requestTimedOut env rid h =
     (case map_of (ho_pending h) rid of
        None \<Rightarrow> h
      | Some entry \<Rightarrow>
          if \<not> pr_timer entry then h
          else
            let err = timeout_error (pr_kind entry) in
            finishGracefulDisposeIfDrained env
              (settle_promise (pr_for entry) (pr_kind entry) (Inl err)
                (recordRequestOutcome env entry (Some err)
                  (h\<lparr>ho_pending := AList.delete rid (ho_pending h)\<rparr>))))"

section \<open>Initialization\<close>

definition emitAffectedKeys :: "int list \<Rightarrow> hop" where
  "emitAffectedKeys ks h = (if ks = [] then h else hout (Affected_Notified (ho_affected h) ks) h)"

definition startStorageHealthSampling :: hop where
  "startStorageHealthSampling h =
     (let h1 = hout Health_Observed h
      in if ho_health h1 then h1 else hout (Health_Timer True) (h1\<lparr>ho_health := True\<rparr>))"

definition host_init_request :: "host_config \<Rightarrow> js_fields" where
  "host_init_request cfg = kinded ''init'' [(js ''scope'', JStr (hc_scope cfg)), (js ''hotCapacity'', hc_hot cfg)]"

definition startInitialization :: "host_config \<Rightarrow> host_env \<Rightarrow> hop" where
  "startInitialization cfg env h =
     (let n = ho_inits h;
          h1 = h\<lparr>ho_state := St_Initializing, ho_replacement_error := None,
            ho_init_started := hv_now env, ho_inits := n + 1\<rparr>
      in (host_request cfg env (host_init_request cfg) None (For_Init n) h1)\<lparr>ho_initialization := Some n\<rparr>)"

definition finish_recovery :: hop where
  "finish_recovery h =
     (if ho_recovering h then
        emitAffectedKeys (filter (\<lambda>k. k \<in> set (ho_active h) \<and> k \<notin> set (ho_reread h)) (ho_lost h))
          (h\<lparr>ho_recovering := False, ho_lost := [], ho_reread := []\<rparr>)
      else h)"

definition handshake_done :: "host_env \<Rightarrow> hop" where
  "handshake_done env h =
     (if ho_state h \<noteq> St_Initializing then h
      else finish_recovery (startStorageHealthSampling
        (hout (Host_Telemetry (host_observation Host_Ready Cat_Initialization Out_Success Code_None
            (Some (hv_now env - ho_init_started h))))
          (h\<lparr>ho_state := St_Ready, ho_initialization := None\<rparr>))))"

definition handshake_failed :: "host_env \<Rightarrow> host_error \<Rightarrow> hop" where
  "handshake_failed env err h =
     (let h1 = h\<lparr>ho_initialization := None\<rparr>
      in if isOwnerEpochLoss err then observeOwnerEpochLoss err h1 else failInitialization env err h1)"

text \<open>The calls that awaited this handshake go on after its reaction.\<close>

definition resume_waiters :: "nat \<Rightarrow> host_error option \<Rightarrow> hop" where
  "resume_waiters n res h =
     fold (\<lambda>(m, c, call). add_job (Resume_Call c call res)) (filter (\<lambda>w. fst w = n) (ho_waiting h))
       (h\<lparr>ho_waiting := filter (\<lambda>w. fst w \<noteq> n) (ho_waiting h)\<rparr>)"

definition init_reaction :: "host_env \<Rightarrow> nat \<Rightarrow> host_error option \<Rightarrow> hop" where
  "init_reaction env n res h =
     resume_waiters n res
       (case res of None \<Rightarrow> handshake_done env h | Some err \<Rightarrow> handshake_failed env err h)"

definition await_handshake :: "nat \<Rightarrow> nat \<Rightarrow> api_call \<Rightarrow> hop" where
  "await_handshake n c call h = h\<lparr>ho_waiting := ho_waiting h @ [(n, c, call)]\<rparr>"

text \<open>\<open>await ensureInitialized()\<close> in the call \<open>c\<close>.\<close>

definition ensureInitialized :: "host_config \<Rightarrow> host_env \<Rightarrow> nat \<Rightarrow> api_call \<Rightarrow> hop" where
  "ensureInitialized cfg env c call h =
     (if ho_state h = St_Ready then add_job (Resume_Call c call None) h
      else if ho_state h = St_Initializing \<and> ho_initialization h \<noteq> None then
        await_handshake (the (ho_initialization h)) c call h
      else if ho_state h = St_Awaiting then
        add_job (Resume_Call c call (Some (case ho_replacement_error h of
          Some err \<Rightarrow> err | None \<Rightarrow> replacement_default_error))) h
      else if ho_state h = St_Failed then
        add_job (Resume_Call c call (Some (case ho_init_error h of
          Some err \<Rightarrow> err | None \<Rightarrow> init_default_error))) h
      else if ho_state h = St_Disposing \<or> ho_state h = St_Disposed then
        add_job (Resume_Call c call (Some closed_error)) h
      else await_handshake (ho_inits h) c call (startInitialization cfg env h))"

definition onEngineReplaced_h :: "host_config \<Rightarrow> host_env \<Rightarrow> nat \<Rightarrow> hop" where
  "onEngineReplaced_h cfg env epoch h =
     (if over (ho_state h) \<or> epoch \<le> ho_epoch h then h
      else
        let h1 = h\<lparr>ho_epoch := epoch\<rparr> in
        if ho_state h1 = St_Initializing \<and> \<not> ho_recovering h1 then h1
        else
          let h2 = hout (Generation_Notified (ho_generation h1)) h1;
              h3 = (if ho_state h2 = St_Ready then
                 let g = beginRecoveryGeneration h2
                 in g\<lparr>ho_reread := markPendingRegistrations g (ho_reread g)\<rparr>
               else h2)
          in if ho_state h3 \<noteq> St_Ready \<and> ho_state h3 \<noteq> St_Awaiting then h3
             else startInitialization cfg env h3)"

section \<open>Disposal\<close>

definition navigation_error :: host_error where
  "navigation_error = Host_Error (js ''cache worker host was disposed for page navigation'') None"

definition abrupt_error :: host_error where
  "abrupt_error = Host_Error (js ''cache worker host was abruptly disposed'') None"

definition navigate_away :: "host_env \<Rightarrow> hop" where
  "navigate_away env h =
     startAdapterDisposal env False True
       (rejectPending env navigation_error True ((clearSubscribers h)\<lparr>ho_mode := Some Navigation_Disposal\<rparr>))"

definition dispose_abruptly :: "host_env \<Rightarrow> hop" where
  "dispose_abruptly env h =
     (let h1 = (clearSubscribers h)\<lparr>ho_mode := Some Abrupt_Disposal\<rparr>;
          h2 = (if hasAdmittedEnqueue h then hout Scope_Quarantined h1 else h1)
      in startAdapterDisposal env False False (rejectPending env abrupt_error True h2))"

definition disposeHost :: "host_env \<Rightarrow> bool \<Rightarrow> bool \<Rightarrow> hop" where
  "disposeHost env graceful preserve h0 =
     (let h = stopStorageHealthSampling h0 in
      if ho_state h = St_Disposed then h
      else if ho_state h = St_Disposing then
        if graceful \<or> ho_mode h = Some Abrupt_Disposal \<or>
           preserve \<and> ho_mode h = Some Navigation_Disposal then h
        else if preserve then navigate_away env h
        else dispose_abruptly env h
      else if graceful \<and> ho_state h = St_Ready then
        finishGracefulDisposeIfDrained env
          (clearSubscribers (h\<lparr>ho_state := St_Disposing, ho_mode := Some Graceful_Disposal\<rparr>))
      else if preserve then navigate_away env (h\<lparr>ho_state := St_Disposing\<rparr>)
      else dispose_abruptly env (h\<lparr>ho_state := St_Disposing\<rparr>))"

definition disposal_reaction :: "host_env \<Rightarrow> after_disposal \<Rightarrow> hop" where
  "disposal_reaction env k h =
     (case k of
        Finish_Telemetry \<Rightarrow> finishTelemetry h
      | Finish_Disposal \<Rightarrow>
          if ho_state h \<noteq> St_Disposing then h
          else finishTelemetry (unregisterPagehide env (h\<lparr>ho_state := St_Disposed\<rparr>)))"

definition adapter_disposed :: hop where
  "adapter_disposed h =
     (if ho_disposal h \<noteq> Some False then h
      else fold (\<lambda>k. add_job (Disposal_Reaction k)) (ho_after h) (h\<lparr>ho_disposal := Some True, ho_after := []\<rparr>))"

definition quarantine_settled :: hop where
  "quarantine_settled h =
     (case ho_quarantines h of [] \<Rightarrow> h | err # es \<Rightarrow> reportFailure err (h\<lparr>ho_quarantines := es\<rparr>))"

section \<open>Storage health\<close>

text \<open>\<open>navigator.storage\<close>: usage, quota and persistence, or the error of the probe.\<close>

definition observeStorageHealth :: "js_string + (int option \<times> int option \<times> bool option) \<Rightarrow> hop" where
  "observeStorageHealth probe =
     hout (case probe of
        Inl reason \<Rightarrow> Storage_Pressure None (classifyCacheError (Some reason))
      | Inr (usage, quota, persisted) \<Rightarrow>
          Storage_Pressure (Some (usage, quota, persisted,
            (case (usage, quota) of
               (Some u, Some q) \<Rightarrow> if q > 0 then Some (u, q) else None
             | _ \<Rightarrow> None))) Code_None)"

section \<open>Calls\<close>

definition settle_call :: "nat \<Rightarrow> host_error + jsval \<Rightarrow> hop" where
  "settle_call c res = hout (Call_Settled c res)"

definition request_call :: "host_config \<Rightarrow> host_env \<Rightarrow> nat \<Rightarrow> api_call \<Rightarrow> hop" where
  "request_call cfg env c call =
     host_request cfg env (api_message (hc_client cfg) call) (api_op_key call) (For_Call c)"

definition is_teardown :: "api_call \<Rightarrow> bool" where
  "is_teardown call \<longleftrightarrow> (case call of Teardown_Op k \<Rightarrow> True | _ \<Rightarrow> False)"

text \<open>A call after its wait for the handshake.\<close>

definition resume_call :: "host_config \<Rightarrow> host_env \<Rightarrow> nat \<Rightarrow> api_call \<Rightarrow> host_error option \<Rightarrow> hop" where
  "resume_call cfg env c call err h =
     (if is_teardown call then
        if err \<noteq> None \<or> ho_state h \<noteq> St_Ready then settle_call c (Inr JUndef) h
        else request_call cfg env c call h
      else
        case err of
          Some e \<Rightarrow> settle_call c (Inl e) h
        | None \<Rightarrow> request_call cfg env c call h)"

definition note_active :: "api_call \<Rightarrow> hop" where
  "note_active call h =
     (case api_op_key call of
        None \<Rightarrow> h
      | Some k \<Rightarrow>
          h\<lparr>ho_active := set_add k (ho_active h),
            ho_reread := (if ho_recovering h then set_add k (ho_reread h) else ho_reread h)\<rparr>)"

definition forget_op :: "int \<Rightarrow> hop" where
  "forget_op k h =
     h\<lparr>ho_active := removeAll k (ho_active h), ho_registered := removeAll k (ho_registered h),
       ho_lost := removeAll k (ho_lost h), ho_reread := removeAll k (ho_reread h)\<rparr>"

definition teardown_call :: "host_config \<Rightarrow> host_env \<Rightarrow> nat \<Rightarrow> int \<Rightarrow> hop" where
  "teardown_call cfg env c k h0 =
     (let h = forget_op k h0 in
      if ho_state h = St_Initializing then ensureInitialized cfg env c (Teardown_Op k) h
      else if ho_state h = St_Ready then request_call cfg env c (Teardown_Op k) h
      else settle_call c (Inr JUndef) h)"

definition host_call :: "host_config \<Rightarrow> host_env \<Rightarrow> api_call \<Rightarrow> hop" where
  "host_call cfg env call h0 =
     (let c = ho_calls h0; h = h0\<lparr>ho_calls := c + 1\<rparr> in
      case prepare_call (hv_wall env) call of
        Inl reason \<Rightarrow> settle_call c (Inl (Host_Error reason None)) h
      | Inr prepared \<Rightarrow>
          (case prepared of
             Teardown_Op k \<Rightarrow> teardown_call cfg env c k h
           | _ \<Rightarrow> ensureInitialized cfg env c prepared (note_active prepared h)))"

section \<open>Events\<close>

datatype subscription = To_Affected | To_Changes | To_Generations | To_Settlements

fun subscribe :: "subscription \<Rightarrow> nat \<Rightarrow> hop" where
  "subscribe To_Affected i h = h\<lparr>ho_affected := set_add i (ho_affected h)\<rparr>"
| "subscribe To_Changes i h = h\<lparr>ho_changed := set_add i (ho_changed h)\<rparr>"
| "subscribe To_Generations i h = h\<lparr>ho_generation := set_add i (ho_generation h)\<rparr>"
| "subscribe To_Settlements i h = h\<lparr>ho_settlement := set_add i (ho_settlement h)\<rparr>"

fun unsubscribe :: "subscription \<Rightarrow> nat \<Rightarrow> hop" where
  "unsubscribe To_Affected i h = h\<lparr>ho_affected := removeAll i (ho_affected h)\<rparr>"
| "unsubscribe To_Changes i h = h\<lparr>ho_changed := removeAll i (ho_changed h)\<rparr>"
| "unsubscribe To_Generations i h = h\<lparr>ho_generation := removeAll i (ho_generation h)\<rparr>"
| "unsubscribe To_Settlements i h = h\<lparr>ho_settlement := removeAll i (ho_settlement h)\<rparr>"

datatype host_event =
    Api_Call api_call
  | Subscribe subscription nat
  | Unsubscribe subscription nat
  | Adapter_Message jsval
  | Adapter_Terminal js_string
  | Adapter_Replaced nat
  | Request_Timeout nat
  | Adapter_Disposal_Settled
  | Quarantine_Settled
  | Page_Hidden
  | Health_Tick
  | Health_Read "js_string + (int option \<times> int option \<times> bool option)"
  | Host_Dispose
  | Run_Job

fun run_job :: "host_config \<Rightarrow> host_env \<Rightarrow> job \<Rightarrow> hop" where
  "run_job cfg env (Init_Reaction n res) h = init_reaction env n res h"
| "run_job cfg env (Resume_Call c call err) h = resume_call cfg env c call err h"
| "run_job cfg env (Disposal_Reaction k) h = disposal_reaction env k h"

definition run_next :: "host_config \<Rightarrow> host_env \<Rightarrow> hop" where
  "run_next cfg env h =
     (case ho_jobs h of [] \<Rightarrow> h | j # rest \<Rightarrow> run_job cfg env j (h\<lparr>ho_jobs := rest\<rparr>))"

fun host_act :: "host_config \<Rightarrow> host_env \<Rightarrow> host_event \<Rightarrow> hop" where
  "host_act cfg env (Api_Call call) h = host_call cfg env call h"
| "host_act cfg env (Subscribe s i) h = subscribe s i h"
| "host_act cfg env (Unsubscribe s i) h = unsubscribe s i h"
| "host_act cfg env (Adapter_Message msg) h = (if ho_adapter h then onMessage_h cfg env msg h else h)"
| "host_act cfg env (Adapter_Terminal reason) h = (if ho_adapter h then failTransport env reason h else h)"
| "host_act cfg env (Adapter_Replaced epoch) h =
     (if ho_adapter h then onEngineReplaced_h cfg env epoch h else h)"
| "host_act cfg env (Request_Timeout rid) h = requestTimedOut env rid h"
| "host_act cfg env Adapter_Disposal_Settled h = adapter_disposed h"
| "host_act cfg env Quarantine_Settled h = quarantine_settled h"
| "host_act cfg env Page_Hidden h =
     (if ho_listening h then disposeHost env False True (h\<lparr>ho_listening := False\<rparr>) else h)"
| "host_act cfg env Health_Tick h = (if ho_health h then hout Health_Observed h else h)"
| "host_act cfg env (Health_Read probe) h = observeStorageHealth probe h"
| "host_act cfg env Host_Dispose h = disposeHost env True False h"
| "host_act cfg env Run_Job h = run_next cfg env h"

definition host_step :: "host_config \<Rightarrow> host_env \<times> host_event \<Rightarrow> host \<Rightarrow> unit \<times> host" where
  "host_step cfg ev h = ((), host_act cfg (fst ev) (snd ev) h)"

end
