(* ===== verification/Host_Laws.thy ===== *)
theory Host_Laws
  imports Worker_Host "HOL-Library.Multiset"
begin

text \<open>
  What every operation of the host keeps: a call is waiting, pending, queued as a job or settled, and
  it is only ever in one of these places; a call that waits for a handshake waits for one that is
  still running; a host that failed or was disposed holds no request.
\<close>

section \<open>Where the calls are\<close>

fun settled_of :: "host_output \<Rightarrow> nat list" where
  "settled_of (Call_Settled c res) = [c]"
| "settled_of _ = []"

fun posted_of :: "host_output \<Rightarrow> (settler \<times> jsval) list" where
  "posted_of (Adapter_Posted who msg) = [(who, msg)]"
| "posted_of _ = []"

fun call_of :: "settler \<Rightarrow> nat list" where
  "call_of (For_Call c) = [c]"
| "call_of (For_Init n) = []"

fun job_call :: "job \<Rightarrow> (nat \<times> api_call) list" where
  "job_call (Resume_Call c call err) = [(c, call)]"
| "job_call _ = []"

definition settled_calls :: "host \<Rightarrow> nat list" where
  "settled_calls h = concat (List.map settled_of (ho_out h))"

definition sent :: "host \<Rightarrow> (settler \<times> jsval) list" where
  "sent h = concat (List.map posted_of (ho_out h))"

definition entry_call :: "nat \<times> pending_request \<Rightarrow> nat list" where
  "entry_call e = call_of (pr_for (snd e))"

definition pending_calls :: "host \<Rightarrow> nat list" where
  "pending_calls h = concat (List.map entry_call (ho_pending h))"

definition waiting_calls :: "host \<Rightarrow> nat list" where
  "waiting_calls h = List.map (\<lambda>w. fst (snd w)) (ho_waiting h)"

definition job_calls :: "host \<Rightarrow> (nat \<times> api_call) list" where
  "job_calls h = concat (List.map job_call (ho_jobs h))"

definition given :: "host \<Rightarrow> nat multiset" where
  "given h = mset (settled_calls h) + mset (pending_calls h)"

definition held :: "host \<Rightarrow> nat multiset" where
  "held h = given h + mset (waiting_calls h) + mset (List.map fst (job_calls h))"

text \<open>The handshakes whose reaction is still to come.\<close>

definition alive :: "host \<Rightarrow> nat set" where
  "alive h = {n. For_Init n \<in> (\<lambda>e. pr_for (snd e)) ` set (ho_pending h)} \<union>
     {n. \<exists>res. Init_Reaction n res \<in> set (ho_jobs h)}"

text \<open>The request table: identifiers and promises.\<close>

definition slots :: "host \<Rightarrow> (nat \<times> settler) set" where
  "slots h = (\<lambda>e. (fst e, pr_for (snd e))) ` set (ho_pending h)"

text \<open>An operation that settles and reports, and neither posts nor admits a call.\<close>

definition quiet :: "host \<Rightarrow> host \<Rightarrow> bool" where
  "quiet h h' \<longleftrightarrow>
     sent h' = sent h \<and> given h' = given h \<and> ho_waiting h' = ho_waiting h \<and>
     job_calls h' = job_calls h \<and> ho_calls h' = ho_calls h \<and> ho_next h' = ho_next h \<and>
     ho_inits h' = ho_inits h \<and> alive h \<subseteq> alive h' \<and>
     (ho_initialization h' = ho_initialization h \<or> ho_initialization h' = None) \<and>
     (ho_state h' = St_Initializing \<longrightarrow> ho_state h = St_Initializing) \<and>
     (over (ho_state h) \<longrightarrow> over (ho_state h')) \<and>
     slots h' \<subseteq> slots h \<and>
     (distinct (List.map fst (ho_pending h)) \<longrightarrow> distinct (List.map fst (ho_pending h'))) \<and>
     (ho_adapter h \<longrightarrow> ho_adapter h')"

lemma quiet_refl [simp, intro]: "quiet h h"
  by (simp add: quiet_def)

lemma quiet_trans:
  assumes ab: "quiet a b" and bc: "quiet b c" shows "quiet a c"
proof -
  have "alive a \<subseteq> alive c" "slots c \<subseteq> slots a"
    using ab bc unfolding quiet_def by (blast dest: subset_trans)+
  moreover have "ho_initialization c = ho_initialization a \<or> ho_initialization c = None"
    using ab bc unfolding quiet_def by metis
  moreover have "ho_state c = St_Initializing \<longrightarrow> ho_state a = St_Initializing"
      "over (ho_state a) \<longrightarrow> over (ho_state c)" "ho_adapter a \<longrightarrow> ho_adapter c"
      "distinct (List.map fst (ho_pending a)) \<longrightarrow> distinct (List.map fst (ho_pending c))"
    using ab bc unfolding quiet_def by simp_all
  ultimately show ?thesis using ab bc unfolding quiet_def by simp
qed

text \<open>Composition, read from the outermost operation.\<close>

lemma quiet_step: "\<lbrakk>\<And>x. quiet x (f x); quiet h y\<rbrakk> \<Longrightarrow> quiet h (f y)"
  by (rule quiet_trans)

lemmas book_defs = slots_def settled_calls_def sent_def pending_calls_def job_calls_def given_def alive_def

lemma quiet_hout:
  "settled_of out = [] \<Longrightarrow> posted_of out = [] \<Longrightarrow> quiet h (hout out h)"
  by (simp add: quiet_def hout_def book_defs)

lemma quiet_hout_step:
  "settled_of out = [] \<Longrightarrow> posted_of out = [] \<Longrightarrow> quiet h y \<Longrightarrow> quiet h (hout out y)"
  using quiet_hout quiet_trans by blast

lemma quiet_record: "quiet h (recordRequestOutcome env entry err h)"
  by (simp add: recordRequestOutcome_def quiet_hout)

lemma quiet_subscribers: "quiet h (clearSubscribers h)"
  by (simp add: quiet_def clearSubscribers_def book_defs)

lemma quiet_unregister: "quiet h (unregisterPagehide env h)"
  by (simp add: quiet_def unregisterPagehide_def book_defs)

lemma quiet_health: "quiet h (stopStorageHealthSampling h)"
proof -
  have "quiet h (h\<lparr>ho_health := False\<rparr>)" by (simp add: quiet_def book_defs)
  then show ?thesis by (simp add: stopStorageHealthSampling_def quiet_hout_step)
qed

lemma quiet_finish: "quiet h (finishTelemetry h)"
proof -
  have "quiet x (x\<lparr>ho_finished := True\<rparr>)" for x by (simp add: quiet_def book_defs)
  then have "quiet h ((stopStorageHealthSampling h)\<lparr>ho_finished := True\<rparr>)"
    by (rule quiet_trans [OF quiet_health])
  then show ?thesis by (simp add: finishTelemetry_def quiet_hout_step)
qed

lemma quiet_dispose: "quiet h (disposeAdapter env graceful preserve h)"
proof -
  have "quiet x (x\<lparr>ho_disposal_graceful := b\<rparr>)" "quiet x (x\<lparr>ho_disposal_graceful := b, ho_disposal := d\<rparr>)"
    for x b d by (simp_all add: quiet_def book_defs)
  then show ?thesis by (simp add: disposeAdapter_def quiet_hout_step)
qed

lemma quiet_after: "quiet h (after_disposing k h)"
proof -
  have "quiet h (h\<lparr>ho_after := a\<rparr>)" for a by (simp add: quiet_def book_defs)
  moreover have "quiet h (add_job (Disposal_Reaction k) h)" by (simp add: quiet_def add_job_def book_defs)
  ultimately show ?thesis by (simp add: after_disposing_def)
qed

lemma quiet_startDisposal: "quiet h (startAdapterDisposal env graceful preserve h)"
proof -
  have "quiet x (x\<lparr>ho_disposal_started := b\<rparr>)" for x b by (simp add: quiet_def book_defs)
  then have "quiet h (after_disposing Finish_Disposal
      (disposeAdapter env graceful preserve (h\<lparr>ho_disposal_started := True\<rparr>)))"
    by (blast intro: quiet_trans quiet_dispose quiet_after)
  then show ?thesis by (simp add: startAdapterDisposal_def quiet_dispose)
qed

lemma quiet_graceful: "quiet h (finishGracefulDisposeIfDrained env h)"
  by (simp add: finishGracefulDisposeIfDrained_def quiet_startDisposal)

lemma quiet_report: "quiet h (reportFailure err h)"
proof -
  have "quiet h (h\<lparr>ho_reported := True\<rparr>)" by (simp add: quiet_def book_defs)
  then show ?thesis by (simp add: reportFailure_def quiet_hout_step)
qed

lemma quiet_loss: "quiet h (observeOwnerEpochLoss err h)"
proof (cases "over (ho_state h)")
  case False
  then show ?thesis
    by (simp add: quiet_def observeOwnerEpochLoss_def beginRecoveryGeneration_def book_defs Let_def)
qed (simp add: observeOwnerEpochLoss_def)

section \<open>Settling\<close>

lemma settled_hout [simp]: "settled_calls (hout out h) = settled_calls h @ settled_of out"
  and posted_hout [simp]: "sent (hout out h) = sent h @ posted_of out"
  by (simp_all add: hout_def settled_calls_def sent_def)

text \<open>What settling adds: the call that is settled, or the reaction of the handshake.\<close>

definition settles :: "settler \<Rightarrow> host \<Rightarrow> host \<Rightarrow> bool" where
  "settles who h h' \<longleftrightarrow>
     ho_pending h' = ho_pending h \<and> mset (settled_calls h') = mset (settled_calls h) + mset (call_of who) \<and>
     sent h' = sent h \<and> ho_waiting h' = ho_waiting h \<and> job_calls h' = job_calls h \<and>
     ho_calls h' = ho_calls h \<and> ho_next h' = ho_next h \<and> ho_inits h' = ho_inits h \<and>
     ho_initialization h' = ho_initialization h \<and> ho_state h' = ho_state h \<and>
     set (ho_jobs h) \<subseteq> set (ho_jobs h') \<and> (\<forall>n. who = For_Init n \<longrightarrow> (\<exists>res. Init_Reaction n res \<in> set (ho_jobs h'))) \<and>
     ho_adapter h' = ho_adapter h"

lemma settles_promise: "settles who h (settle_promise who kind res h)"
proof (cases who)
  case (For_Call c)
  have "settles (For_Call c) h (hout (Call_Settled c r) h)" for r
    by (simp add: settles_def hout_def book_defs)
  moreover have "settles (For_Call c) h (hout (Call_Settled c r) (hout (Host_Telemetry logical_reset) h))" for r
    by (simp add: settles_def hout_def book_defs)
  ultimately show ?thesis using For_Call by (simp add: settle_promise_def split: sum.split)
next
  case (For_Init n)
  then show ?thesis
    by (simp add: settles_def settle_promise_def add_job_def book_defs split: sum.split) blast
qed

lemma settles_entry: "settles (pr_for entry) h (reject_entry env err uncertain entry h)"
proof -
  let ?h = "recordRequestOutcome env entry (Some err) h"
  have "settles (pr_for entry) ?h (reject_entry env err uncertain entry h)"
    unfolding reject_entry_def by (rule settles_promise)
  moreover have "ho_pending ?h = ho_pending h" "settled_calls ?h = settled_calls h" "sent ?h = sent h"
    "ho_waiting ?h = ho_waiting h" "job_calls ?h = job_calls h" "ho_calls ?h = ho_calls h" "ho_next ?h = ho_next h"
    "ho_inits ?h = ho_inits h" "ho_initialization ?h = ho_initialization h" "ho_state ?h = ho_state h"
    "ho_jobs ?h = ho_jobs h" "ho_adapter ?h = ho_adapter h"
    by (simp_all add: recordRequestOutcome_def hout_def book_defs)
  ultimately show ?thesis by (simp add: settles_def)
qed

lemma delete_calls:
  assumes "distinct (List.map fst xs)" "map_of xs rid = Some entry"
  shows "mset (concat (List.map entry_call xs)) =
    mset (concat (List.map entry_call (AList.delete rid xs))) + mset (call_of (pr_for entry))"
  using assms
proof (induction xs)
  case (Cons x xs)
  show ?case
  proof (cases "fst x = rid")
    case True
    then have "AList.delete rid xs = xs" using Cons.prems(1) by (auto simp: AList.delete_id)
    then show ?thesis using True Cons.prems(2) by (cases x) (simp add: entry_call_def AList.delete_eq)
  next
    case False
    then show ?thesis using Cons by (cases x) (simp add: AList.delete_eq)
  qed
qed simp

text \<open>A request leaves the table and its promise is settled.\<close>

lemma quiet_settles:
  assumes ids: "distinct (List.map fst (ho_pending h))" and e: "map_of (ho_pending h) rid = Some entry"
    and x: "settles (pr_for entry) x y" "ho_pending x = AList.delete rid (ho_pending h)"
      "quiet (h\<lparr>ho_pending := AList.delete rid (ho_pending h)\<rparr>) x"
  shows "quiet h y"
proof -
  let ?d = "AList.delete rid (ho_pending h)"
  let ?d' = "h\<lparr>ho_pending := ?d\<rparr>"
  have ks: "(\<lambda>e. (fst e, pr_for (snd e))) ` set ?d \<subseteq> slots h" "distinct (List.map fst ?d)"
    using ids by (auto simp: AList.delete_eq distinct_map inj_on_def slots_def)
  have g: "given y = given h"
  proof -
    have "mset (pending_calls h) = mset (pending_calls x) + mset (call_of (pr_for entry))"
      using delete_calls [OF ids e] x(2) by (simp add: pending_calls_def)
    moreover have "given x = mset (settled_calls h) + mset (pending_calls x)"
      using x(2,3) by (simp add: quiet_def given_def pending_calls_def settled_calls_def)
    ultimately show ?thesis using x(1) by (simp add: settles_def given_def pending_calls_def)
  qed
  have a: "alive h \<subseteq> alive y"
  proof
    fix n assume "n \<in> alive h"
    then consider "n \<in> alive ?d'" | "pr_for entry = For_Init n"
    proof (cases "\<exists>res. Init_Reaction n res \<in> set (ho_jobs h)")
      case False
      then obtain i q where q: "(i, q) \<in> set (ho_pending h)" "pr_for q = For_Init n"
        using \<open>n \<in> alive h\<close> by (auto simp: alive_def)
      then show ?thesis
      proof (cases "i = rid")
        case True
        then have "q = entry" using q(1) e ids by (metis map_of_eq_Some_iff option.inject)
        then show ?thesis using q(2) that(2) by simp
      next
        case False
        then have "(i, q) \<in> set ?d" using q(1) by (simp add: AList.delete_eq)
        then show ?thesis using q(2) that(1) by (force simp: alive_def)
      qed
    qed (simp add: alive_def that(1))
    then show "n \<in> alive y"
    proof cases
      case 1
      then have "n \<in> alive x" using x(3) by (auto simp: quiet_def)
      then show ?thesis using x(1) unfolding settles_def alive_def by auto
    next
      case 2
      then show ?thesis using x(1) unfolding settles_def alive_def by blast
    qed
  qed
  show ?thesis
    using x(1,3) ks g a ids unfolding settles_def quiet_def
    by (simp add: x(2) sent_def job_calls_def slots_def)
qed

definition settles_all :: "(nat \<times> pending_request) list \<Rightarrow> host \<Rightarrow> host \<Rightarrow> bool" where
  "settles_all xs h h' \<longleftrightarrow>
     ho_pending h' = ho_pending h \<and>
     mset (settled_calls h') = mset (settled_calls h) + mset (concat (List.map entry_call xs)) \<and>
     sent h' = sent h \<and> ho_waiting h' = ho_waiting h \<and> job_calls h' = job_calls h \<and>
     ho_calls h' = ho_calls h \<and> ho_next h' = ho_next h \<and> ho_inits h' = ho_inits h \<and>
     ho_initialization h' = ho_initialization h \<and> ho_state h' = ho_state h \<and>
     set (ho_jobs h) \<subseteq> set (ho_jobs h') \<and>
     (\<forall>e \<in> set xs. \<forall>n. pr_for (snd e) = For_Init n \<longrightarrow> (\<exists>res. Init_Reaction n res \<in> set (ho_jobs h'))) \<and>
     ho_adapter h' = ho_adapter h"

lemma settles_fold: "settles_all xs h (fold (\<lambda>e. reject_entry env err uncertain (snd e)) xs h)"
proof (induction xs arbitrary: h)
  case Nil
  show ?case by (simp add: settles_all_def)
next
  case (Cons e xs)
  let ?h = "reject_entry env err uncertain (snd e) h"
  let ?y = "fold (\<lambda>e. reject_entry env err uncertain (snd e)) xs ?h"
  have 1: "settles (pr_for (snd e)) h ?h" by (rule settles_entry)
  have 2: "settles_all xs ?h ?y" by (rule Cons.IH)
  have "\<forall>n. pr_for (snd e) = For_Init n \<longrightarrow> (\<exists>res. Init_Reaction n res \<in> set (ho_jobs ?h))"
      "set (ho_jobs ?h) \<subseteq> set (ho_jobs ?y)" "set (ho_jobs h) \<subseteq> set (ho_jobs ?h)"
      "\<forall>f \<in> set xs. \<forall>n. pr_for (snd f) = For_Init n \<longrightarrow> (\<exists>res. Init_Reaction n res \<in> set (ho_jobs ?y))"
    using 1 2 by (simp_all add: settles_def settles_all_def)
  then have "set (ho_jobs h) \<subseteq> set (ho_jobs ?y)"
      "\<forall>f \<in> set (e # xs). \<forall>n. pr_for (snd f) = For_Init n \<longrightarrow> (\<exists>res. Init_Reaction n res \<in> set (ho_jobs ?y))"
    by (blast, fastforce)
  then show ?case using 1 2 by (simp add: settles_def settles_all_def entry_call_def)
qed

lemma settles_reject:
  "settles_all (ho_pending h) (h\<lparr>ho_pending := []\<rparr>) (rejectPending env err uncertain h)"
  unfolding rejectPending_def by (rule settles_fold)

lemma reject_pending [simp]: "ho_pending (rejectPending env err uncertain h) = []"
  and reject_state [simp]: "ho_state (rejectPending env err uncertain h) = ho_state h"
  using settles_reject [of h env err uncertain] by (simp_all add: settles_all_def)

lemma quiet_reject: "quiet h (rejectPending env err uncertain h)"
proof -
  let ?y = "rejectPending env err uncertain h"
  have y: "settles_all (ho_pending h) (h\<lparr>ho_pending := []\<rparr>) ?y" by (rule settles_reject)
  have "alive h \<subseteq> alive ?y"
  proof
    fix n assume "n \<in> alive h"
    then show "n \<in> alive ?y" using y by (auto simp: alive_def settles_all_def)
  qed
  moreover have "given ?y = given h" using y by (simp add: settles_all_def given_def book_defs)
  ultimately show ?thesis using y by (simp add: settles_all_def quiet_def sent_def job_calls_def slots_def)
qed

section \<open>Failures, messages, disposal\<close>

text \<open>The same laws, as introduction rules read from the outermost operation.\<close>

lemma quiet_field:
  "quiet h y \<Longrightarrow> quiet h (y\<lparr>ho_mode := m\<rparr>)" "quiet h y \<Longrightarrow> quiet h (y\<lparr>ho_quarantines := q\<rparr>)"
  "quiet h y \<Longrightarrow> quiet h (y\<lparr>ho_health := b\<rparr>)"
  "quiet h y \<Longrightarrow> quiet h (y\<lparr>ho_recovering := b, ho_lost := l, ho_reread := r\<rparr>)"
  "quiet h y \<Longrightarrow> quiet h (y\<lparr>ho_initialization := None\<rparr>)"
  "quiet h y \<Longrightarrow> quiet h (y\<lparr>ho_disposal := d, ho_after := a\<rparr>)"
  by (erule quiet_trans; simp add: quiet_def book_defs)+

lemma quiet_if: "quiet h a \<Longrightarrow> quiet h b \<Longrightarrow> quiet h (if c then a else b)"
  by simp

lemmas quiet_into = quiet_refl quiet_field quiet_hout_step quiet_trans [OF _ quiet_record]
  quiet_trans [OF _ quiet_subscribers] quiet_trans [OF _ quiet_unregister] quiet_trans [OF _ quiet_health]
  quiet_trans [OF _ quiet_finish] quiet_trans [OF _ quiet_dispose] quiet_trans [OF _ quiet_after]
  quiet_trans [OF _ quiet_startDisposal] quiet_trans [OF _ quiet_graceful] quiet_trans [OF _ quiet_report]
  quiet_trans [OF _ quiet_loss] quiet_trans [OF _ quiet_reject]

lemma quiet_failInit: "quiet h (failInitialization env err h)"
proof (cases "ho_state h \<in> {St_Failed, St_Disposed, St_Ready}")
  case False
  define h1 where "h1 = hout (Host_Telemetry (host_observation Host_Ready Cat_Initialization Out_Error
    (classifyCacheError (Some (he_message err)))
    (Some (if ho_init_started h > 0 then hv_now env - ho_init_started h else 0)))) h"
  define h2 where "h2 = h1\<lparr>ho_state := St_Failed, ho_initialization := None, ho_init_error := Some err\<rparr>"
  have "quiet h h1" unfolding h1_def by (rule quiet_hout) simp_all
  moreover have "quiet h1 h2" unfolding h2_def by (simp add: quiet_def book_defs over_def)
  moreover have "failInitialization env err h = reportFailure err (after_disposing Finish_Telemetry
      (disposeAdapter env False False (unregisterPagehide env (clearSubscribers (rejectPending env err False h2)))))"
    using False unfolding failInitialization_def h1_def h2_def Let_def by auto
  moreover from calculation have "quiet h h2" by (blast intro: quiet_trans)
  ultimately show ?thesis by (simp only:) (intro quiet_into)
qed (simp add: failInitialization_def)

lemma quiet_failTransport: "quiet h (failTransport env reason h)"
proof (cases "ho_terminal h")
  case False
  define h0 where "h0 = stopStorageHealthSampling h"
  let ?err = "Host_Error reason None"
  define h1 where "h1 = h0\<lparr>ho_terminal := True, ho_state := St_Failed, ho_initialization := None,
    ho_init_error := Some ?err\<rparr>"
  define h3 where "h3 = after_disposing Finish_Telemetry (disposeAdapter env False False
    (unregisterPagehide env (clearSubscribers (rejectPending env ?err True h1))))"
  have 0: "quiet h h0" unfolding h0_def by (rule quiet_health)
  have "quiet h0 h1" unfolding h1_def by (simp add: quiet_def book_defs over_def)
  with 0 have "quiet h h1" by (rule quiet_trans)
  then have "quiet h h3" unfolding h3_def by (intro quiet_into)
  then have "quiet h (hout Scope_Quarantined (h3\<lparr>ho_quarantines := ho_quarantines h3 @ [?err]\<rparr>))"
    by (intro quiet_into) simp_all
  then show ?thesis
    using False 0 unfolding failTransport_def h0_def [symmetric] h1_def h3_def Let_def by simp
qed (simp add: failTransport_def)

lemma quiet_push: "quiet h (handlePush cfg msg h)"
  by (simp add: handlePush_def Let_def quiet_hout)

definition tidy :: "host \<Rightarrow> bool" where
  "tidy h \<longleftrightarrow> distinct (List.map fst (ho_pending h))"

lemma quiet_tidy: "quiet h h' \<Longrightarrow> tidy h \<Longrightarrow> tidy h'"
  by (simp add: quiet_def tidy_def)

lemma record_pending [simp]: "ho_pending (recordRequestOutcome env entry err h) = ho_pending h"
  by (simp add: recordRequestOutcome_def hout_def)

lemma loss_pending [simp]: "ho_pending (observeOwnerEpochLoss err h) = ho_pending h"
  by (simp add: observeOwnerEpochLoss_def beginRecoveryGeneration_def Let_def)

lemma quiet_timeout:
  assumes "tidy h" shows "quiet h (requestTimedOut env rid h)"
proof (cases "map_of (ho_pending h) rid")
  case (Some entry)
  let ?e = "timeout_error (pr_kind entry)"
  let ?x = "recordRequestOutcome env entry (Some ?e) (h\<lparr>ho_pending := AList.delete rid (ho_pending h)\<rparr>)"
  have "quiet h (settle_promise (pr_for entry) (pr_kind entry) (Inl ?e) ?x)"
    using assms unfolding tidy_def
    by (rule quiet_settles [OF _ Some settles_promise]) (simp_all add: quiet_record)
  then show ?thesis
    using Some by (simp add: requestTimedOut_def Let_def quiet_trans [OF _ quiet_graceful])
qed (simp add: requestTimedOut_def)

lemma quiet_response:
  assumes t: "tidy h" shows "quiet h (handleResponse env msg h)"
proof (cases "map_of (ho_pending h) (the_nat (getp msg ''id''))")
  case (Some entry)
  let ?rid = "the_nat (getp msg ''id'')"
  let ?d = "AList.delete ?rid (ho_pending h)"
  let ?err = "Host_Error (the_str (getp msg ''error'')) (error_code_of (getp msg ''errorCode''))"
  let ?h1 = "if isOwnerEpochLoss ?err then observeOwnerEpochLoss ?err h else h"
  let ?bad = "recordRequestOutcome env entry (Some ?err) (?h1\<lparr>ho_pending := AList.delete ?rid (ho_pending ?h1)\<rparr>)"
  let ?h2 = "h\<lparr>ho_pending := ?d, ho_registered :=
    fold set_add (filter (\<lambda>k. k \<in> set (ho_active h)) (registering entry)) (ho_registered h)\<rparr>"
  let ?good = "recordRequestOutcome env entry None ?h2"
  have 1: "quiet h ?h1" by (simp add: quiet_loss)
  have 2: "ho_pending ?h1 = ho_pending h" by simp
  have "quiet h (settle_promise (pr_for entry) (pr_kind entry) (Inl ?err) ?bad)"
  proof (rule quiet_trans [OF 1], rule quiet_settles [OF _ _ settles_promise])
    show "distinct (List.map fst (ho_pending ?h1))" using t by (simp add: tidy_def)
    show "map_of (ho_pending ?h1) ?rid = Some entry" using Some by simp
  qed (simp_all add: quiet_record)
  moreover have "quiet h (settle_promise (pr_for entry) (pr_kind entry) (Inr (getp msg ''result'')) ?good)"
  proof (rule quiet_settles [OF _ Some settles_promise])
    show "distinct (List.map fst (ho_pending h))" using t by (simp add: tidy_def)
    have "quiet (h\<lparr>ho_pending := ?d\<rparr>) ?h2" by (simp add: quiet_def book_defs)
    then show "quiet (h\<lparr>ho_pending := ?d\<rparr>) ?good" by (rule quiet_trans [OF _ quiet_record])
  qed simp
  ultimately show ?thesis
    using Some unfolding handleResponse_def Let_def by (auto intro: quiet_trans [OF _ quiet_graceful])
qed (simp add: handleResponse_def Let_def)

lemma quiet_message: "tidy h \<Longrightarrow> quiet h (onMessage_h cfg env msg h)"
  by (simp add: onMessage_h_def quiet_push quiet_response)

lemma quiet_turns: "tidy h \<Longrightarrow> quiet h (adapter_turns cfg env ts h)"
proof (induction ts arbitrary: h)
  case (Cons t ts)
  have "quiet h (case t of Adapter_Says msg \<Rightarrow> onMessage_h cfg env msg h
      | Adapter_Breaks reason \<Rightarrow> failTransport env reason h)" (is "quiet h ?n")
    using Cons.prems by (cases t) (simp_all add: quiet_message quiet_failTransport)
  moreover from this have "quiet ?n (adapter_turns cfg env ts ?n)"
    using Cons.IH Cons.prems quiet_tidy by blast
  ultimately have "quiet h (adapter_turns cfg env ts ?n)" by (rule quiet_trans)
  then show ?case by (cases t) simp_all
qed simp

lemma quiet_navigate: "quiet h y \<Longrightarrow> quiet h (navigate_away env y)"
  unfolding navigate_away_def by (intro quiet_into)

lemma quiet_abrupt: "quiet h y \<Longrightarrow> quiet h (dispose_abruptly env y)"
  unfolding dispose_abruptly_def Let_def
  by (cases "hasAdmittedEnqueue y"; simp only: if_True if_False; intro quiet_into; simp)

lemma quiet_closing: "quiet h y \<Longrightarrow> quiet h (y\<lparr>ho_state := St_Disposing, ho_mode := m\<rparr>)"
  "quiet h y \<Longrightarrow> quiet h (y\<lparr>ho_state := St_Disposing\<rparr>)"
  by (erule quiet_trans; simp add: quiet_def book_defs over_def)+

lemma quiet_disposeHost: "quiet h (disposeHost env graceful preserve h)"
  unfolding disposeHost_def Let_def by (intro quiet_if quiet_into quiet_navigate quiet_abrupt quiet_closing)

lemma quiet_settled_disposal: "quiet h (adapter_disposed h)"
proof -
  have "quiet x (fold (\<lambda>k. add_job (Disposal_Reaction k)) ks x)" for x ks
  proof (induction ks arbitrary: x)
    case (Cons k ks)
    have "quiet x (add_job (Disposal_Reaction k) x)" by (simp add: quiet_def add_job_def book_defs)
    then show ?case using Cons.IH quiet_trans by simp
  qed simp
  moreover have "quiet h (h\<lparr>ho_disposal := Some True, ho_after := []\<rparr>)" by (intro quiet_into)
  ultimately have "quiet h (fold (\<lambda>k. add_job (Disposal_Reaction k)) (ho_after h)
      (h\<lparr>ho_disposal := Some True, ho_after := []\<rparr>))"
    by (rule quiet_trans [rotated])
  then show ?thesis by (simp add: adapter_disposed_def)
qed

lemma quiet_quarantine: "quiet h (quarantine_settled h)"
proof (cases "ho_quarantines h")
  case (Cons err es)
  have "quiet h (reportFailure err (h\<lparr>ho_quarantines := es\<rparr>))" by (intro quiet_into)
  then show ?thesis using Cons by (simp add: quarantine_settled_def)
qed (simp add: quarantine_settled_def)

lemma quiet_after_reaction: "quiet h (disposal_reaction env k h)"
proof -
  have "ho_state h = St_Disposing \<Longrightarrow> quiet h (h\<lparr>ho_state := St_Disposed\<rparr>)"
    by (simp add: quiet_def book_defs over_def)
  then have "ho_state h = St_Disposing \<Longrightarrow>
      quiet h (finishTelemetry (unregisterPagehide env (h\<lparr>ho_state := St_Disposed\<rparr>)))"
    by (intro quiet_into)
  then show ?thesis by (cases k) (simp_all add: disposal_reaction_def quiet_finish)
qed

lemma quiet_subscribe: "quiet h (subscribe s i h)" "quiet h (unsubscribe s i h)"
  by (cases s; simp add: quiet_def book_defs)+

lemma quiet_emit: "quiet h (emitAffectedKeys ks h)"
  by (simp add: emitAffectedKeys_def quiet_hout)

lemma quiet_recovery: "quiet h (finish_recovery h)"
  unfolding finish_recovery_def by (cases "ho_recovering h"; simp only: if_True if_False)
    (intro quiet_into quiet_trans [OF _ quiet_emit])+

lemma quiet_sampling: "quiet h (startStorageHealthSampling h)"
proof -
  have "quiet h (hout Health_Observed h)" "quiet h (hout (Health_Timer True) ((hout Health_Observed h)\<lparr>ho_health := True\<rparr>))"
    by (intro quiet_into; simp)+
  then show ?thesis by (simp add: startStorageHealthSampling_def Let_def)
qed

lemma quiet_done: "quiet h (handshake_done env h)"
proof (cases "ho_state h = St_Initializing")
  case True
  then have "quiet h (h\<lparr>ho_state := St_Ready, ho_initialization := None\<rparr>)"
    by (simp add: quiet_def book_defs over_def)
  then show ?thesis using True
    by (simp add: handshake_done_def)
      (intro quiet_trans [OF _ quiet_recovery] quiet_trans [OF _ quiet_sampling] quiet_hout_step; simp)
qed (simp add: handshake_done_def)

lemma quiet_failed: "quiet h (handshake_failed env err h)"
  unfolding handshake_failed_def Let_def by (cases "isOwnerEpochLoss err"; simp only: if_True if_False)
    (intro quiet_into quiet_trans [OF _ quiet_failInit])+

end
