(* ===== verification/Host_Books.thy ===== *)
theory Host_Books
  imports Host_Laws
begin

text \<open>
  The books of the host over a run: where every call is, which messages were sent for it, and that
  nothing waits for a handshake that is over.
\<close>

section \<open>Requests\<close>

definition fresh_ids :: "host \<Rightarrow> bool" where
  "fresh_ids h \<longleftrightarrow> tidy h \<and> (\<forall>i \<in> set (List.map fst (ho_pending h)). i < ho_next h)"

lemma slot_ids: "fst ` slots h = set (List.map fst (ho_pending h))"
  by (simp add: slots_def image_image)

lemma quiet_fresh: assumes "quiet h h'" "fresh_ids h" shows "fresh_ids h'"
proof -
  have "set (List.map fst (ho_pending h')) \<subseteq> set (List.map fst (ho_pending h))"
    using assms(1) unfolding slot_ids [symmetric] by (simp add: quiet_def image_mono)
  then show ?thesis using assms by (auto simp: fresh_ids_def quiet_def tidy_def simp del: set_map)
qed

fun init_of :: "settler \<Rightarrow> nat set" where
  "init_of (For_Init n) = {n}"
| "init_of (For_Call c) = {}"

text \<open>A request was asked for: its promise is pending or settled, and it was posted at most once.\<close>

definition asks :: "settler \<Rightarrow> js_fields \<Rightarrow> host \<Rightarrow> host \<Rightarrow> bool" where
  "asks who msg h h' \<longleftrightarrow>
     given h' = given h + mset (call_of who) \<and> init_of who \<subseteq> alive h' \<and>
     (sent h' = sent h \<and> ho_next h \<le> ho_next h' \<or>
      sent h' = sent h @ [(who, wire msg (ho_next h))] \<and> ho_next h < ho_next h' \<and> \<not> over (ho_state h)) \<and>
     ho_waiting h' = ho_waiting h \<and> job_calls h' = job_calls h \<and> ho_calls h' = ho_calls h \<and>
     ho_inits h' = ho_inits h \<and> alive h \<subseteq> alive h' \<and>
     (ho_initialization h' = ho_initialization h \<or> ho_initialization h' = None) \<and>
     (ho_state h' = St_Initializing \<longrightarrow> ho_state h = St_Initializing) \<and>
     (over (ho_state h) \<longrightarrow> over (ho_state h')) \<and> fresh_ids h' \<and> (ho_adapter h \<longrightarrow> ho_adapter h')"

lemma asks_quiet: assumes a: "asks who msg h x" and q: "quiet x y" shows "asks who msg h y"
proof -
  have "ho_initialization y = ho_initialization h \<or> ho_initialization y = None"
    using a q unfolding asks_def quiet_def by metis
  moreover have "alive h \<subseteq> alive y" "init_of who \<subseteq> alive y" using a q unfolding asks_def quiet_def by blast+
  moreover have "fresh_ids y" using a quiet_fresh [OF q] by (simp add: asks_def)
  ultimately show ?thesis using a q unfolding asks_def quiet_def by simp
qed

lemma asks_settled:
  assumes "fresh_ids h" shows "asks who msg h (settle_promise who kind res h)"
proof -
  let ?y = "settle_promise who kind res h"
  have s: "settles who h ?y" by (rule settles_promise)
  have "alive h \<subseteq> alive ?y" "init_of who \<subseteq> alive ?y"
    using s by (cases who; auto simp: settles_def alive_def)+
  moreover have "given ?y = given h + mset (call_of who)" "fresh_ids ?y"
    using s assms by (simp_all add: settles_def given_def pending_calls_def fresh_ids_def tidy_def)
  ultimately show ?thesis using s by (simp add: settles_def asks_def)
qed

definition new_entry :: "host_env \<Rightarrow> js_fields \<Rightarrow> int option \<Rightarrow> settler \<Rightarrow> pending_request" where
  "new_entry env msg op who =
     \<lparr> pr_kind = getp (JObj msg) ''kind'', pr_op = op, pr_admitted = False, pr_started = hv_now env,
       pr_timer = has_timer (getp (JObj msg) ''kind''), pr_for = who \<rparr>"

definition entered :: "host_env \<Rightarrow> js_fields \<Rightarrow> int option \<Rightarrow> settler \<Rightarrow> host \<Rightarrow> host" where
  "entered env msg op who h =
     h\<lparr>ho_next := ho_next h + 1, ho_pending := ho_pending h @ [(ho_next h, new_entry env msg op who)]\<rparr>"

lemma asks_entered:
  assumes "fresh_ids h" "\<not> over (ho_state h)"
  shows "asks who msg h (entered env msg op who h)"
    and "asks who msg h (hout (Adapter_Posted who (wire msg (ho_next h))) (entered env msg op who h))"
proof -
  let ?x = "entered env msg op who h"
  have f: "fresh_ids ?x" using assms(1) by (auto simp: fresh_ids_def tidy_def entered_def)
  have n: "alive h \<subseteq> alive ?x" "init_of who \<subseteq> alive ?x"
    by (cases who; auto simp: entered_def alive_def new_entry_def)+
  have g: "given ?x = given h + mset (call_of who)"
    by (simp add: entered_def given_def book_defs entry_call_def new_entry_def)
  show "asks who msg h ?x"
    using f n g by (simp add: asks_def entered_def sent_def job_calls_def)
  let ?y = "hout (Adapter_Posted who (wire msg (ho_next h))) ?x"
  have "alive ?y = alive ?x" "given ?y = given ?x" "fresh_ids ?y"
    using f by (simp_all add: hout_def alive_def given_def settled_calls_def pending_calls_def fresh_ids_def tidy_def)
  moreover have "sent ?y = sent h @ [(who, wire msg (ho_next h))]"
    by (simp add: hout_def sent_def entered_def)
  ultimately show "asks who msg h ?y"
    using n g assms(2) by (simp add: asks_def) (simp add: entered_def hout_def job_calls_def)
qed

lemma getAdapter_quiet:
  assumes "getAdapter env h = (res, h')"
  shows "quiet h h'" and "ho_pending h' = ho_pending h"
    and "ho_next h' = ho_next h" "ho_state h' = ho_state h" "res = None \<Longrightarrow> ho_adapter h'"
proof -
  define h1 where "h1 = (if ho_relay h then h else hout Relay_Started (h\<lparr>ho_relay := True\<rparr>))"
  have a: "quiet x (hout Adapter_Created (x\<lparr>ho_adapter := True\<rparr>))" for x
    by (simp add: quiet_def hout_def book_defs)
  have b: "quiet x (armPagehide env x)" for x
    by (simp add: quiet_def armPagehide_def book_defs)
  have h1: "quiet h h1" "ho_pending h1 = ho_pending h" "ho_next h1 = ho_next h" "ho_state h1 = ho_state h"
    by (simp_all add: h1_def quiet_def hout_def book_defs)
  have g: "getAdapter env h = (if ho_adapter h then (None, h) else
      case hv_create env of Some err \<Rightarrow> (Some err, h1)
      | None \<Rightarrow> (None, armPagehide env (hout Adapter_Created (h1\<lparr>ho_adapter := True\<rparr>))))"
    unfolding getAdapter_def Let_def h1_def [symmetric] by simp
  show "quiet h h'"
    using assms h1(1) quiet_trans [OF quiet_trans [OF h1(1) a] b] unfolding g by (auto split: if_splits option.splits)
  show "ho_pending h' = ho_pending h" "ho_next h' = ho_next h" "ho_state h' = ho_state h"
      "res = None \<Longrightarrow> ho_adapter h'"
    using assms h1 unfolding g by (auto simp: armPagehide_def hout_def split: if_splits option.splits)
qed

lemma admit_keys: "List.map fst (ho_pending (admit rid h)) = List.map fst (ho_pending h)"
  and admit_entries: "List.map entry_call (ho_pending (admit rid h)) = List.map entry_call (ho_pending h)"
  by (auto simp: admit_def entry_call_def)

lemma quiet_admit: "quiet h (admit rid h)"
proof -
  have "(\<lambda>e. pr_for (snd e)) ` set (ho_pending (admit rid h)) = (\<lambda>e. pr_for (snd e)) ` set (ho_pending h)"
    by (force simp: admit_def image_iff)
  then have "alive (admit rid h) = alive h" by (simp add: alive_def) (simp add: admit_def)
  moreover have "slots (admit rid h) \<subseteq> slots h" by (force simp: slots_def admit_def)
  ultimately show ?thesis
    using admit_keys [of rid h] admit_entries [of rid h]
    by (simp add: quiet_def given_def pending_calls_def) (simp add: admit_def settled_calls_def sent_def job_calls_def)
qed

lemma quiet_legacy: "quiet h (startLegacyIdbDeletion h)"
  by (simp add: quiet_def startLegacyIdbDeletion_def hout_def book_defs)

lemma asks_request:
  assumes f: "fresh_ids h" shows "asks who msg h (host_request cfg env msg op who h)"
proof (cases "over (ho_state h)")
  case True
  then have "host_request cfg env msg op who h = settle_promise who (getp (JObj msg) ''kind'')
      (Inl (if ho_state h = St_Failed then (case ho_init_error h of Some err \<Rightarrow> err | None \<Rightarrow> init_default_error)
        else closed_error)) h"
    unfolding host_request_def over_def Let_def by auto
  then show ?thesis using f by (simp add: asks_settled)
next
  case False
  let ?n = "ho_next h" and ?kind = "getp (JObj msg) ''kind''"
  let ?e = "new_entry env msg op who"
  define h1 where "h1 = entered env msg op who h"
  obtain res g where g: "getAdapter env h1 = (res, g)" by (meson surj_pair)
  obtain turns thrown where t: "hv_post env (wire msg ?n) = (turns, thrown)" by (meson surj_pair)
  define p where "p = hout (Adapter_Posted who (wire msg ?n)) g"
  define h2 where "h2 = (case res of Some err \<Rightarrow> g | None \<Rightarrow> adapter_turns cfg env turns p)"
  define out where "out = (case res of Some err \<Rightarrow> Some err | None \<Rightarrow> thrown)"
  define fail where "fail = (\<lambda>err. recordRequestOutcome env ?e (Some err) (h2\<lparr>ho_pending := AList.delete ?n (ho_pending h2)\<rparr>))"
  have post: "post_adapter cfg env who (wire msg ?n) h1 = (out, h2)"
    by (simp add: post_adapter_def g t out_def h2_def p_def split: option.split)
  have run: "host_request cfg env msg op who h =
      (case out of None \<Rightarrow> admit ?n (startLegacyIdbDeletion h2)
       | Some reason \<Rightarrow>
          if map_of (ho_pending h2) ?n = None then fail (Host_Error reason None)
          else settle_promise who ?kind (Inl (Host_Error reason None)) (fail (Host_Error reason None)))"
    using False post
    by (simp add: host_request_def Let_def over_def h1_def entered_def new_entry_def wire_def fail_def
        split: option.split)
  have 1: "asks who msg h h1" unfolding h1_def using f False by (rule asks_entered)
  have p: "asks who msg h p"
  proof -
    let ?y = "hout (Adapter_Posted who (wire msg ?n)) h1"
    have "asks who msg h ?y" unfolding h1_def using f False by (rule asks_entered)
    moreover have "quiet ?y p"
      using getAdapter_quiet(1) [OF g] unfolding p_def quiet_def
      by (simp add: hout_def book_defs)
    ultimately show ?thesis by (rule asks_quiet)
  qed
  have e2: "asks who msg h h2"
  proof (cases res)
    case None
    have "tidy p" using p by (simp add: asks_def fresh_ids_def)
    then show ?thesis using None p by (simp add: h2_def asks_quiet [OF _ quiet_turns])
  next
    case (Some err)
    then show ?thesis using asks_quiet [OF 1 getAdapter_quiet(1) [OF g]] by (simp add: h2_def)
  qed
  have mine: "pr_for q = who" if q: "map_of (ho_pending h2) ?n = Some q" for q
  proof -
    have "slots h2 \<subseteq> slots h1"
    proof (cases res)
      case None
      have "tidy p" using p by (simp add: asks_def fresh_ids_def)
      then have "quiet p h2" by (simp add: h2_def None quiet_turns)
      moreover have "slots p = slots g" by (simp add: p_def slots_def hout_def)
      ultimately show ?thesis using getAdapter_quiet(1) [OF g] unfolding quiet_def by blast
    qed (use getAdapter_quiet(1) [OF g] in \<open>simp add: h2_def quiet_def\<close>)
    moreover have "(?n, pr_for q) \<in> slots h2"
      using map_of_SomeD [OF q] by (force simp: slots_def)
    ultimately have "(?n, pr_for q) \<in> insert (?n, who) (slots h)"
      by (auto simp: h1_def entered_def slots_def new_entry_def)
    moreover have "(?n, pr_for q) \<notin> slots h"
      using f by (auto simp: fresh_ids_def slots_def)
    ultimately show ?thesis by simp
  qed
  show ?thesis
  proof (cases out)
    case None
    then show ?thesis
      using e2 by (simp add: run asks_quiet [OF asks_quiet [OF _ quiet_legacy] quiet_admit])
  next
    case (Some reason)
    let ?err = "Host_Error reason None"
    show ?thesis
    proof (cases "map_of (ho_pending h2) ?n")
      case None
      then have "AList.delete ?n (ho_pending h2) = ho_pending h2"
        by (simp add: delete_id map_of_eq_None_iff)
      then have "quiet h2 (fail ?err)" by (simp add: fail_def quiet_record)
      then show ?thesis using Some None e2 by (simp add: run asks_quiet)
    next
      case (Some q)
      have "quiet h2 (settle_promise (pr_for q) ?kind (Inl ?err) (fail ?err))"
        by (rule quiet_settles [OF _ Some settles_promise])
          (use e2 in \<open>simp_all add: asks_def fresh_ids_def tidy_def fail_def quiet_record\<close>)
      then show ?thesis using Some \<open>out = Some reason\<close> mine [OF Some] e2 by (simp add: run asks_quiet)
    qed
  qed
qed

section \<open>The invariant\<close>

definition sent_calls :: "host \<Rightarrow> nat list" where
  "sent_calls h = concat (List.map (\<lambda>s. call_of (fst s)) (sent h))"

definition sent_id :: "settler \<times> jsval \<Rightarrow> nat" where
  "sent_id s = the_nat (getp (snd s) ''id'')"

text \<open>A message is the handshake, or the request of an acceptable call.\<close>

definition from_call :: "host_config \<Rightarrow> (api_call \<Rightarrow> bool) \<Rightarrow> settler \<Rightarrow> js_fields \<Rightarrow> bool" where
  "from_call cfg P who msg \<longleftrightarrow>
     (case who of
        For_Init n \<Rightarrow> msg = host_init_request cfg
      | For_Call c \<Rightarrow> \<exists>call. P call \<and> msg = api_message (hc_client cfg) call)"

definition sent_ok :: "host_config \<Rightarrow> (api_call \<Rightarrow> bool) \<Rightarrow> host \<Rightarrow> bool" where
  "sent_ok cfg P h \<longleftrightarrow>
     sorted_wrt (<) (List.map sent_id (sent h)) \<and> (\<forall>s \<in> set (sent h). sent_id s < ho_next h) \<and>
     (\<forall>s \<in> set (sent h). \<exists>msg n. from_call cfg P (fst s) msg \<and> snd s = wire msg n)"

text \<open>
  \<open>xs\<close>: calls in hand; \<open>N\<close>: the handshake whose reaction is running; \<open>M\<close>: what the current
  initialization may be, beside the live ones.
\<close>

definition host_inv ::
  "host_config \<Rightarrow> (api_call \<Rightarrow> bool) \<Rightarrow> nat list \<Rightarrow> nat set \<Rightarrow> nat set \<Rightarrow> host \<Rightarrow> bool" where
  "host_inv cfg P xs N M h \<longleftrightarrow>
     fresh_ids h \<and> sent_ok cfg P h \<and> mset (sent_calls h) \<subseteq># given h \<and>
     held h + mset xs = mset [0..<ho_calls h] \<and>
     (\<forall>w \<in> set (ho_waiting h). P (snd (snd w))) \<and> (\<forall>j \<in> set (job_calls h). P (snd j)) \<and>
     fst ` set (ho_waiting h) \<subseteq> alive h \<union> N \<and>
     (ho_state h = St_Initializing \<longrightarrow> (\<forall>n. ho_initialization h = Some n \<longrightarrow> n \<in> alive h \<union> M))"

lemma inv_fresh: "host_inv cfg P xs N M h \<Longrightarrow> fresh_ids h"
  by (simp add: host_inv_def)

lemma inv_tidy: "host_inv cfg P xs N M h \<Longrightarrow> tidy h"
  by (simp add: host_inv_def fresh_ids_def)

lemma waiting_eq: "ho_waiting h' = ho_waiting h \<Longrightarrow> waiting_calls h' = waiting_calls h"
  by (simp add: waiting_calls_def)

lemma inv_quiet:
  assumes q: "quiet h h'" and i: "host_inv cfg P xs N M h" shows "host_inv cfg P xs N M h'"
proof -
  have "sent_calls h' = sent_calls h" "sent_ok cfg P h' = sent_ok cfg P h" "held h' = held h"
    using q waiting_eq [of h' h] by (simp_all add: quiet_def sent_calls_def sent_ok_def held_def)
  moreover have "fresh_ids h'" using i quiet_fresh [OF q] by (simp add: host_inv_def)
  moreover have "fst ` set (ho_waiting h') \<subseteq> alive h' \<union> N" using q i unfolding quiet_def host_inv_def by auto
  moreover have "n \<in> alive h' \<union> M" if "ho_state h' = St_Initializing" "ho_initialization h' = Some n" for n
    using q i that unfolding quiet_def host_inv_def by (metis Un_iff option.distinct(1) subsetD)
  ultimately show ?thesis using q i unfolding quiet_def host_inv_def by simp
qed

definition no_id :: "js_fields \<Rightarrow> bool" where
  "no_id msg \<longleftrightarrow> map_of msg (js ''id'') = None"

lemma wire_id: "no_id msg \<Longrightarrow> getp (wire msg n) ''id'' = JInt (int n)"
  by (simp add: no_id_def wire_def getp_def map_add_def)

lemma sent_ok_asks:
  assumes a: "asks who msg h h'" and s: "sent_ok cfg P h" and m: "from_call cfg P who msg" "no_id msg"
  shows "sent_ok cfg P h'"
proof -
  let ?s = "(who, wire msg (ho_next h))"
  consider "sent h' = sent h" "ho_next h \<le> ho_next h'" | "sent h' = sent h @ [?s]" "ho_next h < ho_next h'"
    using a by (auto simp: asks_def)
  then show ?thesis
  proof cases
    case 1
    then show ?thesis using s by (auto simp: sent_ok_def)
  next
    case 2
    have "sent_id ?s = ho_next h" by (simp add: sent_id_def wire_id m(2) the_nat_def)
    then show ?thesis using 2 s m(1) by (force simp: sent_ok_def sorted_wrt_append)
  qed
qed

lemma inv_asks:
  assumes a: "asks who msg h h'" and i: "host_inv cfg P (call_of who @ xs) N M h"
    and m: "from_call cfg P who msg" "no_id msg"
  shows "host_inv cfg P xs N M h' \<and> init_of who \<subseteq> alive h'"
proof -
  have "sent_ok cfg P h'" using sent_ok_asks [OF a _ m] i by (simp add: host_inv_def)
  moreover have "mset (sent_calls h') \<subseteq># given h'"
  proof -
    have "mset (sent_calls h') \<subseteq># mset (sent_calls h) + mset (call_of who)"
      using a by (auto simp: asks_def sent_calls_def)
    moreover have "mset (sent_calls h) \<subseteq># given h" using i by (simp add: host_inv_def)
    ultimately show ?thesis using a by (metis asks_def mset_subset_eq_mono_add_right_cancel subset_mset.order_trans)
  qed
  moreover have "held h' + mset xs = mset [0..<ho_calls h']"
    using a i waiting_eq [of h' h] by (simp add: asks_def host_inv_def held_def ac_simps)
  moreover have "fst ` set (ho_waiting h') \<subseteq> alive h' \<union> N" using a i unfolding asks_def host_inv_def by auto
  moreover have "n \<in> alive h' \<union> M" if "ho_state h' = St_Initializing" "ho_initialization h' = Some n" for n
    using a i that unfolding asks_def host_inv_def by (metis Un_iff option.distinct(1) subsetD)
  ultimately show ?thesis using a i unfolding asks_def host_inv_def by simp
qed

lemma inv_requests:
  assumes "host_inv cfg P (call_of who @ xs) N M h" "from_call cfg P who msg" "no_id msg"
  shows "host_inv cfg P xs N M (host_request cfg env msg op who h)"
    and "init_of who \<subseteq> alive (host_request cfg env msg op who h)"
  using inv_asks [OF asks_request [OF inv_fresh [OF assms(1)]] assms] by simp_all

lemma inv_settles:
  "host_inv cfg P (c # xs) N M h \<Longrightarrow> host_inv cfg P xs N M (settle_call c res h)"
  by (simp add: host_inv_def settle_call_def hout_def fresh_ids_def tidy_def sent_ok_def sent_calls_def
      held_def waiting_calls_def book_defs add_mset_commute subset_mset.le_iff_add) (metis union_mset_add_mset_right)

lemma inv_waits:
  assumes "host_inv cfg P (c # xs) N M h" "n \<in> alive h \<union> N" "P call"
  shows "host_inv cfg P xs N M (await_handshake n c call h)"
  using assms
  by (simp add: host_inv_def await_handshake_def fresh_ids_def tidy_def sent_ok_def sent_calls_def
      held_def waiting_calls_def book_defs)

lemma inv_job:
  assumes "host_inv cfg P (c # xs) N M h" "P call"
  shows "host_inv cfg P xs N M (add_job (Resume_Call c call err) h)"
proof -
  have "alive (add_job (Resume_Call c call err) h) = alive h" by (simp add: alive_def add_job_def)
  then show ?thesis
    using assms by (simp add: host_inv_def fresh_ids_def tidy_def sent_ok_def sent_calls_def
      held_def waiting_calls_def given_def) (simp add: add_job_def book_defs)
qed

section \<open>Every event keeps it\<close>

lemma no_id_messages: "no_id (host_init_request cfg)" "no_id (api_message client call)"
  by (simp add: no_id_def host_init_request_def kinded_def)
    (cases call; simp add: no_id_def kinded_def fields_from_def lease_of_def)

lemma inv_start:
  assumes "host_inv cfg P xs N M h"
  shows "host_inv cfg P xs N M' (startInitialization cfg env h)"
    and "ho_inits h \<in> alive (startInitialization cfg env h)"
proof -
  define h1 where "h1 = h\<lparr>ho_state := St_Initializing, ho_replacement_error := None,
    ho_init_started := hv_now env, ho_inits := ho_inits h + 1\<rparr>"
  define h2 where "h2 = host_request cfg env (host_init_request cfg) None (For_Init (ho_inits h)) h1"
  have "host_inv cfg P xs N UNIV h1"
    using assms by (simp add: h1_def host_inv_def fresh_ids_def tidy_def sent_ok_def sent_calls_def held_def
        waiting_calls_def book_defs)
  then have "host_inv cfg P (call_of (For_Init (ho_inits h)) @ xs) N UNIV h1" by simp
  then have i: "host_inv cfg P xs N UNIV h2" and n: "ho_inits h \<in> alive h2"
    unfolding h2_def using inv_requests [of cfg P "For_Init (ho_inits h)"]
    by (force simp: from_call_def no_id_messages)+
  have s: "startInitialization cfg env h = h2\<lparr>ho_initialization := Some (ho_inits h)\<rparr>"
    by (simp add: startInitialization_def h1_def h2_def Let_def)
  show "ho_inits h \<in> alive (startInitialization cfg env h)" using n by (simp add: s alive_def)
  show "host_inv cfg P xs N M' (startInitialization cfg env h)"
    using i n by (simp add: s host_inv_def fresh_ids_def tidy_def sent_ok_def sent_calls_def held_def
        waiting_calls_def book_defs) blast
qed

lemma inv_ensure:
  assumes i: "host_inv cfg P (c # xs) N {} h" and p: "P call" and N: "N = {}"
  shows "host_inv cfg P xs N {} (ensureInitialized cfg env c call h)"
proof -
  have j: "host_inv cfg P xs N {} (add_job (Resume_Call c call r) h)" for r
    using i p by (rule inv_job)
  have "host_inv cfg P xs N {} (await_handshake (the (ho_initialization h)) c call h)"
    if "ho_state h = St_Initializing" "ho_initialization h \<noteq> None"
  proof (rule inv_waits [OF i _ p])
    show "the (ho_initialization h) \<in> alive h \<union> N" using i that by (auto simp: host_inv_def)
  qed
  moreover have "host_inv cfg P xs N {} (await_handshake (ho_inits h) c call (startInitialization cfg env h))"
    by (rule inv_waits [OF inv_start(1) [OF i] _ p]) (simp add: inv_start(2) [OF i])
  ultimately show ?thesis using j unfolding ensureInitialized_def by simp
qed

lemma inv_request_call:
  assumes "host_inv cfg P (c # xs) N M h" "P call"
  shows "host_inv cfg P xs N M (request_call cfg env c call h)"
  using inv_requests(1) [of cfg P "For_Call c" xs N M h "api_message (hc_client cfg) call"] assms
  by (force simp: request_call_def from_call_def no_id_messages)

lemma inv_resume:
  assumes "host_inv cfg P (c # xs) N M h" "P call"
  shows "host_inv cfg P xs N M (resume_call cfg env c call err h)"
  using inv_request_call [OF assms] inv_settles [OF assms(1)]
  by (simp add: resume_call_def split: option.split)

lemma quiet_lists:
  "quiet h (note_active call h)" "quiet h (forget_op k h)"
  by (simp_all add: quiet_def note_active_def forget_op_def book_defs split: option.split)

lemma inv_call:
  assumes i: "host_inv cfg P [] {} {} h"
    and p: "\<And>prepared. prepare_call (hv_wall env) call = Inr prepared \<Longrightarrow> P prepared"
  shows "host_inv cfg P [] {} {} (host_call cfg env call h)"
proof -
  define c where "c = ho_calls h"
  define h1 where "h1 = h\<lparr>ho_calls := c + 1\<rparr>"
  have h1: "host_inv cfg P [c] {} {} h1"
    using i by (simp add: h1_def c_def host_inv_def fresh_ids_def tidy_def sent_ok_def sent_calls_def held_def
        waiting_calls_def book_defs)
  have t: "host_inv cfg P [] {} {} (teardown_call cfg env c k h1)" if "P (Teardown_Op k)" for k
  proof -
    have "host_inv cfg P [c] {} {} (forget_op k h1)" by (rule inv_quiet [OF quiet_lists(2) h1])
    then show ?thesis
      using that by (simp add: teardown_call_def Let_def inv_ensure inv_request_call inv_settles)
  qed
  have e: "host_inv cfg P [] {} {} (ensureInitialized cfg env c q (note_active q h1))" if "P q" for q
    by (rule inv_ensure [OF inv_quiet [OF quiet_lists(1) h1] that refl])
  show ?thesis
  proof (cases "prepare_call (hv_wall env) call")
    case (Inl reason)
    then show ?thesis
      using inv_settles [OF h1] by (simp add: host_call_def Let_def h1_def [symmetric] c_def [symmetric]) (simp add: h1_def c_def)
  next
    case (Inr q)
    then have "host_inv cfg P [] {} {} (case q of Teardown_Op k \<Rightarrow> teardown_call cfg env c k h1
        | _ \<Rightarrow> ensureInitialized cfg env c q (note_active q h1))"
      using p [OF Inr] t e by (cases q) simp_all
    moreover have "host_call cfg env call h = (case q of Teardown_Op k \<Rightarrow> teardown_call cfg env c k h1
        | _ \<Rightarrow> ensureInitialized cfg env c q (note_active q h1))"
      unfolding host_call_def Inr Let_def c_def [symmetric] h1_def [symmetric] by simp
    ultimately show ?thesis by simp
  qed
qed

lemma split_waiting:
  "mset (List.map f xs) = mset (List.map f (filter (\<lambda>w. fst w \<noteq> n) xs)) + mset (List.map f (filter (\<lambda>w. fst w = n) xs))"
  by (induction xs) simp_all

lemma inv_waiters:
  assumes i: "host_inv cfg P [] {n} {} h"
  shows "host_inv cfg P [] {} {} (resume_waiters n res h)"
proof -
  define ws where "ws = filter (\<lambda>w. fst w = n) (ho_waiting h)"
  define h1 where "h1 = h\<lparr>ho_waiting := filter (\<lambda>w. fst w \<noteq> n) (ho_waiting h)\<rparr>"
  have f: "host_inv cfg P [] {} {} (fold (\<lambda>(m, c, call). add_job (Resume_Call c call res)) us g)"
    if "host_inv cfg P (List.map (\<lambda>w. fst (snd w)) us) {} {} g" "\<forall>w \<in> set us. P (snd (snd w))" for us g
    using that
  proof (induction us arbitrary: g)
    case (Cons u us)
    obtain m c call where u: "u = (m, c, call)" by (cases u)
    have "host_inv cfg P (List.map (\<lambda>w. fst (snd w)) us) {} {} (add_job (Resume_Call c call res) g)"
      using Cons.prems by (intro inv_job) (simp_all add: u)
    then show ?case using Cons.IH Cons.prems(2) by (simp add: u)
  qed simp
  have w: "ho_waiting h1 = filter (\<lambda>w. fst w \<noteq> n) (ho_waiting h)" by (simp add: h1_def)
  have "mset (waiting_calls h) = mset (waiting_calls h1) + mset (List.map (\<lambda>w. fst (snd w)) ws)"
    unfolding waiting_calls_def w ws_def by (rule split_waiting)
  then have "held h1 + mset (List.map (\<lambda>w. fst (snd w)) ws) = held h"
    by (simp add: held_def h1_def book_defs ac_simps)
  then have "host_inv cfg P (List.map (\<lambda>w. fst (snd w)) ws) {} {} h1"
    using i by (auto simp: host_inv_def h1_def fresh_ids_def tidy_def sent_ok_def sent_calls_def book_defs)
  moreover have "\<forall>w \<in> set ws. P (snd (snd w))" using i by (simp add: ws_def host_inv_def)
  ultimately have "host_inv cfg P [] {} {} (fold (\<lambda>(m, c, call). add_job (Resume_Call c call res)) ws h1)"
    by (rule f)
  then show ?thesis by (simp only: resume_waiters_def ws_def h1_def)
qed

lemma inv_reaction:
  assumes i: "host_inv cfg P [] {n} {n} h"
  shows "host_inv cfg P [] {} {} (init_reaction env n res h)"
proof -
  let ?g = "case res of None \<Rightarrow> handshake_done env h | Some err \<Rightarrow> handshake_failed env err h"
  have "quiet h ?g" by (simp add: quiet_done quiet_failed split: option.split)
  then have g: "host_inv cfg P [] {n} {n} ?g" using i by (rule inv_quiet)
  have "ho_state ?g = St_Initializing \<longrightarrow> ho_initialization ?g = None"
  proof (cases res)
    case None
    have "quiet (h\<lparr>ho_state := St_Ready, ho_initialization := None\<rparr>) (handshake_done env h)"
      if "ho_state h = St_Initializing"
      using that by (simp add: handshake_done_def)
        (intro quiet_trans [OF _ quiet_recovery] quiet_trans [OF _ quiet_sampling] quiet_hout_step; simp)
    then have "ho_state (handshake_done env h) \<noteq> St_Initializing"
      by (cases "ho_state h = St_Initializing") (auto simp: quiet_def handshake_done_def)
    then show ?thesis using None by simp
  next
    case (Some err)
    have "quiet (h\<lparr>ho_initialization := None\<rparr>) (handshake_failed env err h)"
      unfolding handshake_failed_def Let_def by (intro quiet_if quiet_loss quiet_failInit)
    then show ?thesis using Some by (auto simp: quiet_def)
  qed
  then have "host_inv cfg P [] {n} {} ?g" using g by (auto simp: host_inv_def)
  then show ?thesis unfolding init_reaction_def by (rule inv_waiters)
qed

lemma inv_drop_init:
  assumes "host_inv cfg P [] {} {} h" "ho_jobs h = Init_Reaction n res # rest"
  shows "host_inv cfg P [] {n} {n} (h\<lparr>ho_jobs := rest\<rparr>)"
  using assms by (auto simp: host_inv_def fresh_ids_def tidy_def sent_ok_def sent_calls_def held_def
      waiting_calls_def book_defs)

lemma inv_drop_call:
  assumes "host_inv cfg P [] {} {} h" "ho_jobs h = Resume_Call c call res # rest"
  shows "host_inv cfg P [c] {} {} (h\<lparr>ho_jobs := rest\<rparr>)" "P call"
  using assms by (auto simp: host_inv_def fresh_ids_def tidy_def sent_ok_def sent_calls_def held_def
      waiting_calls_def book_defs)

lemma inv_drop_disposal:
  assumes "host_inv cfg P [] {} {} h" "ho_jobs h = Disposal_Reaction k # rest"
  shows "host_inv cfg P [] {} {} (h\<lparr>ho_jobs := rest\<rparr>)"
  using assms by (auto simp: host_inv_def fresh_ids_def tidy_def sent_ok_def sent_calls_def held_def
      waiting_calls_def book_defs)

lemma inv_run_next:
  assumes "host_inv cfg P [] {} {} h" shows "host_inv cfg P [] {} {} (run_next cfg env h)"
proof (cases "ho_jobs h")
  case (Cons j rest)
  then show ?thesis
  proof (cases j)
    case (Init_Reaction n res)
    then show ?thesis using Cons inv_reaction [OF inv_drop_init [OF assms]] by (simp add: run_next_def)
  next
    case (Resume_Call c call err)
    then show ?thesis using Cons inv_resume [OF inv_drop_call [OF assms]] by (simp add: run_next_def)
  next
    case (Disposal_Reaction k)
    then show ?thesis
      using Cons inv_quiet [OF quiet_after_reaction inv_drop_disposal [OF assms]] by (simp add: run_next_def)
  qed
qed (simp add: run_next_def assms)

lemma inv_replaced:
  assumes i: "host_inv cfg P [] {} {} h" shows "host_inv cfg P [] {} {} (onEngineReplaced_h cfg env epoch h)"
proof -
  define h1 where "h1 = h\<lparr>ho_epoch := epoch\<rparr>"
  define h2 where "h2 = hout (Generation_Notified (ho_generation h1)) h1"
  define g where "g = beginRecoveryGeneration h2"
  define h3 where "h3 = (if ho_state h2 = St_Ready then g\<lparr>ho_reread := markPendingRegistrations g (ho_reread g)\<rparr> else h2)"
  have 1: "quiet h h1" by (simp add: h1_def quiet_def book_defs)
  moreover have "quiet h1 h2" unfolding h2_def by (rule quiet_hout) simp_all
  moreover have "quiet h2 h3"
    by (simp add: h3_def g_def beginRecoveryGeneration_def quiet_def book_defs)
  ultimately have "quiet h h3" by (blast intro: quiet_trans)
  then have "host_inv cfg P [] {} {} h3" by (rule inv_quiet [OF _ i])
  moreover from this have "host_inv cfg P [] {} {} (startInitialization cfg env h3)" by (rule inv_start)
  moreover have "host_inv cfg P [] {} {} h1" using 1 i by (rule inv_quiet)
  ultimately show ?thesis
    using i unfolding onEngineReplaced_h_def Let_def h1_def [symmetric] h2_def [symmetric] g_def [symmetric] h3_def [symmetric]
    by simp
qed

text \<open>The calls a run accepts.\<close>

definition accepts :: "(api_call \<Rightarrow> bool) \<Rightarrow> host_env \<times> host_event \<Rightarrow> bool" where
  "accepts P e \<longleftrightarrow>
     (case snd e of
        Api_Call call \<Rightarrow>
          (case prepare_call (hv_wall (fst e)) call of Inl reason \<Rightarrow> True | Inr prepared \<Rightarrow> P prepared)
      | _ \<Rightarrow> True)"

lemma quiet_events:
  "quiet h (observeStorageHealth probe h)" "quiet h (hout Health_Observed h)"
  "quiet h (disposeHost env gr pr (h\<lparr>ho_listening := False\<rparr>))"
proof -
  show "quiet h (observeStorageHealth probe h)"
    by (simp add: observeStorageHealth_def quiet_hout split: sum.split prod.split)
  show "quiet h (hout Health_Observed h)" by (rule quiet_hout) simp_all
  have "quiet h (h\<lparr>ho_listening := False\<rparr>)" by (simp add: quiet_def book_defs)
  then show "quiet h (disposeHost env gr pr (h\<lparr>ho_listening := False\<rparr>))"
    by (rule quiet_trans [OF _ quiet_disposeHost])
qed

lemma inv_step:
  assumes i: "host_inv cfg P [] {} {} h" and a: "accepts P (env, e)"
  shows "host_inv cfg P [] {} {} (host_act cfg env e h)"
proof (cases e)
  case (Api_Call call)
  then have "\<And>q. prepare_call (hv_wall env) call = Inr q \<Longrightarrow> P q" using a by (simp add: accepts_def)
  then show ?thesis using inv_call [OF i] Api_Call by simp
next
  case (Adapter_Message msg)
  then show ?thesis using inv_quiet [OF quiet_message [OF inv_tidy [OF i]] i] i by simp
next
  case (Request_Timeout rid)
  then show ?thesis using inv_quiet [OF quiet_timeout [OF inv_tidy [OF i]] i] by simp
next
  case (Adapter_Replaced epoch)
  then show ?thesis using inv_replaced [OF i] i by simp
next
  case Run_Job
  then show ?thesis using inv_run_next [OF i] by simp
qed (simp_all add: i inv_quiet [OF quiet_subscribe(1) i] inv_quiet [OF quiet_subscribe(2) i]
    inv_quiet [OF quiet_failTransport i] inv_quiet [OF quiet_settled_disposal i] inv_quiet [OF quiet_quarantine i]
    inv_quiet [OF quiet_events(1) i] inv_quiet [OF quiet_events(2) i] inv_quiet [OF quiet_events(3) i]
    inv_quiet [OF quiet_disposeHost i])

lemma inv_initial: "host_inv cfg P [] {} {} initial_host"
  by (simp add: host_inv_def initial_host_def fresh_ids_def tidy_def sent_ok_def sent_calls_def held_def
      waiting_calls_def book_defs)

end
