(* ===== verification/Host_Ends.thy ===== *)
theory Host_Ends
  imports Host_Books
begin

text \<open>
  The end of a host: what a failed, disposing or disposed host still holds and does, and that its
  queued reactions settle whatever is left.
\<close>

section \<open>Nothing is held after the end\<close>

definition told :: "host \<Rightarrow> bool" where
  "told h \<longleftrightarrow> (\<exists>g p. Adapter_Disposed_Called g p \<in> set (ho_out h))"

definition finishing :: "host \<Rightarrow> bool" where
  "finishing h \<longleftrightarrow>
     Finish_Disposal \<in> set (ho_after h) \<or> Disposal_Reaction Finish_Disposal \<in> set (ho_jobs h)"

definition gone :: "host \<Rightarrow> bool" where
  "gone h \<longleftrightarrow> ho_state h = St_Failed \<or> ho_state h = St_Disposed \<or> ho_disposal_started h \<or> ho_disposal h \<noteq> None"

definition ended :: "host \<Rightarrow> bool" where
  "ended h \<longleftrightarrow>
     (gone h \<longrightarrow> ho_pending h = [] \<and> over (ho_state h)) \<and> (finishing h \<longrightarrow> ho_disposal_started h) \<and>
     (told h \<longrightarrow> ho_disposal h \<noteq> None)"

text \<open>What \<open>ended\<close> reads, kept by the small operations.\<close>

definition parts :: "host \<Rightarrow> host_state \<times> (nat \<times> pending_request) list \<times> bool \<times> bool option \<times> bool \<times> bool" where
  "parts h = (ho_state h, ho_pending h, ho_disposal_started h, ho_disposal h, finishing h, told h)"

lemma ended_parts: "parts h' = parts h \<Longrightarrow> ended h' = ended h"
  by (simp add: parts_def ended_def gone_def)

lemma parts_hout: "(\<And>g p. out \<noteq> Adapter_Disposed_Called g p) \<Longrightarrow> parts (hout out h) = parts h"
  by (simp add: parts_def hout_def told_def finishing_def) (metis)

lemma parts_job: "j \<noteq> Disposal_Reaction Finish_Disposal \<Longrightarrow> parts (add_job j h) = parts h"
  by (auto simp: parts_def add_job_def told_def finishing_def)

lemma parts_fields:
  "parts (h\<lparr>ho_health := b\<rparr>) = parts h" "parts (h\<lparr>ho_finished := b\<rparr>) = parts h"
  "parts (h\<lparr>ho_reported := b\<rparr>) = parts h" "parts (h\<lparr>ho_quarantines := q\<rparr>) = parts h"
  "parts (h\<lparr>ho_mode := m\<rparr>) = parts h" "parts (h\<lparr>ho_listening := b\<rparr>) = parts h"
  "parts (h\<lparr>ho_pagehide := b\<rparr>) = parts h" "parts (h\<lparr>ho_relay := b\<rparr>) = parts h"
  "parts (h\<lparr>ho_adapter := b\<rparr>) = parts h" "parts (h\<lparr>ho_legacy := b\<rparr>) = parts h"
  "parts (h\<lparr>ho_epoch := n\<rparr>) = parts h" "parts (h\<lparr>ho_calls := n\<rparr>) = parts h"
  "parts (h\<lparr>ho_waiting := w\<rparr>) = parts h" "parts (h\<lparr>ho_initialization := i\<rparr>) = parts h"
  "parts (h\<lparr>ho_recovering := b\<rparr>) = parts h" "parts (h\<lparr>ho_lost := l\<rparr>) = parts h"
  "parts (h\<lparr>ho_reread := l\<rparr>) = parts h" "parts (h\<lparr>ho_active := l\<rparr>) = parts h"
  "parts (h\<lparr>ho_registered := l\<rparr>) = parts h" "parts (h\<lparr>ho_affected := u\<rparr>) = parts h"
  "parts (h\<lparr>ho_changed := u\<rparr>) = parts h" "parts (h\<lparr>ho_generation := u\<rparr>) = parts h"
  "parts (h\<lparr>ho_settlement := u\<rparr>) = parts h" "parts (h\<lparr>ho_terminal := b\<rparr>) = parts h"
  "parts (h\<lparr>ho_init_error := e\<rparr>) = parts h" "parts (h\<lparr>ho_next := n\<rparr>) = parts h"
  "parts (h\<lparr>ho_replacement_error := e\<rparr>) = parts h" "parts (h\<lparr>ho_init_started := i'\<rparr>) = parts h"
  "parts (h\<lparr>ho_inits := n\<rparr>) = parts h" "parts (h\<lparr>ho_disposal_graceful := b\<rparr>) = parts h"
  by (simp_all add: parts_def told_def finishing_def)

lemma parts_small:
  "parts (recordRequestOutcome env entry err h) = parts h" "parts (clearSubscribers h) = parts h"
  "parts (unregisterPagehide env h) = parts h" "parts (armPagehide env h) = parts h"
  "parts (stopStorageHealthSampling h) = parts h" "parts (finishTelemetry h) = parts h"
  "parts (reportFailure failure h) = parts h" "parts (settle_promise who kind res h) = parts h"
  "parts (emitAffectedKeys ks h) = parts h" "parts (finish_recovery h) = parts h"
  "parts (startStorageHealthSampling h) = parts h" "parts (handlePush cfg msg h) = parts h"
  "parts (beginRecoveryGeneration h) = parts h" "parts (note_active call h) = parts h"
  "parts (forget_op k h) = parts h" "parts (settle_call c r h) = parts h"
  "parts (observeStorageHealth probe h) = parts h" "parts (startLegacyIdbDeletion h) = parts h"
  by (simp_all add: recordRequestOutcome_def clearSubscribers_def unregisterPagehide_def armPagehide_def
      stopStorageHealthSampling_def finishTelemetry_def reportFailure_def settle_promise_def emitAffectedKeys_def
      finish_recovery_def startStorageHealthSampling_def handlePush_def beginRecoveryGeneration_def note_active_def
      forget_op_def settle_call_def observeStorageHealth_def startLegacyIdbDeletion_def Let_def
      parts_hout parts_job parts_fields split: settler.split sum.split option.split prod.split)


lemma parts_reject: "parts (reject_entry env err uncertain entry h) = parts h"
  by (simp add: reject_entry_def parts_small)

lemma parts_rejectPending:
  "parts (rejectPending env err uncertain h) = parts (h\<lparr>ho_pending := []\<rparr>)"
proof -
  have "parts (fold (\<lambda>e. reject_entry env err uncertain (snd e)) xs g) = parts g" for xs g
    by (induction xs arbitrary: g) (simp_all add: parts_reject)
  then show ?thesis by (simp add: rejectPending_def)
qed

lemma parts_turn: "parts h' = parts h \<Longrightarrow> gone h' = gone h \<and> ho_pending h' = ho_pending h \<and>
    ho_state h' = ho_state h \<and> finishing h' = finishing h \<and> told h' = told h \<and>
    ho_disposal_started h' = ho_disposal_started h \<and> ho_disposal h' = ho_disposal h"
  by (simp add: parts_def gone_def)

section \<open>Disposal\<close>

text \<open>A host that holds nothing and is over may dispose its adapter.\<close>

definition over_empty :: "host \<Rightarrow> bool" where
  "over_empty h \<longleftrightarrow> ho_pending h = [] \<and> over (ho_state h) \<and> (finishing h \<longrightarrow> ho_disposal_started h) \<and>
     (told h \<longrightarrow> ho_disposal h \<noteq> None)"

lemma empty_ended: "over_empty h \<Longrightarrow> ended h"
  by (simp add: over_empty_def ended_def)

lemma ended_empty: "ended h \<Longrightarrow> ho_pending h = [] \<Longrightarrow> over (ho_state h) \<Longrightarrow> over_empty h"
  by (simp add: over_empty_def ended_def)

lemma empty_parts: "parts h' = parts h \<Longrightarrow> over_empty h' = over_empty h"
  by (simp add: over_empty_def parts_def)

lemma empty_disposeAdapter: "over_empty h \<Longrightarrow> over_empty (disposeAdapter env graceful preserve h)"
  by (auto simp: over_empty_def disposeAdapter_def hout_def told_def finishing_def)

lemma empty_after: "over_empty h \<Longrightarrow> ho_disposal_started h \<or> k = Finish_Telemetry \<Longrightarrow> over_empty (after_disposing k h)"
  by (auto simp: over_empty_def after_disposing_def add_job_def told_def finishing_def)

lemma disposeAdapter_started: "ho_disposal_started (disposeAdapter env graceful preserve h) = ho_disposal_started h"
  by (simp add: disposeAdapter_def hout_def)

lemma empty_start: "over_empty h \<Longrightarrow> over_empty (startAdapterDisposal env graceful preserve h)"
  unfolding startAdapterDisposal_def
  by (auto intro!: empty_disposeAdapter empty_after simp: disposeAdapter_started)
    (auto simp: over_empty_def told_def finishing_def)

lemma ended_graceful: "ended h \<Longrightarrow> ended (finishGracefulDisposeIfDrained env h)"
  unfolding finishGracefulDisposeIfDrained_def
  by (auto intro!: empty_ended empty_start ended_empty simp: over_def)

section \<open>Every operation\<close>

lemma ended_failInit: assumes "ended h" shows "ended (failInitialization env err h)"
proof (cases "ho_state h \<in> {St_Failed, St_Disposed, St_Ready}")
  case False
  define h1 where "h1 = hout (Host_Telemetry (host_observation Host_Ready Cat_Initialization Out_Error
    (classifyCacheError (Some (he_message err)))
    (Some (if ho_init_started h > 0 then hv_now env - ho_init_started h else 0)))) h"
  define h2 where "h2 = h1\<lparr>ho_state := St_Failed, ho_initialization := None, ho_init_error := Some err\<rparr>"
  have "over_empty (rejectPending env err False h2)"
  proof -
    have "parts (rejectPending env err False h2) = parts (h2\<lparr>ho_pending := []\<rparr>)" by (rule parts_rejectPending)
    moreover have "over_empty (h2\<lparr>ho_pending := []\<rparr>)"
      using assms by (simp add: h2_def h1_def over_empty_def ended_def over_def hout_def told_def finishing_def)
    ultimately show ?thesis using empty_parts by blast
  qed
  then have "over_empty (unregisterPagehide env (clearSubscribers (rejectPending env err False h2)))"
    using empty_parts parts_small(2,3) by blast
  then have "over_empty (after_disposing Finish_Telemetry
      (disposeAdapter env False False (unregisterPagehide env (clearSubscribers (rejectPending env err False h2)))))"
    by (simp add: empty_after empty_disposeAdapter)
  moreover have "failInitialization env err h = reportFailure err (after_disposing Finish_Telemetry
      (disposeAdapter env False False (unregisterPagehide env (clearSubscribers (rejectPending env err False h2)))))"
    using False unfolding failInitialization_def h1_def h2_def Let_def by auto
  ultimately show ?thesis using empty_ended empty_parts parts_small(7) by metis
qed (simp add: failInitialization_def assms)

lemma ended_failTransport: assumes "ended h" shows "ended (failTransport env reason h)"
proof -
  define h0 where "h0 = stopStorageHealthSampling h"
  let ?err = "Host_Error reason None"
  define h1 where "h1 = h0\<lparr>ho_terminal := True, ho_state := St_Failed, ho_initialization := None,
    ho_init_error := Some ?err\<rparr>"
  define h2 where "h2 = unregisterPagehide env (clearSubscribers (rejectPending env ?err True h1))"
  define h3 where "h3 = after_disposing Finish_Telemetry (disposeAdapter env False False h2)"
  have 0: "ended h0" using assms ended_parts parts_small(5) unfolding h0_def by blast
  have "over_empty (h1\<lparr>ho_pending := []\<rparr>)"
    using 0 by (simp add: h1_def over_empty_def ended_def over_def told_def finishing_def)
  then have "over_empty (rejectPending env ?err True h1)" using empty_parts parts_rejectPending by blast
  then have "over_empty h2" unfolding h2_def using empty_parts parts_small(2,3) by blast
  then have "over_empty h3" unfolding h3_def by (simp add: empty_after empty_disposeAdapter)
  moreover have "parts (hout Scope_Quarantined x) = parts x" for x by (rule parts_hout) simp
  ultimately have "ended (hout Scope_Quarantined (h3\<lparr>ho_quarantines := ho_quarantines h3 @ [?err]\<rparr>))"
    using empty_ended ended_parts parts_fields(4) by metis
  then show ?thesis
    using 0 assms unfolding failTransport_def h0_def [symmetric] h1_def h2_def h3_def Let_def by simp
qed

lemma ended_loss: "ended h \<Longrightarrow> ended (observeOwnerEpochLoss err h)"
  by (auto simp: observeOwnerEpochLoss_def beginRecoveryGeneration_def Let_def ended_def gone_def over_def
      told_def finishing_def)

lemma loss_gone: "gone h \<Longrightarrow> ended h \<Longrightarrow> observeOwnerEpochLoss err h = h"
  by (simp add: observeOwnerEpochLoss_def ended_def)

lemma ended_fewer:
  "ended h \<Longrightarrow> (ho_pending h = [] \<Longrightarrow> ps = []) \<Longrightarrow> ended (h\<lparr>ho_pending := ps\<rparr>)"
  by (auto simp: ended_def gone_def told_def finishing_def)

lemma ended_timeout: assumes "ended h" shows "ended (requestTimedOut env rid h)"
proof -
  have "ended (h\<lparr>ho_pending := AList.delete rid (ho_pending h)\<rparr>)" using assms by (rule ended_fewer) simp
  then have "ended (settle_promise who kind res (recordRequestOutcome env entry err
      (h\<lparr>ho_pending := AList.delete rid (ho_pending h)\<rparr>)))" for who kind res entry err
    by (simp add: ended_parts [OF parts_small(8)] ended_parts [OF parts_small(1)])
  then show ?thesis
    using assms by (auto simp: requestTimedOut_def Let_def intro: ended_graceful split: option.split)
qed

lemma ended_registered: "ended (h\<lparr>ho_registered := r\<rparr>) = ended h"
  by (rule ended_parts) (rule parts_fields)

lemma ended_response: assumes "ended h" shows "ended (handleResponse env msg h)"
proof (cases "map_of (ho_pending h) (the_nat (getp msg ''id''))")
  case (Some entry)
  let ?rid = "the_nat (getp msg ''id'')"
  have s: "ended g \<Longrightarrow> ended (settle_promise who kind res (recordRequestOutcome env entry err g))" for g who kind res err
    by (simp add: ended_parts [OF parts_small(8)] ended_parts [OF parts_small(1)])
  have d: "ended g \<Longrightarrow> ended (g\<lparr>ho_pending := AList.delete ?rid (ho_pending g)\<rparr>)" for g
    by (rule ended_fewer) simp_all
  have r: "ended (h\<lparr>ho_pending := AList.delete ?rid (ho_pending h), ho_registered := r\<rparr>)" for r
    using d [OF assms] ended_registered by blast
  have l: "ended ((observeOwnerEpochLoss err h)\<lparr>ho_pending := AList.delete ?rid (ho_pending h)\<rparr>)" for err
    using d [OF ended_loss [OF assms]] by simp
  show ?thesis
    using Some assms unfolding handleResponse_def Let_def
    by (simp split del: if_split) (auto intro!: ended_graceful s r d l)
qed (simp add: handleResponse_def Let_def assms)

lemma ended_turns: "ended h \<Longrightarrow> ended (adapter_turns cfg env ts h)"
proof (induction ts arbitrary: h)
  case (Cons t ts)
  have "ended (onMessage_h cfg env msg h)" for msg
    using Cons.prems ended_parts [OF parts_small(12)] by (simp add: onMessage_h_def ended_response)
  then show ?case using Cons ended_failTransport by (cases t) simp_all
qed simp

lemma ended_message: "ended h \<Longrightarrow> ended (onMessage_h cfg env msg h)"
  using ended_turns [of h cfg env "[Adapter_Says msg]"] by simp

lemma ended_getAdapter: "ended h \<Longrightarrow> getAdapter env h = (res, h') \<Longrightarrow> ended h'"
proof -
  assume e: "ended h" and g: "getAdapter env h = (res, h')"
  have "parts h' = parts h"
    using g by (auto simp: getAdapter_def Let_def parts_small parts_hout parts_fields split: if_splits option.splits)
  then show "ended h'" using e ended_parts by blast
qed

lemma ended_request: assumes "ended h" shows "ended (host_request cfg env msg op who h)"
proof (cases "over (ho_state h)")
  case True
  have "ended (settle_promise who kind res h)" for kind res
    using assms ended_parts parts_small(8) by blast
  then show ?thesis using True unfolding host_request_def over_def Let_def by auto
next
  case False
  let ?rid = "ho_next h"
  define h1 where "h1 = entered env msg op who h"
  have "ended h1" using assms False by (auto simp: h1_def entered_def ended_def gone_def told_def finishing_def)
  obtain res h2 where p: "post_adapter cfg env who (wire msg ?rid) h1 = (res, h2)" by (meson surj_pair)
  have h2: "ended h2"
  proof -
    obtain r g where g: "getAdapter env h1 = (r, g)" by (meson surj_pair)
    then have "ended g" using \<open>ended h1\<close> ended_getAdapter by blast
    moreover have "ended (hout (Adapter_Posted w m) g) = ended g" for w m
      by (rule ended_parts) (rule parts_hout, simp)
    ultimately show ?thesis
      using p g ended_turns by (auto simp: post_adapter_def split: option.splits prod.splits)
  qed
  have s: "ended (settle_promise who kind r (recordRequestOutcome env entry err g))"
      "ended (recordRequestOutcome env entry err g)" if "ended g" for g kind r entry err
    using that by (simp add: ended_parts [OF parts_small(8)] ended_parts [OF parts_small(1)])+
  have "ended (h2\<lparr>ho_pending := AList.delete ?rid (ho_pending h2)\<rparr>)" using h2 by (rule ended_fewer) simp
  moreover have "ended (admit ?rid (startLegacyIdbDeletion h2))"
  proof -
    have "ended (startLegacyIdbDeletion h2)" using h2 ended_parts parts_small(18) by blast
    then show ?thesis unfolding admit_def by (rule ended_fewer) simp
  qed
  moreover have "host_request cfg env msg op who h =
      (case (res, h2) of (None, h2) \<Rightarrow> admit ?rid (startLegacyIdbDeletion h2)
       | (Some reason, h2) \<Rightarrow>
          let h3 = recordRequestOutcome env (new_entry env msg op who) (Some (Host_Error reason None))
            (h2\<lparr>ho_pending := AList.delete ?rid (ho_pending h2)\<rparr>)
          in if map_of (ho_pending h2) ?rid = None then h3
             else settle_promise who (getp (JObj msg) ''kind'') (Inl (Host_Error reason None)) h3)"
    using False p
    by (simp add: host_request_def Let_def over_def h1_def entered_def new_entry_def wire_def split: option.split)
  ultimately show ?thesis by (simp add: Let_def s split: option.split)
qed

lemma ended_initializing:
  assumes "ended h" "\<not> over (ho_state h)"
  shows "ended (startInitialization cfg env h)"
proof -
  have "ended (h\<lparr>ho_state := St_Initializing, ho_replacement_error := e, ho_init_started := t, ho_inits := n\<rparr>)"
    for e t n using assms by (auto simp: ended_def gone_def over_def told_def finishing_def)
  then show ?thesis
    unfolding startInitialization_def Let_def
    using ended_parts [OF parts_fields(14)] ended_request by blast
qed

lemma ended_job: "ended h \<Longrightarrow> j \<noteq> Disposal_Reaction Finish_Disposal \<Longrightarrow> ended (add_job j h)"
  using ended_parts parts_job by blast

lemma ended_wait: "ended (await_handshake n c call h) = ended h"
  unfolding await_handshake_def by (rule ended_parts) (rule parts_fields)

lemma ended_ensure: assumes "ended h" shows "ended (ensureInitialized cfg env c call h)"
proof -
  have "ended (startInitialization cfg env h)" if "\<not> over (ho_state h)" using ended_initializing assms that .
  then show ?thesis using assms by (simp add: ensureInitialized_def ended_job ended_wait over_def)
qed

lemma ended_calls: "ended h \<Longrightarrow> ended (resume_call cfg env c call err h)" "ended h \<Longrightarrow> ended (host_call cfg env call h)"
proof -
  have s: "ended g \<Longrightarrow> ended (settle_call c r g)" for g c r using ended_parts parts_small(16) by blast
  have r: "ended g \<Longrightarrow> ended (request_call cfg env c call g)" for g c call by (simp add: request_call_def ended_request)
  show "ended h \<Longrightarrow> ended (resume_call cfg env c call err h)"
    by (simp add: resume_call_def s r split: option.split)
  have "ended g \<Longrightarrow> ended (teardown_call cfg env c k g)" for g c k
    using ended_parts [OF parts_small(15)] by (simp add: teardown_call_def Let_def ended_ensure s r)
  moreover have "ended g \<Longrightarrow> ended (ensureInitialized cfg env c q (note_active q g))" for g c q
    using ended_parts [OF parts_small(14)] by (simp add: ended_ensure)
  moreover have "ended h \<Longrightarrow> ended (h\<lparr>ho_calls := n\<rparr>)" for n using ended_parts [OF parts_fields(12)] by blast
  ultimately show "ended h \<Longrightarrow> ended (host_call cfg env call h)"
    by (simp add: host_call_def Let_def s split: sum.split api_call.split)
qed

lemma empty_reject:
  assumes "ended h" "over (ho_state h)" shows "over_empty (rejectPending env err uncertain h)"
proof -
  have "over_empty (h\<lparr>ho_pending := []\<rparr>)"
    using assms by (simp add: over_empty_def ended_def told_def finishing_def)
  then show ?thesis using empty_parts parts_rejectPending by blast
qed

lemma ended_navigate: assumes "ended h" "over (ho_state h)" shows "ended (navigate_away env h)"
proof -
  let ?h1 = "(clearSubscribers h)\<lparr>ho_mode := Some Navigation_Disposal\<rparr>"
  have "parts ?h1 = parts h" by (simp add: parts_fields parts_small)
  then have "ended ?h1" "over (ho_state ?h1)"
    using assms ended_parts [of ?h1 h] parts_turn [of ?h1 h] by simp_all
  then have "over_empty (rejectPending env navigation_error True ?h1)" by (rule empty_reject)
  then show ?thesis unfolding navigate_away_def by (intro empty_ended empty_start)
qed

lemma ended_abrupt: assumes "ended h" "over (ho_state h)" shows "ended (dispose_abruptly env h)"
proof -
  let ?h1 = "(clearSubscribers h)\<lparr>ho_mode := Some Abrupt_Disposal\<rparr>"
  let ?h2 = "if hasAdmittedEnqueue h then hout Scope_Quarantined ?h1 else ?h1"
  have "parts ?h2 = parts h" by (simp add: parts_fields parts_small parts_hout)
  then have "ended ?h2" "over (ho_state ?h2)"
    using assms ended_parts [of ?h2 h] parts_turn [of ?h2 h] by simp_all
  then have "over_empty (rejectPending env abrupt_error True ?h2)" by (rule empty_reject)
  then show ?thesis
    unfolding dispose_abruptly_def Let_def by (intro empty_ended empty_start)
qed

lemma ended_disposeHost: assumes "ended h" shows "ended (disposeHost env graceful preserve h)"
proof -
  let ?h = "stopStorageHealthSampling h"
  have e: "ended ?h" using assms ended_parts parts_small(5) by blast
  have d: "ended (?h\<lparr>ho_state := St_Disposing\<rparr>)" "ended (?h\<lparr>ho_state := St_Disposing, ho_mode := m\<rparr>)" for m
    using e by (auto simp: ended_def gone_def over_def told_def finishing_def)
  have "ended (clearSubscribers (?h\<lparr>ho_state := St_Disposing, ho_mode := m\<rparr>))" for m
    using d(2) ended_parts parts_small(2) by blast
  then show ?thesis
    using e d(1) by (simp add: disposeHost_def Let_def ended_graceful ended_navigate ended_abrupt over_def)
qed

lemma ended_settled_disposal: assumes "ended h" shows "ended (adapter_disposed h)"
proof (cases "ho_disposal h = Some False")
  case True
  have f: "parts (fold (\<lambda>k. add_job (Disposal_Reaction k)) ks g) = (ho_state g, ho_pending g, ho_disposal_started g,
      ho_disposal g, finishing g \<or> Finish_Disposal \<in> set ks, told g)" for ks g
    by (induction ks arbitrary: g) (auto simp: parts_def add_job_def told_def finishing_def)
  show ?thesis
    using assms True f [of "ho_after h" "h\<lparr>ho_disposal := Some True, ho_after := []\<rparr>"]
    by (auto simp: adapter_disposed_def ended_def gone_def parts_def told_def finishing_def)
qed (simp add: adapter_disposed_def assms)

lemma ended_failed: "ended h \<Longrightarrow> ended (handshake_failed env err h)"
  using ended_parts [OF parts_fields(14)]
  by (simp add: handshake_failed_def Let_def ended_loss ended_failInit)

lemma ended_done: assumes "ended h" shows "ended (handshake_done env h)"
proof (cases "ho_state h = St_Initializing")
  case True
  let ?g = "hout (Host_Telemetry (host_observation Host_Ready Cat_Initialization Out_Success Code_None
    (Some (hv_now env - ho_init_started h)))) (h\<lparr>ho_state := St_Ready, ho_initialization := None\<rparr>)"
  have "ended ?g" using assms True by (auto simp: ended_def gone_def over_def told_def finishing_def hout_def)
  then show ?thesis
    using True by (simp add: handshake_done_def ended_parts [OF parts_small(10)] ended_parts [OF parts_small(11)])
qed (simp add: handshake_done_def assms)

lemma ended_waiters: "ended (resume_waiters n res h) = ended h"
proof -
  have "parts (fold (\<lambda>(m, c, call). add_job (Resume_Call c call res)) ws g) = parts g"
    for ws :: "(nat \<times> nat \<times> api_call) list" and g
    by (induction ws arbitrary: g) (auto simp: parts_job)
  then show ?thesis unfolding resume_waiters_def by (intro ended_parts) (simp only: parts_fields)
qed

lemma ended_reaction: "ended h \<Longrightarrow> ended (init_reaction env n res h)"
  by (simp add: init_reaction_def ended_waiters ended_done ended_failed split: option.split)

lemma ended_after_reaction: assumes "ended h" "k = Finish_Disposal \<Longrightarrow> ho_disposal_started h"
  shows "ended (disposal_reaction env k h)"
proof (cases k)
  case Finish_Telemetry
  then show ?thesis using assms(1) by (simp add: disposal_reaction_def ended_parts [OF parts_small(6)])
next
  case Finish_Disposal
  then have "ended (h\<lparr>ho_state := St_Disposed\<rparr>)"
    using assms by (auto simp: ended_def gone_def over_def told_def finishing_def)
  then show ?thesis
    using assms(1) Finish_Disposal
    by (simp add: disposal_reaction_def ended_parts [OF parts_small(3)] ended_parts [OF parts_small(6)])
qed

lemma ended_run_next: assumes "ended h" shows "ended (run_next cfg env h)"
proof (cases "ho_jobs h")
  case (Cons j rest)
  have "ended (h\<lparr>ho_jobs := rest\<rparr>)"
    using assms Cons by (auto simp: ended_def gone_def told_def finishing_def)
  moreover have "j = Disposal_Reaction Finish_Disposal \<Longrightarrow> ho_disposal_started h"
    using assms Cons by (simp add: ended_def finishing_def)
  ultimately show ?thesis
    using Cons by (cases j) (auto simp: run_next_def ended_reaction ended_calls ended_after_reaction)
qed (simp add: run_next_def assms)

lemma ended_replaced: assumes "ended h" shows "ended (onEngineReplaced_h cfg env epoch h)"
proof (cases "over (ho_state h) \<or> epoch \<le> ho_epoch h")
  case False
  define h1 where "h1 = h\<lparr>ho_epoch := epoch\<rparr>"
  define h2 where "h2 = hout (Generation_Notified (ho_generation h1)) h1"
  define g where "g = beginRecoveryGeneration h2"
  define h3 where "h3 = (if ho_state h2 = St_Ready then g\<lparr>ho_reread := markPendingRegistrations g (ho_reread g)\<rparr> else h2)"
  have p: "parts h1 = parts h" "parts h3 = parts h"
    by (simp_all add: h1_def h3_def g_def h2_def parts_fields parts_small parts_hout)
  then have "ended h1" "ended h3" using assms ended_parts by blast+
  moreover have "\<not> over (ho_state h3)" using False parts_turn [OF p(2)] by simp
  ultimately show ?thesis
    using False ended_initializing unfolding onEngineReplaced_h_def Let_def h1_def [symmetric]
      h2_def [symmetric] g_def [symmetric] h3_def [symmetric] by simp
qed (simp add: onEngineReplaced_h_def assms)

lemma ended_subscribe: "ended (subscribe s i h) = ended h" "ended (unsubscribe s i h) = ended h"
  by (cases s; simp; rule ended_parts; rule parts_fields)+

lemma ended_quarantine: "ended h \<Longrightarrow> ended (quarantine_settled h)"
  using ended_parts [OF parts_fields(4)] ended_parts [OF parts_small(7)]
  by (simp add: quarantine_settled_def split: list.split)

lemma ended_step: assumes e: "ended h" shows "ended (host_act cfg env ev h)"
proof -
  have "ended (h\<lparr>ho_listening := False\<rparr>)" using e ended_parts parts_fields(6) by blast
  moreover have "ended (hout Health_Observed h)" "ended (observeStorageHealth probe h)" for probe
    using e by (simp_all add: ended_parts [OF parts_hout] ended_parts [OF parts_small(17)])
  ultimately show ?thesis
    using e by (cases ev) (simp_all add: ended_calls ended_subscribe ended_message ended_failTransport ended_replaced
        ended_timeout ended_settled_disposal ended_quarantine ended_disposeHost ended_run_next)
qed

lemma ended_initial: "ended initial_host"
  by (simp add: initial_host_def ended_def gone_def told_def finishing_def)

interpretation hosts: machine initial_host "host_step cfg" "accepts P"
  "\<lambda>h. host_inv cfg P [] {} {} h \<and> ended h" for cfg P
proof unfold_locales
  show "host_inv cfg P [] {} {} initial_host \<and> ended initial_host" by (simp add: inv_initial ended_initial)
  fix h ev
  assume "host_inv cfg P [] {} {} h \<and> ended h" "accepts P ev"
  then show "host_inv cfg P [] {} {} (snd (host_step cfg ev h)) \<and> ended (snd (host_step cfg ev h))"
    by (simp add: host_step_def inv_step ended_step)
qed

section \<open>An ended host is silent\<close>

definition hush :: "host \<Rightarrow> host \<Rightarrow> bool" where
  "hush h h' \<longleftrightarrow> (over (ho_state h) \<longrightarrow> over (ho_state h') \<and> sent h' = sent h)"

lemma hush_quiet: "quiet h h' \<Longrightarrow> hush h h'"
  by (simp add: hush_def quiet_def)

lemma hush_request: "fresh_ids h \<Longrightarrow> hush h (host_request cfg env msg op who h)"
  using asks_request [of h who msg cfg env op] by (auto simp: hush_def asks_def)

lemma hush_out [simp]: "settled_of out = [c] \<Longrightarrow> posted_of out = [] \<Longrightarrow> hush h (hout out h)"
  by (simp add: hush_def hout_def sent_def)

lemma hush_job: "hush h (add_job j h)"
  by (simp add: hush_def add_job_def sent_def)

lemma hush_trans: "hush a b \<Longrightarrow> hush b c \<Longrightarrow> hush a c"
  by (simp add: hush_def)

lemma hush_ensure: "hush h (ensureInitialized cfg env c call h)"
proof (cases "over (ho_state h)")
  case True
  then show ?thesis by (auto simp: ensureInitialized_def over_def hush_job)
qed (simp add: hush_def)

lemma hush_settle: "hush h (settle_call c r h)"
  by (simp add: settle_call_def hush_def hout_def sent_def)

lemma hush_resume: "fresh_ids h \<Longrightarrow> hush h (resume_call cfg env c call err h)"
  by (simp add: resume_call_def hush_settle request_call_def hush_request split: option.split)

lemma hush_call: assumes "fresh_ids h" shows "hush h (host_call cfg env call h)"
proof -
  define h1 where "h1 = h\<lparr>ho_calls := ho_calls h + 1\<rparr>"
  have 1: "hush h h1" by (simp add: h1_def hush_def sent_def)
  have f: "fresh_ids h1" using assms by (simp add: h1_def fresh_ids_def tidy_def)
  have "hush h1 (teardown_call cfg env c k h1)" for c k
  proof -
    have q: "quiet h1 (forget_op k h1)" by (rule quiet_lists)
    then have "fresh_ids (forget_op k h1)" using f by (rule quiet_fresh)
    then have "hush (forget_op k h1) (teardown_call cfg env c k h1)"
      by (simp add: teardown_call_def Let_def hush_ensure request_call_def hush_request hush_settle)
    then show ?thesis using hush_quiet [OF q] hush_trans by blast
  qed
  moreover have "hush h1 (ensureInitialized cfg env c p (note_active p h1))" for c p
    using hush_trans [OF hush_quiet [OF quiet_lists(1)] hush_ensure] .
  ultimately have "hush h1 (host_call cfg env call h)"
    unfolding host_call_def Let_def h1_def [symmetric] by (simp add: hush_settle split: sum.split api_call.split)
  then show ?thesis using 1 hush_trans by blast
qed

lemma hush_waiters: "hush h (resume_waiters n res h)"
proof -
  have "hush g (fold (\<lambda>(m, c, call). add_job (Resume_Call c call res)) ws g)"
    for ws :: "(nat \<times> nat \<times> api_call) list" and g
    by (induction ws arbitrary: g) (auto simp: hush_def add_job_def sent_def)
  then show ?thesis by (simp add: resume_waiters_def hush_def sent_def)
qed

lemma hush_step:
  assumes f: "fresh_ids h" shows "hush h (host_act cfg env ev h)"
proof (cases ev)
  case (Api_Call call)
  then show ?thesis using f by (simp add: hush_call)
next
  case (Adapter_Replaced epoch)
  then show ?thesis by (cases "over (ho_state h)") (auto simp: onEngineReplaced_h_def hush_def)
next
  case Run_Job
  show ?thesis
  proof (cases "ho_jobs h")
    case (Cons j rest)
    let ?g = "h\<lparr>ho_jobs := rest\<rparr>"
    have 1: "hush h ?g" by (simp add: hush_def sent_def)
    have g: "fresh_ids ?g" using f by (simp add: fresh_ids_def tidy_def)
    have "hush ?g (run_job cfg env j ?g)"
    proof (cases j)
      case (Init_Reaction n res)
      have "hush ?g (case res of None \<Rightarrow> handshake_done env ?g | Some err \<Rightarrow> handshake_failed env err ?g)"
        by (simp add: hush_quiet quiet_done quiet_failed split: option.split)
      then show ?thesis using Init_Reaction hush_trans [OF _ hush_waiters] by (simp add: init_reaction_def)
    qed (simp_all add: hush_resume g hush_quiet quiet_after_reaction)
    then show ?thesis using Run_Job Cons hush_trans [OF 1] by (simp add: run_next_def)
  qed (simp add: Run_Job run_next_def hush_def)
qed (use f in \<open>simp_all add: fresh_ids_def hush_quiet quiet_subscribe quiet_message quiet_failTransport quiet_timeout
    quiet_settled_disposal quiet_quarantine quiet_events quiet_disposeHost\<close>)

section \<open>Draining a closed host\<close>

definition closed :: "host \<Rightarrow> bool" where
  "closed h \<longleftrightarrow> (ho_state h = St_Failed \<or> ho_state h = St_Disposed) \<and> ho_pending h = []"

definition backlog :: "host \<Rightarrow> nat" where
  "backlog h = length (ho_jobs h) + length (ho_waiting h)"

lemma fold_resumes:
  "fold (\<lambda>(m, c, call). add_job (Resume_Call c call res)) ws h =
     h\<lparr>ho_jobs := ho_jobs h @ List.map (\<lambda>(m, c, call). Resume_Call c call res) ws\<rparr>"
  for ws :: "(nat \<times> nat \<times> api_call) list"
  by (induction ws arbitrary: h) (auto simp: add_job_def)

lemma backlog_waiters: "backlog (resume_waiters n res h) = backlog h"
proof -
  have "length (filter (\<lambda>w. fst w = n) ws) + length (filter (\<lambda>w. fst w \<noteq> n) ws) = length ws"
    for ws :: "(nat \<times> nat \<times> api_call) list"
    by (rule sum_length_filter_compl)
  then show ?thesis by (simp add: resume_waiters_def fold_resumes backlog_def)
qed

lemma drain_one:
  assumes c: "closed h" and j: "ho_jobs h = j # rest"
  shows "closed (run_next cfg env h) \<and> backlog h = Suc (backlog (run_next cfg env h)) \<and>
    ho_calls (run_next cfg env h) = ho_calls h"
proof -
  let ?g = "h\<lparr>ho_jobs := rest\<rparr>"
  have g: "closed ?g" "backlog h = Suc (backlog ?g)" using c j by (simp_all add: closed_def backlog_def)
  have s: "closed x \<Longrightarrow> closed (hout out x) \<and> backlog (hout out x) = backlog x \<and> ho_calls (hout out x) = ho_calls x" for x out
    by (simp add: closed_def backlog_def hout_def)
  have q: "closed x \<Longrightarrow> closed (request_call cfg env n call x) \<and> backlog (request_call cfg env n call x) = backlog x \<and>
      ho_calls (request_call cfg env n call x) = ho_calls x" for x n call
    by (auto simp: closed_def request_call_def host_request_def settle_promise_def hout_def backlog_def Let_def)
  have "closed (run_job cfg env j ?g) \<and> backlog (run_job cfg env j ?g) = backlog ?g \<and>
      ho_calls (run_job cfg env j ?g) = ho_calls ?g"
  proof (cases j)
    case (Init_Reaction n res)
    let ?r = "case res of None \<Rightarrow> handshake_done env ?g | Some err \<Rightarrow> handshake_failed env err ?g"
    have "?r = ?g \<or> ?r = ?g\<lparr>ho_initialization := None\<rparr>"
      using g(1) by (auto simp: closed_def handshake_done_def handshake_failed_def Let_def observeOwnerEpochLoss_def
          over_def failInitialization_def split: option.split)
    then have "closed ?r \<and> backlog ?r = backlog ?g \<and> ho_calls ?r = ho_calls ?g" using g(1) by (auto simp: closed_def backlog_def)
    moreover have "closed (resume_waiters n res x) = closed x \<and> ho_calls (resume_waiters n res x) = ho_calls x" for x
      by (simp add: closed_def resume_waiters_def fold_resumes)
    ultimately show ?thesis using Init_Reaction by (simp add: init_reaction_def backlog_waiters)
  next
    case (Resume_Call n call err)
    then show ?thesis using s [OF g(1)] q [OF g(1)] by (simp add: resume_call_def settle_call_def split: option.split)
  next
    case (Disposal_Reaction k)
    have "closed (finishTelemetry ?g) \<and> backlog (finishTelemetry ?g) = backlog ?g \<and>
        ho_calls (finishTelemetry ?g) = ho_calls ?g"
      using g(1) by (simp add: finishTelemetry_def stopStorageHealthSampling_def closed_def backlog_def hout_def)
    then show ?thesis using Disposal_Reaction g(1)
      by (auto simp: disposal_reaction_def closed_def split: after_disposal.split)
  qed
  then show ?thesis using g j by (simp add: run_next_def)
qed

lemma drain_jobs:
  assumes "closed h"
  shows "\<exists>k \<le> backlog h. closed ((run_next cfg env ^^ k) h) \<and> ho_jobs ((run_next cfg env ^^ k) h) = [] \<and>
    ho_calls ((run_next cfg env ^^ k) h) = ho_calls h"
  using assms
proof (induction "backlog h" arbitrary: h)
  case 0
  then show ?case by (intro exI [of _ 0]) (simp add: backlog_def)
next
  case (Suc n)
  show ?case
  proof (cases "ho_jobs h")
    case Nil
    then show ?thesis using Suc.prems by (intro exI [of _ 0]) simp
  next
    case (Cons j rest)
    let ?g = "run_next cfg env h"
    have g: "closed ?g" "backlog h = Suc (backlog ?g)" "ho_calls ?g = ho_calls h"
      using drain_one [OF Suc.prems Cons] by simp_all
    then obtain k where k: "k \<le> backlog ?g" "closed ((run_next cfg env ^^ k) ?g)"
        "ho_jobs ((run_next cfg env ^^ k) ?g) = []" "ho_calls ((run_next cfg env ^^ k) ?g) = ho_calls ?g"
      using Suc.hyps Suc.prems by (metis Suc_inject)
    then show ?thesis using g by (intro exI [of _ "Suc k"]) (simp add: funpow_swap1)
  qed
qed

end
