(* ===== verification/Host_Requests.thy ===== *)
theory Host_Requests
  imports Worker_Host
begin

text \<open>
  The requests of typed calls pass the validator of the page adapter. \<open>typed_call\<close> is what the
  TypeScript types of \<open>CacheHost\<close> say of the arguments, with the number ranges the wire requires;
  record keys and search arguments are checked by the host itself.
\<close>

section \<open>Typed arguments\<close>

definition typed_claim :: "jsval \<Rightarrow> bool" where
  "typed_claim claim \<longleftrightarrow> is_string (getp claim ''owner'') \<and> is_string (getp claim ''generation'')"

definition typed_time :: "jsval \<Rightarrow> bool" where
  "typed_time v \<longleftrightarrow> isSafeNonNegativeInteger v"

definition typed_list :: "jsval \<Rightarrow> bool" where
  "typed_list v \<longleftrightarrow> v = JUndef \<or> is_array v"

fun typed_call :: "api_call \<Rightarrow> bool" where
  "typed_call Current_Revision = True"
| "typed_call (Read_Query args) \<longleftrightarrow>
     operation_fields args \<and> isEntityResolvers (getp args ''entityResolvers'') \<and>
     (getp args ''priority'' = JUndef \<or> getp args ''priority'' = JStr (js ''user-visible''))"
| "typed_call (Read_Records args) \<longleftrightarrow>
     is_string (getp args ''document'') \<and> is_string (getp args ''fragmentName'') \<and> is_array (getp args ''keys'')"
| "typed_call (Search_Cache args) \<longleftrightarrow>
     is_record args \<and> only_keys args [''profile'', ''buckets'', ''query'', ''cursor'', ''limit'', ''nowMs'']"
| "typed_call (Entity_Filter args) \<longleftrightarrow>
     is_record args \<and> only_keys args [''filters'', ''sortMethod'', ''sortDirection'', ''limit''] \<and>
     is_record (getp args ''filters'') \<and>
     getp args ''sortMethod'' \<in>
       set [JStr (js ''CREATED_AT''), JStr (js ''UPDATED_AT''), JStr (js ''VIEWED_AT''), JStr (js ''VIEWED_UPDATED'')] \<and>
     (getp args ''sortDirection'' = JStr (js ''ASC'') \<or> getp args ''sortDirection'' = JStr (js ''DESC'')) \<and>
     isValidCacheSearchLimit (getp args ''limit'')"
| "typed_call (Write_Query args) \<longleftrightarrow>
     operation_fields args \<and> isOptionalString (getp args ''identity'') \<and>
     isEntityResolvers (getp args ''entityResolvers'')"
| "typed_call (Hydrate_Query args) \<longleftrightarrow> operation_fields args \<and> isOptionalString (getp args ''identity'')"
| "typed_call (Enqueue_Mutation args claim) \<longleftrightarrow>
     operation_fields args \<and> typed_list (getp args ''linkPatches'') \<and> typed_list (getp args ''revalidations'') \<and>
     is_string (getp claim ''owner'') \<and> typed_time (getp claim ''nowMs'') \<and>
     typed_time (getp claim ''leaseExpiresAtMs'')"
| "typed_call (Inspect_Variants args) \<longleftrightarrow>
     is_string (getp args ''query'') \<and> isOptionalString (getp args ''operationName'') \<and> isPath (getp args ''path'')"
| "typed_call (Inspect_Query args) \<longleftrightarrow>
     is_string (getp args ''query'') \<and> isOptionalString (getp args ''operationName'') \<and> isPath (getp args ''path'') \<and>
     (getp args ''variableFilters'' = JUndef \<or>
      is_array (getp args ''variableFilters'') \<and> list_all is_record (the_arr (getp args ''variableFilters'')))"
| "typed_call (Claim_Next owner nowMs lease) \<longleftrightarrow> is_string owner \<and> typed_time nowMs \<and> typed_time lease"
| "typed_call (Defer_Write tx claim nextAt err) \<longleftrightarrow>
     is_string tx \<and> typed_claim claim \<and> typed_time nextAt \<and> is_string err"
| "typed_call (Commit_Write tx claim args) \<longleftrightarrow> is_string tx \<and> typed_claim claim \<and> operation_fields args"
| "typed_call (Rollback_Write tx claim err) \<longleftrightarrow> is_string tx \<and> typed_claim claim \<and> is_string err"
| "typed_call (Invalidate_Keys ks) \<longleftrightarrow> isStringArray ks"
| "typed_call (Delete_Records ks) \<longleftrightarrow> isStringArray ks"
| "typed_call (Teardown_Op k) = True"
| "typed_call Clear_Cache = True"

section \<open>Messages\<close>

definition sendable :: "js_string \<Rightarrow> api_call \<Rightarrow> bool" where
  "sendable client call \<longleftrightarrow>
     (\<forall>n. int n \<le> max_safe_integer \<longrightarrow> isCacheRequest (wire (api_message client call) n))"

lemma op_id_string: "isOptionalString (op_id_val client k)"
  by (cases k) (simp_all add: op_id_val_def isOptionalString_def)

lemma op_id_nonempty: "k \<noteq> None \<Longrightarrow> isNonEmptyString (op_id_val client k)"
  by (cases k) (simp_all add: op_id_val_def isNonEmptyString_def opId_def)

lemmas message_defs = kinded_def fields_from_def lease_of_def wire_def

lemmas validator_defs = isCacheRequest_def commonRequest_def kind_is_def isSafeNonNegativeInteger_def
  isNonEmptyString_def

lemma sendable_plain:
  "sendable client Current_Revision" "sendable client Clear_Cache" "sendable client (Teardown_Op k)"
  by (simp_all add: sendable_def message_defs validator_defs isBareRequest_def isTeardownRequest_def)

lemma sendable_reads:
  "typed_call (Read_Query args) \<Longrightarrow> sendable client (Read_Query args)"
  "typed_call (Entity_Filter args) \<Longrightarrow> sendable client (Entity_Filter args)"
  "typed_call (Inspect_Variants args) \<Longrightarrow> sendable client (Inspect_Variants args)"
  "typed_call (Inspect_Query args) \<Longrightarrow> sendable client (Inspect_Query args)"
  by (simp_all add: sendable_def message_defs validator_defs isReadRequest_def operation_fields_def op_id_string
      isEntityFilterRequest_def isInspectVariantsRequest_def isInspectQueryRequest_def)

lemma sendable_writes:
  "typed_call (Hydrate_Query args) \<Longrightarrow> sendable client (Hydrate_Query args)"
  "typed_call (Enqueue_Mutation args claim) \<Longrightarrow> sendable client (Enqueue_Mutation args claim)"
  by (simp_all add: sendable_def message_defs validator_defs isHydrateRequest_def isEnqueueRequest_def
      operation_fields_def op_id_string typed_list_def typed_time_def)

lemma sendable_write:
  assumes "typed_call (Write_Query args)" shows "sendable client (Write_Query args)"
proof -
  have "isWriteRegistration (if registers args then
      JObj [(js ''opId'', op_id_val client (op_key args)), (js ''entityResolvers'', getp args ''entityResolvers'')]
      else JUndef)"
    using assms op_id_nonempty [of "op_key args" client]
    by (simp add: isWriteRegistration_def registers_def only_keys_def getp_def)
  then show ?thesis
    using assms by (simp add: sendable_def message_defs validator_defs isWriteRequest_def operation_fields_def
        op_id_string del: if_split)
qed

lemma sendable_leases:
  "typed_call (Claim_Next owner nowMs lease) \<Longrightarrow> sendable client (Claim_Next owner nowMs lease)"
  "typed_call (Defer_Write tx claim nextAt err) \<Longrightarrow> sendable client (Defer_Write tx claim nextAt err)"
  "typed_call (Commit_Write tx claim args) \<Longrightarrow> sendable client (Commit_Write tx claim args)"
  "typed_call (Rollback_Write tx claim err) \<Longrightarrow> sendable client (Rollback_Write tx claim err)"
  by (simp_all add: sendable_def message_defs validator_defs isClaimRequest_def isDeferRequest_def isCommitRequest_def
      isRollbackRequest_def lease_fields_def operation_fields_def typed_claim_def typed_time_def)

lemma sendable_keys:
  "typed_call (Invalidate_Keys ks) \<Longrightarrow> sendable client (Invalidate_Keys ks)"
  "typed_call (Delete_Records ks) \<Longrightarrow> sendable client (Delete_Records ks)"
  by (simp_all add: sendable_def message_defs validator_defs isKeysRequest_def)

lemma sendable_records:
  assumes "typed_call (Read_Records args)" "validateRecordSelectionKeys (the_arr (getp args ''keys'')) = Inr ks"
  shows "sendable client (Read_Records args)"
proof -
  have "int (length (the_arr (getp args ''keys''))) \<le> MAX_RECORD_SELECTION_PAGE_SIZE"
      "list_all isValidNormalizedRecordKey (the_arr (getp args ''keys''))"
    using assms(2) by (auto simp: validateRecordSelectionKeys_def list_all_iff list_ex_iff split: if_splits)
  then show ?thesis
    using assms(1) by (simp add: sendable_def message_defs validator_defs isReadRecordsRequest_def)
qed

lemma sendable_search:
  assumes "isSearchRequest r" shows "sendable client (Search_Cache r)"
  using assms by (simp add: sendable_def message_defs validator_defs isSearchCacheRequest_def)

lemma validated_search:
  assumes "validateCacheSearchArgs now args = Inr r" "typed_call (Search_Cache args)"
  shows "isSearchRequest r"
proof -
  define query where "query = or_default (getp args ''query'') (JStr [])"
  define buckets where "buckets = or_default (getp args ''buckets'') (JArr [])"
  define nowMs where "nowMs = or_default (getp args ''nowMs'') (JInt now)"
  have ok: "isValidCacheSearchProfile (getp args ''profile'')" "isValidCacheSearchLimit (getp args ''limit'')"
    "isValidCacheSearchQuery query" "is_array buckets" "list_all isValidCacheSearchBucket (the_arr buckets)"
    "isValidCacheSearchNowMs nowMs"
    "getp args ''cursor'' = JUndef \<or> isValidCacheSearchCursor (getp args ''cursor'')"
    and r: "r = JObj (AList.update (js ''nowMs'') nowMs (AList.update (js ''buckets'') buckets
        (AList.update (js ''query'') query (own_fields args))))"
    using assms(1) unfolding validateCacheSearchArgs_def Let_def
    by (auto simp: query_def buckets_def nowMs_def list_ex_iff list_all_iff split: if_splits)
  have get: "getp r ''profile'' = getp args ''profile''" "getp r ''limit'' = getp args ''limit''"
    "getp r ''cursor'' = getp args ''cursor''" "getp r ''query'' = query" "getp r ''buckets'' = buckets"
    "getp r ''nowMs'' = nowMs"
    by (simp_all add: r) (simp_all add: getp_def)
  have "only_keys r [''profile'', ''buckets'', ''query'', ''cursor'', ''limit'', ''nowMs'']"
    using assms(2) by (simp add: r) (simp add: only_keys_def)
  then show ?thesis unfolding isSearchRequest_def get using ok by (simp add: r)
qed

lemma typed_sendable:
  assumes "typed_call call" "prepare_call now call = Inr prepared"
  shows "sendable client prepared"
proof (cases call)
  case (Read_Records args)
  then show ?thesis using assms sendable_records by (auto split: sum.splits)
next
  case (Search_Cache args)
  then show ?thesis using assms sendable_search validated_search by (auto split: sum.splits)
qed (use assms sendable_plain sendable_reads sendable_writes sendable_write sendable_leases sendable_keys in auto)

lemma init_sendable:
  assumes "hc_scope cfg \<noteq> []" "isOptionalPositiveInteger (hc_hot cfg)" "int n \<le> max_safe_integer"
  shows "isCacheRequest (wire (host_init_request cfg) n)"
  using assms by (simp add: host_init_request_def message_defs validator_defs isInitRequest_def)

end
