(* ===== verification/Host_Recovery.thy ===== *)
theory Host_Recovery
  imports Host_Ends Host_Requests
begin

text \<open>
  The recovery of the host after an owner loss, step by step: the refused call, the replacement, the
  handshake's answer and its reaction, with what subscribers are told.
\<close>

section \<open>Messages and calls\<close>

definition plain_env :: host_env where
  "plain_env = \<lparr> hv_now = 1, hv_wall = 1, hv_create = None, hv_post = (\<lambda>_. ([], None)),
     hv_dispose_throws = False, hv_events = True \<rparr>"

definition sample_read :: jsval where "sample_read = JObj [(js ''opKey'', JInt 7), (js ''query'', JStr (js ''q''))]"

definition host_answer :: "nat \<Rightarrow> jsval" where
  "host_answer n = JObj [(js ''id'', JInt (int n)), (js ''ok'', JBool True), (js ''result'', JNull)]"

lemma sample_read_op: "op_key sample_read = Some 7"
  by (simp add: sample_read_def op_key_def the_opt_def)

lemma host_answer_facts:
  assumes "int n \<le> max_safe_integer"
  shows "isCachePush (host_answer n) = False" "isCacheResponse (host_answer n)" "the_nat (getp (host_answer n) ''id'') = n"
    "getp (host_answer n) ''ok'' = JBool True" 
  using assms by (simp_all add: host_answer_def isCachePush_def isCacheResponse_def the_nat_def)

fun notified_of :: "host_output \<Rightarrow> int list list" where
  "notified_of (Affected_Notified subs ks) = [ks]"
| "notified_of _ = []"

definition notified :: "host \<Rightarrow> int list list" where
  "notified h = concat (List.map notified_of (ho_out h))"


text \<open>A host that lost its engine and holds nothing: operation \<open>k\<close> is to be notified.\<close>

definition awaits :: "int \<Rightarrow> host \<Rightarrow> bool" where
  "awaits k h \<longleftrightarrow> ho_state h = St_Awaiting \<and> ho_recovering h \<and> k \<in> set (ho_lost h) \<and> k \<in> set (ho_active h) \<and>
     ho_jobs h = [] \<and> ho_pending h = [] \<and> ho_adapter h"

definition replacing :: "int \<Rightarrow> nat \<Rightarrow> host \<Rightarrow> bool" where
  "replacing k n h \<longleftrightarrow> ho_state h = St_Initializing \<and> ho_recovering h \<and> k \<in> set (ho_lost h) \<and> k \<in> set (ho_active h) \<and>
     ho_jobs h = [] \<and> (\<exists>q m. ho_pending h = [(n, q)] \<and> pr_for q = For_Init m \<and> pr_op q = None) \<and> ho_adapter h"

lemma kind_of: "getp (JObj (host_init_request cfg)) ''kind'' = JStr (js ''init'')"
  by (simp add: host_init_request_def kinded_def getp_def)

lemma notified_hout [simp]: "notified (hout out h) = notified h @ notified_of out"
  by (simp add: notified_def hout_def)

lemma replaced_starts:
  fixes cfg
  assumes "awaits k h" "ho_epoch h < e"
  defines "h' \<equiv> host_act cfg plain_env (Adapter_Replaced e) h"
  shows "replacing k (ho_next h) h'" "ho_reread h' = ho_reread h" "notified h' = notified h" "ho_registered h' = ho_registered h"
  using assms by (simp_all add: awaits_def replacing_def onEngineReplaced_h_def over_def startInitialization_def
      host_request_def post_adapter_def getAdapter_def plain_env_def admit_def startLegacyIdbDeletion_def
      kind_of hout_def Let_def notified_def has_timer_def)

lemma answer_reaction:
  fixes cfg
  assumes "replacing k n h" "int n \<le> max_safe_integer"
  defines "h' \<equiv> host_act cfg plain_env (Adapter_Message (host_answer n)) h"
  shows "\<exists>m. ho_jobs h' = [Init_Reaction m None]" "ho_state h' = St_Initializing" "ho_recovering h'"
    "ho_lost h' = ho_lost h" "ho_active h' = ho_active h" "ho_reread h' = ho_reread h" "notified h' = notified h" "ho_registered h' = ho_registered h"
proof -
  obtain q m where q: "ho_pending h = [(n, q)]" "pr_for q = For_Init m" "ho_jobs h = []" "ho_adapter h"
      "ho_state h = St_Initializing" "ho_recovering h" "pr_op q = None"
    using assms(1) by (auto simp: replacing_def)
  define x where "x = recordRequestOutcome plain_env q None (h\<lparr>ho_pending := [], ho_registered :=
    fold set_add (filter (\<lambda>k. k \<in> set (ho_active h)) (registering q)) (ho_registered h)\<rparr>)"
  have h': "h' = add_job (Init_Reaction m None) x"
    using q(1,2,4,5) host_answer_facts [OF assms(2)]
    by (simp add: h'_def onMessage_h_def handleResponse_def Let_def settle_promise_def x_def
        finishGracefulDisposeIfDrained_def recordRequestOutcome_def hout_def add_job_def)
  have "registering q = []" using q by (simp add: registering_def)
  then show "\<exists>m. ho_jobs h' = [Init_Reaction m None]" "ho_state h' = St_Initializing" "ho_recovering h'"
    "ho_lost h' = ho_lost h" "ho_active h' = ho_active h" "ho_reread h' = ho_reread h" "notified h' = notified h"
    "ho_registered h' = ho_registered h"
    using q by (simp_all add: h' add_job_def x_def recordRequestOutcome_def hout_def notified_def)
qed

lemma recovery_ends:
  fixes cfg
  assumes "ho_jobs h = [Init_Reaction m None]" "ho_state h = St_Initializing" "ho_recovering h"
  defines "h' \<equiv> host_act cfg plain_env Run_Job h"
    and "ks \<equiv> filter (\<lambda>k. k \<in> set (ho_active h) \<and> k \<notin> set (ho_reread h)) (ho_lost h)"
  shows "ho_state h' = St_Ready" "ho_active h' = ho_active h" "ho_registered h' = ho_registered h"
    "notified h' = notified h @ (if ks = [] then [] else [ks])"
proof -
  have w: "ho_state (resume_waiters n res x) = ho_state x" "ho_active (resume_waiters n res x) = ho_active x"
    "ho_out (resume_waiters n res x) = ho_out x" "ho_registered (resume_waiters n res x) = ho_registered x" for n res x
    by (simp_all add: resume_waiters_def fold_resumes)
  show "ho_state h' = St_Ready" "ho_active h' = ho_active h" "ho_registered h' = ho_registered h"
    "notified h' = notified h @ (if ks = [] then [] else [ks])"
    using assms(1-3) unfolding h'_def ks_def
    by (simp_all add: run_next_def init_reaction_def w handshake_done_def finish_recovery_def emitAffectedKeys_def
        startStorageHealthSampling_def Let_def hout_def notified_def)
qed

definition acts :: "host_config \<Rightarrow> host_event list \<Rightarrow> host \<Rightarrow> host" where
  "acts cfg evs h = snd (run (host_step cfg) (List.map (Pair plain_env) evs) h)"

lemma acts_simps: "acts cfg [] h = h" "acts cfg (e # evs) h = acts cfg evs (host_act cfg plain_env e h)"
  by (simp_all add: acts_def host_step_def snd_run_Cons del: run.simps(2))

lemma replacement_notifies:
  fixes cfg
  assumes "awaits k h" "ho_epoch h < e" "int (ho_next h) \<le> max_safe_integer"
  defines "h' \<equiv> acts cfg [Adapter_Replaced e, Adapter_Message (host_answer (ho_next h)), Run_Job] h"
  shows "ho_state h' = St_Ready" "k \<in> set (ho_active h')" "ho_registered h' = ho_registered h"
    "\<exists>ks. notified h' = notified h @ ks \<and> (\<exists>l \<in> set ks. k \<in> set l) = (k \<notin> set (ho_reread h))"
proof -
  define g where "g = host_act cfg plain_env (Adapter_Replaced e) h"
  define f where "f = host_act cfg plain_env (Adapter_Message (host_answer (ho_next h))) g"
  have g: "replacing k (ho_next h) g" "ho_reread g = ho_reread h" "notified g = notified h" "ho_registered g = ho_registered h"
    using replaced_starts [OF assms(1,2), of cfg] by (simp_all add: g_def)
  have f: "ho_state f = St_Initializing" "ho_recovering f" "ho_lost f = ho_lost g" "ho_active f = ho_active g"
      "ho_reread f = ho_reread h" "notified f = notified h" "ho_registered f = ho_registered h"
    using answer_reaction [OF g(1) assms(3), of cfg] g by (simp_all add: f_def)
  obtain m where m: "ho_jobs f = [Init_Reaction m None]" using answer_reaction(1) [OF g(1) assms(3), of cfg] by (auto simp: f_def)
  have h': "h' = host_act cfg plain_env Run_Job f" by (simp add: h'_def acts_simps g_def f_def)
  note e = recovery_ends [OF m f(1,2), of cfg, folded h']
  show "ho_state h' = St_Ready" "ho_registered h' = ho_registered h" using e f by simp_all
  show "k \<in> set (ho_active h')" using e f g(1) by (simp add: replacing_def)
  show "\<exists>ks. notified h' = notified h @ ks \<and> (\<exists>l \<in> set ks. k \<in> set l) = (k \<notin> set (ho_reread h))"
    using e(4) f g(1) by (auto simp: replacing_def filter_empty_conv)
qed

lemma refused_reread:
  fixes cfg
  assumes "awaits k h" "op_key args = Some k"
  defines "h' \<equiv> acts cfg [Api_Call (Read_Query args), Run_Job] h"
  shows "awaits k h'" "k \<in> set (ho_reread h')" "notified h' = notified h" "ho_epoch h' = ho_epoch h"
    "ho_next h' = ho_next h" "ho_registered h' = ho_registered h" "\<exists>err. Call_Settled (ho_calls h) (Inl err) \<in> set (ho_out h')"
  using assms(1,2) unfolding h'_def
  by (auto simp: acts_simps awaits_def host_call_def Let_def note_active_def ensureInitialized_def add_job_def
      run_next_def resume_call_def is_teardown_def settle_call_def hout_def notified_def set_add_def)

end
