(* ===== verification/Host_Theorems.thy ===== *)
theory Host_Theorems
  imports Host_Recovery Protocol_Theorems
begin

text \<open>
  The properties of the browser's cache host: every call settles once, nothing is held or sent after
  the end, what a transport failure tells the callers, and what it sends to the page adapter.
\<close>

section \<open>Concrete runs\<close>

definition sample_host_config :: host_config where
  "sample_host_config = \<lparr> hc_client = js ''me'', hc_scope = js ''s'', hc_hot = JUndef \<rparr>"

definition broken_env :: host_env where
  "broken_env = plain_env\<lparr>hv_create := Some (js ''no worker'')\<rparr>"

abbreviation host_after :: "(host_env \<times> host_event) list \<Rightarrow> host" where
  "host_after evs \<equiv> snd (run (host_step sample_host_config) evs initial_host)"

text \<open>A call is made, the adapter cannot be created, and the initialization fails.\<close>

definition failing_run :: "(host_env \<times> host_event) list" where
  "failing_run = [(broken_env, Api_Call Current_Revision), (broken_env, Run_Job)]"

lemma failing_state: "ho_state (host_after failing_run) = St_Failed" "ho_calls (host_after failing_run) = 1"
  by (simp_all add: failing_run_def host_step_def host_call_def ensureInitialized_def initial_host_def
      startInitialization_def host_request_def post_adapter_def getAdapter_def broken_env_def plain_env_def
      await_handshake_def recordRequestOutcome_def settle_promise_def add_job_def hout_def run_next_def
      init_reaction_def handshake_failed_def isOwnerEpochLoss_def failInitialization_def rejectPending_def
      clearSubscribers_def unregisterPagehide_def disposeAdapter_def after_disposing_def reportFailure_def
      resume_waiters_def note_active_def Let_def)

section \<open>Settling\<close>

lemma host_reached:
  "host_inv cfg (\<lambda>_. True) [] {} {} (snd (run (host_step cfg) evs initial_host))"
  "ended (snd (run (host_step cfg) evs initial_host))"
proof -
  have "list_all (accepts (\<lambda>_. True)) evs" by (simp add: list_all_iff accepts_def split: host_event.split sum.split)
  then show "host_inv cfg (\<lambda>_. True) [] {} {} (snd (run (host_step cfg) evs initial_host))"
    "ended (snd (run (host_step cfg) evs initial_host))"
    using hosts.inv_run by blast+
qed

lemma submultiset_distinct:
  assumes "mset xs \<subseteq># mset ys" "distinct ys" shows "distinct xs"
proof -
  obtain zs where "mset ys = mset (xs @ zs)"
    using assms(1) by (metis ex_mset mset_append mset_subset_eq_exists_conv)
  then have "distinct (xs @ zs)" using assms(2) mset_eq_imp_distinct_iff by metis
  then show ?thesis by simp
qed

lemma run_then: "snd (run st (es @ fs) s) = snd (run st fs (snd (run st es s)))"
  by (induction es arbitrary: s) (simp, simp only: append_Cons snd_run_Cons)

text \<open>
  C27: Every call of the host settles at most once and is posted at most once. Over any sequence of
  calls, messages, timeouts, failures and disposals, and whatever the page adapter answers or throws,
  each call made so far is in exactly one place: settled, pending with the adapter, waiting for the
  handshake, or a queued continuation. A posted call is pending or settled, so no mutation is sent
  twice, and the request identifiers are strictly increasing.
\<close>

theorem host_calls_settle_once:
  "let h = snd (run (host_step cfg) evs initial_host);
       places = settled_calls h @ pending_calls h @ waiting_calls h @ List.map fst (job_calls h)
   in distinct places \<and> set places = {..<ho_calls h} \<and>
      distinct (sent_calls h) \<and> set (sent_calls h) \<subseteq> set (settled_calls h) \<union> set (pending_calls h) \<and>
      sorted_wrt (<) (List.map sent_id (sent h))"
proof -
  define h where "h = snd (run (host_step cfg) evs initial_host)"
  let ?places = "settled_calls h @ pending_calls h @ waiting_calls h @ List.map fst (job_calls h)"
  have i: "host_inv cfg (\<lambda>_. True) [] {} {} h" unfolding h_def by (rule host_reached)
  then have m: "mset ?places = mset [0..<ho_calls h]"
    by (simp add: host_inv_def held_def given_def ac_simps)
  then have d: "distinct ?places" using mset_eq_imp_distinct_iff [OF m] by (simp only: distinct_upt)
  have s: "set ?places = {..<ho_calls h}" using mset_eq_setD [OF m] by auto
  have g: "mset (sent_calls h) \<subseteq># mset (settled_calls h @ pending_calls h)"
    using i by (simp add: host_inv_def given_def)
  then have "set (sent_calls h) \<subseteq> set (settled_calls h) \<union> set (pending_calls h)"
    using set_mset_mono by fastforce
  moreover have "distinct (sent_calls h)" using d by (intro submultiset_distinct [OF g]) auto
  moreover have "sorted_wrt (<) (List.map sent_id (sent h))" using i by (simp add: host_inv_def sent_ok_def)
  ultimately show ?thesis using d s by (simp add: Let_def h_def)
qed

lemma run_jobs: "snd (run (host_step cfg) (replicate k (env, Run_Job)) h) = (run_next cfg env ^^ k) h"
  by (induction k arbitrary: h) (simp_all add: host_step_def case_prod_beta Let_def funpow_swap1)

text \<open>
  C28: No call hangs when the host ends. Once the host has failed or was disposed, running the queued
  reactions, at most as many as there are reactions and waiting calls, leaves none and has settled
  every call ever made, each exactly once.
\<close>

theorem ended_host_settles_all:
  assumes "ho_state (snd (run (host_step cfg) evs initial_host)) \<in> {St_Failed, St_Disposed}"
  shows "\<exists>k \<le> backlog (snd (run (host_step cfg) evs initial_host)).
    let h = snd (run (host_step cfg) (evs @ replicate k (env, Run_Job)) initial_host)
    in ho_jobs h = [] \<and>
       mset (settled_calls h) = mset [0..<ho_calls (snd (run (host_step cfg) evs initial_host))]"
proof -
  let ?h = "snd (run (host_step cfg) evs initial_host)"
  have "closed ?h" using assms host_reached(2) [of cfg evs] by (auto simp: closed_def ended_def gone_def)
  then obtain k where k: "k \<le> backlog ?h" "closed ((run_next cfg env ^^ k) ?h)"
      "ho_jobs ((run_next cfg env ^^ k) ?h) = []" "ho_calls ((run_next cfg env ^^ k) ?h) = ho_calls ?h"
    using drain_jobs by blast
  let ?g = "snd (run (host_step cfg) (evs @ replicate k (env, Run_Job)) initial_host)"
  have g: "?g = (run_next cfg env ^^ k) ?h" by (simp add: run_then run_jobs)
  have i: "host_inv cfg (\<lambda>_. True) [] {} {} ?g" by (rule host_reached)
  have "alive ?g = {}" using k g by (simp add: alive_def closed_def)
  then have "ho_waiting ?g = []" using i by (simp add: host_inv_def)
  then have "mset (settled_calls ?g) = mset [0..<ho_calls ?g]"
    using i k g by (simp add: host_inv_def held_def given_def waiting_calls_def book_defs closed_def)
  then show ?thesis using k g by (intro exI [of _ k]) (simp add: Let_def)
qed

theorem ended_host_settles_all_witness:
  "\<exists>k. settled_calls (snd (run (host_step sample_host_config) (failing_run @ replicate k (plain_env, Run_Job)) initial_host)) = [0]"
proof -
  have "mset xs = mset [0..<1] \<Longrightarrow> xs = [0]" for xs :: "nat list" by simp
  then show ?thesis
    using ended_host_settles_all [of sample_host_config failing_run plain_env]
    by (simp add: failing_state Let_def) blast
qed

text \<open>
  C29: After the end the host is silent: once it is failed, disposing or disposed it never leaves these
  states and posts nothing more to the page adapter, whatever is called or received. The adapter is
  told to dispose only when no request is pending, so a graceful disposal cuts off no admitted mutation.
\<close>

theorem ended_host_silent:
  assumes "over (ho_state (snd (run (host_step cfg) evs initial_host)))"
  shows "let h = snd (run (host_step cfg) evs initial_host);
             h' = snd (run (host_step cfg) (evs @ later) initial_host)
         in over (ho_state h') \<and> sent h' = sent h \<and> (told h' \<longrightarrow> ho_pending h' = [])"
proof (induction later rule: rev_induct)
  case Nil
  then show ?case using assms host_reached(2) [of cfg evs] by (simp add: Let_def ended_def gone_def)
next
  case (snoc ev later)
  let ?g = "snd (run (host_step cfg) (evs @ later) initial_host)"
  let ?h = "snd (run (host_step cfg) (evs @ later @ [ev]) initial_host)"
  have "?h = host_act cfg (fst ev) (snd ev) ?g"
    using snd_run_snoc [of "host_step cfg" "evs @ later" ev initial_host] by (simp add: host_step_def)
  moreover have "fresh_ids ?g" using host_reached(1) inv_fresh by blast
  ultimately have "hush ?g ?h" by (simp add: hush_step)
  then show ?case
    using snoc.IH host_reached(2) [of cfg "evs @ later @ [ev]"] by (simp add: Let_def hush_def ended_def gone_def)
qed

theorem ended_host_silent_witness:
  "sent (host_after (failing_run @ [(plain_env, Api_Call Clear_Cache), (plain_env, Run_Job), (plain_env, Run_Job)]))
     = sent (host_after failing_run)"
  using ended_host_silent [of sample_host_config failing_run
      "[(plain_env, Api_Call Clear_Cache), (plain_env, Run_Job), (plain_env, Run_Job)]"]
  by (simp add: failing_state over_def Let_def)

section \<open>Transport failures\<close>

definition grows :: "host \<Rightarrow> host \<Rightarrow> bool" where
  "grows h h' \<longleftrightarrow> set (ho_out h) \<subseteq> set (ho_out h')"

lemma grows_hout: "grows h (hout out h)"
  by (auto simp: grows_def hout_def)

lemma grows_trans: "grows a b \<Longrightarrow> grows b c \<Longrightarrow> grows a c"
  by (auto simp: grows_def)

lemma grows_entry: "grows h (reject_entry env err uncertain entry h)"
  by (auto simp: grows_def reject_entry_def settle_promise_def recordRequestOutcome_def hout_def add_job_def
      split: settler.split)

lemma grows_closing:
  "grows h (clearSubscribers h)" "grows h (unregisterPagehide env h)" "grows h (after_disposing k h)"
  "grows h (disposeAdapter env graceful preserve h)"
  by (auto simp: grows_def clearSubscribers_def unregisterPagehide_def after_disposing_def add_job_def
      disposeAdapter_def hout_def)

text \<open>The verdict of a rejection: admitted enqueues may have taken effect.\<close>

definition verdict :: "host_error \<Rightarrow> bool \<Rightarrow> pending_request \<Rightarrow> host_error" where
  "verdict err uncertain entry = (if uncertain \<and> pr_admitted entry \<and> is_enqueue entry then uncertain_error err else err)"

lemma entry_verdict:
  "pr_for entry = For_Call c \<Longrightarrow>
   Call_Settled c (Inl (verdict err uncertain entry)) \<in> set (ho_out (reject_entry env err uncertain entry h))"
  by (simp add: reject_entry_def settle_promise_def verdict_def hout_def)

lemma rejected_verdicts:
  assumes "e \<in> set xs" "pr_for (snd e) = For_Call c"
  shows "Call_Settled c (Inl (verdict err uncertain (snd e))) \<in>
    set (ho_out (fold (\<lambda>e. reject_entry env err uncertain (snd e)) xs h))"
proof -
  have g: "grows x (fold (\<lambda>e. reject_entry env err uncertain (snd e)) ys x)" for ys x
    by (induction ys arbitrary: x) (simp add: grows_def, simp, rule grows_trans [OF grows_entry])
  show ?thesis using assms(1)
  proof (induction xs arbitrary: h)
    case (Cons x xs)
    then show ?case
    proof (cases "x = e")
      case True
      have "grows (reject_entry env err uncertain (snd e) h)
          (fold (\<lambda>e. reject_entry env err uncertain (snd e)) xs (reject_entry env err uncertain (snd e) h))"
        by (rule g)
      then show ?thesis using entry_verdict [OF assms(2), of err uncertain env h] True by (auto simp: grows_def)
    qed simp
  qed simp
qed

text \<open>
  C30: What a transport failure tells the callers. The first terminal failure of the page adapter rejects
  every pending call at once: an optimistic mutation that was handed to the coordinator is rejected with
  the code that says its outcome is uncertain, every other call with the reason itself. It empties the
  request table, quarantines the scope and leaves the host failed.
\<close>

theorem transport_failure_verdicts:
  assumes "\<not> ho_terminal h" "ho_state h \<noteq> St_Disposed"
    and "e \<in> set (ho_pending h)" "pr_for (snd e) = For_Call c"
  shows "Call_Settled c (Inl (if pr_admitted (snd e) \<and> is_enqueue (snd e)
           then Host_Error (reason @ js '': admitted optimistic enqueue outcome is uncertain'')
             (Some ADMITTED_ENQUEUE_UNCERTAIN_ERROR_CODE)
           else Host_Error reason None)) \<in> set (ho_out (failTransport env reason h)) \<and>
    ho_pending (failTransport env reason h) = [] \<and> Scope_Quarantined \<in> set (ho_out (failTransport env reason h)) \<and>
    ho_state (failTransport env reason h) = St_Failed"
proof -
  let ?err = "Host_Error reason None"
  define h0 where "h0 = stopStorageHealthSampling h"
  define h1 where "h1 = h0\<lparr>ho_terminal := True, ho_state := St_Failed, ho_initialization := None,
    ho_init_error := Some ?err\<rparr>"
  define r where "r = rejectPending env ?err True h1"
  define h3 where "h3 = after_disposing Finish_Telemetry (disposeAdapter env False False
    (unregisterPagehide env (clearSubscribers r)))"
  define y where "y = hout Scope_Quarantined (h3\<lparr>ho_quarantines := ho_quarantines h3 @ [?err]\<rparr>)"
  have s: "ho_state h0 = ho_state h" "ho_pending h0 = ho_pending h"
    using parts_turn [OF parts_small(5) [of h]] by (simp_all add: h0_def)
  have y: "failTransport env reason h = y"
    using assms(1,2) s
    unfolding failTransport_def h0_def [symmetric] h1_def [symmetric] r_def [symmetric] h3_def [symmetric] Let_def y_def
    by simp
  have "grows r y" unfolding y_def h3_def
    by (rule grows_trans [OF grows_trans [OF grows_trans [OF grows_trans [OF grows_closing(1) grows_closing(2)]
          grows_closing(4)] grows_closing(3)]]) (auto simp: grows_def hout_def)
  moreover have "Call_Settled c (Inl (verdict ?err True (snd e))) \<in> set (ho_out r)"
    unfolding r_def rejectPending_def using assms(3,4) s by (intro rejected_verdicts) (simp_all add: h1_def)
  ultimately have "Call_Settled c (Inl (verdict ?err True (snd e))) \<in> set (ho_out y)" by (auto simp: grows_def)
  moreover have "ho_pending y = [] \<and> ho_state y = St_Failed"
  proof -
    have "ho_pending (after_disposing k x) = ho_pending x" "ho_state (after_disposing k x) = ho_state x"
      "ho_pending (disposeAdapter env a b x) = ho_pending x" "ho_state (disposeAdapter env a b x) = ho_state x" for k x a b
      by (simp_all add: after_disposing_def add_job_def disposeAdapter_def hout_def)
    then show ?thesis
      using parts_turn [OF parts_small(2) [of r]] parts_turn [OF parts_small(3) [of env "clearSubscribers r"]]
      by (simp add: y_def hout_def h3_def r_def h1_def)
  qed
  moreover have "Scope_Quarantined \<in> set (ho_out y)" by (simp add: y_def hout_def)
  ultimately show ?thesis by (auto simp: y verdict_def uncertain_error_def split: if_splits)
qed

definition admitted_enqueue :: pending_request where
  "admitted_enqueue = \<lparr> pr_kind = JStr (js ''enqueue-optimistic-mutation''), pr_op = None, pr_admitted = True,
     pr_started = 0, pr_timer = False, pr_for = For_Call 4 \<rparr>"

theorem transport_failure_verdicts_witness:
  "Call_Settled 4 (Inl (Host_Error (js ''gone'' @ js '': admitted optimistic enqueue outcome is uncertain'')
     (Some ADMITTED_ENQUEUE_UNCERTAIN_ERROR_CODE))) \<in>
   set (ho_out (failTransport plain_env (js ''gone'') (initial_host\<lparr>ho_state := St_Ready, ho_pending := [(2, admitted_enqueue)]\<rparr>)))"
  using transport_failure_verdicts [of "initial_host\<lparr>ho_state := St_Ready, ho_pending := [(2, admitted_enqueue)]\<rparr>"
      "(2, admitted_enqueue)" 4 "js ''gone''" plain_env]
  by (simp add: admitted_enqueue_def is_enqueue_def initial_host_def)

section \<open>Requests\<close>






section \<open>Recovery\<close>

text \<open>
  A read that is refused while the host awaits a replacement engine still suppresses the
  notification of its operation: \<open>replacementReadOpKeys\<close> takes the key before the wait for the handshake
  throws. After the replacement is ready the operation is active, has no registered dependencies, and is
  not told to re-execute; without that read it would have been.
\<close>

theorem lost_reread_not_notified:
  assumes "awaits k h" "ho_epoch h < e" "int (ho_next h) \<le> max_safe_integer"
    and "op_key args = Some k" "k \<notin> set (ho_reread h)" "k \<notin> set (ho_registered h)"
  shows "let recovery = [Adapter_Replaced e, Adapter_Message (host_answer (ho_next h)), Run_Job];
             h1 = acts cfg [Api_Call (Read_Query args), Run_Job] h;
             h2 = acts cfg recovery h1;
             g2 = acts cfg recovery h
         in (\<exists>err. Call_Settled (ho_calls h) (Inl err) \<in> set (ho_out h1)) \<and>
            ho_state h2 = St_Ready \<and> k \<in> set (ho_active h2) \<and> k \<notin> set (ho_registered h2) \<and>
            (\<exists>ks. notified h2 = notified h @ ks \<and> \<not> (\<exists>l \<in> set ks. k \<in> set l)) \<and>
            (\<exists>ks. notified g2 = notified h @ ks \<and> (\<exists>l \<in> set ks. k \<in> set l))"
proof -
  define h1 where "h1 = acts cfg [Api_Call (Read_Query args), Run_Job] h"
  note r = refused_reread [OF assms(1,4), of cfg, folded h1_def]
  have "ho_epoch h1 < e" "int (ho_next h1) \<le> max_safe_integer" using r assms(2,3) by simp_all
  note n = replacement_notifies [OF r(1) this, of cfg] and m = replacement_notifies [OF assms(1-3), of cfg]
  show ?thesis
    using r(2,3,5,6,7) n m(4) assms(5,6) unfolding Let_def h1_def [symmetric] by simp
qed

definition waiting_host :: host where
  "waiting_host = initial_host\<lparr>ho_state := St_Awaiting, ho_recovering := True, ho_lost := [7], ho_active := [7],
     ho_adapter := True\<rparr>"

theorem lost_reread_not_notified_witness:
  "ho_state (acts sample_host_config [Adapter_Replaced 2, Adapter_Message (host_answer 1), Run_Job]
     (acts sample_host_config [Api_Call (Read_Query sample_read), Run_Job] waiting_host)) = St_Ready"
  using lost_reread_not_notified [of 7 waiting_host 2 sample_read sample_host_config]
  by (simp add: sample_read_op Let_def waiting_host_def awaits_def initial_host_def max_safe_integer_def)

section \<open>Operations of this client\<close>

lemma starts_with_split: "starts_with s p \<longleftrightarrow> (\<exists>t. s = p @ t)"
  by (induction s p rule: starts_with.induct) auto

lemma minus_unit: "js ''-'' = [45]"
  by (simp add: js_def unit_of_def)

lemma digits_head: "\<not> starts_with (js_nat n) (js ''-'')"
proof -
  obtain u us where c: "js_nat n = u # us" "is_digit u"
    using canonical_show [of n]
    by (cases "js_nat n") (auto simp: canonical_decimal_def js_def is_digit_def unit_of_def split: list.splits)
  have "\<not> is_digit (45 :: code_unit)" by (simp add: is_digit_def)
  then show ?thesis using c by (auto simp: minus_unit)
qed

lemma int_text_value:
  "(if starts_with (int_text k) (js ''-'') then - int (decimal_value (drop 1 (int_text k)))
    else int (decimal_value (int_text k))) = k"
proof (cases "k < 0")
  case True
  then show ?thesis by (simp add: int_text_def starts_with_split minus_unit decimal_value_show)
next
  case False
  then show ?thesis by (simp add: int_text_def decimal_value_show digits_head)
qed

lemma own_key_iff: "own_op_key client s = Some k \<longleftrightarrow> s = opId client k \<and> \<bar>k\<bar> \<le> max_safe_integer"
proof -
  have t: "key_of_text u = Some k \<longleftrightarrow> u = int_text k \<and> \<bar>k\<bar> \<le> max_safe_integer" for u
    using int_text_value [of k] by (auto simp: key_of_text_def Let_def)
  have "starts_with s (client @ js '':'') \<Longrightarrow> s = (client @ js '':'') @ drop (length (client @ js '':'')) s"
    by (auto simp: starts_with_split)
  then show ?thesis by (auto simp: own_op_key_def Let_def t opId_def starts_with_split)
qed

lemma set_of_add: "distinct ys \<Longrightarrow> distinct (fold set_add xs ys) \<and> set (fold set_add xs ys) = set xs \<union> set ys"
  by (induction xs arbitrary: ys) (auto simp: set_add_def)

text \<open>
  A push reaches exactly the operations of this client: the keys delivered are those whose operation id,
  built by \<open>opId\<close>, is among the ids of the push, each once.
\<close>

theorem pushed_keys_exact:
  "distinct (own_op_keys client ids) \<and>
   set (own_op_keys client ids) = {k. opId client k \<in> set ids \<and> \<bar>k\<bar> \<le> max_safe_integer}"
proof -
  let ?xs = "concat (List.map (\<lambda>s. case own_op_key client s of None \<Rightarrow> [] | Some k \<Rightarrow> [k]) ids)"
  have "set ?xs = {k. \<exists>s \<in> set ids. own_op_key client s = Some k}" by (auto split: option.splits)
  then have "set ?xs = {k. opId client k \<in> set ids \<and> \<bar>k\<bar> \<le> max_safe_integer}" by (auto simp: own_key_iff)
  then show ?thesis using set_of_add [of "[]" ?xs] by (simp add: own_op_keys_def set_of_def)
qed

end
