(* ===== verification/Exchange_Effects.thy ===== *)
theory Exchange_Effects
  imports Js_Prelude
begin

text \<open>
  The cache effects of a GraphQL payload
  (\<open>apps/web/src/lib/graphql-cache/exchange/normalized-cache-exchange.ts\<close>): explicit cache deletions
  nested in a response become deletions, the rest becomes writes narrowed to their response paths.
\<close>

section \<open>Deletions\<close>

datatype cache_effect = Write_Effect jsval | Delete_Effect js_string

text \<open>\<open>normalizedEntityKey\<close> (\<open>exchange/optimistic.ts\<close>)\<close>

definition normalizedEntityKey :: "js_string \<Rightarrow> js_string \<Rightarrow> js_string" where
  "normalizedEntityKey typename entity_id = typename @ js '':'' @ entity_id"

definition graphqlCacheDeletionKey :: "jsval \<Rightarrow> js_string option" where
  "graphqlCacheDeletionKey v =
     (if getp v ''__typename'' \<noteq> JStr (js ''GraphqlCacheDeletion'') \<or> \<not> is_string (getp v ''graphqlTypeName'') \<or>
         \<not> is_string (getp v ''entityId'') then None
      else Some (normalizedEntityKey (the_str (getp v ''graphqlTypeName'')) (the_str (getp v ''entityId''))))"

fun containsCacheDeletion :: "jsval \<Rightarrow> bool" where
  "containsCacheDeletion (JArr xs) =
     (graphqlCacheDeletionKey (JArr xs) \<noteq> None \<or> list_ex containsCacheDeletion xs)"
| "containsCacheDeletion (JObj fs) =
     (graphqlCacheDeletionKey (JObj fs) \<noteq> None \<or> list_ex (\<lambda>f. containsCacheDeletion (snd f)) fs)"
| "containsCacheDeletion v = (graphqlCacheDeletionKey v \<noteq> None)"

section \<open>Effects\<close>

definition in_list :: "cache_effect \<Rightarrow> cache_effect" where
  "in_list e = (case e of Write_Effect d \<Rightarrow> Write_Effect (JArr [d]) | Delete_Effect k \<Rightarrow> e)"

text \<open>The fields of the object without deletions, with the effect at its own field.\<close>

definition wrapped :: "js_string \<Rightarrow> js_fields \<Rightarrow> jsval \<Rightarrow> js_fields" where
  "wrapped f fs d =
     concat (List.map (\<lambda>x. if fst x = f then [(f, d)]
       else if containsCacheDeletion (snd x) then [] else [x]) fs)"

definition in_field :: "js_string \<Rightarrow> js_fields \<Rightarrow> cache_effect \<Rightarrow> cache_effect" where
  "in_field f fs e = (case e of Write_Effect d \<Rightarrow> Write_Effect (JObj (wrapped f fs d)) | Delete_Effect k \<Rightarrow> e)"

fun operationCacheEffects :: "jsval \<Rightarrow> cache_effect list" where
  "operationCacheEffects (JArr xs) =
     (case graphqlCacheDeletionKey (JArr xs) of
        Some k \<Rightarrow> [Delete_Effect k]
      | None \<Rightarrow>
          if \<not> containsCacheDeletion (JArr xs) then [Write_Effect (JArr xs)]
          else concat (List.map (\<lambda>x. List.map in_list (operationCacheEffects x)) xs))"
| "operationCacheEffects (JObj fs) =
     (case graphqlCacheDeletionKey (JObj fs) of
        Some k \<Rightarrow> [Delete_Effect k]
      | None \<Rightarrow>
          if \<not> containsCacheDeletion (JObj fs) then [Write_Effect (JObj fs)]
          else concat (List.map (\<lambda>f. if containsCacheDeletion (snd f)
            then List.map (in_field (fst f) fs) (operationCacheEffects (snd f)) else []) fs))"
| "operationCacheEffects v =
     (case graphqlCacheDeletionKey v of Some k \<Rightarrow> [Delete_Effect k] | None \<Rightarrow> [Write_Effect v])"

section \<open>Laws\<close>

text \<open>The deletion keys of a response in wire order.\<close>

fun deletion_keys :: "jsval \<Rightarrow> js_string list" where
  "deletion_keys (JArr xs) = concat (List.map deletion_keys xs)"
| "deletion_keys (JObj fs) =
     (case graphqlCacheDeletionKey (JObj fs) of
        Some k \<Rightarrow> [k] | None \<Rightarrow> concat (List.map (\<lambda>f. deletion_keys (snd f)) fs))"
| "deletion_keys v = []"

fun deleted_key :: "cache_effect \<Rightarrow> js_string list" where
  "deleted_key (Delete_Effect k) = [k]"
| "deleted_key (Write_Effect d) = []"

definition deletes :: "cache_effect list \<Rightarrow> js_string list" where
  "deletes es = concat (List.map deleted_key es)"

lemma only_objects: "own_fields v = [] \<Longrightarrow> graphqlCacheDeletionKey v = None"
  by (simp add: graphqlCacheDeletionKey_def getp_def)

lemma no_key_array [simp]: "graphqlCacheDeletionKey (JArr xs) = None"
  by (rule only_objects) simp

lemma deletes_append [simp]: "deletes (a @ b) = deletes a @ deletes b" "deletes [] = []"
  by (simp_all add: deletes_def)

lemma deletes_wrap [simp]:
  "deletes (List.map in_list es) = deletes es" "deletes (List.map (in_field f fs) es) = deletes es"
  by (induction es) (auto simp: deletes_def in_list_def in_field_def split: cache_effect.splits)

lemma deletes_concat: "deletes (concat ess) = concat (List.map deletes ess)"
  by (induction ess) simp_all

lemma none_deleted: "\<not> containsCacheDeletion v \<Longrightarrow> deletion_keys v = []"
proof (induction v rule: deletion_keys.induct)
  case (1 xs)
  then show ?case by (auto simp: list_ex_iff)
next
  case (2 fs)
  then show ?case by (auto simp: list_ex_iff)
qed simp_all

lemma effects_deletes: "deletes (operationCacheEffects v) = deletion_keys v"
proof (induction v rule: operationCacheEffects.induct)
  case (1 xs)
  show ?case
  proof (cases "containsCacheDeletion (JArr xs)")
    case True
    have "deletes (operationCacheEffects x) = deletion_keys x" if "x \<in> set xs" for x
      using 1 [OF no_key_array] that True by simp
    then show ?thesis using True by (simp add: deletes_concat comp_def cong: map_cong)
  next
    case False
    then show ?thesis using none_deleted [of "JArr xs"] by (simp add: deletes_def)
  qed
next
  case (2 fs)
  show ?case
  proof (cases "graphqlCacheDeletionKey (JObj fs)")
    case None
    show ?thesis
    proof (cases "containsCacheDeletion (JObj fs)")
      case True
      have "deletes (if containsCacheDeletion (snd f) then List.map (in_field (fst f) fs) (operationCacheEffects (snd f)) else [])
          = deletion_keys (snd f)" if "f \<in> set fs" for f
        using 2 [OF None] that True none_deleted [of "snd f"] by simp
      then show ?thesis using None True by (simp add: deletes_concat comp_def cong: map_cong)
    next
      case False
      then show ?thesis using None none_deleted [of "JObj fs"] by (simp add: deletes_def)
    qed
  qed (simp add: deletes_def)
qed (simp_all add: only_objects deletes_def)

text \<open>The fields of an object are distinct, at every depth, as they are in a parsed response.\<close>

fun proper :: "jsval \<Rightarrow> bool" where
  "proper (JArr xs) = list_all proper xs"
| "proper (JObj fs) = (distinct (List.map fst fs) \<and> list_all (\<lambda>f. proper (snd f)) fs)"
| "proper v = True"

definition clean_write :: "cache_effect \<Rightarrow> bool" where
  "clean_write e \<longleftrightarrow> (case e of Write_Effect d \<Rightarrow> \<not> containsCacheDeletion d | Delete_Effect k \<Rightarrow> True)"

lemma contains_key: "containsCacheDeletion v \<Longrightarrow> (\<exists>xs. v = JArr xs) \<or> (\<exists>fs. v = JObj fs)"
  by (cases v) (simp_all add: only_objects)

lemma key_contains: "graphqlCacheDeletionKey v \<noteq> None \<Longrightarrow> containsCacheDeletion v"
  by (cases v) simp_all

lemma write_shape:
  assumes "containsCacheDeletion v" "Write_Effect d \<in> set (operationCacheEffects v)"
  shows "\<not> is_string d"
  using contains_key [OF assms(1)] assms
  by (auto simp: in_list_def in_field_def split: cache_effect.splits option.splits if_splits)

lemma wrapped_fields: "x \<in> set (wrapped f fs d) \<Longrightarrow> x = (f, d) \<or> x \<in> set fs \<and> \<not> containsCacheDeletion (snd x)"
  by (auto simp: wrapped_def split: if_splits)

lemma wrapped_string:
  assumes "distinct (List.map fst fs)" "\<not> is_string d" "is_string (getp (JObj (wrapped f fs d)) k)"
  shows "getp (JObj fs) k = getp (JObj (wrapped f fs d)) k"
proof -
  obtain x where x: "map_of (wrapped f fs d) (js k) = Some x" "is_string x"
    using assms(3) by (auto simp: getp_def split: option.splits)
  then have "(js k, x) \<in> set fs" using wrapped_fields [OF map_of_SomeD [OF x(1)]] assms(2) by auto
  then have "map_of fs (js k) = Some x" using assms(1) by simp
  then show ?thesis using x by (simp add: getp_def)
qed

lemma wrapped_clean:
  assumes "graphqlCacheDeletionKey (JObj fs) = None" "distinct (List.map fst fs)"
    and "\<not> is_string d" "\<not> containsCacheDeletion d"
  shows "\<not> containsCacheDeletion (JObj (wrapped f fs d))"
proof -
  let ?w = "JObj (wrapped f fs d)"
  have "graphqlCacheDeletionKey ?w = None"
  proof (rule ccontr)
    assume "graphqlCacheDeletionKey ?w \<noteq> None"
    then have w: "getp ?w ''__typename'' = JStr (js ''GraphqlCacheDeletion'')" "is_string (getp ?w ''graphqlTypeName'')"
        "is_string (getp ?w ''entityId'')"
      by (auto simp: graphqlCacheDeletionKey_def split: if_splits)
    have "getp (JObj fs) k = getp ?w k" if "is_string (getp ?w k)" for k
      by (rule wrapped_string [OF assms(2,3) that])
    then have "graphqlCacheDeletionKey (JObj fs) \<noteq> None" using w by (simp add: graphqlCacheDeletionKey_def)
    then show False using assms(1) by simp
  qed
  moreover have "\<not> containsCacheDeletion (snd x)" if "x \<in> set (wrapped f fs d)" for x
    using wrapped_fields [OF that] assms(4) by auto
  ultimately show ?thesis by (simp add: list_ex_iff)
qed

lemma effects_clean:
  "proper v \<Longrightarrow> Write_Effect d \<in> set (operationCacheEffects v) \<Longrightarrow> \<not> containsCacheDeletion d"
proof (induction v arbitrary: d rule: operationCacheEffects.induct)
  case (1 xs)
  show ?case
  proof (cases "containsCacheDeletion (JArr xs)")
    case True
    then obtain x d' where x: "x \<in> set xs" "Write_Effect d' \<in> set (operationCacheEffects x)" "d = JArr [d']"
      using 1(3) by (auto simp: in_list_def split: cache_effect.splits)
    then have "\<not> containsCacheDeletion d'" using 1(1) [OF no_key_array] True 1(2) by (auto simp: list_all_iff)
    then show ?thesis using x by simp
  next
    case False
    then show ?thesis using 1(3) by auto
  qed
next
  case (2 fs)
  show ?case
  proof (cases "graphqlCacheDeletionKey (JObj fs)")
    case None
    show ?thesis
    proof (cases "containsCacheDeletion (JObj fs)")
      case True
      then obtain f d' where f: "f \<in> set fs" "containsCacheDeletion (snd f)"
          "Write_Effect d' \<in> set (operationCacheEffects (snd f))" "d = JObj (wrapped (fst f) fs d')"
        using 2(3) None by (auto simp: in_field_def split: cache_effect.splits if_splits)
      have "\<not> containsCacheDeletion d'" using 2(1) [OF None _ f(1) f(2) _ f(3)] True 2(2) f(1) by (simp add: list_all_iff)
      moreover have "\<not> is_string d'" using write_shape [OF f(2,3)] .
      ultimately show ?thesis using wrapped_clean [OF None] 2(2) f(4) by simp
    next
      case False
      then show ?thesis using 2(3) None by auto
    qed
  qed (use 2(3) in simp)
qed (auto simp: only_objects)

lemma wrapped_context:
  assumes "x \<in> set fs" "\<not> containsCacheDeletion (snd x)" "fst x \<noteq> f"
  shows "x \<in> set (wrapped f fs d)"
  using assms by (auto simp: wrapped_def)

lemma effects_context:
  assumes "proper (JObj fs)" "graphqlCacheDeletionKey (JObj fs) = None" "containsCacheDeletion (JObj fs)"
    and "Write_Effect d \<in> set (operationCacheEffects (JObj fs))" "x \<in> set fs" "\<not> containsCacheDeletion (snd x)"
  shows "x \<in> set (own_fields d)"
proof -
  obtain f d' where f: "f \<in> set fs" "containsCacheDeletion (snd f)" "d = JObj (wrapped (fst f) fs d')"
    using assms(2-4) by (auto simp: in_field_def split: cache_effect.splits if_splits)
  moreover have "fst x \<noteq> fst f"
  proof
    assume "fst x = fst f"
    then have "x = f" using assms(1,5) f(1) by (simp add: distinct_map inj_on_def)
    then show False using assms(6) f(2) by simp
  qed
  ultimately show ?thesis using assms(5,6) f(3) by (simp add: wrapped_context)
qed

end
