(* ===== verification/Exchange_Mutations.thy ===== *)
theory Exchange_Mutations
  imports Exchange_Effects Worker_Host
begin

text \<open>
  The mutation half of the urql exchange
  (\<open>apps/web/src/lib/graphql-cache/exchange/normalized-cache-exchange.ts\<close>): durable optimistic
  mutations, the ordered runner of their queue, the settlement of attempts and the cache effects of
  mutation and subscription results. The contexts of operations are those of \<open>exchange/optimistic.ts\<close>.

  Every asynchronous function is a fiber: a stage that names what it awaits, resumed by the event that
  settles it. A promise that is settled already continues at once.
\<close>

section \<open>Operations\<close>

definition nullish :: "jsval \<Rightarrow> bool" where
  "nullish v \<longleftrightarrow> v = JUndef \<or> v = JNull"

record queue_attempt =
  qa_transaction :: js_string
  qa_owner :: js_string
  qa_generation :: js_string
  qa_count :: int

datatype operation_kind = Op_Mutation | Op_Subscription

record operation =
  eo_kind :: operation_kind
  eo_key :: nat
  eo_text :: js_string
  eo_name :: "js_string option"
  eo_variables :: jsval
  eo_context :: jsval
  eo_attempt :: "queue_attempt option"
  eo_timeout :: bool

record optimistic_context =
  oc_response :: jsval
  oc_patches :: "jsval list"
  oc_revalidations :: "jsval list"

definition optimisticContextOf :: "operation \<Rightarrow> optimistic_context option" where
  "optimisticContextOf op =
     (if has_own (eo_context op) ''optimisticResponse'' then
        Some \<lparr> oc_response = getp (eo_context op) ''optimisticResponse'',
          oc_patches = the_arr (getp (eo_context op) ''linkPatches''),
          oc_revalidations = the_arr (getp (eo_context op) ''revalidations'') \<rparr>
      else None)"

datatype disposition = Committed | Queued | Permanently_Failed

record op_result =
  re_data :: jsval
  re_error :: "js_string option"
  re_disposition :: "(disposition \<times> js_string option) option"

record network_result =
  nr_op :: operation
  nr_data :: jsval
  nr_error :: "js_string option"

definition withOptimisticMutationDisposition ::
  "operation \<Rightarrow> disposition \<Rightarrow> js_string option \<Rightarrow> op_result \<Rightarrow> op_result" where
  "withOptimisticMutationDisposition op d tx r =
     (let queued = (case optimisticContextOf op of None \<Rightarrow> JUndef | Some oc \<Rightarrow> oc_response oc) in
      if d = Queued then
        r\<lparr>re_data := (if nullish queued then re_data r else queued), re_error := None, re_disposition := Some (d, tx)\<rparr>
      else r\<lparr>re_disposition := Some (d, tx)\<rparr>)"

definition plain_result :: "network_result \<Rightarrow> op_result" where
  "plain_result r = \<lparr> re_data = nr_data r, re_error = nr_error r, re_disposition = None \<rparr>"

definition queuedMutationResult :: "operation \<Rightarrow> js_string \<Rightarrow> op_result" where
  "queuedMutationResult op tx =
     withOptimisticMutationDisposition op Queued (Some tx)
       \<lparr> re_data = (case optimisticContextOf op of None \<Rightarrow> JUndef | Some oc \<Rightarrow> oc_response oc),
         re_error = None, re_disposition = None \<rparr>"

definition uncertainEnqueueResult :: "host_error \<Rightarrow> op_result" where
  "uncertainEnqueueResult err =
     \<lparr> re_data = JUndef, re_error = Some (js ''[Network] '' @ he_message err), re_disposition = None \<rparr>"

text \<open>The message of a \<open>CombinedError\<close> of \<open>@urql/core\<close> with a network error is \<open>[Network] <message>\<close>.\<close>

definition isAdmittedEnqueueUncertainError :: "host_error \<Rightarrow> bool" where
  "isAdmittedEnqueueUncertainError err \<longleftrightarrow> he_code err = Some ADMITTED_ENQUEUE_UNCERTAIN_ERROR_CODE"

section \<open>Constants and documents\<close>

definition QUEUE_LEASE_MS :: int where "QUEUE_LEASE_MS = 300000"
definition EMPTY_QUEUE_POLL_MS :: int where "EMPTY_QUEUE_POLL_MS = 30000"

definition retryDelayMs :: "int \<Rightarrow> int" where
  "retryDelayMs attemptCount = min (1000 * 2 ^ nat (max 0 (attemptCount - 1))) 60000"

text \<open>A parsed document: its operation definitions, by name, and its other definitions.\<close>

datatype definition_node = Operation_Node "js_string option" | Other_Node

definition is_operation :: "definition_node \<Rightarrow> bool" where
  "is_operation d \<longleftrightarrow> d \<noteq> Other_Node"

definition replayDocument ::
  "(js_string \<Rightarrow> js_string + definition_node list) \<Rightarrow> js_string \<Rightarrow> js_string option \<Rightarrow> js_string + definition_node list" where
  "replayDocument parse query name =
     (case parse query of
        Inl err \<Rightarrow> Inl err
      | Inr defs \<Rightarrow>
          (case name of
             None \<Rightarrow> Inr defs
           | Some n \<Rightarrow>
               if n = [] then Inr defs
               else
                 let kept = filter (\<lambda>d. \<not> is_operation d \<or> d = Operation_Node (Some n)) defs in
                 if \<not> list_ex is_operation kept then
                   Inl (js ''queued GraphQL operation '' @ n @ js '' is missing'')
                 else Inr kept))"

section \<open>State\<close>

record claimed_mutation =
  cl_transaction :: js_string
  cl_generation :: js_string
  cl_query :: js_string
  cl_name :: "js_string option"
  cl_variables :: jsval
  cl_count :: int

definition claimed_of :: "jsval \<Rightarrow> claimed_mutation" where
  "claimed_of v =
     \<lparr> cl_transaction = the_str (getp v ''transactionId''), cl_generation = the_str (getp v ''leaseGeneration''),
       cl_query = the_str (getp v ''query''), cl_name = the_opt the_str (getp v ''operationName''),
       cl_variables = getp v ''variables'', cl_count = the_int (getp v ''attemptCount'') \<rparr>"

text \<open>Where \<open>routeClaimedMutation\<close> returns to: \<open>prepareMutation\<close> or \<open>drainMutationQueue\<close>.\<close>

datatype route_end = End_Prep operation | End_Drain

datatype after_effects = After_Commit network_result queue_attempt "jsval list" | After_Plain network_result
  | After_Emission network_result

datatype fiber =
    Enqueuing operation optimistic_context jsval
  | Enqueuing_Again operation
  | Awaiting_Route operation
  | Claiming
  | Replaying claimed_mutation route_end
  | Rolling_Back route_end
  | Deciding network_result queue_attempt
  | Deferring network_result queue_attempt int
  | Giving_Up network_result queue_attempt
  | Committing network_result queue_attempt
  | Applying operation "cache_effect list" after_effects

text \<open>The trace of an exchange: what reached it and what it did, in order.\<close>

datatype exchange_output =
    Arrived nat operation
  | Received nat network_result
  | Forwarded nat operation
  | Emitted nat op_result
  | Delivered nat network_result op_result
  | Host_Called nat api_call
  | Replay_Sent nat operation
  | Query_Sent js_string "js_string option" jsval
  | Cache_Error_Reported js_string

record exchange =
  ex_live :: "(js_string \<times> nat \<times> operation) list"
  ex_attempt :: bool
  ex_running :: bool
  ex_deferred :: "int option"
  ex_timer :: "int option"
  ex_fibers :: "(nat \<times> fiber) list"
  ex_routes :: "(nat \<times> op_result option) list"
  ex_chains :: "(nat \<times> (nat \<times> network_result) list) list"
  ex_next :: nat
  ex_out :: "exchange_output list"

text \<open>\<open>ex_routes\<close>: routes resolved before their fiber awaits them. \<open>ex_chains\<close>: by operation key, the
  emissions whose effects run or wait, the running one first.\<close>

record exchange_config =
  xc_client :: js_string
  xc_disabled :: bool
  xc_retries :: bool

record exchange_env =
  xe_now :: int
  xe_parse :: "js_string \<Rightarrow> js_string + definition_node list"
  xe_json :: "js_string \<Rightarrow> js_string + jsval"
  xe_unmatched :: "jsval \<Rightarrow> js_string"

text \<open>
  \<open>xe_parse\<close> is \<open>parse\<close> of the \<open>graphql\<close> package, \<open>xe_unmatched\<close> the message of \<open>ts-pattern\<close>'s
  \<open>exhaustive()\<close>.
\<close>

definition initial_exchange :: "exchange_config \<Rightarrow> exchange" where
  "initial_exchange cfg =
     \<lparr> ex_live = [], ex_attempt = False, ex_running = False, ex_deferred = None,
       ex_timer = (if xc_disabled cfg then None else Some 0), ex_fibers = [], ex_routes = [], ex_chains = [],
       ex_next = 0, ex_out = [] \<rparr>"

type_synonym xop = "exchange \<Rightarrow> exchange"

definition xout :: "exchange_output \<Rightarrow> xop" where
  "xout out x = x\<lparr>ex_out := ex_out x @ [out]\<rparr>"

definition put_fiber :: "nat \<Rightarrow> fiber \<Rightarrow> xop" where
  "put_fiber f st x = x\<lparr>ex_fibers := AList.update f st (ex_fibers x)\<rparr>"

definition end_fiber :: "nat \<Rightarrow> xop" where
  "end_fiber f x = x\<lparr>ex_fibers := AList.delete f (ex_fibers x)\<rparr>"

text \<open>A call of the host whose settlement resumes the fiber.\<close>

definition call_host :: "nat \<Rightarrow> api_call \<Rightarrow> fiber \<Rightarrow> xop" where
  "call_host f call st x = put_fiber f st (xout (Host_Called f call) x)"

definition cache_error :: "host_error \<Rightarrow> xop" where
  "cache_error err = xout (Cache_Error_Reported (he_message err))"

definition scheduleDrain :: "int \<Rightarrow> xop" where
  "scheduleDrain delay x = x\<lparr>ex_timer := Some delay\<rparr>"

definition queueOwner :: "exchange_config \<Rightarrow> js_string" where
  "queueOwner cfg = js ''exchange:'' @ xc_client cfg"

section \<open>Arguments\<close>

definition op_fields :: "operation \<Rightarrow> js_fields" where
  "op_fields op = [(js ''query'', JStr (eo_text op)), (js ''operationName'', opt_val JStr (eo_name op)),
     (js ''variables'', eo_variables op)]"

definition write_args :: "operation \<Rightarrow> jsval \<Rightarrow> jsval" where
  "write_args op data = JObj (op_fields op @ [(js ''data'', data)])"

definition enqueue_args :: "operation \<Rightarrow> optimistic_context \<Rightarrow> jsval list \<Rightarrow> jsval list \<Rightarrow> jsval" where
  "enqueue_args op oc patches revalidations =
     JObj (op_fields op @ [(js ''data'', oc_response oc), (js ''linkPatches'', JArr patches),
       (js ''revalidations'', JArr revalidations)])"

definition initial_claim_args :: "exchange_config \<Rightarrow> int \<Rightarrow> jsval" where
  "initial_claim_args cfg now =
     JObj [(js ''owner'', JStr (queueOwner cfg)), (js ''nowMs'', JInt now),
       (js ''leaseExpiresAtMs'', JInt (now + QUEUE_LEASE_MS))]"

definition claim_args :: "js_string \<Rightarrow> js_string \<Rightarrow> jsval" where
  "claim_args owner generation = JObj [(js ''owner'', JStr owner), (js ''generation'', JStr generation)]"

text \<open>A link patch that could not be installed, as a query to revalidate.\<close>

definition patch_revalidation :: "jsval \<Rightarrow> jsval" where
  "patch_revalidation patch =
     JObj [(js ''query'', getp patch ''query''), (js ''operationName'', getp patch ''operationName''),
       (js ''variablesJson'', getp patch ''variablesJson'')]"

section \<open>Routes\<close>

text \<open>\<open>return await routed\<close>\<close>

definition finish_route :: "nat \<Rightarrow> op_result option \<Rightarrow> xop" where
  "finish_route p res x = end_fiber p (case res of None \<Rightarrow> x | Some r \<Rightarrow> xout (Emitted p r) x)"

definition resolve_route :: "nat \<Rightarrow> op_result option \<Rightarrow> xop" where
  "resolve_route p res x =
     (case map_of (ex_fibers x) p of
        Some (Awaiting_Route op) \<Rightarrow> finish_route p res x
      | _ \<Rightarrow> x\<lparr>ex_routes := (p, res) # ex_routes x\<rparr>)"

definition await_route :: "nat \<Rightarrow> operation \<Rightarrow> xop" where
  "await_route p op x =
     (case map_of (ex_routes x) p of
        Some res \<Rightarrow> finish_route p res (x\<lparr>ex_routes := remove1 (p, res) (ex_routes x)\<rparr>)
      | None \<Rightarrow> put_fiber p (Awaiting_Route op) x)"

definition resolve_queued :: "js_string \<times> nat \<times> operation \<Rightarrow> xop" where
  "resolve_queued entry =
     (case entry of (tx, p, op) \<Rightarrow> resolve_route p (Some (queuedMutationResult op tx)))"

definition resolveLiveOperationsAsQueued :: xop where
  "resolveLiveOperationsAsQueued x = fold resolve_queued (ex_live x) (x\<lparr>ex_live := []\<rparr>)"

section \<open>The runner\<close>

definition route_done :: "route_end \<Rightarrow> nat \<Rightarrow> xop" where
  "route_done k f x =
     (case k of
        End_Prep op \<Rightarrow> await_route f op x
      | End_Drain \<Rightarrow> end_fiber f (x\<lparr>ex_running := False\<rparr>))"

definition route_failed :: "route_end \<Rightarrow> nat \<Rightarrow> host_error \<Rightarrow> xop" where
  "route_failed k f err x =
     route_done k f (scheduleDrain EMPTY_QUEUE_POLL_MS (resolveLiveOperationsAsQueued
       (case k of End_Prep op \<Rightarrow> cache_error err x | End_Drain \<Rightarrow> x)))"

definition attempt_of :: "exchange_config \<Rightarrow> claimed_mutation \<Rightarrow> queue_attempt" where
  "attempt_of cfg c =
     \<lparr> qa_transaction = cl_transaction c, qa_owner = queueOwner cfg, qa_generation = cl_generation c,
       qa_count = cl_count c \<rparr>"

definition replay_op :: "exchange_config \<Rightarrow> claimed_mutation \<Rightarrow> operation" where
  "replay_op cfg c =
     \<lparr> eo_kind = Op_Mutation, eo_key = 0, eo_text = cl_query c, eo_name = cl_name c, eo_variables = cl_variables c,
       eo_context = JUndef, eo_attempt = Some (attempt_of cfg c), eo_timeout = False \<rparr>"

definition roll_back :: "exchange_config \<Rightarrow> claimed_mutation \<Rightarrow> js_string \<Rightarrow> route_end \<Rightarrow> nat \<Rightarrow> xop" where
  "roll_back cfg c reason k f =
     call_host f (Rollback_Write (JStr (cl_transaction c)) (claim_args (queueOwner cfg) (cl_generation c)) (JStr reason))
       (Rolling_Back k)"

definition routeClaimedMutation ::
  "exchange_config \<Rightarrow> exchange_env \<Rightarrow> claimed_mutation \<Rightarrow> route_end \<Rightarrow> nat \<Rightarrow> xop" where
  "routeClaimedMutation cfg env c k f x =
     (let x1 = x\<lparr>ex_deferred := None, ex_attempt := True\<rparr> in
      case map_of (ex_live x1) (cl_transaction c) of
        Some (p, op) \<Rightarrow>
          let x2 = resolve_route p None (x1\<lparr>ex_live := AList.delete (cl_transaction c) (ex_live x1)\<rparr>);
              x3 = xout (Forwarded p (op\<lparr>eo_attempt := Some (attempt_of cfg c), eo_timeout := True\<rparr>)) x2
          in route_done k f (resolveLiveOperationsAsQueued x3)
      | None \<Rightarrow>
          (case replayDocument (xe_parse env) (cl_query c) (cl_name c) of
             Inl reason \<Rightarrow> roll_back cfg c reason k f x1
           | Inr defs \<Rightarrow> put_fiber f (Replaying c k) (xout (Replay_Sent f (replay_op cfg c)) x1)))"

text \<open>\<open>replay.toPromise().then(\<dots>)\<close>\<close>

definition replay_settled ::
  "exchange_config \<Rightarrow> claimed_mutation \<Rightarrow> route_end \<Rightarrow> js_string option \<Rightarrow> nat \<Rightarrow> xop" where
  "replay_settled cfg c k err f x =
     (case err of
        Some reason \<Rightarrow>
          if ex_attempt x then roll_back cfg c reason k f x
          else route_done k f (resolveLiveOperationsAsQueued x)
      | None \<Rightarrow> route_done k f (resolveLiveOperationsAsQueued x))"

definition rolled_back :: "route_end \<Rightarrow> host_error + jsval \<Rightarrow> nat \<Rightarrow> xop" where
  "rolled_back k res f x =
     (let x1 = scheduleDrain 0 (x\<lparr>ex_attempt := False\<rparr>) in
      case res of
        Inl err \<Rightarrow> route_failed k f err x1
      | Inr v \<Rightarrow> route_done k f (resolveLiveOperationsAsQueued x1))"

definition fresh_fiber :: "exchange \<Rightarrow> nat \<times> exchange" where
  "fresh_fiber x = (ex_next x, x\<lparr>ex_next := ex_next x + 1\<rparr>)"

definition drainMutationQueue :: "exchange_config \<Rightarrow> exchange_env \<Rightarrow> xop" where
  "drainMutationQueue cfg env x =
     (if ex_attempt x then resolveLiveOperationsAsQueued x
      else if ex_running x then x
      else
        let (f, x1) = fresh_fiber (x\<lparr>ex_running := True\<rparr>); now = xe_now env in
        call_host f (Claim_Next (JStr (queueOwner cfg)) (JInt now) (JInt (now + QUEUE_LEASE_MS))) Claiming x1)"

definition claim_settled :: "exchange_config \<Rightarrow> exchange_env \<Rightarrow> host_error + jsval \<Rightarrow> nat \<Rightarrow> xop" where
  "claim_settled cfg env res f x =
     (case res of
        Inl err \<Rightarrow> route_failed End_Drain f err x
      | Inr v \<Rightarrow>
          if nullish v then
            let x1 = resolveLiveOperationsAsQueued x;
                x2 = scheduleDrain (case ex_deferred x1 of None \<Rightarrow> EMPTY_QUEUE_POLL_MS
                  | Some at \<Rightarrow> max 0 (at - xe_now env)) x1
            in route_done End_Drain f x2
          else routeClaimedMutation cfg env (claimed_of v) End_Drain f x)"

end
