(* ===== verification/Exchange_Settlement.thy ===== *)
theory Exchange_Settlement
  imports Exchange_Mutations
begin

text \<open>
  The ends of the mutation half of the exchange
  (\<open>apps/web/src/lib/graphql-cache/exchange/normalized-cache-exchange.ts\<close>): the durable enqueue of
  \<open>prepareMutation\<close>, the settlement of results in \<open>writeThrough\<close> and the steps of the exchange.
\<close>

section \<open>Enqueue\<close>

definition enqueue_ask :: "exchange_config \<Rightarrow> exchange_env \<Rightarrow> operation \<Rightarrow> optimistic_context \<Rightarrow> nat \<Rightarrow> xop" where
  "enqueue_ask cfg env op oc p =
     (let claim = initial_claim_args cfg (xe_now env) in
      call_host p (Enqueue_Mutation (enqueue_args op oc (oc_patches oc) (oc_revalidations oc)) claim) (Enqueuing op oc claim))"

definition prepareMutation :: "exchange_config \<Rightarrow> exchange_env \<Rightarrow> operation \<Rightarrow> nat \<Rightarrow> xop" where
  "prepareMutation cfg env op p x =
     (if xc_disabled cfg then xout (Forwarded p op) x
      else if eo_attempt op \<noteq> None then xout (Forwarded p (op\<lparr>eo_timeout := True\<rparr>)) x
      else
        case optimisticContextOf op of
          None \<Rightarrow> xout (Forwarded p op) x
        | Some oc \<Rightarrow> enqueue_ask cfg env op oc p x)"

text \<open>The match on \<open>enqueue.initialClaim\<close> with its \<open>catch\<close>.\<close>

definition enqueued :: "exchange_config \<Rightarrow> exchange_env \<Rightarrow> operation \<Rightarrow> jsval \<Rightarrow> nat \<Rightarrow> xop" where
  "enqueued cfg env op v p x =
     (let x1 = x\<lparr>ex_live := AList.update (the_str (getp v ''transactionId'')) (p, op) (ex_live x)\<rparr>;
          claim = getp v ''initialClaim''; kind = getp claim ''kind'' in
      if kind = JStr (js ''claimed'') then
        routeClaimedMutation cfg env (claimed_of (getp claim ''mutation'')) (End_Prep op) p x1
      else if kind = JStr (js ''not-runnable'') then
        await_route p op (scheduleDrain 0 (resolveLiveOperationsAsQueued x1))
      else if kind = JStr (js ''failed'') then
        await_route p op (scheduleDrain EMPTY_QUEUE_POLL_MS (resolveLiveOperationsAsQueued
          (xout (Cache_Error_Reported (the_str (getp claim ''error''))) x1)))
      else
        await_route p op (scheduleDrain EMPTY_QUEUE_POLL_MS (resolveLiveOperationsAsQueued
          (xout (Cache_Error_Reported (xe_unmatched env claim)) x1))))"

definition enqueue_uncertain :: "host_error \<Rightarrow> nat \<Rightarrow> xop" where
  "enqueue_uncertain err p x = end_fiber p (xout (Emitted p (uncertainEnqueueResult err)) x)"

definition enqueue_settled ::
  "exchange_config \<Rightarrow> exchange_env \<Rightarrow> operation \<Rightarrow> optimistic_context \<Rightarrow> jsval \<Rightarrow> host_error + jsval \<Rightarrow> nat \<Rightarrow> xop" where
  "enqueue_settled cfg env op oc claim res p x =
     (case res of
        Inr v \<Rightarrow> enqueued cfg env op v p x
      | Inl err \<Rightarrow>
          let x1 = cache_error err x in
          if isAdmittedEnqueueUncertainError err then enqueue_uncertain err p x1
          else if oc_patches oc = [] then end_fiber p (xout (Forwarded p op) x1)
          else
            call_host p (Enqueue_Mutation
                (enqueue_args op oc [] (oc_revalidations oc @ List.map patch_revalidation (oc_patches oc))) claim)
              (Enqueuing_Again op) x1)"

definition enqueue_again_settled ::
  "exchange_config \<Rightarrow> exchange_env \<Rightarrow> operation \<Rightarrow> host_error + jsval \<Rightarrow> nat \<Rightarrow> xop" where
  "enqueue_again_settled cfg env op res p x =
     (case res of
        Inr v \<Rightarrow> enqueued cfg env op v p x
      | Inl err \<Rightarrow>
          let x1 = cache_error err x in
          if isAdmittedEnqueueUncertainError err then enqueue_uncertain err p x1
          else end_fiber p (xout (Forwarded p op) x1))"

section \<open>Revalidation\<close>

definition revalidate_one :: "exchange_env \<Rightarrow> jsval \<Rightarrow> xop" where
  "revalidate_one env r x =
     (case xe_json env (the_str (getp r ''variablesJson'')) of
        Inl reason \<Rightarrow> xout (Cache_Error_Reported reason) x
      | Inr variables \<Rightarrow>
          if \<not> is_record variables then
            xout (Cache_Error_Reported (js ''cache revalidation variables are not an object'')) x
          else
            let query = the_str (getp r ''query''); name = the_opt the_str (getp r ''operationName'') in
            case replayDocument (xe_parse env) query name of
              Inl reason \<Rightarrow> xout (Cache_Error_Reported reason) x
            | Inr defs \<Rightarrow> xout (Query_Sent query name variables) x)"

definition revalidateAfterCommit :: "exchange_env \<Rightarrow> jsval list \<Rightarrow> xop" where
  "revalidateAfterCommit env rs = fold (revalidate_one env) rs"

section \<open>Settlement of an attempt\<close>

definition attempt_claim :: "queue_attempt \<Rightarrow> jsval" where
  "attempt_claim qa = claim_args (qa_owner qa) (qa_generation qa)"

definition attempt_error :: "network_result \<Rightarrow> jsval" where
  "attempt_error r = JStr (case nr_error r of Some m \<Rightarrow> m | None \<Rightarrow> js ''mutation returned no data'')"

text \<open>The \<open>finally\<close> block and the result with its disposition.\<close>

definition finish_attempt ::
  "exchange_env \<Rightarrow> network_result \<Rightarrow> queue_attempt \<Rightarrow> disposition \<Rightarrow> int option \<Rightarrow> nat \<Rightarrow> xop" where
  "finish_attempt env r qa d retryAt f x =
     end_fiber f (xout (Delivered f r (withOptimisticMutationDisposition (nr_op r) d (Some (qa_transaction qa))
         (plain_result r)))
       (scheduleDrain (case retryAt of None \<Rightarrow> 0 | Some at \<Rightarrow> max 0 (at - xe_now env))
         (x\<lparr>ex_live := AList.delete (qa_transaction qa) (ex_live x), ex_attempt := False, ex_deferred := retryAt\<rparr>)))"

definition attempt_uncertain ::
  "exchange_env \<Rightarrow> network_result \<Rightarrow> queue_attempt \<Rightarrow> host_error \<Rightarrow> nat \<Rightarrow> xop" where
  "attempt_uncertain env r qa err f x =
     finish_attempt env r qa Queued (Some (xe_now env + QUEUE_LEASE_MS)) f (cache_error err x)"

definition give_up :: "network_result \<Rightarrow> queue_attempt \<Rightarrow> nat \<Rightarrow> xop" where
  "give_up r qa f =
     call_host f (Rollback_Write (JStr (qa_transaction qa)) (attempt_claim qa) (attempt_error r)) (Giving_Up r qa)"

definition settle_attempt :: "exchange_config \<Rightarrow> network_result \<Rightarrow> queue_attempt \<Rightarrow> nat \<Rightarrow> xop" where
  "settle_attempt cfg r qa f x =
     (if nr_error r \<noteq> None \<or> nullish (nr_data r) then
        if nr_error r \<noteq> None \<and> xc_retries cfg then put_fiber f (Deciding r qa) x
        else give_up r qa f x
      else
        call_host f (Commit_Write (JStr (qa_transaction qa)) (attempt_claim qa) (write_args (nr_op r) (nr_data r)))
          (Committing r qa) x)"

definition retry_decided ::
  "exchange_env \<Rightarrow> network_result \<Rightarrow> queue_attempt \<Rightarrow> js_string + bool \<Rightarrow> nat \<Rightarrow> xop" where
  "retry_decided env r qa res f x =
     (case res of
        Inl reason \<Rightarrow> give_up r qa f (xout (Cache_Error_Reported reason) x)
      | Inr retry \<Rightarrow>
          if retry then
            let retryAt = xe_now env + retryDelayMs (qa_count qa) in
            call_host f (Defer_Write (JStr (qa_transaction qa)) (attempt_claim qa) (JInt retryAt) (attempt_error r))
              (Deferring r qa retryAt) x
          else give_up r qa f x)"

section \<open>Cache effects\<close>

definition effect_call :: "operation \<Rightarrow> cache_effect \<Rightarrow> api_call" where
  "effect_call op e =
     (case e of Write_Effect d \<Rightarrow> Write_Query (write_args op d) | Delete_Effect k \<Rightarrow> Delete_Records (JArr [JStr k]))"

text \<open>The emissions of one subscription: the first of the chain applies its effects, the others wait.\<close>

definition emission_effects :: "network_result \<Rightarrow> cache_effect list" where
  "emission_effects r = operationCacheEffects (nr_data r)"

definition deliver :: "network_result \<Rightarrow> op_result \<Rightarrow> nat \<Rightarrow> xop" where
  "deliver r res f x = end_fiber f (xout (Delivered f r res) x)"

fun run_chain :: "nat \<Rightarrow> (nat \<times> network_result) list \<Rightarrow> xop" where
  "run_chain k [] x = x\<lparr>ex_chains := AList.delete k (ex_chains x)\<rparr>"
| "run_chain k ((f, r) # rest) x =
     (case emission_effects r of
        [] \<Rightarrow> deliver r (plain_result r) f (run_chain k rest x)
      | e # es \<Rightarrow>
          call_host f (effect_call (nr_op r) e) (Applying (nr_op r) es (After_Emission r))
            (x\<lparr>ex_chains := AList.update k ((f, r) # rest) (ex_chains x)\<rparr>))"

definition chain_of :: "exchange \<Rightarrow> nat \<Rightarrow> (nat \<times> network_result) list" where
  "chain_of x k = (case map_of (ex_chains x) k of None \<Rightarrow> [] | Some c \<Rightarrow> c)"

definition emission_arrives :: "network_result \<Rightarrow> nat \<Rightarrow> xop" where
  "emission_arrives r f x =
     (let k = eo_key (nr_op r); c = chain_of x k in
      if c = [] then run_chain k [(f, r)] x
      else x\<lparr>ex_chains := AList.update k (c @ [(f, r)]) (ex_chains x)\<rparr>)"

definition succeeded :: "network_result \<Rightarrow> bool" where
  "succeeded r \<longleftrightarrow> \<not> nullish (nr_data r) \<and> nr_error r = None"

definition finish_plain :: "network_result \<Rightarrow> nat \<Rightarrow> xop" where
  "finish_plain r f =
     deliver r (if optimisticContextOf (nr_op r) = None then plain_result r
       else withOptimisticMutationDisposition (nr_op r) (if succeeded r then Committed else Permanently_Failed) None
         (plain_result r)) f"

definition effects_done :: "exchange_env \<Rightarrow> after_effects \<Rightarrow> nat \<Rightarrow> xop" where
  "effects_done env after f x =
     (case after of
        After_Commit r qa rs \<Rightarrow> finish_attempt env r qa Committed None f (revalidateAfterCommit env rs x)
      | After_Plain r \<Rightarrow> finish_plain r f x
      | After_Emission r \<Rightarrow>
          let k = eo_key (nr_op r) in deliver r (plain_result r) f (run_chain k (tl (chain_of x k)) x))"

definition applyOperationCacheEffects ::
  "exchange_env \<Rightarrow> operation \<Rightarrow> cache_effect list \<Rightarrow> after_effects \<Rightarrow> nat \<Rightarrow> xop" where
  "applyOperationCacheEffects env op es after f x =
     (case es of
        [] \<Rightarrow> effects_done env after f x
      | e # rest \<Rightarrow> call_host f (effect_call op e) (Applying op rest after) x)"

definition is_delete :: "cache_effect \<Rightarrow> bool" where
  "is_delete e \<longleftrightarrow> (case e of Write_Effect d \<Rightarrow> False | Delete_Effect k \<Rightarrow> True)"

text \<open>\<open>committed.revalidations ?? []\<close>\<close>

definition committed_revalidations :: "jsval \<Rightarrow> jsval list" where
  "committed_revalidations v = the_arr (getp v ''revalidations'')"

definition commit_settled ::
  "exchange_env \<Rightarrow> network_result \<Rightarrow> queue_attempt \<Rightarrow> host_error + jsval \<Rightarrow> nat \<Rightarrow> xop" where
  "commit_settled env r qa res f x =
     (case res of
        Inl err \<Rightarrow> attempt_uncertain env r qa err f x
      | Inr v \<Rightarrow>
          let es = operationCacheEffects (nr_data r); after = After_Commit r qa (committed_revalidations v) in
          if list_ex is_delete es then applyOperationCacheEffects env (nr_op r) es after f x
          else effects_done env after f x)"

section \<open>Results\<close>

definition writeThrough :: "exchange_config \<Rightarrow> exchange_env \<Rightarrow> network_result \<Rightarrow> nat \<Rightarrow> xop" where
  "writeThrough cfg env r f x =
     (case eo_kind (nr_op r) of
        Op_Subscription \<Rightarrow>
          if nullish (nr_data r) then deliver r (plain_result r) f x else emission_arrives r f x
      | Op_Mutation \<Rightarrow>
          (case eo_attempt (nr_op r) of
             Some qa \<Rightarrow> settle_attempt cfg r qa f x
           | None \<Rightarrow>
               if succeeded r then
                 applyOperationCacheEffects env (nr_op r) (operationCacheEffects (nr_data r)) (After_Plain r) f x
               else finish_plain r f x))"

section \<open>Steps\<close>

text \<open>
  The settlement of a call of the host resumes the fiber that awaits it: an enqueue or another call.
\<close>

definition resume_enqueue :: "exchange_config \<Rightarrow> exchange_env \<Rightarrow> nat \<Rightarrow> host_error + jsval \<Rightarrow> xop" where
  "resume_enqueue cfg env p res x =
     (case map_of (ex_fibers x) p of
        Some (Enqueuing op oc claim) \<Rightarrow> enqueue_settled cfg env op oc claim res p x
      | Some (Enqueuing_Again op) \<Rightarrow> enqueue_again_settled cfg env op res p x
      | _ \<Rightarrow> x)"

definition resume :: "exchange_config \<Rightarrow> exchange_env \<Rightarrow> nat \<Rightarrow> host_error + jsval \<Rightarrow> xop" where
  "resume cfg env f res x =
     (case map_of (ex_fibers x) f of
        Some Claiming \<Rightarrow> claim_settled cfg env res f x
      | Some (Rolling_Back k) \<Rightarrow> rolled_back k res f x
      | Some (Deferring r qa retryAt) \<Rightarrow>
          (case res of
             Inl err \<Rightarrow> attempt_uncertain env r qa err f x
           | Inr v \<Rightarrow> finish_attempt env r qa Queued (Some retryAt) f x)
      | Some (Giving_Up r qa) \<Rightarrow>
          (case res of
             Inl err \<Rightarrow> attempt_uncertain env r qa err f x
           | Inr v \<Rightarrow> finish_attempt env r qa Permanently_Failed None f x)
      | Some (Committing r qa) \<Rightarrow> commit_settled env r qa res f x
      | Some (Applying op es after) \<Rightarrow>
          applyOperationCacheEffects env op es after f
            (case res of Inl err \<Rightarrow> cache_error err x | Inr v \<Rightarrow> x)
      | _ \<Rightarrow> x)"

datatype exchange_input =
    Mutation_In operation
  | Enqueue_Settled nat "host_error + jsval"
  | Host_Settled nat "host_error + jsval"
  | Network_Result network_result
  | Retry_Decided nat "js_string + bool"
  | Replay_Settled nat "js_string option"
  | Revalidation_Failed js_string
  | Drain_Timer
  | Went_Online

type_synonym exchange_event = "exchange_env \<times> exchange_input"

fun exchange_input_step :: "exchange_config \<Rightarrow> exchange_env \<Rightarrow> exchange_input \<Rightarrow> xop" where
  "exchange_input_step cfg env (Mutation_In op) x =
     (let (p, x1) = fresh_fiber x in prepareMutation cfg env op p (xout (Arrived p op) x1))"
| "exchange_input_step cfg env (Enqueue_Settled p res) x = resume_enqueue cfg env p res x"
| "exchange_input_step cfg env (Host_Settled f res) x = resume cfg env f res x"
| "exchange_input_step cfg env (Network_Result r) x =
     (let (f, x1) = fresh_fiber x in writeThrough cfg env r f (xout (Received f r) x1))"
| "exchange_input_step cfg env (Retry_Decided f res) x =
     (case map_of (ex_fibers x) f of
        Some (Deciding r qa) \<Rightarrow> retry_decided env r qa res f x
      | _ \<Rightarrow> x)"
| "exchange_input_step cfg env (Replay_Settled f err) x =
     (case map_of (ex_fibers x) f of
        Some (Replaying c k) \<Rightarrow> replay_settled cfg c k err f x
      | _ \<Rightarrow> x)"
| "exchange_input_step cfg env (Revalidation_Failed reason) x = xout (Cache_Error_Reported reason) x"
| "exchange_input_step cfg env Drain_Timer x =
     (if ex_timer x = None then x else drainMutationQueue cfg env (x\<lparr>ex_timer := None\<rparr>))"
| "exchange_input_step cfg env Went_Online x = (if xc_disabled cfg then x else scheduleDrain 0 x)"

definition exchange_step :: "exchange_config \<Rightarrow> exchange_event \<Rightarrow> exchange \<Rightarrow> unit \<times> exchange" where
  "exchange_step cfg ev x = ((), exchange_input_step cfg (fst ev) (snd ev) x)"

end
