(* ===== verification/Exchange_Laws.thy ===== *)
theory Exchange_Laws
  imports Exchange_Settlement
begin

text \<open>
  The balance of every caller of the exchange: what it has been answered, and what is still owed to it
  by an enqueue, by the live operations or by a route that nobody has awaited yet. Every step keeps the
  balance, except where it forgets a live operation.
\<close>

section \<open>The balance of a caller\<close>

fun answered :: "nat \<Rightarrow> exchange_output \<Rightarrow> bool" where
  "answered p (Forwarded q op) \<longleftrightarrow> p = q"
| "answered p (Emitted q r) \<longleftrightarrow> p = q"
| "answered p _ \<longleftrightarrow> False"

definition answers :: "exchange \<Rightarrow> nat \<Rightarrow> nat" where
  "answers x p = length (filter (answered p) (ex_out x))"

fun enqueue_stage :: "fiber \<Rightarrow> bool" where
  "enqueue_stage (Enqueuing op oc claim) = True"
| "enqueue_stage (Enqueuing_Again op) = True"
| "enqueue_stage _ = False"

definition enqueuing :: "exchange \<Rightarrow> nat \<Rightarrow> bool" where
  "enqueuing x p \<longleftrightarrow> (\<exists>st. map_of (ex_fibers x) p = Some st \<and> enqueue_stage st)"

definition live_owed :: "(js_string \<times> nat \<times> operation) list \<Rightarrow> nat \<Rightarrow> nat" where
  "live_owed ls p = length (filter (\<lambda>e. fst (snd e) = p) ls)"

definition routes_owed :: "(nat \<times> op_result option) list \<Rightarrow> nat \<Rightarrow> nat" where
  "routes_owed rs p = length (filter (\<lambda>e. fst e = p \<and> snd e \<noteq> None) rs)"

definition owed :: "exchange \<Rightarrow> nat \<Rightarrow> nat" where
  "owed x p = live_owed (ex_live x) p + routes_owed (ex_routes x) p + of_bool (enqueuing x p)"

definition balance :: "exchange \<Rightarrow> nat \<Rightarrow> nat" where
  "balance x p = answers x p + owed x p"

lemmas balance_defs = balance_def answers_def owed_def enqueuing_def live_owed_def routes_owed_def

section \<open>Frames\<close>

lemma exchange_frames [simp]:
  "ex_live (xout out x) = ex_live x" "ex_live (put_fiber f st x) = ex_live x" "ex_live (end_fiber f x) = ex_live x"
  "ex_live (scheduleDrain d x) = ex_live x" "ex_live (cache_error err x) = ex_live x"
  "ex_live (finish_route p res x) = ex_live x" "ex_live (resolve_route p res x) = ex_live x"
  "ex_live (await_route p op x) = ex_live x" "ex_live (call_host f call st x) = ex_live x"
  by (simp_all add: xout_def put_fiber_def end_fiber_def scheduleDrain_def cache_error_def finish_route_def
      resolve_route_def await_route_def call_host_def split: option.split fiber.split)

lemma exchange_fibers [simp]:
  "map_of (ex_fibers (put_fiber f st x)) = (map_of (ex_fibers x))(f \<mapsto> st)"
  "map_of (ex_fibers (end_fiber f x)) = (map_of (ex_fibers x))(f := None)"
  "ex_fibers (xout out x) = ex_fibers x" "ex_fibers (scheduleDrain d x) = ex_fibers x"
  "ex_fibers (cache_error err x) = ex_fibers x"
  by (simp_all add: put_fiber_def end_fiber_def xout_def scheduleDrain_def cache_error_def update_conv' delete_conv')

lemma balance_xout [simp]: "balance (xout out x) p = balance x p + of_bool (answered p out)"
  by (simp add: balance_defs xout_def)

lemma balance_quiet [simp]:
  "balance (scheduleDrain d x) = balance x" "balance (cache_error err x) = balance x"
  "balance (x\<lparr>ex_attempt := a\<rparr>) = balance x" "balance (x\<lparr>ex_running := b\<rparr>) = balance x"
  "balance (x\<lparr>ex_deferred := at\<rparr>) = balance x" "balance (x\<lparr>ex_chains := c\<rparr>) = balance x"
  "balance (x\<lparr>ex_timer := t\<rparr>) = balance x" "balance (x\<lparr>ex_next := n\<rparr>) = balance x"
  by (auto simp: balance_defs scheduleDrain_def cache_error_def xout_def fun_eq_iff)

lemma balance_live: "balance (x\<lparr>ex_live := ls\<rparr>) p + live_owed (ex_live x) p = balance x p + live_owed ls p"
  by (simp add: balance_defs)

lemma balance_routes:
  "balance (x\<lparr>ex_routes := rs\<rparr>) p + routes_owed (ex_routes x) p = balance x p + routes_owed rs p"
  by (simp add: balance_defs)

lemma balance_put: "balance (put_fiber f st x) p + of_bool (p = f \<and> enqueuing x f) = balance x p + of_bool (p = f \<and> enqueue_stage st)"
  by (auto simp: balance_def answers_def owed_def enqueuing_def) (simp_all add: put_fiber_def)

lemma balance_end: "balance (end_fiber f x) p + of_bool (p = f \<and> enqueuing x f) = balance x p"
  by (auto simp: balance_def answers_def owed_def enqueuing_def) (simp_all add: end_fiber_def)

lemma enqueuing_frames [simp]:
  "enqueuing (xout out x) = enqueuing x" "enqueuing (scheduleDrain d x) = enqueuing x"
  "enqueuing (cache_error err x) = enqueuing x"
  "enqueuing (x\<lparr>ex_live := ls\<rparr>) = enqueuing x" "enqueuing (x\<lparr>ex_routes := rs\<rparr>) = enqueuing x"
  "enqueuing (x\<lparr>ex_attempt := a\<rparr>) = enqueuing x" "enqueuing (x\<lparr>ex_running := b\<rparr>) = enqueuing x"
  "enqueuing (x\<lparr>ex_deferred := at\<rparr>) = enqueuing x" "enqueuing (x\<lparr>ex_chains := c\<rparr>) = enqueuing x"
  "enqueuing (x\<lparr>ex_timer := t\<rparr>) = enqueuing x" "enqueuing (x\<lparr>ex_next := n\<rparr>) = enqueuing x"
  by (auto simp: enqueuing_def fun_eq_iff)

lemma enqueuing_put [simp]: "enqueuing (put_fiber f st x) p \<longleftrightarrow> (if p = f then enqueue_stage st else enqueuing x p)"
  by (simp add: enqueuing_def)

lemma enqueuing_end [simp]: "enqueuing (end_fiber f x) p \<longleftrightarrow> p \<noteq> f \<and> enqueuing x p"
  by (simp add: enqueuing_def)

section \<open>Routes\<close>

lemma balance_finish_route:
  "balance (finish_route f res x) p + of_bool (p = f \<and> enqueuing x f) = balance x p + of_bool (p = f \<and> res \<noteq> None)"
  using balance_end [of f x p] balance_end [of f "xout (Emitted f (the res)) x" p]
  by (cases res) (simp_all add: finish_route_def)

lemma balance_resolve [simp]:
  "balance (resolve_route f res x) p = balance x p + of_bool (p = f \<and> res \<noteq> None)"
  using balance_finish_route [of f res x p] balance_routes [of "(f, res) # ex_routes x" x p]
  by (auto simp: resolve_route_def routes_owed_def enqueuing_def split: option.split fiber.split)

lemma enqueuing_resolve [simp]: "enqueuing (resolve_route f res x) = enqueuing x"
  by (auto simp: resolve_route_def finish_route_def enqueuing_def fun_eq_iff split: option.splits fiber.splits)

lemma owed_remove:
  "r \<in> set rs \<Longrightarrow> routes_owed (remove1 r rs) p + of_bool (fst r = p \<and> snd r \<noteq> None) = routes_owed rs p"
  by (induction rs) (auto simp: routes_owed_def)

lemma balance_await:
  "balance (await_route f op x) p + of_bool (p = f \<and> enqueuing x f) = balance x p"
proof (cases "map_of (ex_routes x) f")
  case None
  then show ?thesis using balance_put [of f "Awaiting_Route op" x p] by (simp add: await_route_def)
next
  case (Some res)
  then have r: "(f, res) \<in> set (ex_routes x)" by (rule map_of_SomeD)
  define y where "y = x\<lparr>ex_routes := remove1 (f, res) (ex_routes x)\<rparr>"
  have "balance (finish_route f res y) p + of_bool (p = f \<and> enqueuing y f) = balance y p + of_bool (p = f \<and> res \<noteq> None)"
    by (rule balance_finish_route)
  moreover have "balance y p + routes_owed (ex_routes x) p = balance x p + routes_owed (remove1 (f, res) (ex_routes x)) p"
    unfolding y_def by (rule balance_routes)
  moreover have "enqueuing y f = enqueuing x f" by (simp add: y_def)
  moreover have "await_route f op x = finish_route f res y" using Some by (simp add: await_route_def y_def)
  ultimately show ?thesis using owed_remove [OF r, of p] by (auto split: if_splits)
qed

lemma fold_resolve: "balance (fold resolve_queued ls x) p = balance x p + live_owed ls p"
  by (induction ls arbitrary: x) (auto simp: resolve_queued_def live_owed_def)

lemma fold_resolve_frames [simp]:
  "enqueuing (fold resolve_queued ls x) = enqueuing x" "ex_live (fold resolve_queued ls x) = ex_live x"
  by (induction ls arbitrary: x) (auto simp: resolve_queued_def)

lemma resolve_live [simp]:
  "balance (resolveLiveOperationsAsQueued x) = balance x"
  "enqueuing (resolveLiveOperationsAsQueued x) = enqueuing x"
  "ex_live (resolveLiveOperationsAsQueued x) = []"
proof -
  show "balance (resolveLiveOperationsAsQueued x) = balance x"
  proof
    fix p
    show "balance (resolveLiveOperationsAsQueued x) p = balance x p"
      using balance_live [of "[]" x p] by (simp add: resolveLiveOperationsAsQueued_def fold_resolve live_owed_def)
  qed
qed (simp_all add: resolveLiveOperationsAsQueued_def)

section \<open>Live operations\<close>

text \<open>The caller whose live operation has this transaction id.\<close>

definition held :: "exchange \<Rightarrow> js_string \<Rightarrow> nat \<Rightarrow> nat" where
  "held x tx p = (case map_of (ex_live x) tx of None \<Rightarrow> 0 | Some e \<Rightarrow> of_bool (fst e = p))"

definition keyed :: "exchange \<Rightarrow> bool" where
  "keyed x \<longleftrightarrow> distinct (List.map fst (ex_live x))"

lemma live_owed_delete:
  "distinct (List.map fst ls) \<Longrightarrow>
    live_owed (AList.delete tx ls) p + (case map_of ls tx of None \<Rightarrow> 0 | Some e \<Rightarrow> of_bool (fst e = p)) = live_owed ls p"
proof (induction ls)
  case (Cons e ls)
  have "AList.delete tx ls = ls" if "tx \<notin> fst ` set ls" using that by (simp add: delete_id)
  then show ?case using Cons by (cases e) (auto simp: live_owed_def map_of_eq_None_iff [THEN iffD2])
qed (simp add: live_owed_def)

lemma live_owed_update:
  "live_owed (AList.update tx (q, op) ls) p + (case map_of ls tx of None \<Rightarrow> 0 | Some e \<Rightarrow> of_bool (fst e = p))
    = live_owed ls p + of_bool (q = p)"
  by (induction ls) (auto simp: live_owed_def)

lemma balance_forget:
  "keyed x \<Longrightarrow> balance (x\<lparr>ex_live := AList.delete tx (ex_live x)\<rparr>) p + held x tx p = balance x p"
  using balance_live [of "AList.delete tx (ex_live x)" x p] live_owed_delete [of "ex_live x" tx p]
  by (simp add: keyed_def held_def)

lemma balance_enter:
  "balance (x\<lparr>ex_live := AList.update tx (q, op) (ex_live x)\<rparr>) p + held x tx p = balance x p + of_bool (q = p)"
  using balance_live [of "AList.update tx (q, op) (ex_live x)" x p] live_owed_update [of tx q op "ex_live x" p]
  by (simp add: held_def)

section \<open>Leaving a fiber\<close>

text \<open>The fiber goes on: an enqueue it was is no longer owed.\<close>

definition leaves :: "nat \<Rightarrow> exchange \<Rightarrow> exchange \<Rightarrow> bool" where
  "leaves f x x' \<longleftrightarrow> (\<forall>p. balance x' p + of_bool (p = f \<and> enqueuing x f) = balance x p)"

lemma leaves_same: "leaves f y x' \<Longrightarrow> balance y = balance x \<Longrightarrow> enqueuing y = enqueuing x \<Longrightarrow> leaves f x x'"
  by (simp add: leaves_def)

lemma leaves_put: "\<not> enqueue_stage st \<Longrightarrow> leaves f x (put_fiber f st x)"
  using balance_put by (simp add: leaves_def)

lemma answered_frames [simp]: "\<not> answered p (Host_Called f call)" "\<not> answered p (Replay_Sent f op)"
  by simp_all

lemma leaves_ask: "\<not> enqueue_stage st \<Longrightarrow> leaves f x (call_host f call st x)"
  by (rule leaves_same [of f "xout (Host_Called f call) x"]) (auto simp: call_host_def leaves_put fun_eq_iff)

lemma leaves_end: "leaves f x (end_fiber f x)"
  using balance_end by (simp add: leaves_def)

lemma leaves_done: "leaves f x (route_done k f x)"
proof (cases k)
  case (End_Prep op)
  then show ?thesis using balance_await by (simp add: route_done_def leaves_def)
next
  case End_Drain
  have "leaves f x (end_fiber f (x\<lparr>ex_running := False\<rparr>))" by (rule leaves_same [OF leaves_end]) simp_all
  then show ?thesis using End_Drain by (simp add: route_done_def)
qed

lemma leaves_done_after:
  "balance y = balance x \<Longrightarrow> enqueuing y = enqueuing x \<Longrightarrow> leaves f x (route_done k f y)"
  by (rule leaves_same [OF leaves_done])

lemma leaves_failed: "leaves f x (route_failed k f err x)"
  unfolding route_failed_def by (rule leaves_done_after) (simp_all split: route_end.split)

lemma leaves_roll_back: "leaves f x (roll_back cfg c reason k f x)"
  unfolding roll_back_def by (rule leaves_ask) simp

lemma leaves_claimed:
  assumes "keyed x" shows "leaves f x (routeClaimedMutation cfg env c k f x)"
proof -
  define x1 where "x1 = x\<lparr>ex_deferred := None, ex_attempt := True\<rparr>"
  have x1: "balance x1 = balance x" "enqueuing x1 = enqueuing x" "keyed x1" "ex_live x1 = ex_live x"
    using assms by (simp_all add: x1_def keyed_def)
  show ?thesis
  proof (cases "map_of (ex_live x1) (cl_transaction c)")
    case None
    have "leaves f x1 (routeClaimedMutation cfg env c k f x)"
      using None by (auto simp: routeClaimedMutation_def x1_def [symmetric] Let_def leaves_roll_back
          split: sum.split intro!: leaves_same [OF leaves_put])
    then show ?thesis by (rule leaves_same) (simp_all add: x1)
  next
    case (Some e)
    then obtain p op where e: "map_of (ex_live x1) (cl_transaction c) = Some (p, op)" by (cases e) auto
    define x2 where "x2 = x1\<lparr>ex_live := AList.delete (cl_transaction c) (ex_live x1)\<rparr>"
    define x3 where "x3 = xout (Forwarded p (op\<lparr>eo_attempt := Some (attempt_of cfg c), eo_timeout := True\<rparr>))
      (resolve_route p None x2)"
    have "balance x3 = balance x1"
    proof
      fix q
      show "balance x3 q = balance x1 q"
        using balance_forget [OF x1(3), of "cl_transaction c" q] e
        by (auto simp: x3_def x2_def held_def split: if_splits)
    qed
    moreover have "enqueuing x3 = enqueuing x1" by (simp add: x3_def x2_def)
    moreover have "routeClaimedMutation cfg env c k f x = route_done k f (resolveLiveOperationsAsQueued x3)"
      using e by (simp add: routeClaimedMutation_def x1_def [symmetric] x2_def [symmetric] x3_def [symmetric])
    ultimately show ?thesis using x1 by (simp add: leaves_done_after)
  qed
qed

lemma leaves_replayed: "leaves f x (replay_settled cfg c k err f x)"
  by (auto simp: replay_settled_def leaves_roll_back split: option.split intro!: leaves_done_after)

lemma leaves_rolled_back: "leaves f x (rolled_back k res f x)"
proof -
  define y where "y = scheduleDrain 0 (x\<lparr>ex_attempt := False\<rparr>)"
  have y: "balance y = balance x" "enqueuing y = enqueuing x" by (simp_all add: y_def)
  have "leaves f x (route_failed k f err y)" for err by (rule leaves_same [OF leaves_failed y])
  then show ?thesis
    using y by (auto simp: rolled_back_def y_def [symmetric] Let_def split: sum.split intro!: leaves_done_after)
qed

lemma leaves_claim: "keyed x \<Longrightarrow> leaves f x (claim_settled cfg env res f x)"
  by (auto simp: claim_settled_def Let_def leaves_failed leaves_claimed split: sum.split intro!: leaves_done_after)

end
