(* ===== verification/Exchange_Books.thy ===== *)
theory Exchange_Books
  imports Exchange_Laws
begin

text \<open>
  Every step of the exchange keeps the balance of every caller but for the live operations it forgets,
  and a mutation that arrives opens one balance of one.
\<close>

section \<open>Enqueue\<close>

lemma leaves_at: "leaves f x x' \<Longrightarrow> balance x' p + of_bool (p = f \<and> enqueuing x f) = balance x p"
  by (simp add: leaves_def)

lemma enqueued_books:
  assumes "keyed x" "enqueuing x p"
  shows "balance (enqueued cfg env op v p x) q + held x (the_str (getp v ''transactionId'')) q = balance x q"
proof -
  let ?tx = "the_str (getp v ''transactionId'')"
  define x1 where "x1 = x\<lparr>ex_live := AList.update ?tx (p, op) (ex_live x)\<rparr>"
  have k: "keyed x1" using assms by (simp add: x1_def keyed_def distinct_update)
  have e: "enqueuing x1 = enqueuing x" by (simp add: x1_def)
  have "leaves p x1 (enqueued cfg env op v p x)"
  proof -
    have a: "leaves p x1 (await_route p op y)" if "balance y = balance x1" "enqueuing y = enqueuing x1" for y
      using leaves_done_after [OF that, of p "End_Prep op"] by (simp add: route_done_def)
    show ?thesis
      unfolding enqueued_def Let_def x1_def [symmetric]
      by (simp add: leaves_claimed [OF k] a fun_eq_iff)
  qed
  from leaves_at [OF this, of q] show ?thesis
    using balance_enter [of ?tx p op x q] assms(2) e by (simp add: x1_def [symmetric] eq_commute [of q p])
qed

lemma stays_ask:
  assumes "\<And>q. balance y q = balance x q" "enqueuing y p" "enqueue_stage st"
  shows "balance (call_host p call st y) q = balance x q"
  using balance_put [of p st "xout (Host_Called p call) y" q] assms by (auto simp: call_host_def)

lemma leaves_forward:
  assumes "enqueuing x p" shows "balance (end_fiber p (xout (Forwarded p op) x)) q = balance x q"
    "balance (end_fiber p (xout (Emitted p res) x)) q = balance x q"
  using assms balance_end [of p "xout (Forwarded p op) x" q] balance_end [of p "xout (Emitted p res) x" q]
  by auto

definition answer_held :: "exchange \<Rightarrow> host_error + jsval \<Rightarrow> nat \<Rightarrow> nat" where
  "answer_held x res q = (case res of Inl err \<Rightarrow> 0 | Inr v \<Rightarrow> held x (the_str (getp v ''transactionId'')) q)"

lemma uncertain_books: "enqueuing x p \<Longrightarrow> balance (enqueue_uncertain err p x) q = balance x q"
  by (simp add: enqueue_uncertain_def leaves_forward)

lemma enqueue_books:
  assumes "keyed x" "enqueuing x p"
  shows "balance (enqueue_settled cfg env op oc claim res p x) q + answer_held x res q = balance x q"
    "balance (enqueue_again_settled cfg env op res p x) q + answer_held x res q = balance x q"
  using assms
  by (auto simp: enqueue_settled_def enqueue_again_settled_def answer_held_def Let_def enqueued_books uncertain_books
      leaves_forward stays_ask split: sum.split)

section \<open>Settlement\<close>

lemma ask_books:
  assumes "\<not> enqueuing y f" "\<not> enqueue_stage st" shows "balance (call_host f call st y) = balance y"
proof
  show "balance (call_host f call st y) q = balance y q" for q
    using leaves_at [OF leaves_ask [OF assms(2)], of f call y q] assms(1) by (simp split: if_splits)
qed

lemma enqueuing_ask [simp]: "enqueuing (call_host f call st x) p \<longleftrightarrow> (if p = f then enqueue_stage st else enqueuing x p)"
  by (simp add: call_host_def)

lemma put_books:
  assumes "\<not> enqueuing y f" "\<not> enqueue_stage st" shows "balance (put_fiber f st y) = balance y"
proof
  show "balance (put_fiber f st y) q = balance y q" for q
    using leaves_at [OF leaves_put [OF assms(2)], of f y q] assms(1) by (simp split: if_splits)
qed

lemma end_books: assumes "\<not> enqueuing y f" shows "balance (end_fiber f y) = balance y"
proof
  show "balance (end_fiber f y) q = balance y q" for q using balance_end [of f y q] assms by (simp split: if_splits)
qed

lemma delivered_books: "balance (xout (Delivered f r res) x) = balance x" "balance (xout (Cache_Error_Reported m) x) = balance x"
  "balance (xout (Received f r) x) = balance x" "balance (xout (Query_Sent q n v) x) = balance x"
  "balance (xout (Arrived f op) x) = balance x"
  by (auto simp: fun_eq_iff)

lemma revalidate_books [simp]:
  "balance (revalidateAfterCommit env rs x) = balance x" "enqueuing (revalidateAfterCommit env rs x) = enqueuing x"
  "ex_live (revalidateAfterCommit env rs x) = ex_live x"
proof -
  have one: "balance (revalidate_one env r y) = balance y" "enqueuing (revalidate_one env r y) = enqueuing y"
    "ex_live (revalidate_one env r y) = ex_live y" for r y
    by (auto simp: revalidate_one_def Let_def delivered_books split: sum.split)
  show "balance (revalidateAfterCommit env rs x) = balance x" "enqueuing (revalidateAfterCommit env rs x) = enqueuing x"
    "ex_live (revalidateAfterCommit env rs x) = ex_live x"
    unfolding revalidateAfterCommit_def by (induction rs arbitrary: x) (simp_all add: one)
qed

lemma deliver_books: "\<not> enqueuing x f \<Longrightarrow> balance (deliver r res f x) = balance x"
  by (simp add: deliver_def end_books delivered_books)

lemma finish_books:
  assumes "keyed x" "\<not> enqueuing x f"
  shows "balance (finish_attempt env r qa d at f x) q + held x (qa_transaction qa) q = balance x q"
proof -
  define y where "y = x\<lparr>ex_live := AList.delete (qa_transaction qa) (ex_live x)\<rparr>"
  have "balance (finish_attempt env r qa d at f x) = balance y"
    using assms(2) by (simp add: finish_attempt_def y_def end_books delivered_books)
  then show ?thesis using balance_forget [OF assms(1), of "qa_transaction qa" q] by (simp add: y_def)
qed

lemma settle_books:
  assumes "\<not> enqueuing x f"
  shows "balance (give_up r qa f x) = balance x" "balance (settle_attempt cfg r qa f x) = balance x"
    "balance (retry_decided env r qa res f x) = balance x"
  using assms
  by (auto simp: give_up_def settle_attempt_def retry_decided_def ask_books put_books Let_def delivered_books split: sum.split)

lemma held_same: "ex_live y = ex_live x \<Longrightarrow> held y = held x"
  by (simp add: held_def fun_eq_iff)

lemma uncertain_attempt_books:
  assumes "keyed x" "\<not> enqueuing x f"
  shows "balance (attempt_uncertain env r qa err f x) q + held x (qa_transaction qa) q = balance x q"
  using finish_books [of "cache_error err x" f env r qa Queued "Some (xe_now env + QUEUE_LEASE_MS)" q] assms
    held_same [of "cache_error err x" x]
  by (simp add: attempt_uncertain_def keyed_def)

section \<open>Cache effects\<close>

lemma chain_books:
  assumes "\<forall>e \<in> set c. \<not> enqueuing x (fst e)"
  shows "balance (run_chain k c x) = balance x \<and> enqueuing (run_chain k c x) = enqueuing x \<and>
    ex_live (run_chain k c x) = ex_live x"
  using assms
proof (induction c)
  case (Cons e c)
  obtain f r where e: "e = (f, r)" by (cases e)
  have f: "\<not> enqueuing x f" using Cons.prems e by simp
  show ?case
  proof (cases "emission_effects r")
    case Nil
    have I: "balance (run_chain k c x) = balance x" "enqueuing (run_chain k c x) = enqueuing x"
      "ex_live (run_chain k c x) = ex_live x" using Cons by simp_all
    have "balance (deliver r res f (run_chain k c x)) = balance x" for res using deliver_books I f by simp
    then show ?thesis using f Nil e I by (auto simp: deliver_def fun_eq_iff)
  next
    case (Cons a es)
    then show ?thesis using f e by (simp add: ask_books) (auto simp: fun_eq_iff)
  qed
qed simp

definition after_held :: "exchange \<Rightarrow> after_effects \<Rightarrow> nat \<Rightarrow> nat" where
  "after_held x after q = (case after of After_Commit r qa rs \<Rightarrow> held x (qa_transaction qa) q | _ \<Rightarrow> 0)"

text \<open>No fiber of an emission is an enqueue.\<close>

definition chains_plain :: "exchange \<Rightarrow> bool" where
  "chains_plain x \<longleftrightarrow> (\<forall>k. \<forall>e \<in> set (chain_of x k). \<not> enqueuing x (fst e))"

lemma set_of_tl: "e \<in> set (tl xs) \<Longrightarrow> e \<in> set xs"
  by (cases xs) simp_all

lemma effects_done_books:
  assumes "keyed x" "\<not> enqueuing x f" "chains_plain x"
  shows "balance (effects_done env after f x) q + after_held x after q = balance x q"
proof (cases after)
  case (After_Commit r qa rs)
  then show ?thesis
    using finish_books [of "revalidateAfterCommit env rs x" f env r qa Committed None q] assms(1,2)
      held_same [of "revalidateAfterCommit env rs x" x]
    by (simp add: effects_done_def after_held_def keyed_def)
next
  case (After_Plain r)
  then show ?thesis using assms(2) by (simp add: effects_done_def after_held_def finish_plain_def deliver_books)
next
  case (After_Emission r)
  let ?k = "eo_key (nr_op r)"
  have "\<forall>e \<in> set (tl (chain_of x ?k)). \<not> enqueuing x (fst e)"
    using assms(3) set_of_tl by (fastforce simp: chains_plain_def)
  then show ?thesis using After_Emission chain_books [of "tl (chain_of x ?k)" x ?k] assms(2)
    by (simp add: effects_done_def after_held_def Let_def deliver_books)
qed

lemma apply_books:
  assumes "keyed x" "\<not> enqueuing x f" "chains_plain x"
  shows "balance (applyOperationCacheEffects env op es after f x) q + (if es = [] then after_held x after q else 0) = balance x q"
  using assms by (auto simp: applyOperationCacheEffects_def effects_done_books ask_books split: list.split)

end
