(* ===== verification/Exchange_Steps.thy ===== *)
theory Exchange_Steps
  imports Exchange_Books
begin

text \<open>
  What the steps of the exchange keep besides the balances: identifiers are fresh, live operations have
  distinct transaction ids, and no emission of a subscription waits as an enqueue.
\<close>

section \<open>Calm operations\<close>

fun arrives :: "nat \<Rightarrow> exchange_output \<Rightarrow> bool" where
  "arrives p (Arrived q op) \<longleftrightarrow> p = q"
| "arrives p _ \<longleftrightarrow> False"

definition arrivals :: "exchange \<Rightarrow> nat \<Rightarrow> nat" where
  "arrivals x p = length (filter (arrives p) (ex_out x))"

definition calm :: "exchange \<Rightarrow> exchange \<Rightarrow> bool" where
  "calm x y \<longleftrightarrow> ex_next y = ex_next x \<and> (\<forall>p. enqueuing y p \<longrightarrow> enqueuing x p) \<and> (keyed x \<longrightarrow> keyed y) \<and>
     (\<forall>p. arrivals y p = arrivals x p)"

lemmas calm_defs = calm_def keyed_def arrivals_def

lemma calm_refl: "calm x x"
  by (simp add: calm_def)

lemma calm_xout: "calm x y \<Longrightarrow> (\<And>p. \<not> arrives p out) \<Longrightarrow> calm x (xout out y)"
  by (simp add: calm_defs xout_def enqueuing_def)

lemma calm_put: "calm x y \<Longrightarrow> \<not> enqueue_stage st \<or> enqueuing y f \<Longrightarrow> calm x (put_fiber f st y)"
  by (auto simp: calm_defs put_fiber_def enqueuing_def update_conv' split: if_splits)

lemma calm_end: "calm x y \<Longrightarrow> calm x (end_fiber f y)"
  by (auto simp: calm_defs end_fiber_def enqueuing_def delete_conv' split: if_splits)

lemma calm_fields:
  "calm x y \<Longrightarrow> calm x (scheduleDrain d y)" "calm x y \<Longrightarrow> calm x (y\<lparr>ex_attempt := a\<rparr>)"
  "calm x y \<Longrightarrow> calm x (y\<lparr>ex_running := a\<rparr>)" "calm x y \<Longrightarrow> calm x (y\<lparr>ex_deferred := at\<rparr>)"
  "calm x y \<Longrightarrow> calm x (y\<lparr>ex_timer := at\<rparr>)" "calm x y \<Longrightarrow> calm x (y\<lparr>ex_routes := rs\<rparr>)"
  "calm x y \<Longrightarrow> calm x (y\<lparr>ex_chains := c\<rparr>)" "calm x y \<Longrightarrow> calm x (y\<lparr>ex_live := []\<rparr>)"
  "calm x y \<Longrightarrow> calm x (y\<lparr>ex_live := AList.delete tx (ex_live y)\<rparr>)"
  "calm x y \<Longrightarrow> calm x (y\<lparr>ex_live := AList.update tx e (ex_live y)\<rparr>)"
  by (simp_all add: calm_defs scheduleDrain_def enqueuing_def distinct_delete distinct_update)

lemma calm_ask: "calm x y \<Longrightarrow> \<not> enqueue_stage st \<or> enqueuing y f \<Longrightarrow> calm x (call_host f call st y)"
  unfolding call_host_def by (rule calm_put [OF calm_xout]) simp_all

lemma calm_error: "calm x y \<Longrightarrow> calm x (cache_error err y)"
  unfolding cache_error_def by (rule calm_xout) simp_all

lemmas calm_basic = calm_refl calm_xout calm_put calm_end calm_fields calm_ask calm_error

lemma calm_finish_route: "calm x y \<Longrightarrow> calm x (finish_route p res y)"
  unfolding finish_route_def by (cases res) (simp_all add: calm_basic)

lemma calm_resolve: "calm x y \<Longrightarrow> calm x (resolve_route p res y)"
  unfolding resolve_route_def by (simp add: calm_basic calm_finish_route split: option.split fiber.split)

lemma calm_await: "calm x y \<Longrightarrow> calm x (await_route p op y)"
  unfolding await_route_def by (simp add: calm_basic calm_finish_route split: option.split)

lemma calm_fold: "calm x y \<Longrightarrow> calm x (fold resolve_queued ls y)"
  by (induction ls arbitrary: y) (auto simp: resolve_queued_def calm_resolve)

lemma calm_resolve_live: "calm x y \<Longrightarrow> calm x (resolveLiveOperationsAsQueued y)"
  unfolding resolveLiveOperationsAsQueued_def by (intro calm_fold calm_basic)

lemma calm_done: "calm x y \<Longrightarrow> calm x (route_done k f y)"
  unfolding route_done_def by (cases k) (simp_all add: calm_await calm_basic)

lemma calm_failed: "calm x y \<Longrightarrow> calm x (route_failed k f err y)"
  unfolding route_failed_def by (intro calm_done calm_fields calm_resolve_live) (cases k; simp add: calm_basic)

lemma calm_roll_back: "calm x y \<Longrightarrow> calm x (roll_back cfg c reason k f y)"
  unfolding roll_back_def by (intro calm_ask) simp_all

lemmas calm_routes = calm_basic calm_finish_route calm_resolve calm_await calm_resolve_live calm_done calm_failed calm_roll_back

lemma calm_forget:
  "calm x y \<Longrightarrow> calm x (y\<lparr>ex_deferred := at, ex_attempt := a, ex_live := AList.delete tx (ex_live y)\<rparr>)"
  by (simp add: calm_defs enqueuing_def distinct_delete)

lemma calm_claimed: "calm x y \<Longrightarrow> calm x (routeClaimedMutation cfg env c k f y)"
  unfolding routeClaimedMutation_def Let_def by (simp add: calm_routes calm_forget split: option.split sum.split prod.split)

lemma calm_replay:
  "calm x y \<Longrightarrow> calm x (replay_settled cfg c k err f y)" "calm x y \<Longrightarrow> calm x (rolled_back k res f y)"
  "calm x y \<Longrightarrow> calm x (claim_settled cfg env res f y)"
  unfolding replay_settled_def rolled_back_def claim_settled_def Let_def
  by (simp_all add: calm_routes calm_claimed split: option.split sum.split)

lemma calm_enqueued: "calm x y \<Longrightarrow> calm x (enqueued cfg env op v p y)"
  unfolding enqueued_def Let_def by (simp add: calm_routes calm_claimed)

lemma calm_enqueue:
  "calm x y \<Longrightarrow> enqueuing y p \<Longrightarrow> calm x (enqueue_settled cfg env op oc claim res p y)"
  "calm x y \<Longrightarrow> calm x (enqueue_again_settled cfg env op res p y)"
  unfolding enqueue_settled_def enqueue_again_settled_def enqueue_uncertain_def Let_def
  by (simp_all add: calm_routes calm_enqueued split: sum.split)

lemma calm_revalidate: "calm x y \<Longrightarrow> calm x (revalidateAfterCommit env rs y)"
proof -
  have "calm x (revalidate_one env r z)" if "calm x z" for r z
    using that by (simp add: revalidate_one_def Let_def calm_basic split: sum.split)
  then show "calm x y \<Longrightarrow> calm x (revalidateAfterCommit env rs y)"
    unfolding revalidateAfterCommit_def by (induction rs arbitrary: y) simp_all
qed

lemma calm_deliver: "calm x y \<Longrightarrow> calm x (deliver r res f y)"
  by (simp add: deliver_def calm_basic)

lemma calm_settle:
  "calm x y \<Longrightarrow> calm x (finish_attempt env r qa d at f y)" "calm x y \<Longrightarrow> calm x (give_up r qa f y)"
  by (simp_all add: finish_attempt_def give_up_def calm_basic)

lemma calm_attempt:
  "calm x y \<Longrightarrow> calm x (attempt_uncertain env r qa err f y)" "calm x y \<Longrightarrow> calm x (settle_attempt cfg r qa f y)"
  "calm x y \<Longrightarrow> calm x (retry_decided env r qa b f y)"
  by (simp_all add: attempt_uncertain_def settle_attempt_def retry_decided_def Let_def calm_settle calm_basic split: sum.split)

lemma calm_chain: "calm x y \<Longrightarrow> calm x (run_chain k c y)"
  by (induction c arbitrary: y) (auto simp: calm_basic calm_deliver split: list.split)

lemma calm_arrives: "calm x y \<Longrightarrow> calm x (emission_arrives r f y)"
  by (simp add: emission_arrives_def Let_def calm_chain calm_basic del: run_chain.simps)

lemma calm_effects: "calm x y \<Longrightarrow> calm x (effects_done env after f y)"
  by (simp add: effects_done_def Let_def calm_settle calm_revalidate finish_plain_def calm_deliver calm_chain split: after_effects.split)

lemma calm_apply: "calm x y \<Longrightarrow> calm x (applyOperationCacheEffects env op es after f y)"
  by (simp add: applyOperationCacheEffects_def calm_effects calm_basic split: list.split)

lemma calm_commit: "calm x y \<Longrightarrow> calm x (commit_settled env r qa res f y)"
  by (simp add: commit_settled_def Let_def calm_effects calm_apply calm_attempt split: sum.split)

lemma calm_through: "calm x y \<Longrightarrow> calm x (writeThrough cfg env r f y)"
  by (simp add: writeThrough_def calm_attempt calm_apply finish_plain_def calm_deliver calm_arrives
      split: operation_kind.split option.split)

lemma calm_resume_enqueue: "calm x (resume_enqueue cfg env p res x)"
  by (auto simp: resume_enqueue_def calm_refl enqueuing_def split: option.split fiber.split intro!: calm_enqueue)

lemma calm_resume: "calm x (resume cfg env f res x)"
  by (simp add: resume_def calm_refl calm_replay calm_commit calm_apply calm_attempt calm_settle calm_error
      split: option.split fiber.split sum.split)

section \<open>Chains\<close>

lemma chain_frames [simp]:
  "ex_chains (xout out x) = ex_chains x" "ex_chains (put_fiber f st x) = ex_chains x"
  "ex_chains (end_fiber f x) = ex_chains x" "ex_chains (scheduleDrain d x) = ex_chains x"
  "ex_chains (cache_error err x) = ex_chains x" "ex_chains (call_host f call st x) = ex_chains x"
  "ex_chains (finish_route p res x) = ex_chains x" "ex_chains (resolve_route p res x) = ex_chains x"
  "ex_chains (await_route p op x) = ex_chains x" "ex_chains (route_done k f x) = ex_chains x"
  "ex_chains (deliver r rs f x) = ex_chains x"
  by (simp_all add: xout_def put_fiber_def end_fiber_def scheduleDrain_def cache_error_def finish_route_def
      resolve_route_def await_route_def call_host_def route_done_def deliver_def
      split: option.split fiber.split route_end.split)

lemma chain_frames_live [simp]: "ex_chains (resolveLiveOperationsAsQueued x) = ex_chains x"
proof -
  have "ex_chains (fold resolve_queued ls y) = ex_chains y" for ls y
    by (induction ls arbitrary: y) (auto simp: resolve_queued_def)
  then show ?thesis by (simp add: resolveLiveOperationsAsQueued_def)
qed

lemma chain_frames_routes [simp]:
  "ex_chains (route_failed k f err x) = ex_chains x" "ex_chains (roll_back cfg c reason k f x) = ex_chains x"
  "ex_chains (replay_settled cfg c k e f x) = ex_chains x"
  by (simp_all add: route_failed_def roll_back_def replay_settled_def split: route_end.split option.split)

lemma chain_frames_claimed [simp]:
  "ex_chains (routeClaimedMutation cfg env c k f x) = ex_chains x" "ex_chains (rolled_back k res f x) = ex_chains x"
  by (simp_all add: routeClaimedMutation_def rolled_back_def Let_def split: option.split sum.split prod.split)

lemma chain_frames_enqueue [simp]:
  "ex_chains (claim_settled cfg env res f x) = ex_chains x" "ex_chains (enqueued cfg env op v p x) = ex_chains x"
  "ex_chains (resume_enqueue cfg env p res x) = ex_chains x"
  by (simp_all add: claim_settled_def enqueued_def resume_enqueue_def enqueue_settled_def enqueue_again_settled_def
      enqueue_uncertain_def Let_def split: sum.split option.split fiber.split)

lemma chain_frames_revalidate [simp]: "ex_chains (revalidateAfterCommit env rs x) = ex_chains x"
proof -
  have "ex_chains (revalidate_one env r y) = ex_chains y" for r y
    by (simp add: revalidate_one_def Let_def split: sum.split)
  then show ?thesis unfolding revalidateAfterCommit_def by (induction rs arbitrary: x) simp_all
qed

lemma chain_frames_attempt [simp]:
  "ex_chains (finish_attempt env r qa d at f x) = ex_chains x" "ex_chains (give_up r qa f x) = ex_chains x"
  "ex_chains (attempt_uncertain env r qa err f x) = ex_chains x" "ex_chains (finish_plain r f x) = ex_chains x"
  "ex_chains (settle_attempt cfg r qa f x) = ex_chains x" "ex_chains (retry_decided env r qa b f x) = ex_chains x"
  by (simp_all add: finish_attempt_def give_up_def attempt_uncertain_def settle_attempt_def retry_decided_def
      finish_plain_def Let_def split: sum.split)

lemma chain_of_frame: "ex_chains y = ex_chains x \<Longrightarrow> chain_of y k = chain_of x k"
  by (simp add: chain_of_def)

lemma chain_of_deliver: "chain_of (deliver r res f x) k = chain_of x k"
  by (rule chain_of_frame) simp

lemma chain_of_run: "set (chain_of (run_chain k c x) j) \<subseteq> set (chain_of x j) \<union> set c"
proof (induction c)
  case Nil
  then show ?case by (simp add: chain_of_def delete_conv')
next
  case (Cons e c)
  obtain f r where e: "e = (f, r)" by (cases e)
  show ?case using Cons e chain_of_deliver [of r _ f "run_chain k c x" j]
    by (auto simp: chain_of_def update_conv' split: list.splits if_splits)
qed

lemma chain_of_other: "k \<noteq> j \<Longrightarrow> chain_of (run_chain k c x) j = chain_of x j"
proof (induction c)
  case (Cons e c)
  obtain f r where e: "e = (f, r)" by (cases e)
  show ?case using Cons e chain_of_deliver [of r _ f "run_chain k c x" j]
    by (auto simp: chain_of_def update_conv' split: list.splits)
qed (simp add: chain_of_def delete_conv')

lemma chain_of_arrives: "set (chain_of (emission_arrives r f x) j) \<subseteq> set (chain_of x j) \<union> {(f, r)}"
proof (cases "chain_of x (eo_key (nr_op r)) = []")
  case True
  then show ?thesis using chain_of_run [of "eo_key (nr_op r)" "[(f, r)]" x j]
    by (simp add: emission_arrives_def Let_def del: run_chain.simps)
next
  case False
  then show ?thesis by (auto simp: emission_arrives_def Let_def chain_of_def update_conv')
qed

lemma chain_of_effects: "set (chain_of (effects_done env after f x) j) \<subseteq> set (chain_of x j)"
proof (cases after)
  case (After_Emission r)
  let ?k = "eo_key (nr_op r)"
  have e: "chain_of (effects_done env after f x) j = chain_of (run_chain ?k (tl (chain_of x ?k)) x) j"
    using After_Emission by (simp add: effects_done_def Let_def chain_of_deliver del: run_chain.simps)
  show ?thesis
  proof (cases "?k = j")
    case True
    then show ?thesis using e chain_of_run [of ?k "tl (chain_of x ?k)" x j] set_of_tl by fastforce
  qed (simp add: e chain_of_other)
qed (simp_all add: effects_done_def chain_of_def)

end
