(* ===== verification/Exchange_Machine.thy ===== *)
theory Exchange_Machine
  imports Exchange_Steps
begin

text \<open>
  The exchange as a machine: its invariant, the balance of every step and of every run.
\<close>

section \<open>The invariant\<close>

definition exchange_inv :: "exchange \<Rightarrow> bool" where
  "exchange_inv x \<longleftrightarrow> keyed x \<and> (\<forall>p. enqueuing x p \<longrightarrow> p < ex_next x) \<and> chains_plain x \<and>
     (\<forall>k. \<forall>e \<in> set (chain_of x k). fst e < ex_next x) \<and>
     (\<forall>p. (ex_next x \<le> p \<longrightarrow> arrivals x p = 0) \<and> arrivals x p \<le> 1)"

lemma inv_calm:
  assumes "exchange_inv x" "calm x y" "\<And>k. set (chain_of y k) \<subseteq> set (chain_of x k)"
  shows "exchange_inv y"
  using assms unfolding exchange_inv_def calm_def chains_plain_def by (metis subsetD)

lemma inv_frame: "exchange_inv x \<Longrightarrow> calm x y \<Longrightarrow> ex_chains y = ex_chains x \<Longrightarrow> exchange_inv y"
  using inv_calm [of x y] chain_of_frame [of y x] by simp

lemma chain_of_apply: "set (chain_of (applyOperationCacheEffects env op es after f x) k) \<subseteq> set (chain_of x k)"
  using chain_of_effects by (auto simp: applyOperationCacheEffects_def chain_of_def split: list.split)

lemma chain_of_commit: "set (chain_of (commit_settled env r qa res f x) k) \<subseteq> set (chain_of x k)"
  using chain_of_effects chain_of_apply
  by (auto simp: commit_settled_def Let_def chain_of_def split: sum.split)

lemma chain_of_error: "chain_of (cache_error err x) k = chain_of x k"
  by (simp add: chain_of_def)

lemma chain_of_resume: "set (chain_of (resume cfg env f res x) k) \<subseteq> set (chain_of x k)"
proof (cases "map_of (ex_fibers x) f")
  case (Some st)
  show ?thesis
  proof (cases st)
    case (Applying op es after)
    then show ?thesis using Some chain_of_apply [of env op es after f _ k]
      by (auto simp: resume_def chain_of_error split: sum.split) (metis chain_of_error subsetD)
  next
    case (Committing r qa)
    then show ?thesis using Some chain_of_commit by (simp add: resume_def)
  qed (use Some in \<open>simp_all add: resume_def chain_of_def split: sum.split\<close>)
qed (simp add: resume_def)

lemma resume_keeps_inv: "exchange_inv x \<Longrightarrow> exchange_inv (resume cfg env f res x)"
  by (rule inv_calm [OF _ calm_resume chain_of_resume])

lemma chain_of_through: "set (chain_of (writeThrough cfg env r f x) k) \<subseteq> set (chain_of x k) \<union> {(f, r)}"
  using chain_of_arrives [of r f x k] chain_of_apply [of env "nr_op r" "operationCacheEffects (nr_data r)" "After_Plain r" f x k]
  by (auto simp: writeThrough_def chain_of_deliver chain_of_def split: operation_kind.split option.split)

text \<open>An identifier is taken.\<close>

lemma inv_taken:
  assumes "exchange_inv x" "keyed y = keyed x" "enqueuing y = enqueuing x" "chain_of y = chain_of x"
    and "ex_next y = Suc (ex_next x)" "\<And>p. arrivals y p = arrivals x p + (if p = ex_next x then n else 0)" "n \<le> 1"
  shows "exchange_inv y"
proof -
  have "\<forall>k. \<forall>e \<in> set (chain_of x k). fst e < Suc (ex_next x)" "\<forall>p. enqueuing x p \<longrightarrow> p < Suc (ex_next x)"
    using assms(1) less_SucI unfolding exchange_inv_def by blast+
  moreover have "(Suc (ex_next x) \<le> p \<longrightarrow> arrivals y p = 0) \<and> arrivals y p \<le> 1" for p
    using assms(1,6,7) by (auto simp: exchange_inv_def Suc_le_eq)
  ultimately show ?thesis using assms(1-5) unfolding exchange_inv_def chains_plain_def by simp
qed

lemma taken_frames:
  "keyed (xout out (x\<lparr>ex_next := n\<rparr>)) = keyed x" "enqueuing (xout out (x\<lparr>ex_next := n\<rparr>)) = enqueuing x"
  "chain_of (xout out (x\<lparr>ex_next := n\<rparr>)) = chain_of x" "ex_next (xout out (x\<lparr>ex_next := n\<rparr>)) = n"
  by (simp_all add: keyed_def chain_of_def xout_def enqueuing_def fun_eq_iff)

lemma inv_arrived: "exchange_inv x \<Longrightarrow> exchange_inv (xout (Arrived (ex_next x) op) (x\<lparr>ex_next := ex_next x + 1\<rparr>))"
  by (rule inv_taken [where x = x and n = 1]) (simp_all add: taken_frames, simp add: arrivals_def xout_def)

lemma inv_received: "exchange_inv x \<Longrightarrow> exchange_inv (xout (Received (ex_next x) r) (x\<lparr>ex_next := ex_next x + 1\<rparr>))"
  by (rule inv_taken [where x = x and n = 0]) (simp_all add: taken_frames, simp add: arrivals_def xout_def)

section \<open>The balance of a step\<close>

text \<open>The callers whose live operation a step overwrites or deletes without resolving its route.\<close>

definition forgets :: "exchange_input \<Rightarrow> exchange \<Rightarrow> nat \<Rightarrow> nat" where
  "forgets ev x q =
     (case ev of
        Enqueue_Settled p res \<Rightarrow> (if enqueuing x p then answer_held x res q else 0)
      | Host_Settled f res \<Rightarrow>
          (case map_of (ex_fibers x) f of
             Some (Deferring r qa at) \<Rightarrow> held x (qa_transaction qa) q
           | Some (Giving_Up r qa) \<Rightarrow> held x (qa_transaction qa) q
           | Some (Committing r qa) \<Rightarrow>
               (case res of
                  Inl err \<Rightarrow> held x (qa_transaction qa) q
                | Inr v \<Rightarrow> if list_ex is_delete (operationCacheEffects (nr_data r)) then 0 else held x (qa_transaction qa) q)
           | Some (Applying op es after) \<Rightarrow> (if es = [] then after_held x after q else 0)
           | _ \<Rightarrow> 0)
      | _ \<Rightarrow> 0)"

lemma not_enqueuing: "map_of (ex_fibers x) f = Some st \<Longrightarrow> \<not> enqueue_stage st \<Longrightarrow> \<not> enqueuing x f"
  by (simp add: enqueuing_def)

lemma leaves_quiet: "leaves f x y \<Longrightarrow> \<not> enqueuing x f \<Longrightarrow> balance y q = balance x q"
  using leaves_at [of f x y q] by (simp split: if_splits)

lemma commit_books:
  assumes "keyed x" "\<not> enqueuing x f" "chains_plain x"
  shows "balance (commit_settled env r qa res f x) q +
      (case res of Inl err \<Rightarrow> held x (qa_transaction qa) q
       | Inr v \<Rightarrow> if list_ex is_delete (operationCacheEffects (nr_data r)) then 0 else held x (qa_transaction qa) q)
    = balance x q"
proof (cases res)
  case (Inl err)
  then show ?thesis using uncertain_attempt_books [OF assms(1,2)] by (simp add: commit_settled_def)
next
  case (Inr v)
  let ?es = "operationCacheEffects (nr_data r)" and ?after = "After_Commit r qa (committed_revalidations v)"
  show ?thesis
  proof (cases "list_ex is_delete ?es")
    case True
    then have "?es \<noteq> []" by auto
    then show ?thesis using Inr True apply_books [OF assms, of env "nr_op r" ?es ?after q] by (simp add: commit_settled_def Let_def)
  next
    case False
    then show ?thesis using Inr effects_done_books [OF assms, of env ?after q] by (simp add: commit_settled_def Let_def after_held_def)
  qed
qed

lemma applying_books:
  assumes "keyed x" "\<not> enqueuing x f" "chains_plain x" "balance y = balance x" "enqueuing y = enqueuing x"
    "ex_live y = ex_live x" "ex_chains y = ex_chains x"
  shows "balance (applyOperationCacheEffects env op es after f y) q + (if es = [] then after_held x after q else 0) = balance x q"
proof -
  have "keyed y" "\<not> enqueuing y f" using assms by (simp_all add: keyed_def)
  moreover have "chains_plain y" using assms(3,5,7) by (simp add: chains_plain_def chain_of_def)
  moreover have "after_held y after q = after_held x after q" using held_same [OF assms(6)] by (simp add: after_held_def split: after_effects.split)
  ultimately show ?thesis using apply_books [of y f env op es after q] assms(4) by (cases "es = []") simp_all
qed

lemma resume_books:
  assumes "exchange_inv x"
  shows "balance (resume cfg env f res x) q + forgets (Host_Settled f res) x q = balance x q"
proof (cases "map_of (ex_fibers x) f")
  case None
  then show ?thesis by (simp add: resume_def forgets_def)
next
  case (Some st)
  have k: "keyed x" "chains_plain x" using assms by (simp_all add: exchange_inv_def)
  have n: "\<not> enqueue_stage st \<Longrightarrow> \<not> enqueuing x f" using not_enqueuing [OF Some] .
  show ?thesis
  proof (cases st)
    case Claiming
    then show ?thesis using Some n leaves_quiet [OF leaves_claim [OF k(1)]] by (simp add: resume_def forgets_def)
  next
    case (Rolling_Back j)
    then show ?thesis using Some n leaves_quiet [OF leaves_rolled_back] by (simp add: resume_def forgets_def)
  next
    case (Deferring r qa at)
    then show ?thesis using Some n uncertain_attempt_books [OF k(1)] finish_books [OF k(1)]
      by (simp add: resume_def forgets_def split: sum.split)
  next
    case (Giving_Up r qa)
    then show ?thesis using Some n uncertain_attempt_books [OF k(1)] finish_books [OF k(1)]
      by (simp add: resume_def forgets_def split: sum.split)
  next
    case (Committing r qa)
    then show ?thesis using Some n commit_books [OF k(1) _ k(2)] by (simp add: resume_def forgets_def)
  next
    case (Applying op es after)
    let ?y = "case res of Inl err \<Rightarrow> cache_error err x | Inr v \<Rightarrow> x"
    have "balance ?y = balance x" "enqueuing ?y = enqueuing x" "ex_live ?y = ex_live x" "ex_chains ?y = ex_chains x"
      by (simp_all split: sum.split)
    then have "balance (applyOperationCacheEffects env op es after f ?y) q + (if es = [] then after_held x after q else 0)
        = balance x q"
      using n Applying applying_books [OF k(1) _ k(2), of f ?y env op es after q] by simp
    then show ?thesis using Some Applying by (simp add: resume_def forgets_def del: if_split)
  qed (use Some in \<open>simp_all add: resume_def forgets_def\<close>)
qed

lemma enqueue_step_books:
  assumes "exchange_inv x"
  shows "balance (resume_enqueue cfg env p res x) q + forgets (Enqueue_Settled p res) x q = balance x q"
proof (cases "enqueuing x p")
  case True
  then obtain st where st: "map_of (ex_fibers x) p = Some st" "enqueue_stage st" by (auto simp: enqueuing_def)
  have "keyed x" using assms by (simp add: exchange_inv_def)
  then show ?thesis using st True enqueue_books [of x p] by (cases st) (simp_all add: resume_enqueue_def forgets_def)
next
  case False
  then show ?thesis
    by (auto simp: resume_enqueue_def forgets_def enqueuing_def split: option.split fiber.split)
qed

section \<open>Steps and runs\<close>

definition opens :: "exchange_input \<Rightarrow> exchange \<Rightarrow> nat \<Rightarrow> nat" where
  "opens ev x q = (case ev of Mutation_In op \<Rightarrow> of_bool (q = ex_next x) | _ \<Rightarrow> 0)"

lemma prepare_books:
  assumes "\<not> enqueuing x p"
  shows "balance (prepareMutation cfg env op p x) q = balance x q + of_bool (q = p)"
proof -
  have "balance (enqueue_ask cfg env op oc p x) q = balance x q + of_bool (q = p)" for oc
    using balance_put [of p "Enqueuing op oc (initial_claim_args cfg (xe_now env))"
        "xout (Host_Called p (Enqueue_Mutation (enqueue_args op oc (oc_patches oc) (oc_revalidations oc))
          (initial_claim_args cfg (xe_now env)))) x" q] assms
    by (auto simp: enqueue_ask_def Let_def call_host_def)
  then show ?thesis by (cases "q = p") (simp_all add: prepareMutation_def split: option.split)
qed

lemma through_books:
  assumes "keyed x" "chains_plain x" "\<not> enqueuing x f"
  shows "balance (writeThrough cfg env r f x) q = balance x q"
proof -
  have c: "balance (run_chain k [(f, r)] x) = balance x" for k r
    using chain_books [of "[(f, r)]" x k] assms(3) by simp
  have e: "balance (emission_arrives r f x) = balance x"
    by (simp add: emission_arrives_def Let_def c del: run_chain.simps)
  have "balance (finish_plain r f x) = balance x" by (simp add: finish_plain_def deliver_books assms(3))
  moreover have "balance (applyOperationCacheEffects env (nr_op r) es (After_Plain r) f x) q = balance x q" for es
    using apply_books [OF assms(1,3,2), of env "nr_op r" es "After_Plain r" q] by (cases "es = []") (simp_all add: after_held_def)
  ultimately show ?thesis
    using assms by (simp add: writeThrough_def e deliver_books settle_books split: operation_kind.split option.split)
qed

lemma drain_books:
  assumes "\<not> enqueuing x (ex_next x)" shows "balance (drainMutationQueue cfg env x) q = balance x q"
  using assms by (simp add: drainMutationQueue_def fresh_fiber_def Let_def ask_books)

lemma step_books:
  assumes "exchange_inv x"
  shows "balance (exchange_input_step cfg env ev x) q + forgets ev x q = balance x q + opens ev x q"
proof -
  have k: "keyed x" "chains_plain x" using assms by (simp_all add: exchange_inv_def)
  have n: "\<not> enqueuing x (ex_next x)" using assms by (auto simp: exchange_inv_def)
  show ?thesis
  proof (cases ev)
    case (Mutation_In op)
    then show ?thesis using n prepare_books [of "xout (Arrived (ex_next x) op) (x\<lparr>ex_next := ex_next x + 1\<rparr>)" "ex_next x" cfg env op q]
      by (simp add: fresh_fiber_def forgets_def opens_def)
  next
    case (Enqueue_Settled p res)
    then show ?thesis using enqueue_step_books [OF assms] by (simp add: opens_def)
  next
    case (Host_Settled f res)
    then show ?thesis using resume_books [OF assms] by (simp add: opens_def)
  next
    case (Network_Result r)
    let ?y = "xout (Received (ex_next x) r) (x\<lparr>ex_next := ex_next x + 1\<rparr>)"
    have "exchange_inv ?y" by (rule inv_received [OF assms])
    then show ?thesis using Network_Result n through_books [of ?y "ex_next x" cfg env r q]
      by (simp add: exchange_inv_def fresh_fiber_def forgets_def opens_def)
  next
    case (Retry_Decided f b)
    have "balance (retry_decided env r qa b f x) = balance x" if "map_of (ex_fibers x) f = Some (Deciding r qa)" for r qa
      using settle_books(3) [of x f env r qa b] not_enqueuing [OF that] by simp
    then show ?thesis using Retry_Decided by (simp add: forgets_def opens_def split: option.split fiber.split)
  next
    case (Replay_Settled f err)
    have "balance (replay_settled cfg c j err f x) q = balance x q" if "map_of (ex_fibers x) f = Some (Replaying c j)" for c j
      using leaves_quiet [OF leaves_replayed] not_enqueuing [OF that] by simp
    then show ?thesis using Replay_Settled by (simp add: forgets_def opens_def split: option.split fiber.split)
  next
    case Drain_Timer
    then show ?thesis using n drain_books [of "x\<lparr>ex_timer := None\<rparr>" cfg env q] by (simp add: forgets_def opens_def)
  qed (simp_all add: forgets_def opens_def)
qed

lemma inv_prepare:
  assumes "\<not> enqueuing x p" shows "exchange_inv x \<Longrightarrow> p < ex_next x \<Longrightarrow> (\<forall>k. \<forall>e \<in> set (chain_of x k). fst e \<noteq> p) \<Longrightarrow>
    exchange_inv (prepareMutation cfg env op p x)"
  by (auto simp: prepareMutation_def enqueue_ask_def Let_def exchange_inv_def chains_plain_def keyed_def chain_of_def
      arrivals_def call_host_def xout_def put_fiber_def enqueuing_def update_conv' split: option.splits)

section \<open>Guarded runs\<close>

text \<open>A run whose every event satisfies a guard in the state it finds.\<close>

fun abides :: "('e \<Rightarrow> 's \<Rightarrow> bool) \<Rightarrow> ('e \<Rightarrow> 's \<Rightarrow> 'o \<times> 's) \<Rightarrow> 'e list \<Rightarrow> 's \<Rightarrow> bool" where
  "abides ok step [] s \<longleftrightarrow> True"
| "abides ok step (e # es) s \<longleftrightarrow> ok e s \<and> abides ok step es (snd (step e s))"

locale guarded_machine =
  fixes init :: 's
    and step :: "'e \<Rightarrow> 's \<Rightarrow> 'o \<times> 's"
    and ok :: "'e \<Rightarrow> 's \<Rightarrow> bool"
    and inv :: "'s \<Rightarrow> bool"
  assumes inv_init: "inv init"
    and inv_step: "inv s \<Longrightarrow> ok e s \<Longrightarrow> inv (snd (step e s))"
begin

lemma inv_abides: "inv s \<Longrightarrow> abides ok step es s \<Longrightarrow> inv (snd (run step es s))"
  by (induction es arbitrary: s) (simp_all add: snd_run_Cons inv_step del: run.simps(2))

lemma inv_guarded: "abides ok step es init \<Longrightarrow> inv (snd (run step es init))"
  by (rule inv_abides [OF inv_init])

end

section \<open>The machine\<close>

lemma inv_initial_exchange: "exchange_inv (initial_exchange cfg)"
  by (simp add: exchange_inv_def initial_exchange_def keyed_def enqueuing_def chains_plain_def chain_of_def arrivals_def)

lemma inv_quiet_step:
  assumes "exchange_inv x"
  shows "exchange_inv (xout (Cache_Error_Reported m) x)" "exchange_inv (scheduleDrain d x)"
    "map_of (ex_fibers x) f = Some (Deciding r qa) \<Longrightarrow> exchange_inv (retry_decided env r qa b f x)"
    "exchange_inv (replay_settled cfg c k err f x)" "exchange_inv (resume_enqueue cfg env p res x)"
proof -
  show "exchange_inv (xout (Cache_Error_Reported m) x)" by (rule inv_frame [OF assms]) (simp_all add: calm_basic)
  show "exchange_inv (scheduleDrain d x)" by (rule inv_frame [OF assms]) (simp_all add: calm_basic)
  show "exchange_inv (retry_decided env r qa b f x)" by (rule inv_frame [OF assms]) (simp_all add: calm_attempt calm_refl)
  show "exchange_inv (replay_settled cfg c k err f x)" by (rule inv_frame [OF assms]) (simp_all add: calm_replay calm_refl)
  show "exchange_inv (resume_enqueue cfg env p res x)" by (rule inv_frame [OF assms]) (simp_all add: calm_resume_enqueue)
qed

lemma inv_next: "exchange_inv x \<Longrightarrow> exchange_inv (x\<lparr>ex_next := Suc (ex_next x)\<rparr>)"
  by (rule inv_taken [where x = x and n = 0])
    (simp_all add: keyed_def enqueuing_def chain_of_def arrivals_def fun_eq_iff)

lemma inv_drain: assumes "exchange_inv x" shows "exchange_inv (drainMutationQueue cfg env x)"
proof -
  have "calm (x\<lparr>ex_next := Suc (ex_next x)\<rparr>) (call_host (ex_next x) call Claiming (x\<lparr>ex_running := True, ex_next := Suc (ex_next x)\<rparr>))" for call
    by (intro calm_ask) (simp_all add: calm_defs enqueuing_def)
  then have a: "exchange_inv (call_host (ex_next x) call Claiming (x\<lparr>ex_running := True, ex_next := Suc (ex_next x)\<rparr>))" for call
    by (rule inv_frame [OF inv_next [OF assms]]) simp
  have "exchange_inv (resolveLiveOperationsAsQueued x)" by (rule inv_frame [OF assms]) (simp_all add: calm_resolve_live calm_refl)
  then show ?thesis using a assms by (simp add: drainMutationQueue_def fresh_fiber_def Let_def)
qed

lemma inv_through:
  assumes "exchange_inv x" "f < ex_next x" "\<not> enqueuing x f"
  shows "exchange_inv (writeThrough cfg env r f x)"
proof -
  let ?y = "writeThrough cfg env r f x"
  have c: "calm x ?y" by (rule calm_through [OF calm_refl])
  have "e \<in> set (chain_of ?y k) \<Longrightarrow> fst e < ex_next x \<and> \<not> enqueuing x (fst e)" for e k
    using chain_of_through [of cfg env r f x k] assms by (auto simp: exchange_inv_def chains_plain_def)
  then show ?thesis using c assms(1) unfolding exchange_inv_def chains_plain_def calm_def by simp blast
qed

lemma inv_exchange_step:
  assumes "exchange_inv x" shows "exchange_inv (exchange_input_step cfg env ev x)"
proof -
  have n: "\<not> enqueuing x (ex_next x)" using assms by (auto simp: exchange_inv_def)
  show ?thesis
  proof (cases ev)
    case (Mutation_In op)
    let ?y = "xout (Arrived (ex_next x) op) (x\<lparr>ex_next := ex_next x + 1\<rparr>)"
    have "\<forall>k. \<forall>e \<in> set (chain_of ?y k). fst e \<noteq> ex_next x"
      using assms by (fastforce simp: exchange_inv_def taken_frames)
    then show ?thesis using Mutation_In n inv_prepare [OF _ inv_arrived [OF assms]] by (simp add: fresh_fiber_def taken_frames)
  next
    case (Network_Result r)
    then show ?thesis using n inv_through [OF inv_received [OF assms]] by (simp add: fresh_fiber_def taken_frames)
  next
    case Drain_Timer
    have "exchange_inv (x\<lparr>ex_timer := None\<rparr>)" by (rule inv_frame [OF assms]) (simp_all add: calm_basic)
    then show ?thesis using Drain_Timer assms by (simp add: inv_drain)
  qed (use assms inv_quiet_step resume_keeps_inv in \<open>simp_all split: option.split fiber.split\<close>)
qed

end
