(* ===== verification/Exchange_Runner.thy ===== *)
theory Exchange_Runner
  imports Exchange_Machine
begin

text \<open>
  The runner of the mutation queue always has a wake-up source: an armed timer, an attempt in flight or a
  call of the runner that the host has not answered.
\<close>

section \<open>Frames of the runner\<close>

fun drain_stage :: "fiber \<Rightarrow> bool" where
  "drain_stage Claiming = True"
| "drain_stage (Replaying c End_Drain) = True"
| "drain_stage (Rolling_Back End_Drain) = True"
| "drain_stage _ = False"

text \<open>The drain fibers other than one are left alone.\<close>

definition others :: "nat \<Rightarrow> exchange \<Rightarrow> exchange \<Rightarrow> bool" where
  "others f x y \<longleftrightarrow> (\<forall>g st. g \<noteq> f \<longrightarrow> drain_stage st \<longrightarrow> (map_of (ex_fibers x) g = Some st \<longleftrightarrow> map_of (ex_fibers y) g = Some st))"

text \<open>The timer, the attempt flag and the running flag.\<close>

definition gauge :: "exchange \<Rightarrow> int option \<times> bool \<times> bool" where
  "gauge x = (ex_timer x, ex_attempt x, ex_running x)"

definition goes :: "nat \<Rightarrow> exchange \<Rightarrow> exchange \<Rightarrow> bool" where
  "goes f x y \<longleftrightarrow> others f x y \<and> gauge y = gauge x"

lemmas goes_defs = goes_def others_def gauge_def

lemma goes_refl: "goes f x x"
  by (simp add: goes_defs)

lemma goes_basic:
  "goes f x y \<Longrightarrow> goes f x (xout out y)" "goes f x y \<Longrightarrow> goes f x (put_fiber f st y)"
  "goes f x y \<Longrightarrow> goes f x (end_fiber f y)" "goes f x y \<Longrightarrow> goes f x (call_host f call st y)"
  "goes f x y \<Longrightarrow> goes f x (cache_error err y)" "goes f x y \<Longrightarrow> goes f x (finish_route f res y)"
  "goes f x y \<Longrightarrow> goes f x (y\<lparr>ex_deferred := at\<rparr>)" "goes f x y \<Longrightarrow> goes f x (y\<lparr>ex_live := ls\<rparr>)"
  "goes f x y \<Longrightarrow> goes f x (y\<lparr>ex_routes := rs\<rparr>)" "goes f x y \<Longrightarrow> goes f x (y\<lparr>ex_chains := cs\<rparr>)"
  "goes f x y \<Longrightarrow> goes f x (y\<lparr>ex_next := n\<rparr>)"
  by (auto simp: goes_defs xout_def put_fiber_def end_fiber_def call_host_def cache_error_def finish_route_def
      update_conv' delete_conv' split: option.split)

lemma goes_resolve: "goes f x y \<Longrightarrow> goes f x (resolve_route p res y)"
  by (auto simp: goes_defs resolve_route_def finish_route_def xout_def end_fiber_def delete_conv'
      split: option.split fiber.split)

lemma goes_await: "goes f x y \<Longrightarrow> goes f x (await_route f op y)"
  by (simp add: await_route_def goes_basic split: option.split)

lemma goes_resolve_live: "goes f x y \<Longrightarrow> goes f x (resolveLiveOperationsAsQueued y)"
proof -
  have "goes f x (fold resolve_queued ls z)" if "goes f x z" for ls z
    using that by (induction ls arbitrary: z) (auto simp: resolve_queued_def goes_resolve)
  then show "goes f x y \<Longrightarrow> ?thesis" by (simp add: resolveLiveOperationsAsQueued_def goes_basic)
qed

lemmas goes_routes = goes_refl goes_basic goes_resolve goes_await goes_resolve_live

lemma goes_gauge: "goes f x y \<Longrightarrow> ex_timer y = ex_timer x \<and> ex_attempt y = ex_attempt x \<and> ex_running y = ex_running x"
  by (simp add: goes_def gauge_def)

lemma goes_others: "goes f x y \<Longrightarrow> others f x y"
  by (simp add: goes_def)

lemma others_trans: "others f x y \<Longrightarrow> others f y z \<Longrightarrow> others f x z"
  by (simp add: others_def)

lemma others_fields:
  "others f x (scheduleDrain d x)" "others f x (x\<lparr>ex_attempt := a\<rparr>)" "others f x (x\<lparr>ex_running := b\<rparr>)"
  "others f x (x\<lparr>ex_timer := t\<rparr>)"
  by (simp_all add: others_def scheduleDrain_def)

lemma goes_from: "goes f y z \<Longrightarrow> others f x y \<Longrightarrow> others f x z"
  using others_trans goes_others by blast

lemma gauge_schedule [simp]:
  "ex_timer (scheduleDrain d x) = Some d" "ex_attempt (scheduleDrain d x) = ex_attempt x"
  "ex_running (scheduleDrain d x) = ex_running x"
  by (simp_all add: scheduleDrain_def)

section \<open>The operations of the runner\<close>

text \<open>What an operation of fiber \<open>f\<close> leaves: the other drain fibers, a wake-up source where there was one,
  and the running flag only with a drain fiber of its own.\<close>

definition stirred :: "exchange \<Rightarrow> bool" where
  "stirred x \<longleftrightarrow> ex_timer x \<noteq> None \<or> ex_attempt x"

definition draining :: "exchange \<Rightarrow> nat \<Rightarrow> bool" where
  "draining x f \<longleftrightarrow> (\<exists>st. map_of (ex_fibers x) f = Some st \<and> drain_stage st)"

definition drains_end :: "route_end \<Rightarrow> bool" where
  "drains_end k \<longleftrightarrow> k = End_Drain"

definition winds :: "route_end \<Rightarrow> nat \<Rightarrow> exchange \<Rightarrow> exchange \<Rightarrow> bool" where
  "winds k f x y \<longleftrightarrow> others f x y \<and> (stirred x \<longrightarrow> stirred y) \<and>
     (ex_running y \<longrightarrow> (if drains_end k then draining y f else ex_running x)) \<and> (draining y f \<longrightarrow> drains_end k)"

lemma draining_await: "\<not> draining (await_route f op x) f" "\<not> draining (end_fiber f x) f"
  by (simp_all add: await_route_def draining_def finish_route_def split: option.split)

lemma winds_done: "winds k f x (route_done k f x)"
proof (cases k)
  case (End_Prep op)
  have "goes f x (await_route f op x)" by (simp add: goes_routes)
  then show ?thesis using goes_gauge [OF \<open>goes f x _\<close>] End_Prep
    by (simp add: winds_def route_done_def goes_others stirred_def drains_end_def draining_await)
next
  case End_Drain
  have g: "goes f (x\<lparr>ex_running := False\<rparr>) (end_fiber f (x\<lparr>ex_running := False\<rparr>))" by (simp add: goes_routes)
  show ?thesis using goes_gauge [OF g] goes_from [OF g others_fields(3)] End_Drain
    by (simp add: winds_def route_done_def stirred_def drains_end_def)
qed

lemma winds_from:
  assumes "winds k f y z" "others f x y" "stirred x \<longrightarrow> stirred y" "ex_running y \<longrightarrow> ex_running x"
  shows "winds k f x z"
  using assms unfolding winds_def using others_trans by (auto split: if_splits)

lemma goes_stirred: "goes f x y \<Longrightarrow> stirred y = stirred x"
  using goes_gauge by (simp add: stirred_def)

lemma winds_goes: "winds k f y z \<Longrightarrow> goes f x y \<Longrightarrow> winds k f x z"
  using goes_gauge [of f x y] goes_others [of f x y] winds_from [of k f y z x] by (simp add: stirred_def)

lemma winds_done_goes: "goes f x y \<Longrightarrow> winds k f x (route_done k f y)"
  by (rule winds_goes [OF winds_done])

lemma stirred_done: "stirred (route_done k f x) = stirred x"
proof (cases k)
  case (End_Prep op)
  have "goes f x (await_route f op x)" by (simp add: goes_routes)
  then show ?thesis using goes_gauge End_Prep by (simp add: route_done_def stirred_def)
qed (simp add: route_done_def stirred_def end_fiber_def)

lemma winds_failed: "winds k f x (route_failed k f err x) \<and> stirred (route_failed k f err x)"
proof -
  define y where "y = resolveLiveOperationsAsQueued (case k of End_Prep op \<Rightarrow> cache_error err x | End_Drain \<Rightarrow> x)"
  define z where "z = scheduleDrain EMPTY_QUEUE_POLL_MS y"
  have y: "goes f x y" unfolding y_def by (cases k) (simp_all add: goes_routes)
  have z: "others f x z" using others_trans [OF goes_others [OF y]] others_fields(1) by (simp add: z_def)
  have r: "route_failed k f err x = route_done k f z" by (simp add: route_failed_def y_def z_def)
  have "stirred z" "ex_running z = ex_running x" using goes_gauge [OF y] by (simp_all add: z_def stirred_def)
  then show ?thesis unfolding r using winds_from [OF winds_done z, of k] by (simp add: stirred_done)
qed

lemma draining_ask: "draining (call_host f call st x) f = drain_stage st" "draining (put_fiber f st x) f = drain_stage st"
  by (simp_all add: draining_def call_host_def put_fiber_def update_conv')

lemma winds_roll_back: "winds k f x (roll_back cfg c reason k f x) \<and> (stirred x \<longrightarrow> stirred (roll_back cfg c reason k f x))"
proof -
  have "goes f x (roll_back cfg c reason k f x)" by (simp add: roll_back_def goes_routes)
  then show ?thesis using goes_gauge goes_others
    by (cases k) (auto simp: winds_def stirred_def drains_end_def roll_back_def draining_ask)
qed

lemma winds_claimed:
  "winds k f x (routeClaimedMutation cfg env c k f x) \<and> stirred (routeClaimedMutation cfg env c k f x)"
proof -
  define x1 where "x1 = x\<lparr>ex_deferred := None, ex_attempt := True\<rparr>"
  have x1: "others f x x1" "stirred x1" "ex_running x1 = ex_running x" by (simp_all add: x1_def others_def stirred_def)
  have "winds k f x1 (routeClaimedMutation cfg env c k f x) \<and> stirred (routeClaimedMutation cfg env c k f x)"
  proof (cases "map_of (ex_live x1) (cl_transaction c)")
    case None
    show ?thesis
    proof (cases "replayDocument (xe_parse env) (cl_query c) (cl_name c)")
      case (Inl reason)
      then show ?thesis using None winds_roll_back [of k f x1 cfg c reason] x1
        by (simp add: routeClaimedMutation_def x1_def [symmetric])
    next
      case (Inr defs)
      let ?z = "put_fiber f (Replaying c k) (xout (Replay_Sent f (replay_op cfg c)) x1)"
      have g: "goes f x1 ?z" by (simp add: goes_routes)
      have "winds k f x1 ?z" using goes_gauge [OF g] goes_others [OF g]
        by (cases k) (simp_all add: winds_def stirred_def drains_end_def draining_ask)
      then show ?thesis using None Inr goes_gauge [OF g] x1
        by (simp add: routeClaimedMutation_def x1_def [symmetric] stirred_def)
    qed
  next
    case (Some e)
    obtain p op where e: "e = (p, op)" by (cases e)
    let ?z = "resolveLiveOperationsAsQueued (xout (Forwarded p (op\<lparr>eo_attempt := Some (attempt_of cfg c), eo_timeout := True\<rparr>))
      (resolve_route p None (x1\<lparr>ex_live := AList.delete (cl_transaction c) (ex_live x1)\<rparr>)))"
    have g: "goes f x1 ?z" by (simp add: goes_routes)
    have "routeClaimedMutation cfg env c k f x = route_done k f ?z"
      using Some e by (simp add: routeClaimedMutation_def x1_def [symmetric])
    then show ?thesis using winds_done_goes [OF g, of k] goes_stirred [OF g] x1 by (simp add: stirred_done)
  qed
  then show ?thesis using winds_from [OF _ x1(1), of k "routeClaimedMutation cfg env c k f x"] x1(2,3) by simp
qed

lemma winds_claim:
  "winds k f x (claim_settled cfg env res f x) \<and> stirred (claim_settled cfg env res f x)" if "k = End_Drain"
proof -
  define y where "y = resolveLiveOperationsAsQueued x"
  have y: "goes f x y" by (simp add: y_def goes_routes)
  have "winds k f x (route_done k f (scheduleDrain d y)) \<and> stirred (route_done k f (scheduleDrain d y))" for d
  proof -
    have "others f x (scheduleDrain d y)" using others_trans [OF goes_others [OF y] others_fields(1)] .
    then have "winds k f x (route_done k f (scheduleDrain d y))"
      using winds_from [OF winds_done, of f x "scheduleDrain d y" k] goes_gauge [OF y] by (simp add: stirred_def)
    then show ?thesis by (simp add: stirred_done) (simp add: stirred_def)
  qed
  then show ?thesis using that winds_failed [of k f x] winds_claimed [of k f x cfg env]
    by (simp add: claim_settled_def Let_def y_def split: sum.split)
qed

lemma winds_replayed: "winds k f x (replay_settled cfg c k err f x)"
  using winds_roll_back winds_done_goes [of f x "resolveLiveOperationsAsQueued x"]
  by (simp add: replay_settled_def goes_routes split: option.split)

lemma winds_rolled_back: "winds k f x (rolled_back k res f x) \<and> stirred (rolled_back k res f x)"
proof -
  define y where "y = scheduleDrain 0 (x\<lparr>ex_attempt := False\<rparr>)"
  have y: "others f x y" "stirred y" "ex_running y = ex_running x"
    by (simp_all add: y_def others_def scheduleDrain_def stirred_def)
  have g: "goes f y (resolveLiveOperationsAsQueued y)" by (simp add: goes_routes)
  have "winds k f x (route_done k f (resolveLiveOperationsAsQueued y)) \<and> stirred (route_done k f (resolveLiveOperationsAsQueued y))"
    using winds_from [OF winds_done_goes [OF g] y(1), of k] y goes_stirred [OF g] by (simp add: stirred_done)
  moreover have "winds k f x (route_failed k f err y) \<and> stirred (route_failed k f err y)" for err
    using winds_failed [of k f y err] winds_from [of k f y _ x] y by simp
  ultimately show ?thesis by (simp add: rolled_back_def y_def [symmetric] Let_def split: sum.split)
qed

section \<open>Settlement\<close>

text \<open>An operation of a fiber that is no drain fiber.\<close>

definition stirs :: "nat \<Rightarrow> exchange \<Rightarrow> exchange \<Rightarrow> bool" where
  "stirs f x y \<longleftrightarrow> others f x y \<and> (stirred x \<longrightarrow> stirred y) \<and> (ex_running y \<longrightarrow> ex_running x) \<and> \<not> draining y f"

lemma stirs_goes: "goes f x y \<Longrightarrow> \<not> draining y f \<Longrightarrow> stirs f x y"
  by (simp add: stirs_def goes_others goes_stirred goes_gauge)

lemma goes_revalidate: "goes f x y \<Longrightarrow> goes f x (revalidateAfterCommit env rs y)"
proof -
  have "goes f x (revalidate_one env r z)" if "goes f x z" for r z
    using that by (simp add: revalidate_one_def Let_def goes_basic split: sum.split)
  then show "goes f x y \<Longrightarrow> ?thesis" unfolding revalidateAfterCommit_def by (induction rs arbitrary: y) simp_all
qed

lemma stirs_finish:
  assumes "goes f x y" shows "stirs f x (finish_attempt env r qa d at f y)"
proof -
  define z where "z = y\<lparr>ex_live := AList.delete (qa_transaction qa) (ex_live y), ex_attempt := False, ex_deferred := at\<rparr>"
  define t where "t = scheduleDrain (case at of None \<Rightarrow> 0 | Some a \<Rightarrow> max 0 (a - xe_now env)) z"
  have z: "others f y z" "ex_running z = ex_running y" by (simp_all add: z_def others_def)
  have t: "others f x t" "stirred t" "ex_running t = ex_running x"
    using others_trans [OF goes_others [OF assms] others_trans [OF z(1) others_fields(1)]] goes_gauge [OF assms] z(2)
    by (simp_all add: t_def stirred_def)
  define out where "out = Delivered f r (withOptimisticMutationDisposition (nr_op r) d (Some (qa_transaction qa)) (plain_result r))"
  have g: "goes f t (end_fiber f (xout out t))" by (simp add: goes_routes)
  have "finish_attempt env r qa d at f y = end_fiber f (xout out t)"
    by (simp add: finish_attempt_def z_def [symmetric] t_def [symmetric] out_def [symmetric])
  then show ?thesis using goes_from [OF g t(1)] goes_stirred [OF g] goes_gauge [OF g] t
    by (simp add: stirs_def draining_await)
qed

lemma stirs_attempt:
  "stirs f x (attempt_uncertain env r qa err f x)" "stirs f x (give_up r qa f x)" "stirs f x (settle_attempt cfg r qa f x)"
  "stirs f x (retry_decided env r qa b f x)"
  by (auto simp: attempt_uncertain_def give_up_def settle_attempt_def retry_decided_def Let_def goes_routes draining_ask
      split: sum.split intro!: stirs_finish stirs_goes)

lemma stirs_plain: "stirs f x (deliver r res f x)" "stirs f x (finish_plain r f x)"
  by (auto simp: deliver_def finish_plain_def goes_routes draining_await intro!: stirs_goes)

text \<open>The emissions of a chain are no drain fibers.\<close>

definition chains_idle :: "exchange \<Rightarrow> bool" where
  "chains_idle x \<longleftrightarrow> (\<forall>k. \<forall>e \<in> set (chain_of x k). \<not> draining x (fst e))"

text \<open>An operation that touches no drain fiber at all.\<close>

definition steady :: "exchange \<Rightarrow> exchange \<Rightarrow> bool" where
  "steady x y \<longleftrightarrow> gauge y = gauge x \<and>
     (\<forall>g st. drain_stage st \<longrightarrow> (map_of (ex_fibers x) g = Some st \<longleftrightarrow> map_of (ex_fibers y) g = Some st))"

lemma steady_goes: "goes f x y \<Longrightarrow> \<not> draining x f \<Longrightarrow> \<not> draining y f \<Longrightarrow> steady x y"
  unfolding steady_def goes_defs draining_def by metis

lemma steady_trans: "steady x y \<Longrightarrow> steady y z \<Longrightarrow> steady x z"
  by (simp add: steady_def)

lemma steady_draining: "steady x y \<Longrightarrow> draining y f = draining x f"
  by (auto simp: steady_def draining_def)

lemma steady_chain:
  "\<forall>e \<in> set c. \<not> draining x (fst e) \<Longrightarrow> steady x (run_chain k c x)"
proof (induction c)
  case (Cons e c)
  obtain f r where e: "e = (f, r)" by (cases e)
  have f: "\<not> draining x f" using Cons.prems e by simp
  have I: "steady x (run_chain k c x)" using Cons by simp
  show ?case
  proof (cases "emission_effects r")
    case Nil
    have "steady (run_chain k c x) (deliver r (plain_result r) f (run_chain k c x))"
      by (rule steady_goes [of f]) (simp_all add: deliver_def goes_routes draining_await steady_draining [OF I] f)
    then show ?thesis using Nil e steady_trans [OF I] by simp
  next
    case (Cons a es)
    let ?y = "call_host f (effect_call (nr_op r) a) (Applying (nr_op r) es (After_Emission r)) (x\<lparr>ex_chains := AList.update k ((f, r) # c) (ex_chains x)\<rparr>)"
    have "steady x ?y" by (rule steady_goes [of f]) (simp_all add: goes_routes draining_ask f)
    then show ?thesis using Cons e by simp
  qed
qed (simp add: steady_def gauge_def)

lemma stirs_steady: "steady x y \<Longrightarrow> \<not> draining x f \<Longrightarrow> stirs f x y"
  using steady_draining [of x y f] by (auto simp: stirs_def steady_def others_def gauge_def stirred_def)

lemma stirs_trans: "stirs f x y \<Longrightarrow> stirs f y z \<Longrightarrow> stirs f x z"
  using others_trans by (auto simp: stirs_def)

lemma stirs_effects:
  assumes "chains_idle x" "\<not> draining x f" shows "stirs f x (effects_done env after f x)"
proof (cases after)
  case (After_Commit r qa rs)
  then show ?thesis by (simp add: effects_done_def stirs_finish goes_revalidate goes_refl)
next
  case (After_Plain r)
  then show ?thesis by (simp add: effects_done_def stirs_plain)
next
  case (After_Emission r)
  let ?k = "eo_key (nr_op r)"
  let ?y = "run_chain ?k (tl (chain_of x ?k)) x"
  have "\<forall>e \<in> set (tl (chain_of x ?k)). \<not> draining x (fst e)" using assms(1) set_of_tl unfolding chains_idle_def by fast
  then have "stirs f x ?y" using steady_chain stirs_steady assms(2) by blast
  then have "stirs f x (deliver r (plain_result r) f ?y)" using stirs_plain(1) stirs_trans by blast
  then show ?thesis using After_Emission by (simp add: effects_done_def Let_def)
qed

lemma stirs_apply:
  assumes "chains_idle x" "\<not> draining x f" shows "stirs f x (applyOperationCacheEffects env op es after f x)"
  using stirs_effects [OF assms]
  by (auto simp: applyOperationCacheEffects_def goes_routes draining_ask split: list.split intro!: stirs_goes)

lemma stirs_commit:
  assumes "chains_idle x" "\<not> draining x f" shows "stirs f x (commit_settled env r qa res f x)"
  using stirs_effects [OF assms] stirs_apply [OF assms] stirs_attempt(1)
  by (simp add: commit_settled_def Let_def split: sum.split)

lemma stirs_through:
  assumes "chains_idle x" "\<not> draining x f" shows "stirs f x (writeThrough cfg env r f x)"
proof -
  have "steady x (run_chain k [(f, r)] x)" for k by (rule steady_chain) (simp add: assms(2))
  then have "stirs f x (run_chain k [(f, r)] x)" for k using stirs_steady assms(2) by blast
  moreover have "stirs f x (x\<lparr>ex_chains := c\<rparr>)" for c
    using assms(2) by (auto simp: draining_def goes_routes intro!: stirs_goes)
  ultimately have "stirs f x (emission_arrives r f x)" by (simp add: emission_arrives_def Let_def del: run_chain.simps)
  then show ?thesis using stirs_plain stirs_attempt stirs_apply [OF assms]
    by (simp add: writeThrough_def split: operation_kind.split option.split)
qed

section \<open>The invariant of the runner\<close>

text \<open>The runner itself is waiting for the host.\<close>

definition at_host :: "exchange \<Rightarrow> bool" where
  "at_host x \<longleftrightarrow> (\<exists>f. map_of (ex_fibers x) f = Some Claiming \<or> map_of (ex_fibers x) f = Some (Rolling_Back End_Drain))"

definition awake :: "exchange_config \<Rightarrow> exchange \<Rightarrow> bool" where
  "awake cfg x \<longleftrightarrow> xc_disabled cfg \<or> stirred x \<or> at_host x"

text \<open>The invariant of the runner, and the guard: a timer does not fire before the promise of a settled replay is resolved.\<close>

definition runner_inv :: "exchange_config \<Rightarrow> exchange \<Rightarrow> bool" where
  "runner_inv cfg x \<longleftrightarrow> awake cfg x \<and> (ex_running x \<longrightarrow> (\<exists>f. draining x f)) \<and> (\<forall>f. draining x f \<longrightarrow> f < ex_next x) \<and>
     chains_idle x \<and> (\<forall>k. \<forall>e \<in> set (chain_of x k). fst e < ex_next x)"

definition replay_pending :: "exchange \<Rightarrow> bool" where
  "replay_pending x \<longleftrightarrow> \<not> ex_attempt x \<and> list_ex (\<lambda>e. case snd e of Replaying c End_Drain \<Rightarrow> True | _ \<Rightarrow> False) (ex_fibers x)"

fun prompt :: "exchange_event \<Rightarrow> exchange \<Rightarrow> bool" where
  "prompt (env, Drain_Timer) x \<longleftrightarrow> \<not> replay_pending x"
| "prompt (env, ev) x \<longleftrightarrow> True"

lemma drain_stages: "drain_stage st \<longleftrightarrow> st = Claiming \<or> st = Rolling_Back End_Drain \<or> (\<exists>c. st = Replaying c End_Drain)"
  by (cases st rule: drain_stage.cases) simp_all

lemma not_pending:
  assumes "draining x f" "\<not> replay_pending x" "\<not> ex_attempt x" shows "at_host x"
proof -
  obtain st where st: "map_of (ex_fibers x) f = Some st" "drain_stage st" using assms(1) by (auto simp: draining_def)
  have "st \<noteq> Replaying c End_Drain" for c
    using assms(2,3) map_of_SomeD [OF st(1)] by (auto simp: replay_pending_def list_ex_iff)
  then show ?thesis using st by (auto simp: at_host_def drain_stages)
qed

text \<open>An operation of a fiber keeps the invariant.\<close>

lemma others_at_host:
  assumes "others f x y" "map_of (ex_fibers x) f \<noteq> Some Claiming" "map_of (ex_fibers x) f \<noteq> Some (Rolling_Back End_Drain)"
    and "at_host x"
  shows "at_host y"
  using assms unfolding at_host_def others_def by (metis drain_stage.simps(1,3))

lemma others_idle_host: "others f x y \<Longrightarrow> \<not> draining x f \<Longrightarrow> at_host x \<Longrightarrow> at_host y"
  by (rule others_at_host) (auto simp: draining_def)

lemma runner_kept:
  assumes "runner_inv cfg x" "others f x y" "draining y f \<longrightarrow> draining x f" "ex_next y = ex_next x"
    and "\<And>k e. e \<in> set (chain_of y k) \<Longrightarrow> e \<in> set (chain_of x k) \<or> fst e < ex_next x \<and> \<not> draining x (fst e)"
    and "awake cfg y" "ex_running y \<longrightarrow> (\<exists>f. draining y f)"
  shows "runner_inv cfg y"
proof -
  have d: "draining x g" if "draining y g" for g
    using that assms(2,3) unfolding others_def draining_def by metis
  have c: "fst e < ex_next x \<and> \<not> draining x (fst e)" if "e \<in> set (chain_of y k)" for k e
    using assms(5) [OF that] assms(1) by (auto simp: runner_inv_def chains_idle_def)
  have "chains_idle y" using d c unfolding chains_idle_def by blast
  then show ?thesis using assms(1,4,6,7) d c by (auto simp: runner_inv_def)
qed

lemma runner_stirs:
  assumes "runner_inv cfg x" "stirs f x y" "\<not> draining x f" "calm x y"
    and "\<And>k e. e \<in> set (chain_of y k) \<Longrightarrow> e \<in> set (chain_of x k) \<or> fst e < ex_next x \<and> \<not> draining x (fst e)"
  shows "runner_inv cfg y"
proof (rule runner_kept [OF assms(1) _ _ _ assms(5)])
  show o: "others f x y" and "draining y f \<longrightarrow> draining x f" using assms(2) by (simp_all add: stirs_def)
  show "ex_next y = ex_next x" using assms(4) by (simp add: calm_def)
  have "at_host x \<Longrightarrow> at_host y" by (rule others_idle_host [OF o assms(3)])
  then show "awake cfg y" using assms(1,2) by (auto simp: runner_inv_def awake_def stirs_def)
  show "ex_running y \<longrightarrow> (\<exists>f. draining y f)"
  proof
    assume "ex_running y"
    then obtain g where g: "draining x g" using assms(1,2) by (auto simp: runner_inv_def stirs_def)
    then have "g \<noteq> f" using assms(3) by blast
    then have "draining y g" using g o unfolding others_def draining_def by metis
    then show "\<exists>f. draining y f" by blast
  qed
qed

lemma runner_stirs_frame:
  "runner_inv cfg x \<Longrightarrow> stirs f x y \<Longrightarrow> \<not> draining x f \<Longrightarrow> calm x y \<Longrightarrow> ex_chains y = ex_chains x \<Longrightarrow> runner_inv cfg y"
  using runner_stirs [of cfg x f y] chain_of_frame [of y x] by simp

lemma stirs_winds: "winds (End_Prep op) f x y \<Longrightarrow> stirs f x y"
  by (simp add: winds_def stirs_def drains_end_def)

lemma runner_winds:
  assumes "runner_inv cfg x" "winds k f x y" "drains_end k \<longleftrightarrow> draining x f" "calm x y" "ex_chains y = ex_chains x"
    and "stirred y \<or> (map_of (ex_fibers x) f \<noteq> Some Claiming \<and> map_of (ex_fibers x) f \<noteq> Some (Rolling_Back End_Drain))"
  shows "runner_inv cfg y"
proof (cases k)
  case (End_Prep op)
  then show ?thesis
    using runner_stirs_frame [OF assms(1) stirs_winds] assms(2-5) by (simp add: drains_end_def)
next
  case End_Drain
  have o: "others f x y" using assms(2) by (simp add: winds_def)
  show ?thesis
  proof (rule runner_kept [OF assms(1) o])
    show "draining y f \<longrightarrow> draining x f" using assms(2,3) by (simp add: winds_def)
    show "ex_next y = ex_next x" using assms(4) by (simp add: calm_def)
    show "e \<in> set (chain_of x k) \<or> fst e < ex_next x \<and> \<not> draining x (fst e)" if "e \<in> set (chain_of y k)" for k e
      using that chain_of_frame [OF assms(5)] by simp
    show "awake cfg y"
    proof (cases "stirred y")
      case False
      then have "at_host x \<Longrightarrow> at_host y" using others_at_host [OF o] assms(6) by blast
      then show ?thesis using assms(1,2) by (auto simp: runner_inv_def awake_def winds_def)
    qed (simp add: awake_def)
    show "ex_running y \<longrightarrow> (\<exists>f. draining y f)" using assms(2) End_Drain by (auto simp: winds_def drains_end_def)
  qed
qed

lemma stirs_enqueued: "stirs p x (enqueued cfg env op v p x)"
proof -
  define x1 where "x1 = x\<lparr>ex_live := AList.update (the_str (getp v ''transactionId'')) (p, op) (ex_live x)\<rparr>"
  have x1: "goes p x x1" by (simp add: x1_def goes_routes)
  have a: "stirs p x (await_route p op (scheduleDrain d (resolveLiveOperationsAsQueued y)))" if y: "goes p x y" for d y
  proof -
    define z where "z = scheduleDrain d (resolveLiveOperationsAsQueued y)"
    have g: "goes p x (resolveLiveOperationsAsQueued y)" by (simp add: goes_routes y)
    have z: "others p x z" "stirred z" "ex_running z = ex_running x"
      using others_trans [OF goes_others [OF g] others_fields(1)] goes_gauge [OF g] by (simp_all add: z_def stirred_def)
    have "goes p z (await_route p op z)" by (simp add: goes_routes)
    then have "stirs p x (await_route p op z)"
      using z goes_from [of p z _ x] goes_stirred [of p z] goes_gauge [of p z] by (simp add: stirs_def draining_await)
    then show ?thesis by (simp add: z_def)
  qed
  have "stirs p x (routeClaimedMutation cfg env c (End_Prep op) p x1)" for c
    using winds_goes [OF conjunct1 [OF winds_claimed] x1] by (rule stirs_winds)
  then show ?thesis
    unfolding enqueued_def Let_def x1_def [symmetric] by (simp add: a goes_basic x1)
qed

lemma stirs_enqueue:
  "stirs p x (enqueue_settled cfg env op oc claim res p x)" "stirs p x (enqueue_again_settled cfg env op res p x)"
  by (auto simp: enqueue_settled_def enqueue_again_settled_def enqueue_uncertain_def Let_def stirs_enqueued
      goes_routes draining_ask draining_await split: sum.split intro!: stirs_goes)

lemma runner_enqueue: "runner_inv cfg x \<Longrightarrow> runner_inv cfg (resume_enqueue cfg env p res x)"
proof (cases "enqueuing x p")
  case True
  assume i: "runner_inv cfg x"
  from True obtain st where st: "map_of (ex_fibers x) p = Some st" "enqueue_stage st" by (auto simp: enqueuing_def)
  then have "\<not> draining x p" by (cases st) (simp_all add: draining_def)
  moreover have "stirs p x (resume_enqueue cfg env p res x)"
    using st stirs_enqueue by (cases st) (simp_all add: resume_enqueue_def)
  ultimately show ?thesis using runner_stirs_frame [OF i] calm_resume_enqueue chain_frames_enqueue(3) by blast
next
  case False
  assume "runner_inv cfg x"
  then show ?thesis using False
    by (auto simp: resume_enqueue_def enqueuing_def split: option.split fiber.split)
qed

section \<open>Steps\<close>

lemma not_draining: "map_of (ex_fibers x) f = Some st \<Longrightarrow> draining x f = drain_stage st"
  by (simp add: draining_def)

lemma runner_settled:
  assumes "runner_inv cfg x" "map_of (ex_fibers x) f = Some st" "\<not> drain_stage st" "stirs f x y" "calm x y"
    and "\<And>k. set (chain_of y k) \<subseteq> set (chain_of x k)"
  shows "runner_inv cfg y"
  using runner_stirs [OF assms(1,4) _ assms(5)] assms(6) not_draining [OF assms(2)] assms(3) by blast

lemma stirs_error_then:
  assumes "chains_idle x" "\<not> draining x f"
  shows "stirs f x (applyOperationCacheEffects env op es after f (cache_error err x))"
proof -
  have g: "goes f x (cache_error err x)" by (simp add: goes_routes)
  have d: "\<not> draining (cache_error err x) g \<longleftrightarrow> \<not> draining x g" for g by (simp add: draining_def)
  have "stirs f x (cache_error err x)" by (rule stirs_goes [OF g]) (simp add: d assms(2))
  moreover have "chains_idle (cache_error err x)" using assms(1) by (simp add: chains_idle_def chain_of_error d)
  ultimately show ?thesis using stirs_apply [of "cache_error err x" f env op es after] stirs_trans d assms(2) by blast
qed

lemma runner_resume:
  assumes "runner_inv cfg x" shows "runner_inv cfg (resume cfg env f res x)"
proof (cases "map_of (ex_fibers x) f")
  case None
  then show ?thesis using assms by (simp add: resume_def)
next
  case (Some st)
  have i: "chains_idle x" using assms by (simp add: runner_inv_def)
  let ?y = "resume cfg env f res x"
  have k: "calm x ?y" by (rule calm_resume)
  have s: "stirs f x ?y \<Longrightarrow> \<not> drain_stage st \<Longrightarrow> runner_inv cfg ?y"
    by (rule runner_settled [OF assms Some _ _ k chain_of_resume])
  show ?thesis
  proof (cases st)
    case Claiming
    have w: "winds End_Drain f x (claim_settled cfg env res f x) \<and> stirred (claim_settled cfg env res f x)"
      by (rule winds_claim) simp
    have "runner_inv cfg (claim_settled cfg env res f x)"
      by (rule runner_winds [OF assms conjunct1 [OF w]])
        (simp_all add: calm_replay calm_refl w not_draining [OF Some] Claiming drains_end_def)
    then show ?thesis using Some Claiming by (simp add: resume_def)
  next
    case (Rolling_Back j)
    have w: "drains_end j = draining x f" using Rolling_Back not_draining [OF Some] by (cases j) (simp_all add: drains_end_def)
    have "runner_inv cfg (rolled_back j res f x)"
      by (rule runner_winds [OF assms conjunct1 [OF winds_rolled_back] w])
        (simp_all add: calm_replay calm_refl winds_rolled_back)
    then show ?thesis using Some Rolling_Back by (simp add: resume_def)
  next
    case (Deferring r qa at)
    then show ?thesis using Some s stirs_attempt(1) stirs_finish [OF goes_refl] by (simp add: resume_def split: sum.splits)
  next
    case (Giving_Up r qa)
    then show ?thesis using Some s stirs_attempt(1) stirs_finish [OF goes_refl] by (simp add: resume_def split: sum.splits)
  next
    case (Committing r qa)
    then have "\<not> draining x f" using not_draining [OF Some] by simp
    then show ?thesis using Some s stirs_commit [OF i] Committing by (simp add: resume_def)
  next
    case (Applying op es after)
    then have "\<not> draining x f" using not_draining [OF Some] by simp
    then show ?thesis using Some s stirs_apply [OF i] stirs_error_then [OF i] Applying
      by (simp add: resume_def split: sum.splits)
  qed (use Some assms in \<open>simp_all add: resume_def\<close>)
qed

lemma runner_taken:
  assumes "runner_inv cfg x" shows "runner_inv cfg (xout out (x\<lparr>ex_next := Suc (ex_next x)\<rparr>))"
proof -
  let ?y = "xout out (x\<lparr>ex_next := Suc (ex_next x)\<rparr>)"
  have a: "draining ?y = draining x" "chain_of ?y = chain_of x" "at_host ?y = at_host x" "gauge ?y = gauge x"
    by (simp_all add: draining_def chain_of_def at_host_def gauge_def xout_def fun_eq_iff)
  have b: "awake cfg ?y = awake cfg x" "ex_running ?y = ex_running x" using a(3,4) by (simp_all add: awake_def stirred_def gauge_def)
  have n: "ex_next ?y = Suc (ex_next x)" by (simp add: xout_def)
  have "\<forall>k. \<forall>e \<in> set (chain_of x k). fst e < Suc (ex_next x)" "\<forall>f. draining x f \<longrightarrow> f < Suc (ex_next x)"
    using assms less_SucI unfolding runner_inv_def by blast+
  then show ?thesis using assms unfolding runner_inv_def chains_idle_def a b n by simp
qed

lemma runner_through:
  assumes "runner_inv cfg x" "\<not> draining x f" "f < ex_next x"
  shows "runner_inv cfg (writeThrough cfg env r f x)"
proof (rule runner_stirs [OF assms(1) _ assms(2) calm_through [OF calm_refl]])
  show "stirs f x (writeThrough cfg env r f x)" using assms by (auto simp: runner_inv_def intro: stirs_through)
  show "e \<in> set (chain_of x k) \<or> fst e < ex_next x \<and> \<not> draining x (fst e)"
    if "e \<in> set (chain_of (writeThrough cfg env r f x) k)" for k e
    using that chain_of_through [of cfg env r f x k] assms(2,3) by auto
qed

lemma runner_quiet:
  assumes "runner_inv cfg x" "goes (ex_next x) x y" "\<not> draining y (ex_next x)" "calm x y" "ex_chains y = ex_chains x"
  shows "runner_inv cfg y"
proof -
  have "\<not> draining x (ex_next x)" using assms(1) by (auto simp: runner_inv_def)
  then show ?thesis using runner_stirs_frame [OF assms(1) stirs_goes [OF assms(2,3)]] assms(4,5) by simp
qed

lemma runner_prepare:
  assumes "runner_inv cfg x" "\<not> draining x p" "p < ex_next x"
  shows "runner_inv cfg (prepareMutation cfg env op p x)"
proof -
  let ?y = "prepareMutation cfg env op p x"
  have g: "goes p x ?y"
    by (simp add: prepareMutation_def enqueue_ask_def Let_def goes_routes split: option.split)
  have d: "\<not> draining ?y p"
    using assms(2) by (simp add: prepareMutation_def enqueue_ask_def Let_def draining_ask split: option.split)
      (simp add: draining_def)
  have c: "ex_chains ?y = ex_chains x" "ex_next ?y = ex_next x"
    by (simp_all add: prepareMutation_def enqueue_ask_def Let_def call_host_def put_fiber_def xout_def split: option.split)
  show ?thesis
  proof (rule runner_kept [OF assms(1) goes_others [OF g]])
    show "e \<in> set (chain_of x k) \<or> fst e < ex_next x \<and> \<not> draining x (fst e)" if "e \<in> set (chain_of ?y k)" for k e
      using that chain_of_frame [OF c(1)] by simp
    have o: "at_host x \<Longrightarrow> at_host ?y"
      by (rule others_idle_host [OF goes_others [OF g] assms(2)])
    then show "awake cfg ?y" using assms(1) goes_stirred [OF g] by (auto simp: runner_inv_def awake_def)
    show "ex_running ?y \<longrightarrow> (\<exists>f. draining ?y f)"
    proof
      assume "ex_running ?y"
      then obtain h where h: "draining x h" using assms(1) goes_gauge [OF g] by (auto simp: runner_inv_def)
      then have "h \<noteq> p" using assms(2) by blast
      then show "\<exists>f. draining ?y f" using h goes_others [OF g] unfolding others_def draining_def by metis
    qed
  qed (use c d in simp_all)
qed

lemma goes_all_draining:
  assumes "\<And>f. goes f x y" shows "draining y g = draining x g"
  using assms [of "Suc g"] unfolding goes_defs draining_def by (metis n_not_Suc_n)

lemma runner_drain:
  assumes "runner_inv cfg x" "\<not> replay_pending x"
  shows "runner_inv cfg (drainMutationQueue cfg env (x\<lparr>ex_timer := None\<rparr>))"
proof -
  let ?t = "x\<lparr>ex_timer := None\<rparr>"
  have t: "draining ?t = draining x" "chain_of ?t = chain_of x" "chains_idle ?t = chains_idle x" "at_host ?t = at_host x"
    by (simp_all add: draining_def chain_of_def chains_idle_def at_host_def fun_eq_iff)
  have T: "awake cfg ?t \<Longrightarrow> runner_inv cfg ?t"
    using assms(1) by (simp add: runner_inv_def t)
  consider (attempt) "ex_attempt x" | (running) "\<not> ex_attempt x" "ex_running x" | (idle) "\<not> ex_attempt x" "\<not> ex_running x"
    by blast
  then show ?thesis
  proof cases
    case attempt
    have i: "runner_inv cfg ?t" using T attempt by (simp add: awake_def stirred_def)
    have "runner_inv cfg (resolveLiveOperationsAsQueued ?t)"
    proof (rule runner_quiet [OF i])
      show "goes (ex_next ?t) ?t (resolveLiveOperationsAsQueued ?t)" by (rule goes_resolve_live [OF goes_refl])
      have "draining (resolveLiveOperationsAsQueued ?t) (ex_next ?t) = draining ?t (ex_next ?t)"
        by (rule goes_all_draining) (rule goes_resolve_live [OF goes_refl])
      then show "\<not> draining (resolveLiveOperationsAsQueued ?t) (ex_next ?t)" using i by (auto simp: runner_inv_def)
    qed (simp_all add: calm_resolve_live calm_refl)
    then show ?thesis using attempt by (simp add: drainMutationQueue_def)
  next
    case running
    then have "at_host x" using assms not_pending by (auto simp: runner_inv_def)
    then have "awake cfg ?t" by (simp add: awake_def t)
    then show ?thesis using running T by (simp add: drainMutationQueue_def)
  next
    case idle
    let ?u = "?t\<lparr>ex_running := True, ex_next := Suc (ex_next x)\<rparr>"
    have y: "runner_inv cfg (call_host (ex_next x) call Claiming ?u)" for call
    proof -
      let ?y = "call_host (ex_next x) call Claiming ?u"
      have f: "map_of (ex_fibers ?y) = (map_of (ex_fibers x))(ex_next x \<mapsto> Claiming)" by (simp add: call_host_def)
      have d: "draining ?y g \<longleftrightarrow> g = ex_next x \<or> draining x g" for g by (simp add: draining_def f)
      have c: "chain_of ?y = chain_of x" by (simp add: chain_of_def fun_eq_iff)
      have n: "ex_next ?y = Suc (ex_next x)" by (simp add: call_host_def put_fiber_def xout_def)
      have e: "fst e < ex_next x \<and> \<not> draining x (fst e)" if "e \<in> set (chain_of x k)" for e k
        using that assms(1) by (auto simp: runner_inv_def chains_idle_def)
      have "\<forall>k. \<forall>e \<in> set (chain_of x k). \<not> (fst e = ex_next x \<or> draining x (fst e))" using e less_irrefl by metis
      then have "chains_idle ?y" unfolding chains_idle_def c d .
      moreover have "\<forall>k. \<forall>e \<in> set (chain_of x k). fst e < Suc (ex_next x)" using e less_SucI by blast
      moreover have "\<forall>g. draining ?y g \<longrightarrow> g < Suc (ex_next x)" using assms(1) d by (auto simp: runner_inv_def)
      moreover have "at_host ?y" using f by (auto simp: at_host_def)
      ultimately show ?thesis unfolding runner_inv_def awake_def c n using d by blast
    qed
    show ?thesis using idle y by (simp add: drainMutationQueue_def fresh_fiber_def Let_def)
  qed
qed

lemma runner_timer: "runner_inv cfg x \<Longrightarrow> runner_inv cfg (scheduleDrain d x)"
proof -
  have "draining (scheduleDrain d x) = draining x" "chain_of (scheduleDrain d x) = chain_of x"
    "ex_next (scheduleDrain d x) = ex_next x" "stirred (scheduleDrain d x)"
    by (simp_all add: draining_def chain_of_def stirred_def fun_eq_iff) (simp add: scheduleDrain_def)
  then show "runner_inv cfg x \<Longrightarrow> ?thesis" by (simp add: runner_inv_def awake_def chains_idle_def)
qed

lemma runner_retry:
  assumes "runner_inv cfg x" "map_of (ex_fibers x) f = Some (Deciding r qa)"
  shows "runner_inv cfg (retry_decided env r qa b f x)"
  by (rule runner_settled [OF assms _ stirs_attempt(4)]) (simp_all add: calm_attempt calm_refl chain_of_def)

lemma runner_replay:
  assumes "runner_inv cfg x" "map_of (ex_fibers x) f = Some (Replaying c k)"
  shows "runner_inv cfg (replay_settled cfg c k err f x)"
proof (rule runner_winds [OF assms(1) winds_replayed])
  show "drains_end k = draining x f" using not_draining [OF assms(2)] by (cases k) (simp_all add: drains_end_def)
qed (simp_all add: calm_replay calm_refl assms(2))

lemma runner_step:
  assumes "runner_inv cfg x" "prompt (env, ev) x"
  shows "runner_inv cfg (exchange_input_step cfg env ev x)"
proof -
  have n: "\<not> draining x (ex_next x)" using assms(1) by (auto simp: runner_inv_def)
  have o: "draining (xout out (x\<lparr>ex_next := m\<rparr>)) = draining x" for out m by (simp add: draining_def fun_eq_iff)
  show ?thesis
  proof (cases ev)
    case (Mutation_In op)
    then show ?thesis using n runner_prepare [OF runner_taken [OF assms(1)]] by (simp add: fresh_fiber_def o taken_frames)
  next
    case (Network_Result r)
    then show ?thesis using n runner_through [OF runner_taken [OF assms(1)]] by (simp add: fresh_fiber_def o taken_frames)
  next
    case (Revalidation_Failed reason)
    have "runner_inv cfg (xout (Cache_Error_Reported reason) x)"
      by (rule runner_quiet [OF assms(1)]) (simp_all add: goes_routes calm_basic n, use n in \<open>simp add: draining_def\<close>)
    then show ?thesis using Revalidation_Failed by simp
  next
    case Drain_Timer
    then show ?thesis using assms runner_drain by simp
  qed (use assms runner_enqueue runner_resume runner_retry runner_replay runner_timer in
      \<open>simp_all split: option.split fiber.split\<close>)
qed

lemma runner_initial: "runner_inv cfg (initial_exchange cfg)"
  by (simp add: runner_inv_def initial_exchange_def awake_def stirred_def draining_def chains_idle_def chain_of_def)

section \<open>The machines\<close>

interpretation runner: guarded_machine "initial_exchange cfg" "exchange_step cfg" prompt "runner_inv cfg" for cfg
  by unfold_locales (auto simp: runner_initial exchange_step_def runner_step)

end
