(* ===== verification/Exchange_Streams.thy ===== *)
theory Exchange_Streams
  imports Exchange_Machine
begin

text \<open>
  The emissions of a subscription are a queue: the cache effects called so far, followed by those of the
  emissions in the chain, are the effects of all emissions in the order of their arrival.
\<close>

section \<open>The queue of a subscription\<close>

definition is_emission :: "network_result \<Rightarrow> bool" where
  "is_emission r \<longleftrightarrow> eo_kind (nr_op r) = Op_Subscription \<and> \<not> nullish (nr_data r)"

fun receipt :: "exchange_output \<Rightarrow> (nat \<times> network_result) list" where
  "receipt (Received f r) = [(f, r)]"
| "receipt _ = []"

definition received :: "exchange_output list \<Rightarrow> (nat \<times> network_result) list" where
  "received outs = concat (List.map receipt outs)"

definition emissions :: "nat \<Rightarrow> exchange_output list \<Rightarrow> (nat \<times> network_result) list" where
  "emissions k outs = filter (\<lambda>e. is_emission (snd e) \<and> eo_key (nr_op (snd e)) = k) (received outs)"

definition emission_ids :: "nat \<Rightarrow> exchange_output list \<Rightarrow> nat set" where
  "emission_ids k outs = fst ` set (emissions k outs)"

fun call_by :: "nat set \<Rightarrow> exchange_output \<Rightarrow> (nat \<times> api_call) list" where
  "call_by fs (Host_Called f call) = (if f \<in> fs then [(f, call)] else [])"
| "call_by fs _ = []"

fun delivery_by :: "nat set \<Rightarrow> exchange_output \<Rightarrow> (nat \<times> network_result) list" where
  "delivery_by fs (Delivered f r res) = (if f \<in> fs then [(f, r)] else [])"
| "delivery_by fs _ = []"

definition effects_called :: "nat \<Rightarrow> exchange_output list \<Rightarrow> (nat \<times> api_call) list" where
  "effects_called k outs = concat (List.map (call_by (emission_ids k outs)) outs)"

definition emissions_delivered :: "nat \<Rightarrow> exchange_output list \<Rightarrow> (nat \<times> network_result) list" where
  "emissions_delivered k outs = concat (List.map (delivery_by (emission_ids k outs)) outs)"

definition calls_of :: "nat \<times> network_result \<Rightarrow> cache_effect list \<Rightarrow> (nat \<times> api_call) list" where
  "calls_of e es = List.map (\<lambda>c. (fst e, effect_call (nr_op (snd e)) c)) es"

definition emission_calls :: "nat \<times> network_result \<Rightarrow> (nat \<times> api_call) list" where
  "emission_calls e = calls_of e (emission_effects (snd e))"

text \<open>What the running emission has yet to call, and the waiting emissions.\<close>

definition effects_left :: "exchange \<Rightarrow> nat \<Rightarrow> cache_effect list" where
  "effects_left x f = (case map_of (ex_fibers x) f of Some (Applying op es (After_Emission r)) \<Rightarrow> es | _ \<Rightarrow> [])"

fun chain_calls :: "exchange \<Rightarrow> (nat \<times> network_result) list \<Rightarrow> (nat \<times> api_call) list" where
  "chain_calls x [] = []"
| "chain_calls x (e # es) = calls_of e (effects_left x (fst e)) @ concat (List.map emission_calls es)"

definition effects_pending :: "exchange \<Rightarrow> nat \<Rightarrow> (nat \<times> api_call) list" where
  "effects_pending x k = chain_calls x (chain_of x k)"

lemma effects_some: "operationCacheEffects v \<noteq> []"
proof (induction v rule: operationCacheEffects.induct)
  case (1 xs)
  show ?case
  proof (cases "containsCacheDeletion (JArr xs)")
    case True
    then obtain x where "x \<in> set xs" by (auto simp: list_ex_iff)
    then show ?thesis using 1 True by (auto simp: concat_eq_Nil_conv)
  qed simp
next
  case (2 fs)
  show ?case
  proof (cases "graphqlCacheDeletionKey (JObj fs)")
    case None
    show ?thesis
    proof (cases "containsCacheDeletion (JObj fs)")
      case True
      then obtain f where f: "f \<in> set fs" "containsCacheDeletion (snd f)" using None by (auto simp: list_ex_iff)
      then show ?thesis using 2 [OF None _ f(1) f(2)] None True by (auto simp: concat_eq_Nil_conv intro!: bexI [OF _ f(1)])
    qed (use None in simp)
  qed simp
qed (simp_all split: option.split)

section \<open>Operations aside\<close>

fun emission_stage :: "fiber \<Rightarrow> bool" where
  "emission_stage (Applying op es (After_Emission r)) = True"
| "emission_stage _ = False"

definition emitting :: "exchange \<Rightarrow> nat \<Rightarrow> bool" where
  "emitting x f \<longleftrightarrow> (\<exists>st. map_of (ex_fibers x) f = Some st \<and> emission_stage st)"

fun emission_end :: "after_effects \<Rightarrow> bool" where
  "emission_end (After_Emission r) = True"
| "emission_end _ = False"

lemma emission_stage_applying [simp]: "emission_stage (Applying op es after) = emission_end after"
  by (cases after) simp_all

text \<open>What an operation of fiber \<open>f\<close> may output, if it is no emission.\<close>

fun speaks :: "nat \<Rightarrow> exchange_output \<Rightarrow> bool" where
  "speaks f (Received g r) = False"
| "speaks f (Host_Called g call) = (g = f)"
| "speaks f (Delivered g r res) = (g = f)"
| "speaks f _ = True"

definition aside :: "nat \<Rightarrow> exchange \<Rightarrow> exchange \<Rightarrow> bool" where
  "aside f x y \<longleftrightarrow> ex_chains y = ex_chains x \<and> (emitting y f \<longrightarrow> emitting x f) \<and>
     (\<forall>g. g \<noteq> f \<longrightarrow> map_of (ex_fibers y) g = map_of (ex_fibers x) g \<or>
       (\<exists>op. map_of (ex_fibers x) g = Some (Awaiting_Route op)) \<and> map_of (ex_fibers y) g = None) \<and>
     (\<exists>outs. ex_out y = ex_out x @ outs \<and> list_all (speaks f) outs)"

lemma aside_refl: "aside f x x"
  by (simp add: aside_def)

lemma aside_xout: "aside f x y \<Longrightarrow> speaks f out \<Longrightarrow> aside f x (xout out y)"
  by (auto simp: aside_def xout_def emitting_def)

lemma aside_basic:
  "aside f x y \<Longrightarrow> \<not> emission_stage st \<Longrightarrow> aside f x (put_fiber f st y)" "aside f x y \<Longrightarrow> aside f x (end_fiber f y)"
  "aside f x y \<Longrightarrow> aside f x (y\<lparr>ex_deferred := at\<rparr>)" "aside f x y \<Longrightarrow> aside f x (y\<lparr>ex_live := ls\<rparr>)"
  "aside f x y \<Longrightarrow> aside f x (y\<lparr>ex_routes := rs\<rparr>)" "aside f x y \<Longrightarrow> aside f x (y\<lparr>ex_attempt := a\<rparr>)"
  "aside f x y \<Longrightarrow> aside f x (y\<lparr>ex_running := b\<rparr>)" "aside f x y \<Longrightarrow> aside f x (y\<lparr>ex_timer := t\<rparr>)"
  "aside f x y \<Longrightarrow> aside f x (y\<lparr>ex_next := n\<rparr>)" "aside f x y \<Longrightarrow> aside f x (scheduleDrain d y)"
  by (auto simp: aside_def emitting_def put_fiber_def end_fiber_def scheduleDrain_def update_conv' delete_conv')

lemma aside_ask: "aside f x y \<Longrightarrow> \<not> emission_stage st \<Longrightarrow> aside f x (call_host f call st y)"
  by (simp add: call_host_def aside_basic aside_xout)

lemma aside_error: "aside f x y \<Longrightarrow> aside f x (cache_error err y)"
  by (simp add: cache_error_def aside_xout)

lemma aside_finish_route: "aside f x y \<Longrightarrow> aside f x (finish_route f res y)"
  by (simp add: finish_route_def aside_basic aside_xout split: option.split)

lemma aside_end_awaiting:
  "aside f x y \<Longrightarrow> map_of (ex_fibers y) p = Some (Awaiting_Route op) \<Longrightarrow> aside f x (end_fiber p y)"
  by (auto simp: aside_def emitting_def end_fiber_def delete_conv')

lemma aside_resolve: "aside f x y \<Longrightarrow> aside f x (resolve_route p res y)"
proof -
  assume a: "aside f x y"
  have "aside f x (finish_route p res y)" if "map_of (ex_fibers y) p = Some (Awaiting_Route op)" for op
    using aside_end_awaiting [of f x "case res of None \<Rightarrow> y | Some r \<Rightarrow> xout (Emitted p r) y" p op] that a
    by (auto simp: finish_route_def aside_xout split: option.split)
  then show ?thesis using a by (simp add: resolve_route_def aside_basic split: option.split fiber.split)
qed

lemma aside_await: "aside f x y \<Longrightarrow> aside f x (await_route f op y)"
  by (simp add: await_route_def aside_basic aside_finish_route split: option.split)

lemma aside_resolve_live: "aside f x y \<Longrightarrow> aside f x (resolveLiveOperationsAsQueued y)"
proof -
  have "aside f x (fold resolve_queued ls z)" if "aside f x z" for ls z
    using that by (induction ls arbitrary: z) (auto simp: resolve_queued_def aside_resolve)
  then show "aside f x y \<Longrightarrow> ?thesis" by (simp add: resolveLiveOperationsAsQueued_def aside_basic)
qed

lemmas aside_routes = aside_refl aside_xout aside_basic aside_ask aside_error aside_resolve aside_await aside_resolve_live

lemma aside_done: "aside f x y \<Longrightarrow> aside f x (route_done k f y)"
  by (cases k) (simp_all add: route_done_def aside_routes)

lemma aside_failed: "aside f x y \<Longrightarrow> aside f x (route_failed k f err y)"
  unfolding route_failed_def by (intro aside_done aside_basic aside_resolve_live) (cases k; simp add: aside_routes)

lemma aside_roll_back: "aside f x y \<Longrightarrow> aside f x (roll_back cfg c reason k f y)"
  by (simp add: roll_back_def aside_routes)

lemma aside_claimed: "aside f x y \<Longrightarrow> aside f x (routeClaimedMutation cfg env c k f y)"
  unfolding routeClaimedMutation_def Let_def
  by (simp add: aside_routes aside_done aside_roll_back split: option.split sum.split prod.split)

lemma aside_runner:
  "aside f x y \<Longrightarrow> aside f x (replay_settled cfg c k err f y)" "aside f x y \<Longrightarrow> aside f x (rolled_back k res f y)"
  "aside f x y \<Longrightarrow> aside f x (claim_settled cfg env res f y)" "aside f x y \<Longrightarrow> aside f x (enqueued cfg env op v f y)"
  unfolding replay_settled_def rolled_back_def claim_settled_def enqueued_def Let_def
  by (simp_all add: aside_routes aside_done aside_failed aside_roll_back aside_claimed split: option.split sum.split)

lemma aside_enqueue: "aside p x (resume_enqueue cfg env p res x)"
  by (simp add: resume_enqueue_def enqueue_settled_def enqueue_again_settled_def enqueue_uncertain_def Let_def
      aside_routes aside_runner split: option.split fiber.split sum.split)

lemma aside_revalidate: "aside f x y \<Longrightarrow> aside f x (revalidateAfterCommit env rs y)"
proof -
  have "aside f x (revalidate_one env r z)" if "aside f x z" for r z
    using that by (simp add: revalidate_one_def Let_def aside_routes split: sum.split)
  then show "aside f x y \<Longrightarrow> ?thesis" unfolding revalidateAfterCommit_def by (induction rs arbitrary: y) simp_all
qed

lemma aside_settle:
  "aside f x y \<Longrightarrow> aside f x (finish_attempt env r qa d at f y)" "aside f x y \<Longrightarrow> aside f x (give_up r qa f y)"
  "aside f x y \<Longrightarrow> aside f x (deliver r rs f y)" "aside f x y \<Longrightarrow> aside f x (finish_plain r f y)"
  by (simp_all add: finish_attempt_def give_up_def deliver_def finish_plain_def aside_routes)

lemma aside_attempt:
  "aside f x y \<Longrightarrow> aside f x (attempt_uncertain env r qa err f y)" "aside f x y \<Longrightarrow> aside f x (settle_attempt cfg r qa f y)"
  "aside f x y \<Longrightarrow> aside f x (retry_decided env r qa b f y)"
  by (simp_all add: attempt_uncertain_def settle_attempt_def retry_decided_def Let_def aside_settle aside_routes split: sum.split)

lemma aside_effects: "aside f x y \<Longrightarrow> \<not> emission_end after \<Longrightarrow> aside f x (effects_done env after f y)"
  by (cases after) (simp_all add: effects_done_def aside_settle aside_revalidate)

lemma aside_apply: "aside f x y \<Longrightarrow> \<not> emission_end after \<Longrightarrow> aside f x (applyOperationCacheEffects env op es after f y)"
  by (simp add: applyOperationCacheEffects_def aside_effects aside_ask split: list.split)

lemma aside_commit: "aside f x y \<Longrightarrow> aside f x (commit_settled env r qa res f y)"
  by (simp add: commit_settled_def Let_def aside_effects aside_apply aside_attempt split: sum.split)

lemma aside_through: "aside f x y \<Longrightarrow> \<not> is_emission r \<Longrightarrow> aside f x (writeThrough cfg env r f y)"
  by (auto simp: writeThrough_def is_emission_def aside_attempt aside_apply aside_settle split: operation_kind.split option.split)

end
