(* ===== verification/Exchange_Order.thy ===== *)
theory Exchange_Order
  imports Exchange_Streams
begin

text \<open>
  The invariant of the emission queues, kept by every step.
\<close>

section \<open>The invariant\<close>

fun names :: "exchange_output \<Rightarrow> nat \<Rightarrow> bool" where
  "names (Received f r) g \<longleftrightarrow> f = g"
| "names (Host_Called f call) g \<longleftrightarrow> f = g"
| "names (Delivered f r res) g \<longleftrightarrow> f = g"
| "names _ g \<longleftrightarrow> False"

definition named_below :: "nat \<Rightarrow> exchange_output list \<Rightarrow> bool" where
  "named_below n outs \<longleftrightarrow> (\<forall>out \<in> set outs. \<forall>f. names out f \<longrightarrow> f < n)"

definition queue_kept :: "exchange \<Rightarrow> nat \<Rightarrow> bool" where
  "queue_kept x k \<longleftrightarrow> emissions_delivered k (ex_out x) @ chain_of x k = emissions k (ex_out x) \<and>
     effects_called k (ex_out x) @ effects_pending x k = concat (List.map emission_calls (emissions k (ex_out x)))"

definition runs_emission :: "exchange \<Rightarrow> nat \<Rightarrow> network_result \<Rightarrow> bool" where
  "runs_emission x f r \<longleftrightarrow> (\<exists>es. map_of (ex_fibers x) f = Some (Applying (nr_op r) es (After_Emission r)))"

definition heads_run :: "exchange \<Rightarrow> nat \<Rightarrow> bool" where
  "heads_run x k \<longleftrightarrow> (case chain_of x k of [] \<Rightarrow> True | e # es \<Rightarrow> runs_emission x (fst e) (snd e))"

definition emission_at :: "exchange \<Rightarrow> nat \<Rightarrow> bool" where
  "emission_at x f \<longleftrightarrow> (\<exists>r rest. runs_emission x f r \<and> chain_of x (eo_key (nr_op r)) = (f, r) # rest)"

definition stream_inv :: "exchange \<Rightarrow> bool" where
  "stream_inv x \<longleftrightarrow> named_below (ex_next x) (ex_out x) \<and> distinct (List.map fst (received (ex_out x))) \<and>
     (\<forall>f. map_of (ex_fibers x) f \<noteq> None \<longrightarrow> f < ex_next x) \<and> (\<forall>f. emitting x f \<longrightarrow> emission_at x f) \<and>
     (\<forall>f k. map_of (ex_fibers x) f \<noteq> None \<longrightarrow> \<not> emitting x f \<longrightarrow> f \<notin> emission_ids k (ex_out x)) \<and>
     (\<forall>k. heads_run x k \<and> queue_kept x k)"

section \<open>Traces\<close>

lemma received_append [simp]: "received (a @ b) = received a @ received b" "received [] = []"
  by (simp_all add: received_def)

lemma emissions_append [simp]: "emissions k (a @ b) = emissions k a @ emissions k b" "emissions k [] = []"
  by (simp_all add: emissions_def)

lemma quiet_received: "list_all (speaks f) outs \<Longrightarrow> received outs = []"
proof (induction outs)
  case (Cons out outs)
  then show ?case by (cases out) (auto simp: received_def)
qed simp

lemma quiet_emissions: "list_all (speaks f) outs \<Longrightarrow> emissions k outs = []"
  by (simp add: emissions_def quiet_received)

lemma quiet_calls:
  assumes "list_all (speaks f) outs" "f \<notin> fs"
  shows "concat (List.map (call_by fs) outs) = []" "concat (List.map (delivery_by fs) outs) = []"
proof -
  have "call_by fs out = [] \<and> delivery_by fs out = []" if "speaks f out" for out
    using that assms(2) by (cases out) auto
  then show "concat (List.map (call_by fs) outs) = []" "concat (List.map (delivery_by fs) outs) = []"
    using assms(1) by (simp_all add: list_all_iff)
qed

lemma called_quiet:
  assumes "list_all (speaks f) outs" "f \<notin> emission_ids k out"
  shows "effects_called k (out @ outs) = effects_called k out" "emissions_delivered k (out @ outs) = emissions_delivered k out"
  using quiet_calls [OF assms(1), of "emission_ids k out"] assms(2) quiet_emissions [OF assms(1)]
  by (simp_all add: effects_called_def emissions_delivered_def emission_ids_def)

lemma named_quiet: "named_below n out \<Longrightarrow> list_all (speaks f) outs \<Longrightarrow> f < n \<Longrightarrow> named_below n (out @ outs)"
proof -
  have "names out f' \<Longrightarrow> speaks f out \<Longrightarrow> f' = f" for out f' by (cases out) auto
  then show "named_below n out \<Longrightarrow> list_all (speaks f) outs \<Longrightarrow> f < n \<Longrightarrow> ?thesis"
    by (auto simp: named_below_def list_all_iff)
qed

lemma named_twice:
  "named_below n out \<Longrightarrow> list_all (speaks f) outs \<Longrightarrow> list_all (speaks (Suc f)) outs \<Longrightarrow> named_below n (out @ outs)"
proof -
  have "\<not> names out g" if "speaks f out" "speaks (Suc f) out" for out g using that by (cases out) auto
  then show "named_below n out \<Longrightarrow> list_all (speaks f) outs \<Longrightarrow> list_all (speaks (Suc f)) outs \<Longrightarrow> ?thesis"
    by (auto simp: named_below_def list_all_iff)
qed

text \<open>The identifiers of a chain are emissions.\<close>

lemma chain_emissions: "queue_kept x k \<Longrightarrow> e \<in> set (chain_of x k) \<Longrightarrow> e \<in> set (emissions k (ex_out x))"
  unfolding queue_kept_def by (metis UnCI set_append)

lemma chain_ids: "queue_kept x k \<Longrightarrow> e \<in> set (chain_of x k) \<Longrightarrow> fst e \<in> emission_ids k (ex_out x)"
  unfolding emission_ids_def using chain_emissions by blast

lemma emission_key: "e \<in> set (emissions k outs) \<Longrightarrow> eo_key (nr_op (snd e)) = k"
  by (simp add: emissions_def)

section \<open>Operations aside\<close>

lemma aside_emitting: "aside f x y \<Longrightarrow> \<not> emitting x f \<Longrightarrow> emitting y g \<Longrightarrow> emitting x g \<and> map_of (ex_fibers y) g = map_of (ex_fibers x) g"
  unfolding aside_def emitting_def by (metis option.distinct(1))

lemma aside_other:
  "aside f x y \<Longrightarrow> g \<noteq> f \<Longrightarrow> map_of (ex_fibers y) g = map_of (ex_fibers x) g \<or>
    (\<exists>op. map_of (ex_fibers x) g = Some (Awaiting_Route op))"
  unfolding aside_def by blast

lemma aside_runs: "aside f x y \<Longrightarrow> g \<noteq> f \<Longrightarrow> runs_emission x g r \<Longrightarrow> map_of (ex_fibers y) g = map_of (ex_fibers x) g"
  using aside_other [of f x y g] by (auto simp: runs_emission_def)

lemma stream_aside:
  assumes i: "stream_inv x" and a: "aside f x y" and n: "ex_next y = ex_next x" and f: "f < ex_next x \<or> aside (Suc f) x y"
    and ids: "\<And>k. f \<notin> emission_ids k (ex_out x)" and e: "\<not> emitting x f"
  shows "stream_inv y"
proof -
  obtain outs where outs: "ex_out y = ex_out x @ outs" "list_all (speaks f) outs" using a by (auto simp: aside_def)
  have c: "chain_of y k = chain_of x k" for k
    by (rule chain_of_frame) (use a in \<open>simp add: aside_def\<close>)
  have k: "heads_run x k" "queue_kept x k" for k using i by (simp_all add: stream_inv_def)
  have em: "emissions k (ex_out y) = emissions k (ex_out x)" for k using outs quiet_emissions by simp
  then have ei: "emission_ids k (ex_out y) = emission_ids k (ex_out x)" for k by (simp add: emission_ids_def)
  have run: "runs_emission y (fst e) (snd e) \<and> map_of (ex_fibers y) (fst e) = map_of (ex_fibers x) (fst e)"
    if "chain_of x k = e # es" for e es k
  proof -
    have r: "runs_emission x (fst e) (snd e)" using k(1) [of k] that by (simp add: heads_run_def)
    have "fst e \<in> emission_ids k (ex_out x)" using chain_ids [OF k(2)] that by simp
    then have "fst e \<noteq> f" using ids by blast
    then show ?thesis using aside_runs [OF a _ r] r by (simp add: runs_emission_def)
  qed
  have q: "queue_kept y k" for k
  proof -
    have "effects_pending y k = effects_pending x k"
      using run by (cases "chain_of x k") (simp_all add: effects_pending_def c effects_left_def)
    then show ?thesis
      using k(2) [of k] called_quiet [OF outs(2) ids, of k] em by (simp add: queue_kept_def c outs(1))
  qed
  have "emission_at y g" if "emitting y g" for g
  proof -
    have "emitting x g" using aside_emitting [OF a e that] by simp
    then obtain r rest where r: "chain_of x (eo_key (nr_op r)) = (g, r) # rest"
      using i by (auto simp: stream_inv_def emission_at_def)
    then show ?thesis using run [OF r] c by (auto simp: emission_at_def)
  qed
  moreover have "g \<notin> emission_ids j (ex_out y)" if g: "map_of (ex_fibers y) g \<noteq> None" "\<not> emitting y g" for g j
  proof (cases "g = f")
    case False
    then have "map_of (ex_fibers y) g = map_of (ex_fibers x) g" using a g(1) unfolding aside_def by metis
    then have "map_of (ex_fibers x) g \<noteq> None" "\<not> emitting x g" using g by (simp_all add: emitting_def)
    then show ?thesis using i ei by (simp add: stream_inv_def)
  qed (simp add: ei ids)
  moreover have "g < ex_next y" if "map_of (ex_fibers y) g \<noteq> None" for g
  proof (cases "g = f \<and> f < ex_next x")
    case False
    then have "map_of (ex_fibers x) g \<noteq> None"
      using f that aside_other [OF a, of g] aside_other [of "Suc f" x y g] by (cases "g = f") auto
    then show ?thesis using i n by (simp add: stream_inv_def)
  qed (simp add: n)
  moreover have "named_below (ex_next x) (ex_out x @ outs)"
    using i f outs named_quiet [OF _ outs(2)] named_twice [OF _ outs(2)] by (auto simp: stream_inv_def aside_def)
  moreover have "heads_run y k" for k using k(1) [of k] run [of k] by (simp add: heads_run_def c split: list.split)
  moreover have "named_below (ex_next y) (ex_out y)" "distinct (List.map fst (received (ex_out y)))"
    using i outs quiet_received [OF outs(2)] n calculation(4) by (simp_all add: stream_inv_def)
  ultimately show ?thesis using q by (simp add: stream_inv_def)
qed

section \<open>Emissions\<close>

fun silent :: "nat set \<Rightarrow> exchange_output \<Rightarrow> bool" where
  "silent fs (Host_Called g call) \<longleftrightarrow> g \<notin> fs"
| "silent fs (Delivered g r res) \<longleftrightarrow> g \<notin> fs"
| "silent fs _ \<longleftrightarrow> True"

lemma silent_calls:
  assumes "list_all (silent fs) outs"
  shows "concat (List.map (call_by fs) outs) = []" "concat (List.map (delivery_by fs) outs) = []"
proof -
  have "call_by fs out = [] \<and> delivery_by fs out = []" if "silent fs out" for out
    using that by (cases out) auto
  then show "concat (List.map (call_by fs) outs) = []" "concat (List.map (delivery_by fs) outs) = []"
    using assms by (simp_all add: list_all_iff)
qed

text \<open>A step that leaves one queue alone.\<close>

lemma queue_other:
  assumes k: "heads_run x j" "queue_kept x j" and c: "chain_of y j = chain_of x j"
    and fib: "\<And>g. g \<in> emission_ids j (ex_out x) \<Longrightarrow> map_of (ex_fibers y) g = map_of (ex_fibers x) g"
    and out: "ex_out y = ex_out x @ outs" "emissions j outs = []" "list_all (silent (emission_ids j (ex_out x))) outs"
  shows "heads_run y j \<and> queue_kept y j"
proof -
  have f: "map_of (ex_fibers y) (fst e) = map_of (ex_fibers x) (fst e)" if "chain_of x j = e # es" for e es
    using fib [OF chain_ids [OF k(2), of e]] that by simp
  have em: "emissions j (ex_out y) = emissions j (ex_out x)" using out by simp
  then have "effects_called j (ex_out y) = effects_called j (ex_out x)"
      "emissions_delivered j (ex_out y) = emissions_delivered j (ex_out x)"
    using silent_calls [OF out(3)]
    by (simp_all add: effects_called_def emissions_delivered_def emission_ids_def out(1))
  moreover have "effects_pending y j = effects_pending x j"
    using f by (cases "chain_of x j") (simp_all add: effects_pending_def c effects_left_def)
  moreover have "heads_run y j" using k(1) f
    by (cases "chain_of x j") (auto simp: heads_run_def c runs_emission_def)
  ultimately show ?thesis using k(2) em by (simp add: queue_kept_def c)
qed

lemma unnamed_calls:
  assumes "\<And>out. out \<in> set outs \<Longrightarrow> \<not> names out f"
  shows "concat (List.map (call_by (insert f fs)) outs) = concat (List.map (call_by fs) outs)"
    "concat (List.map (delivery_by (insert f fs)) outs) = concat (List.map (delivery_by fs) outs)"
proof -
  have "call_by (insert f fs) out = call_by fs out \<and> delivery_by (insert f fs) out = delivery_by fs out"
    if "\<not> names out f" for out using that by (cases out) auto
  then show "concat (List.map (call_by (insert f fs)) outs) = concat (List.map (call_by fs) outs)"
    "concat (List.map (delivery_by (insert f fs)) outs) = concat (List.map (delivery_by fs) outs)"
    using assms by (induction outs) simp_all
qed

text \<open>An identifier belongs to one queue.\<close>

lemma ids_disjoint:
  assumes "distinct (List.map fst (received outs))" "f \<in> emission_ids k outs" "k \<noteq> j" shows "f \<notin> emission_ids j outs"
proof
  assume "f \<in> emission_ids j outs"
  then obtain r r' where r: "(f, r) \<in> set (received outs)" "eo_key (nr_op r) = k" "(f, r') \<in> set (received outs)" "eo_key (nr_op r') = j"
    using assms(2) by (auto simp: emission_ids_def emissions_def)
  then have "r = r'" using assms(1) by (meson eq_key_imp_eq_value)
  then show False using r assms(3) by simp
qed

lemma ids_below: "named_below n outs \<Longrightarrow> f \<in> emission_ids k outs \<Longrightarrow> f < n"
proof -
  assume n: "named_below n outs" and "f \<in> emission_ids k outs"
  then obtain r where "(f, r) \<in> set (received outs)" by (auto simp: emission_ids_def emissions_def)
  then obtain out where "out \<in> set outs" "(f, r) \<in> set (receipt out)" by (auto simp: received_def)
  moreover have "names out' f" if "(f, r) \<in> set (receipt out')" for out' using that by (cases out') auto
  ultimately show "f < n" using n unfolding named_below_def by blast
qed

lemma chain_distinct:
  assumes "stream_inv x" shows "distinct (List.map fst (chain_of x k))"
proof -
  have "distinct (List.map fst (emissions k (ex_out x)))"
    using assms by (simp add: stream_inv_def emissions_def distinct_map_filter)
  then show ?thesis using assms unfolding stream_inv_def queue_kept_def by (metis distinct_append map_append)
qed

section \<open>Steps of one queue\<close>

lemma stream_built:
  assumes i: "stream_inv x"
    and fib: "\<And>g. g \<notin> F \<Longrightarrow> map_of (ex_fibers y) g = map_of (ex_fibers x) g"
    and ch: "\<And>j. j \<noteq> k \<Longrightarrow> chain_of y j = chain_of x j"
    and F: "\<And>g j. g \<in> F \<Longrightarrow> j \<noteq> k \<Longrightarrow> g \<notin> emission_ids j (ex_out x)"
    and out: "ex_out y = ex_out x @ outs" "\<And>j. j \<noteq> k \<Longrightarrow> emissions j outs = []"
      "\<And>j. j \<noteq> k \<Longrightarrow> list_all (silent (emission_ids j (ex_out x))) outs" "emission_ids k outs \<subseteq> F"
    and q: "heads_run y k" "queue_kept y k"
    and head: "\<And>g r rest. g \<notin> F \<Longrightarrow> chain_of x k = (g, r) # rest \<Longrightarrow> \<exists>rest'. chain_of y k = (g, r) # rest'"
    and at: "\<And>g. g \<in> F \<Longrightarrow> map_of (ex_fibers y) g = None \<or> emission_at y g \<and> g < ex_next y"
    and n: "ex_next x \<le> ex_next y" "named_below (ex_next y) outs"
    and d: "distinct (List.map fst (received (ex_out y)))"
  shows "stream_inv y"
proof -
  have "heads_run y j \<and> queue_kept y j" for j
  proof (cases "j = k")
    case False
    have "heads_run x j" "queue_kept x j" using i by (simp_all add: stream_inv_def)
    then show ?thesis
    proof (rule queue_other)
      show "map_of (ex_fibers y) g = map_of (ex_fibers x) g" if "g \<in> emission_ids j (ex_out x)" for g
        using fib F that False by blast
    qed (use ch out False in simp_all)
  qed (use q in simp)
  moreover have "emission_at y g" if e: "emitting y g" for g
  proof (cases "g \<in> F")
    case True
    then show ?thesis using at [OF True] e by (auto simp: emitting_def)
  next
    case False
    then have "emitting x g" using e fib by (simp add: emitting_def)
    then obtain r rest where r: "runs_emission x g r" "chain_of x (eo_key (nr_op r)) = (g, r) # rest"
      using i by (auto simp: stream_inv_def emission_at_def)
    then have "\<exists>rest'. chain_of y (eo_key (nr_op r)) = (g, r) # rest'"
      using head [OF False] ch by (cases "eo_key (nr_op r) = k") auto
    then show ?thesis using r fib [OF False] by (auto simp: emission_at_def runs_emission_def)
  qed
  moreover have "g \<notin> emission_ids j (ex_out y)" if "map_of (ex_fibers y) g \<noteq> None" "\<not> emitting y g" for g j
  proof -
    have "g \<notin> F" using at [of g] that by (auto simp: emission_at_def runs_emission_def emitting_def)
    moreover from this have "g \<notin> emission_ids j (ex_out x)" using i that fib by (simp add: stream_inv_def emitting_def)
    ultimately show ?thesis using out(2,4) by (cases "j = k") (auto simp: emission_ids_def out(1))
  qed
  moreover have "g < ex_next y" if "map_of (ex_fibers y) g \<noteq> None" for g
  proof (cases "g \<in> F")
    case False
    then have "g < ex_next x" using that fib i by (simp add: stream_inv_def)
    then show ?thesis using n(1) by simp
  next
    case True
    then show ?thesis using at [OF True] that by blast
  qed
  moreover have "named_below (ex_next y) (ex_out y)"
    using i n less_le_trans unfolding stream_inv_def named_below_def out(1) by fastforce
  ultimately show ?thesis using d by (simp add: stream_inv_def)
qed

lemma emission_facts:
  assumes i: "stream_inv x" and f: "map_of (ex_fibers x) f = Some (Applying op es (After_Emission r))"
  obtains rest where "op = nr_op r" "chain_of x (eo_key (nr_op r)) = (f, r) # rest" "f \<in> emission_ids (eo_key (nr_op r)) (ex_out x)"
    "f < ex_next x"
proof -
  have "emitting x f" using f by (simp add: emitting_def)
  then obtain rest where r: "op = nr_op r" "chain_of x (eo_key (nr_op r)) = (f, r) # rest"
    using i f by (auto simp: stream_inv_def emission_at_def runs_emission_def)
  have "queue_kept x (eo_key (nr_op r))" using i by (simp add: stream_inv_def)
  then have "f \<in> emission_ids (eo_key (nr_op r)) (ex_out x)" using chain_ids [of x _ "(f, r)"] r by simp
  then show thesis using that r i f by (simp add: stream_inv_def)
qed

lemma stream_next_effect:
  assumes i: "stream_inv x" and f: "map_of (ex_fibers x) f = Some (Applying op (e # es) (After_Emission r))"
  shows "stream_inv (call_host f (effect_call op e) (Applying op es (After_Emission r)) x)"
proof -
  let ?k = "eo_key (nr_op r)" and ?c = "effect_call op e"
  let ?y = "call_host f ?c (Applying op es (After_Emission r)) x"
  obtain rest where op: "op = nr_op r" and ch: "chain_of x ?k = (f, r) # rest" and id: "f \<in> emission_ids ?k (ex_out x)" and n: "f < ex_next x"
    using emission_facts [OF i f] .
  have out: "ex_out ?y = ex_out x @ [Host_Called f ?c]" by (simp add: call_host_def xout_def put_fiber_def)
  have fib: "map_of (ex_fibers ?y) = (map_of (ex_fibers x))(f \<mapsto> Applying op es (After_Emission r))"
    by (simp add: call_host_def)
  have c: "chain_of ?y j = chain_of x j" for j by (rule chain_of_frame) simp
  have rc: "received [Host_Called f ?c] = []" by (simp add: received_def)
  have d: "distinct (List.map fst (received (ex_out x)))" using i by (simp_all add: stream_inv_def)
  have nx: "ex_next ?y = ex_next x" by (simp add: call_host_def xout_def put_fiber_def)
  have em: "emissions j (ex_out ?y) = emissions j (ex_out x)" "emission_ids j (ex_out ?y) = emission_ids j (ex_out x)" for j
    using rc by (simp_all add: out emissions_def emission_ids_def)
  have nf: "f \<notin> emission_ids j (ex_out x)" if "j \<noteq> ?k" for j using ids_disjoint [OF d id not_sym [OF that]] .
  show ?thesis
  proof (rule stream_built [OF i, where F = "{f}" and k = ?k, OF _ _ _ out])
    have "effects_called ?k (ex_out ?y) = effects_called ?k (ex_out x) @ [(f, ?c)]"
        "emissions_delivered ?k (ex_out ?y) = emissions_delivered ?k (ex_out x)"
      unfolding effects_called_def emissions_delivered_def em(2) unfolding out using id by simp_all
    moreover have "effects_pending x ?k = (f, ?c) # effects_pending ?y ?k"
      unfolding effects_pending_def c ch using f by (simp add: effects_left_def fib calls_of_def) (simp add: op)
    moreover have "queue_kept x ?k" using i by (simp add: stream_inv_def)
    ultimately show "queue_kept ?y ?k" by (simp add: queue_kept_def c em)
    show "heads_run ?y ?k" unfolding heads_run_def c ch by (simp add: runs_emission_def fib) (simp add: op)
    show "map_of (ex_fibers ?y) g = map_of (ex_fibers x) g" if "g \<notin> {f}" for g using that by (simp add: fib)
    show "chain_of ?y j = chain_of x j" for j by (rule c)
    show "g \<notin> emission_ids j (ex_out x)" if "g \<in> {f}" "j \<noteq> ?k" for g j using that nf by simp
    show "emissions j [Host_Called f ?c] = []" for j using rc by (simp add: emissions_def)
    then show "emission_ids ?k [Host_Called f ?c] \<subseteq> {f}" by (simp add: emission_ids_def)
    show "list_all (silent (emission_ids j (ex_out x))) [Host_Called f ?c]" if "j \<noteq> ?k" for j using nf that by simp
    show "\<exists>rest'. chain_of ?y ?k = (g, r') # rest'" if "chain_of x ?k = (g, r') # rest" for g r' rest
      unfolding c using that by simp
    have "runs_emission ?y f r" unfolding runs_emission_def fib by (simp add: op)
    then have "emission_at ?y f" unfolding emission_at_def c using ch by blast
    then show "map_of (ex_fibers ?y) g = None \<or> emission_at ?y g \<and> g < ex_next ?y" if "g \<in> {f}" for g
      using that n nx by simp
    show "ex_next x \<le> ex_next ?y" "named_below (ex_next ?y) [Host_Called f ?c]" using nx n by (simp_all add: named_below_def)
    show "distinct (List.map fst (received (ex_out ?y)))" using d rc by (simp add: out)
  qed
qed

lemma effects_cons: obtains e es where "emission_effects r = e # es"
  using effects_some [of "nr_data r"] by (cases "emission_effects r") (auto simp: emission_effects_def)

lemma out_frames:
  "ex_out (xout out x) = ex_out x @ [out]" "ex_out (end_fiber f x) = ex_out x" "ex_next (xout out x) = ex_next x"
  "ex_next (end_fiber f x) = ex_next x" "ex_out (call_host f c st x) = ex_out x @ [Host_Called f c]"
  "ex_next (call_host f c st x) = ex_next x"
  by (simp_all add: xout_def end_fiber_def call_host_def put_fiber_def)

lemma call_fibers: "map_of (ex_fibers (call_host f c st x)) = (map_of (ex_fibers x))(f \<mapsto> st)"
  by (simp add: call_host_def)

lemma stream_last:
  assumes i: "stream_inv x" and f: "map_of (ex_fibers x) f = Some (Applying op [] (After_Emission r))"
    and ch: "chain_of x (eo_key (nr_op r)) = [(f, r)]"
  shows "stream_inv (end_fiber f (xout (Delivered f r p) (x\<lparr>ex_chains := AList.delete (eo_key (nr_op r)) (ex_chains x)\<rparr>)))"
    (is "stream_inv ?y")
proof -
  let ?k = "eo_key (nr_op r)"
  have id: "f \<in> emission_ids ?k (ex_out x)" and n: "f < ex_next x" using emission_facts [OF i f] by blast+
  have out: "ex_out ?y = ex_out x @ [Delivered f r p]" by (simp add: out_frames)
  have fib: "map_of (ex_fibers ?y) = (map_of (ex_fibers x))(f := None)" by simp
  have c: "chain_of ?y j = (if j = ?k then [] else chain_of x j)" for j by (simp add: chain_of_def delete_conv')
  have rc: "received [Delivered f r p] = []" by (simp add: received_def)
  have d: "distinct (List.map fst (received (ex_out x)))" and q: "queue_kept x ?k" using i by (simp_all add: stream_inv_def)
  have em: "emissions j (ex_out ?y) = emissions j (ex_out x)" "emission_ids j (ex_out ?y) = emission_ids j (ex_out x)" for j
    using rc by (simp_all add: out emissions_def emission_ids_def)
  have nf: "f \<notin> emission_ids j (ex_out x)" if "j \<noteq> ?k" for j using ids_disjoint [OF d id not_sym [OF that]] .
  show ?thesis
  proof (rule stream_built [OF i, where F = "{f}" and k = ?k, OF _ _ _ out])
    have "effects_called ?k (ex_out ?y) = effects_called ?k (ex_out x)"
        "emissions_delivered ?k (ex_out ?y) = emissions_delivered ?k (ex_out x) @ [(f, r)]"
      unfolding effects_called_def emissions_delivered_def em(2) unfolding out using id by simp_all
    moreover have "effects_pending x ?k = []" "effects_pending ?y ?k = []"
      unfolding effects_pending_def c ch using f by (simp_all add: effects_left_def calls_of_def)
    ultimately show "queue_kept ?y ?k" using q ch by (simp add: queue_kept_def c em)
    show "heads_run ?y ?k" unfolding heads_run_def c by simp
    show "map_of (ex_fibers ?y) g = map_of (ex_fibers x) g" if "g \<notin> {f}" for g using that by (simp add: fib)
    show "chain_of ?y j = chain_of x j" if "j \<noteq> ?k" for j using that c by simp
    show "g \<notin> emission_ids j (ex_out x)" if "g \<in> {f}" "j \<noteq> ?k" for g j using that nf by simp
    show "emissions j [Delivered f r p] = []" for j using rc by (simp add: emissions_def)
    then show "emission_ids ?k [Delivered f r p] \<subseteq> {f}" by (simp add: emission_ids_def)
    show "list_all (silent (emission_ids j (ex_out x))) [Delivered f r p]" if "j \<noteq> ?k" for j using nf that by simp
    show "\<exists>rest'. chain_of ?y ?k = (g, r') # rest'" if "g \<notin> {f}" "chain_of x ?k = (g, r') # rest" for g r' rest
      using that ch by simp
    show "map_of (ex_fibers ?y) g = None \<or> emission_at ?y g \<and> g < ex_next ?y" if "g \<in> {f}" for g using that fib by simp
    show "ex_next x \<le> ex_next ?y" "named_below (ex_next ?y) [Delivered f r p]" using n by (simp_all add: named_below_def out_frames)
    show "distinct (List.map fst (received (ex_out ?y)))" using d rc by (simp add: out)
  qed
qed

lemma stream_next:
  assumes i: "stream_inv x" and f: "map_of (ex_fibers x) f = Some (Applying op [] (After_Emission r))"
    and ch: "chain_of x (eo_key (nr_op r)) = (f, r) # (f1, r1) # rest" and e: "emission_effects r1 = e # es"
  shows "stream_inv (end_fiber f (xout (Delivered f r p)
      (call_host f1 (effect_call (nr_op r1) e) (Applying (nr_op r1) es (After_Emission r1))
        (x\<lparr>ex_chains := AList.update (eo_key (nr_op r)) ((f1, r1) # rest) (ex_chains x)\<rparr>))))"
    (is "stream_inv ?y")
proof -
  let ?k = "eo_key (nr_op r)" and ?c = "effect_call (nr_op r1) e"
  let ?outs = "[Host_Called f1 ?c, Delivered f r p]"
  have id: "f \<in> emission_ids ?k (ex_out x)" and n: "f < ex_next x" using emission_facts [OF i f] by blast+
  have d: "distinct (List.map fst (received (ex_out x)))" and q: "queue_kept x ?k" and nb: "named_below (ex_next x) (ex_out x)"
    using i by (simp_all add: stream_inv_def)
  have id1: "f1 \<in> emission_ids ?k (ex_out x)" using chain_ids [OF q, of "(f1, r1)"] ch by simp
  have k1: "eo_key (nr_op r1) = ?k" using emission_key [OF chain_emissions [OF q, of "(f1, r1)"]] ch by simp
  have ne: "f1 \<noteq> f" using chain_distinct [OF i, of ?k] ch by auto
  have n1: "f1 < ex_next x" using ids_below [OF nb id1] .
  have out: "ex_out ?y = ex_out x @ ?outs" by (simp add: out_frames)
  have fib: "map_of (ex_fibers ?y) = (map_of (ex_fibers x))(f1 \<mapsto> Applying (nr_op r1) es (After_Emission r1), f := None)"
    by (simp add: call_fibers)
  have c: "chain_of ?y j = (if j = ?k then (f1, r1) # rest else chain_of x j)" for j by (simp add: chain_of_def update_conv')
  have rc: "received ?outs = []" by (simp add: received_def)
  have em: "emissions j (ex_out ?y) = emissions j (ex_out x)" "emission_ids j (ex_out ?y) = emission_ids j (ex_out x)" for j
    using rc by (simp_all add: out emissions_def emission_ids_def)
  have nf: "f \<notin> emission_ids j (ex_out x)" "f1 \<notin> emission_ids j (ex_out x)" if "j \<noteq> ?k" for j
    using ids_disjoint [OF d id not_sym [OF that]] ids_disjoint [OF d id1 not_sym [OF that]] .
  have run: "runs_emission ?y f1 r1" unfolding runs_emission_def fib using ne by simp
  show ?thesis
  proof (rule stream_built [OF i, where F = "{f, f1}" and k = ?k, OF _ _ _ out])
    have "effects_called ?k (ex_out ?y) = effects_called ?k (ex_out x) @ [(f1, ?c)]"
        "emissions_delivered ?k (ex_out ?y) = emissions_delivered ?k (ex_out x) @ [(f, r)]"
      unfolding effects_called_def emissions_delivered_def em(2) unfolding out using id id1 by simp_all
    moreover have "effects_left ?y f1 = es" unfolding effects_left_def fib using ne by simp
    then have "effects_pending x ?k = (f1, ?c) # effects_pending ?y ?k"
      unfolding effects_pending_def c ch using f e by (simp add: effects_left_def [of x] calls_of_def emission_calls_def)
    ultimately show "queue_kept ?y ?k" using q ch by (simp add: queue_kept_def c em)
    show "heads_run ?y ?k" unfolding heads_run_def c using run by simp
    show "map_of (ex_fibers ?y) g = map_of (ex_fibers x) g" if "g \<notin> {f, f1}" for g unfolding fib using that by simp
    show "chain_of ?y j = chain_of x j" if "j \<noteq> ?k" for j using that c by simp
    show "g \<notin> emission_ids j (ex_out x)" if "g \<in> {f, f1}" "j \<noteq> ?k" for g j using that nf by blast
    show "emissions j ?outs = []" for j using rc by (simp add: emissions_def)
    then show "emission_ids ?k ?outs \<subseteq> {f, f1}" by (simp add: emission_ids_def)
    show "list_all (silent (emission_ids j (ex_out x))) ?outs" if "j \<noteq> ?k" for j using nf that by simp
    show "\<exists>rest'. chain_of ?y ?k = (g, r') # rest'" if "g \<notin> {f, f1}" "chain_of x ?k = (g, r') # rest'" for g r' rest'
      using that ch by simp
    have "emission_at ?y f1" unfolding emission_at_def c using run k1 by auto
    then show "map_of (ex_fibers ?y) g = None \<or> emission_at ?y g \<and> g < ex_next ?y" if "g \<in> {f, f1}" for g
      using that n1 by (auto simp: fib out_frames)
    show "ex_next x \<le> ex_next ?y" "named_below (ex_next ?y) ?outs" using n n1 by (auto simp: named_below_def out_frames)
    show "distinct (List.map fst (received (ex_out ?y)))" using d rc by (simp add: out)
  qed
qed

section \<open>Arrivals\<close>

lemma fresh_ids: "stream_inv x \<Longrightarrow> ex_next x \<notin> emission_ids k (ex_out x) \<and> map_of (ex_fibers x) (ex_next x) = None"
  using ids_below [of "ex_next x" "ex_out x" "ex_next x" k] by (auto simp: stream_inv_def)

lemma unnamed_next: "named_below n outs \<Longrightarrow> out \<in> set outs \<Longrightarrow> \<not> names out n"
  by (auto simp: named_below_def)

lemma received_below: "named_below n outs \<Longrightarrow> n \<notin> fst ` set (received outs)"
proof
  assume n: "named_below n outs" and "n \<in> fst ` set (received outs)"
  then obtain r out where "out \<in> set outs" "(n, r) \<in> set (receipt out)" by (auto simp: received_def)
  moreover have "names out' n" if "(n, r) \<in> set (receipt out')" for out' using that by (cases out') auto
  ultimately show False using unnamed_next [OF n] by blast
qed

lemma stream_arrives:
  assumes i: "stream_inv x" and e: "is_emission r" and k: "k = eo_key (nr_op r)" and f: "f = ex_next x"
    and out: "ex_out y = ex_out x @ Received f r # List.map (Host_Called f) calls" and nx: "ex_next y = Suc f"
    and fib: "\<And>g. g \<noteq> f \<Longrightarrow> map_of (ex_fibers y) g = map_of (ex_fibers x) g"
    and at: "if chain_of x k = [] then runs_emission y f r else map_of (ex_fibers y) f = None"
    and left: "emission_calls (f, r) = List.map (Pair f) calls @
      (if chain_of x k = [] then calls_of (f, r) (effects_left y f) else emission_calls (f, r))"
    and c: "\<And>j. chain_of y j = (if j = k then chain_of x k @ [(f, r)] else chain_of x j)"
    and w: "chain_of x k \<noteq> [] \<Longrightarrow> calls = []"
  shows "stream_inv y"
proof -
  let ?outs = "Received f r # List.map (Host_Called f) calls"
  have ids: "f \<notin> emission_ids j (ex_out x)" "map_of (ex_fibers x) f = None" for j using fresh_ids [OF i] f by simp_all
  have q: "queue_kept x k" and hr: "heads_run x k" and nb: "named_below f (ex_out x)" and d: "distinct (List.map fst (received (ex_out x)))"
    using i f by (simp_all add: stream_inv_def)
  have rc: "received ?outs = [(f, r)]" by (simp add: received_def comp_def)
  have em: "emissions j ?outs = (if j = k then [(f, r)] else [])" for j using e k rc by (simp add: emissions_def)
  have ei: "emission_ids k (ex_out y) = insert f (emission_ids k (ex_out x))" using em by (simp add: emission_ids_def out)
  have un: "\<not> names out f" if "out \<in> set (ex_out x)" for out using unnamed_next [OF nb that] .
  have head: "fst a \<noteq> f" if "a \<in> set (chain_of x k)" for a using chain_ids [OF q that] ids(1) by metis
  show ?thesis
  proof (rule stream_built [OF i, where F = "{f}" and k = k, OF _ _ _ out])
    have "concat (List.map (call_by (emission_ids k (ex_out y))) ?outs) = List.map (Pair f) calls"
        "concat (List.map (delivery_by (emission_ids k (ex_out y))) ?outs) = []"
      using ei by (induction calls) simp_all
    then have E: "effects_called k (ex_out y) = effects_called k (ex_out x) @ List.map (Pair f) calls"
        "emissions_delivered k (ex_out y) = emissions_delivered k (ex_out x)"
      unfolding effects_called_def emissions_delivered_def ei unfolding out using unnamed_calls [OF un] by simp_all
    have P: "List.map (Pair f) calls @ effects_pending y k = effects_pending x k @ emission_calls (f, r)"
    proof (cases "chain_of x k")
      case Nil
      then show ?thesis using left by (simp add: effects_pending_def c)
    next
      case (Cons a as)
      have "effects_left y (fst a) = effects_left x (fst a)" using fib [OF head] Cons by (simp add: effects_left_def)
      then show ?thesis using w Cons by (simp add: effects_pending_def c)
    qed
    have "emissions k (ex_out y) = emissions k (ex_out x) @ [(f, r)]" by (simp add: out em)
    moreover have "effects_called k (ex_out x) @ (List.map (Pair f) calls @ effects_pending y k)
        = concat (List.map emission_calls (emissions k (ex_out x))) @ emission_calls (f, r)"
      unfolding P using q by (simp add: queue_kept_def flip: append_assoc)
    ultimately show "queue_kept y k" using q by (simp add: queue_kept_def E c)
    show "heads_run y k"
    proof (cases "chain_of x k")
      case Nil
      then show ?thesis using at by (simp add: heads_run_def c)
    next
      case (Cons a as)
      then show ?thesis using hr fib [OF head] by (simp add: heads_run_def c runs_emission_def)
    qed
    show "map_of (ex_fibers y) g = map_of (ex_fibers x) g" if "g \<notin> {f}" for g using that fib by simp
    show "chain_of y j = chain_of x j" if "j \<noteq> k" for j using that c by simp
    show "g \<notin> emission_ids j (ex_out x)" if "g \<in> {f}" for g j using that ids by simp
    show "emissions j ?outs = []" if "j \<noteq> k" for j using em that by simp
    show "emission_ids k ?outs \<subseteq> {f}" by (simp add: emission_ids_def em)
    show "list_all (silent (emission_ids j (ex_out x))) ?outs" if "j \<noteq> k" for j using ids by (simp add: list_all_iff)
    show "\<exists>rest'. chain_of y k = (g, r') # rest'" if "chain_of x k = (g, r') # rest'" for g r' rest' using that c by simp
    show "map_of (ex_fibers y) g = None \<or> emission_at y g \<and> g < ex_next y" if "g \<in> {f}" for g
      using at that nx c k by (auto simp: emission_at_def split: if_splits)
    show "ex_next x \<le> ex_next y" "named_below (ex_next y) ?outs" using nx f by (auto simp: named_below_def)
    show "distinct (List.map fst (received (ex_out y)))"
      unfolding out received_append rc using d received_below [OF nb] by simp
  qed
qed

section \<open>Steps\<close>

lemma stream_silent:
  assumes "stream_inv x" "ex_fibers y = ex_fibers x" "chain_of y = chain_of x" "ex_next x \<le> ex_next y"
    and out: "ex_out y = ex_out x @ outs" "\<And>j. emissions j outs = []" "\<And>fs. list_all (silent fs) outs" "named_below (ex_next y) outs"
    and d: "distinct (List.map fst (received (ex_out y)))"
  shows "stream_inv y"
proof (rule stream_built [OF assms(1), where F = "{}" and k = 0, OF _ _ _ out(1)])
  have "heads_run x 0" "queue_kept x 0" using assms(1) by (simp_all add: stream_inv_def)
  then have "heads_run y 0 \<and> queue_kept y 0" by (rule queue_other) (use assms out in simp_all)
  then show "heads_run y 0" "queue_kept y 0" by simp_all
qed (use assms in \<open>simp_all add: emission_ids_def\<close>)

lemma stream_quiet:
  assumes "stream_inv x" "\<And>g. \<not> names out g" shows "stream_inv (xout out (x\<lparr>ex_next := Suc (ex_next x)\<rparr>))" "stream_inv (xout out x)"
proof -
  have r: "received [out] = []" "\<And>fs. silent fs out" using assms(2) by (cases out; auto simp: received_def)+
  have c: "chain_of (xout out (x\<lparr>ex_next := Suc (ex_next x)\<rparr>)) = chain_of x" "chain_of (xout out x) = chain_of x"
    by (simp_all add: chain_of_def fun_eq_iff)
  show "stream_inv (xout out (x\<lparr>ex_next := Suc (ex_next x)\<rparr>))"
    by (rule stream_silent [OF assms(1), where outs = "[out]"])
      (use assms r c in \<open>simp_all add: out_frames emissions_def named_below_def stream_inv_def\<close>)
  show "stream_inv (xout out x)"
    by (rule stream_silent [OF assms(1), where outs = "[out]"])
      (use assms r c in \<open>simp_all add: out_frames emissions_def named_below_def stream_inv_def\<close>)
qed

lemma stream_fields:
  assumes "stream_inv x"
  shows "stream_inv (x\<lparr>ex_timer := t\<rparr>)" "stream_inv (scheduleDrain d x)" "stream_inv (x\<lparr>ex_timer := t, ex_running := b, ex_next := Suc (ex_next x)\<rparr>)"
proof -
  have d: "distinct (List.map fst (received (ex_out x)))" using assms by (simp add: stream_inv_def)
  show "stream_inv (x\<lparr>ex_timer := t\<rparr>)"
    by (rule stream_silent [OF assms, where outs = "[]"]) (simp_all add: chain_of_def fun_eq_iff named_below_def d)
  show "stream_inv (scheduleDrain d x)" for d
    by (rule stream_silent [OF assms, where outs = "[]"])
      (simp_all add: chain_of_def fun_eq_iff named_below_def scheduleDrain_def \<open>distinct _\<close>)
  show "stream_inv (x\<lparr>ex_timer := t, ex_running := b, ex_next := Suc (ex_next x)\<rparr>)"
    by (rule stream_silent [OF assms, where outs = "[]"]) (simp_all add: chain_of_def fun_eq_iff named_below_def d)
qed

lemma stream_received:
  assumes i: "stream_inv x" and r: "\<not> is_emission r"
  shows "stream_inv (xout (Received (ex_next x) r) (x\<lparr>ex_next := Suc (ex_next x)\<rparr>))" (is "stream_inv ?y")
proof (rule stream_silent [OF i, where outs = "[Received (ex_next x) r]"])
  have rc: "received [Received (ex_next x) r] = [(ex_next x, r)]" by (simp add: received_def)
  show "emissions j [Received (ex_next x) r] = []" for j using r rc by (simp add: emissions_def)
  show "distinct (List.map fst (received (ex_out ?y)))"
    using i received_below rc by (simp add: out_frames stream_inv_def)
qed (simp_all add: out_frames chain_of_def fun_eq_iff named_below_def xout_def)

text \<open>A fiber that is no emission.\<close>

lemma stream_fiber:
  assumes i: "stream_inv x" and f: "map_of (ex_fibers x) f = Some st" "\<not> emission_stage st" and a: "aside f x y" and n: "calm x y"
  shows "stream_inv y"
proof (rule stream_aside [OF i a])
  have e: "\<not> emitting x f" using f by (simp add: emitting_def)
  then show "f \<notin> emission_ids k (ex_out x)" "\<not> emitting x f" for k using i f by (simp_all add: stream_inv_def)
  show "f < ex_next x \<or> aside (Suc f) x y" using i f by (simp add: stream_inv_def)
  show "ex_next y = ex_next x" using n by (simp add: calm_def)
qed

lemma aside_prepare: "aside p x (prepareMutation cfg env op p x)"
  by (simp add: prepareMutation_def enqueue_ask_def Let_def aside_routes split: option.split)

lemma prepare_next: "ex_next (prepareMutation cfg env op p x) = ex_next x"
  by (simp add: prepareMutation_def enqueue_ask_def Let_def out_frames split: option.split)

lemma stream_fresh:
  assumes i: "stream_inv x" and n: "ex_next x = Suc f" and f: "map_of (ex_fibers x) f = None" "\<And>k. f \<notin> emission_ids k (ex_out x)"
    and a: "aside f x y" and m: "ex_next y = ex_next x"
  shows "stream_inv y"
  by (rule stream_aside [OF i a m]) (use n f in \<open>simp_all add: emitting_def\<close>)

lemma stream_emission:
  assumes i: "stream_inv x" and e: "is_emission r" and f: "f = ex_next x"
  shows "stream_inv (writeThrough cfg env r f (xout (Received f r) (x\<lparr>ex_next := Suc f\<rparr>)))"
proof -
  let ?x0 = "xout (Received f r) (x\<lparr>ex_next := Suc f\<rparr>)" and ?k = "eo_key (nr_op r)"
  have w: "writeThrough cfg env r f ?x0 = emission_arrives r f ?x0"
    using e by (simp add: writeThrough_def is_emission_def)
  have c0: "chain_of ?x0 = chain_of x" by (simp add: chain_of_def fun_eq_iff)
  obtain c cs where ec: "emission_effects r = c # cs" by (rule effects_cons)
  show ?thesis
  proof (cases "chain_of x ?k")
    case Nil
    let ?y = "call_host f (effect_call (nr_op r) c) (Applying (nr_op r) cs (After_Emission r))
      (?x0\<lparr>ex_chains := AList.update ?k [(f, r)] (ex_chains x)\<rparr>)"
    have y: "writeThrough cfg env r f ?x0 = ?y"
      unfolding w using Nil ec by (simp add: emission_arrives_def c0)
    have left: "effects_left ?y f = cs" by (simp add: effects_left_def call_fibers)
    show ?thesis
      unfolding y
    proof (rule stream_arrives [OF i e refl f, where calls = "[effect_call (nr_op r) c]"])
      show "chain_of ?y j = (if j = ?k then chain_of x ?k @ [(f, r)] else chain_of x j)" for j
        using Nil by (simp add: chain_of_def update_conv')
      show "emission_calls (f, r) = List.map (Pair f) [effect_call (nr_op r) c] @
          (if chain_of x ?k = [] then calls_of (f, r) (effects_left ?y f) else emission_calls (f, r))"
        unfolding left using Nil ec by (simp add: emission_calls_def calls_of_def)
    qed (use Nil in \<open>simp_all add: out_frames call_fibers runs_emission_def\<close>)
  next
    case (Cons a as)
    let ?y = "?x0\<lparr>ex_chains := AList.update ?k ((a # as) @ [(f, r)]) (ex_chains x)\<rparr>"
    have y: "writeThrough cfg env r f ?x0 = ?y"
      unfolding w using Cons by (simp add: emission_arrives_def c0)
    show ?thesis
      unfolding y
    proof (rule stream_arrives [OF i e refl f, where calls = "[]"])
      show "chain_of ?y j = (if j = ?k then chain_of x ?k @ [(f, r)] else chain_of x j)" for j
        using Cons by (simp add: chain_of_def update_conv')
      show "if chain_of x ?k = [] then runs_emission ?y f r else map_of (ex_fibers ?y) f = None"
        using Cons fresh_ids [OF i] f by simp
    qed (use Cons in \<open>simp_all add: out_frames\<close>)
  qed
qed

lemma stream_done:
  assumes i: "stream_inv x" and f: "map_of (ex_fibers x) f = Some (Applying op [] (After_Emission r))"
  shows "stream_inv (effects_done env (After_Emission r) f x)"
proof -
  let ?k = "eo_key (nr_op r)"
  obtain rest where ch: "chain_of x ?k = (f, r) # rest" using emission_facts [OF i f] .
  show ?thesis
  proof (cases rest)
    case Nil
    then show ?thesis using stream_last [OF i f, of "plain_result r"] ch by (simp add: effects_done_def Let_def deliver_def)
  next
    case (Cons a as)
    obtain f1 r1 where a: "a = (f1, r1)" by (cases a)
    obtain c cs where "emission_effects r1 = c # cs" by (rule effects_cons)
    then show ?thesis using stream_next [OF i f, of f1 r1 as c cs "plain_result r"] ch Cons a
      by (simp add: effects_done_def Let_def deliver_def)
  qed
qed

lemma stream_effect:
  assumes i: "stream_inv x" and f: "map_of (ex_fibers x) f = Some (Applying op es (After_Emission r))"
  shows "stream_inv (applyOperationCacheEffects env op es (After_Emission r) f x)"
  using stream_done [OF i] stream_next_effect [OF i] f
  by (cases es) (simp_all add: applyOperationCacheEffects_def)

lemma stream_resume:
  assumes i: "stream_inv x" shows "stream_inv (resume cfg env f res x)"
proof (cases "map_of (ex_fibers x) f")
  case None
  then show ?thesis using i by (simp add: resume_def)
next
  case (Some st)
  show ?thesis
  proof (cases "emission_stage st")
    case True
    then obtain op es r where st: "st = Applying op es (After_Emission r)" by (cases st rule: emission_stage.cases) auto
    have "stream_inv (cache_error err x)" for err unfolding cache_error_def by (rule stream_quiet [OF i]) simp
    then have "stream_inv (applyOperationCacheEffects env op es (After_Emission r) f (cache_error err x))" for err
      using stream_effect Some st by simp
    then show ?thesis using stream_effect [OF i] Some st by (simp add: resume_def split: sum.split)
  next
    case False
    have "aside f x (resume cfg env f res x)"
      using Some False by (cases st) (simp_all add: resume_def aside_refl aside_runner aside_commit aside_apply aside_attempt
          aside_settle aside_error split: sum.split)
    then show ?thesis by (rule stream_fiber [OF i Some False]) (rule calm_resume)
  qed
qed

lemma stream_step:
  assumes i: "stream_inv x" shows "stream_inv (exchange_input_step cfg env ev x)"
proof (cases ev)
  case (Mutation_In op)
  let ?x0 = "xout (Arrived (ex_next x) op) (x\<lparr>ex_next := Suc (ex_next x)\<rparr>)"
  have x0: "stream_inv ?x0" by (rule stream_quiet [OF i]) simp
  have "emission_ids k (ex_out ?x0) = emission_ids k (ex_out x)" for k
    by (simp add: out_frames emission_ids_def emissions_def received_def)
  then have "stream_inv (prepareMutation cfg env op (ex_next x) ?x0)"
    using fresh_ids [OF i] by (intro stream_fresh [OF x0 _ _ _ aside_prepare prepare_next]) (simp_all add: out_frames)
  then show ?thesis using Mutation_In by (simp add: fresh_fiber_def)
next
  case (Network_Result r)
  let ?x0 = "xout (Received (ex_next x) r) (x\<lparr>ex_next := Suc (ex_next x)\<rparr>)"
  have "stream_inv (writeThrough cfg env r (ex_next x) ?x0)"
  proof (cases "is_emission r")
    case True
    then show ?thesis using stream_emission [OF i True refl] by simp
  next
    case False
    have "emission_ids k (ex_out ?x0) = emission_ids k (ex_out x)" for k
      using False by (simp add: out_frames emission_ids_def emissions_def received_def)
    then show ?thesis
      using fresh_ids [OF i] calm_through [OF calm_refl, of ?x0 cfg env r "ex_next x"]
      by (intro stream_fresh [OF stream_received [OF i False] _ _ _ aside_through [OF aside_refl False]])
        (simp_all add: out_frames calm_def)
  qed
  then show ?thesis using Network_Result by (simp add: fresh_fiber_def)
next
  case (Enqueue_Settled p res)
  have "stream_inv (resume_enqueue cfg env p res x)"
  proof (cases "enqueuing x p")
    case True
    then obtain st where st: "map_of (ex_fibers x) p = Some st" "enqueue_stage st" by (auto simp: enqueuing_def)
    then have "\<not> emission_stage st" by (cases st) simp_all
    then show ?thesis by (rule stream_fiber [OF i st(1) _ aside_enqueue calm_resume_enqueue])
  next
    case False
    then have "resume_enqueue cfg env p res x = x"
      by (auto simp: resume_enqueue_def enqueuing_def split: option.split fiber.split)
    then show ?thesis using i by simp
  qed
  then show ?thesis using Enqueue_Settled by simp
next
  case (Retry_Decided f b)
  have "stream_inv (retry_decided env r qa b f x)" if "map_of (ex_fibers x) f = Some (Deciding r qa)" for r qa
    by (rule stream_fiber [OF i that _ aside_attempt(3) [OF aside_refl] calm_attempt(3) [OF calm_refl]]) simp
  then show ?thesis using Retry_Decided i by (simp split: option.split fiber.split)
next
  case (Replay_Settled f err)
  have "stream_inv (replay_settled cfg c k err f x)" if "map_of (ex_fibers x) f = Some (Replaying c k)" for c k
    by (rule stream_fiber [OF i that _ aside_runner(1) [OF aside_refl] calm_replay(1) [OF calm_refl]]) simp
  then show ?thesis using Replay_Settled i by (simp split: option.split fiber.split)
next
  case Drain_Timer
  let ?t = "x\<lparr>ex_timer := None\<rparr>" and ?f = "ex_next x"
  let ?u = "x\<lparr>ex_timer := None, ex_running := True, ex_next := Suc ?f\<rparr>"
  have t: "stream_inv ?t" by (rule stream_fields [OF i])
  have l: "stream_inv (resolveLiveOperationsAsQueued ?t)"
  proof (rule stream_aside [OF t aside_resolve_live [OF aside_refl]])
    show "?f \<notin> emission_ids k (ex_out ?t)" for k using fresh_ids [OF i] by simp
    show "\<not> emitting ?t ?f" using fresh_ids [OF i] by (simp add: emitting_def)
    show "?f < ex_next ?t \<or> aside (Suc ?f) ?t (resolveLiveOperationsAsQueued ?t)" by (simp add: aside_resolve_live aside_refl)
    show "ex_next (resolveLiveOperationsAsQueued ?t) = ex_next ?t" using calm_resolve_live [OF calm_refl, of ?t] by (simp add: calm_def)
  qed
  have u: "stream_inv ?u" by (rule stream_fields [OF i])
  have "stream_inv (call_host ?f call Claiming ?u)" for call
    using fresh_ids [OF i] by (intro stream_fresh [OF u _ _ _ aside_ask [OF aside_refl]]) (simp_all add: out_frames)
  then show ?thesis using Drain_Timer i t l by (simp add: drainMutationQueue_def fresh_fiber_def Let_def)
qed (use i stream_resume stream_fields stream_quiet in simp_all)

lemma stream_initial: "stream_inv (initial_exchange cfg)"
  by (simp add: stream_inv_def initial_exchange_def named_below_def emitting_def heads_run_def chain_of_def queue_kept_def
      emissions_delivered_def effects_called_def effects_pending_def)

interpretation streams: machine "initial_exchange cfg" "exchange_step cfg" "\<lambda>ev. True" stream_inv for cfg
  by unfold_locales (auto simp: stream_initial exchange_step_def stream_step)

end
