(* ===== verification/Exchange_Types.thy ===== *)
theory Exchange_Types
  imports Exchange_Machine Host_Requests
begin

text \<open>
  The calls the exchange makes have the types of \<open>CacheHost\<close>, so that the host accepts them.
\<close>

section \<open>Typed states\<close>

definition typed_op :: "operation \<Rightarrow> bool" where
  "typed_op op \<longleftrightarrow> isOptionalRecord (eo_variables op)"

definition typed_initial :: "jsval \<Rightarrow> bool" where
  "typed_initial claim \<longleftrightarrow> is_string (getp claim ''owner'') \<and> typed_time (getp claim ''nowMs'') \<and>
     typed_time (getp claim ''leaseExpiresAtMs'')"

fun typed_fiber :: "fiber \<Rightarrow> bool" where
  "typed_fiber (Enqueuing op oc claim) \<longleftrightarrow> typed_op op \<and> typed_initial claim"
| "typed_fiber (Enqueuing_Again op) \<longleftrightarrow> typed_op op"
| "typed_fiber (Committing r qa) \<longleftrightarrow> typed_op (nr_op r)"
| "typed_fiber (Applying op es after) \<longleftrightarrow> typed_op op"
| "typed_fiber _ \<longleftrightarrow> True"

text \<open>A typed call that the host sends as it is.\<close>

definition host_ready :: "api_call \<Rightarrow> bool" where
  "host_ready call \<longleftrightarrow> typed_call call \<and> (\<forall>now. prepare_call now call = Inr call)"

fun typed_output :: "exchange_output \<Rightarrow> bool" where
  "typed_output (Host_Called f call) \<longleftrightarrow> host_ready call"
| "typed_output _ \<longleftrightarrow> True"

definition typed_exchange :: "exchange \<Rightarrow> bool" where
  "typed_exchange x \<longleftrightarrow> list_all typed_output (ex_out x) \<and>
     (\<forall>f st. map_of (ex_fibers x) f = Some st \<longrightarrow> typed_fiber st) \<and>
     (\<forall>k. \<forall>e \<in> set (chain_of x k). typed_op (nr_op (snd e)))"

fun typed_event :: "exchange_event \<Rightarrow> bool" where
  "typed_event (env, ev) \<longleftrightarrow> 0 \<le> xe_now env \<and> xe_now env + QUEUE_LEASE_MS \<le> max_safe_integer \<and>
     (case ev of Mutation_In op \<Rightarrow> typed_op op | Network_Result r \<Rightarrow> typed_op (nr_op r) | _ \<Rightarrow> True)"

section \<open>Typed calls\<close>

lemma opt_string: "isOptionalString (opt_val JStr s)"
  by (cases s) (simp_all add: isOptionalString_def)

lemma undef_string: "isOptionalString JUndef"
  by (simp add: isOptionalString_def)

lemma typed_write: "typed_op op \<Longrightarrow> typed_call (Write_Query (write_args op d))" "typed_op op \<Longrightarrow> operation_fields (write_args op d)"
  by (simp_all add: write_args_def op_fields_def operation_fields_def getp_def typed_op_def opt_string undef_string
      isEntityResolvers_def)

lemma typed_effect: "typed_op op \<Longrightarrow> host_ready (effect_call op e)"
  using typed_write(1) by (cases e) (simp_all add: host_ready_def effect_call_def isStringArray_def)

lemma typed_enqueue:
  "typed_op op \<Longrightarrow> typed_initial claim \<Longrightarrow> host_ready (Enqueue_Mutation (enqueue_args op oc ps rs) claim)"
  by (simp add: host_ready_def enqueue_args_def op_fields_def operation_fields_def getp_def typed_op_def opt_string typed_initial_def typed_list_def)

lemma typed_initial_args:
  "0 \<le> now \<Longrightarrow> now + QUEUE_LEASE_MS \<le> max_safe_integer \<Longrightarrow> typed_initial (initial_claim_args cfg now)"
  by (simp add: typed_initial_def initial_claim_args_def getp_def typed_time_def isSafeNonNegativeInteger_def QUEUE_LEASE_MS_def)

lemma typed_claims:
  "typed_claim (claim_args owner generation)" "typed_claim (attempt_claim qa)"
  by (simp_all add: typed_claim_def claim_args_def attempt_claim_def getp_def)

lemma typed_times:
  "0 \<le> now \<Longrightarrow> now \<le> max_safe_integer \<Longrightarrow> typed_time (JInt now)"
  by (simp add: typed_time_def isSafeNonNegativeInteger_def)

lemma retry_bounds: "0 < retryDelayMs n" "retryDelayMs n \<le> 60000"
  by (simp_all add: retryDelayMs_def)

section \<open>Operations\<close>

lemma typed_xout: "typed_exchange y \<Longrightarrow> typed_output out \<Longrightarrow> typed_exchange (xout out y)"
  by (simp add: typed_exchange_def xout_def chain_of_def)

lemma typed_basic:
  "typed_exchange y \<Longrightarrow> typed_fiber st \<Longrightarrow> typed_exchange (put_fiber f st y)"
  "typed_exchange y \<Longrightarrow> typed_exchange (end_fiber f y)"
  "typed_exchange y \<Longrightarrow> typed_exchange (y\<lparr>ex_deferred := at\<rparr>)" "typed_exchange y \<Longrightarrow> typed_exchange (y\<lparr>ex_live := ls\<rparr>)"
  "typed_exchange y \<Longrightarrow> typed_exchange (y\<lparr>ex_routes := rs\<rparr>)" "typed_exchange y \<Longrightarrow> typed_exchange (y\<lparr>ex_attempt := a\<rparr>)"
  "typed_exchange y \<Longrightarrow> typed_exchange (y\<lparr>ex_running := b\<rparr>)" "typed_exchange y \<Longrightarrow> typed_exchange (y\<lparr>ex_timer := t\<rparr>)"
  "typed_exchange y \<Longrightarrow> typed_exchange (y\<lparr>ex_next := n\<rparr>)" "typed_exchange y \<Longrightarrow> typed_exchange (scheduleDrain d y)"
  by (auto simp: typed_exchange_def put_fiber_def end_fiber_def scheduleDrain_def chain_of_def update_conv' delete_conv' split: if_splits)

lemma typed_ask: "typed_exchange y \<Longrightarrow> host_ready call \<Longrightarrow> typed_fiber st \<Longrightarrow> typed_exchange (call_host f call st y)"
  by (simp add: call_host_def typed_basic typed_xout)

lemma typed_error: "typed_exchange y \<Longrightarrow> typed_exchange (cache_error err y)"
  by (simp add: cache_error_def typed_xout)

lemma typed_routes:
  "typed_exchange y \<Longrightarrow> typed_exchange (finish_route p res y)"
  "typed_exchange y \<Longrightarrow> typed_exchange (resolve_route p res y)"
  "typed_exchange y \<Longrightarrow> typed_exchange (await_route p op y)"
proof -
  have f: "typed_exchange y \<Longrightarrow> typed_exchange (finish_route p res y)" for p res y
    by (simp add: finish_route_def typed_basic typed_xout split: option.split)
  then show "typed_exchange y \<Longrightarrow> typed_exchange (finish_route p res y)" .
  show "typed_exchange y \<Longrightarrow> typed_exchange (resolve_route p res y)" "typed_exchange y \<Longrightarrow> typed_exchange (await_route p op y)"
    by (simp_all add: resolve_route_def await_route_def f typed_basic split: option.split fiber.split)
qed

lemma typed_resolve_live: "typed_exchange y \<Longrightarrow> typed_exchange (resolveLiveOperationsAsQueued y)"
proof -
  have "typed_exchange (fold resolve_queued ls z)" if "typed_exchange z" for ls z
    using that by (induction ls arbitrary: z) (auto simp: resolve_queued_def typed_routes)
  then show "typed_exchange y \<Longrightarrow> ?thesis" by (simp add: resolveLiveOperationsAsQueued_def typed_basic)
qed

lemmas typed_ops = typed_xout typed_basic typed_ask typed_error typed_routes typed_resolve_live

lemma typed_done: "typed_exchange y \<Longrightarrow> typed_exchange (route_done k f y)"
  by (cases k) (simp_all add: route_done_def typed_ops)

lemma typed_failed: "typed_exchange y \<Longrightarrow> typed_exchange (route_failed k f err y)"
  unfolding route_failed_def by (intro typed_done typed_basic typed_resolve_live) (cases k; simp add: typed_ops)

lemma typed_roll_back: "typed_exchange y \<Longrightarrow> typed_exchange (roll_back cfg c reason k f y)"
  by (simp add: roll_back_def typed_ops typed_claims host_ready_def)

lemma typed_claimed: "typed_exchange y \<Longrightarrow> typed_exchange (routeClaimedMutation cfg env c k f y)"
  unfolding routeClaimedMutation_def Let_def
  by (simp add: typed_ops typed_done typed_roll_back split: option.split sum.split prod.split)

lemma typed_runner:
  "typed_exchange y \<Longrightarrow> typed_exchange (replay_settled cfg c k err f y)" "typed_exchange y \<Longrightarrow> typed_exchange (rolled_back k res f y)"
  "typed_exchange y \<Longrightarrow> typed_exchange (claim_settled cfg env res f y)" "typed_exchange y \<Longrightarrow> typed_exchange (enqueued cfg env op v f y)"
  unfolding replay_settled_def rolled_back_def claim_settled_def enqueued_def Let_def
  by (simp_all add: typed_ops typed_done typed_failed typed_roll_back typed_claimed split: option.split sum.split)

lemma typed_fiber_at: "typed_exchange x \<Longrightarrow> map_of (ex_fibers x) f = Some st \<Longrightarrow> typed_fiber st"
  by (simp add: typed_exchange_def)

lemma typed_resume_enqueue: "typed_exchange x \<Longrightarrow> typed_exchange (resume_enqueue cfg env p res x)"
  using typed_fiber_at [of x p]
  by (auto simp: resume_enqueue_def enqueue_settled_def enqueue_again_settled_def enqueue_uncertain_def Let_def
      split: option.split fiber.split sum.split intro!: typed_ops typed_runner typed_enqueue)

lemma typed_revalidate: "typed_exchange y \<Longrightarrow> typed_exchange (revalidateAfterCommit env rs y)"
proof -
  have "typed_exchange (revalidate_one env r z)" if "typed_exchange z" for r z
    using that by (simp add: revalidate_one_def Let_def typed_ops split: sum.split)
  then show "typed_exchange y \<Longrightarrow> ?thesis" unfolding revalidateAfterCommit_def by (induction rs arbitrary: y) simp_all
qed

lemma typed_settle:
  "typed_exchange y \<Longrightarrow> typed_exchange (finish_attempt env r qa d at f y)" "typed_exchange y \<Longrightarrow> typed_exchange (give_up r qa f y)"
  "typed_exchange y \<Longrightarrow> typed_exchange (deliver r rs f y)" "typed_exchange y \<Longrightarrow> typed_exchange (finish_plain r f y)"
  by (simp_all add: finish_attempt_def give_up_def deliver_def finish_plain_def typed_ops typed_claims attempt_error_def host_ready_def)

lemma typed_attempt:
  "typed_exchange y \<Longrightarrow> typed_exchange (attempt_uncertain env r qa err f y)"
  "typed_exchange y \<Longrightarrow> typed_op (nr_op r) \<Longrightarrow> typed_exchange (settle_attempt cfg r qa f y)"
  by (simp_all add: attempt_uncertain_def settle_attempt_def Let_def typed_settle typed_ops typed_claims typed_write host_ready_def split: sum.split)

lemma typed_retry:
  assumes "typed_exchange y" "0 \<le> xe_now env" "xe_now env + QUEUE_LEASE_MS \<le> max_safe_integer"
  shows "typed_exchange (retry_decided env r qa b f y)"
proof -
  have "typed_time (JInt (xe_now env + retryDelayMs (qa_count qa)))"
    using assms(2,3) retry_bounds [of "qa_count qa"] by (intro typed_times) (simp_all add: QUEUE_LEASE_MS_def)
  then show ?thesis using assms(1)
    by (simp add: retry_decided_def Let_def typed_settle typed_ops typed_claims attempt_error_def host_ready_def split: sum.split)
qed

lemma typed_chain_set:
  assumes "typed_exchange y" "\<forall>e \<in> set c. typed_op (nr_op (snd e))"
  shows "typed_exchange (y\<lparr>ex_chains := AList.update k c (ex_chains y)\<rparr>)" "typed_exchange (y\<lparr>ex_chains := AList.delete k (ex_chains y)\<rparr>)"
  using assms by (auto simp: typed_exchange_def chain_of_def update_conv' delete_conv' split: option.splits if_splits)

lemma typed_chain:
  "typed_exchange y \<Longrightarrow> \<forall>e \<in> set c. typed_op (nr_op (snd e)) \<Longrightarrow> typed_exchange (run_chain k c y)"
proof (induction c)
  case Nil
  then show ?case using typed_chain_set(2) [of y "[]" k] by simp
next
  case (Cons e c)
  obtain f r where e: "e = (f, r)" by (cases e)
  have "typed_exchange (y\<lparr>ex_chains := AList.update k (e # c) (ex_chains y)\<rparr>)" using Cons.prems by (rule typed_chain_set)
  then show ?case using Cons e by (simp add: typed_settle typed_ask typed_effect split: list.split)
qed

lemma typed_chain_of: "typed_exchange x \<Longrightarrow> \<forall>e \<in> set (chain_of x k). typed_op (nr_op (snd e))"
  by (simp add: typed_exchange_def)

lemma typed_effects_done: "typed_exchange y \<Longrightarrow> typed_exchange (effects_done env after f y)"
proof (cases after)
  case (After_Emission r)
  assume t: "typed_exchange y"
  have "\<forall>e \<in> set (tl (chain_of y (eo_key (nr_op r)))). typed_op (nr_op (snd e))"
    using typed_chain_of [OF t] set_of_tl by fast
  then show ?thesis using After_Emission t by (simp add: effects_done_def Let_def typed_settle typed_chain)
qed (simp_all add: effects_done_def typed_settle typed_revalidate)

lemma typed_apply: "typed_exchange y \<Longrightarrow> typed_op op \<Longrightarrow> typed_exchange (applyOperationCacheEffects env op es after f y)"
  by (simp add: applyOperationCacheEffects_def typed_effects_done typed_ask typed_effect split: list.split)

lemma typed_commit: "typed_exchange y \<Longrightarrow> typed_op (nr_op r) \<Longrightarrow> typed_exchange (commit_settled env r qa res f y)"
  by (simp add: commit_settled_def Let_def typed_effects_done typed_apply typed_attempt split: sum.split)

lemma typed_through: "typed_exchange y \<Longrightarrow> typed_op (nr_op r) \<Longrightarrow> typed_exchange (writeThrough cfg env r f y)"
proof -
  assume t: "typed_exchange y" and r: "typed_op (nr_op r)"
  have "typed_exchange (emission_arrives r f y)"
    using typed_chain_set(1) [OF t, of "chain_of y (eo_key (nr_op r)) @ [(f, r)]" "eo_key (nr_op r)"] typed_chain_of [OF t] r
    by (auto simp: emission_arrives_def Let_def typed_chain t simp del: run_chain.simps)
  then show ?thesis using t r
    by (simp add: writeThrough_def typed_attempt typed_apply typed_settle split: operation_kind.split option.split)
qed

lemma typed_resume: "typed_exchange x \<Longrightarrow> typed_exchange (resume cfg env f res x)"
  using typed_fiber_at [of x f]
  by (auto simp: resume_def split: option.split fiber.split sum.split
      intro!: typed_runner typed_attempt(1) typed_settle typed_commit typed_apply typed_error)

lemma typed_step:
  assumes "typed_exchange x" "typed_event (env, ev)"
  shows "typed_exchange (exchange_input_step cfg env ev x)"
proof (cases ev)
  case (Mutation_In op)
  then have "typed_exchange (prepareMutation cfg env op p y)" if "typed_exchange y" for p y
    using assms(2) that
    by (auto simp: prepareMutation_def enqueue_ask_def Let_def typed_xout split: option.split
        intro!: typed_ask typed_enqueue typed_initial_args)
  then show ?thesis using Mutation_In assms(1) by (simp add: fresh_fiber_def typed_ops)
next
  case (Network_Result r)
  then show ?thesis using assms by (simp add: fresh_fiber_def typed_ops typed_through)
next
  case Drain_Timer
  have n: "typed_time (JInt (xe_now env))" "typed_time (JInt (xe_now env + QUEUE_LEASE_MS))"
    using assms(2) by (auto intro!: typed_times simp: QUEUE_LEASE_MS_def)
  have "typed_exchange (drainMutationQueue cfg env y)" if "typed_exchange y" for y
  proof -
    have "typed_exchange (call_host f (Claim_Next (JStr (queueOwner cfg)) (JInt (xe_now env)) (JInt (xe_now env + QUEUE_LEASE_MS))) Claiming
        (y\<lparr>ex_running := True, ex_next := m\<rparr>))" for f m
      using typed_basic(9) [OF typed_basic(7) [OF that]] n by (intro typed_ask) (simp_all add: host_ready_def)
    then show ?thesis using that by (simp add: drainMutationQueue_def fresh_fiber_def Let_def typed_resolve_live)
  qed
  then show ?thesis using Drain_Timer assms(1) by (simp add: typed_basic)
qed (use assms in \<open>auto simp: typed_resume_enqueue typed_resume typed_retry typed_runner typed_ops split: option.split fiber.split\<close>)

lemma typed_initial_exchange: "typed_exchange (initial_exchange cfg)"
  by (simp add: typed_exchange_def initial_exchange_def chain_of_def)

interpretation typed: machine "initial_exchange cfg" "exchange_step cfg" typed_event typed_exchange for cfg
proof unfold_locales
  show "typed_exchange (initial_exchange cfg)" by (rule typed_initial_exchange)
  fix x and ev :: exchange_event
  assume "typed_exchange x" "typed_event ev"
  then show "typed_exchange (snd (exchange_step cfg ev x))"
    using typed_step [of x "fst ev" "snd ev" cfg] by (simp add: exchange_step_def)
qed

end
