(* ===== verification/Exchange_Theorems.thy ===== *)
theory Exchange_Theorems
  imports Exchange_Runner Exchange_Order Exchange_Types
begin

text \<open>
  The properties of the mutation half of the exchange: callers are answered once, the runner is never
  left asleep, attempts end with the disposition the host confirmed, calls of the host are typed.
\<close>

section \<open>Balances of runs\<close>

definition attempt_at :: "fiber \<Rightarrow> js_string option" where
  "attempt_at st =
     (case st of
        Deferring r qa at \<Rightarrow> Some (qa_transaction qa)
      | Giving_Up r qa \<Rightarrow> Some (qa_transaction qa)
      | Committing r qa \<Rightarrow> Some (qa_transaction qa)
      | Applying op es (After_Commit r qa rs) \<Rightarrow> Some (qa_transaction qa)
      | _ \<Rightarrow> None)"

definition live_transaction :: "exchange \<Rightarrow> js_string \<Rightarrow> bool" where
  "live_transaction x tx \<longleftrightarrow> map_of (ex_live x) tx \<noteq> None"

text \<open>
  No transaction id is answered to a second enqueue, and no attempt of a transaction is settled, while
  the caller of the transaction still waits for its route.
\<close>

definition orderly :: "exchange_event \<Rightarrow> exchange \<Rightarrow> bool" where
  "orderly ev x \<longleftrightarrow>
     (case snd ev of
        Enqueue_Settled p (Inr v) \<Rightarrow> \<not> live_transaction x (the_str (getp v ''transactionId''))
      | Host_Settled f res \<Rightarrow>
          (case map_of (ex_fibers x) f of
             None \<Rightarrow> True
           | Some st \<Rightarrow> (case attempt_at st of None \<Rightarrow> True | Some tx \<Rightarrow> \<not> live_transaction x tx))
      | _ \<Rightarrow> True)"

lemma held_none: "\<not> live_transaction x tx \<Longrightarrow> held x tx q = 0"
  by (cases "map_of (ex_live x) tx") (simp_all add: held_def live_transaction_def)

lemma orderly_keeps: "orderly ev x \<Longrightarrow> forgets (snd ev) x q = 0"
  by (cases "snd ev")
    (auto simp: orderly_def forgets_def attempt_at_def answer_held_def after_held_def held_none
      split: option.splits fiber.splits sum.splits after_effects.splits)

lemma arrivals_xout: "arrivals (xout out x) q = arrivals x q + of_bool (arrives q out)"
  by (simp add: arrivals_def xout_def)

lemma calm_arrivals: "calm x y \<Longrightarrow> arrivals y q = arrivals x q"
  by (simp add: calm_def)

lemma arrivals_next: "arrivals (x\<lparr>ex_next := n\<rparr>) q = arrivals x q" "arrivals (x\<lparr>ex_timer := t\<rparr>) q = arrivals x q"
  by (simp_all add: arrivals_def)

lemma arrivals_quiet: "arrivals (put_fiber f st x) q = arrivals x q" "arrivals (scheduleDrain d x) q = arrivals x q"
  by (simp_all add: arrivals_def put_fiber_def scheduleDrain_def)

lemma step_arrivals: "arrivals (exchange_input_step cfg env ev x) q = arrivals x q + opens ev x q"
proof (cases ev)
  case (Mutation_In op)
  have "arrivals (prepareMutation cfg env op p y) q = arrivals y q" for p y
    by (simp add: prepareMutation_def enqueue_ask_def Let_def call_host_def arrivals_xout arrivals_quiet split: option.split)
  then show ?thesis using Mutation_In by (simp add: fresh_fiber_def opens_def arrivals_xout arrivals_next)
next
  case (Enqueue_Settled p res)
  then show ?thesis using calm_arrivals [OF calm_resume_enqueue] by (simp add: opens_def)
next
  case (Host_Settled f res)
  then show ?thesis using calm_arrivals [OF calm_resume] by (simp add: opens_def)
next
  case (Network_Result r)
  then show ?thesis using calm_arrivals [OF calm_through [OF calm_refl]]
    by (simp add: opens_def fresh_fiber_def arrivals_xout arrivals_next)
next
  case (Retry_Decided f b)
  then show ?thesis using calm_arrivals [OF calm_attempt(3) [OF calm_refl]]
    by (simp add: opens_def split: option.split fiber.split)
next
  case (Replay_Settled f err)
  then show ?thesis using calm_arrivals [OF calm_replay(1) [OF calm_refl]]
    by (simp add: opens_def split: option.split fiber.split)
next
  case Drain_Timer
  have "arrivals (drainMutationQueue cfg env y) q = arrivals y q" for y
    using calm_arrivals [OF calm_resolve_live [OF calm_refl]]
    by (simp add: drainMutationQueue_def fresh_fiber_def Let_def call_host_def arrivals_quiet arrivals_xout) (simp add: arrivals_def)
  then show ?thesis using Drain_Timer by (simp add: opens_def arrivals_next)
qed (simp_all add: opens_def arrivals_xout arrivals_quiet)

lemma initial_books: "balance (initial_exchange cfg) q = 0" "arrivals (initial_exchange cfg) q = 0"
  by (simp_all add: balance_defs arrivals_def initial_exchange_def)

interpretation exchanges: machine "initial_exchange cfg" "exchange_step cfg" "\<lambda>ev. True"
  "\<lambda>x. exchange_inv x \<and> (\<forall>q. balance x q \<le> arrivals x q)" for cfg
proof unfold_locales
  show "exchange_inv (initial_exchange cfg) \<and> (\<forall>q. balance (initial_exchange cfg) q \<le> arrivals (initial_exchange cfg) q)"
    by (simp add: inv_initial_exchange initial_books)
  fix x and ev :: exchange_event
  assume i: "exchange_inv x \<and> (\<forall>q. balance x q \<le> arrivals x q)"
  let ?y = "exchange_input_step cfg (fst ev) (snd ev) x"
  have "balance ?y q \<le> arrivals ?y q" for q
    using step_books [of x cfg "fst ev" "snd ev" q] step_arrivals [of cfg "fst ev" "snd ev" x q] i
    by (metis add_leD1 add_le_mono1)
  then show "exchange_inv (snd (exchange_step cfg ev x)) \<and>
      (\<forall>q. balance (snd (exchange_step cfg ev x)) q \<le> arrivals (snd (exchange_step cfg ev x)) q)"
    using i by (simp add: exchange_step_def inv_exchange_step)
qed

interpretation callers: guarded_machine "initial_exchange cfg" "exchange_step cfg" orderly
  "\<lambda>x. exchange_inv x \<and> (\<forall>q. balance x q = arrivals x q)" for cfg
proof unfold_locales
  show "exchange_inv (initial_exchange cfg) \<and> (\<forall>q. balance (initial_exchange cfg) q = arrivals (initial_exchange cfg) q)"
    by (simp add: inv_initial_exchange initial_books)
  fix x and ev :: exchange_event
  assume i: "exchange_inv x \<and> (\<forall>q. balance x q = arrivals x q)" and o: "orderly ev x"
  let ?y = "exchange_input_step cfg (fst ev) (snd ev) x"
  have "balance ?y q = arrivals ?y q" for q
    using step_books [of x cfg "fst ev" "snd ev" q] step_arrivals [of cfg "fst ev" "snd ev" x q] i orderly_keeps [OF o, of q]
    by simp
  then show "exchange_inv (snd (exchange_step cfg ev x)) \<and>
      (\<forall>q. balance (snd (exchange_step cfg ev x)) q = arrivals (snd (exchange_step cfg ev x)) q)"
    using i by (simp add: exchange_step_def inv_exchange_step)
qed

text \<open>A caller that nothing has answered yet: its enqueue runs, its operation is live, or its route is resolved
  with a result that it has yet to await.\<close>

definition waiting :: "exchange \<Rightarrow> nat \<Rightarrow> bool" where
  "waiting x p \<longleftrightarrow> enqueuing x p \<or> list_ex (\<lambda>e. fst (snd e) = p) (ex_live x) \<or>
     list_ex (\<lambda>e. fst e = p \<and> snd e \<noteq> None) (ex_routes x)"

lemma waiting_owed: "waiting x p \<longleftrightarrow> owed x p > 0"
  by (auto simp: waiting_def owed_def live_owed_def routes_owed_def list_ex_iff filter_empty_conv)

lemma arrived_once: "Arrived p op \<in> set (ex_out x) \<Longrightarrow> arrivals x p > 0"
  by (auto simp: arrivals_def filter_empty_conv intro: bexI [of _ "Arrived p op"])

text \<open>
  C32: A mutation that reaches the exchange is answered at most once, in any run: forwarded to the network
  or answered by the exchange itself, never both. While no transaction id is reused or settled under a
  live operation, a caller without an answer is waiting in an enqueue, as a live operation or with a
  resolved route, and a caller with an answer waits nowhere.\<close>

lemma exchange_answers_once:
  "let x = snd (run (exchange_step cfg) es (initial_exchange cfg)) in
     answers x p \<le> 1 \<and>
     (abides orderly (exchange_step cfg) es (initial_exchange cfg) \<and> Arrived p op \<in> set (ex_out x) \<longrightarrow>
       (answers x p = 0 \<longleftrightarrow> waiting x p))"
proof -
  let ?x = "snd (run (exchange_step cfg) es (initial_exchange cfg))"
  have i: "exchange_inv ?x" "balance ?x p \<le> arrivals ?x p"
    using exchanges.inv_run [of es cfg] by (simp_all add: list_all_iff)
  then have a: "arrivals ?x p \<le> 1" by (simp add: exchange_inv_def)
  have "answers ?x p = 0 \<longleftrightarrow> waiting ?x p"
    if "abides orderly (exchange_step cfg) es (initial_exchange cfg)" "Arrived p op \<in> set (ex_out ?x)"
  proof -
    have "balance ?x p = arrivals ?x p" using callers.inv_guarded [OF that(1)] by simp
    then have "balance ?x p = 1" using a arrived_once [OF that(2)] by linarith
    then show ?thesis unfolding waiting_owed balance_def by linarith
  qed
  moreover have "answers ?x p \<le> 1" using i(2) a by (simp add: balance_def)
  ultimately show ?thesis by (simp add: Let_def)
qed

text \<open>
  C33: In every run of an enabled exchange in which no timer fires between the settlement of a replayed
  attempt and the resolution of its promise, the runner of the queue has a wake-up source: its timer is
  armed, an attempt is in flight, or a claim or rollback of the runner is at the host.\<close>

lemma exchange_never_stalls:
  assumes "abides prompt (exchange_step cfg) es (initial_exchange cfg)" "\<not> xc_disabled cfg"
    and "x = snd (run (exchange_step cfg) es (initial_exchange cfg))"
  shows "ex_timer x \<noteq> None \<or> ex_attempt x \<or> at_host x"
  using runner.inv_guarded [OF assms(1)] assms(2,3) by (simp add: runner_inv_def awake_def stirred_def)

text \<open>
  C34: For every subscription, the cache effects called so far followed by the pending ones are exactly
  the effects of all its emissions in arrival order, and the emissions delivered followed by the chain are
  exactly those received: a slow write of an emission is never overtaken.\<close>

lemma subscription_effects_in_order:
  "let x = snd (run (exchange_step cfg) es (initial_exchange cfg)); outs = ex_out x in
     effects_called k outs @ effects_pending x k = concat (List.map emission_calls (emissions k outs)) \<and>
     emissions_delivered k outs @ chain_of x k = emissions k outs"
  using streams.inv_run [of es cfg] by (simp add: stream_inv_def queue_kept_def Let_def list_all_iff)























section \<open>Divergences from the comments\<close>

text \<open>
  Fields next to a deletion are not written when no field of the object yields a write: the effects are the
  deletion alone.\<close>

lemma siblings_dropped:
  assumes "graphqlCacheDeletionKey del = Some k" "\<not> containsCacheDeletion x"
  shows "operationCacheEffects (JObj [(js ''moveItem'', JObj [(js ''item'', x), (js ''removed'', del)])]) = [Delete_Effect k]"
proof -
  have c: "containsCacheDeletion del" using key_contains assms(1) by simp
  have d: "operationCacheEffects del = [Delete_Effect k]" using assms(1) by (cases del) (simp_all add: only_objects)
  have n: "graphqlCacheDeletionKey (JObj [(js ''item'', x), (js ''removed'', del)]) = None"
      "\<And>v. graphqlCacheDeletionKey (JObj [(js ''moveItem'', v)]) = None"
    by (simp_all add: graphqlCacheDeletionKey_def getp_def)
  show ?thesis using assms(2) by (simp add: n c d in_field_def)
qed

text \<open>
  A caller whose enqueue claims an older transaction without a live operation stays unanswered while the
  older mutation is replayed over the network.\<close>

lemma older_claim_delays_caller:
  assumes "map_of (ex_fibers x) p = Some (Enqueuing op oc claim)" "getp v ''initialClaim'' = c"
    and "getp c ''kind'' = JStr (js ''claimed'')" "claimed_of (getp c ''mutation'') = m"
    and "cl_transaction m \<noteq> the_str (getp v ''transactionId'')" "map_of (ex_live x) (cl_transaction m) = None"
    and "replayDocument (xe_parse env) (cl_query m) (cl_name m) = Inr defs"
    and "y = exchange_input_step cfg env (Enqueue_Settled p (Inr v)) x"
  shows "map_of (ex_fibers y) p = Some (Replaying m (End_Prep op)) \<and> waiting y p \<and>
    ex_out y = ex_out x @ [Replay_Sent p (replay_op cfg m)] \<and> ex_timer y = ex_timer x"
proof -
  let ?live = "AList.update (the_str (getp v ''transactionId'')) (p, op) (ex_live x)"
  have "map_of ?live (cl_transaction m) = None" using assms(5,6) by (simp add: update_conv')
  moreover have "(the_str (getp v ''transactionId''), p, op) \<in> set ?live" by (rule map_of_SomeD) (simp add: update_conv')
  ultimately show ?thesis
    using assms by (auto simp: resume_enqueue_def enqueue_settled_def enqueued_def routeClaimedMutation_def Let_def
        waiting_def list_ex_iff xout_def put_fiber_def update_conv' intro!: bexI)
qed

section \<open>Witnesses\<close>

definition sample_cfg :: exchange_config where
  "sample_cfg = \<lparr> xc_client = js ''c'', xc_disabled = False, xc_retries = True \<rparr>"

definition sample_env :: exchange_env where
  "sample_env = \<lparr> xe_now = 1000, xe_parse = \<lambda>q. Inr [], xe_json = \<lambda>s. Inr JNull, xe_unmatched = \<lambda>v. [] \<rparr>"

definition sample_op :: operation where
  "sample_op = \<lparr> eo_kind = Op_Mutation, eo_key = 1, eo_text = js ''m'', eo_name = None, eo_variables = JUndef,
     eo_context = JObj [(js ''optimisticResponse'', JNull)], eo_attempt = None, eo_timeout = False \<rparr>"

definition sample_attempt :: queue_attempt where
  "sample_attempt = \<lparr> qa_transaction = js ''t'', qa_owner = js ''o'', qa_generation = js ''1'', qa_count = 3 \<rparr>"

definition sample_failure :: network_result where
  "sample_failure = \<lparr> nr_op = sample_op\<lparr>eo_attempt := Some sample_attempt\<rparr>, nr_data = JNull, nr_error = Some (js ''e'') \<rparr>"

lemmas sample_defs = sample_cfg_def sample_env_def sample_op_def sample_attempt_def sample_failure_def

text \<open>The answer of an enqueue whose own mutation was claimed.\<close>

definition sample_claimed :: jsval where
  "sample_claimed = JObj [(js ''transactionId'', JStr (js ''t'')), (js ''initialClaim'', JObj [(js ''kind'', JStr (js ''claimed'')),
     (js ''mutation'', JObj [(js ''transactionId'', JStr (js ''t'')), (js ''leaseGeneration'', JStr (js ''1'')),
        (js ''query'', JStr (js ''m'')), (js ''attemptCount'', JInt 1)])])]"

lemma sample_enqueues:
  "snd (exchange_step sample_cfg (sample_env, Mutation_In sample_op) (initial_exchange sample_cfg)) =
     (initial_exchange sample_cfg)\<lparr>ex_next := 1,
       ex_fibers := [(0, Enqueuing sample_op \<lparr> oc_response = JNull, oc_patches = [], oc_revalidations = [] \<rparr>
         (initial_claim_args sample_cfg 1000))],
       ex_out := [Arrived 0 sample_op, Host_Called 0 (Enqueue_Mutation
         (enqueue_args sample_op \<lparr> oc_response = JNull, oc_patches = [], oc_revalidations = [] \<rparr> [] [])
         (initial_claim_args sample_cfg 1000))]\<rparr>"
  by (simp add: exchange_step_def fresh_fiber_def prepareMutation_def sample_defs optimisticContextOf_def enqueue_ask_def
      call_host_def xout_def put_fiber_def initial_exchange_def getp_def has_own_def Let_def)

lemma sample_forwards:
  "ex_out (snd (run (exchange_step sample_cfg) [(sample_env, Mutation_In sample_op), (sample_env, Enqueue_Settled 0 (Inr sample_claimed))]
      (initial_exchange sample_cfg))) =
     ex_out (snd (exchange_step sample_cfg (sample_env, Mutation_In sample_op) (initial_exchange sample_cfg))) @
       [Forwarded 0 (sample_op\<lparr>eo_attempt := Some (attempt_of sample_cfg (claimed_of (getp (getp sample_claimed ''initialClaim'') ''mutation''))),
          eo_timeout := True\<rparr>)]"
  unfolding snd_run_Cons sample_enqueues
  by (simp add: exchange_step_def resume_enqueue_def enqueue_settled_def enqueued_def sample_claimed_def initial_exchange_def
      routeClaimedMutation_def claimed_of_def getp_def Let_def resolve_route_def route_done_def await_route_def
      resolveLiveOperationsAsQueued_def finish_route_def xout_def end_fiber_def put_fiber_def)

lemma exchange_answers_once_witness:
  "let x = snd (run (exchange_step sample_cfg) [(sample_env, Mutation_In sample_op), (sample_env, Enqueue_Settled 0 (Inr sample_claimed))]
      (initial_exchange sample_cfg)) in
     answers x 0 = 1 \<and> \<not> waiting x 0"
proof -
  let ?es = "[(sample_env, Mutation_In sample_op), (sample_env, Enqueue_Settled 0 (Inr sample_claimed))]"
  let ?x = "snd (run (exchange_step sample_cfg) ?es (initial_exchange sample_cfg))"
  have "abides orderly (exchange_step sample_cfg) ?es (initial_exchange sample_cfg)"
    unfolding abides.simps sample_enqueues by (simp add: orderly_def live_transaction_def initial_exchange_def)
  moreover have "Arrived 0 sample_op \<in> set (ex_out ?x)" unfolding sample_forwards sample_enqueues by simp
  moreover have "answers ?x 0 = 1" unfolding answers_def sample_forwards sample_enqueues by simp
  ultimately show ?thesis using exchange_answers_once [of sample_cfg ?es 0 sample_op] by (simp add: Let_def del: run.simps)
qed

lemma exchange_never_stalls_witness:
  "\<exists>x. x = snd (run (exchange_step sample_cfg) [(sample_env, Drain_Timer)] (initial_exchange sample_cfg)) \<and>
     (ex_timer x \<noteq> None \<or> ex_attempt x \<or> at_host x)"
proof -
  have "abides prompt (exchange_step sample_cfg) [(sample_env, Drain_Timer)] (initial_exchange sample_cfg)"
    by (simp add: replay_pending_def initial_exchange_def)
  then show ?thesis using exchange_never_stalls [OF _ _ refl, of sample_cfg "[(sample_env, Drain_Timer)]"]
    by (simp add: sample_cfg_def del: run.simps)
qed





end
