(* ===== verification/Exchange_Queries.thy ===== *)
theory Exchange_Queries
  imports Exchange_Mutations
begin

text \<open>
  The query half of the urql exchange
  (\<open>apps/web/src/lib/graphql-cache/exchange/normalized-cache-exchange.ts\<close>): the routing of reads by
  their request policy, the results of the network and their turns, the payload retained while the
  engine is replaced, and the operations that pushes of the host affect.

  State objects and retained payloads have an identity, as in the code, where a teardown replaces the
  state of a key while functions still hold the old one. Promise reactions are events of their own.
\<close>

section \<open>Operations and results\<close>

datatype request_policy = Cache_First | Cache_And_Network | Network_Only | Cache_Only

record query_op =
  qo_key :: nat
  qo_text :: js_string
  qo_name :: "js_string option"
  qo_variables :: jsval
  qo_policy :: request_policy
  qo_affected :: bool
  qo_registration :: bool
  qo_hydrate :: bool
  qo_document :: "js_string option"

text \<open>
  The last four are the private fields of the context: a read that a push asked for, a read that only
  registered dependencies, a hydration, and the text of the annotated document of a hydration whose
  transport document is \<open>qo_text\<close>.
\<close>

record query_result =
  qr_op :: query_op
  qr_data :: jsval
  qr_error :: "js_string option"
  qr_extensions :: jsval
  qr_stale :: bool
  qr_next :: bool

datatype metadata = Live_Network "jsval option" | Cache_Hit | Affected_Reread

definition metadata_key :: string where
  "metadata_key = ''__macroNormalizedCache''"

fun metadata_val :: "metadata \<Rightarrow> jsval" where
  "metadata_val (Live_Network None) = JObj [(js ''source'', JStr (js ''live-network''))]"
| "metadata_val (Live_Network (Some revision)) =
     JObj [(js ''source'', JStr (js ''live-network'')), (js ''revision'', revision)]"
| "metadata_val Cache_Hit = JObj [(js ''source'', JStr (js ''normalized-cache-hit''))]"
| "metadata_val Affected_Reread = JObj [(js ''source'', JStr (js ''affected-cache-reread''))]"

definition normalizedCacheResultMetadata :: "query_result \<Rightarrow> metadata option" where
  "normalizedCacheResultMetadata r =
     (let m = getp (qr_extensions r) metadata_key in
      if \<not> is_record m \<and> \<not> is_array m then None
      else
        let source = getp m ''source'' in
        if source = JStr (js ''normalized-cache-hit'') then Some Cache_Hit
        else if source = JStr (js ''affected-cache-reread'') then Some Affected_Reread
        else if source \<noteq> JStr (js ''live-network'') then None
        else
          let revision = getp m ''revision'' in
          Some (Live_Network (if isCacheRevision revision then Some revision else None)))"

definition withResultMetadata :: "query_result \<Rightarrow> metadata \<Rightarrow> query_result" where
  "withResultMetadata r m =
     r\<lparr>qr_extensions := JObj (AList.update (js metadata_key) (metadata_val m) (own_fields (qr_extensions r)))\<rparr>"

definition cacheResult :: "query_op \<Rightarrow> jsval \<Rightarrow> bool \<Rightarrow> metadata \<Rightarrow> query_result" where
  "cacheResult op data stale source =
     withResultMetadata
       \<lparr> qr_op = op, qr_data = data, qr_error = None, qr_extensions = JUndef, qr_stale = stale, qr_next = False \<rparr>
       source"

definition isOwnerEpochLostError :: "host_error \<Rightarrow> bool" where
  "isOwnerEpochLostError err \<longleftrightarrow> he_code err = Some OWNER_EPOCH_LOST_ERROR_CODE"

section \<open>State\<close>

record retained_fallback =
  rf_version :: nat
  rf_args :: jsval
  rf_ready :: bool
  rf_recovering :: bool
  rf_invalidated :: bool
  rf_promise :: "nat option"

record query_state =
  qs_bound :: nat
  qs_fallback :: bool
  qs_deferred :: bool
  qs_completed :: bool
  qs_satisfied :: bool
  qs_retained :: "nat option"
  qs_version :: nat
  qs_turns :: "nat list"

text \<open>
  \<open>qs_turns\<close> is the chain of promises behind \<open>queryResultTurn\<close>: the results that hold or await the turn
  of the state, in the order in which they acquired it. \<open>rf_promise\<close> names the fiber of \<open>recoveryPromise\<close>.
\<close>

definition initial_query_state :: query_state where
  "initial_query_state =
     \<lparr> qs_bound = 0, qs_fallback = False, qs_deferred = False, qs_completed = False, qs_satisfied = False,
       qs_retained = None, qs_version = 0, qs_turns = [] \<rparr>"

text \<open>
  What a suspended function awaits. A result holds the turn of one state and works on the state its key
  had when the turn was granted; \<open>Q_Recovered\<close> is a recovery that returned and whose reaction is due.
\<close>

datatype query_fiber =
    Q_Reading query_op
  | Q_Rereading query_op
  | Q_Hydrating query_result
  | Q_Waiting_Turn query_result nat
  | Q_Awaiting_Recovery query_result nat nat nat nat nat nat
  | Q_Writing query_result nat nat "nat option" bool
  | Q_Recovering nat nat nat
  | Q_Recovered nat nat nat

datatype query_output =
    Query_Arrived nat query_op
  | Query_Forwarded nat query_op
  | Query_Answered nat query_result
  | Query_Asked nat api_call
  | Query_Reexecuted query_op
  | Affected_Emitted query_result
  | Result_Received nat query_result
  | Result_Delivered nat query_result
  | Teardown_Forwarded nat
  | Query_Error_Reported js_string

record reads =
  qx_active :: "nat \<Rightarrow> query_op option"
  qx_current :: "nat \<Rightarrow> nat option"
  qx_states :: "nat \<Rightarrow> query_state"
  qx_retained :: "nat \<Rightarrow> retained_fallback"
  qx_fibers :: "nat \<Rightarrow> query_fiber option"
  qx_next :: nat
  qx_out :: "query_output list"

text \<open>\<open>qx_current\<close> is \<open>queryStates\<close>; \<open>qx_states\<close> and \<open>qx_retained\<close> are the objects, by identity.\<close>

record query_config =
  qc_resolvers :: jsval
  qc_identity :: "jsval \<Rightarrow> jsval"
  qc_strip :: "js_string \<Rightarrow> js_string"

text \<open>
  The compiled entity resolvers, \<open>options.extractIdentity\<close>, and the text of a document without its
  \<open>cacheOnly\<close> directives (\<open>visit\<close> of the \<open>graphql\<close> package).
\<close>

definition initial_reads :: reads where
  "initial_reads =
     \<lparr> qx_active = (\<lambda>k. None), qx_current = (\<lambda>k. None), qx_states = (\<lambda>s. initial_query_state),
       qx_retained = (\<lambda>r. \<lparr> rf_version = 0, rf_args = JUndef, rf_ready = False, rf_recovering = False,
         rf_invalidated = False, rf_promise = None \<rparr>),
       qx_fibers = (\<lambda>f. None), qx_next = 0, qx_out = [] \<rparr>"

type_synonym qop = "reads \<Rightarrow> reads"

definition qout :: "query_output \<Rightarrow> qop" where
  "qout out x = x\<lparr>qx_out := qx_out x @ [out]\<rparr>"

definition q_put :: "nat \<Rightarrow> query_fiber \<Rightarrow> qop" where
  "q_put f st x = x\<lparr>qx_fibers := (qx_fibers x)(f := Some st)\<rparr>"

definition q_end :: "nat \<Rightarrow> qop" where
  "q_end f x = x\<lparr>qx_fibers := (qx_fibers x)(f := None)\<rparr>"

definition q_ask :: "nat \<Rightarrow> api_call \<Rightarrow> query_fiber \<Rightarrow> qop" where
  "q_ask f call st x = q_put f st (qout (Query_Asked f call) x)"

definition q_error :: "host_error \<Rightarrow> qop" where
  "q_error err = qout (Query_Error_Reported (he_message err))"

definition q_fresh :: "reads \<Rightarrow> nat \<times> reads" where
  "q_fresh x = (qx_next x, x\<lparr>qx_next := qx_next x + 1\<rparr>)"

definition upd_state :: "nat \<Rightarrow> (query_state \<Rightarrow> query_state) \<Rightarrow> qop" where
  "upd_state s g x = x\<lparr>qx_states := (qx_states x)(s := g (qx_states x s))\<rparr>"

definition upd_retained :: "nat \<Rightarrow> (retained_fallback \<Rightarrow> retained_fallback) \<Rightarrow> qop" where
  "upd_retained i g x = x\<lparr>qx_retained := (qx_retained x)(i := g (qx_retained x i))\<rparr>"

definition has_active :: "reads \<Rightarrow> nat \<Rightarrow> bool" where
  "has_active x k \<longleftrightarrow> qx_active x k \<noteq> None"

text \<open>\<open>queryState(key)\<close>: the state of the key, created when it is missing.\<close>

definition queryState :: "nat \<Rightarrow> reads \<Rightarrow> nat \<times> reads" where
  "queryState k x =
     (case qx_current x k of
        Some s \<Rightarrow> (s, x)
      | None \<Rightarrow>
          let (s, x1) = q_fresh x in
          (s, x1\<lparr>qx_current := (qx_current x1)(k := Some s), qx_states := (qx_states x1)(s := initial_query_state)\<rparr>))"

section \<open>Arguments\<close>

definition query_fields :: "query_op \<Rightarrow> js_string \<Rightarrow> js_fields" where
  "query_fields op text = [(js ''query'', JStr text), (js ''operationName'', opt_val JStr (qo_name op)),
     (js ''variables'', qo_variables op)]"

definition keyed_fields :: "query_config \<Rightarrow> query_op \<Rightarrow> js_fields" where
  "keyed_fields cfg op =
     (js ''opKey'', JInt (int (qo_key op))) # query_fields op (qo_text op) @ [(js ''entityResolvers'', qc_resolvers cfg)]"

definition read_args :: "query_config \<Rightarrow> query_op \<Rightarrow> bool \<Rightarrow> jsval" where
  "read_args cfg op visible =
     JObj (keyed_fields cfg op @ [(js ''priority'', if visible then JStr (js ''user-visible'') else JUndef)])"

definition result_write_args :: "query_config \<Rightarrow> query_result \<Rightarrow> bool \<Rightarrow> jsval" where
  "result_write_args cfg r registered =
     JObj (keyed_fields cfg (qr_op r) @ [(js ''data'', qr_data r), (js ''identity'', qc_identity cfg (qr_data r)),
       (js ''registerDependencies'', JBool registered)])"

definition cacheQueryText :: "query_op \<Rightarrow> js_string" where
  "cacheQueryText op = (case qo_document op of None \<Rightarrow> qo_text op | Some text \<Rightarrow> text)"

definition hydrate_args :: "query_config \<Rightarrow> query_result \<Rightarrow> jsval" where
  "hydrate_args cfg r =
     JObj (query_fields (qr_op r) (cacheQueryText (qr_op r)) @ [(js ''data'', qr_data r),
       (js ''identity'', qc_identity cfg (qr_data r)), (js ''entityResolvers'', qc_resolvers cfg)])"

definition hydrationTransportOperation :: "query_config \<Rightarrow> query_op \<Rightarrow> query_op" where
  "hydrationTransportOperation cfg op =
     op\<lparr>qo_text := qc_strip cfg (qo_text op), qo_policy := Network_Only, qo_document := Some (qo_text op)\<rparr>"

section \<open>Operations that a push affects\<close>

definition reexecuteAffected :: "nat \<Rightarrow> bool \<Rightarrow> qop" where
  "reexecuteAffected k registrationOnly x =
     (case qx_active x k of
        None \<Rightarrow> x
      | Some op \<Rightarrow>
          qout (Query_Reexecuted (op\<lparr>qo_policy := (if qo_policy op = Cache_Only then Cache_Only else Cache_First),
            qo_affected := True, qo_registration := registrationOnly\<rparr>)) x)"

definition recover_write :: "retained_fallback \<Rightarrow> api_call" where
  "recover_write rf =
     Write_Query (JObj (AList.update (js ''registerDependencies'') (JBool True) (own_fields (rf_args rf))))"

text \<open>The head of the loop of a recovery, entered with \<open>readyPending\<close>.\<close>

definition recovery_attempt :: "nat \<Rightarrow> nat \<Rightarrow> nat \<Rightarrow> nat \<Rightarrow> qop" where
  "recovery_attempt g k s i x =
     q_ask g (recover_write (qx_retained x i)) (Q_Recovering k s i) (upd_retained i (\<lambda>rf. rf\<lparr>rf_ready := False\<rparr>) x)"

definition recoverRetainedReplacementFallback :: "nat \<Rightarrow> qop" where
  "recoverRetainedReplacementFallback k x =
     (case qx_current x k of
        None \<Rightarrow> x
      | Some s \<Rightarrow>
          (case qs_retained (qx_states x s) of
             None \<Rightarrow> x
           | Some i \<Rightarrow>
               if rf_invalidated (qx_retained x i) \<or> \<not> has_active x k then x
               else
                 let x1 = upd_retained i (\<lambda>rf. rf\<lparr>rf_ready := True\<rparr>) x in
                 if rf_recovering (qx_retained x i) \<or> qs_bound (qx_states x s) > 0 then x1
                 else
                   let (g, x2) = q_fresh x1 in
                   recovery_attempt g k s i
                     (upd_retained i (\<lambda>rf. rf\<lparr>rf_recovering := True, rf_promise := Some g\<rparr>) x2)))"

text \<open>The payload is still that of the state of its key and no newer result has superseded it.\<close>

definition still_retained :: "reads \<Rightarrow> nat \<Rightarrow> nat \<Rightarrow> nat \<Rightarrow> bool" where
  "still_retained x k s i \<longleftrightarrow> qx_current x k = Some s \<and> qs_retained (qx_states x s) = Some i \<and>
     \<not> rf_invalidated (qx_retained x i)"

definition recovery_settled :: "nat \<Rightarrow> nat \<Rightarrow> nat \<Rightarrow> host_error + jsval \<Rightarrow> nat \<Rightarrow> qop" where
  "recovery_settled k s i res g x =
     (if \<not> still_retained x k s i then q_put g (Q_Recovered k s i) x
      else
        case res of
          Inr v \<Rightarrow>
            if \<not> has_active x k then q_put g (Q_Recovered k s i) x
            else
              q_put g (Q_Recovered k s i) (upd_state s (\<lambda>q. q\<lparr>qs_retained := None, qs_fallback := False,
                qs_deferred := False, qs_completed := False, qs_satisfied := False\<rparr>) x)
        | Inl err \<Rightarrow>
            let x1 = (if has_active x k then q_error err x else x) in
            if rf_ready (qx_retained x1 i) then recovery_attempt g k s i x1
            else q_put g (Q_Recovered k s i) x1)"

text \<open>The reaction to the end of a recovery.\<close>

definition recovery_reaction :: "nat \<Rightarrow> nat \<Rightarrow> nat \<Rightarrow> nat \<Rightarrow> qop" where
  "recovery_reaction k s i g x =
     (let x1 = upd_retained i (\<lambda>rf. if rf_promise rf = Some g then rf\<lparr>rf_promise := None\<rparr> else rf) (q_end g x) in
      if qx_current x1 k \<noteq> Some s \<or> qs_retained (qx_states x1 s) \<noteq> Some i then x1
      else
        let x2 = upd_retained i (\<lambda>rf. rf\<lparr>rf_recovering := False\<rparr>) x1; rf = qx_retained x2 i in
        if rf_invalidated rf then upd_state s (\<lambda>q. q\<lparr>qs_retained := None\<rparr>) x2
        else if rf_ready rf then recoverRetainedReplacementFallback k x2
        else x2)"

definition emitAffectedWhileNetworkBound :: "query_config \<Rightarrow> nat \<Rightarrow> qop" where
  "emitAffectedWhileNetworkBound cfg k x =
     (case qx_active x k of
        None \<Rightarrow> x
      | Some op \<Rightarrow> let (f, x1) = q_fresh x in q_ask f (Read_Query (read_args cfg op True)) (Q_Rereading op) x1)"

definition reread_settled :: "query_op \<Rightarrow> host_error + jsval \<Rightarrow> nat \<Rightarrow> qop" where
  "reread_settled op res f x =
     q_end f
       (case res of
          Inl err \<Rightarrow> q_error err x
        | Inr v \<Rightarrow>
            (case qx_active x (qo_key op) of
               None \<Rightarrow> x
             | Some active \<Rightarrow>
                 if getp v ''kind'' \<noteq> JStr (js ''hit'') then x
                 else qout (Affected_Emitted (cacheResult active (getp v ''data'') True Affected_Reread)) x))"

definition op_affected :: "query_config \<Rightarrow> nat \<Rightarrow> qop" where
  "op_affected cfg k x =
     (if \<not> has_active x k then x
      else
        let (s, x1) = queryState k x; q = qx_states x1 s in
        if qs_bound q > 0 then
          let x2 = upd_state s (\<lambda>q. q\<lparr>qs_deferred := True\<rparr>) x1 in
          if \<not> qs_fallback q \<and> qs_retained q = None then emitAffectedWhileNetworkBound cfg k x2 else x2
        else
          let x2 = upd_state s (\<lambda>q. q\<lparr>qs_completed := False, qs_fallback := False\<rparr>) x1 in
          if qs_retained q \<noteq> None then recoverRetainedReplacementFallback k x2
          else reexecuteAffected k (qs_completed q) x2)"

definition onOpsAffected :: "query_config \<Rightarrow> nat list \<Rightarrow> qop" where
  "onOpsAffected cfg ks = fold (op_affected cfg) ks"

section \<open>Reads\<close>

definition enqueueQueryForward :: "nat \<Rightarrow> query_op \<Rightarrow> qop" where
  "enqueueQueryForward p op x =
     (let (s, x1) = queryState (qo_key op) x in
      qout (Query_Forwarded p op) (upd_state s (\<lambda>q. q\<lparr>qs_bound := qs_bound q + 1\<rparr>) x1))"

definition readThenRoute :: "query_config \<Rightarrow> query_op \<Rightarrow> nat \<Rightarrow> qop" where
  "readThenRoute cfg op p x =
     (if qo_hydrate op then qout (Query_Forwarded p (hydrationTransportOperation cfg op)) x
      else if qo_policy op = Network_Only then enqueueQueryForward p op x
      else q_ask p (Read_Query (read_args cfg op (qo_affected op))) (Q_Reading op) x)"

definition answer_read :: "query_op \<Rightarrow> jsval \<Rightarrow> bool \<Rightarrow> nat \<Rightarrow> qop" where
  "answer_read op data stale p x = q_end p (qout (Query_Answered p (cacheResult op data stale Cache_Hit)) x)"

text \<open>The end of \<open>readThenRoute\<close>, after a miss or a failure.\<close>

definition read_missed :: "query_op \<Rightarrow> nat \<Rightarrow> qop" where
  "read_missed op p x =
     (if qo_policy op = Cache_Only then answer_read op JUndef False p x
      else if qo_registration op then q_end p x
      else q_end p (enqueueQueryForward p op x))"

definition read_settled :: "query_op \<Rightarrow> host_error + jsval \<Rightarrow> nat \<Rightarrow> qop" where
  "read_settled op res p x =
     (case res of
        Inr v \<Rightarrow>
          if getp v ''kind'' = JStr (js ''hit'') then
            let stale = (qo_policy op = Cache_And_Network) in
            answer_read op (getp v ''data'') stale p (if stale then enqueueQueryForward p op x else x)
          else read_missed op p x
      | Inl err \<Rightarrow>
          let x1 = q_error err x in
          if isOwnerEpochLostError err then
            let (s, x2) = queryState (qo_key op) x1 in
            read_missed op p (upd_state s (\<lambda>q. q\<lparr>qs_fallback := True\<rparr>) x2)
          else read_missed op p x1)"

section \<open>Results of the network\<close>

definition finishNetworkQuery :: "nat \<Rightarrow> bool \<Rightarrow> qop" where
  "finishNetworkQuery k registrationSatisfied x =
     (let (s, x1) = queryState k x; q = qx_states x1 s; remaining = qs_bound q - 1 in
      if remaining > 0 then upd_state s (\<lambda>q. q\<lparr>qs_bound := remaining\<rparr>) x1
      else
        let x2 = upd_state s (\<lambda>q. q\<lparr>qs_bound := 0, qs_deferred := False, qs_fallback := False\<rparr>) x1 in
        if qs_deferred q then
          let x3 = upd_state s (\<lambda>q. q\<lparr>qs_completed := False\<rparr>) x2 in
          if registrationSatisfied then x3
          else if qs_retained q \<noteq> None then recoverRetainedReplacementFallback k x3
          else reexecuteAffected k True x3
        else if qs_fallback q then upd_state s (\<lambda>q. q\<lparr>qs_completed := True\<rparr>) x2
        else x2)"

text \<open>The \<open>finally\<close> block and the return of a result.\<close>

definition release_turn :: "nat \<Rightarrow> nat \<Rightarrow> qop" where
  "release_turn s f = upd_state s (\<lambda>q. q\<lparr>qs_turns := remove1 f (qs_turns q)\<rparr>)"

definition result_done :: "query_result \<Rightarrow> query_result \<Rightarrow> nat \<Rightarrow> nat \<Rightarrow> nat \<Rightarrow> qop" where
  "result_done r output s1 s2 f x =
     (let k = qo_key (qr_op r);
          x1 = (if qr_next r then x
                else
                  let satisfied = qs_satisfied (qx_states x s2) in
                  finishNetworkQuery k satisfied (upd_state s2 (\<lambda>q. q\<lparr>qs_satisfied := False\<rparr>) x));
          x2 = (if has_active x1 k then x1 else x1\<lparr>qx_current := (qx_current x1)(k := None)\<rparr>)
      in q_end f (qout (Result_Delivered f output) (release_turn s1 f x2)))"

definition live_result :: "query_result \<Rightarrow> query_result" where
  "live_result r = withResultMetadata r (Live_Network None)"

definition result_ready :: "query_config \<Rightarrow> query_result \<Rightarrow> nat \<Rightarrow> nat \<Rightarrow> nat \<Rightarrow> nat \<Rightarrow> qop" where
  "result_ready cfg r s1 s2 version f x =
     (if nullish (qr_data r) then result_done r (live_result r) s1 s2 f x
      else
        let k = qo_key (qr_op r); registered = has_active x k; args = result_write_args cfg r registered in
        if qr_error r = None \<and> \<not> qr_next r \<and> has_active x k \<and> qs_fallback (qx_states x s2) then
          let (i, x1) = q_fresh x;
              x2 = x1\<lparr>qx_retained := (qx_retained x1)(i := \<lparr> rf_version = version, rf_args = args, rf_ready = False,
                rf_recovering = False, rf_invalidated = False, rf_promise = None \<rparr>)\<rparr>
          in q_ask f (Write_Query args) (Q_Writing r s1 s2 (Some i) registered)
            (upd_state s2 (\<lambda>q. q\<lparr>qs_retained := Some i\<rparr>) x2)
        else q_ask f (Write_Query args) (Q_Writing r s1 s2 None registered) x)"

text \<open>
  An iteration of \<open>invalidateOlderRetainedFallback\<close>: without a recovery to await the next iteration finds
  no payload and returns.
\<close>

definition invalidateOlderRetainedFallback ::
  "query_config \<Rightarrow> query_result \<Rightarrow> nat \<Rightarrow> nat \<Rightarrow> nat \<Rightarrow> nat \<Rightarrow> qop" where
  "invalidateOlderRetainedFallback cfg r s1 s2 version f x =
     (case qx_current x (qo_key (qr_op r)) of
        None \<Rightarrow> result_ready cfg r s1 s2 version f x
      | Some s \<Rightarrow>
          (case qs_retained (qx_states x s) of
             None \<Rightarrow> result_ready cfg r s1 s2 version f x
           | Some i \<Rightarrow>
               if rf_version (qx_retained x i) \<ge> version then result_ready cfg r s1 s2 version f x
               else
                 let x1 = upd_retained i (\<lambda>rf. rf\<lparr>rf_invalidated := True, rf_ready := False\<rparr>) x in
                 case rf_promise (qx_retained x i) of
                   Some g \<Rightarrow> q_put f (Q_Awaiting_Recovery r s1 s2 version s i g) x1
                 | None \<Rightarrow> result_ready cfg r s1 s2 version f (upd_state s (\<lambda>q. q\<lparr>qs_retained := None\<rparr>) x1)))"

definition recovery_awaited ::
  "query_config \<Rightarrow> query_result \<Rightarrow> nat \<Rightarrow> nat \<Rightarrow> nat \<Rightarrow> nat \<Rightarrow> nat \<Rightarrow> nat \<Rightarrow> qop" where
  "recovery_awaited cfg r s1 s2 version s i f x =
     invalidateOlderRetainedFallback cfg r s1 s2 version f
       (if qs_retained (qx_states x s) = Some i then upd_state s (\<lambda>q. q\<lparr>qs_retained := None\<rparr>) x else x)"

definition turn_granted :: "query_config \<Rightarrow> query_result \<Rightarrow> nat \<Rightarrow> nat \<Rightarrow> qop" where
  "turn_granted cfg r s1 f x =
     (let (s2, x1) = queryState (qo_key (qr_op r)) x; version = qs_version (qx_states x1 s2) + 1 in
      invalidateOlderRetainedFallback cfg r s1 s2 version f (upd_state s2 (\<lambda>q. q\<lparr>qs_version := version\<rparr>) x1))"

definition result_written ::
  "query_result \<Rightarrow> nat \<Rightarrow> nat \<Rightarrow> nat option \<Rightarrow> bool \<Rightarrow> host_error + jsval \<Rightarrow> nat \<Rightarrow> qop" where
  "result_written r s1 s2 ro registered res f x =
     (case res of
        Inr v \<Rightarrow>
          result_done r (withResultMetadata r (Live_Network (Some (getp v ''revision'')))) s1 s2 f
            (upd_state s2 (\<lambda>q. q\<lparr>qs_satisfied := registered,
               qs_retained := (if qs_retained q = ro then None else qs_retained q)\<rparr>) x)
      | Inl err \<Rightarrow> result_done r (live_result r) s1 s2 f (q_error err x))"

definition hydrated :: "query_result \<Rightarrow> host_error + jsval \<Rightarrow> nat \<Rightarrow> qop" where
  "hydrated r res f x =
     (case res of
        Inr v \<Rightarrow>
          q_end f (qout (Result_Delivered f (withResultMetadata
            (r\<lparr>qr_data := (if getp v ''kind'' = JStr (js ''data'') then getp v ''data'' else JUndef)\<rparr>)
            (Live_Network (Some (getp v ''revision''))))) x)
      | Inl err \<Rightarrow>
          q_end f (qout (Result_Delivered f
            (r\<lparr>qr_data := JUndef, qr_error := Some (js ''[Network] '' @ he_message err)\<rparr>)) (q_error err x)))"

definition acquireQueryResultTurn :: "query_result \<Rightarrow> nat \<Rightarrow> qop" where
  "acquireQueryResultTurn r f x =
     (let (s, x1) = queryState (qo_key (qr_op r)) x in
      q_put f (Q_Waiting_Turn r s) (upd_state s (\<lambda>q. q\<lparr>qs_turns := qs_turns q @ [f]\<rparr>) x1))"

text \<open>\<open>writeThrough\<close>, for a result of a query.\<close>

definition query_result_arrives :: "query_config \<Rightarrow> query_result \<Rightarrow> nat \<Rightarrow> qop" where
  "query_result_arrives cfg r f x =
     (if qo_hydrate (qr_op r) then
        if nullish (qr_data r) then qout (Result_Delivered f r) x
        else q_ask f (Hydrate_Query (hydrate_args cfg r)) (Q_Hydrating r) x
      else acquireQueryResultTurn r f x)"

section \<open>Steps\<close>

datatype query_input =
    Query_In query_op
  | Teardown_In nat
  | Query_Result query_result
  | Query_Settled nat "host_error + jsval"
  | Ops_Affected "nat list"
  | Turn_Granted nat
  | Recovery_Reacts nat
  | Recovery_Awaited nat

definition resume_query :: "query_config \<Rightarrow> nat \<Rightarrow> host_error + jsval \<Rightarrow> qop" where
  "resume_query cfg f res x =
     (case qx_fibers x f of
        Some (Q_Reading op) \<Rightarrow> read_settled op res f x
      | Some (Q_Rereading op) \<Rightarrow> reread_settled op res f x
      | Some (Q_Hydrating r) \<Rightarrow> hydrated r res f x
      | Some (Q_Writing r s1 s2 ro registered) \<Rightarrow> result_written r s1 s2 ro registered res f x
      | Some (Q_Recovering k s i) \<Rightarrow> recovery_settled k s i res f x
      | _ \<Rightarrow> x)"

fun query_input_step :: "query_config \<Rightarrow> query_input \<Rightarrow> qop" where
  "query_input_step cfg (Query_In op) x =
     (let (p, x1) = q_fresh x; x2 = qout (Query_Arrived p op) x1 in
      readThenRoute cfg op p (if qo_hydrate op then x2 else x2\<lparr>qx_active := (qx_active x2)(qo_key op := Some op)\<rparr>))"
| "query_input_step cfg (Teardown_In k) x =
     (let (f, x1) = q_fresh (x\<lparr>qx_active := (qx_active x)(k := None), qx_current := (qx_current x)(k := None)\<rparr>) in
      qout (Teardown_Forwarded k) (qout (Query_Asked f (Teardown_Op (int k))) x1))"
| "query_input_step cfg (Query_Result r) x =
     (let (f, x1) = q_fresh x in query_result_arrives cfg r f (qout (Result_Received f r) x1))"
| "query_input_step cfg (Query_Settled f res) x = resume_query cfg f res x"
| "query_input_step cfg (Ops_Affected ks) x = onOpsAffected cfg ks x"
| "query_input_step cfg (Turn_Granted f) x =
     (case qx_fibers x f of
        Some (Q_Waiting_Turn r s1) \<Rightarrow>
          (case qs_turns (qx_states x s1) of
             h # _ \<Rightarrow> if h = f then turn_granted cfg r s1 f x else x
           | [] \<Rightarrow> x)
      | _ \<Rightarrow> x)"
| "query_input_step cfg (Recovery_Reacts g) x =
     (case qx_fibers x g of
        Some (Q_Recovered k s i) \<Rightarrow> recovery_reaction k s i g x
      | _ \<Rightarrow> x)"
| "query_input_step cfg (Recovery_Awaited f) x =
     (case qx_fibers x f of
        Some (Q_Awaiting_Recovery r s1 s2 version s i g) \<Rightarrow>
          if qx_fibers x g = None then recovery_awaited cfg r s1 s2 version s i f x else x
      | _ \<Rightarrow> x)"

definition query_step :: "query_config \<Rightarrow> query_input \<Rightarrow> reads \<Rightarrow> unit \<times> reads" where
  "query_step cfg ev x = ((), query_input_step cfg ev x)"

end
