(* ===== verification/Exchange_Routing.thy ===== *)
theory Exchange_Routing
  imports Exchange_Queries
begin

text \<open>
  The routing of reads: what a query gets, by its request policy. Only its arrival and the settlement of
  its read answer or forward it; everything else is quiet.
\<close>

section \<open>What happened to a query\<close>

definition forwards :: "reads \<Rightarrow> nat \<Rightarrow> query_op list" where
  "forwards x p = concat (List.map (\<lambda>out. case out of Query_Forwarded q op \<Rightarrow> if q = p then [op] else [] | _ \<Rightarrow> []) (qx_out x))"

definition answered_with :: "reads \<Rightarrow> nat \<Rightarrow> query_result list" where
  "answered_with x p = concat (List.map (\<lambda>out. case out of Query_Answered q r \<Rightarrow> if q = p then [r] else [] | _ \<Rightarrow> []) (qx_out x))"

definition arrived :: "reads \<Rightarrow> nat \<Rightarrow> query_op list" where
  "arrived x p = concat (List.map (\<lambda>out. case out of Query_Arrived q op \<Rightarrow> if q = p then [op] else [] | _ \<Rightarrow> []) (qx_out x))"

definition reading :: "reads \<Rightarrow> nat \<Rightarrow> bool" where
  "reading x p \<longleftrightarrow> (case qx_fibers x p of Some (Q_Reading op) \<Rightarrow> True | _ \<Rightarrow> False)"

text \<open>
  What a query of each policy may get: the operations forwarded for it and the results emitted. A read
  that only registers dependencies may get nothing, and is forwarded with a hit only.\<close>

definition routed :: "query_config \<Rightarrow> query_op \<Rightarrow> query_op list \<Rightarrow> query_result list \<Rightarrow> bool" where
  "routed cfg op fw an \<longleftrightarrow>
     (if qo_hydrate op then fw = [hydrationTransportOperation cfg op] \<and> an = []
      else
        let answer = (\<lambda>stale r. r = cacheResult op (qr_data r) stale Cache_Hit);
            missed = (an = [] \<and> fw = (if qo_registration op then [] else [op])) in
        case qo_policy op of
          Network_Only \<Rightarrow> fw = [op] \<and> an = []
        | Cache_Only \<Rightarrow> fw = [] \<and> length an = 1 \<and> answer False (hd an)
        | Cache_First \<Rightarrow> missed \<or> (fw = [] \<and> length an = 1 \<and> answer False (hd an))
        | Cache_And_Network \<Rightarrow> missed \<or> (fw = [op] \<and> length an = 1 \<and> answer True (hd an)))"

section \<open>Quiet operations\<close>

definition tidy :: "reads \<Rightarrow> bool" where
  "tidy x \<longleftrightarrow> (\<forall>f \<ge> qx_next x. qx_fibers x f = None)"

definition spoken :: "query_output \<Rightarrow> bool" where
  "spoken out \<longleftrightarrow> (case out of Query_Arrived p op \<Rightarrow> True | Query_Forwarded p op \<Rightarrow> True | Query_Answered p r \<Rightarrow> True | _ \<Rightarrow> False)"

definition quiet :: "reads \<Rightarrow> reads \<Rightarrow> bool" where
  "quiet x y \<longleftrightarrow> filter spoken (qx_out y) = filter spoken (qx_out x) \<and>
     (\<forall>p op. qx_fibers y p = Some (Q_Reading op) \<longleftrightarrow> qx_fibers x p = Some (Q_Reading op)) \<and>
     qx_next x \<le> qx_next y \<and> tidy y"

text \<open>A fiber that is taken and reads nothing.\<close>

definition busy :: "reads \<Rightarrow> nat \<Rightarrow> bool" where
  "busy x f \<longleftrightarrow> f < qx_next x \<and> (\<forall>op. qx_fibers x f \<noteq> Some (Q_Reading op))"

lemma hushed_refl: "tidy x \<Longrightarrow> quiet x x"
  by (simp add: quiet_def)

lemma busy_quiet: "busy x f \<Longrightarrow> quiet x y \<Longrightarrow> busy y f"
  by (auto simp: busy_def quiet_def)

lemma hushed_frames:
  assumes "quiet x y"
  shows "quiet x (upd_state s g y)" "quiet x (upd_retained i h y)" "\<not> spoken out \<Longrightarrow> quiet x (qout out y)"
    "quiet x (y\<lparr>qx_current := cs\<rparr>)" "quiet x (y\<lparr>qx_active := as\<rparr>)" "quiet x (y\<lparr>qx_states := ss\<rparr>)" "quiet x (y\<lparr>qx_retained := rs\<rparr>)"
    "quiet x (q_error err y)"
  using assms by (simp_all add: quiet_def tidy_def upd_state_def upd_retained_def qout_def q_error_def spoken_def)

lemma hushed_fresh: "quiet x y \<Longrightarrow> quiet x (snd (q_fresh y))" "tidy y \<Longrightarrow> busy (snd (q_fresh y)) (fst (q_fresh y))"
  by (auto simp: quiet_def tidy_def q_fresh_def busy_def)

lemma hushed_tidy: "quiet x y \<Longrightarrow> tidy y"
  by (simp add: quiet_def)

lemma tidy_frames [simp]:
  "tidy (upd_state s g y) = tidy y" "tidy (upd_retained i h y) = tidy y" "tidy (qout out y) = tidy y"
  "tidy (y\<lparr>qx_current := cs\<rparr>) = tidy y" "tidy (y\<lparr>qx_states := ss\<rparr>) = tidy y" "tidy (y\<lparr>qx_retained := rs\<rparr>) = tidy y"
  "tidy (q_error err y) = tidy y"
  by (simp_all add: tidy_def upd_state_def upd_retained_def qout_def q_error_def)

lemma hushed_put:
  assumes "quiet x y" "busy y f"
  shows "\<forall>op. st \<noteq> Q_Reading op \<Longrightarrow> quiet x (q_put f st y)" "quiet x (q_end f y)"
  using assms by (auto simp: quiet_def tidy_def busy_def q_put_def q_end_def)

lemma busy_frames [simp]:
  "busy (upd_state s g y) f = busy y f" "busy (upd_retained i h y) f = busy y f" "busy (qout out y) f = busy y f"
  "busy (y\<lparr>qx_current := cs\<rparr>) f = busy y f" "busy (y\<lparr>qx_states := ss\<rparr>) f = busy y f" "busy (y\<lparr>qx_retained := rs\<rparr>) f = busy y f"
  "busy (q_error err y) f = busy y f"
  by (simp_all add: busy_def upd_state_def upd_retained_def qout_def q_error_def)

lemma hushed_ask: "quiet x y \<Longrightarrow> busy y f \<Longrightarrow> \<forall>op. st \<noteq> Q_Reading op \<Longrightarrow> quiet x (q_ask f call st y)"
  unfolding q_ask_def by (rule hushed_put) (simp_all add: hushed_frames spoken_def)

lemma hushed_state: "quiet x y \<Longrightarrow> quiet x (snd (queryState k y))" "busy y f \<Longrightarrow> busy (snd (queryState k y)) f"
    "tidy y \<Longrightarrow> tidy (snd (queryState k y))"
  using hushed_fresh(1) [of x y] hushed_fresh(2) [of y]
  by (auto simp: queryState_def case_prod_beta Let_def hushed_frames q_fresh_def busy_def tidy_def split: option.split)

lemma hushed_end: "quiet x y \<Longrightarrow> quiet x (q_end f y)" if "busy x f" for x y f
  using hushed_put(2) busy_quiet [OF that] by blast

lemmas hushed_basic = hushed_frames hushed_fresh hushed_put hushed_ask hushed_state spoken_def

lemma hushed_reexecute: "quiet x y \<Longrightarrow> quiet x (reexecuteAffected k b y)"
  by (simp add: reexecuteAffected_def hushed_basic split: option.split)

lemma hushed_attempt: "quiet x y \<Longrightarrow> busy y g \<Longrightarrow> quiet x (recovery_attempt g k s i y)"
  by (simp add: recovery_attempt_def hushed_basic)

lemma hushed_recover: "quiet x y \<Longrightarrow> quiet x (recoverRetainedReplacementFallback k y)"
  by (simp add: recoverRetainedReplacementFallback_def Let_def case_prod_beta hushed_basic hushed_attempt hushed_tidy split: option.split)

lemma hushed_affected: "quiet x y \<Longrightarrow> quiet x (op_affected cfg k y)"
  by (simp add: op_affected_def emitAffectedWhileNetworkBound_def Let_def case_prod_beta hushed_basic hushed_reexecute
      hushed_recover hushed_tidy split: option.split)

lemma hushed_push: "quiet x y \<Longrightarrow> quiet x (onOpsAffected cfg ks y)"
proof -
  have "quiet x y \<Longrightarrow> quiet x (fold (op_affected cfg) ks y)" for y
    by (induction ks arbitrary: y) (simp_all add: hushed_affected)
  then show "quiet x y \<Longrightarrow> ?thesis" by (simp add: onOpsAffected_def)
qed

lemma hushed_recovery:
  assumes "quiet x y" "busy y g"
  shows "quiet x (recovery_settled k s i res g y)" "quiet x (recovery_reaction k s i g y)"
  using assms
  by (simp_all add: recovery_settled_def recovery_reaction_def Let_def hushed_basic hushed_attempt hushed_recover split: sum.split)

lemma hushed_reread: "quiet x y \<Longrightarrow> busy y f \<Longrightarrow> quiet x (reread_settled op res f y)"
  by (simp add: reread_settled_def hushed_basic split: sum.split option.split)

lemma hushed_finish: "quiet x y \<Longrightarrow> quiet x (finishNetworkQuery k b y)"
  by (simp add: finishNetworkQuery_def Let_def case_prod_beta hushed_basic hushed_reexecute hushed_recover)

lemma hushed_done: "quiet x y \<Longrightarrow> busy x f \<Longrightarrow> quiet x (result_done r out s1 s2 f y)"
  unfolding result_done_def Let_def release_turn_def
  by (rule hushed_put(2)) (auto simp: hushed_basic hushed_finish intro: busy_quiet)

lemma hushed_ready: "quiet x y \<Longrightarrow> busy x f \<Longrightarrow> quiet x (result_ready cfg r s1 s2 v f y)"
  using busy_quiet hushed_fresh(1) [of x y] hushed_fresh(2) [of y] hushed_tidy [of x y]
  by (simp add: result_ready_def Let_def case_prod_beta hushed_done hushed_basic)

lemma hushed_invalidate: "quiet x y \<Longrightarrow> busy x f \<Longrightarrow> quiet x (invalidateOlderRetainedFallback cfg r s1 s2 v f y)"
  using busy_quiet
  by (simp add: invalidateOlderRetainedFallback_def Let_def hushed_ready hushed_basic split: option.split)

lemma hushed_results:
  assumes "quiet x y" "busy x f"
  shows "quiet x (recovery_awaited cfg r s1 s2 v s i f y)" "quiet x (turn_granted cfg r s1 f y)"
    "quiet x (result_written r s1 s2 ro b res f y)" "quiet x (hydrated r res f y)" "quiet x (query_result_arrives cfg r f y)"
  using assms busy_quiet [OF assms(2,1)]
  by (simp_all add: recovery_awaited_def turn_granted_def result_written_def hydrated_def query_result_arrives_def
      acquireQueryResultTurn_def Let_def case_prod_beta hushed_invalidate hushed_done hushed_basic split: sum.split)

section \<open>The invariant\<close>

definition fate :: "query_config \<Rightarrow> reads \<Rightarrow> nat \<Rightarrow> bool" where
  "fate cfg x p \<longleftrightarrow>
     (arrived x p = [] \<and> forwards x p = [] \<and> answered_with x p = [] \<and> \<not> reading x p) \<or>
     (p < qx_next x \<and> (\<exists>op. arrived x p = [op] \<and>
        (qx_fibers x p = Some (Q_Reading op) \<and> forwards x p = [] \<and> answered_with x p = [] \<and>
           \<not> qo_hydrate op \<and> qo_policy op \<noteq> Network_Only \<or>
         \<not> reading x p \<and> routed cfg op (forwards x p) (answered_with x p))))"

definition routing_inv :: "query_config \<Rightarrow> reads \<Rightarrow> bool" where
  "routing_inv cfg x \<longleftrightarrow> tidy x \<and> (\<forall>p. fate cfg x p)"

lemma reading_iff: "reading x p \<longleftrightarrow> (\<exists>op. qx_fibers x p = Some (Q_Reading op))"
  by (auto simp: reading_def split: option.split query_fiber.split)

lemma concat_spoken:
  assumes "\<And>out. \<not> spoken out \<Longrightarrow> g out = []"
  shows "concat (List.map g (filter spoken outs)) = concat (List.map g outs)"
  using assms by (induction outs) auto

lemma spoken_eq:
  assumes "filter spoken outs = filter spoken outs'" "\<And>out. \<not> spoken out \<Longrightarrow> g out = []"
  shows "concat (List.map g outs) = concat (List.map g outs')"
  using concat_spoken [of g, OF assms(2)] assms(1) by metis

lemma spoken_out:
  assumes "filter spoken (qx_out y) = filter spoken (qx_out x)"
  shows "forwards y p = forwards x p" "answered_with y p = answered_with x p" "arrived y p = arrived x p"
  unfolding forwards_def answered_with_def arrived_def
  by (rule spoken_eq [OF assms], simp add: spoken_def split: query_output.splits)+

lemma hushed_fate: "quiet x y \<Longrightarrow> fate cfg x p \<Longrightarrow> fate cfg y p"
  using spoken_out [of y x p] by (auto simp: fate_def quiet_def reading_iff)

lemma hushed_keeps: "routing_inv cfg x \<Longrightarrow> quiet x y \<Longrightarrow> routing_inv cfg y"
  by (simp add: routing_inv_def hushed_fate) (simp add: quiet_def)

lemma said:
  "forwards (qout out x) p = forwards x p @ (case out of Query_Forwarded q op \<Rightarrow> if q = p then [op] else [] | _ \<Rightarrow> [])"
  "answered_with (qout out x) p = answered_with x p @ (case out of Query_Answered q r \<Rightarrow> if q = p then [r] else [] | _ \<Rightarrow> [])"
  "arrived (qout out x) p = arrived x p @ (case out of Query_Arrived q op \<Rightarrow> if q = p then [op] else [] | _ \<Rightarrow> [])"
  by (simp_all add: forwards_def answered_with_def arrived_def qout_def)

text \<open>Frames of the two operations that speak.\<close>

lemma same_said:
  "qx_out y = qx_out x \<Longrightarrow> forwards y = forwards x" "qx_out y = qx_out x \<Longrightarrow> answered_with y = answered_with x"
  "qx_out y = qx_out x \<Longrightarrow> arrived y = arrived x"
  by (simp_all add: forwards_def answered_with_def arrived_def fun_eq_iff)

lemma state_fields [simp]:
  "qx_out (snd (queryState k x)) = qx_out x" "qx_fibers (snd (queryState k x)) = qx_fibers x"
  "qx_active (snd (queryState k x)) = qx_active x"
  "qx_out (upd_state s g x) = qx_out x" "qx_fibers (upd_state s g x) = qx_fibers x" "qx_next (upd_state s g x) = qx_next x"
  by (simp_all add: queryState_def q_fresh_def upd_state_def split: option.split)

lemma state_next: "qx_next x \<le> qx_next (snd (queryState k x))"
  by (simp add: queryState_def q_fresh_def split: option.split)

lemma forward_next: "qx_next x \<le> qx_next (enqueueQueryForward p op x)"
  using state_next by (simp add: enqueueQueryForward_def case_prod_beta qout_def)

lemma forward_fields:
  "qx_fibers (enqueueQueryForward p op x) = qx_fibers x"
  "forwards (enqueueQueryForward p op x) q = forwards x q @ (if q = p then [op] else [])"
  "answered_with (enqueueQueryForward p op x) q = answered_with x q" "arrived (enqueueQueryForward p op x) q = arrived x q"
  using same_said [of "upd_state (fst (queryState (qo_key op) x)) (\<lambda>q. q\<lparr>qs_bound := qs_bound q + 1\<rparr>) (snd (queryState (qo_key op) x))" x]
  by (simp_all add: enqueueQueryForward_def case_prod_beta said) (simp_all add: qout_def)

text \<open>An operation that concerns one query.\<close>

definition apart :: "nat \<Rightarrow> reads \<Rightarrow> reads \<Rightarrow> bool" where
  "apart p x y \<longleftrightarrow> qx_next x \<le> qx_next y \<and>
     (\<forall>q. q \<noteq> p \<longrightarrow> forwards y q = forwards x q \<and> answered_with y q = answered_with x q \<and> arrived y q = arrived x q \<and>
        qx_fibers y q = qx_fibers x q)"

lemma apart_keeps:
  assumes "routing_inv cfg x" "apart p x y" "p < qx_next y" "fate cfg y p"
  shows "routing_inv cfg y"
proof -
  have "fate cfg y q" for q
  proof (cases "q = p")
    case False
    then show ?thesis using assms(1,2) unfolding routing_inv_def apart_def fate_def reading_iff by (metis order_less_le_trans)
  qed (use assms(4) in simp)
  moreover have "tidy y" using assms(1-3) unfolding routing_inv_def apart_def tidy_def by (metis le_trans not_less)
  ultimately show ?thesis by (simp add: routing_inv_def)
qed

section \<open>The settlement of a read\<close>

definition unsettled :: "query_config \<Rightarrow> reads \<Rightarrow> nat \<Rightarrow> query_op \<Rightarrow> bool" where
  "unsettled cfg x p op \<longleftrightarrow> p < qx_next x \<and> arrived x p = [op] \<and> forwards x p = [] \<and> answered_with x p = [] \<and>
     \<not> qo_hydrate op \<and> qo_policy op \<noteq> Network_Only"

lemma read_unsettled: "routing_inv cfg x \<Longrightarrow> qx_fibers x p = Some (Q_Reading op) \<Longrightarrow> unsettled cfg x p op"
  by (auto simp: routing_inv_def fate_def unsettled_def reading_iff dest!: spec [of _ p])

lemma said_frames [simp]:
  "forwards (snd (queryState k x)) = forwards x" "answered_with (snd (queryState k x)) = answered_with x"
  "arrived (snd (queryState k x)) = arrived x" "forwards (upd_state s g x) = forwards x"
  "answered_with (upd_state s g x) = answered_with x" "arrived (upd_state s g x) = arrived x"
  "forwards (q_put f st x) = forwards x" "answered_with (q_put f st x) = answered_with x" "arrived (q_put f st x) = arrived x"
  "forwards (x\<lparr>qx_active := as\<rparr>) = forwards x" "answered_with (x\<lparr>qx_active := as\<rparr>) = answered_with x"
  "arrived (x\<lparr>qx_active := as\<rparr>) = arrived x" "forwards (x\<lparr>qx_next := n\<rparr>) = forwards x"
  "answered_with (x\<lparr>qx_next := n\<rparr>) = answered_with x" "arrived (x\<lparr>qx_next := n\<rparr>) = arrived x"
  by (rule same_said; simp add: q_put_def)+

lemma end_fields [simp]:
  "forwards (q_end p x) = forwards x" "answered_with (q_end p x) = answered_with x" "arrived (q_end p x) = arrived x"
  "qx_fibers (q_put p st x) q = (if q = p then Some st else qx_fibers x q)" "qx_next (q_put p st x) = qx_next x"
  "qx_next (q_end p x) = qx_next x" "qx_fibers (q_end p x) q = (if q = p then None else qx_fibers x q)"
  "\<not> reading (q_end p x) p" "qx_next (qout out x) = qx_next x" "qx_fibers (qout out x) = qx_fibers x"
  by (rule same_said | simp add: q_end_def q_put_def reading_def qout_def)+

lemma answered_fate:
  assumes "unsettled cfg x p op" "qo_policy op = Cache_And_Network \<longleftrightarrow> stale"
  shows "fate cfg (answer_read op d stale p (if stale then enqueueQueryForward p op x else x)) p"
    "qo_policy op = Cache_Only \<or> qo_policy op = Cache_First \<Longrightarrow> fate cfg (answer_read op d stale p x) p"
proof -
  have "p < qx_next (enqueueQueryForward p op x)" using assms(1) forward_next [of x p op] by (simp add: unsettled_def)
  then show "fate cfg (answer_read op d stale p (if stale then enqueueQueryForward p op x else x)) p"
    using assms by (cases "qo_policy op") (auto simp: fate_def answer_read_def said forward_fields unsettled_def routed_def cacheResult_def withResultMetadata_def)
  show "qo_policy op = Cache_Only \<or> qo_policy op = Cache_First \<Longrightarrow> fate cfg (answer_read op d stale p x) p"
    using assms by (auto simp: fate_def answer_read_def said unsettled_def routed_def cacheResult_def withResultMetadata_def)
qed

lemma missed_fate:
  assumes "unsettled cfg x p op" shows "fate cfg (read_missed op p x) p"
proof -
  have "p < qx_next (enqueueQueryForward p op x)" using assms(1) forward_next [of x p op] by (simp add: unsettled_def)
  then show ?thesis using assms
    by (cases "qo_policy op") (auto simp: fate_def read_missed_def answer_read_def said forward_fields unsettled_def routed_def cacheResult_def withResultMetadata_def)
qed

lemma apart_refl: "apart p x x"
  by (simp add: apart_def)

lemma apart_parts:
  assumes "apart p x y"
  shows "apart p x (q_end p y)" "apart p x (enqueueQueryForward p op y)" "apart p x (answer_read op d stale p y)"
    "apart p x (snd (queryState k y))" "apart p x (upd_state s g y)" "apart p x (q_error err y)"
  using assms state_next [of y k] forward_next [of y p op]
  by (simp_all add: apart_def forward_fields answer_read_def said q_error_def)

lemma apart_missed: "apart p x y \<Longrightarrow> apart p x (read_missed op p y)"
  by (simp add: read_missed_def apart_parts)

lemma apart_settled: "apart p x (read_settled op res p x)"
  by (simp add: read_settled_def Let_def case_prod_beta apart_parts apart_missed apart_refl split: sum.split)

lemma unsettled_frames:
  assumes "unsettled cfg x p op"
  shows "unsettled cfg (q_error err x) p op" "unsettled cfg (snd (queryState k x)) p op" "unsettled cfg (upd_state s g x) p op"
  using assms state_next [of x k] by (simp_all add: unsettled_def q_error_def said)

lemma settled_fate:
  assumes "unsettled cfg x p op" shows "fate cfg (read_settled op res p x) p"
  using assms answered_fate(1) [OF assms, of "qo_policy op = Cache_And_Network"]
  by (simp add: read_settled_def Let_def case_prod_beta missed_fate unsettled_frames split: sum.split)

lemma settled_keeps:
  assumes "routing_inv cfg x" "qx_fibers x p = Some (Q_Reading op)"
  shows "routing_inv cfg (read_settled op res p x)"
proof (rule apart_keeps [OF assms(1) apart_settled])
  have u: "unsettled cfg x p op" by (rule read_unsettled [OF assms])
  then show "fate cfg (read_settled op res p x) p" by (rule settled_fate)
  show "p < qx_next (read_settled op res p x)"
    using u apart_settled [of p x op res] by (simp add: unsettled_def apart_def)
qed

section \<open>Steps\<close>

lemma route_fate:
  assumes "p < qx_next x" "arrived x p = [op]" "forwards x p = []" "answered_with x p = []" "\<not> reading x p"
  shows "fate cfg (readThenRoute cfg op p x) p" "apart p x (readThenRoute cfg op p x)"
proof -
  have "p < qx_next (enqueueQueryForward p op x)" "\<not> reading (enqueueQueryForward p op x) p"
    using assms(1,5) forward_next [of x p op] forward_fields(1) [where x = x and p = p and op = op] by (simp_all add: reading_def)
  then show "fate cfg (readThenRoute cfg op p x) p"
    using assms by (auto simp: readThenRoute_def fate_def said forward_fields routed_def q_ask_def reading_def)
  show "apart p x (readThenRoute cfg op p x)"
    using forward_next [of x p op] by (auto simp: readThenRoute_def apart_def said forward_fields q_ask_def)
qed

lemma arrival_keeps:
  assumes "routing_inv cfg x" shows "routing_inv cfg (query_input_step cfg (Query_In op) x)"
proof -
  let ?p = "qx_next x"
  let ?x = "qout (Query_Arrived ?p op) (x\<lparr>qx_next := ?p + 1\<rparr>)"
  define y where "y = (if qo_hydrate op then ?x else ?x\<lparr>qx_active := (qx_active ?x)(qo_key op := Some op)\<rparr>)"
  have n: "fate cfg x ?p" "qx_fibers x ?p = None" using assms by (auto simp: routing_inv_def tidy_def)
  then have e: "arrived x ?p = []" "forwards x ?p = []" "answered_with x ?p = []" by (auto simp: fate_def)
  have y: "?p < qx_next y" "arrived y ?p = [op]" "forwards y ?p = []" "answered_with y ?p = []" "\<not> reading y ?p"
    using e n(2) by (simp_all add: y_def said reading_def)
  have a: "apart ?p x y" by (simp add: y_def apart_def said)
  have "routing_inv cfg (readThenRoute cfg op ?p y)"
  proof (rule apart_keeps [OF assms])
    show "apart ?p x (readThenRoute cfg op ?p y)" using a route_fate(2) [OF y] unfolding apart_def by (metis le_trans)
    show "?p < qx_next (readThenRoute cfg op ?p y)" using y(1) route_fate(2) [OF y, of cfg] by (simp add: apart_def)
  qed (rule route_fate(1) [OF y])
  then show ?thesis by (cases "qo_hydrate op") (simp_all add: q_fresh_def Let_def y_def)
qed

lemma busy_other: "tidy x \<Longrightarrow> qx_fibers x f = Some st \<Longrightarrow> \<forall>op. st \<noteq> Q_Reading op \<Longrightarrow> busy x f"
  by (auto simp: busy_def tidy_def not_less [symmetric])

lemma resume_keeps_routing:
  assumes "routing_inv cfg x" shows "routing_inv cfg (resume_query cfg f res x)"
proof (cases "qx_fibers x f")
  case (Some st)
  have t: "quiet x x" "tidy x" using assms by (simp_all add: routing_inv_def hushed_refl)
  show ?thesis
  proof (cases "\<exists>op. st = Q_Reading op")
    case True
    then show ?thesis using Some settled_keeps [OF assms] by (auto simp: resume_query_def)
  next
    case False
    then have "busy x f" using busy_other [OF t(2) Some] by simp
    then have "quiet x (resume_query cfg f res x)"
      using Some False t(1) by (auto simp: resume_query_def hushed_reread hushed_results hushed_recovery split: query_fiber.split)
    then show ?thesis by (rule hushed_keeps [OF assms])
  qed
qed (use assms in \<open>simp add: resume_query_def\<close>)

lemma routing_step:
  assumes "routing_inv cfg x" shows "routing_inv cfg (query_input_step cfg ev x)"
proof -
  have q: "quiet x x" "tidy x" using assms by (simp_all add: routing_inv_def hushed_refl)
  have b: "busy x f" if "qx_fibers x f = Some st" "\<forall>op. st \<noteq> Q_Reading op" for f st
    using busy_other [OF q(2) that] .
  show ?thesis
  proof (cases ev)
    case (Query_In op)
    then show ?thesis using arrival_keeps [OF assms] by simp
  next
    case (Query_Settled f res)
    then show ?thesis using resume_keeps_routing [OF assms] by simp
  next
    case (Query_Result r)
    let ?y = "qout (Result_Received (fst (q_fresh x)) r) (snd (q_fresh x))"
    have y: "quiet x ?y" by (rule hushed_frames(3) [OF hushed_fresh(1) [OF q(1)]]) (simp add: spoken_def)
    then have "routing_inv cfg ?y" "quiet ?y ?y" using hushed_keeps [OF assms] hushed_refl hushed_tidy by blast+
    moreover have "busy ?y (fst (q_fresh x))" using hushed_fresh(2) [OF q(2)] by simp
    ultimately have "routing_inv cfg (query_result_arrives cfg r (fst (q_fresh x)) ?y)"
      using hushed_keeps hushed_results(5) by blast
    then show ?thesis using Query_Result by (simp add: case_prod_beta)
  next
    case (Ops_Affected ks)
    then show ?thesis using hushed_keeps [OF assms hushed_push [OF q(1)]] by simp
  next
    case (Teardown_In k)
    have "quiet x (query_input_step cfg (Teardown_In k) x)"
      using q by (simp add: quiet_def tidy_def qout_def q_fresh_def spoken_def)
    then show ?thesis using hushed_keeps [OF assms] Teardown_In by blast
  next
    case (Turn_Granted f)
    then show ?thesis using assms hushed_keeps [OF assms hushed_results(2) [OF q(1) b]]
      by (simp split: option.split query_fiber.split list.split)
  next
    case (Recovery_Reacts g)
    then show ?thesis using assms hushed_keeps [OF assms hushed_recovery(2) [OF q(1) b]]
      by (simp split: option.split query_fiber.split)
  next
    case (Recovery_Awaited f)
    then show ?thesis using assms hushed_keeps [OF assms hushed_results(1) [OF q(1) b]]
      by (simp split: option.split query_fiber.split)
  qed
qed

lemma routing_init: "routing_inv cfg initial_reads"
  by (simp add: routing_inv_def initial_reads_def tidy_def fate_def arrived_def forwards_def answered_with_def reading_def)

interpretation routing: machine initial_reads "query_step cfg" "\<lambda>ev. True" "routing_inv cfg" for cfg
  by unfold_locales (simp_all add: routing_init query_step_def routing_step)

end
