(* ===== verification/Exchange_Turns.thy ===== *)
theory Exchange_Turns
  imports Exchange_Routing Exchange_Machine
begin

text \<open>
  The turns of network results: while a key is not torn down, its results are delivered in the order in
  which they arrived, and only the first of those that wait is at the cache.
\<close>

section \<open>The results of a key\<close>

fun fiber_result :: "query_fiber \<Rightarrow> query_result option" where
  "fiber_result (Q_Waiting_Turn r s1) = Some r"
| "fiber_result (Q_Awaiting_Recovery r s1 s2 v s i g) = Some r"
| "fiber_result (Q_Writing r s1 s2 ro b) = Some r"
| "fiber_result _ = None"

fun past_turn :: "query_fiber \<Rightarrow> bool" where
  "past_turn (Q_Awaiting_Recovery r s1 s2 v s i g) = True"
| "past_turn (Q_Writing r s1 s2 ro b) = True"
| "past_turn _ = False"

fun fiber_states :: "query_fiber \<Rightarrow> nat list" where
  "fiber_states (Q_Waiting_Turn r s1) = [s1]"
| "fiber_states (Q_Awaiting_Recovery r s1 s2 v s i g) = [s1, s2, s]"
| "fiber_states (Q_Writing r s1 s2 ro b) = [s1, s2]"
| "fiber_states (Q_Recovering k s i) = [s]"
| "fiber_states (Q_Recovered k s i) = [s]"
| "fiber_states _ = []"

fun fiber_key :: "query_fiber \<Rightarrow> nat" where
  "fiber_key (Q_Waiting_Turn r s1) = qo_key (qr_op r)"
| "fiber_key (Q_Awaiting_Recovery r s1 s2 v s i g) = qo_key (qr_op r)"
| "fiber_key (Q_Writing r s1 s2 ro b) = qo_key (qr_op r)"
| "fiber_key (Q_Recovering k s i) = k"
| "fiber_key (Q_Recovered k s i) = k"
| "fiber_key _ = 0"

definition turn_queue :: "reads \<Rightarrow> nat \<Rightarrow> nat list" where
  "turn_queue x k = (case qx_current x k of None \<Rightarrow> [] | Some s \<Rightarrow> qs_turns (qx_states x s))"

definition of_key :: "nat \<Rightarrow> query_result \<Rightarrow> bool" where
  "of_key k r \<longleftrightarrow> qo_key (qr_op r) = k \<and> \<not> qo_hydrate (qr_op r)"

definition received :: "reads \<Rightarrow> nat \<Rightarrow> nat list" where
  "received x k = concat (List.map (\<lambda>out. case out of Result_Received f r \<Rightarrow> if of_key k r then [f] else [] | _ \<Rightarrow> []) (qx_out x))"

definition delivered :: "reads \<Rightarrow> nat \<Rightarrow> nat list" where
  "delivered x k = concat (List.map (\<lambda>out. case out of Result_Delivered f r \<Rightarrow> if of_key k r then [f] else [] | _ \<Rightarrow> []) (qx_out x))"

definition result_fiber :: "nat \<Rightarrow> query_fiber \<Rightarrow> bool" where
  "result_fiber k st \<longleftrightarrow> fiber_result st \<noteq> None \<and> fiber_key st = k"

text \<open>The result of the key that is past its turn: at the cache or awaiting an older payload.\<close>

definition at_cache :: "reads \<Rightarrow> nat \<Rightarrow> nat \<Rightarrow> bool" where
  "at_cache x k f \<longleftrightarrow> (case qx_fibers x f of None \<Rightarrow> False | Some st \<Rightarrow> result_fiber k st \<and> past_turn st)"

section \<open>States belong to one key\<close>

definition fits :: "reads \<Rightarrow> query_fiber \<Rightarrow> bool" where
  "fits x st \<longleftrightarrow> (\<forall>s \<in> set (fiber_states st). s < qx_next x \<and> (\<forall>k. qx_current x k = Some s \<longrightarrow> k = fiber_key st)) \<and>
     (case fiber_result st of None \<Rightarrow> True | Some r \<Rightarrow> \<not> qo_hydrate (qr_op r)) \<and>
     (case st of Q_Hydrating r \<Rightarrow> qo_hydrate (qr_op r) | _ \<Rightarrow> True)"

definition owned :: "reads \<Rightarrow> bool" where
  "owned x \<longleftrightarrow> tidy x \<and>
     (\<forall>k s. qx_current x k = Some s \<longrightarrow> s < qx_next x) \<and>
     (\<forall>k k' s. qx_current x k = Some s \<and> qx_current x k' = Some s \<longrightarrow> k = k') \<and>
     (\<forall>f st. qx_fibers x f = Some st \<longrightarrow> fits x st)"

lemma owned_fits: "owned x \<Longrightarrow> qx_fibers x f = Some st \<Longrightarrow> fits x st"
  by (simp add: owned_def)

lemma fits_plain: "fits x (Q_Reading op)" "fits x (Q_Rereading op)" "fits x (Q_Hydrating r) \<longleftrightarrow> qo_hydrate (qr_op r)"
  by (simp_all add: fits_def)

text \<open>Nothing about the results of the key has changed.\<close>

definition level :: "nat \<Rightarrow> reads \<Rightarrow> reads \<Rightarrow> bool" where
  "level k x y \<longleftrightarrow> received y k = received x k \<and> delivered y k = delivered x k \<and> turn_queue y k = turn_queue x k \<and>
     (\<forall>s. qx_current x k = Some s \<longrightarrow> qx_current y k = Some s) \<and> (has_active x k \<longrightarrow> has_active y k) \<and>
     (\<forall>f st. result_fiber k st \<longrightarrow> (qx_fibers y f = Some st \<longleftrightarrow> qx_fibers x f = Some st)) \<and>
     qx_next x \<le> qx_next y \<and> (\<forall>st. fits x st \<longrightarrow> fits y st) \<and> owned y"

lemma level_refl: "owned x \<Longrightarrow> level k x x"
  by (simp add: level_def)

lemma level_trans: "level k x y \<Longrightarrow> level k y z \<Longrightarrow> level k x z"
  by (auto simp: level_def)

lemma level_owned: "level k x y \<Longrightarrow> owned y" "level k x y \<Longrightarrow> tidy y"
  by (simp_all add: level_def owned_def)

lemma output_frames:
  "received (qout out x) k = received x k @ (case out of Result_Received f r \<Rightarrow> if of_key k r then [f] else [] | _ \<Rightarrow> [])"
  "delivered (qout out x) k = delivered x k @ (case out of Result_Delivered f r \<Rightarrow> if of_key k r then [f] else [] | _ \<Rightarrow> [])"
  by (simp_all add: received_def delivered_def qout_def)

lemma level_frame:
  assumes "level k x y" "received z k = received y k" "delivered z k = delivered y k" "turn_queue z k = turn_queue y k"
    and "qx_current z = qx_current y" "qx_active z = qx_active y" "qx_fibers z = qx_fibers y" "qx_next y \<le> qx_next z"
  shows "level k x z"
proof -
  have f: "fits y st \<Longrightarrow> fits z st" for st using assms(5,8) by (auto simp: fits_def)
  have n: "qx_next x \<le> qx_next z" using assms(1,8) by (simp add: level_def)
  have "tidy z" using level_owned(2) [OF assms(1)] assms(7,8) by (simp add: tidy_def)
  moreover have "\<forall>k s. qx_current z k = Some s \<longrightarrow> s < qx_next z"
    using level_owned(1) [OF assms(1)] assms(5,8) unfolding owned_def by (metis order_less_le_trans)
  ultimately have "owned z" using level_owned(1) [OF assms(1)] assms(5,7) f by (simp add: owned_def)
  then show ?thesis using assms f n by (simp add: level_def has_active_def)
qed

definition passing :: "nat \<Rightarrow> query_output \<Rightarrow> bool" where
  "passing k out \<longleftrightarrow> (case out of Result_Received f r \<Rightarrow> \<not> of_key k r | Result_Delivered f r \<Rightarrow> \<not> of_key k r | _ \<Rightarrow> True)"

lemma qout_fields [simp]:
  "qx_current (qout out x) = qx_current x" "qx_active (qout out x) = qx_active x" "qx_states (qout out x) = qx_states x"
  "qx_retained (qout out x) = qx_retained x" "turn_queue (qout out x) k = turn_queue x k"
  by (simp_all add: qout_def turn_queue_def split: option.split)

lemma level_out: "level k x y \<Longrightarrow> passing k out \<Longrightarrow> level k x (qout out y)"
  by (rule level_frame) (auto simp: output_frames passing_def split: query_output.splits)

lemma level_error: "level k x y \<Longrightarrow> level k x (q_error err y)"
  unfolding q_error_def by (erule level_out) (simp add: passing_def)

text \<open>An update of a state keeps the turns or is of another key's state.\<close>

lemma level_state:
  assumes "level k x y" "\<And>q. qs_turns (g q) = qs_turns q \<or> qx_current y k \<noteq> Some s"
  shows "level k x (upd_state s g y)"
proof (rule level_frame [OF assms(1)])
  show "turn_queue (upd_state s g y) k = turn_queue y k"
    using assms(2) by (auto simp: turn_queue_def upd_state_def split: option.split)
qed (simp_all add: received_def delivered_def upd_state_def)

lemma level_retained: "level k x y \<Longrightarrow> level k x (upd_retained i h y)" "level k x y \<Longrightarrow> level k x (y\<lparr>qx_retained := rs\<rparr>)"
  by (erule level_frame; simp add: received_def delivered_def upd_retained_def turn_queue_def split: option.split)+

lemma level_fresh: "level k x y \<Longrightarrow> level k x (snd (q_fresh y))"
  by (erule level_frame) (simp_all add: received_def delivered_def q_fresh_def turn_queue_def split: option.split)

lemma level_query_state:
  assumes "level k x y" shows "level k x (snd (queryState k' y))"
proof (cases "qx_current y k'")
  case None
  let ?n = "qx_next y"
  let ?z = "snd (queryState k' y)"
  note o = level_owned [OF assms]
  have z: "qx_current ?z = (qx_current y)(k' := Some ?n)" "qx_fibers ?z = qx_fibers y" "qx_next ?z = Suc ?n" "qx_out ?z = qx_out y"
      "qx_active ?z = qx_active y" "qx_states ?z = (qx_states y)(?n := initial_query_state)"
    using None by (simp_all add: queryState_def q_fresh_def)
  have lt: "qx_current y k = Some s \<Longrightarrow> s < ?n" for k s using o(1) by (simp add: owned_def)
  have f: "fits y st \<Longrightarrow> fits ?z st" for st by (auto simp: fits_def z)
  have t: "turn_queue ?z k = turn_queue y k"
    using None lt [of k] by (auto simp: turn_queue_def z initial_query_state_def split: option.split)
  have "tidy ?z" using o(2) by (simp add: tidy_def z)
  moreover have "\<forall>k s. qx_current ?z k = Some s \<longrightarrow> s < qx_next ?z" using lt by (auto simp: z less_SucI)
  moreover have "k = k''" if "qx_current ?z k = Some s" "qx_current ?z k'' = Some s" for k k'' s
    using that o(1) lt by (auto simp: owned_def z split: if_splits)
  ultimately have "owned ?z" using o(1) f unfolding owned_def z(2) by blast
  moreover have "received ?z k = received y k" "delivered ?z k = delivered y k" by (simp_all add: received_def delivered_def z)
  ultimately show ?thesis using assms None f t by (auto simp: level_def has_active_def z)
qed (use assms in \<open>simp add: queryState_def\<close>)

text \<open>The stage of a fiber changes from and to stages that are no results of the key.\<close>

definition other_fiber :: "nat \<Rightarrow> reads \<Rightarrow> nat \<Rightarrow> bool" where
  "other_fiber k x f \<longleftrightarrow> f < qx_next x \<and> (case qx_fibers x f of None \<Rightarrow> True | Some st \<Rightarrow> \<not> result_fiber k st)"

lemma fiber_fields [simp]:
  "qx_current (q_put f st x) = qx_current x" "qx_active (q_put f st x) = qx_active x" "qx_states (q_put f st x) = qx_states x"
  "qx_retained (q_put f st x) = qx_retained x" "turn_queue (q_put f st x) k = turn_queue x k"
  "received (q_put f st x) k = received x k" "delivered (q_put f st x) k = delivered x k"
  "qx_current (q_end f x) = qx_current x" "qx_active (q_end f x) = qx_active x" "qx_states (q_end f x) = qx_states x"
  "qx_retained (q_end f x) = qx_retained x" "turn_queue (q_end f x) k = turn_queue x k"
  "received (q_end f x) k = received x k" "delivered (q_end f x) k = delivered x k"
  by (simp_all add: q_put_def q_end_def turn_queue_def received_def delivered_def split: option.split)

lemma owned_put: "owned y \<Longrightarrow> f < qx_next y \<Longrightarrow> fits y st \<Longrightarrow> owned (q_put f st y)"
  by (auto simp: owned_def tidy_def fits_def)

lemma owned_end: "owned y \<Longrightarrow> owned (q_end f y)"
  by (auto simp: owned_def tidy_def fits_def)

lemma level_put:
  assumes "level k x y" "other_fiber k y f" "\<not> result_fiber k st" "fits y st"
  shows "level k x (q_put f st y)"
proof -
  have "owned (q_put f st y)" using owned_put [OF level_owned(1) [OF assms(1)]] assms(2,4) by (simp add: other_fiber_def)
  moreover have "fits y st' \<Longrightarrow> fits (q_put f st y) st'" for st' by (simp add: fits_def)
  moreover have "result_fiber k st' \<Longrightarrow> qx_fibers (q_put f st y) f' = Some st' \<longleftrightarrow> qx_fibers y f' = Some st'" for f' st'
    using assms(2,3) by (auto simp: other_fiber_def)
  ultimately show ?thesis using assms(1) by (simp add: level_def has_active_def)
qed

lemma level_end:
  assumes "level k x y" "other_fiber k y f" shows "level k x (q_end f y)"
proof -
  have "fits y st' \<Longrightarrow> fits (q_end f y) st'" for st' by (simp add: fits_def)
  moreover have "result_fiber k st' \<Longrightarrow> qx_fibers (q_end f y) f' = Some st' \<longleftrightarrow> qx_fibers y f' = Some st'" for f' st'
    using assms(2) by (auto simp: other_fiber_def)
  ultimately show ?thesis using assms(1) owned_end by (simp add: level_def has_active_def)
qed

lemma other_level: "other_fiber k x f \<Longrightarrow> level k x y \<Longrightarrow> other_fiber k y f"
  by (auto simp: other_fiber_def level_def split: option.splits)

lemma other_frames [simp]:
  "other_fiber k (qout out y) f = other_fiber k y f" "other_fiber k (upd_state s g y) f = other_fiber k y f"
  "other_fiber k (upd_retained i h y) f = other_fiber k y f" "other_fiber k (q_error err y) f = other_fiber k y f"
  "other_fiber k (y\<lparr>qx_retained := rs\<rparr>) f = other_fiber k y f"
  by (simp_all add: other_fiber_def upd_retained_def q_error_def)

lemma fits_frames [simp]:
  "fits (qout out y) st = fits y st" "fits (upd_state s g y) st = fits y st" "fits (upd_retained i h y) st = fits y st"
  "fits (q_error err y) st = fits y st" "fits (y\<lparr>qx_retained := rs\<rparr>) st = fits y st"
  by (simp_all add: fits_def upd_state_def upd_retained_def q_error_def qout_def)

lemma level_ask:
  "level k x y \<Longrightarrow> other_fiber k y f \<Longrightarrow> \<not> result_fiber k st \<Longrightarrow> fits y st \<Longrightarrow> level k x (q_ask f call st y)"
  unfolding q_ask_def by (rule level_put) (simp_all add: level_out passing_def)

lemma fresh_other: "tidy y \<Longrightarrow> other_fiber k (snd (q_fresh y)) (fst (q_fresh y))"
  by (simp add: other_fiber_def q_fresh_def tidy_def)

lemma level_fits: "level k x y \<Longrightarrow> fits x st \<Longrightarrow> fits y st"
  by (simp add: level_def)

lemmas level_basic = level_out level_error level_state level_retained level_fresh level_query_state level_put level_end level_ask passing_def
  fits_plain

lemma plain_fibers [simp]:
  "\<not> result_fiber k (Q_Reading op)" "\<not> result_fiber k (Q_Rereading op)" "\<not> result_fiber k (Q_Hydrating r)"
  "\<not> result_fiber k (Q_Recovering k' s i)" "\<not> result_fiber k (Q_Recovered k' s i)"
  "result_fiber k (Q_Waiting_Turn r s1) \<longleftrightarrow> qo_key (qr_op r) = k"
  "result_fiber k (Q_Awaiting_Recovery r s1 s2 v s i g) \<longleftrightarrow> qo_key (qr_op r) = k"
  "result_fiber k (Q_Writing r s1 s2 ro b) \<longleftrightarrow> qo_key (qr_op r) = k"
  by (simp_all add: result_fiber_def)

section \<open>Operations that keep the results of the key\<close>

lemma fits_recovery: "owned y \<Longrightarrow> qx_current y k = Some s \<Longrightarrow> fits y (Q_Recovering k s i)"
  by (auto simp: fits_def owned_def)

lemma level_reexecute: "level k x y \<Longrightarrow> level k x (reexecuteAffected k' b y)"
  by (simp add: reexecuteAffected_def level_basic split: option.split)

lemma level_attempt:
  "level k x y \<Longrightarrow> other_fiber k y g \<Longrightarrow> fits y (Q_Recovering k' s i) \<Longrightarrow> level k x (recovery_attempt g k' s i y)"
  by (simp add: recovery_attempt_def level_basic)

lemma level_recover:
  assumes "level k x y" shows "level k x (recoverRetainedReplacementFallback k' y)"
proof (cases "qx_current y k'")
  case (Some s)
  let ?f = "\<lambda>i. q_fresh (upd_retained i (\<lambda>rf. rf\<lparr>rf_ready := True\<rparr>) y)"
  have "fits y (Q_Recovering k' s i)" for i using fits_recovery [OF level_owned(1) [OF assms] Some] .
  then have "fits (snd (?f i)) (Q_Recovering k' s i)" for i by (auto simp: fits_def q_fresh_def upd_retained_def)
  moreover have "other_fiber k (snd (?f i)) (fst (?f i))" for i by (rule fresh_other) (use level_owned(2) [OF assms] in simp)
  ultimately show ?thesis using assms Some
    by (simp add: recoverRetainedReplacementFallback_def Let_def case_prod_beta level_basic level_attempt split: option.split)
qed (use assms in \<open>simp add: recoverRetainedReplacementFallback_def\<close>)

lemma level_emit: "level k x y \<Longrightarrow> level k x (emitAffectedWhileNetworkBound cfg k' y)"
  using fresh_other [OF level_owned(2) [of k x y], of k]
  by (simp add: emitAffectedWhileNetworkBound_def case_prod_beta level_basic split: option.split)

lemma level_affected: "level k x y \<Longrightarrow> level k x (op_affected cfg k' y)"
  by (simp add: op_affected_def Let_def case_prod_beta level_basic level_reexecute level_recover level_emit)

lemma level_push: "level k x y \<Longrightarrow> level k x (onOpsAffected cfg ks y)"
proof -
  have "level k x y \<Longrightarrow> level k x (fold (op_affected cfg) ks y)" for y
    by (induction ks arbitrary: y) (simp_all add: level_affected)
  then show "level k x y \<Longrightarrow> ?thesis" by (simp add: onOpsAffected_def)
qed

lemma level_finish: "level k x y \<Longrightarrow> level k x (finishNetworkQuery k' b y)"
  by (simp add: finishNetworkQuery_def Let_def case_prod_beta level_basic level_reexecute level_recover)

lemma level_forward: "level k x y \<Longrightarrow> level k x (enqueueQueryForward p op y)"
  by (simp add: enqueueQueryForward_def case_prod_beta level_basic)

lemma level_recovery:
  assumes "level k x y" "other_fiber k y g" "fits y (Q_Recovering k' s i)"
  shows "level k x (recovery_settled k' s i res g y)" "level k x (recovery_reaction k' s i g y)"
proof -
  have "fits y (Q_Recovered k' s i)" using assms(3) by (simp add: fits_def)
  then show "level k x (recovery_settled k' s i res g y)"
    using assms by (simp add: recovery_settled_def Let_def level_basic level_attempt split: sum.split)
  show "level k x (recovery_reaction k' s i g y)"
    using assms by (simp add: recovery_reaction_def Let_def level_basic level_recover)
qed

lemma level_reads:
  assumes "level k x y" "other_fiber k y f"
  shows "level k x (read_settled op res f y)" "level k x (reread_settled op res f y)" "level k x (readThenRoute cfg op f y)"
proof -
  have m: "level k x (read_missed op f y)" if "level k x y" "other_fiber k y f" for y
    using that other_level [of k y f "enqueueQueryForward f op y"] level_refl [OF level_owned(1) [OF that(1)]]
    by (simp add: read_missed_def answer_read_def level_basic level_forward)
  have "other_fiber k (enqueueQueryForward f op y) f" "other_fiber k (snd (queryState k' y)) f" for k'
    using assms(2) level_refl [OF level_owned(1) [OF assms(1)]] other_level level_forward level_query_state by blast+
  moreover have "other_fiber k (snd (queryState k' (q_error err y))) f" for k' err
    using assms level_refl [OF level_owned(1) [OF level_error [OF assms(1)]]] other_level level_query_state other_frames(4) by blast
  ultimately show "level k x (read_settled op res f y)" "level k x (reread_settled op res f y)" "level k x (readThenRoute cfg op f y)"
    using assms by (simp_all add: read_settled_def reread_settled_def readThenRoute_def answer_read_def Let_def case_prod_beta m level_basic
        level_forward split: sum.split option.split)
qed

section \<open>Results of other keys\<close>

lemma level_forget:
  assumes "level k x y" "k' \<noteq> k" shows "level k x (y\<lparr>qx_current := (qx_current y)(k' := None)\<rparr>)"
proof -
  let ?z = "y\<lparr>qx_current := (qx_current y)(k' := None)\<rparr>"
  have "fits y st \<Longrightarrow> fits ?z st" for st by (auto simp: fits_def)
  then have "owned ?z" using level_owned(1) [OF assms(1)] unfolding owned_def tidy_def by (auto split: if_splits)
  moreover have "turn_queue ?z k = turn_queue y k" using assms(2) by (simp add: turn_queue_def split: option.split)
  moreover have "received ?z k = received y k" "delivered ?z k = delivered y k" by (simp_all add: received_def delivered_def)
  ultimately show ?thesis using assms \<open>\<And>st. fits y st \<Longrightarrow> fits ?z st\<close> by (simp add: level_def has_active_def)
qed

lemma fits_foreign: "fits y (Q_Waiting_Turn r s1) \<Longrightarrow> qo_key (qr_op r) \<noteq> k \<Longrightarrow> qx_current y k \<noteq> Some s1"
  by (auto simp: fits_def)

lemma result_op [simp]: "qr_op (live_result r) = qr_op r" "qr_op (withResultMetadata r m) = qr_op r"
  by (simp_all add: live_result_def withResultMetadata_def)

lemma level_done:
  assumes "level k x y" "other_fiber k x f" "fits x (Q_Waiting_Turn r s1)" "qo_key (qr_op r) \<noteq> k" "qr_op out = qr_op r"
  shows "level k x (result_done r out s1 s2 f y)"
proof -
  define y1 where "y1 = (if qr_next r then y else finishNetworkQuery (qo_key (qr_op r)) (qs_satisfied (qx_states y s2))
    (upd_state s2 (\<lambda>q. q\<lparr>qs_satisfied := False\<rparr>) y))"
  define y2 where "y2 = (if has_active y1 (qo_key (qr_op r)) then y1 else y1\<lparr>qx_current := (qx_current y1)(qo_key (qr_op r) := None)\<rparr>)"
  have "level k x y1" using assms(1) by (simp add: y1_def level_basic level_finish)
  then have y2: "level k x y2" using assms(4) by (simp add: y2_def level_forget)
  have "qx_current y2 k \<noteq> Some s1" using fits_foreign [OF level_fits [OF y2 assms(3)] assms(4)] .
  then have z: "level k x (qout (Result_Delivered f out) (release_turn s1 f y2))"
    using y2 assms(4,5) by (simp add: release_turn_def level_basic of_key_def)
  have "result_done r out s1 s2 f y = q_end f (qout (Result_Delivered f out) (release_turn s1 f y2))"
    by (simp add: result_done_def Let_def y1_def y2_def)
  then show ?thesis using level_end [OF z other_level [OF assms(2) z]] by simp
qed

text \<open>The fiber of a result of another key, with a state of that key.\<close>

definition foreign :: "nat \<Rightarrow> reads \<Rightarrow> query_result \<Rightarrow> nat \<Rightarrow> nat \<Rightarrow> bool" where
  "foreign k x r s1 f \<longleftrightarrow> other_fiber k x f \<and> fits x (Q_Waiting_Turn r s1) \<and> qo_key (qr_op r) \<noteq> k"

lemma foreign_level: "foreign k x r s1 f \<Longrightarrow> level k x y \<Longrightarrow> foreign k y r s1 f"
  by (auto simp: foreign_def other_level level_fits)

lemma foreign_done: "foreign k x r s1 f \<Longrightarrow> level k x y \<Longrightarrow> qr_op out = qr_op r \<Longrightarrow> level k x (result_done r out s1 s2 f y)"
  by (simp add: foreign_def level_done)

lemma foreign_ready:
  assumes "foreign k x r s1 f" "level k x y" "fits x (Q_Writing r s1 s2 None True)"
  shows "level k x (result_ready cfg r s1 s2 v f y)"
proof -
  have f: "fits y (Q_Writing r s1 s2 ro b)" for ro b using level_fits [OF assms(2,3)] by (simp add: fits_def)
  have o: "other_fiber k y f" "\<not> result_fiber k (Q_Writing r s1 s2 ro b)" for ro b
    using assms(1,2) other_level by (auto simp: foreign_def)
  have z: "level k x (snd (q_fresh y))" "other_fiber k (snd (q_fresh y)) f" "fits (snd (q_fresh y)) (Q_Writing r s1 s2 ro b)" for ro b
    using f o(1) level_fresh [OF assms(2)] by (auto simp: fits_def other_fiber_def q_fresh_def)
  show ?thesis
    using assms(1,2) f o z by (simp add: result_ready_def Let_def case_prod_beta foreign_done level_basic)
qed

lemma foreign_invalidate:
  assumes "foreign k x r s1 f" "level k x y" "fits x (Q_Writing r s1 s2 None True)"
  shows "level k x (invalidateOlderRetainedFallback cfg r s1 s2 v f y)"
proof -
  have "fits y (Q_Awaiting_Recovery r s1 s2 v s i g)" if "qx_current y (qo_key (qr_op r)) = Some s" for s i g
    using level_fits [OF assms(2,3)] level_owned(1) [OF assms(2)] that by (auto simp: fits_def owned_def)
  moreover have "other_fiber k y f" "qo_key (qr_op r) \<noteq> k" using assms(1,2) other_level by (auto simp: foreign_def)
  ultimately show ?thesis using assms
    by (simp add: invalidateOlderRetainedFallback_def Let_def foreign_ready level_basic split: option.split)
qed

lemma queryState_current: "qx_current (snd (queryState k x)) k = Some (fst (queryState k x))"
  by (simp add: queryState_def case_prod_beta split: option.split)

lemma fits_with:
  "owned z \<Longrightarrow> fits z (Q_Waiting_Turn r s1) \<Longrightarrow> qx_current z (qo_key (qr_op r)) = Some s \<Longrightarrow> fits z (Q_Writing r s1 s ro b)"
  by (auto simp: fits_def owned_def)

lemma foreign_turn:
  assumes "foreign k x r s1 f" "owned x" shows "level k x (turn_granted cfg r s1 f x)"
proof -
  note l = level_refl [OF assms(2), of k]
  let ?k = "qo_key (qr_op r)"
  let ?y = "snd (queryState ?k x)" and ?s = "fst (queryState ?k x)"
  define v where "v = qs_version (qx_states ?y ?s) + 1"
  define z where "z = upd_state ?s (\<lambda>q. q\<lparr>qs_version := v\<rparr>) ?y"
  have z: "level k x z" using l by (simp add: z_def level_basic)
  have "qx_current z ?k = Some ?s" by (simp add: z_def upd_state_def queryState_current)
  moreover have "fits z (Q_Waiting_Turn r s1)" using level_fits [OF z] assms(1) by (simp add: foreign_def)
  ultimately have "fits z (Q_Writing r s1 ?s None True)" using fits_with [OF level_owned(1) [OF z]] by blast
  then have "level k z (invalidateOlderRetainedFallback cfg r s1 ?s v f z)"
    using foreign_invalidate [OF foreign_level [OF assms(1) z] level_refl [OF level_owned(1) [OF z]]] by blast
  moreover have "turn_granted cfg r s1 f x = invalidateOlderRetainedFallback cfg r s1 ?s v f z"
    by (simp add: turn_granted_def Let_def case_prod_beta z_def v_def)
  ultimately show ?thesis using level_trans [OF z] by simp
qed

lemma foreign_results:
  assumes "foreign k x r s1 f" "owned x" "fits x (Q_Writing r s1 s2 None True)"
  shows "level k x (recovery_awaited cfg r s1 s2 v s i f x)" "level k x (result_written r s1 s2 ro b res f x)"
proof -
  note l = level_refl [OF assms(2), of k]
  have "level k x (if qs_retained (qx_states x s) = Some i then upd_state s (\<lambda>q. q\<lparr>qs_retained := None\<rparr>) x else x)"
    using l by (simp add: level_basic)
  then show "level k x (recovery_awaited cfg r s1 s2 v s i f x)"
    unfolding recovery_awaited_def using foreign_invalidate [OF assms(1) _ assms(3)] by blast
  show "level k x (result_written r s1 s2 ro b res f x)"
    using l assms(1) by (simp add: result_written_def foreign_done level_basic split: sum.split)
qed

end
