(* ===== verification/Exchange_Lines.thy ===== *)
theory Exchange_Lines
  imports Exchange_Turns
begin

text \<open>
  The results of one key stand in line: the invariant of the turns of a key that is not torn down, and
  its proof for every step of the exchange.
\<close>

section \<open>The line of a key\<close>

definition line_inv :: "nat \<Rightarrow> reads \<Rightarrow> bool" where
  "line_inv k x \<longleftrightarrow> owned x \<and> received x k = delivered x k @ turn_queue x k \<and>
     sorted_wrt (<) (received x k) \<and> (\<forall>f \<in> set (received x k). f < qx_next x) \<and>
     (\<forall>f st. qx_fibers x f = Some st \<and> result_fiber k st \<longrightarrow>
        has_active x k \<and> (\<exists>s. qx_current x k = Some s \<and> set (fiber_states st) = {s}) \<and> f \<in> set (turn_queue x k) \<and>
        (past_turn st \<longrightarrow> f = hd (turn_queue x k))) \<and>
     (\<forall>f \<in> set (turn_queue x k). \<exists>st. qx_fibers x f = Some st \<and> result_fiber k st)"

lemma line_owned: "line_inv k x \<Longrightarrow> owned x" "line_inv k x \<Longrightarrow> level k x x"
  by (simp_all add: line_inv_def level_refl)

lemma line_fiber:
  assumes "line_inv k x" "qx_fibers x f = Some st" "result_fiber k st"
  obtains s where "qx_current x k = Some s" "set (fiber_states st) = {s}" "f \<in> set (turn_queue x k)" "has_active x k"
    "past_turn st \<longrightarrow> f = hd (turn_queue x k)"
  using assms unfolding line_inv_def by blast

lemma line_level:
  assumes "line_inv k x" "level k x y" shows "line_inv k y"
proof -
  have r: "result_fiber k st \<Longrightarrow> qx_fibers y f = Some st \<longleftrightarrow> qx_fibers x f = Some st" for f st
    using assms(2) by (simp add: level_def)
  have "has_active y k \<and> (\<exists>s. qx_current y k = Some s \<and> set (fiber_states st) = {s}) \<and> f \<in> set (turn_queue y k) \<and>
      (past_turn st \<longrightarrow> f = hd (turn_queue y k))" if "qx_fibers y f = Some st" "result_fiber k st" for f st
    using assms(2) line_fiber [OF assms(1) _ that(2), of f] r [OF that(2), of f] that(1) unfolding level_def by metis
  moreover have "\<exists>st. qx_fibers y f = Some st \<and> result_fiber k st" if "f \<in> set (turn_queue y k)" for f
    using assms that r unfolding line_inv_def level_def by metis
  moreover have "\<forall>f \<in> set (received y k). f < qx_next y"
    using assms unfolding line_inv_def level_def by (metis order_less_le_trans)
  ultimately show ?thesis using assms unfolding line_inv_def [of k y] by (auto simp: line_inv_def level_def)
qed

lemma line_sorted: "line_inv k x \<Longrightarrow> sorted_wrt (<) (received x k)"
  unfolding line_inv_def by blast

lemma line_eq: "line_inv k x \<Longrightarrow> received x k = delivered x k @ turn_queue x k"
  unfolding line_inv_def by blast

lemma line_bound: "line_inv k x \<Longrightarrow> f \<in> set (received x k) \<Longrightarrow> f < qx_next x"
  unfolding line_inv_def by blast

lemma line_member: "line_inv k x \<Longrightarrow> f \<in> set (turn_queue x k) \<Longrightarrow> \<exists>st. qx_fibers x f = Some st \<and> result_fiber k st"
  unfolding line_inv_def by blast

lemma line_distinct: "line_inv k x \<Longrightarrow> distinct (turn_queue x k)"
  unfolding line_inv_def using strict_sorted_iff by (metis distinct_append)

lemma trace_frames [simp]:
  "received (upd_state s g x) k = received x k" "delivered (upd_state s g x) k = delivered x k"
  "received (snd (queryState k' x)) k = received x k" "delivered (snd (queryState k' x)) k = delivered x k"
  by (simp_all add: received_def delivered_def)

lemma line_parts:
  assumes "owned z" "received z k = delivered z k @ turn_queue z k" "sorted_wrt (<) (received z k)"
    and "\<And>f. f \<in> set (received z k) \<Longrightarrow> f < qx_next z"
    and "\<And>f st. qx_fibers z f = Some st \<Longrightarrow> result_fiber k st \<Longrightarrow>
      has_active z k \<and> (\<exists>s. qx_current z k = Some s \<and> set (fiber_states st) = {s}) \<and> f \<in> set (turn_queue z k) \<and>
      (past_turn st \<longrightarrow> f = hd (turn_queue z k))"
    and "\<And>f. f \<in> set (turn_queue z k) \<Longrightarrow> \<exists>st. qx_fibers z f = Some st \<and> result_fiber k st"
  shows "line_inv k z"
  using assms unfolding line_inv_def by blast

text \<open>A result joins the line, moves on at its head, or leaves it.\<close>

lemma line_joins:
  assumes "line_inv k w" "owned z" "turn_queue z k = turn_queue w k @ [f]" "received z k = received w k @ [f]"
    and "delivered z k = delivered w k" "qx_fibers z = (qx_fibers w)(f := Some st)" "qx_current z k = qx_current w k"
    and "has_active z k" "qx_next w \<le> qx_next z" "f < qx_next z" "\<And>g. g \<in> set (received w k) \<Longrightarrow> g < f"
    and "\<exists>s. qx_current z k = Some s \<and> set (fiber_states st) = {s}" "result_fiber k st" "\<not> past_turn st"
  shows "line_inv k z"
proof (rule line_parts [OF assms(2)])
  show "received z k = delivered z k @ turn_queue z k" using line_eq [OF assms(1)] assms(3-5) by simp
  show "sorted_wrt (<) (received z k)" using assms(4,11) line_sorted [OF assms(1)] by (simp add: sorted_wrt_append)
  show "g < qx_next z" if "g \<in> set (received z k)" for g
    using that line_bound [OF assms(1), of g] assms(4,9,10) by auto
  show "has_active z k \<and> (\<exists>s. qx_current z k = Some s \<and> set (fiber_states st') = {s}) \<and> g \<in> set (turn_queue z k) \<and>
      (past_turn st' \<longrightarrow> g = hd (turn_queue z k))" if "qx_fibers z g = Some st'" "result_fiber k st'" for g st'
  proof (cases "g = f")
    case False
    then have g: "qx_fibers w g = Some st'" "result_fiber k st'" using that assms(6) by simp_all
    obtain s where s: "qx_current w k = Some s" "set (fiber_states st') = {s}" "g \<in> set (turn_queue w k)"
        "past_turn st' \<longrightarrow> g = hd (turn_queue w k)" using line_fiber [OF assms(1) g] .
    moreover from s(3) have "hd (turn_queue w k @ [f]) = hd (turn_queue w k)" by (cases "turn_queue w k") simp_all
    ultimately show ?thesis using assms(3,7,8) by simp
  qed (use that assms(3,6,8,12,14) in auto)
  show "\<exists>st'. qx_fibers z g = Some st' \<and> result_fiber k st'" if "g \<in> set (turn_queue z k)" for g
    using that line_member [OF assms(1), of g] assms(3,6,13) by auto
qed

lemma line_moves:
  assumes "line_inv k w" "qx_fibers w f = Some st" "result_fiber k st" "f = hd (turn_queue w k)"
    and "result_fiber k st'" "set (fiber_states st') = set (fiber_states st)" "fits w st'"
  shows "line_inv k (q_put f st' w)"
proof (rule line_parts)
  obtain s where s: "qx_current w k = Some s" "set (fiber_states st) = {s}" "f \<in> set (turn_queue w k)" "has_active w k"
    using line_fiber [OF assms(1-3)] .
  have "f < qx_next w" using assms(1,2) unfolding line_inv_def owned_def tidy_def by (metis not_less option.distinct(1))
  then show "owned (q_put f st' w)" using owned_put [OF line_owned(1) [OF assms(1)]] assms(7) by blast
  show "has_active (q_put f st' w) k \<and> (\<exists>s. qx_current (q_put f st' w) k = Some s \<and> set (fiber_states st'') = {s}) \<and>
      g \<in> set (turn_queue (q_put f st' w) k) \<and> (past_turn st'' \<longrightarrow> g = hd (turn_queue (q_put f st' w) k))"
    if "qx_fibers (q_put f st' w) g = Some st''" "result_fiber k st''" for g st''
  proof (cases "g = f")
    case True
    then show ?thesis using that s assms(4,6) by (simp add: has_active_def)
  next
    case False
    then have "qx_fibers w g = Some st''" using that(1) by simp
    then show ?thesis using line_fiber [OF assms(1) _ that(2)] by (simp add: has_active_def) blast
  qed
  show "\<exists>st''. qx_fibers (q_put f st' w) g = Some st'' \<and> result_fiber k st''" if "g \<in> set (turn_queue (q_put f st' w) k)" for g
    using that line_member [OF assms(1), of g] assms(5) by auto
qed (use line_sorted [OF assms(1)] line_eq [OF assms(1)] line_bound [OF assms(1)] in simp_all)

lemma line_leaves:
  assumes "line_inv k w" "qx_fibers w f = Some st" "result_fiber k st" "f = hd (turn_queue w k)" "qx_current w k = Some s"
    and "of_key k out"
  shows "line_inv k (q_end f (qout (Result_Delivered f out) (release_turn s f w)))"
proof (rule line_parts)
  let ?z = "q_end f (qout (Result_Delivered f out) (release_turn s f w))"
  have "f \<in> set (turn_queue w k)" using line_fiber [OF assms(1-3)] by blast
  then obtain fs where q: "turn_queue w k = f # fs" using assms(4) by (cases "turn_queue w k") simp_all
  have z: "turn_queue ?z k = fs" "received ?z k = received w k" "delivered ?z k = delivered w k @ [f]" "qx_current ?z = qx_current w"
      "qx_active ?z = qx_active w" "qx_next ?z = qx_next w" "\<And>g. qx_fibers ?z g = (if g = f then None else qx_fibers w g)"
    using q assms(5,6) by (simp_all add: turn_queue_def release_turn_def output_frames) (simp_all add: upd_state_def)
  have d: "f \<notin> set fs" using line_distinct [OF assms(1)] q by simp
  show "owned ?z" using line_owned(1) [OF assms(1)] unfolding owned_def tidy_def fits_def z by auto
  show "received ?z k = delivered ?z k @ turn_queue ?z k" unfolding z using line_eq [OF assms(1)] q by simp
  show "sorted_wrt (<) (received ?z k)" unfolding z by (rule line_sorted [OF assms(1)])
  show "g < qx_next ?z" if "g \<in> set (received ?z k)" for g
    using that line_bound [OF assms(1)] unfolding z by blast
  show "has_active ?z k \<and> (\<exists>s. qx_current ?z k = Some s \<and> set (fiber_states st') = {s}) \<and> g \<in> set (turn_queue ?z k) \<and>
      (past_turn st' \<longrightarrow> g = hd (turn_queue ?z k))" if "qx_fibers ?z g = Some st'" "result_fiber k st'" for g st'
  proof -
    have "g \<noteq> f" "qx_fibers w g = Some st'" using that(1) unfolding z by (auto split: if_splits)
    then show ?thesis using line_fiber [OF assms(1) _ that(2), of g] q unfolding has_active_def z by auto
  qed
  show "\<exists>st'. qx_fibers ?z g = Some st' \<and> result_fiber k st'" if "g \<in> set (turn_queue ?z k)" for g
    using that line_member [OF assms(1), of g] q d unfolding z by auto
qed

section \<open>The head of the line\<close>

text \<open>The first result of the line, with the state of its key.\<close>

definition heads :: "nat \<Rightarrow> reads \<Rightarrow> query_result \<Rightarrow> nat \<Rightarrow> nat \<Rightarrow> bool" where
  "heads k x r s f \<longleftrightarrow> (\<exists>st. qx_fibers x f = Some st \<and> fiber_result st = Some r \<and> result_fiber k st \<and> set (fiber_states st) = {s}) \<and>
     f = hd (turn_queue x k) \<and> qx_current x k = Some s \<and> has_active x k \<and> of_key k r"

lemma heads_level: "heads k x r s f \<Longrightarrow> level k x y \<Longrightarrow> heads k y r s f"
  unfolding heads_def level_def by auto

lemma heads_key: "heads k x r s f \<Longrightarrow> qo_key (qr_op r) = k"
  by (simp add: heads_def of_key_def)

lemma line_done:
  assumes "line_inv k x" "heads k x r s f" "qr_op out = qr_op r"
  shows "line_inv k (result_done r out s s2 f x)"
proof -
  define y where "y = (if qr_next r then x else finishNetworkQuery (qo_key (qr_op r)) (qs_satisfied (qx_states x s2))
    (upd_state s2 (\<lambda>q. q\<lparr>qs_satisfied := False\<rparr>) x))"
  have l: "level k x y" using line_owned(2) [OF assms(1)] by (simp add: y_def level_basic level_finish)
  note h = heads_level [OF assms(2) l]
  have "has_active y (qo_key (qr_op r))" using h heads_key [OF h] by (simp add: heads_def)
  then have "result_done r out s s2 f x = q_end f (qout (Result_Delivered f out) (release_turn s f y))"
    unfolding result_done_def Let_def y_def [symmetric] by simp
  moreover have "of_key k out" using h assms(3) by (simp add: heads_def of_key_def)
  moreover obtain st where "qx_fibers y f = Some st" "result_fiber k st" "f = hd (turn_queue y k)" "qx_current y k = Some s"
    using h by (auto simp: heads_def)
  ultimately show ?thesis using line_leaves [OF line_level [OF assms(1) l]] by simp
qed

lemma line_stays:
  assumes "line_inv k x" "heads k x r s f" "fiber_result st' = Some r" "set (fiber_states st') = {s}"
    and "level k x y" "fiber_key st' = k"
  shows "line_inv k (q_put f st' y)"
proof -
  note h = heads_level [OF assms(2,5)] and w = line_level [OF assms(1,5)]
  obtain st where st: "qx_fibers y f = Some st" "fiber_result st = Some r" "result_fiber k st" "set (fiber_states st) = {s}"
      "f = hd (turn_queue y k)" using h by (auto simp: heads_def)
  have "fits y st" by (rule owned_fits [OF line_owned(1) [OF w] st(1)])
  then have "fits y st'" using st(2-4) assms(3,4,6) by (cases st') (simp_all add: fits_def result_fiber_def)
  moreover have "result_fiber k st'" using assms(3,6) by (simp add: result_fiber_def)
  ultimately show ?thesis using line_moves [OF w st(1,3,5)] st(4) assms(4) by simp
qed

lemma line_asks:
  assumes "line_inv k x" "heads k x r s f" "level k x y"
  shows "line_inv k (q_ask f call (Q_Writing r s s ro b) y)"
  unfolding q_ask_def
  by (rule line_stays [OF assms(1,2)]) (use heads_key [OF assms(2)] assms(3) in \<open>simp_all add: level_basic\<close>)

lemma line_ready:
  assumes "line_inv k x" "heads k x r s f" shows "line_inv k (result_ready cfg r s s v f x)"
  using line_done [OF assms, of "live_result r" s] line_asks [OF assms] line_owned(2) [OF assms(1)]
  by (simp add: result_ready_def Let_def case_prod_beta level_basic)

lemma line_invalidate:
  assumes "line_inv k x" "heads k x r s f" shows "line_inv k (invalidateOlderRetainedFallback cfg r s s v f x)"
proof -
  have k: "qo_key (qr_op r) = k" and c: "qx_current x k = Some s" using assms(2) by (auto simp: heads_def of_key_def)
  note l = line_owned(2) [OF assms(1)]
  define y where "y i = upd_retained i (\<lambda>rf. rf\<lparr>rf_invalidated := True, rf_ready := False\<rparr>) x" for i
  define z where "z i = upd_state s (\<lambda>q. q\<lparr>qs_retained := None\<rparr>) (y i)" for i
  have y: "level k x (y i)" "level k x (z i)" for i using l by (simp_all add: z_def y_def level_basic)
  then have "line_inv k (result_ready cfg r s s v f (z i))" for i
    using line_ready [OF line_level [OF assms(1)] heads_level [OF assms(2)]] by blast
  moreover have "line_inv k (q_put f (Q_Awaiting_Recovery r s s v s i g) (y i))" for i g
    by (rule line_stays [OF assms _ _ y(1)]) (simp_all add: k)
  ultimately show ?thesis using line_ready [OF assms] k c
    by (simp add: invalidateOlderRetainedFallback_def Let_def z_def y_def split: option.split)
qed

lemma line_results:
  assumes "line_inv k x" "heads k x r s f"
  shows "line_inv k (recovery_awaited cfg r s s v s i f x)" "line_inv k (turn_granted cfg r s f x)"
    "line_inv k (result_written r s s ro b res f x)"
proof -
  have k: "qo_key (qr_op r) = k" and c: "qx_current x k = Some s" using assms(2) by (auto simp: heads_def of_key_def)
  note l = line_owned(2) [OF assms(1)]
  have i: "line_inv k (invalidateOlderRetainedFallback cfg r s s v f y)" if "level k x y" for v y
    using line_invalidate [OF line_level [OF assms(1) that] heads_level [OF assms(2) that]] .
  have d: "line_inv k (result_done r out s s f y)" if "level k x y" "qr_op out = qr_op r" for out y
    using line_done [OF line_level [OF assms(1) that(1)] heads_level [OF assms(2) that(1)] that(2)] .
  show "line_inv k (recovery_awaited cfg r s s v s i f x)"
    unfolding recovery_awaited_def by (rule i) (use l in \<open>simp add: level_basic\<close>)
  have "turn_granted cfg r s f x = invalidateOlderRetainedFallback cfg r s s (qs_version (qx_states x s) + 1) f
      (upd_state s (\<lambda>q. q\<lparr>qs_version := qs_version (qx_states x s) + 1\<rparr>) x)"
    using k c by (simp add: turn_granted_def queryState_def)
  moreover have "level k x (upd_state s (\<lambda>q. q\<lparr>qs_version := qs_version (qx_states x s) + 1\<rparr>) x)"
    using l by (simp add: level_basic)
  ultimately show "line_inv k (turn_granted cfg r s f x)" using i by simp
  show "line_inv k (result_written r s s ro b res f x)"
    by (cases res) (simp_all add: result_written_def d l level_basic)
qed

section \<open>Steps\<close>

text \<open>The key is not torn down, and its results arrive while it is active.\<close>

definition steady :: "nat \<Rightarrow> query_input \<Rightarrow> reads \<Rightarrow> bool" where
  "steady k ev x \<longleftrightarrow>
     (case ev of Teardown_In k' \<Rightarrow> k' \<noteq> k | Query_Result r \<Rightarrow> of_key k r \<longrightarrow> has_active x k | _ \<Rightarrow> True)"

lemma fresh_fields:
  "qx_current (snd (q_fresh x)) = qx_current x" "qx_fibers (snd (q_fresh x)) = qx_fibers x" "qx_active (snd (q_fresh x)) = qx_active x"
  "qx_states (snd (q_fresh x)) = qx_states x" "qx_next (snd (q_fresh x)) = Suc (qx_next x)" "qx_out (snd (q_fresh x)) = qx_out x"
  "fst (q_fresh x) = qx_next x" "turn_queue (snd (q_fresh x)) k = turn_queue x k" "received (snd (q_fresh x)) k = received x k"
  "delivered (snd (q_fresh x)) k = delivered x k" "has_active (snd (q_fresh x)) k = has_active x k"
  by (simp_all add: q_fresh_def turn_queue_def received_def delivered_def has_active_def split: option.split)

lemma line_arrival:
  assumes "line_inv k x" "of_key k r" "has_active x k"
  shows "line_inv k (query_input_step cfg (Query_Result r) x)"
proof -
  let ?f = "qx_next x"
  define y where "y = snd (q_fresh x)"
  define w where "w = snd (queryState k y)"
  define s where "s = fst (queryState k y)"
  let ?o = "qout (Result_Received ?f r)"
  have k: "qo_key (qr_op r) = k" "\<not> qo_hydrate (qr_op r)" using assms(2) by (auto simp: of_key_def)
  have lw: "level k x w" unfolding w_def y_def by (intro level_query_state level_fresh line_owned(2) [OF assms(1)])
  note iw = line_level [OF assms(1) lw]
  have c: "qx_current w k = Some s" unfolding w_def s_def by (rule queryState_current)
  have q: "queryState k (?o y) = (s, ?o w)" by (simp add: s_def w_def queryState_def q_fresh_def qout_def split: option.split)
  have e: "query_input_step cfg (Query_Result r) x = q_put ?f (Q_Waiting_Turn r s) (upd_state s (\<lambda>q. q\<lparr>qs_turns := qs_turns q @ [?f]\<rparr>) (?o w))"
    using q k by (simp add: query_result_arrives_def acquireQueryResultTurn_def y_def q_fresh_def)
  have n: "?f < qx_next w" using state_next [of y k] by (simp add: w_def y_def fresh_fields)
  define z0 where "z0 = upd_state s (\<lambda>q. q\<lparr>qs_turns := qs_turns q @ [?f]\<rparr>) (?o w)"
  have z0: "qx_current z0 = qx_current w" "qx_next z0 = qx_next w" "qx_fibers z0 = qx_fibers w" "qx_active z0 = qx_active w"
    "turn_queue z0 k = turn_queue w k @ [?f]" "received z0 k = received w k @ [?f]" "delivered z0 k = delivered w k"
    using c assms(2) by (simp_all add: z0_def output_frames turn_queue_def) (simp_all add: upd_state_def)
  have "fits w st \<Longrightarrow> fits z0 st" for st by (simp add: fits_def z0)
  then have o: "owned z0" using line_owned(1) [OF iw] by (simp add: owned_def tidy_def z0)
  have "s < qx_next w" "\<And>k'. qx_current w k' = Some s \<Longrightarrow> k' = k" using line_owned(1) [OF iw] c by (auto simp: owned_def)
  then have "fits z0 (Q_Waiting_Turn r s)" using k by (auto simp: fits_def z0)
  then have "owned (q_put ?f (Q_Waiting_Turn r s) z0)" using owned_put [OF o] n by (simp add: z0)
  then show ?thesis unfolding e z0_def [symmetric]
  proof (rule line_joins [OF iw])
    show "qx_fibers (q_put ?f (Q_Waiting_Turn r s) z0) = (qx_fibers w)(?f := Some (Q_Waiting_Turn r s))" by (auto simp: z0)
    show "g < ?f" if "g \<in> set (received w k)" for g using that line_bound [OF assms(1), of g] lw by (simp add: level_def)
    show "has_active (q_put ?f (Q_Waiting_Turn r s) z0) k" using assms(3) lw by (simp add: has_active_def level_def z0)
  qed (use c n assms(2) in \<open>simp_all add: z0 of_key_def\<close>)
qed

lemma other_arrival:
  assumes "line_inv k x" "\<not> of_key k r" shows "level k x (query_input_step cfg (Query_Result r) x)"
proof -
  define y where "y = qout (Result_Received (qx_next x) r) (snd (q_fresh x))"
  have y: "level k x y" unfolding y_def
    by (rule level_out [OF level_fresh [OF line_owned(2) [OF assms(1)]]]) (use assms(2) in \<open>simp add: passing_def\<close>)
  have o: "other_fiber k y (qx_next x)"
    using fresh_other [of x k] line_owned(1) [OF assms(1)] by (simp add: y_def owned_def fresh_fields)
  have e: "query_input_step cfg (Query_Result r) x = query_result_arrives cfg r (qx_next x) y"
    by (simp add: y_def q_fresh_def)
  show ?thesis
  proof (cases "qo_hydrate (qr_op r)")
    case True
    then show ?thesis unfolding e using y o assms(2) by (simp add: query_result_arrives_def level_basic)
  next
    case False
    let ?k = "qo_key (qr_op r)"
    define w where "w = snd (queryState ?k y)"
    define s where "s = fst (queryState ?k y)"
    have k: "?k \<noteq> k" using False assms(2) by (simp add: of_key_def)
    have w: "level k x w" using y by (simp add: w_def level_basic)
    have c: "qx_current w ?k = Some s" unfolding w_def s_def by (rule queryState_current)
    then have "qx_current w k \<noteq> Some s" using k level_owned(1) [OF w] by (auto simp: owned_def)
    then have z: "level k x (upd_state s (\<lambda>q. q\<lparr>qs_turns := qs_turns q @ [qx_next x]\<rparr>) w)" using w by (simp add: level_state)
    have "fits w (Q_Waiting_Turn r s)" using c level_owned(1) [OF w] False by (auto simp: fits_def owned_def)
    moreover have "other_fiber k w (qx_next x)"
      using other_level [OF o level_query_state [OF level_refl [OF level_owned(1) [OF y]]]] by (simp add: w_def)
    ultimately have "level k x (q_put (qx_next x) (Q_Waiting_Turn r s) (upd_state s (\<lambda>q. q\<lparr>qs_turns := qs_turns q @ [qx_next x]\<rparr>) w))"
      using level_put [OF z, of "qx_next x" "Q_Waiting_Turn r s"] k by simp
    then show ?thesis unfolding e using False
      by (simp add: query_result_arrives_def acquireQueryResultTurn_def case_prod_beta w_def s_def)
  qed
qed

lemma fiber_heads:
  assumes "line_inv k x" "qx_fibers x f = Some st" "result_fiber k st" "fiber_result st = Some r" "f = hd (turn_queue x k)"
  obtains s where "heads k x r s f" "set (fiber_states st) = {s}"
proof -
  obtain s where s: "qx_current x k = Some s" "set (fiber_states st) = {s}" "has_active x k"
    using line_fiber [OF assms(1-3)] .
  have "of_key k r"
    using owned_fits [OF line_owned(1) [OF assms(1)] assms(2)] assms(3,4)
    by (cases st) (auto simp: fits_def result_fiber_def of_key_def)
  then have "heads k x r s f" using assms(2-5) s unfolding heads_def by blast
  then show thesis using that s(2) by blast
qed

lemma other_foreign:
  assumes "line_inv k x" "qx_fibers x f = Some st" "fiber_result st = Some r" "\<not> result_fiber k st" "s1 \<in> set (fiber_states st)"
  shows "foreign k x r s1 f"
proof -
  have "fits x st" by (rule owned_fits [OF line_owned(1) [OF assms(1)] assms(2)])
  moreover have "f < qx_next x" using line_owned(1) [OF assms(1)] assms(2) unfolding owned_def tidy_def by (metis not_less option.distinct(1))
  ultimately show ?thesis using assms(2-5)
    by (cases st) (auto simp: foreign_def other_fiber_def fits_def result_fiber_def)
qed

lemma line_resumes:
  assumes "line_inv k x" shows "line_inv k (resume_query cfg f res x)"
proof (cases "qx_fibers x f")
  case (Some st)
  note l = line_owned(2) [OF assms] and o = line_owned(1) [OF assms]
  have fits: "fits x st" by (rule owned_fits [OF o Some])
  have n: "f < qx_next x" using o Some unfolding owned_def tidy_def by (metis not_less option.distinct(1))
  show ?thesis
  proof (cases st)
    case (Q_Writing r s1 s2 ro b)
    show ?thesis
    proof (cases "result_fiber k st")
      case True
      then obtain s where s: "set (fiber_states st) = {s}" "f = hd (turn_queue x k)"
        using line_fiber [OF assms Some True] Q_Writing by auto
      then have "s1 = s" "s2 = s" using Q_Writing by auto
      moreover obtain s' where "heads k x r s' f" "set (fiber_states st) = {s'}"
        using fiber_heads [OF assms Some True _ s(2)] Q_Writing by auto
      ultimately show ?thesis using line_results(3) [OF assms] Some Q_Writing s(1) by (simp add: resume_query_def)
    next
      case False
      then have "foreign k x r s1 f" using other_foreign [OF assms Some] Q_Writing by simp
      then have "level k x (result_written r s1 s2 ro b res f x)"
        using foreign_results(2) [OF _ o] fits Q_Writing by (simp add: fits_def)
      then show ?thesis using line_level [OF assms] Some Q_Writing by (simp add: resume_query_def)
    qed
  qed (use Some n fits assms l line_level [OF assms] in
      \<open>auto simp: resume_query_def level_reads level_recovery other_fiber_def hydrated_def of_key_def q_error_def level_basic split: sum.split\<close>)
qed (use assms in \<open>simp add: resume_query_def\<close>)

lemma level_arrives:
  assumes "level k x y" shows "level k x (y\<lparr>qx_active := (qx_active y)(k' := Some op)\<rparr>)"
proof -
  let ?z = "y\<lparr>qx_active := (qx_active y)(k' := Some op)\<rparr>"
  have "fits ?z st = fits y st" for st by (simp add: fits_def)
  then have "owned ?z" using level_owned(1) [OF assms] by (simp add: owned_def tidy_def)
  moreover have "received ?z k = received y k" "delivered ?z k = delivered y k" "turn_queue ?z k = turn_queue y k"
    by (simp_all add: received_def delivered_def turn_queue_def split: option.split)
  ultimately show ?thesis using assms \<open>\<And>st. fits ?z st = fits y st\<close> by (auto simp: level_def has_active_def)
qed

lemma query_arrival:
  assumes "owned x" shows "level k x (query_input_step cfg (Query_In op) x)"
proof -
  define y where "y = qout (Query_Arrived (qx_next x) op) (snd (q_fresh x))"
  define z where "z = (if qo_hydrate op then y else y\<lparr>qx_active := (qx_active y)(qo_key op := Some op)\<rparr>)"
  have y: "level k x y" unfolding y_def by (intro level_out level_fresh level_refl assms) (simp add: passing_def)
  then have z: "level k x z" by (simp add: z_def level_arrives)
  have "other_fiber k y (qx_next x)" using fresh_other [of x k] assms by (simp add: y_def owned_def fresh_fields)
  then have "other_fiber k z (qx_next x)" by (simp add: z_def other_fiber_def)
  then have "level k x (readThenRoute cfg op (qx_next x) z)" by (rule level_reads(3) [OF z])
  then show ?thesis by (cases "qo_hydrate op") (simp_all add: z_def y_def q_fresh_def Let_def)
qed

lemma query_teardown:
  assumes "owned x" "k' \<noteq> k" shows "level k x (query_input_step cfg (Teardown_In k') x)"
proof -
  define y where "y = x\<lparr>qx_active := (qx_active x)(k' := None)\<rparr>"
  have f: "fits y st = fits x st" for st by (simp add: y_def fits_def)
  have "level k x y" using level_refl [OF assms(1), of k] assms f unfolding level_def
    by (simp add: y_def owned_def tidy_def received_def delivered_def turn_queue_def has_active_def split: option.split)
  then have "level k x (y\<lparr>qx_current := (qx_current y)(k' := None)\<rparr>)" using assms(2) by (rule level_forget)
  then have "level k x (snd (q_fresh (y\<lparr>qx_current := (qx_current y)(k' := None)\<rparr>)))" by (rule level_fresh)
  then have "level k x (qout (Teardown_Forwarded k') (qout (Query_Asked (qx_next x) (Teardown_Op (int k')))
      (snd (q_fresh (y\<lparr>qx_current := (qx_current y)(k' := None)\<rparr>)))))" by (simp add: level_basic)
  then show ?thesis by (simp add: y_def q_fresh_def)
qed

lemma line_turns:
  assumes "line_inv k x" shows "line_inv k (query_input_step cfg (Turn_Granted f) x)"
proof (cases "\<exists>r s1 fs. qx_fibers x f = Some (Q_Waiting_Turn r s1) \<and> qs_turns (qx_states x s1) = f # fs")
  case True
  then obtain r s1 fs where f: "qx_fibers x f = Some (Q_Waiting_Turn r s1)" and q: "qs_turns (qx_states x s1) = f # fs" by blast
  have e: "query_input_step cfg (Turn_Granted f) x = turn_granted cfg r s1 f x" using f q by simp
  have o: "owned x" "fits x (Q_Waiting_Turn r s1)" using owned_fits [OF line_owned(1) [OF assms] f] line_owned(1) [OF assms] by simp_all
  show ?thesis
  proof (cases "qo_key (qr_op r) = k")
    case True
    then have rf: "result_fiber k (Q_Waiting_Turn r s1)" by simp
    then have c: "qx_current x k = Some s1" using line_fiber [OF assms f rf] by auto
    then have "f = hd (turn_queue x k)" using q by (simp add: turn_queue_def)
    then obtain s where "heads k x r s f" "s = s1" using fiber_heads [OF assms f rf, of r] by auto
    then show ?thesis unfolding e using line_results(2) [OF assms] by simp
  next
    case False
    then have g: "foreign k x r s1 f" using other_foreign [OF assms f] by simp
    show ?thesis unfolding e using line_level [OF assms foreign_turn [OF g o(1)]] .
  qed
next
  case False
  then show ?thesis using assms by (auto split: option.split query_fiber.split list.split)
qed

lemma line_reacts:
  assumes "line_inv k x" shows "line_inv k (query_input_step cfg (Recovery_Reacts g) x)"
proof (cases "\<exists>k' s i. qx_fibers x g = Some (Q_Recovered k' s i)")
  case True
  then obtain k' s i where g: "qx_fibers x g = Some (Q_Recovered k' s i)" by blast
  have "fits x (Q_Recovered k' s i)" by (rule owned_fits [OF line_owned(1) [OF assms] g])
  then have "fits x (Q_Recovering k' s i)" by (simp add: fits_def)
  moreover have "other_fiber k x g"
    using line_owned(1) [OF assms] g unfolding owned_def tidy_def other_fiber_def by (auto simp: not_less [symmetric])
  ultimately show ?thesis using line_level [OF assms level_recovery(2) [OF line_owned(2) [OF assms]]] g by simp
next
  case False
  then show ?thesis using assms by (auto split: option.split query_fiber.split)
qed

lemma line_awaited:
  assumes "line_inv k x" shows "line_inv k (query_input_step cfg (Recovery_Awaited f) x)"
proof (cases "\<exists>r s1 s2 v s i g. qx_fibers x f = Some (Q_Awaiting_Recovery r s1 s2 v s i g) \<and> qx_fibers x g = None")
  case True
  then obtain r s1 s2 v s i g where f: "qx_fibers x f = Some (Q_Awaiting_Recovery r s1 s2 v s i g)" and n: "qx_fibers x g = None"
    by blast
  have o: "owned x" "fits x (Q_Awaiting_Recovery r s1 s2 v s i g)"
    using owned_fits [OF line_owned(1) [OF assms] f] line_owned(1) [OF assms] by simp_all
  have e: "query_input_step cfg (Recovery_Awaited f) x = recovery_awaited cfg r s1 s2 v s i f x" using f n by simp
  show ?thesis
  proof (cases "qo_key (qr_op r) = k")
    case True
    then have rf: "result_fiber k (Q_Awaiting_Recovery r s1 s2 v s i g)" by simp
    then have "f = hd (turn_queue x k)" using line_fiber [OF assms f rf] by auto
    then obtain s' where "heads k x r s' f" "s1 = s'" "s2 = s'" "s = s'" using fiber_heads [OF assms f rf, of r] by auto
    then show ?thesis unfolding e using line_results(1) [OF assms] by simp
  next
    case False
    then have g: "foreign k x r s1 f" using other_foreign [OF assms f] by simp
    have "fits x (Q_Writing r s1 s2 None True)" using o(2) by (simp add: fits_def)
    then show ?thesis unfolding e using line_level [OF assms foreign_results(1) [OF g o(1)]] by blast
  qed
next
  case False
  then show ?thesis using assms by (auto split: option.split query_fiber.split)
qed

lemma line_step:
  assumes "line_inv k x" "steady k ev x" shows "line_inv k (query_input_step cfg ev x)"
proof (cases ev)
  case (Query_In op)
  then show ?thesis using line_level [OF assms(1) query_arrival [OF line_owned(1) [OF assms(1)]]] by blast
next
  case (Teardown_In k')
  then have "k' \<noteq> k" using assms(2) by (simp add: steady_def)
  then show ?thesis using Teardown_In line_level [OF assms(1) query_teardown [OF line_owned(1) [OF assms(1)]]] by blast
next
  case (Query_Result r)
  then show ?thesis using assms line_arrival line_level [OF assms(1) other_arrival [OF assms(1)]]
    by (cases "of_key k r") (auto simp: steady_def simp del: query_input_step.simps)
next
  case (Ops_Affected ks)
  then show ?thesis using line_level [OF assms(1) level_push [OF line_owned(2) [OF assms(1)]]] by simp
qed (use assms(1) line_resumes line_turns line_reacts line_awaited in \<open>simp_all del: query_input_step.simps(6-8)\<close>)

lemma line_init: "line_inv k initial_reads"
  by (simp add: line_inv_def initial_reads_def owned_def tidy_def received_def delivered_def turn_queue_def)

interpretation lines: guarded_machine initial_reads "query_step cfg" "steady k" "line_inv k" for cfg k
  by unfold_locales (simp_all add: line_init query_step_def line_step)

end
