(* ===== verification/Exchange_Payloads.thy ===== *)
theory Exchange_Payloads
  imports Exchange_Lines
begin

text \<open>
  The payloads retained while the engine is replaced: a payload belongs to one state, and operations on
  other keys leave the payload, the counter and the recoveries of a key alone.
\<close>

section \<open>Payloads belong to one state\<close>

definition fiber_link :: "query_fiber \<Rightarrow> nat \<Rightarrow> nat \<Rightarrow> bool" where
  "fiber_link st s i \<longleftrightarrow>
     (case st of
        Q_Recovering k s' i' \<Rightarrow> s' = s \<and> i' = i
      | Q_Recovered k s' i' \<Rightarrow> s' = s \<and> i' = i
      | Q_Awaiting_Recovery r s1 s2 v s' i' g \<Rightarrow> s' = s \<and> i' = i
      | _ \<Rightarrow> False)"

definition link :: "reads \<Rightarrow> nat \<Rightarrow> nat \<Rightarrow> bool" where
  "link x s i \<longleftrightarrow> qs_retained (qx_states x s) = Some i \<or> (\<exists>f st. qx_fibers x f = Some st \<and> fiber_link st s i)"

definition ids :: "reads \<Rightarrow> bool" where
  "ids x \<longleftrightarrow> (\<forall>s i. link x s i \<longrightarrow> i < qx_next x) \<and> (\<forall>s s' i. link x s i \<and> link x s' i \<longrightarrow> s = s')"

lemma ids_sub: "ids x \<Longrightarrow> (\<And>s i. link y s i \<Longrightarrow> link x s i) \<Longrightarrow> qx_next x \<le> qx_next y \<Longrightarrow> ids y"
  unfolding ids_def by (meson order_less_le_trans)

lemma link_frames [simp]:
  "link (qout out x) = link x" "link (q_error err x) = link x" "link (upd_retained i h x) = link x"
  "link (x\<lparr>qx_retained := rs\<rparr>) = link x" "link (x\<lparr>qx_current := cs\<rparr>) = link x" "link (x\<lparr>qx_active := as\<rparr>) = link x"
  "link (snd (q_fresh x)) = link x"
  by (simp_all add: fun_eq_iff link_def q_error_def upd_retained_def q_fresh_def)

lemma ids_frames:
  assumes "ids x"
  shows "ids (qout out x)" "ids (q_error err x)" "ids (upd_retained i h x)" "ids (x\<lparr>qx_retained := rs\<rparr>)" "ids (x\<lparr>qx_current := cs\<rparr>)"
    "ids (x\<lparr>qx_active := as\<rparr>)" "ids (snd (q_fresh x))"
  by (rule ids_sub [OF assms], simp, simp add: q_error_def upd_retained_def fresh_fields)+

lemma ids_state:
  assumes "ids x" "\<And>q. qs_retained (g q) = qs_retained q \<or> qs_retained (g q) = None" shows "ids (upd_state s g x)"
proof (rule ids_sub [OF assms(1)])
  show "link x s' i" if "link (upd_state s g x) s' i" for s' i
    using that assms(2) [of "qx_states x s"] by (auto simp: link_def upd_state_def split: if_splits)
qed (simp add: upd_state_def)

lemma ids_query_state: "ids x \<Longrightarrow> ids (snd (queryState k x))"
  by (rule ids_sub, assumption) (auto simp: link_def queryState_def q_fresh_def initial_query_state_def split: option.splits if_splits)

lemma ids_put: "ids x \<Longrightarrow> (\<forall>s i. fiber_link st s i \<longrightarrow> link x s i) \<Longrightarrow> ids (q_put f st x)"
  by (rule ids_sub) (auto simp: link_def split: if_splits)

lemma ids_end: "ids x \<Longrightarrow> ids (q_end f x)"
  by (rule ids_sub) (auto simp: link_def split: if_splits)

lemma ids_ask: "ids x \<Longrightarrow> (\<forall>s i. fiber_link st s i \<longrightarrow> link x s i) \<Longrightarrow> ids (q_ask f call st x)"
  unfolding q_ask_def by (rule ids_put) (simp_all add: ids_frames)

lemmas ids_basic = ids_frames ids_state ids_query_state ids_put ids_end ids_ask fiber_link_def

lemma link_installed: "qs_retained (qx_states x s) = Some i \<Longrightarrow> link x s i"
  by (simp add: link_def)

lemma link_fiber: "qx_fibers x f = Some st \<Longrightarrow> fiber_link st s i \<Longrightarrow> link x s i"
  by (auto simp: link_def)

section \<open>Every operation keeps the owners of payloads\<close>

lemma ids_reexecute: "ids x \<Longrightarrow> ids (reexecuteAffected k b x)"
  by (simp add: reexecuteAffected_def ids_basic split: option.split)

lemma ids_attempt: "ids x \<Longrightarrow> link x s i \<Longrightarrow> ids (recovery_attempt g k s i x)"
  unfolding recovery_attempt_def by (rule ids_ask) (simp_all add: ids_basic)

lemma ids_recover: "ids x \<Longrightarrow> ids (recoverRetainedReplacementFallback k x)"
  by (simp add: recoverRetainedReplacementFallback_def Let_def case_prod_beta ids_basic ids_attempt link_installed split: option.split)

lemma ids_affected: "ids x \<Longrightarrow> ids (op_affected cfg k x)"
  by (simp add: op_affected_def emitAffectedWhileNetworkBound_def Let_def case_prod_beta ids_basic ids_reexecute ids_recover
      split: option.split)

lemma ids_push: "ids x \<Longrightarrow> ids (onOpsAffected cfg ks x)"
proof -
  have "ids x \<Longrightarrow> ids (fold (op_affected cfg) ks x)" for x by (induction ks arbitrary: x) (simp_all add: ids_affected)
  then show "ids x \<Longrightarrow> ?thesis" by (simp add: onOpsAffected_def)
qed

lemma ids_finish: "ids x \<Longrightarrow> ids (finishNetworkQuery k b x)"
  by (simp add: finishNetworkQuery_def Let_def case_prod_beta ids_basic ids_reexecute ids_recover)

lemma ids_forward: "ids x \<Longrightarrow> ids (enqueueQueryForward p op x)"
  by (simp add: enqueueQueryForward_def case_prod_beta ids_basic)

lemma ids_recovery:
  assumes "ids x" "qx_fibers x g = Some st" "fiber_link st s i"
  shows "ids (recovery_settled k s i res g x)" "ids (recovery_reaction k s i g x)"
proof -
  have "link x s i" "link (upd_state s' h x) s i" for s' h using link_fiber [of _ g st s i] assms(2,3) by simp_all
  then show "ids (recovery_settled k s i res g x)" "ids (recovery_reaction k s i g x)"
    using assms(1)
    by (simp_all add: recovery_settled_def recovery_reaction_def Let_def ids_basic ids_attempt ids_recover split: sum.split)
qed

lemma ids_reads: "ids x \<Longrightarrow> ids (read_settled op res f x)" "ids x \<Longrightarrow> ids (reread_settled op res f x)" "ids x \<Longrightarrow> ids (readThenRoute cfg op f x)"
  by (simp_all add: read_settled_def read_missed_def answer_read_def reread_settled_def readThenRoute_def Let_def case_prod_beta
      ids_basic ids_forward split: sum.split option.split)

lemma ids_done: "ids x \<Longrightarrow> ids (result_done r out s1 s2 f x)"
  by (simp add: result_done_def release_turn_def Let_def ids_basic ids_finish)

lemma ids_install:
  assumes "ids x"
  shows "ids (upd_state s2 (\<lambda>q. q\<lparr>qs_retained := Some (qx_next x)\<rparr>) (x\<lparr>qx_next := Suc (qx_next x), qx_retained := rs\<rparr>))"
proof -
  let ?i = "qx_next x"
  let ?z = "upd_state s2 (\<lambda>q. q\<lparr>qs_retained := Some ?i\<rparr>) (x\<lparr>qx_next := Suc ?i, qx_retained := rs\<rparr>)"
  have "link ?z s i \<Longrightarrow> link x s i \<or> (s = s2 \<and> i = ?i)" for s i
    by (auto simp: link_def upd_state_def split: if_splits)
  moreover have "qx_next ?z = Suc ?i" by simp
  ultimately show ?thesis using assms unfolding ids_def by (metis less_SucI less_irrefl lessI)
qed

lemma ids_ready: "ids x \<Longrightarrow> ids (result_ready cfg r s1 s2 v f x)"
  using ids_install [of x s2]
  by (simp add: result_ready_def Let_def q_fresh_def ids_done ids_basic)

lemma ids_invalidate: "ids x \<Longrightarrow> ids (invalidateOlderRetainedFallback cfg r s1 s2 v f x)"
  by (simp add: invalidateOlderRetainedFallback_def Let_def ids_ready ids_basic link_installed split: option.split)

lemma ids_results:
  assumes "ids x"
  shows "ids (recovery_awaited cfg r s1 s2 v s i f x)" "ids (turn_granted cfg r s1 f x)" "ids (result_written r s1 s2 ro b res f x)"
    "ids (hydrated r res f x)" "ids (query_result_arrives cfg r f x)"
  using assms
  by (simp_all add: recovery_awaited_def turn_granted_def result_written_def hydrated_def query_result_arrives_def
      acquireQueryResultTurn_def Let_def case_prod_beta ids_invalidate ids_done ids_basic split: sum.split)

lemma ids_step: "ids x \<Longrightarrow> ids (query_input_step cfg ev x)"
proof (cases ev)
  case (Query_Settled f res)
  then show "ids x \<Longrightarrow> ?thesis"
    using link_fiber [of x f] by (auto simp: resume_query_def ids_reads ids_results ids_recovery fiber_link_def split: option.split query_fiber.split)
next
  case (Recovery_Reacts g)
  then show "ids x \<Longrightarrow> ?thesis"
    using link_fiber [of x g] by (auto simp: ids_recovery fiber_link_def split: option.split query_fiber.split)
qed (auto simp: Let_def case_prod_beta ids_reads ids_results ids_push ids_basic split: option.split query_fiber.split list.split)

section \<open>Operations on other keys\<close>

definition bound_of :: "reads \<Rightarrow> nat \<Rightarrow> nat" where
  "bound_of x k = (case qx_current x k of None \<Rightarrow> 0 | Some s \<Rightarrow> qs_bound (qx_states x s))"

definition payload_of :: "reads \<Rightarrow> nat \<Rightarrow> nat option" where
  "payload_of x k = (case qx_current x k of None \<Rightarrow> None | Some s \<Rightarrow> qs_retained (qx_states x s))"

definition version_of :: "reads \<Rightarrow> nat \<Rightarrow> nat" where
  "version_of x k = (case qx_current x k of None \<Rightarrow> 0 | Some s \<Rightarrow> qs_version (qx_states x s))"

lemmas state_views = bound_of_def payload_of_def version_of_def

text \<open>A fiber without a state of the key.\<close>

definition alien :: "nat \<Rightarrow> query_fiber \<Rightarrow> bool" where
  "alien k st \<longleftrightarrow> fiber_states st = [] \<or> fiber_key st \<noteq> k"

definition alien_at :: "nat \<Rightarrow> reads \<Rightarrow> nat \<Rightarrow> bool" where
  "alien_at k x f \<longleftrightarrow> f < qx_next x \<and> (\<forall>st. qx_fibers x f = Some st \<longrightarrow> alien k st)"

definition mild :: "nat \<Rightarrow> reads \<Rightarrow> reads \<Rightarrow> bool" where
  "mild k x y \<longleftrightarrow> level k x y \<and> bound_of y k = bound_of x k \<and> payload_of y k = payload_of x k \<and> version_of y k = version_of x k \<and>
     (\<forall>i. payload_of x k = Some i \<longrightarrow> rf_version (qx_retained y i) = rf_version (qx_retained x i) \<and>
        rf_promise (qx_retained y i) = rf_promise (qx_retained x i) \<and>
        rf_recovering (qx_retained y i) = rf_recovering (qx_retained x i)) \<and>
     (\<forall>f st. \<not> alien k st \<longrightarrow> (qx_fibers y f = Some st \<longleftrightarrow> qx_fibers x f = Some st))"

lemma mild_level: "mild k x y \<Longrightarrow> level k x y"
  by (simp add: mild_def)

lemma mild_refl: "owned x \<Longrightarrow> mild k x x"
  by (simp add: mild_def level_refl)

lemma mild_trans: "mild k x y \<Longrightarrow> mild k y z \<Longrightarrow> mild k x z"
  unfolding mild_def using level_trans by metis

lemma mild_owned: "mild k x y \<Longrightarrow> owned y" "mild k x y \<Longrightarrow> tidy y"
  using level_owned mild_level by blast+

lemma mild_frame:
  assumes "mild k x y" "level k x z" "bound_of z k = bound_of y k" "payload_of z k = payload_of y k" "version_of z k = version_of y k"
    and "qx_retained z = qx_retained y" "qx_fibers z = qx_fibers y"
  shows "mild k x z"
  using assms by (simp add: mild_def)

lemma alien_other: "alien_at k x f \<Longrightarrow> other_fiber k x f"
  by (cases "qx_fibers x f"; cases "the (qx_fibers x f)")
    (auto simp: alien_at_def other_fiber_def alien_def result_fiber_def)

lemma view_frames [simp]:
  "bound_of (qout out y) k = bound_of y k" "payload_of (qout out y) k = payload_of y k" "version_of (qout out y) k = version_of y k"
  "bound_of (snd (q_fresh y)) k = bound_of y k" "payload_of (snd (q_fresh y)) k = payload_of y k" "version_of (snd (q_fresh y)) k = version_of y k"
  "bound_of (upd_retained i h y) k = bound_of y k" "payload_of (upd_retained i h y) k = payload_of y k"
  "version_of (upd_retained i h y) k = version_of y k"
  "bound_of (q_put f st y) k = bound_of y k" "payload_of (q_put f st y) k = payload_of y k" "version_of (q_put f st y) k = version_of y k"
  "bound_of (q_end f y) k = bound_of y k" "payload_of (q_end f y) k = payload_of y k" "version_of (q_end f y) k = version_of y k"
  "bound_of (y\<lparr>qx_retained := rs\<rparr>) k = bound_of y k" "payload_of (y\<lparr>qx_retained := rs\<rparr>) k = payload_of y k"
  "version_of (y\<lparr>qx_retained := rs\<rparr>) k = version_of y k"
  by (simp_all add: state_views fresh_fields upd_retained_def split: option.split)

lemma mild_out: "mild k x y \<Longrightarrow> passing k out \<Longrightarrow> mild k x (qout out y)"
  by (rule mild_frame) (simp_all add: level_out mild_level)

lemma mild_error: "mild k x y \<Longrightarrow> mild k x (q_error err y)"
  unfolding q_error_def by (erule mild_out) (simp add: passing_def)

lemma mild_fresh: "mild k x y \<Longrightarrow> mild k x (snd (q_fresh y))"
  by (rule mild_frame) (simp_all add: level_fresh mild_level fresh_fields, simp add: q_fresh_def)

lemma mild_query_state:
  assumes "mild k x y" shows "mild k x (snd (queryState k' y))"
proof (cases "qx_current y k'")
  case None
  have lt: "qx_current y k = Some s \<Longrightarrow> s < qx_next y" for s using mild_owned(1) [OF assms] by (simp add: owned_def)
  show ?thesis
  proof (rule mild_frame [OF assms level_query_state [OF mild_level [OF assms]]])
    show "bound_of (snd (queryState k' y)) k = bound_of y k" "payload_of (snd (queryState k' y)) k = payload_of y k"
        "version_of (snd (queryState k' y)) k = version_of y k"
      using None lt by (auto simp: state_views queryState_def q_fresh_def initial_query_state_def split: option.split)
  qed (use None in \<open>simp_all add: queryState_def q_fresh_def\<close>)
qed (use assms in \<open>simp add: queryState_def\<close>)

definition same_books :: "(query_state \<Rightarrow> query_state) \<Rightarrow> bool" where
  "same_books g \<longleftrightarrow> (\<forall>q. qs_turns (g q) = qs_turns q \<and> qs_bound (g q) = qs_bound q \<and> qs_retained (g q) = qs_retained q \<and>
     qs_version (g q) = qs_version q)"

lemma mild_state:
  assumes "mild k x y" "same_books g \<or> qx_current y k \<noteq> Some s" shows "mild k x (upd_state s g y)"
proof (rule mild_frame [OF assms(1)])
  show "level k x (upd_state s g y)" by (rule level_state [OF mild_level [OF assms(1)]]) (use assms(2) in \<open>auto simp: same_books_def\<close>)
  show "bound_of (upd_state s g y) k = bound_of y k" "payload_of (upd_state s g y) k = payload_of y k"
      "version_of (upd_state s g y) k = version_of y k"
    using assms(2) by (auto simp: state_views upd_state_def same_books_def split: option.split)
qed (simp_all add: upd_state_def)

lemma mild_retained:
  assumes "mild k x y" "payload_of y k \<noteq> Some i \<or> (\<forall>rf. rf_version (h rf) = rf_version rf \<and> rf_promise (h rf) = rf_promise rf \<and>
      rf_recovering (h rf) = rf_recovering rf)"
  shows "mild k x (upd_retained i h y)"
proof -
  have "level k x (upd_retained i h y)" by (rule level_retained(1) [OF mild_level [OF assms(1)]])
  moreover have "qx_retained (upd_retained i h y) j = (if j = i then h (qx_retained y i) else qx_retained y j)"
      "qx_fibers (upd_retained i h y) = qx_fibers y" for j
    by (simp_all add: upd_retained_def)
  ultimately show ?thesis using assms by (auto simp: mild_def)
qed

lemma mild_put:
  assumes "mild k x y" "alien_at k y f" "alien k st" "fits y st" shows "mild k x (q_put f st y)"
proof -
  have "\<not> result_fiber k st" using assms(3) by (cases st) (auto simp: alien_def result_fiber_def)
  then have "level k x (q_put f st y)" using level_put [OF mild_level [OF assms(1)] alien_other [OF assms(2)]] assms(4) by blast
  moreover have "\<not> alien k st' \<Longrightarrow> qx_fibers (q_put f st y) f' = Some st' \<longleftrightarrow> qx_fibers y f' = Some st'" for f' st'
    using assms(2,3) by (auto simp: alien_at_def)
  ultimately show ?thesis using assms(1) by (simp add: mild_def)
qed

lemma mild_end:
  assumes "mild k x y" "alien_at k y f" shows "mild k x (q_end f y)"
proof -
  have "level k x (q_end f y)" using level_end [OF mild_level [OF assms(1)] alien_other [OF assms(2)]] .
  moreover have "\<not> alien k st' \<Longrightarrow> qx_fibers (q_end f y) f' = Some st' \<longleftrightarrow> qx_fibers y f' = Some st'" for f' st'
    using assms(2) by (auto simp: alien_at_def)
  ultimately show ?thesis using assms(1) by (simp add: mild_def)
qed

lemma mild_ask: "mild k x y \<Longrightarrow> alien_at k y f \<Longrightarrow> alien k st \<Longrightarrow> fits y st \<Longrightarrow> mild k x (q_ask f call st y)"
  unfolding q_ask_def by (rule mild_put) (simp_all add: mild_out passing_def alien_at_def)

lemma same_books [simp]:
  "same_books (\<lambda>q. q\<lparr>qs_fallback := a q\<rparr>)" "same_books (\<lambda>q. q\<lparr>qs_deferred := b q\<rparr>)" "same_books (\<lambda>q. q\<lparr>qs_completed := c q\<rparr>)"
  "same_books (\<lambda>q. q\<lparr>qs_satisfied := d q\<rparr>)" "same_books (\<lambda>q. q\<lparr>qs_completed := c q, qs_fallback := a q\<rparr>)"
  by (simp_all add: same_books_def)

lemma alien_frames [simp]:
  "alien_at k (qout out y) f = alien_at k y f" "alien_at k (upd_state s g y) f = alien_at k y f"
  "alien_at k (upd_retained i h y) f = alien_at k y f" "alien_at k (q_error err y) f = alien_at k y f"
  "alien_at k (y\<lparr>qx_retained := rs\<rparr>) f = alien_at k y f"
  by (simp_all add: alien_at_def upd_retained_def q_error_def)

lemma alien_plain [simp]:
  "alien k (Q_Reading op)" "alien k (Q_Rereading op)" "alien k (Q_Hydrating r)" "alien k (Q_Recovering k' s i) \<longleftrightarrow> k' \<noteq> k"
  "alien k (Q_Recovered k' s i) \<longleftrightarrow> k' \<noteq> k" "alien k (Q_Waiting_Turn r s1) \<longleftrightarrow> qo_key (qr_op r) \<noteq> k"
  "alien k (Q_Writing r s1 s2 ro b) \<longleftrightarrow> qo_key (qr_op r) \<noteq> k"
  "alien k (Q_Awaiting_Recovery r s1 s2 v s i g) \<longleftrightarrow> qo_key (qr_op r) \<noteq> k"
  by (simp_all add: alien_def)

lemma fresh_alien: "tidy y \<Longrightarrow> alien_at k (snd (q_fresh y)) (fst (q_fresh y))"
  by (simp add: alien_at_def fresh_fields tidy_def)

lemma alien_mild:
  assumes "alien_at k x f" "mild k x y" shows "alien_at k y f"
proof -
  have "f < qx_next y" using assms by (auto simp: alien_at_def mild_def level_def)
  moreover have "alien k st" if "qx_fibers y f = Some st" for st
  proof (rule ccontr)
    assume "\<not> alien k st"
    then have "qx_fibers x f = Some st" using that assms(2) by (simp add: mild_def)
    then show False using assms(1) \<open>\<not> alien k st\<close> by (simp add: alien_at_def)
  qed
  ultimately show ?thesis by (simp add: alien_at_def)
qed

lemmas mild_basic = mild_out mild_error mild_fresh mild_query_state mild_state mild_retained mild_put mild_end mild_ask passing_def fits_plain

lemma current_apart: "owned y \<Longrightarrow> qx_current y k' = Some s \<Longrightarrow> k' \<noteq> k \<Longrightarrow> qx_current y k \<noteq> Some s"
  by (auto simp: owned_def)

lemma payload_apart: "ids y \<Longrightarrow> link y s i \<Longrightarrow> qx_current y k \<noteq> Some s \<Longrightarrow> payload_of y k \<noteq> Some i"
  unfolding ids_def payload_of_def using link_installed by (metis option.case_eq_if option.collapse option.distinct(1))

lemma mild_reexecute: "mild k x y \<Longrightarrow> mild k x (reexecuteAffected k' b y)"
  by (simp add: reexecuteAffected_def mild_basic split: option.split)

lemma mild_attempt:
  assumes "mild k x y" "alien_at k y g" "k' \<noteq> k" "fits y (Q_Recovering k' s i)"
  shows "mild k x (recovery_attempt g k' s i y)"
  using assms by (simp add: recovery_attempt_def mild_basic)

lemma mild_recover:
  assumes "mild k x y" "k' \<noteq> k" "ids y" shows "mild k x (recoverRetainedReplacementFallback k' y)"
proof (cases "\<exists>s i. qx_current y k' = Some s \<and> qs_retained (qx_states y s) = Some i")
  case True
  then obtain s i where s: "qx_current y k' = Some s" and i: "qs_retained (qx_states y s) = Some i" by blast
  note o = mild_owned [OF assms(1)]
  have p: "payload_of y k \<noteq> Some i" using payload_apart [OF assms(3) link_installed [OF i] current_apart [OF o(1) s assms(2)]] .
  define y1 where "y1 = upd_retained i (\<lambda>rf. rf\<lparr>rf_ready := True\<rparr>) y"
  define y2 where "y2 = upd_retained i (\<lambda>rf. rf\<lparr>rf_recovering := True, rf_promise := Some (fst (q_fresh y1))\<rparr>) (snd (q_fresh y1))"
  have y1: "mild k x y1" using assms(1) p by (simp add: y1_def mild_basic)
  then have y2: "mild k x y2" using p by (simp add: y1_def y2_def mild_basic)
  have "alien_at k (snd (q_fresh y1)) (fst (q_fresh y1))" by (rule fresh_alien [OF mild_owned(2) [OF y1]])
  then have "alien_at k y2 (fst (q_fresh y1))" by (simp add: y2_def)
  moreover have "fits y (Q_Recovering k' s i)" by (rule fits_recovery [OF o(1) s])
  then have "fits y2 (Q_Recovering k' s i)" by (auto simp: y1_def y2_def fits_def q_fresh_def upd_retained_def)
  ultimately have "mild k x (recovery_attempt (fst (q_fresh y1)) k' s i y2)" using mild_attempt [OF y2 _ assms(2)] by blast
  then show ?thesis using assms(1) s i y1
    by (simp add: recoverRetainedReplacementFallback_def Let_def case_prod_beta y1_def y2_def)
qed (use assms(1) in \<open>auto simp: recoverRetainedReplacementFallback_def split: option.split\<close>)

lemma mild_emit: "mild k x y \<Longrightarrow> mild k x (emitAffectedWhileNetworkBound cfg k' y)"
  using fresh_alien [OF mild_owned(2) [of k x y], of k]
  by (simp add: emitAffectedWhileNetworkBound_def case_prod_beta mild_basic split: option.split)

lemma state_apart:
  assumes "mild k x y" "k' \<noteq> k" shows "qx_current (snd (queryState k' y)) k \<noteq> Some (fst (queryState k' y))"
  using current_apart [OF mild_owned(1) [OF mild_query_state [OF assms(1)]] queryState_current assms(2)] .

lemma mild_affected: "mild k x y \<Longrightarrow> k' \<noteq> k \<Longrightarrow> ids y \<Longrightarrow> mild k x (op_affected cfg k' y)"
  by (simp add: op_affected_def Let_def case_prod_beta mild_basic mild_reexecute mild_recover mild_emit ids_basic)

lemma upd_current [simp]: "qx_current (upd_state s g y) = qx_current y" "qx_current (upd_retained i h y) = qx_current y"
  by (simp_all add: upd_state_def upd_retained_def)

lemma mild_finish: "mild k x y \<Longrightarrow> k' \<noteq> k \<Longrightarrow> ids y \<Longrightarrow> mild k x (finishNetworkQuery k' b y)"
  using state_apart [of k x y k']
  by (simp add: finishNetworkQuery_def Let_def case_prod_beta mild_basic mild_reexecute mild_recover ids_basic)

lemma mild_forward: "mild k x y \<Longrightarrow> qo_key op \<noteq> k \<Longrightarrow> mild k x (enqueueQueryForward p op y)"
  using state_apart [of k x y "qo_key op"] by (simp add: enqueueQueryForward_def case_prod_beta mild_basic)

lemma mild_recovery:
  assumes "mild k x y" "alien_at k y g" "k' \<noteq> k" "ids y" "qx_fibers y g = Some st" "st = Q_Recovering k' s i \<or> st = Q_Recovered k' s i"
  shows "mild k x (recovery_settled k' s i res g y)" "mild k x (recovery_reaction k' s i g y)"
proof -
  note o = mild_owned(1) [OF assms(1)]
  have "fits y st" by (rule owned_fits [OF o assms(5)])
  then have f: "fits y (Q_Recovered k' s i)" "fits y (Q_Recovering k' s i)" using assms(6) by (auto simp: fits_def)
  then have c: "qx_current y k \<noteq> Some s" using assms(3) by (auto simp: fits_def)
  have "link y s i" using link_fiber [OF assms(5), of s i] assms(6) by (auto simp: fiber_link_def)
  then have p: "payload_of y k \<noteq> Some i" using payload_apart [OF assms(4) _ c] by blast
  show "mild k x (recovery_settled k' s i res g y)"
    using assms(1-3) f c by (simp add: recovery_settled_def Let_def mild_basic mild_attempt split: sum.split)
  define y1 where "y1 = upd_retained i (\<lambda>rf. if rf_promise rf = Some g then rf\<lparr>rf_promise := None\<rparr> else rf) (q_end g y)"
  have y1: "mild k x y1" "payload_of y1 k \<noteq> Some i" "qx_current y1 k \<noteq> Some s" "ids y1"
    using assms(1,2,4) p c by (simp_all add: y1_def mild_basic ids_basic)
  then show "mild k x (recovery_reaction k' s i g y)"
    using assms(3) by (simp add: recovery_reaction_def Let_def y1_def [symmetric] mild_basic mild_recover ids_basic)
qed

lemma mild_reads:
  assumes "mild k x y" "alien_at k y f"
  shows "qo_key op \<noteq> k \<Longrightarrow> mild k x (read_settled op res f y)" "mild k x (reread_settled op res f y)"
    "qo_key op \<noteq> k \<Longrightarrow> mild k x (readThenRoute cfg op f y)"
proof -
  have a: "alien_at k z f" if "mild k y z" for z by (rule alien_mild [OF assms(2) that])
  have m: "mild k x (read_missed op f z)" if "mild k x z" "alien_at k z f" "qo_key op \<noteq> k" for z
    using that alien_mild [OF that(2) mild_forward [OF mild_refl [OF mild_owned(1) [OF that(1)]] that(3)]]
    by (simp add: read_missed_def answer_read_def mild_basic mild_forward)
  note l = mild_refl [OF mild_owned(1) [OF assms(1)], of k]
  have "alien_at k (snd (queryState k' y)) f" "alien_at k (snd (queryState k' (q_error err y))) f" for k' err
    using a l by (simp_all add: mild_basic)
  moreover have "alien_at k (enqueueQueryForward f op y) f" if "qo_key op \<noteq> k" using a mild_forward [OF l that] by blast
  ultimately show "qo_key op \<noteq> k \<Longrightarrow> mild k x (read_settled op res f y)" "mild k x (reread_settled op res f y)"
    "qo_key op \<noteq> k \<Longrightarrow> mild k x (readThenRoute cfg op f y)"
    using assms by (simp_all add: read_settled_def reread_settled_def readThenRoute_def answer_read_def Let_def case_prod_beta m mild_basic
        mild_forward split: sum.split option.split)
qed

end
