(* ===== verification/Exchange_Recovery.thy ===== *)
theory Exchange_Recovery
  imports Exchange_Payloads
begin

text \<open>
  The recovery of a retained payload never runs beside the write of a network result of its key: a newer
  result waits for the recovery, and no recovery starts while a result is owed.
\<close>

section \<open>Results of other keys\<close>

definition strange :: "nat \<Rightarrow> reads \<Rightarrow> query_result \<Rightarrow> nat \<Rightarrow> nat \<Rightarrow> bool" where
  "strange k x r s1 f \<longleftrightarrow> alien_at k x f \<and> fits x (Q_Waiting_Turn r s1) \<and> qo_key (qr_op r) \<noteq> k"

lemma strange_mild: "strange k x r s1 f \<Longrightarrow> mild k x y \<Longrightarrow> strange k y r s1 f"
  using alien_mild level_fits mild_level unfolding strange_def by blast

lemma mild_forget:
  assumes "mild k x y" "k' \<noteq> k" shows "mild k x (y\<lparr>qx_current := (qx_current y)(k' := None)\<rparr>)"
  by (rule mild_frame [OF assms(1) level_forget [OF mild_level [OF assms(1)] assms(2)]])
    (use assms(2) in \<open>simp_all add: state_views split: option.split\<close>)

lemma mild_done:
  assumes "mild k x y" "strange k y r s1 f" "qr_op out = qr_op r" "qx_current y k \<noteq> Some s2" "ids y"
  shows "mild k x (result_done r out s1 s2 f y)"
proof -
  let ?k = "qo_key (qr_op r)"
  have k: "?k \<noteq> k" using assms(2) by (simp add: strange_def)
  define y1 where "y1 = (if qr_next r then y else finishNetworkQuery ?k (qs_satisfied (qx_states y s2))
    (upd_state s2 (\<lambda>q. q\<lparr>qs_satisfied := False\<rparr>) y))"
  define y2 where "y2 = (if has_active y1 ?k then y1 else y1\<lparr>qx_current := (qx_current y1)(?k := None)\<rparr>)"
  note l = mild_refl [OF mild_owned(1) [OF assms(1)], of k]
  have "mild k y y1" using l assms(5) k by (simp add: y1_def mild_basic mild_finish ids_basic)
  then have y2: "mild k y y2" using k by (simp add: y2_def mild_forget)
  note st = strange_mild [OF assms(2) y2]
  then have "qx_current y2 k \<noteq> Some s1" by (auto simp: strange_def fits_def)
  then have z: "mild k y (qout (Result_Delivered f out) (release_turn s1 f y2))"
    using y2 k assms(3) by (simp add: release_turn_def mild_basic of_key_def)
  have "result_done r out s1 s2 f y = q_end f (qout (Result_Delivered f out) (release_turn s1 f y2))"
    by (simp add: result_done_def Let_def y1_def y2_def)
  moreover have "alien_at k (qout (Result_Delivered f out) (release_turn s1 f y2)) f"
    using strange_mild [OF assms(2) z] by (simp add: strange_def)
  ultimately show ?thesis using mild_trans [OF assms(1) mild_end [OF z]] by simp
qed

lemma mild_ready:
  assumes "mild k x y" "strange k y r s1 f" "fits y (Q_Writing r s1 s2 None True)" "ids y"
  shows "mild k x (result_ready cfg r s1 s2 v f y)"
proof -
  have k: "qo_key (qr_op r) \<noteq> k" "alien_at k y f" using assms(2) by (auto simp: strange_def)
  have c: "qx_current y k \<noteq> Some s2" using assms(3) k(1) by (auto simp: fits_def)
  have fits: "fits y (Q_Writing r s1 s2 ro b)" for ro b using assms(3) by (simp add: fits_def)
  have i: "payload_of y k \<noteq> Some (qx_next y)"
    using assms(4) link_installed [of y] unfolding ids_def payload_of_def by (metis less_irrefl option.case_eq_if option.collapse option.distinct(1))
  define z where "z rf = (snd (q_fresh y))\<lparr>qx_retained := (qx_retained (snd (q_fresh y)))(qx_next y := rf)\<rparr>" for rf
  have z: "mild k x (z rf)" for rf
  proof -
    have "level k x (z rf)" unfolding z_def by (intro level_retained(2) level_fresh mild_level [OF assms(1)])
    then show ?thesis using assms(1) i by (auto simp: mild_def z_def fresh_fields) (simp_all add: q_fresh_def)
  qed
  have w: "mild k x (q_ask f call (Q_Writing r s1 s2 ro b) (upd_state s2 g (z rf)))" for call ro b g rf
  proof (rule mild_ask)
    show "mild k x (upd_state s2 g (z rf))" using z c by (simp add: mild_basic z_def fresh_fields)
    show "alien_at k (upd_state s2 g (z rf)) f" using k(2) by (simp add: z_def alien_at_def fresh_fields)
    show "fits (upd_state s2 g (z rf)) (Q_Writing r s1 s2 ro b)" using fits by (auto simp: z_def fits_def fresh_fields)
  qed (use k(1) in simp)
  show ?thesis using assms(1,4) k c fits mild_done [OF assms(1,2) _ c assms(4), of "live_result r"] w
    by (simp add: result_ready_def Let_def case_prod_beta mild_basic z_def [symmetric] fresh_fields)
qed

lemma mild_invalidate:
  assumes "mild k x y" "strange k y r s1 f" "fits y (Q_Writing r s1 s2 None True)" "ids y"
  shows "mild k x (invalidateOlderRetainedFallback cfg r s1 s2 v f y)"
proof (cases "\<exists>s i. qx_current y (qo_key (qr_op r)) = Some s \<and> qs_retained (qx_states y s) = Some i")
  case True
  then obtain s i where s: "qx_current y (qo_key (qr_op r)) = Some s" and i: "qs_retained (qx_states y s) = Some i" by blast
  have k: "qo_key (qr_op r) \<noteq> k" "alien_at k y f" using assms(2) by (auto simp: strange_def)
  note o = mild_owned(1) [OF assms(1)]
  have c: "qx_current y k \<noteq> Some s" using current_apart [OF o s k(1)] .
  have p: "payload_of y k \<noteq> Some i" using payload_apart [OF assms(4) link_installed [OF i] c] .
  define z where "z = upd_retained i (\<lambda>rf. rf\<lparr>rf_invalidated := True, rf_ready := False\<rparr>) y"
  define w where "w = upd_state s (\<lambda>q. q\<lparr>qs_retained := None\<rparr>) z"
  have y: "mild k y z" "mild k y w" using mild_refl [OF o, of k] p c by (simp_all add: z_def w_def mild_basic)
  have "fits y (Q_Awaiting_Recovery r s1 s2 v s i g)" for g using assms(3) s o by (auto simp: fits_def owned_def)
  then have "mild k x (q_put f (Q_Awaiting_Recovery r s1 s2 v s i g) z)" for g
    using mild_trans [OF assms(1) y(1)] k by (simp add: z_def mild_put)
  moreover have "ids w" using assms(4) by (simp add: w_def z_def ids_basic)
  then have "mild k x (result_ready cfg r s1 s2 v f w)"
    using mild_ready [OF mild_trans [OF assms(1) y(2)] strange_mild [OF assms(2) y(2)] level_fits [OF mild_level [OF y(2)] assms(3)]] by blast
  ultimately show ?thesis using s i mild_ready [OF assms]
    by (simp add: invalidateOlderRetainedFallback_def Let_def z_def w_def split: option.split)
qed (use mild_ready [OF assms] in \<open>auto simp: invalidateOlderRetainedFallback_def split: option.split\<close>)

lemma mild_turn:
  assumes "strange k x r s1 f" "owned x" "ids x" shows "mild k x (turn_granted cfg r s1 f x)"
proof -
  note l = mild_refl [OF assms(2), of k]
  let ?k = "qo_key (qr_op r)"
  let ?y = "snd (queryState ?k x)" and ?s = "fst (queryState ?k x)"
  define v where "v = qs_version (qx_states ?y ?s) + 1"
  define z where "z = upd_state ?s (\<lambda>q. q\<lparr>qs_version := v\<rparr>) ?y"
  have k: "?k \<noteq> k" using assms(1) by (simp add: strange_def)
  have z: "mild k x z" using l state_apart [OF l k] by (simp add: z_def mild_basic)
  have "qx_current z ?k = Some ?s" by (simp add: z_def queryState_current)
  then have "fits z (Q_Writing r s1 ?s None True)"
    using fits_with [OF mild_owned(1) [OF z]] strange_mild [OF assms(1) z] by (simp add: strange_def)
  moreover have "ids z" using assms(3) by (simp add: z_def ids_basic)
  moreover have "turn_granted cfg r s1 f x = invalidateOlderRetainedFallback cfg r s1 ?s v f z"
    by (simp add: turn_granted_def Let_def case_prod_beta z_def v_def)
  ultimately show ?thesis using mild_invalidate [OF z strange_mild [OF assms(1) z]] by simp
qed

lemma mild_results:
  assumes "strange k x r s1 f" "owned x" "ids x" "fits x (Q_Writing r s1 s2 None True)"
  shows "qx_current x k \<noteq> Some s \<Longrightarrow> mild k x (recovery_awaited cfg r s1 s2 v s i f x)"
    "mild k x (result_written r s1 s2 ro b res f x)"
proof -
  note l = mild_refl [OF assms(2), of k]
  have c: "qx_current x k \<noteq> Some s2" using assms(1,4) by (auto simp: strange_def fits_def)
  show "mild k x (recovery_awaited cfg r s1 s2 v s i f x)" if "qx_current x k \<noteq> Some s"
  proof -
    define y where "y = (if qs_retained (qx_states x s) = Some i then upd_state s (\<lambda>q. q\<lparr>qs_retained := None\<rparr>) x else x)"
    have y: "mild k x y" "ids y" using l that assms(3) by (simp_all add: y_def mild_basic ids_basic)
    show ?thesis unfolding recovery_awaited_def y_def [symmetric]
      by (rule mild_invalidate [OF y(1) strange_mild [OF assms(1) y(1)] level_fits [OF mild_level [OF y(1)] assms(4)] y(2)])
  qed
  show "mild k x (result_written r s1 s2 ro b res f x)"
  proof (cases res)
    case (Inl err)
    have y: "mild k x (q_error err x)" using l by (simp add: mild_basic)
    have "ids (q_error err x)" "qx_current (q_error err x) k \<noteq> Some s2" using assms(3) c by (simp_all add: ids_basic q_error_def)
    then show ?thesis using mild_done [OF y strange_mild [OF assms(1) y], of "live_result r" s2] Inl by (simp add: result_written_def)
  next
    case (Inr v)
    let ?g = "\<lambda>q. q\<lparr>qs_satisfied := b, qs_retained := (if qs_retained q = ro then None else qs_retained q)\<rparr>"
    have y: "mild k x (upd_state s2 ?g x)" using l c by (simp add: mild_basic)
    have "ids (upd_state s2 ?g x)" using assms(3) by (simp add: ids_basic)
    then show ?thesis using mild_done [OF y strange_mild [OF assms(1) y]] Inr c by (simp add: result_written_def)
  qed
qed

section \<open>The account of a key\<close>

definition final_result :: "nat \<Rightarrow> reads \<Rightarrow> nat \<Rightarrow> bool" where
  "final_result k x f \<longleftrightarrow> (\<exists>st r. qx_fibers x f = Some st \<and> result_fiber k st \<and> fiber_result st = Some r \<and> \<not> qr_next r)"

definition finals :: "nat \<Rightarrow> reads \<Rightarrow> nat list \<Rightarrow> nat" where
  "finals k x fs = length (filter (final_result k x) fs)"

definition writes_result :: "nat \<Rightarrow> reads \<Rightarrow> nat \<Rightarrow> bool" where
  "writes_result k x f \<longleftrightarrow> (\<exists>r s1 s2 ro b. qx_fibers x f = Some (Q_Writing r s1 s2 ro b) \<and> qo_key (qr_op r) = k)"

definition recovers :: "nat \<Rightarrow> reads \<Rightarrow> nat \<Rightarrow> bool" where
  "recovers k x g \<longleftrightarrow> (\<exists>s i. qx_fibers x g = Some (Q_Recovering k s i))"

text \<open>
  The account of a key with the results \<open>fs\<close> still to be finished: every one of them is owed an answer of
  the network, a recovery is that of the installed payload and the only one, and none runs beside a write.
\<close>

definition owed_results :: "nat \<Rightarrow> reads \<Rightarrow> nat list \<Rightarrow> bool" where
  "owed_results k x fs \<longleftrightarrow> (\<forall>n < length fs. finals k x (take n fs) < bound_of x k)"

definition recovery_of :: "nat \<Rightarrow> query_fiber \<Rightarrow> nat \<Rightarrow> nat \<Rightarrow> bool" where
  "recovery_of k st s i \<longleftrightarrow> st = Q_Recovering k s i \<or> st = Q_Recovered k s i"

definition one_recovery :: "nat \<Rightarrow> reads \<Rightarrow> bool" where
  "one_recovery k x \<longleftrightarrow>
     (\<forall>g s i. qx_fibers x g = Some (Q_Recovering k s i) \<longrightarrow> qx_current x k = Some s \<and> payload_of x k = Some i) \<and>
     (\<forall>g st s i. qx_fibers x g = Some st \<and> recovery_of k st s i \<and> qx_current x k = Some s \<and> payload_of x k = Some i \<longrightarrow>
        rf_promise (qx_retained x i) = Some g \<and> rf_recovering (qx_retained x i)) \<and>
     (\<forall>i. payload_of x k = Some i \<longrightarrow> rf_version (qx_retained x i) \<le> version_of x k)"

definition awaits_recovery :: "nat \<Rightarrow> reads \<Rightarrow> query_fiber \<Rightarrow> bool" where
  "awaits_recovery k x st \<longleftrightarrow>
     (case st of
        Q_Awaiting_Recovery r s1 s2 v s i g \<Rightarrow>
          v \<le> version_of x k \<and> (payload_of x k = None \<or> payload_of x k = Some i) \<and> (\<forall>g'. recovers k x g' \<longrightarrow> g' = g)
      | _ \<Rightarrow> True)"

definition account :: "nat \<Rightarrow> reads \<Rightarrow> nat list \<Rightarrow> bool" where
  "account k x fs \<longleftrightarrow> owed_results k x fs \<and> one_recovery k x \<and>
     (\<forall>f \<in> set fs. writes_result k x f \<longrightarrow> (\<forall>g. \<not> recovers k x g)) \<and>
     (\<forall>f \<in> set fs. \<forall>st. qx_fibers x f = Some st \<longrightarrow> awaits_recovery k x st)"

lemma level_finals: "level k x y \<Longrightarrow> finals k y fs = finals k x fs"
proof -
  assume "level k x y"
  then have "final_result k y = final_result k x" unfolding final_result_def level_def by blast
  then show ?thesis by (simp add: finals_def)
qed

lemma mild_recovers: "mild k x y \<Longrightarrow> recovers k y g \<longleftrightarrow> recovers k x g"
  by (auto simp: recovers_def mild_def)

lemma mild_views: "mild k x y \<Longrightarrow> bound_of y k = bound_of x k" "mild k x y \<Longrightarrow> payload_of y k = payload_of x k"
    "mild k x y \<Longrightarrow> version_of y k = version_of x k"
  by (simp_all add: mild_def)

lemma payload_current: "payload_of x k = Some i \<Longrightarrow> \<exists>s. qx_current x k = Some s"
  by (auto simp: payload_of_def split: option.splits)

lemma mild_one_recovery:
  assumes "one_recovery k x" "mild k x y" shows "one_recovery k y"
proof -
  have c: "qx_current y k = qx_current x k" if "payload_of x k = Some i" for i
    using mild_level [OF assms(2)] payload_current [OF that] by (auto simp: level_def)
  have f: "qx_fibers y g = Some st \<longleftrightarrow> qx_fibers x g = Some st" if "recovery_of k st s i" for g st s i
    using assms(2) that by (auto simp: mild_def recovery_of_def)
  have r: "recovery_of k (Q_Recovering k s i) s i" for s i by (simp add: recovery_of_def)
  have rf: "rf_version (qx_retained y i) = rf_version (qx_retained x i)" "rf_promise (qx_retained y i) = rf_promise (qx_retained x i)"
      "rf_recovering (qx_retained y i) = rf_recovering (qx_retained x i)" if "payload_of x k = Some i" for i
    using assms(2) that by (simp_all add: mild_def)
  show ?thesis unfolding one_recovery_def mild_views [OF assms(2)]
  proof (intro conjI allI impI)
    fix g s i assume "qx_fibers y g = Some (Q_Recovering k s i)"
    then have "qx_current x k = Some s \<and> payload_of x k = Some i" using f [OF r] assms(1) unfolding one_recovery_def by blast
    then show "qx_current y k = Some s" "payload_of x k = Some i" using c by auto
  next
    fix g st s i
    assume a: "qx_fibers y g = Some st \<and> recovery_of k st s i \<and> qx_current y k = Some s \<and> payload_of x k = Some i"
    then have "rf_promise (qx_retained x i) = Some g \<and> rf_recovering (qx_retained x i)"
      using f c assms(1) unfolding one_recovery_def by metis
    then show "rf_promise (qx_retained y i) = Some g" "rf_recovering (qx_retained y i)" using rf a by auto
  next
    fix i assume "payload_of x k = Some i"
    then show "rf_version (qx_retained y i) \<le> version_of x k" using rf(1) assms(1) unfolding one_recovery_def by metis
  qed
qed

lemma account_mild:
  assumes "account k x fs" "mild k x y" "\<And>f. f \<in> set fs \<Longrightarrow> \<exists>st. qx_fibers x f = Some st \<and> result_fiber k st"
  shows "account k y fs"
proof -
  have l: "qx_fibers y f = qx_fibers x f" if "f \<in> set fs" for f
    using assms(3) [OF that] mild_level [OF assms(2)] unfolding level_def by metis
  have "owed_results k y fs" using assms(1) level_finals [OF mild_level [OF assms(2)]] mild_views(1) [OF assms(2)]
    by (simp add: account_def owed_results_def)
  moreover have "one_recovery k y" using mild_one_recovery [OF _ assms(2)] assms(1) by (simp add: account_def)
  moreover have "writes_result k y f \<longleftrightarrow> writes_result k x f" if "f \<in> set fs" for f by (simp add: writes_result_def l [OF that])
  moreover have "awaits_recovery k y st \<longleftrightarrow> awaits_recovery k x st" for st
    by (simp add: awaits_recovery_def mild_views [OF assms(2)] mild_recovers [OF assms(2)] cong: query_fiber.case_cong)
  ultimately show ?thesis using assms(1) l unfolding account_def mild_recovers [OF assms(2)] by simp
qed

section \<open>The ledger of a key\<close>

text \<open>The account, with results that exist; only the first of them is past its turn.\<close>

definition ledger :: "nat \<Rightarrow> reads \<Rightarrow> nat list \<Rightarrow> bool" where
  "ledger k x fs \<longleftrightarrow> owned x \<and> ids x \<and> account k x fs \<and>
     (\<forall>f \<in> set fs. \<exists>st. qx_fibers x f = Some st \<and> result_fiber k st)"

lemma ledger_owned: "ledger k x fs \<Longrightarrow> owned x" "ledger k x fs \<Longrightarrow> ids x" "ledger k x fs \<Longrightarrow> one_recovery k x"
    "ledger k x fs \<Longrightarrow> owed_results k x fs"
  by (simp_all add: ledger_def account_def)

lemma ledger_mild: "ledger k x fs \<Longrightarrow> mild k x y \<Longrightarrow> ids y \<Longrightarrow> ledger k y fs"
  using account_mild [of k x fs y] mild_owned(1) [of k x y] mild_level [of k x y] unfolding ledger_def level_def by blast

lemma ledger_tail: "ledger k x (f # fs) \<Longrightarrow> (\<forall>n < length fs. finals k x (take n fs) < bound_of x k) \<Longrightarrow> ledger k x fs"
  by (simp add: ledger_def account_def owed_results_def)

lemma ledger_bound: "ledger k x fs \<Longrightarrow> fs \<noteq> [] \<Longrightarrow> 0 < bound_of x k"
  using ledger_owned(4) [of k x fs] by (auto simp: owed_results_def dest: spec [of _ 0])

lemma one_recovery_parts:
  assumes "one_recovery k x"
  shows "qx_fibers x g = Some (Q_Recovering k s i) \<Longrightarrow> qx_current x k = Some s \<and> payload_of x k = Some i"
    "qx_fibers x g = Some st \<Longrightarrow> recovery_of k st s i \<Longrightarrow> qx_current x k = Some s \<Longrightarrow> payload_of x k = Some i \<Longrightarrow>
      rf_promise (qx_retained x i) = Some g \<and> rf_recovering (qx_retained x i)"
    "payload_of x k = Some i \<Longrightarrow> rf_version (qx_retained x i) \<le> version_of x k"
  using assms unfolding one_recovery_def by blast+

lemma recovering_is [simp]: "recovery_of k (Q_Recovering k s i) s i" "recovery_of k (Q_Recovered k s i) s i"
  by (simp_all add: recovery_of_def)

lemma sole_recovery:
  assumes "one_recovery k x" "recovers k x g" "qx_fibers x g' = Some st" "recovery_of k st s i" "qx_current x k = Some s"
    and "payload_of x k = Some i"
  shows "g' = g"
proof -
  obtain s0 i0 where g: "qx_fibers x g = Some (Q_Recovering k s0 i0)" using assms(2) by (auto simp: recovers_def)
  then have "s0 = s" "i0 = i" using one_recovery_parts(1) [OF assms(1) g] assms(5,6) by simp_all
  then have "rf_promise (qx_retained x i) = Some g" using one_recovery_parts(2) [OF assms(1) g] assms(5,6) by simp
  then show ?thesis using one_recovery_parts(2) [OF assms(1,3,4,5,6)] by simp
qed

text \<open>Without a recovery of the installed payload.\<close>

lemma no_recovery:
  assumes "\<And>g. \<not> recovers k y g" "\<And>g s i. qx_fibers y g = Some (Q_Recovered k s i) \<Longrightarrow> qx_current y k = Some s \<Longrightarrow> payload_of y k \<noteq> Some i"
    and "\<And>i. payload_of y k = Some i \<Longrightarrow> rf_version (qx_retained y i) \<le> version_of y k"
  shows "one_recovery k y"
  using assms unfolding one_recovery_def recovers_def recovery_of_def by blast

lemma ledger_parts:
  assumes "owned y" "ids y" "owed_results k y fs" "one_recovery k y"
    and "\<And>f. f \<in> set fs \<Longrightarrow> writes_result k y f \<Longrightarrow> \<forall>g. \<not> recovers k y g"
    and "\<And>f st. f \<in> set fs \<Longrightarrow> qx_fibers y f = Some st \<Longrightarrow> awaits_recovery k y st"
    and "\<And>f. f \<in> set fs \<Longrightarrow> \<exists>st. qx_fibers y f = Some st \<and> result_fiber k st"
  shows "ledger k y fs"
  using assms by (simp add: ledger_def account_def)

text \<open>The counter changes, and with it the flags, the turns and the version, which grows.\<close>

lemma ledger_counts:
  assumes "ledger k x fs" "qx_current x k = Some s" "\<And>q. qs_retained (g q) = qs_retained q" "qs_version (qx_states x s) \<le> qs_version (g (qx_states x s))"
    and "\<forall>n < length fs'. finals k x (take n fs') < qs_bound (g (qx_states x s))" "set fs' \<subseteq> set fs"
  shows "ledger k (upd_state s g x) fs'"
proof (rule ledger_parts)
  note l = ledger_owned [OF assms(1)]
  let ?y = "upd_state s g x"
  have y: "qx_fibers ?y = qx_fibers x" "qx_current ?y = qx_current x" "qx_next ?y = qx_next x" "qx_retained ?y = qx_retained x"
      "bound_of ?y k = qs_bound (g (qx_states x s))" "payload_of ?y k = payload_of x k" "version_of x k \<le> version_of ?y k"
    using assms(2-4) by (simp_all add: state_views) (simp_all add: upd_state_def)
  have f: "fits ?y st = fits x st" for st by simp
  show "owned ?y" using l(1) unfolding owned_def tidy_def y f .
  show "ids ?y" using l(2) assms(3) by (simp add: ids_basic)
  have "finals k ?y gs = finals k x gs" for gs
  proof -
    have "final_result k ?y = final_result k x" by (simp add: final_result_def fun_eq_iff)
    then show ?thesis by (simp add: finals_def)
  qed
  then show "owed_results k ?y fs'" using assms(5) by (simp add: owed_results_def y)
  have "rf_version (qx_retained x i) \<le> version_of ?y k" if "payload_of x k = Some i" for i
    using one_recovery_parts(3) [OF l(3) that] y(7) by simp
  then show "one_recovery k ?y" using l(3) unfolding one_recovery_def y(1-4,6) by blast
  have r: "recovers k ?y = recovers k x" "writes_result k ?y = writes_result k x" by (simp_all add: recovers_def writes_result_def fun_eq_iff)
  show "\<forall>g. \<not> recovers k ?y g" if "f \<in> set fs'" "writes_result k ?y f" for f
    using that assms(1,6) unfolding r ledger_def account_def by blast
  show "awaits_recovery k ?y st" if "f \<in> set fs'" "qx_fibers ?y f = Some st" for f st
  proof -
    have "awaits_recovery k x st" using that assms(1,6) unfolding y ledger_def account_def by blast
    then show ?thesis using y(7) by (cases st) (auto simp: awaits_recovery_def r y(6))
  qed
  show "\<exists>st. qx_fibers ?y f = Some st \<and> result_fiber k st" if "f \<in> set fs'" for f
    using that assms(1,6) unfolding y ledger_def by blast
qed

section \<open>Operations on the key\<close>

lemma retained_fields [simp]:
  "qx_next (upd_retained i h x) = qx_next x" "qx_fibers (upd_retained i h x) = qx_fibers x" "qx_states (upd_retained i h x) = qx_states x"
  "qx_active (upd_retained i h x) = qx_active x" "qx_retained (upd_retained i h x) j = (if j = i then h (qx_retained x i) else qx_retained x j)"
  by (simp_all add: upd_retained_def)

lemma state_objects [simp]: "qx_retained (upd_state s g x) = qx_retained x" "qx_active (upd_state s g x) = qx_active x"
    "qx_states (upd_state s g x) t = (if t = s then g (qx_states x s) else qx_states x t)"
  by (simp_all add: upd_state_def)

lemma ledger_start:
  assumes "ledger k x []" "qx_current x k = Some s" "qs_retained (qx_states x s) = Some i" "\<not> rf_recovering (qx_retained x i)"
    and "g = qx_next x"
  shows "ledger k (recovery_attempt g k s i (upd_retained i (\<lambda>rf. rf\<lparr>rf_recovering := True, rf_promise := Some g\<rparr>)
    (snd (q_fresh (upd_retained i (\<lambda>rf. rf\<lparr>rf_ready := True\<rparr>) x))))) []"
proof (rule ledger_parts)
  note l = ledger_owned [OF assms(1)]
  let ?x = "upd_retained i (\<lambda>rf. rf\<lparr>rf_recovering := True, rf_promise := Some g\<rparr>) (snd (q_fresh (upd_retained i (\<lambda>rf. rf\<lparr>rf_ready := True\<rparr>) x)))"
  let ?y = "recovery_attempt g k s i ?x"
  have y: "qx_fibers ?y h = (if h = g then Some (Q_Recovering k s i) else qx_fibers x h)" for h
    by (simp add: recovery_attempt_def q_ask_def upd_retained_def q_fresh_def)
  have v: "qx_current ?y = qx_current x" "payload_of ?y k = payload_of x k" "version_of ?y k = version_of x k"
    by (simp_all add: recovery_attempt_def q_ask_def fresh_fields) 
  have rf: "rf_promise (qx_retained ?y i) = Some g" "rf_recovering (qx_retained ?y i)" "rf_version (qx_retained ?y i) = rf_version (qx_retained x i)"
    by (simp_all add: recovery_attempt_def q_ask_def upd_retained_def q_fresh_def)
  have p: "payload_of x k = Some i" using assms(2,3) by (simp add: payload_of_def)
  have "level k x ?x" by (intro level_retained level_fresh level_refl l(1))
  moreover have "other_fiber k ?x g" using l(1) assms(5) by (simp add: other_fiber_def fresh_fields owned_def tidy_def)
  moreover have "fits ?x (Q_Recovering k s i)" using fits_recovery [OF l(1) assms(2)] by (auto simp: fits_def fresh_fields)
  ultimately show "owned ?y" using level_owned(1) [OF level_attempt] by blast
  have "link ?x s i" using link_installed [OF assms(3)] by simp
  then show "ids ?y" using ids_attempt l(2) by (simp add: ids_basic)
  show "owed_results k ?y []" by (simp add: owed_results_def)
  have none: "\<not> recovery_of k st s i" if "qx_fibers x h = Some st" for h st
    using one_recovery_parts(2) [OF l(3) that _ assms(2) p] assms(4) by blast
  have i: "payload_of x k = Some j \<longleftrightarrow> j = i" "qx_current x k = Some t \<longleftrightarrow> t = s" for j t using p assms(2) by auto
  show "one_recovery k ?y" unfolding one_recovery_def v i
  proof (intro conjI allI impI)
    fix h s' i' assume "qx_fibers ?y h = Some (Q_Recovering k s' i')"
    then have "h \<noteq> g \<Longrightarrow> s' = s \<and> i' = i" using one_recovery_parts(1) [OF l(3)] i unfolding y by (auto split: if_splits)
    moreover have "h = g \<Longrightarrow> s' = s \<and> i' = i" using \<open>qx_fibers ?y h = Some (Q_Recovering k s' i')\<close> unfolding y by simp
    ultimately show "s' = s" "i' = i" by blast+
  next
    fix h st s' i' assume a: "qx_fibers ?y h = Some st \<and> recovery_of k st s' i' \<and> s' = s \<and> i' = i"
    then have "h = g" using none [of h st] unfolding y by (auto split: if_splits)
    then show "rf_promise (qx_retained ?y i') = Some h" "rf_recovering (qx_retained ?y i')" using a rf by auto
  next
    fix j assume "j = i"
    then show "rf_version (qx_retained ?y j) \<le> version_of x k" using rf(3) one_recovery_parts(3) [OF l(3) p] by simp
  qed
qed simp_all

lemma ledger_refl: "ledger k x fs \<Longrightarrow> mild k x x"
  by (rule mild_refl) (rule ledger_owned)

lemma ledger_recover:
  assumes "ledger k x fs" shows "ledger k (recoverRetainedReplacementFallback k x) fs"
proof (cases "\<exists>s i. qx_current x k = Some s \<and> qs_retained (qx_states x s) = Some i")
  case True
  then obtain s i where s: "qx_current x k = Some s" and i: "qs_retained (qx_states x s) = Some i" by blast
  have r: "ledger k (upd_retained i (\<lambda>rf. rf\<lparr>rf_ready := True\<rparr>) x) fs"
    by (rule ledger_mild [OF assms]) (use ledger_refl [OF assms] ledger_owned(2) [OF assms] in \<open>simp_all add: mild_basic ids_basic\<close>)
  show ?thesis
  proof (cases "rf_recovering (qx_retained x i) \<or> qs_bound (qx_states x s) > 0")
    case False
    then have "fs = []" using ledger_bound [OF assms] s by (auto simp: bound_of_def)
    moreover from this have "ledger k x []" using assms by simp
    ultimately show ?thesis using ledger_start [OF _ s i _ refl] s i False assms
      by (simp add: recoverRetainedReplacementFallback_def Let_def case_prod_beta fresh_fields)
  qed (use assms s i r in \<open>auto simp: recoverRetainedReplacementFallback_def Let_def\<close>)
qed (use assms in \<open>auto simp: recoverRetainedReplacementFallback_def split: option.split\<close>)

lemma ledger_reexecute: "ledger k x fs \<Longrightarrow> ledger k (reexecuteAffected k' b x) fs"
  using ledger_mild [of k x fs] ledger_refl [of k x fs] ledger_owned(2) [of k x fs] by (simp add: mild_reexecute ids_reexecute)

lemma ledger_query_state: "ledger k x fs \<Longrightarrow> ledger k (snd (queryState k' x)) fs"
  using ledger_mild [of k x fs] ledger_refl [of k x fs] ledger_owned(2) [of k x fs] by (simp add: mild_basic ids_basic)

lemma ledger_flags: "ledger k x fs \<Longrightarrow> same_books g \<Longrightarrow> ledger k (upd_state s g x) fs"
  using ledger_mild [of k x fs "upd_state s g x"] ledger_refl [of k x fs] ledger_owned(2) [of k x fs]
  by (simp add: mild_basic) (simp add: ids_basic same_books_def)

lemma ledger_affected:
  assumes "ledger k x fs" shows "ledger k (op_affected cfg k' x) fs"
proof (cases "k' = k")
  case False
  then show ?thesis using ledger_mild [OF assms] ledger_refl [OF assms] ledger_owned(2) [OF assms] by (simp add: mild_affected ids_affected)
next
  case True
  have "ledger k (emitAffectedWhileNetworkBound cfg k y) fs" if "ledger k y fs" for y
    by (rule ledger_mild [OF that mild_emit [OF ledger_refl [OF that]]])
      (use ledger_owned(2) [OF that] in \<open>simp add: emitAffectedWhileNetworkBound_def case_prod_beta ids_basic split: option.split\<close>)
  then show ?thesis using assms
    by (simp add: True op_affected_def Let_def case_prod_beta ledger_query_state ledger_flags ledger_recover ledger_reexecute)
qed

lemma ledger_push: "ledger k x fs \<Longrightarrow> ledger k (onOpsAffected cfg ks x) fs"
proof -
  have "ledger k x fs \<Longrightarrow> ledger k (fold (op_affected cfg) ks x) fs" for x
    by (induction ks arbitrary: x) (simp_all add: ledger_affected)
  then show "ledger k x fs \<Longrightarrow> ?thesis" by (simp add: onOpsAffected_def)
qed

lemma ledger_forward:
  assumes "ledger k x fs" shows "ledger k (enqueueQueryForward p op x) fs"
proof (cases "qo_key op = k")
  case False
  then show ?thesis using ledger_mild [OF assms] ledger_refl [OF assms] ledger_owned(2) [OF assms] by (simp add: mild_forward ids_forward)
next
  case True
  let ?y = "snd (queryState k x)" and ?s = "fst (queryState k x)"
  let ?g = "\<lambda>q. q\<lparr>qs_bound := qs_bound q + 1\<rparr>"
  have y: "ledger k ?y fs" by (rule ledger_query_state [OF assms])
  have "\<forall>n < length fs. finals k ?y (take n fs) < qs_bound (qx_states ?y ?s)"
    using ledger_owned(4) [OF y] queryState_current [of k x] by (simp add: owed_results_def bound_of_def)
  then have z: "ledger k (upd_state ?s ?g ?y) fs"
    by (intro ledger_counts [OF y queryState_current]) (auto intro: less_SucI)
  have "mild k (upd_state ?s ?g ?y) (qout (Query_Forwarded p op) (upd_state ?s ?g ?y))"
    using ledger_refl [OF z] by (simp add: mild_basic)
  then show ?thesis using ledger_mild [OF z] ledger_owned(2) [OF z] True by (simp add: enqueueQueryForward_def case_prod_beta ids_basic)
qed

lemma ledger_finish:
  assumes "ledger k x fs" "\<forall>n < length fs. finals k x (take n fs) < bound_of x k - 1"
  shows "ledger k (finishNetworkQuery k b x) fs"
proof -
  let ?y = "snd (queryState k x)" and ?s = "fst (queryState k x)"
  let ?q = "qx_states ?y ?s"
  have y: "ledger k ?y fs" by (rule ledger_query_state [OF assms(1)])
  have m: "mild k x ?y" using ledger_refl [OF assms(1)] by (simp add: mild_basic)
  note c = queryState_current [of k x]
  have b: "\<forall>n < length fs. finals k ?y (take n fs) < qs_bound ?q - 1"
    using assms(2) level_finals [OF mild_level [OF m]] mild_views(1) [OF m] c by (simp add: bound_of_def)
  have r: "ledger k (upd_state ?s (\<lambda>q. q\<lparr>qs_bound := qs_bound ?q - 1\<rparr>) ?y) fs"
    by (rule ledger_counts [OF y c]) (use b in simp_all)
  show ?thesis
  proof (cases "qs_bound ?q - 1 > 0")
    case True
    then show ?thesis using r by (simp add: finishNetworkQuery_def Let_def case_prod_beta)
  next
    case False
    then have "fs = []" using b by (cases fs) auto
    then have "ledger k (upd_state ?s (\<lambda>q. q\<lparr>qs_bound := 0, qs_deferred := False, qs_fallback := False\<rparr>) ?y) fs"
      by (intro ledger_counts [OF y c]) simp_all
    then show ?thesis using False
      by (simp add: finishNetworkQuery_def Let_def case_prod_beta ledger_flags ledger_recover ledger_reexecute)
  qed
qed

end
