(* ===== verification/Exchange_Fallback.thy ===== *)
theory Exchange_Fallback
  imports Exchange_Recovery
begin

text \<open>
  The steps of the exchange keep the ledger of a key: reads, recoveries and the results of the network.
\<close>

section \<open>Reads\<close>

lemma ledger_put:
  assumes "ledger k x fs" "alien_at k x f" "alien k st" "fits x st" "fiber_states st = []"
  shows "ledger k (q_put f st x) fs" "ledger k (q_end f x) fs"
proof -
  have "\<not> fiber_link st s i" for s i using assms(5) by (cases st) (simp_all add: fiber_link_def)
  then show "ledger k (q_put f st x) fs" "ledger k (q_end f x) fs"
    using ledger_mild [OF assms(1)] ledger_refl [OF assms(1)] ledger_owned(2) [OF assms(1)] assms(2-4)
    by (simp_all add: mild_basic ids_basic)
qed

lemma ledger_out:
  assumes "ledger k x fs" shows "passing k out \<Longrightarrow> ledger k (qout out x) fs" "ledger k (q_error err x) fs"
  using ledger_mild [OF assms] ledger_refl [OF assms] ledger_owned(2) [OF assms] by (simp_all add: mild_basic ids_basic)

lemma alien_forward: "owned x \<Longrightarrow> alien_at k x f \<Longrightarrow> alien_at k (enqueueQueryForward p op x) f"
  using forward_next [of x p op] by (auto simp: alien_at_def forward_fields)

lemma alien_state: "alien_at k x f \<Longrightarrow> alien_at k (snd (queryState k' x)) f"
  using state_next [of x k'] by (auto simp: alien_at_def)

lemma ledger_answer: "ledger k x fs \<Longrightarrow> alien_at k x f \<Longrightarrow> ledger k (answer_read op d stale f x) fs"
  unfolding answer_read_def
  by (rule ledger_put(2) [where st = "Q_Reading op"]) (simp_all add: ledger_out passing_def fits_plain)

lemma ledger_missed: "ledger k x fs \<Longrightarrow> alien_at k x f \<Longrightarrow> ledger k (read_missed op f x) fs"
  using ledger_put(2) [of k _ fs f "Q_Reading op"] ledger_owned(1) [of k x fs]
  by (simp add: read_missed_def ledger_answer ledger_forward alien_forward fits_plain)

lemma ledger_reads:
  assumes "ledger k x fs" "alien_at k x f"
  shows "ledger k (read_settled op res f x) fs" "ledger k (reread_settled op res f x) fs" "ledger k (readThenRoute cfg op f x) fs"
proof -
  have e: "ledger k (q_error err x) fs" "alien_at k (q_error err x) f" for err using assms by (simp_all add: ledger_out)
  have h: "ledger k (answer_read op d stale f (enqueueQueryForward f op x)) fs" for d stale
    using ledger_answer [OF ledger_forward [OF assms(1)] alien_forward [OF ledger_owned(1) [OF assms(1)] assms(2)]] .
  show "ledger k (read_settled op res f x) fs"
    using assms e h by (simp add: read_settled_def Let_def case_prod_beta ledger_answer ledger_missed ledger_query_state ledger_flags
        alien_state split: sum.split)
  show "ledger k (reread_settled op res f x) fs"
    unfolding reread_settled_def
    by (rule ledger_put(2) [where st = "Q_Reading op"])
      (use assms e in \<open>auto simp: ledger_out passing_def fits_plain split: sum.split option.split\<close>)
  have "ledger k (q_ask f call (Q_Reading op) x) fs" for call
    unfolding q_ask_def by (rule ledger_put(1)) (use assms in \<open>simp_all add: ledger_out passing_def fits_plain\<close>)
  then show "ledger k (readThenRoute cfg op f x) fs" using assms
    by (simp add: readThenRoute_def ledger_out passing_def ledger_forward)
qed

section \<open>Recoveries\<close>

text \<open>Recovery fibers end or return; the installed payload is the same or gone.\<close>

lemma ledger_fewer:
  assumes "ledger k x fs" "owned y" "ids y" "bound_of y k = bound_of x k" "version_of y k = version_of x k"
    and "payload_of y k = payload_of x k \<or> payload_of y k = None" "one_recovery k y"
    and "\<And>g. recovers k y g \<Longrightarrow> recovers k x g" "\<And>f. f \<in> set fs \<Longrightarrow> qx_fibers y f = qx_fibers x f"
  shows "ledger k y fs"
proof (rule ledger_parts [OF assms(2,3)])
  note f = assms(9)
  have "filter (final_result k y) (take n fs) = filter (final_result k x) (take n fs)" for n
    by (rule filter_cong) (auto simp: final_result_def f dest: in_set_takeD)
  then show "owed_results k y fs" using ledger_owned(4) [OF assms(1)] assms(4) by (simp add: owed_results_def finals_def)
  show "\<forall>g. \<not> recovers k y g" if "f \<in> set fs" "writes_result k y f" for f
    using that assms(1,8) f [OF that(1)] unfolding ledger_def account_def writes_result_def by metis
  show "awaits_recovery k y st" if "f \<in> set fs" "qx_fibers y f = Some st" for f st
  proof -
    have "awaits_recovery k x st" using that f [OF that(1)] assms(1) unfolding ledger_def account_def by metis
    then show ?thesis using assms(5,6,8) by (cases st) (auto simp: awaits_recovery_def)
  qed
  show "\<exists>st. qx_fibers y f = Some st \<and> result_fiber k st" if "f \<in> set fs" for f
    using that assms(1) f [OF that] unfolding ledger_def by metis
qed (rule assms(7))

lemma one_recovery_sub:
  assumes "one_recovery k x" "\<And>g st s i. qx_fibers y g = Some st \<Longrightarrow> recovery_of k st s i \<Longrightarrow> qx_fibers x g = Some st"
    and "qx_current y k = qx_current x k" "payload_of y k = payload_of x k" "version_of x k \<le> version_of y k"
    and "\<And>i. payload_of x k = Some i \<Longrightarrow> qx_retained y i = qx_retained x i"
  shows "one_recovery k y"
  unfolding one_recovery_def
proof (intro conjI allI impI)
  fix g s i assume "qx_fibers y g = Some (Q_Recovering k s i)"
  then have "qx_fibers x g = Some (Q_Recovering k s i)" using assms(2) recovering_is(1) by blast
  then show "qx_current y k = Some s" "payload_of y k = Some i" using one_recovery_parts(1) [OF assms(1)] assms(3,4) by simp_all
next
  fix g st s i assume a: "qx_fibers y g = Some st \<and> recovery_of k st s i \<and> qx_current y k = Some s \<and> payload_of y k = Some i"
  then have "qx_fibers x g = Some st" using assms(2) by blast
  then show "rf_promise (qx_retained y i) = Some g" "rf_recovering (qx_retained y i)"
    using one_recovery_parts(2) [OF assms(1), of g st s i] a assms(3,4,6) by simp_all
next
  fix i assume "payload_of y k = Some i"
  then show "rf_version (qx_retained y i) \<le> version_of y k"
    using one_recovery_parts(3) [OF assms(1), of i] assms(4-6) by simp
qed

lemma ledger_kept:
  assumes "ledger k x fs" "\<And>f st. result_fiber k st \<Longrightarrow> qx_fibers y f = Some st \<longleftrightarrow> qx_fibers x f = Some st" "f \<in> set fs"
  shows "qx_fibers y f = qx_fibers x f"
  using assms unfolding ledger_def by metis

lemma recovery_other: "qx_fibers x g = Some st \<Longrightarrow> recovery_of k st s i \<Longrightarrow> \<not> result_fiber k' st"
  by (auto simp: recovery_of_def)

lemma recovery_apart:
  assumes "ledger k x fs" "qx_fibers x g = Some st" "recovery_of k' st s i" shows "g \<notin> set fs"
  using assms recovery_other [OF assms(2,3), of k] unfolding ledger_def by fastforce

lemma no_installed:
  assumes "ledger k x fs" "qx_fibers x g = Some st" "recovery_of k st s i" "qx_current x k \<noteq> Some s \<or> qs_retained (qx_states x s) \<noteq> Some i"
  shows "payload_of x k \<noteq> Some i"
proof (cases "qx_current x k = Some s")
  case False
  have "link x s i" using link_fiber [OF assms(2)] assms(3) by (auto simp: recovery_of_def fiber_link_def)
  then show ?thesis using payload_apart [OF ledger_owned(2) [OF assms(1)] _ False] by blast
qed (use assms(4) in \<open>simp add: payload_of_def\<close>)

lemma ledger_returns:
  assumes "ledger k x fs" "qx_fibers x g = Some (Q_Recovering k s i)"
  shows "ledger k (q_put g (Q_Recovered k s i) x) fs"
proof -
  note l = ledger_owned [OF assms(1)]
  let ?y = "q_put g (Q_Recovered k s i) x"
  have f: "g < qx_next x" using l(1) assms(2) unfolding owned_def tidy_def by (metis not_less option.distinct(1))
  have "fits x (Q_Recovered k s i)" using owned_fits [OF l(1) assms(2)] by (simp add: fits_def)
  then have o: "owned ?y" by (rule owned_put [OF l(1) f])
  have i: "ids ?y" by (rule ids_put [OF l(2)]) (use link_fiber [OF assms(2)] in \<open>auto simp: fiber_link_def\<close>)
  have one: "one_recovery k ?y" unfolding one_recovery_def
  proof (intro conjI allI impI)
    fix h s' i' assume "qx_fibers ?y h = Some (Q_Recovering k s' i')"
    then have "qx_fibers x h = Some (Q_Recovering k s' i')" by (simp split: if_splits)
    then show "qx_current ?y k = Some s'" "payload_of ?y k = Some i'" using one_recovery_parts(1) [OF l(3)] by simp_all
  next
    fix h st s' i' assume a: "qx_fibers ?y h = Some st \<and> recovery_of k st s' i' \<and> qx_current ?y k = Some s' \<and> payload_of ?y k = Some i'"
    then have "qx_fibers x h = Some (if h = g then Q_Recovering k s i else st)" "recovery_of k (if h = g then Q_Recovering k s i else st) s' i'"
      using assms(2) by (auto simp: recovery_of_def split: if_splits)
    then show "rf_promise (qx_retained ?y i') = Some h" "rf_recovering (qx_retained ?y i')"
      using one_recovery_parts(2) [OF l(3)] a by simp_all
  qed (use one_recovery_parts(3) [OF l(3)] in simp)
  show ?thesis
    by (rule ledger_fewer [OF assms(1) o i _ _ _ one])
      (use recovery_apart [OF assms recovering_is(1)] in \<open>auto simp: recovers_def split: if_splits\<close>)
qed

lemma ledger_settled:
  assumes "ledger k x fs" "qx_fibers x g = Some (Q_Recovering k s i)"
  shows "ledger k (recovery_settled k s i res g x) fs"
proof -
  note l = ledger_owned [OF assms(1)]
  have p: "qx_current x k = Some s" "payload_of x k = Some i" using one_recovery_parts(1) [OF l(3) assms(2)] by blast+
  define e where "e err = (if has_active x k then q_error err x else x)" for err
  have e: "ledger k (e err) fs" "qx_fibers (e err) = qx_fibers x" for err
    using assms(1) ledger_out(2) by (simp_all add: e_def q_error_def)
  have again: "ledger k (recovery_attempt g k s i y) fs" if "ledger k y fs" "qx_fibers y g = Some (Q_Recovering k s i)" for y
  proof -
    have "recovery_attempt g k s i y = qout (Query_Asked g (recover_write (qx_retained y i))) (upd_retained i (\<lambda>rf. rf\<lparr>rf_ready := False\<rparr>) y)"
      using that(2) by (simp add: recovery_attempt_def q_ask_def q_put_def qout_def upd_retained_def fun_upd_idem)
    moreover have "mild k y (qout (Query_Asked g (recover_write (qx_retained y i))) (upd_retained i (\<lambda>rf. rf\<lparr>rf_ready := False\<rparr>) y))"
      using ledger_refl [OF that(1)] by (simp add: mild_basic)
    ultimately show ?thesis using ledger_mild [OF that(1)] ledger_owned(2) [OF that(1)] by (simp add: ids_basic)
  qed
  let ?g = "\<lambda>q. q\<lparr>qs_retained := None, qs_fallback := False, qs_deferred := False, qs_completed := False, qs_satisfied := False\<rparr>"
  have cleared: "ledger k (q_put g (Q_Recovered k s i) (upd_state s ?g x)) fs"
  proof -
    let ?y = "q_put g (Q_Recovered k s i) (upd_state s ?g x)"
    have r: "ledger k (q_put g (Q_Recovered k s i) x) fs" by (rule ledger_returns [OF assms])
    have y: "?y = upd_state s ?g (q_put g (Q_Recovered k s i) x)" by (simp add: q_put_def upd_state_def)
    have o: "owned ?y" unfolding y using level_owned(1) [OF level_state [OF level_refl [OF ledger_owned(1) [OF r]]]] by simp
    have d: "ids ?y" unfolding y using ledger_owned(2) [OF r] by (simp add: ids_basic)
    have v: "bound_of ?y k = bound_of x k" "version_of ?y k = version_of x k" "payload_of ?y k = None"
      using p(1) by (simp_all add: state_views)
    have n: "\<not> recovers k ?y h" for h
      using sole_recovery [OF l(3) _ assms(2) recovering_is(1) p, of h] by (auto simp: recovers_def)
    have one: "one_recovery k ?y" by (rule no_recovery) (use n v in simp_all)
    show ?thesis
      by (rule ledger_fewer [OF assms(1) o d v(1,2) _ one])
        (use n v(3) recovery_apart [OF assms recovering_is(1)] in auto)
  qed
  show ?thesis
    using ledger_returns [OF assms] ledger_returns [OF e(1)] again [OF e(1)] e(2) assms(2) cleared
    unfolding recovery_settled_def Let_def e_def [symmetric] by (simp split: sum.split)
qed

lemma ledger_reaction:
  assumes "ledger k x fs" "qx_fibers x g = Some (Q_Recovered k s i)"
  shows "ledger k (recovery_reaction k s i g x) fs"
proof -
  note l = ledger_owned [OF assms(1)]
  define y1 where "y1 = upd_retained i (\<lambda>rf. if rf_promise rf = Some g then rf\<lparr>rf_promise := None\<rparr> else rf) (q_end g x)"
  have y1: "qx_fibers y1 h = (if h = g then None else qx_fibers x h)" "qx_current y1 = qx_current x" "qx_states y1 = qx_states x"
    "bound_of y1 k = bound_of x k" "payload_of y1 k = payload_of x k" "version_of y1 k = version_of x k" for h
    by (simp_all add: y1_def)
  have d: "owned y1" "ids y1"
    using level_owned(1) [OF level_retained(1) [OF level_refl [OF owned_end [OF l(1)]]]] l(2) by (simp_all add: y1_def ids_basic)
  have "g \<notin> set fs" using recovery_apart [OF assms recovering_is(2)] .
  then have fewer: "recovers k y1 h \<Longrightarrow> recovers k x h" "f \<in> set fs \<Longrightarrow> qx_fibers y1 f = qx_fibers x f" for h f
    by (auto simp: recovers_def y1 split: if_splits)
  show ?thesis
  proof (cases "qx_current x k = Some s \<and> qs_retained (qx_states x s) = Some i")
    case False
    then have p: "payload_of x k \<noteq> Some i" using no_installed [OF assms recovering_is(2)] by simp
    have rf: "payload_of x k = Some j \<Longrightarrow> qx_retained y1 j = qx_retained x j" for j using p by (auto simp: y1_def)
    have "one_recovery k y1" by (rule one_recovery_sub [OF l(3)]) (use rf in \<open>auto simp: y1 split: if_splits\<close>)
    then have "ledger k y1 fs" using ledger_fewer [OF assms(1) d y1(4,6) _ _ fewer] y1(5) by simp
    then show ?thesis using False by (auto simp: recovery_reaction_def Let_def y1_def [symmetric] y1)
  next
    case True
    then have p: "qx_current x k = Some s" "payload_of x k = Some i" by (simp_all add: payload_of_def)
    have n: "\<not> recovery_of k st s i" if "qx_fibers y1 h = Some st" for h st
    proof
      assume r: "recovery_of k st s i"
      have h: "qx_fibers x h = Some st" "h \<noteq> g" using that by (auto simp: y1 split: if_splits)
      have "rf_promise (qx_retained x i) = Some g" using one_recovery_parts(2) [OF l(3) assms(2) recovering_is(2) p] by blast
      moreover have "rf_promise (qx_retained x i) = Some h" using one_recovery_parts(2) [OF l(3) h(1) r p] by blast
      ultimately show False using h(2) by simp
    qed
    have none: "\<not> recovers k y1 h" for h
    proof
      assume "recovers k y1 h"
      then obtain s' i' where h: "qx_fibers y1 h = Some (Q_Recovering k s' i')" by (auto simp: recovers_def)
      then have "qx_fibers x h = Some (Q_Recovering k s' i')" by (simp add: y1 split: if_splits)
      then have "s' = s" "i' = i" using one_recovery_parts(1) [OF l(3)] p by fastforce+
      then show False using n [OF h] by simp
    qed
    define y2 where "y2 = upd_retained i (\<lambda>rf. rf\<lparr>rf_recovering := False\<rparr>) y1"
    have y2: "qx_fibers y2 = qx_fibers y1" "qx_current y2 = qx_current x" "bound_of y2 k = bound_of x k" "payload_of y2 k = Some i"
        "version_of y2 k = version_of x k" "recovers k y2 = recovers k y1" "qx_states y2 = qx_states x"
      using p(2) by (simp_all add: y2_def y1 recovers_def fun_eq_iff)
    have d2: "owned y2" "ids y2" using level_owned(1) [OF level_retained(1) [OF level_refl [OF d(1)]]] d(2) by (simp_all add: y2_def ids_basic)
    have v: "rf_version (qx_retained y2 i) \<le> version_of y2 k" using one_recovery_parts(3) [OF l(3) p(2)] by (simp add: y2 y2_def y1_def)
    have "one_recovery k y2" by (rule no_recovery) (use none v p in \<open>auto simp: y2 dest: n\<close>)
    then have l2: "ledger k y2 fs"
      using ledger_fewer [OF assms(1) d2 y2(3,5)] p(2) none fewer(2) by (simp add: y2)
    have l3: "ledger k (upd_state s (\<lambda>q. q\<lparr>qs_retained := None\<rparr>) y2) fs"
    proof -
      let ?z = "upd_state s (\<lambda>q. q\<lparr>qs_retained := None\<rparr>) y2"
      have z: "payload_of ?z k = None" "bound_of ?z k = bound_of y2 k" "version_of ?z k = version_of y2 k"
        using p(1) by (simp_all add: state_views y2)
      have "owned ?z" using level_owned(1) [OF level_state [OF level_refl [OF d2(1)]]] by simp
      moreover have "ids ?z" using d2(2) by (simp add: ids_basic)
      moreover have "one_recovery k ?z" by (rule no_recovery) (use none in \<open>simp_all add: z recovers_def y2\<close>)
      ultimately show ?thesis using ledger_fewer [OF l2 _ _ z(2,3)] by (simp add: z recovers_def)
    qed
    show ?thesis using True l2 l3 ledger_recover [OF l2]
      by (simp add: recovery_reaction_def Let_def y1_def [symmetric] y2_def [symmetric]) (simp add: y1)
  qed
qed

section \<open>Results of the key\<close>

text \<open>The first result of the line, with the others still waiting for their turn.\<close>

definition front :: "nat \<Rightarrow> reads \<Rightarrow> query_result \<Rightarrow> nat \<Rightarrow> nat \<Rightarrow> nat list \<Rightarrow> bool" where
  "front k x r s f fs \<longleftrightarrow> ledger k x fs \<and> owed_results k x (f # fs) \<and> f \<notin> set fs \<and> turn_queue x k = f # fs \<and>
     (\<forall>f' \<in> set fs. \<exists>r' s'. qx_fibers x f' = Some (Q_Waiting_Turn r' s')) \<and>
     (\<exists>st. qx_fibers x f = Some st \<and> fiber_result st = Some r \<and> result_fiber k st \<and> set (fiber_states st) = {s}) \<and>
     qx_current x k = Some s \<and> has_active x k \<and> of_key k r"

definition settled_line :: "nat \<Rightarrow> reads \<Rightarrow> bool" where
  "settled_line k x \<longleftrightarrow> ledger k x (turn_queue x k)"

lemma front_parts:
  assumes "front k x r s f fs"
  shows "ledger k x fs" "owed_results k x (f # fs)" "f \<notin> set fs" "turn_queue x k = f # fs" "qx_current x k = Some s" "has_active x k"
    "of_key k r" "qo_key (qr_op r) = k" "f < qx_next x"
proof -
  show a: "ledger k x fs" "owed_results k x (f # fs)" "f \<notin> set fs" "turn_queue x k = f # fs" "qx_current x k = Some s" "has_active x k"
    "of_key k r" "qo_key (qr_op r) = k" using assms by (simp_all add: front_def of_key_def)
  have "qx_fibers x f \<noteq> None" using assms by (auto simp: front_def)
  then show "f < qx_next x" using ledger_owned(1) [OF a(1)] unfolding owned_def tidy_def by (metis not_less)
qed

lemma front_level:
  assumes "front k x r s f fs" "level k x y" "ledger k y fs" "owed_results k y (f # fs)"
  shows "front k y r s f fs"
proof -
  have l: "result_fiber k st \<Longrightarrow> qx_fibers y g = Some st \<longleftrightarrow> qx_fibers x g = Some st" for g st using assms(2) by (simp add: level_def)
  obtain st where st: "qx_fibers x f = Some st" "fiber_result st = Some r" "result_fiber k st" "set (fiber_states st) = {s}"
    using assms(1) by (auto simp: front_def)
  have "qx_fibers y f = Some st" using l [OF st(3)] st(1) by blast
  moreover have "\<exists>r' s'. qx_fibers y g = Some (Q_Waiting_Turn r' s')" if "g \<in> set fs" for g
  proof -
    obtain r' s' where g: "qx_fibers x g = Some (Q_Waiting_Turn r' s')" using assms(1) \<open>g \<in> set fs\<close> by (auto simp: front_def)
    then have "result_fiber k (Q_Waiting_Turn r' s')" using assms(1) \<open>g \<in> set fs\<close> by (fastforce simp: front_def ledger_def)
    then show ?thesis using l g by blast
  qed
  moreover have "turn_queue y k = f # fs" "qx_current y k = Some s" "has_active y k"
    using front_parts(4-6) [OF assms(1)] assms(2) by (simp_all add: level_def)
  ultimately show ?thesis using assms(3,4) front_parts(3,7) [OF assms(1)] st(2-4) unfolding front_def by blast
qed

lemma front_mild: "front k x r s f fs \<Longrightarrow> mild k x y \<Longrightarrow> ids y \<Longrightarrow> front k y r s f fs"
  by (rule front_level [OF _ mild_level])
    (use front_parts(1,2) [of k x r s f fs] in \<open>auto simp: owed_results_def level_finals [OF mild_level] mild_views intro: ledger_mild\<close>)

text \<open>A result leaves the line.\<close>

lemma ledger_leaves:
  assumes "ledger k x fs" "f \<notin> set fs" "qx_current x k = Some s" "turn_queue x k = f # fs"
    and "y = q_end f (qout out (release_turn s f x))" "\<forall>st s i. qx_fibers x f = Some st \<longrightarrow> \<not> recovery_of k st s i"
  shows "settled_line k y"
proof -
  define w where "w = release_turn s f x"
  have "\<forall>n < length fs. finals k x (take n fs) < qs_bound (qx_states x s)"
    using ledger_owned(4) [OF assms(1)] assms(3) by (simp add: owed_results_def bound_of_def)
  then have w: "ledger k w fs" unfolding w_def release_turn_def by (intro ledger_counts [OF assms(1,3)]) simp_all
  have y: "y = q_end f (qout out w)" using assms(5) by (simp add: w_def)
  have q: "turn_queue y k = fs" using assms(3,4) by (simp add: y w_def release_turn_def turn_queue_def)
  have n: "\<not> recovery_of k st s i" if "qx_fibers w f = Some st" for st s i
    using assms(6) that by (simp add: w_def release_turn_def)
  have "fits (qout out w) st = fits w st" for st by simp
  then have "owned (qout out w)" using ledger_owned(1) [OF w] unfolding owned_def tidy_def by simp
  then have o: "owned y" unfolding y by (rule owned_end)
  have i: "ids y" using ledger_owned(2) [OF w] by (simp add: y ids_basic)
  have one: "one_recovery k y" by (rule one_recovery_sub [OF ledger_owned(3) [OF w]]) (simp_all add: y split: if_splits)
  have "recovers k y g \<Longrightarrow> recovers k w g" for g by (simp add: y recovers_def split: if_splits)
  moreover have "qx_fibers y g = qx_fibers w g" if "g \<in> set fs" for g using assms(2) that by (auto simp: y)
  moreover have "bound_of y k = bound_of w k" "version_of y k = version_of w k" "payload_of y k = payload_of w k"
    by (simp_all add: y)
  ultimately have "ledger k y fs" using ledger_fewer [OF w o i _ _ _ one] by simp
  then show ?thesis by (simp add: settled_line_def q)
qed

lemma finals_Cons: "finals k x (f # fs) = (if final_result k x f then 1 else 0) + finals k x fs"
  by (simp add: finals_def)

lemma owed_tail:
  assumes "owed_results k x (f # fs)"
  shows "\<forall>n < length fs. (if final_result k x f then 1 else 0) + finals k x (take n fs) < bound_of x k"
proof (intro allI impI)
  fix n assume "n < length fs"
  then have "finals k x (take (Suc n) (f # fs)) < bound_of x k" using assms unfolding owed_results_def by (metis Suc_less_eq length_Cons)
  then show "(if final_result k x f then 1 else 0) + finals k x (take n fs) < bound_of x k" by (simp add: finals_Cons)
qed

lemma front_final: "front k x r s f fs \<Longrightarrow> final_result k x f \<longleftrightarrow> \<not> qr_next r"
  by (auto simp: front_def final_result_def)

lemma settled_done:
  assumes "front k x r s f fs" shows "settled_line k (result_done r out s s2 f x)"
proof -
  note p = front_parts [OF assms]
  define x1 where "x1 = upd_state s2 (\<lambda>q. q\<lparr>qs_satisfied := False\<rparr>) x"
  define y where "y = (if qr_next r then x else finishNetworkQuery k (qs_satisfied (qx_states x s2)) x1)"
  note o = ledger_owned [OF p(1)]
  have m: "mild k x x1" using ledger_refl [OF p(1)] by (simp add: x1_def mild_basic)
  have l: "level k x y" using level_refl [OF o(1)] by (simp add: y_def x1_def level_basic level_finish)
  have "\<forall>n < length fs. finals k x1 (take n fs) < bound_of x1 k - 1" if "\<not> qr_next r"
    using owed_tail [OF p(2)] front_final [OF assms] that level_finals [OF mild_level [OF m]] mild_views(1) [OF m] by fastforce
  then have y: "ledger k y fs" using p(1) by (simp add: y_def x1_def ledger_flags ledger_finish)
  have c: "qx_current y k = Some s" "turn_queue y k = f # fs" "has_active y k" using p(4-6) l by (simp_all add: level_def)
  have e: "result_done r out s s2 f x = q_end f (qout (Result_Delivered f out) (release_turn s f y))"
    unfolding result_done_def Let_def p(8) x1_def [symmetric] y_def [symmetric] using c(3) by simp
  obtain st where st: "qx_fibers x f = Some st" "result_fiber k st" using assms by (auto simp: front_def)
  then have "qx_fibers y f = Some st" using l by (simp add: level_def)
  then have "\<forall>st s i. qx_fibers y f = Some st \<longrightarrow> \<not> recovery_of k st s i" using st(2) recovery_other by (metis option.inject)
  then show ?thesis using ledger_leaves [OF y p(3) c(1,2) e] by blast
qed

text \<open>A result stays at the head, at the cache or awaiting a recovery.\<close>

lemma awaits_same:
  assumes "version_of y k = version_of x k" "payload_of y k = payload_of x k" "\<And>g. recovers k y g \<Longrightarrow> recovers k x g"
    and "awaits_recovery k x st"
  shows "awaits_recovery k y st"
  using assms by (cases st) (auto simp: awaits_recovery_def)

lemma settled_stays:
  assumes "front k x r s f fs" "fiber_result st = Some r" "set (fiber_states st) = {s}" "fiber_key st = k"
    and "\<forall>s' i. fiber_link st s' i \<longrightarrow> link x s' i" "awaits_recovery k x st" "past_turn st"
    and "\<And>r s1 s2 ro b. st = Q_Writing r s1 s2 ro b \<Longrightarrow> \<forall>g. \<not> recovers k x g"
  shows "settled_line k (q_put f st x)"
proof -
  let ?y = "q_put f st x"
  note p = front_parts [OF assms(1)] and l = ledger_owned [OF front_parts(1) [OF assms(1)]]
  obtain st0 where st0: "qx_fibers x f = Some st0" "fiber_result st0 = Some r" "result_fiber k st0" "set (fiber_states st0) = {s}"
    using assms(1) by (auto simp: front_def)
  have rf: "result_fiber k st" using assms(2,4) by (simp add: result_fiber_def)
  have "fits x st" using owned_fits [OF l(1) st0(1)] st0(2-4) assms(2-4) by (cases st) (simp_all add: fits_def result_fiber_def)
  then have o: "owned ?y" by (rule owned_put [OF l(1) p(9)])
  have i: "ids ?y" by (rule ids_put [OF l(2) assms(5)])
  have no: "\<not> recovery_of k st s' i" for s' i using rf recovery_other [of ?y f st k s' i k] by auto
  have one: "one_recovery k ?y" by (rule one_recovery_sub [OF l(3)]) (use no in \<open>auto split: if_splits\<close>)
  have no0: "\<not> recovery_of k st0 s' i" for s' i using recovery_other [OF st0(1)] st0(3) by blast
  have "qx_fibers ?y g = Some (Q_Recovering k s' i) \<longleftrightarrow> qx_fibers x g = Some (Q_Recovering k s' i)" for s' i g
    using no no0 st0(1) by (cases "g = f") (auto simp: recovery_of_def)
  then have rec: "recovers k ?y g \<longleftrightarrow> recovers k x g" for g by (simp add: recovers_def)
  have v: "bound_of ?y k = bound_of x k" "payload_of ?y k = payload_of x k" "version_of ?y k = version_of x k" by simp_all
  have "final_result k ?y g \<longleftrightarrow> final_result k x g" for g using rf st0 assms(2) by (auto simp: final_result_def)
  then have "final_result k ?y = final_result k x" by blast
  then have "finals k ?y = finals k x" by (intro ext) (simp add: finals_def)
  then have owed: "owed_results k ?y (f # fs)" using p(2) by (simp add: owed_results_def)
  have w: "\<exists>r' s'. qx_fibers x g = Some (Q_Waiting_Turn r' s')" if "g \<in> set fs" for g using assms(1) that by (auto simp: front_def)
  have ne: "g \<noteq> f" if "g \<in> set fs" for g using p(3) that by blast
  have "ledger k ?y (f # fs)"
  proof (rule ledger_parts [OF o i owed one])
    show "\<forall>g. \<not> recovers k ?y g" if "h \<in> set (f # fs)" "writes_result k ?y h" for h
      using that w ne assms(8) by (cases "h = f") (fastforce simp: writes_result_def rec)+
    show "awaits_recovery k ?y st'" if "h \<in> set (f # fs)" "qx_fibers ?y h = Some st'" for h st'
    proof (cases "h = f")
      case True
      then have "st' = st" using that by simp
      then show ?thesis using awaits_same [OF v(3,2) _ assms(6)] rec by blast
    next
      case False
      then show ?thesis using that w [of h] by (auto simp: awaits_recovery_def)
    qed
    show "\<exists>st'. qx_fibers ?y h = Some st' \<and> result_fiber k st'" if "h \<in> set (f # fs)" for h
      using that rf p(1) ne by (cases "h = f") (auto simp: ledger_def)
  qed
  then show ?thesis using p(4) by (simp add: settled_line_def)
qed

lemma settled_writes:
  assumes "front k x r s f fs" "\<forall>g. \<not> recovers k x g"
  shows "settled_line k (q_ask f call (Q_Writing r s s ro b) x)"
proof -
  have "mild k x (qout (Query_Asked f call) x)" using ledger_refl [OF front_parts(1) [OF assms(1)]] by (simp add: mild_basic)
  then have "front k (qout (Query_Asked f call) x) r s f fs"
    by (rule front_mild [OF assms(1)]) (use ledger_owned(2) [OF front_parts(1) [OF assms(1)]] in \<open>simp add: ids_basic\<close>)
  then show ?thesis unfolding q_ask_def
    by (rule settled_stays) (use assms(2) front_parts(8) [OF assms(1)] in \<open>simp_all add: fiber_link_def awaits_recovery_def recovers_def\<close>)
qed

lemma no_payload: "ledger k x fs \<Longrightarrow> payload_of x k = None \<Longrightarrow> \<not> recovers k x g"
  using one_recovery_parts(1) [OF ledger_owned(3)] by (fastforce simp: recovers_def)

text \<open>The payload of a result is installed before its write.\<close>

lemma front_installs:
  assumes "front k x r s f fs" "payload_of x k = None" "rf_version rf \<le> version_of x k"
    and "y = upd_state s (\<lambda>q. q\<lparr>qs_retained := Some (qx_next x)\<rparr>)
      ((snd (q_fresh x))\<lparr>qx_retained := (qx_retained (snd (q_fresh x)))(qx_next x := rf)\<rparr>)"
  shows "front k y r s f fs" "\<forall>g. \<not> recovers k y g"
proof -
  note p = front_parts [OF assms(1)] and l = ledger_owned [OF front_parts(1) [OF assms(1)]]
  let ?i = "qx_next x"
  have v: "bound_of y k = bound_of x k" "version_of y k = version_of x k" "payload_of y k = Some ?i" "qx_fibers y = qx_fibers x"
    "qx_current y = qx_current x" "qx_retained y ?i = rf"
    using p(5) by (simp_all add: assms(4) state_views fresh_fields)
  have lv: "level k x y" unfolding assms(4) by (intro level_state level_retained(2) level_fresh level_refl l(1)) simp
  have i: "ids y" using ids_install [OF l(2)] by (simp add: assms(4) q_fresh_def)
  have n: "\<not> recovers k x g" for g by (rule no_payload [OF p(1) assms(2)])
  then show ny: "\<forall>g. \<not> recovers k y g" by (simp add: recovers_def v(4))
  have "i < ?i" if "qx_fibers x g = Some (Q_Recovered k s' i)" for g s' i
    using link_fiber [OF that] l(2) by (auto simp: ids_def fiber_link_def)
  then have one: "one_recovery k y" by (intro no_recovery) (use ny v assms(3) in auto)
  have w: "\<exists>r' s'. qx_fibers x g = Some (Q_Waiting_Turn r' s')" if "g \<in> set fs" for g using assms(1) that by (auto simp: front_def)
  have owed: "owed_results k y gs \<longleftrightarrow> owed_results k x gs" for gs by (simp add: owed_results_def level_finals [OF lv] v(1))
  have "ledger k y fs"
  proof (rule ledger_parts [OF level_owned(1) [OF lv] i _ one])
    show "awaits_recovery k y st" if "h \<in> set fs" "qx_fibers y h = Some st" for h st
      using that w [of h] by (auto simp: awaits_recovery_def v)
    show "\<exists>st. qx_fibers y h = Some st \<and> result_fiber k st" if "h \<in> set fs" for h using that p(1) by (simp add: v ledger_def)
  qed (use ny owed l(4) in simp_all)
  then show "front k y r s f fs" by (rule front_level [OF assms(1) lv]) (use owed p(2) in simp)
qed

lemma front_clears:
  assumes "front k x r s f fs" "\<forall>g. \<not> recovers k x g"
  shows "front k (upd_state s (\<lambda>q. q\<lparr>qs_retained := None\<rparr>) x) r s f fs"
proof -
  note p = front_parts [OF assms(1)] and l = ledger_owned [OF front_parts(1) [OF assms(1)]]
  let ?y = "upd_state s (\<lambda>q. q\<lparr>qs_retained := None\<rparr>) x"
  have v: "bound_of ?y k = bound_of x k" "version_of ?y k = version_of x k" "payload_of ?y k = None" "qx_fibers ?y = qx_fibers x"
    using p(5) by (simp_all add: state_views)
  have lv: "level k x ?y" using level_refl [OF l(1)] by (simp add: level_state)
  have n: "\<not> recovers k ?y g" for g using assms(2) by (simp add: recovers_def)
  have one: "one_recovery k ?y" by (rule no_recovery) (use n v(3) in simp_all)
  have "ledger k ?y fs"
    by (rule ledger_fewer [OF p(1) level_owned(1) [OF lv] _ v(1,2) _ one]) (use n v l(2) in \<open>simp_all add: ids_basic\<close>)
  then show ?thesis
    by (rule front_level [OF assms(1) lv]) (use p(2) in \<open>simp add: owed_results_def level_finals [OF lv] v(1)\<close>)
qed

lemma settled_ready:
  assumes "front k x r s f fs" "payload_of x k = None" "v \<le> version_of x k"
  shows "settled_line k (result_ready cfg r s s v f x)"
proof -
  note n = no_payload [OF front_parts(1) [OF assms(1)] assms(2)]
  show ?thesis
    using settled_done [OF assms(1)] settled_writes [OF assms(1)] n
      settled_writes [OF front_installs [OF assms(1,2) _ refl]] assms(3)
    by (simp add: result_ready_def Let_def case_prod_beta fresh_fields)
qed

lemma settled_invalidate:
  assumes "front k x r s f fs" "v \<le> version_of x k" "\<And>i. payload_of x k = Some i \<Longrightarrow> rf_version (qx_retained x i) < v"
  shows "settled_line k (invalidateOlderRetainedFallback cfg r s s v f x)"
proof (cases "qs_retained (qx_states x s)")
  case None
  then have "payload_of x k = None" using front_parts(5) [OF assms(1)] by (simp add: payload_of_def)
  then show ?thesis using settled_ready [OF assms(1) _ assms(2)] None front_parts(5,8) [OF assms(1)]
    by (simp add: invalidateOlderRetainedFallback_def)
next
  case (Some i)
  note p = front_parts [OF assms(1)] and l = ledger_owned [OF front_parts(1) [OF assms(1)]]
  have pi: "payload_of x k = Some i" using Some p(5) by (simp add: payload_of_def)
  define y where "y = upd_retained i (\<lambda>rf. rf\<lparr>rf_invalidated := True, rf_ready := False\<rparr>) x"
  have m: "mild k x y" using ledger_refl [OF p(1)] by (simp add: y_def mild_basic)
  have fy: "front k y r s f fs" by (rule front_mild [OF assms(1) m]) (use l(2) in \<open>simp add: y_def ids_basic\<close>)
  have vy: "version_of y k = version_of x k" "payload_of y k = Some i" "rf_promise (qx_retained y i) = rf_promise (qx_retained x i)"
    using pi by (simp_all add: y_def)
  have sole: "rf_promise (qx_retained x i) = Some g" if "recovers k y g" for g
  proof -
    obtain s' i' where g: "qx_fibers x g = Some (Q_Recovering k s' i')" using \<open>recovers k y g\<close> by (auto simp: recovers_def y_def)
    then have "s' = s" "i' = i" using one_recovery_parts(1) [OF l(3) g] pi p(5) by simp_all
    then show ?thesis using one_recovery_parts(2) [OF l(3) g] pi p(5) by simp
  qed
  show ?thesis
  proof (cases "rf_promise (qx_retained x i)")
    case (Some g)
    have "settled_line k (q_put f (Q_Awaiting_Recovery r s s v s i g) y)"
      by (rule settled_stays [OF fy])
        (use sole Some vy assms(2) p(8) link_installed [OF \<open>qs_retained (qx_states x s) = Some i\<close>] in
          \<open>simp_all add: fiber_link_def awaits_recovery_def y_def\<close>)
    then show ?thesis using Some \<open>qs_retained (qx_states x s) = Some i\<close> p(5,8) assms(3) [OF pi]
      by (simp add: invalidateOlderRetainedFallback_def y_def)
  next
    case None
    define z where "z = upd_state s (\<lambda>q. q\<lparr>qs_retained := None\<rparr>) y"
    have "\<not> recovers k y g" for g using sole None by fastforce
    then have "front k z r s f fs" "payload_of z k = None" "version_of z k = version_of x k"
      using front_clears [OF fy] p(5) vy(1) by (simp_all add: z_def state_views y_def)
    then have "settled_line k (result_ready cfg r s s v f z)" using settled_ready assms(2) by simp
    then show ?thesis using None \<open>qs_retained (qx_states x s) = Some i\<close> p(5,8) assms(3) [OF pi]
      by (simp add: invalidateOlderRetainedFallback_def Let_def z_def y_def)
  qed
qed

end
