(* ===== verification/Exchange_Reads.thy ===== *)
theory Exchange_Reads
  imports Exchange_Fallback
begin

text \<open>
  The query half as a machine: while a key is not torn down and every result of it is owed by a forwarded
  operation, its ledger is kept, so that at most one write of the key is at the cache.
\<close>

section \<open>The head of the line\<close>

lemma settled_mild: "settled_line k x \<Longrightarrow> mild k x y \<Longrightarrow> ids y \<Longrightarrow> settled_line k y"
  using ledger_mild [of k x] mild_level [of k x y] by (simp add: settled_line_def level_def)

lemma settled_level: "settled_line k x \<Longrightarrow> level k x y \<Longrightarrow> ledger k y (turn_queue x k) \<Longrightarrow> settled_line k y"
  by (simp add: settled_line_def level_def)

lemma settled_ledger: "settled_line k x \<Longrightarrow> ledger k x (turn_queue x k)"
  by (simp add: settled_line_def)

lemma front_of:
  assumes "line_inv k x" "settled_line k x" "heads k x r s f"
  obtains fs where "front k x r s f fs"
proof -
  obtain st where st: "qx_fibers x f = Some st" "fiber_result st = Some r" "result_fiber k st" "set (fiber_states st) = {s}"
      "f = hd (turn_queue x k)" using assms(3) by (auto simp: heads_def)
  have "f \<in> set (turn_queue x k)" using line_fiber [OF assms(1) st(1,3)] by blast
  then obtain fs where q: "turn_queue x k = f # fs" using st(5) by (cases "turn_queue x k") simp_all
  have d: "f \<notin> set fs" using line_distinct [OF assms(1)] q by simp
  have l: "ledger k x (f # fs)" using settled_ledger [OF assms(2)] q by simp
  have w: "\<exists>r' s'. qx_fibers x g = Some (Q_Waiting_Turn r' s')" if "g \<in> set fs" for g
  proof -
    obtain st' where g: "qx_fibers x g = Some st'" "result_fiber k st'" using line_member [OF assms(1), of g] \<open>g \<in> set fs\<close> q by auto
    have "past_turn st' \<longrightarrow> g = f" using line_fiber [OF assms(1) g] q by auto
    then have "\<not> past_turn st'" using that d by blast
    then show ?thesis using g by (cases st') (auto simp: result_fiber_def)
  qed
  have o: "owed_results k x (f # fs)" by (rule ledger_owned(4) [OF l])
  have "\<forall>n < length fs. finals k x (take n fs) < bound_of x k" using owed_tail [OF o] by (auto split: if_splits)
  then have "ledger k x fs" by (rule ledger_tail [OF l])
  then have "front k x r s f fs" using assms(3) o d q w st unfolding front_def heads_def by blast
  then show thesis by (rule that)
qed

lemma settled_turn:
  assumes "line_inv k x" "settled_line k x" "heads k x r s f"
  shows "settled_line k (turn_granted cfg r s f x)"
proof -
  obtain fs where fr: "front k x r s f fs" using front_of [OF assms] .
  note p = front_parts [OF fr] and l = ledger_owned [OF front_parts(1) [OF fr]]
  define v where "v = qs_version (qx_states x s) + 1"
  define y where "y = upd_state s (\<lambda>q. q\<lparr>qs_version := v\<rparr>) x"
  have lv: "level k x y" using level_refl [OF l(1)] by (simp add: y_def level_basic)
  have b: "bound_of y k = bound_of x k" "version_of y k = v" "payload_of y k = payload_of x k" using p(5) by (simp_all add: y_def state_views)
  have "\<forall>n < length fs. finals k x (take n fs) < qs_bound (qx_states x s)"
    using l(4) p(5) by (simp add: owed_results_def bound_of_def)
  then have "ledger k y fs" unfolding y_def by (intro ledger_counts [OF p(1,5)]) (simp_all add: v_def)
  then have fy: "front k y r s f fs"
    by (rule front_level [OF fr lv]) (use p(2) in \<open>simp add: owed_results_def level_finals [OF lv] b\<close>)
  have "rf_version (qx_retained y i) < v" if "payload_of y k = Some i" for i
    using one_recovery_parts(3) [OF l(3), of i] that p(5) unfolding b(3) by (simp add: y_def v_def version_of_def)
  then have "settled_line k (invalidateOlderRetainedFallback cfg r s s v f y)" using settled_invalidate [OF fy] b(2) by simp
  moreover have "turn_granted cfg r s f x = invalidateOlderRetainedFallback cfg r s s v f y"
    using p(5,8) by (simp add: turn_granted_def queryState_def y_def v_def)
  ultimately show ?thesis by simp
qed

lemma settled_awaited:
  assumes "line_inv k x" "settled_line k x" "heads k x r s f"
    and "qx_fibers x f = Some (Q_Awaiting_Recovery r s s v s i g)" "qx_fibers x g = None"
  shows "settled_line k (recovery_awaited cfg r s s v s i f x)"
proof -
  obtain fs where fr: "front k x r s f fs" using front_of [OF assms(1-3)] .
  note p = front_parts [OF fr]
  have "awaits_recovery k x (Q_Awaiting_Recovery r s s v s i g)"
    using settled_ledger [OF assms(2)] p(4) assms(4) unfolding ledger_def account_def by simp
  then have a: "v \<le> version_of x k" "payload_of x k = None \<or> payload_of x k = Some i" "recovers k x g' \<longrightarrow> g' = g" for g'
    by (auto simp: awaits_recovery_def)
  have "\<not> recovers k x g" using assms(5) by (simp add: recovers_def)
  then have n: "\<forall>g'. \<not> recovers k x g'" using a(3) by blast
  show ?thesis
  proof (cases "qs_retained (qx_states x s) = Some i")
    case True
    have "payload_of (upd_state s (\<lambda>q. q\<lparr>qs_retained := None\<rparr>) x) k = None"
        "version_of (upd_state s (\<lambda>q. q\<lparr>qs_retained := None\<rparr>) x) k = version_of x k"
      using p(5) by (simp_all add: state_views)
    then show ?thesis using settled_invalidate [OF front_clears [OF fr n]] a(1) True by (simp add: recovery_awaited_def)
  next
    case False
    then have "payload_of x k = None" using a(2) p(5) by (auto simp: payload_of_def)
    then show ?thesis using settled_invalidate [OF fr a(1)] False by (simp add: recovery_awaited_def)
  qed
qed

lemma settled_written:
  assumes "line_inv k x" "settled_line k x" "heads k x r s f" "qx_fibers x f = Some (Q_Writing r s s ro b)"
  shows "settled_line k (result_written r s s ro b res f x)"
proof -
  obtain fs where fr: "front k x r s f fs" using front_of [OF assms(1-3)] .
  note p = front_parts [OF fr] and l = ledger_owned [OF front_parts(1) [OF fr]]
  have "writes_result k x f" using assms(4) p(8) by (auto simp: writes_result_def)
  then have n: "\<forall>g. \<not> recovers k x g"
    using settled_ledger [OF assms(2)] p(4) unfolding ledger_def account_def by simp
  show ?thesis
  proof (cases res)
    case (Inl err)
    have "mild k x (q_error err x)" using ledger_refl [OF p(1)] by (simp add: mild_basic)
    then have "front k (q_error err x) r s f fs" by (rule front_mild [OF fr]) (use l(2) in \<open>simp add: ids_basic\<close>)
    then show ?thesis using settled_done Inl by (simp add: result_written_def)
  next
    case (Inr v)
    define y where "y = upd_state s (\<lambda>q. q\<lparr>qs_satisfied := b\<rparr>) x"
    have "mild k x y" using ledger_refl [OF p(1)] by (simp add: y_def mild_basic)
    then have fy: "front k y r s f fs" by (rule front_mild [OF fr]) (use l(2) in \<open>simp add: y_def ids_basic\<close>)
    let ?z = "upd_state s (\<lambda>q. q\<lparr>qs_satisfied := b, qs_retained := (if qs_retained q = ro then None else qs_retained q)\<rparr>) x"
    have "?z = (if qs_retained (qx_states x s) = ro then upd_state s (\<lambda>q. q\<lparr>qs_retained := None\<rparr>) y else y)"
      by (simp add: y_def upd_state_def)
    moreover have "front k (upd_state s (\<lambda>q. q\<lparr>qs_retained := None\<rparr>) y) r s f fs"
      by (rule front_clears [OF fy]) (use n in \<open>simp add: y_def recovers_def\<close>)
    ultimately have "front k ?z r s f fs" using fy by simp
    then show ?thesis using settled_done Inr by (simp add: result_written_def)
  qed
qed

section \<open>Steps\<close>

text \<open>A result of the key is owed: some forwarded operation has not had its final result.\<close>

definition solicited :: "nat \<Rightarrow> query_input \<Rightarrow> reads \<Rightarrow> bool" where
  "solicited k ev x \<longleftrightarrow> steady k ev x \<and>
     (case ev of Query_Result r \<Rightarrow> of_key k r \<longrightarrow> finals k x (turn_queue x k) < bound_of x k | _ \<Rightarrow> True)"

lemma settled_arrival:
  assumes "line_inv k x" "settled_line k x" "of_key k r" "finals k x (turn_queue x k) < bound_of x k" "has_active x k"
  shows "settled_line k (query_input_step cfg (Query_Result r) x)"
proof -
  let ?f = "qx_next x" and ?q = "turn_queue x k"
  note l = ledger_owned [OF settled_ledger [OF assms(2)]]
  have k: "qo_key (qr_op r) = k" "\<not> qo_hydrate (qr_op r)" using assms(3) by (auto simp: of_key_def)
  define y where "y = snd (queryState k (snd (q_fresh x)))"
  define s where "s = fst (queryState k (snd (q_fresh x)))"
  have m: "mild k x y" unfolding y_def by (intro mild_query_state mild_fresh mild_refl l(1))
  have iy: "ids y" using l(2) by (simp add: y_def ids_basic)
  have c: "qx_current y k = Some s" unfolding y_def s_def by (rule queryState_current)
  have qy: "turn_queue y k = ?q" using mild_level [OF m] by (simp add: level_def)
  have ly: "ledger k y ?q" using settled_mild [OF assms(2) m iy] qy by (simp add: settled_line_def)
  define z where "z = upd_state s (\<lambda>q. q\<lparr>qs_turns := qs_turns q @ [?f]\<rparr>) y"
  have "\<forall>n < length ?q. finals k y (take n ?q) < qs_bound (qx_states y s)"
    using ledger_owned(4) [OF ly] c by (simp add: owed_results_def bound_of_def)
  then have lz: "ledger k z ?q" unfolding z_def by (intro ledger_counts [OF ly c]) simp_all
  let ?z = "qout (Result_Received ?f r) z"
  let ?w = "q_put ?f (Q_Waiting_Turn r s) ?z"
  have c0: "queryState k (qout (Result_Received ?f r) (snd (q_fresh x))) = (s, qout (Result_Received ?f r) y)"
    by (simp add: s_def y_def queryState_def q_fresh_def qout_def split: option.split)
  have "upd_state s (\<lambda>q. q\<lparr>qs_turns := qs_turns q @ [?f]\<rparr>) (qout (Result_Received ?f r) y) = ?z"
    by (simp add: z_def upd_state_def qout_def)
  then have e: "query_input_step cfg (Query_Result r) x = ?w"
    using k c0 by (simp add: query_result_arrives_def acquireQueryResultTurn_def q_fresh_def)
  have f: "?f < qx_next ?z" "qx_fibers x ?f = None" "qx_fibers ?z = qx_fibers x"
    using state_next [of "snd (q_fresh x)" k] l(1) by (simp_all add: z_def y_def fresh_fields owned_def tidy_def)
  have nf: "g \<noteq> ?f" if "g \<in> set ?q" for g using line_member [OF assms(1) that] f(2) by auto
  have v: "bound_of ?w k = bound_of x k" "payload_of ?w k = payload_of z k" "version_of ?w k = version_of z k"
    using mild_views(1) [OF m] c by (simp_all add: z_def state_views)
  have "fits ?z st = fits z st" for st by simp
  then have "owned ?z" using ledger_owned(1) [OF lz] unfolding owned_def tidy_def by simp
  moreover have "qx_current z k = Some s" using c by (simp add: z_def)
  then have "fits z (Q_Recovering k s 0)" by (rule fits_recovery [OF ledger_owned(1) [OF lz]])
  then have "fits z (Q_Waiting_Turn r s)" using k by (simp add: fits_def)
  then have "fits ?z (Q_Waiting_Turn r s)" by simp
  ultimately have o: "owned ?w" using owned_put f(1) by blast
  have i: "ids ?w" using ledger_owned(2) [OF lz] by (simp add: ids_basic)
  have rec: "recovers k ?w g \<longleftrightarrow> recovers k z g" for g using f(2,3) by (auto simp: recovers_def)
  have one: "one_recovery k ?w" by (rule one_recovery_sub [OF ledger_owned(3) [OF lz]]) (use f(2,3) in \<open>auto simp: recovery_of_def split: if_splits\<close>)
  have "filter (final_result k ?w) gs = filter (final_result k x) gs" if "set gs \<subseteq> set ?q" for gs
    by (rule filter_cong) (use that nf f(3) in \<open>auto simp: final_result_def\<close>)
  then have fin: "finals k ?w gs = finals k x gs" if "set gs \<subseteq> set ?q" for gs using that by (simp add: finals_def)
  have owed: "owed_results k ?w (?q @ [?f])" unfolding owed_results_def v(1)
  proof (intro allI impI)
    fix n assume n: "n < length (?q @ [?f])"
    have "finals k ?w (take n ?q) = finals k x (take n ?q)" by (rule fin) (rule set_take_subset)
    moreover have "finals k x (take n ?q) < bound_of x k"
      using l(4) assms(4) n by (cases "n = length ?q") (auto simp: owed_results_def)
    ultimately show "finals k ?w (take n (?q @ [?f])) < bound_of x k" using n by simp
  qed
  have "ledger k ?w (?q @ [?f])"
  proof (rule ledger_parts [OF o i owed one])
    have z: "qx_fibers z = qx_fibers x" using f(3) by simp
    show "\<forall>g. \<not> recovers k ?w g" if "h \<in> set (?q @ [?f])" "writes_result k ?w h" for h
    proof -
      have "h \<in> set ?q" "writes_result k z h" using that nf z by (auto simp: writes_result_def split: if_splits)
      then show ?thesis using lz unfolding rec ledger_def account_def by blast
    qed
    show "awaits_recovery k ?w st" if "h \<in> set (?q @ [?f])" "qx_fibers ?w h = Some st" for h st
    proof (cases "h = ?f")
      case True
      then have "st = Q_Waiting_Turn r s" using that(2) by simp
      then show ?thesis by (simp add: awaits_recovery_def)
    next
      case False
      then have "h \<in> set ?q" "qx_fibers z h = Some st" using that z by simp_all
      then have "awaits_recovery k z st" using lz unfolding ledger_def account_def by blast
      then show ?thesis by (rule awaits_same [OF v(3,2), rotated]) (simp add: rec)
    qed
    show "\<exists>st. qx_fibers ?w h = Some st \<and> result_fiber k st" if "h \<in> set (?q @ [?f])" for h
      using that nf line_member [OF assms(1), of h] k f(3) by (cases "h = ?f") auto
  qed
  moreover have "turn_queue ?w k = ?q @ [?f]" using c qy by (simp add: z_def turn_queue_def)
  ultimately show ?thesis unfolding e by (simp add: settled_line_def)
qed

lemma mild_arrives: "mild k x y \<Longrightarrow> mild k x (y\<lparr>qx_active := (qx_active y)(k' := Some op)\<rparr>)"
  by (rule mild_frame [OF _ level_arrives [OF mild_level]]) (simp_all add: state_views split: option.split)

lemma settled_query:
  assumes "settled_line k x" shows "settled_line k (query_input_step cfg (Query_In op) x)"
proof -
  note l = ledger_owned [OF settled_ledger [OF assms]]
  define y where "y = qout (Query_Arrived (qx_next x) op) (snd (q_fresh x))"
  define z where "z = (if qo_hydrate op then y else y\<lparr>qx_active := (qx_active y)(qo_key op := Some op)\<rparr>)"
  have y: "mild k x y" using mild_refl [OF l(1)] by (simp add: y_def mild_basic)
  then have z: "mild k x z" by (simp add: z_def mild_arrives)
  have "ids z" using l(2) by (simp add: z_def y_def ids_basic)
  then have lz: "ledger k z (turn_queue x k)" using ledger_mild [OF settled_ledger [OF assms] z] by blast
  have "alien_at k z (qx_next x)" using l(1) by (auto simp: alien_at_def z_def y_def fresh_fields owned_def tidy_def)
  then have "ledger k (readThenRoute cfg op (qx_next x) z) (turn_queue x k)" by (rule ledger_reads(3) [OF lz])
  moreover have "query_input_step cfg (Query_In op) x = readThenRoute cfg op (qx_next x) z"
    by (cases "qo_hydrate op") (simp_all add: z_def y_def q_fresh_def Let_def)
  ultimately have "ledger k (query_input_step cfg (Query_In op) x) (turn_queue x k)" by metis
  then show ?thesis by (rule settled_level [OF assms query_arrival [OF l(1)]])
qed

lemma settled_teardown:
  assumes "settled_line k x" "k' \<noteq> k" shows "settled_line k (query_input_step cfg (Teardown_In k') x)"
proof -
  note l = ledger_owned [OF settled_ledger [OF assms(1)]]
  have lv: "level k x (query_input_step cfg (Teardown_In k') x)" by (rule query_teardown [OF l(1) assms(2)])
  have "mild k x (query_input_step cfg (Teardown_In k') x)"
    by (rule mild_frame [OF mild_refl [OF l(1)] lv]) (use assms(2) in \<open>simp_all add: q_fresh_def qout_def state_views split: option.split\<close>)
  then show ?thesis using settled_mild [OF assms(1)] ids_step [OF l(2)] by blast
qed

lemma settled_foreign_arrival:
  assumes "settled_line k x" "\<not> of_key k r" shows "settled_line k (query_input_step cfg (Query_Result r) x)"
proof -
  note l = ledger_owned [OF settled_ledger [OF assms(1)]]
  let ?f = "qx_next x"
  define y where "y = qout (Result_Received ?f r) (snd (q_fresh x))"
  have y: "mild k x y" using mild_refl [OF l(1)] assms(2) by (simp add: y_def mild_basic)
  have a: "alien_at k y ?f" using l(1) by (auto simp: alien_at_def y_def fresh_fields owned_def tidy_def)
  have e: "query_input_step cfg (Query_Result r) x = query_result_arrives cfg r ?f y" by (simp add: y_def q_fresh_def)
  have "mild k x (query_result_arrives cfg r ?f y)"
  proof (cases "qo_hydrate (qr_op r)")
    case True
    then show ?thesis using y a assms(2) by (simp add: query_result_arrives_def mild_basic)
  next
    case False
    let ?k = "qo_key (qr_op r)"
    define w where "w = snd (queryState ?k y)"
    define s where "s = fst (queryState ?k y)"
    have k: "?k \<noteq> k" using False assms(2) by (simp add: of_key_def)
    have w: "mild k x w" "mild k y w" using y mild_refl [OF mild_owned(1) [OF y]] by (simp_all add: w_def mild_basic)
    have c: "qx_current w ?k = Some s" unfolding w_def s_def by (rule queryState_current)
    then have "qx_current w k \<noteq> Some s" using k mild_owned(1) [OF w(1)] by (auto simp: owned_def)
    then have z: "mild k x (upd_state s (\<lambda>q. q\<lparr>qs_turns := qs_turns q @ [?f]\<rparr>) w)" using w(1) by (simp add: mild_basic)
    have "fits w (Q_Waiting_Turn r s)" using c mild_owned(1) [OF w(1)] False by (auto simp: fits_def owned_def)
    then have "mild k x (q_put ?f (Q_Waiting_Turn r s) (upd_state s (\<lambda>q. q\<lparr>qs_turns := qs_turns q @ [?f]\<rparr>) w))"
      using mild_put [OF z] alien_mild [OF a w(2)] k by simp
    then show ?thesis using False by (simp add: query_result_arrives_def acquireQueryResultTurn_def case_prod_beta w_def s_def)
  qed
  then show ?thesis using settled_mild [OF assms(1)] ids_step [OF l(2), of cfg "Query_Result r"] e by simp
qed

lemma fiber_alien:
  assumes "owned x" "qx_fibers x f = Some st" "alien k st" shows "alien_at k x f"
proof -
  have "f < qx_next x" using assms(1,2) unfolding owned_def tidy_def by (metis not_less option.distinct(1))
  then show ?thesis using assms(2,3) by (simp add: alien_at_def)
qed

lemma fiber_strange:
  assumes "owned x" "qx_fibers x f = Some st" "fiber_result st = Some r" "fiber_key st \<noteq> k" "s1 \<in> set (fiber_states st)"
  shows "strange k x r s1 f"
proof -
  have "alien_at k x f" by (rule fiber_alien [OF assms(1,2)]) (use assms(4) in \<open>simp add: alien_def\<close>)
  then show ?thesis using owned_fits [OF assms(1,2)] assms(3-5) by (cases st) (auto simp: strange_def fits_def)
qed

lemma settled_resumes:
  assumes "line_inv k x" "settled_line k x" shows "settled_line k (resume_query cfg f res x)"
proof (cases "qx_fibers x f")
  case None
  then show ?thesis using assms(2) by (simp add: resume_query_def)
next
  case (Some st)
  note g = settled_ledger [OF assms(2)] and l = ledger_owned [OF settled_ledger [OF assms(2)]]
  have i: "ids (resume_query cfg f res x)" using ids_step [OF l(2), of cfg "Query_Settled f res"] by simp
  have a: "alien_at k x f" if "alien k st" by (rule fiber_alien [OF l(1) Some that])
  have o: "other_fiber k x f" if "alien k st" by (rule alien_other [OF a [OF that]])
  note keeps = settled_level [OF assms(2)]
  have plain: "settled_line k (resume_query cfg f res x)" if "mild k x (resume_query cfg f res x)"
    by (rule settled_mild [OF assms(2) that i])
  show ?thesis
  proof (cases st)
    case (Q_Reading op)
    then show ?thesis using keeps level_reads(1) [OF level_refl [OF l(1)] o] ledger_reads(1) [OF g a] Some
      by (simp add: resume_query_def)
  next
    case (Q_Rereading op)
    then show ?thesis using keeps level_reads(2) [OF level_refl [OF l(1)] o] ledger_reads(2) [OF g a] Some
      by (simp add: resume_query_def)
  next
    case (Q_Hydrating r)
    then have "qo_hydrate (qr_op r)" using owned_fits [OF l(1) Some] by (simp add: fits_def)
    then have "mild k x (hydrated r res f x)" using a Q_Hydrating mild_refl [OF l(1)]
      by (cases res) (simp_all add: hydrated_def mild_basic of_key_def)
    then show ?thesis using plain Some Q_Hydrating by (simp add: resume_query_def)
  next
    case (Q_Writing r s1 s2 ro b)
    show ?thesis
    proof (cases "qo_key (qr_op r) = k")
      case True
      then have rf: "result_fiber k st" using Q_Writing by simp
      then have "f = hd (turn_queue x k)" using line_fiber [OF assms(1) Some rf] Q_Writing by auto
      then obtain s where s: "heads k x r s f" "s1 = s" "s2 = s"
        using fiber_heads [OF assms(1) Some rf, of r] Q_Writing by auto
      then show ?thesis using settled_written [OF assms s(1)] Some Q_Writing by (simp add: resume_query_def)
    next
      case False
      then have st: "strange k x r s1 f" using fiber_strange [OF l(1) Some] Q_Writing by simp
      have "fits x (Q_Writing r s1 s2 None True)" using owned_fits [OF l(1) Some] Q_Writing by (simp add: fits_def)
      then have "mild k x (result_written r s1 s2 ro b res f x)" by (rule mild_results(2) [OF st l(1,2)])
      then show ?thesis using plain Some Q_Writing by (simp add: resume_query_def)
    qed
  next
    case (Q_Recovering k' s i)
    show ?thesis
    proof (cases "k' = k")
      case True
      then have "ledger k (recovery_settled k s i res f x) (turn_queue x k)" using ledger_settled [OF g] Some Q_Recovering by simp
      moreover have "level k x (recovery_settled k s i res f x)"
        by (rule level_recovery(1) [OF level_refl [OF l(1)]])
          (use owned_fits [OF l(1) Some] Some Q_Recovering True l(1) in \<open>auto simp: other_fiber_def owned_def tidy_def not_less [symmetric]\<close>)
      ultimately show ?thesis using keeps Some Q_Recovering True by (simp add: resume_query_def)
    next
      case False
      then have "mild k x (recovery_settled k' s i res f x)"
        using mild_recovery(1) [OF mild_refl [OF l(1)] a False l(2) Some] Q_Recovering by simp
      then show ?thesis using plain Some Q_Recovering by (simp add: resume_query_def)
    qed
  qed (use Some assms(2) in \<open>simp_all add: resume_query_def\<close>)
qed

lemma settled_turns:
  assumes "line_inv k x" "settled_line k x" shows "settled_line k (query_input_step cfg (Turn_Granted f) x)"
proof (cases "\<exists>r s1 fs. qx_fibers x f = Some (Q_Waiting_Turn r s1) \<and> qs_turns (qx_states x s1) = f # fs")
  case True
  then obtain r s1 fs where f: "qx_fibers x f = Some (Q_Waiting_Turn r s1)" and q: "qs_turns (qx_states x s1) = f # fs" by blast
  note l = ledger_owned [OF settled_ledger [OF assms(2)]]
  have e: "query_input_step cfg (Turn_Granted f) x = turn_granted cfg r s1 f x" using f q by simp
  show ?thesis
  proof (cases "qo_key (qr_op r) = k")
    case True
    then have rf: "result_fiber k (Q_Waiting_Turn r s1)" by simp
    then have c: "qx_current x k = Some s1" using line_fiber [OF assms(1) f rf] by auto
    then have "f = hd (turn_queue x k)" using q by (simp add: turn_queue_def)
    then obtain s where "heads k x r s f" "s = s1" using fiber_heads [OF assms(1) f rf, of r] by auto
    then show ?thesis unfolding e using settled_turn [OF assms] by simp
  next
    case False
    then have st: "strange k x r s1 f" using fiber_strange [OF l(1) f] by simp
    show ?thesis unfolding e
      by (rule settled_mild [OF assms(2) mild_turn [OF st l(1,2)]]) (rule ids_results(2) [OF l(2)])
  qed
next
  case False
  then show ?thesis using assms(2) by (auto split: option.split query_fiber.split list.split)
qed

lemma settled_reacts:
  assumes "settled_line k x" shows "settled_line k (query_input_step cfg (Recovery_Reacts g) x)"
proof (cases "\<exists>k' s i. qx_fibers x g = Some (Q_Recovered k' s i)")
  case True
  then obtain k' s i where g: "qx_fibers x g = Some (Q_Recovered k' s i)" by blast
  note l = ledger_owned [OF settled_ledger [OF assms]]
  have e: "query_input_step cfg (Recovery_Reacts g) x = recovery_reaction k' s i g x" using g by simp
  show ?thesis
  proof (cases "k' = k")
    case True
    have "fits x (Q_Recovering k' s i)" using owned_fits [OF l(1) g] by (simp add: fits_def)
    moreover have "other_fiber k x g" using l(1) g unfolding owned_def tidy_def other_fiber_def by (auto simp: not_less [symmetric])
    ultimately have "level k x (recovery_reaction k' s i g x)" using level_recovery(2) [OF level_refl [OF l(1)]] by blast
    then show ?thesis unfolding e using settled_level [OF assms] ledger_reaction [OF settled_ledger [OF assms]] g True by simp
  next
    case False
    have "alien_at k x g" by (rule fiber_alien [OF l(1) g]) (use False in simp)
    then have "mild k x (recovery_reaction k' s i g x)"
      using mild_recovery(2) [OF mild_refl [OF l(1)] _ False l(2) g] by simp
    then show ?thesis unfolding e using settled_mild [OF assms] ids_recovery(2) [OF l(2) g] by (simp add: fiber_link_def)
  qed
next
  case False
  then show ?thesis using assms by (auto split: option.split query_fiber.split)
qed

lemma settled_waits:
  assumes "line_inv k x" "settled_line k x" shows "settled_line k (query_input_step cfg (Recovery_Awaited f) x)"
proof (cases "\<exists>r s1 s2 v s i g. qx_fibers x f = Some (Q_Awaiting_Recovery r s1 s2 v s i g) \<and> qx_fibers x g = None")
  case True
  then obtain r s1 s2 v s i g where f: "qx_fibers x f = Some (Q_Awaiting_Recovery r s1 s2 v s i g)" and n: "qx_fibers x g = None"
    by blast
  note l = ledger_owned [OF settled_ledger [OF assms(2)]]
  have fits: "fits x (Q_Awaiting_Recovery r s1 s2 v s i g)" by (rule owned_fits [OF l(1) f])
  have e: "query_input_step cfg (Recovery_Awaited f) x = recovery_awaited cfg r s1 s2 v s i f x" using f n by simp
  show ?thesis
  proof (cases "qo_key (qr_op r) = k")
    case True
    then have rf: "result_fiber k (Q_Awaiting_Recovery r s1 s2 v s i g)" by simp
    then have "f = hd (turn_queue x k)" using line_fiber [OF assms(1) f rf] by auto
    then obtain s' where s': "heads k x r s' f" "s1 = s'" "s2 = s'" "s = s'" using fiber_heads [OF assms(1) f rf, of r] by auto
    then show ?thesis unfolding e using settled_awaited [OF assms s'(1)] f n by simp
  next
    case False
    then have st: "strange k x r s1 f" using fiber_strange [OF l(1) f] by simp
    have "fits x (Q_Writing r s1 s2 None True)" "qx_current x k \<noteq> Some s" using fits False by (auto simp: fits_def)
    then show ?thesis unfolding e
      using settled_mild [OF assms(2) mild_results(1) [OF st l(1,2)]] ids_results(1) [OF l(2)] by blast
  qed
next
  case False
  then show ?thesis using assms(2) by (auto split: option.split query_fiber.split)
qed

lemma settled_step:
  assumes "line_inv k x" "settled_line k x" "solicited k ev x" shows "settled_line k (query_input_step cfg ev x)"
proof (cases ev)
  case (Query_In op)
  then show ?thesis using settled_query [OF assms(2)] by blast
next
  case (Teardown_In k')
  then have "k' \<noteq> k" using assms(3) by (simp add: solicited_def steady_def)
  then show ?thesis using Teardown_In settled_teardown [OF assms(2)] by blast
next
  case (Query_Result r)
  then show ?thesis using assms settled_arrival settled_foreign_arrival [OF assms(2)]
    by (cases "of_key k r") (auto simp: solicited_def steady_def simp del: query_input_step.simps)
next
  case (Ops_Affected ks)
  note l = ledger_owned [OF settled_ledger [OF assms(2)]]
  show ?thesis using Ops_Affected settled_level [OF assms(2) level_push [OF level_refl [OF l(1)]] ledger_push [OF settled_ledger [OF assms(2)]]]
    by simp
qed (use assms settled_resumes settled_turns settled_reacts settled_waits in \<open>simp_all del: query_input_step.simps(6-8)\<close>)

definition served :: "nat \<Rightarrow> reads \<Rightarrow> bool" where
  "served k x \<longleftrightarrow> line_inv k x \<and> settled_line k x"

lemma served_init: "served k initial_reads"
proof -
  have i: "owned initial_reads" using line_owned(1) [OF line_init] .
  have "ids initial_reads" by (simp add: ids_def link_def initial_reads_def initial_query_state_def)
  moreover have "one_recovery k initial_reads" by (simp add: one_recovery_def initial_reads_def payload_of_def)
  moreover have "turn_queue initial_reads k = []" by (simp add: initial_reads_def turn_queue_def)
  ultimately have "settled_line k initial_reads" using i by (simp add: settled_line_def ledger_def account_def owed_results_def)
  then show ?thesis by (simp add: served_def line_init)
qed

interpretation answers: guarded_machine initial_reads "query_step cfg" "solicited k" "served k" for cfg k
proof unfold_locales
  show "served k initial_reads" by (rule served_init)
  show "served k (snd (query_step cfg ev x))" if "served k x" "solicited k ev x" for ev x
    using that line_step settled_step by (simp add: served_def query_step_def solicited_def)
qed

end
