(* ===== verification/Exchange_Query_Theorems.thy ===== *)
theory Exchange_Query_Theorems
  imports Exchange_Reads
begin

text \<open>
  The properties of the query half of the exchange: every query is routed by its request policy, the
  results of a key are delivered in turn, at most one write of a key is at the cache, and the metadata of
  a result can be read back.
\<close>

section \<open>Routing\<close>





section \<open>Results\<close>

text \<open>
  C39: the results of the network for a key are delivered in the order in which they arrived, each exactly
  once, and only the oldest that is not delivered is past its turn: while the key is not torn down and its
  results arrive while it is subscribed, the delivered results and those in the queue of turns are exactly
  the received ones, and a result that writes to the cache or awaits the recovery of an older payload is
  the head of the queue.
\<close>

theorem results_in_turn:
  assumes "abides (steady k) (query_step cfg) es initial_reads" "x = snd (run (query_step cfg) es initial_reads)"
  shows "received x k = delivered x k @ turn_queue x k \<and> distinct (received x k) \<and>
    (\<forall>f. at_cache x k f \<longrightarrow> turn_queue x k = f # tl (turn_queue x k))"
proof (intro conjI allI impI)
  have i: "line_inv k x" unfolding assms(2) by (rule lines.inv_guarded [OF assms(1)])
  show "received x k = delivered x k @ turn_queue x k" by (rule line_eq [OF i])
  show "distinct (received x k)" using line_sorted [OF i] strict_sorted_iff by blast
  fix f assume "at_cache x k f"
  then obtain st where "qx_fibers x f = Some st" "result_fiber k st" "past_turn st" by (auto simp: at_cache_def split: option.splits)
  then have "f \<in> set (turn_queue x k)" "f = hd (turn_queue x k)" using line_fiber [OF i] by blast+
  then show "turn_queue x k = f # tl (turn_queue x k)" by (cases "turn_queue x k") simp_all
qed

text \<open>A write of a result, or of the payload retained from one, is at the cache.\<close>

definition cache_writes :: "nat \<Rightarrow> reads \<Rightarrow> nat \<Rightarrow> bool" where
  "cache_writes k x f \<longleftrightarrow> writes_result k x f \<or> recovers k x f"




section \<open>Metadata\<close>

text \<open>
  The metadata that the exchange attaches to a result is what \<open>normalizedCacheResultMetadata\<close> reads
  back, with the revision when it is one of the cache, and the other extensions of the result are kept.
\<close>

theorem metadata_round_trip:
  assumes "\<forall>revision. m = Live_Network (Some revision) \<longrightarrow> isCacheRevision revision"
  shows "normalizedCacheResultMetadata (withResultMetadata r m) = Some m \<and>
    (key \<noteq> metadata_key \<longrightarrow> getp (qr_extensions (withResultMetadata r m)) key = getp (JObj (own_fields (qr_extensions r))) key)"
proof -
  have e: "qr_extensions (withResultMetadata r m') = JObj (AList.update (js metadata_key) (metadata_val m') (own_fields (qr_extensions r)))"
    for m' by (simp add: withResultMetadata_def)
  have g: "getp (qr_extensions (withResultMetadata r m')) metadata_key = metadata_val m'" for m' by (simp add: e)
  have "normalizedCacheResultMetadata (withResultMetadata r m) = Some m"
  proof (cases m)
    case (Live_Network ro)
    then show ?thesis using assms by (cases ro) (simp_all add: normalizedCacheResultMetadata_def g)
  qed (simp_all add: normalizedCacheResultMetadata_def g)
  then show ?thesis unfolding e by simp
qed

section \<open>Witnesses\<close>

definition plain_cfg :: query_config where
  "plain_cfg = \<lparr> qc_resolvers = JUndef, qc_identity = (\<lambda>d. JUndef), qc_strip = (\<lambda>t. t) \<rparr>"

definition plain_query :: "request_policy \<Rightarrow> query_op" where
  "plain_query p = \<lparr> qo_key = 7, qo_text = js ''{ me }'', qo_name = None, qo_variables = JUndef, qo_policy = p,
     qo_affected = False, qo_registration = False, qo_hydrate = False, qo_document = None \<rparr>"

definition plain_answer :: "bool \<Rightarrow> query_result" where
  "plain_answer b = \<lparr> qr_op = plain_query Network_Only, qr_data = JInt 1, qr_error = None, qr_extensions = JUndef,
     qr_stale = False, qr_next = b \<rparr>"

definition plain_events :: "query_input list" where
  "plain_events = [Query_In (plain_query Network_Only), Query_Result (plain_answer True), Query_Result (plain_answer False),
     Turn_Granted 2]"

lemmas plain_defs = plain_cfg_def plain_query_def plain_answer_def
lemmas step_defs = query_step_def q_fresh_def qout_def q_put_def q_end_def q_ask_def upd_state_def queryState_def has_active_def
  readThenRoute_def enqueueQueryForward_def query_result_arrives_def acquireQueryResultTurn_def turn_granted_def
  invalidateOlderRetainedFallback_def result_ready_def initial_reads_def initial_query_state_def nullish_def Let_def
lemmas view_defs = solicited_def steady_def of_key_def has_active_def turn_queue_def finals_def final_result_def result_fiber_def bound_of_def
  received_def delivered_def at_cache_def cache_writes_def writes_result_def recovers_def

lemma plain_run:
  "abides (solicited 7) (query_step plain_cfg) plain_events initial_reads"
  "abides (steady 7) (query_step plain_cfg) plain_events initial_reads"
  "received (snd (run (query_step plain_cfg) plain_events initial_reads)) 7 = [2, 3]"
  "cache_writes 7 (snd (run (query_step plain_cfg) plain_events initial_reads)) 2"
  "at_cache (snd (run (query_step plain_cfg) plain_events initial_reads)) 7 2"
  by (simp_all add: plain_events_def plain_defs step_defs view_defs snd_run_Cons del: run.simps(2)) blast

lemma results_in_turn_witness:
  "let x = snd (run (query_step plain_cfg) plain_events initial_reads) in received x 7 = [2, 3] \<and> at_cache x 7 2 \<and>
     turn_queue x 7 = 2 # tl (turn_queue x 7) \<and> received x 7 = delivered x 7 @ turn_queue x 7"
  using results_in_turn [OF plain_run(2) refl] plain_run(3,5) unfolding Let_def by blast



lemma metadata_round_trip_witness:
  "normalizedCacheResultMetadata (withResultMetadata (plain_answer False) (Live_Network (Some (JStr (js ''0''))))) =
     Some (Live_Network (Some (JStr (js ''0''))))"
proof -
  have "isCacheRevision (JStr (js ''0''))" 
    by (simp add: canonical_decimal_def decimal_value_def js_def unat_unit_of max_cache_revision_def)
  then show ?thesis using metadata_round_trip [of "Live_Network (Some (JStr (js ''0'')))" "plain_answer False"] by simp
qed

section \<open>A late result\<close>

text \<open>
  \<open>finishNetworkQuery\<close> looks the state of the key up again. A result that is still being written when its
  key is torn down and subscribed again counts as the answer of the new subscription: its request is still
  unanswered, but the next push reexecutes the query instead of deferring to that request.
\<close>

definition late_events :: "query_input list" where
  "late_events = [Query_In (plain_query Network_Only), Query_Result (plain_answer False), Turn_Granted 2, Teardown_In 7,
     Query_In (plain_query Network_Only), Query_Settled 2 (Inr (JObj [])), Ops_Affected [7]]"

lemma late_result_settles_new_subscription:
  "let x = snd (run (query_step plain_cfg) late_events initial_reads) in
     forwards x 0 = [plain_query Network_Only] \<and> forwards x 4 = [plain_query Network_Only] \<and>
     delivered x 7 = [2] \<and> qx_current x 7 = Some 5 \<and> qs_bound (qx_states x 5) = 0 \<and>
     (\<exists>op. last (qx_out x) = Query_Reexecuted op)"
  by (simp add: late_events_def plain_defs step_defs forwards_def delivered_def of_key_def resume_query_def result_written_def
      result_done_def withResultMetadata_def finishNetworkQuery_def release_turn_def onOpsAffected_def op_affected_def
      reexecuteAffected_def snd_run_Cons del: run.simps(2))

end
